(* ===== verification/Prelude.thy ===== *)
theory Prelude
  imports Main "HOL-Library.Word" "HOL-Library.Monad_Syntax"
begin

text \<open>
  Shared by every component: the C integer types as machine words, singly linked lists
  threaded through a heap of records (the run queue, the free list, the zombies and the
  waiter lists of the runtime are all of this kind), and a few facts about words, lists
  and counting that several components use.
\<close>

unbundle bit_operations_syntax

type_synonym u8 = "8 word"
type_synonym u16 = "16 word"
type_synonym u32 = "32 word"
type_synonym u64 = "64 word"

named_theorems chain_frame \<open>linked lists unaffected by an update elsewhere\<close>

section \<open>Linked lists in a heap\<close>

text \<open>
  \<^verbatim>\<open>chain nx p xs\<close>: following the link field \<^verbatim>\<open>nx\<close> from the pointer \<^verbatim>\<open>p\<close>
  (None is NULL) visits exactly the nodes \<^verbatim>\<open>xs\<close> and then ends in NULL.
\<close>

primrec chain :: "('p \<Rightarrow> 'p option) \<Rightarrow> 'p option \<Rightarrow> 'p list \<Rightarrow> bool" where
  "chain nx p [] \<longleftrightarrow> p = None"
| "chain nx p (x # xs) \<longleftrightarrow> p = Some x \<and> chain nx (nx x) xs"

lemma chain_None [simp]: "chain nx None xs \<longleftrightarrow> xs = []"
  by (cases xs) auto

lemma chain_Some: "chain nx (Some p) xs \<longleftrightarrow> (\<exists>ys. xs = p # ys \<and> chain nx (nx p) ys)"
  by (cases xs) auto

lemma chain_frame_eq [chain_frame]:
  "(\<And>x. x \<in> set xs \<Longrightarrow> nx' x = nx x) \<Longrightarrow> chain nx' p xs = chain nx p xs"
  by (induction xs arbitrary: p) auto

lemma chain_upd_outside [simp]: "q \<notin> set xs \<Longrightarrow> chain (nx(q := v)) p xs = chain nx p xs"
  by (rule chain_frame_eq) auto

lemma chain_functional: "chain nx p xs \<Longrightarrow> chain nx p ys \<Longrightarrow> xs = ys"
proof (induction xs arbitrary: p ys)
  case Nil
  then show ?case by simp
next
  case (Cons x xs)
  then show ?case by (cases ys) auto
qed

lemma chain_split:
  "chain nx p (xs @ x # ys) \<Longrightarrow> chain nx (nx x) ys"
  by (induction xs arbitrary: p) auto

lemma chain_head_fresh: "chain nx (nx x) xs \<Longrightarrow> x \<notin> set xs"
proof
  assume c: "chain nx (nx x) xs" and "x \<in> set xs"
  then obtain as bs where xs: "xs = as @ x # bs" by (auto simp: in_set_conv_decomp)
  with c have "chain nx (nx x) bs" by (blast dest: chain_split)
  with c have "xs = bs" by (rule chain_functional)
  with xs show False by simp
qed

lemma chain_distinct: "chain nx p xs \<Longrightarrow> distinct xs"
  by (induction xs arbitrary: p) (auto dest: chain_head_fresh)

text \<open>Appending a node behind the last one, whose link is overwritten.\<close>

lemma chain_snoc:
  assumes "chain nx p (xs @ [l])" and "q \<notin> set (xs @ [l])" and "nx q = None"
  shows "chain (nx(l := Some q)) p (xs @ [l, q])"
  using assms
proof (induction xs arbitrary: p)
  case Nil
  then show ?case by auto
next
  case (Cons x xs)
  have "x \<noteq> l" using chain_distinct [OF Cons.prems(1)] by auto
  with Cons show ?case by auto
qed

text \<open>Unlinking a node behind another: the earlier one takes over its link.\<close>

lemma chain_unlink:
  assumes "chain nx p (xs @ x # y # ys)"
  shows "chain (nx(x := nx y)) p (xs @ x # ys)"
  using assms
proof (induction xs arbitrary: p)
  case Nil
  then have "x \<notin> set ys" using chain_distinct [OF Nil] by simp
  then have "chain (nx(x := nx y)) (nx y) ys = chain nx (nx y) ys" by (rule chain_upd_outside)
  with Nil show ?case by (simp del: fun_upd_apply add: fun_upd_same)
next
  case (Cons z xs)
  have "z \<noteq> x" using chain_distinct [OF Cons.prems] by simp
  with Cons show ?case by auto
qed

section \<open>Counting\<close>

lemma card_Suc_insert_bounded:
  assumes "finite A" and "x \<notin> A"
  shows "card (insert x A) = Suc (card A)"
  using assms by simp

lemma card_filter_bounded: "card {x. x < (n::nat) \<and> P x} \<le> n"
  by (metis (mono_tags, lifting) card_mono card_lessThan finite_lessThan lessThan_iff mem_Collect_eq subsetI)

lemma finite_bounded_Collect [simp, intro]: "finite {x. x < (n::nat) \<and> P x}"
  by simp

lemma unat_of_nat_id: "n < 2 ^ LENGTH('a) \<Longrightarrow> unat (of_nat n :: 'a::len word) = n"
  by (simp add: unsigned_of_nat take_bit_nat_eq_self)

lemma of_nat_eq_0: "n < 2 ^ LENGTH('a) \<Longrightarrow> (of_nat n :: 'a::len word) = 0 \<longleftrightarrow> n = 0"
  by (drule unat_of_nat_id) auto

section \<open>Alignment\<close>

text \<open>
  Rounding up to a power of two as C spells it, \<^verbatim>\<open>(x + (a - 1)) & ~(a - 1)\<close>: with no
  overflow it is the least multiple of \<^verbatim>\<open>a\<close> that is not below \<^verbatim>\<open>x\<close>.
\<close>

definition align_up :: "'a::len word \<Rightarrow> 'a word \<Rightarrow> 'a word" where
  "align_up x a = (x + (a - 1)) AND NOT (a - 1)"

lemma and_not_mask_push_drop:
  "x AND NOT (mask k) = push_bit k (drop_bit k (x :: 'a::len word))"
  by (rule bit_word_eqI) (auto simp: bit_simps)

lemma unat_and_not_mask:
  "unat (x AND NOT (mask k)) = unat (x :: 'a::len word) div 2 ^ k * 2 ^ k"
proof -
  have self: "take_bit LENGTH('a) (unat x) = unat x"
    by (rule take_bit_nat_eq_self) simp
  have "unat (x AND NOT (mask k)) = take_bit LENGTH('a) (push_bit k (drop_bit k (unat x)))"
    unfolding and_not_mask_push_drop by (simp add: unsigned_push_bit_eq unsigned_drop_bit_eq self)
  also have "\<dots> = push_bit k (drop_bit k (unat x))"
    by (rule take_bit_nat_eq_self)
       (metis unsigned_less div_times_less_eq_dividend drop_bit_eq_div push_bit_eq_mult le_less_trans)
  finally show ?thesis by (simp add: push_bit_eq_mult drop_bit_eq_div)
qed

lemma unat_align_up:
  assumes "k < LENGTH('a)" and "unat x + 2 ^ k - 1 < 2 ^ LENGTH('a)"
  shows "unat (align_up (x :: 'a::len word) (2 ^ k)) = (unat x + (2 ^ k - 1)) div 2 ^ k * 2 ^ k"
proof -
  have m: "(2 :: 'a word) ^ k - 1 = mask k" by (simp add: mask_eq_exp_minus_1)
  have u: "unat (mask k :: 'a word) = 2 ^ k - 1"
    using assms(1)
    by (simp only: unat_eq_nat_uint uint_mask_eq)
      (simp add: mask_eq_exp_minus_1 nat_diff_distrib nat_power_eq min_def)
  have "unat (x + mask k) = unat x + (2 ^ k - 1)"
    using assms(2) by (simp add: unat_word_ariths u)
  then show ?thesis by (simp add: align_up_def m unat_and_not_mask)
qed

lemma align_up_bounds:
  assumes "k < LENGTH('a)" and "unat x + 2 ^ k - 1 < 2 ^ LENGTH('a)"
  shows "unat x \<le> unat (align_up (x :: 'a::len word) (2 ^ k))"
    and "unat (align_up x (2 ^ k)) < unat x + 2 ^ k"
    and "2 ^ k dvd unat (align_up x (2 ^ k))"
proof -
  let ?m = "unat x + (2 ^ k - 1)"
  have e: "unat (align_up x (2 ^ k)) = ?m div 2 ^ k * 2 ^ k" by (rule unat_align_up [OF assms])
  have "?m div 2 ^ k * 2 ^ k + ?m mod 2 ^ k = ?m" by (rule div_mult_mod_eq)
  moreover have "?m mod 2 ^ k < 2 ^ k" by simp
  moreover have "(0::nat) < 2 ^ k" by simp
  ultimately show "unat x \<le> unat (align_up x (2 ^ k))" "unat (align_up x (2 ^ k)) < unat x + 2 ^ k"
    unfolding e by linarith+
  show "2 ^ k dvd unat (align_up x (2 ^ k))" unfolding e by simp
qed

end
