(* ===== verification/Closure.thy ===== *)
theory Closure
  imports Prelude
begin

text \<open>
  Closures (closure.h): a function pointer and the environment it captured, the header every
  environment starts with, and how a closure that will never be called is given up. Pointers
  are addresses (\<^verbatim>\<open>nat\<close>), NULL is None; what the environment header at an address holds
  is read through a map of the memory, and the calls that act on an environment (its captures'
  drop function, \<^verbatim>\<open>_sppc_env_free\<close>) are returned as a list, in the order they are made.
\<close>

record sppc_closure =
  fn :: nat
  env :: "nat option"

record sppc_closure_env =
  owns :: u8
  drop_captures :: "nat option"

datatype env_call =
    DropCaptures nat nat  \<comment> \<open>the drop function called, on the environment\<close>
  | EnvFree nat

definition sppc_closure_discard ::
  "(nat \<Rightarrow> sppc_closure_env) \<Rightarrow> sppc_closure \<Rightarrow> env_call list" where
  "sppc_closure_discard mem closure =
     (case env closure of
        None \<Rightarrow> []
      | Some e \<Rightarrow>
          (case drop_captures (mem e) of None \<Rightarrow> [] | Some f \<Rightarrow> [DropCaptures f e]) @
          (if owns (mem e) \<noteq> 0 then [EnvFree e] else []))"

text \<open>\<^verbatim>\<open>_sppc_env_free\<close> of a closure's environment: freeing NULL does nothing.\<close>

definition sppc_env_free :: "nat option \<Rightarrow> env_call list" where
  "sppc_env_free e = (case e of None \<Rightarrow> [] | Some a \<Rightarrow> [EnvFree a])"

lemma discard_no_env [simp]: "env c = None \<Longrightarrow> sppc_closure_discard mem c = []"
  by (simp add: sppc_closure_discard_def)

lemma discard_frees_iff_owned:
  "EnvFree e \<in> set (sppc_closure_discard mem c) \<longleftrightarrow> env c = Some e \<and> owns (mem e) \<noteq> 0"
  by (auto simp: sppc_closure_discard_def split: option.splits)

text \<open>The captures are dropped while the environment still exists: never after the free.\<close>

lemma discard_drop_before_free:
  "sppc_closure_discard mem c = xs @ EnvFree e # ys \<Longrightarrow> ys = []"
  by (auto simp: sppc_closure_discard_def append_eq_Cons_conv Cons_eq_append_conv
      split: option.splits if_splits)

end
