(* ===== verification/Runtime.thy ===== *)
theory Runtime
  imports Closure
begin

text \<open>
  The runtime's types and its thread-local state (async/runtime.h).

  A \<^verbatim>\<open>gt_task *\<close> is the task's index in the slot table (each slot is allocated once, is
  never moved, and \<^verbatim>\<open>slots[i]->idx = i\<close>), and the tasks themselves are a heap
  \<^verbatim>\<open>r_tasks\<close> from pointers to records. NULL is None. Fields keep the source's names with
  the prefix \<^verbatim>\<open>t_\<close> (task) or \<^verbatim>\<open>r_\<close> (runtime).

  A saved stack pointer stands for the place in the code where its task was switched away from,
  and so where it carries on: that place is a \<^verbatim>\<open>gt_frame\<close>. The i/o backend's own parts
  (per task and per runtime) are the type parameters \<^verbatim>\<open>'t\<close> and \<^verbatim>\<open>'r\<close>.
\<close>

section \<open>Constants\<close>

definition GT_IDX_BITS :: nat where "GT_IDX_BITS = 20"
definition GT_IDX_MASK :: u32 where "GT_IDX_MASK = push_bit GT_IDX_BITS 1 - 1"
definition GT_GEN_MASK :: u32 where "GT_GEN_MASK = 0x7FF"
definition GT_STACK_SIZE :: u64 where "GT_STACK_SIZE = 128 * 1024"
definition GT_STACK_MIN :: u64 where "GT_STACK_MIN = 16 * 1024"
definition GT_STACK_CACHE :: nat where "GT_STACK_CACHE = 32"

lemmas gt_consts = GT_IDX_BITS_def GT_IDX_MASK_def GT_GEN_MASK_def
  GT_STACK_SIZE_def GT_STACK_MIN_def GT_STACK_CACHE_def

section \<open>Types\<close>

type_synonym tptr = nat

datatype gt_state =
    GT_STATE_FREE
  | GT_STATE_READY
  | GT_STATE_RUNNING
  | GT_STATE_JOINING
  | GT_STATE_WAITING
  | GT_STATE_DONE

text \<open>A time of the platform's (\<^verbatim>\<open>struct timespec\<close>).\<close>

record timespec =
  tv_sec :: int
  tv_nsec :: int

text \<open>
  A wait on a condition variable under way: its mutex, and the deadline with the clock it is read
  from, if any. A lock call that is waiting its turn: the lock, its clock and deadline, whether
  its waiter is queued yet, and the condition wait it takes the mutex back for, if any.
\<close>

record gt_cond_req =
  cw_mutex :: nat
  cw_clock :: int
  cw_deadline :: "timespec option"

record gt_lock_req =
  lk_lock :: nat
  lk_clock :: int
  lk_deadline :: "timespec option"
  lk_queued :: bool
  lk_cond :: "gt_cond_req option"

datatype gt_frame =
    FNull  \<comment> \<open>a null stack pointer: never run\<close>
  | FTrampoline  \<comment> \<open>primed by \<^verbatim>\<open>_gt_stack_prime\<close>: the entry of a new task\<close>
  | FEnded  \<comment> \<open>at the end of \<^verbatim>\<open>_gt_task_run\<close>: a finished task\<close>
  | FYield  \<comment> \<open>in \<^verbatim>\<open>_gt_yield\<close>\<close>
  | FAwait tptr  \<comment> \<open>in \<^verbatim>\<open>_gt_await\<close> of that task\<close>
  | FIoWait  \<comment> \<open>in \<^verbatim>\<open>_gt_io_wait\<close>\<close>
  | FReleased "gt_cond_req option"
      \<comment> \<open>in \<^verbatim>\<open>_gt_lock_released\<close>, for an unlock or for the one a condition wait starts with\<close>
  | FCondStep gt_cond_req  \<comment> \<open>in \<^verbatim>\<open>_gt_step\<close>, called from a condition wait\<close>
  | FLockStep gt_lock_req  \<comment> \<open>in \<^verbatim>\<open>_gt_step\<close>, called from a lock's loop\<close>
  | FDrain  \<comment> \<open>in \<^verbatim>\<open>_gt_drain\<close>\<close>

record 't gt_task =
  t_sp :: gt_frame
  t_stack :: "nat option"
  t_stack_size :: u64
  t_ustack :: "nat option"
  t_ustack_size :: u64
  t_usp :: "nat option"
  t_next :: "tptr option"
  t_waiters :: "tptr option"
  t_wnext :: "tptr option"
  t_body :: sppc_closure
  t_njoiners :: u32
  t_io :: 't
  t_io_res :: int
  t_idx :: u32
  t_gen :: u32
  t_state :: gt_state
  t_detached :: bool

text \<open>
  A waiter on a thread lock lives on the waiting task's stack, so a task has at most one, and its
  task tells it apart from every other. The list linked through their \<^verbatim>\<open>next\<close> is a list.
\<close>

record gt_lock_waiter =
  w_lock :: nat
  w_task :: tptr

text \<open>
  \<^verbatim>\<open>stack_cache\<close> with its count is the list of the cached stacks, the last the top.
  \<^verbatim>\<open>tls_usp\<close> is the thread-local \<^verbatim>\<open>__safestack_unsafe_stack_ptr\<close>; \<^verbatim>\<open>r_log\<close>
  records, oldest first, what the runtime gave back: environments and stack mappings.
\<close>

datatype gt_event =
    EvEnv env_call
  | EvUnmap nat u64

record ('t, 'r) gt_runtime =
  r_current :: "tptr option"
  r_rq_head :: "tptr option"
  r_rq_tail :: "tptr option"
  r_free_slots :: "tptr option"
  r_zombies :: "tptr option"
  r_tasks :: "tptr \<Rightarrow> 't gt_task"
  r_nslots :: nat
  r_cslots :: nat
  r_live :: u64
  r_stack_size :: u64
  r_page :: u64
  r_guard :: bool
  r_stack_cache :: "nat list"
  r_cached_size :: u64
  r_io :: 'r
  r_inflight :: u32
  r_lock_waiters :: "gt_lock_waiter list"
  tls_usp :: "nat option"
  r_log :: "gt_event list"

definition upd_task ::
  "tptr \<Rightarrow> ('t gt_task \<Rightarrow> 't gt_task) \<Rightarrow> ('t, 'r) gt_runtime \<Rightarrow> ('t, 'r) gt_runtime" where
  "upd_task p f s = s\<lparr>r_tasks := (r_tasks s)(p := f (r_tasks s p))\<rparr>"

definition log_event :: "gt_event list \<Rightarrow> ('t, 'r) gt_runtime \<Rightarrow> ('t, 'r) gt_runtime" where
  "log_event es s = s\<lparr>r_log := r_log s @ es\<rparr>"

lemma upd_task_simps [simp]:
  "r_current (upd_task p f s) = r_current s"
  "r_rq_head (upd_task p f s) = r_rq_head s"
  "r_rq_tail (upd_task p f s) = r_rq_tail s"
  "r_free_slots (upd_task p f s) = r_free_slots s"
  "r_zombies (upd_task p f s) = r_zombies s"
  "r_tasks (upd_task p f s) = (r_tasks s)(p := f (r_tasks s p))"
  "r_nslots (upd_task p f s) = r_nslots s"
  "r_cslots (upd_task p f s) = r_cslots s"
  "r_live (upd_task p f s) = r_live s"
  "r_stack_size (upd_task p f s) = r_stack_size s"
  "r_page (upd_task p f s) = r_page s"
  "r_guard (upd_task p f s) = r_guard s"
  "r_stack_cache (upd_task p f s) = r_stack_cache s"
  "r_cached_size (upd_task p f s) = r_cached_size s"
  "r_io (upd_task p f s) = r_io s"
  "r_inflight (upd_task p f s) = r_inflight s"
  "r_lock_waiters (upd_task p f s) = r_lock_waiters s"
  "tls_usp (upd_task p f s) = tls_usp s"
  "r_log (upd_task p f s) = r_log s"
  by (simp_all add: upd_task_def)

section \<open>Handles\<close>

text \<open>A handle packs a task's generation and index into one C int (a 32-bit word here).\<close>

definition gt_handle :: "'t gt_task \<Rightarrow> u32" where
  "gt_handle t = (push_bit GT_IDX_BITS (t_gen t) OR t_idx t)"

definition handle_idx :: "u32 \<Rightarrow> u32" where
  "handle_idx h = (h AND GT_IDX_MASK)"

definition handle_gen :: "u32 \<Rightarrow> u32" where
  "handle_gen h = (drop_bit GT_IDX_BITS h AND GT_GEN_MASK)"

lemma idx_mask_eq: "GT_IDX_MASK = mask 20"
  by (simp add: gt_consts mask_eq_exp_minus_1)

lemma gen_mask_eq: "GT_GEN_MASK = mask 11"
  by (simp add: gt_consts mask_eq_exp_minus_1)

lemma take_bit_below: "unat (x :: u32) < 2 ^ n \<Longrightarrow> take_bit n x = x"
  by (metis take_bit_nat_eq_self unsigned_take_bit_eq unsigned_word_eqI)

lemma bit_below: "unat (x :: u32) < 2 ^ n \<Longrightarrow> bit x m \<Longrightarrow> m < n"
  by (metis take_bit_below bit_take_bit_iff linorder_not_le)

lemma handle_idx_pack:
  assumes "unat (t_idx t) < 2 ^ 20"
  shows "handle_idx (gt_handle t) = t_idx t"
proof (rule bit_word_eqI)
  fix n :: nat
  assume "n < LENGTH(32)"
  then show "bit (handle_idx (gt_handle t)) n = bit (t_idx t) n"
    by (auto simp: handle_idx_def gt_handle_def idx_mask_eq gt_consts bit_simps
        dest: bit_below [OF assms])
qed

lemma handle_gen_pack:
  assumes "unat (t_idx t) < 2 ^ 20" and "unat (t_gen t) < 2 ^ 11"
  shows "handle_gen (gt_handle t) = t_gen t"
proof (rule bit_word_eqI)
  fix n :: nat
  assume "n < LENGTH(32)"
  then show "bit (handle_gen (gt_handle t)) n = bit (t_gen t) n"
    by (auto simp: handle_gen_def gt_handle_def gen_mask_eq gt_consts bit_simps
        dest: bit_below [OF assms(1)] bit_below [OF assms(2)])
qed

text \<open>A handle of a live generation is positive as a C int, so it is never read as an error.\<close>

lemma handle_positive:
  assumes "unat (t_idx t) < 2 ^ 20" and "unat (t_gen t) < 2 ^ 11" and "t_gen t \<noteq> 0"
  shows "0 < sint (gt_handle t)"
proof -
  have "handle_gen (gt_handle t) \<noteq> 0"
    using handle_gen_pack [OF assms(1,2)] assms(3) by simp
  then have nz: "gt_handle t \<noteq> 0" by (auto simp: handle_gen_def)
  have "\<not> bit (gt_handle t) 31"
    by (auto simp: gt_handle_def gt_consts bit_simps
        dest: bit_below [OF assms(1)] bit_below [OF assms(2)])
  then have "0 \<le> sint (gt_handle t)"
    using bit_last_iff [of "gt_handle t"] by simp
  moreover have "sint (gt_handle t) \<noteq> 0"
    using nz by (metis signed_0 signed_word_eqI)
  ultimately show ?thesis by simp
qed

end
