(* ===== verification/Vmem.thy ===== *)
theory Vmem
  imports Runtime
begin

text \<open>
  Task stacks on POSIX (async/vmem.h): mapped from the kernel, with a guard page at the end they
  grow towards, and a small cache of freed ones. What the kernel answers (the page size, where a
  mapping lands or that it failed, whether the protection change succeeded) comes in as
  \<^verbatim>\<open>os_mem\<close>; the mappings given back are recorded in the runtime's log.
\<close>

record os_mem =
  os_page :: u64
  os_mmap :: "nat option"
  os_mprotect :: bool

definition gt_page :: "os_mem \<Rightarrow> ('t, 'r) gt_runtime \<Rightarrow> u64 \<times> ('t, 'r) gt_runtime" where
  "gt_page os s =
     (if r_page s = 0 then (os_page os, s\<lparr>r_page := os_page os\<rparr>) else (r_page s, s))"

text \<open>
  A cached stack if one of this size is kept, else a new mapping: without guard pages the region
  itself, and with them the region one page in, the page below it left inaccessible.
\<close>

definition gt_stack_alloc ::
  "os_mem \<Rightarrow> u64 \<Rightarrow> ('t, 'r) gt_runtime \<Rightarrow> nat option \<times> ('t, 'r) gt_runtime" where
  "gt_stack_alloc os sz s =
     (if r_stack_cache s \<noteq> [] \<and> r_cached_size s = sz
      then (Some (last (r_stack_cache s)), s\<lparr>r_stack_cache := butlast (r_stack_cache s)\<rparr>)
      else
        let (pg, s1) = gt_page os s in
        if \<not> r_guard s1 then (os_mmap os, s1)
        else
          let total = sz + pg in
          case os_mmap os of
            None \<Rightarrow> (None, s1)
          | Some p \<Rightarrow>
              if os_mprotect os then (Some (p + unat pg), s1)
              else (None, log_event [EvUnmap p total] s1))"

definition gt_stack_unmap ::
  "os_mem \<Rightarrow> nat \<Rightarrow> u64 \<Rightarrow> ('t, 'r) gt_runtime \<Rightarrow> ('t, 'r) gt_runtime" where
  "gt_stack_unmap os usable sz s =
     (let (pg, s1) = gt_page os s in
      if r_guard s1 then log_event [EvUnmap (usable - unat pg) (sz + pg)] s1
      else log_event [EvUnmap usable sz] s1)"

definition gt_stack_free ::
  "os_mem \<Rightarrow> nat option \<Rightarrow> u64 \<Rightarrow> ('t, 'r) gt_runtime \<Rightarrow> ('t, 'r) gt_runtime" where
  "gt_stack_free os usable sz s =
     (case usable of
        None \<Rightarrow> s
      | Some u \<Rightarrow>
          if length (r_stack_cache s) < GT_STACK_CACHE \<and>
             (r_stack_cache s = [] \<or> r_cached_size s = sz)
          then s\<lparr>r_cached_size := sz, r_stack_cache := r_stack_cache s @ [u]\<rparr>
          else gt_stack_unmap os u sz s)"

text \<open>Every cached stack given back, the last one cached first.\<close>

fun gt_stack_flush :: "os_mem \<Rightarrow> nat list \<Rightarrow> ('t, 'r) gt_runtime \<Rightarrow> ('t, 'r) gt_runtime" where
  "gt_stack_flush os [] s = s\<lparr>r_stack_cache := []\<rparr>"
| "gt_stack_flush os (u # us) s =
     gt_stack_flush os us (gt_stack_unmap os u (r_cached_size s) s)"

definition gt_set_guard_pages ::
  "os_mem \<Rightarrow> bool \<Rightarrow> ('t, 'r) gt_runtime \<Rightarrow> ('t, 'r) gt_runtime" where
  "gt_set_guard_pages os enabled s =
     (if enabled = r_guard s then s
      else (gt_stack_flush os (rev (r_stack_cache s)) s)\<lparr>r_guard := enabled\<rparr>)"

text \<open>The configured stack size: at least the minimum, in whole pages.\<close>

definition gt_set_stack_size ::
  "os_mem \<Rightarrow> u64 \<Rightarrow> ('t, 'r) gt_runtime \<Rightarrow> ('t, 'r) gt_runtime" where
  "gt_set_stack_size os bytes s =
     (let (pg, s1) = gt_page os s;
          b = (if bytes < GT_STACK_MIN then GT_STACK_MIN else bytes)
      in s1\<lparr>r_stack_size := (b + pg - 1) AND NOT (pg - 1)\<rparr>)"

section \<open>The cache\<close>

definition cache_ok :: "('t, 'r) gt_runtime \<Rightarrow> bool" where
  "cache_ok s \<longleftrightarrow> length (r_stack_cache s) \<le> GT_STACK_CACHE \<and> distinct (r_stack_cache s)"

lemma gt_page_simps [simp]:
  "r_stack_cache (snd (gt_page os s)) = r_stack_cache s"
  "r_cached_size (snd (gt_page os s)) = r_cached_size s"
  "r_guard (snd (gt_page os s)) = r_guard s"
  "r_log (snd (gt_page os s)) = r_log s"
  "r_tasks (snd (gt_page os s)) = r_tasks s"
  by (simp_all add: gt_page_def)

lemma gt_page_set: "r_page s \<noteq> 0 \<Longrightarrow> gt_page os s = (r_page s, s)"
  by (simp add: gt_page_def)

lemma gt_stack_free_bounded:
  "length (r_stack_cache s) \<le> GT_STACK_CACHE \<Longrightarrow>
   length (r_stack_cache (gt_stack_free os u sz s)) \<le> GT_STACK_CACHE"
  by (auto simp: gt_stack_free_def gt_stack_unmap_def log_event_def gt_page_def
      split: option.splits)

lemma gt_stack_alloc_bounded:
  "length (r_stack_cache s) \<le> GT_STACK_CACHE \<Longrightarrow>
   length (r_stack_cache (snd (gt_stack_alloc os sz s))) \<le> GT_STACK_CACHE"
  by (auto simp: gt_stack_alloc_def gt_page_def log_event_def Let_def split: option.splits)

text \<open>A stack just freed into the cache is the one the next allocation of its size gets.\<close>

lemma gt_stack_free_alloc:
  assumes "length (r_stack_cache s) < GT_STACK_CACHE"
    and "r_stack_cache s = [] \<or> r_cached_size s = sz"
  shows "gt_stack_alloc os' sz (gt_stack_free os (Some u) sz s) =
    (Some u, s\<lparr>r_cached_size := sz\<rparr>)"
  using assms by (auto simp: gt_stack_free_def gt_stack_alloc_def)

text \<open>
  What is unmapped is what was mapped: with the guard setting unchanged, a stack fresh from the
  kernel goes back as the very mapping it came from, guard page included.
\<close>

lemma gt_stack_unmap_alloc:
  assumes page: "r_page s \<noteq> 0" and miss: "r_stack_cache s = []"
    and ok: "os_mmap os = Some p" "os_mprotect os"
    and a: "gt_stack_alloc os sz s = (Some u, s')"
  shows "r_log (gt_stack_unmap os' u sz s') =
    r_log s @ [EvUnmap p (if r_guard s then sz + r_page s else sz)]"
  using assms
  by (auto simp: gt_stack_alloc_def gt_stack_unmap_def gt_page_def log_event_def Let_def
      split: if_splits)

lemma gt_stack_flush_effect:
  "r_stack_cache (gt_stack_flush os us s) = []"
  "r_page s \<noteq> 0 \<Longrightarrow> r_log (gt_stack_flush os us s) =
     r_log s @ map (\<lambda>u. if r_guard s then EvUnmap (u - unat (r_page s)) (r_cached_size s + r_page s)
       else EvUnmap u (r_cached_size s)) us"
  by (induction us arbitrary: s)
     (auto simp: gt_stack_unmap_def gt_page_set log_event_def)

text \<open>
  The configured size, for a power-of-two page and a size that can be rounded up at all: whole
  pages, at least what was asked for and at least the minimum, and less than a page more.
\<close>

lemma gt_set_stack_size_bounds:
  fixes s :: "('t, 'r) gt_runtime"
  assumes pg: "fst (gt_page os s) = 2 ^ k" "k < 64"
    and room: "unat bytes + 2 ^ k + 2 ^ 14 \<le> 2 ^ 64"
  defines "b \<equiv> max (unat bytes) (2 ^ 14)" and "r \<equiv> unat (r_stack_size (gt_set_stack_size os bytes s))"
  shows "b \<le> r" and "r < b + 2 ^ k" and "2 ^ k dvd r"
proof -
  let ?w = "if bytes < GT_STACK_MIN then GT_STACK_MIN else bytes"
  have m: "unat GT_STACK_MIN = 2 ^ 14" by (simp add: gt_consts)
  have b: "unat ?w = b"
    unfolding b_def by (auto simp: m word_less_nat_alt max_def)
  have r: "r = unat (align_up ?w (2 ^ k))"
    unfolding r_def gt_set_stack_size_def align_up_def
    by (simp add: pg(1) [symmetric] case_prod_beta Let_def algebra_simps)
  have "unat ?w + 2 ^ k - 1 < 2 ^ LENGTH(64)"
    using room unfolding b b_def by auto
  note al = align_up_bounds [OF _ this, unfolded b]
  show "b \<le> r" "r < b + 2 ^ k" "2 ^ k dvd r"
    unfolding r using al pg(2) by auto
qed

section \<open>What the stack operations leave alone\<close>

definition stack_frame :: "('t, 'r) gt_runtime \<Rightarrow> ('t, 'r) gt_runtime \<Rightarrow> bool" where
  "stack_frame s s' \<longleftrightarrow>
     s' = s\<lparr>r_page := r_page s', r_stack_cache := r_stack_cache s', r_cached_size := r_cached_size s',
            r_log := r_log s'\<rparr>"

lemma stack_frame_refl [simp]: "stack_frame s s"
  by (simp add: stack_frame_def)

lemma stack_frame_simps:
  assumes "stack_frame s s'"
  shows "r_current s' = r_current s" "r_rq_head s' = r_rq_head s" "r_rq_tail s' = r_rq_tail s"
    "r_free_slots s' = r_free_slots s" "r_zombies s' = r_zombies s" "r_tasks s' = r_tasks s"
    "r_nslots s' = r_nslots s" "r_cslots s' = r_cslots s" "r_live s' = r_live s"
    "r_stack_size s' = r_stack_size s" "r_guard s' = r_guard s" "r_io s' = r_io s"
    "r_inflight s' = r_inflight s" "r_lock_waiters s' = r_lock_waiters s" "tls_usp s' = tls_usp s"
proof -
  have eq: "s' = s\<lparr>r_page := r_page s', r_stack_cache := r_stack_cache s',
      r_cached_size := r_cached_size s', r_log := r_log s'\<rparr>"
    using assms by (simp add: stack_frame_def)
  show "r_current s' = r_current s" "r_rq_head s' = r_rq_head s" "r_rq_tail s' = r_rq_tail s"
    "r_free_slots s' = r_free_slots s" "r_zombies s' = r_zombies s" "r_tasks s' = r_tasks s"
    "r_nslots s' = r_nslots s" "r_cslots s' = r_cslots s" "r_live s' = r_live s"
    "r_stack_size s' = r_stack_size s" "r_guard s' = r_guard s" "r_io s' = r_io s"
    "r_inflight s' = r_inflight s" "r_lock_waiters s' = r_lock_waiters s" "tls_usp s' = tls_usp s"
    by (subst eq, simp)+
qed

lemma stack_frame_ops [simp]:
  "stack_frame s (snd (gt_page os s))"
  "stack_frame s (gt_stack_unmap os u sz s)"
  "stack_frame s (gt_stack_free os v sz s)"
  "stack_frame s (snd (gt_stack_alloc os sz s))"
  by (auto simp: stack_frame_def gt_page_def gt_stack_unmap_def gt_stack_free_def gt_stack_alloc_def
      log_event_def Let_def split: option.splits)

end
