(* ===== verification/Types.thy ===== *)
theory Types
  imports Prelude
begin

text \<open>
  The types and constants of the public interface (types.h). A struct is a record whose fields
  carry a prefix; a constant is an abbreviation with the source's name and value (the source's
  octal ones in decimal), so that a definition reads as the code does and evaluates directly.
\<close>

section \<open>Structs\<close>

record sppc_timespec =
  ts_sec :: u64
  ts_nsec :: u64

record sppc_timeval =
  tv_secs :: u64
  tv_usecs :: u64

record sppc_linger =
  lg_onoff :: int
  lg_linger :: int

record sppc_stat =
  st_dev :: u64
  st_ino :: u64
  st_nlink :: u64
  st_rdev :: u64
  st_size :: int
  st_block_size :: int
  st_blocks :: int
  st_atim :: sppc_timespec
  st_mtim :: sppc_timespec
  st_ctim :: sppc_timespec
  st_mode :: int
  st_uid :: int
  st_gid :: int

record sppc_pollfd =
  pf_fd :: int
  pf_events :: int
  pf_revents :: int

record sppc_iovec =
  iov_base :: "nat option"
  iov_len :: u64

record sppc_flock =
  fl_start :: int
  fl_len :: int
  fl_pid :: int
  fl_type :: int
  fl_whence :: int

text \<open>A set of descriptors: the 16 words of \<^verbatim>\<open>bits\<close>.\<close>

type_synonym sppc_fd_set = "u64 list"

text \<open>A socket address: its 128 bytes.\<close>

type_synonym sockaddr_bytes = "u8 list"

section \<open>ERRNO\<close>

abbreviation (input) SPPC_EPERM :: int where "SPPC_EPERM \<equiv> 1"
abbreviation (input) SPPC_ENOENT :: int where "SPPC_ENOENT \<equiv> 2"
abbreviation (input) SPPC_ESRCH :: int where "SPPC_ESRCH \<equiv> 3"
abbreviation (input) SPPC_EINTR :: int where "SPPC_EINTR \<equiv> 4"
abbreviation (input) SPPC_EIO :: int where "SPPC_EIO \<equiv> 5"
abbreviation (input) SPPC_ENXIO :: int where "SPPC_ENXIO \<equiv> 6"
abbreviation (input) SPPC_E2BIG :: int where "SPPC_E2BIG \<equiv> 7"
abbreviation (input) SPPC_ENOEXEC :: int where "SPPC_ENOEXEC \<equiv> 8"
abbreviation (input) SPPC_EBADF :: int where "SPPC_EBADF \<equiv> 9"
abbreviation (input) SPPC_ECHILD :: int where "SPPC_ECHILD \<equiv> 10"
abbreviation (input) SPPC_EAGAIN :: int where "SPPC_EAGAIN \<equiv> 11"
abbreviation (input) SPPC_ENOMEM :: int where "SPPC_ENOMEM \<equiv> 12"
abbreviation (input) SPPC_EACCES :: int where "SPPC_EACCES \<equiv> 13"
abbreviation (input) SPPC_EFAULT :: int where "SPPC_EFAULT \<equiv> 14"
abbreviation (input) SPPC_ENOTBLK :: int where "SPPC_ENOTBLK \<equiv> 15"
abbreviation (input) SPPC_EBUSY :: int where "SPPC_EBUSY \<equiv> 16"
abbreviation (input) SPPC_EEXIST :: int where "SPPC_EEXIST \<equiv> 17"
abbreviation (input) SPPC_EXDEV :: int where "SPPC_EXDEV \<equiv> 18"
abbreviation (input) SPPC_ENODEV :: int where "SPPC_ENODEV \<equiv> 19"
abbreviation (input) SPPC_ENOTDIR :: int where "SPPC_ENOTDIR \<equiv> 20"
abbreviation (input) SPPC_EISDIR :: int where "SPPC_EISDIR \<equiv> 21"
abbreviation (input) SPPC_EINVAL :: int where "SPPC_EINVAL \<equiv> 22"
abbreviation (input) SPPC_ENFILE :: int where "SPPC_ENFILE \<equiv> 23"
abbreviation (input) SPPC_EMFILE :: int where "SPPC_EMFILE \<equiv> 24"
abbreviation (input) SPPC_ENOTTY :: int where "SPPC_ENOTTY \<equiv> 25"
abbreviation (input) SPPC_ETXTBSY :: int where "SPPC_ETXTBSY \<equiv> 26"
abbreviation (input) SPPC_EFBIG :: int where "SPPC_EFBIG \<equiv> 27"
abbreviation (input) SPPC_ENOSPC :: int where "SPPC_ENOSPC \<equiv> 28"
abbreviation (input) SPPC_ESPIPE :: int where "SPPC_ESPIPE \<equiv> 29"
abbreviation (input) SPPC_EROFS :: int where "SPPC_EROFS \<equiv> 30"
abbreviation (input) SPPC_EMLINK :: int where "SPPC_EMLINK \<equiv> 31"
abbreviation (input) SPPC_EPIPE :: int where "SPPC_EPIPE \<equiv> 32"
abbreviation (input) SPPC_EDOM :: int where "SPPC_EDOM \<equiv> 33"
abbreviation (input) SPPC_ERANGE :: int where "SPPC_ERANGE \<equiv> 34"
abbreviation (input) SPPC_EDEADLK :: int where "SPPC_EDEADLK \<equiv> 35"
abbreviation (input) SPPC_ENAMETOOLONG :: int where "SPPC_ENAMETOOLONG \<equiv> 36"
abbreviation (input) SPPC_ENOLCK :: int where "SPPC_ENOLCK \<equiv> 37"
abbreviation (input) SPPC_ENOSYS :: int where "SPPC_ENOSYS \<equiv> 38"
abbreviation (input) SPPC_ENOTEMPTY :: int where "SPPC_ENOTEMPTY \<equiv> 39"
abbreviation (input) SPPC_ELOOP :: int where "SPPC_ELOOP \<equiv> 40"
abbreviation (input) SPPC_EWOULDBLOCK :: int where "SPPC_EWOULDBLOCK \<equiv> 11"
abbreviation (input) SPPC_ENOMSG :: int where "SPPC_ENOMSG \<equiv> 42"
abbreviation (input) SPPC_EIDRM :: int where "SPPC_EIDRM \<equiv> 43"
abbreviation (input) SPPC_ECHRNG :: int where "SPPC_ECHRNG \<equiv> 44"
abbreviation (input) SPPC_EL2NSYNC :: int where "SPPC_EL2NSYNC \<equiv> 45"
abbreviation (input) SPPC_EL3HLT :: int where "SPPC_EL3HLT \<equiv> 46"
abbreviation (input) SPPC_EL3RST :: int where "SPPC_EL3RST \<equiv> 47"
abbreviation (input) SPPC_ELNRNG :: int where "SPPC_ELNRNG \<equiv> 48"
abbreviation (input) SPPC_EUNATCH :: int where "SPPC_EUNATCH \<equiv> 49"
abbreviation (input) SPPC_ENOCSI :: int where "SPPC_ENOCSI \<equiv> 50"
abbreviation (input) SPPC_EL2HLT :: int where "SPPC_EL2HLT \<equiv> 51"
abbreviation (input) SPPC_EBADE :: int where "SPPC_EBADE \<equiv> 52"
abbreviation (input) SPPC_EBADR :: int where "SPPC_EBADR \<equiv> 53"
abbreviation (input) SPPC_EXFULL :: int where "SPPC_EXFULL \<equiv> 54"
abbreviation (input) SPPC_ENOANO :: int where "SPPC_ENOANO \<equiv> 55"
abbreviation (input) SPPC_EBADRQC :: int where "SPPC_EBADRQC \<equiv> 56"
abbreviation (input) SPPC_EBADSLT :: int where "SPPC_EBADSLT \<equiv> 57"
abbreviation (input) SPPC_EDEADLOCK :: int where "SPPC_EDEADLOCK \<equiv> 35"
abbreviation (input) SPPC_EBFONT :: int where "SPPC_EBFONT \<equiv> 59"
abbreviation (input) SPPC_ENOSTR :: int where "SPPC_ENOSTR \<equiv> 60"
abbreviation (input) SPPC_ENODATA :: int where "SPPC_ENODATA \<equiv> 61"
abbreviation (input) SPPC_ETIME :: int where "SPPC_ETIME \<equiv> 62"
abbreviation (input) SPPC_ENOSR :: int where "SPPC_ENOSR \<equiv> 63"
abbreviation (input) SPPC_ENONET :: int where "SPPC_ENONET \<equiv> 64"
abbreviation (input) SPPC_ENOPKG :: int where "SPPC_ENOPKG \<equiv> 65"
abbreviation (input) SPPC_EREMOTE :: int where "SPPC_EREMOTE \<equiv> 66"
abbreviation (input) SPPC_ENOLINK :: int where "SPPC_ENOLINK \<equiv> 67"
abbreviation (input) SPPC_EADV :: int where "SPPC_EADV \<equiv> 68"
abbreviation (input) SPPC_ESRMNT :: int where "SPPC_ESRMNT \<equiv> 69"
abbreviation (input) SPPC_ECOMM :: int where "SPPC_ECOMM \<equiv> 70"
abbreviation (input) SPPC_EPROTO :: int where "SPPC_EPROTO \<equiv> 71"
abbreviation (input) SPPC_EMULTIHOP :: int where "SPPC_EMULTIHOP \<equiv> 72"
abbreviation (input) SPPC_EDOTDOT :: int where "SPPC_EDOTDOT \<equiv> 73"
abbreviation (input) SPPC_EBADMSG :: int where "SPPC_EBADMSG \<equiv> 74"
abbreviation (input) SPPC_EOVERFLOW :: int where "SPPC_EOVERFLOW \<equiv> 75"
abbreviation (input) SPPC_ENOTUNIQ :: int where "SPPC_ENOTUNIQ \<equiv> 76"
abbreviation (input) SPPC_EBADFD :: int where "SPPC_EBADFD \<equiv> 77"
abbreviation (input) SPPC_EREMCHG :: int where "SPPC_EREMCHG \<equiv> 78"
abbreviation (input) SPPC_ELIBACC :: int where "SPPC_ELIBACC \<equiv> 79"
abbreviation (input) SPPC_ELIBBAD :: int where "SPPC_ELIBBAD \<equiv> 80"
abbreviation (input) SPPC_ELIBSCN :: int where "SPPC_ELIBSCN \<equiv> 81"
abbreviation (input) SPPC_ELIBMAX :: int where "SPPC_ELIBMAX \<equiv> 82"
abbreviation (input) SPPC_ELIBEXEC :: int where "SPPC_ELIBEXEC \<equiv> 83"
abbreviation (input) SPPC_EILSEQ :: int where "SPPC_EILSEQ \<equiv> 84"
abbreviation (input) SPPC_ERESTART :: int where "SPPC_ERESTART \<equiv> 85"
abbreviation (input) SPPC_ESTRPIPE :: int where "SPPC_ESTRPIPE \<equiv> 86"
abbreviation (input) SPPC_EUSERS :: int where "SPPC_EUSERS \<equiv> 87"
abbreviation (input) SPPC_ENOTSOCK :: int where "SPPC_ENOTSOCK \<equiv> 88"
abbreviation (input) SPPC_EDESTADDRREQ :: int where "SPPC_EDESTADDRREQ \<equiv> 89"
abbreviation (input) SPPC_EMSGSIZE :: int where "SPPC_EMSGSIZE \<equiv> 90"
abbreviation (input) SPPC_EPROTOTYPE :: int where "SPPC_EPROTOTYPE \<equiv> 91"
abbreviation (input) SPPC_ENOPROTOOPT :: int where "SPPC_ENOPROTOOPT \<equiv> 92"
abbreviation (input) SPPC_EPROTONOSUPPORT :: int where "SPPC_EPROTONOSUPPORT \<equiv> 93"
abbreviation (input) SPPC_ESOCKTNOSUPPORT :: int where "SPPC_ESOCKTNOSUPPORT \<equiv> 94"
abbreviation (input) SPPC_EOPNOTSUPP :: int where "SPPC_EOPNOTSUPP \<equiv> 95"
abbreviation (input) SPPC_EPFNOSUPPORT :: int where "SPPC_EPFNOSUPPORT \<equiv> 96"
abbreviation (input) SPPC_EAFNOSUPPORT :: int where "SPPC_EAFNOSUPPORT \<equiv> 97"
abbreviation (input) SPPC_EADDRINUSE :: int where "SPPC_EADDRINUSE \<equiv> 98"
abbreviation (input) SPPC_EADDRNOTAVAIL :: int where "SPPC_EADDRNOTAVAIL \<equiv> 99"
abbreviation (input) SPPC_ENETDOWN :: int where "SPPC_ENETDOWN \<equiv> 100"
abbreviation (input) SPPC_ENETUNREACH :: int where "SPPC_ENETUNREACH \<equiv> 101"
abbreviation (input) SPPC_ENETRESET :: int where "SPPC_ENETRESET \<equiv> 102"
abbreviation (input) SPPC_ECONNABORTED :: int where "SPPC_ECONNABORTED \<equiv> 103"
abbreviation (input) SPPC_ECONNRESET :: int where "SPPC_ECONNRESET \<equiv> 104"
abbreviation (input) SPPC_ENOBUFS :: int where "SPPC_ENOBUFS \<equiv> 105"
abbreviation (input) SPPC_EISCONN :: int where "SPPC_EISCONN \<equiv> 106"
abbreviation (input) SPPC_ENOTCONN :: int where "SPPC_ENOTCONN \<equiv> 107"
abbreviation (input) SPPC_ESHUTDOWN :: int where "SPPC_ESHUTDOWN \<equiv> 108"
abbreviation (input) SPPC_ETOOMANYREFS :: int where "SPPC_ETOOMANYREFS \<equiv> 109"
abbreviation (input) SPPC_ETIMEDOUT :: int where "SPPC_ETIMEDOUT \<equiv> 110"
abbreviation (input) SPPC_ECONNREFUSED :: int where "SPPC_ECONNREFUSED \<equiv> 111"
abbreviation (input) SPPC_EHOSTDOWN :: int where "SPPC_EHOSTDOWN \<equiv> 112"
abbreviation (input) SPPC_EHOSTUNREACH :: int where "SPPC_EHOSTUNREACH \<equiv> 113"
abbreviation (input) SPPC_EALREADY :: int where "SPPC_EALREADY \<equiv> 114"
abbreviation (input) SPPC_EINPROGRESS :: int where "SPPC_EINPROGRESS \<equiv> 115"
abbreviation (input) SPPC_ESTALE :: int where "SPPC_ESTALE \<equiv> 116"
abbreviation (input) SPPC_EUCLEAN :: int where "SPPC_EUCLEAN \<equiv> 117"
abbreviation (input) SPPC_ENOTNAM :: int where "SPPC_ENOTNAM \<equiv> 118"
abbreviation (input) SPPC_ENAVAIL :: int where "SPPC_ENAVAIL \<equiv> 119"
abbreviation (input) SPPC_EISNAM :: int where "SPPC_EISNAM \<equiv> 120"
abbreviation (input) SPPC_EREMOTEIO :: int where "SPPC_EREMOTEIO \<equiv> 121"
abbreviation (input) SPPC_EDQUOT :: int where "SPPC_EDQUOT \<equiv> 122"
abbreviation (input) SPPC_ENOMEDIUM :: int where "SPPC_ENOMEDIUM \<equiv> 123"
abbreviation (input) SPPC_EMEDIUMTYPE :: int where "SPPC_EMEDIUMTYPE \<equiv> 124"
abbreviation (input) SPPC_ECANCELED :: int where "SPPC_ECANCELED \<equiv> 125"
abbreviation (input) SPPC_ENOKEY :: int where "SPPC_ENOKEY \<equiv> 126"
abbreviation (input) SPPC_EKEYEXPIRED :: int where "SPPC_EKEYEXPIRED \<equiv> 127"
abbreviation (input) SPPC_EKEYREVOKED :: int where "SPPC_EKEYREVOKED \<equiv> 128"
abbreviation (input) SPPC_EKEYREJECTED :: int where "SPPC_EKEYREJECTED \<equiv> 129"
abbreviation (input) SPPC_EOWNERDEAD :: int where "SPPC_EOWNERDEAD \<equiv> 130"
abbreviation (input) SPPC_ENOTRECOVERABLE :: int where "SPPC_ENOTRECOVERABLE \<equiv> 131"
abbreviation (input) SPPC_ERFKILL :: int where "SPPC_ERFKILL \<equiv> 132"
abbreviation (input) SPPC_EHWPOISON :: int where "SPPC_EHWPOISON \<equiv> 133"

section \<open>OPEN\<close>

abbreviation (input) SPPC_O_ACCMODE :: int where "SPPC_O_ACCMODE \<equiv> 3"  \<comment> \<open>octal 03\<close>
abbreviation (input) SPPC_O_RDONLY :: int where "SPPC_O_RDONLY \<equiv> 0"
abbreviation (input) SPPC_O_WRONLY :: int where "SPPC_O_WRONLY \<equiv> 1"  \<comment> \<open>octal 01\<close>
abbreviation (input) SPPC_O_RDWR :: int where "SPPC_O_RDWR \<equiv> 2"  \<comment> \<open>octal 02\<close>
abbreviation (input) SPPC_O_CREAT :: int where "SPPC_O_CREAT \<equiv> 64"  \<comment> \<open>octal 0100\<close>
abbreviation (input) SPPC_O_EXCL :: int where "SPPC_O_EXCL \<equiv> 128"  \<comment> \<open>octal 0200\<close>
abbreviation (input) SPPC_O_NOCTTY :: int where "SPPC_O_NOCTTY \<equiv> 256"  \<comment> \<open>octal 0400\<close>
abbreviation (input) SPPC_O_TRUNC :: int where "SPPC_O_TRUNC \<equiv> 512"  \<comment> \<open>octal 01000\<close>
abbreviation (input) SPPC_O_APPEND :: int where "SPPC_O_APPEND \<equiv> 1024"  \<comment> \<open>octal 02000\<close>
abbreviation (input) SPPC_O_NONBLOCK :: int where "SPPC_O_NONBLOCK \<equiv> 2048"  \<comment> \<open>octal 04000\<close>
abbreviation (input) SPPC_O_DSYNC :: int where "SPPC_O_DSYNC \<equiv> 4096"  \<comment> \<open>octal 010000\<close>
abbreviation (input) SPPC_O_ASYNC :: int where "SPPC_O_ASYNC \<equiv> 8192"  \<comment> \<open>octal 020000\<close>
abbreviation (input) SPPC_O_DIRECT :: int where "SPPC_O_DIRECT \<equiv> 16384"  \<comment> \<open>octal 040000\<close>
abbreviation (input) SPPC_O_DIRECTORY :: int where "SPPC_O_DIRECTORY \<equiv> 65536"  \<comment> \<open>octal 0200000\<close>
abbreviation (input) SPPC_O_NOFOLLOW :: int where "SPPC_O_NOFOLLOW \<equiv> 131072"  \<comment> \<open>octal 0400000\<close>
abbreviation (input) SPPC_O_NOATIME :: int where "SPPC_O_NOATIME \<equiv> 262144"  \<comment> \<open>octal 01000000\<close>
abbreviation (input) SPPC_O_CLOEXEC :: int where "SPPC_O_CLOEXEC \<equiv> 524288"  \<comment> \<open>octal 02000000\<close>
abbreviation (input) SPPC_O_SYNC :: int where "SPPC_O_SYNC \<equiv> 1052672"  \<comment> \<open>octal 04010000\<close>
abbreviation (input) SPPC_O_PATH :: int where "SPPC_O_PATH \<equiv> 2097152"  \<comment> \<open>octal 010000000\<close>
abbreviation (input) SPPC_O_TMPFILE :: int where "SPPC_O_TMPFILE \<equiv> 4259840"  \<comment> \<open>octal 020200000\<close>

section \<open>MODE\<close>

abbreviation (input) SPPC_S_IFMT :: int where "SPPC_S_IFMT \<equiv> 61440"  \<comment> \<open>octal 0170000\<close>
abbreviation (input) SPPC_S_IFSOCK :: int where "SPPC_S_IFSOCK \<equiv> 49152"  \<comment> \<open>octal 0140000\<close>
abbreviation (input) SPPC_S_IFLNK :: int where "SPPC_S_IFLNK \<equiv> 40960"  \<comment> \<open>octal 0120000\<close>
abbreviation (input) SPPC_S_IFREG :: int where "SPPC_S_IFREG \<equiv> 32768"  \<comment> \<open>octal 0100000\<close>
abbreviation (input) SPPC_S_IFBLK :: int where "SPPC_S_IFBLK \<equiv> 24576"  \<comment> \<open>octal 060000\<close>
abbreviation (input) SPPC_S_IFDIR :: int where "SPPC_S_IFDIR \<equiv> 16384"  \<comment> \<open>octal 040000\<close>
abbreviation (input) SPPC_S_IFCHR :: int where "SPPC_S_IFCHR \<equiv> 8192"  \<comment> \<open>octal 020000\<close>
abbreviation (input) SPPC_S_IFIFO :: int where "SPPC_S_IFIFO \<equiv> 4096"  \<comment> \<open>octal 010000\<close>
abbreviation (input) SPPC_S_ISUID :: int where "SPPC_S_ISUID \<equiv> 2048"  \<comment> \<open>octal 04000\<close>
abbreviation (input) SPPC_S_ISGID :: int where "SPPC_S_ISGID \<equiv> 1024"  \<comment> \<open>octal 02000\<close>
abbreviation (input) SPPC_S_ISVTX :: int where "SPPC_S_ISVTX \<equiv> 512"  \<comment> \<open>octal 01000\<close>
abbreviation (input) SPPC_S_IRWXU :: int where "SPPC_S_IRWXU \<equiv> 448"  \<comment> \<open>octal 0700\<close>
abbreviation (input) SPPC_S_IRUSR :: int where "SPPC_S_IRUSR \<equiv> 256"  \<comment> \<open>octal 0400\<close>
abbreviation (input) SPPC_S_IWUSR :: int where "SPPC_S_IWUSR \<equiv> 128"  \<comment> \<open>octal 0200\<close>
abbreviation (input) SPPC_S_IXUSR :: int where "SPPC_S_IXUSR \<equiv> 64"  \<comment> \<open>octal 0100\<close>
abbreviation (input) SPPC_S_IRWXG :: int where "SPPC_S_IRWXG \<equiv> 56"  \<comment> \<open>octal 070\<close>
abbreviation (input) SPPC_S_IRGRP :: int where "SPPC_S_IRGRP \<equiv> 32"  \<comment> \<open>octal 040\<close>
abbreviation (input) SPPC_S_IWGRP :: int where "SPPC_S_IWGRP \<equiv> 16"  \<comment> \<open>octal 020\<close>
abbreviation (input) SPPC_S_IXGRP :: int where "SPPC_S_IXGRP \<equiv> 8"  \<comment> \<open>octal 010\<close>
abbreviation (input) SPPC_S_IRWXO :: int where "SPPC_S_IRWXO \<equiv> 7"  \<comment> \<open>octal 07\<close>
abbreviation (input) SPPC_S_IROTH :: int where "SPPC_S_IROTH \<equiv> 4"  \<comment> \<open>octal 04\<close>
abbreviation (input) SPPC_S_IWOTH :: int where "SPPC_S_IWOTH \<equiv> 2"  \<comment> \<open>octal 02\<close>
abbreviation (input) SPPC_S_IXOTH :: int where "SPPC_S_IXOTH \<equiv> 1"  \<comment> \<open>octal 01\<close>

section \<open>ACCESS\<close>

abbreviation (input) SPPC_F_OK :: int where "SPPC_F_OK \<equiv> 0"
abbreviation (input) SPPC_X_OK :: int where "SPPC_X_OK \<equiv> 1"
abbreviation (input) SPPC_W_OK :: int where "SPPC_W_OK \<equiv> 2"
abbreviation (input) SPPC_R_OK :: int where "SPPC_R_OK \<equiv> 4"

section \<open>SEEK\<close>

abbreviation (input) SPPC_SEEK_SET :: int where "SPPC_SEEK_SET \<equiv> 0"
abbreviation (input) SPPC_SEEK_CUR :: int where "SPPC_SEEK_CUR \<equiv> 1"
abbreviation (input) SPPC_SEEK_END :: int where "SPPC_SEEK_END \<equiv> 2"

section \<open>PROT\<close>

abbreviation (input) SPPC_PROT_NONE :: int where "SPPC_PROT_NONE \<equiv> 0x0"
abbreviation (input) SPPC_PROT_READ :: int where "SPPC_PROT_READ \<equiv> 0x1"
abbreviation (input) SPPC_PROT_WRITE :: int where "SPPC_PROT_WRITE \<equiv> 0x2"
abbreviation (input) SPPC_PROT_EXEC :: int where "SPPC_PROT_EXEC \<equiv> 0x4"

section \<open>MAP\<close>

abbreviation (input) SPPC_MAP_SHARED :: int where "SPPC_MAP_SHARED \<equiv> 0x1"
abbreviation (input) SPPC_MAP_PRIVATE :: int where "SPPC_MAP_PRIVATE \<equiv> 0x2"
abbreviation (input) SPPC_MAP_FIXED :: int where "SPPC_MAP_FIXED \<equiv> 0x10"
abbreviation (input) SPPC_MAP_ANONYMOUS :: int where "SPPC_MAP_ANONYMOUS \<equiv> 0x20"
abbreviation (input) SPPC_MAP_NORESERVE :: int where "SPPC_MAP_NORESERVE \<equiv> 0x4000"

section \<open>MSYNC\<close>

abbreviation (input) SPPC_MS_ASYNC :: int where "SPPC_MS_ASYNC \<equiv> 0x1"
abbreviation (input) SPPC_MS_INVALIDATE :: int where "SPPC_MS_INVALIDATE \<equiv> 0x2"
abbreviation (input) SPPC_MS_SYNC :: int where "SPPC_MS_SYNC \<equiv> 0x4"

section \<open>MADV\<close>

abbreviation (input) SPPC_MADV_NORMAL :: int where "SPPC_MADV_NORMAL \<equiv> 0"
abbreviation (input) SPPC_MADV_RANDOM :: int where "SPPC_MADV_RANDOM \<equiv> 1"
abbreviation (input) SPPC_MADV_SEQUENTIAL :: int where "SPPC_MADV_SEQUENTIAL \<equiv> 2"
abbreviation (input) SPPC_MADV_WILLNEED :: int where "SPPC_MADV_WILLNEED \<equiv> 3"
abbreviation (input) SPPC_MADV_DONTNEED :: int where "SPPC_MADV_DONTNEED \<equiv> 4"
abbreviation (input) SPPC_MADV_FREE :: int where "SPPC_MADV_FREE \<equiv> 8"

section \<open>AF\<close>

abbreviation (input) SPPC_AF_UNSPEC :: int where "SPPC_AF_UNSPEC \<equiv> 0"
abbreviation (input) SPPC_AF_UNIX :: int where "SPPC_AF_UNIX \<equiv> 1"
abbreviation (input) SPPC_AF_INET :: int where "SPPC_AF_INET \<equiv> 2"
abbreviation (input) SPPC_AF_INET6 :: int where "SPPC_AF_INET6 \<equiv> 10"

section \<open>SOCK\<close>

abbreviation (input) SPPC_SOCK_STREAM :: int where "SPPC_SOCK_STREAM \<equiv> 0x1"
abbreviation (input) SPPC_SOCK_DGRAM :: int where "SPPC_SOCK_DGRAM \<equiv> 0x2"
abbreviation (input) SPPC_SOCK_RAW :: int where "SPPC_SOCK_RAW \<equiv> 0x3"
abbreviation (input) SPPC_SOCK_SEQPACKET :: int where "SPPC_SOCK_SEQPACKET \<equiv> 0x5"
abbreviation (input) SPPC_SOCK_NONBLOCK :: int where "SPPC_SOCK_NONBLOCK \<equiv> 0x800"
abbreviation (input) SPPC_SOCK_CLOEXEC :: int where "SPPC_SOCK_CLOEXEC \<equiv> 0x80000"

section \<open>IPPROTO\<close>

abbreviation (input) SPPC_IPPROTO_IP :: int where "SPPC_IPPROTO_IP \<equiv> 0"
abbreviation (input) SPPC_IPPROTO_ICMP :: int where "SPPC_IPPROTO_ICMP \<equiv> 1"
abbreviation (input) SPPC_IPPROTO_TCP :: int where "SPPC_IPPROTO_TCP \<equiv> 6"
abbreviation (input) SPPC_IPPROTO_UDP :: int where "SPPC_IPPROTO_UDP \<equiv> 17"
abbreviation (input) SPPC_IPPROTO_IPV6 :: int where "SPPC_IPPROTO_IPV6 \<equiv> 41"
abbreviation (input) SPPC_IPPROTO_ICMPV6 :: int where "SPPC_IPPROTO_ICMPV6 \<equiv> 58"
abbreviation (input) SPPC_IPPROTO_RAW :: int where "SPPC_IPPROTO_RAW \<equiv> 255"

section \<open>MSG\<close>

abbreviation (input) SPPC_MSG_OOB :: int where "SPPC_MSG_OOB \<equiv> 0x1"
abbreviation (input) SPPC_MSG_PEEK :: int where "SPPC_MSG_PEEK \<equiv> 0x2"
abbreviation (input) SPPC_MSG_DONTROUTE :: int where "SPPC_MSG_DONTROUTE \<equiv> 0x4"
abbreviation (input) SPPC_MSG_TRUNC :: int where "SPPC_MSG_TRUNC \<equiv> 0x20"
abbreviation (input) SPPC_MSG_DONTWAIT :: int where "SPPC_MSG_DONTWAIT \<equiv> 0x40"
abbreviation (input) SPPC_MSG_WAITALL :: int where "SPPC_MSG_WAITALL \<equiv> 0x100"
abbreviation (input) SPPC_MSG_NOSIGNAL :: int where "SPPC_MSG_NOSIGNAL \<equiv> 0x4000"

section \<open>SHUT\<close>

abbreviation (input) SPPC_SHUT_RD :: int where "SPPC_SHUT_RD \<equiv> 0"
abbreviation (input) SPPC_SHUT_WR :: int where "SPPC_SHUT_WR \<equiv> 1"
abbreviation (input) SPPC_SHUT_RDWR :: int where "SPPC_SHUT_RDWR \<equiv> 2"

section \<open>SOL\<close>

abbreviation (input) SPPC_SOL_SOCKET :: int where "SPPC_SOL_SOCKET \<equiv> 1"

section \<open>SO\<close>

abbreviation (input) SPPC_SO_DEBUG :: int where "SPPC_SO_DEBUG \<equiv> 1"
abbreviation (input) SPPC_SO_REUSEADDR :: int where "SPPC_SO_REUSEADDR \<equiv> 2"
abbreviation (input) SPPC_SO_TYPE :: int where "SPPC_SO_TYPE \<equiv> 3"
abbreviation (input) SPPC_SO_ERROR :: int where "SPPC_SO_ERROR \<equiv> 4"
abbreviation (input) SPPC_SO_DONTROUTE :: int where "SPPC_SO_DONTROUTE \<equiv> 5"
abbreviation (input) SPPC_SO_BROADCAST :: int where "SPPC_SO_BROADCAST \<equiv> 6"
abbreviation (input) SPPC_SO_SNDBUF :: int where "SPPC_SO_SNDBUF \<equiv> 7"
abbreviation (input) SPPC_SO_RCVBUF :: int where "SPPC_SO_RCVBUF \<equiv> 8"
abbreviation (input) SPPC_SO_KEEPALIVE :: int where "SPPC_SO_KEEPALIVE \<equiv> 9"
abbreviation (input) SPPC_SO_OOBINLINE :: int where "SPPC_SO_OOBINLINE \<equiv> 10"
abbreviation (input) SPPC_SO_LINGER :: int where "SPPC_SO_LINGER \<equiv> 13"
abbreviation (input) SPPC_SO_REUSEPORT :: int where "SPPC_SO_REUSEPORT \<equiv> 15"
abbreviation (input) SPPC_SO_RCVLOWAT :: int where "SPPC_SO_RCVLOWAT \<equiv> 18"
abbreviation (input) SPPC_SO_SNDLOWAT :: int where "SPPC_SO_SNDLOWAT \<equiv> 19"
abbreviation (input) SPPC_SO_RCVTIMEO :: int where "SPPC_SO_RCVTIMEO \<equiv> 20"
abbreviation (input) SPPC_SO_SNDTIMEO :: int where "SPPC_SO_SNDTIMEO \<equiv> 21"
abbreviation (input) SPPC_SO_ACCEPTCONN :: int where "SPPC_SO_ACCEPTCONN \<equiv> 30"

section \<open>TCP\<close>

abbreviation (input) SPPC_TCP_NODELAY :: int where "SPPC_TCP_NODELAY \<equiv> 1"
abbreviation (input) SPPC_TCP_MAXSEG :: int where "SPPC_TCP_MAXSEG \<equiv> 2"
abbreviation (input) SPPC_TCP_KEEPIDLE :: int where "SPPC_TCP_KEEPIDLE \<equiv> 4"
abbreviation (input) SPPC_TCP_KEEPINTVL :: int where "SPPC_TCP_KEEPINTVL \<equiv> 5"
abbreviation (input) SPPC_TCP_KEEPCNT :: int where "SPPC_TCP_KEEPCNT \<equiv> 6"

section \<open>IP\<close>

abbreviation (input) SPPC_IP_TOS :: int where "SPPC_IP_TOS \<equiv> 1"
abbreviation (input) SPPC_IP_TTL :: int where "SPPC_IP_TTL \<equiv> 2"
abbreviation (input) SPPC_IP_MULTICAST_TTL :: int where "SPPC_IP_MULTICAST_TTL \<equiv> 33"
abbreviation (input) SPPC_IP_MULTICAST_LOOP :: int where "SPPC_IP_MULTICAST_LOOP \<equiv> 34"

section \<open>IPV6\<close>

abbreviation (input) SPPC_IPV6_UNICAST_HOPS :: int where "SPPC_IPV6_UNICAST_HOPS \<equiv> 16"
abbreviation (input) SPPC_IPV6_MULTICAST_HOPS :: int where "SPPC_IPV6_MULTICAST_HOPS \<equiv> 18"
abbreviation (input) SPPC_IPV6_MULTICAST_LOOP :: int where "SPPC_IPV6_MULTICAST_LOOP \<equiv> 19"
abbreviation (input) SPPC_IPV6_V6ONLY :: int where "SPPC_IPV6_V6ONLY \<equiv> 26"

section \<open>FCNTL\<close>

abbreviation (input) SPPC_F_GETFD :: int where "SPPC_F_GETFD \<equiv> 1"
abbreviation (input) SPPC_F_SETFD :: int where "SPPC_F_SETFD \<equiv> 2"
abbreviation (input) SPPC_F_GETFL :: int where "SPPC_F_GETFL \<equiv> 3"
abbreviation (input) SPPC_F_SETFL :: int where "SPPC_F_SETFL \<equiv> 4"
abbreviation (input) SPPC_F_GETLK :: int where "SPPC_F_GETLK \<equiv> 5"
abbreviation (input) SPPC_F_SETLK :: int where "SPPC_F_SETLK \<equiv> 6"
abbreviation (input) SPPC_F_SETLKW :: int where "SPPC_F_SETLKW \<equiv> 7"
abbreviation (input) SPPC_F_SETOWN :: int where "SPPC_F_SETOWN \<equiv> 8"
abbreviation (input) SPPC_F_GETOWN :: int where "SPPC_F_GETOWN \<equiv> 9"
abbreviation (input) SPPC_FD_CLOEXEC :: int where "SPPC_FD_CLOEXEC \<equiv> 1"
abbreviation (input) SPPC_F_RDLCK :: int where "SPPC_F_RDLCK \<equiv> 0"
abbreviation (input) SPPC_F_WRLCK :: int where "SPPC_F_WRLCK \<equiv> 1"
abbreviation (input) SPPC_F_UNLCK :: int where "SPPC_F_UNLCK \<equiv> 2"

section \<open>POLL\<close>

abbreviation (input) SPPC_POLLIN :: int where "SPPC_POLLIN \<equiv> 0x1"
abbreviation (input) SPPC_POLLPRI :: int where "SPPC_POLLPRI \<equiv> 0x2"
abbreviation (input) SPPC_POLLOUT :: int where "SPPC_POLLOUT \<equiv> 0x4"
abbreviation (input) SPPC_POLLERR :: int where "SPPC_POLLERR \<equiv> 0x8"
abbreviation (input) SPPC_POLLHUP :: int where "SPPC_POLLHUP \<equiv> 0x10"
abbreviation (input) SPPC_POLLNVAL :: int where "SPPC_POLLNVAL \<equiv> 0x20"
abbreviation (input) SPPC_POLLRDNORM :: int where "SPPC_POLLRDNORM \<equiv> 0x40"
abbreviation (input) SPPC_POLLRDBAND :: int where "SPPC_POLLRDBAND \<equiv> 0x80"
abbreviation (input) SPPC_POLLWRNORM :: int where "SPPC_POLLWRNORM \<equiv> 0x100"
abbreviation (input) SPPC_POLLWRBAND :: int where "SPPC_POLLWRBAND \<equiv> 0x200"

section \<open>CLOCK\<close>

abbreviation (input) SPPC_CLOCK_REALTIME :: int where "SPPC_CLOCK_REALTIME \<equiv> 0"
abbreviation (input) SPPC_CLOCK_MONOTONIC :: int where "SPPC_CLOCK_MONOTONIC \<equiv> 1"
abbreviation (input) SPPC_CLOCK_PROCESS_CPUTIME_ID :: int where "SPPC_CLOCK_PROCESS_CPUTIME_ID \<equiv> 2"
abbreviation (input) SPPC_CLOCK_THREAD_CPUTIME_ID :: int where "SPPC_CLOCK_THREAD_CPUTIME_ID \<equiv> 3"
abbreviation (input) SPPC_CLOCK_MONOTONIC_RAW :: int where "SPPC_CLOCK_MONOTONIC_RAW \<equiv> 4"
abbreviation (input) SPPC_CLOCK_REALTIME_COARSE :: int where "SPPC_CLOCK_REALTIME_COARSE \<equiv> 5"
abbreviation (input) SPPC_CLOCK_MONOTONIC_COARSE :: int where "SPPC_CLOCK_MONOTONIC_COARSE \<equiv> 6"
abbreviation (input) SPPC_CLOCK_BOOTTIME :: int where "SPPC_CLOCK_BOOTTIME \<equiv> 7"
abbreviation (input) SPPC_TIMER_ABSTIME :: int where "SPPC_TIMER_ABSTIME \<equiv> 1"

section \<open>SIG\<close>

abbreviation (input) SPPC_SIGHUP :: int where "SPPC_SIGHUP \<equiv> 1"
abbreviation (input) SPPC_SIGINT :: int where "SPPC_SIGINT \<equiv> 2"
abbreviation (input) SPPC_SIGQUIT :: int where "SPPC_SIGQUIT \<equiv> 3"
abbreviation (input) SPPC_SIGILL :: int where "SPPC_SIGILL \<equiv> 4"
abbreviation (input) SPPC_SIGTRAP :: int where "SPPC_SIGTRAP \<equiv> 5"
abbreviation (input) SPPC_SIGABRT :: int where "SPPC_SIGABRT \<equiv> 6"
abbreviation (input) SPPC_SIGBUS :: int where "SPPC_SIGBUS \<equiv> 7"
abbreviation (input) SPPC_SIGFPE :: int where "SPPC_SIGFPE \<equiv> 8"
abbreviation (input) SPPC_SIGKILL :: int where "SPPC_SIGKILL \<equiv> 9"
abbreviation (input) SPPC_SIGUSR1 :: int where "SPPC_SIGUSR1 \<equiv> 10"
abbreviation (input) SPPC_SIGSEGV :: int where "SPPC_SIGSEGV \<equiv> 11"
abbreviation (input) SPPC_SIGUSR2 :: int where "SPPC_SIGUSR2 \<equiv> 12"
abbreviation (input) SPPC_SIGPIPE :: int where "SPPC_SIGPIPE \<equiv> 13"
abbreviation (input) SPPC_SIGALRM :: int where "SPPC_SIGALRM \<equiv> 14"
abbreviation (input) SPPC_SIGTERM :: int where "SPPC_SIGTERM \<equiv> 15"
abbreviation (input) SPPC_SIGCHLD :: int where "SPPC_SIGCHLD \<equiv> 17"
abbreviation (input) SPPC_SIGCONT :: int where "SPPC_SIGCONT \<equiv> 18"
abbreviation (input) SPPC_SIGSTOP :: int where "SPPC_SIGSTOP \<equiv> 19"
abbreviation (input) SPPC_SIGTSTP :: int where "SPPC_SIGTSTP \<equiv> 20"
abbreviation (input) SPPC_SIGTTIN :: int where "SPPC_SIGTTIN \<equiv> 21"
abbreviation (input) SPPC_SIGTTOU :: int where "SPPC_SIGTTOU \<equiv> 22"
abbreviation (input) SPPC_SIGURG :: int where "SPPC_SIGURG \<equiv> 23"
abbreviation (input) SPPC_SIGXCPU :: int where "SPPC_SIGXCPU \<equiv> 24"
abbreviation (input) SPPC_SIGXFSZ :: int where "SPPC_SIGXFSZ \<equiv> 25"
abbreviation (input) SPPC_SIGVTALRM :: int where "SPPC_SIGVTALRM \<equiv> 26"
abbreviation (input) SPPC_SIGPROF :: int where "SPPC_SIGPROF \<equiv> 27"
abbreviation (input) SPPC_SIGWINCH :: int where "SPPC_SIGWINCH \<equiv> 28"
abbreviation (input) SPPC_SIGIO :: int where "SPPC_SIGIO \<equiv> 29"
abbreviation (input) SPPC_SIGSYS :: int where "SPPC_SIGSYS \<equiv> 31"

section \<open>AT\<close>

abbreviation (input) SPPC_AT_SYMLINK_NOFOLLOW :: int where "SPPC_AT_SYMLINK_NOFOLLOW \<equiv> 0x100"

section \<open>ST\<close>

abbreviation (input) SPPC_ST_RDONLY :: int where "SPPC_ST_RDONLY \<equiv> 1"
abbreviation (input) SPPC_ST_NOSUID :: int where "SPPC_ST_NOSUID \<equiv> 2"
abbreviation (input) SPPC_ST_NODEV :: int where "SPPC_ST_NODEV \<equiv> 4"
abbreviation (input) SPPC_ST_NOEXEC :: int where "SPPC_ST_NOEXEC \<equiv> 8"
abbreviation (input) SPPC_ST_SYNCHRONOUS :: int where "SPPC_ST_SYNCHRONOUS \<equiv> 16"
abbreviation (input) SPPC_ST_MANDLOCK :: int where "SPPC_ST_MANDLOCK \<equiv> 64"
abbreviation (input) SPPC_ST_NOATIME :: int where "SPPC_ST_NOATIME \<equiv> 1024"
abbreviation (input) SPPC_ST_NODIRATIME :: int where "SPPC_ST_NODIRATIME \<equiv> 2048"
abbreviation (input) SPPC_ST_RELATIME :: int where "SPPC_ST_RELATIME \<equiv> 4096"

section \<open>OTHER\<close>

abbreviation (input) SPPC_BARRIER_SERIAL_THREAD :: int where "SPPC_BARRIER_SERIAL_THREAD \<equiv> - 1"


end
