(* ===== verification/Queues.thy ===== *)
theory Queues
  imports Vmem Types
begin

text \<open>
  The scheduler's lists and slots (async/sched.h): the run queue, the zombies that wait to be
  reaped, the free slots, and the slot table a handle resolves through. A loop over a list is a
  \<^verbatim>\<open>partial_function\<close>: None means that it never ends, which a cyclic list would cause.
  The interface of a first-in first-out queue is the locale \<^verbatim>\<open>fifo\<close>, which the run queue
  implements.
\<close>

section \<open>The run queue\<close>

definition gt_rq_push :: "tptr \<Rightarrow> ('t, 'r) gt_runtime \<Rightarrow> ('t, 'r) gt_runtime" where
  "gt_rq_push t s =
     (let s1 = upd_task t (\<lambda>x. x\<lparr>t_state := GT_STATE_READY, t_next := None\<rparr>) s;
          s2 = (case r_rq_tail s1 of
                  Some l \<Rightarrow> upd_task l (\<lambda>x. x\<lparr>t_next := Some t\<rparr>) s1
                | None \<Rightarrow> s1\<lparr>r_rq_head := Some t\<rparr>)
      in s2\<lparr>r_rq_tail := Some t\<rparr>)"

definition gt_rq_pop :: "('t, 'r) gt_runtime \<Rightarrow> tptr option \<times> ('t, 'r) gt_runtime" where
  "gt_rq_pop s =
     (case r_rq_head s of
        None \<Rightarrow> (None, s)
      | Some t \<Rightarrow>
          let s1 = s\<lparr>r_rq_head := t_next (r_tasks s t)\<rparr>;
              s2 = (if r_rq_head s1 = None then s1\<lparr>r_rq_tail := None\<rparr> else s1)
          in (Some t, upd_task t (\<lambda>x. x\<lparr>t_next := None\<rparr>) s2))"

text \<open>The loop of \<^verbatim>\<open>_gt_rq_remove\<close>, at the node \<^verbatim>\<open>cur\<close> behind \<^verbatim>\<open>prev\<close>.\<close>

partial_function (option) gt_rq_remove_from ::
  "tptr \<Rightarrow> tptr option \<Rightarrow> tptr option \<Rightarrow> ('t, 'r) gt_runtime \<Rightarrow> (bool \<times> ('t, 'r) gt_runtime) option"
where
  "gt_rq_remove_from t prev cur s =
     (case cur of
        None \<Rightarrow> Some (False, s)
      | Some c \<Rightarrow>
          if c \<noteq> t then gt_rq_remove_from t (Some c) (t_next (r_tasks s c)) s
          else
            let s1 = (case prev of
                        Some p \<Rightarrow> upd_task p (\<lambda>x. x\<lparr>t_next := t_next (r_tasks s c)\<rparr>) s
                      | None \<Rightarrow> s\<lparr>r_rq_head := t_next (r_tasks s c)\<rparr>);
                s2 = (if r_rq_tail s1 = Some c then s1\<lparr>r_rq_tail := prev\<rparr> else s1)
            in Some (True, upd_task c (\<lambda>x. x\<lparr>t_next := None\<rparr>) s2))"

definition gt_rq_remove ::
  "tptr \<Rightarrow> ('t, 'r) gt_runtime \<Rightarrow> (bool \<times> ('t, 'r) gt_runtime) option" where
  "gt_rq_remove t s = gt_rq_remove_from t None (r_rq_head s) s"

section \<open>Zombies\<close>

text \<open>What \<^verbatim>\<open>_gt_slot_free\<close> does to a slot, and \<^verbatim>\<open>_gt_reap\<close> to a detached one.\<close>

definition next_gen :: "u32 \<Rightarrow> u32" where
  "next_gen g = (let g' = (g + 1) AND GT_GEN_MASK in if g' = 0 then 1 else g')"

definition gt_slot_free :: "tptr \<Rightarrow> ('t, 'r) gt_runtime \<Rightarrow> ('t, 'r) gt_runtime" where
  "gt_slot_free t s =
     (upd_task t (\<lambda>x. x\<lparr>t_state := GT_STATE_FREE, t_gen := next_gen (t_gen x),
                        t_next := r_free_slots s\<rparr>) s)
     \<lparr>r_free_slots := Some t, r_live := r_live s - 1\<rparr>"

text \<open>One zombie: unlinked, its stacks freed, and its slot with them if it was detached.\<close>

definition gt_reap_one :: "os_mem \<Rightarrow> tptr \<Rightarrow> ('t, 'r) gt_runtime \<Rightarrow> ('t, 'r) gt_runtime" where
  "gt_reap_one os z s =
     (let s1 = upd_task z (\<lambda>x. x\<lparr>t_next := None\<rparr>) s;
          s2 = (if t_stack (r_tasks s1 z) \<noteq> None
                then upd_task z (\<lambda>x. x\<lparr>t_stack := None\<rparr>)
                       (gt_stack_free os (t_stack (r_tasks s1 z)) (t_stack_size (r_tasks s1 z)) s1)
                else s1);
          s3 = (if t_ustack (r_tasks s2 z) \<noteq> None
                then upd_task z (\<lambda>x. x\<lparr>t_ustack := None\<rparr>)
                       (gt_stack_free os (t_ustack (r_tasks s2 z)) (t_ustack_size (r_tasks s2 z)) s2)
                else s2)
      in if t_detached (r_tasks s3 z) then gt_slot_free z s3 else s3)"

partial_function (option) gt_reap_from ::
  "os_mem \<Rightarrow> tptr option \<Rightarrow> ('t, 'r) gt_runtime \<Rightarrow> ('t, 'r) gt_runtime option" where
  "gt_reap_from os z s =
     (case z of
        None \<Rightarrow> Some s
      | Some t \<Rightarrow> gt_reap_from os (t_next (r_tasks s t)) (gt_reap_one os t s))"

definition gt_reap :: "os_mem \<Rightarrow> ('t, 'r) gt_runtime \<Rightarrow> ('t, 'r) gt_runtime option" where
  "gt_reap os s = gt_reap_from os (r_zombies s) (s\<lparr>r_zombies := None\<rparr>)"

section \<open>Task slots\<close>

text \<open>
  A zeroed task. What a fresh one's backend part holds when zeroed is the argument \<^verbatim>\<open>io0\<close>.
\<close>

definition zero_task :: "'t \<Rightarrow> 't gt_task" where
  "zero_task io0 =
     \<lparr>t_sp = FNull, t_stack = None, t_stack_size = 0, t_ustack = None, t_ustack_size = 0,
      t_usp = None, t_next = None, t_waiters = None, t_wnext = None, t_body = \<lparr>fn = 0, env = None\<rparr>,
      t_njoiners = 0, t_io = io0, t_io_res = 0, t_idx = 0, t_gen = 0,
      t_state = GT_STATE_FREE, t_detached = False\<rparr>"

text \<open>
  What the allocator answers a slot allocation: whether the slot table could be grown, and
  whether a new task could be allocated.
\<close>

record os_slot =
  os_realloc :: bool
  os_calloc :: bool

definition gt_slot_grow :: "os_slot \<Rightarrow> ('t, 'r) gt_runtime \<Rightarrow> ('t, 'r) gt_runtime option" where
  "gt_slot_grow os s =
     (if r_nslots s = r_cslots s then
        let nc = (if r_cslots s \<noteq> 0 then r_cslots s * 2 else 64) in
        if unat GT_IDX_MASK < nc then None
        else if os_realloc os then Some (s\<lparr>r_cslots := nc\<rparr>) else None
      else Some s)"

definition gt_slot_alloc ::
  "os_slot \<Rightarrow> 't \<Rightarrow> ('t, 'r) gt_runtime \<Rightarrow> tptr option \<times> ('t, 'r) gt_runtime" where
  "gt_slot_alloc os io0 s =
     (case r_free_slots s of
        Some t \<Rightarrow>
          let x = r_tasks s t;
              g = (if t_gen x \<noteq> 0 then t_gen x else 1)
          in (Some t,
              (upd_task t (\<lambda>_. (zero_task io0)\<lparr>t_idx := t_idx x, t_gen := g\<rparr>) s)
              \<lparr>r_free_slots := t_next x, r_live := r_live s + 1\<rparr>)
      | None \<Rightarrow>
          (case gt_slot_grow os s of
             None \<Rightarrow> (None, s)
           | Some s1 \<Rightarrow>
               if \<not> os_calloc os then (None, s1)
               else
                 let t = r_nslots s1 in
                 (Some t,
                  (upd_task t (\<lambda>_. (zero_task io0)\<lparr>t_idx := of_nat t, t_gen := 1\<rparr>) s1)
                  \<lparr>r_nslots := Suc t, r_live := r_live s1 + 1\<rparr>)))"

definition gt_resolve :: "u32 \<Rightarrow> ('t, 'r) gt_runtime \<Rightarrow> tptr option" where
  "gt_resolve h s =
     (let idx = unat (handle_idx h); gen = handle_gen h in
      if sint h \<le> 0 \<or> r_nslots s \<le> idx then None
      else if t_gen (r_tasks s idx) \<noteq> gen \<or> t_state (r_tasks s idx) = GT_STATE_FREE then None
      else Some idx)"

section \<open>The run queue as a list\<close>

definition nxt :: "('t, 'r) gt_runtime \<Rightarrow> tptr \<Rightarrow> tptr option" where
  "nxt s t = t_next (r_tasks s t)"

definition wnx :: "('t, 'r) gt_runtime \<Rightarrow> tptr \<Rightarrow> tptr option" where
  "wnx s t = t_wnext (r_tasks s t)"

definition last_opt :: "'a list \<Rightarrow> 'a option" where
  "last_opt xs = (if xs = [] then None else Some (last xs))"

lemma last_opt_simps [simp]:
  "last_opt [] = None" "last_opt (xs @ [x]) = Some x" "last_opt [x] = Some x"
  "last_opt (x # y # xs) = last_opt (y # xs)"
  by (simp_all add: last_opt_def)

lemma last_opt_Some: "last_opt xs = Some l \<longleftrightarrow> (\<exists>ys. xs = ys @ [l])"
  by (cases xs rule: rev_cases) auto

lemma last_opt_None [simp]: "last_opt xs = None \<longleftrightarrow> xs = []"
  by (simp add: last_opt_def)

definition rq_list :: "('t, 'r) gt_runtime \<Rightarrow> tptr list \<Rightarrow> bool" where
  "rq_list s xs \<longleftrightarrow> chain (nxt s) (r_rq_head s) xs \<and> r_rq_tail s = last_opt xs"

lemma nxt_simps [simp]:
  "nxt (s\<lparr>r_rq_head := a\<rparr>) = nxt s" "nxt (s\<lparr>r_rq_tail := a\<rparr>) = nxt s"
  "nxt (s\<lparr>r_free_slots := a\<rparr>) = nxt s" "nxt (s\<lparr>r_zombies := a\<rparr>) = nxt s"
  "nxt (s\<lparr>r_live := l\<rparr>) = nxt s" "nxt (s\<lparr>r_current := a\<rparr>) = nxt s"
  by (simp_all add: nxt_def fun_eq_iff)

lemma nxt_upd: "nxt (upd_task p f s) = (nxt s)(p := t_next (f (r_tasks s p)))"
  by (auto simp: nxt_def fun_eq_iff)

lemma gt_rq_push_list:
  assumes "rq_list s xs" and "t \<notin> set xs"
  shows "rq_list (gt_rq_push t s) (xs @ [t])"
proof (cases xs rule: rev_cases)
  case Nil
  with assms show ?thesis by (simp add: rq_list_def gt_rq_push_def nxt_upd)
next
  case (snoc ys l)
  from assms snoc have c: "chain (nxt s) (r_rq_head s) (ys @ [l])" and t: "r_rq_tail s = Some l"
    and ne: "t \<noteq> l" "t \<notin> set ys" by (auto simp: rq_list_def)
  from c ne have c1: "chain ((nxt s)(t := None)) (r_rq_head s) (ys @ [l])" by simp
  have "chain ((nxt s)(t := None, l := Some t)) (r_rq_head s) (ys @ [l, t])"
    by (rule chain_snoc [OF c1]) (use ne in auto)
  with t show ?thesis
    by (simp add: rq_list_def gt_rq_push_def nxt_upd snoc last_opt_def)
qed

lemma gt_rq_pop_empty: "rq_list s [] \<Longrightarrow> gt_rq_pop s = (None, s)"
  by (simp add: rq_list_def gt_rq_pop_def)

lemma gt_rq_pop_list:
  assumes "rq_list s (t # xs)"
  shows "\<exists>s'. gt_rq_pop s = (Some t, s') \<and> rq_list s' xs"
proof -
  have "t \<notin> set xs" using chain_distinct [of "nxt s" "r_rq_head s" "t # xs"] assms
    by (simp add: rq_list_def)
  with assms show ?thesis
    by (cases xs) (auto simp: rq_list_def gt_rq_pop_def nxt_upd Let_def nxt_def)
qed

lemma gt_rq_pop_None: "rq_list s xs \<Longrightarrow> fst (gt_rq_pop s) = None \<longleftrightarrow> xs = []"
  by (cases xs) (auto simp: rq_list_def gt_rq_pop_def Let_def)

text \<open>What a queue operation may touch: the queue's ends, and the links of the tasks in \<^verbatim>\<open>A\<close>.\<close>

definition rq_frame :: "tptr set \<Rightarrow> ('t, 'r) gt_runtime \<Rightarrow> ('t, 'r) gt_runtime \<Rightarrow> bool" where
  "rq_frame A s s' \<longleftrightarrow>
     s' = s\<lparr>r_rq_head := r_rq_head s', r_rq_tail := r_rq_tail s', r_tasks := r_tasks s'\<rparr> \<and>
     (\<forall>p. p \<notin> A \<longrightarrow> r_tasks s' p = r_tasks s p) \<and>
     (\<forall>p. (r_tasks s' p)\<lparr>t_next := None\<rparr> = (r_tasks s p)\<lparr>t_next := None\<rparr>)"

lemma rq_frame_refl [simp]: "rq_frame A s s"
  by (simp add: rq_frame_def)

lemma gt_rq_pop_frame:
  assumes "rq_list s (t # xs)" and "gt_rq_pop s = (q, s')"
  shows "q = Some t \<and> rq_list s' xs \<and> rq_frame {t} s s'"
proof -
  have h: "r_rq_head s = Some t" using assms(1) by (simp add: rq_list_def)
  have "rq_frame {t} s (snd (gt_rq_pop s))"
    by (auto simp: rq_frame_def gt_rq_pop_def h upd_task_def Let_def)
  with gt_rq_pop_list [OF assms(1)] assms(2) show ?thesis by auto
qed

lemma gt_rq_remove_from_list:
  assumes "chain (nxt s) (r_rq_head s) (as @ bs)" and "r_rq_tail s = last_opt (as @ bs)"
    and "cur = (case bs of [] \<Rightarrow> None | b # _ \<Rightarrow> Some b)" and "t \<notin> set as"
  shows "\<exists>s'. gt_rq_remove_from t (last_opt as) cur s = Some (t \<in> set bs, s') \<and>
    rq_list s' (as @ remove1 t bs) \<and> rq_frame (set (as @ bs)) s s'"
  using assms
proof (induction bs arbitrary: as cur)
  case Nil
  then show ?case
    by (subst gt_rq_remove_from.simps)
      (auto simp: rq_list_def)
next
  case (Cons c cs)
  from Cons.prems(1) have link: "chain (nxt s) (nxt s c) cs" by (rule chain_split)
  have d: "distinct (as @ c # cs)" by (rule chain_distinct [OF Cons.prems(1)])
  show ?case
  proof (cases "c = t")
    case False
    have "t_next (r_tasks s c) = (case cs of [] \<Rightarrow> None | b # _ \<Rightarrow> Some b)"
      using link by (cases cs) (auto simp: nxt_def)
    with Cons.IH [of "as @ [c]" "t_next (r_tasks s c)"] Cons.prems False show ?thesis
      by (subst gt_rq_remove_from.simps) simp
  next
    case True
    define s1 where "s1 = (case last_opt as of
        Some p \<Rightarrow> upd_task p (\<lambda>x. x\<lparr>t_next := t_next (r_tasks s t)\<rparr>) s
      | None \<Rightarrow> s\<lparr>r_rq_head := t_next (r_tasks s t)\<rparr>)"
    define s2 where "s2 = (if r_rq_tail s1 = Some t then s1\<lparr>r_rq_tail := last_opt as\<rparr> else s1)"
    define s3 where "s3 = upd_task t (\<lambda>x. x\<lparr>t_next := None\<rparr>) s2"
    have res: "gt_rq_remove_from t (last_opt as) cur s = Some (True, s3)"
      using Cons.prems(3) True
      by (subst gt_rq_remove_from.simps) (simp add: Let_def s1_def s2_def s3_def)
    have frame: "rq_frame (set (as @ c # cs)) s s3"
      unfolding s3_def s2_def s1_def using True
      by (auto simp: rq_frame_def upd_task_def last_opt_Some split: option.split)
    have "r_rq_tail s1 = last_opt (as @ c # cs)"
      using Cons.prems(2) unfolding s1_def by (simp split: option.split)
    moreover have "last_opt (as @ c # cs) = Some t \<longleftrightarrow> cs = []"
      using True d by (cases cs rule: rev_cases) (auto simp: last_opt_def)
    ultimately have tail: "r_rq_tail s3 = last_opt (as @ cs)"
      unfolding s3_def s2_def by (simp add: last_opt_def)
    have "chain (nxt s3) (r_rq_head s3) (as @ cs)"
    proof (cases as rule: rev_cases)
      case Nil
      with d True link Cons.prems(1) show ?thesis
        by (simp add: s3_def s2_def s1_def nxt_upd nxt_def [symmetric])
    next
      case (snoc ps p)
      have ne: "p \<noteq> t" "p \<notin> set cs" "t \<notin> set cs" "t \<notin> set ps" "p \<notin> set ps"
        using d snoc True by auto
      have "chain ((nxt s)(p := nxt s t)) (r_rq_head s) (ps @ p # cs)"
        by (rule chain_unlink) (use Cons.prems(1) snoc True in simp)
      then have "chain ((nxt s)(p := nxt s t, t := None)) (r_rq_head s) (ps @ p # cs)"
        using ne by (subst chain_upd_outside) auto
      with snoc ne show ?thesis
        by (simp add: s3_def s2_def s1_def nxt_upd nxt_def [symmetric])
    qed
    with res frame tail True show ?thesis by (auto simp: rq_list_def)
  qed
qed

lemma gt_rq_remove_list:
  assumes "rq_list s xs"
  shows "\<exists>s'. gt_rq_remove t s = Some (t \<in> set xs, s') \<and> rq_list s' (remove1 t xs) \<and>
    rq_frame (set xs) s s'"
proof -
  have "r_rq_head s = (case xs of [] \<Rightarrow> None | b # _ \<Rightarrow> Some b)"
    using assms by (cases xs) (auto simp: rq_list_def)
  with gt_rq_remove_from_list [of s "[]" xs "r_rq_head s" t] assms show ?thesis
    by (simp add: gt_rq_remove_def rq_list_def)
qed

section \<open>First in, first out\<close>

text \<open>
  The interface of a queue its client relies on: what is pushed comes out in that order, and a
  member can be taken out of the middle without disturbing the others.
\<close>

locale fifo =
  fixes view :: "'s \<Rightarrow> 'x list \<Rightarrow> bool"
    and push :: "'x \<Rightarrow> 's \<Rightarrow> 's"
    and pop :: "'s \<Rightarrow> 'x option \<times> 's"
    and remove :: "'x \<Rightarrow> 's \<Rightarrow> (bool \<times> 's) option"
  assumes push: "view s xs \<Longrightarrow> x \<notin> set xs \<Longrightarrow> view (push x s) (xs @ [x])"
    and pop_empty: "view s [] \<Longrightarrow> pop s = (None, s)"
    and pop: "view s (x # xs) \<Longrightarrow> \<exists>s'. pop s = (Some x, s') \<and> view s' xs"
    and remove: "view s xs \<Longrightarrow> \<exists>s'. remove x s = Some (x \<in> set xs, s') \<and> view s' (remove1 x xs)"

text \<open>Popping \<^verbatim>\<open>n\<close> times: what came out, and the queue left.\<close>

fun pops :: "('s \<Rightarrow> 'x option \<times> 's) \<Rightarrow> nat \<Rightarrow> 's \<Rightarrow> 'x list \<times> 's" where
  "pops pop 0 s = ([], s)"
| "pops pop (Suc n) s =
     (case pop s of
        (None, s') \<Rightarrow> ([], s')
      | (Some x, s') \<Rightarrow> (let (xs, s'') = pops pop n s' in (x # xs, s'')))"

context fifo
begin

lemma push_all: "view s xs \<Longrightarrow> distinct (xs @ ys) \<Longrightarrow> view (fold push ys s) (xs @ ys)"
proof (induction ys arbitrary: s xs)
  case (Cons y ys)
  then have "view (push y s) (xs @ [y])" by (intro push) auto
  with Cons.IH [of "push y s" "xs @ [y]"] Cons.prems show ?case by simp
qed simp

lemma pops_all: "view s xs \<Longrightarrow> \<exists>s'. pops pop (length xs) s = (xs, s') \<and> view s' []"
proof (induction xs arbitrary: s)
  case (Cons x xs)
  from pop [OF Cons.prems] Cons.IH show ?case by force
qed auto

lemma in_order:
  assumes "view s xs" and "distinct (xs @ ys)"
  shows "\<exists>s'. pops pop (length (xs @ ys)) (fold push ys s) = (xs @ ys, s') \<and> view s' []"
  by (rule pops_all [OF push_all [OF assms]])

lemma in_order_without:
  assumes "view s xs" and "remove x s = Some (b, s')"
  shows "\<exists>s''. pops pop (length (remove1 x xs)) s' = (remove1 x xs, s'') \<and> b = (x \<in> set xs)"
  using remove [OF assms(1), of x] assms(2) pops_all by fastforce

end

interpretation rq: fifo rq_list gt_rq_push gt_rq_pop gt_rq_remove
  using gt_rq_push_list gt_rq_pop_empty gt_rq_pop_list gt_rq_remove_list
  by unfold_locales blast+

end
