(* ===== verification/SchedSpec.thy ===== *)
theory SchedSpec
  imports Queues
begin

text \<open>
  What the scheduler promises, without pointers: its queues are lists of tasks, a task carries
  its state, the place it carries on from, its awaiters and how many awaiters have yet to collect.
  \<^verbatim>\<open>core\<close> is the invariant every scheduling point keeps; each lemma \<^verbatim>\<open>core_*\<close> is one
  transition keeping it. The theory SchedRefine shows that the code (theory Sched) implements
  these transitions.
\<close>

section \<open>The abstract scheduler\<close>

record atask =
  s_state :: gt_state
  s_frame :: gt_frame
  s_wait :: "tptr list"
  s_join :: nat
  s_gen :: nat
  s_det :: bool

record sched =
  s_run :: "tptr list"
  s_free :: "tptr list"
  s_dead :: "tptr list"
  s_cur :: tptr
  s_n :: nat
  s_task :: "tptr \<Rightarrow> atask"
  s_live :: nat
  s_inflight :: nat

abbreviation st :: "sched \<Rightarrow> tptr \<Rightarrow> gt_state" where "st a t \<equiv> s_state (s_task a t)"
abbreviation fr :: "sched \<Rightarrow> tptr \<Rightarrow> gt_frame" where "fr a t \<equiv> s_frame (s_task a t)"

definition a_upd :: "tptr \<Rightarrow> (atask \<Rightarrow> atask) \<Rightarrow> sched \<Rightarrow> sched" where
  "a_upd t f a = a\<lparr>s_task := (s_task a)(t := f (s_task a t))\<rparr>"

lemma a_upd_simps [simp]:
  "s_run (a_upd t f a) = s_run a" "s_free (a_upd t f a) = s_free a"
  "s_dead (a_upd t f a) = s_dead a" "s_cur (a_upd t f a) = s_cur a" "s_n (a_upd t f a) = s_n a"
  "s_task (a_upd t f a) = (s_task a)(t := f (s_task a t))"
  "s_live (a_upd t f a) = s_live a" "s_inflight (a_upd t f a) = s_inflight a"
  by (simp_all add: a_upd_def)

definition a_push :: "tptr \<Rightarrow> sched \<Rightarrow> sched" where
  "a_push t a = (a_upd t (\<lambda>x. x\<lparr>s_state := GT_STATE_READY\<rparr>) a)\<lparr>s_run := s_run a @ [t]\<rparr>"

text \<open>An operation of a waiting task finished: it is ready again.\<close>

definition a_complete :: "tptr \<Rightarrow> sched \<Rightarrow> sched" where
  "a_complete t a = a_push t (a\<lparr>s_inflight := s_inflight a - 1\<rparr>)"

text \<open>The task at the head of the run queue becomes the running one.\<close>

definition a_dispatch :: "tptr \<Rightarrow> sched \<Rightarrow> sched" where
  "a_dispatch t a =
     (a_upd t (\<lambda>x. x\<lparr>s_state := GT_STATE_RUNNING\<rparr>) a)\<lparr>s_run := remove1 t (s_run a), s_cur := t\<rparr>"

definition a_requeue :: "gt_frame \<Rightarrow> sched \<Rightarrow> sched" where
  "a_requeue k a = a_push (s_cur a) (a_upd (s_cur a) (\<lambda>x. x\<lparr>s_frame := k\<rparr>) a)"

definition a_park :: "sched \<Rightarrow> sched" where
  "a_park a =
     (a_upd (s_cur a) (\<lambda>x. x\<lparr>s_state := GT_STATE_WAITING, s_frame := FIoWait\<rparr>) a)
     \<lparr>s_inflight := Suc (s_inflight a)\<rparr>"

definition a_join :: "tptr \<Rightarrow> sched \<Rightarrow> sched" where
  "a_join t a =
     a_upd t (\<lambda>x. x\<lparr>s_wait := s_cur a # s_wait x, s_join := Suc (s_join x)\<rparr>)
      (a_upd (s_cur a) (\<lambda>x. x\<lparr>s_state := GT_STATE_JOINING, s_frame := FAwait t\<rparr>) a)"

definition next_gen_nat :: "nat \<Rightarrow> nat" where
  "next_gen_nat g = (let g' = Suc g mod 2048 in if g' = 0 then 1 else g')"

definition a_free :: "tptr \<Rightarrow> sched \<Rightarrow> sched" where
  "a_free t a =
     (a_upd t (\<lambda>x. x\<lparr>s_state := GT_STATE_FREE, s_gen := next_gen_nat (s_gen x)\<rparr>) a)
     \<lparr>s_free := t # s_free a, s_live := s_live a - 1\<rparr>"

text \<open>The awaiter that resumes collects; the last one retires the slot.\<close>

definition a_collect :: "tptr \<Rightarrow> sched \<Rightarrow> sched" where
  "a_collect t a =
     (let a1 = a_upd t (\<lambda>x. x\<lparr>s_join := s_join x - 1\<rparr>) a
      in if s_join (s_task a1 t) = 0 then a_free t a1 else a1)"

definition a_finish :: "sched \<Rightarrow> sched" where
  "a_finish a =
     (let self = s_cur a;
          a1 = a_upd self (\<lambda>x. x\<lparr>s_state := GT_STATE_DONE, s_frame := FEnded, s_wait := []\<rparr>) a;
          a2 = fold a_push (s_wait (s_task a self)) a1
      in a2\<lparr>s_dead := self # s_dead a2\<rparr>)"

text \<open>The finished tasks, one by one: a detached one's slot is free again.\<close>

primrec a_reap_list :: "tptr list \<Rightarrow> sched \<Rightarrow> sched" where
  "a_reap_list [] a = a\<lparr>s_dead := []\<rparr>"
| "a_reap_list (z # zs) a =
     a_reap_list zs
       (let a1 = a\<lparr>s_dead := zs\<rparr> in if s_det (s_task a z) then a_free z a1 else a1)"

definition a_reap :: "sched \<Rightarrow> sched" where
  "a_reap a = a_reap_list (s_dead a) a"

definition new_atask :: "nat \<Rightarrow> atask" where
  "new_atask g = \<lparr>s_state = GT_STATE_FREE, s_frame = FNull, s_wait = [], s_join = 0, s_gen = g, s_det = False\<rparr>"

text \<open>A slot for a new task: the one freed last, or a further one.\<close>

definition a_alloc :: "sched \<Rightarrow> tptr \<times> sched" where
  "a_alloc a =
     (case s_free a of
        t # ts \<Rightarrow> (t, (a_upd t (\<lambda>x. new_atask (s_gen x)) a)\<lparr>s_free := ts, s_live := Suc (s_live a)\<rparr>)
      | [] \<Rightarrow> (s_n a, (a_upd (s_n a) (\<lambda>x. new_atask 1) a)\<lparr>s_n := Suc (s_n a), s_live := Suc (s_live a)\<rparr>))"

definition a_spawn :: "sched \<Rightarrow> tptr \<times> sched" where
  "a_spawn a =
     (let (t, a1) = a_alloc a in (t, a_push t (a_upd t (\<lambda>x. x\<lparr>s_frame := FTrampoline\<rparr>) a1)))"

definition a_detach :: "tptr \<Rightarrow> sched \<Rightarrow> sched" where
  "a_detach t a =
     (let a1 = a_upd t (\<lambda>x. x\<lparr>s_det := True\<rparr>) a
      in if st a t = GT_STATE_DONE then a_free t a1 else a1)"

section \<open>The invariant\<close>

text \<open>
  The suspended tasks: those that are to carry on somewhere. \<^verbatim>\<open>X\<close> is the running task while
  a switch to it is still under way, and empty otherwise.
\<close>

definition susp :: "tptr set \<Rightarrow> sched \<Rightarrow> tptr set" where
  "susp X a = X \<union> {w. w < s_n a \<and> st a w \<in> {GT_STATE_READY, GT_STATE_JOINING, GT_STATE_WAITING}}"

definition queues_ok :: "sched \<Rightarrow> bool" where
  "queues_ok a \<longleftrightarrow>
     distinct (s_run a) \<and> set (s_run a) = {t. t < s_n a \<and> st a t = GT_STATE_READY} \<and>
     distinct (s_free a) \<and> set (s_free a) = {t. t < s_n a \<and> st a t = GT_STATE_FREE} \<and>
     distinct (s_dead a) \<and> set (s_dead a) \<subseteq> {t. t < s_n a \<and> st a t = GT_STATE_DONE} \<and>
     (\<forall>t < s_n a. st a t = GT_STATE_DONE \<longrightarrow> s_det (s_task a t) \<longrightarrow> t \<in> set (s_dead a))"

definition awaiting :: "sched \<Rightarrow> tptr \<Rightarrow> tptr set" where
  "awaiting a t = {w. w < s_n a \<and> st a w = GT_STATE_JOINING \<and> fr a w = FAwait t}"

definition wait_ok :: "sched \<Rightarrow> bool" where
  "wait_ok a \<longleftrightarrow>
     (\<forall>t < s_n a. distinct (s_wait (s_task a t)) \<and> set (s_wait (s_task a t)) = awaiting a t \<and>
        (st a t \<in> {GT_STATE_FREE, GT_STATE_DONE} \<longrightarrow> s_wait (s_task a t) = [])) \<and>
     (\<forall>w < s_n a. st a w = GT_STATE_JOINING \<longrightarrow> (\<exists>t. fr a w = FAwait t))"

definition frame_ok :: "sched \<Rightarrow> tptr \<Rightarrow> bool" where
  "frame_ok a w \<longleftrightarrow> fr a w \<notin> {FNull, FEnded} \<and>
     (\<forall>t. fr a w = FAwait t \<longrightarrow> t < s_n a \<and> t \<noteq> w \<and> st a t \<noteq> GT_STATE_FREE \<and>
        \<not> s_det (s_task a t) \<and> (st a w \<noteq> GT_STATE_JOINING \<longrightarrow> st a t = GT_STATE_DONE))"

definition frames_ok :: "tptr set \<Rightarrow> sched \<Rightarrow> bool" where
  "frames_ok X a \<longleftrightarrow> (\<forall>w \<in> susp X a. frame_ok a w) \<and>
     (\<forall>w < s_n a. st a w = GT_STATE_WAITING \<longrightarrow> fr a w = FIoWait)"

definition pending :: "tptr set \<Rightarrow> sched \<Rightarrow> tptr \<Rightarrow> tptr set" where
  "pending X a t = {w \<in> susp X a. fr a w = FAwait t}"

definition live_set :: "sched \<Rightarrow> tptr set" where
  "live_set a = {t. t < s_n a \<and> st a t \<noteq> GT_STATE_FREE}"

definition parked :: "sched \<Rightarrow> tptr set" where
  "parked a = {t. t < s_n a \<and> st a t = GT_STATE_WAITING}"

definition counts_ok :: "tptr set \<Rightarrow> sched \<Rightarrow> bool" where
  "counts_ok X a \<longleftrightarrow>
     (\<forall>t < s_n a. s_join (s_task a t) = card (pending X a t)) \<and>
     s_live a = card (live_set a) \<and> s_inflight a = card (parked a) \<and>
     (\<forall>t < s_n a. 1 \<le> s_gen (s_task a t) \<and> s_gen (s_task a t) < 2048) \<and>
     s_n a \<le> 2 ^ 19"

definition core :: "tptr set \<Rightarrow> sched \<Rightarrow> bool" where
  "core X a \<longleftrightarrow> X \<subseteq> {..<s_n a} \<and> queues_ok a \<and> wait_ok a \<and> frames_ok X a \<and> counts_ok X a"

definition running :: "sched \<Rightarrow> tptr set" where
  "running a = {t. t < s_n a \<and> st a t = GT_STATE_RUNNING}"

text \<open>A task's code is running; a switch to the current task is under way; nothing runs.\<close>

definition body_ok :: "sched \<Rightarrow> bool" where
  "body_ok a \<longleftrightarrow> core {} a \<and> running a = {s_cur a} \<and> s_dead a = []"

definition switch_ok :: "sched \<Rightarrow> bool" where
  "switch_ok a \<longleftrightarrow> core {s_cur a} a \<and> running a = {s_cur a}"

definition idle_ok :: "sched \<Rightarrow> bool" where
  "idle_ok a \<longleftrightarrow> core {} a \<and> running a = {}"

lemmas core_defs = core_def queues_ok_def wait_ok_def frames_ok_def counts_ok_def susp_def

lemma finite_sets [simp]: "finite (live_set a)" "finite (parked a)"
  by (simp_all add: live_set_def parked_def)

section \<open>Transitions\<close>

lemma wait_okD:
  assumes "wait_ok a" and "t < s_n a"
  shows "distinct (s_wait (s_task a t))" and "set (s_wait (s_task a t)) = awaiting a t"
    and "st a t = GT_STATE_FREE \<Longrightarrow> s_wait (s_task a t) = []"
    and "st a t = GT_STATE_DONE \<Longrightarrow> s_wait (s_task a t) = []"
    and "st a t = GT_STATE_JOINING \<Longrightarrow> \<exists>u. fr a t = FAwait u"
  using assms unfolding wait_ok_def by simp_all

lemma wait_ok_cong:
  assumes w: "wait_ok a" and n: "s_n b = s_n a"
    and t: "\<And>t. t < s_n a \<Longrightarrow> s_wait (s_task b t) = s_wait (s_task a t) \<and>
      (st b t \<in> {GT_STATE_FREE, GT_STATE_DONE} \<longrightarrow> s_wait (s_task a t) = []) \<and>
      (st b t = GT_STATE_JOINING \<longleftrightarrow> st a t = GT_STATE_JOINING) \<and>
      (st a t = GT_STATE_JOINING \<longrightarrow> fr b t = fr a t)"
  shows "wait_ok b"
proof -
  have "awaiting b u = awaiting a u" for u
    using t unfolding awaiting_def n by (metis (no_types, lifting))
  moreover have "\<exists>u. fr b t = FAwait u" if "t < s_n a" "st b t = GT_STATE_JOINING" for t
    using wait_okD(5) [OF w that(1)] t [OF that(1)] that(2) by metis
  ultimately show ?thesis
    unfolding wait_ok_def n using t wait_okD(1,2) [OF w] by simp
qed

lemma core_complete:
  assumes c: "core X a" and d: "d < s_n a" "st a d = GT_STATE_WAITING" "d \<notin> X"
  shows "core X (a_complete d a)"
proof -
  let ?b = "a_complete d a"
  have tk: "s_task ?b = (s_task a)(d := (s_task a d)\<lparr>s_state := GT_STATE_READY\<rparr>)"
    and [simp]: "s_n ?b = s_n a" "s_free ?b = s_free a" "s_dead ?b = s_dead a"
      "s_run ?b = s_run a @ [d]" "s_live ?b = s_live a" "s_inflight ?b = s_inflight a - 1"
    by (simp_all add: a_complete_def a_push_def)
  have susp: "susp X ?b = susp X a" using d by (auto simp: susp_def tk)
  have fr: "fr ?b w = fr a w" for w by (simp add: tk)
  have pend: "pending X ?b = pending X a" by (simp add: pending_def susp fr fun_eq_iff)
  have "queues_ok ?b" using c d by (auto simp: core_def queues_ok_def tk)
  moreover have "wait_ok ?b"
    by (rule wait_ok_cong [of a]) (use c d in \<open>simp_all add: core_def tk wait_okD\<close>)
  moreover have "frames_ok X ?b"
    using c d by (auto simp: core_def frames_ok_def frame_ok_def tk susp)
  moreover have "counts_ok X ?b"
  proof -
    have "parked ?b = parked a - {d}"
      using d by (auto simp: parked_def live_set_def tk)
    moreover have "live_set ?b = live_set a"
      using d by (auto simp: parked_def live_set_def tk)
    moreover have "d \<in> parked a" using d by (simp add: parked_def)
    ultimately show ?thesis using c by (auto simp: core_def counts_ok_def pend tk)
  qed
  ultimately show ?thesis using c by (simp add: core_def)
qed

lemma coreD:
  assumes "core X a"
  shows "queues_ok a" "wait_ok a" "frames_ok X a" "counts_ok X a" "X \<subseteq> {..<s_n a}"
  using assms by (simp_all add: core_def)

text \<open>A running task that gives up the processor but can run again at once.\<close>

lemma core_requeue:
  assumes c: "core {} a" and r: "running a = {s_cur a}"
    and k: "k \<notin> {FNull, FEnded}" "\<And>t. k \<noteq> FAwait t"
  shows "core {} (a_requeue k a)" and "running (a_requeue k a) = {}"
proof -
  let ?b = "a_requeue k a" let ?d = "s_cur a"
  have d: "?d < s_n a" "st a ?d = GT_STATE_RUNNING" using r by (auto simp: running_def)
  have tk: "s_task ?b = (s_task a)(?d := (s_task a ?d)\<lparr>s_frame := k, s_state := GT_STATE_READY\<rparr>)"
    and [simp]: "s_n ?b = s_n a" "s_free ?b = s_free a" "s_dead ?b = s_dead a"
      "s_run ?b = s_run a @ [?d]" "s_live ?b = s_live a" "s_inflight ?b = s_inflight a"
    by (simp_all add: a_requeue_def a_push_def)
  have susp: "susp {} ?b = insert ?d (susp {} a)" using d by (auto simp: susp_def tk)
  have pend: "pending {} ?b = pending {} a"
    using d k by (auto simp: pending_def susp_def tk fun_eq_iff)
  have "queues_ok ?b" using coreD(1) [OF c] d by (auto simp: queues_ok_def tk)
  moreover have "wait_ok ?b"
    by (rule wait_ok_cong [OF coreD(2) [OF c]]) (use d in \<open>simp_all add: tk wait_okD [OF coreD(2) [OF c]]\<close>)
  moreover have "frames_ok {} ?b"
    using coreD(3) [OF c] d k by (auto simp: frames_ok_def frame_ok_def tk susp)
  moreover have "counts_ok {} ?b"
  proof -
    have "parked ?b = parked a"
      "live_set ?b = live_set a"
      using d by (auto simp: parked_def live_set_def tk)
    then show ?thesis using coreD(4) [OF c] by (auto simp: counts_ok_def pend tk)
  qed
  ultimately show "core {} ?b" by (simp add: core_def)
  show "running ?b = {}" using r by (auto simp: running_def tk)
qed

lemma core_park:
  assumes c: "core {} a" and r: "running a = {s_cur a}"
  shows "core {} (a_park a)" and "running (a_park a) = {}"
proof -
  let ?b = "a_park a" let ?d = "s_cur a"
  have d: "?d < s_n a" "st a ?d = GT_STATE_RUNNING" using r by (auto simp: running_def)
  have tk: "s_task ?b = (s_task a)(?d := (s_task a ?d)\<lparr>s_state := GT_STATE_WAITING, s_frame := FIoWait\<rparr>)"
    and [simp]: "s_n ?b = s_n a" "s_free ?b = s_free a" "s_dead ?b = s_dead a"
      "s_run ?b = s_run a" "s_live ?b = s_live a" "s_inflight ?b = Suc (s_inflight a)"
    by (simp_all add: a_park_def)
  have susp: "susp {} ?b = insert ?d (susp {} a)" using d by (auto simp: susp_def tk)
  have pend: "pending {} ?b = pending {} a"
    using d by (auto simp: pending_def susp_def tk fun_eq_iff)
  have "queues_ok ?b" using coreD(1) [OF c] d by (auto simp: queues_ok_def tk)
  moreover have "wait_ok ?b"
    by (rule wait_ok_cong [OF coreD(2) [OF c]]) (use d in \<open>simp_all add: tk wait_okD [OF coreD(2) [OF c]]\<close>)
  moreover have "frames_ok {} ?b"
    using coreD(3) [OF c] d by (auto simp: frames_ok_def frame_ok_def tk susp)
  moreover have "counts_ok {} ?b"
  proof -
    have "parked ?b = insert ?d (parked a)" and
      "live_set ?b = live_set a"
      using d by (auto simp: parked_def live_set_def tk)
    moreover have "?d \<notin> parked a" using d by (simp add: parked_def)
    ultimately show ?thesis using coreD(4) [OF c] by (auto simp: counts_ok_def pend tk)
  qed
  ultimately show "core {} ?b" by (simp add: core_def)
  show "running ?b = {}" using r by (auto simp: running_def tk)
qed

lemma core_dispatch:
  assumes c: "core {} a" and r: "running a = {}" and d: "d \<in> set (s_run a)"
  shows "core {d} (a_dispatch d a)" and "running (a_dispatch d a) = {d}"
    and "s_cur (a_dispatch d a) = d"
proof -
  let ?b = "a_dispatch d a"
  have d': "d < s_n a" "st a d = GT_STATE_READY" using d coreD(1) [OF c] by (auto simp: queues_ok_def)
  have tk: "s_task ?b = (s_task a)(d := (s_task a d)\<lparr>s_state := GT_STATE_RUNNING\<rparr>)"
    and [simp]: "s_n ?b = s_n a" "s_free ?b = s_free a" "s_dead ?b = s_dead a" "s_cur ?b = d"
      "s_run ?b = remove1 d (s_run a)" "s_live ?b = s_live a" "s_inflight ?b = s_inflight a"
    by (simp_all add: a_dispatch_def)
  have susp: "susp {d} ?b = susp {} a" using d' by (auto simp: susp_def tk)
  have fr: "fr ?b w = fr a w" for w by (simp add: tk)
  have pend: "pending {d} ?b = pending {} a" by (simp add: pending_def susp fr fun_eq_iff)
  have "queues_ok ?b" using coreD(1) [OF c] d' by (auto simp: queues_ok_def tk)
  moreover have "wait_ok ?b"
    by (rule wait_ok_cong [OF coreD(2) [OF c]]) (use d' in \<open>simp_all add: tk wait_okD [OF coreD(2) [OF c]]\<close>)
  moreover have "frames_ok {d} ?b"
    using coreD(3) [OF c] d' by (auto simp: frames_ok_def frame_ok_def tk susp)
  moreover have "counts_ok {d} ?b"
  proof -
    have "parked ?b = parked a"
      "live_set ?b = live_set a"
      using d' by (auto simp: parked_def live_set_def tk)
    then show ?thesis using coreD(4) [OF c] by (auto simp: counts_ok_def pend tk)
  qed
  ultimately show "core {d} ?b" using d' by (simp add: core_def)
  show "running ?b = {d}" using r d' by (auto simp: running_def tk)
  show "s_cur ?b = d" by simp
qed

lemma frames_okI:
  assumes "\<And>w. w \<in> susp X a \<Longrightarrow> frame_ok a w"
    and "\<And>w. w < s_n a \<Longrightarrow> st a w = GT_STATE_WAITING \<Longrightarrow> fr a w = FIoWait"
  shows "frames_ok X a"
  using assms by (simp add: frames_ok_def)

lemma frames_okD:
  assumes "frames_ok X a"
  shows "w \<in> susp X a \<Longrightarrow> frame_ok a w"
    and "w < s_n a \<Longrightarrow> st a w = GT_STATE_WAITING \<Longrightarrow> fr a w = FIoWait"
  using assms by (simp_all add: frames_ok_def)

lemma finite_susp: "core X a \<Longrightarrow> finite (susp X a)"
  unfolding susp_def by (metis coreD(5) finite_Un finite_bounded_Collect finite_lessThan finite_subset)

lemma core_join:
  assumes c: "core {} a" and r: "running a = {s_cur a}"
    and t: "t < s_n a" "t \<noteq> s_cur a" "st a t \<notin> {GT_STATE_FREE, GT_STATE_DONE}" "\<not> s_det (s_task a t)"
  shows "core {} (a_join t a)" and "running (a_join t a) = {}"
proof -
  let ?b = "a_join t a" let ?d = "s_cur a"
  have d: "?d < s_n a" "st a ?d = GT_STATE_RUNNING" using r by (auto simp: running_def)
  have tk: "s_task ?b = (s_task a)(?d := (s_task a ?d)\<lparr>s_state := GT_STATE_JOINING, s_frame := FAwait t\<rparr>,
      t := (s_task a t)\<lparr>s_wait := ?d # s_wait (s_task a t), s_join := Suc (s_join (s_task a t))\<rparr>)"
    and [simp]: "s_n ?b = s_n a" "s_free ?b = s_free a" "s_dead ?b = s_dead a"
      "s_run ?b = s_run a" "s_live ?b = s_live a" "s_inflight ?b = s_inflight a"
    using t by (simp_all add: a_join_def fun_upd_twist)
  have fin: "finite (susp {} a)" by (rule finite_susp [OF c])
  have notin: "?d \<notin> susp {} a" using d by (simp add: susp_def)
  have susp: "susp {} ?b = insert ?d (susp {} a)" using d t by (auto simp: susp_def tk)
  have pend: "pending {} ?b u = (if u = t then insert ?d (pending {} a u) else pending {} a u)" for u
    using d t by (auto simp: pending_def susp_def tk)
  have await: "awaiting ?b u = (if u = t then insert ?d (awaiting a u) else awaiting a u)" for u
    using d t by (auto simp: awaiting_def tk)
  have "queues_ok ?b" using coreD(1) [OF c] d t by (auto simp: queues_ok_def tk)
  moreover have "wait_ok ?b"
  proof -
    have wt: "s_wait (s_task ?b u) = (if u = t then ?d # s_wait (s_task a u) else s_wait (s_task a u))" for u
      by (simp add: tk)
    have nd: "?d \<notin> awaiting a t" using d by (simp add: awaiting_def)
    have jo: "st ?b w = GT_STATE_JOINING \<Longrightarrow> w \<noteq> ?d \<Longrightarrow> st a w = GT_STATE_JOINING \<and> fr ?b w = fr a w" for w
      using t by (auto simp: tk split: if_splits)
    have stq: "st ?b u = (if u = ?d then GT_STATE_JOINING else st a u)" for u
      using t by (auto simp: tk)
    have "fr ?b ?d = FAwait t" using t by (simp add: tk)
    then have ex: "\<exists>u. fr ?b w = FAwait u" if "w < s_n a" "st ?b w = GT_STATE_JOINING" for w
      using jo [OF that(2)] wait_okD(5) [OF coreD(2) [OF c] that(1)] by (cases "w = ?d") auto
    have row: "distinct (s_wait (s_task ?b u)) \<and> set (s_wait (s_task ?b u)) = awaiting ?b u \<and>
        (st ?b u \<in> {GT_STATE_FREE, GT_STATE_DONE} \<longrightarrow> s_wait (s_task ?b u) = [])" if u: "u < s_n a" for u
      using wait_okD(1-4) [OF coreD(2) [OF c] u] t(3) nd unfolding await wt stq
      by (cases "u = t") (simp_all split: if_splits)
    show ?thesis unfolding wait_ok_def using ex row by simp
  qed
  moreover have "frames_ok {} ?b"
  proof (rule frames_okI)
    fix w assume "w \<in> susp {} ?b"
    then consider "w = ?d" | "w \<noteq> ?d" "w \<in> susp {} a" by (auto simp: susp)
    then show "frame_ok ?b w"
    proof cases
      case 1
      then show ?thesis using t d by (simp add: frame_ok_def tk)
    next
      case 2
      then show ?thesis
        using frames_okD(1) [OF coreD(3) [OF c], of w] d t
        by (cases "fr a w") (auto simp: frame_ok_def tk)
    qed
  next
    fix w assume "w < s_n ?b" "st ?b w = GT_STATE_WAITING"
    then show "fr ?b w = FIoWait"
      using frames_okD(2) [OF coreD(3) [OF c], of w] d t by (simp add: tk split: if_splits)
  qed
  moreover have "counts_ok {} ?b"
  proof -
    have "parked ?b = parked a"
      "live_set ?b = live_set a"
      using d t by (auto simp: parked_def live_set_def tk)
    moreover have "card (insert ?d (pending {} a t)) = Suc (card (pending {} a t))"
      using fin notin by (simp add: pending_def)
    ultimately show ?thesis using coreD(4) [OF c] t by (auto simp: counts_ok_def pend tk)
  qed
  ultimately show "core {} ?b" by (simp add: core_def)
  show "running ?b = {}" using r t by (auto simp: running_def tk)
qed

lemma finite_pending: "core X a \<Longrightarrow> finite (pending X a t)"
  by (simp add: pending_def finite_susp)

lemma join_zero: "core X a \<Longrightarrow> t < s_n a \<Longrightarrow> s_join (s_task a t) = 0 \<longleftrightarrow> pending X a t = {}"
  using coreD(4) [of X a] finite_pending [of X a t] by (simp add: counts_ok_def)

lemma next_gen_nat_bounds: "1 \<le> next_gen_nat g \<and> next_gen_nat g < 2048"
  by (simp add: next_gen_nat_def Let_def)

lemma core_retire:
  assumes c: "core X a" and t: "t < s_n a" "st a t = GT_STATE_DONE" "pending X a t = {}" "t \<notin> X"
  shows "core X (a_free t (a\<lparr>s_dead := removeAll t (s_dead a)\<rparr>))"
proof -
  let ?b = "a_free t (a\<lparr>s_dead := removeAll t (s_dead a)\<rparr>)"
  have tk: "s_task ?b = (s_task a)(t := (s_task a t)\<lparr>s_state := GT_STATE_FREE, s_gen := next_gen_nat (s_gen (s_task a t))\<rparr>)"
    and [simp]: "s_n ?b = s_n a" "s_free ?b = t # s_free a" "s_dead ?b = removeAll t (s_dead a)"
      "s_run ?b = s_run a" "s_live ?b = s_live a - 1" "s_inflight ?b = s_inflight a"
    by (simp_all add: a_free_def)
  have stq: "st ?b u = (if u = t then GT_STATE_FREE else st a u)" for u by (simp add: tk)
  have fr: "fr ?b u = fr a u" for u by (simp add: tk)
  have susp: "susp X ?b = susp X a" using t by (auto simp: susp_def stq)
  have pend: "pending X ?b = pending X a" by (simp add: pending_def susp fr fun_eq_iff)
  have "queues_ok ?b" using coreD(1) [OF c] t by (auto simp: queues_ok_def tk distinct_removeAll)
  moreover have "wait_ok ?b"
    by (rule wait_ok_cong [OF coreD(2) [OF c]])
      (use t in \<open>auto simp: tk wait_okD(3,4) [OF coreD(2) [OF c]]\<close>)
  moreover have "frames_ok X ?b"
  proof (rule frames_okI)
    fix w assume w: "w \<in> susp X ?b"
    have "fr a w \<noteq> FAwait t" using t(3) w by (auto simp: pending_def susp)
    moreover have "w \<noteq> t" using w t(2,4) unfolding susp by (auto simp: susp_def)
    ultimately show "frame_ok ?b w"
      using frames_okD(1) [OF coreD(3) [OF c], of w] w unfolding susp
      by (cases "fr a w") (simp_all add: frame_ok_def tk)
  next
    fix w assume "w < s_n ?b" "st ?b w = GT_STATE_WAITING"
    then show "fr ?b w = FIoWait"
      using frames_okD(2) [OF coreD(3) [OF c], of w] by (simp add: tk split: if_splits)
  qed
  moreover have "counts_ok X ?b"
  proof -
    have "parked ?b = parked a" and "live_set ?b = live_set a - {t}" and "t \<in> live_set a"
      using t by (auto simp: parked_def live_set_def tk)
    then show ?thesis using coreD(4) [OF c] next_gen_nat_bounds
      by (auto simp: counts_ok_def pend tk)
  qed
  ultimately show ?thesis using coreD(5) [OF c] by (simp add: core_def)
qed

lemma removeAll_fresh: "t \<notin> set xs \<Longrightarrow> removeAll t xs = xs"
  by (simp add: removeAll_id)

lemma dead_same: "s_dead a = [] \<Longrightarrow> a\<lparr>s_dead := []\<rparr> = a"
  by (cases a) simp

lemma core_free:
  assumes "core X a" "t < s_n a" "st a t = GT_STATE_DONE" "pending X a t = {}" "t \<notin> X" "s_dead a = []"
  shows "core X (a_free t a)"
  using core_retire [OF assms(1-5)] assms(6) by (simp add: dead_same)

lemma core_undead:
  assumes c: "core X a" and z: "s_dead a = z # zs" "\<not> s_det (s_task a z)"
  shows "core X (a\<lparr>s_dead := zs\<rparr>)"
proof -
  let ?b = "a\<lparr>s_dead := zs\<rparr>"
  have "susp X ?b = susp X a" by (simp add: susp_def)
  then have "pending X ?b = pending X a" "awaiting ?b = awaiting a"
    "live_set ?b = live_set a" "parked ?b = parked a" "frame_ok ?b = frame_ok a"
    by (simp_all add: pending_def awaiting_def live_set_def parked_def frame_ok_def fun_eq_iff)
  then show ?thesis
    using c z unfolding core_def queues_ok_def wait_ok_def frames_ok_def counts_ok_def
    by (auto simp: susp_def)
qed

lemma core_reap_step:
  assumes c: "core X a" and dead: "s_dead a = z # zs" and X: "X \<inter> {t. st a t = GT_STATE_DONE} = {}"
  defines "b \<equiv> (let a1 = a\<lparr>s_dead := zs\<rparr> in if s_det (s_task a z) then a_free z a1 else a1)"
  shows "core X b" and "s_dead b = zs" and "X \<inter> {t. st b t = GT_STATE_DONE} = {}"
    and "running b = running a" and "st a t \<noteq> GT_STATE_DONE \<Longrightarrow> s_task b t = s_task a t"
    and "s_cur b = s_cur a" and "s_n b = s_n a" and "s_run b = s_run a"
proof -
  let ?a1 = "a\<lparr>s_dead := zs\<rparr>"
  have z: "z < s_n a" "st a z = GT_STATE_DONE" "z \<notin> set zs"
    using coreD(1) [OF c] dead by (auto simp: queues_ok_def)
  then have zX: "z \<notin> X" using X by auto
  show "core X b"
  proof (cases "s_det (s_task a z)")
    case False
    then show ?thesis using core_undead [OF c dead False] by (simp add: b_def)
  next
    case True
    have "pending X a z = {}"
      using True frames_okD(1) [OF coreD(3) [OF c]]
      by (auto simp: pending_def frame_ok_def)
    from core_retire [OF c z(1,2) this zX] dead z(3) True
    show ?thesis by (simp add: removeAll_fresh b_def)
  qed
  show "running b = running a" using z by (auto simp: running_def a_free_def b_def Let_def)
  show "X \<inter> {t. st b t = GT_STATE_DONE} = {}"
    using X by (auto simp: a_free_def b_def Let_def split: if_splits)
  show "st a t \<noteq> GT_STATE_DONE \<Longrightarrow> s_task b t = s_task a t"
    using z by (auto simp: a_free_def b_def Let_def)
qed (auto simp: b_def a_free_def Let_def)

lemma core_reap_list:
  assumes "core X a" and "s_dead a = zs" and "X \<inter> {t. st a t = GT_STATE_DONE} = {}"
  shows "core X (a_reap_list zs a) \<and> s_dead (a_reap_list zs a) = [] \<and>
    s_cur (a_reap_list zs a) = s_cur a \<and> s_n (a_reap_list zs a) = s_n a \<and> s_run (a_reap_list zs a) = s_run a \<and>
    (\<forall>t. st a t \<noteq> GT_STATE_DONE \<longrightarrow> s_task (a_reap_list zs a) t = s_task a t) \<and>
    running (a_reap_list zs a) = running a"
  using assms
proof (induction zs arbitrary: a)
  case Nil
  then show ?case by (simp add: dead_same)
next
  case (Cons z zs)
  note S = core_reap_step [OF Cons.prems]
  from Cons.IH [OF S(1-3)] S(4-8) show ?case by simp
qed

lemma core_reap:
  assumes c: "switch_ok a"
  shows "switch_ok (a_reap a)" and "s_dead (a_reap a) = []" and "s_cur (a_reap a) = s_cur a"
    and "s_n (a_reap a) = s_n a" and "s_run (a_reap a) = s_run a"
    and "st a t \<noteq> GT_STATE_DONE \<Longrightarrow> s_task (a_reap a) t = s_task a t"
proof -
  have "st a (s_cur a) = GT_STATE_RUNNING"
    using c by (auto simp: switch_ok_def running_def)
  then have "{s_cur a} \<inter> {t. st a t = GT_STATE_DONE} = {}" by simp
  note r = core_reap_list [OF _ refl this, folded a_reap_def]
  have k: "core {s_cur a} a" using c by (simp add: switch_ok_def)
  from r [OF k] c show "switch_ok (a_reap a)" by (simp add: switch_ok_def)
  from r [OF k] show "s_dead (a_reap a) = []" "s_cur (a_reap a) = s_cur a"
    "s_n (a_reap a) = s_n a" "s_run (a_reap a) = s_run a"
    "st a t \<noteq> GT_STATE_DONE \<Longrightarrow> s_task (a_reap a) t = s_task a t"
    by blast+
qed

text \<open>A task that carries on in a place that is not an await.\<close>

lemma core_resume:
  assumes c: "switch_ok a" and k: "\<And>t. fr a (s_cur a) \<noteq> FAwait t"
  shows "core {} a"
proof -
  let ?d = "s_cur a"
  have core: "core {?d} a" and d: "?d < s_n a" "st a ?d = GT_STATE_RUNNING"
    using c by (auto simp: switch_ok_def running_def)
  have susp: "susp {?d} a = insert ?d (susp {} a)" by (simp add: susp_def)
  have "pending {?d} a u = pending {} a u" for u using k by (auto simp: pending_def susp)
  then have "counts_ok {} a" using coreD(4) [OF core] by (simp add: counts_ok_def)
  moreover have "frames_ok {} a" using coreD(3) [OF core] unfolding frames_ok_def susp by simp
  ultimately show ?thesis using coreD [OF core] by (simp add: core_def)
qed

text \<open>The awaiter of a finished task collects.\<close>

lemma core_collect:
  assumes c: "switch_ok a" and k: "fr a (s_cur a) = FAwait t" and dead: "s_dead a = []"
  shows "body_ok (a_collect t a)" and "st a t = GT_STATE_DONE" and "t \<noteq> s_cur a" and "t < s_n a"
    and "0 < s_join (s_task a t)"
proof -
  let ?d = "s_cur a" and ?b = "a_upd t (\<lambda>x. x\<lparr>s_join := s_join x - 1\<rparr>) a"
  have core: "core {?d} a" and d: "?d < s_n a" "st a ?d = GT_STATE_RUNNING"
    using c by (auto simp: switch_ok_def running_def)
  have susp: "susp {?d} a = insert ?d (susp {} a)" by (simp add: susp_def)
  then have "frame_ok a ?d" using frames_okD(1) [OF coreD(3) [OF core], of ?d] by simp
  then show t: "st a t = GT_STATE_DONE" "t \<noteq> ?d" "t < s_n a" using k d by (auto simp: frame_ok_def)
  have nd: "?d \<notin> susp {} a" using d by (simp add: susp_def)
  have pend: "pending {?d} a u = (if u = t then insert ?d (pending {} a u) else pending {} a u)" for u
    using k by (auto simp: pending_def susp)
  have fin: "finite (pending {} a u)" for u
    using finite_susp [OF core] by (simp add: pending_def susp)
  have join: "s_join (s_task a u) = card (pending {?d} a u)" if "u < s_n a" for u
    using coreD(4) [OF core] that by (simp add: counts_ok_def)
  have j: "s_join (s_task a t) = Suc (card (pending {} a t))"
  proof -
    have "?d \<notin> pending {} a t" using nd by (simp add: pending_def)
    then show ?thesis using join [OF t(3)] fin by (simp add: pend)
  qed
  then show "0 < s_join (s_task a t)" by simp
  have same: "st ?b u = st a u" "fr ?b u = fr a u" "s_gen (s_task ?b u) = s_gen (s_task a u)"
    "s_wait (s_task ?b u) = s_wait (s_task a u)" "s_det (s_task ?b u) = s_det (s_task a u)"
    "s_join (s_task ?b u) = (if u = t then s_join (s_task a u) - 1 else s_join (s_task a u))" for u
    by simp_all
  have sets: "susp {} ?b = susp {} a" "pending {} ?b = pending {} a" "live_set ?b = live_set a"
    "parked ?b = parked a" "frame_ok ?b = frame_ok a" "running ?b = running a"
    unfolding susp_def pending_def live_set_def parked_def frame_ok_def running_def same by simp_all
  have "queues_ok ?b" using coreD(1) [OF core] unfolding queues_ok_def same by simp
  moreover have "wait_ok ?b"
    by (rule wait_ok_cong [OF coreD(2) [OF core]]) (simp_all add: wait_okD(3,4) [OF coreD(2) [OF core]])
  moreover have "frames_ok {} ?b"
    using coreD(3) [OF core] unfolding frames_ok_def sets same susp by simp
  moreover have "counts_ok {} ?b"
    using coreD(4) [OF core] join j unfolding counts_ok_def sets same by (simp add: pend)
  ultimately have cb: "core {} ?b" by (simp add: core_def)
  show "body_ok (a_collect t a)"
  proof (cases "s_join (s_task ?b t) = 0")
    case True
    then have "pending {} ?b t = {}" using join_zero [OF cb, of t] t by (simp del: fun_upd_apply)
    then have "core {} (a_free t ?b)" by (intro core_free [OF cb]) (use t dead in auto)
    moreover have "running (a_free t ?b) = running a"
      using t by (auto simp: running_def a_free_def)
    ultimately show ?thesis using True c dead
      by (simp add: a_collect_def Let_def body_ok_def switch_ok_def a_free_def)
  next
    case False
    then show ?thesis using cb c dead sets
      by (simp add: a_collect_def Let_def body_ok_def switch_ok_def)
  qed
qed

lemma core_detach:
  assumes c: "body_ok a" and t: "t < s_n a" "t \<noteq> s_cur a" "st a t \<noteq> GT_STATE_FREE"
    and j: "s_join (s_task a t) = 0"
  shows "body_ok (a_detach t a)"
proof -
  let ?b = "a_upd t (\<lambda>x. x\<lparr>s_det := True\<rparr>) a"
  let ?f = "a_free t (a_upd t (\<lambda>x. x\<lparr>s_det := False\<rparr>) a)"
  have core: "core {} a" and dead: "s_dead a = []" using c by (auto simp: body_ok_def)
  have p: "pending {} a t = {}" using join_zero [OF core t(1)] j by simp
  show ?thesis
  proof (cases "st a t = GT_STATE_DONE")
    case False
    have same: "st ?b u = st a u" "fr ?b u = fr a u" "s_gen (s_task ?b u) = s_gen (s_task a u)"
      "s_wait (s_task ?b u) = s_wait (s_task a u)" "s_join (s_task ?b u) = s_join (s_task a u)"
      "s_det (s_task ?b u) = (if u = t then True else s_det (s_task a u))" for u
      by simp_all
    have sets: "susp {} ?b = susp {} a" "pending {} ?b = pending {} a" "live_set ?b = live_set a"
      "parked ?b = parked a" "running ?b = running a"
      unfolding susp_def pending_def live_set_def parked_def running_def same by simp_all
    have "queues_ok ?b" using coreD(1) [OF core] False unfolding queues_ok_def same by auto
    moreover have "wait_ok ?b"
      by (rule wait_ok_cong [OF coreD(2) [OF core]]) (simp_all add: wait_okD(3,4) [OF coreD(2) [OF core]])
    moreover have "frames_ok {} ?b"
    proof (rule frames_okI)
      fix w assume w: "w \<in> susp {} ?b"
      then have "fr a w \<noteq> FAwait t" using p unfolding pending_def sets by auto
      then show "frame_ok ?b w"
        using frames_okD(1) [OF coreD(3) [OF core], of w] w unfolding sets frame_ok_def same by auto
    next
      fix w assume "w < s_n ?b" "st ?b w = GT_STATE_WAITING"
      then show "fr ?b w = FIoWait"
        using frames_okD(2) [OF coreD(3) [OF core], of w] by (simp split: if_splits)
    qed
    moreover have "counts_ok {} ?b"
      using coreD(4) [OF core] unfolding counts_ok_def sets same by simp
    ultimately show ?thesis using c False sets
      by (simp add: core_def body_ok_def a_detach_def Let_def)
  next
    case True
    have f: "core {} (a_free t a)" by (intro core_free [OF core]) (use t True p dead in auto)
    let ?g = "a_free t ?b"
    have same: "st ?g u = st (a_free t a) u" "fr ?g u = fr (a_free t a) u"
      "s_gen (s_task ?g u) = s_gen (s_task (a_free t a) u)"
      "s_wait (s_task ?g u) = s_wait (s_task (a_free t a) u)"
      "s_join (s_task ?g u) = s_join (s_task (a_free t a) u)"
      "s_det (s_task ?g u) = (if u = t then True else s_det (s_task (a_free t a) u))" for u
      by (simp_all add: a_free_def)
    have flds: "s_n ?g = s_n (a_free t a)" "s_run ?g = s_run (a_free t a)" "s_free ?g = s_free (a_free t a)"
      "s_dead ?g = s_dead (a_free t a)" "s_live ?g = s_live (a_free t a)"
      "s_inflight ?g = s_inflight (a_free t a)" "s_cur ?g = s_cur a" "s_dead ?g = []"
      by (simp_all add: a_free_def dead)
    have sets: "susp {} ?g = susp {} (a_free t a)" "pending {} ?g = pending {} (a_free t a)"
      "live_set ?g = live_set (a_free t a)" "parked ?g = parked (a_free t a)"
      "awaiting ?g = awaiting (a_free t a)"
      unfolding susp_def pending_def live_set_def parked_def awaiting_def same flds by simp_all
    have tfree: "st (a_free t a) t = GT_STATE_FREE" by (simp add: a_free_def)
    have "queues_ok ?g" using coreD(1) [OF f] tfree unfolding queues_ok_def same flds by auto
    moreover have "wait_ok ?g" using coreD(2) [OF f] unfolding wait_ok_def same sets flds .
    moreover have "frames_ok {} ?g"
      unfolding frames_ok_def sets flds same
    proof (intro conjI ballI allI impI)
      fix w assume w: "w \<in> susp {} (a_free t a)"
      have o: "frame_ok (a_free t a) w" using frames_okD(1) [OF coreD(3) [OF f] w] .
      then have "fr (a_free t a) w \<noteq> FAwait t" using tfree by (auto simp: frame_ok_def)
      with o show "frame_ok ?g w" unfolding frame_ok_def same flds by auto
    qed (use frames_okD(2) [OF coreD(3) [OF f]] in auto)
    moreover have "counts_ok {} ?g"
      using coreD(4) [OF f] unfolding counts_ok_def sets flds same .
    moreover have "running ?g = running a" using True by (auto simp: running_def a_free_def)
    ultimately show ?thesis using c True flds
      by (simp add: core_def body_ok_def a_detach_def Let_def)
  qed
qed

lemma a_push_list:
  "s_run (fold a_push ws a) = s_run a @ ws"
  "s_task (fold a_push ws a) t = (if t \<in> set ws then (s_task a t)\<lparr>s_state := GT_STATE_READY\<rparr> else s_task a t)"
  "s_n (fold a_push ws a) = s_n a" "s_free (fold a_push ws a) = s_free a"
  "s_dead (fold a_push ws a) = s_dead a" "s_cur (fold a_push ws a) = s_cur a"
  "s_live (fold a_push ws a) = s_live a" "s_inflight (fold a_push ws a) = s_inflight a"
  by (induction ws arbitrary: a) (auto simp: a_push_def)

lemma core_finish:
  assumes c: "body_ok a"
  shows "core {} (a_finish a)" and "running (a_finish a) = {}"
proof -
  let ?d = "s_cur a" and ?b = "a_finish a" let ?ws = "s_wait (s_task a ?d)"
  have core: "core {} a" and dead: "s_dead a = []" and d: "?d < s_n a" "st a ?d = GT_STATE_RUNNING"
    using c by (auto simp: body_ok_def running_def)
  note W = wait_okD [OF coreD(2) [OF core]]
  have ws: "distinct ?ws" "set ?ws = awaiting a ?d" using W(1,2) [OF d(1)] .
  have dw: "?d \<notin> set ?ws" using d unfolding ws by (simp add: awaiting_def)
  have [simp]: "s_n ?b = s_n a" "s_free ?b = s_free a" "s_dead ?b = [?d]"
      "s_run ?b = s_run a @ ?ws" "s_live ?b = s_live a" "s_inflight ?b = s_inflight a" "s_cur ?b = ?d"
    by (simp_all add: a_finish_def Let_def a_push_list dead)
  have tk: "s_task ?b u = (if u = ?d then (s_task a u)\<lparr>s_state := GT_STATE_DONE, s_frame := FEnded, s_wait := []\<rparr>
      else if u \<in> set ?ws then (s_task a u)\<lparr>s_state := GT_STATE_READY\<rparr> else s_task a u)" for u
    using dw by (simp add: a_finish_def Let_def a_push_list)
  have stq: "st ?b u = (if u = ?d then GT_STATE_DONE else if u \<in> set ?ws then GT_STATE_READY else st a u)" for u
    by (simp add: tk)
  have frq: "u \<noteq> ?d \<Longrightarrow> fr ?b u = fr a u" for u by (simp add: tk)
  have same: "s_gen (s_task ?b u) = s_gen (s_task a u)" "s_join (s_task ?b u) = s_join (s_task a u)"
    "s_det (s_task ?b u) = s_det (s_task a u)"
    "s_wait (s_task ?b u) = (if u = ?d then [] else s_wait (s_task a u))" for u by (simp_all add: tk)
  have wsJ: "u \<in> set ?ws \<longleftrightarrow> u < s_n a \<and> st a u = GT_STATE_JOINING \<and> fr a u = FAwait ?d" for u
    unfolding ws awaiting_def by simp
  have nd: "?d \<notin> susp {} a" using d by (simp add: susp_def)
  have susp: "susp {} ?b = susp {} a"
    using d unfolding susp_def stq by (auto simp: wsJ)
  have pend: "pending {} ?b = pending {} a"
  proof (rule ext)
    fix t show "pending {} ?b t = pending {} a t"
      unfolding pending_def susp using nd frq by (intro Collect_cong) metis
  qed
  have await: "awaiting ?b u = (if u = ?d then {} else awaiting a u)" for u
    unfolding awaiting_def stq using d frq by (auto simp: wsJ)
  have "queues_ok ?b"
  proof -
    have "set (s_run a) \<inter> set ?ws = {}"
      using coreD(1) [OF core] by (auto simp: queues_ok_def wsJ)
    then show ?thesis
      using coreD(1) [OF core] ws(1) d dead unfolding queues_ok_def stq same
      by (auto simp: wsJ)
  qed
  moreover have "wait_ok ?b"
  proof -
    have row: "distinct (s_wait (s_task ?b u)) \<and> set (s_wait (s_task ?b u)) = awaiting ?b u \<and>
        (st ?b u \<in> {GT_STATE_FREE, GT_STATE_DONE} \<longrightarrow> s_wait (s_task ?b u) = [])" if u: "u < s_n a" for u
      using W(1-4) [OF u] unfolding await same stq by (cases "u = ?d") (auto split: if_splits)
    moreover have "\<exists>v. fr ?b u = FAwait v" if "u < s_n a" "st ?b u = GT_STATE_JOINING" for u
      using W(5) [OF that(1)] that(2) frq [of u] unfolding stq by (auto split: if_splits)
    ultimately show ?thesis unfolding wait_ok_def by simp
  qed
  moreover have "frames_ok {} ?b"
  proof (rule frames_okI)
    fix w assume w: "w \<in> susp {} ?b"
    then have wd: "w \<noteq> ?d" and o: "frame_ok a w"
      using nd frames_okD(1) [OF coreD(3) [OF core], of w] unfolding susp by auto
    have wn: "w < s_n a" using w unfolding susp susp_def by simp
    have "fr a w = FAwait v \<Longrightarrow> st ?b v \<noteq> GT_STATE_FREE \<and> (st ?b w \<noteq> GT_STATE_JOINING \<longrightarrow> st ?b v = GT_STATE_DONE)" for v
      using o wn d unfolding stq frame_ok_def by (auto simp: wsJ wd split: if_splits)
    with o show "frame_ok ?b w" unfolding frame_ok_def frq [OF wd] same by simp
  next
    fix w assume "w < s_n ?b" "st ?b w = GT_STATE_WAITING"
    then show "fr ?b w = FIoWait"
      using frames_okD(2) [OF coreD(3) [OF core], of w] frq [of w] unfolding stq by (auto split: if_splits)
  qed
  moreover have "counts_ok {} ?b"
  proof -
    have "parked ?b = parked a" "live_set ?b = live_set a"
      using d unfolding parked_def live_set_def stq by (auto simp: wsJ)
    then show ?thesis using coreD(4) [OF core] unfolding counts_ok_def same pend by simp
  qed
  ultimately show "core {} ?b" by (simp add: core_def)
  show "running ?b = {}" using c unfolding running_def stq body_ok_def by auto
qed

text \<open>A new task in the slot freed last, or in one further slot.\<close>

lemma core_new:
  assumes c: "body_ok a" and n: "s_n b = s_n a \<and> t < s_n a \<and> s_free a = t # s_free b \<or>
      s_n b = Suc (s_n a) \<and> t = s_n a \<and> s_free a = [] \<and> s_free b = [] \<and> s_n a < 2 ^ 19"
    and g: "1 \<le> g" "g < 2048"
    and tk: "s_task b = (s_task a)(t := \<lparr>s_state = GT_STATE_READY, s_frame = FTrampoline, s_wait = [],
      s_join = 0, s_gen = g, s_det = False\<rparr>)"
    and b: "s_run b = s_run a @ [t]" "s_live b = Suc (s_live a)" "s_dead b = s_dead a"
      "s_inflight b = s_inflight a" "s_cur b = s_cur a"
  shows "body_ok b"
proof -
  have core: "core {} a" using c by (simp add: body_ok_def)
  have q: "set (s_free a) = {t. t < s_n a \<and> st a t = GT_STATE_FREE}" "distinct (s_free a)"
    using coreD(1) [OF core] by (auto simp: queues_ok_def)
  have tf: "t < s_n a \<Longrightarrow> st a t = GT_STATE_FREE" using n q by auto
  have n': "s_n b = (if t < s_n a then s_n a else Suc (s_n a))" "t < s_n b" "s_n a \<le> s_n b" using n by auto
  have old: "u < s_n b \<longleftrightarrow> u < s_n a \<or> u = t" for u using n by auto
  have stq: "st b u = (if u = t then GT_STATE_READY else st a u)" for u by (simp add: tk)
  have frq: "fr b u = (if u = t then FTrampoline else fr a u)" for u by (simp add: tk)
  have other: "u \<noteq> t \<Longrightarrow> s_task b u = s_task a u" for u by (simp add: tk)
  have tin: "t < s_n a \<or> t = s_n a" using n by auto
  have tout: "t \<notin> susp {} a" using tf by (auto simp: susp_def)
  have susp: "susp {} b = insert t (susp {} a)"
    using old by (auto simp: susp_def stq)
  have pend: "pending {} b u = pending {} a u" for u
    unfolding pending_def susp using tout by (auto simp: frq)
  have noP: "pending {} a t = {}"
  proof -
    have "fr a w \<noteq> FAwait t" if "w \<in> susp {} a" for w
      using frames_okD(1) [OF coreD(3) [OF core] that] tf tin by (auto simp: frame_ok_def)
    then show ?thesis by (auto simp: pending_def)
  qed
  have await: "awaiting b u = awaiting a u" for u
    unfolding awaiting_def stq frq old using tf tin by auto
  have noA: "awaiting a t = {}"
    using noP by (auto simp: pending_def awaiting_def susp_def)
  have "queues_ok b"
    using coreD(1) [OF core] n q b tf unfolding queues_ok_def stq old
    by (auto simp: tk)
  moreover have "wait_ok b"
  proof -
    have "distinct (s_wait (s_task b u)) \<and> set (s_wait (s_task b u)) = awaiting b u \<and>
        (st b u \<in> {GT_STATE_FREE, GT_STATE_DONE} \<longrightarrow> s_wait (s_task b u) = [])" if "u < s_n b" for u
      using wait_okD(1-4) [OF coreD(2) [OF core], of u] that noA unfolding await old
      by (cases "u = t") (auto simp: tk)
    moreover have "\<exists>v. fr b u = FAwait v" if "u < s_n b" "st b u = GT_STATE_JOINING" for u
      using wait_okD(5) [OF coreD(2) [OF core], of u] that unfolding old stq frq by (auto split: if_splits)
    ultimately show ?thesis unfolding wait_ok_def by simp
  qed
  moreover have "frames_ok {} b"
  proof (rule frames_okI)
    fix w assume "w \<in> susp {} b"
    then consider "w = t" | "w \<noteq> t" "w \<in> susp {} a" unfolding susp by auto
    then show "frame_ok b w"
    proof cases
      case 1
      then show ?thesis by (simp add: frame_ok_def frq)
    next
      case 2
      then have o: "frame_ok a w" "fr a w \<noteq> FAwait t"
        using frames_okD(1) [OF coreD(3) [OF core]] noP by (auto simp: pending_def)
      then show ?thesis using 2 n'(3) by (auto simp: frame_ok_def tk)
    qed
  next
    fix w assume "w < s_n b" "st b w = GT_STATE_WAITING"
    then show "fr b w = FIoWait"
      using frames_okD(2) [OF coreD(3) [OF core], of w] unfolding old stq frq by (auto split: if_splits)
  qed
  moreover have "counts_ok {} b"
  proof -
    have "parked b = parked a"
      unfolding parked_def stq old using tf tin by auto
    moreover have "live_set b = insert t (live_set a)" "t \<notin> live_set a"
      unfolding live_set_def stq old using tf by auto
    moreover have "s_join (s_task b u) = card (pending {} a u)" if "u < s_n b" for u
      using that coreD(4) [OF core] noP unfolding old by (auto simp: counts_ok_def tk)
    moreover have "1 \<le> s_gen (s_task b u) \<and> s_gen (s_task b u) < 2048" if "u < s_n b" for u
      using that coreD(4) [OF core] g unfolding old by (auto simp: counts_ok_def tk)
    moreover have "s_n b \<le> 2 ^ 19" using n coreD(4) [OF core] by (auto simp: counts_ok_def)
    ultimately show ?thesis using coreD(4) [OF core] b
      unfolding counts_ok_def pend by simp
  qed
  moreover have "running b = running a"
    unfolding running_def stq old using tf tin by auto
  ultimately show ?thesis using c b by (simp add: core_def body_ok_def)
qed

lemma core_spawn:
  assumes c: "body_ok a" and room: "s_free a = [] \<Longrightarrow> s_n a < 2 ^ 19"
  shows "body_ok (snd (a_spawn a))"
proof (cases "s_free a")
  case Nil
  show ?thesis
    by (rule core_new [OF c, where t = "s_n a" and g = 1])
      (use Nil room in \<open>auto simp: a_spawn_def a_alloc_def a_push_def new_atask_def\<close>)
next
  case (Cons t ts)
  then have "t < s_n a" using c by (auto simp: body_ok_def core_def queues_ok_def)
  moreover have "1 \<le> s_gen (s_task a t) \<and> s_gen (s_task a t) < 2048"
    using c \<open>t < s_n a\<close> by (auto simp: body_ok_def core_def counts_ok_def)
  ultimately show ?thesis
    by (intro core_new [OF c, where t = t and g = "s_gen (s_task a t)"])
      (use Cons in \<open>auto simp: a_spawn_def a_alloc_def a_push_def new_atask_def\<close>)
qed

text \<open>A slot taken for a task that could not be started, and handed back.\<close>

lemma core_refree:
  assumes c: "body_ok a" and n: "s_n b = s_n a \<and> t < s_n a \<and> s_free a = t # ts \<or>
      s_n b = Suc (s_n a) \<and> t = s_n a \<and> s_free a = [] \<and> ts = [] \<and> s_n a < 2 ^ 19"
    and g: "1 \<le> g" "g < 2048"
    and tk: "s_task b = (s_task a)(t := \<lparr>s_state = GT_STATE_FREE, s_frame = FNull, s_wait = [],
      s_join = 0, s_gen = g, s_det = False\<rparr>)"
    and b: "s_run b = s_run a" "s_live b = s_live a" "s_dead b = s_dead a" "s_free b = t # ts"
      "s_inflight b = s_inflight a" "s_cur b = s_cur a"
  shows "body_ok b"
proof -
  have core: "core {} a" using c by (simp add: body_ok_def)
  have q: "set (s_free a) = {t. t < s_n a \<and> st a t = GT_STATE_FREE}" "distinct (s_free a)"
    using coreD(1) [OF core] by (auto simp: queues_ok_def)
  have tf: "t < s_n a \<Longrightarrow> st a t = GT_STATE_FREE" using n q by auto
  have old: "u < s_n b \<longleftrightarrow> u < s_n a \<or> u = t" for u using n by auto
  have stq: "st b u = (if u = t then GT_STATE_FREE else st a u)" for u by (simp add: tk)
  have frq: "fr b u = (if u = t then FNull else fr a u)" for u by (simp add: tk)
  have tin: "t < s_n a \<or> t = s_n a" using n by auto
  have tout: "t \<notin> susp {} a" using tf by (auto simp: susp_def)
  have stS: "u < s_n b \<and> st b u = k \<longleftrightarrow> u < s_n a \<and> st a u = k" if "k \<noteq> GT_STATE_FREE" for u k
    using that tf tin unfolding old stq by auto
  have susp: "susp {} b = susp {} a"
    using stS [of GT_STATE_READY] stS [of GT_STATE_JOINING] stS [of GT_STATE_WAITING]
    unfolding susp_def by blast
  have pend: "pending {} b u = pending {} a u" for u
    unfolding pending_def susp using tout by (auto simp: frq)
  have noP: "pending {} a t = {}"
  proof -
    have "fr a w \<noteq> FAwait t" if "w \<in> susp {} a" for w
      using frames_okD(1) [OF coreD(3) [OF core] that] tf tin by (auto simp: frame_ok_def)
    then show ?thesis by (auto simp: pending_def)
  qed
  have await: "awaiting b u = awaiting a u" for u
    unfolding awaiting_def stq frq old using tf tin by auto
  have noA: "awaiting a t = {}"
    using noP by (auto simp: pending_def awaiting_def susp_def)
  have "queues_ok b"
  proof -
    have d: "distinct (s_free b)" using n q(2) b(4) by (elim disjE conjE) simp_all
    have "u \<in> set (s_free b) \<longleftrightarrow> u < s_n b \<and> st b u = GT_STATE_FREE" for u
    proof (cases "u = t")
      case True
      then show ?thesis using n b(4) unfolding stq by auto
    next
      case False
      then have "u \<in> set (s_free b) \<longleftrightarrow> u \<in> set (s_free a)" using n b(4) by auto
      also have "\<dots> \<longleftrightarrow> u < s_n a \<and> st a u = GT_STATE_FREE" unfolding q(1) by simp
      finally show ?thesis using False unfolding old stq by simp
    qed
    then have f: "set (s_free b) = {u. u < s_n b \<and> st b u = GT_STATE_FREE}" by blast
    have r: "{u. u < s_n b \<and> st b u = k} = {u. u < s_n a \<and> st a u = k}" if "k \<noteq> GT_STATE_FREE" for k
      using that tf tin unfolding old stq by auto
    have "t \<notin> set (s_dead a)" using coreD(1) [OF core] tf by (auto simp: queues_ok_def)
    moreover have "u \<in> set (s_dead a)" if "u < s_n b" "st b u = GT_STATE_DONE" "s_det (s_task b u)" for u
      using that coreD(1) [OF core] unfolding old stq by (auto simp: queues_ok_def tk split: if_splits)
    ultimately show ?thesis
      using coreD(1) [OF core] d f b r [of GT_STATE_READY] r [of GT_STATE_DONE]
      unfolding queues_ok_def by simp
  qed
  moreover have "wait_ok b"
  proof -
    have "distinct (s_wait (s_task b u)) \<and> set (s_wait (s_task b u)) = awaiting b u \<and>
        (st b u \<in> {GT_STATE_FREE, GT_STATE_DONE} \<longrightarrow> s_wait (s_task b u) = [])" if "u < s_n b" for u
      using wait_okD(1-4) [OF coreD(2) [OF core], of u] that noA unfolding await old
      by (cases "u = t") (auto simp: tk)
    moreover have "\<exists>v. fr b u = FAwait v" if "u < s_n b" "st b u = GT_STATE_JOINING" for u
      using wait_okD(5) [OF coreD(2) [OF core], of u] that unfolding old stq frq by (auto split: if_splits)
    ultimately show ?thesis unfolding wait_ok_def by simp
  qed
  moreover have "frames_ok {} b"
  proof (rule frames_okI)
    fix w assume w: "w \<in> susp {} b"
    then have "w \<noteq> t" "w \<in> susp {} a" using tout unfolding susp by auto
    moreover from this have "frame_ok a w" "fr a w \<noteq> FAwait t"
      using frames_okD(1) [OF coreD(3) [OF core]] noP by (auto simp: pending_def)
    moreover have "s_n a \<le> s_n b" using n by auto
    ultimately show "frame_ok b w" by (auto simp: frame_ok_def tk)
  next
    fix w assume "w < s_n b" "st b w = GT_STATE_WAITING"
    then show "fr b w = FIoWait"
      using frames_okD(2) [OF coreD(3) [OF core], of w] unfolding old stq frq by (auto split: if_splits)
  qed
  moreover have "counts_ok {} b"
  proof -
    have "parked b = parked a" "live_set b = live_set a"
      unfolding parked_def live_set_def stq old using tf tin by auto
    moreover have "s_join (s_task b u) = card (pending {} a u)" if "u < s_n b" for u
      using that coreD(4) [OF core] noP unfolding old by (auto simp: counts_ok_def tk)
    moreover have "1 \<le> s_gen (s_task b u) \<and> s_gen (s_task b u) < 2048" if "u < s_n b" for u
      using that coreD(4) [OF core] g unfolding old by (auto simp: counts_ok_def tk)
    moreover have "s_n b \<le> 2 ^ 19" using n coreD(4) [OF core] by (auto simp: counts_ok_def)
    ultimately show ?thesis using coreD(4) [OF core] b
      unfolding counts_ok_def pend by simp
  qed
  moreover have "running b = running a"
    unfolding running_def stq old using tf tin by auto
  ultimately show ?thesis using c b by (simp add: core_def body_ok_def)
qed

end
