(* ===== verification/Sched.thy ===== *)
theory Sched
  imports SchedSpec
begin

text \<open>
  The scheduler's operations (async/sched.h): picking the next task, switching, starting the
  runtime, spawn, await, detach, yield, a task's run from its first switch to its last, draining
  and tearing down.

  An operation is split where the processor leaves the task: it returns the phase the thread is
  then in, with the runtime. \<^verbatim>\<open>InBody r\<close> is the task's own code, the operation having
  returned \<^verbatim>\<open>r\<close>; \<^verbatim>\<open>AtSwitch\<close> is control arriving at the current task's saved stack
  pointer; \<^verbatim>\<open>AtFrame k\<close> is that task carrying on at \<^verbatim>\<open>k\<close>. The backend's polls are
  arguments; None is a loop that never ends.
\<close>

datatype gt_panic =
    PDeadlock u32
  | PFinished u32
  | PResumed
  | PNoRuntime
  | PNoMainTask

datatype gt_phase =
    InBody int
  | AtSwitch
  | AtFrame gt_frame
  | AtLock gt_lock_req  \<comment> \<open>at the top of a lock's loop\<close>
  | AtCond gt_cond_req  \<comment> \<open>in a condition wait, its mutex released\<close>
  | AtDrain  \<comment> \<open>at the top of the drain's loop\<close>
  | Panicked gt_panic
  | Crashed  \<comment> \<open>a null pointer was followed\<close>

type_synonym ('t, 'r) gt_poll = "bool \<Rightarrow> ('t, 'r) gt_runtime \<Rightarrow> ('t, 'r) gt_runtime option"
type_synonym ('t, 'r) gt_conf = "gt_phase \<times> ('t, 'r) gt_runtime"

section \<open>Switching\<close>

definition gt_switch_to :: "gt_frame \<Rightarrow> tptr \<Rightarrow> ('t, 'r) gt_runtime \<Rightarrow> ('t, 'r) gt_conf" where
  "gt_switch_to k t s =
     (case r_current s of
        None \<Rightarrow> (Crashed, s)
      | Some self \<Rightarrow>
          if t = self then (AtFrame k, upd_task self (\<lambda>x. x\<lparr>t_state := GT_STATE_RUNNING\<rparr>) s)
          else
            let s1 = upd_task t (\<lambda>x. x\<lparr>t_state := GT_STATE_RUNNING\<rparr>) (s\<lparr>r_current := Some t\<rparr>);
                s2 = upd_task self (\<lambda>x. x\<lparr>t_usp := tls_usp s1\<rparr>) s1;
                s3 = s2\<lparr>tls_usp := t_usp (r_tasks s2 t)\<rparr>
            in (AtSwitch, upd_task self (\<lambda>x. x\<lparr>t_sp := k\<rparr>) s3))"

text \<open>Where the switched-to task's saved stack pointer leads.\<close>

definition gt_land :: "os_mem \<Rightarrow> ('t, 'r) gt_runtime \<Rightarrow> ('t, 'r) gt_conf option" where
  "gt_land os s =
     (case r_current s of
        None \<Rightarrow> Some (Crashed, s)
      | Some c \<Rightarrow>
          (case t_sp (r_tasks s c) of
             FNull \<Rightarrow> Some (Crashed, s)
           | FEnded \<Rightarrow> Some (Panicked PResumed, s)
           | k \<Rightarrow> do {
               s1 \<leftarrow> (if r_zombies s \<noteq> None then gt_reap os s else Some s);
               Some (AtFrame k, s1)
             }))"

partial_function (option) gt_pick ::
  "('t, 'r) gt_poll \<Rightarrow> ('t, 'r) gt_runtime \<Rightarrow> (tptr option \<times> ('t, 'r) gt_runtime) option" where
  "gt_pick poll s = do {
     s1 \<leftarrow> (if r_inflight s \<noteq> 0 then poll False s else Some s);
     (case gt_rq_pop s1 of
        (Some t, s2) \<Rightarrow> Some (Some t, s2)
      | (None, s2) \<Rightarrow>
          if r_inflight s2 \<noteq> 0 then do { s3 \<leftarrow> poll True s2; gt_pick poll s3 }
          else Some (None, s2))
   }"

definition gt_block ::
  "('t, 'r) gt_poll \<Rightarrow> gt_state \<Rightarrow> gt_frame \<Rightarrow> ('t, 'r) gt_runtime \<Rightarrow> ('t, 'r) gt_conf option" where
  "gt_block poll state k s =
     (case r_current s of
        None \<Rightarrow> Some (Crashed, s)
      | Some self \<Rightarrow> do {
          (n, s1) \<leftarrow> gt_pick poll (upd_task self (\<lambda>x. x\<lparr>t_state := state\<rparr>) s);
          (case n of
             None \<Rightarrow> Some (Panicked (PDeadlock (t_idx (r_tasks s1 self))), s1)
           | Some t \<Rightarrow> Some (gt_switch_to k t s1))
        })"

section \<open>Starting the runtime\<close>

text \<open>The zeroed block, for a backend part \<^verbatim>\<open>ior0\<close> that is zeroed too.\<close>

definition zero_runtime :: "'t \<Rightarrow> 'r \<Rightarrow> nat option \<Rightarrow> ('t, 'r) gt_runtime" where
  "zero_runtime io0 ior0 usp =
     \<lparr>r_current = None, r_rq_head = None, r_rq_tail = None, r_free_slots = None, r_zombies = None,
      r_tasks = (\<lambda>_. zero_task io0), r_nslots = 0, r_cslots = 0, r_live = 0, r_stack_size = 0,
      r_page = 0, r_guard = False, r_stack_cache = [], r_cached_size = 0, r_io = ior0,
      r_inflight = 0, r_lock_waiters = [], tls_usp = usp, r_log = []\<rparr>"

definition gt_init_slow ::
  "bool \<Rightarrow> os_slot \<Rightarrow> 't \<Rightarrow> 'r \<Rightarrow> (('t, 'r) gt_runtime \<Rightarrow> ('t, 'r) gt_runtime) \<Rightarrow> nat option \<Rightarrow>
     gt_panic + ('t, 'r) gt_runtime" where
  "gt_init_slow calloc os io0 ior0 io_setup usp =
     (if \<not> calloc then Inl PNoRuntime
      else
        let s0 = (zero_runtime io0 ior0 usp)\<lparr>r_stack_size := GT_STACK_SIZE, r_guard := True\<rparr> in
        case gt_slot_alloc os io0 s0 of
          (None, _) \<Rightarrow> Inl PNoMainTask
        | (Some m, s1) \<Rightarrow>
            let s2 = upd_task m (\<lambda>x. x\<lparr>t_state := GT_STATE_RUNNING, t_stack := None, t_usp := tls_usp s1\<rparr>) s1
            in Inr (io_setup (s2\<lparr>r_current := Some m\<rparr>)))"

section \<open>Spawn and a task's run\<close>

record 't os_spawn =
  sp_slot :: os_slot
  sp_stack :: os_mem
  sp_ustack :: os_mem
  sp_unsafe :: bool
  sp_io0 :: 't

text \<open>\<^verbatim>\<open>_gt_spawn\<close> once the runtime is started: the result, the handle written, the runtime.\<close>

definition gt_spawn ::
  "'t os_spawn \<Rightarrow> sppc_closure \<Rightarrow> ('t, 'r) gt_runtime \<Rightarrow> int \<times> u32 option \<times> ('t, 'r) gt_runtime" where
  "gt_spawn os body s =
     (case gt_slot_alloc (sp_slot os) (sp_io0 os) s of
        (None, s1) \<Rightarrow> (SPPC_ENOMEM, None, s1)
      | (Some t, s1) \<Rightarrow>
          let sz = r_stack_size s1 in
          case gt_stack_alloc (sp_stack os) sz s1 of
            (None, s2) \<Rightarrow> (SPPC_ENOMEM, None, gt_slot_free t s2)
          | (Some stack, s2) \<Rightarrow>
              let (ustack, s3) =
                    (if sp_unsafe os then gt_stack_alloc (sp_ustack os) sz s2 else (None, s2)) in
              if sp_unsafe os \<and> ustack = None
              then (SPPC_ENOMEM, None, gt_slot_free t (gt_stack_free (sp_stack os) (Some stack) sz s3))
              else
                let s4 = upd_task t (\<lambda>x. x\<lparr>t_body := body, t_stack := Some stack, t_stack_size := sz,
                           t_ustack := ustack, t_ustack_size := (if ustack = None then 0 else sz),
                           t_usp := map_option (\<lambda>u. u + unat sz) ustack, t_sp := FTrampoline\<rparr>) s3;
                    s5 = gt_rq_push t s4
                in (0, Some (gt_handle (r_tasks s5 t)), s5))"

text \<open>The loop that wakes a finished task's awaiters.\<close>

partial_function (option) gt_wake ::
  "tptr option \<Rightarrow> ('t, 'r) gt_runtime \<Rightarrow> ('t, 'r) gt_runtime option" where
  "gt_wake w s =
     (case w of
        None \<Rightarrow> Some s
      | Some t \<Rightarrow>
          gt_wake (t_wnext (r_tasks s t)) (gt_rq_push t (upd_task t (\<lambda>x. x\<lparr>t_wnext := None\<rparr>) s)))"

text \<open>\<^verbatim>\<open>_gt_task_run\<close> from the return of the task's body on.\<close>

definition gt_finish :: "('t, 'r) gt_poll \<Rightarrow> ('t, 'r) gt_runtime \<Rightarrow> ('t, 'r) gt_conf option" where
  "gt_finish poll s =
     (case r_current s of
        None \<Rightarrow> Some (Crashed, s)
      | Some self \<Rightarrow>
          let s1 = log_event (map EvEnv (sppc_env_free (env (t_body (r_tasks s self))))) s;
              s2 = upd_task self (\<lambda>x. x\<lparr>t_body := (t_body x)\<lparr>env := None\<rparr>, t_state := GT_STATE_DONE\<rparr>) s1;
              s3 = upd_task self (\<lambda>x. x\<lparr>t_waiters := None\<rparr>) s2
          in do {
            s4 \<leftarrow> gt_wake (t_waiters (r_tasks s2 self)) s3;
            let s5 = (upd_task self (\<lambda>x. x\<lparr>t_next := r_zombies s4\<rparr>) s4)\<lparr>r_zombies := Some self\<rparr>;
            (n, s6) \<leftarrow> gt_pick poll s5;
            (case n of
               None \<Rightarrow> Some (Panicked (PFinished (t_idx (r_tasks s6 self))), s6)
             | Some t \<Rightarrow>
                 let s7 = upd_task t (\<lambda>x. x\<lparr>t_state := GT_STATE_RUNNING\<rparr>) (s6\<lparr>r_current := Some t\<rparr>);
                     s8 = s7\<lparr>tls_usp := t_usp (r_tasks s7 t)\<rparr>
                 in Some (AtSwitch, upd_task self (\<lambda>x. x\<lparr>t_sp := FEnded\<rparr>) s8))
          })"

section \<open>Yield, await and detach\<close>

definition gt_yield :: "('t, 'r) gt_poll \<Rightarrow> ('t, 'r) gt_runtime \<Rightarrow> ('t, 'r) gt_conf option" where
  "gt_yield poll s =
     (case r_current s of
        None \<Rightarrow> Some (Crashed, s)
      | Some self \<Rightarrow> do {
          s1 \<leftarrow> (if r_inflight s \<noteq> 0 then poll False s else Some s);
          (case gt_rq_pop s1 of
             (None, s2) \<Rightarrow> Some (InBody 0, s2)
           | (Some t, s2) \<Rightarrow> Some (gt_switch_to FYield t (gt_rq_push self s2)))
        })"

text \<open>\<^verbatim>\<open>_gt_await\<close>, and what is left of it when the awaiter carries on.\<close>

definition gt_collect :: "tptr \<Rightarrow> ('t, 'r) gt_runtime \<Rightarrow> ('t, 'r) gt_conf" where
  "gt_collect t s =
     (InBody 0, if t_njoiners (r_tasks s t) = 0 then gt_slot_free t s else s)"

definition gt_await ::
  "('t, 'r) gt_poll \<Rightarrow> u32 \<Rightarrow> ('t, 'r) gt_runtime \<Rightarrow> ('t, 'r) gt_conf option" where
  "gt_await poll h s =
     (case gt_resolve h s of
        None \<Rightarrow> Some (InBody SPPC_EINVAL, s)
      | Some t \<Rightarrow>
          if r_current s = Some t then Some (InBody SPPC_EDEADLK, s)
          else if t_detached (r_tasks s t) then Some (InBody SPPC_EINVAL, s)
          else if t_state (r_tasks s t) \<noteq> GT_STATE_DONE then
            (case r_current s of
               None \<Rightarrow> Some (Crashed, s)
             | Some self \<Rightarrow>
                 let s1 = upd_task self (\<lambda>x. x\<lparr>t_wnext := t_waiters (r_tasks s t)\<rparr>) s;
                     s2 = upd_task t (\<lambda>x. x\<lparr>t_waiters := Some self\<rparr>) s1;
                     s3 = upd_task t (\<lambda>x. x\<lparr>t_njoiners := t_njoiners x + 1\<rparr>) s2
                 in gt_block poll GT_STATE_JOINING (FAwait t) s3)
          else Some (gt_collect t s))"

definition gt_await_resumed :: "tptr \<Rightarrow> ('t, 'r) gt_runtime \<Rightarrow> ('t, 'r) gt_conf" where
  "gt_await_resumed t s = gt_collect t (upd_task t (\<lambda>x. x\<lparr>t_njoiners := t_njoiners x - 1\<rparr>) s)"

definition gt_detach :: "u32 \<Rightarrow> ('t, 'r) gt_runtime \<Rightarrow> ('t, 'r) gt_conf" where
  "gt_detach h s =
     (case gt_resolve h s of
        None \<Rightarrow> (InBody SPPC_EINVAL, s)
      | Some t \<Rightarrow>
          if r_current s = Some t then (InBody SPPC_EINVAL, s)
          else if t_detached (r_tasks s t) then (InBody SPPC_EINVAL, s)
          else
            let s1 = upd_task t (\<lambda>x. x\<lparr>t_detached := True\<rparr>) s
            in (InBody 0, if t_state (r_tasks s1 t) = GT_STATE_DONE then gt_slot_free t s1 else s1))"

section \<open>Carrying on\<close>

definition mutex_lock_req :: "nat \<Rightarrow> gt_cond_req option \<Rightarrow> gt_lock_req" where
  "mutex_lock_req m c =
     \<lparr>lk_lock = m, lk_clock = SPPC_CLOCK_MONOTONIC, lk_deadline = None, lk_queued = False, lk_cond = c\<rparr>"

definition gt_continue :: "gt_frame \<Rightarrow> ('t, 'r) gt_runtime \<Rightarrow> ('t, 'r) gt_conf" where
  "gt_continue k s =
     (case k of
        FTrampoline \<Rightarrow> (InBody 0, s)
      | FYield \<Rightarrow> (InBody 0, s)
      | FAwait t \<Rightarrow> gt_await_resumed t s
      | FIoWait \<Rightarrow>
          (case r_current s of None \<Rightarrow> (Crashed, s) | Some c \<Rightarrow> (InBody (t_io_res (r_tasks s c)), s))
      | FReleased None \<Rightarrow> (InBody 0, s)
      | FReleased (Some c) \<Rightarrow> (AtCond c, s)
      | FCondStep c \<Rightarrow> (AtLock (mutex_lock_req (cw_mutex c) (Some c)), s)
      | FLockStep r \<Rightarrow> (AtLock r, s)
      | FDrain \<Rightarrow> (AtDrain, s)
      | FNull \<Rightarrow> (Crashed, s)
      | FEnded \<Rightarrow> (Crashed, s))"

section \<open>Draining and tearing down\<close>

text \<open>One turn of the drain's loop, and what follows it when nothing is left.\<close>

definition gt_drain_turn ::
  "os_mem \<Rightarrow> (('t, 'r) gt_runtime \<Rightarrow> ('t, 'r) gt_runtime) \<Rightarrow> ('t, 'r) gt_poll \<Rightarrow>
     ('t, 'r) gt_runtime \<Rightarrow> ('t, 'r) gt_conf option" where
  "gt_drain_turn os io_teardown poll s =
     (if r_rq_head s = None then
        if r_inflight s = 0 then do {
          s1 \<leftarrow> (if r_zombies s \<noteq> None then gt_reap os s else Some s);
          Some (InBody 0, io_teardown s1)
        }
        else do { s1 \<leftarrow> poll True s; Some (AtDrain, s1) }
      else
        (case (gt_rq_pop s, r_current s) of
           ((Some t, s1), Some self) \<Rightarrow> Some (gt_switch_to FDrain t (gt_rq_push self s1))
         | _ \<Rightarrow> Some (Crashed, s)))"

text \<open>What a teardown does with one slot: its stacks unmapped, an unfinished task's captures freed.\<close>

definition gt_teardown_slot ::
  "os_mem \<Rightarrow> nat option \<Rightarrow> tptr \<Rightarrow> ('t, 'r) gt_runtime \<Rightarrow> ('t, 'r) gt_runtime" where
  "gt_teardown_slot os live t s =
     (let x = r_tasks s t;
          s1 = (case t_stack x of
                  Some p \<Rightarrow> if Some p \<noteq> live then gt_stack_unmap os p (t_stack_size x) s else s
                | None \<Rightarrow> s);
          s2 = (case t_ustack x of
                  Some p \<Rightarrow> gt_stack_unmap os p (t_ustack_size x) s1
                | None \<Rightarrow> s1)
      in if t_state x \<noteq> GT_STATE_FREE \<and> t_state x \<noteq> GT_STATE_DONE
         then log_event (map EvEnv (sppc_env_free (env (t_body x)))) s2 else s2)"

text \<open>The runtime's last state, its log complete; afterwards the thread has none.\<close>

definition gt_teardown ::
  "os_mem \<Rightarrow> (('t, 'r) gt_runtime \<Rightarrow> ('t, 'r) gt_runtime) \<Rightarrow> ('t, 'r) gt_runtime \<Rightarrow>
     ('t, 'r) gt_runtime option" where
  "gt_teardown os io_teardown s = do {
     let s1 = io_teardown s;
     s2 \<leftarrow> (if r_zombies s1 \<noteq> None then gt_reap os s1 else Some s1);
     let live = (case r_current s2 of Some c \<Rightarrow> t_stack (r_tasks s2 c) | None \<Rightarrow> None);
     let s3 = fold (gt_teardown_slot os live) [0..<r_nslots s2] s2;
     Some (gt_stack_flush os (rev (r_stack_cache s3)) s3)
   }"

end
