(* ===== verification/Locks.thy ===== *)
theory Locks
  imports Sched
begin

text \<open>
  Thread locks taken from tasks (async/sched.h): deadlines, letting the rest of the thread move
  while a task waits, the queue of waiting tasks that an unlock hands the processor to, the lock
  loop and the wait on a condition variable. What the clocks and the pthread calls answer are
  arguments; the platform's own EBUSY and ETIMEDOUT come in as \<^verbatim>\<open>os_errno\<close>.
\<close>

record os_errno =
  eBUSY :: int
  eTIMEDOUT :: int

section \<open>Deadlines\<close>

definition INT64_MAX :: int where "INT64_MAX = 2 ^ 63 - 1"

text \<open>
  \<^verbatim>\<open>now\<close> is what the clock read. A sum of seconds that does not fit its 64 bits is a signed
  overflow, undefined in C: None.
\<close>

definition gt_deadline :: "timespec \<Rightarrow> timespec \<Rightarrow> timespec option" where
  "gt_deadline now timeout =
     (let sec = tv_sec now + tv_sec timeout;
          nsec = tv_nsec now + tv_nsec timeout in
      if sec > INT64_MAX then None
      else if nsec \<ge> 1000000000
      then (if sec + 1 > INT64_MAX then None
            else Some \<lparr>tv_sec = sec + 1, tv_nsec = nsec - 1000000000\<rparr>)
      else Some \<lparr>tv_sec = sec, tv_nsec = nsec\<rparr>)"

definition gt_remaining :: "timespec \<Rightarrow> timespec \<Rightarrow> timespec" where
  "gt_remaining now deadline =
     (let left = \<lparr>tv_sec = tv_sec deadline - tv_sec now, tv_nsec = tv_nsec deadline - tv_nsec now\<rparr>;
          left1 = (if tv_nsec left < 0
                   then left\<lparr>tv_sec := tv_sec left - 1, tv_nsec := tv_nsec left + 1000000000\<rparr> else left)
      in if tv_sec left1 < 0 then \<lparr>tv_sec = 0, tv_nsec = 0\<rparr> else left1)"

definition gt_passed :: "timespec \<Rightarrow> timespec \<Rightarrow> bool" where
  "gt_passed now deadline =
     (let left = gt_remaining now deadline in tv_sec left = 0 \<and> tv_nsec left = 0)"

definition gt_passed_if_any :: "timespec \<Rightarrow> timespec option \<Rightarrow> bool" where
  "gt_passed_if_any now deadline =
     (case deadline of None \<Rightarrow> False | Some d \<Rightarrow> gt_passed now d)"

section \<open>Letting the rest of the thread move\<close>

definition gt_has_other_work ::
  "('t, 'r) gt_poll \<Rightarrow> ('t, 'r) gt_runtime \<Rightarrow> (bool \<times> ('t, 'r) gt_runtime) option" where
  "gt_has_other_work poll s = do {
     s1 \<leftarrow> (if r_inflight s \<noteq> 0 then poll False s else Some s);
     Some (r_rq_head s1 \<noteq> None \<or> r_inflight s1 \<noteq> 0, s1)
   }"

type_synonym ('t, 'r) gt_poll_until =
  "int \<Rightarrow> timespec \<Rightarrow> ('t, 'r) gt_runtime \<Rightarrow> ('t, 'r) gt_runtime option"

text \<open>\<^verbatim>\<open>_gt_step\<close>: the task carries on at \<^verbatim>\<open>k\<close>.\<close>

definition gt_step ::
  "('t, 'r) gt_poll \<Rightarrow> ('t, 'r) gt_poll_until \<Rightarrow> gt_frame \<Rightarrow> int \<Rightarrow> timespec option \<Rightarrow>
     ('t, 'r) gt_runtime \<Rightarrow> ('t, 'r) gt_conf option" where
  "gt_step poll poll_until k clock deadline s =
     (case r_current s of
        None \<Rightarrow> Some (Crashed, s)
      | Some self \<Rightarrow>
          (case gt_rq_pop s of
             (Some t, s1) \<Rightarrow> Some (gt_switch_to k t (gt_rq_push self s1))
           | (None, s1) \<Rightarrow> do {
               s2 \<leftarrow> (case deadline of None \<Rightarrow> poll True s1 | Some d \<Rightarrow> poll_until clock d s1);
               Some (AtFrame k, s2)
             }))"

section \<open>The lock waiters\<close>

definition gt_lock_wait_add :: "gt_lock_waiter \<Rightarrow> ('t, 'r) gt_runtime \<Rightarrow> ('t, 'r) gt_runtime" where
  "gt_lock_wait_add w s = s\<lparr>r_lock_waiters := r_lock_waiters s @ [w]\<rparr>"

definition gt_lock_wait_remove :: "gt_lock_waiter \<Rightarrow> ('t, 'r) gt_runtime \<Rightarrow> ('t, 'r) gt_runtime" where
  "gt_lock_wait_remove w s = s\<lparr>r_lock_waiters := remove1 w (r_lock_waiters s)\<rparr>"

text \<open>The loop of \<^verbatim>\<open>_gt_lock_released\<close>: the first waiter on the lock that could be dequeued.\<close>

fun gt_lock_scan ::
  "nat \<Rightarrow> gt_lock_waiter list \<Rightarrow> ('t, 'r) gt_runtime \<Rightarrow> (tptr option \<times> ('t, 'r) gt_runtime) option"
where
  "gt_lock_scan lock [] s = Some (None, s)"
| "gt_lock_scan lock (w # ws) s =
     (if w_lock w \<noteq> lock \<or> t_state (r_tasks s (w_task w)) \<noteq> GT_STATE_READY
      then gt_lock_scan lock ws s
      else do {
        (removed, s1) \<leftarrow> gt_rq_remove (w_task w) s;
        if removed then Some (Some (w_task w), s1) else gt_lock_scan lock ws s1
      })"

definition gt_lock_released ::
  "nat \<Rightarrow> gt_frame \<Rightarrow> ('t, 'r) gt_runtime \<Rightarrow> ('t, 'r) gt_conf option" where
  "gt_lock_released lock k s = do {
     (w, s1) \<leftarrow> gt_lock_scan lock (r_lock_waiters s) s;
     (case (w, r_current s1) of
        (None, _) \<Rightarrow> Some (AtFrame k, s1)
      | (Some t, Some self) \<Rightarrow> Some (gt_switch_to k t (gt_rq_push self s1))
      | (Some t, None) \<Rightarrow> Some (Crashed, s1))
   }"

section \<open>Taking a lock\<close>

text \<open>
  What one turn of the loop is answered: by the try, by the blocking or the timed call if it comes
  to that, and by the clock (once more after the lock is taken, for a condition wait).
\<close>

record os_lock =
  an_try :: int
  an_block :: int
  an_now :: timespec
  an_after :: timespec

definition lock_waiter :: "gt_lock_req \<Rightarrow> tptr \<Rightarrow> gt_lock_waiter" where
  "lock_waiter r t = \<lparr>w_lock = lk_lock r, w_task = t\<rparr>"

text \<open>Leaving the loop with \<^verbatim>\<open>err\<close>; a condition wait's own result follows from it.\<close>

definition gt_lock_done ::
  "os_errno \<Rightarrow> os_lock \<Rightarrow> gt_lock_req \<Rightarrow> int \<Rightarrow> ('t, 'r) gt_runtime \<Rightarrow> ('t, 'r) gt_conf" where
  "gt_lock_done er an r err s =
     (case r_current s of
        None \<Rightarrow> (Crashed, s)
      | Some self \<Rightarrow>
          let s1 = (if lk_queued r then gt_lock_wait_remove (lock_waiter r self) s else s) in
          case lk_cond r of
            None \<Rightarrow> (InBody err, s1)
          | Some c \<Rightarrow>
              (InBody (if err \<noteq> 0 then err
                       else if gt_passed_if_any (an_after an) (cw_deadline c) then eTIMEDOUT er else 0), s1))"

definition gt_lock_turn ::
  "os_errno \<Rightarrow> os_lock \<Rightarrow> ('t, 'r) gt_poll \<Rightarrow> ('t, 'r) gt_poll_until \<Rightarrow> gt_lock_req \<Rightarrow>
     ('t, 'r) gt_runtime \<Rightarrow> ('t, 'r) gt_conf option" where
  "gt_lock_turn er an poll poll_until r s =
     (if an_try an \<noteq> eBUSY er then Some (gt_lock_done er an r (an_try an) s)
      else do {
        (work, s1) \<leftarrow> gt_has_other_work poll s;
        if \<not> work then Some (gt_lock_done er an r (an_block an) s1)
        else if gt_passed_if_any (an_now an) (lk_deadline r)
        then Some (gt_lock_done er an r (eTIMEDOUT er) s1)
        else
          (case r_current s1 of
             None \<Rightarrow> Some (Crashed, s1)
           | Some self \<Rightarrow>
               let r1 = r\<lparr>lk_queued := True\<rparr>;
                   s2 = (if lk_queued r then s1 else gt_lock_wait_add (lock_waiter r self) s1)
               in gt_step poll poll_until (FLockStep r1) (lk_clock r) (lk_deadline r) s2)
      })"

text \<open>An unlock, from the result of the pthread call on.\<close>

definition gt_unlock ::
  "int \<Rightarrow> nat \<Rightarrow> ('t, 'r) gt_runtime \<Rightarrow> ('t, 'r) gt_conf option" where
  "gt_unlock err lock s =
     (if err = 0 then gt_lock_released lock (FReleased None) s else Some (InBody err, s))"

section \<open>Waiting on a condition\<close>

text \<open>
  \<^verbatim>\<open>wait\<close> is what the real wait answers when nothing else on this thread can run, and
  \<^verbatim>\<open>uerr\<close> what the unlock of the mutex does otherwise.
\<close>

definition gt_cond_wait_until ::
  "('t, 'r) gt_poll \<Rightarrow> int \<Rightarrow> int \<Rightarrow> gt_cond_req \<Rightarrow> ('t, 'r) gt_runtime \<Rightarrow> ('t, 'r) gt_conf option" where
  "gt_cond_wait_until poll wait uerr c s = do {
     (work, s1) \<leftarrow> gt_has_other_work poll s;
     if \<not> work then Some (InBody wait, s1)
     else if uerr \<noteq> 0 then Some (InBody uerr, s1)
     else gt_lock_released (cw_mutex c) (FReleased (Some c)) s1
   }"

definition gt_cond_turn ::
  "('t, 'r) gt_poll \<Rightarrow> ('t, 'r) gt_poll_until \<Rightarrow> gt_cond_req \<Rightarrow>
     ('t, 'r) gt_runtime \<Rightarrow> ('t, 'r) gt_conf option" where
  "gt_cond_turn poll poll_until c s = do {
     (work, s1) \<leftarrow> gt_has_other_work poll s;
     if work then gt_step poll poll_until (FCondStep c) (cw_clock c) (cw_deadline c) s1
     else Some (AtLock (mutex_lock_req (cw_mutex c) (Some c)), s1)
   }"

section \<open>Deadlines: lemmas\<close>

definition timespec_ok :: "timespec \<Rightarrow> bool" where
  "timespec_ok t \<longleftrightarrow> 0 \<le> tv_sec t \<and> tv_sec t \<le> INT64_MAX \<and> 0 \<le> tv_nsec t \<and> tv_nsec t < 1000000000"

definition nanos :: "timespec \<Rightarrow> int" where
  "nanos t = tv_sec t * 1000000000 + tv_nsec t"

lemma gt_remaining_exact:
  assumes "timespec_ok now" and "timespec_ok d"
  shows "nanos (gt_remaining now d) = max 0 (nanos d - nanos now)"
    and "0 \<le> tv_sec (gt_remaining now d)" and "0 \<le> tv_nsec (gt_remaining now d)"
    and "tv_nsec (gt_remaining now d) < 1000000000"
  using assms by (auto simp: gt_remaining_def nanos_def timespec_ok_def Let_def max_def)

lemma gt_passed_iff:
  assumes "timespec_ok now" and "timespec_ok d"
  shows "gt_passed now d \<longleftrightarrow> nanos d \<le> nanos now"
  using assms by (auto simp: gt_passed_def gt_remaining_def nanos_def timespec_ok_def Let_def)

end
