(* ===== verification/SchedRefine.thy ===== *)
theory SchedRefine
  imports Locks
begin

text \<open>
  The code's scheduler (theory Sched) implements the abstract one (theory SchedSpec):
  \<^verbatim>\<open>repr\<close> relates the two, each lemma \<^verbatim>\<open>repr_*\<close> is one operation, and
  \<^verbatim>\<open>gt_step\<close> is the step relation of the whole scheduler, whose invariant
  \<^verbatim>\<open>conf_ok\<close> every reachable configuration satisfies.
\<close>

section \<open>The runtime as an abstract scheduler\<close>

definition slots_ok :: "('t, 'r) gt_runtime \<Rightarrow> bool" where
  "slots_ok s \<longleftrightarrow> r_nslots s \<le> r_cslots s \<and> (r_cslots s = 0 \<or> (\<exists>k \<le> 13. r_cslots s = 2 ^ (6 + k)))"

text \<open>
  A task's record as its abstract task. The running task's saved stack pointer means nothing
  until it is switched away from, so \<^verbatim>\<open>cur\<close> is left out there.
\<close>

definition task_repr ::
  "('t, 'r) gt_runtime \<Rightarrow> tptr \<Rightarrow> tptr \<Rightarrow> atask \<Rightarrow> bool" where
  "task_repr s cur t x \<longleftrightarrow>
     t_state (r_tasks s t) = s_state x \<and> (t \<noteq> cur \<longrightarrow> t_sp (r_tasks s t) = s_frame x) \<and>
     t_idx (r_tasks s t) = of_nat t \<and> t_gen (r_tasks s t) = of_nat (s_gen x) \<and>
     t_njoiners (r_tasks s t) = of_nat (s_join x) \<and> t_detached (r_tasks s t) = s_det x \<and>
     chain (wnx s) (t_waiters (r_tasks s t)) (s_wait x)"

definition repr :: "('t, 'r) gt_runtime \<Rightarrow> sched \<Rightarrow> bool" where
  "repr s a \<longleftrightarrow>
     r_current s = Some (s_cur a) \<and> r_nslots s = s_n a \<and> slots_ok s \<and>
     rq_list s (s_run a) \<and>
     chain (nxt s) (r_free_slots s) (s_free a) \<and> chain (nxt s) (r_zombies s) (s_dead a) \<and>
     r_live s = of_nat (s_live a) \<and> r_inflight s = of_nat (s_inflight a) \<and>
     (\<forall>t < s_n a. task_repr s (s_cur a) t (s_task a t))"

lemma reprD:
  assumes "repr s a"
  shows "r_current s = Some (s_cur a)" "r_nslots s = s_n a" "slots_ok s" "rq_list s (s_run a)"
    "chain (nxt s) (r_free_slots s) (s_free a)" "chain (nxt s) (r_zombies s) (s_dead a)"
    "r_live s = of_nat (s_live a)" "r_inflight s = of_nat (s_inflight a)"
    "t < s_n a \<Longrightarrow> task_repr s (s_cur a) t (s_task a t)"
  using assms by (simp_all add: repr_def)

lemma reprI:
  assumes "r_current s = Some (s_cur a)" "r_nslots s = s_n a" "slots_ok s" "rq_list s (s_run a)"
    "chain (nxt s) (r_free_slots s) (s_free a)" "chain (nxt s) (r_zombies s) (s_dead a)"
    "r_live s = of_nat (s_live a)" "r_inflight s = of_nat (s_inflight a)"
    "\<And>t. t < s_n a \<Longrightarrow> task_repr s (s_cur a) t (s_task a t)"
  shows "repr s a"
  using assms by (simp add: repr_def)

text \<open>The lists that share the link field are disjoint.\<close>

definition lists_apart :: "sched \<Rightarrow> bool" where
  "lists_apart a \<longleftrightarrow> distinct (s_run a @ s_free a @ s_dead a)"

lemma queues_apart: "queues_ok a \<Longrightarrow> lists_apart a"
  by (auto simp: queues_ok_def lists_apart_def)

section \<open>The run queue\<close>

lemma push_simps [simp]:
  "r_current (gt_rq_push t s) = r_current s" "r_free_slots (gt_rq_push t s) = r_free_slots s"
  "r_zombies (gt_rq_push t s) = r_zombies s" "r_nslots (gt_rq_push t s) = r_nslots s"
  "r_cslots (gt_rq_push t s) = r_cslots s" "r_live (gt_rq_push t s) = r_live s"
  "r_inflight (gt_rq_push t s) = r_inflight s" "r_io (gt_rq_push t s) = r_io s"
  "r_log (gt_rq_push t s) = r_log s" "r_lock_waiters (gt_rq_push t s) = r_lock_waiters s"
  "tls_usp (gt_rq_push t s) = tls_usp s" "r_stack_cache (gt_rq_push t s) = r_stack_cache s"
  by (simp_all add: gt_rq_push_def Let_def split: option.split)

lemma push_tasks:
  "r_tasks (gt_rq_push t s) p =
     (let x = (if p = t then (r_tasks s p)\<lparr>t_state := GT_STATE_READY, t_next := None\<rparr> else r_tasks s p)
      in if r_rq_tail s = Some p then x\<lparr>t_next := Some t\<rparr> else x)"
  by (auto simp: gt_rq_push_def Let_def split: option.split)

lemma push_task_simps [simp]:
  "t_state (r_tasks (gt_rq_push t s) p) = (if p = t then GT_STATE_READY else t_state (r_tasks s p))"
  "t_sp (r_tasks (gt_rq_push t s) p) = t_sp (r_tasks s p)"
  "t_idx (r_tasks (gt_rq_push t s) p) = t_idx (r_tasks s p)"
  "t_gen (r_tasks (gt_rq_push t s) p) = t_gen (r_tasks s p)"
  "t_njoiners (r_tasks (gt_rq_push t s) p) = t_njoiners (r_tasks s p)"
  "t_detached (r_tasks (gt_rq_push t s) p) = t_detached (r_tasks s p)"
  "t_waiters (r_tasks (gt_rq_push t s) p) = t_waiters (r_tasks s p)"
  "t_wnext (r_tasks (gt_rq_push t s) p) = t_wnext (r_tasks s p)"
  "t_io_res (r_tasks (gt_rq_push t s) p) = t_io_res (r_tasks s p)"
  "t_body (r_tasks (gt_rq_push t s) p) = t_body (r_tasks s p)"
  "t_usp (r_tasks (gt_rq_push t s) p) = t_usp (r_tasks s p)"
  "t_stack (r_tasks (gt_rq_push t s) p) = t_stack (r_tasks s p)"
  by (simp_all add: push_tasks Let_def)

lemma wnx_push [simp]: "wnx (gt_rq_push t s) = wnx s"
  by (simp add: wnx_def fun_eq_iff)

lemma tail_in: "rq_list s xs \<Longrightarrow> r_rq_tail s = Some p \<Longrightarrow> p \<in> set xs"
  by (auto simp: rq_list_def last_opt_def split: if_splits)

lemma repr_push:
  assumes r: "repr s a" and ap: "lists_apart a" and t: "t < s_n a"
    and out: "t \<notin> set (s_run a)" "t \<notin> set (s_free a)" "t \<notin> set (s_dead a)"
  shows "repr (gt_rq_push t s) (a_push t a)"
proof (rule reprI)
  have keep: "nxt (gt_rq_push t s) p = nxt s p" if "p \<notin> set (s_run a)" "p \<noteq> t" for p
    using that tail_in [OF reprD(4) [OF r], of p] by (auto simp: nxt_def push_tasks Let_def)
  show "rq_list (gt_rq_push t s) (s_run (a_push t a))"
    using gt_rq_push_list [OF reprD(4) [OF r] out(1)] by (simp add: a_push_def)
  have "chain (nxt (gt_rq_push t s)) p xs = chain (nxt s) p xs"
    if "set xs \<inter> set (s_run a) = {}" "t \<notin> set xs" for p xs
    by (rule chain_frame_eq) (use that keep in auto)
  then show "chain (nxt (gt_rq_push t s)) (r_free_slots (gt_rq_push t s)) (s_free (a_push t a))"
    "chain (nxt (gt_rq_push t s)) (r_zombies (gt_rq_push t s)) (s_dead (a_push t a))"
    using reprD(5,6) [OF r] out ap by (auto simp: a_push_def lists_apart_def)
  show "slots_ok (gt_rq_push t s)" using reprD(3) [OF r] by (simp add: slots_ok_def)
  show "task_repr (gt_rq_push t s) (s_cur (a_push t a)) u (s_task (a_push t a) u)"
    if "u < s_n (a_push t a)" for u
    using reprD(9) [OF r, of u] that by (auto simp: task_repr_def a_push_def)
qed (use reprD [OF r] in \<open>simp_all add: a_push_def\<close>)

lemma pop_simps [simp]:
  "r_current (snd (gt_rq_pop s)) = r_current s" "r_inflight (snd (gt_rq_pop s)) = r_inflight s"
  by (simp_all add: gt_rq_pop_def Let_def split: option.split)

lemma rq_frame_tasks:
  assumes "rq_frame A s s'"
  shows "t_state (r_tasks s' p) = t_state (r_tasks s p)" "t_sp (r_tasks s' p) = t_sp (r_tasks s p)"
    "t_idx (r_tasks s' p) = t_idx (r_tasks s p)" "t_gen (r_tasks s' p) = t_gen (r_tasks s p)"
    "t_njoiners (r_tasks s' p) = t_njoiners (r_tasks s p)"
    "t_detached (r_tasks s' p) = t_detached (r_tasks s p)"
    "t_waiters (r_tasks s' p) = t_waiters (r_tasks s p)" "t_wnext (r_tasks s' p) = t_wnext (r_tasks s p)"
    "t_io_res (r_tasks s' p) = t_io_res (r_tasks s p)" "t_usp (r_tasks s' p) = t_usp (r_tasks s p)"
    "t_body (r_tasks s' p) = t_body (r_tasks s p)"
proof -
  have "(r_tasks s' p)\<lparr>t_next := None\<rparr> = (r_tasks s p)\<lparr>t_next := None\<rparr>"
    using assms by (simp add: rq_frame_def)
  from arg_cong [OF this, of t_state] arg_cong [OF this, of t_sp] arg_cong [OF this, of t_idx]
    arg_cong [OF this, of t_gen] arg_cong [OF this, of t_njoiners] arg_cong [OF this, of t_detached]
    arg_cong [OF this, of t_waiters] arg_cong [OF this, of t_wnext] arg_cong [OF this, of t_io_res]
    arg_cong [OF this, of t_usp] arg_cong [OF this, of t_body]
  show "t_state (r_tasks s' p) = t_state (r_tasks s p)" "t_sp (r_tasks s' p) = t_sp (r_tasks s p)"
    "t_idx (r_tasks s' p) = t_idx (r_tasks s p)" "t_gen (r_tasks s' p) = t_gen (r_tasks s p)"
    "t_njoiners (r_tasks s' p) = t_njoiners (r_tasks s p)"
    "t_detached (r_tasks s' p) = t_detached (r_tasks s p)"
    "t_waiters (r_tasks s' p) = t_waiters (r_tasks s p)" "t_wnext (r_tasks s' p) = t_wnext (r_tasks s p)"
    "t_io_res (r_tasks s' p) = t_io_res (r_tasks s p)" "t_usp (r_tasks s' p) = t_usp (r_tasks s p)"
    "t_body (r_tasks s' p) = t_body (r_tasks s p)"
    by simp_all
qed

lemma rq_frame_fields:
  assumes "rq_frame A s s'"
  shows "r_current s' = r_current s" "r_free_slots s' = r_free_slots s" "r_zombies s' = r_zombies s"
    "r_nslots s' = r_nslots s" "r_cslots s' = r_cslots s" "r_live s' = r_live s"
    "r_inflight s' = r_inflight s" "r_lock_waiters s' = r_lock_waiters s" "r_io s' = r_io s"
    "r_log s' = r_log s" "tls_usp s' = tls_usp s"
proof -
  have eq: "s' = s\<lparr>r_rq_head := r_rq_head s', r_rq_tail := r_rq_tail s', r_tasks := r_tasks s'\<rparr>"
    using assms by (simp add: rq_frame_def)
  show "r_current s' = r_current s" "r_free_slots s' = r_free_slots s" "r_zombies s' = r_zombies s"
    "r_nslots s' = r_nslots s" "r_cslots s' = r_cslots s" "r_live s' = r_live s"
    "r_inflight s' = r_inflight s" "r_lock_waiters s' = r_lock_waiters s" "r_io s' = r_io s"
    "r_log s' = r_log s" "tls_usp s' = tls_usp s"
    by (subst eq, simp)+
qed

text \<open>Taking a task off the run queue, from its head or from its middle.\<close>

lemma repr_unqueue:
  assumes r: "repr s a" and ap: "lists_apart a" and f: "rq_frame A s s'" "A \<subseteq> set (s_run a)"
    and q: "rq_list s' (remove1 t (s_run a))"
  shows "repr s' (a\<lparr>s_run := remove1 t (s_run a)\<rparr>)"
proof (rule reprI)
  have keep: "nxt s' p = nxt s p" if "p \<notin> set (s_run a)" for p
    using that f by (auto simp: nxt_def rq_frame_def)
  have "chain (nxt s') p xs = chain (nxt s) p xs" if "set xs \<inter> set (s_run a) = {}" for p xs
    by (rule chain_frame_eq) (use that keep in auto)
  then show "chain (nxt s') (r_free_slots s') (s_free (a\<lparr>s_run := remove1 t (s_run a)\<rparr>))"
    "chain (nxt s') (r_zombies s') (s_dead (a\<lparr>s_run := remove1 t (s_run a)\<rparr>))"
    using reprD(5,6) [OF r] ap by (auto simp: lists_apart_def rq_frame_fields [OF f(1)])
  have w: "wnx s' = wnx s" by (simp add: wnx_def fun_eq_iff rq_frame_tasks [OF f(1)])
  show "slots_ok s'" using reprD(3) [OF r] by (simp add: slots_ok_def rq_frame_fields [OF f(1)])
  show "task_repr s' (s_cur (a\<lparr>s_run := remove1 t (s_run a)\<rparr>)) u (s_task (a\<lparr>s_run := remove1 t (s_run a)\<rparr>) u)"
    if "u < s_n (a\<lparr>s_run := remove1 t (s_run a)\<rparr>)" for u
    using reprD(9) [OF r, of u] that by (simp add: task_repr_def rq_frame_tasks [OF f(1)] w)
qed (use reprD [OF r] q in \<open>simp_all add: rq_frame_fields [OF f(1)]\<close>)

lemma repr_pop:
  assumes r: "repr s a" and ap: "lists_apart a"
  shows "s_run a = [] \<Longrightarrow> gt_rq_pop s = (None, s)"
    and "s_run a = t # ts \<Longrightarrow> \<exists>s'. gt_rq_pop s = (Some t, s') \<and> repr s' (a\<lparr>s_run := ts\<rparr>) \<and>
      rq_frame {t} s s'"
proof -
  show "s_run a = [] \<Longrightarrow> gt_rq_pop s = (None, s)"
    using reprD(4) [OF r] gt_rq_pop_empty by metis
  assume ts: "s_run a = t # ts"
  obtain q s' where p: "gt_rq_pop s = (q, s')" by (cases "gt_rq_pop s")
  have "q = Some t \<and> rq_list s' ts \<and> rq_frame {t} s s'"
    by (rule gt_rq_pop_frame [OF _ p]) (use reprD(4) [OF r] ts in simp)
  with repr_unqueue [OF r ap, of "{t}" s' t] ts p
  show "\<exists>s'. gt_rq_pop s = (Some t, s') \<and> repr s' (a\<lparr>s_run := ts\<rparr>) \<and> rq_frame {t} s s'"
    by simp
qed

lemma repr_remove:
  assumes r: "repr s a" and ap: "lists_apart a"
  shows "\<exists>s'. gt_rq_remove t s = Some (t \<in> set (s_run a), s') \<and>
    repr s' (a\<lparr>s_run := remove1 t (s_run a)\<rparr>) \<and> rq_frame (set (s_run a)) s s'"
  using gt_rq_remove_list [OF reprD(4) [OF r], of t] repr_unqueue [OF r ap, of "set (s_run a)" _ t]
  by blast
section \<open>Updates of one task\<close>

lemma nxt_upd_same: "t_next (f (r_tasks s t)) = t_next (r_tasks s t) \<Longrightarrow> nxt (upd_task t f s) = nxt s"
  by (auto simp: nxt_def fun_eq_iff)

lemma wnx_upd_same: "t_wnext (f (r_tasks s t)) = t_wnext (r_tasks s t) \<Longrightarrow> wnx (upd_task t f s) = wnx s"
  by (auto simp: wnx_def fun_eq_iff)

lemma wnx_fields [simp]:
  "wnx (s\<lparr>r_free_slots := a\<rparr>) = wnx s" "wnx (s\<lparr>r_zombies := b\<rparr>) = wnx s"
  "wnx (s\<lparr>r_live := l\<rparr>) = wnx s" "wnx (s\<lparr>r_current := c\<rparr>) = wnx s"
  "wnx (s\<lparr>tls_usp := u\<rparr>) = wnx s" "wnx (s\<lparr>r_inflight := i\<rparr>) = wnx s" "wnx (s\<lparr>r_io := io\<rparr>) = wnx s"
  "wnx (s\<lparr>r_nslots := n\<rparr>) = wnx s" "wnx (s\<lparr>r_cslots := n\<rparr>) = wnx s"
  "nxt (s\<lparr>tls_usp := u\<rparr>) = nxt s" "nxt (s\<lparr>r_inflight := i\<rparr>) = nxt s" "nxt (s\<lparr>r_io := io\<rparr>) = nxt s"
  "nxt (s\<lparr>r_nslots := n\<rparr>) = nxt s" "nxt (s\<lparr>r_cslots := n\<rparr>) = nxt s"
  "wnx (log_event es s) = wnx s" "nxt (log_event es s) = nxt s"
  by (auto simp: wnx_def nxt_def log_event_def fun_eq_iff)

lemma repr_upd:
  assumes r: "repr s a"
    and links: "t_next (f (r_tasks s t)) = t_next (r_tasks s t)"
      "t_wnext (f (r_tasks s t)) = t_wnext (r_tasks s t)"
      "t_waiters (f (r_tasks s t)) = t_waiters (r_tasks s t)" "s_wait (g (s_task a t)) = s_wait (s_task a t)"
    and new: "t < s_n a \<Longrightarrow> t_state (f (r_tasks s t)) = s_state (g (s_task a t))"
      "t < s_n a \<Longrightarrow> t \<noteq> s_cur a \<Longrightarrow> t_sp (f (r_tasks s t)) = s_frame (g (s_task a t))"
      "t_idx (f (r_tasks s t)) = t_idx (r_tasks s t)"
      "t < s_n a \<Longrightarrow> t_gen (f (r_tasks s t)) = of_nat (s_gen (g (s_task a t)))"
      "t < s_n a \<Longrightarrow> t_njoiners (f (r_tasks s t)) = of_nat (s_join (g (s_task a t)))"
      "t < s_n a \<Longrightarrow> t_detached (f (r_tasks s t)) = s_det (g (s_task a t))"
  shows "repr (upd_task t f s) (a_upd t g a)"
proof (rule reprI)
  have [simp]: "nxt (upd_task t f s) = nxt s" "wnx (upd_task t f s) = wnx s"
    using links nxt_upd_same [where f = f and t = t] wnx_upd_same [where f = f and t = t] by blast+
  show "rq_list (upd_task t f s) (s_run (a_upd t g a))" using reprD(4) [OF r] by (simp add: rq_list_def)
  show "task_repr (upd_task t f s) (s_cur (a_upd t g a)) u (s_task (a_upd t g a) u)"
    if "u < s_n (a_upd t g a)" for u
    using reprD(9) [OF r, of u] that links new by (auto simp: task_repr_def)
qed (use reprD [OF r] links in \<open>simp_all add: nxt_upd_same slots_ok_def\<close>)

lemma repr_same:
  assumes "repr s a" and "r_current s' = r_current s" "r_nslots s' = r_nslots s" "r_cslots s' = r_cslots s"
    "r_rq_head s' = r_rq_head s" "r_rq_tail s' = r_rq_tail s" "r_free_slots s' = r_free_slots s"
    "r_zombies s' = r_zombies s" "r_live s' = r_live s" "r_inflight s' = r_inflight s" "r_tasks s' = r_tasks s"
  shows "repr s' a"
proof -
  have "nxt s' = nxt s" "wnx s' = wnx s" using assms(11) by (simp_all add: nxt_def wnx_def fun_eq_iff)
  then show ?thesis using assms by (simp add: repr_def rq_list_def task_repr_def slots_ok_def)
qed

lemma repr_fields [simp]:
  "repr (s\<lparr>tls_usp := u\<rparr>) a = repr s a" "repr (s\<lparr>r_io := io\<rparr>) a = repr s a"
  "repr (log_event es s) a = repr s a"
  by (auto intro: repr_same simp: log_event_def elim!: repr_same [rotated -1])

lemma repr_state:
  assumes "repr s a"
  shows "repr (upd_task t (\<lambda>x. x\<lparr>t_state := k\<rparr>) s) (a_upd t (\<lambda>x. x\<lparr>s_state := k\<rparr>) a)"
  by (rule repr_upd [OF assms]) (use reprD(9) [OF assms, of t] in \<open>auto simp: task_repr_def\<close>)

text \<open>The current task's frame is free to choose.\<close>

lemma repr_frame:
  assumes "repr s a"
  shows "repr s (a_upd (s_cur a) (\<lambda>x. x\<lparr>s_frame := k\<rparr>) a)"
  using assms by (auto simp: repr_def task_repr_def)

section \<open>Slots\<close>

lemma next_gen_of_nat: "g < 2048 \<Longrightarrow> next_gen (of_nat g) = of_nat (next_gen_nat g)"
proof -
  assume g: "g < 2048"
  have m: "(1 + of_nat g :: u32) AND GT_GEN_MASK = of_nat (Suc g mod 2048)"
  proof -
    have "(of_nat (Suc g) :: u32) AND mask 11 = take_bit 11 (of_nat (Suc g))"
      by (simp only: take_bit_eq_mask)
    also have "\<dots> = of_nat (take_bit 11 (Suc g))" by (simp only: take_bit_of_nat)
    finally show ?thesis by (simp add: gen_mask_eq take_bit_eq_mod)
  qed
  have "(of_nat (Suc g mod 2048) :: u32) = 0 \<longleftrightarrow> Suc g mod 2048 = 0"
    by (rule of_nat_eq_0) (simp add: order.strict_trans [OF mod_less_divisor])
  then show ?thesis by (simp add: next_gen_def next_gen_nat_def m Let_def add.commute)
qed

lemma repr_stack_frame: "stack_frame s s' \<Longrightarrow> repr s a \<Longrightarrow> repr s' a"
  by (rule repr_same) (simp_all add: stack_frame_simps)

lemma repr_relink:
  assumes r: "repr s a" and out: "t \<notin> set (s_run a)" "t \<notin> set (s_free a)" "t \<notin> set (s_dead a)"
  shows "repr (upd_task t (\<lambda>x. x\<lparr>t_next := v\<rparr>) s) a"
proof (rule reprI)
  let ?s = "upd_task t (\<lambda>x. x\<lparr>t_next := v\<rparr>) s"
  have "wnx ?s = wnx s" by (rule wnx_upd_same) simp
  then show "task_repr ?s (s_cur a) u (s_task a u)" if "u < s_n a" for u
    using reprD(9) [OF r that] by (auto simp: task_repr_def)
qed (use reprD [OF r] out in \<open>simp_all add: nxt_upd rq_list_def slots_ok_def\<close>)

lemma of_nat_minus_1: "0 < n \<Longrightarrow> of_nat n - 1 = (of_nat (n - 1) :: 'a::ring_1)"
  by (cases n) simp_all

lemma repr_free:
  assumes r: "repr s a" and ap: "lists_apart a" and t: "t < s_n a"
    and out: "t \<notin> set (s_run a)" "t \<notin> set (s_free a)" "t \<notin> set (s_dead a)"
    and g: "s_gen (s_task a t) < 2048" and l: "0 < s_live a"
  shows "repr (gt_slot_free t s) (a_free t a)"
proof -
  let ?s1 = "upd_task t (\<lambda>x. x\<lparr>t_state := GT_STATE_FREE, t_gen := next_gen (t_gen x)\<rparr>) s"
  let ?a1 = "a_upd t (\<lambda>x. x\<lparr>s_state := GT_STATE_FREE, s_gen := next_gen_nat (s_gen x)\<rparr>) a"
  have r1: "repr ?s1 ?a1"
    by (rule repr_upd [OF r])
      (use reprD(9) [OF r, of t] next_gen_of_nat [OF g] in \<open>auto simp: task_repr_def\<close>)
  have r2: "repr (upd_task t (\<lambda>x. x\<lparr>t_next := r_free_slots s\<rparr>) ?s1) ?a1"
    by (rule repr_relink [OF r1]) (use out in simp_all)
  have eq: "gt_slot_free t s = (upd_task t (\<lambda>x. x\<lparr>t_next := r_free_slots s\<rparr>) ?s1)
      \<lparr>r_free_slots := Some t, r_live := r_live s - 1\<rparr>"
    by (simp add: gt_slot_free_def upd_task_def)
  have a: "a_free t a = ?a1\<lparr>s_free := t # s_free a, s_live := s_live a - 1\<rparr>"
    by (simp add: a_free_def)
  show ?thesis unfolding eq a
  proof (rule reprI)
    show "chain (nxt (upd_task t (\<lambda>x. x\<lparr>t_next := r_free_slots s\<rparr>) ?s1
        \<lparr>r_free_slots := Some t, r_live := r_live s - 1\<rparr>))
      (r_free_slots (upd_task t (\<lambda>x. x\<lparr>t_next := r_free_slots s\<rparr>) ?s1\<lparr>r_free_slots := Some t, r_live := r_live s - 1\<rparr>))
      (s_free (?a1\<lparr>s_free := t # s_free a, s_live := s_live a - 1\<rparr>))"
      using reprD(5) [OF r] out by (simp add: nxt_upd fun_upd_def [symmetric])
    show "r_live (upd_task t (\<lambda>x. x\<lparr>t_next := r_free_slots s\<rparr>) ?s1\<lparr>r_free_slots := Some t, r_live := r_live s - 1\<rparr>) =
      of_nat (s_live (?a1\<lparr>s_free := t # s_free a, s_live := s_live a - 1\<rparr>))"
      using reprD(7) [OF r] of_nat_minus_1 [OF l] by simp
  qed (use reprD [OF r2] in \<open>simp_all add: rq_list_def slots_ok_def task_repr_def\<close>)
qed

section \<open>Reaping\<close>

definition reap_stacks :: "os_mem \<Rightarrow> tptr \<Rightarrow> ('t, 'r) gt_runtime \<Rightarrow> ('t, 'r) gt_runtime" where
  "reap_stacks os z s =
     (let s1 = upd_task z (\<lambda>x. x\<lparr>t_next := None\<rparr>) s;
          s2 = (if t_stack (r_tasks s1 z) \<noteq> None
                then upd_task z (\<lambda>x. x\<lparr>t_stack := None\<rparr>)
                       (gt_stack_free os (t_stack (r_tasks s1 z)) (t_stack_size (r_tasks s1 z)) s1)
                else s1)
      in if t_ustack (r_tasks s2 z) \<noteq> None
         then upd_task z (\<lambda>x. x\<lparr>t_ustack := None\<rparr>)
                (gt_stack_free os (t_ustack (r_tasks s2 z)) (t_ustack_size (r_tasks s2 z)) s2)
         else s2)"

lemma gt_reap_one_stacks:
  "gt_reap_one os z s =
     (if t_detached (r_tasks (reap_stacks os z s) z) then gt_slot_free z (reap_stacks os z s)
      else reap_stacks os z s)"
  by (simp add: gt_reap_one_def reap_stacks_def Let_def)

lemma a_upd_id: "g (s_task a t) = s_task a t \<Longrightarrow> a_upd t g a = a"
  by (simp add: a_upd_def)

lemma repr_stack_free_upd:
  assumes r: "repr s a" and f: "stack_frame s s'"
    and g: "\<And>x. t_next (g x) = t_next x \<and> t_wnext (g x) = t_wnext x \<and> t_waiters (g x) = t_waiters x \<and>
      t_state (g x) = t_state x \<and> t_sp (g x) = t_sp x \<and> t_idx (g x) = t_idx x \<and> t_gen (g x) = t_gen x \<and>
      t_njoiners (g x) = t_njoiners x \<and> t_detached (g x) = t_detached x"
  shows "repr (upd_task z g s') a"
proof -
  have r': "repr s' a" by (rule repr_stack_frame [OF f r])
  have "repr (upd_task z g s') (a_upd z (\<lambda>x. x) a)"
    by (rule repr_upd [OF r']) (use g reprD(9) [OF r', of z] in \<open>auto simp: task_repr_def\<close>)
  then show ?thesis by (simp add: a_upd_id)
qed

lemma repr_reap_stacks:
  assumes r: "repr s a" and out: "z \<notin> set (s_run a)" "z \<notin> set (s_free a)" "z \<notin> set (s_dead a)"
  shows "repr (reap_stacks os z s) a" and "p \<noteq> z \<Longrightarrow> r_tasks (reap_stacks os z s) p = r_tasks s p"
    and "t_detached (r_tasks (reap_stacks os z s) z) = t_detached (r_tasks s z)"
    and "r_zombies (reap_stacks os z s) = r_zombies s"
proof -
  let ?s1 = "upd_task z (\<lambda>x. x\<lparr>t_next := None\<rparr>) s"
  let ?s2 = "if t_stack (r_tasks ?s1 z) \<noteq> None
    then upd_task z (\<lambda>x. x\<lparr>t_stack := None\<rparr>)
           (gt_stack_free os (t_stack (r_tasks ?s1 z)) (t_stack_size (r_tasks ?s1 z)) ?s1)
    else ?s1"
  have r1: "repr ?s1 a" by (rule repr_relink [OF r out])
  have r2: "repr ?s2 a" using r1 by (auto intro!: repr_stack_free_upd [OF r1] simp del: upd_task_simps)
  show "repr (reap_stacks os z s) a"
    unfolding reap_stacks_def Let_def using r2
    by (auto intro!: repr_stack_free_upd [OF r2] simp del: upd_task_simps)
  show "p \<noteq> z \<Longrightarrow> r_tasks (reap_stacks os z s) p = r_tasks s p"
    "t_detached (r_tasks (reap_stacks os z s) z) = t_detached (r_tasks s z)"
    "r_zombies (reap_stacks os z s) = r_zombies s"
    by (auto simp: reap_stacks_def Let_def stack_frame_simps [OF stack_frame_ops(3)])
qed

lemma repr_reap_from:
  assumes "core X a" and "s_dead a = zs" and "X \<inter> {t. st a t = GT_STATE_DONE} = {}"
    and "repr s (a\<lparr>s_dead := []\<rparr>)" and "chain (nxt s) z zs"
  shows "\<exists>s'. gt_reap_from os z s = Some s' \<and> repr s' (a_reap_list zs a)"
  using assms
proof (induction zs arbitrary: a s z)
  case Nil
  then show ?case by (subst gt_reap_from.simps) (simp add: dead_same)
next
  case (Cons y ys)
  note S = core_reap_step [OF Cons.prems(1-3)]
  let ?b = "let a1 = a\<lparr>s_dead := ys\<rparr> in if s_det (s_task a y) then a_free y a1 else a1"
  have z: "z = Some y" and ch: "chain (nxt s) (nxt s y) ys" using Cons.prems(5) by auto
  have q: "queues_ok a" using coreD(1) [OF Cons.prems(1)] .
  have y: "y < s_n a" "st a y = GT_STATE_DONE" "y \<notin> set ys" "y \<notin> set (s_run a)" "y \<notin> set (s_free a)"
    using q Cons.prems(2) by (auto simp: queues_ok_def)
  let ?a0 = "a\<lparr>s_dead := []\<rparr>"
  have out: "y \<notin> set (s_run ?a0)" "y \<notin> set (s_free ?a0)" "y \<notin> set (s_dead ?a0)" using y by simp_all
  note R = repr_reap_stacks [OF Cons.prems(4) out, where os = os]
  have ap: "lists_apart ?a0" using queues_apart [OF q] by (auto simp: lists_apart_def)
  have gl: "s_gen (s_task ?a0 y) < 2048" "0 < s_live ?a0"
  proof -
    have "y \<in> live_set a" using y by (simp add: live_set_def)
    then have "0 < card (live_set a)" by (auto simp: card_gt_0_iff)
    then show "s_gen (s_task ?a0 y) < 2048" "0 < s_live ?a0"
      using coreD(4) [OF Cons.prems(1)] y by (auto simp: counts_ok_def)
  qed
  have det: "t_detached (r_tasks (reap_stacks os y s) y) = s_det (s_task a y)"
    using R(3) reprD(9) [OF Cons.prems(4), of y] y by (simp add: task_repr_def)
  have r': "repr (gt_reap_one os y s) (?b\<lparr>s_dead := []\<rparr>)"
  proof (cases "s_det (s_task a y)")
    case True
    have "repr (gt_slot_free y (reap_stacks os y s)) (a_free y ?a0)"
      by (rule repr_free [OF R(1) ap]) (use y gl in auto)
    moreover have "(a_free y (a\<lparr>s_dead := ys\<rparr>))\<lparr>s_dead := []\<rparr> = a_free y ?a0"
      by (cases a) (simp add: a_free_def a_upd_def)
    ultimately show ?thesis using True det by (simp add: gt_reap_one_stacks Let_def)
  next
    case False
    then show ?thesis using R(1) det by (simp add: gt_reap_one_stacks Let_def)
  qed
  have "chain (nxt (gt_reap_one os y s)) (nxt s y) ys"
  proof (subst chain_frame_eq [where nx = "nxt s"])
    fix x assume "x \<in> set ys"
    then have "x \<noteq> y" using y by auto
    then show "nxt (gt_reap_one os y s) x = nxt s x"
      using R(2) [where p = x] by (simp add: gt_reap_one_stacks nxt_def gt_slot_free_def)
  qed (rule ch)
  from Cons.IH [OF S(1-3) r' this] show ?case
    unfolding z by (subst gt_reap_from.simps) (simp add: nxt_def)
qed

lemma repr_reap:
  assumes r: "repr s a" and c: "switch_ok a"
  shows "\<exists>s'. gt_reap os s = Some s' \<and> repr s' (a_reap a)"
proof -
  have "st a (s_cur a) = GT_STATE_RUNNING" using c by (auto simp: switch_ok_def running_def)
  then have X: "{s_cur a} \<inter> {t. st a t = GT_STATE_DONE} = {}" by simp
  have "repr (s\<lparr>r_zombies := None\<rparr>) (a\<lparr>s_dead := []\<rparr>)"
    using r by (auto simp: repr_def rq_list_def slots_ok_def task_repr_def)
  moreover have "chain (nxt (s\<lparr>r_zombies := None\<rparr>)) (r_zombies s) (s_dead a)"
    using reprD(6) [OF r] by simp
  ultimately show ?thesis
    using repr_reap_from [OF _ refl X] c
    unfolding gt_reap_def a_reap_def switch_ok_def by blast
qed

lemma repr_zombies: "repr s a \<Longrightarrow> r_zombies s = None \<longleftrightarrow> s_dead a = []"
  using reprD(6) [of s a] by (cases "s_dead a") auto

section \<open>Waking the awaiters\<close>

lemma repr_unwait:
  assumes r: "repr s a" and out: "\<And>t. t < s_n a \<Longrightarrow> w \<notin> set (s_wait (s_task a t))"
  shows "repr (upd_task w (\<lambda>x. x\<lparr>t_wnext := v\<rparr>) s) a"
proof (rule reprI)
  let ?s = "upd_task w (\<lambda>x. x\<lparr>t_wnext := v\<rparr>) s"
  have n: "nxt ?s = nxt s" by (rule nxt_upd_same) simp
  have w: "wnx ?s = (wnx s)(w := v)" by (auto simp: wnx_def fun_eq_iff)
  show "rq_list ?s (s_run a)" "chain (nxt ?s) (r_free_slots ?s) (s_free a)"
    "chain (nxt ?s) (r_zombies ?s) (s_dead a)"
    using reprD(4-6) [OF r] by (simp_all add: rq_list_def n)
  show "task_repr ?s (s_cur a) u (s_task a u)" if "u < s_n a" for u
  proof -
    have "chain (wnx ?s) (t_waiters (r_tasks s u)) (s_wait (s_task a u))"
      unfolding w using reprD(9) [OF r that] out [OF that] by (simp add: task_repr_def)
    then show ?thesis using reprD(9) [OF r that] by (auto simp: task_repr_def)
  qed
qed (use reprD [OF r] in \<open>simp_all add: slots_ok_def\<close>)

lemma wnx_unwait: "wnx (upd_task w (\<lambda>x. x\<lparr>t_wnext := v\<rparr>) s) = (wnx s)(w := v)"
  by (auto simp: wnx_def fun_eq_iff)

lemma repr_wake:
  assumes "repr s a" and "chain (wnx s) w ws" and "lists_apart a"
    and "set ws \<subseteq> {..<s_n a}" and "set ws \<inter> set (s_run a @ s_free a @ s_dead a) = {}"
    and "\<And>t. t < s_n a \<Longrightarrow> set (s_wait (s_task a t)) \<inter> set ws = {}"
  shows "\<exists>s'. gt_wake w s = Some s' \<and> repr s' (fold a_push ws a) \<and> r_io s' = r_io s"
  using assms
proof (induction ws arbitrary: w s a)
  case Nil
  then show ?case by (subst gt_wake.simps) simp
next
  case (Cons y ys)
  let ?s1 = "upd_task y (\<lambda>x. x\<lparr>t_wnext := None\<rparr>) s" and ?a1 = "a_push y a"
  have w: "w = Some y" and ch: "chain (wnx s) (wnx s y) ys" using Cons.prems(2) by auto
  have d: "distinct (y # ys)" by (rule chain_distinct [OF Cons.prems(2)])
  have "repr ?s1 a" by (rule repr_unwait [OF Cons.prems(1)]) (use Cons.prems(6) in fastforce)
  then have r: "repr (gt_rq_push y ?s1) ?a1"
    by (rule repr_push) (use Cons.prems(3-5) in auto)
  have c: "chain (wnx (gt_rq_push y ?s1)) (wnx s y) ys"
    using ch d by (simp add: wnx_unwait)
  have "\<exists>s'. gt_wake (wnx s y) (gt_rq_push y ?s1) = Some s' \<and> repr s' (fold a_push ys ?a1) \<and>
      r_io s' = r_io (gt_rq_push y ?s1)"
  proof (rule Cons.IH [OF r c])
    show "lists_apart ?a1" using Cons.prems(3,5) by (auto simp: lists_apart_def a_push_def)
    show "set ys \<subseteq> {..<s_n ?a1}" using Cons.prems(4) by (simp add: a_push_def)
    show "set ys \<inter> set (s_run ?a1 @ s_free ?a1 @ s_dead ?a1) = {}"
      using Cons.prems(5) d by (auto simp: a_push_def)
    show "t < s_n ?a1 \<Longrightarrow> set (s_wait (s_task ?a1 t)) \<inter> set ys = {}" for t
      using Cons.prems(6) [of t] by (auto simp: a_push_def)
  qed
  then show ?case unfolding w by (subst gt_wake.simps) (simp add: wnx_def)
qed

section \<open>Switching\<close>

definition a_switch :: "tptr \<Rightarrow> sched \<Rightarrow> sched" where
  "a_switch t a = (a_upd t (\<lambda>x. x\<lparr>s_state := GT_STATE_RUNNING\<rparr>) a)\<lparr>s_cur := t\<rparr>"

lemma a_dispatch_switch: "a_dispatch t a = a_switch t (a\<lparr>s_run := remove1 t (s_run a)\<rparr>)"
  by (cases a) (simp add: a_dispatch_def a_switch_def a_upd_def)

text \<open>Handing the processor on: the old task's frame saved, another's left as it is.\<close>

lemma repr_hand_over:
  assumes r: "repr s a" and t: "t < s_n a" "t \<noteq> s_cur a" and k: "fr a (s_cur a) = k"
    and s': "s' = upd_task (s_cur a) (\<lambda>x. f x\<lparr>t_sp := k\<rparr>)
      ((upd_task t (\<lambda>x. x\<lparr>t_state := GT_STATE_RUNNING\<rparr>) s)\<lparr>r_current := Some t, tls_usp := u\<rparr>)"
    and f: "\<And>x. t_next (f x) = t_next x \<and> t_wnext (f x) = t_wnext x \<and> t_waiters (f x) = t_waiters x \<and>
      t_state (f x) = t_state x \<and> t_idx (f x) = t_idx x \<and> t_gen (f x) = t_gen x \<and>
      t_njoiners (f x) = t_njoiners x \<and> t_detached (f x) = t_detached x"
  shows "repr s' (a_switch t a)" and "t_sp (r_tasks s' t) = fr a t" and "r_io s' = r_io s"
proof -
  have n: "nxt s' = nxt s" and w: "wnx s' = wnx s"
    unfolding s' using f by (auto simp: nxt_def wnx_def fun_eq_iff)
  show "repr s' (a_switch t a)"
  proof (rule reprI)
    show "task_repr s' (s_cur (a_switch t a)) v (s_task (a_switch t a) v)" if "v < s_n (a_switch t a)" for v
      using reprD(9) [OF r, of v] that f t k w by (auto simp: task_repr_def a_switch_def s')
    show "rq_list s' (s_run (a_switch t a))" "chain (nxt s') (r_free_slots s') (s_free (a_switch t a))"
      "chain (nxt s') (r_zombies s') (s_dead (a_switch t a))"
      using reprD(4-6) [OF r] unfolding n rq_list_def by (simp_all add: a_switch_def s')
  qed (use reprD [OF r] in \<open>simp_all add: a_switch_def s' slots_ok_def\<close>)
  show "t_sp (r_tasks s' t) = fr a t" using reprD(9) [OF r t(1)] t by (simp add: task_repr_def s')
  show "r_io s' = r_io s" by (simp add: s')
qed

lemma repr_switch:
  assumes r: "repr s a" and t: "t < s_n a" and k: "fr a (s_cur a) = k"
  shows "\<exists>s'. repr s' (a_switch t a) \<and> r_io s' = r_io s \<and>
    (if t = s_cur a then gt_switch_to k t s = (AtFrame k, s')
     else gt_switch_to k t s = (AtSwitch, s') \<and> t_sp (r_tasks s' t) = fr a t)"
proof (cases "t = s_cur a")
  case True
  have "a_switch t a = a_upd t (\<lambda>x. x\<lparr>s_state := GT_STATE_RUNNING\<rparr>) a"
    using True by (cases a) (simp add: a_switch_def a_upd_def)
  with repr_state [OF r, of t GT_STATE_RUNNING] reprD(1) [OF r] True show ?thesis
    by (simp add: gt_switch_to_def)
next
  case False
  let ?f = "\<lambda>x. x\<lparr>t_usp := tls_usp s\<rparr>"
  let ?s' = "upd_task (s_cur a) (\<lambda>x. ?f x\<lparr>t_sp := k\<rparr>)
      ((upd_task t (\<lambda>x. x\<lparr>t_state := GT_STATE_RUNNING\<rparr>) s)
       \<lparr>r_current := Some t, tls_usp := t_usp (r_tasks s t)\<rparr>)"
  have "gt_switch_to k t s = (AtSwitch, ?s')"
    using False reprD(1) [OF r] by (simp add: gt_switch_to_def Let_def upd_task_def fun_upd_twist)
  with repr_hand_over [OF r t False k refl, of ?f "t_usp (r_tasks s t)"] False show ?thesis by auto
qed

section \<open>Completions\<close>

text \<open>What a backend does with one finished operation: its result, then its task made ready.\<close>

definition gt_complete :: "tptr \<times> int \<Rightarrow> ('t, 'r) gt_runtime \<Rightarrow> ('t, 'r) gt_runtime" where
  "gt_complete c s =
     (let s1 = gt_rq_push (fst c) (upd_task (fst c) (\<lambda>x. x\<lparr>t_io_res := snd c\<rparr>) s)
      in s1\<lparr>r_inflight := r_inflight s1 - 1\<rparr>)"

lemma repr_inflight:
  assumes "repr s a" and "i = of_nat n"
  shows "repr (s\<lparr>r_inflight := i\<rparr>) (a\<lparr>s_inflight := n\<rparr>)"
  using assms by (auto simp: repr_def rq_list_def slots_ok_def task_repr_def)

lemma repr_complete:
  assumes r: "repr s a" and c: "core X a" and t: "fst c \<in> parked a"
  shows "repr (gt_complete c s) (a_complete (fst c) a)" and "r_io (gt_complete c s) = r_io s"
    and "parked (a_complete (fst c) a) = parked a - {fst c}"
proof -
  obtain p res where p: "c = (p, res)" by (cases c)
  let ?s0 = "upd_task p (\<lambda>x. x\<lparr>t_io_res := res\<rparr>) s"
  have q: "queues_ok a" using coreD(1) [OF c] .
  have pn: "p < s_n a" "st a p = GT_STATE_WAITING" using t p by (auto simp: parked_def)
  have r0: "repr ?s0 a" by (rule repr_stack_free_upd [OF r]) simp_all
  have rp: "repr (gt_rq_push p ?s0) (a_push p a)"
    by (rule repr_push [OF r0 queues_apart [OF q]]) (use pn q in \<open>auto simp: queues_ok_def\<close>)
  have "0 < s_inflight a"
    using coreD(4) [OF c] t p by (auto simp: counts_ok_def card_gt_0_iff)
  then have i: "of_nat (s_inflight a) - 1 = (of_nat (s_inflight a - 1) :: u32)" by (rule of_nat_minus_1)
  have eq: "a_complete p a = (a_push p a)\<lparr>s_inflight := s_inflight a - 1\<rparr>"
    by (cases a) (simp add: a_complete_def a_push_def a_upd_def)
  have gc: "gt_complete c s = (gt_rq_push p ?s0)\<lparr>r_inflight := r_inflight s - 1\<rparr>"
    by (simp add: gt_complete_def p Let_def)
  show "repr (gt_complete c s) (a_complete (fst c) a)"
    unfolding gc unfolding p fst_conv eq
    by (rule repr_inflight [OF rp]) (use reprD(8) [OF r] i in simp)
  show "r_io (gt_complete c s) = r_io s" by (simp add: gc)
  show "parked (a_complete (fst c) a) = parked a - {fst c}"
    using pn by (auto simp: p parked_def a_complete_def a_push_def)
qed

section \<open>The backend's contract\<close>

text \<open>
  What the scheduler relies on: a poll completes operations that are outstanding, each once, and
  touches nothing else; submitting an operation makes it outstanding. \<^verbatim>\<open>out\<close> reads the tasks
  with an operation outstanding off the backend's own part of the runtime, \<^verbatim>\<open>ok\<close> is the
  invariant of that part.
\<close>

definition completes ::
  "('r \<Rightarrow> tptr set) \<Rightarrow> ('r \<Rightarrow> bool) \<Rightarrow> ('t, 'r) gt_runtime \<Rightarrow> ('t, 'r) gt_runtime \<Rightarrow> bool" where
  "completes out ok s s' \<longleftrightarrow>
     (\<exists>ds io. distinct (map fst ds) \<and> set (map fst ds) \<subseteq> out (r_io s) \<and>
        s' = (fold gt_complete ds s)\<lparr>r_io := io\<rparr> \<and> ok io \<and> out io = out (r_io s) - set (map fst ds))"

locale gt_backend =
  fixes out :: "'r \<Rightarrow> tptr set" and ok :: "'r \<Rightarrow> bool"
    and poll :: "('t, 'r) gt_poll" and poll_until :: "('t, 'r) gt_poll_until"
    and submit :: "tptr \<Rightarrow> 'r \<Rightarrow> 'r \<Rightarrow> bool"
    and teardown :: "('t, 'r) gt_runtime \<Rightarrow> ('t, 'r) gt_runtime"
  assumes poll: "ok (r_io s) \<Longrightarrow> poll b s = Some s' \<Longrightarrow> completes out ok s s'"
    and poll_until: "ok (r_io s) \<Longrightarrow> poll_until c d s = Some s' \<Longrightarrow> completes out ok s s'"
    and submit: "ok io \<Longrightarrow> t \<notin> out io \<Longrightarrow> submit t io io' \<Longrightarrow> ok io' \<and> out io' = insert t (out io)"
    and teardown: "ok (r_io s) \<Longrightarrow> out (r_io s) = {} \<Longrightarrow> r_inflight s = 0 \<Longrightarrow>
      \<exists>io. teardown s = s\<lparr>r_io := io\<rparr> \<and> ok io \<and> out io = {}"

section \<open>Completions and the abstract scheduler\<close>

definition evolves :: "sched \<Rightarrow> sched \<Rightarrow> bool" where
  "evolves a b \<longleftrightarrow> (\<exists>ps. distinct ps \<and> set ps \<subseteq> parked a \<and> b = fold a_complete ps a)"

lemma a_complete_fold:
  "s_run (fold a_complete ps a) = s_run a @ ps" "s_n (fold a_complete ps a) = s_n a"
  "s_cur (fold a_complete ps a) = s_cur a" "s_dead (fold a_complete ps a) = s_dead a"
  "s_free (fold a_complete ps a) = s_free a"
  "s_task (fold a_complete ps a) t =
     (if t \<in> set ps then (s_task a t)\<lparr>s_state := GT_STATE_READY\<rparr> else s_task a t)"
  by (induction ps arbitrary: a) (auto simp: a_complete_def a_push_def)

lemma parked_complete: "set ps \<subseteq> parked a \<Longrightarrow> parked (fold a_complete ps a) = parked a - set ps"
  by (auto simp: parked_def a_complete_fold split: if_splits)

lemma running_complete: "set ps \<subseteq> parked a \<Longrightarrow> running (fold a_complete ps a) = running a"
  by (auto simp: parked_def running_def a_complete_fold split: if_splits)

lemma core_complete_fold:
  "core X a \<Longrightarrow> distinct ps \<Longrightarrow> set ps \<subseteq> parked a \<Longrightarrow> X \<inter> parked a = {} \<Longrightarrow> core X (fold a_complete ps a)"
proof (induction ps arbitrary: a)
  case Nil
  then show ?case by simp
next
  case (Cons p ps)
  have p: "p < s_n a" "st a p = GT_STATE_WAITING" "p \<notin> X" using Cons.prems by (auto simp: parked_def)
  have pk: "parked (a_complete p a) = parked a - {p}"
    using parked_complete [of "[p]" a] Cons.prems by simp
  show ?case
    using Cons.IH [OF core_complete [OF Cons.prems(1) p]] Cons.prems by (auto simp: pk)
qed

lemma evolves_refl [simp]: "evolves a a"
  by (auto simp: evolves_def intro: exI [of _ "[]"])

lemma evolves_trans: "evolves a b \<Longrightarrow> evolves b c \<Longrightarrow> evolves a c"
proof -
  assume "evolves a b" "evolves b c"
  then obtain ps qs where "distinct ps" "set ps \<subseteq> parked a" "b = fold a_complete ps a"
    "distinct qs" "set qs \<subseteq> parked b" "c = fold a_complete qs b" by (auto simp: evolves_def)
  then show "evolves a c"
    by (auto simp: evolves_def parked_complete intro!: exI [of _ "ps @ qs"])
qed

lemma evolvesD:
  assumes "evolves a b"
  shows "core X a \<Longrightarrow> X \<inter> parked a = {} \<Longrightarrow> core X b" and "running b = running a" and "s_cur b = s_cur a"
    and "s_n b = s_n a" and "s_dead b = s_dead a" and "s_frame (s_task b t) = s_frame (s_task a t)"
    and "\<exists>ps. s_run b = s_run a @ ps" and "parked b \<subseteq> parked a"
    and "st a t \<noteq> GT_STATE_WAITING \<Longrightarrow> s_task b t = s_task a t"
  using assms unfolding evolves_def
  by (auto simp: core_complete_fold running_complete parked_complete a_complete_fold) (auto simp: parked_def)

text \<open>The scheduler's state, the backend's part included.\<close>

definition rep ::
  "('r \<Rightarrow> tptr set) \<Rightarrow> ('r \<Rightarrow> bool) \<Rightarrow> ('t, 'r) gt_runtime \<Rightarrow> sched \<Rightarrow> bool" where
  "rep out ok s a \<longleftrightarrow> repr s a \<and> ok (r_io s) \<and> out (r_io s) = parked a"

lemma repD:
  assumes "rep out ok s a"
  shows "repr s a" "ok (r_io s)" "out (r_io s) = parked a"
  using assms by (simp_all add: rep_def)

lemma rep_step:
  "rep out ok s a \<Longrightarrow> repr s' a' \<Longrightarrow> r_io s' = r_io s \<Longrightarrow> parked a' = parked a \<Longrightarrow> rep out ok s' a'"
  by (simp add: rep_def)

lemma completes_rep_fold:
  assumes "repr s a" "core X a" "X \<inter> parked a = {}" "distinct (map fst ds)" "set (map fst ds) \<subseteq> parked a"
  shows "repr (fold gt_complete ds s) (fold a_complete (map fst ds) a) \<and>
    r_io (fold gt_complete ds s) = r_io s"
  using assms
proof (induction ds arbitrary: s a)
  case Nil
  then show ?case by simp
next
  case (Cons d ds)
  have d: "fst d \<in> parked a" using Cons.prems by simp
  note R = repr_complete [OF Cons.prems(1,2) d]
  have c: "core X (a_complete (fst d) a)"
    by (rule core_complete) (use Cons.prems d in \<open>auto simp: parked_def\<close>)
  have "X \<inter> parked (a_complete (fst d) a) = {}" "distinct (map fst ds)"
    "set (map fst ds) \<subseteq> parked (a_complete (fst d) a)"
    using Cons.prems R(3) by (auto simp: image_iff)
  from Cons.IH [OF R(1) c this] R(2) show ?case by simp
qed

lemma completes_rep:
  assumes r: "rep out ok s a" and c: "core X a" "X \<inter> parked a = {}" and s': "completes out ok s s'"
  shows "\<exists>b. rep out ok s' b \<and> evolves a b"
proof -
  obtain ds io where d: "distinct (map fst ds)" "set (map fst ds) \<subseteq> parked a"
    "s' = (fold gt_complete ds s)\<lparr>r_io := io\<rparr>" "ok io" "out io = parked a - set (map fst ds)"
    using s' repD(3) [OF r] unfolding completes_def by auto
  have "repr (fold gt_complete ds s) (fold a_complete (map fst ds) a)"
    using completes_rep_fold [OF repD(1) [OF r] c d(1,2)] by blast
  then have "rep out ok s' (fold a_complete (map fst ds) a)"
    using d parked_complete [OF d(2)] by (simp add: rep_def)
  moreover have "evolves a (fold a_complete (map fst ds) a)" using d(1,2) unfolding evolves_def by blast
  ultimately show ?thesis by blast
qed

lemma inflight_zero:
  assumes "repr s a" and "core X a"
  shows "r_inflight s = 0 \<longleftrightarrow> s_inflight a = 0" and "s_inflight a = 0 \<longleftrightarrow> parked a = {}"
proof -
  have i: "s_inflight a = card (parked a)" and n: "s_n a \<le> 2 ^ 19"
    using coreD(4) [OF assms(2)] by (auto simp: counts_ok_def)
  have "card (parked a) \<le> s_n a" unfolding parked_def by (rule card_filter_bounded)
  then have "s_inflight a < 2 ^ LENGTH(32)" using i n by simp
  then show "r_inflight s = 0 \<longleftrightarrow> s_inflight a = 0"
    using reprD(8) [OF assms(1)] of_nat_eq_0 [where 'a = 32] by simp
  show "s_inflight a = 0 \<longleftrightarrow> parked a = {}" by (simp add: i)
qed

context gt_backend
begin

text \<open>A poll, if it is made at all: operations complete, and that is all.\<close>

lemma polled:
  assumes r: "rep out ok s a" and c: "core X a" "X \<inter> parked a = {}"
    and p: "(if r_inflight s \<noteq> 0 then poll b s else Some s) = Some s'"
  shows "\<exists>b. rep out ok s' b \<and> evolves a b"
proof (cases "r_inflight s = 0")
  case True
  with r p show ?thesis by (auto intro: exI [of _ a])
next
  case False
  with p have "poll b s = Some s'" by simp
  then show ?thesis using completes_rep [OF r c poll] repD(2) [OF r] by blast
qed

text \<open>What a pick leaves: operations completed, and the head of the queue taken off, if any.\<close>

definition pick_post :: "sched \<Rightarrow> tptr option \<times> ('t, 'r) gt_runtime \<Rightarrow> bool" where
  "pick_post a y \<longleftrightarrow> (\<exists>b. evolves a b \<and>
     (case fst y of
        None \<Rightarrow> rep out ok (snd y) b \<and> s_run b = [] \<and> s_inflight b = 0
      | Some t \<Rightarrow> (\<exists>ts. s_run b = t # ts \<and> rep out ok (snd y) (b\<lparr>s_run := ts\<rparr>))))"

lemma pick_post_evolves: "evolves a b \<Longrightarrow> pick_post b y \<Longrightarrow> pick_post a y"
  unfolding pick_post_def by (blast intro: evolves_trans)

lemma popped:
  assumes r: "rep out ok s a" and c: "core X a"
  shows "s_run a = [] \<Longrightarrow> gt_rq_pop s = (None, s)"
    and "s_run a = t # ts \<Longrightarrow> \<exists>s'. gt_rq_pop s = (Some t, s') \<and> rep out ok s' (a\<lparr>s_run := ts\<rparr>)"
proof -
  note P = repr_pop [OF repD(1) [OF r] queues_apart [OF coreD(1) [OF c]]]
  show "s_run a = [] \<Longrightarrow> gt_rq_pop s = (None, s)" by (rule P(1))
  assume "s_run a = t # ts"
  from P(2) [OF this] obtain s' where "gt_rq_pop s = (Some t, s')" "repr s' (a\<lparr>s_run := ts\<rparr>)" "rq_frame {t} s s'"
    by blast
  moreover then have "rep out ok s' (a\<lparr>s_run := ts\<rparr>)"
    by (intro rep_step [OF r]) (simp_all add: rq_frame_fields parked_def)
  ultimately show "\<exists>s'. gt_rq_pop s = (Some t, s') \<and> rep out ok s' (a\<lparr>s_run := ts\<rparr>)" by blast
qed

lemma picked:
  assumes "gt_pick poll s = Some y" and "rep out ok s a" and "core {} a"
  shows "pick_post a y"
proof -
  have "p = poll \<longrightarrow> (\<forall>a. rep out ok s a \<longrightarrow> core {} a \<longrightarrow> pick_post a y)" if "gt_pick p s = Some y" for p s y
    using that
  proof (rule gt_pick.raw_induct [rotated])
    fix pick :: "('t, 'r) gt_poll \<Rightarrow> ('t, 'r) gt_runtime \<Rightarrow> (tptr option \<times> ('t, 'r) gt_runtime) option"
      and q s y
    assume IH: "\<And>p s y. pick p s = Some y \<Longrightarrow>
        p = poll \<longrightarrow> (\<forall>a. rep out ok s a \<longrightarrow> core {} a \<longrightarrow> pick_post a y)"
      and body: "do {
        s1 \<leftarrow> (if r_inflight s \<noteq> 0 then q False s else Some s);
        (case gt_rq_pop s1 of
          (None, s2) \<Rightarrow> if r_inflight s2 \<noteq> 0 then q True s2 \<bind> pick q else Some (None, s2)
        | (Some t, s2) \<Rightarrow> Some (Some t, s2)) } = Some y"
    show "q = poll \<longrightarrow> (\<forall>a. rep out ok s a \<longrightarrow> core {} a \<longrightarrow> pick_post a y)"
    proof (intro impI allI)
      fix a assume q: "q = poll" and r: "rep out ok s a" and c: "core {} a"
      from body obtain s1 where s1: "(if r_inflight s \<noteq> 0 then poll False s else Some s) = Some s1"
        and rest: "(case gt_rq_pop s1 of
          (None, s2) \<Rightarrow> if r_inflight s2 \<noteq> 0 then poll True s2 \<bind> pick poll else Some (None, s2)
        | (Some t, s2) \<Rightarrow> Some (Some t, s2)) = Some y"
        unfolding q by (auto simp: bind_eq_Some_conv)
      obtain b where rb: "rep out ok s1 b" and ev: "evolves a b" using polled [OF r c _ s1] by auto
      have cb: "core {} b" using evolvesD(1) [OF ev c] by simp
      show "pick_post a y"
      proof (cases "s_run b")
        case (Cons t ts)
        from popped(2) [OF rb cb Cons] rest obtain s' where
          "y = (Some t, s')" "rep out ok s' (b\<lparr>s_run := ts\<rparr>)" by auto
        with ev Cons show ?thesis unfolding pick_post_def by (intro exI [of _ b]) simp
      next
        case Nil
        note pop = popped(1) [OF rb cb Nil]
        show ?thesis
        proof (cases "r_inflight s1 = 0")
          case True
          then have "s_inflight b = 0" using inflight_zero [OF repD(1) [OF rb] cb] by simp
          moreover have "y = (None, s1)" using pop rest True by simp
          ultimately show ?thesis using Nil rb ev unfolding pick_post_def by (intro exI [of _ b]) simp
        next
          case False
          with pop rest obtain s2 where s2: "poll True s1 = Some s2" "pick poll s2 = Some y"
            by (auto simp: bind_eq_Some_conv)
          obtain d where "rep out ok s2 d" and "evolves b d"
            using completes_rep [OF rb cb _ poll [OF repD(2) [OF rb] s2(1)]] by auto
          then have "pick_post d y" using IH [OF s2(2)] evolvesD(1) [OF _ cb] by auto
          with \<open>evolves b d\<close> ev show ?thesis by (blast intro: pick_post_evolves)
        qed
      qed
    qed
  qed
  with assms show ?thesis by blast
qed

end

section \<open>The invariant of a configuration\<close>

fun phase_ok :: "gt_phase \<Rightarrow> ('t, 'r) gt_runtime \<Rightarrow> sched \<Rightarrow> bool" where
  "phase_ok (InBody r) s a \<longleftrightarrow> body_ok a"
| "phase_ok (AtLock r) s a \<longleftrightarrow> body_ok a"
| "phase_ok (AtCond c) s a \<longleftrightarrow> body_ok a"
| "phase_ok AtDrain s a \<longleftrightarrow> body_ok a"
| "phase_ok AtSwitch s a \<longleftrightarrow> switch_ok a \<and> t_sp (r_tasks s (s_cur a)) = fr a (s_cur a)"
| "phase_ok (AtFrame k) s a \<longleftrightarrow> switch_ok a \<and> s_dead a = [] \<and> fr a (s_cur a) = k"
| "phase_ok (Panicked (PDeadlock i)) s a \<longleftrightarrow> idle_ok a \<and> s_run a = [] \<and> s_inflight a = 0"
| "phase_ok (Panicked (PFinished i)) s a \<longleftrightarrow> idle_ok a \<and> s_run a = [] \<and> s_inflight a = 0"
| "phase_ok _ s a \<longleftrightarrow> False"

definition conf_ok :: "('r \<Rightarrow> tptr set) \<Rightarrow> ('r \<Rightarrow> bool) \<Rightarrow> ('t, 'r) gt_conf \<Rightarrow> bool" where
  "conf_ok out ok c \<longleftrightarrow> (\<exists>a. rep out ok (snd c) a \<and> phase_ok (fst c) (snd c) a)"

lemma conf_okI: "rep out ok s a \<Longrightarrow> phase_ok p s a \<Longrightarrow> conf_ok out ok (p, s)"
  by (auto simp: conf_ok_def)

text \<open>The running task, with the place it will carry on from once it is switched back to.\<close>

lemma core_frame:
  assumes c: "body_ok a" and k: "k \<notin> {FNull, FEnded}" "\<And>t. k \<noteq> FAwait t"
  shows "switch_ok (a_upd (s_cur a) (\<lambda>x. x\<lparr>s_frame := k\<rparr>) a)"
proof -
  let ?d = "s_cur a" and ?b = "a_upd (s_cur a) (\<lambda>x. x\<lparr>s_frame := k\<rparr>) a"
  have core: "core {} a" and d: "?d < s_n a" "st a ?d = GT_STATE_RUNNING"
    using c by (auto simp: body_ok_def running_def)
  have nd: "?d \<notin> susp {} a" using d by (simp add: susp_def)
  have same: "st ?b u = st a u" "s_gen (s_task ?b u) = s_gen (s_task a u)"
    "s_wait (s_task ?b u) = s_wait (s_task a u)" "s_join (s_task ?b u) = s_join (s_task a u)"
    "s_det (s_task ?b u) = s_det (s_task a u)" "fr ?b u = (if u = ?d then k else fr a u)" for u
    by simp_all
  have susp: "susp {?d} ?b = insert ?d (susp {} a)" unfolding susp_def same by simp
  have pend: "pending {?d} ?b u = pending {} a u" for u
    unfolding pending_def susp same using nd k by auto
  have sets: "live_set ?b = live_set a" "parked ?b = parked a" "running ?b = running a"
    unfolding live_set_def parked_def running_def same by simp_all
  have "queues_ok ?b" using coreD(1) [OF core] unfolding queues_ok_def same by simp
  moreover have "wait_ok ?b"
    by (rule wait_ok_cong [OF coreD(2) [OF core]])
      (use d in \<open>auto simp: wait_okD(3,4) [OF coreD(2) [OF core]]\<close>)
  moreover have "frames_ok {?d} ?b"
  proof (rule frames_okI)
    fix w assume "w \<in> susp {?d} ?b"
    then consider "w = ?d" | "w \<noteq> ?d" "w \<in> susp {} a" unfolding susp by auto
    then show "frame_ok ?b w"
    proof cases
      case 1
      then show ?thesis using k unfolding frame_ok_def same by simp
    next
      case 2
      then show ?thesis using frames_okD(1) [OF coreD(3) [OF core] 2(2)] unfolding frame_ok_def same by simp
    qed
  next
    fix w assume "w < s_n ?b" "st ?b w = GT_STATE_WAITING"
    then show "fr ?b w = FIoWait"
      using frames_okD(2) [OF coreD(3) [OF core], of w] d unfolding same by auto
  qed
  moreover have "counts_ok {?d} ?b"
    using coreD(4) [OF core] unfolding counts_ok_def pend sets same by simp
  ultimately show ?thesis using c d sets
    by (simp add: switch_ok_def body_ok_def core_def)
qed

lemma conf_at_frame:
  assumes r: "rep out ok s a" and c: "body_ok a" and k: "k \<notin> {FNull, FEnded}" "\<And>t. k \<noteq> FAwait t"
  shows "conf_ok out ok (AtFrame k, s)"
proof (rule conf_okI)
  show "rep out ok s (a_upd (s_cur a) (\<lambda>x. x\<lparr>s_frame := k\<rparr>) a)"
    by (rule rep_step [OF r repr_frame [OF repD(1) [OF r]]]) (auto simp: parked_def)
  show "phase_ok (AtFrame k) s (a_upd (s_cur a) (\<lambda>x. x\<lparr>s_frame := k\<rparr>) a)"
    using core_frame [OF c k] c by (simp add: body_ok_def)
qed

lemma parked_dispatch: "st a t \<noteq> GT_STATE_WAITING \<Longrightarrow> parked (a_dispatch t a) = parked a"
  by (auto simp: parked_def a_dispatch_def)

lemma conf_switch:
  assumes r: "rep out ok s (b\<lparr>s_run := remove1 t (s_run b)\<rparr>)" and c: "core {} b" and i: "running b = {}"
    and t: "t \<in> set (s_run b)" and k: "fr b (s_cur b) = k" and dead: "s_dead b = []"
  shows "conf_ok out ok (gt_switch_to k t s)"
proof -
  let ?b = "b\<lparr>s_run := remove1 t (s_run b)\<rparr>"
  have tn: "t < s_n b" "st b t = GT_STATE_READY" using coreD(1) [OF c] t by (auto simp: queues_ok_def)
  have "t < s_n ?b" "fr ?b (s_cur ?b) = k" using tn k by simp_all
  from repr_switch [OF repD(1) [OF r] this] obtain s' where s0: "repr s' (a_switch t ?b)" "r_io s' = r_io s"
    "if t = s_cur ?b then gt_switch_to k t s = (AtFrame k, s')
     else gt_switch_to k t s = (AtSwitch, s') \<and> t_sp (r_tasks s' t) = fr ?b t" by blast
  have s': "repr s' (a_dispatch t b)" "r_io s' = r_io s"
    "if t = s_cur b then gt_switch_to k t s = (AtFrame k, s')
     else gt_switch_to k t s = (AtSwitch, s') \<and> t_sp (r_tasks s' t) = fr b t"
    using s0 by (auto simp: a_dispatch_switch split: if_splits)
  have rep: "rep out ok s' (a_dispatch t b)"
    by (rule rep_step [OF r s'(1,2)]) (use tn in \<open>simp add: parked_dispatch\<close>, simp add: parked_def)
  note D = core_dispatch [OF c i t]
  have sw: "switch_ok (a_dispatch t b)" using D by (simp add: switch_ok_def)
  have f: "fr (a_dispatch t b) t = fr b t" "s_dead (a_dispatch t b) = []" "s_cur (a_dispatch t b) = t"
    using dead by (simp_all add: a_dispatch_def)
  show ?thesis
    using s'(3) rep sw f k by (cases "t = s_cur b") (auto intro!: conf_okI)
qed

section \<open>Blocking\<close>

context gt_backend
begin

lemma blocked:
  assumes b: "gt_block poll state k s = Some c" and cur: "r_current s = Some self"
    and r: "rep out ok (upd_task self (\<lambda>x. x\<lparr>t_state := state\<rparr>) s) a" and a: "core {} a" "running a = {}"
    and k: "fr a (s_cur a) = k" "s_dead a = []"
  shows "conf_ok out ok c"
proof -
  obtain n s1 where p: "gt_pick poll (upd_task self (\<lambda>x. x\<lparr>t_state := state\<rparr>) s) = Some (n, s1)"
    and c: "c = (case n of None \<Rightarrow> (Panicked (PDeadlock (t_idx (r_tasks s1 self))), s1)
      | Some t \<Rightarrow> gt_switch_to k t s1)"
    using b cur by (auto simp: gt_block_def bind_eq_Some_conv split: option.splits)
  obtain b where ev: "evolves a b" and
    post: "case n of None \<Rightarrow> rep out ok s1 b \<and> s_run b = [] \<and> s_inflight b = 0
      | Some t \<Rightarrow> (\<exists>ts. s_run b = t # ts \<and> rep out ok s1 (b\<lparr>s_run := ts\<rparr>))"
    using picked [OF p r a(1)] unfolding pick_post_def fst_conv snd_conv by blast
  have cb: "core {} b" "running b = {}" "fr b (s_cur b) = k" "s_dead b = []"
    using evolvesD [OF ev] a k by simp_all
  show ?thesis
  proof (cases n)
    case None
    then show ?thesis using post c cb by (auto intro!: conf_okI simp: idle_ok_def)
  next
    case (Some t)
    then obtain ts where "s_run b = t # ts" "rep out ok s1 (b\<lparr>s_run := ts\<rparr>)" using post by auto
    then show ?thesis using Some c conf_switch [OF _ cb(1,2) _ cb(3,4), of out ok s1 t] by simp
  qed
qed

end

section \<open>Spawning\<close>

lemma slots_room:
  assumes "slots_ok s"
  shows "gt_slot_grow os s = Some s1 \<Longrightarrow> slots_ok (s1\<lparr>r_nslots := Suc (r_nslots s)\<rparr>) \<and> r_nslots s < 2 ^ 19 \<and>
      (\<exists>n. s1 = s\<lparr>r_cslots := n\<rparr>) \<and> slots_ok s1"
proof -
  assume g: "gt_slot_grow os s = Some s1"
  have m: "unat GT_IDX_MASK = 2 ^ 20 - 1" by (simp add: gt_consts)
  show ?thesis
  proof (cases "r_nslots s = r_cslots s")
    case False
    then have "s1 = s" using g by (simp add: gt_slot_grow_def)
    moreover have "r_nslots s < r_cslots s" using False assms by (simp add: slots_ok_def)
    moreover obtain k where "k \<le> 13" "r_cslots s = 2 ^ (6 + k)"
      using assms \<open>r_nslots s < r_cslots s\<close> by (auto simp: slots_ok_def)
    moreover have "(2::nat) ^ (6 + k) \<le> 2 ^ 19" using \<open>k \<le> 13\<close> by (intro power_increasing) auto
    ultimately show ?thesis using assms by (auto simp: slots_ok_def intro: exI [of _ "r_cslots s"])
  next
    case True
    show ?thesis
    proof (cases "r_cslots s = 0")
      case c0: True
      have "s1 = s\<lparr>r_cslots := 64\<rparr>" using g True c0 m by (auto simp: gt_slot_grow_def Let_def split: if_splits)
      then show ?thesis using True c0
        by (auto simp: slots_ok_def intro: exI [of _ "64::nat"] exI [of _ "0::nat"])
    next
      case False
      then obtain k where k: "k \<le> 13" "r_cslots s = 2 ^ (6 + k)" using assms by (auto simp: slots_ok_def)
      have s1: "s1 = s\<lparr>r_cslots := r_cslots s * 2\<rparr>" and lim: "r_cslots s * 2 \<le> 2 ^ 20 - 1"
        using g True False m by (auto simp: gt_slot_grow_def Let_def split: if_splits)
      have "k \<noteq> 13"
      proof
        assume "k = 13"
        then have "r_cslots s * 2 = 2 ^ 20" using k by simp
        then show False using lim by simp
      qed
      then have k1: "Suc k \<le> 13" using k by simp
      have c2: "r_cslots s * 2 = 2 ^ (6 + Suc k)" unfolding k by (simp only: add_Suc_right power_Suc mult.commute)
      have "(2::nat) ^ (6 + Suc k) \<le> 2 ^ 19" using k1 by (intro power_increasing) auto
      then have "r_cslots s < 2 ^ 19" using c2 False by linarith
      moreover have "\<exists>n. s1 = s\<lparr>r_cslots := n\<rparr>" using s1 by blast
      moreover have "\<exists>k\<le>13. r_cslots s * 2 = 2 ^ (6 + k)" using c2 k1 by blast
      ultimately show ?thesis using s1 True False by (auto simp: slots_ok_def)
    qed
  qed
qed

lemma repr_alloc_None:
  assumes r: "repr s a" and g: "gt_slot_alloc os io0 s = (None, s1)"
  shows "repr s1 a \<and> r_io s1 = r_io s"
proof -
  have "s1 = s \<or> gt_slot_grow os s = Some s1"
    using g by (auto simp: gt_slot_alloc_def Let_def split: option.splits if_splits)
  then show ?thesis
  proof
    assume "gt_slot_grow os s = Some s1"
    with slots_room [OF reprD(3) [OF r] this] r show ?thesis
      by (auto simp: repr_def rq_list_def task_repr_def nxt_def wnx_def slots_ok_def)
  qed (use r in auto)
qed

lemma repr_alloc_Some:
  assumes r: "repr s a" and c: "body_ok a" and g: "gt_slot_alloc os io0 s = (Some t, s1)"
  shows "fst (a_alloc a) = t" and "repr s1 (snd (a_alloc a))" and "r_io s1 = r_io s"
    and "s_free a = [] \<Longrightarrow> s_n a < 2 ^ 19" and "t < s_n (snd (a_alloc a))" and "t_next (r_tasks s1 t) = None"
proof -
  have core: "core {} a" and q: "queues_ok a" and cur: "s_cur a < s_n a" "st a (s_cur a) = GT_STATE_RUNNING"
    using c by (auto simp: body_ok_def core_def running_def)
  have gens: "u < s_n a \<Longrightarrow> 1 \<le> s_gen (s_task a u) \<and> s_gen (s_task a u) < 2048" for u
    using coreD(4) [OF core] by (simp add: counts_ok_def)
  have "fst (a_alloc a) = t \<and> repr s1 (snd (a_alloc a)) \<and> r_io s1 = r_io s \<and>
    (s_free a = [] \<longrightarrow> s_n a < 2 ^ 19) \<and> t < s_n (snd (a_alloc a)) \<and> t_next (r_tasks s1 t) = None"
  proof (cases "s_free a")
    case (Cons u us)
    have u: "u < s_n a" "st a u = GT_STATE_FREE"
    proof -
      have "u \<in> set (s_free a)" using Cons by simp
      then show "u < s_n a" "st a u = GT_STATE_FREE" using q by (auto simp: queues_ok_def)
    qed
    then have uc: "u \<noteq> s_cur a" using cur by auto
    have h: "r_free_slots s = Some u" and ch: "chain (nxt s) (nxt s u) us"
      using reprD(5) [OF r] Cons by auto
    have ap: "u \<notin> set us" "u \<notin> set (s_run a)" "u \<notin> set (s_dead a)"
      using queues_apart [OF q] Cons by (auto simp: lists_apart_def)
    have g1: "t_gen (r_tasks s u) \<noteq> 0"
      using reprD(9) [OF r u(1)] gens [OF u(1)] of_nat_eq_0 [of "s_gen (s_task a u)", where 'a = 32]
      by (auto simp: task_repr_def)
    let ?x = "(zero_task io0)\<lparr>t_idx := t_idx (r_tasks s u), t_gen := t_gen (r_tasks s u)\<rparr>"
    have s1: "s1 = (upd_task u (\<lambda>_. ?x) s)\<lparr>r_free_slots := nxt s u, r_live := r_live s + 1\<rparr>" and tu: "t = u"
      using g h g1 by (auto simp: gt_slot_alloc_def Let_def nxt_def)
    have nx: "nxt s1 = (nxt s)(u := None)" and wn: "wnx s1 = (wnx s)(u := None)"
      by (auto simp: s1 nxt_def wnx_def zero_task_def fun_eq_iff)
    have uw: "u \<notin> set (s_wait (s_task a v))" if "v < s_n a" for v
      using wait_okD(2) [OF coreD(2) [OF core] that] u by (auto simp: awaiting_def)
    have ab: "snd (a_alloc a) = (a_upd u (\<lambda>x. new_atask (s_gen x)) a)\<lparr>s_free := us, s_live := Suc (s_live a)\<rparr>"
      using Cons by (simp add: a_alloc_def)
    have "repr s1 (snd (a_alloc a))" unfolding ab
    proof (rule reprI)
      show "task_repr s1 (s_cur (a_upd u (\<lambda>x. new_atask (s_gen x)) a\<lparr>s_free := us, s_live := Suc (s_live a)\<rparr>)) v
          (s_task (a_upd u (\<lambda>x. new_atask (s_gen x)) a\<lparr>s_free := us, s_live := Suc (s_live a)\<rparr>) v)"
        if "v < s_n (a_upd u (\<lambda>x. new_atask (s_gen x)) a\<lparr>s_free := us, s_live := Suc (s_live a)\<rparr>)" for v
      proof (cases "v = u")
        case True
        then show ?thesis using reprD(9) [OF r u(1)] u uc
          by (simp add: task_repr_def s1 zero_task_def new_atask_def)
      next
        case False
        have vn: "v < s_n a" using that by simp
        have "chain (wnx s1) (t_waiters (r_tasks s v)) (s_wait (s_task a v))"
          unfolding wn using reprD(9) [OF r vn] uw [OF vn] by (simp add: task_repr_def)
        then show ?thesis using reprD(9) [OF r vn] False by (simp add: task_repr_def s1)
      qed
      show "rq_list s1 (s_run (a_upd u (\<lambda>x. new_atask (s_gen x)) a\<lparr>s_free := us, s_live := Suc (s_live a)\<rparr>))"
        using reprD(4) [OF r] ap by (simp add: rq_list_def nx) (simp add: s1)
    qed (use reprD [OF r] ap ch in \<open>simp_all add: nx\<close>, simp_all add: s1 slots_ok_def)
    then show ?thesis using Cons tu u by (simp add: ab a_alloc_def s1 zero_task_def)
  next
    case Nil
    then have h: "r_free_slots s = None" using reprD(5) [OF r] by simp
    obtain s0 where s0: "gt_slot_grow os s = Some s0"
      using g h by (auto simp: gt_slot_alloc_def split: option.splits)
    from slots_room [OF reprD(3) [OF r] s0] obtain n where
      n: "s0 = s\<lparr>r_cslots := n\<rparr>" "slots_ok (s0\<lparr>r_nslots := Suc (r_nslots s)\<rparr>)" "r_nslots s < 2 ^ 19" by blast
    have ns: "r_nslots s = s_n a" using reprD(2) [OF r] .
    let ?x = "(zero_task io0)\<lparr>t_idx := of_nat (s_n a), t_gen := 1\<rparr>"
    have s1: "s1 = (upd_task (s_n a) (\<lambda>_. ?x) s0)\<lparr>r_nslots := Suc (s_n a), r_live := r_live s + 1\<rparr>"
      and t: "t = s_n a"
      using g h s0 n(1) ns by (auto simp: gt_slot_alloc_def Let_def split: if_splits)
    have nx: "nxt s1 = (nxt s)(s_n a := None)" and wn: "wnx s1 = (wnx s)(s_n a := None)"
      by (auto simp: s1 n(1) nxt_def wnx_def zero_task_def fun_eq_iff)
    have fresh: "s_n a \<notin> set (s_run a)" "s_n a \<notin> set (s_free a)" "s_n a \<notin> set (s_dead a)"
      using q by (auto simp: queues_ok_def)
    have uw: "s_n a \<notin> set (s_wait (s_task a v))" if "v < s_n a" for v
      using wait_okD(2) [OF coreD(2) [OF core] that] by (auto simp: awaiting_def)
    let ?b = "(a_upd (s_n a) (\<lambda>x. new_atask 1) a)\<lparr>s_n := Suc (s_n a), s_live := Suc (s_live a)\<rparr>"
    have ab: "snd (a_alloc a) = ?b" using Nil by (simp add: a_alloc_def)
    have "repr s1 ?b"
    proof (rule reprI)
      show "task_repr s1 (s_cur ?b) v (s_task ?b v)" if "v < s_n ?b" for v
      proof (cases "v = s_n a")
        case True
        then show ?thesis using cur by (simp add: task_repr_def s1 zero_task_def new_atask_def)
      next
        case False
        then have vn: "v < s_n a" using that by simp
        have "chain (wnx s1) (t_waiters (r_tasks s v)) (s_wait (s_task a v))"
          unfolding wn using reprD(9) [OF r vn] uw [OF vn] by (simp add: task_repr_def)
        then show ?thesis using reprD(9) [OF r vn] False by (simp add: task_repr_def s1 n(1))
      qed
      show "rq_list s1 (s_run ?b)"
        using reprD(4) [OF r] fresh by (simp add: rq_list_def nx) (simp add: s1 n(1))
      show "slots_ok s1" using n(2) ns unfolding s1 slots_ok_def by auto
    qed (use reprD [OF r] fresh in \<open>simp_all add: nx\<close>, simp_all add: s1 n(1))
    then show ?thesis using t ns n(3) Nil by (simp add: ab a_alloc_def s1 zero_task_def n(1))
  qed
  then show "fst (a_alloc a) = t" "repr s1 (snd (a_alloc a))" "r_io s1 = r_io s"
    "s_free a = [] \<Longrightarrow> s_n a < 2 ^ 19" "t < s_n (snd (a_alloc a))" "t_next (r_tasks s1 t) = None" by simp_all
qed

lemma slot_free_simps [simp]:
  "r_io (gt_slot_free t s) = r_io s" "r_current (gt_slot_free t s) = r_current s"
  by (simp_all add: gt_slot_free_def)

lemma alloc_shape:
  assumes "a_alloc a = (t, b)" and "s_free a = [] \<Longrightarrow> s_n a < 2 ^ 19" and "body_ok a"
  obtains g ts where "b = (a_upd t (\<lambda>x. new_atask g) a)\<lparr>s_n := s_n b, s_free := ts, s_live := Suc (s_live a)\<rparr>"
    and "1 \<le> g" "g < 2048"
    and "s_n b = s_n a \<and> t < s_n a \<and> s_free a = t # ts \<or>
      s_n b = Suc (s_n a) \<and> t = s_n a \<and> s_free a = [] \<and> ts = [] \<and> s_n a < 2 ^ 19"
proof (cases "s_free a")
  case Nil
  then have "t = s_n a" "b = (a_upd (s_n a) (\<lambda>x. new_atask 1) a)\<lparr>s_n := Suc (s_n a), s_live := Suc (s_live a)\<rparr>"
    using assms(1) by (auto simp: a_alloc_def)
  then show ?thesis using Nil assms(2)
    by (intro that [where g = 1 and ts = "[]"]) (cases a, simp add: a_upd_def)+
next
  case (Cons u us)
  have "core {} a" using assms(3) by (simp add: body_ok_def)
  moreover have "u \<in> set (s_free a)" using Cons by simp
  ultimately have u: "u < s_n a" "1 \<le> s_gen (s_task a u) \<and> s_gen (s_task a u) < 2048"
    using coreD(1) [of "{}" a] coreD(4) [of "{}" a] by (auto simp: queues_ok_def counts_ok_def)
  have "t = u" "b = (a_upd u (\<lambda>x. new_atask (s_gen x)) a)\<lparr>s_free := us, s_live := Suc (s_live a)\<rparr>"
    using assms(1) Cons by (auto simp: a_alloc_def)
  then show ?thesis using Cons u
    by (intro that [where g = "s_gen (s_task a u)" and ts = us]) (cases a, simp add: a_upd_def)+
qed

lemma repr_spawn:
  assumes r: "repr s a" and c: "body_ok a" and g: "gt_spawn os body s = (res, h, s')"
  shows "r_io s' = r_io s \<and> (\<exists>b. repr s' b \<and> body_ok b \<and> parked b = parked a \<and> s_cur b = s_cur a \<and>
    (if h = None then res = SPPC_ENOMEM
     else res = 0 \<and> b = snd (a_spawn a) \<and> h = Some (gt_handle (r_tasks s' (fst (a_spawn a))))))"
proof (cases "gt_slot_alloc (sp_slot os) (sp_io0 os) s")
  case (Pair v s1)
  show ?thesis
  proof (cases v)
    case None
    with Pair g have "res = SPPC_ENOMEM" "h = None" "s' = s1" by (auto simp: gt_spawn_def)
    moreover have "repr s1 a \<and> r_io s1 = r_io s" using repr_alloc_None [OF r] Pair None by simp
    ultimately show ?thesis using c by auto
  next
    case (Some t)
    note A = repr_alloc_Some [OF r c Pair [unfolded Some]]
    obtain a1 where a1: "a_alloc a = (t, a1)" using A(1) by (cases "a_alloc a") simp
    then have r1: "repr s1 a1" and tn: "t < s_n a1" using A(2,5) by simp_all
    obtain gn ts where b: "a1 = (a_upd t (\<lambda>x. new_atask gn) a)\<lparr>s_n := s_n a1, s_free := ts, s_live := Suc (s_live a)\<rparr>"
      and gn: "1 \<le> gn" "gn < 2048"
      and n: "s_n a1 = s_n a \<and> t < s_n a \<and> s_free a = t # ts \<or>
        s_n a1 = Suc (s_n a) \<and> t = s_n a \<and> s_free a = [] \<and> ts = [] \<and> s_n a < 2 ^ 19"
      using alloc_shape [OF a1 A(4) c] by metis
    have f: "s_run a1 = s_run a" "s_free a1 = ts" "s_dead a1 = s_dead a" "s_cur a1 = s_cur a"
      "s_live a1 = Suc (s_live a)" "s_inflight a1 = s_inflight a" "s_task a1 = (s_task a)(t := new_atask gn)"
      by (subst b, simp)+
    have q: "queues_ok a" using c by (simp add: body_ok_def core_def)
    have tS: "t < s_n a \<Longrightarrow> st a t = GT_STATE_FREE"
    proof -
      assume "t < s_n a"
      then have "t \<in> set (s_free a)" using n by auto
      then show ?thesis using q by (simp add: queues_ok_def)
    qed
    have out: "t \<notin> set (s_run a)" "t \<notin> set (s_dead a)" "t \<notin> set ts"
    proof -
      show "t \<notin> set (s_run a)" "t \<notin> set (s_dead a)" using q tS by (auto simp: queues_ok_def)
      show "t \<notin> set ts" using q n by (auto simp: queues_ok_def)
    qed
    have ap: "lists_apart a1"
      using queues_apart [OF q] n by (auto simp: lists_apart_def f)
    have ns: "u < s_n a1 \<longleftrightarrow> u < s_n a \<or> u = t" for u using n by auto
    have pk': "{u. u < s_n a1 \<and> s_state (s_task b u) = GT_STATE_WAITING} = parked a"
      if "\<And>u. u \<noteq> t \<Longrightarrow> s_task b u = s_task a u" "s_state (s_task b t) \<noteq> GT_STATE_WAITING" for b
    proof -
      have "u < s_n a1 \<and> s_state (s_task b u) = GT_STATE_WAITING \<longleftrightarrow> u < s_n a \<and> st a u = GT_STATE_WAITING" for u
        using that tS unfolding ns by (cases "u = t") auto
      then show ?thesis unfolding parked_def by blast
    qed
    have pk: "parked a1 = parked a"
      unfolding parked_def [of a1] by (rule pk') (simp_all add: f new_atask_def)
    have fail: "\<exists>b. repr (gt_slot_free t s2) b \<and> body_ok b \<and> parked b = parked a \<and> s_cur b = s_cur a"
      if "repr s2 a1" for s2
    proof (intro exI conjI)
      show "repr (gt_slot_free t s2) (a_free t a1)"
        by (rule repr_free [OF that ap tn]) (use out gn in \<open>simp_all add: f new_atask_def\<close>)
      have eq: "s_task (a_free t a1) = (s_task a)(t := \<lparr>s_state = GT_STATE_FREE, s_frame = FNull, s_wait = [],
        s_join = 0, s_gen = next_gen_nat gn, s_det = False\<rparr>)"
        by (simp add: a_free_def f new_atask_def)
      show "body_ok (a_free t a1)"
        by (rule core_refree [OF c _ _ _ eq, where ts = ts])
          (use n next_gen_nat_bounds in \<open>simp_all add: a_free_def f\<close>)
      have "s_n (a_free t a1) = s_n a1" by (simp add: a_free_def)
      then show "parked (a_free t a1) = parked a"
        unfolding parked_def [of "a_free t a1"] by (simp only:) (rule pk', simp_all add: eq)
      show "s_cur (a_free t a1) = s_cur a" by (simp add: a_free_def f)
    qed
    let ?sz = "r_stack_size s1"
    obtain v2 s2 where s2: "gt_stack_alloc (sp_stack os) ?sz s1 = (v2, s2)" by (cases "gt_stack_alloc (sp_stack os) ?sz s1")
    have sf2: "stack_frame s1 s2" using stack_frame_ops(4) [of s1 "sp_stack os" ?sz] s2 by simp
    have r2: "repr s2 a1" by (rule repr_stack_frame [OF sf2 r1])
    have io2: "r_io s2 = r_io s" using stack_frame_simps(12) [OF sf2] A(3) by simp
    show ?thesis
    proof (cases v2)
      case None
      with g Pair Some s2 have "res = SPPC_ENOMEM" "h = None" "s' = gt_slot_free t s2" by (auto simp: gt_spawn_def Let_def)
      with fail [OF r2] io2 show ?thesis by auto
    next
      case stack: (Some stack)
      define us3 where "us3 = (if sp_unsafe os then gt_stack_alloc (sp_ustack os) ?sz s2 else (None, s2))"
      obtain ustack s3 where us: "us3 = (ustack, s3)" by (cases us3)
      have sf3: "stack_frame s2 s3"
      proof -
        have "stack_frame s2 (snd us3)" by (simp add: us3_def)
        then show ?thesis by (simp add: us)
      qed
      have r3: "repr s3 a1" by (rule repr_stack_frame [OF sf3 r2])
      have io3: "r_io s3 = r_io s" using stack_frame_simps(12) [OF sf3] io2 by simp
      show ?thesis
      proof (cases "sp_unsafe os \<and> ustack = None")
        case True
        let ?s = "gt_stack_free (sp_stack os) (Some stack) ?sz s3"
        have "res = SPPC_ENOMEM" "h = None" "s' = gt_slot_free t ?s"
          using g Pair Some s2 stack us True by (auto simp: gt_spawn_def Let_def us3_def)
        moreover have "repr ?s a1" by (rule repr_stack_frame [OF stack_frame_ops(3) r3])
        moreover have "r_io (gt_slot_free t ?s) = r_io s"
          using stack_frame_simps(12) [OF stack_frame_ops(3), of "sp_stack os" "Some stack" ?sz s3] io3
          by simp
        ultimately show ?thesis using fail [of ?s] by auto
      next
        case False
        let ?f = "\<lambda>x. x\<lparr>t_body := body, t_stack := Some stack, t_stack_size := ?sz,
          t_ustack := ustack, t_ustack_size := (if ustack = None then 0 else ?sz),
          t_usp := map_option (\<lambda>u. u + unat ?sz) ustack, t_sp := FTrampoline\<rparr>"
        let ?g = "\<lambda>x. x\<lparr>s_frame := FTrampoline\<rparr>"
        let ?s4 = "upd_task t ?f s3" and ?a4 = "a_upd t ?g a1"
        have s': "res = 0" "h = Some (gt_handle (r_tasks s' t))" "s' = gt_rq_push t ?s4"
          using g Pair Some s2 stack us False unfolding gt_spawn_def us3_def
          by (auto simp: Let_def split: if_splits)
        have r4: "repr ?s4 ?a4"
          by (rule repr_upd [OF r3]) (use reprD(9) [OF r3 tn] in \<open>simp_all add: task_repr_def\<close>)
        have sp: "a_spawn a = (t, a_push t ?a4)" by (simp add: a_spawn_def a1)
        have "repr s' (snd (a_spawn a))" unfolding s'(3) sp snd_conv
          by (rule repr_push [OF r4]) (use ap tn out in \<open>simp_all add: f lists_apart_def\<close>)
        moreover have "body_ok (snd (a_spawn a))" by (rule core_spawn [OF c A(4)])
        moreover have "parked (snd (a_spawn a)) = parked a"
        proof -
          have "s_n (snd (a_spawn a)) = s_n a1" by (simp add: sp a_push_def)
          then show ?thesis unfolding parked_def [of "snd (a_spawn a)"]
            by (simp only:) (rule pk', simp_all add: sp a_push_def f new_atask_def)
        qed
        moreover have "s_cur (snd (a_spawn a)) = s_cur a" by (simp add: sp a_push_def f)
        ultimately show ?thesis using s' io3 by (auto simp: sp)
      qed
    qed
  qed
qed

section \<open>Handles\<close>

lemma resolve_Some:
  assumes r: "repr s a" and h: "gt_resolve h s = Some t"
  shows "t < s_n a" and "st a t \<noteq> GT_STATE_FREE" and "handle_gen h = of_nat (s_gen (s_task a t))"
proof -
  have *: "t < r_nslots s" "t_state (r_tasks s t) \<noteq> GT_STATE_FREE" "t_gen (r_tasks s t) = handle_gen h"
    using h by (auto simp: gt_resolve_def Let_def split: if_splits)
  then show "t < s_n a" using reprD(2) [OF r] by simp
  from reprD(9) [OF r this] * show "st a t \<noteq> GT_STATE_FREE" "handle_gen h = of_nat (s_gen (s_task a t))"
    by (auto simp: task_repr_def)
qed

section \<open>Await and detach\<close>

lemma join_small: "core X a \<Longrightarrow> t < s_n a \<Longrightarrow> s_join (s_task a t) < 2 ^ 20"
proof -
  assume c: "core X a" and t: "t < s_n a"
  have "pending X a t \<subseteq> {..<s_n a}" using coreD(5) [OF c] by (auto simp: pending_def susp_def)
  then have "card (pending X a t) \<le> s_n a" using card_mono [of "{..<s_n a}"] by fastforce
  then show "s_join (s_task a t) < 2 ^ 20" using coreD(4) [OF c] t by (simp add: counts_ok_def)
qed

lemma repr_join:
  assumes r: "repr s a" and c: "body_ok a" and t: "t < s_n a" "t \<noteq> s_cur a"
  defines "self \<equiv> s_cur a"
  defines "s1 \<equiv> upd_task self (\<lambda>x. x\<lparr>t_wnext := t_waiters (r_tasks s t)\<rparr>) s"
  defines "s2 \<equiv> upd_task t (\<lambda>x. x\<lparr>t_waiters := Some self\<rparr>) s1"
  defines "s3 \<equiv> upd_task t (\<lambda>x. x\<lparr>t_njoiners := t_njoiners x + 1\<rparr>) s2"
  shows "repr (upd_task self (\<lambda>x. x\<lparr>t_state := GT_STATE_JOINING\<rparr>) s3) (a_join t a)"
    and "r_io (upd_task self (\<lambda>x. x\<lparr>t_state := GT_STATE_JOINING\<rparr>) s3) = r_io s"
    and "r_current s3 = Some self"
proof -
  let ?s = "upd_task self (\<lambda>x. x\<lparr>t_state := GT_STATE_JOINING\<rparr>) s3"
  have core: "core {} a" and d: "st a self = GT_STATE_RUNNING" using c by (auto simp: body_ok_def running_def self_def)
  have nx: "nxt ?s = nxt s" by (auto simp: nxt_def s3_def s2_def s1_def fun_eq_iff)
  have wn: "wnx ?s = (wnx s)(self := t_waiters (r_tasks s t))"
    using t by (auto simp: wnx_def s3_def s2_def s1_def fun_eq_iff self_def)
  have sw: "self \<notin> set (s_wait (s_task a v))" if "v < s_n a" for v
    using wait_okD(2) [OF coreD(2) [OF core] that] d by (auto simp: awaiting_def)
  have ne: "t \<noteq> self" using t by (simp add: self_def)
  have at: "s_task (a_join t a) v = (if v = t then (s_task a t)\<lparr>s_wait := self # s_wait (s_task a t), s_join := Suc (s_join (s_task a t))\<rparr>
      else if v = self then (s_task a self)\<lparr>s_state := GT_STATE_JOINING, s_frame := FAwait t\<rparr> else s_task a v)" for v
    using ne by (auto simp: a_join_def self_def)
  have ac: "s_n (a_join t a) = s_n a" "s_cur (a_join t a) = s_cur a" "s_run (a_join t a) = s_run a"
    "s_free (a_join t a) = s_free a" "s_dead (a_join t a) = s_dead a" "s_live (a_join t a) = s_live a"
    "s_inflight (a_join t a) = s_inflight a" by (simp_all add: a_join_def)
  show "repr ?s (a_join t a)"
  proof (rule reprI)
    fix v assume "v < s_n (a_join t a)"
    then have v: "v < s_n a" by (simp add: ac)
    note R = reprD(9) [OF r v, unfolded task_repr_def]
    have ch: "chain (wnx ?s) (t_waiters (r_tasks s v)) (s_wait (s_task a v))"
      unfolding wn using R sw [OF v] by simp
    consider "v = t" | "v = self" | "v \<noteq> t" "v \<noteq> self" by blast
    then show "task_repr ?s (s_cur (a_join t a)) v (s_task (a_join t a) v)"
    proof cases
      case 1
      have "chain (wnx ?s) (Some self) (self # s_wait (s_task a t))"
        using ch 1 wn by simp
      then show ?thesis using R 1 ne unfolding task_repr_def ac at
        by (simp add: s3_def s2_def s1_def self_def)
    next
      case 2
      then show ?thesis using R ch ne unfolding task_repr_def ac at
        by (simp add: s3_def s2_def s1_def self_def)
    next
      case 3
      then show ?thesis using R ch unfolding task_repr_def ac at
        by (simp add: s3_def s2_def s1_def)
    qed
  qed (use reprD [OF r] in \<open>simp_all add: nx ac rq_list_def\<close>, simp_all add: s3_def s2_def s1_def slots_ok_def)
  show "r_io ?s = r_io s" "r_current s3 = Some self"
    using reprD(1) [OF r] by (simp_all add: s3_def s2_def s1_def self_def)
qed

lemma parked_same:
  "s_n b = s_n a \<Longrightarrow> (\<And>u. u < s_n a \<Longrightarrow> (st b u = GT_STATE_WAITING) = (st a u = GT_STATE_WAITING)) \<Longrightarrow>
   parked b = parked a"
  by (auto simp: parked_def)

lemma rep_free:
  assumes r: "rep out ok s a" and c: "core X a" and t: "t < s_n a" "st a t = GT_STATE_DONE" and dead: "s_dead a = []"
  shows "rep out ok (gt_slot_free t s) (a_free t a)"
proof (rule rep_step [OF r])
  have q: "queues_ok a" using coreD(1) [OF c] .
  have "t \<in> live_set a" using t by (simp add: live_set_def)
  then have "0 < card (live_set a)" by (auto simp: card_gt_0_iff)
  then have "0 < s_live a" "s_gen (s_task a t) < 2048" using coreD(4) [OF c] t by (auto simp: counts_ok_def)
  then show "repr (gt_slot_free t s) (a_free t a)"
    by (intro repr_free [OF repD(1) [OF r] queues_apart [OF q] t(1)]) (use q t dead in \<open>auto simp: queues_ok_def\<close>)
  show "parked (a_free t a) = parked a" by (rule parked_same) (use t in \<open>auto simp: a_free_def\<close>)
qed simp

lemma njoiners_zero:
  assumes "repr s a" "core X a" "t < s_n a"
  shows "t_njoiners (r_tasks s t) = 0 \<longleftrightarrow> s_join (s_task a t) = 0"
proof -
  have "s_join (s_task a t) < 2 ^ LENGTH(32)" using join_small [OF assms(2,3)] by simp
  then show ?thesis using reprD(9) [OF assms(1,3)] of_nat_eq_0 [where 'a = 32] by (simp add: task_repr_def)
qed

text \<open>Awaiting a task that is done: the last one out retires it.\<close>

lemma conf_collect_done:
  assumes r: "rep out ok s a" and c: "body_ok a" and t: "t < s_n a" "st a t = GT_STATE_DONE"
  shows "conf_ok out ok (gt_collect t s)"
proof -
  have core: "core {} a" and dead: "s_dead a = []" using c by (auto simp: body_ok_def)
  show ?thesis
  proof (cases "s_join (s_task a t) = 0")
    case True
    then have "t_njoiners (r_tasks s t) = 0" using njoiners_zero [OF repD(1) [OF r] core t(1)] by simp
    moreover have "core {} (a_free t a)"
      by (intro core_free [OF core t]) (use True join_zero [OF core t(1)] dead in auto)
    moreover have "running (a_free t a) = running a" using t by (auto simp: running_def a_free_def)
    ultimately show ?thesis
      using rep_free [OF r core t dead] c by (auto intro!: conf_okI simp: gt_collect_def body_ok_def a_free_def)
  next
    case False
    then have "t_njoiners (r_tasks s t) \<noteq> 0" using njoiners_zero [OF repD(1) [OF r] core t(1)] by simp
    then show ?thesis using r c by (auto intro!: conf_okI simp: gt_collect_def)
  qed
qed

lemma conf_await_resumed:
  assumes r: "rep out ok s a" and c: "switch_ok a" and k: "fr a (s_cur a) = FAwait t" and dead: "s_dead a = []"
  shows "conf_ok out ok (gt_await_resumed t s)"
proof -
  note C = core_collect [OF c k dead]
  have core: "core {s_cur a} a" using c by (simp add: switch_ok_def)
  let ?s1 = "upd_task t (\<lambda>x. x\<lparr>t_njoiners := t_njoiners x - 1\<rparr>) s"
  let ?a1 = "a_upd t (\<lambda>x. x\<lparr>s_join := s_join x - 1\<rparr>) a"
  have r1: "repr ?s1 ?a1"
    by (rule repr_upd [OF repD(1) [OF r]])
      (use reprD(9) [OF repD(1) [OF r] C(4)] of_nat_minus_1 [OF C(5)] in \<open>simp_all add: task_repr_def\<close>)
  have p1: "parked ?a1 = parked a" by (rule parked_same) simp_all
  have rep1: "rep out ok ?s1 ?a1" by (rule rep_step [OF r r1 _ p1]) simp
  have j: "t_njoiners (r_tasks ?s1 t) = 0 \<longleftrightarrow> s_join (s_task ?a1 t) = 0"
  proof -
    have "s_join (s_task a t) - 1 < 2 ^ LENGTH(32)" using join_small [OF core C(4)] by simp
    then show ?thesis using reprD(9) [OF r1, of t] C(4) of_nat_eq_0 [where 'a = 32] by (simp add: task_repr_def)
  qed
  show ?thesis
  proof (cases "s_join (s_task ?a1 t) = 0")
    case False
    then have "gt_await_resumed t s = (InBody 0, ?s1)" "a_collect t a = ?a1"
      using j by (simp_all add: gt_await_resumed_def gt_collect_def a_collect_def Let_def)
    then show ?thesis using rep1 C(1) by (auto intro!: conf_okI)
  next
    case True
    then have eq: "gt_await_resumed t s = (InBody 0, gt_slot_free t ?s1)" "a_collect t a = a_free t ?a1"
      using j by (simp_all add: gt_await_resumed_def gt_collect_def a_collect_def Let_def)
    have q: "queues_ok a" using coreD(1) [OF core] .
    have "t \<in> live_set a" using C by (simp add: live_set_def)
    then have "0 < card (live_set a)" by (auto simp: card_gt_0_iff)
    then have "0 < s_live a" "s_gen (s_task a t) < 2048" using coreD(4) [OF core] C by (auto simp: counts_ok_def)
    then have "repr (gt_slot_free t ?s1) (a_free t ?a1)"
      by (intro repr_free [OF r1]) (use q C dead queues_apart [OF q] in \<open>auto simp: queues_ok_def lists_apart_def\<close>)
    moreover have "parked (a_free t ?a1) = parked a"
      by (rule parked_same) (use C in \<open>auto simp: a_free_def\<close>)
    ultimately have "rep out ok (gt_slot_free t ?s1) (a_free t ?a1)"
      by (intro rep_step [OF r]) simp_all
    then show ?thesis using C(1) unfolding eq by (auto intro!: conf_okI simp flip: eq(2))
  qed
qed

lemma conf_detach:
  assumes r: "rep out ok s a" and c: "body_ok a"
    and d: "\<And>t. gt_resolve h s = Some t \<Longrightarrow> t_njoiners (r_tasks s t) = 0"
  shows "conf_ok out ok (gt_detach h s)"
proof (cases "gt_resolve h s")
  case None
  then show ?thesis using r c by (auto intro!: conf_okI simp: gt_detach_def)
next
  case (Some t)
  note T = resolve_Some [OF repD(1) [OF r] Some]
  have core: "core {} a" and dead: "s_dead a = []" using c by (auto simp: body_ok_def)
  note R = reprD(9) [OF repD(1) [OF r] T(1), unfolded task_repr_def]
  show ?thesis
  proof (cases "t = s_cur a \<or> s_det (s_task a t)")
    case True
    then have "gt_detach h s = (InBody SPPC_EINVAL, s)"
      using Some reprD(1) [OF repD(1) [OF r]] R by (auto simp: gt_detach_def)
    then show ?thesis using r c by (auto intro!: conf_okI)
  next
    case False
    have j: "s_join (s_task a t) = 0"
      using d [OF Some] njoiners_zero [OF repD(1) [OF r] core T(1)] by simp
    let ?s1 = "upd_task t (\<lambda>x. x\<lparr>t_detached := True\<rparr>) s" and ?a1 = "a_upd t (\<lambda>x. x\<lparr>s_det := True\<rparr>) a"
    have r1: "repr ?s1 ?a1"
      by (rule repr_upd [OF repD(1) [OF r]]) (use R in simp_all)
    have D: "body_ok (a_detach t a)" by (rule core_detach [OF c T(1) _ T(2) j]) (use False in simp)
    show ?thesis
    proof (cases "st a t = GT_STATE_DONE")
      case True
      have q: "queues_ok a" using coreD(1) [OF core] .
      have "t \<in> live_set a" using True T by (simp add: live_set_def)
      then have "0 < card (live_set a)" by (auto simp: card_gt_0_iff)
      then have "0 < s_live a" "s_gen (s_task a t) < 2048" using coreD(4) [OF core] T by (auto simp: counts_ok_def)
      then have "repr (gt_slot_free t ?s1) (a_free t ?a1)"
        by (intro repr_free [OF r1])
          (use q T True dead queues_apart [OF q] in \<open>auto simp: queues_ok_def lists_apart_def\<close>)
      moreover have "parked (a_free t ?a1) = parked a"
        by (rule parked_same) (use True in \<open>auto simp: a_free_def\<close>)
      ultimately have "rep out ok (gt_slot_free t ?s1) (a_detach t a)"
        using True by (intro rep_step [OF r]) (simp_all add: a_detach_def Let_def)
      moreover have "gt_detach h s = (InBody 0, gt_slot_free t ?s1)"
        using Some False True R reprD(1) [OF repD(1) [OF r]] by (auto simp: gt_detach_def Let_def)
      ultimately show ?thesis using D by (auto intro!: conf_okI)
    next
      case nd: False
      have "parked ?a1 = parked a" by (rule parked_same) simp_all
      then have "rep out ok ?s1 (a_detach t a)"
        using nd r1 by (intro rep_step [OF r]) (simp_all add: a_detach_def Let_def)
      moreover have "gt_detach h s = (InBody 0, ?s1)"
        using Some False nd R reprD(1) [OF repD(1) [OF r]] by (auto simp: gt_detach_def Let_def)
      ultimately show ?thesis using D by (auto intro!: conf_okI)
    qed
  qed
qed

section \<open>Finishing\<close>

lemma repr_done:
  assumes r: "repr s a" and c: "body_ok a" and w: "gt_wake (t_waiters (r_tasks s2 (s_cur a))) s3 = Some s4"
    and s2: "s2 = upd_task (s_cur a) (\<lambda>x. x\<lparr>t_body := b x, t_state := GT_STATE_DONE\<rparr>) s1"
    and s1: "s1 = log_event es s"
    and s3: "s3 = upd_task (s_cur a) (\<lambda>x. x\<lparr>t_waiters := None\<rparr>) s2"
  shows "repr ((upd_task (s_cur a) (\<lambda>x. x\<lparr>t_next := r_zombies s4\<rparr>) s4)\<lparr>r_zombies := Some (s_cur a)\<rparr>) (a_finish a)"
    and "r_io s4 = r_io s"
proof -
  let ?d = "s_cur a"
  let ?ws = "s_wait (s_task a ?d)"
  have core: "core {} a" and dead: "s_dead a = []" and d: "?d < s_n a" "st a ?d = GT_STATE_RUNNING"
    using c by (auto simp: body_ok_def running_def)
  have q: "queues_ok a" using coreD(1) [OF core] .
  let ?a1 = "a_upd ?d (\<lambda>x. x\<lparr>s_state := GT_STATE_DONE, s_frame := FEnded, s_wait := []\<rparr>) a"
  have nx: "nxt s3 = nxt s" and wn: "wnx s3 = wnx s"
    by (auto simp: nxt_def wnx_def s3 s2 s1 log_event_def fun_eq_iff)
  note R = reprD(9) [OF r, unfolded task_repr_def]
  have r3: "repr s3 ?a1"
  proof (rule reprI)
    show "task_repr s3 (s_cur ?a1) v (s_task ?a1 v)" if "v < s_n ?a1" for v
      using R [of v] that unfolding task_repr_def wn
      by (auto simp: s3 s2 s1 log_event_def)
    show "rq_list s3 (s_run ?a1)" using reprD(4) [OF r] unfolding rq_list_def nx
      by (simp add: s3 s2 s1 log_event_def)
  qed (use reprD [OF r] in \<open>simp_all add: nx\<close>, simp_all add: s3 s2 s1 log_event_def slots_ok_def)
  have ws: "set ?ws = awaiting a ?d" using wait_okD(2) [OF coreD(2) [OF core] d(1)] .
  have ch: "chain (wnx s3) (t_waiters (r_tasks s2 ?d)) ?ws"
    unfolding wn using R [OF d(1)] by (simp add: s2 s1 log_event_def)
  have "\<exists>s'. gt_wake (t_waiters (r_tasks s2 ?d)) s3 = Some s' \<and> repr s' (fold a_push ?ws ?a1) \<and> r_io s' = r_io s3"
  proof (rule repr_wake [OF r3 ch])
    show "lists_apart ?a1" using queues_apart [OF q] by (simp add: lists_apart_def)
    show "set ?ws \<subseteq> {..<s_n ?a1}" unfolding ws by (auto simp: awaiting_def)
    show "set ?ws \<inter> set (s_run ?a1 @ s_free ?a1 @ s_dead ?a1) = {}"
      unfolding ws using q dead by (auto simp: awaiting_def queues_ok_def)
    show "set (s_wait (s_task ?a1 v)) \<inter> set ?ws = {}" if "v < s_n ?a1" for v
    proof (cases "v = ?d")
      case True
      then show ?thesis by simp
    next
      case False
      have same: "s_wait (s_task ?a1 v) = s_wait (s_task a v)" and v: "v < s_n a" using that False by simp_all
      have "awaiting a v \<inter> awaiting a ?d = {}" using False by (auto simp: awaiting_def)
      then show ?thesis unfolding same ws wait_okD(2) [OF coreD(2) [OF core] v] .
    qed
  qed
  then have r4: "repr s4 (fold a_push ?ws ?a1)" and io: "r_io s4 = r_io s3" using w by auto
  show "r_io s4 = r_io s" using io by (simp add: s3 s2 s1 log_event_def)
  let ?a2 = "fold a_push ?ws ?a1"
  have out: "?d \<notin> set (s_run ?a2)" "?d \<notin> set (s_free ?a2)" "?d \<notin> set (s_dead ?a2)"
    using q d dead ws by (auto simp: a_push_list queues_ok_def awaiting_def)
  let ?s5 = "upd_task ?d (\<lambda>x. x\<lparr>t_next := r_zombies s4\<rparr>) s4"
  have r5: "repr ?s5 ?a2" by (rule repr_relink [OF r4 out])
  have z: "r_zombies s4 = None" using reprD(6) [OF r4] dead by (simp add: a_push_list)
  have af: "a_finish a = ?a2\<lparr>s_dead := [?d]\<rparr>" by (simp add: a_finish_def Let_def a_push_list dead)
  show "repr (?s5\<lparr>r_zombies := Some ?d\<rparr>) (a_finish a)" unfolding af
  proof (rule reprI)
    show "chain (nxt (?s5\<lparr>r_zombies := Some ?d\<rparr>)) (r_zombies (?s5\<lparr>r_zombies := Some ?d\<rparr>)) (s_dead (?a2\<lparr>s_dead := [?d]\<rparr>))"
      using z by (simp add: nxt_upd)
  qed (use reprD [OF r5] in \<open>simp_all add: rq_list_def slots_ok_def task_repr_def\<close>)
qed

context gt_backend
begin

lemma conf_finish:
  assumes r: "rep out ok s a" and c: "body_ok a" and f: "gt_finish poll s = Some cf"
  shows "conf_ok out ok cf"
proof -
  let ?d = "s_cur a"
  have cur: "r_current s = Some ?d" using reprD(1) [OF repD(1) [OF r]] .
  define s1 where "s1 = log_event (map EvEnv (sppc_env_free (env (t_body (r_tasks s ?d))))) s"
  define s2 where "s2 = upd_task ?d (\<lambda>x. x\<lparr>t_body := (t_body x)\<lparr>env := None\<rparr>, t_state := GT_STATE_DONE\<rparr>) s1"
  define s3 where "s3 = upd_task ?d (\<lambda>x. x\<lparr>t_waiters := None\<rparr>) s2"
  obtain s4 where w: "gt_wake (t_waiters (r_tasks s2 ?d)) s3 = Some s4"
    using f cur by (auto simp: gt_finish_def Let_def s1_def s2_def s3_def bind_eq_Some_conv)
  define s5 where "s5 = (upd_task ?d (\<lambda>x. x\<lparr>t_next := r_zombies s4\<rparr>) s4)\<lparr>r_zombies := Some ?d\<rparr>"
  obtain n s6 where p: "gt_pick poll s5 = Some (n, s6)"
    and cf: "cf = (case n of None \<Rightarrow> (Panicked (PFinished (t_idx (r_tasks s6 ?d))), s6)
      | Some t \<Rightarrow>
          (AtSwitch, upd_task ?d (\<lambda>x. x\<lparr>t_sp := FEnded\<rparr>)
            ((upd_task t (\<lambda>x. x\<lparr>t_state := GT_STATE_RUNNING\<rparr>) (s6\<lparr>r_current := Some t\<rparr>))
             \<lparr>tls_usp := t_usp (r_tasks (upd_task t (\<lambda>x. x\<lparr>t_state := GT_STATE_RUNNING\<rparr>) (s6\<lparr>r_current := Some t\<rparr>)) t)\<rparr>)))"
    using f cur w unfolding gt_finish_def s1_def s2_def s3_def s5_def
    by (auto simp: Let_def bind_eq_Some_conv split: option.splits)
  note D = repr_done [OF repD(1) [OF r] c w s2_def s1_def s3_def]
  note C = core_finish [OF c]
  have pk: "parked (a_finish a) = parked a"
  proof (rule parked_same)
    show "s_n (a_finish a) = s_n a" by (simp add: a_finish_def Let_def a_push_list)
    fix u assume "u < s_n a"
    have "core {} a" "?d < s_n a" "st a ?d = GT_STATE_RUNNING" using c by (auto simp: body_ok_def running_def)
    then have "set (s_wait (s_task a ?d)) = awaiting a ?d" using wait_okD(2) [OF coreD(2)] by blast
    then show "(st (a_finish a) u = GT_STATE_WAITING) = (st a u = GT_STATE_WAITING)"
      using \<open>st a ?d = _\<close> by (auto simp: a_finish_def Let_def a_push_list awaiting_def)
  qed
  have r5: "rep out ok s5 (a_finish a)"
    by (rule rep_step [OF r _ _ pk]) (use D in \<open>simp_all add: s5_def\<close>)
  obtain b where ev: "evolves (a_finish a) b" and
    post: "case n of None \<Rightarrow> rep out ok s6 b \<and> s_run b = [] \<and> s_inflight b = 0
      | Some t \<Rightarrow> (\<exists>ts. s_run b = t # ts \<and> rep out ok s6 (b\<lparr>s_run := ts\<rparr>))"
    using picked [OF p r5 C(1)] unfolding pick_post_def fst_conv snd_conv by blast
  have fin: "s_cur (a_finish a) = ?d" "fr (a_finish a) ?d = FEnded" "st (a_finish a) ?d = GT_STATE_DONE"
  proof -
    have "core {} a" "?d < s_n a" "st a ?d = GT_STATE_RUNNING" using c by (auto simp: body_ok_def running_def)
    then have "?d \<notin> set (s_wait (s_task a ?d))" using wait_okD(2) [OF coreD(2)] by (auto simp: awaiting_def)
    then show "s_cur (a_finish a) = ?d" "fr (a_finish a) ?d = FEnded" "st (a_finish a) ?d = GT_STATE_DONE"
      by (simp_all add: a_finish_def Let_def a_push_list)
  qed
  have cb: "core {} b" "running b = {}" "fr b ?d = FEnded" "s_cur b = ?d" "st b ?d = GT_STATE_DONE"
    using evolvesD(1-4,6) [OF ev] evolvesD(9) [OF ev, of ?d] C fin by simp_all
  show ?thesis
  proof (cases n)
    case None
    then show ?thesis using post cf cb by (auto intro!: conf_okI simp: idle_ok_def)
  next
    case (Some t)
    then obtain ts where ts: "s_run b = t # ts" and r6: "rep out ok s6 (b\<lparr>s_run := ts\<rparr>)" using post by auto
    have t: "t < s_n b" "st b t = GT_STATE_READY" using coreD(1) [OF cb(1)] ts by (auto simp: queues_ok_def)
    have "t \<noteq> ?d" using t cb(5) by auto
    let ?b = "b\<lparr>s_run := ts\<rparr>"
    define s9 where "s9 = upd_task (s_cur ?b) (\<lambda>x. x\<lparr>t_sp := FEnded\<rparr>)
      ((upd_task t (\<lambda>x. x\<lparr>t_state := GT_STATE_RUNNING\<rparr>) s6)\<lparr>r_current := Some t, tls_usp := t_usp (r_tasks s6 t)\<rparr>)"
    have H: "repr s9 (a_switch t ?b)" "t_sp (r_tasks s9 t) = fr ?b t" "r_io s9 = r_io s6"
      by (rule repr_hand_over [OF repD(1) [OF r6], where f = "\<lambda>x. x" and u = "t_usp (r_tasks s6 t)" and k = FEnded];
          use t \<open>t \<noteq> ?d\<close> cb in \<open>simp add: s9_def\<close>)+
    have sw: "a_switch t ?b = a_dispatch t b" using ts by (simp add: a_dispatch_switch)
    have "cf = (AtSwitch, s9)"
      using cf Some cb(4) by (simp add: s9_def upd_task_def)
    moreover have "rep out ok s9 (a_dispatch t b)"
      by (rule rep_step [OF r6]) (use H t in \<open>simp_all add: sw parked_dispatch\<close>, simp add: parked_def)
    moreover have "switch_ok (a_dispatch t b)"
      using core_dispatch [OF cb(1,2), of t] ts by (simp add: switch_ok_def)
    moreover have "t_sp (r_tasks s9 t) = fr (a_dispatch t b) t" "s_cur (a_dispatch t b) = t"
      using H(2) by (simp_all add: a_dispatch_def)
    ultimately show ?thesis by (auto intro!: conf_okI)
  qed
qed

section \<open>Yielding\<close>

text \<open>Handing the processor to a queued task, the running one queued behind the others.\<close>

lemma conf_requeue_switch:
  assumes r: "rep out ok s (a\<lparr>s_run := remove1 t (s_run a)\<rparr>)" and c: "body_ok a" and t: "t \<in> set (s_run a)"
    and k: "k \<notin> {FNull, FEnded}" "\<And>u. k \<noteq> FAwait u"
  shows "conf_ok out ok (gt_switch_to k t (gt_rq_push (s_cur a) s))"
proof -
  let ?d = "s_cur a"
  have core: "core {} a" and d: "?d < s_n a" "st a ?d = GT_STATE_RUNNING" and dead: "s_dead a = []"
    and run: "running a = {s_cur a}"
    using c by (auto simp: body_ok_def running_def)
  have q: "queues_ok a" using coreD(1) [OF core] .
  have td: "t \<noteq> ?d" using t q d by (auto simp: queues_ok_def)
  note C = core_requeue [OF core run k]
  let ?b = "a_requeue k a" and ?a' = "a\<lparr>s_run := remove1 t (s_run a)\<rparr>"
  have "repr s (a_upd (s_cur ?a') (\<lambda>x. x\<lparr>s_frame := k\<rparr>) ?a')" by (rule repr_frame [OF repD(1) [OF r]])
  then have "repr (gt_rq_push ?d s) (a_push ?d (a_upd ?d (\<lambda>x. x\<lparr>s_frame := k\<rparr>) ?a'))"
    by (intro repr_push) (use q d queues_apart [OF q] in \<open>auto simp: queues_ok_def lists_apart_def dest: notin_set_remove1 set_remove1_subset [THEN subsetD]\<close>)
  moreover have "a_push ?d (a_upd ?d (\<lambda>x. x\<lparr>s_frame := k\<rparr>) ?a') = ?b\<lparr>s_run := remove1 t (s_run ?b)\<rparr>"
    using t by (cases a) (simp add: a_requeue_def a_push_def a_upd_def remove1_append)
  ultimately have r': "repr (gt_rq_push ?d s) (?b\<lparr>s_run := remove1 t (s_run ?b)\<rparr>)" by simp
  have "rep out ok (gt_rq_push ?d s) (?b\<lparr>s_run := remove1 t (s_run ?b)\<rparr>)"
    by (rule rep_step [OF r r']) (use d in \<open>auto simp: parked_def a_requeue_def a_push_def\<close>)
  then show ?thesis
    by (rule conf_switch [OF _ C]) (use t dead in \<open>auto simp: a_requeue_def a_push_def\<close>)
qed

lemma rep_popped:
  assumes r: "rep out ok s a" and c: "core {} a" and ts: "s_run a = t # ts"
  shows "\<exists>s'. gt_rq_pop s = (Some t, s') \<and> rep out ok s' (a\<lparr>s_run := remove1 t (s_run a)\<rparr>)"
  using popped(2) [OF r c ts] ts by simp

lemma evolved_body: "body_ok a \<Longrightarrow> evolves a b \<Longrightarrow> body_ok b"
  using evolvesD(1-5) [of a b] by (auto simp: body_ok_def)

lemma conf_yield:
  assumes r: "rep out ok s a" and c: "body_ok a" and y: "gt_yield poll s = Some cf"
  shows "conf_ok out ok cf"
proof -
  have cur: "r_current s = Some (s_cur a)" using reprD(1) [OF repD(1) [OF r]] .
  have core: "core {} a" using c by (simp add: body_ok_def)
  obtain s1 where s1: "(if r_inflight s \<noteq> 0 then poll False s else Some s) = Some s1"
    and body: "(case gt_rq_pop s1 of (None, s2) \<Rightarrow> Some (InBody 0, s2)
      | (Some t, s2) \<Rightarrow> Some (gt_switch_to FYield t (gt_rq_push (s_cur a) s2))) = Some cf"
    using y cur unfolding gt_yield_def by (simp add: bind_eq_Some_conv) blast
  obtain b where rb: "rep out ok s1 b" and ev: "evolves a b" using polled [OF r core _ s1] by auto
  have b: "body_ok b" "s_cur b = s_cur a" using evolved_body [OF c ev] evolvesD(3) [OF ev] by simp_all
  have cb: "core {} b" using b by (simp add: body_ok_def)
  show ?thesis
  proof (cases "s_run b")
    case Nil
    then show ?thesis using popped(1) [OF rb cb Nil] body rb b by (auto intro!: conf_okI)
  next
    case (Cons t ts)
    obtain s2 where s2: "gt_rq_pop s1 = (Some t, s2)" "rep out ok s2 (b\<lparr>s_run := remove1 t (s_run b)\<rparr>)"
      using rep_popped [OF rb cb Cons] by blast
    have "conf_ok out ok (gt_switch_to FYield t (gt_rq_push (s_cur b) s2))"
      by (rule conf_requeue_switch [OF s2(2) b(1)]) (use Cons in simp_all)
    then show ?thesis using body s2(1) b(2) by simp
  qed
qed

end

section \<open>Carrying on\<close>

lemma stack_free_io: "r_io (gt_stack_free os v sz s) = r_io s"
  by (rule stack_frame_simps [OF stack_frame_ops(3)])

lemma reap_one_io: "r_io (gt_reap_one os z s) = r_io s"
  by (simp add: gt_reap_one_stacks reap_stacks_def Let_def stack_free_io)

lemma reap_from_io:
  assumes "gt_reap_from os z s = Some s'"
  shows "r_io s' = r_io s"
  using assms
proof (rule gt_reap_from.raw_induct [rotated])
  fix f :: "os_mem \<Rightarrow> nat option \<Rightarrow> ('a, 'b) gt_runtime \<Rightarrow> ('a, 'b) gt_runtime option" and os z s s'
  assume "\<And>os z s s'. f os z s = Some s' \<Longrightarrow> r_io s' = r_io s"
    and "(case z of None \<Rightarrow> Some s | Some t \<Rightarrow> f os (t_next (r_tasks s t)) (gt_reap_one os t s)) = Some s'"
  then show "r_io s' = r_io s" by (cases z) (auto simp: reap_one_io)
qed

lemma conf_land:
  assumes r: "rep out ok s a" and c: "switch_ok a" and sp: "t_sp (r_tasks s (s_cur a)) = fr a (s_cur a)"
    and l: "gt_land os s = Some cf"
  shows "conf_ok out ok cf"
proof -
  let ?d = "s_cur a"
  have cur: "r_current s = Some ?d" using reprD(1) [OF repD(1) [OF r]] .
  have core: "core {?d} a" and d: "st a ?d = GT_STATE_RUNNING" using c by (auto simp: switch_ok_def running_def)
  have "frame_ok a ?d" using frames_okD(1) [OF coreD(3) [OF core], of ?d] by (simp add: susp_def)
  then have k: "fr a ?d \<noteq> FNull" "fr a ?d \<noteq> FEnded" by (auto simp: frame_ok_def)
  obtain s1 where s1: "(if r_zombies s \<noteq> None then gt_reap os s else Some s) = Some s1"
    and cf: "cf = (AtFrame (fr a ?d), s1)"
    using l cur sp k unfolding gt_land_def by (auto simp: bind_eq_Some_conv split: gt_frame.splits)
  show ?thesis
  proof (cases "s_dead a = []")
    case True
    then have "s1 = s" using s1 repr_zombies [OF repD(1) [OF r]] by simp
    then show ?thesis using cf r c True by (auto intro!: conf_okI)
  next
    case False
    then have g: "gt_reap os s = Some s1" using s1 repr_zombies [OF repD(1) [OF r]] by simp
    have R: "repr s1 (a_reap a)" using repr_reap [OF repD(1) [OF r] c, of os] g by auto
    note P = core_reap [OF c]
    have io: "r_io s1 = r_io s" using reap_from_io [OF g [unfolded gt_reap_def]] by simp
    have st: "st a u = GT_STATE_WAITING \<Longrightarrow> st (a_reap a) u = GT_STATE_WAITING" for u using P(6) [of u] by simp
    have pk: "parked (a_reap a) = parked a"
    proof -
      have i: "s_inflight (a_reap_list zs b) = s_inflight b" for zs b
        by (induction zs arbitrary: b) (simp_all add: a_free_def Let_def)
      have "s_inflight (a_reap a) = s_inflight a" unfolding a_reap_def by (rule i)
      then have "card (parked (a_reap a)) = card (parked a)"
        using coreD(4) [OF core] P(1) by (auto simp: counts_ok_def switch_ok_def core_def)
      moreover have "parked a \<subseteq> parked (a_reap a)" using st P(4) by (auto simp: parked_def)
      ultimately show ?thesis by (metis card_subset_eq finite_sets(2))
    qed
    have "rep out ok s1 (a_reap a)" by (rule rep_step [OF r R io pk])
    then show ?thesis using cf P(1-3) P(6) [of ?d] d by (auto intro!: conf_okI)
  qed
qed

lemma conf_body:
  assumes r: "rep out ok s a" and c: "switch_ok a" and dead: "s_dead a = []"
    and k: "\<And>t. fr a (s_cur a) \<noteq> FAwait t"
  shows "body_ok a"
  using core_resume [OF c k] c dead by (simp add: body_ok_def switch_ok_def)

lemma conf_continue:
  assumes r: "rep out ok s a" and c: "switch_ok a" and dead: "s_dead a = []" and k: "fr a (s_cur a) = k"
  shows "conf_ok out ok (gt_continue k s)"
proof (cases "\<exists>t. k = FAwait t")
  case True
  then show ?thesis using conf_await_resumed [OF r c _ dead] k by (auto simp: gt_continue_def)
next
  case False
  have b: "body_ok a" by (rule conf_body [OF r c dead]) (use False k in auto)
  have core: "core {s_cur a} a" using c by (simp add: switch_ok_def)
  have "frame_ok a (s_cur a)" using frames_okD(1) [OF coreD(3) [OF core], of "s_cur a"] by (simp add: susp_def)
  then have "k \<noteq> FNull" "k \<noteq> FEnded" using k by (auto simp: frame_ok_def)
  then show ?thesis using False r b reprD(1) [OF repD(1) [OF r]]
    by (auto simp: gt_continue_def split: gt_frame.splits option.splits intro!: conf_okI)
qed

section \<open>Thread locks\<close>

lemma rep_lock_waiters [simp]: "rep out ok (s\<lparr>r_lock_waiters := w\<rparr>) a = rep out ok s a"
proof -
  have "repr (s\<lparr>r_lock_waiters := w\<rparr>) a = repr s a"
    by (auto intro: repr_same [of s] repr_same [of "s\<lparr>r_lock_waiters := w\<rparr>"])
  then show ?thesis by (simp add: rep_def)
qed

lemma conf_lock_done:
  assumes r: "rep out ok s a" and c: "body_ok a"
  shows "conf_ok out ok (gt_lock_done er an q err s)"
  using r c reprD(1) [OF repD(1) [OF r]]
  by (auto simp: gt_lock_done_def Let_def gt_lock_wait_remove_def intro!: conf_okI split: option.splits)

lemma lock_scan:
  assumes r: "rep out ok s a" and c: "body_ok a" and g: "gt_lock_scan lock ws s = Some (w, s')"
  shows "case w of None \<Rightarrow> rep out ok s' a
    | Some t \<Rightarrow> t \<in> set (s_run a) \<and> rep out ok s' (a\<lparr>s_run := remove1 t (s_run a)\<rparr>)"
  using r g
proof (induction lock ws s rule: gt_lock_scan.induct)
  case (1 lock s)
  then show ?case by auto
next
  case (2 lock w ws s)
  have core: "core {} a" using c by (simp add: body_ok_def)
  note ap = queues_apart [OF coreD(1) [OF core]]
  show ?case
  proof (cases "w_lock w \<noteq> lock \<or> t_state (r_tasks s (w_task w)) \<noteq> GT_STATE_READY")
    case True
    then show ?thesis using 2 by auto
  next
    case False
    obtain s1 where s1: "gt_rq_remove (w_task w) s = Some (w_task w \<in> set (s_run a), s1)"
      "repr s1 (a\<lparr>s_run := remove1 (w_task w) (s_run a)\<rparr>)" "rq_frame (set (s_run a)) s s1"
      using repr_remove [OF repD(1) [OF "2.prems"(1)] ap] by blast
    have rep1: "rep out ok s1 (a\<lparr>s_run := remove1 (w_task w) (s_run a)\<rparr>)"
      by (rule rep_step [OF "2.prems"(1) s1(2)]) (simp_all add: rq_frame_fields [OF s1(3)] parked_def)
    show ?thesis
    proof (cases "w_task w \<in> set (s_run a)")
      case True
      then show ?thesis using "2.prems"(2) False s1(1) rep1 by auto
    next
      case out: False
      then have "rep out ok s1 a" using rep1 by (simp add: remove1_idem)
      then show ?thesis using "2.IH"(2) [OF False s1(1)] "2.prems"(2) False s1(1) out by auto
    qed
  qed
qed

context gt_backend
begin

lemma conf_lock_released:
  assumes r: "rep out ok s a" and c: "body_ok a" and g: "gt_lock_released lock k s = Some cf"
    and k: "k \<notin> {FNull, FEnded}" "\<And>t. k \<noteq> FAwait t"
  shows "conf_ok out ok cf"
proof -
  obtain w s1 where w: "gt_lock_scan lock (r_lock_waiters s) s = Some (w, s1)"
    and rest: "(case (w, r_current s1) of
        (None, _) \<Rightarrow> Some (AtFrame k, s1)
      | (Some t, Some self) \<Rightarrow> Some (gt_switch_to k t (gt_rq_push self s1))
      | (Some t, None) \<Rightarrow> Some (Crashed, s1)) = Some cf"
    using g unfolding gt_lock_released_def by (auto simp: bind_eq_Some_conv)
  note L = lock_scan [OF r c w]
  show ?thesis
  proof (cases w)
    case None
    then show ?thesis using L rest conf_at_frame [OF _ c k] by auto
  next
    case (Some t)
    with L have t: "t \<in> set (s_run a)" and r1: "rep out ok s1 (a\<lparr>s_run := remove1 t (s_run a)\<rparr>)" by auto
    have "r_current s1 = Some (s_cur a)" using reprD(1) [OF repD(1) [OF r1]] by simp
    then show ?thesis using rest Some conf_requeue_switch [OF r1 c t k] by auto
  qed
qed

lemma other_work:
  assumes r: "rep out ok s a" and c: "body_ok a" and g: "gt_has_other_work poll s = Some (w, s1)"
  shows "\<exists>b. rep out ok s1 b \<and> body_ok b \<and> evolves a b \<and> (w \<longleftrightarrow> s_run b \<noteq> [] \<or> s_inflight b \<noteq> 0)"
proof -
  have core: "core {} a" using c by (simp add: body_ok_def)
  have s1: "(if r_inflight s \<noteq> 0 then poll False s else Some s) = Some s1"
    and w: "w \<longleftrightarrow> r_rq_head s1 \<noteq> None \<or> r_inflight s1 \<noteq> 0"
    using g by (auto simp: gt_has_other_work_def bind_eq_Some_conv)
  obtain b where b: "rep out ok s1 b" "evolves a b" using polled [OF r core _ s1] by auto
  have bo: "body_ok b" by (rule evolved_body [OF c b(2)])
  then have "core {} b" by (simp add: body_ok_def)
  then have "r_inflight s1 = 0 \<longleftrightarrow> s_inflight b = 0" using inflight_zero [OF repD(1) [OF b(1)]] by blast
  moreover have "r_rq_head s1 = None \<longleftrightarrow> s_run b = []"
    using reprD(4) [OF repD(1) [OF b(1)]] by (cases "s_run b") (auto simp: rq_list_def)
  ultimately show ?thesis using b bo w by auto
qed

lemma conf_step:
  assumes r: "rep out ok s a" and c: "body_ok a" and g: "gt_step poll poll_until k clock dl s = Some cf"
    and k: "k \<notin> {FNull, FEnded}" "\<And>t. k \<noteq> FAwait t"
  shows "conf_ok out ok cf"
proof -
  have cur: "r_current s = Some (s_cur a)" using reprD(1) [OF repD(1) [OF r]] .
  have core: "core {} a" using c by (simp add: body_ok_def)
  show ?thesis
  proof (cases "s_run a")
    case (Cons t ts)
    obtain s1 where s1: "gt_rq_pop s = (Some t, s1)" "rep out ok s1 (a\<lparr>s_run := remove1 t (s_run a)\<rparr>)"
      using rep_popped [OF r core Cons] by blast
    have "conf_ok out ok (gt_switch_to k t (gt_rq_push (s_cur a) s1))"
      by (rule conf_requeue_switch [OF s1(2) c]) (use Cons k in simp_all)
    then show ?thesis using g cur s1(1) by (simp add: gt_step_def)
  next
    case Nil
    note pop = popped(1) [OF r core Nil]
    obtain s2 where s2: "(case dl of None \<Rightarrow> poll True s | Some d \<Rightarrow> poll_until clock d s) = Some s2"
      and cf: "cf = (AtFrame k, s2)"
      using g cur pop by (auto simp: gt_step_def bind_eq_Some_conv)
    have "completes out ok s s2"
      using s2 poll [OF repD(2) [OF r]] poll_until [OF repD(2) [OF r]] by (cases dl) auto
    then obtain b where b: "rep out ok s2 b" "evolves a b" using completes_rep [OF r core] by auto
    have "conf_ok out ok (AtFrame k, s2)" by (rule conf_at_frame [OF b(1) evolved_body [OF c b(2)] k])
    then show ?thesis by (simp add: cf)
  qed
qed

lemma conf_lock_turn:
  assumes r: "rep out ok s a" and c: "body_ok a"
    and g: "gt_lock_turn er an poll poll_until q s = Some cf"
  shows "conf_ok out ok cf"
proof (cases "an_try an = eBUSY er")
  case False
  then show ?thesis using g conf_lock_done [OF r c] by (auto simp: gt_lock_turn_def)
next
  case True
  obtain w s1 where w: "gt_has_other_work poll s = Some (w, s1)"
    using g True by (auto simp: gt_lock_turn_def bind_eq_Some_conv)
  obtain b where b: "rep out ok s1 b" "body_ok b" using other_work [OF r c w] by blast
  note D = conf_lock_done [OF b]
  have cur: "r_current s1 = Some (s_cur b)" using reprD(1) [OF repD(1) [OF b(1)]] .
  show ?thesis
  proof (cases "w \<and> \<not> gt_passed_if_any (an_now an) (lk_deadline q)")
    case False
    then show ?thesis using g True w D by (cases w) (auto simp: gt_lock_turn_def)
  next
    case t: True
    let ?s2 = "if lk_queued q then s1 else gt_lock_wait_add (lock_waiter q (s_cur b)) s1"
    have r2: "rep out ok ?s2 b" using b(1) by (simp add: gt_lock_wait_add_def)
    have "gt_step poll poll_until (FLockStep (q\<lparr>lk_queued := True\<rparr>)) (lk_clock q) (lk_deadline q) ?s2 = Some cf"
      using g True w t cur by (simp add: gt_lock_turn_def Let_def)
    then show ?thesis by (rule conf_step [OF r2 b(2)]) simp_all
  qed
qed

lemma conf_unlock:
  assumes r: "rep out ok s a" and c: "body_ok a" and g: "gt_unlock err lock s = Some cf"
  shows "conf_ok out ok cf"
  using g conf_lock_released [OF r c, of lock "FReleased None" cf] r c
  by (auto simp: gt_unlock_def split: if_splits intro!: conf_okI)

lemma conf_cond_wait:
  assumes r: "rep out ok s a" and c: "body_ok a" and g: "gt_cond_wait_until poll wait uerr q s = Some cf"
  shows "conf_ok out ok cf"
proof -
  obtain w s1 where w: "gt_has_other_work poll s = Some (w, s1)"
    using g by (auto simp: gt_cond_wait_until_def bind_eq_Some_conv)
  obtain b where b: "rep out ok s1 b" "body_ok b" using other_work [OF r c w] by blast
  show ?thesis
    using g w b conf_lock_released [OF b, of "cw_mutex q" "FReleased (Some q)" cf]
    by (auto simp: gt_cond_wait_until_def split: if_splits intro!: conf_okI)
qed

lemma conf_cond_turn:
  assumes r: "rep out ok s a" and c: "body_ok a" and g: "gt_cond_turn poll poll_until q s = Some cf"
  shows "conf_ok out ok cf"
proof -
  obtain w s1 where w: "gt_has_other_work poll s = Some (w, s1)"
    using g by (auto simp: gt_cond_turn_def bind_eq_Some_conv)
  obtain b where b: "rep out ok s1 b" "body_ok b" using other_work [OF r c w] by blast
  show ?thesis
    using g w b conf_step [OF b, of "FCondStep q" "cw_clock q" "cw_deadline q" cf]
    by (auto simp: gt_cond_turn_def split: if_splits intro!: conf_okI)
qed

end

end
