(* ===== verification/SchedSteps.thy ===== *)
theory SchedSteps
  imports SchedRefine
begin

text \<open>
  The whole scheduler as a transition system: the step relation over configurations (a phase and
  the runtime), the proof that every step of a backend keeping its contract preserves the
  invariant, and the invariant of the started runtime.
\<close>

section \<open>Parking on the backend\<close>

text \<open>
  What every i/o wait does once its operation is submitted: \<^verbatim>\<open>io\<close> is the backend's part with
  the operation in it.
\<close>

definition gt_io_park ::
  "('t, 'r) gt_poll \<Rightarrow> 'r \<Rightarrow> ('t, 'r) gt_runtime \<Rightarrow> ('t, 'r) gt_conf option" where
  "gt_io_park poll io s =
     gt_block poll GT_STATE_WAITING FIoWait (s\<lparr>r_io := io, r_inflight := r_inflight s + 1\<rparr>)"

section \<open>The step relation\<close>

text \<open>
  The running task's code makes any of the scheduler's calls, in any order; between the calls the
  scheduler's own steps run. The one rule a program must keep is that of \<^verbatim>\<open>detach\<close>: a task is
  not detached while somebody still awaits it.
\<close>

inductive sched_step ::
  "('t, 'r) gt_poll \<Rightarrow> ('t, 'r) gt_poll_until \<Rightarrow> (tptr \<Rightarrow> 'r \<Rightarrow> 'r \<Rightarrow> bool) \<Rightarrow>
     (('t, 'r) gt_runtime \<Rightarrow> ('t, 'r) gt_runtime) \<Rightarrow> ('t, 'r) gt_conf \<Rightarrow> ('t, 'r) gt_conf \<Rightarrow> bool"
  for poll poll_until submit teardown where
  spawn: "gt_spawn os body s = (res, h, s') \<Longrightarrow>
    sched_step poll poll_until submit teardown (InBody v, s) (InBody res, s')"
| await: "gt_await poll h s = Some c \<Longrightarrow> sched_step poll poll_until submit teardown (InBody v, s) c"
| detach: "(\<And>t. gt_resolve h s = Some t \<Longrightarrow> t_njoiners (r_tasks s t) = 0) \<Longrightarrow>
    sched_step poll poll_until submit teardown (InBody v, s) (gt_detach h s)"
| yield: "gt_yield poll s = Some c \<Longrightarrow> sched_step poll poll_until submit teardown (InBody v, s) c"
| finish: "r_current s = Some self \<Longrightarrow> t_stack (r_tasks s self) \<noteq> None \<Longrightarrow> gt_finish poll s = Some c \<Longrightarrow>
    sched_step poll poll_until submit teardown (InBody v, s) c"
| park: "r_current s = Some self \<Longrightarrow> submit self (r_io s) io \<Longrightarrow>
    gt_io_park poll io (upd_task self (\<lambda>x. x\<lparr>t_io := d\<rparr>) s) = Some c \<Longrightarrow>
    sched_step poll poll_until submit teardown (InBody v, s) c"
| land: "gt_land os s = Some c \<Longrightarrow> sched_step poll poll_until submit teardown (AtSwitch, s) c"
| cont: "sched_step poll poll_until submit teardown (AtFrame k, s) (gt_continue k s)"
| lock: "\<not> lk_queued q \<Longrightarrow> sched_step poll poll_until submit teardown (InBody v, s) (AtLock q, s)"
| lock_turn: "gt_lock_turn er an poll poll_until q s = Some c \<Longrightarrow>
    sched_step poll poll_until submit teardown (AtLock q, s) c"
| unlock: "gt_unlock err l s = Some c \<Longrightarrow> sched_step poll poll_until submit teardown (InBody v, s) c"
| cond: "gt_cond_wait_until poll w u q s = Some c \<Longrightarrow>
    sched_step poll poll_until submit teardown (InBody v, s) c"
| cond_turn: "gt_cond_turn poll poll_until q s = Some c \<Longrightarrow>
    sched_step poll poll_until submit teardown (AtCond q, s) c"
| drain: "sched_step poll poll_until submit teardown (InBody v, s) (AtDrain, s)"
| drain_turn: "gt_drain_turn os teardown poll s = Some c \<Longrightarrow>
    sched_step poll poll_until submit teardown (AtDrain, s) c"

lemma rep_inflight:
  assumes r: "rep out ok s a" and io: "ok io" "out io = parked b"
    and b: "repr s' b" and s': "r_io s' = io"
  shows "rep out ok s' b"
  using assms by (simp add: rep_def)

context gt_backend
begin

lemma conf_await:
  assumes r: "rep out ok s a" and c: "body_ok a" and g: "gt_await poll h s = Some cf"
  shows "conf_ok out ok cf"
proof (cases "gt_resolve h s")
  case None
  then show ?thesis using g r c by (auto intro!: conf_okI simp: gt_await_def)
next
  case (Some t)
  note T = resolve_Some [OF repD(1) [OF r] Some]
  note R = reprD(9) [OF repD(1) [OF r] T(1), unfolded task_repr_def]
  have cur: "r_current s = Some (s_cur a)" using reprD(1) [OF repD(1) [OF r]] .
  consider "t = s_cur a \<or> s_det (s_task a t)" | "t \<noteq> s_cur a" "\<not> s_det (s_task a t)" "st a t = GT_STATE_DONE"
    | "t \<noteq> s_cur a" "\<not> s_det (s_task a t)" "st a t \<noteq> GT_STATE_DONE" by blast
  then show ?thesis
  proof cases
    case 1
    then show ?thesis using g Some cur R r c by (auto simp: gt_await_def split: if_splits intro!: conf_okI)
  next
    case 2
    then show ?thesis using g Some cur R conf_collect_done [OF r c T(1)] by (auto simp: gt_await_def)
  next
    case 3
    define s1 where "s1 = upd_task (s_cur a) (\<lambda>x. x\<lparr>t_wnext := t_waiters (r_tasks s t)\<rparr>) s"
    define s2 where "s2 = upd_task t (\<lambda>x. x\<lparr>t_waiters := Some (s_cur a)\<rparr>) s1"
    define s3 where "s3 = upd_task t (\<lambda>x. x\<lparr>t_njoiners := t_njoiners x + 1\<rparr>) s2"
    note J = repr_join [OF repD(1) [OF r] c T(1) 3(1), folded s1_def, folded s2_def, folded s3_def]
    have b: "gt_block poll GT_STATE_JOINING (FAwait t) s3 = Some cf"
      using g Some cur R 3 by (simp add: gt_await_def Let_def s1_def s2_def s3_def)
    have core: "core {} a" "running a = {s_cur a}" and dead: "s_dead a = []" and d: "st a (s_cur a) = GT_STATE_RUNNING"
      using c by (auto simp: body_ok_def running_def)
    have C: "core {} (a_join t a)" "running (a_join t a) = {}"
      using core_join [OF core T(1) 3(1)] T(2) 3 by auto
    have "parked (a_join t a) = parked a"
      by (rule parked_same) (use d 3 in \<open>auto simp: a_join_def\<close>)
    then have "rep out ok (upd_task (s_cur a) (\<lambda>x. x\<lparr>t_state := GT_STATE_JOINING\<rparr>) s3) (a_join t a)"
      by (intro rep_step [OF r J(1,2)])
    then show ?thesis
      by (rule blocked [OF b J(3) _ C]) (use 3 dead in \<open>simp_all add: a_join_def\<close>)
  qed
qed

lemma conf_park:
  assumes r: "rep out ok s a" and c: "body_ok a" and sub: "submit (s_cur a) (r_io s) io"
    and g: "gt_io_park poll io s = Some cf"
  shows "conf_ok out ok cf"
proof -
  let ?d = "s_cur a" and ?s = "s\<lparr>r_io := io, r_inflight := r_inflight s + 1\<rparr>"
  have core: "core {} a" "running a = {?d}" and dead: "s_dead a = []"
    and d: "?d < s_n a" "st a ?d = GT_STATE_RUNNING"
    using c by (auto simp: body_ok_def running_def)
  have nout: "?d \<notin> out (r_io s)" using d repD(3) [OF r] by (simp add: parked_def)
  note S = submit [OF repD(2) [OF r] nout sub]
  let ?a' = "a_upd ?d (\<lambda>x. x\<lparr>s_state := GT_STATE_WAITING\<rparr>) a"
  have ap: "a_park a = (a_upd ?d (\<lambda>x. x\<lparr>s_frame := FIoWait\<rparr>) ?a')\<lparr>s_inflight := Suc (s_inflight a)\<rparr>"
    by (cases a) (simp add: a_park_def a_upd_def)
  have "repr (upd_task ?d (\<lambda>x. x\<lparr>t_state := GT_STATE_WAITING\<rparr>) s) ?a'" by (rule repr_state [OF repD(1) [OF r]])
  then have "repr (upd_task ?d (\<lambda>x. x\<lparr>t_state := GT_STATE_WAITING\<rparr>) s) (a_upd (s_cur ?a') (\<lambda>x. x\<lparr>s_frame := FIoWait\<rparr>) ?a')"
    by (rule repr_frame)
  then have "repr ((upd_task ?d (\<lambda>x. x\<lparr>t_state := GT_STATE_WAITING\<rparr>) s)\<lparr>r_inflight := r_inflight s + 1\<rparr>) (a_park a)"
    unfolding ap using reprD(8) [OF repD(1) [OF r]] by (intro repr_inflight) simp_all
  then have "repr (upd_task ?d (\<lambda>x. x\<lparr>t_state := GT_STATE_WAITING\<rparr>) ?s) (a_park a)"
    by (rule repr_same) simp_all
  moreover have "parked (a_park a) = insert ?d (parked a)"
    using d by (auto simp: parked_def a_park_def)
  ultimately have rep': "rep out ok (upd_task ?d (\<lambda>x. x\<lparr>t_state := GT_STATE_WAITING\<rparr>) ?s) (a_park a)"
    using S repD(3) [OF r] by (simp add: rep_def)
  have cur: "r_current ?s = Some ?d" using reprD(1) [OF repD(1) [OF r]] by simp
  show ?thesis
    by (rule blocked [OF g [unfolded gt_io_park_def] cur rep' core_park [OF core]])
      (use dead in \<open>simp_all add: a_park_def\<close>)
qed

lemma conf_drain_turn:
  assumes r: "rep out ok s a" and c: "body_ok a" and g: "gt_drain_turn os teardown poll s = Some cf"
  shows "conf_ok out ok cf"
proof -
  have core: "core {} a" and dead: "s_dead a = []" using c by (simp_all add: body_ok_def)
  have cur: "r_current s = Some (s_cur a)" using reprD(1) [OF repD(1) [OF r]] .
  have z: "r_zombies s = None" using repr_zombies [OF repD(1) [OF r]] dead by simp
  have h: "r_rq_head s = None \<longleftrightarrow> s_run a = []"
    using reprD(4) [OF repD(1) [OF r]] by (cases "s_run a") (auto simp: rq_list_def)
  show ?thesis
  proof (cases "s_run a")
    case Nil
    show ?thesis
    proof (cases "r_inflight s = 0")
      case True
      then have "out (r_io s) = {}" using inflight_zero [OF repD(1) [OF r] core] repD(3) [OF r] by simp
      from teardown [OF repD(2) [OF r] this True] obtain io where
        io: "teardown s = s\<lparr>r_io := io\<rparr>" "ok io" "out io = {}" by blast
      have "rep out ok (s\<lparr>r_io := io\<rparr>) a"
        using r io \<open>out (r_io s) = {}\<close> by (simp add: rep_def)
      then show ?thesis using g Nil h True z io(1) c by (auto simp: gt_drain_turn_def intro!: conf_okI)
    next
      case False
      then obtain s1 where s1: "poll True s = Some s1" "cf = (AtDrain, s1)"
        using g Nil h by (auto simp: gt_drain_turn_def bind_eq_Some_conv)
      obtain b where "rep out ok s1 b" "evolves a b"
        using completes_rep [OF r core _ poll [OF repD(2) [OF r] s1(1)]] by auto
      then show ?thesis using s1(2) evolved_body [OF c] by (auto intro!: conf_okI)
    qed
  next
    case (Cons t ts)
    obtain s1 where s1: "gt_rq_pop s = (Some t, s1)" "rep out ok s1 (a\<lparr>s_run := remove1 t (s_run a)\<rparr>)"
      using rep_popped [OF r core Cons] by blast
    have "conf_ok out ok (gt_switch_to FDrain t (gt_rq_push (s_cur a) s1))"
      by (rule conf_requeue_switch [OF s1(2) c]) (use Cons in simp_all)
    then show ?thesis using g h Cons cur s1(1) by (simp add: gt_drain_turn_def)
  qed
qed

text \<open>Every step keeps the invariant.\<close>

lemma step_ok:
  assumes "sched_step poll poll_until submit teardown c c'" and "conf_ok out ok c"
  shows "conf_ok out ok c'"
  using assms
proof (cases rule: sched_step.cases)
  case (spawn os body s res h s' v)
  obtain a where a: "rep out ok s a" "body_ok a" using assms(2) spawn by (auto simp: conf_ok_def)
  from repr_spawn [OF repD(1) [OF a(1)] a(2) spawn(3)] obtain b where
    "repr s' b" "body_ok b" "parked b = parked a" "r_io s' = r_io s" by auto
  then show ?thesis using rep_step [OF a(1)] spawn(2) by (auto intro!: conf_okI)
next
  case (await h s v)
  then obtain a where a: "rep out ok s a" "body_ok a" using assms(2) by (auto simp: conf_ok_def)
  show ?thesis by (rule conf_await [OF a await(2)])
next
  case (detach h s v)
  obtain a where a: "rep out ok s a" "body_ok a" using assms(2) detach by (auto simp: conf_ok_def)
  show ?thesis unfolding detach(2) by (rule conf_detach [OF a]) (rule detach(3))
next
  case (yield s v)
  then obtain a where a: "rep out ok s a" "body_ok a" using assms(2) by (auto simp: conf_ok_def)
  show ?thesis by (rule conf_yield [OF a yield(2)])
next
  case (finish s self v)
  then obtain a where a: "rep out ok s a" "body_ok a" using assms(2) by (auto simp: conf_ok_def)
  show ?thesis by (rule conf_finish [OF a finish(4)])
next
  case (park s self io d v)
  obtain a where a: "rep out ok s a" "body_ok a" using assms(2) park by (auto simp: conf_ok_def)
  have "self = s_cur a" using park(2) reprD(1) [OF repD(1) [OF a(1)]] by simp
  moreover have "rep out ok (upd_task self (\<lambda>x. x\<lparr>t_io := d\<rparr>) s) a"
    using a(1) repr_stack_free_upd [OF repD(1) [OF a(1)], of s "\<lambda>x. x\<lparr>t_io := d\<rparr>" self]
    by (simp add: rep_def)
  ultimately show ?thesis using conf_park [OF _ a(2)] park by simp
next
  case (land os s)
  then obtain a where a: "rep out ok s a" "switch_ok a" "t_sp (r_tasks s (s_cur a)) = fr a (s_cur a)"
    using assms(2) by (auto simp: conf_ok_def)
  show ?thesis by (rule conf_land [OF a land(2)])
next
  case (cont k s)
  obtain a where "rep out ok s a" "switch_ok a" "s_dead a = []" "fr a (s_cur a) = k"
    using assms(2) cont by (auto simp: conf_ok_def)
  then show ?thesis unfolding cont(2) by (rule conf_continue)
next
  case (lock q v s)
  then show ?thesis using assms(2) by (auto simp: conf_ok_def)
next
  case (lock_turn er an q s)
  then obtain a where a: "rep out ok s a" "body_ok a" using assms(2) by (auto simp: conf_ok_def)
  show ?thesis by (rule conf_lock_turn [OF a lock_turn(2)])
next
  case (unlock err l s v)
  then obtain a where a: "rep out ok s a" "body_ok a" using assms(2) by (auto simp: conf_ok_def)
  show ?thesis by (rule conf_unlock [OF a unlock(2)])
next
  case (cond w u q s v)
  then obtain a where a: "rep out ok s a" "body_ok a" using assms(2) by (auto simp: conf_ok_def)
  show ?thesis by (rule conf_cond_wait [OF a cond(2)])
next
  case (cond_turn q s)
  then obtain a where a: "rep out ok s a" "body_ok a" using assms(2) by (auto simp: conf_ok_def)
  show ?thesis by (rule conf_cond_turn [OF a cond_turn(2)])
next
  case (drain v s)
  then show ?thesis using assms(2) by (auto simp: conf_ok_def)
next
  case (drain_turn os s)
  then obtain a where a: "rep out ok s a" "body_ok a" using assms(2) by (auto simp: conf_ok_def)
  show ?thesis by (rule conf_drain_turn [OF a drain_turn(2)])
qed

lemma steps_ok:
  "(sched_step poll poll_until submit teardown)\<^sup>*\<^sup>* c c' \<Longrightarrow> conf_ok out ok c \<Longrightarrow> conf_ok out ok c'"
  by (induction rule: rtranclp_induct) (auto dest: step_ok)

end

section \<open>The started runtime\<close>

definition init_sched :: sched where
  "init_sched =
     \<lparr>s_run = [], s_free = [], s_dead = [], s_cur = 0, s_n = 1,
      s_task = (\<lambda>_. (new_atask 1)\<lparr>s_state := GT_STATE_RUNNING\<rparr>), s_live = 1, s_inflight = 0\<rparr>"

lemma init_sched_simps [simp]:
  "s_run init_sched = []" "s_free init_sched = []" "s_dead init_sched = []" "s_cur init_sched = 0"
  "s_n init_sched = 1" "s_live init_sched = 1" "s_inflight init_sched = 0"
  "s_task init_sched t =
     \<lparr>s_state = GT_STATE_RUNNING, s_frame = FNull, s_wait = [], s_join = 0, s_gen = 1, s_det = False\<rparr>"
  by (simp_all add: init_sched_def new_atask_def)

lemma init_body_ok: "body_ok init_sched"
proof -
  have s: "susp {} init_sched = {}" "awaiting init_sched t = {}" "live_set init_sched = {0}"
    "parked init_sched = {}" "running init_sched = {0}" for t
    by (auto simp: susp_def awaiting_def live_set_def parked_def running_def)
  have "queues_ok init_sched" by (simp add: queues_ok_def)
  moreover have "wait_ok init_sched" by (simp add: wait_ok_def s)
  moreover have "frames_ok {} init_sched" by (simp add: frames_ok_def s)
  moreover have "counts_ok {} init_sched" by (simp add: counts_ok_def s pending_def)
  ultimately show ?thesis by (simp add: body_ok_def core_def s)
qed

lemma init_slow_state:
  assumes "gt_init_slow calloc os io0 ior0 io_setup usp = Inr s"
  shows "\<exists>s0. s = io_setup s0 \<and> repr s0 init_sched \<and> r_io s0 = ior0 \<and> r_inflight s0 = 0"
proof -
  let ?z = "(zero_runtime io0 ior0 usp)\<lparr>r_stack_size := GT_STACK_SIZE, r_guard := True\<rparr>"
  obtain m s1 where a: "gt_slot_alloc os io0 ?z = (Some m, s1)"
    and s: "s = io_setup ((upd_task m (\<lambda>x. x\<lparr>t_state := GT_STATE_RUNNING, t_stack := None, t_usp := tls_usp s1\<rparr>) s1)
      \<lparr>r_current := Some m\<rparr>)"
    using assms by (auto simp: gt_init_slow_def Let_def split: if_splits option.splits prod.splits)
  have s1: "m = 0" "s1 = (upd_task 0 (\<lambda>_. (zero_task io0)\<lparr>t_idx := 0, t_gen := 1\<rparr>) (?z\<lparr>r_cslots := 64\<rparr>))
      \<lparr>r_nslots := 1, r_live := 1\<rparr>"
    using a by (auto simp: gt_slot_alloc_def gt_slot_grow_def zero_runtime_def gt_consts Let_def
        split: if_splits)
  let ?s0 = "(upd_task m (\<lambda>x. x\<lparr>t_state := GT_STATE_RUNNING, t_stack := None, t_usp := tls_usp s1\<rparr>) s1)
      \<lparr>r_current := Some m\<rparr>"
  have "slots_ok ?s0" by (auto simp: slots_ok_def s1 intro!: exI [of _ "0::nat"])
  then have "repr ?s0 init_sched"
    by (simp add: repr_def rq_list_def task_repr_def s1 zero_runtime_def zero_task_def)
  then show ?thesis using s s1 by (auto simp: zero_runtime_def)
qed

lemma init_conf_ok:
  assumes "gt_init_slow calloc os io0 ior0 io_setup usp = Inr s"
    and "\<And>s. r_inflight s = 0 \<Longrightarrow> r_io s = ior0 \<Longrightarrow> io_setup s = s\<lparr>r_io := io\<rparr>" and "ok io" and "out io = {}"
  shows "conf_ok out ok (InBody 0, s)"
proof -
  obtain s0 where s0: "s = io_setup s0" "repr s0 init_sched" "r_io s0 = ior0" "r_inflight s0 = 0"
    using init_slow_state [OF assms(1)] by blast
  have "parked init_sched = {}" by (auto simp: parked_def)
  then have "rep out ok (s0\<lparr>r_io := io\<rparr>) init_sched" using s0 assms by (simp add: rep_def)
  moreover have "s = s0\<lparr>r_io := io\<rparr>" using s0 assms(2) by simp
  ultimately show ?thesis using init_body_ok by (auto intro!: conf_okI)
qed

text \<open>Who is parked on the backend, and the count of them, in any state that keeps the invariant.\<close>

lemma conf_inflight:
  assumes "conf_ok out ok (p, s)"
  shows "out (r_io s) = {t. t < r_nslots s \<and> t_state (r_tasks s t) = GT_STATE_WAITING} \<and>
    r_inflight s = of_nat (card (out (r_io s))) \<and> ok (r_io s)"
proof -
  obtain a where a: "rep out ok s a" "phase_ok p s a" using assms by (auto simp: conf_ok_def)
  obtain X where "core X a"
  proof (cases p)
    case (Panicked m)
    then show ?thesis using a(2) that by (cases m) (auto simp: idle_ok_def)
  qed (use a(2) that in \<open>auto simp: body_ok_def switch_ok_def\<close>)
  then have "s_inflight a = card (parked a)" using coreD(4) by (auto simp: counts_ok_def)
  moreover have "parked a = {t. t < r_nslots s \<and> t_state (r_tasks s t) = GT_STATE_WAITING}"
    using reprD(2,9) [OF repD(1) [OF a(1)]] by (auto simp: parked_def task_repr_def)
  ultimately show ?thesis using repD(2,3) [OF a(1)] reprD(8) [OF repD(1) [OF a(1)]] by simp
qed

end
