(* ===== verification/Blocking.thy ===== *)
theory Blocking
  imports SchedSteps
begin

text \<open>
  The i/o backend of a platform without one (async/blocking.h): nothing is ever submitted, so
  nothing is ever outstanding. It meets the scheduler's contract, so every configuration the
  scheduler reaches with it satisfies the scheduler's invariant.
\<close>

definition blk_io_setup :: "(unit, unit) gt_runtime \<Rightarrow> (unit, unit) gt_runtime" where
  "blk_io_setup s = s"

definition blk_io_teardown :: "(unit, unit) gt_runtime \<Rightarrow> (unit, unit) gt_runtime" where
  "blk_io_teardown s = s"

definition blk_io_poll :: "(unit, unit) gt_poll" where
  "blk_io_poll block s = Some s"

definition blk_io_poll_until :: "(unit, unit) gt_poll_until" where
  "blk_io_poll_until clock deadline s = Some s"

definition blk_io_ready :: bool where
  "blk_io_ready = False"

text \<open>Every \<^verbatim>\<open>_gt_try_*\<close>: declined (0), the result not written.\<close>

definition blk_try :: "'a \<Rightarrow> int \<times> 'a" where
  "blk_try res = (0, res)"

definition blk_submit :: "tptr \<Rightarrow> unit \<Rightarrow> unit \<Rightarrow> bool" where
  "blk_submit t io io' = False"

interpretation blk: gt_backend "\<lambda>_. {}" "\<lambda>_. True" blk_io_poll blk_io_poll_until blk_submit blk_io_teardown
  by unfold_locales
    (auto simp: completes_def blk_io_poll_def blk_io_poll_until_def blk_submit_def blk_io_teardown_def
      intro: exI [of _ "[]"])

abbreviation blk_step :: "(unit, unit) gt_conf \<Rightarrow> (unit, unit) gt_conf \<Rightarrow> bool" where
  "blk_step \<equiv> sched_step blk_io_poll blk_io_poll_until blk_submit blk_io_teardown"

abbreviation blk_ok :: "(unit, unit) gt_conf \<Rightarrow> bool" where
  "blk_ok \<equiv> conf_ok (\<lambda>_. {}) (\<lambda>_. True)"

lemma blk_init:
  assumes "gt_init_slow calloc os () () blk_io_setup usp = Inr s"
  shows "blk_ok (InBody 0, s)"
  by (rule init_conf_ok [OF assms, where io = "()"]) (simp_all add: blk_io_setup_def)

lemma blk_reachable:
  assumes "gt_init_slow calloc os () () blk_io_setup usp = Inr s" and "blk_step\<^sup>*\<^sup>* (InBody 0, s) c"
  shows "blk_ok c"
  by (rule blk.steps_ok [OF assms(2) blk_init [OF assms(1)]])

end
