(* ===== verification/SchedProps.thy ===== *)
theory SchedProps
  imports Blocking
begin

text \<open>
  What the scheduler guarantees the tasks of a thread, stated over the runtime's own records and
  pointers: the accounting of every reachable state, await and detach, the rotation of yield, the
  waking of awaiters, handles, and the hand-over of a released lock. The concrete runs at the
  start serve the witnesses.
\<close>

section \<open>Concrete runs\<close>

definition ex_mem :: os_mem where
  "ex_mem = \<lparr>os_page = 4096, os_mmap = Some 65536, os_mprotect = True\<rparr>"

definition ex_spawn :: "unit os_spawn" where
  "ex_spawn = \<lparr>sp_slot = \<lparr>os_realloc = True, os_calloc = True\<rparr>, sp_stack = ex_mem, sp_ustack = ex_mem,
     sp_unsafe = False, sp_io0 = ()\<rparr>"

definition ex_body :: sppc_closure where
  "ex_body = \<lparr>fn = 7, env = Some 9\<rparr>"

text \<open>The started runtime, and it with one and two tasks spawned.\<close>

definition ex_main :: "unit gt_task" where
  "ex_main = (zero_task ())\<lparr>t_gen := 1, t_state := GT_STATE_RUNNING\<rparr>"

definition ex0 :: "(unit, unit) gt_runtime" where
  "ex0 = (zero_runtime () () None)
     \<lparr>r_current := Some 0, r_tasks := (\<lambda>_. zero_task ())(0 := ex_main), r_nslots := 1, r_cslots := 64,
      r_live := 1, r_stack_size := GT_STACK_SIZE, r_guard := True\<rparr>"

definition ex_task :: "tptr \<Rightarrow> tptr option \<Rightarrow> unit gt_task" where
  "ex_task t n = (zero_task ())\<lparr>t_sp := FTrampoline, t_stack := Some 69632, t_stack_size := GT_STACK_SIZE,
     t_next := n, t_body := ex_body, t_idx := of_nat t, t_gen := 1, t_state := GT_STATE_READY\<rparr>"

definition ex1 :: "(unit, unit) gt_runtime" where
  "ex1 = ex0\<lparr>r_tasks := (r_tasks ex0)(1 := ex_task 1 None), r_nslots := 2, r_live := 2, r_page := 4096,
     r_rq_head := Some 1, r_rq_tail := Some 1\<rparr>"

definition ex2 :: "(unit, unit) gt_runtime" where
  "ex2 = ex0\<lparr>r_tasks := (r_tasks ex0)(1 := ex_task 1 (Some 2), 2 := ex_task 2 None), r_nslots := 3, r_live := 3,
     r_page := 4096, r_rq_head := Some 1, r_rq_tail := Some 2\<rparr>"

lemmas ex_defs = ex_mem_def ex_spawn_def ex_body_def ex_main_def ex0_def ex_task_def ex1_def ex2_def
  zero_task_def zero_runtime_def

lemma ex0_init: "gt_init_slow True \<lparr>os_realloc = True, os_calloc = True\<rparr> () () blk_io_setup None = Inr ex0"
  by (simp add: gt_init_slow_def gt_slot_alloc_def gt_slot_grow_def ex_defs
      gt_consts Let_def upd_task_def blk_io_setup_def)

lemma ex0_ok: "blk_ok (InBody 0, ex0)"
  by (rule blk_init [OF ex0_init])

lemmas spawn_eval = gt_spawn_def gt_slot_alloc_def gt_slot_grow_def Let_def upd_task_def
  gt_stack_alloc_def gt_page_def gt_rq_push_def gt_handle_def gt_consts

lemma ex1_spawn: "gt_spawn ex_spawn ex_body ex0 = (0, Some 0x100001, ex1)"
  by (simp add: spawn_eval ex_defs)

lemma ex2_spawn: "gt_spawn ex_spawn ex_body ex1 = (0, Some 0x100002, ex2)"
  by (simp add: spawn_eval ex_defs) (simp add: fun_eq_iff)

text \<open>The run in which the main task awaits the one it spawned.\<close>

definition ex3 :: "(unit, unit) gt_runtime" where
  "ex3 = ex1\<lparr>r_current := Some 1, r_rq_head := None, r_rq_tail := None,
     r_tasks := (r_tasks ex1)(0 := ex_main\<lparr>t_state := GT_STATE_JOINING, t_sp := FAwait 1\<rparr>,
       1 := (ex_task 1 None)\<lparr>t_state := GT_STATE_RUNNING, t_waiters := Some 0, t_njoiners := 1\<rparr>)\<rparr>"

definition ex4 :: "(unit, unit) gt_runtime" where
  "ex4 = ex3\<lparr>r_current := Some 0, r_zombies := Some 1, r_log := [EvEnv (EnvFree 9)],
     r_tasks := (r_tasks ex1)(0 := ex_main\<lparr>t_sp := FAwait 1\<rparr>,
       1 := (ex_task 1 None)\<lparr>t_state := GT_STATE_DONE, t_sp := FEnded, t_njoiners := 1,
              t_body := ex_body\<lparr>env := None\<rparr>\<rparr>)\<rparr>"

definition ex5 :: "(unit, unit) gt_runtime" where
  "ex5 = ex4\<lparr>r_zombies := None, r_stack_cache := [69632], r_cached_size := GT_STACK_SIZE,
     r_tasks := (r_tasks ex4)(1 := (r_tasks ex4 1)\<lparr>t_stack := None\<rparr>)\<rparr>"

lemma ex3_await: "gt_await blk_io_poll 0x100001 ex1 = Some (AtSwitch, ex3)"
  by (simp add: gt_await_def gt_resolve_def handle_idx_def handle_gen_def gt_block_def gt_pick.simps
      gt_rq_pop_def gt_switch_to_def ex3_def ex_defs upd_task_def Let_def gt_consts)
    (simp add: fun_eq_iff)

lemma ex3_land: "gt_land ex_mem ex3 = Some (AtFrame FTrampoline, ex3)"
  by (simp add: gt_land_def ex3_def ex_defs)

lemma ex4_finish: "gt_finish blk_io_poll ex3 = Some (AtSwitch, ex4)"
  by (simp add: gt_finish_def gt_wake.simps gt_pick.simps gt_rq_pop_def gt_rq_push_def log_event_def
      sppc_env_free_def ex4_def ex3_def ex_defs upd_task_def Let_def gt_consts)

lemma ex5_land: "gt_land ex_mem ex4 = Some (AtFrame (FAwait 1), ex5)"
  by (simp add: gt_land_def gt_reap_def gt_reap_from.simps gt_reap_one_def gt_stack_free_def
      ex5_def ex4_def ex3_def ex_defs upd_task_def Let_def gt_consts)

text \<open>The spawned task awaits the main task, which awaits it: both are stuck, and the thread panics.\<close>

definition ex7 :: "(unit, unit) gt_runtime" where
  "ex7 = ex3\<lparr>r_tasks := (r_tasks ex1)
     (0 := ex_main\<lparr>t_state := GT_STATE_JOINING, t_sp := FAwait 1, t_waiters := Some 1, t_njoiners := 1\<rparr>,
      1 := (ex_task 1 None)\<lparr>t_state := GT_STATE_JOINING, t_waiters := Some 0, t_njoiners := 1\<rparr>)\<rparr>"

lemma ex7_deadlock: "gt_await blk_io_poll 0x100000 ex3 = Some (Panicked (PDeadlock 1), ex7)"
  by (simp add: gt_await_def gt_resolve_def handle_idx_def handle_gen_def gt_block_def gt_pick.simps
      gt_rq_pop_def ex7_def ex3_def ex_defs upd_task_def Let_def gt_consts)

lemma ex4_reach: "blk_step\<^sup>*\<^sup>* (InBody 0, ex0) (AtSwitch, ex4)"
proof -
  note R = converse_rtranclp_into_rtranclp
  have run: "t_stack (r_tasks ex3 1) \<noteq> None" "r_current ex3 = Some 1"
    by (simp_all add: ex3_def ex_defs)
  have "blk_step (AtFrame FTrampoline, ex3) (InBody 0, ex3)"
    using sched_step.cont [where k = FTrampoline and s = ex3] by (simp add: gt_continue_def)
  moreover have "blk_step (InBody 0, ex3) (AtSwitch, ex4)"
    by (rule sched_step.finish [OF run(2,1) ex4_finish])
  ultimately have "blk_step\<^sup>*\<^sup>* (AtFrame FTrampoline, ex3) (AtSwitch, ex4)"
    by (blast intro: R)
  then have "blk_step\<^sup>*\<^sup>* (InBody 0, ex1) (AtSwitch, ex4)"
    by (blast intro: R sched_step.await [OF ex3_await] sched_step.land [OF ex3_land])
  then show ?thesis by (blast intro: R sched_step.spawn [OF ex1_spawn])
qed

lemma ex5_reach: "blk_step\<^sup>*\<^sup>* (InBody 0, ex0) (AtFrame (FAwait 1), ex5)"
  using ex4_reach sched_step.land [OF ex5_land] by (rule rtranclp.rtrancl_into_rtrancl)

lemma ex5_ok: "blk_ok (AtFrame (FAwait 1), ex5)"
  by (rule blk.steps_ok [OF ex5_reach ex0_ok])

lemma ex7_reach: "blk_step\<^sup>*\<^sup>* (InBody 0, ex0) (Panicked (PDeadlock 1), ex7)"
proof -
  note R = converse_rtranclp_into_rtranclp
  have "blk_step (AtFrame FTrampoline, ex3) (InBody 0, ex3)"
    using sched_step.cont [where k = FTrampoline and s = ex3] by (simp add: gt_continue_def)
  then have "blk_step\<^sup>*\<^sup>* (AtFrame FTrampoline, ex3) (Panicked (PDeadlock 1), ex7)"
    by (blast intro: R sched_step.await [OF ex7_deadlock])
  then show ?thesis
    by (blast intro: R sched_step.spawn [OF ex1_spawn] sched_step.await [OF ex3_await]
        sched_step.land [OF ex3_land])
qed

text \<open>What a phase says of the scheduler's books.\<close>

lemma phase_books:
  assumes "phase_ok p s a"
  shows "\<exists>X. core X a \<and> running a = (case p of Panicked m \<Rightarrow> {} | _ \<Rightarrow> {s_cur a}) \<and>
    (case p of AtSwitch \<Rightarrow> True | Panicked m \<Rightarrow> True | _ \<Rightarrow> s_dead a = [])"
proof (cases p)
  case (Panicked m)
  then show ?thesis using assms by (cases m) (auto simp: idle_ok_def)
qed (use assms in \<open>auto simp: body_ok_def switch_ok_def\<close>)

section \<open>Every reachable state\<close>

text \<open>Every state reached from the started runtime keeps the invariant, as every step does.\<close>

lemma started_ok:
  assumes "gt_backend out ok poll poll_until submit teardown"
    and "gt_init_slow calloc os io0 ior0 io_setup usp = Inr s0"
    and "\<And>s. r_inflight s = 0 \<Longrightarrow> r_io s = ior0 \<Longrightarrow> io_setup s = s\<lparr>r_io := io\<rparr>"
    and "ok io" and "out io = {}"
    and "(sched_step poll poll_until submit teardown)\<^sup>*\<^sup>* (InBody 0, s0) c"
  shows "conf_ok out ok c"
  by (rule gt_backend.steps_ok [OF assms(1) assms(6)], rule init_conf_ok [OF assms(2)]) (use assms in auto)

text \<open>C1: As long as no task is detached that somebody still awaits: whatever else the tasks of a thread do -
  spawn, await, detach, yield, finish, park on the backend, take and release thread locks, wait on conditions,
  drain - and whatever a backend that keeps its contract completes meanwhile, every state the
  started runtime reaches satisfies the scheduler's invariant.\<close>

theorem sched_invariant:
  assumes "gt_backend out ok poll poll_until submit teardown"
    and "gt_init_slow calloc os io0 ior0 io_setup usp = Inr s0"
    and "\<And>s. r_inflight s = 0 \<Longrightarrow> r_io s = ior0 \<Longrightarrow> io_setup s = s\<lparr>r_io := io\<rparr>"
    and "ok io" and "out io = {}"
    and "(sched_step poll poll_until submit teardown)\<^sup>*\<^sup>* (InBody 0, s0) c"
  shows "conf_ok out ok c"
  by (rule started_ok [OF assms])

theorem sched_invariant_witness: "conf_ok (\<lambda>_. {}) (\<lambda>_. True) (AtFrame (FAwait 1), ex5)"
  by (rule sched_invariant [OF blk.gt_backend_axioms ex0_init _ _ _ ex5_reach, where io = "()"])
    (simp_all add: blk_io_setup_def)

text \<open>C2: In every state the started runtime reaches (no awaited task having been detached), also in the middle of a
  switch: the run queue links exactly the ready tasks, each once, and ends in its tail; the free list links
  exactly the free slots, each once; what is waiting to be reaped is done, and there is nothing of it while a task's
  code runs; the current task is the one running task, and after a panic none is; and the counters of live tasks and
  of outstanding operations are exact.\<close>

theorem sched_accounting:
  assumes "gt_backend out ok poll poll_until submit teardown"
    and "gt_init_slow calloc os io0 ior0 io_setup usp = Inr s0"
    and "\<And>s. r_inflight s = 0 \<Longrightarrow> r_io s = ior0 \<Longrightarrow> io_setup s = s\<lparr>r_io := io\<rparr>"
    and "ok io" and "out io = {}"
    and "(sched_step poll poll_until submit teardown)\<^sup>*\<^sup>* (InBody 0, s0) (p, s)"
  shows "\<exists>rq fs zs c. chain (nxt s) (r_rq_head s) rq \<and> r_rq_tail s = last_opt rq \<and> distinct rq \<and>
    set rq = {t. t < r_nslots s \<and> t_state (r_tasks s t) = GT_STATE_READY} \<and>
    chain (nxt s) (r_free_slots s) fs \<and> distinct fs \<and>
    set fs = {t. t < r_nslots s \<and> t_state (r_tasks s t) = GT_STATE_FREE} \<and>
    chain (nxt s) (r_zombies s) zs \<and> distinct zs \<and>
    set zs \<subseteq> {t. t < r_nslots s \<and> t_state (r_tasks s t) = GT_STATE_DONE} \<and>
    (case p of AtSwitch \<Rightarrow> True | Panicked m \<Rightarrow> True | _ \<Rightarrow> zs = []) \<and>
    r_current s = Some c \<and>
    {t. t < r_nslots s \<and> t_state (r_tasks s t) = GT_STATE_RUNNING} = (case p of Panicked m \<Rightarrow> {} | _ \<Rightarrow> {c}) \<and>
    r_live s = of_nat (card {t. t < r_nslots s \<and> t_state (r_tasks s t) \<noteq> GT_STATE_FREE}) \<and>
    r_inflight s = of_nat (card {t. t < r_nslots s \<and> t_state (r_tasks s t) = GT_STATE_WAITING})"
proof -
  obtain a where a: "rep out ok s a" "phase_ok p s a" using started_ok [OF assms] by (auto simp: conf_ok_def)
  obtain X where core: "core X a"
    and run: "running a = (case p of Panicked m \<Rightarrow> {} | _ \<Rightarrow> {s_cur a})"
    and dead: "case p of AtSwitch \<Rightarrow> True | Panicked m \<Rightarrow> True | _ \<Rightarrow> s_dead a = []"
    using phase_books [OF a(2)] by blast
  note R = reprD [OF repD(1) [OF a(1)]]
  note q = coreD(1) [OF core, unfolded queues_ok_def]
  have n: "r_nslots s = s_n a" using R(2) .
  have st: "t < s_n a \<Longrightarrow> t_state (r_tasks s t) = st a t" for t using R(9) [of t] by (simp add: task_repr_def)
  have sets: "{t. t < r_nslots s \<and> t_state (r_tasks s t) = k} = {t. t < s_n a \<and> st a t = k}" for k
    unfolding n using st by auto
  have "{t. t < r_nslots s \<and> t_state (r_tasks s t) \<noteq> GT_STATE_FREE} = live_set a"
    unfolding n live_set_def using st by auto
  then show ?thesis
    unfolding sets using R q run dead coreD(4) [OF core]
    by (intro exI [of _ "s_run a"] exI [of _ "s_free a"] exI [of _ "s_dead a"] exI [of _ "s_cur a"])
      (simp add: rq_list_def running_def counts_ok_def parked_def)
qed

theorem sched_accounting_witness:
  "\<exists>rq fs zs c. chain (nxt ex4) (r_rq_head ex4) rq \<and> r_rq_tail ex4 = last_opt rq \<and> distinct rq \<and>
    set rq = {t. t < r_nslots ex4 \<and> t_state (r_tasks ex4 t) = GT_STATE_READY} \<and>
    chain (nxt ex4) (r_free_slots ex4) fs \<and> distinct fs \<and>
    set fs = {t. t < r_nslots ex4 \<and> t_state (r_tasks ex4 t) = GT_STATE_FREE} \<and>
    chain (nxt ex4) (r_zombies ex4) zs \<and> distinct zs \<and>
    set zs \<subseteq> {t. t < r_nslots ex4 \<and> t_state (r_tasks ex4 t) = GT_STATE_DONE} \<and>
    (case AtSwitch of AtSwitch \<Rightarrow> True | Panicked m \<Rightarrow> True | _ \<Rightarrow> zs = []) \<and>
    r_current ex4 = Some c \<and>
    {t. t < r_nslots ex4 \<and> t_state (r_tasks ex4 t) = GT_STATE_RUNNING} = (case AtSwitch of Panicked m \<Rightarrow> {} | _ \<Rightarrow> {c}) \<and>
    r_live ex4 = of_nat (card {t. t < r_nslots ex4 \<and> t_state (r_tasks ex4 t) \<noteq> GT_STATE_FREE}) \<and>
    r_inflight ex4 = of_nat (card {t. t < r_nslots ex4 \<and> t_state (r_tasks ex4 t) = GT_STATE_WAITING})"
  by (rule sched_accounting [OF blk.gt_backend_axioms ex0_init _ _ _ ex4_reach, where io = "()"])
    (simp_all add: blk_io_setup_def)

text \<open>C3: The started runtime (no awaited task having been detached) never follows a null pointer or switches into a
  finished task, and the scheduler panics only when it must: no task is ready or running and no operation is
  outstanding.\<close>

theorem sched_panics_only_stuck:
  assumes "gt_backend out ok poll poll_until submit teardown"
    and "gt_init_slow calloc os io0 ior0 io_setup usp = Inr s0"
    and "\<And>s. r_inflight s = 0 \<Longrightarrow> r_io s = ior0 \<Longrightarrow> io_setup s = s\<lparr>r_io := io\<rparr>"
    and "ok io" and "out io = {}"
    and "(sched_step poll poll_until submit teardown)\<^sup>*\<^sup>* (InBody 0, s0) (p, s)"
  shows "case p of
      Crashed \<Rightarrow> False
    | Panicked m \<Rightarrow> m \<noteq> PResumed \<and> r_rq_head s = None \<and>
        {t. t < r_nslots s \<and> t_state (r_tasks s t) \<in> {GT_STATE_READY, GT_STATE_RUNNING, GT_STATE_WAITING}} = {}
    | _ \<Rightarrow> True"
proof -
  obtain a where a: "rep out ok s a" "phase_ok p s a" using started_ok [OF assms] by (auto simp: conf_ok_def)
  note R = reprD [OF repD(1) [OF a(1)]]
  have "r_rq_head s = None \<and>
      {t. t < r_nslots s \<and> t_state (r_tasks s t) \<in> {GT_STATE_READY, GT_STATE_RUNNING, GT_STATE_WAITING}} = {}"
    if "p = Panicked m" for m
  proof -
    have i: "idle_ok a" "s_run a = []" "s_inflight a = 0" using a(2) that by (cases m; simp)+
    have core: "core {} a" "running a = {}" using i by (simp_all add: idle_ok_def)
    have "t_state (r_tasks s t) \<notin> {GT_STATE_READY, GT_STATE_RUNNING, GT_STATE_WAITING}" if t: "t < s_n a" for t
    proof -
      have "st a t \<noteq> GT_STATE_READY" using coreD(1) [OF core(1)] i(2) t by (auto simp: queues_ok_def)
      moreover have "st a t \<noteq> GT_STATE_RUNNING" using core(2) t by (auto simp: running_def)
      moreover have "st a t \<noteq> GT_STATE_WAITING"
        using inflight_zero(2) [OF repD(1) [OF a(1)] core(1)] i(3) t by (auto simp: parked_def)
      ultimately show ?thesis using R(9) [OF t] by (simp add: task_repr_def)
    qed
    then show ?thesis using R(2,4) i(2) by (auto simp: rq_list_def)
  qed
  then show ?thesis using a(2) by (cases p) auto
qed

theorem sched_panics_only_stuck_witness:
  "case Panicked (PDeadlock 1) of
      Crashed \<Rightarrow> False
    | Panicked m \<Rightarrow> m \<noteq> PResumed \<and> r_rq_head ex7 = None \<and>
        {t. t < r_nslots ex7 \<and> t_state (r_tasks ex7 t) \<in> {GT_STATE_READY, GT_STATE_RUNNING, GT_STATE_WAITING}} = {}
    | _ \<Rightarrow> True"
  by (rule sched_panics_only_stuck [OF blk.gt_backend_axioms ex0_init _ _ _ ex7_reach, where io = "()"])
    (simp_all add: blk_io_setup_def)

section \<open>Await\<close>

text \<open>C18: When an awaiter carries on, the task it awaited is done; the await returns 0, and the
  task's slot is retired exactly by the last awaiter to carry on.\<close>

theorem await_returns_done:
  assumes "conf_ok out ok (AtFrame (FAwait t), s)"
  shows "t_state (r_tasks s t) = GT_STATE_DONE \<and> t_njoiners (r_tasks s t) \<noteq> 0 \<and>
    fst (gt_continue (FAwait t) s) = InBody 0 \<and>
    t_state (r_tasks (snd (gt_continue (FAwait t) s)) t) =
      (if t_njoiners (r_tasks s t) = 1 then GT_STATE_FREE else GT_STATE_DONE)"
proof -
  obtain a where a: "rep out ok s a" "switch_ok a" "s_dead a = []" "fr a (s_cur a) = FAwait t"
    using assms by (auto simp: conf_ok_def)
  note C = core_collect [OF a(2,4,3)]
  have core: "core {s_cur a} a" using a(2) by (simp add: switch_ok_def)
  note T = reprD(9) [OF repD(1) [OF a(1)] C(4), unfolded task_repr_def]
  have "t_njoiners (r_tasks s t) \<noteq> 0" using njoiners_zero [OF repD(1) [OF a(1)] core C(4)] C(5) by simp
  then show ?thesis using T C(2)
    by (simp add: gt_continue_def gt_await_resumed_def gt_collect_def gt_slot_free_def)
qed

theorem await_returns_done_witness:
  "t_state (r_tasks ex5 1) = GT_STATE_DONE \<and> t_njoiners (r_tasks ex5 1) \<noteq> 0 \<and>
    fst (gt_continue (FAwait 1) ex5) = InBody 0 \<and>
    t_state (r_tasks (snd (gt_continue (FAwait 1) ex5)) 1) =
      (if t_njoiners (r_tasks ex5 1) = 1 then GT_STATE_FREE else GT_STATE_DONE)"
  by (rule await_returns_done [OF ex5_ok])

lemma next_gen_differs: "1 \<le> g \<Longrightarrow> g < 2048 \<Longrightarrow> next_gen_nat g \<noteq> g"
  by (cases "Suc g = 2048") (auto simp: next_gen_nat_def Let_def)

text \<open>Awaiting a finished task nobody else awaits returns 0 at once and retires its handle:
  awaiting the same handle again is refused with EINVAL.\<close>

theorem await_retires_handle:
  assumes "conf_ok out ok (InBody v, s)" and "gt_resolve h s = Some t" and "r_current s \<noteq> Some t"
    and "t_state (r_tasks s t) = GT_STATE_DONE" and "\<not> t_detached (r_tasks s t)" and "t_njoiners (r_tasks s t) = 0"
  shows "\<exists>s'. gt_await poll h s = Some (InBody 0, s') \<and> gt_await poll h s' = Some (InBody SPPC_EINVAL, s')"
proof -
  have "gt_await poll h s = Some (InBody 0, gt_slot_free t s)"
    using assms by (simp add: gt_await_def gt_collect_def)
  moreover have "gt_resolve h (gt_slot_free t s) = None"
    using assms(2) by (auto simp: gt_resolve_def gt_slot_free_def Let_def split: if_splits)
  ultimately show ?thesis by (simp add: gt_await_def)
qed

text \<open>A task that finished with nobody awaiting it, seen by the main task.\<close>

definition ex6 :: "(unit, unit) gt_runtime" where
  "ex6 = ex1\<lparr>r_rq_head := None, r_rq_tail := None, r_log := [EvEnv (EnvFree 9)],
     r_stack_cache := [69632], r_cached_size := GT_STACK_SIZE,
     r_tasks := (r_tasks ex1)(0 := ex_main\<lparr>t_sp := FYield\<rparr>,
       1 := (ex_task 1 None)\<lparr>t_state := GT_STATE_DONE, t_sp := FEnded, t_stack := None,
              t_body := ex_body\<lparr>env := None\<rparr>\<rparr>)\<rparr>"

definition ex6a :: "(unit, unit) gt_runtime" where
  "ex6a = ex1\<lparr>r_current := Some 1, r_rq_head := Some 0, r_rq_tail := Some 0,
     r_tasks := (r_tasks ex1)(0 := ex_main\<lparr>t_state := GT_STATE_READY, t_sp := FYield\<rparr>,
       1 := (ex_task 1 None)\<lparr>t_state := GT_STATE_RUNNING\<rparr>)\<rparr>"

definition ex6b :: "(unit, unit) gt_runtime" where
  "ex6b = ex6\<lparr>r_zombies := Some 1, r_stack_cache := [], r_cached_size := 0,
     r_tasks := (r_tasks ex6)(1 := (r_tasks ex6 1)\<lparr>t_stack := Some 69632\<rparr>)\<rparr>"

lemmas ex6_defs = ex6_def ex6a_def ex6b_def ex_defs

lemma ex6_reach: "blk_step\<^sup>*\<^sup>* (InBody 0, ex0) (InBody 0, ex6)"
proof -
  note R = converse_rtranclp_into_rtranclp
  have y: "gt_yield blk_io_poll ex1 = Some (AtSwitch, ex6a)"
    by (simp add: gt_yield_def gt_rq_pop_def gt_rq_push_def gt_switch_to_def ex6_defs upd_task_def Let_def)
      (simp add: fun_eq_iff)
  have l: "gt_land ex_mem ex6a = Some (AtFrame FTrampoline, ex6a)"
    by (simp add: gt_land_def ex6_defs)
  have f: "gt_finish blk_io_poll ex6a = Some (AtSwitch, ex6b)"
    by (simp add: gt_finish_def gt_wake.simps gt_pick.simps gt_rq_pop_def log_event_def
        sppc_env_free_def ex6_defs upd_task_def Let_def gt_consts)
  have l2: "gt_land ex_mem ex6b = Some (AtFrame FYield, ex6)"
    by (simp add: gt_land_def gt_reap_def gt_reap_from.simps gt_reap_one_def gt_stack_free_def
        ex6_defs upd_task_def Let_def gt_consts)
  have run: "t_stack (r_tasks ex6a 1) \<noteq> None" "r_current ex6a = Some 1" by (simp_all add: ex6_defs)
  have c: "blk_step (AtFrame FTrampoline, ex6a) (InBody 0, ex6a)" "blk_step (AtFrame FYield, ex6) (InBody 0, ex6)"
    using sched_step.cont [where k = FTrampoline and s = ex6a] sched_step.cont [where k = FYield and s = ex6]
    by (simp_all add: gt_continue_def)
  have "blk_step\<^sup>*\<^sup>* (AtSwitch, ex6a) (InBody 0, ex6)"
    by (blast intro: R c sched_step.land [OF l] sched_step.finish [OF run(2,1) f] sched_step.land [OF l2])
  then show ?thesis by (blast intro: R sched_step.spawn [OF ex1_spawn] sched_step.yield [OF y])
qed

lemma ex6_ok: "blk_ok (InBody 0, ex6)"
  by (rule blk.steps_ok [OF ex6_reach ex0_ok])

lemma ex6_resolve: "gt_resolve 0x100001 ex6 = Some 1"
  by (simp add: gt_resolve_def handle_idx_def handle_gen_def ex6_defs gt_consts Let_def)

theorem await_retires_handle_witness:
  "\<exists>s'. gt_await blk_io_poll 0x100001 ex6 = Some (InBody 0, s') \<and>
    gt_await blk_io_poll 0x100001 s' = Some (InBody SPPC_EINVAL, s')"
  by (rule await_retires_handle [OF ex6_ok ex6_resolve]) (simp_all add: ex6_defs)

section \<open>Handles\<close>

text \<open>C9: A retired handle stays retired when its slot is used again: the slot freed last is the
  one the next task gets, and the old handle does not resolve to the new task.\<close>

theorem stale_handle_refused:
  assumes "conf_ok out ok (InBody v, s)" and "gt_resolve h s = Some t"
    and "gt_slot_alloc os io0 (gt_slot_free t s) = (Some t', s')"
  shows "t' = t \<and> gt_resolve h (gt_rq_push t' s') = None"
proof -
  obtain a where a: "rep out ok s a" "body_ok a" using assms(1) by (auto simp: conf_ok_def)
  note T = resolve_Some [OF repD(1) [OF a(1)] assms(2)]
  have g: "1 \<le> s_gen (s_task a t)" "s_gen (s_task a t) < 2048"
    using a(2) T(1) by (auto simp: body_ok_def core_def counts_ok_def)
  have G: "t_gen (r_tasks s t) = of_nat (s_gen (s_task a t))"
    using reprD(9) [OF repD(1) [OF a(1)] T(1)] by (simp add: task_repr_def)
  let ?g = "next_gen_nat (s_gen (s_task a t))"
  have ng: "1 \<le> ?g" "?g < 2048" "?g \<noteq> s_gen (s_task a t)"
    using next_gen_nat_bounds next_gen_differs [OF g] by auto
  have nz: "(of_nat ?g :: u32) \<noteq> 0" using of_nat_eq_0 [of ?g, where 'a = 32] ng by simp
  have ne: "(of_nat ?g :: u32) \<noteq> of_nat (s_gen (s_task a t))"
  proof
    assume "(of_nat ?g :: u32) = of_nat (s_gen (s_task a t))"
    then have "unat (of_nat ?g :: u32) = unat (of_nat (s_gen (s_task a t)) :: u32)" by simp
    then show False using ng g by (simp add: unat_of_nat_id)
  qed
  have t: "t' = t" "t_gen (r_tasks s' t) = of_nat ?g"
    using assms(3) nz by (auto simp: gt_slot_alloc_def gt_slot_free_def Let_def G next_gen_of_nat [OF g(2)])
  have hg: "handle_gen h = of_nat (s_gen (s_task a t))" "unat (handle_idx h) = t"
    using T(3) assms(2) by (auto simp: gt_resolve_def Let_def split: if_splits)
  show ?thesis using t ne hg by (simp add: gt_resolve_def Let_def)
qed

theorem stale_handle_refused_witness:
  "\<exists>t' s'. gt_slot_alloc (sp_slot ex_spawn) () (gt_slot_free 1 ex6) = (Some t', s') \<and>
     t' = 1 \<and> gt_resolve 0x100001 (gt_rq_push t' s') = None"
proof -
  obtain s' where "gt_slot_alloc (sp_slot ex_spawn) () (gt_slot_free 1 ex6) = (Some 1, s')"
    by (simp add: gt_slot_alloc_def gt_slot_free_def Let_def)
  from this stale_handle_refused [OF ex6_ok ex6_resolve this] show ?thesis by blast
qed

lemma spawn_result:
  "gt_spawn os body s = (res, Some h, s') \<Longrightarrow>
   \<exists>t s4. s' = gt_rq_push t s4 \<and> t_body (r_tasks s4 t) = body \<and> h = gt_handle (r_tasks s' t)"
  by (auto simp: gt_spawn_def Let_def split: option.splits prod.splits if_splits)
    (rule exI, rule exI, rule conjI, rule refl, simp)+

text \<open>A spawned task's handle is a positive int and resolves to it; the task is ready, last in
  the run queue, runs the closure it was given, and lives in a slot no other live task has.\<close>

theorem spawn_handle_resolves:
  assumes "conf_ok out ok (InBody v, s)" and "gt_spawn os body s = (0, Some h, s')"
  shows "\<exists>t. gt_resolve h s' = Some t \<and> 0 < sint h \<and> t_state (r_tasks s' t) = GT_STATE_READY \<and>
    r_rq_tail s' = Some t \<and> t_body (r_tasks s' t) = body \<and>
    (t < r_nslots s \<longrightarrow> t_state (r_tasks s t) = GT_STATE_FREE)"
proof -
  obtain a where a: "rep out ok s a" "body_ok a" using assms(1) by (auto simp: conf_ok_def)
  let ?t = "fst (a_spawn a)"
  from repr_spawn [OF repD(1) [OF a(1)] a(2) assms(2)] have
    b: "repr s' (snd (a_spawn a))" "body_ok (snd (a_spawn a))" "h = gt_handle (r_tasks s' ?t)" by auto
  have core: "core {} (snd (a_spawn a))" using b(2) by (simp add: body_ok_def)
  have run: "s_run (snd (a_spawn a)) = s_run a @ [?t]"
    by (auto simp: a_spawn_def a_alloc_def a_push_def split: list.split)
  have tn: "?t < s_n (snd (a_spawn a))" and st: "st (snd (a_spawn a)) ?t = GT_STATE_READY"
    using coreD(1) [OF core] run by (auto simp: queues_ok_def)
  note R = reprD(9) [OF b(1) tn, unfolded task_repr_def]
  have n: "s_n (snd (a_spawn a)) \<le> 2 ^ 19" and g: "1 \<le> s_gen (s_task (snd (a_spawn a)) ?t)"
    "s_gen (s_task (snd (a_spawn a)) ?t) < 2048"
    using coreD(4) [OF core] tn by (auto simp: counts_ok_def)
  have i: "unat (t_idx (r_tasks s' ?t)) = ?t"
    using R tn n by (simp add: unat_of_nat_id)
  have gn: "unat (t_gen (r_tasks s' ?t)) = s_gen (s_task (snd (a_spawn a)) ?t)"
    using R g by (simp add: unat_of_nat_id)
  have lt: "unat (t_idx (r_tasks s' ?t)) < 2 ^ 20" "unat (t_gen (r_tasks s' ?t)) < 2 ^ 11"
    using i tn n gn g by simp_all
  have nz: "t_gen (r_tasks s' ?t) \<noteq> 0" using gn g by auto
  have pos: "0 < sint h" unfolding b(3) by (rule handle_positive [OF lt nz])
  have res: "gt_resolve h s' = Some ?t"
  proof -
    have "unat (handle_idx h) = ?t" "handle_gen h = t_gen (r_tasks s' ?t)"
      unfolding b(3) using handle_idx_pack [OF lt(1)] handle_gen_pack [OF lt] i by simp_all
    then show ?thesis using pos R st tn reprD(2) [OF b(1)] by (simp add: gt_resolve_def Let_def)
  qed
  obtain t2 s4 where s4: "s' = gt_rq_push t2 s4" "t_body (r_tasks s4 t2) = body" using spawn_result [OF assms(2)] by blast
  have tl: "r_rq_tail s' = Some ?t" using reprD(4) [OF b(1)] run by (simp add: rq_list_def)
  have "r_rq_tail s' = Some t2" unfolding s4(1) by (simp add: gt_rq_push_def Let_def)
  then have "t2 = ?t" using tl by simp
  then have bd: "t_body (r_tasks s' ?t) = body" using s4 by simp
  have "t_state (r_tasks s ?t) = GT_STATE_FREE" if "?t < r_nslots s"
  proof -
    have ta: "?t < s_n a" using that reprD(2) [OF repD(1) [OF a(1)]] by simp
    have "core {} a" using a(2) by (simp add: body_ok_def)
    note q = coreD(1) [OF this, unfolded queues_ok_def]
    have "?t \<in> set (s_free a)" using ta by (auto simp: a_spawn_def a_alloc_def split: list.splits)
    then have "st a ?t = GT_STATE_FREE" using q by auto
    then show ?thesis using reprD(9) [OF repD(1) [OF a(1)] ta] by (simp add: task_repr_def)
  qed
  then show ?thesis using res pos R st tl bd by auto
qed

theorem spawn_handle_resolves_witness:
  "\<exists>t. gt_resolve 0x100002 ex2 = Some t \<and> 0 < sint (0x100002 :: u32) \<and>
    t_state (r_tasks ex2 t) = GT_STATE_READY \<and> r_rq_tail ex2 = Some t \<and> t_body (r_tasks ex2 t) = ex_body \<and>
    (t < r_nslots ex1 \<longrightarrow> t_state (r_tasks ex1 t) = GT_STATE_FREE)"
proof -
  have "blk_step (InBody 0, ex0) (InBody 0, ex1)" by (rule sched_step.spawn [OF ex1_spawn])
  then have "blk_ok (InBody 0, ex1)" by (rule blk.step_ok [OF _ ex0_ok])
  then show ?thesis by (rule spawn_handle_resolves [OF _ ex2_spawn])
qed

section \<open>Fairness\<close>

text \<open>One yield of the current task, up to where the next one's code runs.\<close>

definition yield_once :: "('t, 'r) gt_poll \<Rightarrow> os_mem \<Rightarrow> ('t, 'r) gt_runtime \<Rightarrow> ('t, 'r) gt_runtime option" where
  "yield_once poll os s = do {
     (p, s1) \<leftarrow> gt_yield poll s;
     (case p of
        InBody _ \<Rightarrow> Some s1
      | AtSwitch \<Rightarrow> do {
          (q, s2) \<leftarrow> gt_land os s1;
          (case q of
             AtFrame k \<Rightarrow> (case gt_continue k s2 of (InBody _, s3) \<Rightarrow> Some s3 | _ \<Rightarrow> None)
           | _ \<Rightarrow> None)
        }
      | _ \<Rightarrow> None)
   }"

primrec yields :: "('t, 'r) gt_poll \<Rightarrow> os_mem \<Rightarrow> nat \<Rightarrow> ('t, 'r) gt_runtime \<Rightarrow> ('t, 'r) gt_runtime option" where
  "yields poll os 0 s = Some s"
| "yields poll os (Suc n) s = do { s1 \<leftarrow> yields poll os n s; yield_once poll os s1 }"

text \<open>Nothing but yielding tasks: the current one, then the queued ones in order.\<close>

definition yielding :: "('t, 'r) gt_runtime \<Rightarrow> tptr list \<Rightarrow> bool" where
  "yielding s ts \<longleftrightarrow> ts \<noteq> [] \<and> r_current s = Some (hd ts) \<and> rq_list s (tl ts) \<and> distinct ts \<and>
     r_inflight s = 0 \<and> r_zombies s = None \<and> (\<forall>t \<in> set (tl ts). t_sp (r_tasks s t) \<in> {FYield, FTrampoline})"

lemma yielding_once:
  assumes "yielding s ts"
  shows "\<exists>s'. yield_once poll os s = Some s' \<and> yielding s' (rotate1 ts)"
proof -
  obtain c xs where ts: "ts = c # xs" using assms by (cases ts) (auto simp: yielding_def)
  have A: "r_current s = Some c" "rq_list s xs" "c \<notin> set xs" "distinct xs" "r_inflight s = 0" "r_zombies s = None"
    and sp: "\<And>t. t \<in> set xs \<Longrightarrow> t_sp (r_tasks s t) \<in> {FYield, FTrampoline}"
    using assms by (auto simp: yielding_def ts)
  show ?thesis
  proof (cases xs)
    case Nil
    then have "gt_rq_pop s = (None, s)" using A gt_rq_pop_empty by metis
    then have "gt_yield poll s = Some (InBody 0, s)" using A by (simp add: gt_yield_def)
    then show ?thesis using assms Nil ts by (simp add: yield_once_def)
  next
    case (Cons t us)
    obtain q s1 where pop0: "gt_rq_pop s = (q, s1)" by (cases "gt_rq_pop s")
    have P: "q = Some t \<and> rq_list s1 us \<and> rq_frame {t} s s1"
      by (rule gt_rq_pop_frame [OF _ pop0]) (use A(2) Cons in simp)
    then have pop: "gt_rq_pop s = (Some t, s1)" "rq_list s1 us" "rq_frame {t} s s1" using pop0 by auto
    note F = rq_frame_fields [OF pop(3)] rq_frame_tasks [OF pop(3)]
    let ?s2 = "gt_rq_push c s1"
    have q2: "rq_list ?s2 (us @ [c])" by (rule gt_rq_push_list [OF pop(2)]) (use A(3) Cons in simp)
    have tc: "t \<noteq> c" using A(3) Cons by auto
    obtain s3 where s3: "gt_switch_to FYield t ?s2 = (AtSwitch, s3)" "r_current s3 = Some t"
      "rq_list s3 (us @ [c])" "r_inflight s3 = 0" "r_zombies s3 = None"
      "\<And>u. t_sp (r_tasks s3 u) = (if u = c then FYield else t_sp (r_tasks s u))"
    proof -
      define s3 where "s3 = snd (gt_switch_to FYield t ?s2)"
      have cur: "r_current ?s2 = Some c" using A(1) F by simp
      have "nxt s3 = nxt ?s2" "r_rq_head s3 = r_rq_head ?s2" "r_rq_tail s3 = r_rq_tail ?s2"
        using tc cur by (auto simp: s3_def gt_switch_to_def Let_def nxt_def fun_eq_iff)
      then have "rq_list s3 (us @ [c])" using q2 by (simp add: rq_list_def)
      moreover have "gt_switch_to FYield t ?s2 = (AtSwitch, s3)" "r_current s3 = Some t"
        "r_inflight s3 = 0" "r_zombies s3 = None"
        "t_sp (r_tasks s3 u) = (if u = c then FYield else t_sp (r_tasks s u))" for u
        using tc cur A F by (simp_all add: s3_def gt_switch_to_def Let_def)
      ultimately show ?thesis using that by blast
    qed
    have y: "gt_yield poll s = Some (AtSwitch, s3)" using A(1,5) pop s3(1) by (simp add: gt_yield_def)
    have k: "t_sp (r_tasks s3 t) \<in> {FYield, FTrampoline}" using s3(6) tc sp Cons by simp
    have l: "gt_land os s3 = Some (AtFrame (t_sp (r_tasks s3 t)), s3)"
      using s3(2,5) k by (auto simp: gt_land_def)
    have "gt_continue (t_sp (r_tasks s3 t)) s3 = (InBody 0, s3)" using k by (auto simp: gt_continue_def)
    then have "yield_once poll os s = Some s3" using y l by (simp add: yield_once_def)
    moreover have "yielding s3 (rotate1 ts)"
      using s3(2-6) A sp Cons tc by (auto simp: yielding_def ts)
    ultimately show ?thesis by blast
  qed
qed

text \<open>C19: Yielding is fair. Among \<^verbatim>\<open>n\<close> tasks that only yield, the processor goes round: after
  \<^verbatim>\<open>k\<close> yields it is with the task at place \<^verbatim>\<open>k mod n\<close> of the order they stood in, so
  every one of them runs again within \<^verbatim>\<open>n\<close> yields.\<close>

theorem yield_round_robin:
  assumes "yielding s ts"
  shows "\<exists>s'. yields poll os k s = Some s' \<and> r_current s' = Some (ts ! (k mod length ts)) \<and>
    yielding s' (rotate k ts)"
proof -
  have "\<exists>s'. yields poll os k s = Some s' \<and> yielding s' (rotate k ts)"
  proof (induction k)
    case 0
    then show ?case using assms by simp
  next
    case (Suc k)
    then obtain s1 where s1: "yields poll os k s = Some s1" "yielding s1 (rotate k ts)" by blast
    from yielding_once [OF s1(2), of poll os] s1(1) show ?case by auto
  qed
  moreover have "hd (rotate k ts) = ts ! (k mod length ts)"
    using assms by (intro hd_rotate_conv_nth) (simp add: yielding_def)
  ultimately show ?thesis by (auto simp: yielding_def)
qed

theorem yield_round_robin_witness:
  "\<exists>s'. yields blk_io_poll ex_mem 5 ex2 = Some s' \<and> r_current s' = Some ([0, 1, 2] ! (5 mod length [0, 1, 2 :: tptr])) \<and>
    yielding s' (rotate 5 [0, 1, 2])"
  by (rule yield_round_robin) (simp add: yielding_def rq_list_def nxt_def ex_defs)

section \<open>Finishing\<close>

lemma wake_list:
  assumes "chain (wnx s) w ws" and "rq_list s xs" and "distinct (xs @ ws)"
  shows "\<exists>s'. gt_wake w s = Some s' \<and> rq_list s' (xs @ ws) \<and> r_inflight s' = r_inflight s \<and>
    r_log s' = r_log s \<and> r_zombies s' = r_zombies s \<and>
    (\<forall>t. t_state (r_tasks s' t) = (if t \<in> set ws then GT_STATE_READY else t_state (r_tasks s t)))"
  using assms
proof (induction ws arbitrary: w s xs)
  case Nil
  then show ?case by (subst gt_wake.simps) simp
next
  case (Cons y ys)
  let ?s1 = "upd_task y (\<lambda>x. x\<lparr>t_wnext := None\<rparr>) s"
  have w: "w = Some y" and ch: "chain (wnx s) (wnx s y) ys" using Cons.prems(1) by auto
  have "nxt ?s1 = nxt s" by (rule nxt_upd_same) simp
  then have "rq_list ?s1 xs" using Cons.prems(2) by (simp add: rq_list_def)
  then have q: "rq_list (gt_rq_push y ?s1) (xs @ [y])" by (rule gt_rq_push_list) (use Cons.prems(3) in simp)
  have c: "chain (wnx (gt_rq_push y ?s1)) (wnx s y) ys" using ch Cons.prems(3) by (simp add: wnx_unwait)
  from Cons.IH [OF c q] Cons.prems(3) obtain s' where
    "gt_wake (wnx s y) (gt_rq_push y ?s1) = Some s'" "rq_list s' (xs @ y # ys)" "r_inflight s' = r_inflight s"
    "r_log s' = r_log s" "r_zombies s' = r_zombies s"
    "\<forall>t. t_state (r_tasks s' t) = (if t \<in> set ys then GT_STATE_READY else t_state (r_tasks (gt_rq_push y ?s1) t))"
    by auto
  then show ?case unfolding w by (subst gt_wake.simps) (auto simp: wnx_def)
qed

text \<open>C20: A task that finishes wakes every one of its awaiters, behind the tasks already ready;
  its captured environment is freed, once; its body's environment is forgotten, and the head of
  the queue runs next.\<close>

theorem finish_wakes_all:
  assumes "r_current s = Some self" and "rq_list s xs" and "chain (wnx s) (t_waiters (r_tasks s self)) ws"
    and "distinct (self # xs @ ws)" and "xs @ ws = t # ts" and "r_inflight s = 0"
  shows "\<exists>s'. gt_finish poll s = Some (AtSwitch, s') \<and> r_current s' = Some t \<and> rq_list s' ts \<and>
    r_zombies s' = Some self \<and> t_state (r_tasks s' self) = GT_STATE_DONE \<and>
    (\<forall>w \<in> set ws. w \<noteq> t \<longrightarrow> t_state (r_tasks s' w) = GT_STATE_READY) \<and>
    t_state (r_tasks s' t) = GT_STATE_RUNNING \<and>
    r_log s' = r_log s @ map EvEnv (sppc_env_free (env (t_body (r_tasks s self))))"
proof -
  define s1 where "s1 = log_event (map EvEnv (sppc_env_free (env (t_body (r_tasks s self))))) s"
  define s2 where "s2 = upd_task self (\<lambda>x. x\<lparr>t_body := (t_body x)\<lparr>env := None\<rparr>, t_state := GT_STATE_DONE\<rparr>) s1"
  define s3 where "s3 = upd_task self (\<lambda>x. x\<lparr>t_waiters := None\<rparr>) s2"
  have nx: "nxt s3 = nxt s" "wnx s3 = wnx s" "r_rq_head s3 = r_rq_head s" "r_rq_tail s3 = r_rq_tail s"
    by (auto simp: nxt_def wnx_def s3_def s2_def s1_def log_event_def fun_eq_iff)
  have w2: "t_waiters (r_tasks s2 self) = t_waiters (r_tasks s self)" by (simp add: s2_def s1_def log_event_def)
  have "rq_list s3 xs" "chain (wnx s3) (t_waiters (r_tasks s2 self)) ws"
    using assms(2,3) unfolding rq_list_def nx w2 by simp_all
  from wake_list [OF this(2,1)] assms(4) obtain s4 where s4:
    "gt_wake (t_waiters (r_tasks s2 self)) s3 = Some s4" "rq_list s4 (xs @ ws)" "r_inflight s4 = r_inflight s3"
    "r_log s4 = r_log s3" "r_zombies s4 = r_zombies s3"
    "\<And>v. t_state (r_tasks s4 v) = (if v \<in> set ws then GT_STATE_READY else t_state (r_tasks s3 v))" by auto
  define s5 where "s5 = (upd_task self (\<lambda>x. x\<lparr>t_next := r_zombies s4\<rparr>) s4)\<lparr>r_zombies := Some self\<rparr>"
  have "nxt s5 = (nxt s4)(self := r_zombies s4)" by (simp add: s5_def nxt_upd)
  then have q5: "rq_list s5 (t # ts)"
    using s4(2) assms(4,5) by (auto simp: rq_list_def s5_def)
  obtain n s6 where p0: "gt_rq_pop s5 = (n, s6)" by (cases "gt_rq_pop s5")
  from gt_rq_pop_frame [OF q5 p0] have p: "n = Some t" "rq_list s6 ts" "rq_frame {t} s5 s6" by auto
  note F = rq_frame_fields [OF p(3)] rq_frame_tasks [OF p(3)]
  have i5: "r_inflight s5 = 0" using s4(3) assms(6) by (simp add: s5_def s3_def s2_def s1_def log_event_def)
  have pick: "gt_pick poll s5 = Some (Some t, s6)" using i5 p0 p(1) by (subst gt_pick.simps) simp
  define s9 where "s9 = upd_task self (\<lambda>x. x\<lparr>t_sp := FEnded\<rparr>)
      ((upd_task t (\<lambda>x. x\<lparr>t_state := GT_STATE_RUNNING\<rparr>) (s6\<lparr>r_current := Some t\<rparr>))
       \<lparr>tls_usp := t_usp (r_tasks (upd_task t (\<lambda>x. x\<lparr>t_state := GT_STATE_RUNNING\<rparr>) (s6\<lparr>r_current := Some t\<rparr>)) t)\<rparr>)"
  have fin: "gt_finish poll s = Some (AtSwitch, s9)"
    using assms(1) s4(1) pick unfolding gt_finish_def s9_def s5_def s3_def s2_def s1_def
    by (simp add: Let_def)
  have ts: "t \<noteq> self" "t \<notin> set ts" using assms(4,5) by (metis distinct.simps(2) list.set_intros(1))+
  have "nxt s9 = nxt s6" "r_rq_head s9 = r_rq_head s6" "r_rq_tail s9 = r_rq_tail s6"
    by (auto simp: s9_def nxt_def fun_eq_iff)
  then have "rq_list s9 ts" using p(2) by (simp add: rq_list_def)
  moreover have "r_current s9 = Some t" by (simp add: s9_def)
  moreover have "r_zombies s9 = Some self" using F by (simp add: s9_def s5_def)
  moreover have "t_state (r_tasks s9 v) = (if v = t then GT_STATE_RUNNING else t_state (r_tasks s4 v))" for v
    using F ts by (auto simp: s9_def s5_def)
  moreover have "r_log s9 = r_log s @ map EvEnv (sppc_env_free (env (t_body (r_tasks s self))))"
    using F s4(4) by (simp add: s9_def s5_def s3_def s2_def s1_def log_event_def)
  moreover have "self \<notin> set ws" using assms(4) by simp
  ultimately show ?thesis using fin s4(6) ts by (auto simp: s3_def s2_def)
qed

theorem finish_wakes_all_witness:
  "\<exists>s'. gt_finish blk_io_poll ex3 = Some (AtSwitch, s') \<and> r_current s' = Some 0 \<and> rq_list s' [] \<and>
    r_zombies s' = Some 1 \<and> t_state (r_tasks s' 1) = GT_STATE_DONE \<and>
    (\<forall>w \<in> set [0]. w \<noteq> 0 \<longrightarrow> t_state (r_tasks s' w) = GT_STATE_READY) \<and>
    t_state (r_tasks s' 0) = GT_STATE_RUNNING \<and>
    r_log s' = r_log ex3 @ map EvEnv (sppc_env_free (env (t_body (r_tasks ex3 1))))"
  by (rule finish_wakes_all [where xs = "[]"]) (simp_all add: rq_list_def wnx_def ex3_def ex_defs)

section \<open>Thread locks\<close>

lemma lock_scan_first:
  assumes "rq_list s xs" and "ws = us @ w # vs"
    and "\<And>u. u \<in> set us \<Longrightarrow> w_lock u \<noteq> lock \<or> t_state (r_tasks s (w_task u)) \<noteq> GT_STATE_READY"
    and "w_lock w = lock" and "t_state (r_tasks s (w_task w)) = GT_STATE_READY" and "w_task w \<in> set xs"
  shows "\<exists>s'. gt_lock_scan lock ws s = Some (Some (w_task w), s') \<and> rq_list s' (remove1 (w_task w) xs) \<and>
    rq_frame (set xs) s s'"
  using assms(2,3)
proof (induction us arbitrary: ws)
  case Nil
  from gt_rq_remove_list [OF assms(1), of "w_task w"] assms(4-6) Nil show ?case by auto
next
  case (Cons u us)
  then show ?case by auto
qed

text \<open>Releasing a thread lock runs the task that has waited for it longest, of those that are
  ready, at once and ahead of every other: it is taken out of the run queue wherever it stands, and
  the releaser is queued behind the rest.\<close>

theorem release_runs_longest_waiter:
  assumes "rq_list s xs" and "r_current s = Some self" and "self \<notin> set xs"
    and "r_lock_waiters s = us @ w # vs"
    and "\<And>u. u \<in> set us \<Longrightarrow> w_lock u \<noteq> lock \<or> t_state (r_tasks s (w_task u)) \<noteq> GT_STATE_READY"
    and "w_lock w = lock" and "t_state (r_tasks s (w_task w)) = GT_STATE_READY" and "w_task w \<in> set xs"
  shows "\<exists>s'. gt_unlock 0 lock s = Some (AtSwitch, s') \<and> r_current s' = Some (w_task w) \<and>
    rq_list s' (remove1 (w_task w) xs @ [self]) \<and> r_lock_waiters s' = r_lock_waiters s"
proof -
  obtain s1 where s1: "gt_lock_scan lock (r_lock_waiters s) s = Some (Some (w_task w), s1)"
    "rq_list s1 (remove1 (w_task w) xs)" "rq_frame (set xs) s s1"
    using lock_scan_first [OF assms(1,4-8)] by blast
  note F = rq_frame_fields [OF s1(3)]
  let ?t = "w_task w" and ?s2 = "gt_rq_push self s1"
  have q: "rq_list ?s2 (remove1 ?t xs @ [self])"
    by (rule gt_rq_push_list [OF s1(2)]) (use assms(3) notin_set_remove1 in fast)
  have ne: "?t \<noteq> self" using assms(3,8) by auto
  define s3 where "s3 = snd (gt_switch_to (FReleased None) ?t ?s2)"
  have cur: "r_current ?s2 = Some self" using assms(2) F by simp
  have sw: "gt_switch_to (FReleased None) ?t ?s2 = (AtSwitch, s3)"
    using ne cur by (simp add: s3_def gt_switch_to_def Let_def)
  have "nxt s3 = nxt ?s2" "r_rq_head s3 = r_rq_head ?s2" "r_rq_tail s3 = r_rq_tail ?s2"
    using ne cur by (auto simp: s3_def gt_switch_to_def Let_def nxt_def fun_eq_iff)
  then have "rq_list s3 (remove1 ?t xs @ [self])" using q by (simp add: rq_list_def)
  moreover have "r_current s3 = Some ?t" "r_lock_waiters s3 = r_lock_waiters s"
    using ne cur F by (simp_all add: s3_def gt_switch_to_def Let_def)
  moreover have "gt_unlock 0 lock s = Some (AtSwitch, s3)"
    using s1(1) sw F assms(2) by (simp add: gt_unlock_def gt_lock_released_def)
  ultimately show ?thesis by blast
qed

text \<open>Two tasks ready, the second waiting for the lock at 500.\<close>

definition ex_lock :: "(unit, unit) gt_runtime" where
  "ex_lock = ex2\<lparr>r_lock_waiters := [\<lparr>w_lock = 400, w_task = 1\<rparr>, \<lparr>w_lock = 500, w_task = 2\<rparr>]\<rparr>"

theorem release_runs_longest_waiter_witness:
  "\<exists>s'. gt_unlock 0 500 ex_lock = Some (AtSwitch, s') \<and> r_current s' = Some 2 \<and>
    rq_list s' (remove1 2 [1, 2] @ [0]) \<and> r_lock_waiters s' = r_lock_waiters ex_lock"
  using release_runs_longest_waiter [where s = ex_lock and xs = "[1, 2]" and self = 0 and lock = 500
      and us = "[\<lparr>w_lock = 400, w_task = 1\<rparr>]" and w = "\<lparr>w_lock = 500, w_task = 2\<rparr>" and vs = "[]"]
  by (simp add: ex_lock_def rq_list_def nxt_def ex_defs)

text \<open>A relative timeout becomes an absolute deadline that is exactly that much later and is a
  proper time, and what is left of a deadline is exact, or zero once it has passed.\<close>

theorem deadline_exact:
  assumes "timespec_ok now" and "timespec_ok timeout" and "gt_deadline now timeout = Some d" and "timespec_ok later"
  shows "timespec_ok d \<and> nanos d = nanos now + nanos timeout \<and>
    nanos (gt_remaining later d) = max 0 (nanos d - nanos later) \<and>
    (gt_passed later d \<longleftrightarrow> nanos d \<le> nanos later)"
proof -
  have d: "timespec_ok d" "nanos d = nanos now + nanos timeout"
    using assms(1-3) by (auto simp: gt_deadline_def timespec_ok_def nanos_def Let_def split: if_splits)
  then show ?thesis using gt_remaining_exact(1) [OF assms(4)] gt_passed_iff [OF assms(4)] by simp
qed

theorem deadline_exact_witness:
  "timespec_ok \<lparr>tv_sec = 9, tv_nsec = 100000000\<rparr> \<and>
    nanos \<lparr>tv_sec = 9, tv_nsec = 100000000\<rparr> = nanos \<lparr>tv_sec = 5, tv_nsec = 600000000\<rparr> + nanos \<lparr>tv_sec = 3, tv_nsec = 500000000\<rparr> \<and>
    nanos (gt_remaining \<lparr>tv_sec = 8, tv_nsec = 0\<rparr> \<lparr>tv_sec = 9, tv_nsec = 100000000\<rparr>) =
      max 0 (nanos \<lparr>tv_sec = 9, tv_nsec = 100000000\<rparr> - nanos \<lparr>tv_sec = 8, tv_nsec = 0\<rparr>) \<and>
    (gt_passed \<lparr>tv_sec = 8, tv_nsec = 0\<rparr> \<lparr>tv_sec = 9, tv_nsec = 100000000\<rparr> \<longleftrightarrow>
      nanos \<lparr>tv_sec = 9, tv_nsec = 100000000\<rparr> \<le> nanos \<lparr>tv_sec = 8, tv_nsec = 0\<rparr>)"
  by (rule deadline_exact [where now = "\<lparr>tv_sec = 5, tv_nsec = 600000000\<rparr>" and timeout = "\<lparr>tv_sec = 3, tv_nsec = 500000000\<rparr>"])
    (simp_all add: timespec_ok_def INT64_MAX_def gt_deadline_def Let_def)

text \<open>A timeout the interface accepts can still be too long for a deadline: the sum of the
  seconds overflows a signed 64-bit time.\<close>

theorem deadline_can_overflow:
  "timespec_ok \<lparr>tv_sec = INT64_MAX, tv_nsec = 0\<rparr> \<and>
   gt_deadline \<lparr>tv_sec = 1, tv_nsec = 0\<rparr> \<lparr>tv_sec = INT64_MAX, tv_nsec = 0\<rparr> = None"
  by (simp add: timespec_ok_def gt_deadline_def INT64_MAX_def Let_def)

section \<open>Detaching a task that is awaited\<close>

text \<open>
  The one rule the step relation imposes on programs is needed. Here the main task awaits task 1,
  which yields; task 2 detaches task 1 and finishes; task 1 finishes and the main task carries on.
\<close>

definition detach_run :: "(gt_phase \<times> (unit, unit) gt_runtime) option" where
  "detach_run = do {
     (p1, s1) \<leftarrow> gt_await blk_io_poll 0x100001 ex2;
     (p2, s2) \<leftarrow> gt_land ex_mem s1;
     (p3, s3) \<leftarrow> gt_yield blk_io_poll s2;
     (p4, s4) \<leftarrow> gt_land ex_mem s3;
     let (p5, s5) = gt_detach 0x100001 s4;
     (p6, s6) \<leftarrow> gt_finish blk_io_poll s5;
     (p7, s7) \<leftarrow> gt_land ex_mem s6;
     (p8, s8) \<leftarrow> gt_finish blk_io_poll s7;
     (p9, s9) \<leftarrow> gt_land ex_mem s8;
     if (p1, p2, p3, p4, p5, p6, p7, p8, p9) =
        (AtSwitch, AtFrame FTrampoline, AtSwitch, AtFrame FTrampoline, InBody 0, AtSwitch,
         AtFrame FYield, AtSwitch, AtFrame (FAwait 1))
     then Some (gt_continue (FAwait 1) s9) else None
   }"

text \<open>C37: Detaching a task that somebody still awaits frees its slot twice: the detach is accepted,
  the reaper frees the slot when the task finishes and the awaiter frees it again, after which the
  slot is its own successor in the free list, and the list never ends.\<close>

theorem detach_awaited_frees_twice:
  "\<exists>s. detach_run = Some (InBody 0, s) \<and> r_free_slots s = Some 1 \<and> nxt s 1 = Some 1"
  by (simp add: detach_run_def gt_await_def gt_resolve_def handle_idx_def handle_gen_def gt_block_def
      gt_pick.simps gt_rq_pop_def gt_rq_push_def gt_switch_to_def gt_land_def gt_yield_def gt_detach_def
      gt_finish_def gt_wake.simps log_event_def sppc_env_free_def gt_reap_def gt_reap_from.simps
      gt_reap_one_def gt_slot_free_def next_gen_def gt_stack_free_def gt_continue_def gt_await_resumed_def
      gt_collect_def nxt_def ex_defs upd_task_def Let_def gt_consts)
end
