(* ===== verification/Uring.thy ===== *)
theory Uring
  imports Blocking
begin

text \<open>
  The Linux i/o backend (async/io_uring.h). The submission and completion rings are the memory the
  process shares with the kernel; the words behind the ring's pointers are the fields of
  \<^verbatim>\<open>uring_mem\<close>, the C struct is \<^verbatim>\<open>gt_io\<close>. The counters are 32-bit words that wrap.

  The kernel is an argument: what \<^verbatim>\<open>io_uring_enter\<close> does to the shared memory and answers, and what
  the kernel has written by the time the completion tail is loaded. The locale
  \<^verbatim>\<open>uring_kernel\<close> states what its documentation promises: entering consumes submissions oldest first,
  and every completion posted is of an operation it took, each once, behind the ones posted before.
  Opcodes and flags of the kernel's interface are constructors, their encoding being the header's.
\<close>

section \<open>The rings\<close>

datatype uring_op =
    OP_NOP | OP_READ | OP_WRITE | OP_RECV | OP_SEND | OP_ACCEPT | OP_CONNECT | OP_FSYNC | OP_TIMEOUT

datatype uring_flag = TIMEOUT_ABS | TIMEOUT_REALTIME | TIMEOUT_BOOTTIME

text \<open>The entry's union of flags: none, a word of the socket interface's, or a timeout's flags.\<close>

datatype uring_op_flags = NoFlags | MsgFlags u32 | AcceptFlags u32 | TimeoutFlags "uring_flag list"

record uring_sqe =
  sqe_opcode :: uring_op
  sqe_fd :: int
  sqe_addr :: u64
  sqe_len :: u32
  sqe_off :: u64
  sqe_op_flags :: uring_op_flags
  sqe_user_data :: "tptr option"

record uring_cqe =
  cqe_user_data :: "tptr option"
  cqe_res :: int

definition zero_sqe :: uring_sqe where
  "zero_sqe = \<lparr>sqe_opcode = OP_NOP, sqe_fd = 0, sqe_addr = 0, sqe_len = 0, sqe_off = 0,
     sqe_op_flags = NoFlags, sqe_user_data = None\<rparr>"

text \<open>\<^verbatim>\<open>m_ops\<close> are the operations the kernel took and has not completed; \<^verbatim>\<open>m_kern\<close> is its own.\<close>

record 'k uring_mem =
  m_sq_head :: u32
  m_sq_tail :: u32
  m_sq_mask :: u32
  m_sq_array :: "u32 \<Rightarrow> u32"
  m_sqes :: "u32 \<Rightarrow> uring_sqe"
  m_cq_head :: u32
  m_cq_tail :: u32
  m_cq_mask :: u32
  m_cqes :: "u32 \<Rightarrow> uring_cqe"
  m_ops :: "tptr set"
  m_kern :: 'k

text \<open>\<^verbatim>\<open>io_log\<close> records what was acquired and given back, oldest first.\<close>

datatype uring_call =
    RingOpen int | RingClose int | RingMap nat u64 | RingUnmap nat u64

record 'k gt_io =
  io_fd :: int
  io_ok :: bool
  io_sq_head :: nat
  io_sq_tail :: nat
  io_sq_mask :: nat
  io_sq_array :: nat
  io_sqes :: nat
  io_cq_head :: nat
  io_cq_tail :: nat
  io_cq_mask :: nat
  io_cqes :: nat
  io_sq_mmap :: nat
  io_cq_mmap :: "nat option"
  io_sq_bytes :: u64
  io_cq_bytes :: u64
  io_sqe_bytes :: u64
  io_sq_entries :: u32
  io_mem :: "'k uring_mem"
  io_log :: "uring_call list"

record gt_io_task =
  io_ts :: timespec

type_synonym 'k uring_rt = "(gt_io_task, 'k gt_io) gt_runtime"

definition upd_mem :: "('k uring_mem \<Rightarrow> 'k uring_mem) \<Rightarrow> 'k uring_rt \<Rightarrow> 'k uring_rt" where
  "upd_mem f s = s\<lparr>r_io := (r_io s)\<lparr>io_mem := f (io_mem (r_io s))\<rparr>\<rparr>"

abbreviation mem :: "'k uring_rt \<Rightarrow> 'k uring_mem" where
  "mem s \<equiv> io_mem (r_io s)"

section \<open>The kernel\<close>

text \<open>
  \<^verbatim>\<open>k_enter\<close>: \<^verbatim>\<open>io_uring_enter\<close> with the number to submit and the number to wait for; the errno of a
  failure, or the number submitted; None when it never returns. \<^verbatim>\<open>k_enter_until\<close>: the wait with a
  timeout. \<^verbatim>\<open>k_load\<close>: what the kernel has done by itself by the time its completion tail is read.
\<close>

record 'k kernel =
  k_enter :: "u32 \<Rightarrow> u32 \<Rightarrow> 'k uring_mem \<Rightarrow> ((int + int) \<times> 'k uring_mem) option"
  k_enter_until :: "timespec \<Rightarrow> 'k uring_mem \<Rightarrow> 'k uring_mem option"
  k_load :: "'k uring_mem \<Rightarrow> 'k uring_mem"

definition gt_io_enter ::
  "'k kernel \<Rightarrow> u32 \<Rightarrow> u32 \<Rightarrow> 'k uring_rt \<Rightarrow> ((int + int) \<times> 'k uring_rt) option" where
  "gt_io_enter K to_submit min_complete s = do {
     (r, m) \<leftarrow> k_enter K to_submit min_complete (mem s);
     Some (r, upd_mem (\<lambda>_. m) s)
   }"

section \<open>Setting up and tearing down\<close>

definition GT_RING_ENTRIES :: u32 where "GT_RING_ENTRIES = 256"

record ring_off =
  off_head :: u32
  off_tail :: u32
  off_mask :: u32
  off_array :: u32  \<comment> \<open>the index array of the submission ring, the entries of the completion ring\<close>

record ring_params =
  pr_sq_entries :: u32
  pr_cq_entries :: u32
  pr_single :: bool
  pr_sq_off :: ring_off
  pr_cq_off :: ring_off

text \<open>What the set-up call and the three mappings answer.\<close>

record 'k os_ring =
  os_setup :: "u32 \<Rightarrow> (int \<times> ring_params) option"
  os_map_sq :: "u64 \<Rightarrow> nat option"
  os_map_cq :: "u64 \<Rightarrow> nat option"
  os_map_sqes :: "u64 \<Rightarrow> nat option"
  os_mem0 :: "'k uring_mem"

definition zero_mem :: "'k \<Rightarrow> 'k uring_mem" where
  "zero_mem k = \<lparr>m_sq_head = 0, m_sq_tail = 0, m_sq_mask = 0, m_sq_array = (\<lambda>_. 0), m_sqes = (\<lambda>_. zero_sqe),
     m_cq_head = 0, m_cq_tail = 0, m_cq_mask = 0, m_cqes = (\<lambda>_. \<lparr>cqe_user_data = None, cqe_res = 0\<rparr>),
     m_ops = {}, m_kern = k\<rparr>"

definition zero_io :: "'k \<Rightarrow> uring_call list \<Rightarrow> 'k gt_io" where
  "zero_io k log =
     \<lparr>io_fd = 0, io_ok = False, io_sq_head = 0, io_sq_tail = 0, io_sq_mask = 0, io_sq_array = 0, io_sqes = 0,
      io_cq_head = 0, io_cq_tail = 0, io_cq_mask = 0, io_cqes = 0, io_sq_mmap = 0, io_cq_mmap = None,
      io_sq_bytes = 0, io_cq_bytes = 0, io_sqe_bytes = 0, io_sq_entries = 0, io_mem = zero_mem k, io_log = log\<rparr>"

definition ring_fail :: "uring_call list \<Rightarrow> 'k uring_rt \<Rightarrow> 'k uring_rt" where
  "ring_fail log s = s\<lparr>r_io := (r_io s)\<lparr>io_ok := False, io_log := io_log (r_io s) @ log\<rparr>\<rparr>"

text \<open>The sizes of the two rings: of the larger for both when they are mapped at once.\<close>

definition ring_bytes :: "ring_params \<Rightarrow> u64 \<times> u64" where
  "ring_bytes p =
     (let sq_bytes = ucast (off_array (pr_sq_off p)) + ucast (pr_sq_entries p) * 4;
          cq_bytes = ucast (off_array (pr_cq_off p)) + ucast (pr_cq_entries p) * 16
      in if pr_single p
         then (let b = (if cq_bytes > sq_bytes then cq_bytes else sq_bytes) in (b, b))
         else (sq_bytes, cq_bytes))"

definition gt_io_setup :: "'k os_ring \<Rightarrow> 'k uring_rt \<Rightarrow> 'k uring_rt" where
  "gt_io_setup os s =
     (case os_setup os GT_RING_ENTRIES of
        None \<Rightarrow> ring_fail [] s
      | Some (fd, p) \<Rightarrow>
          let single = pr_single p; (sq_bytes, cq_bytes) = ring_bytes p
          in case os_map_sq os sq_bytes of
               None \<Rightarrow> ring_fail [RingOpen fd, RingClose fd] s
             | Some sq \<Rightarrow>
                 (case (if single then Some sq else os_map_cq os cq_bytes) of
                    None \<Rightarrow>
                      ring_fail [RingOpen fd, RingMap sq sq_bytes, RingUnmap sq sq_bytes, RingClose fd] s
                  | Some cq \<Rightarrow>
                      let sqe_bytes = ucast (pr_sq_entries p) * 64;
                          log = [RingOpen fd, RingMap sq sq_bytes] @ (if single then [] else [RingMap cq cq_bytes])
                      in case os_map_sqes os sqe_bytes of
                           None \<Rightarrow>
                             ring_fail (log @ (if single then [] else [RingUnmap cq cq_bytes]) @
                               [RingUnmap sq sq_bytes, RingClose fd]) s
                         | Some sqes \<Rightarrow>
                             s\<lparr>r_inflight := 0, r_io :=
                               \<lparr>io_fd = fd, io_ok = True,
                                io_sq_head = sq + unat (off_head (pr_sq_off p)),
                                io_sq_tail = sq + unat (off_tail (pr_sq_off p)),
                                io_sq_mask = sq + unat (off_mask (pr_sq_off p)),
                                io_sq_array = sq + unat (off_array (pr_sq_off p)),
                                io_sqes = sqes,
                                io_cq_head = cq + unat (off_head (pr_cq_off p)),
                                io_cq_tail = cq + unat (off_tail (pr_cq_off p)),
                                io_cq_mask = cq + unat (off_mask (pr_cq_off p)),
                                io_cqes = cq + unat (off_array (pr_cq_off p)),
                                io_sq_mmap = sq, io_cq_mmap = (if single then None else Some cq),
                                io_sq_bytes = sq_bytes, io_cq_bytes = cq_bytes, io_sqe_bytes = sqe_bytes,
                                io_sq_entries = pr_sq_entries p, io_mem = os_mem0 os,
                                io_log = io_log (r_io s) @ log @ [RingMap sqes sqe_bytes]\<rparr>\<rparr>))"

definition gt_io_teardown :: "'k uring_rt \<Rightarrow> 'k uring_rt" where
  "gt_io_teardown s =
     (let io = r_io s in
      if \<not> io_ok io then s
      else s\<lparr>r_inflight := 0, r_io := zero_io (m_kern (io_mem io))
        (io_log io @ [RingUnmap (io_sqes io) (io_sqe_bytes io)] @
         (case io_cq_mmap io of None \<Rightarrow> [] | Some cq \<Rightarrow> [RingUnmap cq (io_cq_bytes io)]) @
         [RingUnmap (io_sq_mmap io) (io_sq_bytes io), RingClose (io_fd io)])\<rparr>)"

section \<open>Submitting\<close>

text \<open>The index of the entry claimed, or NULL when the ring is full.\<close>

definition gt_sqe :: "'k uring_rt \<Rightarrow> u32 option \<times> 'k uring_rt" where
  "gt_sqe s =
     (let tail = m_sq_tail (mem s); head = m_sq_head (mem s) in
      if tail - head \<ge> io_sq_entries (r_io s) then (None, s)
      else
        let idx = tail AND m_sq_mask (mem s) in
        (Some idx, upd_mem (\<lambda>m. m\<lparr>m_sqes := (m_sqes m)(idx := zero_sqe),
            m_sq_array := (m_sq_array m)(idx := idx), m_sq_tail := tail + 1\<rparr>) s))"

definition fill_sqe :: "u32 \<Rightarrow> (uring_sqe \<Rightarrow> uring_sqe) \<Rightarrow> 'k uring_rt \<Rightarrow> 'k uring_rt" where
  "fill_sqe idx f s = upd_mem (\<lambda>m. m\<lparr>m_sqes := (m_sqes m)(idx := f (m_sqes m idx))\<rparr>) s"

section \<open>Collecting completions\<close>

function gt_io_collect :: "u32 \<Rightarrow> u32 \<Rightarrow> 'k uring_rt \<Rightarrow> 'k uring_rt" where
  "gt_io_collect head tail s =
     (if head = tail then upd_mem (\<lambda>m. m\<lparr>m_cq_head := head\<rparr>) s
      else
        let cqe = m_cqes (mem s) (head AND m_cq_mask (mem s));
            s1 = (case cqe_user_data cqe of
                    None \<Rightarrow> s
                  | Some t \<Rightarrow> gt_rq_push t (upd_task t (\<lambda>x. x\<lparr>t_io_res := cqe_res cqe\<rparr>) s));
            s2 = s1\<lparr>r_inflight := r_inflight s1 - 1\<rparr>
        in gt_io_collect (head + 1) tail s2)"
  by pat_completeness auto
termination
proof (relation "measure (\<lambda>(head, tail, s). unat (tail - head))")
  fix head tail :: u32 and s :: "'k uring_rt" and x xa xb
  assume "head \<noteq> tail"
  then have "tail - head \<noteq> 0" by simp
  then have "unat (tail - head - 1) < unat (tail - head)"
    by (metis unat_minus_one diff_less unat_gt_0 word_gt_0 zero_less_one)
  then show "((head + 1, tail, xb), head, tail, s) \<in> measure (\<lambda>(head, tail, s). unat (tail - head))"
    by (simp add: algebra_simps)
qed simp

declare gt_io_collect.simps [simp del]

definition gt_io_poll :: "'k kernel \<Rightarrow> (gt_io_task, 'k gt_io) gt_poll" where
  "gt_io_poll K block s =
     (if \<not> io_ok (r_io s) \<or> r_inflight s = 0 then Some s
      else do {
        s1 \<leftarrow> (if block then do { (r, s1) \<leftarrow> gt_io_enter K 0 1 s; Some s1 } else Some s);
        let head = m_cq_head (mem s1);
        let s2 = upd_mem (k_load K) s1;
        Some (gt_io_collect head (m_cq_tail (mem s2)) s2)
      })"

text \<open>\<^verbatim>\<open>now\<close> is what the clock answers.\<close>

definition gt_io_poll_until ::
  "'k kernel \<Rightarrow> (int \<Rightarrow> timespec) \<Rightarrow> (gt_io_task, 'k gt_io) gt_poll_until" where
  "gt_io_poll_until K now clock deadline s = do {
     m \<leftarrow> k_enter_until K (gt_remaining (now clock) deadline) (mem s);
     gt_io_poll K False (upd_mem (\<lambda>_. m) s)
   }"

section \<open>Operations\<close>

definition gt_io_ready :: "'k uring_rt \<Rightarrow> bool" where
  "gt_io_ready s = io_ok (r_io s)"

text \<open>
  The task parks with the entry as its operation; the value the wait returns is the completion's
  result, \<^verbatim>\<open>InBody\<close> of \<^verbatim>\<open>t_io_res\<close> once it carries on, or minus the errno of a failed submission.
\<close>

definition gt_io_wait :: "'k kernel \<Rightarrow> u32 \<Rightarrow> 'k uring_rt \<Rightarrow> (gt_io_task, 'k gt_io) gt_conf option" where
  "gt_io_wait K sqe s =
     (case r_current s of
        None \<Rightarrow> Some (Crashed, s)
      | Some self \<Rightarrow> do {
          let s1 = fill_sqe sqe (\<lambda>e. e\<lparr>sqe_user_data := Some self\<rparr>) s;
          let s2 = s1\<lparr>r_inflight := r_inflight s1 + 1\<rparr>;
          (r, s3) \<leftarrow> gt_io_enter K 1 0 s2;
          (case r of
             Inl errno \<Rightarrow> Some (InBody (- errno), s3\<lparr>r_inflight := r_inflight s3 - 1\<rparr>)
           | Inr _ \<Rightarrow> gt_block (gt_io_poll K) GT_STATE_WAITING FIoWait s3)
        })"

text \<open>The result of a call from that of its completion: the errno set, if any, and the result.\<close>

definition gt_io_finish :: "int \<Rightarrow> int option \<times> int" where
  "gt_io_finish r = (if r < 0 then (Some (- r), - 1) else (None, r))"

datatype ('s, 'c) io_try = Declined 's | Taken 'c

type_synonym 'k uring_try = "('k uring_rt, (gt_io_task, 'k gt_io) gt_conf) io_try option"

definition gt_io_begin ::
  "'k uring_rt \<Rightarrow> (u32 \<Rightarrow> 'k uring_rt \<Rightarrow> (gt_io_task, 'k gt_io) gt_conf option) \<Rightarrow> 'k uring_try" where
  "gt_io_begin s rest =
     (if \<not> gt_io_ready s then Some (Declined s)
      else
        (case gt_sqe s of
           (None, s1) \<Rightarrow> Some (Declined s1)
         | (Some sqe, s1) \<Rightarrow> map_option Taken (rest sqe s1)))"

text \<open>The constants of the platform's headers the operations use.\<close>

record os_io =
  o_nonblock :: u32
  msg_dontwait :: u32
  sock_cloexec :: u32
  timer_abstime :: u32
  clock_monotonic :: int
  clock_realtime :: int
  clock_boottime :: int
  eTIME :: int

text \<open>\<^verbatim>\<open>fl\<close> is what fcntl answers for the descriptor's flags.\<close>

definition gt_fd_nonblocking :: "os_io \<Rightarrow> u32 \<Rightarrow> bool" where
  "gt_fd_nonblocking c fl \<longleftrightarrow> 0 \<le> sint fl \<and> fl AND o_nonblock c \<noteq> 0"

definition gt_io_begin_fd ::
  "os_io \<Rightarrow> u32 \<Rightarrow> 'k uring_rt \<Rightarrow> (u32 \<Rightarrow> 'k uring_rt \<Rightarrow> (gt_io_task, 'k gt_io) gt_conf option) \<Rightarrow>
     'k uring_try" where
  "gt_io_begin_fd c fl s rest =
     (if \<not> gt_io_ready s \<or> gt_fd_nonblocking c fl then Some (Declined s) else gt_io_begin s rest)"

definition gt_try_read ::
  "'k kernel \<Rightarrow> os_io \<Rightarrow> u32 \<Rightarrow> int \<Rightarrow> u64 \<Rightarrow> u64 \<Rightarrow> 'k uring_rt \<Rightarrow> 'k uring_try" where
  "gt_try_read K c fl fd buf n s =
     gt_io_begin_fd c fl s (\<lambda>sqe s1. gt_io_wait K sqe (fill_sqe sqe
       (\<lambda>e. e\<lparr>sqe_opcode := OP_READ, sqe_fd := fd, sqe_addr := buf, sqe_len := ucast n, sqe_off := - 1\<rparr>) s1))"

definition gt_try_write ::
  "'k kernel \<Rightarrow> os_io \<Rightarrow> u32 \<Rightarrow> int \<Rightarrow> u64 \<Rightarrow> u64 \<Rightarrow> 'k uring_rt \<Rightarrow> 'k uring_try" where
  "gt_try_write K c fl fd buf n s =
     gt_io_begin_fd c fl s (\<lambda>sqe s1. gt_io_wait K sqe (fill_sqe sqe
       (\<lambda>e. e\<lparr>sqe_opcode := OP_WRITE, sqe_fd := fd, sqe_addr := buf, sqe_len := ucast n, sqe_off := - 1\<rparr>) s1))"

definition gt_try_recv ::
  "'k kernel \<Rightarrow> os_io \<Rightarrow> u32 \<Rightarrow> int \<Rightarrow> u64 \<Rightarrow> u64 \<Rightarrow> u32 \<Rightarrow> 'k uring_rt \<Rightarrow> 'k uring_try" where
  "gt_try_recv K c fl fd buf n flags s =
     (if flags AND msg_dontwait c \<noteq> 0 then Some (Declined s)
      else gt_io_begin_fd c fl s (\<lambda>sqe s1. gt_io_wait K sqe (fill_sqe sqe
        (\<lambda>e. e\<lparr>sqe_opcode := OP_RECV, sqe_fd := fd, sqe_addr := buf, sqe_len := ucast n,
               sqe_op_flags := MsgFlags flags\<rparr>) s1)))"

definition gt_try_send ::
  "'k kernel \<Rightarrow> os_io \<Rightarrow> u32 \<Rightarrow> int \<Rightarrow> u64 \<Rightarrow> u64 \<Rightarrow> u32 \<Rightarrow> 'k uring_rt \<Rightarrow> 'k uring_try" where
  "gt_try_send K c fl fd buf n flags s =
     (if flags AND msg_dontwait c \<noteq> 0 then Some (Declined s)
      else gt_io_begin_fd c fl s (\<lambda>sqe s1. gt_io_wait K sqe (fill_sqe sqe
        (\<lambda>e. e\<lparr>sqe_opcode := OP_SEND, sqe_fd := fd, sqe_addr := buf, sqe_len := ucast n,
               sqe_op_flags := MsgFlags flags\<rparr>) s1)))"

definition gt_try_accept ::
  "'k kernel \<Rightarrow> os_io \<Rightarrow> u32 \<Rightarrow> int \<Rightarrow> u64 \<Rightarrow> u64 \<Rightarrow> 'k uring_rt \<Rightarrow> 'k uring_try" where
  "gt_try_accept K c fl fd addr addrlen s =
     gt_io_begin_fd c fl s (\<lambda>sqe s1. gt_io_wait K sqe (fill_sqe sqe
       (\<lambda>e. e\<lparr>sqe_opcode := OP_ACCEPT, sqe_fd := fd, sqe_addr := addr, sqe_off := addrlen,
              sqe_op_flags := AcceptFlags (sock_cloexec c)\<rparr>) s1))"

definition gt_try_connect ::
  "'k kernel \<Rightarrow> os_io \<Rightarrow> u32 \<Rightarrow> int \<Rightarrow> u64 \<Rightarrow> u32 \<Rightarrow> 'k uring_rt \<Rightarrow> 'k uring_try" where
  "gt_try_connect K c fl fd addr addrlen s =
     gt_io_begin_fd c fl s (\<lambda>sqe s1. gt_io_wait K sqe (fill_sqe sqe
       (\<lambda>e. e\<lparr>sqe_opcode := OP_CONNECT, sqe_fd := fd, sqe_addr := addr, sqe_off := ucast addrlen\<rparr>) s1))"

definition gt_try_fsync :: "'k kernel \<Rightarrow> int \<Rightarrow> 'k uring_rt \<Rightarrow> 'k uring_try" where
  "gt_try_fsync K fd s =
     gt_io_begin s (\<lambda>sqe s1. gt_io_wait K sqe (fill_sqe sqe
       (\<lambda>e. e\<lparr>sqe_opcode := OP_FSYNC, sqe_fd := fd\<rparr>) s1))"

text \<open>\<^verbatim>\<open>ts\<close> gives the address of a task's own \<^verbatim>\<open>io.ts\<close>.\<close>

definition gt_try_sleep ::
  "'k kernel \<Rightarrow> os_io \<Rightarrow> (tptr \<Rightarrow> u64) \<Rightarrow> int \<Rightarrow> u32 \<Rightarrow> timespec \<Rightarrow> 'k uring_rt \<Rightarrow> 'k uring_try" where
  "gt_try_sleep K c ts clock flags duration s =
     (if clock \<noteq> clock_monotonic c \<and> clock \<noteq> clock_realtime c \<and> clock \<noteq> clock_boottime c
      then Some (Declined s)
      else gt_io_begin s (\<lambda>sqe s1.
        (case r_current s1 of
           None \<Rightarrow> Some (Crashed, s1)
         | Some self \<Rightarrow>
             gt_io_wait K sqe (fill_sqe sqe
               (\<lambda>e. e\<lparr>sqe_opcode := OP_TIMEOUT, sqe_addr := ts self, sqe_len := 1, sqe_off := 0,
                      sqe_op_flags := TimeoutFlags
                        ((if flags AND timer_abstime c \<noteq> 0 then [TIMEOUT_ABS] else []) @
                         (if clock = clock_realtime c then [TIMEOUT_REALTIME]
                          else if clock = clock_boottime c then [TIMEOUT_BOOTTIME] else []))\<rparr>)
               (upd_task self (\<lambda>x. x\<lparr>t_io := \<lparr>io_ts = duration\<rparr>\<rparr>) s1)))))"

definition gt_sleep_finish :: "os_io \<Rightarrow> int \<Rightarrow> int option \<times> int" where
  "gt_sleep_finish c r = (if r = - eTIME c \<or> r = 0 then (None, 0) else gt_io_finish r)"

end
