(* ===== verification/UringSpec.thy ===== *)
theory UringSpec
  imports Uring
begin

text \<open>
  The io_uring backend keeps the scheduler's contract. The completion queue is read as the list of
  the entries between its head and its tail; collecting it is completing each of them in turn.
\<close>

section \<open>The completion queue as a list\<close>

definition cq_from :: "'k uring_mem \<Rightarrow> u32 \<Rightarrow> u32 \<Rightarrow> uring_cqe list" where
  "cq_from m head tail =
     map (\<lambda>i. m_cqes m ((head + of_nat i) AND m_cq_mask m)) [0..<unat (tail - head)]"

definition cq_list :: "'k uring_mem \<Rightarrow> uring_cqe list" where
  "cq_list m = cq_from m (m_cq_head m) (m_cq_tail m)"

lemma cq_from_same [simp]: "cq_from m h h = []"
  by (simp add: cq_from_def)

lemma cq_from_step:
  assumes "head \<noteq> tail"
  shows "cq_from m head tail = m_cqes m (head AND m_cq_mask m) # cq_from m (head + 1) tail"
proof -
  have "tail - head \<noteq> 0" using assms by simp
  then obtain n where n: "unat (tail - head) = Suc n" by (metis not0_implies_Suc unat_eq_zero)
  have "unat (tail - (head + 1)) = n"
    using n unat_minus_one [of "tail - head"] \<open>tail - head \<noteq> 0\<close> by (simp add: algebra_simps)
  then show ?thesis
    unfolding cq_from_def n by (simp only: upt_conv_Cons zero_less_Suc map_Suc_upt [symmetric] map_map)
      (simp add: comp_def algebra_simps)
qed

definition cqe_done :: "uring_cqe \<Rightarrow> tptr \<times> int" where
  "cqe_done e = (the (cqe_user_data e), cqe_res e)"

abbreviation cq_tasks :: "'k uring_mem \<Rightarrow> tptr set" where
  "cq_tasks m \<equiv> {t. Some t \<in> cqe_user_data ` set (cq_list m)}"

section \<open>Collecting\<close>

lemma gt_complete_io: "r_io (gt_complete c s) = r_io s"
  by (simp add: gt_complete_def gt_rq_push_def Let_def split: option.splits)

lemma upd_mem_complete: "upd_mem f (gt_complete c s) = gt_complete c (upd_mem f s)"
  by (cases s) (simp add: upd_mem_def gt_complete_def gt_rq_push_def upd_task_def Let_def split: option.splits)

lemma fold_complete_io [simp]: "r_io (fold gt_complete ds s) = r_io s"
  by (induction ds arbitrary: s) (simp_all add: gt_complete_io)

lemma gt_io_collect_fold:
  "(\<forall>e \<in> set (cq_from (mem s) head tail). cqe_user_data e \<noteq> None) \<Longrightarrow>
     gt_io_collect head tail s =
       upd_mem (\<lambda>m. m\<lparr>m_cq_head := tail\<rparr>) (fold gt_complete (map cqe_done (cq_from (mem s) head tail)) s)"
proof (induction head tail s rule: gt_io_collect.induct)
  case (1 head tail s)
  show ?case
  proof (cases "head = tail")
    case True
    then show ?thesis by (simp add: gt_io_collect.simps)
  next
    case False
    let ?c = "m_cqes (mem s) (head AND m_cq_mask (mem s))"
    note st = cq_from_step [OF False, of "mem s"]
    obtain t where t: "cqe_user_data ?c = Some t" using 1(2) st by auto
    let ?s2 = "gt_complete (cqe_done ?c) s"
    have s2: "gt_io_collect head tail s = gt_io_collect (head + 1) tail ?s2"
      using False t by (subst gt_io_collect.simps) (simp add: gt_complete_def cqe_done_def Let_def)
    have m2: "mem ?s2 = mem s" by (simp add: gt_complete_io)
    have "gt_io_collect (head + 1) tail ?s2 =
        upd_mem (\<lambda>m. m\<lparr>m_cq_head := tail\<rparr>) (fold gt_complete (map cqe_done (cq_from (mem ?s2) (head + 1) tail)) ?s2)"
      by (rule 1(1) [OF False refl refl, of ])
        (use t 1(2) st m2 in \<open>simp_all add: gt_complete_def cqe_done_def Let_def\<close>)
    then show ?thesis unfolding s2 st m2 by simp
  qed
qed


section \<open>What the kernel promises\<close>

text \<open>Entries posted: behind the ones there, each of an operation the kernel had, each once.\<close>

definition kernel_posts :: "'k uring_mem \<Rightarrow> 'k uring_mem \<Rightarrow> bool" where
  "kernel_posts m m' \<longleftrightarrow>
     (\<exists>es. cq_list m' = cq_list m @ es \<and> distinct (map cqe_user_data es) \<and>
        cqe_user_data ` set es \<subseteq> Some ` m_ops m \<and>
        m_ops m' = {t \<in> m_ops m. Some t \<notin> cqe_user_data ` set es} \<and>
        m_sq_head m' = m_sq_head m \<and> m_sq_tail m' = m_sq_tail m \<and> m_sq_mask m' = m_sq_mask m \<and>
        m_cq_head m' = m_cq_head m)"

lemma posts_refl: "kernel_posts m m"
  unfolding kernel_posts_def by (rule exI [of _ "[]"]) simp

text \<open>The oldest submission, and what taking it does.\<close>

definition sq_next :: "'k uring_mem \<Rightarrow> uring_sqe" where
  "sq_next m = m_sqes m (m_sq_array m (m_sq_head m AND m_sq_mask m))"

definition kernel_takes :: "'k uring_mem \<Rightarrow> 'k uring_mem" where
  "kernel_takes m =
     (if m_sq_head m = m_sq_tail m then m
      else m\<lparr>m_sq_head := m_sq_head m + 1,
             m_ops := (case sqe_user_data (sq_next m) of None \<Rightarrow> m_ops m | Some t \<Rightarrow> insert t (m_ops m))\<rparr>)"

locale uring_kernel =
  fixes K :: "'k kernel"
  assumes enter_submit: "k_enter K 1 0 m = Some (Inr n, m') \<Longrightarrow> kernel_posts (kernel_takes m) m'"
    and enter_failed: "k_enter K 1 0 m = Some (Inl e, m') \<Longrightarrow> kernel_posts m m' \<and> 0 < e"
    and enter_wait: "k_enter K 0 1 m = Some (r, m') \<Longrightarrow> kernel_posts m m'"
    and enter_until: "k_enter_until K ts m = Some m' \<Longrightarrow> kernel_posts m m'"
    and load: "kernel_posts m (k_load K m)"

section \<open>The backend's invariant\<close>

text \<open>
  Every submission has been taken, and the completions not yet collected are of distinct tasks
  with no operation left in the kernel. The outstanding operations are the kernel's and these.
\<close>

definition uring_out :: "'k gt_io \<Rightarrow> tptr set" where
  "uring_out io = (if io_ok io then m_ops (io_mem io) \<union> cq_tasks (io_mem io) else {})"

definition uring_inv :: "'k uring_mem \<Rightarrow> bool" where
  "uring_inv m \<longleftrightarrow> distinct (map cqe_user_data (cq_list m)) \<and> None \<notin> cqe_user_data ` set (cq_list m) \<and>
     m_ops m \<inter> cq_tasks m = {}"

definition uring_ok :: "'k gt_io \<Rightarrow> bool" where
  "uring_ok io \<longleftrightarrow> (io_ok io \<longrightarrow> uring_inv (io_mem io) \<and> m_sq_head (io_mem io) = m_sq_tail (io_mem io))"

lemma posts_inv:
  assumes "kernel_posts m m'" and "uring_inv m"
  shows "uring_inv m'" and "m_ops m' \<union> cq_tasks m' = m_ops m \<union> cq_tasks m"
    and "m_sq_head m' = m_sq_head m" and "m_sq_tail m' = m_sq_tail m" and "m_cq_head m' = m_cq_head m"
proof -
  obtain es where es: "cq_list m' = cq_list m @ es" "distinct (map cqe_user_data es)"
    "cqe_user_data ` set es \<subseteq> Some ` m_ops m" "m_ops m' = {t \<in> m_ops m. Some t \<notin> cqe_user_data ` set es}"
    and sq: "m_sq_head m' = m_sq_head m" "m_sq_tail m' = m_sq_tail m" "m_cq_head m' = m_cq_head m"
    using assms(1) unfolding kernel_posts_def by blast
  show "m_sq_head m' = m_sq_head m" "m_sq_tail m' = m_sq_tail m" "m_cq_head m' = m_cq_head m" by (fact sq)+
  have ct: "cq_tasks m' = cq_tasks m \<union> {t. Some t \<in> cqe_user_data ` set es}"
    using es(1) by auto
  have sub: "{t. Some t \<in> cqe_user_data ` set es} \<subseteq> m_ops m" using es(3) by blast
  show "m_ops m' \<union> cq_tasks m' = m_ops m \<union> cq_tasks m" using ct sub es(4) by blast
  have inv: "distinct (map cqe_user_data (cq_list m))" "None \<notin> cqe_user_data ` set (cq_list m)"
    "m_ops m \<inter> cq_tasks m = {}" using assms(2) by (simp_all add: uring_inv_def)
  have none: "None \<notin> cqe_user_data ` set es" using es(3) by blast
  have apart: "cqe_user_data ` set (cq_list m) \<inter> cqe_user_data ` set es = {}"
  proof (rule equals0I)
    fix u assume u: "u \<in> cqe_user_data ` set (cq_list m) \<inter> cqe_user_data ` set es"
    then obtain t where t: "u = Some t" "t \<in> m_ops m" using es(3) by blast
    then have "t \<in> cq_tasks m" using u by simp
    then show False using t(2) inv(3) by blast
  qed
  have "distinct (map cqe_user_data (cq_list m'))" using inv(1) es(1,2) apart by simp
  moreover have "None \<notin> cqe_user_data ` set (cq_list m')" using inv(2) none es(1) by auto
  moreover have "m_ops m' \<inter> cq_tasks m' = {}" using inv(3) ct es(4) by blast
  ultimately show "uring_inv m'" by (simp add: uring_inv_def)
qed

text \<open>The completion queue once everything up to its tail has been collected.\<close>

lemma cq_list_collected [simp]: "cq_list (m\<lparr>m_cq_head := m_cq_tail m\<rparr>) = []"
  by (simp add: cq_list_def)

lemma uring_collect_completes:
  assumes inv: "uring_inv (mem s)" and sq: "m_sq_head (mem s) = m_sq_tail (mem s)" and ok: "io_ok (r_io s)"
  shows "completes uring_out uring_ok s (gt_io_collect (m_cq_head (mem s)) (m_cq_tail (mem s)) s)"
proof -
  let ?m = "mem s" and ?ds = "map cqe_done (cq_list (mem s))"
  let ?io = "(r_io s)\<lparr>io_mem := ?m\<lparr>m_cq_head := m_cq_tail ?m\<rparr>\<rparr>"
  have some: "\<forall>e \<in> set (cq_list ?m). cqe_user_data e \<noteq> None" using inv by (force simp: uring_inv_def)
  then have fst: "map Some (map fst ?ds) = map cqe_user_data (cq_list ?m)" by (simp add: cqe_done_def)
  have st: "Some ` set (map fst ?ds) = cqe_user_data ` set (cq_list ?m)"
    using arg_cong [OF fst, of set] by (simp add: image_image)
  then have set: "set (map fst ?ds) = cq_tasks ?m" by (simp add: st [symmetric]) (auto)
  have "distinct (map Some (map fst ?ds))" unfolding fst using inv by (simp add: uring_inv_def)
  then have d: "distinct (map fst ?ds)" by (metis distinct_map)
  have eq: "gt_io_collect (m_cq_head ?m) (m_cq_tail ?m) s = (fold gt_complete ?ds s)\<lparr>r_io := ?io\<rparr>"
    using gt_io_collect_fold [of s "m_cq_head ?m" "m_cq_tail ?m"] some by (simp add: cq_list_def upd_mem_def)
  have o: "uring_out ?io = uring_out (r_io s) - set (map fst ?ds)" "uring_ok ?io"
    using inv sq ok unfolding set by (auto simp: uring_out_def uring_ok_def uring_inv_def)
  show ?thesis unfolding completes_def
    by (rule exI [of _ ?ds], rule exI [of _ ?io]) (use d set o eq ok in \<open>auto simp: uring_out_def\<close>)
qed

text \<open>Kernel activity before the collecting changes the outstanding operations in no way.\<close>

lemma completes_upd_mem:
  assumes "completes uring_out uring_ok (upd_mem f s) s'" and "uring_out (r_io (upd_mem f s)) = uring_out (r_io s)"
  shows "completes uring_out uring_ok s s'"
proof -
  have gc: "gt_complete c (s\<lparr>r_io := io\<rparr>) = (gt_complete c s)\<lparr>r_io := io\<rparr>" for c io and s :: "'a uring_rt"
    by (cases s) (simp add: gt_complete_def gt_rq_push_def upd_task_def Let_def split: option.splits)
  have "fold gt_complete ds (s\<lparr>r_io := io\<rparr>) = (fold gt_complete ds s)\<lparr>r_io := io\<rparr>" for ds io
    by (induction ds arbitrary: s) (simp_all add: gc)
  then show ?thesis using assms unfolding completes_def upd_mem_def by auto
qed

lemma completes_nothing:
  assumes "uring_ok (r_io s)"
  shows "completes uring_out uring_ok s s"
  unfolding completes_def by (rule exI [of _ "[]"], rule exI [of _ "r_io s"]) (simp add: assms)

context uring_kernel
begin

lemma poll_now:
  assumes "uring_inv (mem s)" and "m_sq_head (mem s) = m_sq_tail (mem s)" and "io_ok (r_io s)"
  shows "completes uring_out uring_ok s
    (gt_io_collect (m_cq_head (mem s)) (m_cq_tail (mem (upd_mem (k_load K) s))) (upd_mem (k_load K) s))"
proof -
  let ?s = "upd_mem (k_load K) s"
  note P = posts_inv [OF load assms(1)]
  have m: "mem ?s = k_load K (mem s)" "io_ok (r_io ?s)" using assms(3) by (simp_all add: upd_mem_def)
  have "completes uring_out uring_ok ?s (gt_io_collect (m_cq_head (mem ?s)) (m_cq_tail (mem ?s)) ?s)"
    by (rule uring_collect_completes) (use m P assms in simp_all)
  moreover have "uring_out (r_io ?s) = uring_out (r_io s)" using P(2) by (simp add: uring_out_def upd_mem_def)
  ultimately show ?thesis using completes_upd_mem P(5) m(1) by fastforce
qed

end


section \<open>Submitting\<close>

text \<open>
  A submission that the kernel took: the entry at the tail filled in for the task, the tail
  advanced, the ring entered.
\<close>

definition sq_put :: "uring_sqe \<Rightarrow> 'k uring_mem \<Rightarrow> 'k uring_mem" where
  "sq_put e m =
     (let idx = m_sq_tail m AND m_sq_mask m in
      m\<lparr>m_sqes := (m_sqes m)(idx := e), m_sq_array := (m_sq_array m)(idx := idx), m_sq_tail := m_sq_tail m + 1\<rparr>)"

definition uring_submit :: "'k kernel \<Rightarrow> tptr \<Rightarrow> 'k gt_io \<Rightarrow> 'k gt_io \<Rightarrow> bool" where
  "uring_submit K t io io' \<longleftrightarrow> io_ok io \<and>
     (\<exists>e n m. sqe_user_data e = Some t \<and> k_enter K 1 0 (sq_put e (io_mem io)) = Some (Inr n, m) \<and>
        io' = io\<lparr>io_mem := m\<rparr>)"

lemma sq_put_simps [simp]:
  "m_sq_head (sq_put e m) = m_sq_head m" "m_sq_tail (sq_put e m) = m_sq_tail m + 1"
  "m_cq_head (sq_put e m) = m_cq_head m" "m_ops (sq_put e m) = m_ops m" "cq_list (sq_put e m) = cq_list m"
  by (simp_all add: sq_put_def Let_def cq_list_def cq_from_def)

lemma sq_next_put: "m_sq_head m = m_sq_tail m \<Longrightarrow> sq_next (sq_put e m) = e"
  by (simp add: sq_next_def sq_put_def Let_def)

lemma uring_inv_cong: "cq_list m' = cq_list m \<Longrightarrow> m_ops m' = m_ops m \<Longrightarrow> uring_inv m' = uring_inv m"
  by (simp add: uring_inv_def)

lemma takes_put:
  assumes "m_sq_head m = m_sq_tail m" and "sqe_user_data e = Some t" and "uring_inv m"
    and "t \<notin> m_ops m \<union> cq_tasks m"
  shows "uring_inv (kernel_takes (sq_put e m))" and "m_ops (kernel_takes (sq_put e m)) = insert t (m_ops m)"
    and "cq_list (kernel_takes (sq_put e m)) = cq_list m"
    and "m_sq_head (kernel_takes (sq_put e m)) = m_sq_tail (kernel_takes (sq_put e m))"
proof -
  have ne: "m_sq_head (sq_put e m) \<noteq> m_sq_tail (sq_put e m)" using assms(1) by simp
  show ops: "m_ops (kernel_takes (sq_put e m)) = insert t (m_ops m)"
    using ne sq_next_put [OF assms(1)] assms(2) by (simp add: kernel_takes_def)
  have c: "cq_list (kernel_takes m') = cq_list m'" for m' :: "'a uring_mem"
    by (simp add: kernel_takes_def cq_list_def cq_from_def)
  show cq: "cq_list (kernel_takes (sq_put e m)) = cq_list m" by (simp add: c)
  show "m_sq_head (kernel_takes (sq_put e m)) = m_sq_tail (kernel_takes (sq_put e m))"
    using ne assms(1) by (simp add: kernel_takes_def)
  show "uring_inv (kernel_takes (sq_put e m))"
    using assms(3,4) unfolding uring_inv_def ops cq by auto
qed

context uring_kernel
begin

lemma submit_ok:
  assumes ok: "uring_ok io" and t: "t \<notin> uring_out io" and s: "uring_submit K t io io'"
  shows "uring_ok io' \<and> uring_out io' = insert t (uring_out io)"
proof -
  obtain e n m where e: "io_ok io" "sqe_user_data e = Some t"
    "k_enter K 1 0 (sq_put e (io_mem io)) = Some (Inr n, m)" "io' = io\<lparr>io_mem := m\<rparr>"
    using s unfolding uring_submit_def by blast
  have inv: "uring_inv (io_mem io)" "m_sq_head (io_mem io) = m_sq_tail (io_mem io)"
    "t \<notin> m_ops (io_mem io) \<union> cq_tasks (io_mem io)"
    using ok t e(1) by (simp_all add: uring_ok_def uring_out_def)
  note T = takes_put [OF inv(2) e(2) inv(1,3)]
  note P = posts_inv [OF enter_submit [OF e(3)] T(1)]
  have "uring_ok io'" using P(1,3,4) T(4) e by (simp add: uring_ok_def)
  moreover have "uring_out io' = insert t (uring_out io)" using P(2) T(2,3) e by (simp add: uring_out_def)
  ultimately show ?thesis ..
qed

lemma waited_ok:
  assumes ok: "uring_ok (r_io s)" and k: "io_ok (r_io s)" and p: "kernel_posts (mem s) m"
  shows "completes uring_out uring_ok s
    (gt_io_collect (m_cq_head m) (m_cq_tail (k_load K m)) (upd_mem (\<lambda>_. k_load K m) s))"
proof -
  let ?s = "upd_mem (\<lambda>_. m) s"
  have inv: "uring_inv (mem s)" "m_sq_head (mem s) = m_sq_tail (mem s)"
    using ok k by (simp_all add: uring_ok_def)
  note P = posts_inv [OF p inv(1)]
  have m: "mem ?s = m" "io_ok (r_io ?s)" "upd_mem (k_load K) ?s = upd_mem (\<lambda>_. k_load K m) s"
    using k by (simp_all add: upd_mem_def)
  have "completes uring_out uring_ok ?s
      (gt_io_collect (m_cq_head (mem ?s)) (m_cq_tail (mem (upd_mem (k_load K) ?s))) (upd_mem (k_load K) ?s))"
    by (rule poll_now) (use m P inv in simp_all)
  then have "completes uring_out uring_ok ?s
      (gt_io_collect (m_cq_head m) (m_cq_tail (k_load K m)) (upd_mem (\<lambda>_. k_load K m) s))"
    unfolding m by (simp add: upd_mem_def)
  moreover have "uring_out (r_io ?s) = uring_out (r_io s)" using P(2) k by (simp add: uring_out_def upd_mem_def)
  ultimately show ?thesis by (rule completes_upd_mem)
qed

lemma poll_ok:
  assumes ok: "uring_ok (r_io s)" and p: "gt_io_poll K b s = Some s'"
  shows "completes uring_out uring_ok s s'"
proof (cases "io_ok (r_io s) \<and> r_inflight s \<noteq> 0")
  case False
  then show ?thesis using p completes_nothing [OF ok] by (auto simp: gt_io_poll_def)
next
  case True
  then obtain m where "kernel_posts (mem s) m"
    and s': "s' = gt_io_collect (m_cq_head m) (m_cq_tail (k_load K m)) (upd_mem (\<lambda>_. k_load K m) s)"
  proof (cases b)
    case True
    then obtain r m where e: "k_enter K 0 1 (mem s) = Some (r, m)"
      and "s' = gt_io_collect (m_cq_head m) (m_cq_tail (k_load K m)) (upd_mem (\<lambda>_. k_load K m) s)"
      using p \<open>io_ok (r_io s) \<and> r_inflight s \<noteq> 0\<close>
      by (auto simp: gt_io_poll_def gt_io_enter_def bind_eq_Some_conv upd_mem_def Let_def split: prod.splits)
    then show ?thesis using that enter_wait [OF e] by blast
  next
    case False
    then have "s' = gt_io_collect (m_cq_head (mem s)) (m_cq_tail (k_load K (mem s))) (upd_mem (\<lambda>_. k_load K (mem s)) s)"
      using p \<open>io_ok (r_io s) \<and> r_inflight s \<noteq> 0\<close> by (auto simp: gt_io_poll_def upd_mem_def Let_def)
    then show ?thesis using that posts_refl by blast
  qed
  then show ?thesis using waited_ok [OF ok] True by simp
qed

lemma poll_until_ok:
  assumes ok: "uring_ok (r_io s)" and p: "gt_io_poll_until K now c d s = Some s'"
  shows "completes uring_out uring_ok s s'"
proof -
  obtain m where m: "k_enter_until K (gt_remaining (now c) d) (mem s) = Some m"
    "gt_io_poll K False (upd_mem (\<lambda>_. m) s) = Some s'"
    using p by (auto simp: gt_io_poll_until_def bind_eq_Some_conv)
  let ?s = "upd_mem (\<lambda>_. m) s"
  have o: "uring_ok (r_io ?s) \<and> uring_out (r_io ?s) = uring_out (r_io s)"
    using posts_inv [OF enter_until [OF m(1)]] ok
    by (cases "io_ok (r_io s)") (simp_all add: uring_ok_def uring_out_def upd_mem_def)
  show ?thesis using completes_upd_mem poll_ok [OF _ m(2)] o by blast
qed

lemma teardown_ok:
  assumes "uring_ok (r_io s)" and "uring_out (r_io s) = {}" and "r_inflight s = 0"
  shows "\<exists>io. gt_io_teardown s = s\<lparr>r_io := io\<rparr> \<and> uring_ok io \<and> uring_out io = {}"
proof (cases "io_ok (r_io s)")
  case True
  have "s\<lparr>r_inflight := 0, r_io := io\<rparr> = s\<lparr>r_io := io\<rparr>" for io using assms(3) by (cases s) simp
  then show ?thesis using True by (auto simp: gt_io_teardown_def Let_def zero_io_def uring_ok_def uring_out_def)
next
  case False
  then show ?thesis using assms by (intro exI [of _ "r_io s"]) (simp add: gt_io_teardown_def Let_def)
qed

end

sublocale uring_kernel \<subseteq> backend: gt_backend uring_out uring_ok "gt_io_poll K" "gt_io_poll_until K now"
    "uring_submit K" gt_io_teardown for now
  by unfold_locales (use poll_ok poll_until_ok submit_ok teardown_ok in blast)+

end
