(* ===== verification/UringProps.thy ===== *)
theory UringProps
  imports UringSpec SchedProps "HOL-Library.Multiset"
begin

text \<open>
  What the io_uring backend guarantees: the entries it claims, what a poll delivers, the
  accounting of every reachable state, what setting up and tearing down acquire and give back,
  and two places where it falls short. A kernel driven by a script shows the assumptions on
  the kernel can hold.
\<close>

section \<open>A kernel driven by a script\<close>

text \<open>
  Each wait posts the next batch of the script, of it what is outstanding and fits the ring; with
  no batch left the wait never returns. A submission fails where the script says so.
\<close>

datatype kernel_event = Post "(tptr \<times> int) list" | Refuse nat

definition sim_post :: "tptr \<times> int \<Rightarrow> 'k uring_mem \<Rightarrow> 'k uring_mem" where
  "sim_post c m =
     (let idx = m_cq_tail m AND m_cq_mask m in
      if fst c \<in> m_ops m \<and> m_cq_tail m + 1 \<noteq> m_cq_head m \<and>
         idx \<notin> set (map (\<lambda>i. (m_cq_head m + of_nat i) AND m_cq_mask m) [0..<unat (m_cq_tail m - m_cq_head m)])
      then m\<lparr>m_cqes := (m_cqes m)(idx := \<lparr>cqe_user_data = Some (fst c), cqe_res = snd c\<rparr>),
             m_cq_tail := m_cq_tail m + 1, m_ops := m_ops m - {fst c}\<rparr>
      else m)"

definition sim_kernel :: "kernel_event list kernel" where
  "sim_kernel =
     \<lparr>k_enter = (\<lambda>n w m.
        if n = 1 then
          (case m_kern m of
             Refuse e # es \<Rightarrow> Some (Inl (int e + 1), m\<lparr>m_kern := es\<rparr>)
           | _ \<Rightarrow> Some (Inr 1, kernel_takes m))
        else
          (case m_kern m of
             Post ds # es \<Rightarrow> Some (Inr 0, fold sim_post ds (m\<lparr>m_kern := es\<rparr>))
           | _ \<Rightarrow> None)),
      k_enter_until = (\<lambda>ts m.
        (case m_kern m of Post ds # es \<Rightarrow> Some (fold sim_post ds (m\<lparr>m_kern := es\<rparr>)) | _ \<Rightarrow> Some m)),
      k_load = (\<lambda>m. m)\<rparr>"

lemma posts_trans:
  assumes "kernel_posts m1 m2" and "kernel_posts m2 m3"
  shows "kernel_posts m1 m3"
proof -
  obtain es where 1: "cq_list m2 = cq_list m1 @ es" "distinct (map cqe_user_data es)"
      "cqe_user_data ` set es \<subseteq> Some ` m_ops m1" "m_ops m2 = {t \<in> m_ops m1. Some t \<notin> cqe_user_data ` set es}"
      "m_sq_head m2 = m_sq_head m1" "m_sq_tail m2 = m_sq_tail m1" "m_sq_mask m2 = m_sq_mask m1"
      "m_cq_head m2 = m_cq_head m1"
    using assms(1) unfolding kernel_posts_def by (elim exE conjE) (rule that)
  obtain fs where 2: "cq_list m3 = cq_list m2 @ fs" "distinct (map cqe_user_data fs)"
      "cqe_user_data ` set fs \<subseteq> Some ` m_ops m2" "m_ops m3 = {t \<in> m_ops m2. Some t \<notin> cqe_user_data ` set fs}"
      "m_sq_head m3 = m_sq_head m2" "m_sq_tail m3 = m_sq_tail m2" "m_sq_mask m3 = m_sq_mask m2"
      "m_cq_head m3 = m_cq_head m2"
    using assms(2) unfolding kernel_posts_def by (elim exE conjE) (rule that)
  have "cqe_user_data ` set es \<inter> cqe_user_data ` set fs = {}"
  proof (rule equals0I)
    fix u assume u: "u \<in> cqe_user_data ` set es \<inter> cqe_user_data ` set fs"
    then obtain t where "u = Some t" "t \<in> m_ops m2" using 2(3) by blast
    then show False using u 1(4) by simp
  qed
  moreover have "m_ops m2 \<subseteq> m_ops m1" using 1(4) by blast
  then have "cqe_user_data ` set (es @ fs) \<subseteq> Some ` m_ops m1" using 1(3) 2(3)
    by (simp add: image_Un) (metis image_mono subset_trans)
  moreover have "m_ops m3 = {t \<in> m_ops m1. Some t \<notin> cqe_user_data ` set (es @ fs)}"
    using 1(4) 2(4) by auto
  ultimately show ?thesis unfolding kernel_posts_def
    by (intro exI [of _ "es @ fs"]) (use 1 2 in simp)
qed

lemma posts_kern: "kernel_posts m (m\<lparr>m_kern := k\<rparr>)"
  unfolding kernel_posts_def by (rule exI [of _ "[]"]) (simp add: cq_list_def cq_from_def)

lemma sim_post_posts: "kernel_posts m (sim_post c m)"
proof (cases "sim_post c m = m")
  case True
  then show ?thesis by (simp add: posts_refl)
next
  case False
  let ?n = "unat (m_cq_tail m - m_cq_head m)" and ?idx = "m_cq_tail m AND m_cq_mask m"
  let ?e = "\<lparr>cqe_user_data = Some (fst c), cqe_res = snd c\<rparr>"
  have op: "fst c \<in> m_ops m" "m_cq_tail m + 1 \<noteq> m_cq_head m"
    "?idx \<notin> (\<lambda>i. (m_cq_head m + of_nat i) AND m_cq_mask m) ` {0..<?n}"
    and s: "sim_post c m = m\<lparr>m_cqes := (m_cqes m)(?idx := ?e), m_cq_tail := m_cq_tail m + 1,
        m_ops := m_ops m - {fst c}\<rparr>"
    using False by (auto simp: sim_post_def Let_def split: if_splits)
  have ne: "(m_cq_head m + of_nat i) AND m_cq_mask m \<noteq> ?idx" if "i < ?n" for i
    using op(3) that by (metis (mono_tags, lifting) atLeastLessThan_iff imageI zero_le)
  have "m_cq_tail m + 1 - m_cq_head m \<noteq> 0" using op(2) by simp
  then have "unat (m_cq_tail m + 1 - m_cq_head m) = Suc ?n"
    using unatSuc [of "m_cq_tail m - m_cq_head m"] by (simp add: algebra_simps)
  moreover have "m_cq_head m + of_nat ?n = m_cq_tail m" by simp
  moreover have "map (\<lambda>i. ((m_cqes m)(?idx := ?e)) ((m_cq_head m + of_nat i) AND m_cq_mask m)) [0..<?n] =
      map (\<lambda>i. m_cqes m ((m_cq_head m + of_nat i) AND m_cq_mask m)) [0..<?n]"
    by (rule map_cong) (use ne in auto)
  ultimately have "cq_list (sim_post c m) = cq_list m @ [?e]"
    by (simp add: s cq_list_def cq_from_def)
  then show ?thesis unfolding kernel_posts_def
    by (intro exI [of _ "[?e]"]) (use op(1) in \<open>auto simp: s\<close>)
qed

lemma sim_posts: "kernel_posts m (fold sim_post ds m)"
proof (induction ds arbitrary: m)
  case Nil
  then show ?case by (simp add: posts_refl)
next
  case (Cons d ds)
  show ?case using posts_trans [OF sim_post_posts Cons.IH] by simp
qed

interpretation sim: uring_kernel sim_kernel
proof
  fix m m' :: "kernel_event list uring_mem" and e n r ts
  note batch = posts_trans [OF posts_kern sim_posts]
  show "k_enter sim_kernel 1 0 m = Some (Inr n, m') \<Longrightarrow> kernel_posts (kernel_takes m) m'"
    by (auto simp: sim_kernel_def posts_refl split: list.splits kernel_event.splits)
  show "k_enter sim_kernel 1 0 m = Some (Inl e, m') \<Longrightarrow> kernel_posts m m' \<and> 0 < e"
    by (auto simp: sim_kernel_def posts_kern split: list.splits kernel_event.splits)
  show "k_enter sim_kernel 0 1 m = Some (r, m') \<Longrightarrow> kernel_posts m m'"
    by (auto simp: sim_kernel_def batch split: list.splits kernel_event.splits)
  show "k_enter_until sim_kernel ts m = Some m' \<Longrightarrow> kernel_posts m m'"
    by (auto simp: sim_kernel_def batch posts_refl split: list.splits kernel_event.splits)
  show "kernel_posts m (k_load sim_kernel m)" by (simp add: sim_kernel_def posts_refl)
qed

section \<open>Claiming entries\<close>

lemma uint_and_mask:
  fixes a b :: u32
  assumes "k \<le> 32"
  shows "uint ((a + b) AND mask k) = (uint a + uint b) mod 2 ^ k"
proof -
  have "(2::int) ^ k dvd 2 ^ 32" using assms by (rule le_imp_power_dvd)
  then have "(uint a + uint b) mod 2 ^ 32 mod 2 ^ k = (uint a + uint b) mod 2 ^ k" by (rule mod_mod_cancel)
  moreover have "uint ((a + b) AND mask k) = uint (a + b) mod 2 ^ k"
    unfolding take_bit_eq_mask [symmetric] unsigned_take_bit_eq by (simp only: take_bit_eq_mod)
  ultimately show ?thesis by (simp add: uint_word_ariths)
qed

lemma mask_apart:
  fixes head d :: u32
  assumes "unat d < 2 ^ k" and "i < unat d" and "k \<le> 32"
  shows "(head + d) AND mask k \<noteq> (head + of_nat i) AND mask k"
proof
  assume eq: "(head + d) AND mask k = (head + of_nat i) AND mask k"
  have "i < 2 ^ 32" by (rule less_trans [OF assms(2)]) (use unsigned_less [of d] in simp)
  then have "unat (of_nat i :: u32) = i" by (intro unat_of_nat_id) simp
  then have i: "uint (of_nat i :: u32) = int i" by (metis uint_nat)
  have d: "uint d = int (unat d)" by simp
  have "(uint head + uint d) mod 2 ^ k = (uint head + int i) mod 2 ^ k"
    using arg_cong [OF eq, of uint] i by (simp only: uint_and_mask [OF assms(3)])
  then have "(uint d - int i) mod 2 ^ k = 0"
    by (metis add_diff_cancel_left diff_self mod_0 mod_diff_cong)
  moreover have "0 < uint d - int i" "uint d - int i < 2 ^ k"
    using assms(1,2) unfolding d by (simp_all add: of_nat_less_iff [symmetric, where 'a = int] del: of_nat_less_iff)
  ultimately show False by simp
qed

text \<open>Claiming a submission entry is safe across the wrap-around of the ring's 32-bit counters:
  with a ring of a power of two entries, an entry is refused exactly when every one is taken, and
  the one handed out is none of those between the head and the tail; it is zeroed, listed in the
  index array and published by the tail, and no more entries than the ring has are ever taken.\<close>

theorem sqe_claims_free_entry:
  assumes "io_sq_entries (r_io s) = 2 ^ k" and "m_sq_mask (mem s) = mask k" and "k < 32"
  shows "case gt_sqe s of
      (None, s') \<Rightarrow> s' = s \<and> 2 ^ k \<le> m_sq_tail (mem s) - m_sq_head (mem s)
    | (Some idx, s') \<Rightarrow>
        m_sq_tail (mem s) - m_sq_head (mem s) < 2 ^ k \<and>
        list_all (\<lambda>i. idx \<noteq> (m_sq_head (mem s) + of_nat i) AND mask k)
          [0..<unat (m_sq_tail (mem s) - m_sq_head (mem s))] \<and>
        m_sqes (mem s') idx = zero_sqe \<and>
        m_sq_array (mem s') (m_sq_tail (mem s) AND mask k) = idx \<and>
        m_sq_tail (mem s') = m_sq_tail (mem s) + 1 \<and>
        m_sq_tail (mem s') - m_sq_head (mem s') \<le> 2 ^ k"
proof (cases "m_sq_tail (mem s) - m_sq_head (mem s) < 2 ^ k")
  case False
  then show ?thesis by (simp add: gt_sqe_def assms(1) Let_def)
next
  case True
  let ?d = "m_sq_tail (mem s) - m_sq_head (mem s)" and ?h = "m_sq_head (mem s)"
  have "unat ((2::u32) ^ k) = 2 ^ k" using assms(3) unat_of_nat_id [of "2 ^ k", where 'a = 32] power_strict_increasing [of k 32 "2::nat"] by simp
  then have d: "unat ?d < 2 ^ k" using True by (simp add: word_less_nat_alt)
  have "?d + 1 \<le> 2 ^ k" using True by (metis inc_le)
  then have "m_sq_tail (mem s) + 1 - ?h \<le> 2 ^ k" by (simp add: algebra_simps)
  moreover have "m_sq_tail (mem s) AND mask k \<noteq> (?h + of_nat i) AND mask k" if "i < unat ?d" for i
    using mask_apart [OF d that, of ?h] assms(3) by simp
  ultimately show ?thesis
    using True assms(1,2) by (simp add: gt_sqe_def Let_def upd_mem_def list_all_iff)
qed

text \<open>A ring of four entries with two taken, its tail about to wrap.\<close>

definition ring4 :: "u32 \<Rightarrow> u32 \<Rightarrow> kernel_event list gt_io" where
  "ring4 head tail = (zero_io [] [])\<lparr>io_ok := True, io_sq_entries := 4,
     io_mem := (zero_mem [])\<lparr>m_sq_head := head, m_sq_tail := tail, m_sq_mask := 3, m_cq_mask := 7\<rparr>\<rparr>"

definition ring4_rt :: "u32 \<Rightarrow> u32 \<Rightarrow> kernel_event list uring_rt" where
  "ring4_rt head tail = zero_runtime \<lparr>io_ts = \<lparr>tv_sec = 0, tv_nsec = 0\<rparr>\<rparr> (ring4 head tail) None"

lemmas ring4_defs = ring4_def ring4_rt_def zero_runtime_def zero_io_def zero_mem_def

theorem sqe_claims_free_entry_witness:
  "case gt_sqe (ring4_rt 0xFFFFFFFD 0xFFFFFFFF) of
      (None, s') \<Rightarrow> s' = ring4_rt 0xFFFFFFFD 0xFFFFFFFF \<and>
        2 ^ 2 \<le> m_sq_tail (mem (ring4_rt 0xFFFFFFFD 0xFFFFFFFF)) - m_sq_head (mem (ring4_rt 0xFFFFFFFD 0xFFFFFFFF))
    | (Some idx, s') \<Rightarrow>
        m_sq_tail (mem (ring4_rt 0xFFFFFFFD 0xFFFFFFFF)) - m_sq_head (mem (ring4_rt 0xFFFFFFFD 0xFFFFFFFF)) < 2 ^ 2 \<and>
        list_all (\<lambda>i. idx \<noteq> (m_sq_head (mem (ring4_rt 0xFFFFFFFD 0xFFFFFFFF)) + of_nat i) AND mask 2)
          [0..<unat (m_sq_tail (mem (ring4_rt 0xFFFFFFFD 0xFFFFFFFF)) - m_sq_head (mem (ring4_rt 0xFFFFFFFD 0xFFFFFFFF)))] \<and>
        m_sqes (mem s') idx = zero_sqe \<and>
        m_sq_array (mem s') (m_sq_tail (mem (ring4_rt 0xFFFFFFFD 0xFFFFFFFF)) AND mask 2) = idx \<and>
        m_sq_tail (mem s') = m_sq_tail (mem (ring4_rt 0xFFFFFFFD 0xFFFFFFFF)) + 1 \<and>
        m_sq_tail (mem s') - m_sq_head (mem s') \<le> 2 ^ 2"
  by (rule sqe_claims_free_entry) (simp_all add: ring4_defs mask_eq_exp_minus_1)

section \<open>What a poll delivers\<close>

lemma complete_fold_list:
  assumes "rq_list s xs" and "distinct (xs @ map fst ds)"
  shows "rq_list (fold gt_complete ds s) (xs @ map fst ds) \<and>
    r_inflight (fold gt_complete ds s) = r_inflight s - of_nat (length ds) \<and>
    list_all (\<lambda>(t, res). t_state (r_tasks (fold gt_complete ds s) t) = GT_STATE_READY \<and>
        t_io_res (r_tasks (fold gt_complete ds s) t) = res) ds \<and>
    (\<forall>t. t \<notin> set (map fst ds) \<longrightarrow>
        t_state (r_tasks (fold gt_complete ds s) t) = t_state (r_tasks s t) \<and>
        t_io_res (r_tasks (fold gt_complete ds s) t) = t_io_res (r_tasks s t))"
  using assms
proof (induction ds arbitrary: s xs)
  case Nil
  then show ?case by simp
next
  case (Cons d ds)
  obtain t res where d: "d = (t, res)" by (cases d)
  let ?s0 = "upd_task t (\<lambda>x. x\<lparr>t_io_res := res\<rparr>) s" and ?s1 = "gt_complete d s"
  have "rq_list ?s0 xs" using Cons.prems(1) nxt_upd_same [where f = "\<lambda>x. x\<lparr>t_io_res := res\<rparr>" and t = t and s = s]
    by (simp add: rq_list_def)
  then have "rq_list (gt_rq_push t ?s0) (xs @ [t])"
    by (rule gt_rq_push_list) (use Cons.prems(2) d in simp)
  then have q: "rq_list ?s1 (xs @ [t])"
    by (simp add: gt_complete_def d Let_def rq_list_def nxt_def [abs_def])
  have T: "t_state (r_tasks ?s1 u) = (if u = t then GT_STATE_READY else t_state (r_tasks s u)) \<and>
      t_io_res (r_tasks ?s1 u) = (if u = t then res else t_io_res (r_tasks s u))" for u
    by (auto simp: gt_complete_def d Let_def gt_rq_push_def split: option.splits)
  have i: "r_inflight ?s1 = r_inflight s - 1"
    by (simp add: gt_complete_def d Let_def gt_rq_push_def split: option.splits)
  note IH = Cons.IH [OF q]
  have nt: "t \<notin> set (map fst ds)" using Cons.prems(2) d by simp
  show ?case using IH Cons.prems(2) T i nt by (auto simp: d)
qed

text \<open>A poll that does not block delivers every completion the kernel has posted: the tasks
  become ready behind those already on the run queue, in the order the completions were posted,
  each with its own completion's result; the number outstanding drops by as many; and the queue
  is empty to the kernel afterwards.\<close>

theorem poll_delivers:
  assumes "io_ok (r_io s)" and "r_inflight s \<noteq> 0" and "rq_list s xs"
    and "m_cq_head (k_load K (mem s)) = m_cq_head (mem s)"
    and "map cqe_user_data (cq_list (k_load K (mem s))) = map Some ts"
    and "distinct (xs @ ts)"
  shows "\<exists>s'. gt_io_poll K False s = Some s' \<and> rq_list s' (xs @ ts) \<and>
    list_all2 (\<lambda>t e. t_state (r_tasks s' t) = GT_STATE_READY \<and> t_io_res (r_tasks s' t) = cqe_res e)
      ts (cq_list (k_load K (mem s))) \<and>
    r_inflight s' = r_inflight s - of_nat (length ts) \<and> cq_list (mem s') = []"
proof -
  let ?m = "k_load K (mem s)" and ?s1 = "upd_mem (k_load K) s"
  let ?ds = "map cqe_done (cq_list ?m)"
  have m1: "mem ?s1 = ?m" by (simp add: upd_mem_def)
  have ts: "map fst ?ds = ts"
    using arg_cong [OF assms(5), of "map the"] by (simp add: cqe_done_def comp_def)
  have some: "\<forall>e \<in> set (cq_list ?m). cqe_user_data e \<noteq> None"
  proof
    fix e assume "e \<in> set (cq_list ?m)"
    then have "cqe_user_data e \<in> set (map Some ts)" unfolding assms(5) [symmetric] by simp
    then show "cqe_user_data e \<noteq> None" by auto
  qed
  define s' where "s' = gt_io_collect (m_cq_head ?m) (m_cq_tail ?m) ?s1"
  have s': "s' = upd_mem (\<lambda>m. m\<lparr>m_cq_head := m_cq_tail ?m\<rparr>) (fold gt_complete ?ds ?s1)"
    using gt_io_collect_fold [of ?s1 "m_cq_head ?m" "m_cq_tail ?m"] some m1 by (simp add: s'_def cq_list_def)
  have "rq_list ?s1 xs" using assms(3) by (simp add: upd_mem_def rq_list_def nxt_def [abs_def])
  note F = complete_fold_list [OF this, of ?ds, unfolded ts, OF assms(6)]
  have "gt_io_poll K False s = Some s'"
    using assms(1,2,4) m1 by (simp add: gt_io_poll_def s'_def Let_def)
  moreover have "rq_list s' (xs @ ts)"
    using F by (simp add: s' upd_mem_def rq_list_def nxt_def [abs_def])
  moreover have "r_inflight s' = r_inflight s - of_nat (length ts)"
    using F ts by (simp add: s' upd_mem_def) (metis length_map)
  moreover have "cq_list (mem s') = []" using m1 by (simp add: s' upd_mem_def cq_list_def cq_from_def)
  moreover have "list_all2 (\<lambda>t e. t_state (r_tasks s' t) = GT_STATE_READY \<and> t_io_res (r_tasks s' t) = cqe_res e)
      ts (cq_list ?m)"
    using F unfolding ts [symmetric] by (simp add: s' upd_mem_def list_all2_map1 list_all2_same list_all_iff cqe_done_def)
  ultimately show ?thesis by blast
qed


definition ring4_posted :: "kernel_event list uring_rt" where
  "ring4_posted = (ring4_rt 2 2)\<lparr>r_inflight := 2,
     r_tasks := (\<lambda>t. (zero_task \<lparr>io_ts = \<lparr>tv_sec = 0, tv_nsec = 0\<rparr>\<rparr>)\<lparr>t_state := GT_STATE_WAITING\<rparr>),
     r_io := (ring4 2 2)\<lparr>io_mem := (io_mem (ring4 2 2))\<lparr>m_cq_tail := 1, m_cq_head := - 1,
       m_cqes := (\<lambda>_. \<lparr>cqe_user_data = None, cqe_res = 0\<rparr>)
         (7 := \<lparr>cqe_user_data = Some 5, cqe_res = 12\<rparr>, 0 := \<lparr>cqe_user_data = Some 2, cqe_res = - 9\<rparr>)\<rparr>\<rparr>\<rparr>"

theorem poll_delivers_witness:
  "\<exists>s'. gt_io_poll sim_kernel False ring4_posted = Some s' \<and> rq_list s' ([] @ [5, 2]) \<and>
    list_all2 (\<lambda>t e. t_state (r_tasks s' t) = GT_STATE_READY \<and> t_io_res (r_tasks s' t) = cqe_res e)
      [5, 2] (cq_list (k_load sim_kernel (mem ring4_posted))) \<and>
    r_inflight s' = r_inflight ring4_posted - of_nat (length [5 :: tptr, 2]) \<and> cq_list (mem s') = []"
  by (rule poll_delivers)
    (simp_all add: ring4_posted_def ring4_defs sim_kernel_def rq_list_def last_opt_def cq_list_def cq_from_def
      zero_task_def upt_rec)

section \<open>Every operation is a step of the scheduler\<close>

text \<open>The calls a task can make through the ring; \<^verbatim>\<open>fl\<close> is what fcntl answers for the descriptor's flags.\<close>

datatype ring_call =
    CallRead u32 int u64 u64       \<comment> \<open>fl, fd, buffer, length\<close>
  | CallWrite u32 int u64 u64
  | CallRecv u32 int u64 u64 u32   \<comment> \<open>and flags\<close>
  | CallSend u32 int u64 u64 u32
  | CallAccept u32 int u64 u64
  | CallConnect u32 int u64 u32
  | CallFsync int
  | CallSleep int u32 timespec

fun ring_try :: "'k kernel \<Rightarrow> os_io \<Rightarrow> (tptr \<Rightarrow> u64) \<Rightarrow> ring_call \<Rightarrow> 'k uring_rt \<Rightarrow> 'k uring_try" where
  "ring_try K c ts (CallRead fl fd buf n) s = gt_try_read K c fl fd buf n s"
| "ring_try K c ts (CallWrite fl fd buf n) s = gt_try_write K c fl fd buf n s"
| "ring_try K c ts (CallRecv fl fd buf n flags) s = gt_try_recv K c fl fd buf n flags s"
| "ring_try K c ts (CallSend fl fd buf n flags) s = gt_try_send K c fl fd buf n flags s"
| "ring_try K c ts (CallAccept fl fd addr addrlen) s = gt_try_accept K c fl fd addr addrlen s"
| "ring_try K c ts (CallConnect fl fd addr len) s = gt_try_connect K c fl fd addr len s"
| "ring_try K c ts (CallFsync fd) s = gt_try_fsync K fd s"
| "ring_try K c ts (CallSleep clock flags duration) s = gt_try_sleep K c ts clock flags duration s"

text \<open>What the ring must not take, whatever room it has: what must not wait, and a clock it cannot time against.\<close>

fun ring_unfit :: "os_io \<Rightarrow> ring_call \<Rightarrow> bool" where
  "ring_unfit c (CallRead fl fd buf n) = gt_fd_nonblocking c fl"
| "ring_unfit c (CallWrite fl fd buf n) = gt_fd_nonblocking c fl"
| "ring_unfit c (CallRecv fl fd buf n flags) = (flags AND msg_dontwait c \<noteq> 0 \<or> gt_fd_nonblocking c fl)"
| "ring_unfit c (CallSend fl fd buf n flags) = (flags AND msg_dontwait c \<noteq> 0 \<or> gt_fd_nonblocking c fl)"
| "ring_unfit c (CallAccept fl fd addr addrlen) = gt_fd_nonblocking c fl"
| "ring_unfit c (CallConnect fl fd addr len) = gt_fd_nonblocking c fl"
| "ring_unfit c (CallFsync fd) = False"
| "ring_unfit c (CallSleep clock flags duration) =
     (clock \<notin> {clock_monotonic c, clock_realtime c, clock_boottime c})"

text \<open>The entry a call is to be: the operation of the call, on the call's own arguments.\<close>

fun ring_fields :: "os_io \<Rightarrow> u64 \<Rightarrow> ring_call \<Rightarrow> uring_sqe \<Rightarrow> uring_sqe" where
  "ring_fields c ts (CallRead fl fd buf n) e =
     e\<lparr>sqe_opcode := OP_READ, sqe_fd := fd, sqe_addr := buf, sqe_len := ucast n, sqe_off := - 1\<rparr>"
| "ring_fields c ts (CallWrite fl fd buf n) e =
     e\<lparr>sqe_opcode := OP_WRITE, sqe_fd := fd, sqe_addr := buf, sqe_len := ucast n, sqe_off := - 1\<rparr>"
| "ring_fields c ts (CallRecv fl fd buf n flags) e =
     e\<lparr>sqe_opcode := OP_RECV, sqe_fd := fd, sqe_addr := buf, sqe_len := ucast n, sqe_op_flags := MsgFlags flags\<rparr>"
| "ring_fields c ts (CallSend fl fd buf n flags) e =
     e\<lparr>sqe_opcode := OP_SEND, sqe_fd := fd, sqe_addr := buf, sqe_len := ucast n, sqe_op_flags := MsgFlags flags\<rparr>"
| "ring_fields c ts (CallAccept fl fd addr addrlen) e =
     e\<lparr>sqe_opcode := OP_ACCEPT, sqe_fd := fd, sqe_addr := addr, sqe_off := addrlen,
       sqe_op_flags := AcceptFlags (sock_cloexec c)\<rparr>"
| "ring_fields c ts (CallConnect fl fd addr len) e =
     e\<lparr>sqe_opcode := OP_CONNECT, sqe_fd := fd, sqe_addr := addr, sqe_off := ucast len\<rparr>"
| "ring_fields c ts (CallFsync fd) e = e\<lparr>sqe_opcode := OP_FSYNC, sqe_fd := fd\<rparr>"
| "ring_fields c ts (CallSleep clock flags duration) e =
     e\<lparr>sqe_opcode := OP_TIMEOUT, sqe_addr := ts, sqe_len := 1, sqe_off := 0, sqe_op_flags := TimeoutFlags
       ((if flags AND timer_abstime c \<noteq> 0 then [TIMEOUT_ABS] else []) @
        (if clock = clock_realtime c then [TIMEOUT_REALTIME]
         else if clock = clock_boottime c then [TIMEOUT_BOOTTIME] else []))\<rparr>"

definition ring_entry :: "os_io \<Rightarrow> (tptr \<Rightarrow> u64) \<Rightarrow> tptr \<Rightarrow> ring_call \<Rightarrow> uring_sqe" where
  "ring_entry c ts self call = (ring_fields c (ts self) call zero_sqe)\<lparr>sqe_user_data := Some self\<rparr>"

text \<open>The duration of a sleep is kept with the task, where the entry points.\<close>

fun ring_keeps :: "ring_call \<Rightarrow> gt_io_task \<Rightarrow> gt_io_task" where
  "ring_keeps (CallSleep clock flags duration) d = \<lparr>io_ts = duration\<rparr>"
| "ring_keeps _ d = d"

definition ring_full :: "'k uring_rt \<Rightarrow> bool" where
  "ring_full s \<longleftrightarrow> io_sq_entries (r_io s) \<le> m_sq_tail (mem s) - m_sq_head (mem s)"

text \<open>What is to become of a call: its entry at the tail, the kernel entered, the task parked or told of the refusal.\<close>

definition ring_does ::
  "'k kernel \<Rightarrow> os_io \<Rightarrow> (tptr \<Rightarrow> u64) \<Rightarrow> tptr \<Rightarrow> ring_call \<Rightarrow> 'k uring_rt \<Rightarrow> (gt_io_task, 'k gt_io) gt_conf option" where
  "ring_does K c ts self call s = do {
     (r, m) \<leftarrow> k_enter K 1 0 (sq_put (ring_entry c ts self call) (mem s));
     let s1 = upd_task self (\<lambda>x. x\<lparr>t_io := ring_keeps call (t_io (r_tasks s self))\<rparr>) s;
     let io = (r_io s)\<lparr>io_mem := m\<rparr>;
     (case r of
        Inl e \<Rightarrow> Some (InBody (- e), s1\<lparr>r_io := io\<rparr>)
      | Inr n \<Rightarrow> gt_io_park (gt_io_poll K) io s1)
   }"

lemma begin_does:
  fixes s :: "'k uring_rt"
  assumes cur: "r_current s = Some self" and e: "(f zero_sqe)\<lparr>sqe_user_data := Some self\<rparr> = ring_entry c ts self call"
    and rest: "\<And>sqe s1. r_current s1 = Some self \<Longrightarrow> r_tasks s1 = r_tasks s \<Longrightarrow>
      rest sqe s1 = gt_io_wait K sqe (fill_sqe sqe f (upd_task self (\<lambda>x. x\<lparr>t_io := ring_keeps call (t_io (r_tasks s self))\<rparr>) s1))"
  shows "gt_io_begin s rest =
    (if \<not> io_ok (r_io s) \<or> ring_full s then Some (Declined s) else map_option Taken (ring_does K c ts self call s))"
proof (cases "io_ok (r_io s) \<and> \<not> ring_full s")
  case False
  then show ?thesis by (auto simp: gt_io_begin_def gt_io_ready_def gt_sqe_def ring_full_def Let_def)
next
  case True
  define d where "d = ring_keeps call (t_io (r_tasks s self))"
  let ?idx = "m_sq_tail (mem s) AND m_sq_mask (mem s)"
  let ?s0 = "upd_task self (\<lambda>x. x\<lparr>t_io := d\<rparr>) s"
  let ?s1 = "upd_mem (\<lambda>m. m\<lparr>m_sqes := (m_sqes m)(?idx := zero_sqe), m_sq_array := (m_sq_array m)(?idx := ?idx),
      m_sq_tail := m_sq_tail (mem s) + 1\<rparr>) s"
  have sqe: "gt_sqe s = (Some ?idx, ?s1)" using True by (simp add: gt_sqe_def ring_full_def Let_def)
  have s1: "r_current ?s1 = Some self" "r_tasks ?s1 = r_tasks s" using cur by (simp_all add: upd_mem_def)
  have begun: "gt_io_begin s rest =
      map_option Taken (gt_io_wait K ?idx (fill_sqe ?idx f (upd_task self (\<lambda>x. x\<lparr>t_io := d\<rparr>) ?s1)))"
    using True sqe rest [OF s1] by (simp add: gt_io_begin_def gt_io_ready_def d_def)
  have fill: "fill_sqe ?idx (\<lambda>e. e\<lparr>sqe_user_data := Some self\<rparr>) (fill_sqe ?idx f (upd_task self (\<lambda>x. x\<lparr>t_io := d\<rparr>) ?s1)) =
      upd_mem (sq_put (ring_entry c ts self call)) ?s0"
    by (simp add: fill_sqe_def upd_mem_def sq_put_def upd_task_def Let_def e [symmetric])
  have cur0: "r_current (fill_sqe ?idx f (upd_task self (\<lambda>x. x\<lparr>t_io := d\<rparr>) ?s1)) = Some self"
    using cur by (simp add: fill_sqe_def upd_mem_def)
  have park: "gt_io_park (gt_io_poll K) io (s\<lparr>r_tasks := ts\<rparr>) = gt_block (gt_io_poll K) GT_STATE_WAITING FIoWait
      (s\<lparr>r_tasks := ts, r_inflight := r_inflight s + 1, r_io := io\<rparr>)" for io ts
    by (cases s) (simp add: gt_io_park_def)
  have "gt_io_wait K ?idx (fill_sqe ?idx f (upd_task self (\<lambda>x. x\<lparr>t_io := d\<rparr>) ?s1)) = ring_does K c ts self call s"
    unfolding gt_io_wait_def cur0 option.case fill ring_does_def d_def [symmetric]
    by (cases "k_enter K 1 0 (sq_put (ring_entry c ts self call) (mem s))")
      (auto simp: gt_io_enter_def upd_mem_def upd_task_def park Let_def split: sum.split)
  with begun True show ?thesis by simp
qed

lemma io_noop: "r_tasks s1 = r_tasks s \<Longrightarrow> upd_task self (\<lambda>x. x\<lparr>t_io := t_io (r_tasks s self)\<rparr>) s1 = s1"
  by (cases s1) (auto simp: upd_task_def fun_eq_iff)

lemma begin_fd_does:
  fixes s :: "'k uring_rt"
  assumes cur: "r_current s = Some self" and e: "(f zero_sqe)\<lparr>sqe_user_data := Some self\<rparr> = ring_entry c ts self call"
    and keeps: "\<And>d. ring_keeps call d = d"
  shows "gt_io_begin_fd c fl s (\<lambda>sqe s1. gt_io_wait K sqe (fill_sqe sqe f s1)) =
    (if gt_fd_nonblocking c fl \<or> \<not> io_ok (r_io s) \<or> ring_full s then Some (Declined s)
     else map_option Taken (ring_does K c ts self call s))"
proof -
  have "gt_io_begin s (\<lambda>sqe s1. gt_io_wait K sqe (fill_sqe sqe f s1)) =
    (if \<not> io_ok (r_io s) \<or> ring_full s then Some (Declined s) else map_option Taken (ring_does K c ts self call s))"
    by (rule begin_does [where f = f, OF cur e]) (simp add: keeps io_noop)
  then show ?thesis by (simp add: gt_io_begin_fd_def gt_io_ready_def)
qed

lemma ring_try_does:
  fixes s :: "'k uring_rt"
  assumes cur: "r_current s = Some self"
  shows "ring_try K c ts call s =
    (if ring_unfit c call \<or> \<not> io_ok (r_io s) \<or> ring_full s then Some (Declined s)
     else map_option Taken (ring_does K c ts self call s))"
proof (cases call)
  case (CallFsync fd)
  show ?thesis unfolding CallFsync ring_try.simps gt_try_fsync_def
    by (subst begin_does [where call = "CallFsync fd" and c = c and ts = ts, OF cur]) (simp_all add: ring_entry_def io_noop)
next
  case (CallSleep clock flags duration)
  show ?thesis
  proof (cases "ring_unfit c call")
    case False
    then have in3: "\<not> (clock \<noteq> clock_monotonic c \<and> clock \<noteq> clock_realtime c \<and> clock \<noteq> clock_boottime c)"
      using CallSleep by auto
    show ?thesis unfolding CallSleep ring_try.simps gt_try_sleep_def if_not_P [OF in3]
      by (subst begin_does [where call = "CallSleep clock flags duration" and c = c and ts = ts, OF cur])
        (use False CallSleep in \<open>simp_all add: ring_entry_def\<close>)
  qed (use CallSleep in \<open>simp add: gt_try_sleep_def\<close>)
qed (simp_all add: gt_try_read_def gt_try_write_def gt_try_recv_def gt_try_send_def gt_try_accept_def gt_try_connect_def
    ring_entry_def begin_fd_does [OF cur, where ts = ts and call = call])

lemma ring_does_step:
  assumes "r_current s = Some self" "io_ok (r_io s)" "ring_does K c ts self call s = Some cf"
    and "\<And>e m. k_enter K 1 0 (sq_put (ring_entry c ts self call) (mem s)) \<noteq> Some (Inl e, m)"
  shows "sched_step (gt_io_poll K) pu (uring_submit K) td (InBody v, s) cf"
proof -
  obtain n m where k: "k_enter K 1 0 (sq_put (ring_entry c ts self call) (mem s)) = Some (Inr n, m)"
    using assms(3,4) by (cases "k_enter K 1 0 (sq_put (ring_entry c ts self call) (mem s))")
      (auto simp: ring_does_def, metis sum.exhaust)
  let ?io = "(r_io s)\<lparr>io_mem := m\<rparr>"
  have "gt_io_park (gt_io_poll K) ?io (upd_task self (\<lambda>x. x\<lparr>t_io := ring_keeps call (t_io (r_tasks s self))\<rparr>) s) = Some cf"
    using assms(3) k by (simp add: ring_does_def Let_def)
  moreover have "uring_submit K self (r_io s) ?io"
    using assms(2) k unfolding uring_submit_def
    by (intro conjI exI [of _ "ring_entry c ts self call"]) (auto simp: ring_entry_def)
  ultimately show ?thesis using sched_step.park [OF assms(1)] by blast
qed


section \<open>A run on the ring\<close>

definition ring_os :: "kernel_event list \<Rightarrow> kernel_event list os_ring" where
  "ring_os ks =
     \<lparr>os_setup = (\<lambda>n. Some (5, \<lparr>pr_sq_entries = 4, pr_cq_entries = 8, pr_single = True,
        pr_sq_off = \<lparr>off_head = 0, off_tail = 4, off_mask = 8, off_array = 320\<rparr>,
        pr_cq_off = \<lparr>off_head = 64, off_tail = 68, off_mask = 72, off_array = 128\<rparr>\<rparr>)),
      os_map_sq = (\<lambda>n. Some 8192), os_map_cq = (\<lambda>n. None), os_map_sqes = (\<lambda>n. Some 16384),
      os_mem0 = (io_mem (ring4 0 0))\<lparr>m_kern := ks\<rparr>\<rparr>"

definition ts0 :: gt_io_task where "ts0 = \<lparr>io_ts = \<lparr>tv_sec = 0, tv_nsec = 0\<rparr>\<rparr>"

definition ur_slot :: os_slot where "ur_slot = \<lparr>os_realloc = True, os_calloc = True\<rparr>"

definition ur_spawn :: "gt_io_task os_spawn" where
  "ur_spawn = \<lparr>sp_slot = ur_slot, sp_stack = ex_mem, sp_ustack = ex_mem, sp_unsafe = False, sp_io0 = ts0\<rparr>"

definition os_io0 :: os_io where
  "os_io0 = \<lparr>o_nonblock = 2048, msg_dontwait = 64, sock_cloexec = 524288, timer_abstime = 1,
     clock_monotonic = 1, clock_realtime = 0, clock_boottime = 7, eTIME = 62\<rparr>"

text \<open>The runtime started on the ring, a task spawned, and the main task reading 8 bytes.\<close>

definition ur0 :: "kernel_event list \<Rightarrow> kernel_event list uring_rt" where
  "ur0 ks = (case gt_init_slow True ur_slot ts0 (zero_io [] []) (gt_io_setup (ring_os ks)) None of
     Inr s \<Rightarrow> s | Inl p \<Rightarrow> zero_runtime ts0 (zero_io [] []) None)"

definition ur1 :: "kernel_event list \<Rightarrow> kernel_event list uring_rt" where
  "ur1 ks = snd (snd (gt_spawn ur_spawn ex_body (ur0 ks)))"

definition ur_next :: "kernel_event list uring_try \<Rightarrow> kernel_event list uring_rt" where
  "ur_next r = (case r of Some (Taken (p, s)) \<Rightarrow> s | _ \<Rightarrow> ur0 [])"

definition ur_read :: "kernel_event list uring_rt \<Rightarrow> kernel_event list uring_try" where
  "ur_read s = gt_try_read sim_kernel os_io0 0 3 100 8 s"

definition ur_write :: "kernel_event list uring_rt \<Rightarrow> kernel_event list uring_try" where
  "ur_write s = gt_try_write sim_kernel os_io0 0 4 200 8 s"

lemmas ur_eval = ring4_defs ring_os_def ts0_def ur_slot_def gt_init_slow_def gt_slot_alloc_def gt_slot_grow_def
  gt_consts Let_def zero_task_def gt_io_setup_def ring_bytes_def GT_RING_ENTRIES_def

lemma ur0_init: "gt_init_slow True ur_slot ts0 (zero_io [] []) (gt_io_setup (ring_os ks)) None = Inr (ur0 ks)"
  by (simp add: ur0_def ur_eval)

lemmas ur_run = ur0_def ur1_def ur_spawn_def ex_mem_def ex_body_def os_io0_def spawn_eval ur_eval
  gt_try_read_def gt_try_write_def gt_io_begin_fd_def gt_fd_nonblocking_def gt_io_begin_def gt_io_ready_def
  gt_sqe_def fill_sqe_def gt_io_wait_def gt_io_enter_def sim_kernel_def kernel_takes_def sq_next_def
  upd_mem_def gt_block_def gt_pick.simps gt_io_poll_def gt_io_collect.simps gt_rq_pop_def gt_switch_to_def
  zero_sqe_def

lemma ur2_read: "ur_read (ur1 []) = Some (Taken (AtSwitch, ur_next (ur_read (ur1 []))))"
  by (simp add: ur_next_def ur_read_def ur_run)

lemma ur2_cur: "r_current (ur1 ks) = Some 0"
  by (simp add: ur_run)


lemma ur1_step: "sched_step p pu sub td (InBody 0, ur0 ks) (InBody 0, ur1 ks)"
proof -
  have "fst (gt_spawn ur_spawn ex_body (ur0 ks)) = 0" by (simp add: ur_run)
  then have "gt_spawn ur_spawn ex_body (ur0 ks) = (0, fst (snd (gt_spawn ur_spawn ex_body (ur0 ks))), ur1 ks)"
    by (simp add: ur1_def prod_eq_iff)
  then show ?thesis by (rule sched_step.spawn)
qed

text \<open>The read of the run parks the main task.\<close>

lemma ur1_not_refused: "k_enter sim_kernel 1 0 (sq_put e (mem (ur1 []))) \<noteq> Some (Inl x, m)"
  by (simp add: ur_run sq_put_def Let_def)


section \<open>Accounting\<close>

lemma setup_io:
  assumes "r_inflight s = 0"
  shows "gt_io_setup os s = s\<lparr>r_io := r_io (gt_io_setup os (zero_runtime io0 (r_io s) None))\<rparr>"
proof -
  define z where "z = (zero_runtime io0 (r_io s) None :: 'a uring_rt)"
  have z: "r_io z = r_io s" by (simp add: z_def zero_runtime_def)
  have "s\<lparr>r_inflight := 0, r_io := io\<rparr> = s\<lparr>r_io := io\<rparr>" for io using assms by (cases s) simp
  then show ?thesis unfolding z_def [symmetric]
    by (simp add: gt_io_setup_def ring_fail_def Let_def case_prod_beta z split: option.splits)
qed

lemma setup_fresh:
  assumes "cq_list (os_mem0 os) = []" "m_ops (os_mem0 os) = {}" "m_sq_head (os_mem0 os) = m_sq_tail (os_mem0 os)"
  shows "uring_ok (r_io (gt_io_setup os s)) \<and> uring_out (r_io (gt_io_setup os s)) = {}"
  using assms
  by (simp add: gt_io_setup_def ring_fail_def uring_ok_def uring_out_def uring_inv_def Let_def case_prod_beta
      split: option.splits)

lemma uring_backend:
  assumes "uring_kernel K"
  shows "gt_backend uring_out uring_ok (gt_io_poll K) (gt_io_poll_until K now) (uring_submit K) gt_io_teardown"
  by unfold_locales
    (use uring_kernel.poll_ok [OF assms] uring_kernel.poll_until_ok [OF assms] uring_kernel.submit_ok [OF assms]
      uring_kernel.teardown_ok [OF assms] in blast)+

text \<open>
  The runs of a program on the ring: the scheduler's steps, and the calls made through the ring. The number is of
  the submissions the kernel has refused (\<^verbatim>\<open>io_uring_enter\<close> failing) so far.
\<close>

definition ring_refused :: "'k kernel \<Rightarrow> os_io \<Rightarrow> (tptr \<Rightarrow> u64) \<Rightarrow> tptr \<Rightarrow> ring_call \<Rightarrow> 'k uring_rt \<Rightarrow> bool" where
  "ring_refused K c ts self call s \<longleftrightarrow> (\<exists>e m. k_enter K 1 0 (sq_put (ring_entry c ts self call) (mem s)) = Some (Inl e, m))"

inductive ring_run ::
  "'k kernel \<Rightarrow> (int \<Rightarrow> timespec) \<Rightarrow> os_io \<Rightarrow> (tptr \<Rightarrow> u64) \<Rightarrow> 'k uring_rt \<Rightarrow> nat \<Rightarrow> (gt_io_task, 'k gt_io) gt_conf \<Rightarrow> bool"
  for K now c ts s0 where
  started: "ring_run K now c ts s0 0 (InBody 0, s0)"
| scheduler: "ring_run K now c ts s0 n cf \<Longrightarrow>
    sched_step (gt_io_poll K) (gt_io_poll_until K now) (uring_submit K) gt_io_teardown cf cf' \<Longrightarrow>
    ring_run K now c ts s0 n cf'"
| call: "ring_run K now c ts s0 n (InBody v, s) \<Longrightarrow> r_current s = Some self \<Longrightarrow>
    ring_try K c ts call s = Some (Taken cf) \<Longrightarrow>
    ring_run K now c ts s0 (if ring_refused K c ts self call s then Suc n else n) cf"

lemma ring_run_ok:
  assumes K: "uring_kernel K" and s0: "conf_ok uring_out uring_ok (InBody 0, s0)"
  shows "ring_run K now c ts s0 n cf \<Longrightarrow> n = 0 \<Longrightarrow> conf_ok uring_out uring_ok cf"
proof (induction rule: ring_run.induct)
  case started
  show ?case by (rule s0)
next
  case (scheduler n cf cf')
  then show ?case using gt_backend.step_ok [OF uring_backend [OF K]] by blast
next
  case (call n v s self call cf)
  then have n: "n = 0" "\<not> ring_refused K c ts self call s" by (auto split: if_splits)
  have "ring_does K c ts self call s = Some cf" "io_ok (r_io s)"
    using call.hyps(3) unfolding ring_try_does [OF call.hyps(2)] by (auto split: if_splits)
  then have "sched_step (gt_io_poll K) (gt_io_poll_until K now) (uring_submit K) gt_io_teardown (InBody v, s) cf"
    using ring_does_step [OF call.hyps(2)] n(2) unfolding ring_refused_def by blast
  then show ?case using gt_backend.step_ok [OF uring_backend [OF K]] call.IH n(1) by blast
qed

text \<open>C4: With the ring as the backend, in every state a program reaches in which the ring is open, up to the first
  submission the kernel refuses (and with no awaited task detached): the tasks that
  wait on i/o are exactly those whose operation the kernel holds or whose completion is posted and
  not yet collected, each task in one of the two at most and once; every submission has reached the
  kernel; and the runtime's count of outstanding operations is their number.\<close>

theorem uring_accounting:
  assumes "uring_kernel K"
    and "gt_init_slow calloc osl io0 (zero_io k []) (gt_io_setup os) usp = Inr s0"
    and "cq_list (os_mem0 os) = []" and "m_ops (os_mem0 os) = {}"
    and "m_sq_head (os_mem0 os) = m_sq_tail (os_mem0 os)"
    and "ring_run K now c ts s0 0 (p, s)"
    and "io_ok (r_io s)"
  shows "{t. t < r_nslots s \<and> t_state (r_tasks s t) = GT_STATE_WAITING} = m_ops (mem s) \<union> cq_tasks (mem s) \<and>
    m_ops (mem s) \<inter> cq_tasks (mem s) = {} \<and> distinct (map cqe_user_data (cq_list (mem s))) \<and>
    m_sq_head (mem s) = m_sq_tail (mem s) \<and>
    r_inflight s = of_nat (card (m_ops (mem s) \<union> cq_tasks (mem s)))"
proof -
  let ?io = "r_io (gt_io_setup os (zero_runtime io0 (zero_io k []) None))"
  have st: "gt_io_setup os s = s\<lparr>r_io := ?io\<rparr>" if "r_inflight s = 0" "r_io s = zero_io k []" for s
    using setup_io [OF that(1), of os io0] that(2) by simp
  have "conf_ok uring_out uring_ok (InBody 0, s0)"
    by (rule init_conf_ok [OF assms(2), where io = ?io]) (use st setup_fresh [OF assms(3-5)] in auto)
  then have "conf_ok uring_out uring_ok (p, s)"
    by (rule ring_run_ok [OF assms(1) _ assms(6) refl])
  from conf_inflight [OF this] show ?thesis
    using assms(7) by (simp add: uring_out_def uring_ok_def uring_inv_def)
qed

text \<open>The run in which the main task reads: it waits for the one operation the kernel has.\<close>

lemma ur2_run:
  "ring_run sim_kernel (\<lambda>_. io_ts ts0) os_io0 (\<lambda>_. 0) (ur0 []) 0 (AtSwitch, ur_next (ur_read (ur1 [])))"
proof -
  have "ring_run sim_kernel (\<lambda>_. io_ts ts0) os_io0 (\<lambda>_. 0) (ur0 []) 0 (InBody 0, ur1 [])"
    by (rule ring_run.scheduler [OF ring_run.started ur1_step])
  moreover have "ring_try sim_kernel os_io0 (\<lambda>_. 0) (CallRead 0 3 100 8) (ur1 []) = Some (Taken (AtSwitch, ur_next (ur_read (ur1 []))))"
    using ur2_read by (simp add: ur_read_def)
  moreover have "\<not> ring_refused sim_kernel os_io0 (\<lambda>_. 0) 0 (CallRead 0 3 100 8) (ur1 [])"
    using ur1_not_refused by (simp add: ring_refused_def)
  ultimately show ?thesis using ring_run.call [OF _ ur2_cur, of sim_kernel "\<lambda>_. io_ts ts0" os_io0 "\<lambda>_. 0" "ur0 []" 0 0 "[]"] by fastforce
qed

theorem uring_accounting_witness:
  "{t. t < r_nslots (ur_next (ur_read (ur1 []))) \<and> t_state (r_tasks (ur_next (ur_read (ur1 []))) t) = GT_STATE_WAITING} = {0} \<and>
    m_ops (mem (ur_next (ur_read (ur1 [])))) = {0} \<and> r_inflight (ur_next (ur_read (ur1 []))) = 1"
proof -
  have m: "m_ops (mem (ur_next (ur_read (ur1 [])))) = {0}" "cq_list (mem (ur_next (ur_read (ur1 [])))) = []"
    "io_ok (r_io (ur_next (ur_read (ur1 []))))"
    by (simp_all add: ur_next_def ur_read_def ur_run cq_list_def cq_from_def)
  have "cq_list (os_mem0 (ring_os [])) = []" "m_ops (os_mem0 (ring_os [])) = {}"
    "m_sq_head (os_mem0 (ring_os [])) = m_sq_tail (os_mem0 (ring_os []))"
    by (simp_all add: ring_os_def ring4_defs cq_list_def cq_from_def)
  from uring_accounting [OF sim.uring_kernel_axioms ur0_init this ur2_run m(3)] show ?thesis
    using m(1,2) by simp
qed

section \<open>Set up and tear down\<close>

text \<open>What a log acquired, and what it gave back, as the acquisitions undone.\<close>

definition ring_acquired :: "uring_call list \<Rightarrow> uring_call list" where
  "ring_acquired log = filter (\<lambda>c. case c of RingOpen _ \<Rightarrow> True | RingMap _ _ \<Rightarrow> True | _ \<Rightarrow> False) log"

definition ring_released :: "uring_call list \<Rightarrow> uring_call list" where
  "ring_released log =
     List.map_filter (\<lambda>c. case c of RingClose fd \<Rightarrow> Some (RingOpen fd) | RingUnmap a n \<Rightarrow> Some (RingMap a n) | _ \<Rightarrow> None) log"

text \<open>Whatever the kernel answers while the ring is set up, tearing it down leaves nothing behind:
  each descriptor opened and each mapping made - on every path that fails half way, and for a
  kernel that maps both rings at once as for one that does not - is given back exactly once, with
  the address and size it was made with.\<close>

theorem ring_setup_balanced:
  assumes "io_log (r_io s) = []"
  shows "mset (ring_released (io_log (r_io (gt_io_teardown (gt_io_setup os s))))) =
      mset (ring_acquired (io_log (r_io (gt_io_teardown (gt_io_setup os s))))) \<and>
    \<not> io_ok (r_io (gt_io_teardown (gt_io_setup os s)))"
proof -
  note defs = gt_io_setup_def gt_io_teardown_def ring_fail_def ring_acquired_def ring_released_def
    zero_io_def Let_def map_filter_simps
  show ?thesis
  proof (cases "os_setup os GT_RING_ENTRIES")
    case None
    then show ?thesis using assms by (simp add: defs)
  next
    case (Some q)
    obtain fd p where q: "os_setup os GT_RING_ENTRIES = Some (fd, p)" using Some by (cases q) simp
obtain sqb cqb where b: "ring_bytes p = (sqb, cqb)" by (cases "ring_bytes p")
    show ?thesis
    proof (cases "os_map_sq os sqb")
      case None
      then show ?thesis using assms by (simp add: defs q b)
    next
      case sq: (Some sq)
      show ?thesis
      proof (cases "pr_single p")
        case True
        then show ?thesis using assms sq
          by (cases "os_map_sqes os (ucast (pr_sq_entries p) * 64)") (simp_all add: defs q b)
      next
        case False
        then show ?thesis using assms sq
          by (cases "os_map_cq os cqb"; cases "os_map_sqes os (ucast (pr_sq_entries p) * 64)")
            (simp_all add: defs q b)
      qed
    qed
  qed
qed

theorem ring_setup_balanced_witness:
  "mset (ring_released (io_log (r_io (gt_io_teardown (gt_io_setup (ring_os []) (ring4_rt 0 0)))))) =
      mset (ring_acquired (io_log (r_io (gt_io_teardown (gt_io_setup (ring_os []) (ring4_rt 0 0)))))) \<and>
    \<not> io_ok (r_io (gt_io_teardown (gt_io_setup (ring_os []) (ring4_rt 0 0))))"
  by (rule ring_setup_balanced) (simp add: ring4_defs)

section \<open>Where the backend falls short\<close>

text \<open>A length is cut to 32 bits: a read of n bytes through the ring is the read of n mod 2^32
  bytes, and likewise a write, a receive and a send. A read of exactly 4 GiB asks for 0 bytes, whose
  result the caller takes for the end of the file.\<close>

theorem ring_lengths_cut:
  "gt_try_read K c fl fd buf n s = gt_try_read K c fl fd buf (n AND 0xFFFFFFFF) s \<and>
   gt_try_write K c fl fd buf n s = gt_try_write K c fl fd buf (n AND 0xFFFFFFFF) s \<and>
   gt_try_recv K c fl fd buf n flags s = gt_try_recv K c fl fd buf (n AND 0xFFFFFFFF) flags s \<and>
   gt_try_send K c fl fd buf n flags s = gt_try_send K c fl fd buf (n AND 0xFFFFFFFF) flags s"
proof -
  have m32: "(0xFFFFFFFF :: u64) = mask 32" by (simp add: mask_eq_exp_minus_1)
  have "ucast (n AND 0xFFFFFFFF) = (ucast n :: u32)"
    by (rule bit_word_eqI) (auto simp: m32 bit_simps)
  then show ?thesis
    by (simp add: gt_try_read_def gt_try_write_def gt_try_recv_def gt_try_send_def)
qed

text \<open>A submission the kernel refuses stays in the ring. In this run the main task's read is
  refused with errno 4 and the task is told so; its next operation, a write, then makes the kernel
  take the stale read instead: the task waits on the read it was told had failed - into a buffer
  it may have given up - while its write is left in the ring, not submitted.\<close>

theorem refused_submission_stays:
  "\<exists>s1 s2. ur_read (ur1 [Refuse 3]) = Some (Taken (InBody (- 4), s1)) \<and>
    ur_write s1 = Some (Taken (AtSwitch, s2)) \<and>
    t_state (r_tasks s2 0) = GT_STATE_WAITING \<and> m_ops (mem s2) = {0} \<and>
    sqe_opcode (sq_next (mem s1)) = OP_READ \<and> sqe_user_data (sq_next (mem s1)) = Some 0 \<and>
    m_sq_head (mem s2) = m_sq_head (mem s1) + 1 \<and>
    m_sq_head (mem s2) \<noteq> m_sq_tail (mem s2) \<and> sqe_opcode (sq_next (mem s2)) = OP_WRITE"
  by (simp add: ur_read_def ur_write_def ur_run) (simp add: word_le_nat_alt)

end
