(* ===== verification/Iocp.thy ===== *)
theory Iocp
  imports SchedSteps
begin

text \<open>
  The Windows i/o backend (async/iocp.h): a completion port for each thread, a list of its sleepers, and the timer
  the earliest of them is waited for with. A task's own part (\<^verbatim>\<open>gt_io_task\<close>: its OVERLAPPED, the handle it is
  on, its deadline and place among the sleepers) is in the task; here the tasks' parts are a function of the task
  beside the runtime's, as a task is never moved. Windows' calls are an argument, over a world of any type. What a port
  owes is the locale \<^verbatim>\<open>completion_port\<close>; with it this backend keeps the scheduler's contract \<^verbatim>\<open>gt_backend\<close>.
\<close>

section \<open>State\<close>

text \<open>The OVERLAPPED as Windows documents it, its event a handle or NULL.\<close>

record overlapped =
  ov_internal :: u64
  ov_internal_high :: u64
  ov_offset :: u64
  ov_event :: "nat option"

definition zero_overlapped :: overlapped where
  "zero_overlapped = \<lparr>ov_internal = 0, ov_internal_high = 0, ov_offset = 0, ov_event = None\<rparr>"

record iocp_task =
  it_ov :: overlapped
  it_handle :: "nat option"
  it_deadline :: int
  it_next_sleeper :: "tptr option"

record 'k gt_iocp =
  ip_port :: "nat option"
  ip_ok :: bool
  ip_id :: int
  ip_timer :: "nat option"
  ip_packet :: "nat option"
  ip_armed :: bool
  ip_associate :: bool  \<comment> \<open>the function of ntdll was found\<close>
  ip_cancel :: bool
  ip_sleepers :: "tptr option"
  ip_task :: "tptr \<Rightarrow> iocp_task"
  ip_world :: 'k

type_synonym 'k iocp_rt = "(unit, 'k gt_iocp) gt_runtime"

text \<open>
  Windows' calls. \<^verbatim>\<open>pc_get\<close> is GetQueuedCompletionStatusEx, with the batch and the milliseconds (None is INFINITE):
  the packets taken, each a key and the task its OVERLAPPED is of, or None where it fails or the time is up; it
  need not return. \<^verbatim>\<open>pc_proc\<close> says whether ntdll has a function.
\<close>

record 'k port_calls =
  pc_create_port :: "'k \<Rightarrow> nat option \<times> 'k"
  pc_create_timer :: "bool \<Rightarrow> 'k \<Rightarrow> nat option \<times> 'k"  \<comment> \<open>of high resolution\<close>
  pc_ntdll :: bool
  pc_proc :: "string \<Rightarrow> bool"
  pc_create_packet :: "'k \<Rightarrow> nat option \<times> 'k"
  pc_set_timer :: "nat \<Rightarrow> int \<Rightarrow> 'k \<Rightarrow> bool \<times> 'k"
  pc_associate :: "nat \<Rightarrow> nat option \<Rightarrow> nat option \<Rightarrow> nat \<Rightarrow> 'k \<Rightarrow> (bool \<times> bool) \<times> 'k"  \<comment> \<open>failed, already signalled\<close>
  pc_cancel_packet :: "nat \<Rightarrow> 'k \<Rightarrow> 'k"
  pc_close :: "nat \<Rightarrow> 'k \<Rightarrow> 'k"
  pc_get :: "nat option \<Rightarrow> nat \<Rightarrow> int option \<Rightarrow> 'k \<Rightarrow> ((nat \<times> tptr) list option \<times> 'k) option"
  pc_cancel_io :: "nat \<Rightarrow> tptr \<Rightarrow> 'k \<Rightarrow> 'k"
  pc_tie :: "nat \<Rightarrow> nat option \<Rightarrow> 'k \<Rightarrow> bool \<times> 'k"
  pc_clock :: "int \<Rightarrow> 'k \<Rightarrow> timespec \<times> 'k"

definition GT_IOCP_TIMER_KEY :: nat where "GT_IOCP_TIMER_KEY = 1"
definition GT_IOCP_BATCH :: nat where "GT_IOCP_BATCH = 64"
definition GT_IOCP_NOW :: int where "GT_IOCP_NOW = - (2 ^ 63)"
definition GT_IOCP_NEVER :: int where "GT_IOCP_NEVER = 2 ^ 63 - 1"

text \<open>A 64-bit integer's value: a result that does not fit wraps.\<close>

definition i64 :: "int \<Rightarrow> int" where
  "i64 x = signed_take_bit 63 x"

text \<open>The Windows constants the backend passes or compares with.\<close>

record clock_ids =
  ck_monotonic :: int
  ck_realtime :: int

section \<open>Setting up and tearing down\<close>

text \<open>The runtime's part zeroed; the tasks' parts are elsewhere, and stay.\<close>

definition zero_iocp :: "(tptr \<Rightarrow> iocp_task) \<Rightarrow> 'k \<Rightarrow> 'k gt_iocp" where
  "zero_iocp ts k =
     \<lparr>ip_port = None, ip_ok = False, ip_id = 0, ip_timer = None, ip_packet = None, ip_armed = False,
      ip_associate = False, ip_cancel = False, ip_sleepers = None, ip_task = ts, ip_world = k\<rparr>"

text \<open>\<^verbatim>\<open>ids\<close> is \<^verbatim>\<open>_gt_iocp_ids\<close>, the process's.\<close>

definition iocp_io_setup :: "'k port_calls \<Rightarrow> int \<Rightarrow> 'k iocp_rt \<Rightarrow> 'k iocp_rt \<times> int" where
  "iocp_io_setup P ids s =
     (let io0 = zero_iocp (ip_task (r_io s)) (ip_world (r_io s));
          (port, k1) = pc_create_port P (ip_world io0)
      in if port = None then (s\<lparr>r_inflight := 0, r_io := io0\<lparr>ip_world := k1\<rparr>\<rparr>, ids)
         else
           let id = ids + 1;
               (fine, k2) = pc_create_timer P True k1;
               (timer, k3) = (if fine = None then pc_create_timer P False k2 else (fine, k2));
               found = (\<lambda>name. pc_ntdll P \<and> timer \<noteq> None \<and> pc_proc P name);
               create = found ''NtCreateWaitCompletionPacket'';
               associate = found ''NtAssociateWaitCompletionPacket'';
               cancel = found ''NtCancelWaitCompletionPacket'';
               (packet, k4) = (if \<not> create \<or> \<not> associate \<or> \<not> cancel then (None, k3) else pc_create_packet P k3)
           in (s\<lparr>r_inflight := 0,
                 r_io := io0\<lparr>ip_port := port, ip_id := id, ip_timer := timer, ip_associate := associate,
                   ip_cancel := cancel, ip_packet := packet, ip_ok := True, ip_world := k4\<rparr>\<rparr>, id))"

text \<open>The packets waited out at the end; \<^verbatim>\<open>outstanding\<close> is an unsigned.\<close>

definition op_packets :: "(nat \<times> tptr) list \<Rightarrow> tptr list" where
  "op_packets es = map snd (filter (\<lambda>e. fst e \<noteq> GT_IOCP_TIMER_KEY) es)"

partial_function (option) iocp_drain :: "'k port_calls \<Rightarrow> nat option \<Rightarrow> u32 \<Rightarrow> 'k \<Rightarrow> 'k option" where
  "iocp_drain P port outstanding k =
     (if outstanding = 0 then Some k
      else do {
        (es, k1) \<leftarrow> pc_get P port GT_IOCP_BATCH None k;
        (case es of
           None \<Rightarrow> Some k1
         | Some l \<Rightarrow> iocp_drain P port (outstanding - of_nat (length (op_packets l))) k1)
      })"

definition slots_on_io :: "'k iocp_rt \<Rightarrow> tptr list" where
  "slots_on_io s = filter (\<lambda>t. it_handle (ip_task (r_io s) t) \<noteq> None) [0..<r_nslots s]"

definition cancel_slot :: "'k port_calls \<Rightarrow> (tptr \<Rightarrow> iocp_task) \<Rightarrow> tptr \<Rightarrow> 'k \<Rightarrow> 'k" where
  "cancel_slot P ts t k = (case it_handle (ts t) of Some h \<Rightarrow> pc_cancel_io P h t k | None \<Rightarrow> k)"

definition close_port :: "'k port_calls \<Rightarrow> 'k gt_iocp \<Rightarrow> 'k \<Rightarrow> 'k" where
  "close_port P io k =
     (let k1 = (case ip_packet io of Some p \<Rightarrow> pc_close P p (pc_cancel_packet P p k) | None \<Rightarrow> k);
          k2 = (case ip_timer io of Some t \<Rightarrow> pc_close P t k1 | None \<Rightarrow> k1)
      in case ip_port io of Some p \<Rightarrow> pc_close P p k2 | None \<Rightarrow> k2)"

definition iocp_io_teardown :: "'k port_calls \<Rightarrow> 'k iocp_rt \<Rightarrow> 'k iocp_rt option" where
  "iocp_io_teardown P s =
     (if \<not> ip_ok (r_io s) then Some s
      else do {
        let io = r_io s;
        k \<leftarrow> iocp_drain P (ip_port io) (of_nat (length (slots_on_io s)))
               (fold (cancel_slot P (ip_task io)) (slots_on_io s) (ip_world io));
        Some (s\<lparr>r_inflight := 0, r_io := zero_iocp (ip_task io) (close_port P io k)\<rparr>)
      })"

section \<open>Waiting\<close>

definition gt_iocp_now :: "'k port_calls \<Rightarrow> clock_ids \<Rightarrow> 'k gt_iocp \<Rightarrow> int \<times> 'k gt_iocp" where
  "gt_iocp_now P ck io =
     (let (now, k) = pc_clock P (ck_monotonic ck) (ip_world io)
      in (i64 (tv_sec now * 1000000000 + tv_nsec now), io\<lparr>ip_world := k\<rparr>))"

definition gt_iocp_arm :: "'k port_calls \<Rightarrow> int \<Rightarrow> 'k gt_iocp \<Rightarrow> bool \<times> 'k gt_iocp" where
  "gt_iocp_arm P left io =
     (case (ip_packet io, ip_timer io) of
        (Some packet, Some timer) \<Rightarrow>
          let (started, k1) = pc_set_timer P timer (- ((left + 99) div 100)) (ip_world io);
              io1 = io\<lparr>ip_world := k1\<rparr>
          in if \<not> started then (False, io1)
             else if ip_armed io1 then (True, io1)
             else
               let ((failed, already), k2) = pc_associate P packet (ip_port io) (ip_timer io) GT_IOCP_TIMER_KEY k1
               in if failed \<or> already then (False, io1\<lparr>ip_world := k2\<rparr>)
                  else (True, io1\<lparr>ip_world := k2, ip_armed := True\<rparr>)
      | _ \<Rightarrow> (False, io))"

text \<open>The milliseconds the port is waited on for; None is INFINITE.\<close>

definition iocp_until :: "int \<Rightarrow> 'k gt_iocp \<Rightarrow> int" where
  "iocp_until until io =
     (case ip_sleepers io of
        Some t \<Rightarrow> if it_deadline (ip_task io t) < until then it_deadline (ip_task io t) else until
      | None \<Rightarrow> until)"

definition iocp_ms :: "'k port_calls \<Rightarrow> clock_ids \<Rightarrow> int \<Rightarrow> 'k gt_iocp \<Rightarrow> int option \<times> 'k gt_iocp" where
  "iocp_ms P ck until io =
     (if until = GT_IOCP_NEVER then (None, io)
      else if until = GT_IOCP_NOW then (Some 0, io)
      else
        let (now, io1) = gt_iocp_now P ck io;
            left = i64 (until - now)
        in if left \<le> 0 then (Some 0, io1)
           else
             let (armed, io2) = gt_iocp_arm P left io1
             in if armed then (None, io2)
                else (Some (if left \<ge> 0xFFFFFFFE * 1000000 then 0xFFFFFFFE else (left + 999999) div 1000000), io2))"

text \<open>A packet taken off the port: the timer's, or of an operation whose task goes on.\<close>

definition iocp_woken :: "tptr \<Rightarrow> 'k iocp_rt \<Rightarrow> 'k iocp_rt" where
  "iocp_woken t s = gt_rq_push t (s\<lparr>r_inflight := r_inflight s - 1\<rparr>)"

definition iocp_packet :: "nat \<times> tptr \<Rightarrow> 'k iocp_rt \<Rightarrow> 'k iocp_rt" where
  "iocp_packet e s =
     (if fst e = GT_IOCP_TIMER_KEY then s\<lparr>r_io := (r_io s)\<lparr>ip_armed := False\<rparr>\<rparr>
      else
        let t = snd e
        in iocp_woken t (s\<lparr>r_io := (r_io s)\<lparr>ip_task := (ip_task (r_io s))(t := (ip_task (r_io s) t)\<lparr>it_handle := None\<rparr>)\<rparr>\<rparr>))"

partial_function (option) iocp_wake :: "int \<Rightarrow> 'k iocp_rt \<Rightarrow> 'k iocp_rt option" where
  "iocp_wake now s =
     (case ip_sleepers (r_io s) of
        None \<Rightarrow> Some s
      | Some t \<Rightarrow>
          if it_deadline (ip_task (r_io s) t) \<le> now
          then iocp_wake now
                 (iocp_woken t (s\<lparr>r_io := (r_io s)\<lparr>ip_sleepers := it_next_sleeper (ip_task (r_io s) t)\<rparr>\<rparr>))
          else Some s)"

definition gt_iocp_poll :: "'k port_calls \<Rightarrow> clock_ids \<Rightarrow> int \<Rightarrow> 'k iocp_rt \<Rightarrow> 'k iocp_rt option" where
  "gt_iocp_poll P ck until s = do {
     let (ms, io1) = iocp_ms P ck (iocp_until until (r_io s)) (r_io s);
     (es, k) \<leftarrow> pc_get P (ip_port io1) GT_IOCP_BATCH ms (ip_world io1);
     let s1 = s\<lparr>r_io := io1\<lparr>ip_world := k\<rparr>\<rparr>;
     let s2 = (case es of Some l \<Rightarrow> fold iocp_packet l s1 | None \<Rightarrow> s1);
     if ip_sleepers (r_io s2) = None then Some s2
     else let (now, io3) = gt_iocp_now P ck (r_io s2) in iocp_wake now (s2\<lparr>r_io := io3\<rparr>)
   }"

definition iocp_io_poll :: "'k port_calls \<Rightarrow> clock_ids \<Rightarrow> (unit, 'k gt_iocp) gt_poll" where
  "iocp_io_poll P ck block s =
     (if \<not> ip_ok (r_io s) \<or> r_inflight s = 0 then Some s
      else gt_iocp_poll P ck (if block then GT_IOCP_NEVER else GT_IOCP_NOW) s)"

definition iocp_io_poll_until :: "'k port_calls \<Rightarrow> clock_ids \<Rightarrow> (unit, 'k gt_iocp) gt_poll_until" where
  "iocp_io_poll_until P ck clock deadline s =
     (if \<not> ip_ok (r_io s) then Some s
      else
        let (t, k) = pc_clock P clock (ip_world (r_io s));
            left = gt_remaining t deadline;
            (now, io1) = gt_iocp_now P ck ((r_io s)\<lparr>ip_world := k\<rparr>)
        in gt_iocp_poll P ck (i64 (now + i64 (tv_sec left * 1000000000) + tv_nsec left)) (s\<lparr>r_io := io1\<rparr>))"

section \<open>Operations\<close>

definition iocp_io_ready :: "'k iocp_rt option \<Rightarrow> bool" where
  "iocp_io_ready rt = (case rt of Some s \<Rightarrow> ip_ok (r_io s) | None \<Rightarrow> False)"

text \<open>
  Tying a handle to this thread's port; \<^verbatim>\<open>owner\<close> is the word its description keeps, and comes back changed.
\<close>

definition gt_iocp_attach ::
  "'k port_calls \<Rightarrow> nat \<Rightarrow> int \<Rightarrow> 'k iocp_rt option \<Rightarrow> (bool \<times> int) \<times> 'k iocp_rt option" where
  "gt_iocp_attach P handle owner rt =
     (case rt of
        None \<Rightarrow> ((False, owner), None)
      | Some s \<Rightarrow>
          if \<not> iocp_io_ready rt then ((False, owner), rt)
          else
            let me = ip_id (r_io s); was = owner; owner1 = (if owner = 0 then - 1 else owner)
            in if was \<noteq> 0 then ((was = me, owner1), rt)
               else
                 let (tied, k) = pc_tie P handle (ip_port (r_io s)) (ip_world (r_io s));
                     rt1 = Some (s\<lparr>r_io := (r_io s)\<lparr>ip_world := k\<rparr>\<rparr>)
                 in if \<not> tied then ((False, owner1), rt1) else ((True, me), rt1))"

definition upd_io_task :: "tptr \<Rightarrow> (iocp_task \<Rightarrow> iocp_task) \<Rightarrow> 'k gt_iocp \<Rightarrow> 'k gt_iocp" where
  "upd_io_task t f io = io\<lparr>ip_task := (ip_task io)(t := f (ip_task io t))\<rparr>"

definition gt_iocp_overlapped :: "tptr \<Rightarrow> 'k gt_iocp \<Rightarrow> 'k gt_iocp" where
  "gt_iocp_overlapped self io = upd_io_task self (\<lambda>x. x\<lparr>it_ov := zero_overlapped\<rparr>) io"

definition gt_iocp_wait ::
  "'k port_calls \<Rightarrow> clock_ids \<Rightarrow> nat \<Rightarrow> 'k iocp_rt \<Rightarrow> (unit, 'k gt_iocp) gt_conf option" where
  "gt_iocp_wait P ck handle s =
     (case r_current s of
        None \<Rightarrow> Some (Crashed, s)
      | Some self \<Rightarrow> gt_io_park (iocp_io_poll P ck) (upd_io_task self (\<lambda>x. x\<lparr>it_handle := Some handle\<rparr>) (r_io s)) s)"

text \<open>The place among the sleepers: the one it goes behind (None is the head of the list), and the one after it.\<close>

partial_function (option) sleeper_place ::
  "(tptr \<Rightarrow> iocp_task) \<Rightarrow> int \<Rightarrow> tptr option \<Rightarrow> tptr option \<Rightarrow> (tptr option \<times> tptr option) option" where
  "sleeper_place ts deadline prev cur =
     (case cur of
        None \<Rightarrow> Some (prev, cur)
      | Some c \<Rightarrow>
          if it_deadline (ts c) \<le> deadline then sleeper_place ts deadline cur (it_next_sleeper (ts c))
          else Some (prev, cur))"

definition iocp_sleep_in :: "tptr \<Rightarrow> int \<Rightarrow> 'k gt_iocp \<Rightarrow> 'k gt_iocp option" where
  "iocp_sleep_in self deadline io0 = do {
     let io = upd_io_task self (\<lambda>x. x\<lparr>it_deadline := deadline\<rparr>) io0;
     (prev, cur) \<leftarrow> sleeper_place (ip_task io) deadline None (ip_sleepers io);
     let io1 = upd_io_task self (\<lambda>x. x\<lparr>it_next_sleeper := cur\<rparr>) io;
     Some (case prev of
             None \<Rightarrow> io1\<lparr>ip_sleepers := Some self\<rparr>
           | Some p \<Rightarrow> upd_io_task p (\<lambda>x. x\<lparr>it_next_sleeper := Some self\<rparr>) io1)
   }"

definition gt_iocp_sleep_until ::
  "'k port_calls \<Rightarrow> clock_ids \<Rightarrow> int \<Rightarrow> 'k iocp_rt \<Rightarrow> (unit, 'k gt_iocp) gt_conf option" where
  "gt_iocp_sleep_until P ck deadline s =
     (case r_current s of
        None \<Rightarrow> Some (Crashed, s)
      | Some self \<Rightarrow> do {
          io \<leftarrow> iocp_sleep_in self deadline (r_io s);
          gt_io_park (iocp_io_poll P ck) io s
        })"

text \<open>
  A sleep: declined; or parked once; or, for a time on the real-time clock, one turn of its loop, which
  ends (None) once the clock has reached it and otherwise parks and comes back to its top.
\<close>

definition SLEEP_MAX :: int where "SLEEP_MAX = 3153600000"

datatype 'c sleep_try = SleepDeclined | SleepOnce 'c | SleepLoop int

definition sleep_ns :: "timespec \<Rightarrow> int" where
  "sleep_ns d = (if tv_sec d < SLEEP_MAX then tv_sec d else SLEEP_MAX) * 1000000000 + tv_nsec d"

definition iocp_try_sleep ::
  "'k port_calls \<Rightarrow> clock_ids \<Rightarrow> int \<Rightarrow> bool \<Rightarrow> timespec \<Rightarrow> 'k iocp_rt option \<Rightarrow>
     (unit, 'k gt_iocp) gt_conf option sleep_try" where
  "iocp_try_sleep P ck clock absolute duration rt =
     (case rt of
        None \<Rightarrow> SleepDeclined
      | Some s \<Rightarrow>
          if \<not> iocp_io_ready rt \<or> (clock \<noteq> ck_monotonic ck \<and> clock \<noteq> ck_realtime ck) \<or>
             tv_sec duration < 0 \<or> tv_nsec duration < 0 \<or> tv_nsec duration \<ge> 1000000000
          then SleepDeclined
          else if \<not> absolute then
            let (now, io) = gt_iocp_now P ck (r_io s)
            in SleepOnce (gt_iocp_sleep_until P ck (now + sleep_ns duration) (s\<lparr>r_io := io\<rparr>))
          else if clock = ck_monotonic ck then SleepOnce (gt_iocp_sleep_until P ck (sleep_ns duration) s)
          else SleepLoop (sleep_ns duration))"

definition iocp_sleep_turn ::
  "'k port_calls \<Rightarrow> clock_ids \<Rightarrow> int \<Rightarrow> 'k iocp_rt \<Rightarrow> (unit, 'k gt_iocp) gt_conf option option \<times> 'k iocp_rt" where
  "iocp_sleep_turn P ck ns s =
     (let (now, k) = pc_clock P (ck_realtime ck) (ip_world (r_io s));
          s1 = s\<lparr>r_io := (r_io s)\<lparr>ip_world := k\<rparr>\<rparr>;
          left = ns - i64 (tv_sec now * 1000000000 + tv_nsec now)
      in if left \<le> 0 then (None, s1)
         else
           let (mono, io) = gt_iocp_now P ck (r_io s1)
           in (Some (gt_iocp_sleep_until P ck (mono + left) (s1\<lparr>r_io := io\<rparr>)), s1))"


section \<open>The contract\<close>

text \<open>
  What a port owes: the packets it gives are of distinct operations that are outstanding and then no longer are, and
  nothing else changes which are. \<^verbatim>\<open>ops\<close> reads the outstanding operations off the world.
\<close>

locale completion_port =
  fixes P :: "'k port_calls" and ops :: "'k \<Rightarrow> tptr set"
  assumes get: "pc_get P port n ms k = Some (Some es, k') \<Longrightarrow>
      distinct (op_packets es) \<and> set (op_packets es) \<subseteq> ops k \<and> ops k' = ops k - set (op_packets es)"
    and get_none: "pc_get P port n ms k = Some (None, k') \<Longrightarrow> ops k' = ops k"
    and set_timer: "pc_set_timer P timer due k = (ans, k') \<Longrightarrow> ops k' = ops k"
    and associate: "pc_associate P packet q tm key k = (both, k') \<Longrightarrow> ops k' = ops k"
    and clock: "pc_clock P c k = (now, k') \<Longrightarrow> ops k' = ops k"
    and cancel_io: "ops (pc_cancel_io P h t k) = ops k"
    and creates: "ops (snd (pc_create_port P k)) = ops k" "ops (snd (pc_create_timer P fine k)) = ops k"
      "ops (snd (pc_create_packet P k)) = ops k"

definition sleeper_chain :: "'k gt_iocp \<Rightarrow> tptr list \<Rightarrow> bool" where
  "sleeper_chain io xs \<longleftrightarrow> chain (\<lambda>t. it_next_sleeper (ip_task io t)) (ip_sleepers io) xs"

abbreviation deadlines :: "'k gt_iocp \<Rightarrow> tptr list \<Rightarrow> int list" where
  "deadlines io xs \<equiv> map (\<lambda>t. it_deadline (ip_task io t)) xs"

definition iocp_ok :: "('k \<Rightarrow> tptr set) \<Rightarrow> 'k gt_iocp \<Rightarrow> bool" where
  "iocp_ok ops io \<longleftrightarrow> (ip_ok io \<longrightarrow>
     (\<exists>xs. sleeper_chain io xs \<and> sorted (deadlines io xs) \<and> set xs \<inter> ops (ip_world io) = {}) \<and>
     ops (ip_world io) = {t. it_handle (ip_task io t) \<noteq> None})"

definition sleeping :: "'k gt_iocp \<Rightarrow> tptr set" where
  "sleeping io = {t. \<exists>xs. sleeper_chain io xs \<and> t \<in> set xs}"

definition iocp_out :: "('k \<Rightarrow> tptr set) \<Rightarrow> 'k gt_iocp \<Rightarrow> tptr set" where
  "iocp_out ops io = (if ip_ok io then ops (ip_world io) \<union> sleeping io else {})"

text \<open>Parking: an operation started on a handle, or a sleep.\<close>

definition iocp_submit :: "('k \<Rightarrow> tptr set) \<Rightarrow> tptr \<Rightarrow> 'k gt_iocp \<Rightarrow> 'k gt_iocp \<Rightarrow> bool" where
  "iocp_submit ops t io io' \<longleftrightarrow> ip_ok io \<and>
     ((\<exists>h ov k. ops k = insert t (ops (ip_world io)) \<and>
         io' = (upd_io_task t (\<lambda>x. x\<lparr>it_ov := ov, it_handle := Some h\<rparr>) io)\<lparr>ip_world := k\<rparr>) \<or>
      (\<exists>d k. ops k = ops (ip_world io) \<and> iocp_sleep_in t d (io\<lparr>ip_world := k\<rparr>) = Some io'))"

lemma upd_io_task_simps [simp]:
  "ip_task (upd_io_task t f io) = (ip_task io)(t := f (ip_task io t))"
  "ip_sleepers (upd_io_task t f io) = ip_sleepers io" "ip_ok (upd_io_task t f io) = ip_ok io"
  "ip_world (upd_io_task t f io) = ip_world io"
  by (simp_all add: upd_io_task_def)

lemma if_same_task: "(if u = t then f t else f u) = f u"
  by simp

lemma sleeping_chain: "sleeper_chain io xs \<Longrightarrow> sleeping io = set xs"
  by (auto simp: sleeping_def sleeper_chain_def dest: chain_functional)

lemma sleepers_cong:
  "ip_sleepers io' = ip_sleepers io \<Longrightarrow> (\<And>t. it_next_sleeper (ip_task io' t) = it_next_sleeper (ip_task io t)) \<Longrightarrow>
   sleeper_chain io' = sleeper_chain io"
  by (simp add: sleeper_chain_def fun_eq_iff)

section \<open>The sleepers in order\<close>

lemma chain_start: "chain nx p ys \<Longrightarrow> (case ys of [] \<Rightarrow> None | t # _ \<Rightarrow> Some t) = p"
  by (cases ys) auto

lemma chain_rest: "chain nx p (xs @ ys) \<Longrightarrow> chain nx (case ys of [] \<Rightarrow> None | t # _ \<Rightarrow> Some t) ys"
  by (induction xs arbitrary: p) (auto simp: chain_start)

text \<open>Inserting a node behind another, which links to it.\<close>

lemma chain_insert:
  assumes "chain nx p (xs @ x # ys)" and "t \<notin> set (xs @ x # ys)"
    and "nx' t = nx x" "nx' x = Some t" "\<And>u. u \<noteq> t \<Longrightarrow> u \<noteq> x \<Longrightarrow> nx' u = nx u"
  shows "chain nx' p (xs @ x # t # ys)"
  using assms(1,2)
proof (induction xs arbitrary: p)
  case Nil
  have "x \<notin> set ys" using chain_distinct [OF Nil(1)] by simp
  then have "chain nx' (nx x) ys = chain nx (nx x) ys" using Nil(2) by (intro chain_frame_eq) (auto intro!: assms(5))
  then show ?case using Nil assms(3,4) by simp
next
  case (Cons z xs)
  have "z \<noteq> x" using chain_distinct [OF Cons.prems(1)] by auto
  then show ?case using Cons assms(5) [of z] by auto
qed

lemma sleeper_place_walk:
  assumes "chain (\<lambda>t. it_next_sleeper (ts t)) cur ys" and "sorted (map (\<lambda>t. it_deadline (ts t)) ys)"
  shows "sleeper_place ts d prev cur =
    Some (if takeWhile (\<lambda>t. it_deadline (ts t) \<le> d) ys = [] then prev
          else Some (last (takeWhile (\<lambda>t. it_deadline (ts t) \<le> d) ys)),
      case dropWhile (\<lambda>t. it_deadline (ts t) \<le> d) ys of [] \<Rightarrow> None | t # _ \<Rightarrow> Some t)"
  using assms
proof (induction ys arbitrary: cur prev)
  case Nil
  then show ?case by (simp add: sleeper_place.simps [of _ _ _ None])
next
  case (Cons y ys)
  then have cur: "cur = Some y" by simp
  show ?case
  proof (cases "it_deadline (ts y) \<le> d")
    case True
    then show ?thesis using Cons by (simp add: cur sleeper_place.simps [of _ _ _ "Some y"])
  next
    case False
    then show ?thesis by (simp add: cur sleeper_place.simps [of _ _ _ "Some y"])
  qed
qed

text \<open>A sleeper is put behind those whose deadline is no later.\<close>

lemma sleep_in_sorted:
  assumes c: "sleeper_chain io xs" and s: "sorted (deadlines io xs)" and t: "t \<notin> set xs"
  shows "\<exists>io'. iocp_sleep_in t d io = Some io' \<and>
    sleeper_chain io' (takeWhile (\<lambda>t. it_deadline (ip_task io t) \<le> d) xs @ t # dropWhile (\<lambda>t. it_deadline (ip_task io t) \<le> d) xs) \<and>
    (\<forall>u. it_deadline (ip_task io' u) = (if u = t then d else it_deadline (ip_task io u))) \<and>
    (\<forall>u. it_handle (ip_task io' u) = it_handle (ip_task io u)) \<and> ip_ok io' = ip_ok io \<and> ip_world io' = ip_world io"
proof -
  let ?io = "upd_io_task t (\<lambda>x. x\<lparr>it_deadline := d\<rparr>) io"
  let ?p = "\<lambda>u. it_deadline (ip_task io u) \<le> d"
  let ?as = "takeWhile ?p xs" and ?bs = "dropWhile ?p xs"
  have c1: "chain (\<lambda>u. it_next_sleeper (ip_task ?io u)) (ip_sleepers io) xs"
    using c by (simp add: sleeper_chain_def if_distrib if_same_task [where f = "\<lambda>u. it_next_sleeper (ip_task io u)"] cong: if_cong)
  have eqs: "map (\<lambda>u. it_deadline (ip_task ?io u)) xs = deadlines io xs"
    "takeWhile (\<lambda>u. it_deadline (ip_task ?io u) \<le> d) xs = ?as" "dropWhile (\<lambda>u. it_deadline (ip_task ?io u) \<le> d) xs = ?bs"
    using t by (auto intro!: takeWhile_cong dropWhile_cong)
  note walk = sleeper_place_walk [OF c1 s [folded eqs(1)], of d None, unfolded eqs]
  have d: "distinct xs" using chain_distinct [OF c1] .
  show ?thesis
  proof (cases "?as = []")
    case True
    then have bs: "?bs = xs" by (cases xs) auto
    let ?io' = "(upd_io_task t (\<lambda>x. x\<lparr>it_next_sleeper := ip_sleepers io\<rparr>) ?io)\<lparr>ip_sleepers := Some t\<rparr>"
    have head: "ip_sleepers io = (case xs of [] \<Rightarrow> None | t # _ \<Rightarrow> Some t)"
      using c chain_start unfolding sleeper_chain_def by metis
    have r: "iocp_sleep_in t d io = Some ?io'"
      using walk True by (simp add: iocp_sleep_in_def Let_def bs head del: fun_upd_apply)
    have "chain (\<lambda>u. it_next_sleeper (ip_task ?io' u)) (ip_sleepers io) xs =
        chain (\<lambda>u. it_next_sleeper (ip_task io u)) (ip_sleepers io) xs"
      by (rule chain_frame_eq) (use t in auto)
    then have "sleeper_chain ?io' (t # xs)" using c by (simp add: sleeper_chain_def)
    then show ?thesis using r True unfolding bs by auto
  next
    case False
    then obtain zs l where as: "?as = zs @ [l]" by (metis rev_exhaust)
    then have xs: "xs = zs @ l # ?bs" by (metis append.assoc append_Cons append_Nil takeWhile_dropWhile_id)
    have cur: "(case ?bs of [] \<Rightarrow> None | t # _ \<Rightarrow> Some t) = it_next_sleeper (ip_task io l)"
    proof -
      have "chain (\<lambda>t. it_next_sleeper (ip_task io t)) (ip_sleepers io) (zs @ l # ?bs)"
        using c xs by (simp add: sleeper_chain_def)
      from chain_start [OF chain_split [OF this]] show ?thesis .
    qed
    let ?io' = "upd_io_task l (\<lambda>x. x\<lparr>it_next_sleeper := Some t\<rparr>)
      (upd_io_task t (\<lambda>x. x\<lparr>it_next_sleeper := it_next_sleeper (ip_task io l)\<rparr>) ?io)"
    have l: "l \<noteq> t" using xs t by (metis in_set_conv_decomp)
    have r: "iocp_sleep_in t d io = Some ?io'"
      using walk by (simp add: iocp_sleep_in_def Let_def as cur del: fun_upd_apply)
    have "chain (\<lambda>u. it_next_sleeper (ip_task ?io' u)) (ip_sleepers io) (zs @ l # t # ?bs)"
      by (rule chain_insert [where nx = "\<lambda>t. it_next_sleeper (ip_task io t)"])
        (use c t l xs in \<open>auto simp: sleeper_chain_def\<close>)
    then have "sleeper_chain ?io' (?as @ t # ?bs)" by (simp add: as sleeper_chain_def)
    then show ?thesis using r l by auto
  qed
qed

section \<open>What a poll does\<close>

lemma woken_io [simp]:
  "iocp_woken t (s\<lparr>r_io := io\<rparr>) = (iocp_woken t s)\<lparr>r_io := io\<rparr>" "r_io (iocp_woken t s) = r_io s"
  by (cases s, simp add: iocp_woken_def gt_rq_push_def upd_task_def Let_def split: option.splits)
    (simp add: iocp_woken_def gt_rq_push_def Let_def split: option.splits)

lemma fold_woken_io [simp]:
  "fold iocp_woken ts (s\<lparr>r_io := io\<rparr>) = (fold iocp_woken ts s)\<lparr>r_io := io\<rparr>" "r_io (fold iocp_woken ts s) = r_io s"
  by (induction ts arbitrary: s) simp_all

lemma rt_io_same [simp]: "s\<lparr>r_io := r_io s\<rparr> = (s :: ('a, 'b) gt_runtime)"
  by (cases s) simp

text \<open>A packet or a due sleeper wakes a task as the scheduler's contract has it: with its result as it was.\<close>

lemma woken_complete: "iocp_woken t s = gt_complete (t, t_io_res (r_tasks s t)) s"
proof -
  have "upd_task t (\<lambda>x. x\<lparr>t_io_res := t_io_res (r_tasks s t)\<rparr>) s = s" by (cases s) (simp add: upd_task_def)
  then show ?thesis
    by (cases s) (simp add: iocp_woken_def gt_complete_def gt_rq_push_def upd_task_def Let_def split: option.splits)
qed

lemma woken_res [simp]: "t_io_res (r_tasks (iocp_woken t s) u) = t_io_res (r_tasks s u)"
  by (simp add: iocp_woken_def gt_rq_push_def Let_def split: option.splits)

lemma fold_woken_complete:
  "fold iocp_woken ts s = fold gt_complete (map (\<lambda>t. (t, t_io_res (r_tasks s t))) ts) s"
proof (induction ts arbitrary: s)
  case (Cons t ts)
  then show ?case by (simp add: woken_complete [symmetric])
qed simp

lemma wake_walk:
  assumes "sleeper_chain (r_io s) xs"
  shows "iocp_wake now s = Some ((fold iocp_woken (takeWhile (\<lambda>t. it_deadline (ip_task (r_io s) t) \<le> now) xs) s)
    \<lparr>r_io := (r_io s)\<lparr>ip_sleepers := (case dropWhile (\<lambda>t. it_deadline (ip_task (r_io s) t) \<le> now) xs of [] \<Rightarrow> None | t # _ \<Rightarrow> Some t)\<rparr>\<rparr>)"
  using assms
proof (induction xs arbitrary: s)
  case Nil
  have "(r_io s)\<lparr>ip_sleepers := None\<rparr> = r_io s" using Nil by (cases "r_io s") (simp add: sleeper_chain_def)
  then show ?case using Nil by (simp add: iocp_wake.simps [of _ s] sleeper_chain_def)
next
  case (Cons x xs)
  have head: "ip_sleepers (r_io s) = Some x" using Cons.prems by (simp add: sleeper_chain_def)
  show ?case
  proof (cases "it_deadline (ip_task (r_io s) x) \<le> now")
    case True
    let ?s = "iocp_woken x (s\<lparr>r_io := (r_io s)\<lparr>ip_sleepers := it_next_sleeper (ip_task (r_io s) x)\<rparr>\<rparr>)"
    have "sleeper_chain (r_io ?s) xs" using Cons.prems by (simp add: sleeper_chain_def)
    from Cons.IH [OF this] show ?thesis using True by (simp add: iocp_wake.simps [of _ s] head)
  next
    case False
    have "(r_io s)\<lparr>ip_sleepers := Some x\<rparr> = r_io s" using head by (cases "r_io s") simp
    then show ?thesis using False by (simp add: iocp_wake.simps [of _ s] head)
  qed
qed

definition handles_cleared :: "tptr set \<Rightarrow> 'k gt_iocp \<Rightarrow> 'k gt_iocp \<Rightarrow> bool" where
  "handles_cleared ts io io' \<longleftrightarrow> ip_sleepers io' = ip_sleepers io \<and> ip_ok io' = ip_ok io \<and> ip_world io' = ip_world io \<and>
     (\<forall>t. ip_task io' t = (if t \<in> ts then (ip_task io t)\<lparr>it_handle := None\<rparr> else ip_task io t))"

lemma packets_walk:
  "\<exists>io. fold iocp_packet es s = (fold iocp_woken (op_packets es) s)\<lparr>r_io := io\<rparr> \<and>
     handles_cleared (set (op_packets es)) (r_io s) io"
proof (induction es arbitrary: s)
  case Nil
  then show ?case by (intro exI [of _ "r_io s"]) (simp add: op_packets_def handles_cleared_def)
next
  case (Cons e es)
  obtain io where io: "fold iocp_packet es (iocp_packet e s) = (fold iocp_woken (op_packets es) (iocp_packet e s))\<lparr>r_io := io\<rparr>"
    "handles_cleared (set (op_packets es)) (r_io (iocp_packet e s)) io" using Cons by blast
  show ?case
  proof (cases "fst e = GT_IOCP_TIMER_KEY")
    case True
    then have "op_packets (e # es) = op_packets es" "iocp_packet e s = s\<lparr>r_io := (r_io s)\<lparr>ip_armed := False\<rparr>\<rparr>"
      by (simp_all add: op_packets_def iocp_packet_def)
    then show ?thesis using io by (intro exI [of _ io]) (simp add: handles_cleared_def)
  next
    case False
    then have "op_packets (e # es) = snd e # op_packets es" "iocp_packet e s = (iocp_woken (snd e) s)\<lparr>r_io := (r_io s)
        \<lparr>ip_task := (ip_task (r_io s))(snd e := (ip_task (r_io s) (snd e))\<lparr>it_handle := None\<rparr>)\<rparr>\<rparr>"
      by (simp_all add: op_packets_def iocp_packet_def Let_def)
    then show ?thesis using io by (intro exI [of _ io]) (simp add: handles_cleared_def)
  qed
qed

text \<open>The operations' packets of what a wait gave.\<close>

definition packets_got :: "(nat \<times> tptr) list option \<Rightarrow> tptr list" where
  "packets_got es = (case es of Some l \<Rightarrow> op_packets l | None \<Rightarrow> [])"

text \<open>What leaves the tasks and the sleepers alone.\<close>

definition io_kept :: "('k \<Rightarrow> tptr set) \<Rightarrow> 'k gt_iocp \<Rightarrow> 'k gt_iocp \<Rightarrow> bool" where
  "io_kept ops io io' \<longleftrightarrow> ip_sleepers io' = ip_sleepers io \<and> ip_ok io' = ip_ok io \<and> ip_task io' = ip_task io \<and>
     ops (ip_world io') = ops (ip_world io)"

lemma kept_refl [simp]: "io_kept ops io io"
  by (simp add: io_kept_def)

lemma kept_trans: "io_kept ops io io1 \<Longrightarrow> io_kept ops io1 io2 \<Longrightarrow> io_kept ops io io2"
  by (simp add: io_kept_def)

lemma kept_chain: "io_kept ops io io' \<Longrightarrow> sleeper_chain io' = sleeper_chain io"
  by (rule sleepers_cong) (simp_all add: io_kept_def)

lemma kept_ok: "io_kept ops io io' \<Longrightarrow> iocp_ok ops io' = iocp_ok ops io"
  using kept_chain [of ops io io'] by (simp add: iocp_ok_def io_kept_def)

context completion_port
begin

lemma now_kept: "gt_iocp_now P ck io = (now, io') \<Longrightarrow> io_kept ops io io'"
  using clock by (auto simp: gt_iocp_now_def io_kept_def split: prod.splits)

lemma arm_kept: "gt_iocp_arm P left io = (r, io') \<Longrightarrow> io_kept ops io io'"
  using set_timer associate
  by (auto simp: gt_iocp_arm_def io_kept_def Let_def split: option.splits prod.splits if_splits)

lemma ms_kept: "iocp_ms P ck until io = (ms, io') \<Longrightarrow> io_kept ops io io'"
  by (auto simp: iocp_ms_def Let_def split: prod.splits if_splits dest!: now_kept arm_kept intro: kept_trans)

text \<open>
  A poll takes the tasks \<^verbatim>\<open>ts\<close> whose operations have finished, then the sleepers due at the time it reads once it
  has waited, in the order of their deadlines.
\<close>

lemma now_world: "ip_world io = ip_world io' \<Longrightarrow> fst (gt_iocp_now P ck io) = fst (gt_iocp_now P ck io')"
  by (simp add: gt_iocp_now_def split: prod.split)

lemma poll_waits:
  fixes s :: "'k iocp_rt"
  assumes ok: "iocp_ok ops (r_io s)" "ip_ok (r_io s)" and c: "sleeper_chain (r_io s) xs"
    and ms: "iocp_ms P ck (iocp_until until (r_io s)) (r_io s) = (ms, io1)"
    and g: "pc_get P (ip_port io1) GT_IOCP_BATCH ms (ip_world io1) = Some (es, k)"
  defines "ts \<equiv> packets_got es" and "now \<equiv> fst (gt_iocp_now P ck (io1\<lparr>ip_world := k\<rparr>))"
  shows "\<exists>io. gt_iocp_poll P ck until s =
      Some ((fold iocp_woken (ts @ takeWhile (\<lambda>t. it_deadline (ip_task (r_io s) t) \<le> now) xs) s)\<lparr>r_io := io\<rparr>) \<and>
    distinct ts \<and> set ts \<subseteq> ops (ip_world (r_io s)) \<and>
    sleeper_chain io (dropWhile (\<lambda>t. it_deadline (ip_task (r_io s) t) \<le> now) xs) \<and> ip_ok io \<and>
    ops (ip_world io) = ops (ip_world (r_io s)) - set ts \<and>
    (\<forall>t. ip_task io t = (if t \<in> set ts then (ip_task (r_io s) t)\<lparr>it_handle := None\<rparr> else ip_task (r_io s) t))"
proof -
  note k1 = ms_kept [OF ms]
  let ?s1 = "s\<lparr>r_io := io1\<lparr>ip_world := k\<rparr>\<rparr>"
  have ts: "distinct ts" "set ts \<subseteq> ops (ip_world (r_io s))" "ops k = ops (ip_world (r_io s)) - set ts"
    using g get get_none k1 unfolding ts_def packets_got_def io_kept_def by (cases es; force)+
  define s2 where "s2 = (case es of Some l \<Rightarrow> fold iocp_packet l ?s1 | None \<Rightarrow> ?s1)"
  have "\<exists>io. s2 = (fold iocp_woken ts ?s1)\<lparr>r_io := io\<rparr> \<and> handles_cleared (set ts) (io1\<lparr>ip_world := k\<rparr>) io"
    using packets_walk [of _ ?s1] unfolding s2_def ts_def packets_got_def
    by (cases es) (auto simp: handles_cleared_def)
  then obtain io2 where io2: "s2 = (fold iocp_woken ts s)\<lparr>r_io := io2\<rparr>" "handles_cleared (set ts) (io1\<lparr>ip_world := k\<rparr>) io2"
    by auto
  have t2: "ip_sleepers io2 = ip_sleepers (r_io s)" "ip_ok io2" "ops (ip_world io2) = ops (ip_world (r_io s)) - set ts"
    "\<And>t. ip_task io2 t = (if t \<in> set ts then (ip_task (r_io s) t)\<lparr>it_handle := None\<rparr> else ip_task (r_io s) t)"
    using io2(2) k1 ok(2) ts(3) by (auto simp: handles_cleared_def io_kept_def)
  have w2: "ip_world io2 = k" using io2(2) by (simp add: handles_cleared_def)
  have c2: "sleeper_chain io2 = sleeper_chain (r_io s)" by (rule sleepers_cong) (simp_all add: t2)
  have dl: "it_deadline (ip_task io2 t) = it_deadline (ip_task (r_io s) t)" for t by (simp add: t2)
  show ?thesis
  proof (cases "ip_sleepers (r_io s2) = None")
    case True
    then have xs: "xs = []" using c t2(1) by (simp add: io2(1) sleeper_chain_def)
    have "gt_iocp_poll P ck until s = Some s2" using True by (simp add: gt_iocp_poll_def ms g s2_def [symmetric])
    then show ?thesis using c ts t2 c2 io2(1) unfolding xs by (intro exI [of _ io2]) auto
  next
    case False
    have "fst (gt_iocp_now P ck (r_io s2)) = now" unfolding now_def by (rule now_world) (simp add: io2(1) w2)
    then obtain io3 where n: "gt_iocp_now P ck (r_io s2) = (now, io3)" by (metis prod.collapse)
    have k3: "io_kept ops io2 io3" using now_kept [OF n] by (simp add: io2(1))
    have "sleeper_chain io3 xs" using c kept_chain [OF k3] c2 by simp
    then have ch: "sleeper_chain (r_io (s2\<lparr>r_io := io3\<rparr>)) xs" by simp
    have dl3: "it_deadline (ip_task io3 t) = it_deadline (ip_task (r_io s) t)" for t using k3 dl by (simp add: io_kept_def)
    let ?ds = "dropWhile (\<lambda>t. it_deadline (ip_task (r_io s) t) \<le> now) xs"
    let ?io = "io3\<lparr>ip_sleepers := (case ?ds of [] \<Rightarrow> None | t # _ \<Rightarrow> Some t)\<rparr>"
    have s': "gt_iocp_poll P ck until s =
        Some ((fold iocp_woken (ts @ takeWhile (\<lambda>t. it_deadline (ip_task (r_io s) t) \<le> now) xs) s)\<lparr>r_io := ?io\<rparr>)"
      using False n wake_walk [OF ch, of now]
      by (simp add: gt_iocp_poll_def ms g s2_def [symmetric]) (auto simp: io2(1) dl3)
    have "chain (\<lambda>t. it_next_sleeper (ip_task io3 t)) (ip_sleepers io3) (takeWhile (\<lambda>t. it_deadline (ip_task (r_io s) t) \<le> now) xs @ ?ds)"
      using \<open>sleeper_chain io3 xs\<close> by (simp add: sleeper_chain_def)
    then have "sleeper_chain ?io ?ds" using chain_rest by (fastforce simp: sleeper_chain_def)
    then show ?thesis using s' ts t2 k3 by (intro exI [of _ ?io]) (simp add: io_kept_def)
  qed
qed

lemma poll_does:
  assumes ok: "iocp_ok ops (r_io s)" "ip_ok (r_io s)" and c: "sleeper_chain (r_io s) xs"
    and p: "gt_iocp_poll P ck until s = Some s'"
  shows "\<exists>ts now io. distinct ts \<and> set ts \<subseteq> ops (ip_world (r_io s)) \<and>
    s' = (fold iocp_woken (ts @ takeWhile (\<lambda>t. it_deadline (ip_task (r_io s) t) \<le> now) xs) s)\<lparr>r_io := io\<rparr> \<and>
    sleeper_chain io (dropWhile (\<lambda>t. it_deadline (ip_task (r_io s) t) \<le> now) xs) \<and> ip_ok io \<and>
    ops (ip_world io) = ops (ip_world (r_io s)) - set ts \<and>
    (\<forall>t. ip_task io t = (if t \<in> set ts then (ip_task (r_io s) t)\<lparr>it_handle := None\<rparr> else ip_task (r_io s) t))"
proof -
  obtain ms io1 where ms: "iocp_ms P ck (iocp_until until (r_io s)) (r_io s) = (ms, io1)" by (rule prod.exhaust)
  obtain es k where g: "pc_get P (ip_port io1) GT_IOCP_BATCH ms (ip_world io1) = Some (es, k)"
    using p by (auto simp: gt_iocp_poll_def ms bind_eq_Some_conv)
  define ts where "ts = packets_got es"
  define now where "now = fst (gt_iocp_now P ck (io1\<lparr>ip_world := k\<rparr>))"
  have "\<exists>io. gt_iocp_poll P ck until s =
      Some ((fold iocp_woken (ts @ takeWhile (\<lambda>t. it_deadline (ip_task (r_io s) t) \<le> now) xs) s)\<lparr>r_io := io\<rparr>) \<and>
    distinct ts \<and> set ts \<subseteq> ops (ip_world (r_io s)) \<and>
    sleeper_chain io (dropWhile (\<lambda>t. it_deadline (ip_task (r_io s) t) \<le> now) xs) \<and> ip_ok io \<and>
    ops (ip_world io) = ops (ip_world (r_io s)) - set ts \<and>
    (\<forall>t. ip_task io t = (if t \<in> set ts then (ip_task (r_io s) t)\<lparr>it_handle := None\<rparr> else ip_task (r_io s) t))"
    unfolding ts_def now_def by (rule poll_waits [OF ok c ms g])
  then show ?thesis unfolding p option.inject by blast
qed

end

end
