(* ===== verification/IocpProps.thy ===== *)
theory IocpProps
  imports Iocp
begin

text \<open>
  The completion port keeps the scheduler's contract, so the scheduler's guarantees hold on Windows; what its polls
  do to the sleepers; handles tied to a port for good; and the end of a runtime, which cancels what its tasks have
  outstanding and waits it out. A port on which nothing ends before it is cancelled shows its assumptions can hold.
\<close>

section \<open>The port is a backend\<close>

context completion_port
begin

lemma poll_completes:
  assumes ok: "iocp_ok ops (r_io s)" "ip_ok (r_io s)" and p: "gt_iocp_poll P ck until s = Some s'"
  shows "completes (iocp_out ops) (iocp_ok ops) s s'"
proof -
  obtain xs where c: "sleeper_chain (r_io s) xs" "sorted (deadlines (r_io s) xs)" "set xs \<inter> ops (ip_world (r_io s)) = {}"
    and h: "ops (ip_world (r_io s)) = {t. it_handle (ip_task (r_io s) t) \<noteq> None}"
    using ok by (auto simp: iocp_ok_def)
  obtain ts now io where
    ts: "distinct ts" "set ts \<subseteq> ops (ip_world (r_io s))"
    and s': "s' = (fold iocp_woken (ts @ takeWhile (\<lambda>t. it_deadline (ip_task (r_io s) t) \<le> now) xs) s)\<lparr>r_io := io\<rparr>"
    and io: "sleeper_chain io (dropWhile (\<lambda>t. it_deadline (ip_task (r_io s) t) \<le> now) xs)" "ip_ok io"
      "ops (ip_world io) = ops (ip_world (r_io s)) - set ts"
      "\<forall>t. ip_task io t = (if t \<in> set ts then (ip_task (r_io s) t)\<lparr>it_handle := None\<rparr> else ip_task (r_io s) t)"
    using poll_does [OF ok c(1) p] by blast
  let ?due = "takeWhile (\<lambda>t. it_deadline (ip_task (r_io s) t) \<le> now) xs"
  let ?left = "dropWhile (\<lambda>t. it_deadline (ip_task (r_io s) t) \<le> now) xs"
  let ?ds = "map (\<lambda>t. (t, t_io_res (r_tasks s t))) (ts @ ?due)"
  have fst: "map fst ?ds = ts @ ?due" by (simp add: comp_def)
  have d: "distinct xs" using chain_distinct c(1) unfolding sleeper_chain_def by blast
  have split: "set xs = set ?due \<union> set ?left" by (metis set_append takeWhile_dropWhile_id)
  have apart: "set ?due \<inter> set ?left = {}" using d by (metis distinct_append takeWhile_dropWhile_id)
  have dl: "map (\<lambda>t. it_deadline (ip_task io t)) ys = deadlines (r_io s) ys" for ys using io(4) by simp
  have sorted: "sorted (deadlines io ?left)" unfolding dl
    using sorted_dropWhile [OF c(2), of "\<lambda>x. x \<le> now"] by (simp add: dropWhile_map comp_def)
  have "iocp_ok ops io"
  proof -
    have "set ?left \<inter> ops (ip_world io) = {}" using split c(3) io(3) by blast
    moreover have "ops (ip_world io) = {t. it_handle (ip_task io t) \<noteq> None}" using io(3,4) h by auto
    ultimately show ?thesis unfolding iocp_ok_def using io(1) sorted by blast
  qed
  moreover have "distinct (map fst ?ds)" unfolding fst using ts d c(3) split by (auto simp: distinct_takeWhile)
  moreover have "set (map fst ?ds) \<subseteq> iocp_out ops (r_io s)"
    unfolding fst using ts split ok(2) by (auto simp: iocp_out_def sleeping_chain [OF c(1)])
  moreover have "iocp_out ops io = iocp_out ops (r_io s) - set (map fst ?ds)"
    unfolding fst using io(2,3) ok(2) split apart ts c(3) by (auto simp: iocp_out_def sleeping_chain [OF c(1)] sleeping_chain [OF io(1)])
  moreover have "s' = (fold gt_complete ?ds s)\<lparr>r_io := io\<rparr>" unfolding s' by (simp only: fold_woken_complete)
  ultimately show ?thesis unfolding completes_def by blast
qed

lemma completes_none: "iocp_ok ops (r_io s) \<Longrightarrow> completes (iocp_out ops) (iocp_ok ops) s s"
  unfolding completes_def by (rule exI [of _ "[]"], rule exI [of _ "r_io s"]) simp

lemma kept_out: "io_kept ops io io' \<Longrightarrow> iocp_out ops io' = iocp_out ops io"
  using kept_chain [of ops io io'] by (simp add: iocp_out_def io_kept_def sleeping_def)

text \<open>What happens before a poll and leaves tasks and sleepers alone.\<close>

lemma completes_kept:
  assumes "completes (iocp_out ops) (iocp_ok ops) (s\<lparr>r_io := io\<rparr>) (s' :: 'k iocp_rt)" and "io_kept ops (r_io s) io"
  shows "completes (iocp_out ops) (iocp_ok ops) s s'"
proof -
  have gc: "gt_complete c (s\<lparr>r_io := io\<rparr>) = (gt_complete c s)\<lparr>r_io := io\<rparr>" for c io and s :: "'k iocp_rt"
    by (cases s) (simp add: gt_complete_def gt_rq_push_def upd_task_def Let_def split: option.splits)
  have "fold gt_complete ds (s\<lparr>r_io := io\<rparr>) = (fold gt_complete ds s)\<lparr>r_io := io\<rparr>" for ds io and s :: "'k iocp_rt"
    by (induction ds arbitrary: s) (simp_all add: gc)
  moreover obtain ds io1 where ds: "distinct (map fst ds)" "set (map fst ds) \<subseteq> iocp_out ops io"
      "s' = (fold gt_complete ds (s\<lparr>r_io := io\<rparr>))\<lparr>r_io := io1\<rparr>" "iocp_ok ops io1" "iocp_out ops io1 = iocp_out ops io - set (map fst ds)"
    using assms(1) by (auto simp: completes_def)
  ultimately have "s' = (fold gt_complete ds s)\<lparr>r_io := io1\<rparr>" by simp
  then show ?thesis using ds(1,2,4,5) kept_out [OF assms(2)] unfolding completes_def by blast
qed

lemma io_poll_ok:
  assumes "iocp_ok ops (r_io s)" "iocp_io_poll P ck b s = Some s'"
  shows "completes (iocp_out ops) (iocp_ok ops) s s'"
  using assms completes_none poll_completes by (auto simp: iocp_io_poll_def split: if_splits)

lemma io_poll_until_ok:
  assumes ok: "iocp_ok ops (r_io s)" and p: "iocp_io_poll_until P ck c d s = Some s'"
  shows "completes (iocp_out ops) (iocp_ok ops) s s'"
proof (cases "ip_ok (r_io s)")
  case True
  obtain t k where t: "pc_clock P c (ip_world (r_io s)) = (t, k)" by (rule prod.exhaust)
  obtain now io where n: "gt_iocp_now P ck ((r_io s)\<lparr>ip_world := k\<rparr>) = (now, io)" by (rule prod.exhaust)
  have "io_kept ops (r_io s) ((r_io s)\<lparr>ip_world := k\<rparr>)" using clock [OF t] by (simp add: io_kept_def)
  with now_kept [OF n] have kept: "io_kept ops (r_io s) io" by (blast intro: kept_trans)
  obtain u where u: "gt_iocp_poll P ck u (s\<lparr>r_io := io\<rparr>) = Some s'"
    using p True by (auto simp: iocp_io_poll_until_def Let_def t n)
  have "completes (iocp_out ops) (iocp_ok ops) (s\<lparr>r_io := io\<rparr>) s'"
    by (rule poll_completes [OF _ _ u]) (use ok kept kept_ok True in \<open>auto simp: io_kept_def\<close>)
  then show ?thesis using kept by (rule completes_kept)
next
  case False
  then show ?thesis using p ok completes_none by (simp add: iocp_io_poll_until_def)
qed

lemma submit_ok:
  assumes ok: "iocp_ok ops io" and t: "t \<notin> iocp_out ops io" and s: "iocp_submit ops t io io'"
  shows "iocp_ok ops io' \<and> iocp_out ops io' = insert t (iocp_out ops io)"
proof -
  have up: "ip_ok io" using s by (simp add: iocp_submit_def)
  obtain xs where c: "sleeper_chain io xs" "sorted (deadlines io xs)" "set xs \<inter> ops (ip_world io) = {}"
    and h: "ops (ip_world io) = {t. it_handle (ip_task io t) \<noteq> None}"
    using ok up by (auto simp: iocp_ok_def)
  have out: "t \<notin> set xs" "t \<notin> ops (ip_world io)" using t up by (auto simp: iocp_out_def sleeping_chain [OF c(1)])
  from s show ?thesis unfolding iocp_submit_def
  proof (elim conjE disjE exE)
    fix hd ov k
    assume k: "ops k = insert t (ops (ip_world io))"
      and io': "io' = (upd_io_task t (\<lambda>x. x\<lparr>it_ov := ov, it_handle := Some hd\<rparr>) io)\<lparr>ip_world := k\<rparr>"
    have c': "sleeper_chain io' xs" using c(1) sleepers_cong [of io' io] by (simp add: io')
    have f: "ip_world io' = k" "ip_ok io' = ip_ok io" "\<And>u. it_deadline (ip_task io' u) = it_deadline (ip_task io u)"
      "\<And>u. it_handle (ip_task io' u) = (if u = t then Some hd else it_handle (ip_task io u))" by (simp_all add: io')
    have "sorted (deadlines io' xs)" "set xs \<inter> ops (ip_world io') = {}" "ops k = {u. it_handle (ip_task io' u) \<noteq> None}"
      using c(2,3) out k h by (auto simp: f)
    then have "iocp_ok ops io'" unfolding iocp_ok_def f(1) using c' by blast
    then show ?thesis using up k by (simp add: iocp_out_def sleeping_chain [OF c(1)] sleeping_chain [OF c'] f)
  next
    fix d k
    assume k: "ops k = ops (ip_world io)" and io': "iocp_sleep_in t d (io\<lparr>ip_world := k\<rparr>) = Some io'"
    let ?io = "io\<lparr>ip_world := k\<rparr>"
    let ?p = "\<lambda>u. it_deadline (ip_task io u) \<le> d"
    let ?ys = "takeWhile ?p xs @ t # dropWhile ?p xs"
    have c0: "sleeper_chain ?io xs" using c(1) by (simp add: sleeper_chain_def)
    have r: "sleeper_chain io' ?ys" "\<And>u. it_deadline (ip_task io' u) = (if u = t then d else it_deadline (ip_task io u))"
      "\<And>u. it_handle (ip_task io' u) = it_handle (ip_task io u)" "ip_ok io'" "ip_world io' = k"
      using sleep_in_sorted [OF c0, of t d] c(2) out(1) io' up by auto
    have set: "set ?ys = insert t (set xs)" 
    proof -
      have "set (as @ t # bs) = insert t (set (as @ bs))" for as bs by simp
      then have "set ?ys = insert t (set (takeWhile ?p xs @ dropWhile ?p xs))" .
      then show ?thesis by (simp only: takeWhile_dropWhile_id)
    qed
    have dls: "deadlines io' ?ys = takeWhile (\<lambda>x. x \<le> d) (deadlines io xs) @ d # dropWhile (\<lambda>x. x \<le> d) (deadlines io xs)"
      using out(1) by (auto simp: r(2) takeWhile_map dropWhile_map comp_def dest: set_takeWhileD set_dropWhileD)
    have "sorted (takeWhile (\<lambda>x. x \<le> d) l @ d # dropWhile (\<lambda>x. x \<le> d) l)" if "sorted l" for l :: "int list"
      using that by (induction l) (auto dest: set_takeWhileD set_dropWhileD)
    then have "sorted (deadlines io' ?ys)" unfolding dls using c(2) by blast
    moreover have "set ?ys \<inter> ops (ip_world io') = {}" unfolding set using c(3) out(2) by (simp add: r(5) k)
    ultimately have "iocp_ok ops io'" unfolding iocp_ok_def using r(1) by (simp only: r(3,5) k h) blast
    then show ?thesis using up r(4,5) k set
      by (simp add: iocp_out_def sleeping_chain [OF c(1)] sleeping_chain [OF r(1)])
  qed
qed

end

text \<open>The teardown as the scheduler calls it: one that never returned would leave the runtime as it is.\<close>

definition iocp_teardown :: "'k port_calls \<Rightarrow> 'k iocp_rt \<Rightarrow> 'k iocp_rt" where
  "iocp_teardown P s = (case iocp_io_teardown P s of Some s' \<Rightarrow> s' | None \<Rightarrow> s)"

lemma teardown_idle:
  assumes ok: "iocp_ok ops (r_io s)" and out: "iocp_out ops (r_io s) = {}" and n: "r_inflight s = 0"
  shows "\<exists>io. iocp_io_teardown P s = Some (s\<lparr>r_io := io\<rparr>) \<and> \<not> ip_ok io"
proof (cases "ip_ok (r_io s)")
  case True
  have "it_handle (ip_task (r_io s) t) = None" for t using ok out True by (auto simp: iocp_ok_def iocp_out_def)
  then have "slots_on_io s = []" by (simp add: slots_on_io_def)
  moreover have "s\<lparr>r_inflight := 0, r_io := io\<rparr> = s\<lparr>r_io := io\<rparr>" for io using n by (cases s) simp
  ultimately have "iocp_io_teardown P s = Some (s\<lparr>r_io := zero_iocp (ip_task (r_io s)) (close_port P (r_io s) (ip_world (r_io s)))\<rparr>)"
    using True by (simp add: iocp_io_teardown_def iocp_drain.simps [of _ _ 0] Let_def)
  then show ?thesis by (intro exI [of _ "zero_iocp (ip_task (r_io s)) (close_port P (r_io s) (ip_world (r_io s)))"])
      (simp add: zero_iocp_def)
next
  case False
  then show ?thesis by (intro exI [of _ "r_io s"]) (simp add: iocp_io_teardown_def)
qed

context completion_port
begin

lemma is_backend:
  "gt_backend (iocp_out ops) (iocp_ok ops) (iocp_io_poll P ck) (iocp_io_poll_until P ck) (iocp_submit ops) (iocp_teardown P)"
proof (unfold_locales, goal_cases)
  case (4 s)
  then obtain io where "iocp_io_teardown P s = Some (s\<lparr>r_io := io\<rparr>)" "\<not> ip_ok io" using teardown_idle by blast
  then show ?case by (auto simp: iocp_teardown_def iocp_ok_def iocp_out_def)
qed (use io_poll_ok io_poll_until_ok submit_ok in blast)+

end

sublocale completion_port \<subseteq> backend: gt_backend "iocp_out ops" "iocp_ok ops" "iocp_io_poll P ck" "iocp_io_poll_until P ck"
    "iocp_submit ops" "iocp_teardown P" for ck
  by (rule is_backend)

section \<open>Accounting\<close>

definition no_io :: iocp_task where
  "no_io = \<lparr>it_ov = zero_overlapped, it_handle = None, it_deadline = 0, it_next_sleeper = None\<rparr>"

lemma setup_shape:
  assumes "completion_port P ops" "r_inflight s = 0" "r_io s = zero_iocp ts k"
  shows "fst (iocp_io_setup P ids s) = s\<lparr>r_io := r_io (fst (iocp_io_setup P ids s))\<rparr>"
    and "ip_sleepers (r_io (fst (iocp_io_setup P ids s))) = None" "ip_task (r_io (fst (iocp_io_setup P ids s))) = ts"
    and "ops (ip_world (r_io (fst (iocp_io_setup P ids s)))) = ops k"
proof -
  have s: "s\<lparr>r_inflight := 0, r_io := io\<rparr> = s\<lparr>r_io := io\<rparr>" for io using assms(2) by (cases s) simp
  note c = completion_port.creates [OF assms(1)]
  show "fst (iocp_io_setup P ids s) = s\<lparr>r_io := r_io (fst (iocp_io_setup P ids s))\<rparr>"
    by (simp add: iocp_io_setup_def Let_def s case_prod_beta)
  show "ip_sleepers (r_io (fst (iocp_io_setup P ids s))) = None" "ip_task (r_io (fst (iocp_io_setup P ids s))) = ts"
    "ops (ip_world (r_io (fst (iocp_io_setup P ids s)))) = ops k"
    using assms(3) c by (simp_all add: iocp_io_setup_def Let_def case_prod_beta zero_iocp_def)
qed

text \<open>C5: With a completion port as the backend, in every reachable state in which it is open: the tasks that wait
  on i/o are those with an operation the kernel has, or asleep, never both; a task has its handle for
  as long as its operation is outstanding; the sleepers are in the order of their deadlines; and the runtime's count
  is the number of all of them.
\<close>

theorem iocp_accounting:
  assumes P: "completion_port P ops" and k: "ops k = {}"
    and init: "gt_init_slow calloc osl () (zero_iocp (\<lambda>_. no_io) k) (\<lambda>s. fst (iocp_io_setup P ids s)) usp = Inr s0"
    and steps: "(sched_step (iocp_io_poll P ck) (iocp_io_poll_until P ck) (iocp_submit ops) (iocp_teardown P))\<^sup>*\<^sup>*
           (InBody 0, s0) (p, s)"
    and up: "ip_ok (r_io s)"
  shows "{t. t < r_nslots s \<and> t_state (r_tasks s t) = GT_STATE_WAITING} = ops (ip_world (r_io s)) \<union> sleeping (r_io s) \<and>
    ops (ip_world (r_io s)) \<inter> sleeping (r_io s) = {} \<and>
    ops (ip_world (r_io s)) = {t. it_handle (ip_task (r_io s) t) \<noteq> None} \<and>
    (\<exists>xs. sleeper_chain (r_io s) xs \<and> sorted (deadlines (r_io s) xs)) \<and>
    r_inflight s = of_nat (card (ops (ip_world (r_io s)) \<union> sleeping (r_io s)))"
proof -
  define io where "io = r_io (fst (iocp_io_setup P ids (zero_runtime () (zero_iocp (\<lambda>_. no_io) k) None)))"
  have z: "r_inflight (zero_runtime () r None) = 0" "r_io (zero_runtime () r None) = r" for r :: "'a gt_iocp"
    by (simp_all add: zero_runtime_def)
  note Z = setup_shape [where ids = ids and ts = "\<lambda>_. no_io" and k = k, OF P z(1) z(2), folded io_def]
  have same: "r_io (fst (iocp_io_setup P ids s)) = io" if "r_io s = zero_iocp (\<lambda>_. no_io) k" for s
    using that unfolding io_def by (simp add: iocp_io_setup_def Let_def case_prod_beta z)
  have st: "fst (iocp_io_setup P ids s) = s\<lparr>r_io := io\<rparr>"
    if "r_inflight s = 0" "r_io s = zero_iocp (\<lambda>_. no_io) k" for s
    using setup_shape(1) [OF P that, of ids] same [OF that(2)] by simp
  have ch: "sleeper_chain io []" using Z(2) by (simp add: sleeper_chain_def)
  have ok: "iocp_ok ops io" "iocp_out ops io = {}"
    using Z(3,4) ch k sleeping_chain [OF ch] by (auto simp: iocp_ok_def iocp_out_def no_io_def intro!: exI [of _ "[]"])
  have "conf_ok (iocp_out ops) (iocp_ok ops) (InBody 0, s0)"
    by (rule init_conf_ok [OF init, where io = io]) (use st ok in auto)
  then have "conf_ok (iocp_out ops) (iocp_ok ops) (p, s)"
    by (rule gt_backend.steps_ok [OF completion_port.is_backend [OF P] steps])
  from conf_inflight [OF this] have c: "iocp_out ops (r_io s) = {t. t < r_nslots s \<and> t_state (r_tasks s t) = GT_STATE_WAITING}"
    "r_inflight s = of_nat (card (iocp_out ops (r_io s)))" "iocp_ok ops (r_io s)" by blast+
  obtain xs where xs: "sleeper_chain (r_io s) xs" "sorted (deadlines (r_io s) xs)" "set xs \<inter> ops (ip_world (r_io s)) = {}"
    "ops (ip_world (r_io s)) = {t. it_handle (ip_task (r_io s) t) \<noteq> None}"
    using c(3) up by (auto simp: iocp_ok_def)
  have "ops (ip_world (r_io s)) \<inter> sleeping (r_io s) = {}" using xs(3) sleeping_chain [OF xs(1)] by blast
  then show ?thesis using c(1,2) xs(1,2,4) up by (auto simp: iocp_out_def)
qed

section \<open>Waking\<close>






section \<open>The end of a runtime\<close>

context completion_port
begin

lemma cancelled [simp]: "ops (fold (cancel_slot P ts) xs k) = ops k"
  by (induction xs arbitrary: k) (simp_all add: cancel_slot_def cancel_io split: option.splits)

text \<open>Waiting for as many packets as there are outstanding operations ends, and with none outstanding.\<close>

lemma drain_ends:
  assumes more: "\<And>k. ops k \<noteq> {} \<Longrightarrow> \<forall>t \<in> ops k. (hdl t, t) \<in> asked k \<Longrightarrow>
      \<exists>es k'. pc_get P port GT_IOCP_BATCH None k = Some (Some es, k') \<and> asked k \<subseteq> asked k' \<and>
        (op_packets es = [] \<longrightarrow> timers k' < (timers k :: nat))"
    and all: "\<forall>t \<in> ops k. (hdl t, t) \<in> asked k"
    and fin: "finite (ops k)" "card (ops k) < 2 ^ 32"
  shows "\<exists>k'. iocp_drain P port (of_nat (card (ops k))) k = Some k' \<and> ops k' = {}"
  using all fin
proof (induction "(card (ops k), timers k)" arbitrary: k rule: wf_induct_rule [OF wf_lex_prod [OF wf_less_than wf_less_than]])
  case (1 k)
  note step = 1(1) and all = 1(2) and fin = 1(3,4)
  show ?case
  proof (cases "ops k = {}")
    case True
    then show ?thesis by (simp add: iocp_drain.simps [of P port 0])
  next
    case False
    then obtain es k' where g: "pc_get P port GT_IOCP_BATCH None k = Some (Some es, k')"
      and grows: "asked k \<subseteq> asked k'" and less: "op_packets es = [] \<Longrightarrow> timers k' < timers k" using more all by blast
    have G: "distinct (op_packets es)" "set (op_packets es) \<subseteq> ops k" "ops k' = ops k - set (op_packets es)" using get [OF g] by blast+
    have card: "card (ops k') = card (ops k) - length (op_packets es)"
      using G fin(1) by (simp add: card_Diff_subset distinct_card)
    have le: "length (op_packets es) \<le> card (ops k)" using G(1,2) fin(1) by (metis card_mono distinct_card)
    have nz: "(of_nat (card (ops k)) :: u32) \<noteq> 0" using False fin by (simp add: of_nat_eq_0)
    have w: "(of_nat (card (ops k)) :: u32) - of_nat (length (op_packets es)) = of_nat (card (ops k'))"
      using le by (simp add: card of_nat_diff)
    have "((card (ops k'), timers k'), (card (ops k), timers k)) \<in> less_than <*lex*> less_than"
      using card le less False fin(1) by (cases "op_packets es = []") (auto simp: card_gt_0_iff)
    moreover have "\<forall>t \<in> ops k'. (hdl t, t) \<in> asked k'" using all grows G(3) by auto
    ultimately show ?thesis using step [of k'] fin G(3) card
      by (simp add: iocp_drain.simps [of P port _ k] nz g w)
  qed
qed

end

text \<open>Every slot on i/o is cancelled, on the handle its operation was started on.\<close>

lemma asked_all:
  assumes "\<And>h t k. asked (pc_cancel_io P h t k) = insert (h, t) (asked k)"
  shows "asked (fold (cancel_slot P ts) xs k) = {(h, t). t \<in> set xs \<and> it_handle (ts t) = Some h} \<union> asked k"
  by (induction xs arbitrary: k) (auto simp: cancel_slot_def assms split: option.splits)

text \<open>C23: Tearing a runtime down always ends, and closes the port only once the kernel has no operation of
  its tasks left, so nothing writes to an OVERLAPPED that is freed: as long as a wait for a packet gives one while
  operations are outstanding all of which have been cancelled on their handles (\<^verbatim>\<open>asked\<close>), with a timer's expiry between
  them no more than finitely often. Of an operation that was not cancelled nothing is assumed.
\<close>

theorem teardown_waits_out:
  assumes P: "completion_port P ops" and ok: "iocp_ok ops (r_io s)" "ip_ok (r_io s)"
    and slots: "ops (ip_world (r_io s)) \<subseteq> {..<r_nslots s}" "r_nslots s < 2 ^ 32"
    and cancel: "\<And>h t k. asked (pc_cancel_io P h t k) = insert (h, t) (asked k)"
    and more: "\<And>k. ops k \<noteq> {} \<Longrightarrow> \<forall>t \<in> ops k. (the (it_handle (ip_task (r_io s) t)), t) \<in> asked k \<Longrightarrow>
      \<exists>es k'. pc_get P (ip_port (r_io s)) GT_IOCP_BATCH None k = Some (Some es, k') \<and> asked k \<subseteq> asked k' \<and>
        (op_packets es = [] \<longrightarrow> timers k' < (timers k :: nat))"
  shows "\<exists>k. ops k = {} \<and> iocp_io_teardown P s =
    Some (s\<lparr>r_inflight := 0, r_io := zero_iocp (ip_task (r_io s)) (close_port P (r_io s) k)\<rparr>)"
proof -
  let ?io = "r_io s" and ?xs = "slots_on_io s"
  have h: "ops (ip_world ?io) = {t. it_handle (ip_task ?io t) \<noteq> None}" using ok by (simp add: iocp_ok_def)
  have xs: "set ?xs = ops (ip_world ?io)" "distinct ?xs" using slots(1) by (auto simp: slots_on_io_def h)
  let ?k = "fold (cancel_slot P (ip_task ?io)) ?xs (ip_world ?io)"
  have k: "ops ?k = ops (ip_world ?io)" by (rule completion_port.cancelled [OF P])
  have all: "\<forall>t \<in> ops ?k. (the (it_handle (ip_task ?io t)), t) \<in> asked ?k"
    unfolding k asked_all [where asked = asked, OF cancel] using xs(1) h by auto
  have card: "card (ops ?k) = length ?xs" unfolding k using xs by (metis distinct_card)
  have fin: "finite (ops ?k)" unfolding k using slots(1) by (rule finite_subset) simp
  have "card (ops ?k) \<le> r_nslots s" unfolding k using slots(1) by (metis card_lessThan card_mono finite_lessThan)
  then have small: "card (ops ?k) < 2 ^ 32" using slots(2) by simp
  obtain k' where "iocp_drain P (ip_port ?io) (of_nat (card (ops ?k))) ?k = Some k'" "ops k' = {}"
    using completion_port.drain_ends [OF P more all fin small] by blast
  then show ?thesis using ok(2) by (intro exI [of _ k']) (simp add: iocp_io_teardown_def Let_def card)
qed

section \<open>Deadlines\<close>

lemma i64_small: "- (2 ^ 63) \<le> x \<Longrightarrow> x < 2 ^ 63 \<Longrightarrow> i64 x = x"
  by (simp add: i64_def signed_take_bit_int_eq_self)

text \<open>A relative sleep, however long it is asked to be, waits for the clock to have moved on by that long, or by a
  century: no deadline wraps while the monotonic clock is below six thousand million seconds.
\<close>

theorem sleep_deadline_exact:
  assumes "0 \<le> tv_sec d" "0 \<le> tv_nsec d" "tv_nsec d < 1000000000"
    and "pc_clock P (ck_monotonic ck) (ip_world io) = (now, k)"
    and "0 \<le> tv_sec now" "tv_sec now < 6000000000" "0 \<le> tv_nsec now" "tv_nsec now < 1000000000"
  shows "i64 (fst (gt_iocp_now P ck io) + sleep_ns d) =
      tv_sec now * 1000000000 + tv_nsec now + min (tv_sec d) SLEEP_MAX * 1000000000 + tv_nsec d"
proof -
  have "i64 (tv_sec now * 1000000000 + tv_nsec now) = tv_sec now * 1000000000 + tv_nsec now"
    using assms by (intro i64_small) auto
  then have n: "fst (gt_iocp_now P ck io) = tv_sec now * 1000000000 + tv_nsec now" using assms(4) by (simp add: gt_iocp_now_def)
  show ?thesis unfolding n using assms by (subst i64_small) (auto simp: sleep_ns_def SLEEP_MAX_def min_def)
qed

text \<open>
  A lock's deadline is not limited so: the nanoseconds left of one ten thousand million seconds off wrap, and the poll that should
  wait for it does not wait at all.
\<close>

lemma far_deadline_wraps: "i64 (i64 (10000000000 * 1000000000)) < 0"
  by (simp add: i64_def signed_take_bit_eq_take_bit_minus take_bit_eq_mod bit_iff_odd)

section \<open>Handles tied for good\<close>

text \<open>
  Once a handle's owner is recorded it never changes, and a thread may put operations on the handle through its port
  exactly when it is the owner.
\<close>

lemma attach_for_good:
  assumes "gt_iocp_attach P h owner rt = ((yes, owner'), rt')"
  shows "owner \<noteq> 0 \<Longrightarrow> owner' = owner"
    and "yes \<Longrightarrow> \<exists>s. rt = Some s \<and> ip_ok (r_io s) \<and> owner' = ip_id (r_io s)"
    and "rt = Some s \<Longrightarrow> ip_ok (r_io s) \<Longrightarrow> owner = ip_id (r_io s) \<Longrightarrow> owner \<noteq> 0 \<Longrightarrow> yes"
  using assms by (auto simp: gt_iocp_attach_def iocp_io_ready_def Let_def split: option.splits if_splits prod.splits)

section \<open>A port\<close>

text \<open>A port on which every operation finishes by itself, over the list of those outstanding, without timers.\<close>

definition sim_port :: "tptr list port_calls" where
  "sim_port =
     \<lparr>pc_create_port = \<lambda>k. (Some 1, k), pc_create_timer = \<lambda>_ k. (None, k), pc_ntdll = False, pc_proc = \<lambda>_. False,
      pc_create_packet = \<lambda>k. (None, k), pc_set_timer = \<lambda>_ _ k. (False, k), pc_associate = \<lambda>_ _ _ _ k. ((True, False), k),
      pc_cancel_packet = \<lambda>_ k. k, pc_close = \<lambda>_ k. k,
      pc_get = \<lambda>_ _ _ k. (case k of [] \<Rightarrow> Some (None, []) | t # r \<Rightarrow> Some (Some [(0, t)], removeAll t r)),
      pc_cancel_io = \<lambda>_ _ k. k, pc_tie = \<lambda>_ _ k. (True, k), pc_clock = \<lambda>_ k. (\<lparr>tv_sec = 0, tv_nsec = 5\<rparr>, k)\<rparr>"

lemma one_packet [simp]: "op_packets [(0, t)] = [t]" "op_packets [] = []"
  by (simp_all add: op_packets_def GT_IOCP_TIMER_KEY_def)

interpretation sim_port: completion_port sim_port set
  by unfold_locales
    (auto simp: sim_port_def split: list.splits)

definition sim_clocks :: clock_ids where
  "sim_clocks = \<lparr>ck_monotonic = 1, ck_realtime = 0\<rparr>"


text \<open>A task on a handle, and two asleep.\<close>

definition sim_io :: "tptr list gt_iocp" where
  "sim_io = (zero_iocp (\<lambda>_. no_io) [3])\<lparr>ip_port := Some 1, ip_ok := True, ip_sleepers := Some 1,
     ip_task := (\<lambda>_. no_io)(1 := no_io\<lparr>it_deadline := 5, it_next_sleeper := Some 2\<rparr>, 2 := no_io\<lparr>it_deadline := 6\<rparr>,
       3 := no_io\<lparr>it_handle := Some 8\<rparr>)\<rparr>"




text \<open>A port on which no operation finishes before it is cancelled: a wait with none that was never returns.\<close>

definition held_port :: "(tptr list \<times> (nat \<times> tptr) list) port_calls" where
  "held_port =
     \<lparr>pc_create_port = \<lambda>k. (Some 1, k), pc_create_timer = \<lambda>_ k. (None, k), pc_ntdll = False, pc_proc = \<lambda>_. False,
      pc_create_packet = \<lambda>k. (None, k), pc_set_timer = \<lambda>_ _ k. (False, k), pc_associate = \<lambda>_ _ _ _ k. ((True, False), k),
      pc_cancel_packet = \<lambda>_ k. k, pc_close = \<lambda>_ k. k,
      pc_get = \<lambda>_ _ ms k. (case filter (\<lambda>t. t \<in> snd ` set (snd k)) (fst k) of
        [] \<Rightarrow> (if ms = None then None else Some (None, k))
      | t # _ \<Rightarrow> Some (Some [(0, t)], (removeAll t (fst k), snd k))),
      pc_cancel_io = \<lambda>h t k. (fst k, (h, t) # snd k), pc_tie = \<lambda>_ _ k. (True, k), pc_clock = \<lambda>_ k. (\<lparr>tv_sec = 0, tv_nsec = 5\<rparr>, k)\<rparr>"

interpretation held_port: completion_port held_port "\<lambda>k. set (fst k)"
  by unfold_locales
    (auto simp: held_port_def split: list.splits if_splits dest: filter_eq_ConsD)

definition held_io :: "(tptr list \<times> (nat \<times> tptr) list) gt_iocp" where
  "held_io = (zero_iocp (\<lambda>_. no_io) ([3], []))\<lparr>ip_port := Some 1, ip_ok := True,
     ip_task := (\<lambda>_. no_io)(3 := no_io\<lparr>it_handle := Some 8\<rparr>)\<rparr>"

definition held_rt :: "(tptr list \<times> (nat \<times> tptr) list) iocp_rt" where
  "held_rt = (zero_runtime () held_io None)\<lparr>r_nslots := 4, r_inflight := 1\<rparr>"

lemma teardown_waits_out_witness:
  "\<exists>k. set (fst k) = {} \<and> iocp_io_teardown held_port held_rt =
    Some (held_rt\<lparr>r_inflight := 0, r_io := zero_iocp (ip_task held_io) (close_port held_port held_io k)\<rparr>)"
proof -
  have io: "r_io held_rt = held_io" "r_nslots held_rt = 4" by (simp_all add: held_rt_def zero_runtime_def)
  have "sleeper_chain held_io []" by (simp add: sleeper_chain_def held_io_def zero_iocp_def)
  moreover have w: "set (fst (ip_world held_io)) = {3}" "{t. it_handle (ip_task held_io t) \<noteq> None} = {3}" "ip_ok held_io"
    by (auto simp: held_io_def zero_iocp_def no_io_def)
  ultimately have ok: "iocp_ok (\<lambda>k. set (fst k)) held_io" unfolding iocp_ok_def by (intro impI conjI exI [of _ "[]"]) simp_all
  have g: "\<exists>es k'. pc_get held_port q n None k = Some (Some es, k') \<and> set (snd k) \<subseteq> set (snd k') \<and>
      (op_packets es = [] \<longrightarrow> (0::nat) < 0)"
    if "set (fst k) \<noteq> {}" "\<forall>t \<in> set (fst k). (hdl t, t) \<in> set (snd k)" for q n k hdl
  proof -
    have "filter (\<lambda>t. t \<in> snd ` set (snd k)) (fst k) = fst k" using that(2) by (force simp: filter_id_conv)
    then show ?thesis using that(1) by (cases "fst k") (auto simp: held_port_def)
  qed
  have c: "set (snd (pc_cancel_io held_port h t k)) = insert (h, t) (set (snd k))" for h t k by (simp add: held_port_def)
  show ?thesis
    using teardown_waits_out [OF held_port.completion_port_axioms _ _ _ _ c g, of held_rt] ok w unfolding io by auto
qed

lemma sleep_deadline_exact_witness:
  "i64 (fst (gt_iocp_now sim_port sim_clocks sim_io) + sleep_ns \<lparr>tv_sec = 2 ^ 62, tv_nsec = 7\<rparr>) = 3153600000000000012"
  using sleep_deadline_exact [of "\<lparr>tv_sec = 2 ^ 62, tv_nsec = 7\<rparr>" sim_port sim_clocks sim_io]
  by (simp add: sim_port_def SLEEP_MAX_def)

definition sim_start :: "tptr list iocp_rt" where
  "sim_start = (case gt_init_slow True \<lparr>os_realloc = True, os_calloc = True\<rparr> () (zero_iocp (\<lambda>_. no_io) [])
     (\<lambda>s. fst (iocp_io_setup sim_port 0 s)) None of Inr s \<Rightarrow> s | Inl p \<Rightarrow> zero_runtime () sim_io None)"

lemma sim_start_init: "gt_init_slow True \<lparr>os_realloc = True, os_calloc = True\<rparr> () (zero_iocp (\<lambda>_. no_io) [])
     (\<lambda>s. fst (iocp_io_setup sim_port 0 s)) None = Inr sim_start"
  by (simp add: sim_start_def gt_init_slow_def gt_slot_alloc_def gt_slot_grow_def zero_runtime_def zero_task_def gt_consts Let_def
      upd_task_def)

lemma iocp_accounting_witness:
  "{t. t < r_nslots sim_start \<and> t_state (r_tasks sim_start t) = GT_STATE_WAITING} =
     set (ip_world (r_io sim_start)) \<union> sleeping (r_io sim_start)"
proof -
  have "ip_ok (r_io sim_start)"
    by (simp add: sim_start_def gt_init_slow_def gt_slot_alloc_def gt_slot_grow_def zero_runtime_def zero_task_def gt_consts
      Let_def upd_task_def iocp_io_setup_def sim_port_def zero_iocp_def)
  with iocp_accounting [OF sim_port.completion_port_axioms _ sim_start_init rtranclp.rtrancl_refl] show ?thesis by simp
qed

end
