(* ===== verification/Context.thy ===== *)
theory Context
  imports Prelude
begin

text \<open>
  Switching between tasks (async/context.h, asm/): the assembly of each calling convention's \<^verbatim>\<open>_gt_switch\<close> as a
  list of instructions of a small machine, the first stack of a new task as the writes \<^verbatim>\<open>_gt_stack_prime\<close> makes,
  and Windows' fibers. Registers and addresses are integers: a stack lies within the address space, so no address
  of one wraps. A register is named by its number in its file; \<^verbatim>\<open>SP\<close>, \<^verbatim>\<open>PC\<close> and the control registers have names.
  What a routine does with the stack is read off by a symbolic run, shown to agree with the machine.
\<close>

section \<open>Memory\<close>

type_synonym bytes = "int \<Rightarrow> u8"

text \<open>The \<^verbatim>\<open>n\<close> bytes at an address, in either byte order.\<close>

definition load_at :: "bool \<Rightarrow> nat \<Rightarrow> int \<Rightarrow> bytes \<Rightarrow> int" where
  "load_at big n a m = (\<Sum>i<n. uint (m (a + int i)) * 256 ^ (if big then n - Suc i else i))"

definition store_at :: "bool \<Rightarrow> nat \<Rightarrow> int \<Rightarrow> int \<Rightarrow> bytes \<Rightarrow> bytes" where
  "store_at big n a v m =
     (\<lambda>x. if a \<le> x \<and> x < a + int n
          then word_of_int (v div 256 ^ (if big then n - Suc (nat (x - a)) else nat (x - a))) else m x)"

lemma store_other [simp]: "x < a \<or> a + int n \<le> x \<Longrightarrow> store_at big n a v m x = m x"
  by (auto simp: store_at_def)

lemma load_cong: "(\<And>x. a \<le> x \<Longrightarrow> x < a + int n \<Longrightarrow> m x = m' x) \<Longrightarrow> load_at big n a m = load_at big n a m'"
  by (auto simp: load_at_def intro!: sum.cong)

lemma load_apart: "a + int n \<le> b \<or> b + int w \<le> a \<Longrightarrow> load_at big n a (store_at big w b v m) = load_at big n a m"
  by (rule load_cong) auto

lemma digits: "(\<Sum>i<n. v div 256 ^ i mod 256 * 256 ^ i) = v mod (256 :: int) ^ n"
proof (induction n)
  case (Suc n)
  have "v mod 256 ^ Suc n = 256 ^ n * (v div 256 ^ n mod 256) + v mod 256 ^ n"
    using zmod_zmult2_eq [of 256 v "256 ^ n"] by (simp add: mult.commute)
  then show ?case using Suc by (simp add: mult.commute)
qed simp

lemma load_store:
  assumes "0 \<le> v" "v < 256 ^ n"
  shows "load_at big n a (store_at big n a v m) = v"
proof -
  have "load_at big n a (store_at big n a v m) =
      (\<Sum>i<n. v div 256 ^ (if big then n - Suc i else i) mod 256 * 256 ^ (if big then n - Suc i else i))"
    unfolding load_at_def by (rule sum.cong) (auto simp: store_at_def unsigned_of_int take_bit_eq_mod)
  also have "\<dots> = v mod 256 ^ n"
    using digits [of v n] sum.nat_diff_reindex [of "\<lambda>i. v div 256 ^ i mod 256 * 256 ^ i" n] by (cases big) simp_all
  finally show ?thesis using assms by simp
qed

lemma load_bounds: "0 \<le> load_at big n a m \<and> load_at big n a m < 256 ^ n"
proof -
  have b: "0 \<le> uint (m x) \<and> uint (m x) \<le> 255" for x using uint_lt2p [of "m x"] by simp
  have low: "(\<Sum>i<n. f i * 256 ^ i) < 256 ^ n \<and> 0 \<le> (\<Sum>i<n. f i * 256 ^ i)"
    if "\<And>i. 0 \<le> f i \<and> f i \<le> (255 :: int)" for f :: "nat \<Rightarrow> int"
  proof (induction n)
    case (Suc n)
    have "f n * 256 ^ n \<le> 255 * 256 ^ n" by (rule mult_right_mono) (use that [of n] in simp_all)
    moreover have "0 \<le> f n * 256 ^ n" using that [of n] by simp
    ultimately have "(\<Sum>i<n. f i * 256 ^ i) + f n * 256 ^ n < 256 ^ n + 255 * 256 ^ n" using Suc by linarith
    with Suc \<open>0 \<le> f n * 256 ^ n\<close> show ?case by simp
  qed simp
  show ?thesis
  proof (cases big)
    case True
    have "load_at big n a m = (\<Sum>i<n. uint (m (a + int (n - Suc (n - Suc i)))) * 256 ^ (n - Suc i))"
      unfolding load_at_def using True by (intro sum.cong) (auto simp: Suc_diff_Suc)
    also have "\<dots> = (\<Sum>i<n. uint (m (a + int (n - Suc i))) * 256 ^ i)"
      by (rule sum.nat_diff_reindex)
    finally show ?thesis using low [of "\<lambda>i. uint (m (a + int (n - Suc i)))"] b by simp
  next
    case False
    then show ?thesis using low [of "\<lambda>i. uint (m (a + int i))"] b by (simp add: load_at_def)
  qed
qed

lemma load_zeros: "b \<le> a \<Longrightarrow> a + int n \<le> b + int w \<Longrightarrow> load_at big n a (store_at big w b 0 m) = 0"
  by (auto simp: load_at_def store_at_def intro!: sum.neutral)

section \<open>The machine\<close>

datatype reg = G nat | F nat | V nat | SP | PC | LR | Cr | Fcr | Fcw

text \<open>
  \<^verbatim>\<open>St\<close> and \<^verbatim>\<open>Ld\<close> have a width in bytes, a register, a base and an offset; \<^verbatim>\<open>StU\<close> stores a register below where it
  points and moves it there; \<^verbatim>\<open>StX\<close> and \<^verbatim>\<open>LdX\<close> add two registers and round down to 16 bytes (altivec's);
  \<^verbatim>\<open>PutCrf\<close> sets the fields 2 to 4 of the condition register. The last three are SPARC's register windows.
\<close>

datatype instr =
    AddI reg reg int
  | Mov reg reg
  | Li reg int
  | St nat reg reg int
  | Ld nat reg reg int
  | Push nat reg
  | Pop nat reg
  | StU nat reg int
  | StX reg reg reg
  | LdX reg reg reg
  | PutCrf reg
  | Jump reg int
  | Save int
  | Flushw
  | Restore

text \<open>
  \<^verbatim>\<open>window\<close> is the caller's locals and ins where it is not in memory yet (those of its own callers are spilled to frames
  further up, which nothing here reads).
\<close>

record machine =
  regs :: "reg \<Rightarrow> int"
  mem8 :: bytes
  window :: "(nat \<Rightarrow> int) option"

definition CR_KEPT :: int where "CR_KEPT = 0xFFF000"

definition set_reg :: "reg \<Rightarrow> int \<Rightarrow> machine \<Rightarrow> machine" where
  "set_reg r v s = s\<lparr>regs := (regs s)(r := v)\<rparr>"

definition put_mem :: "bool \<Rightarrow> nat \<Rightarrow> int \<Rightarrow> int \<Rightarrow> machine \<Rightarrow> machine" where
  "put_mem big w a v s = s\<lparr>mem8 := store_at big w a v (mem8 s)\<rparr>"

definition BIAS :: int where "BIAS = 2047"

text \<open>A window is r16 to r31: in memory at its stack pointer, biased.\<close>

definition spill :: "bool \<Rightarrow> (nat \<Rightarrow> int) \<Rightarrow> int \<Rightarrow> machine \<Rightarrow> machine" where
  "spill big w sp s = fold (\<lambda>n. put_mem big 8 (sp + BIAS + 8 * (int n - 16)) (w n)) [16..<32] s"

fun exec1 :: "bool \<Rightarrow> instr \<Rightarrow> machine \<Rightarrow> machine" where
  "exec1 big (AddI d r k) s = set_reg d (regs s r + k) s"
| "exec1 big (Mov d r) s = set_reg d (regs s r) s"
| "exec1 big (Li d k) s = set_reg d k s"
| "exec1 big (St w r b k) s = put_mem big w (regs s b + k) (regs s r) s"
| "exec1 big (Ld w d b k) s = set_reg d (load_at big w (regs s b + k) (mem8 s)) s"
| "exec1 big (Push w r) s = put_mem big w (regs s SP - int w) (regs s r) (set_reg SP (regs s SP - int w) s)"
| "exec1 big (Pop w d) s = set_reg d (load_at big w (regs s SP) (mem8 s)) (set_reg SP (regs s SP + int w) s)"
| "exec1 big (StU w r k) s = set_reg r (regs s r + k) (put_mem big w (regs s r + k) (regs s r) s)"
| "exec1 big (StX r b i) s = put_mem big 16 ((regs s b + regs s i) div 16 * 16) (regs s r) s"
| "exec1 big (LdX d b i) s = set_reg d (load_at big 16 ((regs s b + regs s i) div 16 * 16) (mem8 s)) s"
| "exec1 big (PutCrf r) s = set_reg Cr ((regs s Cr AND NOT CR_KEPT) OR (regs s r AND CR_KEPT)) s"
| "exec1 big (Jump r k) s = set_reg PC (regs s r + k) s"
| "exec1 big (Save k) s =
     (let ins = (\<lambda>r. case r of G n \<Rightarrow> if n = 30 then regs s SP else if 24 \<le> n \<and> n < 32 then regs s (G (n - 16)) else regs s r
                   | _ \<Rightarrow> regs s r)
      in s\<lparr>window := Some (\<lambda>n. regs s (G n)), regs := ins(SP := regs s SP + k)\<rparr>)"
| "exec1 big Flushw s = (case window s of None \<Rightarrow> s | Some w \<Rightarrow> (spill big w (regs s (G 30)) s)\<lparr>window := None\<rparr>)"
| "exec1 big Restore s =
     (let outs = (\<lambda>r. case r of SP \<Rightarrow> regs s (G 30) | G n \<Rightarrow> if 8 \<le> n \<and> n < 16 then regs s (G (n + 16)) else regs s r
                    | _ \<Rightarrow> regs s r);
          w = (case window s of Some w \<Rightarrow> w
               | None \<Rightarrow> (\<lambda>n. load_at big 8 (regs s (G 30) + BIAS + 8 * (int n - 16)) (mem8 s)))
      in s\<lparr>window := None, regs := (\<lambda>r. case r of G n \<Rightarrow> if 16 \<le> n \<and> n < 32 then w n else outs r | _ \<Rightarrow> outs r)\<rparr>)"

definition exec :: "bool \<Rightarrow> instr list \<Rightarrow> machine \<Rightarrow> machine" where
  "exec big is s = fold (exec1 big) is s"

lemma exec_append [simp]: "exec big (is @ js) s = exec big js (exec big is s)"
  by (simp add: exec_def)

lemma exec_Nil [simp]: "exec big [] s = s" and exec_Cons [simp]: "exec big (i # is) s = exec big is (exec1 big i s)"
  by (simp_all add: exec_def)

text \<open>Several registers at once, the first lowest in memory.\<close>

definition stores :: "nat \<Rightarrow> int \<Rightarrow> reg list \<Rightarrow> instr list" where
  "stores w k rs = map (\<lambda>(i, r). St w r SP (k + int i * int w)) (List.enumerate 0 rs)"

definition loads :: "nat \<Rightarrow> int \<Rightarrow> reg list \<Rightarrow> instr list" where
  "loads w k rs = map (\<lambda>(i, r). Ld w r SP (k + int i * int w)) (List.enumerate 0 rs)"

definition push_all :: "nat \<Rightarrow> reg list \<Rightarrow> instr list" where
  "push_all w rs = AddI SP SP (- int (w * length rs)) # stores w 0 rs"

definition pop_all :: "nat \<Rightarrow> reg list \<Rightarrow> instr list" where
  "pop_all w rs = loads w 0 rs @ [AddI SP SP (int (w * length rs))]"

section \<open>The switch of each convention\<close>

text \<open>The flags are the compiler's: pointers of 4 bytes (x32), sse, altivec, an fpu.\<close>

datatype abi =
    SysvX64 bool
  | Aapcs64
  | SysvI386 bool
  | Ppc64V2 bool
  | Ppc64V1 bool
  | PpcSysv bool bool  \<comment> \<open>fpu, altivec\<close>
  | RiscvLp64d
  | Aapcs32 bool
  | MipsO32 bool
  | MipsN64 bool
  | LoongarchLp64d
  | SparcV9
  | M68kSysv bool
  | S390x

text \<open>
  A switch has four parts: what it saves, the stack pointer stored through its first argument (from a copy where
  the convention needs one), the next loaded through its second, and what it restores.
\<close>

record switch =
  sw_save :: "instr list"
  sw_ptr :: nat
  sw_slots :: "reg \<times> reg"
  sw_copy :: "reg option"
  sw_load :: "instr list"

definition x64_switch :: "bool \<Rightarrow> switch" where
  "x64_switch ilp32 =
     \<lparr>sw_save = [Push 8 (G 5), Push 8 (G 3), Push 8 (G 12), Push 8 (G 13), Push 8 (G 14), Push 8 (G 15),
        AddI SP SP (- 8), St 4 Fcr SP 0, St 2 Fcw SP 4],
      sw_ptr = (if ilp32 then 4 else 8), sw_slots = (G 7, G 6), sw_copy = None,
      sw_load = [Ld 4 Fcr SP 0, Ld 2 Fcw SP 4, AddI SP SP 8,
        Pop 8 (G 15), Pop 8 (G 14), Pop 8 (G 13), Pop 8 (G 12), Pop 8 (G 3), Pop 8 (G 5), Pop 8 PC]\<rparr>"

definition i386_switch :: "bool \<Rightarrow> switch" where
  "i386_switch sse =
     \<lparr>sw_save = [Ld 4 (G 0) SP 4, Ld 4 (G 2) SP 8, Push 4 (G 5), Push 4 (G 3), Push 4 (G 6), Push 4 (G 7),
        AddI SP SP (- 8)] @ (if sse then [St 4 Fcr SP 0] else []) @ [St 2 Fcw SP 4],
      sw_ptr = 4, sw_slots = (G 0, G 2), sw_copy = None,
      sw_load = (if sse then [Ld 4 Fcr SP 0] else []) @ [Ld 2 Fcw SP 4, AddI SP SP 8,
        Pop 4 (G 7), Pop 4 (G 6), Pop 4 (G 3), Pop 4 (G 5), Pop 4 PC]\<rparr>"

definition aapcs64_switch :: switch where
  "aapcs64_switch =
     \<lparr>sw_save = AddI SP SP (- 176) # stores 8 0 (map G [19..<31]) @ stores 8 96 (map F [8..<16]) @
        [Mov (G 2) Fcr, St 8 (G 2) SP 160],
      sw_ptr = 8, sw_slots = (G 0, G 1), sw_copy = Some (G 2),
      sw_load = [Ld 8 (G 2) SP 160, Mov Fcr (G 2)] @ rev (loads 8 96 (map F [8..<16])) @ rev (loads 8 0 (map G [19..<31])) @
        [AddI SP SP 176, Jump (G 30) 0]\<rparr>"

text \<open>ra is r1, a0 r10, t0 r5, s0 and s1 r8 and r9, s2 to s11 r18 to r27; fs0 to fs11 are numbered the same.\<close>

definition riscv_switch :: switch where
  "riscv_switch =
     (let gs = map G (1 # [8..<10] @ [18..<28]); fs = map F ([8..<10] @ [18..<28])
      in \<lparr>sw_save = AddI SP SP (- 208) # stores 8 0 gs @ stores 8 104 fs @ [Mov (G 5) Fcr, St 8 (G 5) SP 200],
          sw_ptr = 8, sw_slots = (G 10, G 11), sw_copy = None,
          sw_load = [Ld 8 (G 5) SP 200, Mov Fcr (G 5)] @ rev (loads 8 104 fs) @ rev (loads 8 0 gs) @
            [AddI SP SP 208, Jump (G 1) 0]\<rparr>)"

text \<open>ra is r1, a0 r4, t0 r12, fp r22, s0 to s8 r23 to r31; fs0 to fs7 are f24 to f31.\<close>

definition loongarch_switch :: switch where
  "loongarch_switch =
     (let gs = map G (1 # [22..<32]); fs = map F [24..<32]
      in \<lparr>sw_save = AddI SP SP (- 160) # stores 8 0 gs @ stores 8 88 fs @ [Mov (G 12) Fcr, St 8 (G 12) SP 152],
          sw_ptr = 8, sw_slots = (G 4, G 5), sw_copy = None,
          sw_load = [Ld 8 (G 12) SP 152, Mov Fcr (G 12)] @ rev (loads 8 88 fs) @ rev (loads 8 0 gs) @
            [AddI SP SP 160, Jump (G 1) 0]\<rparr>)"

definition s390x_switch :: switch where
  "s390x_switch =
     \<lparr>sw_save = AddI SP SP (- 144) # stores 8 0 (map G [6..<15]) @ stores 8 72 (map F [8..<16]) @ [St 4 Fcr SP 136],
      sw_ptr = 8, sw_slots = (G 2, G 3), sw_copy = None,
      sw_load = Ld 4 Fcr SP 136 # rev (loads 8 72 (map F [8..<16])) @ loads 8 0 (map G [6..<15]) @
        [AddI SP SP 144, Jump (G 14) 0]\<rparr>"

definition mips_o32_switch :: "bool \<Rightarrow> switch" where
  "mips_o32_switch fpu =
     (let fs = map F [20, 22, 24, 26, 28, 30]; gs = map G ([16..<24] @ [30, 28, 31])
      in \<lparr>sw_save = AddI SP SP (- 96) # (if fpu then stores 8 0 fs else []) @ stores 4 48 gs @
            (if fpu then [Mov (G 8) Fcr, St 4 (G 8) SP 92] else []),
          sw_ptr = 4, sw_slots = (G 4, G 5), sw_copy = None,
          sw_load = (if fpu then [Ld 4 (G 8) SP 92, Mov Fcr (G 8)] @ rev (loads 8 0 fs) else []) @
            rev (loads 4 48 (map G [16..<24])) @ loads 4 80 (map G [30, 28, 31]) @
            [AddI SP SP 96, Mov (G 25) (G 31), Jump (G 25) 0]\<rparr>)"

definition mips_n64_switch :: "bool \<Rightarrow> switch" where
  "mips_n64_switch fpu =
     (let fs = map F [24..<32]; gs = map G ([16..<24] @ [30, 28, 31])
      in \<lparr>sw_save = AddI SP SP (- 160) # (if fpu then stores 8 0 fs else []) @ stores 8 64 gs @
            (if fpu then [Mov (G 8) Fcr, St 8 (G 8) SP 152] else []),
          sw_ptr = 8, sw_slots = (G 4, G 5), sw_copy = None,
          sw_load = (if fpu then [Ld 8 (G 8) SP 152, Mov Fcr (G 8)] @ rev (loads 8 0 fs) else []) @
            rev (loads 8 64 (map G [16..<24])) @ loads 8 128 (map G [30, 28, 31]) @
            [AddI SP SP 160, Mov (G 25) (G 31), Jump (G 25) 0]\<rparr>)"

text \<open>A vector at an offset takes the offset in a register of its own.\<close>

definition vec_stores :: "int \<Rightarrow> nat list \<Rightarrow> instr list" where
  "vec_stores k vs = concat (map (\<lambda>(i, v). [Li (G 11) (k + int i * 16), StX (V v) SP (G 11)]) (List.enumerate 0 vs))"

definition vec_loads :: "int \<Rightarrow> nat list \<Rightarrow> instr list" where
  "vec_loads k vs = concat (rev (map (\<lambda>(i, v). [Li (G 11) (k + int i * 16), LdX (V v) SP (G 11)]) (List.enumerate 0 vs)))"

definition ppc64_switch :: "bool \<Rightarrow> switch" where
  "ppc64_switch altivec =
     (let gs = map G [14..<32]; fs = map F [14..<32]; vs = [20..<32]
      in \<lparr>sw_save = [Mov (G 0) LR, Mov (G 12) Cr, StU 8 SP (- 544), St 8 (G 0) SP 512, St 8 (G 2) SP 520, St 4 (G 12) SP 528] @
            stores 8 32 gs @ stores 8 176 fs @ (if altivec then vec_stores 320 vs else []) @ [Mov (F 0) Fcr, St 8 (F 0) SP 536],
          sw_ptr = 8, sw_slots = (G 3, G 4), sw_copy = None,
          sw_load = [Ld 8 (F 0) SP 536, Mov Fcr (F 0)] @ (if altivec then vec_loads 320 vs else []) @
            rev (loads 8 176 fs) @ rev (loads 8 32 gs) @
            [Ld 4 (G 12) SP 528, PutCrf (G 12), Ld 8 (G 2) SP 520, Ld 8 (G 12) SP 512, Mov LR (G 12), AddI SP SP 544, Jump LR 0]\<rparr>)"

definition ppc_sysv_switch :: "bool \<Rightarrow> bool \<Rightarrow> switch" where
  "ppc_sysv_switch fpu altivec =
     (let gs = map G [14..<32]; fs = map F [14..<32]; vs = [20..<32]
      in \<lparr>sw_save = [Mov (G 0) LR, Mov (G 12) Cr, StU 4 SP (- 432), St 4 (G 0) SP 416, St 4 (G 12) SP 420] @
            stores 4 8 gs @ (if fpu then stores 8 80 fs else []) @ (if altivec then vec_stores 224 vs else []) @
            (if fpu then [Mov (F 0) Fcr, St 8 (F 0) SP 424] else []),
          sw_ptr = 4, sw_slots = (G 3, G 4), sw_copy = None,
          sw_load = (if fpu then [Ld 8 (F 0) SP 424, Mov Fcr (F 0)] else []) @ (if altivec then vec_loads 224 vs else []) @
            (if fpu then rev (loads 8 80 fs) else []) @ loads 4 8 gs @
            [Ld 4 (G 12) SP 420, PutCrf (G 12), Ld 4 (G 0) SP 416, Mov LR (G 0), AddI SP SP 432, Jump LR 0]\<rparr>)"

definition aapcs32_switch :: "bool \<Rightarrow> switch" where
  "aapcs32_switch vfp =
     (let gs = map G ([3..<12] @ [14])
      in \<lparr>sw_save = push_all 4 gs @ (if vfp then push_all 8 (map F [8..<16]) @ [Mov (G 2) Fcr] @ push_all 4 [G 2, G 3] else []),
          sw_ptr = 4, sw_slots = (G 0, G 1), sw_copy = None,
          sw_load = (if vfp then pop_all 4 [G 2, G 3] @ [Mov Fcr (G 2)] @ pop_all 8 (map F [8..<16]) else []) @
            pop_all 4 gs @ [Jump (G 14) 0]\<rparr>)"

text \<open>d0 to d7 are r0 to r7, a0 to a6 r8 to r14.\<close>

definition m68k_switch :: "bool \<Rightarrow> switch" where
  "m68k_switch fpu =
     (let gs = map G ([2..<8] @ [10..<15]); fs = map F [2..<8]
      in \<lparr>sw_save = [Ld 4 (G 8) SP 4, Ld 4 (G 9) SP 8] @ push_all 4 gs @ (if fpu then push_all 12 fs @ [Push 4 Fcr] else []),
          sw_ptr = 4, sw_slots = (G 8, G 9), sw_copy = None,
          sw_load = (if fpu then Pop 4 Fcr # pop_all 12 fs else []) @ pop_all 4 gs @ [Pop 4 PC]\<rparr>)"

text \<open>l0 to l7 are r16 to r23, i0 to i7 r24 to r31; \<^verbatim>\<open>ret\<close> is to i7 + 8, with \<^verbatim>\<open>restore\<close> in its delay slot.\<close>

definition sparc_switch :: switch where
  "sparc_switch =
     \<lparr>sw_save = [Save (- 176), Flushw] @ stores 8 BIAS (map G [16..<32]) @ [St 8 Fcr SP (BIAS + 128)],
      sw_ptr = 8, sw_slots = (G 24, G 25), sw_copy = None,
      sw_load = Ld 8 Fcr SP (BIAS + 128) # loads 8 BIAS (map G [16..<32]) @ [Jump (G 31) 8, Restore]\<rparr>"

fun gt_switch_of :: "abi \<Rightarrow> switch" where
  "gt_switch_of (SysvX64 ilp32) = x64_switch ilp32"
| "gt_switch_of Aapcs64 = aapcs64_switch"
| "gt_switch_of (SysvI386 sse) = i386_switch sse"
| "gt_switch_of (Ppc64V2 altivec) = ppc64_switch altivec"
| "gt_switch_of (Ppc64V1 altivec) = ppc64_switch altivec"
| "gt_switch_of (PpcSysv fpu altivec) = ppc_sysv_switch fpu altivec"
| "gt_switch_of RiscvLp64d = riscv_switch"
| "gt_switch_of (Aapcs32 vfp) = aapcs32_switch vfp"
| "gt_switch_of (MipsO32 fpu) = mips_o32_switch fpu"
| "gt_switch_of (MipsN64 fpu) = mips_n64_switch fpu"
| "gt_switch_of LoongarchLp64d = loongarch_switch"
| "gt_switch_of SparcV9 = sparc_switch"
| "gt_switch_of (M68kSysv fpu) = m68k_switch fpu"
| "gt_switch_of S390x = s390x_switch"

definition switch_put :: "switch \<Rightarrow> instr list" where
  "switch_put w = (case sw_copy w of None \<Rightarrow> [St (sw_ptr w) SP (fst (sw_slots w)) 0]
     | Some t \<Rightarrow> [Mov t SP, St (sw_ptr w) t (fst (sw_slots w)) 0])"

definition switch_get :: "switch \<Rightarrow> instr list" where
  "switch_get w = (case sw_copy w of None \<Rightarrow> [Ld (sw_ptr w) SP (snd (sw_slots w)) 0]
     | Some t \<Rightarrow> [Ld (sw_ptr w) t (snd (sw_slots w)) 0, Mov SP t])"

definition gt_context_switch :: "abi \<Rightarrow> instr list" where
  "gt_context_switch a =
     (let w = gt_switch_of a in sw_save w @ switch_put w @ switch_get w @ sw_load w)"

section \<open>The stack of a new task\<close>

text \<open>
  What \<^verbatim>\<open>_gt_stack_prime\<close> writes: a \<^verbatim>\<open>memset\<close> with zeros, or a number of some bytes. \<^verbatim>\<open>descriptor\<close> is the first
  two words of the entry's descriptor (ELFv1). On arm the entry is as the switch's \<^verbatim>\<open>bx\<close> takes it.
\<close>

datatype stack_write = Clear int nat | Put nat int int

fun write_mem :: "bool \<Rightarrow> stack_write \<Rightarrow> bytes \<Rightarrow> bytes" where
  "write_mem big (Clear a n) m = store_at big n a 0 m"
| "write_mem big (Put w a v) m = store_at big w a v m"

text \<open>The stack pointer primed, and the writes.\<close>

definition gt_stack_prime :: "abi \<Rightarrow> int \<Rightarrow> int \<Rightarrow> int \<Rightarrow> int \<times> int \<Rightarrow> int \<times> stack_write list" where
  "gt_stack_prime a usable size' entry descriptor =
     (let top = (usable + size') AND NOT 15 in
      case a of
        SysvX64 _ \<Rightarrow>
          let ret_slot = top - 16; base = ret_slot - 56
          in (base, [Clear base 56, Put 4 base 0x1F80, Put 2 (base + 4) 0x037F, Put 8 ret_slot entry])
      | Aapcs64 \<Rightarrow> let base = top - 176 in (base, [Clear base 176, Put 8 (base + 88) entry])
      | SysvI386 _ \<Rightarrow>
          let ret_slot = top - 8; base = ret_slot - 24
          in (base, [Clear base (24 + 8), Put 4 base 0x1F80, Put 2 (base + 4) 0x037F, Put 4 ret_slot entry])
      | Ppc64V2 _ \<Rightarrow> let base = top - 32 - 544 in (base, [Clear base (544 + 32), Put 8 (base + 512) entry])
      | Ppc64V1 _ \<Rightarrow>
          let base = top - 112 - 544
          in (base, [Clear base (544 + 112), Put 8 (base + 512) (fst descriptor), Put 8 (base + 520) (snd descriptor)])
      | PpcSysv _ _ \<Rightarrow> let base = top - 16 - 432 in (base, [Clear base (432 + 16), Put 4 (base + 416) entry])
      | Aapcs32 vfp \<Rightarrow>
          let block = (if vfp then 112 else 40); base = top - int block
          in (base, [Clear base block, Put 4 (base + int block - 4) entry])
      | MipsO32 _ \<Rightarrow> let base = top - 16 - 96 in (base, [Clear base (96 + 16), Put 4 (base + 88) entry])
      | MipsN64 _ \<Rightarrow> let base = top - 160 in (base, [Clear base 160, Put 8 (base + 144) entry])
      | SparcV9 \<Rightarrow>
          let outer = top - 176; base = outer - 176
          in (base - BIAS, [Clear base (176 + 176), Put 8 (base + 112) (outer - BIAS), Put 8 (base + 120) (entry - 8)])
      | M68kSysv fpu \<Rightarrow>
          let block = (if fpu then 4 + 72 + 44 else 44); ret_slot = top - 8; base = ret_slot - int block
          in (base, [Clear base (block + 8), Put 4 ret_slot entry])
      | LoongarchLp64d \<Rightarrow> let base = top - 160 in (base, [Clear base 160, Put 8 base entry])
      | RiscvLp64d \<Rightarrow> let base = top - 208 in (base, [Clear base 208, Put 8 base entry])
      | S390x \<Rightarrow> let base = top - 160 - 144 in (base, [Clear base (144 + 160), Put 8 (base + 64) entry]))"

section \<open>Fibers\<close>

text \<open>
  On Windows a task's stack is a fiber: one of a finished task's that are kept, the last freed first, or a new one
  (what CreateFiberEx answers is an argument). The fibers deleted are recorded.
\<close>

record fibers =
  fb_cache :: "nat list"
  fb_size :: u64
  fb_deleted :: "nat list"

definition FIBER_CACHE :: nat where "FIBER_CACHE = 32"

definition gt_task_stack_alloc :: "(u64 \<Rightarrow> nat option) \<Rightarrow> u64 \<Rightarrow> fibers \<Rightarrow> nat option \<times> fibers" where
  "gt_task_stack_alloc create n s =
     (if fb_cache s \<noteq> [] \<and> fb_size s = n then (Some (hd (fb_cache s)), s\<lparr>fb_cache := tl (fb_cache s)\<rparr>)
      else (create n, s))"

definition gt_task_stack_unmap :: "nat \<Rightarrow> fibers \<Rightarrow> fibers" where
  "gt_task_stack_unmap fiber s = s\<lparr>fb_deleted := fb_deleted s @ [fiber]\<rparr>"

definition gt_task_stack_free :: "nat option \<Rightarrow> u64 \<Rightarrow> fibers \<Rightarrow> fibers" where
  "gt_task_stack_free fiber n s =
     (case fiber of
        None \<Rightarrow> s
      | Some f \<Rightarrow>
          if length (fb_cache s) < FIBER_CACHE \<and> (fb_cache s = [] \<or> fb_size s = n)
          then s\<lparr>fb_size := n, fb_cache := f # fb_cache s\<rparr>
          else gt_task_stack_unmap f s)"

definition gt_task_stacks_flush :: "fibers \<Rightarrow> fibers" where
  "gt_task_stacks_flush s = s\<lparr>fb_deleted := fb_deleted s @ fb_cache s, fb_cache := []\<rparr>"

text \<open>A fiber freed is kept or deleted, one of the two; the next task of its size takes the one freed last.\<close>

lemma fiber_freed:
  "length (fb_cache (gt_task_stack_free (Some f) n s)) + length (fb_deleted (gt_task_stack_free (Some f) n s)) =
     Suc (length (fb_cache s) + length (fb_deleted s))"
  by (auto simp: gt_task_stack_free_def gt_task_stack_unmap_def)

lemma fiber_reused:
  assumes "length (fb_cache s) < FIBER_CACHE" and "fb_cache s = [] \<or> fb_size s = n"
  shows "fst (gt_task_stack_alloc create n (gt_task_stack_free (Some f) n s)) = Some f"
  using assms by (auto simp: gt_task_stack_alloc_def gt_task_stack_free_def)

text \<open>Nothing is saved on a switch, and a fiber is already where its first switch lands.\<close>

definition gt_context_switch_win :: "'a \<Rightarrow> nat \<Rightarrow> nat" where
  "gt_context_switch_win save load = load"

definition gt_stack_prime_win :: "nat \<Rightarrow> u64 \<Rightarrow> 'a \<Rightarrow> nat" where
  "gt_stack_prime_win fiber n entry = fiber"

end
