(* ===== verification/ContextSym.thy ===== *)
theory ContextSym
  imports Context
begin

text \<open>
  A symbolic run of a routine of the machine of Context, which says what a register holds in terms of the registers and
  the stack it started from, and agrees with the machine instruction by instruction.
\<close>

section \<open>Symbolic values\<close>

text \<open>
  A register's value at the start, with an offset; a word of the stack at the start, by its offset from the stack
  pointer; a constant; one of the arguments; the kept fields of one (in the condition register); or anything.
\<close>

datatype sym = Init reg int | Mem int nat | Const int | Arg nat int | Fields sym | Top

record start =
  st_regs :: "reg \<Rightarrow> int"
  st_mem :: bytes
  st_args :: "nat \<Rightarrow> int"

fun means :: "bool \<Rightarrow> start \<Rightarrow> sym \<Rightarrow> int \<Rightarrow> bool" where
  "means big z (Init r k) x \<longleftrightarrow> x = st_regs z r + k"
| "means big z (Mem k w) x \<longleftrightarrow> x = load_at big w (st_regs z SP + k) (st_mem z)"
| "means big z (Const c) x \<longleftrightarrow> x = c"
| "means big z (Arg n k) x \<longleftrightarrow> x = st_args z n + k"
| "means big z (Fields v) x \<longleftrightarrow> (\<exists>y. means big z v y \<and> x AND CR_KEPT = y AND CR_KEPT)"
| "means big z Top x \<longleftrightarrow> True"

fun plus_sym :: "sym \<Rightarrow> int \<Rightarrow> sym" where
  "plus_sym (Init r k) j = Init r (k + j)"
| "plus_sym (Const c) j = Const (c + j)"
| "plus_sym (Arg n k) j = Arg n (k + j)"
| "plus_sym _ j = Top"

lemma plus_means: "means big z v x \<Longrightarrow> means big z (plus_sym v j) (x + j)"
  by (cases v) auto

text \<open>What fits a store of some bytes: \<^verbatim>\<open>width\<close> gives the bytes of each register, \<^verbatim>\<open>pw\<close> those of an argument. The
  stack ends short of the end of the address space.\<close>

fun fits :: "(reg \<Rightarrow> nat) \<Rightarrow> nat \<Rightarrow> nat \<Rightarrow> sym \<Rightarrow> bool" where
  "fits width pw w (Init r k) \<longleftrightarrow> width r \<le> w \<and> (k = 0 \<or> r = SP \<and> 0 \<le> k \<and> k \<le> 1024)"
| "fits width pw w (Mem k w') \<longleftrightarrow> w' \<le> w"
| "fits width pw w (Const c) \<longleftrightarrow> 0 \<le> c \<and> c < 256 ^ w"
| "fits width pw w (Arg n k) \<longleftrightarrow> - 8 \<le> k \<and> k \<le> 0 \<and> pw \<le> w"
| "fits width pw w _ \<longleftrightarrow> False"

definition start_ok :: "(reg \<Rightarrow> nat) \<Rightarrow> nat \<Rightarrow> start \<Rightarrow> bool" where
  "start_ok width pw z \<longleftrightarrow> (\<forall>r. 0 \<le> st_regs z r \<and> st_regs z r < 256 ^ width r) \<and>
     st_regs z SP + 1024 < 256 ^ width SP \<and>
     (\<forall>n. 8 \<le> st_args z n \<and> st_args z n < 256 ^ pw)"

lemma pow_mono: "x < 256 ^ n \<Longrightarrow> n \<le> m \<Longrightarrow> x < (256 :: int) ^ m"
  by (erule less_le_trans) (rule power_increasing, auto)

lemma fits_bounds:
  assumes "start_ok width pw z" "fits width pw w v" "means big z v x"
  shows "0 \<le> x \<and> x < 256 ^ w"
proof (cases v)
  case (Init r k)
  then show ?thesis using assms pow_mono [of x "width r" w] by (auto simp: start_ok_def)
next
  case (Mem k w')
  then show ?thesis using assms load_bounds [of big w' "st_regs z SP + k" "st_mem z"] pow_mono [of x w' w] by auto
next
  case (Arg n k)
  have "8 \<le> st_args z n" "st_args z n < 256 ^ pw" using assms(1) by (auto simp: start_ok_def)
  then show ?thesis using assms Arg pow_mono [of "st_args z n" pw w] by auto
qed (use assms in auto)

section \<open>Symbolic memory\<close>

text \<open>
  What the stores left on the stack, the last first. A load finds the last store it overlaps: it has its value if that
  is of the same bytes, or is zero if it is within zeros.
\<close>

type_synonym sym_mem = "(int \<times> nat \<times> sym) list"

fun find_mem :: "int \<Rightarrow> nat \<Rightarrow> sym_mem \<Rightarrow> sym" where
  "find_mem k w [] = Top"
| "find_mem k w ((j, n, v) # es) =
     (if k + int w \<le> j \<or> j + int n \<le> k then find_mem k w es
      else if k = j \<and> w = n then v
      else if j \<le> k \<and> k + int w \<le> j + int n \<and> v = Const 0 then Const 0
      else Top)"

definition holds_mem :: "bool \<Rightarrow> start \<Rightarrow> sym_mem \<Rightarrow> bytes \<Rightarrow> bool" where
  "holds_mem big z es m \<longleftrightarrow> (\<forall>k w. means big z (find_mem k w es) (load_at big w (st_regs z SP + k) m))"

lemma holds_store:
  assumes "start_ok width pw z" "holds_mem big z es m" "fits width pw n v" "means big z v x"
  shows "holds_mem big z ((j, n, v) # es) (store_at big n (st_regs z SP + j) x m)"
  unfolding holds_mem_def
proof (intro allI)
  fix k w
  let ?m = "store_at big n (st_regs z SP + j) x m"
  have b: "0 \<le> x" "x < 256 ^ n" using fits_bounds [OF assms(1,3,4)] by auto
  show "means big z (find_mem k w ((j, n, v) # es)) (load_at big w (st_regs z SP + k) ?m)"
  proof (cases "k + int w \<le> j \<or> j + int n \<le> k")
    case True
    then have "load_at big w (st_regs z SP + k) ?m = load_at big w (st_regs z SP + k) m" by (intro load_apart) auto
    then show ?thesis using True assms(2) by (auto simp: holds_mem_def)
  next
    case False
    then show ?thesis using assms(4) load_store [OF b] load_zeros [of "st_regs z SP + j" "st_regs z SP + k" w n big m]
      by auto
  qed
qed

text \<open>Top in place of what does not fit.\<close>

definition store_sym :: "(reg \<Rightarrow> nat) \<Rightarrow> nat \<Rightarrow> int \<Rightarrow> nat \<Rightarrow> sym \<Rightarrow> sym_mem \<Rightarrow> sym_mem" where
  "store_sym width pw k n v es = (k, n, if fits width pw n v then v else Top) # es"

lemma holds_store_sym:
  assumes "start_ok width pw z" "holds_mem big z es m" "means big z v x"
  shows "holds_mem big z (store_sym width pw j n v es) (store_at big n (st_regs z SP + j) x m)"
proof (cases "fits width pw n v")
  case True
  then show ?thesis using holds_store [OF assms(1,2) True assms(3)] by (simp add: store_sym_def)
next
  case False
  have "means big z (find_mem k w ((j, n, Top) # es)) (load_at big w (st_regs z SP + k) (store_at big n (st_regs z SP + j) x m))"
    for k w
    using assms(2) load_apart [of "st_regs z SP + k" w "st_regs z SP + j" n big x m] by (auto simp: holds_mem_def)
  then show ?thesis using False by (simp add: store_sym_def holds_mem_def)
qed

section \<open>Symbolic runs\<close>

record sym_state =
  sy_regs :: "reg \<Rightarrow> sym"
  sy_mem :: sym_mem
  sy_window :: "(nat \<Rightarrow> sym) option"

definition agrees :: "bool \<Rightarrow> start \<Rightarrow> machine \<Rightarrow> sym_state \<Rightarrow> bool" where
  "agrees big z s S \<longleftrightarrow> (\<forall>r. means big z (sy_regs S r) (regs s r)) \<and> holds_mem big z (sy_mem S) (mem8 s) \<and>
     (case sy_window S of None \<Rightarrow> window s = None
      | Some W \<Rightarrow> (\<exists>w. window s = Some w \<and> (\<forall>n. means big z (W n) (w n))))"

text \<open>A store or a load at a register's value is known where that is the first stack pointer, with an offset.\<close>

definition sym_put :: "(reg \<Rightarrow> nat) \<Rightarrow> nat \<Rightarrow> nat \<Rightarrow> sym \<Rightarrow> sym \<Rightarrow> sym_state \<Rightarrow> sym_state" where
  "sym_put width pw w at v S = S\<lparr>sy_mem := (case at of Init SP k \<Rightarrow> store_sym width pw k w v (sy_mem S) | _ \<Rightarrow> [])\<rparr>"

definition sym_get :: "nat \<Rightarrow> sym \<Rightarrow> sym_mem \<Rightarrow> sym" where
  "sym_get w at es = (case at of Init SP k \<Rightarrow> find_mem k w es | _ \<Rightarrow> Top)"

definition sym_set :: "reg \<Rightarrow> sym \<Rightarrow> sym_state \<Rightarrow> sym_state" where
  "sym_set r v S = S\<lparr>sy_regs := (sy_regs S)(r := v)\<rparr>"

text \<open>The sum of two rounded down to 16 bytes, for a stack pointer that is a multiple of 16.\<close>

definition sym_round :: "sym \<Rightarrow> sym \<Rightarrow> sym" where
  "sym_round a b = (case (a, b) of (Init SP k, Const c) \<Rightarrow> if (k + c) mod 16 = 0 then Init SP (k + c) else Top | _ \<Rightarrow> Top)"

definition sym_spill :: "(reg \<Rightarrow> nat) \<Rightarrow> nat \<Rightarrow> (nat \<Rightarrow> sym) \<Rightarrow> sym \<Rightarrow> sym_state \<Rightarrow> sym_state" where
  "sym_spill width pw W sp S = fold (\<lambda>n. sym_put width pw 8 (plus_sym sp (BIAS + 8 * (int n - 16))) (W n)) [16..<32] S"

fun sym1 :: "(reg \<Rightarrow> nat) \<Rightarrow> nat \<Rightarrow> instr \<Rightarrow> sym_state \<Rightarrow> sym_state" where
  "sym1 width pw (AddI d r k) S = sym_set d (plus_sym (sy_regs S r) k) S"
| "sym1 width pw (Mov d r) S = sym_set d (sy_regs S r) S"
| "sym1 width pw (Li d k) S = sym_set d (Const k) S"
| "sym1 width pw (St w r b k) S = sym_put width pw w (plus_sym (sy_regs S b) k) (sy_regs S r) S"
| "sym1 width pw (Ld w d b k) S = sym_set d (sym_get w (plus_sym (sy_regs S b) k) (sy_mem S)) S"
| "sym1 width pw (Push w r) S =
     (let at = plus_sym (sy_regs S SP) (- int w) in sym_put width pw w at (sy_regs S r) (sym_set SP at S))"
| "sym1 width pw (Pop w d) S =
     sym_set d (sym_get w (sy_regs S SP) (sy_mem S)) (sym_set SP (plus_sym (sy_regs S SP) (int w)) S)"
| "sym1 width pw (StU w r k) S =
     (let at = plus_sym (sy_regs S r) k in sym_set r at (sym_put width pw w at (sy_regs S r) S))"
| "sym1 width pw (StX r b i) S = sym_put width pw 16 (sym_round (sy_regs S b) (sy_regs S i)) (sy_regs S r) S"
| "sym1 width pw (LdX d b i) S = sym_set d (sym_get 16 (sym_round (sy_regs S b) (sy_regs S i)) (sy_mem S)) S"
| "sym1 width pw (PutCrf r) S = sym_set Cr (Fields (sy_regs S r)) S"
| "sym1 width pw (Jump r k) S = sym_set PC (plus_sym (sy_regs S r) k) S"
| "sym1 width pw (Save k) S =
     (let R = sy_regs S;
          ins = (\<lambda>r. case r of G n \<Rightarrow> if n = 30 then R SP else if 24 \<le> n \<and> n < 32 then R (G (n - 16)) else R r | _ \<Rightarrow> R r)
      in S\<lparr>sy_window := Some (\<lambda>n. R (G n)), sy_regs := ins(SP := plus_sym (R SP) k)\<rparr>)"
| "sym1 width pw Flushw S =
     (case sy_window S of None \<Rightarrow> S | Some W \<Rightarrow> (sym_spill width pw W (sy_regs S (G 30)) S)\<lparr>sy_window := None\<rparr>)"
| "sym1 width pw Restore S =
     (let R = sy_regs S;
          outs = (\<lambda>r. case r of SP \<Rightarrow> R (G 30) | G n \<Rightarrow> if 8 \<le> n \<and> n < 16 then R (G (n + 16)) else R r | _ \<Rightarrow> R r);
          W = (case sy_window S of Some W \<Rightarrow> W
               | None \<Rightarrow> (\<lambda>n. sym_get 8 (plus_sym (R (G 30)) (BIAS + 8 * (int n - 16))) (sy_mem S)))
      in S\<lparr>sy_window := None, sy_regs := (\<lambda>r. case r of G n \<Rightarrow> if 16 \<le> n \<and> n < 32 then W n else outs r | _ \<Rightarrow> outs r)\<rparr>)"

definition sym_run :: "(reg \<Rightarrow> nat) \<Rightarrow> nat \<Rightarrow> instr list \<Rightarrow> sym_state \<Rightarrow> sym_state" where
  "sym_run width pw is S = fold (sym1 width pw) is S"

lemma agreesD:
  assumes "agrees big z s S"
  shows "means big z (sy_regs S r) (regs s r)" and "holds_mem big z (sy_mem S) (mem8 s)"
  using assms by (auto simp: agrees_def)

lemma set_agrees: "agrees big z s S \<Longrightarrow> means big z v x \<Longrightarrow> agrees big z (set_reg r x s) (sym_set r v S)"
  by (auto simp: agrees_def set_reg_def sym_set_def split: option.splits)

lemma put_agrees:
  assumes "start_ok width pw z" "agrees big z s S" "means big z at a" "means big z v x"
  shows "agrees big z (put_mem big w a x s) (sym_put width pw w at v S)"
proof (cases "\<exists>k. at = Init SP k")
  case True
  then obtain k where k: "at = Init SP k" by blast
  then have a: "a = st_regs z SP + k" using assms(3) by simp
  have "holds_mem big z (store_sym width pw k w v (sy_mem S)) (store_at big w a x (mem8 s))"
    unfolding a by (rule holds_store_sym [OF assms(1) agreesD(2) [OF assms(2)] assms(4)])
  then show ?thesis using assms(2) by (auto simp: agrees_def put_mem_def sym_put_def k split: option.splits)
next
  case False
  then have "sym_put width pw w at v S = S\<lparr>sy_mem := []\<rparr>" by (auto simp: sym_put_def split: sym.split reg.split)
  then show ?thesis using assms(2) by (auto simp: agrees_def put_mem_def holds_mem_def split: option.splits)
qed

lemma get_agrees:
  assumes "agrees big z s S" "means big z at a"
  shows "means big z (sym_get w at (sy_mem S)) (load_at big w a (mem8 s))"
  using agreesD(2) [OF assms(1)] assms(2)
  by (auto simp: sym_get_def holds_mem_def split: sym.split reg.split)

lemma round_means:
  assumes "16 dvd st_regs z SP" "means big z a x" "means big z b y"
  shows "means big z (sym_round a b) ((x + y) div 16 * 16)"
proof -
  have "(st_regs z SP + k + c) div 16 * 16 = st_regs z SP + (k + c)" if "(k + c) mod 16 = 0" for k c
    using assms(1) that by presburger
  then show ?thesis using assms(2,3) by (auto simp: sym_round_def split: sym.split reg.split)
qed

lemma spill_agrees:
  assumes "start_ok width pw z" "agrees big z s S" "means big z v sp" "\<And>n. means big z (W n) (w n)"
  shows "agrees big z (spill big w sp s) (sym_spill width pw W v S)"
proof -
  have "agrees big z (fold (\<lambda>n. put_mem big 8 (sp + BIAS + 8 * (int n - 16)) (w n)) ns s)
      (fold (\<lambda>n. sym_put width pw 8 (plus_sym v (BIAS + 8 * (int n - 16))) (W n)) ns S)" for ns
    using assms(2)
  proof (induction ns arbitrary: s S)
    case (Cons n ns)
    have "means big z (plus_sym v (BIAS + 8 * (int n - 16))) (sp + BIAS + 8 * (int n - 16))"
      using plus_means [OF assms(3), of "BIAS + 8 * (int n - 16)"] by (simp add: add.assoc)
    from Cons.IH [OF put_agrees [OF assms(1) Cons.prems this assms(4) [of n], of 8]] show ?case by simp
  qed simp
  then show ?thesis unfolding spill_def sym_spill_def .
qed

text \<open>An instruction that rounds is only for a stack pointer that is aligned.\<close>

definition rounds :: "instr \<Rightarrow> bool" where
  "rounds i = (case i of StX _ _ _ \<Rightarrow> True | LdX _ _ _ \<Rightarrow> True | _ \<Rightarrow> False)"

lemma sym1_agrees:
  assumes z: "start_ok width pw z" and a: "agrees big z s S" and al: "rounds i \<Longrightarrow> 16 dvd st_regs z SP"
  shows "agrees big z (exec1 big i s) (sym1 width pw i S)"
proof (cases i)
  case (St w r b k)
  then show ?thesis using put_agrees [OF z a plus_means [OF agreesD(1) [OF a]] agreesD(1) [OF a]] by simp
next
  case (Ld w d b k)
  then show ?thesis using set_agrees [OF a get_agrees [OF a plus_means [OF agreesD(1) [OF a]]]] by simp
next
  case (Push w r)
  have m: "means big z (plus_sym (sy_regs S SP) (- int w)) (regs s SP - int w)"
    using plus_means [OF agreesD(1) [OF a, of SP], of "- int w"] by simp
  show ?thesis using put_agrees [OF z set_agrees [OF a m] m agreesD(1) [OF a]] by (simp add: Push Let_def)
next
  case (Pop w d)
  show ?thesis using set_agrees [OF set_agrees [OF a plus_means [OF agreesD(1) [OF a]]] get_agrees [OF a agreesD(1) [OF a]]]
    by (simp add: Pop)
next
  case (StU w r k)
  have m: "means big z (plus_sym (sy_regs S r) k) (regs s r + k)" by (rule plus_means [OF agreesD(1) [OF a]])
  show ?thesis using set_agrees [OF put_agrees [OF z a m agreesD(1) [OF a]] m] by (simp add: StU Let_def)
next
  case (StX r b i')
  then have "16 dvd st_regs z SP" using al by (simp add: rounds_def)
  from put_agrees [OF z a round_means [OF this agreesD(1) [OF a] agreesD(1) [OF a]] agreesD(1) [OF a]]
  show ?thesis by (simp add: StX)
next
  case (LdX d b i')
  then have "16 dvd st_regs z SP" using al by (simp add: rounds_def)
  from set_agrees [OF a get_agrees [OF a round_means [OF this agreesD(1) [OF a] agreesD(1) [OF a]]]]
  show ?thesis by (simp add: LdX)
next
  case (PutCrf r)
  have "((c AND NOT CR_KEPT) OR (y AND CR_KEPT)) AND CR_KEPT = y AND CR_KEPT" for c y
    by (rule bit_eqI) (auto simp: bit_simps)
  then have "means big z (Fields (sy_regs S r)) ((regs s Cr AND NOT CR_KEPT) OR (regs s r AND CR_KEPT))"
    using agreesD(1) [OF a, of r] by auto
  from set_agrees [OF a this] show ?thesis by (simp add: PutCrf)
next
  case (Save k)
  show ?thesis using agreesD [OF a] plus_means [OF agreesD(1) [OF a]]
    by (auto simp: Save agrees_def Let_def split: reg.split)
next
  case Flushw
  show ?thesis
  proof (cases "sy_window S")
    case None
    then show ?thesis using a by (simp add: Flushw agrees_def)
  next
    case (Some W)
    then obtain w where w: "window s = Some w" "\<And>n. means big z (W n) (w n)" using a by (auto simp: agrees_def)
    have "agrees big z (spill big w (regs s (G 30)) s) (sym_spill width pw W (sy_regs S (G 30)) S)"
      by (rule spill_agrees [OF z a agreesD(1) [OF a] w(2)])
    then show ?thesis using Some w(1) by (simp add: Flushw agrees_def)
  qed
next
  case Restore
  have "means big z (sym_get 8 (plus_sym (sy_regs S (G 30)) (BIAS + 8 * (int n - 16))) (sy_mem S))
      (load_at big 8 (regs s (G 30) + BIAS + 8 * (int n - 16)) (mem8 s))" for n
    using get_agrees [OF a plus_means [OF agreesD(1) [OF a, of "G 30"], of "BIAS + 8 * (int n - 16)"], of 8] by (simp add: add.assoc)
  then show ?thesis using a
    by (auto simp: Restore agrees_def Let_def split: reg.split option.splits)
qed (use set_agrees [OF a] agreesD [OF a] plus_means [OF agreesD(1) [OF a]] in auto)

lemma run_agrees:
  assumes "start_ok width pw z" "agrees big z s S" "\<exists>i \<in> set is. rounds i \<Longrightarrow> 16 dvd st_regs z SP"
  shows "agrees big z (exec big is s) (sym_run width pw is S)"
  using assms(2,3)
proof (induction "is" arbitrary: s S)
  case (Cons i "is")
  from Cons.IH [OF sym1_agrees [OF assms(1) Cons.prems(1), of i]] Cons.prems(2) show ?case
    by (simp add: sym_run_def)
qed (simp add: sym_run_def)

end
