(* ===== verification/ContextProps.thy ===== *)
theory ContextProps
  imports ContextSym
begin

text \<open>
  A task switched away from carries on where it was, and a new task starts at its entry, on every calling convention:
  the symbolic runs of its routine, and of the stack the priming leaves, are computed and compared with what the
  convention promises.
\<close>

section \<open>What a convention promises\<close>

text \<open>The bytes of its registers; those a function must keep; where a call's return address and arguments are.\<close>

fun gpr_bytes :: "abi \<Rightarrow> nat" where
  "gpr_bytes (SysvX64 _) = 8" | "gpr_bytes Aapcs64 = 8" | "gpr_bytes (SysvI386 _) = 4" | "gpr_bytes (Ppc64V2 _) = 8"
| "gpr_bytes (Ppc64V1 _) = 8" | "gpr_bytes (PpcSysv _ _) = 4" | "gpr_bytes RiscvLp64d = 8" | "gpr_bytes (Aapcs32 _) = 4"
| "gpr_bytes (MipsO32 _) = 4" | "gpr_bytes (MipsN64 _) = 8" | "gpr_bytes LoongarchLp64d = 8" | "gpr_bytes SparcV9 = 8"
| "gpr_bytes (M68kSysv _) = 4" | "gpr_bytes S390x = 8"

definition width :: "abi \<Rightarrow> reg \<Rightarrow> nat" where
  "width a r = (case r of F _ \<Rightarrow> (case a of M68kSysv _ \<Rightarrow> 12 | _ \<Rightarrow> 8) | V _ \<Rightarrow> 16 | Cr \<Rightarrow> 4 | Fcw \<Rightarrow> 2
     | Fcr \<Rightarrow> (case a of Ppc64V2 _ \<Rightarrow> 8 | Ppc64V1 _ \<Rightarrow> 8 | PpcSysv _ _ \<Rightarrow> 8 | SparcV9 \<Rightarrow> 8 | _ \<Rightarrow> 4)
     | _ \<Rightarrow> gpr_bytes a)"

fun kept_regs :: "abi \<Rightarrow> reg list" where
  "kept_regs (SysvX64 _) = map G [3, 5, 12, 13, 14, 15] @ [Fcr, Fcw]"
| "kept_regs Aapcs64 = map G [19..<30] @ map F [8..<16] @ [Fcr]"
| "kept_regs (SysvI386 sse) = map G [3, 5, 6, 7] @ [Fcw] @ (if sse then [Fcr] else [])"
| "kept_regs (Ppc64V2 v) = map G (2 # [14..<32]) @ map F [14..<32] @ (if v then map V [20..<32] else []) @ [Fcr]"
| "kept_regs (Ppc64V1 v) = map G (2 # [14..<32]) @ map F [14..<32] @ (if v then map V [20..<32] else []) @ [Fcr]"
| "kept_regs (PpcSysv f v) = map G [14..<32] @ (if f then map F [14..<32] @ [Fcr] else []) @ (if v then map V [20..<32] else [])"
| "kept_regs RiscvLp64d = map G ([8..<10] @ [18..<28]) @ map F ([8..<10] @ [18..<28]) @ [Fcr]"
| "kept_regs (Aapcs32 f) = map G [4..<12] @ (if f then map F [8..<16] @ [Fcr] else [])"
| "kept_regs (MipsO32 f) = map G ([16..<24] @ [28, 30]) @ (if f then map F [20, 22, 24, 26, 28, 30] @ [Fcr] else [])"
| "kept_regs (MipsN64 f) = map G ([16..<24] @ [28, 30]) @ (if f then map F [24..<32] @ [Fcr] else [])"
| "kept_regs LoongarchLp64d = map G [22..<32] @ map F [24..<32] @ [Fcr]"
| "kept_regs SparcV9 = map G [16..<32] @ [Fcr]"
| "kept_regs (M68kSysv f) = map G ([2..<8] @ [10..<15]) @ (if f then map F [2..<8] @ [Fcr] else [])"
| "kept_regs S390x = map G [6..<14] @ map F [8..<16] @ [Fcr]"

fun return_at :: "abi \<Rightarrow> sym" where
  "return_at (SysvX64 _) = Mem 0 8" | "return_at Aapcs64 = Init (G 30) 0" | "return_at (SysvI386 _) = Mem 0 4"
| "return_at (Ppc64V2 _) = Init LR 0" | "return_at (Ppc64V1 _) = Init LR 0" | "return_at (PpcSysv _ _) = Init LR 0"
| "return_at RiscvLp64d = Init (G 1) 0" | "return_at (Aapcs32 _) = Init (G 14) 0" | "return_at (MipsO32 _) = Init (G 31) 0"
| "return_at (MipsN64 _) = Init (G 31) 0" | "return_at LoongarchLp64d = Init (G 1) 0" | "return_at SparcV9 = Init (G 15) 8"
| "return_at (M68kSysv _) = Mem 0 4" | "return_at S390x = Init (G 14) 0"

fun call_args :: "abi \<Rightarrow> sym \<times> sym" where
  "call_args (SysvX64 _) = (Init (G 7) 0, Init (G 6) 0)" | "call_args Aapcs64 = (Init (G 0) 0, Init (G 1) 0)"
| "call_args (SysvI386 _) = (Mem 4 4, Mem 8 4)" | "call_args (Ppc64V2 _) = (Init (G 3) 0, Init (G 4) 0)"
| "call_args (Ppc64V1 _) = (Init (G 3) 0, Init (G 4) 0)" | "call_args (PpcSysv _ _) = (Init (G 3) 0, Init (G 4) 0)"
| "call_args RiscvLp64d = (Init (G 10) 0, Init (G 11) 0)" | "call_args (Aapcs32 _) = (Init (G 0) 0, Init (G 1) 0)"
| "call_args (MipsO32 _) = (Init (G 4) 0, Init (G 5) 0)" | "call_args (MipsN64 _) = (Init (G 4) 0, Init (G 5) 0)"
| "call_args LoongarchLp64d = (Init (G 4) 0, Init (G 5) 0)" | "call_args SparcV9 = (Init (G 8) 0, Init (G 9) 0)"
| "call_args (M68kSysv _) = (Mem 4 4, Mem 8 4)" | "call_args S390x = (Init (G 2) 0, Init (G 3) 0)"

text \<open>The words above the stack pointer a call leaves its callee: the return address, then the arguments.\<close>

fun call_words :: "abi \<Rightarrow> sym_mem" where
  "call_words (SysvX64 _) = [(0, 8, Mem 0 8)]"
| "call_words (SysvI386 _) = [(0, 4, Mem 0 4), (4, 4, Mem 4 4), (8, 4, Mem 8 4)]"
| "call_words (M68kSysv _) = [(0, 4, Mem 0 4), (4, 4, Mem 4 4), (8, 4, Mem 8 4)]"
| "call_words _ = []"

fun popped :: "abi \<Rightarrow> int" where
  "popped (SysvX64 _) = 8" | "popped (SysvI386 _) = 4" | "popped (M68kSysv _) = 4" | "popped _ = 0"

text \<open>Whether the condition register has fields to keep.\<close>

fun keeps_cr :: "abi \<Rightarrow> bool" where
  "keeps_cr (Ppc64V2 _) = True" | "keeps_cr (Ppc64V1 _) = True" | "keeps_cr (PpcSysv _ _) = True" | "keeps_cr _ = False"

text \<open>A task carries on: at its return address, its stack pointer and its registers as they were.\<close>

definition resumes :: "abi \<Rightarrow> (reg \<times> sym) list" where
  "resumes a = (PC, return_at a) # (SP, Init SP (popped a)) # map (\<lambda>r. (r, Init r 0)) (kept_regs a) @
     (if keeps_cr a then [(Cr, Fields (Init Cr 0))] else [])"

definition start_sym :: "abi \<Rightarrow> sym_state" where
  "start_sym a = \<lparr>sy_regs = \<lambda>r. Init r 0, sy_mem = call_words a, sy_window = None\<rparr>"

abbreviation sym_abi :: "abi \<Rightarrow> instr list \<Rightarrow> sym_state \<Rightarrow> sym_state" where
  "sym_abi a \<equiv> sym_run (width a) (gpr_bytes a)"

definition saved :: "abi \<Rightarrow> sym_state" where
  "saved a = sym_abi a (sw_save (gt_switch_of a)) (start_sym a)"

text \<open>The stack from the saved pointer up to the end of what the switch, and the call, left there.\<close>

definition frame_low :: "abi \<Rightarrow> int" where
  "frame_low a = (case sy_regs (saved a) SP of Init SP k \<Rightarrow> k | _ \<Rightarrow> 0)"

definition frame_high :: "abi \<Rightarrow> int" where
  "frame_high a = (case a of SysvX64 _ \<Rightarrow> 8 | SysvI386 _ \<Rightarrow> 12 | M68kSysv _ \<Rightarrow> 12 | SparcV9 \<Rightarrow> BIAS + 128 | _ \<Rightarrow> 0)"

text \<open>Another thread of control's registers, with that stack pointer.\<close>

definition come_back :: "sym_mem \<Rightarrow> int \<Rightarrow> sym_state" where
  "come_back es k = \<lparr>sy_regs = (\<lambda>_. Top)(SP := Init SP k), sy_mem = es, sy_window = None\<rparr>"

definition restored :: "abi \<Rightarrow> sym_state" where
  "restored a = sym_abi a (sw_load (gt_switch_of a)) (come_back (sy_mem (saved a)) (frame_low a))"

definition switch_ok :: "abi \<Rightarrow> bool" where
  "switch_ok a \<longleftrightarrow>
     (let S = saved a; k = frame_low a; R = sy_regs (restored a)
      in sy_regs S SP = Init SP k \<and> sy_window S = None \<and>
         sy_regs S (fst (sw_slots (gt_switch_of a))) = fst (call_args a) \<and>
         sy_regs S (snd (sw_slots (gt_switch_of a))) = snd (call_args a) \<and>
         list_all (\<lambda>(j, n, v). k \<le> j \<and> j + int n \<le> frame_high a) (sy_mem S) \<and>
         list_all (\<lambda>(r, v). R r = v) (resumes a))"

lemma ok_SysvX64: "switch_ok (SysvX64 True)" "switch_ok (SysvX64 False)"
  by code_simp+

lemma ok_SysvI386: "switch_ok (SysvI386 True)" "switch_ok (SysvI386 False)"
  by code_simp+

lemma ok_Ppc64V2: "switch_ok (Ppc64V2 True)" "switch_ok (Ppc64V2 False)"
  by code_simp+

lemma ok_Ppc64V1: "switch_ok (Ppc64V1 True)" "switch_ok (Ppc64V1 False)"
  by code_simp+

lemma ok_Aapcs32: "switch_ok (Aapcs32 True)" "switch_ok (Aapcs32 False)"
  by code_simp+

lemma ok_MipsO32: "switch_ok (MipsO32 True)" "switch_ok (MipsO32 False)"
  by code_simp+

lemma ok_MipsN64: "switch_ok (MipsN64 True)" "switch_ok (MipsN64 False)"
  by code_simp+

lemma ok_M68kSysv: "switch_ok (M68kSysv True)" "switch_ok (M68kSysv False)"
  by code_simp+

lemma ok_Aapcs64: "switch_ok Aapcs64"
  by code_simp

lemma ok_RiscvLp64d: "switch_ok RiscvLp64d"
  by code_simp

lemma ok_LoongarchLp64d: "switch_ok LoongarchLp64d"
  by code_simp

lemma ok_SparcV9: "switch_ok SparcV9"
  by code_simp

lemma ok_S390x: "switch_ok S390x"
  by code_simp

lemma ok_PpcSysv: "switch_ok (PpcSysv True True)" "switch_ok (PpcSysv True False)" "switch_ok (PpcSysv False True)"
    "switch_ok (PpcSysv False False)"
  by code_simp+

lemma switch_checked: "switch_ok a"
proof (cases a)
  case (PpcSysv f v)
  then show ?thesis using ok_PpcSysv by (cases f; cases v) simp_all
next
  case (SysvX64 b)
  then show ?thesis using ok_SysvX64 by (cases b) simp_all
next
  case (SysvI386 b)
  then show ?thesis using ok_SysvI386 by (cases b) simp_all
next
  case (Ppc64V2 b)
  then show ?thesis using ok_Ppc64V2 by (cases b) simp_all
next
  case (Ppc64V1 b)
  then show ?thesis using ok_Ppc64V1 by (cases b) simp_all
next
  case (Aapcs32 b)
  then show ?thesis using ok_Aapcs32 by (cases b) simp_all
next
  case (MipsO32 b)
  then show ?thesis using ok_MipsO32 by (cases b) simp_all
next
  case (MipsN64 b)
  then show ?thesis using ok_MipsN64 by (cases b) simp_all
next
  case (M68kSysv b)
  then show ?thesis using ok_M68kSysv by (cases b) simp_all
qed (use ok_Aapcs64 ok_RiscvLp64d ok_LoongarchLp64d ok_SparcV9 ok_S390x in simp_all)

section \<open>A task carries on where it was\<close>

definition start_at :: "machine \<Rightarrow> start" where
  "start_at s = \<lparr>st_regs = regs s, st_mem = mem8 s, st_args = \<lambda>_. 8\<rparr>"

text \<open>
  A call of the switch: the registers hold what fits them, the stack pointer is aligned where the vectors
  want it, and on SPARC only the current window is not in memory.
\<close>

definition at_call :: "abi \<Rightarrow> machine \<Rightarrow> bool" where
  "at_call a s \<longleftrightarrow> (\<forall>r. 0 \<le> regs s r \<and> regs s r < 256 ^ width a r) \<and> regs s SP + 1024 < 256 ^ width a SP \<and>
     ((\<exists>i \<in> set (gt_context_switch a). rounds i) \<longrightarrow> 16 dvd regs s SP) \<and> window s = None"

fun value_of :: "bool \<Rightarrow> machine \<Rightarrow> sym \<Rightarrow> int" where
  "value_of big s (Init r k) = regs s r + k"
| "value_of big s (Mem k w) = load_at big w (regs s SP + k) (mem8 s)"
| "value_of big s _ = 0"

lemma args_value: "means big (start_at s) (fst (call_args a)) x \<longleftrightarrow> x = value_of big s (fst (call_args a))"
  "means big (start_at s) (snd (call_args a)) x \<longleftrightarrow> x = value_of big s (snd (call_args a))"
  by (cases a; simp add: start_at_def)+

lemma gpr_pos: "(8 :: int) < 256 ^ gpr_bytes a"
  by (cases a) simp_all

lemma start_at_ok: "at_call a s \<Longrightarrow> start_ok (width a) (gpr_bytes a) (start_at s)"
  using gpr_pos by (auto simp: at_call_def start_ok_def start_at_def)

lemma start_agrees: "at_call a s \<Longrightarrow> agrees big (start_at s) s (start_sym a)"
  by (cases a) (auto simp: at_call_def agrees_def start_sym_def start_at_def holds_mem_def)

lemma saved_agrees:
  assumes "at_call a s"
  shows "agrees big (start_at s) (exec big (sw_save (gt_switch_of a)) s) (saved a)"
  unfolding saved_def
  by (rule run_agrees [OF start_at_ok [OF assms] start_agrees [OF assms]])
    (use assms in \<open>auto simp: at_call_def gt_context_switch_def Let_def start_at_def\<close>)

lemma found_inside:
  assumes "list_all (\<lambda>(j, n, v). lo \<le> j \<and> j + int n \<le> hi) es" "find_mem k w es \<noteq> Top"
  shows "lo \<le> k \<and> k + int w \<le> hi"
  using assms by (induction es) (auto split: if_splits)

lemma holds_region:
  assumes "holds_mem big z es m" "list_all (\<lambda>(j, n, v). lo \<le> j \<and> j + int n \<le> hi) es"
    and "\<And>x. st_regs z SP + lo \<le> x \<Longrightarrow> x < st_regs z SP + hi \<Longrightarrow> m' x = m x"
  shows "holds_mem big z es m'"
  unfolding holds_mem_def
proof (intro allI)
  fix k w
  show "means big z (find_mem k w es) (load_at big w (st_regs z SP + k) m')"
  proof (cases "find_mem k w es = Top")
    case False
    then have "lo \<le> k" "k + int w \<le> hi" using found_inside [OF assms(2)] by auto
    then have "load_at big w (st_regs z SP + k) m' = load_at big w (st_regs z SP + k) m" by (intro load_cong assms(3)) auto
    then show ?thesis using assms(1) by (simp add: holds_mem_def)
  qed simp
qed

lemma come_back_agrees:
  assumes "holds_mem big z es (mem8 s)" "regs s SP = st_regs z SP + k" "window s = None"
  shows "agrees big z s (come_back es k)"
  using assms by (simp add: agrees_def come_back_def)

text \<open>Storing the stack pointer and loading the next one.\<close>

lemma copy_apart: "sw_copy (gt_switch_of a) \<noteq> Some (fst (sw_slots (gt_switch_of a)))"
  "sw_copy (gt_switch_of a) \<noteq> Some (snd (sw_slots (gt_switch_of a)))" "sw_copy (gt_switch_of a) \<noteq> Some SP"
  "fst (sw_slots (gt_switch_of a)) \<noteq> SP" "snd (sw_slots (gt_switch_of a)) \<noteq> SP"
  by (cases a; simp add: x64_switch_def i386_switch_def aapcs64_switch_def riscv_switch_def loongarch_switch_def s390x_switch_def
      mips_o32_switch_def mips_n64_switch_def ppc64_switch_def ppc_sysv_switch_def aapcs32_switch_def m68k_switch_def sparc_switch_def
      Let_def)+

lemma put_does:
  fixes a :: abi
  defines "w \<equiv> gt_switch_of a"
  shows "mem8 (exec big (switch_put w) s) = store_at big (sw_ptr w) (regs s (fst (sw_slots w))) (regs s SP) (mem8 s)"
    and "window (exec big (switch_put w) s) = window s"
    and "regs (exec big (switch_put w) s) (snd (sw_slots w)) = regs s (snd (sw_slots w))"
  using copy_apart [of a] unfolding w_def
  by (auto simp: switch_put_def put_mem_def set_reg_def split: option.splits)

lemma get_does:
  fixes a :: abi
  defines "w \<equiv> gt_switch_of a"
  shows "mem8 (exec big (switch_get w) s) = mem8 s" "window (exec big (switch_get w) s) = window s"
    and "regs (exec big (switch_get w) s) SP = load_at big (sw_ptr w) (regs s (snd (sw_slots w))) (mem8 s)"
  using copy_apart [of a] unfolding w_def
  by (auto simp: switch_get_def set_reg_def split: option.splits)

lemma switch_facts:
  "sy_regs (saved a) SP = Init SP (frame_low a)" "sy_window (saved a) = None"
  "sy_regs (saved a) (fst (sw_slots (gt_switch_of a))) = fst (call_args a)"
  "sy_regs (saved a) (snd (sw_slots (gt_switch_of a))) = snd (call_args a)"
  "list_all (\<lambda>(j, n, v). frame_low a \<le> j \<and> j + int n \<le> frame_high a) (sy_mem (saved a))"
  "list_all (\<lambda>(r, v). sy_regs (restored a) r = v) (resumes a)"
  using switch_checked [of a] by (simp_all add: switch_ok_def Let_def)

lemma after_save:
  fixes big :: bool
  assumes "at_call a s"
  defines "s' \<equiv> exec big (sw_save (gt_switch_of a)) s"
  shows "regs s' SP = regs s SP + frame_low a" "window s' = None"
    and "regs s' (fst (sw_slots (gt_switch_of a))) = value_of big s (fst (call_args a))"
    and "regs s' (snd (sw_slots (gt_switch_of a))) = value_of big s (snd (call_args a))"
    and "holds_mem big (start_at s) (sy_mem (saved a)) (mem8 s')"
proof -
  note A = saved_agrees [OF assms(1), of big, folded s'_def]
  show "regs s' SP = regs s SP + frame_low a" using agreesD(1) [OF A, of SP] switch_facts(1) by (simp add: start_at_def)
  show "window s' = None" using A switch_facts(2) by (simp add: agrees_def)
  show "regs s' (fst (sw_slots (gt_switch_of a))) = value_of big s (fst (call_args a))"
    using agreesD(1) [OF A, of "fst (sw_slots (gt_switch_of a))"] switch_facts(3) args_value(1) by simp
  show "regs s' (snd (sw_slots (gt_switch_of a))) = value_of big s (snd (call_args a))"
    using agreesD(1) [OF A, of "snd (sw_slots (gt_switch_of a))"] switch_facts(4) args_value(2) by simp
  show "holds_mem big (start_at s) (sy_mem (saved a)) (mem8 s')" using agreesD(2) [OF A] .
qed

definition leaving :: "abi \<Rightarrow> instr list" where
  "leaving a = sw_save (gt_switch_of a) @ switch_put (gt_switch_of a)"

text \<open>C10: On every convention a task that is switched away from carries on, when it is switched back to, at its return
  address, with its stack pointer and every register its caller relies on as they were: whatever ran
  between, as long as it left alone the frame of the switch and where the stack pointer was stored.
\<close>

theorem switch_carries_on:
  assumes s: "at_call a s" and t: "at_call a t"
    and slot: "value_of big s (fst (call_args a)) = p" "value_of big t (snd (call_args a)) = p"
    and room: "0 \<le> regs s SP + frame_low a" "regs s SP + frame_low a < 256 ^ sw_ptr (gt_switch_of a)"
    and apart: "p + int (sw_ptr (gt_switch_of a)) \<le> regs s SP + frame_low a \<or> regs s SP + frame_high a \<le> p"
    and left: "\<And>x. regs s SP + frame_low a \<le> x \<and> x < regs s SP + frame_high a \<or> p \<le> x \<and> x < p + int (sw_ptr (gt_switch_of a)) \<Longrightarrow>
      mem8 (exec big (leaving a) t) x = mem8 (exec big (leaving a) s) x"
    and r: "(r, v) \<in> set (resumes a)"
  shows "means big (start_at s) v (regs (exec big (gt_context_switch a) t) r)"
proof -
  let ?w = "gt_switch_of a"
  define s1 where "s1 = exec big (sw_save ?w) s"
  define t1 where "t1 = exec big (leaving a) t"
  define t2 where "t2 = exec big (switch_get ?w) t1"
  note S = after_save [OF s, where big = big, folded s1_def] and T = after_save [OF t, where big = big]
  have put: "mem8 (exec big (leaving a) s) = store_at big (sw_ptr ?w) p (regs s SP + frame_low a) (mem8 s1)"
    using put_does(1) [where a = a] S(1,3) slot(1) by (simp add: leaving_def s1_def)
  have t1: "window t1 = None" "regs t1 (snd (sw_slots ?w)) = p"
    using put_does(2,3) [where a = a] T(2,4) slot(2) by (simp_all add: t1_def leaving_def)
  have "load_at big (sw_ptr ?w) p (mem8 t1) = load_at big (sw_ptr ?w) p (mem8 (exec big (leaving a) s))"
    unfolding t1_def by (rule load_cong) (use left in blast)
  also have "\<dots> = regs s SP + frame_low a" unfolding put by (rule load_store [OF room])
  finally have sp: "regs t2 SP = regs s SP + frame_low a" using get_does(3) [where a = a] t1(2) by (simp add: t2_def)
  have m: "mem8 t2 x = mem8 s1 x" if "regs s SP + frame_low a \<le> x" "x < regs s SP + frame_high a" for x
  proof -
    have "mem8 t2 x = mem8 (exec big (leaving a) s) x" using left that get_does(1) [where a = a] by (simp add: t2_def t1_def)
    moreover have "x < p \<or> p + int (sw_ptr ?w) \<le> x" using apart that by linarith
    ultimately show ?thesis unfolding put by simp
  qed
  have "holds_mem big (start_at s) (sy_mem (saved a)) (mem8 t2)"
    by (rule holds_region [OF S(5) switch_facts(5)]) (use m in \<open>simp add: start_at_def\<close>)
  then have "agrees big (start_at s) t2 (come_back (sy_mem (saved a)) (frame_low a))"
    by (rule come_back_agrees) (use sp t1(1) get_does(2) [where a = a] in \<open>simp_all add: start_at_def t2_def\<close>)
  then have "agrees big (start_at s) (exec big (sw_load ?w) t2) (restored a)"
    unfolding restored_def by (rule run_agrees [OF start_at_ok [OF s]])
      (use s in \<open>auto simp: at_call_def gt_context_switch_def Let_def start_at_def\<close>)
  moreover have "exec big (gt_context_switch a) t = exec big (sw_load ?w) t2"
    by (simp add: gt_context_switch_def Let_def t2_def t1_def leaving_def)
  moreover have "sy_regs (restored a) r = v" using switch_facts(6) [of a] r by (auto simp: list_all_iff)
  ultimately show ?thesis using agreesD(1) by metis
qed

section \<open>A new task starts at its entry\<close>

text \<open>What the priming leaves, by offsets from the primed stack pointer; the entry and the toc are the arguments.\<close>

fun prime_sym :: "abi \<Rightarrow> sym_mem" where
  "prime_sym (SysvX64 _) = [(0, 56, Const 0), (0, 4, Const 0x1F80), (4, 2, Const 0x037F), (56, 8, Arg 0 0)]"
| "prime_sym Aapcs64 = [(0, 176, Const 0), (88, 8, Arg 0 0)]"
| "prime_sym (SysvI386 _) = [(0, 32, Const 0), (0, 4, Const 0x1F80), (4, 2, Const 0x037F), (24, 4, Arg 0 0)]"
| "prime_sym (Ppc64V2 _) = [(0, 576, Const 0), (512, 8, Arg 0 0)]"
| "prime_sym (Ppc64V1 _) = [(0, 656, Const 0), (512, 8, Arg 0 0), (520, 8, Arg 1 0)]"
| "prime_sym (PpcSysv _ _) = [(0, 448, Const 0), (416, 4, Arg 0 0)]"
| "prime_sym (Aapcs32 vfp) = (if vfp then [(0, 112, Const 0), (108, 4, Arg 0 0)] else [(0, 40, Const 0), (36, 4, Arg 0 0)])"
| "prime_sym (MipsO32 _) = [(0, 112, Const 0), (88, 4, Arg 0 0)]"
| "prime_sym (MipsN64 _) = [(0, 160, Const 0), (144, 8, Arg 0 0)]"
| "prime_sym SparcV9 = [(2047, 352, Const 0), (2159, 8, Init SP 176), (2167, 8, Arg 0 (- 8))]"
| "prime_sym (M68kSysv fpu) = (if fpu then [(0, 128, Const 0), (120, 4, Arg 0 0)] else [(0, 52, Const 0), (44, 4, Arg 0 0)])"
| "prime_sym LoongarchLp64d = [(0, 160, Const 0), (0, 8, Arg 0 0)]"
| "prime_sym RiscvLp64d = [(0, 208, Const 0), (0, 8, Arg 0 0)]"
| "prime_sym S390x = [(0, 304, Const 0), (64, 8, Arg 0 0)]"

definition writes_as :: "bool \<Rightarrow> start \<Rightarrow> stack_write \<Rightarrow> int \<times> nat \<times> sym \<Rightarrow> bool" where
  "writes_as big z wr e \<longleftrightarrow> (case (wr, e) of
     (Clear b n, (k, n', v)) \<Rightarrow> b = st_regs z SP + k \<and> n = n' \<and> v = Const 0
   | (Put n b x, (k, n', v)) \<Rightarrow> b = st_regs z SP + k \<and> n = n' \<and> means big z v x)"

lemma holds_writes:
  assumes "start_ok wd pw z" "list_all2 (writes_as big z) ws es" "list_all (\<lambda>(k, n, v). fits wd pw n v) es"
    and "holds_mem big z old m"
  shows "holds_mem big z (rev es @ old) (fold (write_mem big) ws m)"
  using assms(2,3,4)
proof (induction ws es arbitrary: m old rule: list_all2_induct)
  case (Cons wr ws e es)
  obtain k n v where e: "e = (k, n, v)" by (rule prod_cases3)
  have "holds_mem big z (e # old) (write_mem big wr m)"
  proof (cases wr)
    case (Clear b n')
    then show ?thesis using holds_store [OF assms(1) Cons.prems(2), of n v 0 k] Cons.hyps(1) Cons.prems(1)
      by (auto simp: writes_as_def e)
  next
    case (Put n' b x)
    then show ?thesis using holds_store [OF assms(1) Cons.prems(2), of n v x k] Cons.hyps(1) Cons.prems(1)
      by (auto simp: writes_as_def e)
  qed
  from Cons.IH [OF _ this] Cons.prems(1) show ?case by simp
qed simp

text \<open>Where the task then is: its entry, its stack pointer above the primed one, and every other register zero, but for
  the control words, the toc, and on ELFv2 and mips the register the entry finds itself by.
\<close>

fun entry_sp :: "abi \<Rightarrow> int" where
  "entry_sp (SysvX64 _) = 64" | "entry_sp Aapcs64 = 176" | "entry_sp (SysvI386 _) = 28" | "entry_sp (Ppc64V2 _) = 544"
| "entry_sp (Ppc64V1 _) = 544" | "entry_sp (PpcSysv _ _) = 432" | "entry_sp RiscvLp64d = 208"
| "entry_sp (Aapcs32 vfp) = (if vfp then 112 else 40)" | "entry_sp (MipsO32 _) = 96" | "entry_sp (MipsN64 _) = 160"
| "entry_sp LoongarchLp64d = 160" | "entry_sp SparcV9 = 176" | "entry_sp (M68kSysv fpu) = (if fpu then 124 else 48)"
| "entry_sp S390x = 144"

definition first_value :: "abi \<Rightarrow> reg \<Rightarrow> sym" where
  "first_value a r = (case r of
     Fcr \<Rightarrow> (case a of SysvX64 _ \<Rightarrow> Const 0x1F80 | SysvI386 _ \<Rightarrow> Const 0x1F80 | _ \<Rightarrow> Const 0)
   | Fcw \<Rightarrow> (case a of SysvX64 _ \<Rightarrow> Const 0x037F | SysvI386 _ \<Rightarrow> Const 0x037F | _ \<Rightarrow> Const 0)
   | G n \<Rightarrow> (case a of Ppc64V1 _ \<Rightarrow> if n = 2 then Arg 1 0 else Const 0 | _ \<Rightarrow> Const 0)
   | _ \<Rightarrow> Const 0)"

fun entry_reg :: "abi \<Rightarrow> reg list" where
  "entry_reg (Ppc64V2 _) = [G 12]" | "entry_reg (MipsO32 _) = [G 25]" | "entry_reg (MipsN64 _) = [G 25]" | "entry_reg _ = []"

definition begins :: "abi \<Rightarrow> (reg \<times> sym) list" where
  "begins a = (PC, Arg 0 0) # (SP, Init SP (entry_sp a)) # map (\<lambda>r. (r, Arg 0 0)) (entry_reg a) @
     map (\<lambda>r. (r, first_value a r)) (kept_regs a)"

definition first_run :: "abi \<Rightarrow> sym_state" where
  "first_run a = sym_abi a (sw_load (gt_switch_of a)) (come_back (rev (prime_sym a)) 0)"

definition prime_ok :: "abi \<Rightarrow> bool" where
  "prime_ok a \<longleftrightarrow> list_all (\<lambda>(k, n, v). fits (width a) (gpr_bytes a) n v) (prime_sym a) \<and>
     (let R = sy_regs (first_run a) in list_all (\<lambda>(r, v). R r = v) (begins a))"

lemma primed_SysvX64: "prime_ok (SysvX64 True)" "prime_ok (SysvX64 False)"
  by code_simp+

lemma primed_SysvI386: "prime_ok (SysvI386 True)" "prime_ok (SysvI386 False)"
  by code_simp+

lemma primed_Ppc64V2: "prime_ok (Ppc64V2 True)" "prime_ok (Ppc64V2 False)"
  by code_simp+

lemma primed_Ppc64V1: "prime_ok (Ppc64V1 True)" "prime_ok (Ppc64V1 False)"
  by code_simp+

lemma primed_Aapcs32: "prime_ok (Aapcs32 True)" "prime_ok (Aapcs32 False)"
  by code_simp+

lemma primed_MipsO32: "prime_ok (MipsO32 True)" "prime_ok (MipsO32 False)"
  by code_simp+

lemma primed_MipsN64: "prime_ok (MipsN64 True)" "prime_ok (MipsN64 False)"
  by code_simp+

lemma primed_M68kSysv: "prime_ok (M68kSysv True)" "prime_ok (M68kSysv False)"
  by code_simp+

lemma primed_Aapcs64: "prime_ok Aapcs64"
  by code_simp

lemma primed_RiscvLp64d: "prime_ok RiscvLp64d"
  by code_simp

lemma primed_LoongarchLp64d: "prime_ok LoongarchLp64d"
  by code_simp

lemma primed_SparcV9: "prime_ok SparcV9"
  by code_simp

lemma primed_S390x: "prime_ok S390x"
  by code_simp

lemma primed_PpcSysv: "prime_ok (PpcSysv True True)" "prime_ok (PpcSysv True False)" "prime_ok (PpcSysv False True)"
    "prime_ok (PpcSysv False False)"
  by code_simp+

lemma prime_checked: "prime_ok a"
proof (cases a)
  case (PpcSysv f v)
  then show ?thesis using primed_PpcSysv by (cases f; cases v) simp_all
next
  case (SysvX64 b)
  then show ?thesis using primed_SysvX64 by (cases b) simp_all
next
  case (SysvI386 b)
  then show ?thesis using primed_SysvI386 by (cases b) simp_all
next
  case (Ppc64V2 b)
  then show ?thesis using primed_Ppc64V2 by (cases b) simp_all
next
  case (Ppc64V1 b)
  then show ?thesis using primed_Ppc64V1 by (cases b) simp_all
next
  case (Aapcs32 b)
  then show ?thesis using primed_Aapcs32 by (cases b) simp_all
next
  case (MipsO32 b)
  then show ?thesis using primed_MipsO32 by (cases b) simp_all
next
  case (MipsN64 b)
  then show ?thesis using primed_MipsN64 by (cases b) simp_all
next
  case (M68kSysv b)
  then show ?thesis using primed_M68kSysv by (cases b) simp_all
qed (use primed_Aapcs64 primed_RiscvLp64d primed_LoongarchLp64d primed_SparcV9 primed_S390x in simp_all)

lemma round_16: "(x :: int) AND NOT 15 = x div 16 * 16"
proof -
  have "x AND NOT 15 = push_bit 4 (drop_bit 4 x)"
  proof (rule bit_eqI)
    fix n
    have "bit (15 :: int) n \<longleftrightarrow> n < 4" using bit_mask_iff [of 4 n, where 'a = int] by (simp add: mask_eq_exp_minus_1)
    then show "bit (x AND NOT 15) n \<longleftrightarrow> bit (push_bit 4 (drop_bit 4 x)) n" by (auto simp: bit_simps)
  qed
  then show ?thesis by (simp add: push_bit_eq_mult drop_bit_eq_div)
qed

lemma round_16_num: "(x :: int) AND - 16 = x div 16 * 16"
  using round_16 [of x] by simp

text \<open>The alignment each convention wants of the stack pointer as a function is entered, its bias aside.\<close>

fun entry_bias :: "abi \<Rightarrow> int" where
  "entry_bias SparcV9 = BIAS" | "entry_bias _ = 0"

fun entry_rest :: "abi \<Rightarrow> int" where
  "entry_rest (SysvX64 _) = 8" | "entry_rest (SysvI386 _) = 12" | "entry_rest (M68kSysv _) = 12" | "entry_rest _ = 0"

definition primed_at :: "int \<Rightarrow> int \<Rightarrow> int \<Rightarrow> bytes \<Rightarrow> start" where
  "primed_at sp entry toc m = \<lparr>st_regs = (\<lambda>_. 0)(SP := sp), st_mem = m, st_args = (\<lambda>n. if n = 1 then toc else entry)\<rparr>"

definition entry_code :: "abi \<Rightarrow> int \<Rightarrow> int \<times> int \<Rightarrow> int" where
  "entry_code a entry descriptor = (case a of Ppc64V1 _ \<Rightarrow> fst descriptor | _ \<Rightarrow> entry)"

text \<open>How far below the top of the stack it is primed.\<close>

fun prime_depth :: "abi \<Rightarrow> int" where
  "prime_depth (SysvX64 _) = 72" | "prime_depth Aapcs64 = 176" | "prime_depth (SysvI386 _) = 32" | "prime_depth (Ppc64V2 _) = 576"
| "prime_depth (Ppc64V1 _) = 656" | "prime_depth (PpcSysv _ _) = 448" | "prime_depth RiscvLp64d = 208"
| "prime_depth (Aapcs32 vfp) = (if vfp then 112 else 40)" | "prime_depth (MipsO32 _) = 112" | "prime_depth (MipsN64 _) = 160"
| "prime_depth LoongarchLp64d = 160" | "prime_depth SparcV9 = 352" | "prime_depth (M68kSysv fpu) = (if fpu then 128 else 52)"
| "prime_depth S390x = 304"

lemma prime_shape:
  assumes "gt_stack_prime a usable n entry d = (base, ws)"
  shows "base + entry_bias a = (usable + n) div 16 * 16 - prime_depth a"
  using assms by (cases a) (auto simp: gt_stack_prime_def Let_def round_16_num BIAS_def split: if_splits)

lemma prime_writes:
  assumes "gt_stack_prime a usable n entry d = (base, ws)"
  shows "list_all2 (writes_as big (primed_at base (entry_code a entry d) (snd d) m)) ws (prime_sym a)"
  using assms by (cases a) (auto simp: gt_stack_prime_def Let_def writes_as_def primed_at_def entry_code_def BIAS_def)

lemma depth_facts: "0 \<le> prime_depth a" "prime_depth a \<le> 656" "0 \<le> entry_sp a" "entry_sp a \<le> prime_depth a"
  "(entry_sp a - prime_depth a) mod 16 = entry_rest a" "0 \<le> entry_bias a" "entry_bias a \<le> 2047"
  by (cases a; simp add: BIAS_def)+

lemma depth_aligned: "\<exists>i \<in> set (sw_load (gt_switch_of a)). rounds i \<Longrightarrow> prime_depth a mod 16 = 0 \<and> entry_bias a = 0"
  by (cases a) (auto simp: x64_switch_def i386_switch_def aapcs64_switch_def riscv_switch_def loongarch_switch_def s390x_switch_def
      mips_o32_switch_def mips_n64_switch_def aapcs32_switch_def m68k_switch_def sparc_switch_def
      Let_def rounds_def loads_def pop_all_def split: if_splits)

lemma prime_inside:
  "list_all (\<lambda>(j, n, v). entry_bias a \<le> j \<and> j + int n \<le> entry_bias a + prime_depth a) (rev (prime_sym a))"
  by (cases a) (auto simp: BIAS_def)

lemma first_value_cases: "first_value a r = Arg 1 0 \<or> (\<exists>c. first_value a r = Const c)"
proof (cases r)
  case (G n)
  then show ?thesis by (cases a) (simp_all add: first_value_def)
next
  case Fcr
  then show ?thesis by (cases a) (simp_all add: first_value_def)
next
  case Fcw
  then show ?thesis by (cases a) (simp_all add: first_value_def)
qed (simp_all add: first_value_def)

text \<open>C11: Whatever the convention, the first switch to a new task enters its function: its stack lies within what it was
  given and is aligned as a call would leave it, the registers a caller would rely on are zero, but for the
  control words (their defaults) and ELFv1's toc, and the function finds itself where its convention has it look.
\<close>

theorem new_task_starts:
  assumes prime: "gt_stack_prime a usable n entry d = (base, ws)"
    and stack: "4096 \<le> usable" "1024 \<le> n" "usable + n + 4096 < 256 ^ gpr_bytes a"
    and code: "8 \<le> entry_code a entry d" "entry_code a entry d < 256 ^ gpr_bytes a" "8 \<le> snd d" "snd d < 256 ^ gpr_bytes a"
    and t: "regs t SP = base" "window t = None"
    and m: "\<And>x. usable \<le> x \<Longrightarrow> x < usable + n \<Longrightarrow> mem8 t x = fold (write_mem big) ws old x"
  defines "u \<equiv> exec big (sw_load (gt_switch_of a)) t"
  shows "regs u PC = entry_code a entry d \<and> (\<forall>r \<in> set (entry_reg a). regs u r = entry_code a entry d) \<and>
    usable \<le> base + entry_bias a \<and> base \<le> regs u SP \<and> regs u SP + entry_bias a \<le> usable + n \<and>
    (regs u SP + entry_bias a) mod 16 = entry_rest a \<and>
    (\<forall>r \<in> set (kept_regs a). regs u r = (case first_value a r of Const c \<Rightarrow> c | _ \<Rightarrow> snd d))"
proof -
  let ?z = "primed_at base (entry_code a entry d) (snd d) old"
  note shape = prime_shape [OF prime] and D = depth_facts [of a]
  have "(usable + n) div 16 * 16 \<le> usable + n" "usable + n - 15 \<le> (usable + n) div 16 * 16" by linarith+
  then have b: "usable \<le> base + entry_bias a" "base + entry_bias a + entry_sp a \<le> usable + n"
    "base + entry_bias a + prime_depth a \<le> usable + n" "0 \<le> base" "base + 1024 < 256 ^ gpr_bytes a"
    using shape D stack by linarith+
  have al: "(base + entry_bias a + entry_sp a) mod 16 = entry_rest a"
  proof -
    have "base + entry_bias a + entry_sp a = (entry_sp a - prime_depth a) + (usable + n) div 16 * 16" using shape by simp
    then show ?thesis using D(5) by (metis mod_mult_self1)
  qed
  have z: "start_ok (width a) (gpr_bytes a) ?z"
    using b(4,5) code gpr_pos [of a] by (auto simp: start_ok_def primed_at_def width_def)
  have ok: "list_all (\<lambda>(k, n, v). fits (width a) (gpr_bytes a) n v) (prime_sym a)"
    "list_all (\<lambda>(r, v). sy_regs (first_run a) r = v) (begins a)"
    using prime_checked [of a] by (simp_all add: prime_ok_def Let_def)
  have "holds_mem big ?z (rev (prime_sym a) @ []) (fold (write_mem big) ws old)"
    by (rule holds_writes [OF z prime_writes [OF prime] ok(1)]) (simp add: holds_mem_def)
  then have w: "holds_mem big ?z (rev (prime_sym a)) (fold (write_mem big) ws old)" by simp
  have sp: "st_regs ?z SP = base" by (simp add: primed_at_def)
  have "holds_mem big ?z (rev (prime_sym a)) (mem8 t)"
  proof (rule holds_region [OF w prime_inside])
    fix x
    assume "st_regs ?z SP + entry_bias a \<le> x" "x < st_regs ?z SP + (entry_bias a + prime_depth a)"
    then have "usable \<le> x" "x < usable + n" using b(1,3) unfolding sp by linarith+
    then show "mem8 t x = fold (write_mem big) ws old x" by (rule m)
  qed
  then have "agrees big ?z t (come_back (rev (prime_sym a)) 0)"
    by (rule come_back_agrees) (use t in \<open>simp_all add: primed_at_def\<close>)
  then have run: "agrees big ?z u (first_run a)"
    unfolding first_run_def u_def
  proof (rule run_agrees [OF z])
    assume "\<exists>i \<in> set (sw_load (gt_switch_of a)). rounds i"
    then have "prime_depth a mod 16 = 0" "entry_bias a = 0" using depth_aligned by blast+
    then have "base = (usable + n) div 16 * 16 - prime_depth a" "16 dvd prime_depth a" using shape by auto
    then show "16 dvd st_regs ?z SP" by (simp add: primed_at_def)
  qed
  have r: "means big ?z v (regs u r)" if "(r, v) \<in> set (begins a)" for r v
    using agreesD(1) [OF run, of r] ok(2) that by (auto simp: list_all_iff)
  have "regs u PC = entry_code a entry d" "regs u SP = base + entry_sp a"
    using r [of PC "Arg 0 0"] r [of SP "Init SP (entry_sp a)"] by (auto simp: begins_def primed_at_def)
  moreover have "regs u x = entry_code a entry d" if "x \<in> set (entry_reg a)" for x
    using r [of x "Arg 0 0"] that by (auto simp: begins_def primed_at_def)
  moreover have "regs u x = (case first_value a x of Const c \<Rightarrow> c | _ \<Rightarrow> snd d)" if "x \<in> set (kept_regs a)" for x
    using r [of x "first_value a x"] first_value_cases [of a x] that by (auto simp: begins_def primed_at_def)
  ultimately show ?thesis using b al D(3) by (auto simp: algebra_simps)
qed

section \<open>An arm task, and an x86-64 one\<close>

definition arm_state :: "int \<Rightarrow> int \<Rightarrow> int \<Rightarrow> bytes \<Rightarrow> machine" where
  "arm_state sp slot next_slot m =
     \<lparr>regs = (\<lambda>_. 0)(SP := sp, G 14 := 100, G 0 := slot, G 1 := next_slot, G 4 := 7), mem8 = m, window = None\<rparr>"

lemma arm_call: "0 \<le> sp \<Longrightarrow> sp < 100000 \<Longrightarrow> 0 \<le> p \<Longrightarrow> p < 100000 \<Longrightarrow> 0 \<le> q \<Longrightarrow> q < 100000 \<Longrightarrow> at_call (Aapcs32 False) (arm_state sp p q m)"
  by (auto simp: at_call_def arm_state_def width_def gt_context_switch_def Let_def aapcs32_switch_def switch_put_def switch_get_def
      push_all_def pop_all_def stores_def loads_def rounds_def split: reg.split)

lemma arm_leaving: "mem8 (exec big (leaving (Aapcs32 False)) (arm_state sp p q m)) x =
    (if sp - 40 \<le> x \<and> x < sp \<or> p \<le> x \<and> x < p + 4 then mem8 (exec big (leaving (Aapcs32 False)) (arm_state sp p q m)) x else m x)"
  by (auto simp: leaving_def aapcs32_switch_def switch_put_def push_all_def stores_def arm_state_def Let_def set_reg_def put_mem_def)

lemma switch_carries_on_witness:
  "\<forall>big. let s = arm_state 8192 64 72 (\<lambda>_. 0);
     u = exec big (gt_context_switch (Aapcs32 False)) (arm_state 16384 72 64 (mem8 (exec big (leaving (Aapcs32 False)) s)))
   in regs u PC = 100"
proof
  fix big
  define s where "s = arm_state 8192 64 72 (\<lambda>_. 0)"
  define t where "t = arm_state 16384 72 64 (mem8 (exec big (leaving (Aapcs32 False)) s))"
  have low: "frame_low (Aapcs32 False) = - 40" by code_simp
  have sp: "regs s SP = 8192" "sw_ptr (aapcs32_switch False) = 4" "frame_high (Aapcs32 False) = 0"
    by (simp_all add: s_def arm_state_def aapcs32_switch_def frame_high_def Let_def)
  have calls: "at_call (Aapcs32 False) s" "at_call (Aapcs32 False) t" by (simp_all add: s_def t_def arm_call)
  have slots: "value_of big s (fst (call_args (Aapcs32 False))) = 64" "value_of big t (snd (call_args (Aapcs32 False))) = 64"
    by (simp_all add: s_def t_def arm_state_def)
  have left: "mem8 (exec big (leaving (Aapcs32 False)) t) x = mem8 (exec big (leaving (Aapcs32 False)) s) x"
    if "8152 \<le> x \<and> x < 8192 \<or> 64 \<le> x \<and> x < 68" for x
    unfolding t_def by (subst arm_leaving) (use that in auto)
  have "means big (start_at s) (Init (G 14) 0) (regs (exec big (gt_context_switch (Aapcs32 False)) t) PC)"
    by (rule switch_carries_on [OF calls slots]) (use left in \<open>simp_all add: low sp resumes_def\<close>)
  then show "let s = arm_state 8192 64 72 (\<lambda>_. 0);
     u = exec big (gt_context_switch (Aapcs32 False)) (arm_state 16384 72 64 (mem8 (exec big (leaving (Aapcs32 False)) s)))
   in regs u PC = 100"
    by (simp add: Let_def s_def [symmetric] t_def [symmetric]) (simp add: start_at_def s_def arm_state_def)
qed

lemma new_task_starts_witness:
  "\<forall>big. let (base, ws) = gt_stack_prime (SysvX64 False) 65536 16384 4096 (8, 8);
     u = exec big (sw_load (gt_switch_of (SysvX64 False)))
       \<lparr>regs = (\<lambda>_. 1)(SP := base), mem8 = fold (write_mem big) ws (\<lambda>_. 255), window = None\<rparr>
   in regs u PC = 4096 \<and> regs u SP mod 16 = 8 \<and> regs u (G 12) = 0 \<and> regs u Fcr = 0x1F80"
proof
  fix big
  obtain base ws where p: "gt_stack_prime (SysvX64 False) 65536 16384 4096 (8, 8) = (base, ws)" by (rule prod.exhaust)
  show "let (base, ws) = gt_stack_prime (SysvX64 False) 65536 16384 4096 (8, 8);
     u = exec big (sw_load (gt_switch_of (SysvX64 False)))
       \<lparr>regs = (\<lambda>_. 1)(SP := base), mem8 = fold (write_mem big) ws (\<lambda>_. 255), window = None\<rparr>
   in regs u PC = 4096 \<and> regs u SP mod 16 = 8 \<and> regs u (G 12) = 0 \<and> regs u Fcr = 0x1F80"
    using new_task_starts [OF p, where big = big and old = "\<lambda>_. 255" and
        t = "\<lparr>regs = (\<lambda>_. 1)(SP := base), mem8 = fold (write_mem big) ws (\<lambda>_. 255), window = None\<rparr>"]
    by (simp add: p entry_code_def first_value_def Let_def)
qed

end
