(* ===== verification/Errors.thy ===== *)
theory Errors
  imports Types
begin

text \<open>
  The platform's error numbers as sppc's (errors.h). The platform's headers are the argument
  \<^verbatim>\<open>os\<close>: the value of each errno macro, None for one the platform does not define. The compile-time
  choice between the identity and the table is the test the preprocessor makes, and the table is
  the list of its designated initialisers: the last one for an index wins, an index with none is 0.
\<close>

type_synonym os_errnos = "string \<Rightarrow> int option"

section \<open>The names\<close>

text \<open>The errors the preprocessor compares, with the value each must have.\<close>

definition errno_identity_names :: "(string \<times> int) list" where
  "errno_identity_names =
    [
     (''EPERM'', SPPC_EPERM), (''ENOENT'', SPPC_ENOENT), (''ESRCH'', SPPC_ESRCH), (''EINTR'', SPPC_EINTR),
     (''EIO'', SPPC_EIO), (''ENXIO'', SPPC_ENXIO), (''E2BIG'', SPPC_E2BIG), (''ENOEXEC'', SPPC_ENOEXEC),
     (''EBADF'', SPPC_EBADF), (''ECHILD'', SPPC_ECHILD), (''EAGAIN'', SPPC_EAGAIN),
     (''ENOMEM'', SPPC_ENOMEM), (''EACCES'', SPPC_EACCES), (''EFAULT'', SPPC_EFAULT),
     (''ENOTBLK'', SPPC_ENOTBLK), (''EBUSY'', SPPC_EBUSY), (''EEXIST'', SPPC_EEXIST),
     (''EXDEV'', SPPC_EXDEV), (''ENODEV'', SPPC_ENODEV), (''ENOTDIR'', SPPC_ENOTDIR),
     (''EISDIR'', SPPC_EISDIR), (''EINVAL'', SPPC_EINVAL), (''ENFILE'', SPPC_ENFILE),
     (''EMFILE'', SPPC_EMFILE), (''ENOTTY'', SPPC_ENOTTY), (''ETXTBSY'', SPPC_ETXTBSY),
     (''EFBIG'', SPPC_EFBIG), (''ENOSPC'', SPPC_ENOSPC), (''ESPIPE'', SPPC_ESPIPE),
     (''EROFS'', SPPC_EROFS), (''EMLINK'', SPPC_EMLINK), (''EPIPE'', SPPC_EPIPE), (''EDOM'', SPPC_EDOM),
     (''ERANGE'', SPPC_ERANGE), (''EDEADLK'', SPPC_EDEADLK), (''ENAMETOOLONG'', SPPC_ENAMETOOLONG),
     (''ENOLCK'', SPPC_ENOLCK), (''ENOSYS'', SPPC_ENOSYS), (''ENOTEMPTY'', SPPC_ENOTEMPTY),
     (''ELOOP'', SPPC_ELOOP), (''EWOULDBLOCK'', SPPC_EWOULDBLOCK), (''ENOMSG'', SPPC_ENOMSG),
     (''EIDRM'', SPPC_EIDRM), (''ECHRNG'', SPPC_ECHRNG), (''EL2NSYNC'', SPPC_EL2NSYNC),
     (''EL3HLT'', SPPC_EL3HLT), (''EL3RST'', SPPC_EL3RST), (''ELNRNG'', SPPC_ELNRNG),
     (''EUNATCH'', SPPC_EUNATCH), (''ENOCSI'', SPPC_ENOCSI), (''EL2HLT'', SPPC_EL2HLT),
     (''EBADE'', SPPC_EBADE), (''EBADR'', SPPC_EBADR), (''EXFULL'', SPPC_EXFULL),
     (''ENOANO'', SPPC_ENOANO), (''EBADRQC'', SPPC_EBADRQC), (''EBADSLT'', SPPC_EBADSLT),
     (''EDEADLOCK'', SPPC_EDEADLOCK), (''EBFONT'', SPPC_EBFONT), (''ENOSTR'', SPPC_ENOSTR),
     (''ENODATA'', SPPC_ENODATA), (''ETIME'', SPPC_ETIME), (''ENOSR'', SPPC_ENOSR),
     (''ENONET'', SPPC_ENONET), (''ENOPKG'', SPPC_ENOPKG), (''EREMOTE'', SPPC_EREMOTE),
     (''ENOLINK'', SPPC_ENOLINK), (''EADV'', SPPC_EADV), (''ESRMNT'', SPPC_ESRMNT),
     (''ECOMM'', SPPC_ECOMM), (''EPROTO'', SPPC_EPROTO), (''EMULTIHOP'', SPPC_EMULTIHOP),
     (''EDOTDOT'', SPPC_EDOTDOT), (''EBADMSG'', SPPC_EBADMSG), (''EOVERFLOW'', SPPC_EOVERFLOW),
     (''ENOTUNIQ'', SPPC_ENOTUNIQ), (''EBADFD'', SPPC_EBADFD), (''EREMCHG'', SPPC_EREMCHG),
     (''ELIBACC'', SPPC_ELIBACC), (''ELIBBAD'', SPPC_ELIBBAD), (''ELIBSCN'', SPPC_ELIBSCN),
     (''ELIBMAX'', SPPC_ELIBMAX), (''ELIBEXEC'', SPPC_ELIBEXEC), (''EILSEQ'', SPPC_EILSEQ),
     (''ERESTART'', SPPC_ERESTART), (''ESTRPIPE'', SPPC_ESTRPIPE), (''EUSERS'', SPPC_EUSERS),
     (''ENOTSOCK'', SPPC_ENOTSOCK), (''EDESTADDRREQ'', SPPC_EDESTADDRREQ), (''EMSGSIZE'', SPPC_EMSGSIZE),
     (''EPROTOTYPE'', SPPC_EPROTOTYPE), (''ENOPROTOOPT'', SPPC_ENOPROTOOPT),
     (''EPROTONOSUPPORT'', SPPC_EPROTONOSUPPORT), (''ESOCKTNOSUPPORT'', SPPC_ESOCKTNOSUPPORT),
     (''EOPNOTSUPP'', SPPC_EOPNOTSUPP), (''EPFNOSUPPORT'', SPPC_EPFNOSUPPORT),
     (''EAFNOSUPPORT'', SPPC_EAFNOSUPPORT), (''EADDRINUSE'', SPPC_EADDRINUSE),
     (''EADDRNOTAVAIL'', SPPC_EADDRNOTAVAIL), (''ENETDOWN'', SPPC_ENETDOWN),
     (''ENETUNREACH'', SPPC_ENETUNREACH), (''ENETRESET'', SPPC_ENETRESET),
     (''ECONNABORTED'', SPPC_ECONNABORTED), (''ECONNRESET'', SPPC_ECONNRESET), (''ENOBUFS'', SPPC_ENOBUFS),
     (''EISCONN'', SPPC_EISCONN), (''ENOTCONN'', SPPC_ENOTCONN), (''ESHUTDOWN'', SPPC_ESHUTDOWN),
     (''ETOOMANYREFS'', SPPC_ETOOMANYREFS), (''ETIMEDOUT'', SPPC_ETIMEDOUT),
     (''ECONNREFUSED'', SPPC_ECONNREFUSED), (''EHOSTDOWN'', SPPC_EHOSTDOWN),
     (''EHOSTUNREACH'', SPPC_EHOSTUNREACH), (''EALREADY'', SPPC_EALREADY),
     (''EINPROGRESS'', SPPC_EINPROGRESS), (''ESTALE'', SPPC_ESTALE), (''EUCLEAN'', SPPC_EUCLEAN),
     (''ENOTNAM'', SPPC_ENOTNAM), (''ENAVAIL'', SPPC_ENAVAIL), (''EISNAM'', SPPC_EISNAM),
     (''EREMOTEIO'', SPPC_EREMOTEIO), (''EDQUOT'', SPPC_EDQUOT), (''ENOMEDIUM'', SPPC_ENOMEDIUM),
     (''EMEDIUMTYPE'', SPPC_EMEDIUMTYPE), (''ECANCELED'', SPPC_ECANCELED), (''ENOKEY'', SPPC_ENOKEY),
     (''EKEYEXPIRED'', SPPC_EKEYEXPIRED), (''EKEYREVOKED'', SPPC_EKEYREVOKED),
     (''EKEYREJECTED'', SPPC_EKEYREJECTED), (''EOWNERDEAD'', SPPC_EOWNERDEAD),
     (''ENOTRECOVERABLE'', SPPC_ENOTRECOVERABLE), (''ERFKILL'', SPPC_ERFKILL),
     (''EHWPOISON'', SPPC_EHWPOISON)]"

definition errno_names_1 :: "(string \<times> string option \<times> int) list" where
  "errno_names_1 =
    [
     (''EPERM'', None, SPPC_EPERM), (''ENOENT'', None, SPPC_ENOENT), (''ESRCH'', None, SPPC_ESRCH),
     (''EINTR'', None, SPPC_EINTR), (''EIO'', None, SPPC_EIO), (''ENXIO'', None, SPPC_ENXIO),
     (''E2BIG'', None, SPPC_E2BIG), (''ENOEXEC'', None, SPPC_ENOEXEC), (''EBADF'', None, SPPC_EBADF),
     (''ECHILD'', None, SPPC_ECHILD), (''EAGAIN'', None, SPPC_EAGAIN), (''ENOMEM'', None, SPPC_ENOMEM),
     (''EACCES'', None, SPPC_EACCES), (''EFAULT'', None, SPPC_EFAULT), (''ENOTBLK'', None, SPPC_ENOTBLK),
     (''EBUSY'', None, SPPC_EBUSY), (''EEXIST'', None, SPPC_EEXIST), (''EXDEV'', None, SPPC_EXDEV),
     (''ENODEV'', None, SPPC_ENODEV), (''ENOTDIR'', None, SPPC_ENOTDIR), (''EISDIR'', None, SPPC_EISDIR),
     (''EINVAL'', None, SPPC_EINVAL), (''ENFILE'', None, SPPC_ENFILE), (''EMFILE'', None, SPPC_EMFILE),
     (''ENOTTY'', None, SPPC_ENOTTY), (''ETXTBSY'', None, SPPC_ETXTBSY), (''EFBIG'', None, SPPC_EFBIG),
     (''ENOSPC'', None, SPPC_ENOSPC), (''ESPIPE'', None, SPPC_ESPIPE), (''EROFS'', None, SPPC_EROFS),
     (''EMLINK'', None, SPPC_EMLINK), (''EPIPE'', None, SPPC_EPIPE), (''EDOM'', None, SPPC_EDOM),
     (''ERANGE'', None, SPPC_ERANGE), (''EDEADLK'', None, SPPC_EDEADLK),
     (''ENAMETOOLONG'', None, SPPC_ENAMETOOLONG), (''ENOLCK'', None, SPPC_ENOLCK),
     (''ENOSYS'', None, SPPC_ENOSYS), (''ENOTEMPTY'', None, SPPC_ENOTEMPTY), (''ELOOP'', None, SPPC_ELOOP),
     (''EWOULDBLOCK'', Some ''EAGAIN'', SPPC_EAGAIN), (''ENOMSG'', None, SPPC_ENOMSG),
     (''EIDRM'', None, SPPC_EIDRM), (''ECHRNG'', None, SPPC_ECHRNG), (''EL2NSYNC'', None, SPPC_EL2NSYNC),
     (''EL3HLT'', None, SPPC_EL3HLT), (''EL3RST'', None, SPPC_EL3RST), (''ELNRNG'', None, SPPC_ELNRNG)]"

definition errno_names_2 :: "(string \<times> string option \<times> int) list" where
  "errno_names_2 =
    [
     (''EUNATCH'', None, SPPC_EUNATCH), (''ENOCSI'', None, SPPC_ENOCSI), (''EL2HLT'', None, SPPC_EL2HLT),
     (''EBADE'', None, SPPC_EBADE), (''EBADR'', None, SPPC_EBADR), (''EXFULL'', None, SPPC_EXFULL),
     (''ENOANO'', None, SPPC_ENOANO), (''EBADRQC'', None, SPPC_EBADRQC), (''EBADSLT'', None, SPPC_EBADSLT),
     (''EDEADLOCK'', Some ''EDEADLK'', SPPC_EDEADLK), (''EBFONT'', None, SPPC_EBFONT),
     (''ENOSTR'', None, SPPC_ENOSTR), (''ENODATA'', None, SPPC_ENODATA), (''ETIME'', None, SPPC_ETIME),
     (''ENOSR'', None, SPPC_ENOSR), (''ENONET'', None, SPPC_ENONET), (''ENOPKG'', None, SPPC_ENOPKG),
     (''EREMOTE'', None, SPPC_EREMOTE), (''ENOLINK'', None, SPPC_ENOLINK), (''EADV'', None, SPPC_EADV),
     (''ESRMNT'', None, SPPC_ESRMNT), (''ECOMM'', None, SPPC_ECOMM), (''EPROTO'', None, SPPC_EPROTO),
     (''EMULTIHOP'', None, SPPC_EMULTIHOP), (''EDOTDOT'', None, SPPC_EDOTDOT),
     (''EBADMSG'', None, SPPC_EBADMSG), (''EOVERFLOW'', None, SPPC_EOVERFLOW),
     (''ENOTUNIQ'', None, SPPC_ENOTUNIQ), (''EBADFD'', None, SPPC_EBADFD),
     (''EREMCHG'', None, SPPC_EREMCHG), (''ELIBACC'', None, SPPC_ELIBACC),
     (''ELIBBAD'', None, SPPC_ELIBBAD), (''ELIBSCN'', None, SPPC_ELIBSCN),
     (''ELIBMAX'', None, SPPC_ELIBMAX), (''ELIBEXEC'', None, SPPC_ELIBEXEC),
     (''EILSEQ'', None, SPPC_EILSEQ), (''ERESTART'', None, SPPC_ERESTART),
     (''ESTRPIPE'', None, SPPC_ESTRPIPE), (''EUSERS'', None, SPPC_EUSERS),
     (''ENOTSOCK'', None, SPPC_ENOTSOCK), (''EDESTADDRREQ'', None, SPPC_EDESTADDRREQ),
     (''EMSGSIZE'', None, SPPC_EMSGSIZE), (''EPROTOTYPE'', None, SPPC_EPROTOTYPE),
     (''ENOPROTOOPT'', None, SPPC_ENOPROTOOPT), (''EPROTONOSUPPORT'', None, SPPC_EPROTONOSUPPORT),
     (''ESOCKTNOSUPPORT'', None, SPPC_ESOCKTNOSUPPORT), (''EOPNOTSUPP'', None, SPPC_EOPNOTSUPP),
     (''EPFNOSUPPORT'', None, SPPC_EPFNOSUPPORT)]"

definition errno_names_3 :: "(string \<times> string option \<times> int) list" where
  "errno_names_3 =
    [
     (''EAFNOSUPPORT'', None, SPPC_EAFNOSUPPORT), (''EADDRINUSE'', None, SPPC_EADDRINUSE),
     (''EADDRNOTAVAIL'', None, SPPC_EADDRNOTAVAIL), (''ENETDOWN'', None, SPPC_ENETDOWN),
     (''ENETUNREACH'', None, SPPC_ENETUNREACH), (''ENETRESET'', None, SPPC_ENETRESET),
     (''ECONNABORTED'', None, SPPC_ECONNABORTED), (''ECONNRESET'', None, SPPC_ECONNRESET),
     (''ENOBUFS'', None, SPPC_ENOBUFS), (''EISCONN'', None, SPPC_EISCONN),
     (''ENOTCONN'', None, SPPC_ENOTCONN), (''ESHUTDOWN'', None, SPPC_ESHUTDOWN),
     (''ETOOMANYREFS'', None, SPPC_ETOOMANYREFS), (''ETIMEDOUT'', None, SPPC_ETIMEDOUT),
     (''ECONNREFUSED'', None, SPPC_ECONNREFUSED), (''EHOSTDOWN'', None, SPPC_EHOSTDOWN),
     (''EHOSTUNREACH'', None, SPPC_EHOSTUNREACH), (''EALREADY'', None, SPPC_EALREADY),
     (''EINPROGRESS'', None, SPPC_EINPROGRESS), (''ESTALE'', None, SPPC_ESTALE),
     (''EUCLEAN'', None, SPPC_EUCLEAN), (''ENOTNAM'', None, SPPC_ENOTNAM),
     (''ENAVAIL'', None, SPPC_ENAVAIL), (''EISNAM'', None, SPPC_EISNAM),
     (''EREMOTEIO'', None, SPPC_EREMOTEIO), (''EDQUOT'', None, SPPC_EDQUOT),
     (''ENOMEDIUM'', None, SPPC_ENOMEDIUM), (''EMEDIUMTYPE'', None, SPPC_EMEDIUMTYPE),
     (''ECANCELED'', None, SPPC_ECANCELED), (''ENOKEY'', None, SPPC_ENOKEY),
     (''EKEYEXPIRED'', None, SPPC_EKEYEXPIRED), (''EKEYREVOKED'', None, SPPC_EKEYREVOKED),
     (''EKEYREJECTED'', None, SPPC_EKEYREJECTED), (''EOWNERDEAD'', None, SPPC_EOWNERDEAD),
     (''ENOTRECOVERABLE'', None, SPPC_ENOTRECOVERABLE), (''ERFKILL'', None, SPPC_ERFKILL),
     (''EHWPOISON'', None, SPPC_EHWPOISON), (''ENOTSUP'', Some ''EOPNOTSUPP'', SPPC_EOPNOTSUPP),
     (''EPROCLIM'', None, SPPC_EAGAIN), (''EBADEXEC'', None, SPPC_ENOEXEC),
     (''EBADARCH'', None, SPPC_ENOEXEC), (''ESHLIBVERS'', None, SPPC_ENOEXEC),
     (''EBADMACHO'', None, SPPC_ENOEXEC), (''ENOATTR'', Some ''ENODATA'', SPPC_ENODATA),
     (''EQFULL'', None, SPPC_ENOBUFS)]"

section \<open>Translation\<close>

definition errno_identity :: "os_errnos \<Rightarrow> bool" where
  "errno_identity os \<longleftrightarrow> list_all (\<lambda>(n, v). os n = Some v) errno_identity_names \<and>
     (os ''ENOTSUP'' = None \<or> os ''ENOTSUP'' = Some SPPC_EOPNOTSUPP)"

definition errno_names :: "(string \<times> string option \<times> int) list" where
  "errno_names = errno_names_1 @ errno_names_2 @ errno_names_3"

text \<open>An initialiser is there when its name is defined and is not the number of the name it is an alias of.\<close>

definition errno_entry :: "os_errnos \<Rightarrow> string \<times> string option \<times> int \<Rightarrow> (int \<times> int) option" where
  "errno_entry os e =
     (case e of (n, alias, v) \<Rightarrow>
       (case os n of
          None \<Rightarrow> None
        | Some i \<Rightarrow> (if alias \<noteq> None \<and> os (the alias) = Some i then None else Some (i, v))))"

definition errno_table :: "os_errnos \<Rightarrow> (int \<times> int) list" where
  "errno_table os = List.map_filter (errno_entry os) errno_names"

definition errno_by_table :: "os_errnos \<Rightarrow> int \<Rightarrow> int" where
  "errno_by_table os err =
     (if err = 0 then 0
      else
        let out = (if err > 0 then (case map_of (rev (errno_table os)) err of Some v \<Rightarrow> v | None \<Rightarrow> 0) else 0)
        in if out \<noteq> 0 then out else SPPC_EIO)"

definition sppc_errno :: "os_errnos \<Rightarrow> int \<Rightarrow> int" where
  "sppc_errno os err = (if errno_identity os then err else errno_by_table os err)"

section \<open>Facts\<close>

lemma errno_names_values: "(n, a, v) \<in> set errno_names \<Longrightarrow> 1 \<le> v \<and> v \<le> 133"
proof -
  have "list_all (\<lambda>(n, a, v). 1 \<le> v \<and> v \<le> 133) errno_names"
    by (simp add: errno_names_def errno_names_1_def errno_names_2_def errno_names_3_def)
  then show "(n, a, v) \<in> set errno_names \<Longrightarrow> 1 \<le> v \<and> v \<le> 133" by (auto simp: list_all_iff)
qed

lemma errno_tableD:
  assumes "(i, v) \<in> set (errno_table os)"
  shows "\<exists>n a. (n, a, v) \<in> set errno_names \<and> os n = Some i \<and> (a = None \<or> os (the a) \<noteq> Some i)"
  using assms by (fastforce simp: errno_table_def List.map_filter_def errno_entry_def split: option.splits if_splits)

lemma errno_tableI:
  assumes "(n, a, v) \<in> set errno_names" and "os n = Some i" and "a = None \<or> os (the a) \<noteq> Some i"
  shows "(i, v) \<in> set (errno_table os)"
proof -
  have "errno_entry os (n, a, v) = Some (i, v)" using assms(2,3) by (auto simp: errno_entry_def)
  then show ?thesis using assms(1) by (force simp: errno_table_def List.map_filter_def image_iff)
qed

lemma lookup_SomeD: "map_of (rev xs) i = Some v \<Longrightarrow> (i, v) \<in> set xs"
  using map_of_SomeD by fastforce

lemma lookup_unique:
  assumes "(i, v) \<in> set xs" and "\<And>w. (i, w) \<in> set xs \<Longrightarrow> w = v"
  shows "map_of (rev xs) i = Some v"
proof -
  have "map_of (rev xs) i \<noteq> None" by (metis assms(1) fst_conv image_eqI map_of_eq_None_iff set_rev)
  then show ?thesis using lookup_SomeD assms(2) by fastforce
qed

text \<open>The names that are neither aliases nor a platform's own are those the preprocessor compares.\<close>

abbreviation own_names :: "string list" where
  "own_names \<equiv> [''ENOTSUP'', ''EPROCLIM'', ''EBADEXEC'', ''EBADARCH'', ''ESHLIBVERS'', ''EBADMACHO'',
     ''ENOATTR'', ''EQFULL'']"

lemmas errno_names_unfold = errno_names_def errno_names_1_def errno_names_2_def errno_names_3_def

lemma errno_names_split:
  "map (\<lambda>(n, a, v). (n, v)) (take 133 errno_names) = errno_identity_names"
  "map fst (drop 133 errno_names) = own_names"
  "filter (\<lambda>(n, a, v). a \<noteq> None) (take 133 errno_names) =
     [(''EWOULDBLOCK'', Some ''EAGAIN'', SPPC_EAGAIN), (''EDEADLOCK'', Some ''EDEADLK'', SPPC_EDEADLK)]"
  by (simp_all add: errno_names_unfold errno_identity_names_def)

lemma errno_names_cases:
  assumes "(n, a, v) \<in> set errno_names"
  shows "(n, v) \<in> set errno_identity_names \<or> n \<in> set own_names"
proof -
  have "(n, a, v) \<in> set (take 133 errno_names @ drop 133 errno_names)" using assms by simp
  then have "(n, a, v) \<in> set (take 133 errno_names) \<or> (n, a, v) \<in> set (drop 133 errno_names)"
    unfolding set_append by blast
  then show ?thesis
  proof
    assume "(n, a, v) \<in> set (take 133 errno_names)"
    then have "(n, v) \<in> set (map (\<lambda>(n, a, v). (n, v)) (take 133 errno_names))" by force
    then show ?thesis unfolding errno_names_split(1) ..
  next
    assume "(n, a, v) \<in> set (drop 133 errno_names)"
    then have "n \<in> set (map fst (drop 133 errno_names))" by force
    then show ?thesis unfolding errno_names_split(2) ..
  qed
qed

lemma identity_in_names:
  assumes "(n, v) \<in> set errno_identity_names"
  shows "\<exists>m. (m, None, v) \<in> set errno_names \<and> (m, v) \<in> set errno_identity_names"
proof -
  let ?t = "take 133 errno_names"
  obtain a where a: "(n, a, v) \<in> set ?t" using assms unfolding errno_names_split(1) [symmetric] by auto
  have t: "set ?t \<subseteq> set errno_names" by (rule set_take_subset)
  show ?thesis
  proof (cases a)
    case None
    then show ?thesis using a t assms by blast
  next
    case (Some b)
    have "(n, a, v) \<in> set (filter (\<lambda>(n, a, v). a \<noteq> None) ?t)" using a Some by simp
    then have "v = SPPC_EAGAIN \<or> v = SPPC_EDEADLK" unfolding errno_names_split(3) by auto
    moreover have "(''EAGAIN'', None, SPPC_EAGAIN) \<in> set errno_names" "(''EDEADLK'', None, SPPC_EDEADLK) \<in> set errno_names"
      "(''EAGAIN'', SPPC_EAGAIN) \<in> set errno_identity_names" "(''EDEADLK'', SPPC_EDEADLK) \<in> set errno_identity_names"
      by (simp_all add: errno_names_unfold errno_identity_names_def)
    ultimately show ?thesis by blast
  qed
qed

section \<open>Properties\<close>

text \<open>The translation always answers: 0 for 0, and for any other number on a platform that needs
  the table, one of sppc's own, SPPC_EIO where the platform's number has no counterpart.\<close>

theorem errno_total:
  assumes "\<not> errno_identity os"
  shows "sppc_errno os 0 = 0 \<and>
    (if err \<noteq> 0 \<and> (err < 0 \<or> err \<notin> fst ` set (errno_table os)) then sppc_errno os err = SPPC_EIO
     else 0 \<le> sppc_errno os err \<and> sppc_errno os err \<le> 133)"
proof -
  have range: "1 \<le> v \<and> v \<le> 133" if "map_of (rev (errno_table os)) err = Some v" for v
    using errno_tableD [OF lookup_SomeD [OF that]] errno_names_values by blast
  have none: "map_of (rev (errno_table os)) err = None" if "err \<notin> fst ` set (errno_table os)"
    using that by (simp add: map_of_eq_None_iff)
  show ?thesis
    using assms none range by (force simp: sppc_errno_def errno_by_table_def split: option.splits)
qed

text \<open>A platform with only ENOENT and Darwin's EAGAIN, and one with Linux's numbers.\<close>

definition few_errnos :: os_errnos where
  "few_errnos n = (if n = ''ENOENT'' then Some 2 else if n = ''EAGAIN'' then Some 35 else None)"

lemma few_not_identity: "\<not> errno_identity few_errnos"
  by (simp add: errno_identity_def errno_identity_names_def few_errnos_def)

theorem errno_total_witness:
  "sppc_errno few_errnos 0 = 0 \<and>
    (if (77::int) \<noteq> 0 \<and> ((77::int) < 0 \<or> 77 \<notin> fst ` set (errno_table few_errnos)) then sppc_errno few_errnos 77 = SPPC_EIO
     else 0 \<le> sppc_errno few_errnos 77 \<and> sppc_errno few_errnos 77 \<le> 133)"
  by (rule errno_total [OF few_not_identity])

definition linux_errnos :: os_errnos where
  "linux_errnos = map_of errno_identity_names"

text \<open>The names read as numbers, which tells them apart.\<close>

definition name_code :: "string \<Rightarrow> nat" where
  "name_code n = foldl (\<lambda>h c. h * 128 + of_char c) 0 n"

lemma linux_identity:
  "errno_identity linux_errnos" "list_all (\<lambda>n. linux_errnos n = None) own_names"
proof -
  have "distinct (map name_code (map fst errno_identity_names))"
    by (simp add: errno_identity_names_def name_code_def)
  then have "distinct (map fst errno_identity_names)" unfolding distinct_map by blast
  then have "list_all (\<lambda>(n, v). map_of errno_identity_names n = Some v) errno_identity_names"
    by (auto simp: list_all_iff)
  moreover have "list_all (\<lambda>n. name_code n \<notin> set (map name_code (map fst errno_identity_names))) own_names"
    by (simp add: errno_identity_names_def name_code_def)
  then have "list_all (\<lambda>n. n \<notin> fst ` set errno_identity_names) own_names"
    by (rule list.pred_mono_strong) auto
  then show own: "list_all (\<lambda>n. linux_errnos n = None) own_names"
    unfolding linux_errnos_def map_of_eq_None_iff .
  ultimately show "errno_identity linux_errnos" by (simp add: errno_identity_def linux_errnos_def)
qed

text \<open>Where the preprocessor finds the platform's numbers to be sppc's, skipping the table changes
  nothing: the table would answer every one of them with itself.\<close>

theorem errno_identity_agrees:
  assumes "errno_identity os" and "list_all (\<lambda>n. os n = None) (remove1 ''ENOTSUP'' own_names)"
    and "(n, v) \<in> set errno_identity_names"
  shows "sppc_errno os v = errno_by_table os v \<and> sppc_errno os v = v"
proof -
  have id: "os m = Some w" if "(m, w) \<in> set errno_identity_names" for m w
    using assms(1) that by (auto simp: errno_identity_def list_all_iff)
  have "(''EOPNOTSUPP'', SPPC_EOPNOTSUPP) \<in> set errno_identity_names" by (simp add: errno_identity_names_def)
  then have op: "os ''EOPNOTSUPP'' = Some SPPC_EOPNOTSUPP" by (rule id)
  have notsup: "a = Some ''EOPNOTSUPP''" if "(''ENOTSUP'', a, w) \<in> set errno_names" for a w
    using that by (simp add: errno_names_unfold)
  have same: "w = i" if t: "(i, w) \<in> set (errno_table os)" for i w
  proof -
    obtain m a where m: "(m, a, w) \<in> set errno_names" "os m = Some i" "a = None \<or> os (the a) \<noteq> Some i"
      using errno_tableD [OF t] by blast
    show ?thesis
    proof (cases "(m, w) \<in> set errno_identity_names")
      case True
      then show ?thesis using id m(2) by simp
    next
      case False
      then have "m \<in> set own_names" using errno_names_cases [OF m(1)] by blast
      then have "m = ''ENOTSUP''" using assms(2) m(2) by auto
      moreover from this have "a = Some ''EOPNOTSUPP''" using m(1) notsup by blast
      ultimately show ?thesis using m(2,3) assms(1) op by (auto simp: errno_identity_def)
    qed
  qed
  obtain m where m: "(m, None, v) \<in> set errno_names" "(m, v) \<in> set errno_identity_names"
    using identity_in_names [OF assms(3)] by blast
  have "(v, v) \<in> set (errno_table os)" using errno_tableI [OF m(1), of os] id [OF m(2)] by simp
  then have "map_of (rev (errno_table os)) v = Some v" by (rule lookup_unique) (use same in blast)
  moreover have "1 \<le> v" using errno_names_values [OF m(1)] by simp
  ultimately show ?thesis using assms(1) by (simp add: sppc_errno_def errno_by_table_def)
qed

theorem errno_identity_agrees_witness:
  "sppc_errno linux_errnos SPPC_EPIPE = errno_by_table linux_errnos SPPC_EPIPE \<and>
    sppc_errno linux_errnos SPPC_EPIPE = SPPC_EPIPE"
  by (rule errno_identity_agrees [OF linux_identity(1), where n = "''EPIPE''"])
    (use linux_identity(2) in \<open>simp_all add: errno_identity_names_def\<close>)

text \<open>On a platform that needs the table, an errno macro is translated to the sppc error of its own
  name whenever no other macro the table lists has its number.\<close>

theorem errno_by_name:
  assumes "\<not> errno_identity os" and "(n, None, v) \<in> set errno_names" and "os n = Some e" and "0 < e"
    and "list_all (\<lambda>(m, a, w). os m = Some e \<longrightarrow> w = v) errno_names"
  shows "sppc_errno os e = v"
proof -
  have "(e, v) \<in> set (errno_table os)" using errno_tableI [OF assms(2), of os e] assms(3) by simp
  moreover have "w = v" if "(e, w) \<in> set (errno_table os)" for w
    using errno_tableD [OF that] assms(5) by (auto simp: list_all_iff)
  ultimately have "map_of (rev (errno_table os)) e = Some v" by (rule lookup_unique)
  then show ?thesis
    using assms(1,4) errno_names_values [OF assms(2)] by (simp add: sppc_errno_def errno_by_table_def)
qed

theorem errno_by_name_witness: "sppc_errno few_errnos 35 = SPPC_EAGAIN"
  by (rule errno_by_name [OF few_not_identity, where n = "''EAGAIN''"])
    (simp_all add: few_errnos_def errno_names_unfold)

end
