(* ===== verification/Shared.thy ===== *)
theory Shared
  imports Types
begin

text \<open>
  Helpers of every platform (platform/shared.h): the tables that turn sppc's values and flags into
  the platform's and back, the ones of the socket interface and of poll, and the template of a
  temporary name. The platform's headers are the argument \<^verbatim>\<open>os\<close>, the value of each macro or None
  where the platform lacks it; a C int is an integer of HOL, on which the bitwise operations agree.
  A refusal is its error number on the left of a sum.
\<close>

type_synonym os_macros = "string \<Rightarrow> int option"
type_synonym sppc_pair = "int \<times> int"  \<comment> \<open>sppc's value, the platform's\<close>

section \<open>Translation\<close>

fun sppc_to_os_value :: "int \<Rightarrow> sppc_pair list \<Rightarrow> int + int" where
  "sppc_to_os_value v [] = Inl SPPC_EINVAL"
| "sppc_to_os_value v (p # ps) = (if fst p = v then Inr (snd p) else sppc_to_os_value v ps)"

fun sppc_from_os_value :: "int \<Rightarrow> sppc_pair list \<Rightarrow> int \<Rightarrow> int" where
  "sppc_from_os_value v [] fallback = fallback"
| "sppc_from_os_value v (p # ps) fallback = (if snd p = v then fst p else sppc_from_os_value v ps fallback)"

text \<open>The loop over the flags' table: what is left to translate, and what has been.\<close>

fun to_os_flags_loop :: "sppc_pair list \<Rightarrow> int \<Rightarrow> int \<Rightarrow> int \<times> int" where
  "to_os_flags_loop [] flags os = (flags, os)"
| "to_os_flags_loop (p # ps) flags os =
     (if flags = 0 then (flags, os)
      else if fst p \<noteq> 0 \<and> flags AND fst p = fst p
      then to_os_flags_loop ps (flags AND NOT (fst p)) (os OR snd p)
      else to_os_flags_loop ps flags os)"

definition sppc_to_os_flags :: "int \<Rightarrow> sppc_pair list \<Rightarrow> int + int" where
  "sppc_to_os_flags flags table =
     (let (left, os) = to_os_flags_loop table flags 0 in if left \<noteq> 0 then Inl SPPC_EINVAL else Inr os)"

fun from_os_flags_loop :: "sppc_pair list \<Rightarrow> int \<Rightarrow> int \<Rightarrow> int" where
  "from_os_flags_loop [] flags out = out"
| "from_os_flags_loop (p # ps) flags out =
     (if flags = 0 then out
      else if snd p \<noteq> 0 \<and> flags AND snd p = snd p
      then from_os_flags_loop ps (flags AND NOT (snd p)) (out OR fst p)
      else from_os_flags_loop ps flags out)"

definition sppc_from_os_flags :: "int \<Rightarrow> sppc_pair list \<Rightarrow> int" where
  "sppc_from_os_flags flags table = from_os_flags_loop table flags 0"

definition sppc_table_is_identity :: "sppc_pair list \<Rightarrow> bool" where
  "sppc_table_is_identity table = list_all (\<lambda>p. fst p = snd p) table"

text \<open>\<^verbatim>\<open>_SPPC_PAIR\<close> of each name: an entry per macro the platform has.\<close>

definition pair_table :: "os_macros \<Rightarrow> (string \<times> int) list \<Rightarrow> sppc_pair list" where
  "pair_table os names = List.map_filter (\<lambda>(n, v). map_option (Pair v) (os n)) names"

section \<open>Sockets\<close>

definition sppc_af_table :: "os_macros \<Rightarrow> sppc_pair list" where
  "sppc_af_table os = pair_table os
     [(''AF_UNSPEC'', SPPC_AF_UNSPEC), (''AF_UNIX'', SPPC_AF_UNIX),
      (''AF_INET'', SPPC_AF_INET), (''AF_INET6'', SPPC_AF_INET6)]"

definition sppc_sock_types_table :: "os_macros \<Rightarrow> sppc_pair list" where
  "sppc_sock_types_table os = pair_table os
     [(''SOCK_STREAM'', SPPC_SOCK_STREAM), (''SOCK_DGRAM'', SPPC_SOCK_DGRAM),
      (''SOCK_RAW'', SPPC_SOCK_RAW), (''SOCK_SEQPACKET'', SPPC_SOCK_SEQPACKET)]"

text \<open>The two flags of a socket's type: the platform's, or stand-ins where it takes neither.\<close>

definition sock_flags_by_fcntl :: "os_macros \<Rightarrow> bool" where
  "sock_flags_by_fcntl os = (os ''SOCK_NONBLOCK'' = None)"

definition os_sock_nonblock :: "os_macros \<Rightarrow> int" where
  "os_sock_nonblock os = (case os ''SOCK_NONBLOCK'' of Some v \<Rightarrow> v | None \<Rightarrow> 0x10000000)"

definition os_sock_cloexec :: "os_macros \<Rightarrow> int" where
  "os_sock_cloexec os =
     (if sock_flags_by_fcntl os then 0x20000000
      else (case os ''SOCK_CLOEXEC'' of Some v \<Rightarrow> v | None \<Rightarrow> 0))"

definition sppc_to_os_sock_type :: "os_macros \<Rightarrow> int \<Rightarrow> int + int" where
  "sppc_to_os_sock_type os type =
     (let flags = [(SPPC_SOCK_NONBLOCK, os_sock_nonblock os), (SPPC_SOCK_CLOEXEC, os_sock_cloexec os)];
          sppc_flags = type AND (SPPC_SOCK_NONBLOCK OR SPPC_SOCK_CLOEXEC)
      in case sppc_to_os_value (type AND NOT sppc_flags) (sppc_sock_types_table os) of
           Inl _ \<Rightarrow> Inl SPPC_EINVAL
         | Inr os_type \<Rightarrow>
             (case sppc_to_os_flags sppc_flags flags of
                Inl _ \<Rightarrow> Inl SPPC_EINVAL
              | Inr os_flags \<Rightarrow> Inr (os_type OR os_flags)))"

definition msg_flags_table :: "os_macros \<Rightarrow> sppc_pair list" where
  "msg_flags_table os = pair_table os
     [(''MSG_OOB'', SPPC_MSG_OOB), (''MSG_PEEK'', SPPC_MSG_PEEK), (''MSG_DONTROUTE'', SPPC_MSG_DONTROUTE),
      (''MSG_WAITALL'', SPPC_MSG_WAITALL), (''MSG_TRUNC'', SPPC_MSG_TRUNC),
      (''MSG_DONTWAIT'', SPPC_MSG_DONTWAIT), (''MSG_NOSIGNAL'', SPPC_MSG_NOSIGNAL)]"

definition sppc_to_os_msg_flags :: "os_macros \<Rightarrow> int \<Rightarrow> int + int" where
  "sppc_to_os_msg_flags os flags =
     (if flags = 0 then Inr 0 else sppc_to_os_flags flags (msg_flags_table os))"

definition sockopt_socket :: "os_macros \<Rightarrow> sppc_pair list" where
  "sockopt_socket os = pair_table os
     [(''SO_DEBUG'', SPPC_SO_DEBUG), (''SO_REUSEADDR'', SPPC_SO_REUSEADDR), (''SO_TYPE'', SPPC_SO_TYPE),
      (''SO_ERROR'', SPPC_SO_ERROR), (''SO_DONTROUTE'', SPPC_SO_DONTROUTE), (''SO_BROADCAST'', SPPC_SO_BROADCAST),
      (''SO_SNDBUF'', SPPC_SO_SNDBUF), (''SO_RCVBUF'', SPPC_SO_RCVBUF), (''SO_KEEPALIVE'', SPPC_SO_KEEPALIVE),
      (''SO_OOBINLINE'', SPPC_SO_OOBINLINE), (''SO_LINGER'', SPPC_SO_LINGER), (''SO_RCVLOWAT'', SPPC_SO_RCVLOWAT),
      (''SO_SNDLOWAT'', SPPC_SO_SNDLOWAT), (''SO_RCVTIMEO'', SPPC_SO_RCVTIMEO), (''SO_SNDTIMEO'', SPPC_SO_SNDTIMEO),
      (''SO_ACCEPTCONN'', SPPC_SO_ACCEPTCONN), (''SO_REUSEPORT'', SPPC_SO_REUSEPORT)]"

definition sockopt_tcp :: "os_macros \<Rightarrow> sppc_pair list" where
  "sockopt_tcp os =
     pair_table os [(''TCP_NODELAY'', SPPC_TCP_NODELAY), (''TCP_MAXSEG'', SPPC_TCP_MAXSEG)] @
     (if os ''TCP_KEEPIDLE'' \<noteq> None then pair_table os [(''TCP_KEEPIDLE'', SPPC_TCP_KEEPIDLE)]
      else pair_table os [(''TCP_KEEPALIVE'', SPPC_TCP_KEEPIDLE)]) @
     pair_table os [(''TCP_KEEPINTVL'', SPPC_TCP_KEEPINTVL), (''TCP_KEEPCNT'', SPPC_TCP_KEEPCNT)]"

definition sockopt_ip :: "os_macros \<Rightarrow> sppc_pair list" where
  "sockopt_ip os = pair_table os
     [(''IP_TOS'', SPPC_IP_TOS), (''IP_TTL'', SPPC_IP_TTL), (''IP_MULTICAST_TTL'', SPPC_IP_MULTICAST_TTL),
      (''IP_MULTICAST_LOOP'', SPPC_IP_MULTICAST_LOOP)]"

definition sockopt_ipv6 :: "os_macros \<Rightarrow> sppc_pair list" where
  "sockopt_ipv6 os = pair_table os
     [(''IPV6_UNICAST_HOPS'', SPPC_IPV6_UNICAST_HOPS), (''IPV6_MULTICAST_HOPS'', SPPC_IPV6_MULTICAST_HOPS),
      (''IPV6_MULTICAST_LOOP'', SPPC_IPV6_MULTICAST_LOOP), (''IPV6_V6ONLY'', SPPC_IPV6_V6ONLY)]"

text \<open>A level's table and the platform's level, of the levels there are.\<close>

definition sockopt_level :: "os_macros \<Rightarrow> int \<Rightarrow> (sppc_pair list \<times> int) option" where
  "sockopt_level os level =
     (if level = SPPC_SOL_SOCKET then map_option (Pair (sockopt_socket os)) (os ''SOL_SOCKET'')
      else if level = SPPC_IPPROTO_TCP then map_option (Pair (sockopt_tcp os)) (os ''IPPROTO_TCP'')
      else if level = SPPC_IPPROTO_IP then map_option (Pair (sockopt_ip os)) (os ''IPPROTO_IP'')
      else if level = SPPC_IPPROTO_IPV6 then map_option (Pair (sockopt_ipv6 os)) (os ''IPPROTO_IPV6'')
      else None)"

definition sppc_to_os_sockopt :: "os_macros \<Rightarrow> int \<Rightarrow> int \<Rightarrow> int + int \<times> int" where
  "sppc_to_os_sockopt os level name =
     (case sockopt_level os level of
        None \<Rightarrow> Inl SPPC_ENOPROTOOPT
      | Some (table, os_level) \<Rightarrow>
          (case sppc_to_os_value name table of
             Inl _ \<Rightarrow> Inl SPPC_ENOPROTOOPT
           | Inr os_name \<Rightarrow> Inr (os_level, os_name)))"

section \<open>Poll\<close>

definition sppc_poll_table :: "os_macros \<Rightarrow> sppc_pair list" where
  "sppc_poll_table os = pair_table os
     [(''POLLIN'', SPPC_POLLIN), (''POLLPRI'', SPPC_POLLPRI), (''POLLOUT'', SPPC_POLLOUT), (''POLLERR'', SPPC_POLLERR),
      (''POLLHUP'', SPPC_POLLHUP), (''POLLNVAL'', SPPC_POLLNVAL), (''POLLRDNORM'', SPPC_POLLRDNORM),
      (''POLLRDBAND'', SPPC_POLLRDBAND), (''POLLWRNORM'', SPPC_POLLWRNORM), (''POLLWRBAND'', SPPC_POLLWRBAND)]"

section \<open>Temporary names\<close>

definition sppc_is_temp_template :: "string \<Rightarrow> bool" where
  "sppc_is_temp_template path =
     (let len = length path in len \<ge> 6 \<and> take 6 (drop (len - 6) path) = ''XXXXXX'')"

section \<open>Facts\<close>

lemma to_os_value_Inr: "sppc_to_os_value v t = Inr w \<Longrightarrow> (v, w) \<in> set t"
  by (induction t) (auto split: if_splits)

lemma to_os_value_Inl: "sppc_to_os_value v t = Inl e \<longleftrightarrow> v \<notin> fst ` set t \<and> e = SPPC_EINVAL"
  by (induction t) auto

lemma from_os_value_unique:
  "(v, w) \<in> set t \<Longrightarrow> distinct (map snd t) \<Longrightarrow> sppc_from_os_value w t f = v"
  by (induction t) force+

lemma from_os_value_fallback: "w \<notin> snd ` set t \<Longrightarrow> sppc_from_os_value w t f = f"
  by (induction t) auto

text \<open>A flags' table whose entries share no bit, on either side.\<close>

fun apart :: "int list \<Rightarrow> bool" where
  "apart [] \<longleftrightarrow> True"
| "apart (x # xs) \<longleftrightarrow> x \<noteq> 0 \<and> list_all (\<lambda>y. x AND y = 0) xs \<and> apart xs"

lemma and_zeroD: "(x :: int) AND y = 0 \<Longrightarrow> bit x n \<Longrightarrow> \<not> bit y n"
  by (metis bit_0_eq bit_and_iff bot_apply bot_bool_def)

lemma and_zeroI: "(\<And>n. bit x n \<Longrightarrow> \<not> bit y n) \<Longrightarrow> (x :: int) AND y = 0"
  by (rule bit_eqI) (auto simp: bit_and_iff)

lemma to_os_loop_grows:
  "to_os_flags_loop t flags os = (l, r) \<Longrightarrow> bit os n \<Longrightarrow> bit r n"
  by (induction t arbitrary: flags os) (auto simp: bit_or_iff split: if_splits)

lemma to_os_loop_only:
  "to_os_flags_loop t flags os = (l, r) \<Longrightarrow> bit r n \<Longrightarrow> bit os n \<or> (\<exists>p \<in> set t. bit (snd p) n)"
  by (induction t arbitrary: flags os) (fastforce simp: bit_or_iff split: if_splits)+

lemma flags_round_trip:
  assumes "to_os_flags_loop t flags os = (0, r)" and "apart (map fst t)" and "apart (map snd t)"
    and "list_all (\<lambda>p. os AND snd p = 0) t"
  shows "from_os_flags_loop t (r AND NOT os) out = out OR flags"
  using assms
proof (induction t arbitrary: flags os out)
  case Nil
  then show ?case by simp
next
  case (Cons p ps)
  obtain s o' where p: "p = (s, o')" by (cases p)
  show ?case
  proof (cases "flags = 0")
    case True
    then have "r AND NOT os = 0" using Cons.prems(1) by (auto intro: and_zeroI simp: bit_not_iff)
    then show ?thesis using True by simp
  next
    case False
    show ?thesis
    proof (cases "s \<noteq> 0 \<and> flags AND s = s")
      case True
      have l: "to_os_flags_loop ps (flags AND NOT s) (os OR o') = (0, r)"
        using Cons.prems(1) False True p by simp
      have disj: "list_all (\<lambda>p. (os OR o') AND snd p = 0) ps"
        unfolding list_all_iff
      proof
        fix q assume q: "q \<in> set ps"
        have "os AND snd q = 0" "o' AND snd q = 0" using Cons.prems(3,4) p q by (auto simp: list_all_iff)
        then show "(os OR o') AND snd q = 0" by (intro and_zeroI) (auto simp: bit_or_iff dest: and_zeroD)
      qed
      have sub: "(r AND NOT os) AND o' = o'"
      proof (rule bit_eqI)
        fix n
        have "bit o' n \<Longrightarrow> bit r n" using to_os_loop_grows [OF l, of n] by (simp add: bit_or_iff)
        moreover have "bit o' n \<Longrightarrow> \<not> bit os n" using Cons.prems(4) p and_zeroD by fastforce
        ultimately show "bit ((r AND NOT os) AND o') n = bit o' n" by (auto simp: bit_and_iff bit_not_iff)
      qed
      have nz: "o' \<noteq> 0" using Cons.prems(3) p by simp
      then have "r AND NOT os \<noteq> 0" using sub by auto
      moreover have "(r AND NOT os) AND NOT o' = r AND NOT (os OR o')" by (rule bit_eqI) (auto simp: bit_simps)
      moreover have "(out OR s) OR (flags AND NOT s) = out OR flags"
      proof (rule bit_eqI)
        fix n
        have "bit s n \<Longrightarrow> bit flags n" using True by (metis bit_and_iff)
        then show "bit ((out OR s) OR (flags AND NOT s)) n = bit (out OR flags) n" by (auto simp: bit_simps)
      qed
      ultimately show ?thesis
        using Cons.IH [OF l _ _ disj, of "out OR s"] Cons.prems(2,3) sub nz p by simp
    next
      case ntaken: False
      have l: "to_os_flags_loop ps flags os = (0, r)" using Cons.prems(1) False ntaken p by auto
      have "(r AND NOT os) AND o' = 0"
      proof (rule and_zeroI)
        fix n
        assume "bit (r AND NOT os) n"
        then obtain q where "q \<in> set ps" "bit (snd q) n"
          using to_os_loop_only [OF l, of n] by (auto simp: bit_and_iff bit_not_iff)
        then show "\<not> bit o' n" using Cons.prems(3) p and_zeroD by (fastforce simp: list_all_iff)
      qed
      moreover have "o' \<noteq> 0" using Cons.prems(3) p by simp
      ultimately have nt: "\<not> (snd p \<noteq> 0 \<and> (r AND NOT os) AND snd p = snd p)" using p by simp
      have IH: "from_os_flags_loop ps (r AND NOT os) out = out OR flags"
        using Cons.IH [OF l] Cons.prems p by simp
      show ?thesis
      proof (cases "r AND NOT os = 0")
        case True
        then have "from_os_flags_loop ps (r AND NOT os) out = out" by (cases ps) simp_all
        then show ?thesis using IH True by simp
      next
        case False
        then show ?thesis using nt IH by auto
      qed
    qed
  qed
qed

lemma to_os_loop_left:
  "apart (map fst t) \<Longrightarrow>
     fst (to_os_flags_loop t flags os) =
       flags AND NOT (fold (OR) (map fst (filter (\<lambda>p. flags AND fst p = fst p) t)) 0)"
proof (induction t arbitrary: flags os)
  case Nil
  then show ?case by simp
next
  case (Cons p ps)
  have foldor: "fold (OR) xs (a :: int) = a OR fold (OR) xs 0" for xs a
  proof (induction xs arbitrary: a)
    case (Cons x xs)
    show ?case
      using Cons.IH [of "x OR a"] Cons.IH [of x] by (simp only: fold_simps or.right_neutral) (simp add: ac_simps)
  qed simp
  have same: "filter (\<lambda>q. (flags AND NOT (fst p)) AND fst q = fst q) ps = filter (\<lambda>q. flags AND fst q = fst q) ps"
  proof (rule filter_cong [OF refl])
    fix q assume "q \<in> set ps"
    then have d: "fst p AND fst q = 0" using Cons.prems by (simp add: list_all_iff)
    have "(flags AND NOT (fst p)) AND fst q = flags AND fst q"
      by (rule bit_eqI) (use and_zeroD [OF d] in \<open>auto simp: bit_simps\<close>)
    then show "((flags AND NOT (fst p)) AND fst q = fst q) = (flags AND fst q = fst q)" by simp
  qed
  have eq: "(flags AND NOT x) AND NOT y = flags AND NOT (x OR y)" for x y by (rule bit_eqI) (auto simp: bit_simps)
  have ap: "apart (map fst ps)" using Cons.prems by simp
  consider "flags = 0" | "flags \<noteq> 0" "fst p \<noteq> 0 \<and> flags AND fst p = fst p" | "flags \<noteq> 0" "\<not> (fst p \<noteq> 0 \<and> flags AND fst p = fst p)"
    by blast
  then show ?case
  proof cases
    case 1
    then show ?thesis by simp
  next
    case 2
    have "fst (to_os_flags_loop (p # ps) flags os) = fst (to_os_flags_loop ps (flags AND NOT (fst p)) (os OR snd p))"
      using 2 by simp
    also have "\<dots> = (flags AND NOT (fst p)) AND NOT (fold (OR) (map fst (filter (\<lambda>q. flags AND fst q = fst q) ps)) 0)"
      using Cons.IH [OF ap, of "flags AND NOT (fst p)"] unfolding same .
    also have "\<dots> = flags AND NOT (fst p OR fold (OR) (map fst (filter (\<lambda>q. flags AND fst q = fst q) ps)) 0)"
      by (rule eq)
    also have "fst p OR fold (OR) (map fst (filter (\<lambda>q. flags AND fst q = fst q) ps)) 0 =
        fold (OR) (map fst (filter (\<lambda>q. flags AND fst q = fst q) (p # ps))) 0"
      using 2 foldor [of _ "fst p"] by simp
    finally show ?thesis .
  next
    case 3
    have "fst p \<noteq> 0" using Cons.prems by simp
    then show ?thesis using 3 Cons.IH [OF ap, of flags os] by simp
  qed
qed


section \<open>Properties\<close>

text \<open>Flags translate there and back. For a table whose entries share no bit, on sppc's side or
  on the platform's, translating flags to the platform's either refuses them, exactly when some bit
  of theirs belongs to no entry wholly present, or gives flags that translate back to the same.\<close>

theorem flags_translation:
  assumes "apart (map fst table)" and "apart (map snd table)"
  shows "case sppc_to_os_flags flags table of
      Inl e \<Rightarrow> e = SPPC_EINVAL \<and>
        flags AND NOT (fold (OR) (map fst (filter (\<lambda>p. flags AND fst p = fst p) table)) 0) \<noteq> 0
    | Inr os \<Rightarrow> sppc_from_os_flags os table = flags \<and>
        flags AND NOT (fold (OR) (map fst (filter (\<lambda>p. flags AND fst p = fst p) table)) 0) = 0"
proof -
  obtain l r where l: "to_os_flags_loop table flags 0 = (l, r)" by (cases "to_os_flags_loop table flags 0")
  have left: "l = flags AND NOT (fold (OR) (map fst (filter (\<lambda>p. flags AND fst p = fst p) table)) 0)"
    using to_os_loop_left [OF assms(1), of flags 0] l by simp
  have "from_os_flags_loop table (r AND NOT 0) 0 = 0 OR flags" if "l = 0"
    by (rule flags_round_trip [OF _ assms]) (use l that in \<open>simp_all add: list_all_iff\<close>)
  then show ?thesis using l left by (auto simp: sppc_to_os_flags_def sppc_from_os_flags_def)
qed

text \<open>Linux's values of the macros the witnesses use.\<close>

definition linux_macros :: os_macros where
  "linux_macros n = (if n = ''MSG_OOB'' then Some 1 else if n = ''MSG_PEEK'' then Some 2
     else if n = ''MSG_DONTWAIT'' then Some 64 else if n = ''AF_INET'' then Some 2
     else if n = ''AF_INET6'' then Some 10 else None)"

theorem flags_translation_witness:
  "case sppc_to_os_flags 66 (msg_flags_table linux_macros) of
      Inl e \<Rightarrow> e = SPPC_EINVAL \<and>
        66 AND NOT (fold (OR) (map fst (filter (\<lambda>p. 66 AND fst p = fst p) (msg_flags_table linux_macros))) 0) \<noteq> 0
    | Inr os \<Rightarrow> sppc_from_os_flags os (msg_flags_table linux_macros) = 66 \<and>
        66 AND NOT (fold (OR) (map fst (filter (\<lambda>p. 66 AND fst p = fst p) (msg_flags_table linux_macros))) 0) = 0"
  by (rule flags_translation)
    (simp_all add: msg_flags_table_def pair_table_def linux_macros_def map_filter_simps)

text \<open>A value the platform has translates back to the sppc value it came from; a value it lacks is
  refused, and one of the platform's own with no sppc name comes back as the fallback.\<close>

theorem values_translation:
  assumes "distinct (map snd table)"
  shows "(case sppc_to_os_value v table of
      Inl e \<Rightarrow> e = SPPC_EINVAL \<and> v \<notin> fst ` set table
    | Inr w \<Rightarrow> sppc_from_os_value w table fallback = v) \<and>
    (if u \<in> snd ` set table then sppc_to_os_value (sppc_from_os_value u table fallback) table \<noteq> Inl SPPC_EINVAL
     else sppc_from_os_value u table fallback = fallback)"
proof -
  have "u \<in> snd ` set table \<Longrightarrow> sppc_from_os_value u table fallback \<in> fst ` set table"
    by (induction table) auto
  then have "u \<in> snd ` set table \<Longrightarrow>
      sppc_to_os_value (sppc_from_os_value u table fallback) table \<noteq> Inl SPPC_EINVAL"
    by (simp add: to_os_value_Inl)
  then show ?thesis
    using from_os_value_fallback [of u table fallback] assms
    by (auto split: sum.splits simp: to_os_value_Inl dest!: to_os_value_Inr intro: from_os_value_unique)
qed

theorem values_translation_witness:
  "(case sppc_to_os_value 10 (sppc_af_table linux_macros) of
      Inl e \<Rightarrow> e = SPPC_EINVAL \<and> 10 \<notin> fst ` set (sppc_af_table linux_macros)
    | Inr w \<Rightarrow> sppc_from_os_value w (sppc_af_table linux_macros) SPPC_AF_UNSPEC = 10) \<and>
    (if 17 \<in> snd ` set (sppc_af_table linux_macros)
     then sppc_to_os_value (sppc_from_os_value 17 (sppc_af_table linux_macros) SPPC_AF_UNSPEC)
            (sppc_af_table linux_macros) \<noteq> Inl SPPC_EINVAL
     else sppc_from_os_value 17 (sppc_af_table linux_macros) SPPC_AF_UNSPEC = SPPC_AF_UNSPEC)"
  by (rule values_translation)
    (simp add: sppc_af_table_def pair_table_def linux_macros_def map_filter_simps)

text \<open>A socket's type is its kind with two flags or'd in. Only the kind can be refused; each flag
  contributes the platform's bit (or the stand-in's) by itself.\<close>

theorem sock_type_splits:
  "sppc_to_os_sock_type os type =
    (case sppc_to_os_value (type AND NOT 0x80800) (sppc_sock_types_table os) of
       Inl _ \<Rightarrow> Inl SPPC_EINVAL
     | Inr kind \<Rightarrow>
         Inr (kind OR ((if bit type 11 then os_sock_nonblock os else 0) OR
                       (if bit type 19 then os_sock_cloexec os else 0))))"
proof -
  let ?m = "0x80800 :: int" and ?f = "type AND 0x80800"
  have m: "bit ?m n \<longleftrightarrow> n = 11 \<or> n = 19" for n
  proof -
    have "?m = 2 ^ 11 OR 2 ^ 19" by simp
    then have "bit ?m n = (bit ((2::int) ^ 11) n \<or> bit ((2::int) ^ 19) n)" by (simp only: bit_or_iff)
    then show ?thesis by (simp only: bit_exp_iff) auto
  qed
  have f: "?f = (if bit type 11 then 0x800 else 0) OR (if bit type 19 then 0x80000 else 0)"
  proof (rule bit_eqI)
    fix n
    have "bit (0x800 :: int) n \<longleftrightarrow> n = 11" "bit (0x80000 :: int) n \<longleftrightarrow> n = 19"
      using bit_exp_iff [of 11 n, where 'a = int] bit_exp_iff [of 19 n, where 'a = int] by simp_all
    then show "bit ?f n = bit ((if bit type 11 then 0x800 else 0) OR (if bit type 19 then 0x80000 else (0::int))) n"
      by (auto simp: bit_and_iff bit_or_iff m)
  qed
  have "type AND NOT ?f = type AND NOT ?m" by (rule bit_eqI) (auto simp: bit_simps)
  moreover have "sppc_to_os_flags ?f [(0x800, os_sock_nonblock os), (0x80000, os_sock_cloexec os)] =
      Inr ((if bit type 11 then os_sock_nonblock os else 0) OR (if bit type 19 then os_sock_cloexec os else 0))"
    unfolding f by (simp add: sppc_to_os_flags_def)
  ultimately show ?thesis
    by (auto simp: sppc_to_os_sock_type_def Let_def split: sum.splits)
qed

end
