(* ===== verification/Strings.thy ===== *)
theory Strings
  imports Shared
begin

text \<open>
  The memory and string helpers of every platform (platform/common.h), and the socket addresses.
  A region of memory is its bytes; a C string is its bytes before the terminating zero. An access
  outside a region is undefined in C: None. The functions of the C library these are built on
  (memchr, strstr and the rest) are defined here as the C standard has them.
\<close>

type_synonym bytes = "u8 list"

text \<open>\<^verbatim>\<open>_return_found\<close>: the error, and the index written, if any.\<close>

definition return_found :: "nat option \<Rightarrow> int \<times> nat option" where
  "return_found r = (case r of Some i \<Rightarrow> (0, Some i) | None \<Rightarrow> (SPPC_ENOENT, None))"

definition sret_sign :: "int \<Rightarrow> int" where
  "sret_sign err = (if err < 0 then - 1 else if err > 0 then 1 else 0)"

section \<open>Memory\<close>

text \<open>The bytes of a region from an index on replaced by others.\<close>

definition put_bytes :: "bytes \<Rightarrow> nat \<Rightarrow> bytes \<Rightarrow> bytes" where
  "put_bytes dest i bs = take i dest @ bs @ drop (i + length bs) dest"

definition sppc_memcpy :: "bytes \<Rightarrow> bytes \<Rightarrow> nat \<Rightarrow> nat \<Rightarrow> nat \<Rightarrow> (int \<times> bytes) option" where
  "sppc_memcpy dest src n dest_index src_index =
     (if dest_index + n \<le> length dest \<and> src_index + n \<le> length src
      then Some (0, put_bytes dest dest_index (take n (drop src_index src))) else None)"

text \<open>Both regions within one buffer, at offsets that may overlap.\<close>

definition sppc_memmove :: "bytes \<Rightarrow> nat \<Rightarrow> nat \<Rightarrow> nat \<Rightarrow> (int \<times> bytes) option" where
  "sppc_memmove buf dest src n =
     (if dest + n \<le> length buf \<and> src + n \<le> length buf
      then Some (0, put_bytes buf dest (take n (drop src buf))) else None)"

definition sppc_memset :: "bytes \<Rightarrow> int \<Rightarrow> nat \<Rightarrow> nat \<Rightarrow> (int \<times> bytes) option" where
  "sppc_memset dest value n dest_index =
     (if dest_index + n \<le> length dest
      then Some (0, put_bytes dest dest_index (replicate n (word_of_int value))) else None)"

text \<open>The difference of the first bytes that differ.\<close>

fun c_memcmp :: "bytes \<Rightarrow> bytes \<Rightarrow> int" where
  "c_memcmp (a # as) (b # bs) = (if a = b then c_memcmp as bs else uint a - uint b)"
| "c_memcmp _ _ = 0"

definition sppc_memcmp :: "bytes \<Rightarrow> bytes \<Rightarrow> nat \<Rightarrow> (int \<times> int) option" where
  "sppc_memcmp ptr1 ptr2 n =
     (if n \<le> length ptr1 \<and> n \<le> length ptr2
      then Some (0, sret_sign (c_memcmp (take n ptr1) (take n ptr2))) else None)"

definition occurs_at :: "bytes \<Rightarrow> bytes \<Rightarrow> nat \<Rightarrow> bool" where
  "occurs_at needle hay i \<longleftrightarrow> i + length needle \<le> length hay \<and> take (length needle) (drop i hay) = needle"

definition c_strstr :: "bytes \<Rightarrow> bytes \<Rightarrow> nat option" where
  "c_strstr hay needle = List.find (occurs_at needle hay) [0..<length hay + 1]"

definition sppc_memmem :: "bytes \<Rightarrow> nat \<Rightarrow> bytes \<Rightarrow> nat \<Rightarrow> (int \<times> nat option) option" where
  "sppc_memmem haystack haystack_size needle needle_size =
     (if haystack_size \<le> length haystack \<and> needle_size \<le> length needle
      then Some (return_found (c_strstr (take haystack_size haystack) (take needle_size needle))) else None)"

section \<open>Strings\<close>

text \<open>The loop of \<^verbatim>\<open>_sppc_strrstr\<close>: the place searched from, and the last occurrence seen.\<close>

partial_function (option) strrstr_loop :: "bytes \<Rightarrow> bytes \<Rightarrow> nat \<Rightarrow> nat option \<Rightarrow> nat option option" where
  "strrstr_loop hay needle p lst =
     (case c_strstr (drop p hay) needle of
        None \<Rightarrow> Some lst
      | Some i \<Rightarrow> strrstr_loop hay needle (p + i + 1) (Some (p + i)))"

definition c_strrstr :: "bytes \<Rightarrow> bytes \<Rightarrow> nat option option" where
  "c_strrstr hay needle =
     (if needle = [] then Some (Some (length hay)) else strrstr_loop hay needle 0 None)"

text \<open>The destination's region must have room for the string and its zero.\<close>

definition sppc_strcpy :: "bytes \<Rightarrow> bytes \<Rightarrow> (int \<times> bytes) option" where
  "sppc_strcpy dest src =
     (if length src < length dest then Some (0, put_bytes dest 0 (src @ [0])) else None)"

definition c_string :: "bytes \<Rightarrow> bytes" where
  "c_string region = takeWhile (\<lambda>b. b \<noteq> 0) region"

definition sppc_strcat :: "bytes \<Rightarrow> bytes \<Rightarrow> (int \<times> bytes) option" where
  "sppc_strcat dest src =
     (let n = length (c_string dest) in
      if n + length src < length dest then Some (0, put_bytes dest n (src @ [0])) else None)"

definition sppc_strcmp :: "bytes \<Rightarrow> bytes \<Rightarrow> int \<times> bool" where
  "sppc_strcmp str1 str2 = (0, c_memcmp (str1 @ [0]) (str2 @ [0]) = 0)"

definition to_lower :: "u8 \<Rightarrow> u8" where
  "to_lower b = (if 65 \<le> b \<and> b \<le> 90 then b + 32 else b)"

definition sppc_strcasecmp :: "bytes \<Rightarrow> bytes \<Rightarrow> int \<times> bool" where
  "sppc_strcasecmp str1 str2 =
     (0, c_memcmp (map to_lower str1 @ [0]) (map to_lower str2 @ [0]) = 0)"

text \<open>The zero that ends the string can be found too.\<close>

definition sppc_strchr :: "bytes \<Rightarrow> u8 \<Rightarrow> int \<times> nat option" where
  "sppc_strchr str ch = return_found (List.find (\<lambda>i. (str @ [0]) ! i = ch) [0..<length str + 1])"

definition sppc_strrchr :: "bytes \<Rightarrow> u8 \<Rightarrow> int \<times> nat option" where
  "sppc_strrchr str ch = return_found (List.find (\<lambda>i. (str @ [0]) ! i = ch) (rev [0..<length str + 1]))"

definition sppc_strstr :: "bytes \<Rightarrow> bytes \<Rightarrow> int \<times> nat option" where
  "sppc_strstr haystack needle = return_found (c_strstr haystack needle)"

definition sppc_strrstr :: "bytes \<Rightarrow> bytes \<Rightarrow> (int \<times> nat option) option" where
  "sppc_strrstr haystack needle = map_option return_found (c_strrstr haystack needle)"

definition sppc_strcasestr :: "bytes \<Rightarrow> bytes \<Rightarrow> int \<times> nat option" where
  "sppc_strcasestr haystack needle = return_found (c_strstr (map to_lower haystack) (map to_lower needle))"

definition sppc_strpbrk :: "bytes \<Rightarrow> bytes \<Rightarrow> int \<times> nat option" where
  "sppc_strpbrk string accept = return_found (List.find (\<lambda>i. string ! i \<in> set accept) [0..<length string])"

text \<open>The copy's bytes, zero included, or NULL when the allocation fails.\<close>

definition sppc_strdup :: "bool \<Rightarrow> bytes \<Rightarrow> bytes option" where
  "sppc_strdup malloc str = (if malloc then Some (str @ [0]) else None)"

section \<open>Socket addresses\<close>

text \<open>The platform's address, as its own fields hold it; \<^verbatim>\<open>big\<close> is the byte order.\<close>

record os_sockaddr =
  ss_family :: int
  sin_port :: u16
  sin_addr :: bytes
  sin_zero :: bytes
  sin6_port :: u16
  sin6_flowinfo :: u32
  sin6_scope_id :: u32
  sin6_addr :: bytes

definition sppc_net16 :: "bool \<Rightarrow> u16 \<Rightarrow> u16" where
  "sppc_net16 big v = (if big then v else push_bit 8 v OR drop_bit 8 v)"

definition sppc_set_sockaddr_v4 :: "bool \<Rightarrow> int \<Rightarrow> bytes \<Rightarrow> u16 \<Rightarrow> os_sockaddr \<Rightarrow> os_sockaddr" where
  "sppc_set_sockaddr_v4 big af_inet octets port addr =
     addr\<lparr>ss_family := af_inet, sin_port := sppc_net16 big port, sin_zero := replicate 8 0,
          sin_addr := take 4 octets\<rparr>"

definition sppc_set_sockaddr_v6 :: "bool \<Rightarrow> int \<Rightarrow> u16 list \<Rightarrow> u16 \<Rightarrow> os_sockaddr \<Rightarrow> os_sockaddr" where
  "sppc_set_sockaddr_v6 big af_inet6 segments port addr =
     addr\<lparr>ss_family := af_inet6, sin6_port := sppc_net16 big port, sin6_flowinfo := 0, sin6_scope_id := 0,
          sin6_addr := concat (map (\<lambda>i. [ucast (drop_bit 8 (segments ! i)), ucast (segments ! i AND 0xff)]) [0..<8])\<rparr>"

definition sppc_get_sockaddr_v4 :: "bool \<Rightarrow> os_sockaddr \<Rightarrow> bytes \<times> u16" where
  "sppc_get_sockaddr_v4 big addr = (take 4 (sin_addr addr), sppc_net16 big (sin_port addr))"

definition sppc_get_sockaddr_v6 :: "bool \<Rightarrow> os_sockaddr \<Rightarrow> u16 list \<times> u16" where
  "sppc_get_sockaddr_v6 big addr =
     (map (\<lambda>i. push_bit 8 (ucast (sin6_addr addr ! (2 * i))) OR ucast (sin6_addr addr ! (2 * i + 1))) [0..<8],
      sppc_net16 big (sin6_port addr))"

definition sppc_sockaddr_family :: "os_macros \<Rightarrow> os_sockaddr \<Rightarrow> int" where
  "sppc_sockaddr_family os addr = sppc_from_os_value (ss_family addr) (sppc_af_table os) SPPC_AF_UNSPEC"

text \<open>The length of the address in a storage: 16 bytes for IPv4, 28 for any other.\<close>

definition sppc_sockaddr_len :: "int \<Rightarrow> os_sockaddr \<Rightarrow> nat" where
  "sppc_sockaddr_len af_inet addr = (if ss_family addr = af_inet then 16 else 28)"

section \<open>Searching\<close>

lemma find_split:
  "a \<le> b \<Longrightarrow> List.find P (rev [0..<b]) =
     (case List.find P (rev [a..<b]) of Some i \<Rightarrow> Some i | None \<Rightarrow> List.find P (rev [0..<a]))"
proof -
  assume "a \<le> b"
  then have "[0..<b] = [0..<a] @ [a..<b]" by (metis upt_add_eq_append le0 le_add_diff_inverse)
  moreover have "List.find P (xs @ ys) = (case List.find P xs of Some i \<Rightarrow> Some i | None \<Rightarrow> List.find P ys)"
    for xs ys :: "nat list" by (induction xs) auto
  ultimately show ?thesis by simp
qed

lemma find_none_iff: "List.find P xs = None \<longleftrightarrow> (\<forall>x \<in> set xs. \<not> P x)"
  by (induction xs) auto

lemma occurs_drop: "p \<le> length hay \<Longrightarrow> occurs_at needle (drop p hay) i \<longleftrightarrow> occurs_at needle hay (p + i)"
  by (auto simp: occurs_at_def ac_simps)

lemma occurs_bound: "needle \<noteq> [] \<Longrightarrow> occurs_at needle hay i \<Longrightarrow> i < length hay"
  by (auto simp: occurs_at_def) (metis add_diff_cancel_left' diff_is_0_eq length_0_conv not_less add_leD1 le_neq_implies_less)

lemma strrstr_loop_last:
  assumes "needle \<noteq> []" and "p \<le> length hay"
  shows "strrstr_loop hay needle p lst =
    Some (case List.find (occurs_at needle hay) (rev [p..<length hay + 1]) of Some i \<Rightarrow> Some i | None \<Rightarrow> lst)"
  using assms
proof (induction "length hay - p" arbitrary: p lst rule: less_induct)
  case less
  show ?case
  proof (cases "c_strstr (drop p hay) needle")
    case None
    have "\<not> occurs_at needle hay (p + i)" if "i < length hay - p + 1" for i
    proof -
      have "\<not> occurs_at needle (drop p hay) i"
        using None that unfolding c_strstr_def find_none_iff by (simp del: upt_Suc)
      then show ?thesis using less.prems(2) by (simp add: occurs_drop)
    qed
    then have "\<not> occurs_at needle hay j" if pj: "p \<le> j" "j < length hay + 1" for j
    proof -
      obtain i where "j = p + i" using le_Suc_ex [OF pj(1)] by blast
      moreover from this have "i < length hay - p + 1" using pj(2) less.prems(2) by simp
      ultimately show ?thesis using \<open>\<And>i. i < length hay - p + 1 \<Longrightarrow> \<not> occurs_at needle hay (p + i)\<close> by simp
    qed
    then have "List.find (occurs_at needle hay) (rev [p..<length hay + 1]) = None"
      by (auto simp add: find_none_iff)
    then show ?thesis using None by (subst strrstr_loop.simps) simp
  next
    case (Some i)
    then have o: "occurs_at needle hay (p + i)"
      using less.prems by (auto simp: c_strstr_def find_Some_iff occurs_drop)
    then have b: "p + i < length hay" using occurs_bound less.prems(1) by blast
    let ?q = "p + i + 1"
    have IH: "strrstr_loop hay needle ?q (Some (p + i)) =
        Some (case List.find (occurs_at needle hay) (rev [?q..<length hay + 1]) of Some j \<Rightarrow> Some j | None \<Rightarrow> Some (p + i))"
      by (rule less.hyps) (use b less.prems in auto)
    have split: "[p..<length hay + 1] = [p..<p + i] @ [p + i] @ [?q..<length hay + 1]"
    proof -
      have "[p..<length hay + 1] = [p..<p + i] @ [p + i..<length hay + 1]"
        using b upt_add_eq_append [of p "p + i" "length hay + 1 - (p + i)"] by simp
      moreover have "[p + i..<length hay + 1] = (p + i) # [?q..<length hay + 1]" using b by (simp add: upt_conv_Cons)
      ultimately show ?thesis by simp
    qed
    have app: "List.find P (xs @ ys) = (case List.find P xs of Some i \<Rightarrow> Some i | None \<Rightarrow> List.find P ys)"
      for P :: "nat \<Rightarrow> bool" and xs ys by (induction xs) auto
    have "List.find (occurs_at needle hay) (rev [p..<length hay + 1]) =
        (case List.find (occurs_at needle hay) (rev [?q..<length hay + 1]) of Some j \<Rightarrow> Some j | None \<Rightarrow> Some (p + i))"
      unfolding split using o by (simp add: app del: upt_Suc split: option.splits)
    then show ?thesis using Some IH
      by (subst strrstr_loop.simps) (simp split: option.splits del: upt_Suc)
  qed
qed

section \<open>Properties\<close>

text \<open>The backwards search always ends, and finds the last occurrence: the greatest index at which
  the needle stands in the haystack, the haystack's end for an empty needle. Where there is none it
  reports SPPC_ENOENT and leaves the index alone.\<close>

theorem strrstr_finds_last:
  "sppc_strrstr haystack needle =
     Some (return_found (List.find (occurs_at needle haystack) (rev [0..<length haystack + 1])))"
proof (cases "needle = []")
  case True
  then show ?thesis by (simp add: sppc_strrstr_def c_strrstr_def occurs_at_def)
next
  case False
  then have "c_strrstr haystack needle = Some (List.find (occurs_at needle haystack) (rev [0..<length haystack + 1]))"
    using strrstr_loop_last [of needle 0 haystack None]
    by (simp add: c_strrstr_def del: upt_Suc split: option.splits)
  then show ?thesis by (simp add: sppc_strrstr_def)
qed

lemma net16_involution: "sppc_net16 big (sppc_net16 big v) = v"
proof (cases big)
  case False
  have "push_bit 8 (push_bit 8 v OR drop_bit 8 v) OR drop_bit 8 (push_bit 8 v OR drop_bit 8 v) = v"
    by (rule bit_word_eqI) (auto simp: bit_simps)
  then show ?thesis using False by (simp add: sppc_net16_def)
qed (simp add: sppc_net16_def)

lemma low_byte: "ucast (ucast (w :: u16) :: u8) = take_bit 8 w"
  by (simp add: unsigned_ucast_eq)

lemma segment_bytes:
  "push_bit 8 (ucast (ucast (drop_bit 8 v) :: u8)) OR ucast (ucast (v AND 0xff) :: u8) = (v :: u16)"
proof -
  have m: "(0xff :: u16) = mask 8" by (simp add: mask_eq_exp_minus_1)
  show ?thesis unfolding low_byte m by (rule bit_word_eqI) (auto simp: bit_simps)
qed

text \<open>Addresses round-trip, on either byte order: the octets, or the segments, and the port read
  back are those set, the address of the other family is left as it was, and a v6 address is
  stored with the high byte of each segment first.\<close>

theorem sockaddr_round_trip:
  assumes "length octets = 4" and "length segments = 8"
  shows "sppc_get_sockaddr_v4 big (sppc_set_sockaddr_v4 big f octets port addr) = (octets, port) \<and>
    sppc_get_sockaddr_v6 big (sppc_set_sockaddr_v6 big f segments port addr) = (segments, port) \<and>
    sppc_get_sockaddr_v6 big (sppc_set_sockaddr_v4 big f octets port addr) = sppc_get_sockaddr_v6 big addr \<and>
    map (\<lambda>i. sin6_addr (sppc_set_sockaddr_v6 big f segments port addr) ! (2 * i)) [0..<8] =
      map (\<lambda>s. ucast (drop_bit 8 s)) segments"
proof -
  have u8: "[0..<8] = [0, 1, 2, 3, 4, 5, 6, 7::nat]" by (simp add: upt_rec)
  have seg: "segments = [segments ! 0, segments ! 1, segments ! 2, segments ! 3,
      segments ! 4, segments ! 5, segments ! 6, segments ! 7]"
    by (rule nth_equalityI) (use assms(2) in \<open>auto simp: less_Suc_eq numeral_eq_Suc\<close>)
  have "sppc_get_sockaddr_v4 big (sppc_set_sockaddr_v4 big f octets port addr) = (octets, port)"
    using assms(1) by (simp add: sppc_get_sockaddr_v4_def sppc_set_sockaddr_v4_def net16_involution)
  moreover have "sppc_get_sockaddr_v6 big (sppc_set_sockaddr_v6 big f segments port addr) = (segments, port)"
    by (subst (2) seg) (simp add: sppc_get_sockaddr_v6_def sppc_set_sockaddr_v6_def net16_involution u8 segment_bytes)
  moreover have "map (\<lambda>i. sin6_addr (sppc_set_sockaddr_v6 big f segments port addr) ! (2 * i)) [0..<8] =
      map (\<lambda>s. ucast (drop_bit 8 s)) segments"
    by (subst (2) seg) (simp add: sppc_set_sockaddr_v6_def u8)
  ultimately show ?thesis by (simp add: sppc_get_sockaddr_v6_def sppc_set_sockaddr_v4_def)
qed

definition no_sockaddr :: os_sockaddr where
  "no_sockaddr = \<lparr>ss_family = 0, sin_port = 0, sin_addr = [], sin_zero = [], sin6_port = 0,
     sin6_flowinfo = 0, sin6_scope_id = 0, sin6_addr = []\<rparr>"

theorem sockaddr_round_trip_witness:
  "sppc_get_sockaddr_v4 False (sppc_set_sockaddr_v4 False 2 [127, 0, 0, 1] 8080 no_sockaddr) = ([127, 0, 0, 1], 8080) \<and>
    sppc_get_sockaddr_v6 False (sppc_set_sockaddr_v6 False 2 [0x2001, 0xdb8, 0, 0, 0, 0, 0, 1] 8080 no_sockaddr) =
      ([0x2001, 0xdb8, 0, 0, 0, 0, 0, 1], 8080) \<and>
    sppc_get_sockaddr_v6 False (sppc_set_sockaddr_v4 False 2 [127, 0, 0, 1] 8080 no_sockaddr) =
      sppc_get_sockaddr_v6 False no_sockaddr \<and>
    map (\<lambda>i. sin6_addr (sppc_set_sockaddr_v6 False 2 [0x2001, 0xdb8, 0, 0, 0, 0, 0, 1] 8080 no_sockaddr) ! (2 * i)) [0..<8] =
      map (\<lambda>s. ucast (drop_bit 8 s)) [0x2001, 0xdb8, 0, 0, 0, 0, 0, 1 :: u16]"
  by (rule sockaddr_round_trip) simp_all

text \<open>Copying is exact: the bytes copied are the source's, from the index on, and every other byte
  of the destination is as it was; within one buffer the move reads the bytes as they were before
  it wrote any, however the two regions overlap.\<close>

lemma nth_put_bytes:
  assumes "i + length bs \<le> length dest" and "j < length dest"
  shows "put_bytes dest i bs ! j = (if i \<le> j \<and> j < i + length bs then bs ! (j - i) else dest ! j)"
  using assms by (auto simp: put_bytes_def nth_append min_def)

theorem memory_copy_exact:
  assumes "di + n \<le> length dest" and "si + n \<le> length src" and "j < length dest"
  shows "map_option (\<lambda>r. (fst r, length (snd r), snd r ! j)) (sppc_memcpy dest src n di si) =
      Some (0, length dest, if di \<le> j \<and> j < di + n then src ! (si + (j - di)) else dest ! j) \<and>
    (if si + n \<le> length dest
     then map_option (\<lambda>r. (fst r, length (snd r), snd r ! j)) (sppc_memmove dest di si n) =
       Some (0, length dest, if di \<le> j \<and> j < di + n then dest ! (si + (j - di)) else dest ! j)
     else sppc_memmove dest di si n = None)"
proof -
  have put: "length (put_bytes dest di (take n (drop si xs))) = length dest \<and>
      put_bytes dest di (take n (drop si xs)) ! j = (if di \<le> j \<and> j < di + n then xs ! (si + (j - di)) else dest ! j)"
    if "si + n \<le> length xs" for xs :: bytes
  proof -
    have "length (take n (drop si xs)) = n" using that by simp
    then show ?thesis
      using nth_put_bytes [of di "take n (drop si xs)" dest j] assms(1,3) that by (auto simp: put_bytes_def)
  qed
  show ?thesis using assms(1,2) put [of src] put [of dest]
    by (simp add: sppc_memcpy_def sppc_memmove_def)
qed

theorem memory_copy_exact_witness:
  "map_option (\<lambda>r. (fst r, length (snd r), snd r ! 2)) (sppc_memcpy [1, 2, 3, 4] [7, 8, 9] 2 1 1) =
      Some (0, length [1, 2, 3, 4 :: u8], if 1 \<le> (2::nat) \<and> 2 < 1 + (2::nat) then [7, 8, 9] ! (1 + (2 - 1)) else [1, 2, 3, 4] ! 2) \<and>
    (if 1 + 2 \<le> length [1, 2, 3, 4 :: u8]
     then map_option (\<lambda>r. (fst r, length (snd r), snd r ! 2)) (sppc_memmove [1, 2, 3, 4] 1 1 2) =
       Some (0, length [1, 2, 3, 4 :: u8], if 1 \<le> (2::nat) \<and> 2 < 1 + (2::nat) then [1, 2, 3, 4] ! (1 + (2 - 1)) else [1, 2, 3, 4] ! 2)
     else sppc_memmove [1, 2, 3, 4] 1 1 2 = None)"
  by (rule memory_copy_exact) simp_all

end
