(* ===== verification/Backtrace.thy ===== *)
theory Backtrace
  imports Types
begin

text \<open>
  Crash reporting: the report buffer and the formatting that fills it (backtrace/common.h), the
  messages of the runtime checks (platform/common.h), and the signal half (backtrace/posix.h). The
  buffer is the text in it; what is written to stderr, and the answers of each write, are explicit.
  Addresses are 64-bit words. The frames of the stack and the name of a pc come from the platform's
  format file and are arguments.
\<close>

definition BT_BUF_SIZE :: nat where "BT_BUF_SIZE = 64 * 1024"
definition BT_MAX_FRAMES :: nat where "BT_MAX_FRAMES = 128"
definition FAIL_STATUS :: int where "FAIL_STATUS = 134"

record bt =
  bt_buf :: string
  bt_err :: string  \<comment> \<open>written to stderr so far\<close>
  bt_busy :: bool
  bt_enabled :: bool
  bt_off_note :: string

section \<open>Output\<close>

definition bt_put_n :: "string \<Rightarrow> nat \<Rightarrow> bt \<Rightarrow> bt" where
  "bt_put_n s n r =
     (let room = BT_BUF_SIZE - length (bt_buf r); tk = (if n < room then n else room)
      in r\<lparr>bt_buf := bt_buf r @ take tk s\<rparr>)"

definition bt_put :: "string \<Rightarrow> bt \<Rightarrow> bt" where
  "bt_put s r = bt_put_n s (length s) r"

definition is_lower_hex :: "char \<Rightarrow> bool" where
  "is_lower_hex c \<longleftrightarrow>
     (of_char c \<ge> (48::nat) \<and> of_char c \<le> (57::nat)) \<or> (of_char c \<ge> (97::nat) \<and> of_char c \<le> (102::nat))"

definition bt_put_symbol :: "string \<Rightarrow> bt \<Rightarrow> bt" where
  "bt_put_symbol name r =
     (let n = length name in
      if n \<ge> 18 \<and> name ! (n - 18) = CHR ''$'' \<and> name ! (n - 17) = CHR ''h'' \<and>
         list_all (\<lambda>i. is_lower_hex (name ! i)) [n - 16..<n]
      then bt_put_n name (n - 18) r else bt_put name r)"

text \<open>What one write answers: the bytes it took, at most those it was given, or its errno.\<close>

datatype write_answer = Wrote nat | WriteErr int

text \<open>The write loop; None while a write has not answered. \<^verbatim>\<open>eintr\<close> is the platform's EINTR.\<close>

fun bt_flush_loop :: "int \<Rightarrow> write_answer list \<Rightarrow> nat \<Rightarrow> bt \<Rightarrow> bt option" where
  "bt_flush_loop eintr ws done r =
     (if done \<ge> length (bt_buf r) then Some r
      else
        (case ws of
           [] \<Rightarrow> None
         | WriteErr e # ws' \<Rightarrow> if e = eintr then bt_flush_loop eintr ws' done r else Some r
         | Wrote w # ws' \<Rightarrow>
             if w = 0 then Some r
             else bt_flush_loop eintr ws' (done + w)
               (r\<lparr>bt_err := bt_err r @ take w (drop done (bt_buf r))\<rparr>)))"

declare bt_flush_loop.simps [simp del]

definition bt_flush :: "int \<Rightarrow> write_answer list \<Rightarrow> bt \<Rightarrow> bt option" where
  "bt_flush eintr ws r = map_option (\<lambda>r. r\<lparr>bt_buf := []\<rparr>) (bt_flush_loop eintr ws 0 r)"

section \<open>Numbers\<close>

definition hex_digit :: "u64 \<Rightarrow> char" where
  "hex_digit d = ''0123456789abcdef'' ! unat d"

text \<open>The digits are written from the last, ahead of those there.\<close>

function put_hex_loop :: "u64 \<Rightarrow> string \<Rightarrow> string" where
  "put_hex_loop v buf =
     (let buf' = hex_digit (v AND 0xf) # buf; v' = drop_bit 4 v
      in if v' \<noteq> 0 then put_hex_loop v' buf' else buf')"
  by pat_completeness auto
termination
proof (relation "measure (\<lambda>(v, buf). unat v)")
  fix v :: u64 and buf x xa
  assume "x = hex_digit (v AND 0xf) # buf" and xa: "xa = drop_bit 4 v" and nz: "xa \<noteq> 0"
  have u: "unat (drop_bit 4 v) = unat v div 16" by (simp add: drop_bit_eq_div unat_div)
  have "v \<noteq> 0" using nz xa by auto
  then have "unat v \<noteq> 0" by (simp add: unat_eq_zero)
  then show "((xa, x), v, buf) \<in> measure (\<lambda>(v, buf). unat v)" using u xa by simp
qed simp

declare put_hex_loop.simps [simp del]

definition put_hex_text :: "u64 \<Rightarrow> string" where
  "put_hex_text v = ''0x'' @ put_hex_loop v []"

definition bt_put_hex :: "u64 \<Rightarrow> bt \<Rightarrow> bt" where
  "bt_put_hex v r = bt_put (put_hex_text v) r"

definition dec_digit :: "u64 \<Rightarrow> char" where
  "dec_digit d = char_of (48 + unat d)"

function put_dec_loop :: "u64 \<Rightarrow> string \<Rightarrow> string" where
  "put_dec_loop v buf =
     (let buf' = dec_digit (v mod 10) # buf; v' = v div 10
      in if v' \<noteq> 0 then put_dec_loop v' buf' else buf')"
  by pat_completeness auto
termination
proof (relation "measure (\<lambda>(v, buf). unat v)")
  fix v :: u64 and buf x xa
  assume "x = dec_digit (v mod 10) # buf" and xa: "xa = v div 10" and nz: "xa \<noteq> 0"
  have u: "unat (v div 10) = unat v div 10" by (simp add: unat_div)
  have "unat v \<noteq> 0" using nz xa by (metis div_0 unat_eq_zero)
  then show "((xa, x), v, buf) \<in> measure (\<lambda>(v, buf). unat v)" using u xa by simp
qed simp

declare put_dec_loop.simps [simp del]

definition bt_put_dec :: "u64 \<Rightarrow> bt \<Rightarrow> bt" where
  "bt_put_dec v r = bt_put (put_dec_loop v []) r"

section \<open>The backtrace\<close>

text \<open>What the format file says of a pc: the function's name and start, and the object's file.\<close>

record bt_symbol =
  sy_name :: "string option"
  sy_start :: u64
  sy_object :: "string option"

text \<open>Where a return address differs from the unwinder's.\<close>

datatype bt_arch = ArchArm | ArchSparc64 | ArchOther

definition bt_want :: "bt_arch \<Rightarrow> bool \<Rightarrow> u64 \<Rightarrow> u64" where
  "bt_want arch first_is_fault first_pc =
     (case arch of
        ArchArm \<Rightarrow> first_pc AND NOT 1
      | ArchSparc64 \<Rightarrow> if first_is_fault then first_pc else first_pc + 8
      | ArchOther \<Rightarrow> first_pc)"

text \<open>The frames to print: from the wanted one on, or it alone when the walk did not reach it.\<close>

definition bt_select :: "u64 \<Rightarrow> u64 \<Rightarrow> u64 list \<Rightarrow> u64 list" where
  "bt_select want first_pc frames =
     (case List.find (\<lambda>i. frames ! i = want) [0..<length frames] of
        Some start \<Rightarrow> drop start frames
      | None \<Rightarrow> if first_pc \<noteq> 0 then [want] else frames)"

text \<open>The file's name without its directory.\<close>

definition bt_file_name :: "string \<Rightarrow> string" where
  "bt_file_name object =
     (case List.find (\<lambda>i. object ! i = CHR ''/'') (rev [0..<length object]) of
        Some slash \<Rightarrow> drop (slash + 1) object
      | None \<Rightarrow> object)"

definition bt_put_frame :: "(u64 \<Rightarrow> bt_symbol) \<Rightarrow> bool \<Rightarrow> nat \<Rightarrow> u64 \<Rightarrow> bt \<Rightarrow> bt" where
  "bt_put_frame resolve exact i pc r =
     (let sy = resolve (if exact then pc else pc - 1);
          r1 = bt_put (if i < 10 then ''  '' else '' '') (bt_put_dec (of_nat i) (bt_put ''  #'' r));
          r2 = (case sy_name sy of
                  Some name \<Rightarrow> bt_put_hex (pc - sy_start sy) (bt_put ''+'' (bt_put_symbol name r1))
                | None \<Rightarrow> bt_put_hex pc (bt_put ''?? '' r1));
          r3 = (case sy_object sy of
                  Some object \<Rightarrow>
                    if object \<noteq> [] then bt_put '')'' (bt_put (bt_file_name object) (bt_put ''  ('' r2)) else r2
                | None \<Rightarrow> r2)
      in bt_put [char_of (10::nat)] r3)"

fun bt_put_frames :: "(u64 \<Rightarrow> bt_symbol) \<Rightarrow> bool \<Rightarrow> nat \<Rightarrow> u64 list \<Rightarrow> bt \<Rightarrow> bt" where
  "bt_put_frames resolve fault i [] r = r"
| "bt_put_frames resolve fault i (pc # pcs) r =
     bt_put_frames resolve fault (i + 1) pcs (bt_put_frame resolve (i = 0 \<and> fault) i pc r)"

text \<open>\<^verbatim>\<open>first_pc\<close> is 0 for NULL; \<^verbatim>\<open>fault\<close> is whether there is a fault's context.\<close>

definition bt_print ::
  "bt_arch \<Rightarrow> (u64 \<Rightarrow> bt_symbol) \<Rightarrow> u64 list \<Rightarrow> int \<Rightarrow> write_answer list \<Rightarrow> bool \<Rightarrow> u64 \<Rightarrow> bt \<Rightarrow> bt option" where
  "bt_print arch resolve frames eintr ws fault first_pc r = do {
     r1 \<leftarrow> bt_flush eintr ws r;
     let pcs = bt_select (bt_want arch fault first_pc) first_pc (take BT_MAX_FRAMES frames);
     Some (bt_put_frames resolve (fault \<and> first_pc \<noteq> 0) 0 pcs
       (bt_put (''stack backtrace:'' @ [char_of (10::nat)]) r1))
   }"

section \<open>Failures\<close>

text \<open>None: another failure is reporting, and this one waits for the process to end.\<close>

definition bt_fail_begin :: "bt \<Rightarrow> bt option" where
  "bt_fail_begin r = (if bt_busy r then None else Some (r\<lparr>bt_busy := True\<rparr>))"

text \<open>The status the process ends with, and what was written by then.\<close>

definition bt_fail_end ::
  "bt_arch \<Rightarrow> (u64 \<Rightarrow> bt_symbol) \<Rightarrow> u64 list \<Rightarrow> int \<Rightarrow> write_answer list \<Rightarrow> write_answer list \<Rightarrow> u64 \<Rightarrow> bt \<Rightarrow>
     (int \<times> bt) option" where
  "bt_fail_end arch resolve frames eintr ws1 ws2 caller_pc r = do {
     r1 \<leftarrow> (if bt_enabled r then bt_print arch resolve frames eintr ws1 False caller_pc r
            else Some (bt_put (bt_off_note r) r));
     r2 \<leftarrow> bt_flush eintr ws2 r1;
     Some (FAIL_STATUS, r2)
   }"

section \<open>The runtime checks\<close>

text \<open>The numbers the compiler and the runtime agree on.\<close>

definition check_numbers :: "(string \<times> u32) list" where
  "check_numbers =
     [(''INDEX'', 1), (''CONVERSION'', 2), (''GENERATOR_SEND'', 3), (''SLICE_ORDER'', 4), (''SLICE_END'', 5),
      (''FLOAT_TO_INT'', 6), (''FFI_UNWIND'', 7), (''SIGNED_ADD'', 0x10), (''UNSIGNED_ADD'', 0x11),
      (''SIGNED_SUB'', 0x12), (''UNSIGNED_SUB'', 0x13), (''SIGNED_MUL'', 0x14), (''UNSIGNED_MUL'', 0x15)]"

text \<open>The pieces of a check's message. \<^verbatim>\<open>cstr\<close> reads the C string at an address.\<close>

datatype piece = Txt string | Dec u64

definition check_pieces :: "(u64 \<Rightarrow> string) \<Rightarrow> u32 \<Rightarrow> u64 \<Rightarrow> u64 \<Rightarrow> piece list" where
  "check_pieces cstr check a b =
     (if check = 1 then [Txt ''index '', Dec a, Txt '' out of bounds for length '', Dec b]
      else if check = 2 then [Txt ''integer conversion reached for a width pair it is not defined for'']
      else if check = 3 then
        [Txt (''generator '' @ [char_of (39::nat)] @ ''send'' @ [char_of (39::nat)] @
           '' was reached directly; it is lowered through the '' @ [char_of (39::nat)] @ ''.res()'' @
           [char_of (39::nat)] @ '' operator'')]
      else if check = 4 then [Txt ''slice '', Dec a, Txt ''..'', Dec b, Txt '' ends before it starts'']
      else if check = 5 then [Txt ''slice end '', Dec a, Txt '' out of bounds for length '', Dec b]
      else if check = 6 then
        [Txt ''float out of range for '', Txt (if b \<noteq> 0 then ''S'' else ''U''), Dec a, Txt '', or NaN'']
      else if check = 7 then
        [Txt (''an exception unwound into s++ from '' @ [char_of (39::nat)]), Txt (cstr a),
         Txt ([char_of (39::nat)] @ ''; foreign code must not unwind through s++ frames'')]
      else if check = 0x10 then [Txt ''signed add overflowed'']
      else if check = 0x11 then [Txt ''unsigned add overflowed'']
      else if check = 0x12 then [Txt ''signed subtract overflowed'']
      else if check = 0x13 then [Txt ''unsigned subtract underflowed'']
      else if check = 0x14 then [Txt ''signed multiply overflowed'']
      else if check = 0x15 then [Txt ''unsigned multiply overflowed'']
      else [Txt ''unknown check '', Dec (ucast check)])"

fun bt_put_piece :: "piece \<Rightarrow> bt \<Rightarrow> bt" where
  "bt_put_piece (Txt s) r = bt_put s r"
| "bt_put_piece (Dec v) r = bt_put_dec v r"

definition sppc_check_failed ::
  "bt_arch \<Rightarrow> (u64 \<Rightarrow> bt_symbol) \<Rightarrow> u64 list \<Rightarrow> int \<Rightarrow> write_answer list \<Rightarrow> write_answer list \<Rightarrow> u64 \<Rightarrow>
     (u64 \<Rightarrow> string) \<Rightarrow> u32 \<Rightarrow> u64 \<Rightarrow> u64 \<Rightarrow> bt \<Rightarrow> (int \<times> bt) option" where
  "sppc_check_failed arch resolve frames eintr ws1 ws2 caller cstr check a b r = do {
     r1 \<leftarrow> bt_fail_begin r;
     let r2 = bt_put ([char_of (10::nat)] @ ''[sppc] check failed: '') r1;
     let r3 = fold bt_put_piece (check_pieces cstr check a b) r2;
     bt_fail_end arch resolve frames eintr ws1 ws2 caller (bt_put [char_of (10::nat)] r3)
   }"

definition sppc_abort ::
  "bt_arch \<Rightarrow> (u64 \<Rightarrow> bt_symbol) \<Rightarrow> u64 list \<Rightarrow> int \<Rightarrow> write_answer list \<Rightarrow> write_answer list \<Rightarrow> u64 \<Rightarrow> bt \<Rightarrow>
     (int \<times> bt) option" where
  "sppc_abort arch resolve frames eintr ws1 ws2 caller r = do {
     r1 \<leftarrow> bt_fail_begin r;
     bt_fail_end arch resolve frames eintr ws1 ws2 caller
       (bt_put ([char_of (10::nat)] @ ''[sppc] aborted'' @ [char_of (10::nat)]) r1)
   }"

section \<open>Signals\<close>

datatype bt_signal = SIGSEGV | SIGBUS | SIGILL | SIGFPE | SIGTRAP | SIGABRT | OtherSig

fun bt_signal_name :: "bt_signal \<Rightarrow> string" where
  "bt_signal_name SIGSEGV = ''SIGSEGV (segmentation fault)''"
| "bt_signal_name SIGBUS = ''SIGBUS (bus error)''"
| "bt_signal_name SIGILL = ''SIGILL (illegal instruction)''"
| "bt_signal_name SIGFPE = ''SIGFPE (arithmetic exception)''"
| "bt_signal_name SIGTRAP = ''SIGTRAP (trap)''"
| "bt_signal_name SIGABRT = ''SIGABRT (aborted)''"
| "bt_signal_name OtherSig = ''unknown signal''"

text \<open>How a handled signal ends: the process exits, or the signal is raised again by default.\<close>

datatype bt_end = Exited int | Reraised bt_signal

text \<open>A failed control-flow-integrity check, reported from the handler of its trap.\<close>

definition bt_cfi_failed ::
  "bt_arch \<Rightarrow> (u64 \<Rightarrow> bt_symbol) \<Rightarrow> u64 list \<Rightarrow> int \<Rightarrow> write_answer list \<Rightarrow> write_answer list \<Rightarrow>
     u64 \<Rightarrow> bt \<Rightarrow> (bt_end \<times> bt) option" where
  "bt_cfi_failed arch resolve frames eintr ws1 ws2 pc r = do {
     let r1 = bt_put ([char_of (10::nat)] @
       ''[sppc] check failed: control-flow integrity: an indirect call reached a function of another type'' @
       [char_of (10::nat)]) r;
     r2 \<leftarrow> (if bt_enabled r1 then bt_print arch resolve frames eintr ws1 True pc r1
            else Some (bt_put (bt_off_note r1) r1));
     r3 \<leftarrow> bt_flush eintr ws2 r2;
     Some (Exited FAIL_STATUS, r3)
   }"

text \<open>\<^verbatim>\<open>pc\<close> is the fault's, \<^verbatim>\<open>trap\<close> whether it is an integrity check's trap, \<^verbatim>\<open>addr\<close> the address.\<close>

definition bt_handler ::
  "bt_arch \<Rightarrow> (u64 \<Rightarrow> bt_symbol) \<Rightarrow> u64 list \<Rightarrow> int \<Rightarrow> write_answer list \<Rightarrow> write_answer list \<Rightarrow>
     bt_signal \<Rightarrow> u64 \<Rightarrow> bool \<Rightarrow> u64 \<Rightarrow> bt \<Rightarrow> (bt_end \<times> bt) option" where
  "bt_handler arch resolve frames eintr ws1 ws2 sig pc trap addr r = do {
     r1 \<leftarrow> bt_fail_begin r;
     if (sig = SIGILL \<or> sig = SIGTRAP) \<and> trap then bt_cfi_failed arch resolve frames eintr ws1 ws2 pc r1
     else do {
       let r2 = bt_put (bt_signal_name sig) (bt_put ([char_of (10::nat)] @ ''[sppc] fatal signal: '') r1);
       let r3 = (if sig = SIGSEGV \<or> sig = SIGBUS then bt_put_hex addr (bt_put '' at address '' r2) else r2);
       let r4 = bt_put [char_of (10::nat)] r3;
       r5 \<leftarrow> (if bt_enabled r4 then bt_print arch resolve frames eintr ws1 True pc r4
              else Some (bt_put (bt_off_note r4) r4));
       r6 \<leftarrow> bt_flush eintr ws2 r5;
       Some (Reraised sig, r6)
     }
   }"

section \<open>Alternate stacks\<close>

definition BT_ALTSTACK_MIN :: u64 where "BT_ALTSTACK_MIN = 64 * 1024"

text \<open>The thread's alternate stack, if it has one, and what has been mapped and unmapped.\<close>

datatype alt_call = AltMap nat u64 | AltUnmap nat u64 | AltSet nat u64 | AltDisable

record altstack =
  as_stack :: "(nat \<times> u64) option"
  as_log :: "alt_call list"

definition bt_altstack_size :: "int \<Rightarrow> u64" where
  "bt_altstack_size sys_min =
     (if sys_min > 0 \<and> word_of_int sys_min > BT_ALTSTACK_MIN then word_of_int sys_min else BT_ALTSTACK_MIN)"

definition bt_altstack_up :: "int \<Rightarrow> nat option \<Rightarrow> bool \<Rightarrow> altstack \<Rightarrow> altstack" where
  "bt_altstack_up sys_min mmap set_ok t =
     (if as_stack t \<noteq> None then t
      else
        let n = bt_altstack_size sys_min in
        (case mmap of
           None \<Rightarrow> t
         | Some p \<Rightarrow>
             if set_ok then t\<lparr>as_stack := Some (p, n), as_log := as_log t @ [AltMap p n, AltSet p n]\<rparr>
             else t\<lparr>as_log := as_log t @ [AltMap p n, AltUnmap p n]\<rparr>))"

definition bt_altstack_down :: "altstack \<Rightarrow> altstack" where
  "bt_altstack_down t =
     (case as_stack t of
        None \<Rightarrow> t
      | Some (p, n) \<Rightarrow> t\<lparr>as_stack := None, as_log := as_log t @ [AltDisable, AltUnmap p n]\<rparr>)"

section \<open>Installing\<close>

definition bt_signals :: "bt_signal list" where
  "bt_signals = [SIGSEGV, SIGBUS, SIGILL, SIGFPE, SIGTRAP, SIGABRT]"

text \<open>What is installed for a signal: nothing, this handler, or one already there.\<close>

datatype bt_action = SigDefault | SigReport "bt_signal list" | SigOther

text \<open>
  \<^verbatim>\<open>readable\<close> is whether a signal's action could be read; the handler, with the fatal signals
  masked, goes only over the default one. \<^verbatim>\<open>prepare\<close> is the format file's.
\<close>

definition bt_install ::
  "bool \<Rightarrow> string option \<Rightarrow> ('p \<Rightarrow> 'p) \<Rightarrow> int \<Rightarrow> nat option \<Rightarrow> bool \<Rightarrow> (bt_signal \<Rightarrow> bool) \<Rightarrow>
     (bt_signal \<Rightarrow> bt_action) \<Rightarrow> altstack \<Rightarrow> 'p \<Rightarrow> bt \<Rightarrow> (bt_signal \<Rightarrow> bt_action) \<times> altstack \<times> 'p \<times> bt" where
  "bt_install secure var prepare sys_min mmap set_ok readable act t p r =
     (let env = (if secure then None else var);
          r1 = r\<lparr>bt_enabled := (\<not> secure \<and> (env = None \<or> env \<noteq> Some ''0''))\<rparr>;
          r2 = (if secure then r1\<lparr>bt_off_note := ''note: backtraces are off in a setuid/setgid process'' @
                  [char_of (10::nat)]\<rparr> else r1);
          p' = prepare p;
          t' = bt_altstack_up sys_min mmap set_ok t;
          mask = fold (\<lambda>sig m. m @ [sig]) bt_signals [];
          act' = fold (\<lambda>sig a. if \<not> readable sig then a
                             else if a sig = SigDefault then a(sig := SigReport mask) else a) bt_signals act
      in (act', t', p', r2))"

section \<open>The buffer\<close>

fun piece_text :: "piece \<Rightarrow> string" where
  "piece_text (Txt s) = s"
| "piece_text (Dec v) = put_dec_loop v []"

definition bt_ok :: "bt \<Rightarrow> bool" where
  "bt_ok r \<longleftrightarrow> length (bt_buf r) \<le> BT_BUF_SIZE"

lemma bt_ok_take [simp]: "bt_ok (r\<lparr>bt_buf := take BT_BUF_SIZE b\<rparr>)"
  by (simp add: bt_ok_def)

lemma take_append_take [simp]: "take n (take n a @ b) = take n (a @ b)"
  by (cases "n \<le> length a") (simp_all add: min_def)

text \<open>Appending, as one operation: what does not fit is cut off.\<close>

definition bt_app :: "string \<Rightarrow> bt \<Rightarrow> bt" where
  "bt_app s r = r\<lparr>bt_buf := take BT_BUF_SIZE (bt_buf r @ s)\<rparr>"

lemma bt_app_ok [simp]: "bt_ok (bt_app s r)"
  by (simp add: bt_app_def del: take_append)

lemma bt_app_app: "bt_app t (bt_app s r) = bt_app (s @ t) r"
  by (simp add: bt_app_def del: take_append)

lemma bt_app_empty: "bt_ok r \<Longrightarrow> bt_app [] r = r"
  by (simp add: bt_app_def bt_ok_def)

lemma bt_app_fields [simp]:
  "bt_err (bt_app s r) = bt_err r" "bt_enabled (bt_app s r) = bt_enabled r"
  "bt_off_note (bt_app s r) = bt_off_note r" "bt_busy (bt_app s r) = bt_busy r"
  by (simp_all add: bt_app_def)

lemma bt_put_n_app: "bt_ok r \<Longrightarrow> n \<le> length s \<Longrightarrow> bt_put_n s n r = bt_app (take n s) r"
  by (auto simp: bt_put_n_def bt_app_def bt_ok_def Let_def min_def)

section \<open>Writing it out\<close>

lemma bt_flush_loop_full [simp]: "d \<ge> length (bt_buf r) \<Longrightarrow> bt_flush_loop eintr ws d r = Some r"
  by (simp add: bt_flush_loop.simps)

lemma bt_flush_loop_none [simp]: "\<not> d \<ge> length (bt_buf r) \<Longrightarrow> bt_flush_loop eintr [] d r = None"
  by (simp add: bt_flush_loop.simps)

lemma bt_flush_loop_err [simp]:
  "\<not> d \<ge> length (bt_buf r) \<Longrightarrow>
     bt_flush_loop eintr (WriteErr e # ws) d r = (if e = eintr then bt_flush_loop eintr ws d r else Some r)"
  by (subst bt_flush_loop.simps) simp

lemma bt_flush_loop_wrote [simp]:
  "\<not> d \<ge> length (bt_buf r) \<Longrightarrow>
     bt_flush_loop eintr (Wrote w # ws) d r =
       (if w = 0 then Some r
        else bt_flush_loop eintr ws (d + w) (r\<lparr>bt_err := bt_err r @ take w (drop d (bt_buf r))\<rparr>))"
  by (subst bt_flush_loop.simps) simp

lemma bt_flush_loop_writes:
  assumes "bt_flush_loop eintr ws d r = Some r'"
  shows "\<exists>k. r' = r\<lparr>bt_err := bt_err r @ take k (drop d (bt_buf r))\<rparr>"
  using assms
proof (induction ws arbitrary: d r)
  case Nil
  then have "r' = r" by (cases "d \<ge> length (bt_buf r)") auto
  then show ?case by (intro exI [of _ 0]) simp
next
  case (Cons a ws)
  have same: ?case if "r' = r" using that by (intro exI [of _ 0]) simp
  show ?case
  proof (cases "d \<ge> length (bt_buf r)")
    case True
    then show ?thesis using Cons.prems same by simp
  next
    case open_: False
    show ?thesis
    proof (cases a)
      case (WriteErr e)
      then show ?thesis using Cons.prems Cons.IH [of d r] same open_ by (auto split: if_splits)
    next
      case (Wrote w)
      show ?thesis
      proof (cases "w = 0")
        case True
        then show ?thesis using Cons.prems Wrote same open_ by simp
      next
        case False
        let ?r = "r\<lparr>bt_err := bt_err r @ take w (drop d (bt_buf r))\<rparr>"
        obtain k where "r' = ?r\<lparr>bt_err := bt_err ?r @ take k (drop (d + w) (bt_buf ?r))\<rparr>"
          using Cons.IH [of "d + w" ?r] Cons.prems Wrote open_ False by auto
        moreover have "take (w + k) (drop d (bt_buf r)) =
            take w (drop d (bt_buf r)) @ take k (drop (d + w) (bt_buf r))"
          by (simp only: take_add drop_drop add.commute [of d w])
        ultimately show ?thesis by (intro exI [of _ "w + k"]) simp
      qed
    qed
  qed
qed

text \<open>A write that works: some of what it was given, or an interruption.\<close>

fun good_write :: "int \<Rightarrow> write_answer \<Rightarrow> bool" where
  "good_write eintr (Wrote w) \<longleftrightarrow> 0 < w"
| "good_write eintr (WriteErr e) \<longleftrightarrow> e = eintr"

lemma bt_flush_loop_all:
  assumes "bt_flush_loop eintr ws d r = Some r'" "list_all (good_write eintr) ws"
  shows "r' = r\<lparr>bt_err := bt_err r @ drop d (bt_buf r)\<rparr>"
  using assms
proof (induction ws arbitrary: d r)
  case Nil
  then show ?case by (cases "d \<ge> length (bt_buf r)") auto
next
  case (Cons a ws)
  show ?case
  proof (cases "d \<ge> length (bt_buf r)")
    case True
    then show ?thesis using Cons.prems by simp
  next
    case open_: False
    show ?thesis
    proof (cases a)
      case (WriteErr e)
      then show ?thesis using Cons.prems Cons.IH [of d r] open_ by simp
    next
      case (Wrote w)
      have "take w (drop d (bt_buf r)) @ drop (d + w) (bt_buf r) = drop d (bt_buf r)"
        by (metis add.commute append_take_drop_id drop_drop)
      then show ?thesis
        using Cons.prems Cons.IH [of "d + w" "r\<lparr>bt_err := bt_err r @ take w (drop d (bt_buf r))\<rparr>"] Wrote open_
        by simp
    qed
  qed
qed

text \<open>Enough answers end the loop: each one that is not an interruption takes a byte or stops it.\<close>

lemma bt_flush_loop_ends:
  assumes "length (bt_buf r) - d \<le> length (filter (\<lambda>a. a \<noteq> WriteErr eintr) ws)"
  shows "bt_flush_loop eintr ws d r \<noteq> None"
  using assms
proof (induction ws arbitrary: d r)
  case Nil
  then show ?case by simp
next
  case (Cons a ws)
  show ?case
  proof (cases "d \<ge> length (bt_buf r)")
    case open_: False
    show ?thesis
    proof (cases a)
      case (WriteErr e)
      then show ?thesis using Cons.prems Cons.IH [of r d] open_ by auto
    next
      case (Wrote w)
      then show ?thesis
        using Cons.prems Cons.IH [of "r\<lparr>bt_err := bt_err r @ take w (drop d (bt_buf r))\<rparr>" "d + w"] open_
        by (cases "w = 0") auto
    qed
  qed simp
qed

lemma bt_flush_writes:
  assumes "bt_flush eintr ws r = Some r'"
  obtains k where "r' = r\<lparr>bt_err := bt_err r @ take k (bt_buf r), bt_buf := []\<rparr>"
proof -
  obtain r1 where l: "bt_flush_loop eintr ws 0 r = Some r1" and r': "r' = r1\<lparr>bt_buf := []\<rparr>"
    using assms by (auto simp: bt_flush_def)
  obtain k where "r1 = r\<lparr>bt_err := bt_err r @ take k (drop 0 (bt_buf r))\<rparr>"
    using bt_flush_loop_writes [OF l] by blast
  then show ?thesis using r' by (intro that [of k]) simp
qed

lemma bt_flush_all:
  assumes "bt_flush eintr ws r = Some r'" "list_all (good_write eintr) ws"
  shows "r' = r\<lparr>bt_err := bt_err r @ bt_buf r, bt_buf := []\<rparr>"
  using assms bt_flush_loop_all [of eintr ws 0 r] by (auto simp: bt_flush_def)

section \<open>Numbers, read back\<close>

text \<open>The value of a string of digits in a base, the most significant first.\<close>

definition digit_val :: "char \<Rightarrow> nat" where
  "digit_val c = (if of_char c < (58::nat) then of_char c - 48 else of_char c - 87)"

definition digits_val :: "nat \<Rightarrow> string \<Rightarrow> nat" where
  "digits_val b s = fold (\<lambda>c acc. acc * b + digit_val c) s 0"

lemma fold_digits:
  "fold (\<lambda>c acc. acc * b + digit_val c) s a = a * b ^ length s + digits_val b s"
proof (induction s rule: rev_induct)
  case (snoc c s)
  then show ?case by (simp add: digits_val_def algebra_simps)
qed (simp add: digits_val_def)

lemma digits_val_Cons: "digits_val b (c # s) = digit_val c * b ^ length s + digits_val b s"
  using fold_digits [of b s "digit_val c"] by (simp add: digits_val_def)

lemma digits_val_Nil [simp]: "digits_val b [] = 0"
  by (simp add: digits_val_def)

lemma dec_digit_val: "n < 10 \<Longrightarrow> digit_val (char_of (48 + n)) = n" for n :: nat
  by (simp add: digit_val_def)

lemma put_dec_value:
  "digits_val 10 (put_dec_loop v buf) = unat v * 10 ^ length buf + digits_val 10 buf"
proof (induction v buf rule: put_dec_loop.induct)
  case (1 v buf)
  let ?d = "dec_digit (v mod 10)"
  have d: "digit_val ?d = unat v mod 10" by (simp add: dec_digit_def dec_digit_val unat_mod)
  have split: "unat v = unat v mod 10 + unat (v div 10) * 10" by (simp add: unat_div)
  have cons: "digits_val 10 (?d # buf) = (unat v mod 10) * 10 ^ length buf + digits_val 10 buf"
    by (simp add: digits_val_Cons d)
  show ?case
  proof (cases "v div 10 = 0")
    case True
    then have "unat v mod 10 = unat v" using split by simp
    then show ?thesis using cons True by (simp add: put_dec_loop.simps [of v])
  next
    case False
    have "digits_val 10 (put_dec_loop v buf) =
        unat (v div 10) * 10 ^ length (?d # buf) + digits_val 10 (?d # buf)"
      using "1.IH" [OF refl refl False] False by (simp add: put_dec_loop.simps [of v])
    also have "\<dots> = (unat v mod 10 + unat (v div 10) * 10) * 10 ^ length buf + digits_val 10 buf"
      using cons by (simp add: algebra_simps)
    finally show ?thesis using split by simp
  qed
qed

lemma put_dec_length:
  "unat v < 10 ^ n \<Longrightarrow> 0 < n \<Longrightarrow> length (put_dec_loop v buf) \<le> n + length buf"
proof (induction v buf arbitrary: n rule: put_dec_loop.induct)
  case (1 v buf)
  show ?case
  proof (cases "v div 10 = 0")
    case True
    then show ?thesis using "1.prems" by (simp add: put_dec_loop.simps [of v])
  next
    case False
    obtain n' where n': "n = Suc n'" using "1.prems" by (cases n) auto
    have "unat (v div 10) < 10 ^ n'" using "1.prems" n' by (simp add: unat_div)
    moreover have "0 < n'"
    proof (rule ccontr)
      assume "\<not> 0 < n'"
      then have "unat v < 10" using "1.prems" n' by simp
      then have "unat (v div 10) = 0" by (simp add: unat_div)
      then show False using False by (simp add: unat_eq_zero)
    qed
    ultimately show ?thesis
      using "1.IH" [OF refl refl False] n' False by (simp add: put_dec_loop.simps [of v])
  qed
qed

lemma hex_digit_val: "n < 16 \<Longrightarrow> digit_val (''0123456789abcdef'' ! n) = n"
proof -
  assume "n < 16"
  then have "n \<in> set [0..<16]" by simp
  moreover have "list_all (\<lambda>n. digit_val (''0123456789abcdef'' ! n) = n) [0..<16]"
    by (simp add: upt_conv_Cons digit_val_def)
  ultimately show ?thesis by (simp only: list_all_iff)
qed

lemma put_hex_value:
  "digits_val 16 (put_hex_loop v buf) = unat v * 16 ^ length buf + digits_val 16 buf"
proof (induction v buf rule: put_hex_loop.induct)
  case (1 v buf)
  let ?d = "hex_digit (v AND 0xf)"
  have "v AND 0xf = take_bit 4 v" by (simp add: take_bit_eq_mask mask_eq_exp_minus_1)
  then have low: "unat (v AND 0xf) = unat v mod 16" by (simp add: unsigned_take_bit_eq take_bit_eq_mod unat_mod)
  have d: "digit_val ?d = unat v mod 16" by (simp add: hex_digit_def low hex_digit_val)
  have up: "unat (drop_bit 4 v) = unat v div 16" by (simp add: drop_bit_eq_div unat_div)
  have split: "unat v = unat v mod 16 + unat (drop_bit 4 v) * 16" using up by simp
  have cons: "digits_val 16 (?d # buf) = (unat v mod 16) * 16 ^ length buf + digits_val 16 buf"
    by (simp add: digits_val_Cons d)
  show ?case
  proof (cases "drop_bit 4 v = 0")
    case True
    then have "unat v mod 16 = unat v" using split by simp
    then show ?thesis using cons True by (simp add: put_hex_loop.simps [of v])
  next
    case False
    have "digits_val 16 (put_hex_loop v buf) =
        unat (drop_bit 4 v) * 16 ^ length (?d # buf) + digits_val 16 (?d # buf)"
      using "1.IH" [OF refl refl False] False by (simp add: put_hex_loop.simps [of v])
    also have "\<dots> = (unat v mod 16 + unat (drop_bit 4 v) * 16) * 16 ^ length buf + digits_val 16 buf"
      using cons by (simp add: algebra_simps)
    finally show ?thesis using split by simp
  qed
qed

lemma put_hex_length:
  "unat v < 16 ^ n \<Longrightarrow> 0 < n \<Longrightarrow> length (put_hex_loop v buf) \<le> n + length buf"
proof (induction v buf arbitrary: n rule: put_hex_loop.induct)
  case (1 v buf)
  have up: "unat (drop_bit 4 v) = unat v div 16" by (simp add: drop_bit_eq_div unat_div)
  show ?case
  proof (cases "drop_bit 4 v = 0")
    case True
    then show ?thesis using "1.prems" by (simp add: put_hex_loop.simps [of v])
  next
    case False
    obtain n' where n': "n = Suc n'" using "1.prems" by (cases n) auto
    have "unat (drop_bit 4 v) < 16 ^ n'" using "1.prems" n' up by simp
    moreover have "0 < n'"
    proof (rule ccontr)
      assume "\<not> 0 < n'"
      then have "unat (drop_bit 4 v) = 0" using "1.prems" n' up by simp
      then show False using False by (simp add: unat_eq_zero)
    qed
    ultimately show ?thesis
      using "1.IH" [OF refl refl False] n' False by (simp add: put_hex_loop.simps [of v])
  qed
qed

section \<open>The text of a report\<close>

definition nl :: string where "nl = [char_of (10::nat)]"

definition symbol_text :: "string \<Rightarrow> string" where
  "symbol_text name =
     (let n = length name in
      if n \<ge> 18 \<and> name ! (n - 18) = CHR ''$'' \<and> name ! (n - 17) = CHR ''h'' \<and>
         list_all (\<lambda>i. is_lower_hex (name ! i)) [n - 16..<n]
      then take (n - 18) name else name)"

definition frame_text :: "(u64 \<Rightarrow> bt_symbol) \<Rightarrow> bool \<Rightarrow> nat \<Rightarrow> u64 \<Rightarrow> string" where
  "frame_text resolve exact i pc =
     (let sy = resolve (if exact then pc else pc - 1) in
      ''  #'' @ put_dec_loop (of_nat i) [] @ (if i < 10 then ''  '' else '' '') @
      (case sy_name sy of
         Some name \<Rightarrow> symbol_text name @ ''+'' @ put_hex_text (pc - sy_start sy)
       | None \<Rightarrow> ''?? '' @ put_hex_text pc) @
      (case sy_object sy of
         Some object \<Rightarrow> if object \<noteq> [] then ''  ('' @ bt_file_name object @ '')'' else []
       | None \<Rightarrow> []) @ nl)"

fun frames_text :: "(u64 \<Rightarrow> bt_symbol) \<Rightarrow> bool \<Rightarrow> nat \<Rightarrow> u64 list \<Rightarrow> string" where
  "frames_text resolve fault i [] = []"
| "frames_text resolve fault i (pc # pcs) =
     frame_text resolve (i = 0 \<and> fault) i pc @ frames_text resolve fault (i + 1) pcs"

definition trace_text :: "bt_arch \<Rightarrow> (u64 \<Rightarrow> bt_symbol) \<Rightarrow> u64 list \<Rightarrow> bool \<Rightarrow> u64 \<Rightarrow> string" where
  "trace_text arch resolve frames fault first_pc =
     ''stack backtrace:'' @ nl @
     frames_text resolve (fault \<and> first_pc \<noteq> 0) 0
       (bt_select (bt_want arch fault first_pc) first_pc (take BT_MAX_FRAMES frames))"

lemma bt_puts_app:
  assumes "bt_ok r"
  shows "bt_put s r = bt_app s r" "bt_put_symbol s r = bt_app (symbol_text s) r"
    "bt_put_hex v r = bt_app (put_hex_text v) r" "bt_put_dec v r = bt_app (put_dec_loop v []) r"
  using assms
  by (simp_all add: bt_put_def bt_put_n_app bt_put_symbol_def symbol_text_def bt_put_hex_def bt_put_dec_def Let_def)

lemma bt_put_frame_app:
  assumes "bt_ok r"
  shows "bt_put_frame resolve exact i pc r = bt_app (frame_text resolve exact i pc) r"
proof -
  define sy where "sy = resolve (if exact then pc else pc - 1)"
  show ?thesis using assms
    unfolding bt_put_frame_def frame_text_def sy_def [symmetric] Let_def nl_def
    by (cases "sy_name sy"; cases "sy_object sy")
      ((simp_all only: option.case bt_puts_app bt_app_ok bt_app_app append_assoc split: if_split),
        simp_all)
qed

lemma bt_put_frames_app:
  assumes "bt_ok r"
  shows "bt_put_frames resolve fault i pcs r = bt_app (frames_text resolve fault i pcs) r"
  using assms
  by (induction pcs arbitrary: i r) (simp_all add: bt_put_frame_app bt_app_app bt_app_empty)

lemma bt_put_piece_app: "bt_ok r \<Longrightarrow> bt_put_piece p r = bt_app (piece_text p) r"
  by (cases p) (simp_all add: bt_puts_app)

lemma bt_put_pieces_app:
  assumes "bt_ok r"
  shows "fold bt_put_piece ps r = bt_app (concat (map piece_text ps)) r"
  using assms by (induction ps arbitrary: r) (simp_all add: bt_app_empty bt_put_piece_app bt_app_app)

text \<open>What a flush that works leaves.\<close>

definition bt_written :: "bt \<Rightarrow> bt" where
  "bt_written r = r\<lparr>bt_err := bt_err r @ bt_buf r, bt_buf := []\<rparr>"

text \<open>Writes that all work, and enough of them for a whole buffer a byte at a time.\<close>

definition writes_work :: "int \<Rightarrow> write_answer list \<Rightarrow> bool" where
  "writes_work eintr ws \<longleftrightarrow> list_all (good_write eintr) ws \<and>
     BT_BUF_SIZE \<le> length (filter (\<lambda>a. a \<noteq> WriteErr eintr) ws)"

lemma bt_flush_works:
  assumes "bt_ok r" "writes_work eintr ws"
  shows "bt_flush eintr ws r = Some (bt_written r)"
proof -
  have "bt_flush_loop eintr ws 0 r \<noteq> None"
    using assms by (intro bt_flush_loop_ends) (simp add: bt_ok_def writes_work_def)
  then obtain q where "bt_flush eintr ws r = Some q" by (auto simp: bt_flush_def)
  then show ?thesis using bt_flush_all assms(2) by (fastforce simp: writes_work_def bt_written_def)
qed

lemma bt_written_ok [simp]: "bt_ok (bt_written r)"
  by (simp add: bt_written_def bt_ok_def)

lemma bt_print_works:
  assumes "bt_ok r" "writes_work eintr ws"
  shows "bt_print arch resolve frames eintr ws fault pc r =
    Some (bt_app (trace_text arch resolve frames fault pc) (bt_written r))"
  using assms
  by (simp add: bt_print_def bt_flush_works bt_puts_app bt_put_frames_app bt_app_app trace_text_def nl_def
      Let_def)

lemma bt_written_fields [simp]:
  "bt_enabled (bt_written r) = bt_enabled r" "bt_off_note (bt_written r) = bt_off_note r"
  "bt_busy (bt_written r) = bt_busy r"
  by (simp_all add: bt_written_def)

text \<open>How a report ends: the trace or the note, and the last write.\<close>

definition bt_closed :: "bt_arch \<Rightarrow> (u64 \<Rightarrow> bt_symbol) \<Rightarrow> u64 list \<Rightarrow> bool \<Rightarrow> u64 \<Rightarrow> bt \<Rightarrow> bt" where
  "bt_closed arch resolve frames fault pc r =
     bt_written (if bt_enabled r then bt_app (trace_text arch resolve frames fault pc) (bt_written r)
                 else bt_app (bt_off_note r) r)"

lemma bt_fail_end_works:
  assumes "bt_ok r" "writes_work eintr ws1" "writes_work eintr ws2"
  shows "bt_fail_end arch resolve frames eintr ws1 ws2 pc r =
    Some (FAIL_STATUS, bt_closed arch resolve frames False pc r)"
  using assms by (simp add: bt_fail_end_def bt_print_works bt_flush_works bt_closed_def bt_puts_app)

lemma bt_closed_busy [simp]: "bt_busy (bt_closed arch resolve frames fault pc r) = bt_busy r"
  by (simp add: bt_closed_def)

definition report_text ::
  "bt_arch \<Rightarrow> (u64 \<Rightarrow> bt_symbol) \<Rightarrow> u64 list \<Rightarrow> bool \<Rightarrow> u64 \<Rightarrow> bt \<Rightarrow> string \<Rightarrow> string" where
  "report_text arch resolve frames fault pc r message =
     (if bt_enabled r
      then take BT_BUF_SIZE message @ take BT_BUF_SIZE (trace_text arch resolve frames fault pc)
      else take BT_BUF_SIZE (message @ bt_off_note r))"

lemma bt_closed_text:
  assumes "bt_buf r = []"
  shows "bt_closed arch resolve frames fault pc (bt_app message r) =
    r\<lparr>bt_err := bt_err r @ report_text arch resolve frames fault pc r message\<rparr>"
  using assms
  by (cases r) (simp add: bt_closed_def bt_written_def bt_app_def report_text_def del: take_append)

lemma writes_work_replicate: "writes_work eintr (replicate BT_BUF_SIZE (Wrote 1))"
  by (simp add: writes_work_def list_all_length filter_replicate)

section \<open>Properties\<close>

text \<open>C34: The first runtime check to fail reports itself whole: with a standard error that takes bytes,
  in pieces or after interruptions, what is written is the check's message with its numbers in decimal,
  cut off at the size of the report buffer, followed by the backtrace from the failing code (or the note
  that there is none); the process ends with status 134, and any failure after it in another thread
  reports nothing.\<close>

theorem check_failure_reported:
  assumes "\<not> bt_busy r" "bt_buf r = []" "writes_work eintr ws1" "writes_work eintr ws2"
  obtains r' where
    "sppc_check_failed arch resolve frames eintr ws1 ws2 caller cstr check a b r = Some (134, r')"
    "bt_err r' = bt_err r @ report_text arch resolve frames False caller r
       (nl @ ''[sppc] check failed: '' @ concat (map piece_text (check_pieces cstr check a b)) @ nl)"
    "sppc_check_failed arch resolve' frames' eintr ws1 ws2 caller' cstr' check' a' b' r' = None"
    "sppc_abort arch resolve' frames' eintr ws1 ws2 caller' r' = None"
proof -
  let ?r = "r\<lparr>bt_busy := True\<rparr>"
  let ?m = "nl @ ''[sppc] check failed: '' @ concat (map piece_text (check_pieces cstr check a b)) @ nl"
  let ?r' = "bt_closed arch resolve frames False caller (bt_app ?m ?r)"
  have ok: "bt_ok ?r" using assms(2) by (simp add: bt_ok_def)
  have run: "sppc_check_failed arch resolve frames eintr ws1 ws2 caller cstr check a b r = Some (134, ?r')"
    using assms(1,3,4) ok
    by (simp add: sppc_check_failed_def bt_fail_begin_def bt_puts_app bt_put_pieces_app bt_app_app
        bt_fail_end_works FAIL_STATUS_def nl_def)
  have err: "bt_err ?r' = bt_err r @ report_text arch resolve frames False caller r ?m"
    using assms(2) by (subst bt_closed_text) (simp_all add: report_text_def)
  have busy: "bt_busy ?r'" by simp
  show ?thesis
    using busy by (intro that [OF run err]) (simp_all only: sppc_check_failed_def sppc_abort_def bt_fail_begin_def if_True bind.simps)
qed

text \<open>The witness: the index check of the runtime, one past the end, without backtraces.\<close>

definition quiet_bt :: bt where
  "quiet_bt = \<lparr>bt_buf = [], bt_err = [], bt_busy = False, bt_enabled = False, bt_off_note = ''off''\<rparr>"

theorem check_failure_reported_witness:
  "\<exists>r'. sppc_check_failed ArchOther (\<lambda>_. \<lparr>sy_name = None, sy_start = 0, sy_object = None\<rparr>) [] 4
        (replicate BT_BUF_SIZE (Wrote 1)) (replicate BT_BUF_SIZE (Wrote 1)) 0 (\<lambda>_. []) 1 7 7 quiet_bt = Some (134, r') \<and>
      bt_err r' = nl @ ''[sppc] check failed: index 7 out of bounds for length 7'' @ nl @ ''off''"
proof -
  have t: "concat (map piece_text (check_pieces (\<lambda>_. []) 1 7 7)) = ''index 7 out of bounds for length 7''"
    by (simp add: check_pieces_def put_dec_loop.simps dec_digit_def char_of_def bit_0)
  show ?thesis
    by (rule check_failure_reported [where r = quiet_bt and eintr = 4,
          OF _ _ writes_work_replicate writes_work_replicate, where
          arch = ArchOther and resolve = "\<lambda>_. \<lparr>sy_name = None, sy_start = 0, sy_object = None\<rparr>" and
          frames = "[]" and caller = 0 and cstr = "\<lambda>_. []" and check = 1 and a = 7 and b = 7])
      (auto simp: quiet_bt_def t report_text_def nl_def BT_BUF_SIZE_def)
qed

definition signal_text :: "bt_signal \<Rightarrow> bool \<Rightarrow> u64 \<Rightarrow> string" where
  "signal_text sig cfi addr =
    (if cfi then
       nl @ ''[sppc] check failed: control-flow integrity: an indirect call reached a function of another type'' @ nl
     else nl @ ''[sppc] fatal signal: '' @ bt_signal_name sig @
       (if sig = SIGSEGV \<or> sig = SIGBUS then '' at address '' @ put_hex_text addr else []) @ nl)"

text \<open>A fatal signal that arrives first is reported with its name (and the address for a segmentation
  fault or a bus error) and the trace from the interrupted instruction, and then raised again with its
  default action; the trap of a failed control-flow-integrity check is reported as that check instead
  and ends the process with status 134. A second fatal signal reports nothing.\<close>

theorem fatal_signal_reported:
  assumes "\<not> bt_busy r" "bt_buf r = []" "writes_work eintr ws1" "writes_work eintr ws2"
  obtains r' where
    "bt_handler arch resolve frames eintr ws1 ws2 sig pc trap addr r =
       Some (if (sig = SIGILL \<or> sig = SIGTRAP) \<and> trap then Exited 134 else Reraised sig, r')"
    "bt_err r' = bt_err r @ report_text arch resolve frames True pc r
       (signal_text sig ((sig = SIGILL \<or> sig = SIGTRAP) \<and> trap) addr)"
    "bt_handler arch' resolve' frames' eintr ws1 ws2 sig' pc' trap' addr' r' = None"
proof -
  let ?cfi = "(sig = SIGILL \<or> sig = SIGTRAP) \<and> trap"
  let ?m = "signal_text sig ?cfi addr"
  let ?r = "r\<lparr>bt_busy := True\<rparr>"
  let ?r' = "bt_closed arch resolve frames True pc (bt_app ?m ?r)"
  have ok: "bt_ok ?r" using assms(2) by (simp add: bt_ok_def)
  have run: "bt_handler arch resolve frames eintr ws1 ws2 sig pc trap addr r =
      Some (if ?cfi then Exited 134 else Reraised sig, ?r')"
  proof (cases ?cfi)
    case True
    then show ?thesis using assms(1,3,4) ok
      by (simp add: bt_handler_def bt_cfi_failed_def bt_fail_begin_def bt_puts_app bt_app_app bt_print_works bt_flush_works
          bt_closed_def signal_text_def nl_def FAIL_STATUS_def Let_def)
  next
    case False
    then show ?thesis using assms(1,3,4) ok
      by (cases "sig = SIGSEGV \<or> sig = SIGBUS")
        (auto simp: bt_handler_def bt_fail_begin_def bt_puts_app bt_app_app bt_print_works bt_flush_works
          bt_closed_def signal_text_def nl_def Let_def)
  qed
  have err: "bt_err ?r' = bt_err r @ report_text arch resolve frames True pc r ?m"
    using assms(2) by (subst bt_closed_text) (simp_all add: report_text_def)
  have busy: "bt_busy ?r'" by simp
  show ?thesis
    using busy by (intro that [OF run err]) (simp_all only: bt_handler_def bt_fail_begin_def if_True bind.simps)
qed

theorem fatal_signal_reported_witness:
  "\<exists>r'. bt_handler ArchOther (\<lambda>_. \<lparr>sy_name = None, sy_start = 0, sy_object = None\<rparr>) [] 4
        (replicate BT_BUF_SIZE (Wrote 1)) (replicate BT_BUF_SIZE (Wrote 1)) SIGSEGV 0 False 255 quiet_bt =
          Some (Reraised SIGSEGV, r') \<and>
      bt_err r' = nl @ ''[sppc] fatal signal: SIGSEGV (segmentation fault) at address 0xff'' @ nl @ ''off''"
proof -
  have t: "put_hex_text 255 = ''0xff''"
    by (simp add: put_hex_text_def put_hex_loop.simps hex_digit_def)
  show ?thesis
    by (rule fatal_signal_reported [where r = quiet_bt and eintr = 4,
          OF _ _ writes_work_replicate writes_work_replicate, where
          arch = ArchOther and resolve = "\<lambda>_. \<lparr>sy_name = None, sy_start = 0, sy_object = None\<rparr>" and
          frames = "[]" and sig = SIGSEGV and pc = 0 and trap = False and addr = 255])
      (auto simp: quiet_bt_def t signal_text_def report_text_def nl_def BT_BUF_SIZE_def)
qed

text \<open>Flushing ends when every answer but an interruption takes a byte or stops it; whatever the
  answers, what is written is a prefix of the buffer, once and in order, and the buffer is empty after;
  with no failed write it is all of the buffer.\<close>

theorem flush_ends:
  assumes "length (bt_buf r) \<le> length (filter (\<lambda>a. a \<noteq> WriteErr eintr) ws)"
  shows "\<exists>k. bt_flush eintr ws r = Some (r\<lparr>bt_err := bt_err r @ take k (bt_buf r), bt_buf := []\<rparr>) \<and>
    (list_all (good_write eintr) ws \<longrightarrow> k = length (bt_buf r))"
proof -
  have "bt_flush_loop eintr ws 0 r \<noteq> None" using assms by (intro bt_flush_loop_ends) simp
  then obtain r' where f: "bt_flush eintr ws r = Some r'" by (auto simp: bt_flush_def)
  show ?thesis
  proof (cases "list_all (good_write eintr) ws")
    case True
    then show ?thesis using f bt_flush_all [OF f True] by (intro exI [of _ "length (bt_buf r)"]) simp
  next
    case False
    obtain k where "r' = r\<lparr>bt_err := bt_err r @ take k (bt_buf r), bt_buf := []\<rparr>"
      using bt_flush_writes [OF f] .
    then show ?thesis using f False by (intro exI [of _ k]) simp
  qed
qed

theorem flush_ends_witness:
  "\<exists>k. bt_flush 4 [WriteErr 4, Wrote 2, WriteErr 9, Wrote 1] (quiet_bt\<lparr>bt_buf := ''abc''\<rparr>) =
     Some (quiet_bt\<lparr>bt_err := take k ''abc''\<rparr>)"
proof -
  have "\<exists>k. bt_flush 4 [WriteErr 4, Wrote 2, WriteErr 9, Wrote 1] (quiet_bt\<lparr>bt_buf := ''abc''\<rparr>) =
     Some (quiet_bt\<lparr>bt_buf := ''abc''\<rparr>\<lparr>bt_err := bt_err (quiet_bt\<lparr>bt_buf := ''abc''\<rparr>) @
       take k (bt_buf (quiet_bt\<lparr>bt_buf := ''abc''\<rparr>)), bt_buf := []\<rparr>)"
    using flush_ends [of "quiet_bt\<lparr>bt_buf := ''abc''\<rparr>" 4 "[WriteErr 4, Wrote 2, WriteErr 9, Wrote 1]"] by auto
  then show ?thesis by (simp add: quiet_bt_def)
qed

text \<open>A number printed by the reporter reads back as itself, in decimal and in hexadecimal, and its
  text fits the buffer it is built in (20 digits and the terminator; 0x and 16 digits).\<close>

theorem numbers_read_back:
  "digits_val 10 (put_dec_loop v []) = unat v \<and> length (put_dec_loop v []) \<le> 20 \<and>
   put_hex_text v = ''0x'' @ put_hex_loop v [] \<and>
   digits_val 16 (put_hex_loop v []) = unat v \<and> length (put_hex_text v) \<le> 18"
proof -
  have b: "unat v < 2 ^ 64" using unsigned_less [of v] by simp
  have "unat v < 10 ^ 20" "unat v < 16 ^ 16" using b by simp_all
  then have "length (put_dec_loop v []) \<le> 20" "length (put_hex_loop v []) \<le> 16"
    using put_dec_length [of v 20 "[]"] put_hex_length [of v 16 "[]"] by simp_all
  then show ?thesis by (simp add: put_dec_value put_hex_value put_hex_text_def)
qed

end
