(* ===== verification/Elf.thy ===== *)
theory Elf
  imports Strings Backtrace
begin

text \<open>
  Crash reporting's format half for ELF objects (backtrace/elf.h): reading an object's symbol table
  out of its file, the objects kept, and naming the function a pc is in. The file is a list of bytes;
  an offset into it is a 64-bit word, with the wrap-around of the source's arithmetic, and a read that
  leaves the file is a fault (None). The layout is ELF64's. What \<^verbatim>\<open>dladdr\<close>, \<^verbatim>\<open>open\<close> and the unwinder
  answer are arguments.
\<close>

section \<open>Reading the file\<close>

definition rd_bytes :: "bytes \<Rightarrow> u64 \<Rightarrow> nat \<Rightarrow> bytes option" where
  "rd_bytes bs off n = (if unat off + n \<le> length bs then Some (take n (drop (unat off) bs)) else None)"

definition bytes_val :: "bool \<Rightarrow> bytes \<Rightarrow> nat" where
  "bytes_val big xs = foldr (\<lambda>b a. unat b + 256 * a) (if big then rev xs else xs) 0"

definition rd8 :: "bytes \<Rightarrow> u64 \<Rightarrow> u8 option" where
  "rd8 bs off = map_option hd (rd_bytes bs off 1)"

definition rd16 :: "bool \<Rightarrow> bytes \<Rightarrow> u64 \<Rightarrow> u16 option" where
  "rd16 big bs off = map_option (\<lambda>xs. of_nat (bytes_val big xs)) (rd_bytes bs off 2)"

definition rd32 :: "bool \<Rightarrow> bytes \<Rightarrow> u64 \<Rightarrow> u32 option" where
  "rd32 big bs off = map_option (\<lambda>xs. of_nat (bytes_val big xs)) (rd_bytes bs off 4)"

definition rd64 :: "bool \<Rightarrow> bytes \<Rightarrow> u64 \<Rightarrow> u64 option" where
  "rd64 big bs off = map_option (\<lambda>xs. of_nat (bytes_val big xs)) (rd_bytes bs off 8)"

text \<open>The C string at an offset.\<close>

definition rd_string :: "bytes \<Rightarrow> u64 \<Rightarrow> string option" where
  "rd_string bs off =
     (let rest = drop (unat off) bs in
      if 0 \<in> set rest then Some (map (\<lambda>b. char_of (unat b)) (takeWhile (\<lambda>b. b \<noteq> 0) rest)) else None)"

section \<open>An object's symbol table\<close>

text \<open>
  \<^verbatim>\<open>_sppc_bt_object\<close>: pointers into the mapped file are offsets into its bytes, \<^verbatim>\<open>ob_map\<close>.
\<close>

record bt_object =
  ob_fbase :: u64
  ob_bias :: u64
  ob_map :: bytes
  ob_syms :: "u64 option"
  ob_nsyms :: u64
  ob_strtab :: u64
  ob_strtab_size :: u64
  ob_cfi_traps :: "u64 option"
  ob_cfi_traps_vaddr :: u64
  ob_ncfi_traps :: u64

definition zero_object :: bt_object where
  "zero_object = \<lparr>ob_fbase = 0, ob_bias = 0, ob_map = [], ob_syms = None, ob_nsyms = 0, ob_strtab = 0,
     ob_strtab_size = 0, ob_cfi_traps = None, ob_cfi_traps_vaddr = 0, ob_ncfi_traps = 0\<rparr>"

text \<open>The structures' sizes and their fields: program headers, section headers and symbols.\<close>

abbreviation EHDR :: nat where "EHDR \<equiv> 64"
abbreviation PHDR :: u64 where "PHDR \<equiv> 56"
abbreviation SHDR :: u64 where "SHDR \<equiv> 64"
abbreviation SYM :: u64 where "SYM \<equiv> 24"

definition sh_at :: "u64 \<Rightarrow> u64 \<Rightarrow> u64" where
  "sh_at shoff i = shoff + i * SHDR"

definition sh_name :: "bool \<Rightarrow> bytes \<Rightarrow> u64 \<Rightarrow> u64 option" where
  "sh_name big bs h = map_option ucast (rd32 big bs h)"
definition sh_type :: "bool \<Rightarrow> bytes \<Rightarrow> u64 \<Rightarrow> u32 option" where
  "sh_type big bs h = rd32 big bs (h + 4)"
definition sh_addr :: "bool \<Rightarrow> bytes \<Rightarrow> u64 \<Rightarrow> u64 option" where
  "sh_addr big bs h = rd64 big bs (h + 16)"
definition sh_offset :: "bool \<Rightarrow> bytes \<Rightarrow> u64 \<Rightarrow> u64 option" where
  "sh_offset big bs h = rd64 big bs (h + 24)"
definition sh_size :: "bool \<Rightarrow> bytes \<Rightarrow> u64 \<Rightarrow> u64 option" where
  "sh_size big bs h = rd64 big bs (h + 32)"
definition sh_link :: "bool \<Rightarrow> bytes \<Rightarrow> u64 \<Rightarrow> u64 option" where
  "sh_link big bs h = map_option ucast (rd32 big bs (h + 40))"
definition sh_entsize :: "bool \<Rightarrow> bytes \<Rightarrow> u64 \<Rightarrow> u64 option" where
  "sh_entsize big bs h = rd64 big bs (h + 56)"

text \<open>The segment at file offset 0 (\<^verbatim>\<open>PT_LOAD\<close> is 1), over the program headers left.\<close>

fun header_vaddr :: "bool \<Rightarrow> bytes \<Rightarrow> u64 \<Rightarrow> nat list \<Rightarrow> u64 option" where
  "header_vaddr big bs phoff [] = Some 0"
| "header_vaddr big bs phoff (i # is) =
     (let ph = phoff + of_nat i * PHDR in do {
        t \<leftarrow> rd32 big bs ph;
        if t = 1 then do {
          off \<leftarrow> rd64 big bs (ph + 8);
          if off = 0 then rd64 big bs (ph + 16) else header_vaddr big bs phoff is
        } else header_vaddr big bs phoff is
      })"

text \<open>\<^verbatim>\<open>strncmp\<close> of the file with a literal (its terminator included), for equality only.\<close>

fun strncmp_eq :: "bytes \<Rightarrow> u64 \<Rightarrow> u8 list \<Rightarrow> nat \<Rightarrow> bool option" where
  "strncmp_eq bs off [] n = Some True"
| "strncmp_eq bs off (c # cs) n =
     (if n = 0 then Some True else do {
        b \<leftarrow> rd8 bs off;
        if b \<noteq> c then Some False
        else if c = 0 then Some True
        else strncmp_eq bs (off + 1) cs (n - 1)
      })"

definition kcfi_name :: "u8 list" where
  "kcfi_name = [0x2e, 0x6b, 0x63, 0x66, 0x69, 0x5f, 0x74, 0x72, 0x61, 0x70, 0x73, 0]"  \<comment> \<open>.kcfi_traps\<close>

text \<open>The section that records the traps, over the section headers left.\<close>

fun find_cfi_traps ::
  "bool \<Rightarrow> bytes \<Rightarrow> u64 \<Rightarrow> u64 \<Rightarrow> u64 \<Rightarrow> nat list \<Rightarrow> bt_object \<Rightarrow> bt_object option" where
  "find_cfi_traps big bs shoff noff nsize [] obj = Some obj"
| "find_cfi_traps big bs shoff noff nsize (i # is) obj =
     (let h = sh_at shoff (of_nat i) in do {
        name \<leftarrow> sh_name big bs h;
        if name \<ge> nsize then find_cfi_traps big bs shoff noff nsize is obj
        else do {
          off \<leftarrow> sh_offset big bs h;
          sz \<leftarrow> sh_size big bs h;
          if off + sz > of_nat (length bs) then find_cfi_traps big bs shoff noff nsize is obj
          else do {
            eq \<leftarrow> strncmp_eq bs (noff + name) kcfi_name (unat (nsize - name));
            if \<not> eq then find_cfi_traps big bs shoff noff nsize is obj
            else do {
              a \<leftarrow> sh_addr big bs h;
              Some (obj\<lparr>ob_cfi_traps := Some off, ob_cfi_traps_vaddr := a, ob_ncfi_traps := sz div 4\<rparr>)
            }
          }
        }
      })"

text \<open>One pass over the section headers for a symbol table of the wanted type.\<close>

fun find_symtab ::
  "bool \<Rightarrow> bytes \<Rightarrow> u64 \<Rightarrow> u64 \<Rightarrow> u32 \<Rightarrow> nat list \<Rightarrow> bt_object \<Rightarrow> bt_object option option" where
  "find_symtab big bs shoff shnum wanted [] obj = Some None"
| "find_symtab big bs shoff shnum wanted (i # is) obj =
     (let h = sh_at shoff (of_nat i); more = find_symtab big bs shoff shnum wanted is obj in do {
        t \<leftarrow> sh_type big bs h;
        if t \<noteq> wanted then more
        else do {
          es \<leftarrow> sh_entsize big bs h;
          if es \<noteq> SYM then more
          else do {
            link \<leftarrow> sh_link big bs h;
            if link \<ge> shnum then more
            else let str = sh_at shoff link in do {
              off \<leftarrow> sh_offset big bs h;
              sz \<leftarrow> sh_size big bs h;
              if off + sz > of_nat (length bs) then more
              else do {
                soff \<leftarrow> sh_offset big bs str;
                ssz \<leftarrow> sh_size big bs str;
                if soff + ssz > of_nat (length bs) then more
                else Some (Some (obj\<lparr>ob_syms := Some off, ob_nsyms := sz div SYM, ob_strtab := soff,
                                     ob_strtab_size := ssz\<rparr>))
              }
            }
          }
        }
      })"

definition SHT_SYMTAB :: u32 where "SHT_SYMTAB = 2"
definition SHT_DYNSYM :: u32 where "SHT_DYNSYM = 11"

text \<open>The section names, if they are in the file, give the traps.\<close>

definition load_cfi_traps ::
  "bool \<Rightarrow> bytes \<Rightarrow> u64 \<Rightarrow> u64 \<Rightarrow> u64 \<Rightarrow> nat list \<Rightarrow> bt_object \<Rightarrow> bt_object option" where
  "load_cfi_traps big bs shoff shnum shstrndx sections obj =
     (if shstrndx < shnum then do {
        noff \<leftarrow> sh_offset big bs (sh_at shoff shstrndx);
        nsize \<leftarrow> sh_size big bs (sh_at shoff shstrndx);
        if noff + nsize \<le> of_nat (length bs) then find_cfi_traps big bs shoff noff nsize sections obj
        else Some obj
      } else Some obj)"

text \<open>The table of all symbols, or the dynamic one.\<close>

definition load_symtab :: "bool \<Rightarrow> bytes \<Rightarrow> u64 \<Rightarrow> u64 \<Rightarrow> nat list \<Rightarrow> bt_object \<Rightarrow> bt_object option" where
  "load_symtab big bs shoff shnum sections obj = do {
     found \<leftarrow> find_symtab big bs shoff shnum SHT_SYMTAB sections obj;
     (case found of
        Some obj' \<Rightarrow> Some obj'
      | None \<Rightarrow> do {
          found' \<leftarrow> find_symtab big bs shoff shnum SHT_DYNSYM sections obj;
          Some (case found' of Some obj' \<Rightarrow> obj' | None \<Rightarrow> obj)
        })
   }"

text \<open>What is done with the mapped file, from the check of its magic on.\<close>

definition bt_load_map :: "bool \<Rightarrow> bytes \<Rightarrow> bt_object \<Rightarrow> bt_object option" where
  "bt_load_map big bs obj =
     (if take 4 bs \<noteq> [0x7f, 0x45, 0x4c, 0x46] then Some obj
      else let fsize = (of_nat (length bs) :: u64) in do {
        phoff \<leftarrow> rd64 big bs 32;
        phnum \<leftarrow> map_option ucast (rd16 big bs 56);
        if phoff + phnum * PHDR > fsize then Some obj
        else do {
          shoff \<leftarrow> rd64 big bs 40;
          shnum \<leftarrow> map_option ucast (rd16 big bs 60);
          if shoff = 0 \<or> shoff + shnum * SHDR > fsize then Some obj
          else do {
            vaddr \<leftarrow> header_vaddr big bs phoff [0..<unat (phnum :: u64)];
            let obj1 = obj\<lparr>ob_bias := ob_fbase obj - vaddr\<rparr>;
            let sections = [0..<unat (shnum :: u64)];
            shstrndx \<leftarrow> map_option ucast (rd16 big bs 62);
            obj2 \<leftarrow> load_cfi_traps big bs shoff shnum shstrndx sections obj1;
            load_symtab big bs shoff shnum sections obj2
          }
        }
      })"

text \<open>What opening, examining and mapping the file answer, and the calls made.\<close>

datatype elf_file = OpenFails | StatFails | ElfFile bytes bool
datatype elf_call = FdOpened | FdClosed | FileMapped

definition bt_load :: "bool \<Rightarrow> elf_file \<Rightarrow> bt_object \<Rightarrow> (elf_call list \<times> bt_object) option" where
  "bt_load big f obj =
     (case f of
        OpenFails \<Rightarrow> Some ([], obj)
      | StatFails \<Rightarrow> Some ([FdOpened, FdClosed], obj)
      | ElfFile bs mapped \<Rightarrow>
          if length bs < EHDR then Some ([FdOpened, FdClosed], obj)
          else if \<not> mapped then Some ([FdOpened, FdClosed], obj)
          else map_option (Pair [FdOpened, FileMapped, FdClosed])
            (bt_load_map big bs (obj\<lparr>ob_map := bs\<rparr>)))"

section \<open>The objects kept\<close>

definition BT_MAX_OBJECTS :: nat where "BT_MAX_OBJECTS = 16"

record dl_info =
  dli_fbase :: u64
  dli_fname :: "string option"
  dli_sname :: "string option"
  dli_saddr :: u64

text \<open>The index of the object, if it has one; \<^verbatim>\<open>exe\<close> is the executable's path, \<^verbatim>\<open>exe_base\<close> its base.\<close>

definition bt_object_for ::
  "bool \<Rightarrow> (string \<Rightarrow> elf_file) \<Rightarrow> string \<Rightarrow> u64 \<Rightarrow> dl_info \<Rightarrow> bt_object list \<Rightarrow> (nat option \<times> bt_object list) option" where
  "bt_object_for big files exe exe_base info objs =
     (case List.find (\<lambda>i. ob_fbase (objs ! i) = dli_fbase info) [0..<length objs] of
        Some i \<Rightarrow> Some (Some i, objs)
      | None \<Rightarrow>
          if length objs = BT_MAX_OBJECTS then Some (None, objs)
          else let
            is_exe = (dli_fbase info = exe_base \<or>
              (case dli_fname info of None \<Rightarrow> True | Some n \<Rightarrow> n = [] \<or> hd n \<noteq> CHR ''/''));
            path = (if is_exe then exe else the (dli_fname info))
          in do {
            (_, obj) \<leftarrow> bt_load big (files path) (zero_object\<lparr>ob_fbase := dli_fbase info\<rparr>);
            Some (Some (length objs), objs @ [obj])
          })"

text \<open>Whether one of the recorded traps is at an address, over the entries left.\<close>

fun cfi_scan :: "bool \<Rightarrow> bt_object \<Rightarrow> u64 \<Rightarrow> u64 \<Rightarrow> nat list \<Rightarrow> bool option" where
  "cfi_scan big obj traps at [] = Some False"
| "cfi_scan big obj traps at (i # is) = do {
     offset \<leftarrow> rd32 big (ob_map obj) (traps + of_nat i * 4);
     if ob_cfi_traps_vaddr obj + of_nat i * 4 + scast offset = at then Some True
     else cfi_scan big obj traps at is
   }"

definition bt_is_cfi_trap ::
  "bool \<Rightarrow> (string \<Rightarrow> elf_file) \<Rightarrow> string \<Rightarrow> u64 \<Rightarrow> dl_info option \<Rightarrow> u64 \<Rightarrow> bt_object list \<Rightarrow>
     (bool \<times> bt_object list) option" where
  "bt_is_cfi_trap big files exe exe_base dl pc objs =
     (case dl of
        None \<Rightarrow> Some (False, objs)
      | Some info \<Rightarrow> do {
          (i, objs1) \<leftarrow> bt_object_for big files exe exe_base info objs;
          (case i of
             None \<Rightarrow> Some (False, objs1)
           | Some i \<Rightarrow> let obj = objs1 ! i in
               (case ob_cfi_traps obj of
                  None \<Rightarrow> Some (False, objs1)
                | Some traps \<Rightarrow> map_option (\<lambda>r. (r, objs1))
                    (cfi_scan big obj traps (pc - ob_bias obj) [0..<unat (ob_ncfi_traps obj)])))
        })"

section \<open>Naming a pc\<close>

text \<open>A symbol's code: its value, or on ELFv1 the word its descriptor points at (\<^verbatim>\<open>opd\<close>, memory).\<close>

definition bt_sym_code :: "(u64 \<Rightarrow> u64 option) option \<Rightarrow> bt_object \<Rightarrow> u64 \<Rightarrow> u64 option" where
  "bt_sym_code opd obj stval =
     (case opd of
        None \<Rightarrow> Some stval
      | Some mem \<Rightarrow> map_option (\<lambda>w. w - ob_bias obj) (mem (ob_bias obj + stval)))"

text \<open>
  The scan of the symbols left, with the best so far (a name's offset and its code). \<^verbatim>\<open>STT_FUNC\<close> is 2,
  \<^verbatim>\<open>STT_GNU_IFUNC\<close> 10 and \<^verbatim>\<open>SHN_UNDEF\<close> 0.
\<close>

fun sym_scan ::
  "bool \<Rightarrow> (u64 \<Rightarrow> u64 option) option \<Rightarrow> bt_object \<Rightarrow> u64 \<Rightarrow> u64 \<Rightarrow> (u64 \<times> u64) option \<Rightarrow> nat list \<Rightarrow>
     (u64 \<times> u64) option option" where
  "sym_scan big opd obj syms addr best [] = Some best"
| "sym_scan big opd obj syms addr best (i # is) =
     (let bs = ob_map obj; s = syms + of_nat i * SYM in do {
        info \<leftarrow> rd8 bs (s + 4);
        let type = info AND 0xf;
        if type \<noteq> 2 \<and> type \<noteq> 10 then sym_scan big opd obj syms addr best is
        else do {
          shndx \<leftarrow> rd16 big bs (s + 6);
          if shndx = 0 then sym_scan big opd obj syms addr best is
          else do {
            name \<leftarrow> map_option ucast (rd32 big bs s);
            if name \<ge> ob_strtab_size obj then sym_scan big opd obj syms addr best is
            else do {
              stval \<leftarrow> rd64 big bs (s + 8);
              code \<leftarrow> bt_sym_code opd obj stval;
              if code > addr then sym_scan big opd obj syms addr best is
              else do {
                sz \<leftarrow> rd64 big bs (s + 16);
                if addr < code + sz then Some (Some (name, code))
                else if sz = 0 \<and> (case best of None \<Rightarrow> True | Some (_, best_code) \<Rightarrow> code > best_code)
                then sym_scan big opd obj syms addr (Some (name, code)) is
                else sym_scan big opd obj syms addr best is
              }
            }
          }
        }
      })"

definition no_symbol :: bt_symbol where
  "no_symbol = \<lparr>sy_name = None, sy_start = 0, sy_object = None\<rparr>"

definition bt_resolve ::
  "bool \<Rightarrow> (u64 \<Rightarrow> u64 option) option \<Rightarrow> (string \<Rightarrow> elf_file) \<Rightarrow> string \<Rightarrow> u64 \<Rightarrow> dl_info option \<Rightarrow> u64 \<Rightarrow>
     bt_object list \<Rightarrow> (bt_symbol \<times> bt_object list) option" where
  "bt_resolve big opd files exe exe_base dl lookup_pc objs =
     (case dl of
        None \<Rightarrow> Some (no_symbol, objs)
      | Some info \<Rightarrow> do {
          (i, objs1) \<leftarrow> bt_object_for big files exe exe_base info objs;
          best \<leftarrow> (case i of
                     None \<Rightarrow> Some None
                   | Some i \<Rightarrow> let obj = objs1 ! i in
                       (case ob_syms obj of
                          None \<Rightarrow> Some None
                        | Some syms \<Rightarrow> map_option (map_option (Pair obj))
                            (sym_scan big opd obj syms (lookup_pc - ob_bias obj) None [0..<unat (ob_nsyms obj)])));
          (case best of
             Some (obj, name, code) \<Rightarrow> do {
               text \<leftarrow> rd_string (ob_map obj) (ob_strtab obj + name);
               Some (\<lparr>sy_name = Some text, sy_start = code + ob_bias obj, sy_object = dli_fname info\<rparr>, objs1)
             }
           | None \<Rightarrow>
               (case dli_sname info of
                  None \<Rightarrow> Some (\<lparr>sy_name = None, sy_start = 0, sy_object = dli_fname info\<rparr>, objs1)
                | Some name \<Rightarrow>
                    Some (\<lparr>sy_name = Some name, sy_start = dli_saddr info, sy_object = dli_fname info\<rparr>, objs1)))
        })"

section \<open>The stack\<close>

text \<open>glibc's and FreeBSD's walk, \<^verbatim>\<open>n\<close> what it answered; and musl's, a cursor's pcs in order.\<close>

definition bt_frames_backtrace :: "int \<Rightarrow> u64 list \<Rightarrow> u64 list" where
  "bt_frames_backtrace n frames = (if n > 0 then take (nat n) frames else [])"

fun bt_frames_unwind :: "nat \<Rightarrow> u64 list \<Rightarrow> u64 option list \<Rightarrow> u64 list" where
  "bt_frames_unwind cap frames [] = frames"
| "bt_frames_unwind cap frames (ip # ips) =
     (case ip of
        None \<Rightarrow> frames
      | Some a \<Rightarrow>
          if a = 0 then frames
          else let frames' = frames @ [a] in
            if length frames' < cap then bt_frames_unwind cap frames' ips else frames')"

text \<open>The executable's base, noted before a handler can run.\<close>

definition bt_prepare :: "dl_info option \<Rightarrow> u64 \<Rightarrow> u64" where
  "bt_prepare dl exe_base = (case dl of Some exe \<Rightarrow> dli_fbase exe | None \<Rightarrow> exe_base)"

section \<open>Reads that stay in the file\<close>

definition fits_in :: "bytes \<Rightarrow> u64 \<Rightarrow> nat \<Rightarrow> bool" where
  "fits_in bs off n \<longleftrightarrow> unat off + n \<le> length bs"

lemma rd_total:
  "fits_in bs off 1 \<Longrightarrow> \<exists>v. rd8 bs off = Some v"
  "fits_in bs off 2 \<Longrightarrow> \<exists>v. rd16 big bs off = Some v"
  "fits_in bs off 4 \<Longrightarrow> \<exists>v. rd32 big bs off = Some v"
  "fits_in bs off 8 \<Longrightarrow> \<exists>v. rd64 big bs off = Some v"
  by (auto simp: rd8_def rd16_def rd32_def rd64_def rd_bytes_def fits_in_def)

lemma fits_inner:
  assumes "fits_in bs off n" "unat k + m \<le> n" "length bs < 2 ^ 63"
  shows "fits_in bs (off + k) m"
proof -
  have "unat off + unat k < 2 ^ 64" using assms by (simp add: fits_in_def)
  then have "unat (off + k) = unat off + unat k" by (simp add: unat_plus_if_size word_size)
  then show ?thesis using assms by (simp add: fits_in_def)
qed

text \<open>A check by the source's sum is a bound when the sum does not wrap.\<close>

definition no_wrap :: "u64 option \<Rightarrow> u64 option \<Rightarrow> bool" where
  "no_wrap a b = (case a of None \<Rightarrow> True | Some x \<Rightarrow>
     (case b of None \<Rightarrow> True | Some y \<Rightarrow> unat x + unat y < 2 ^ 64))"

lemma checked_fits:
  assumes "no_wrap (Some off) (Some n)" "\<not> off + n > of_nat (length bs)" "length bs < 2 ^ 63"
  shows "fits_in bs off (unat n)"
proof -
  have "unat (off + n) = unat off + unat n"
    using assms(1) by (simp add: no_wrap_def unat_plus_if_size word_size)
  moreover have "unat (of_nat (length bs) :: u64) = length bs"
    using assms(3) by (simp add: unat_of_nat_id)
  ultimately show ?thesis using assms(2) by (simp add: fits_in_def word_less_nat_alt)
qed

lemma unat_entry:
  assumes "i < n" "n * k < 2 ^ 63" "0 < k"
  shows "unat (of_nat i * of_nat k :: u64) = i * k" "unat (of_nat i * of_nat k :: u64) + k \<le> n * k"
proof -
  have "i * k + k \<le> n * k" using assms(1) by (metis Suc_leI add.commute mult_Suc mult_le_mono1)
  moreover have "unat (of_nat (i * k) :: u64) = i * k"
    using calculation assms by (intro unat_of_nat_id) simp
  ultimately show "unat (of_nat i * of_nat k :: u64) = i * k" "unat (of_nat i * of_nat k :: u64) + k \<le> n * k"
    by simp_all
qed

lemma entry_fits:
  assumes "fits_in bs off (n * k)" "i < n" "0 < k" "length bs < 2 ^ 63"
  shows "fits_in bs (off + of_nat i * of_nat k) k"
proof -
  have "n * k < 2 ^ 63" using assms by (simp add: fits_in_def)
  then show ?thesis using fits_inner [OF assms(1) unat_entry(2) assms(4)] assms by simp
qed

text \<open>A field of an entry.\<close>

lemma field_total:
  assumes "fits_in bs h n" "length bs < 2 ^ 63"
  shows "unat k + 4 \<le> n \<Longrightarrow> \<exists>v. rd32 big bs (h + k) = Some v"
    and "unat k + 8 \<le> n \<Longrightarrow> \<exists>v. rd64 big bs (h + k) = Some v"
    and "unat k + 2 \<le> n \<Longrightarrow> \<exists>v. rd16 big bs (h + k) = Some v"
    and "unat k + 1 \<le> n \<Longrightarrow> \<exists>v. rd8 bs (h + k) = Some v"
  using fits_inner [OF assms(1) _ assms(2)] rd_total by blast+

lemma shdr_total:
  assumes "fits_in bs h 64" "length bs < 2 ^ 63"
  shows "\<exists>v. sh_name big bs h = Some v" "\<exists>v. sh_type big bs h = Some v" "\<exists>v. sh_addr big bs h = Some v"
    "\<exists>v. sh_offset big bs h = Some v" "\<exists>v. sh_size big bs h = Some v" "\<exists>v. sh_link big bs h = Some v"
    "\<exists>v. sh_entsize big bs h = Some v"
proof -
  have "fits_in bs h 4" using assms(1) by (simp add: fits_in_def)
  then show "\<exists>v. sh_name big bs h = Some v" using rd_total(3) [of bs h big] by (auto simp: sh_name_def)
  show "\<exists>v. sh_type big bs h = Some v" "\<exists>v. sh_addr big bs h = Some v"
    "\<exists>v. sh_offset big bs h = Some v" "\<exists>v. sh_size big bs h = Some v" "\<exists>v. sh_link big bs h = Some v"
    "\<exists>v. sh_entsize big bs h = Some v"
    using field_total(1) [OF assms, of 4 big] field_total(1) [OF assms, of 40 big]
      field_total(2) [OF assms, of 16 big] field_total(2) [OF assms, of 24 big]
      field_total(2) [OF assms, of 32 big] field_total(2) [OF assms, of 56 big]
    by (auto simp: sh_type_def sh_addr_def sh_offset_def sh_size_def sh_link_def sh_entsize_def)
qed

lemma header_vaddr_total:
  assumes "fits_in bs phoff (n * 56)" "list_all (\<lambda>i. i < n) is" "length bs < 2 ^ 63"
  shows "\<exists>v. header_vaddr big bs phoff is = Some v"
  using assms(2)
proof (induction "is")
  case (Cons i "is")
  have f: "fits_in bs (phoff + of_nat i * 56) 56"
    using entry_fits [OF assms(1), of i] assms(3) Cons.prems by simp
  have "fits_in bs (phoff + of_nat i * 56) 4" using f by (simp add: fits_in_def)
  then obtain t where t: "rd32 big bs (phoff + of_nat i * 56) = Some t" using rd_total(3) by blast
  obtain off where off: "rd64 big bs (phoff + of_nat i * 56 + 8) = Some off"
    using field_total(2) [OF f assms(3), of 8] by auto
  obtain va where va: "rd64 big bs (phoff + of_nat i * 56 + 16) = Some va"
    using field_total(2) [OF f assms(3), of 16] by auto
  show ?case using Cons t off va by (simp add: Let_def)
qed simp

lemma strncmp_eq_total:
  assumes "fits_in bs off n" "length bs < 2 ^ 63"
  shows "\<exists>v. strncmp_eq bs off cs n = Some v"
  using assms(1)
proof (induction cs arbitrary: off n)
  case (Cons c cs)
  show ?case
  proof (cases "n = 0")
    case False
    then have "fits_in bs off 1" using Cons.prems by (simp add: fits_in_def)
    then obtain b where b: "rd8 bs off = Some b" using rd_total(1) by blast
    have "fits_in bs (off + 1) (n - 1)"
      using fits_inner [OF Cons.prems, of 1 "n - 1"] False assms(2) by simp
    then obtain v where "strncmp_eq bs (off + 1) cs (n - 1) = Some v" using Cons.IH by blast
    then show ?thesis using b False by (cases "b = c"; cases "c = 0") (simp_all add: ex_bool_eq)
  qed (simp add: ex_bool_eq)
qed (simp add: ex_bool_eq)

text \<open>The section headers, in the file, with ranges that do not wrap.\<close>

definition sections_ok :: "bool \<Rightarrow> bytes \<Rightarrow> u64 \<Rightarrow> nat \<Rightarrow> bool" where
  "sections_ok big bs shoff n \<longleftrightarrow> fits_in bs shoff (n * 64) \<and>
     list_all (\<lambda>i. no_wrap (sh_offset big bs (sh_at shoff (of_nat i))) (sh_size big bs (sh_at shoff (of_nat i)))) [0..<n]"

lemma sections_okD:
  assumes "sections_ok big bs shoff n" "i < n" "length bs < 2 ^ 63"
  shows "fits_in bs (sh_at shoff (of_nat i)) 64"
    and "no_wrap (sh_offset big bs (sh_at shoff (of_nat i))) (sh_size big bs (sh_at shoff (of_nat i)))"
  using assms entry_fits [of bs shoff n 64 i] by (auto simp: sections_ok_def sh_at_def list_all_iff)

text \<open>An object's tables are in its file.\<close>

definition cfi_in_file :: "bt_object \<Rightarrow> bool" where
  "cfi_in_file obj \<longleftrightarrow>
     (case ob_cfi_traps obj of None \<Rightarrow> True | Some off \<Rightarrow> fits_in (ob_map obj) off (unat (ob_ncfi_traps obj) * 4))"

definition syms_in_file :: "bt_object \<Rightarrow> bool" where
  "syms_in_file obj \<longleftrightarrow>
     (case ob_syms obj of None \<Rightarrow> True
      | Some off \<Rightarrow> fits_in (ob_map obj) off (unat (ob_nsyms obj) * 24) \<and>
          fits_in (ob_map obj) (ob_strtab obj) (unat (ob_strtab_size obj)))"

lemma fits_entries:
  assumes "fits_in bs off (unat n)"
  shows "fits_in bs off (unat (n div k) * unat k)"
proof -
  have "unat (n div k) * unat k \<le> unat n" by (simp add: unat_div)
  then show ?thesis using assms by (simp add: fits_in_def)
qed

lemma find_cfi_traps_ok:
  assumes "sections_ok big bs shoff n" "fits_in bs noff (unat nsize)" "length bs < 2 ^ 63"
    "list_all (\<lambda>i. i < n) is" "ob_map obj = bs" "cfi_in_file obj" "ob_syms obj = None"
  shows "\<exists>obj'. find_cfi_traps big bs shoff noff nsize is obj = Some obj' \<and> ob_map obj' = bs \<and>
    cfi_in_file obj' \<and> ob_syms obj' = None"
  using assms(4)
proof (induction "is")
  case Nil
  then show ?case using assms by simp
next
  case (Cons i "is")
  let ?h = "sh_at shoff (of_nat i)"
  have i: "i < n" using Cons.prems by simp
  note sec = sections_okD [OF assms(1) i assms(3)]
  note tot = shdr_total [OF sec(1) assms(3), of big]
  obtain name off sz a where f: "sh_name big bs ?h = Some name" "sh_offset big bs ?h = Some off"
    "sh_size big bs ?h = Some sz" "sh_addr big bs ?h = Some a" using tot by blast
  have IH: ?case if "find_cfi_traps big bs shoff noff nsize (i # is) obj = find_cfi_traps big bs shoff noff nsize is obj"
    using Cons that by simp
  show ?case
  proof (cases "name \<ge> nsize \<or> off + sz > of_nat (length bs)")
    case True
    then show ?thesis using f by (intro IH) (auto simp: Let_def)
  next
    case False
    then have lt: "unat name < unat nsize" by (simp add: word_less_nat_alt not_le)
    have fit: "fits_in bs off (unat sz)"
      using checked_fits [of off sz bs] sec(2) f False assms(3) by auto
    have "unat (nsize - name) = unat nsize - unat name"
      using lt by (simp add: unat_sub_if' word_le_nat_alt)
    then have "fits_in bs (noff + name) (unat (nsize - name))"
      using fits_inner [OF assms(2) _ assms(3), of name] lt by simp
    then obtain eq where eq: "strncmp_eq bs (noff + name) kcfi_name (unat (nsize - name)) = Some eq"
      using strncmp_eq_total assms(3) by blast
    show ?thesis
    proof (cases eq)
      case True
      then show ?thesis
        using f eq False assms fits_entries [OF fit, of 4] by (auto simp: Let_def cfi_in_file_def not_less)
    next
      case ne: False
      then show ?thesis using f eq False by (intro IH) (auto simp: Let_def)
    qed
  qed
qed

lemma find_symtab_ok:
  assumes "sections_ok big bs shoff n" "length bs < 2 ^ 63" "unat shnum = n"
    "list_all (\<lambda>i. i < n) is" "ob_map obj = bs"
  shows "\<exists>r. find_symtab big bs shoff shnum wanted is obj = Some r \<and>
    (case r of None \<Rightarrow> True | Some obj' \<Rightarrow> ob_map obj' = bs \<and> syms_in_file obj' \<and>
       (cfi_in_file obj' \<longleftrightarrow> cfi_in_file obj))"
  using assms(4)
proof (induction "is")
  case Nil
  then show ?case by simp
next
  case (Cons i "is")
  let ?h = "sh_at shoff (of_nat i)"
  have i: "i < n" using Cons.prems by simp
  note sec = sections_okD [OF assms(1) i assms(2)]
  obtain t es link off sz where f: "sh_type big bs ?h = Some t" "sh_entsize big bs ?h = Some es"
    "sh_link big bs ?h = Some link" "sh_offset big bs ?h = Some off" "sh_size big bs ?h = Some sz"
    using shdr_total [OF sec(1) assms(2), of big] by blast
  have IH: ?case if "find_symtab big bs shoff shnum wanted (i # is) obj = find_symtab big bs shoff shnum wanted is obj"
    using Cons that by simp
  show ?case
  proof (cases "t \<noteq> wanted \<or> es \<noteq> SYM \<or> link \<ge> shnum \<or> off + sz > of_nat (length bs)")
    case True
    then show ?thesis using f by (intro IH) (auto simp: Let_def)
  next
    case False
    then have lk: "unat link < n" using assms(3) by (simp add: word_less_nat_alt not_le)
    have at: "sh_at shoff link = sh_at shoff (of_nat (unat link))" by simp
    note ssec = sections_okD [OF assms(1) lk assms(2), folded at]
    obtain soff ssz where g: "sh_offset big bs (sh_at shoff link) = Some soff"
      "sh_size big bs (sh_at shoff link) = Some ssz"
      using shdr_total [OF ssec(1) assms(2), of big] by blast
    have fit: "fits_in bs off (unat sz)"
      using checked_fits [of off sz bs] sec(2) f False assms(2) by auto
    show ?thesis
    proof (cases "soff + ssz > of_nat (length bs)")
      case True
      then show ?thesis using f g False by (intro IH) (auto simp: Let_def)
    next
      case s: False
      have "fits_in bs soff (unat ssz)"
        using checked_fits [of soff ssz bs] ssec(2) g s assms(2) by auto
      then show ?thesis
        using f g False s assms(5) fits_entries [OF fit, of 24]
        by (simp add: Let_def syms_in_file_def cfi_in_file_def split: option.split)
    qed
  qed
qed

text \<open>A file whose header and section ranges do not wrap around 64 bits.\<close>

definition elf_sane :: "bool \<Rightarrow> bytes \<Rightarrow> bool" where
  "elf_sane big bs \<longleftrightarrow>
     no_wrap (rd64 big bs 32) (map_option (\<lambda>n. ucast n * PHDR) (rd16 big bs 56)) \<and>
     no_wrap (rd64 big bs 40) (map_option (\<lambda>n. ucast n * SHDR) (rd16 big bs 60)) \<and>
     (case (rd64 big bs 40, rd16 big bs 60) of
        (Some shoff, Some shnum) \<Rightarrow>
          list_all (\<lambda>i. no_wrap (sh_offset big bs (sh_at shoff (of_nat i))) (sh_size big bs (sh_at shoff (of_nat i))))
            [0..<unat shnum]
      | _ \<Rightarrow> True)"

lemma unat_entries:
  fixes n :: u16
  shows "unat (ucast n * 56 :: u64) = unat n * 56" "unat (ucast n * 64 :: u64) = unat n * 64"
    "unat (ucast n :: u64) = unat n"
proof -
  have n: "unat n < 65536" using unsigned_less [of n] by simp
  show u: "unat (ucast n :: u64) = unat n"
    using n by (simp add: unsigned_ucast_eq take_bit_nat_eq_self)
  show "unat (ucast n * 56 :: u64) = unat n * 56" "unat (ucast n * 64 :: u64) = unat n * 64"
    using n by (simp_all add: unat_mult_lem [THEN iffD1] u)
qed

lemma all_below: "list_all (\<lambda>i. i < n) [0..<n]"
  by (simp add: list_all_iff)

lemma load_cfi_traps_ok:
  assumes "sections_ok big bs shoff n" "length bs < 2 ^ 63" "unat shnum = n"
    "ob_map obj = bs" "cfi_in_file obj" "ob_syms obj = None"
  shows "\<exists>obj'. load_cfi_traps big bs shoff shnum strndx [0..<n] obj = Some obj' \<and> ob_map obj' = bs \<and>
    cfi_in_file obj' \<and> ob_syms obj' = None"
proof (cases "strndx < shnum")
  case True
  then have lt: "unat strndx < n" using assms(3) by (simp add: word_less_nat_alt)
  have at: "(of_nat (unat strndx) :: u64) = strndx" by simp
  note sec = sections_okD [OF assms(1) lt assms(2), unfolded at]
  obtain noff nsize where g: "sh_offset big bs (sh_at shoff strndx) = Some noff"
    "sh_size big bs (sh_at shoff strndx) = Some nsize"
    using shdr_total [OF sec(1) assms(2), of big] by blast
  show ?thesis
  proof (cases "noff + nsize \<le> of_nat (length bs)")
    case le: True
    then have "fits_in bs noff (unat nsize)"
      using checked_fits [of noff nsize bs] sec(2) g assms(2) by (simp add: not_less)
    then show ?thesis
      using find_cfi_traps_ok [OF assms(1) _ assms(2) all_below assms(4-6)] True le g
      by (simp add: load_cfi_traps_def)
  next
    case False
    then show ?thesis using True g assms by (simp add: load_cfi_traps_def)
  qed
next
  case False
  then show ?thesis using assms by (simp add: load_cfi_traps_def)
qed

lemma load_symtab_ok:
  assumes "sections_ok big bs shoff n" "length bs < 2 ^ 63" "unat shnum = n"
    "ob_map obj = bs" "cfi_in_file obj" "ob_syms obj = None"
  shows "\<exists>obj'. load_symtab big bs shoff shnum [0..<n] obj = Some obj' \<and> ob_map obj' = bs \<and>
    cfi_in_file obj' \<and> syms_in_file obj'"
proof -
  note fs = find_symtab_ok [OF assms(1-3) all_below assms(4)]
  obtain r1 where r1: "find_symtab big bs shoff shnum SHT_SYMTAB [0..<n] obj = Some r1"
    "case r1 of None \<Rightarrow> True | Some obj' \<Rightarrow> ob_map obj' = bs \<and> syms_in_file obj' \<and> (cfi_in_file obj' \<longleftrightarrow> cfi_in_file obj)"
    using fs by blast
  obtain r2 where r2: "find_symtab big bs shoff shnum SHT_DYNSYM [0..<n] obj = Some r2"
    "case r2 of None \<Rightarrow> True | Some obj' \<Rightarrow> ob_map obj' = bs \<and> syms_in_file obj' \<and> (cfi_in_file obj' \<longleftrightarrow> cfi_in_file obj)"
    using fs by blast
  show ?thesis
    using r1 r2 assms by (cases r1; cases r2) (auto simp: load_symtab_def syms_in_file_def)
qed

lemma bt_load_map_ok:
  assumes "elf_sane big bs" "64 \<le> length bs" "length bs < 2 ^ 63"
    "ob_map obj = bs" "ob_syms obj = None" "ob_cfi_traps obj = None"
  shows "\<exists>obj'. bt_load_map big bs obj = Some obj' \<and> ob_map obj' = bs \<and> cfi_in_file obj' \<and> syms_in_file obj'"
proof -
  have fixed: "fits_in bs 32 8" "fits_in bs 40 8" "fits_in bs 56 2" "fits_in bs 60 2" "fits_in bs 62 2"
    using assms(2) by (simp_all add: fits_in_def)
  obtain phoff where phoff: "rd64 big bs 32 = Some phoff" using rd_total(4) [OF fixed(1)] by blast
  obtain shoff where shoff: "rd64 big bs 40 = Some shoff" using rd_total(4) [OF fixed(2)] by blast
  obtain phnum where phnum: "rd16 big bs 56 = Some phnum" using rd_total(2) [OF fixed(3)] by blast
  obtain shnum where shnum: "rd16 big bs 60 = Some shnum" using rd_total(2) [OF fixed(4)] by blast
  obtain strndx where strndx: "rd16 big bs 62 = Some strndx" using rd_total(2) [OF fixed(5)] by blast
  note hdr = phoff shoff phnum shnum strndx
  have same: ?thesis if "bt_load_map big bs obj = Some obj"
    using that assms by (simp add: cfi_in_file_def syms_in_file_def)
  show ?thesis
  proof (cases "take 4 bs \<noteq> [0x7f, 0x45, 0x4c, 0x46] \<or> phoff + ucast phnum * PHDR > of_nat (length bs) \<or>
      shoff = 0 \<or> shoff + ucast shnum * SHDR > of_nat (length bs)")
    case True
    then show ?thesis using hdr by (intro same) (auto simp: bt_load_map_def Let_def)
  next
    case False
    have ph: "fits_in bs phoff (unat phnum * 56)"
      using checked_fits [of phoff "ucast phnum * PHDR" bs] assms(1,3) False hdr
      by (simp add: elf_sane_def unat_entries)
    have "fits_in bs shoff (unat shnum * 64)"
      using checked_fits [of shoff "ucast shnum * SHDR" bs] assms(1,3) False hdr
      by (simp add: elf_sane_def unat_entries)
    then have sec: "sections_ok big bs shoff (unat shnum)"
      using assms(1) hdr by (simp add: sections_ok_def elf_sane_def)
    obtain va where va: "header_vaddr big bs phoff [0..<unat phnum] = Some va"
      using header_vaddr_total [OF ph all_below assms(3)] by blast
    define obj1 where "obj1 = obj\<lparr>ob_bias := ob_fbase obj - va\<rparr>"
    have o1: "ob_map obj1 = bs" "cfi_in_file obj1" "ob_syms obj1 = None"
      using assms by (simp_all add: obj1_def cfi_in_file_def)
    have "\<exists>obj2. load_cfi_traps big bs shoff (ucast shnum) (ucast strndx) [0..<unat shnum] obj1 = Some obj2 \<and>
        ob_map obj2 = bs \<and> cfi_in_file obj2 \<and> ob_syms obj2 = None"
      by (rule load_cfi_traps_ok [OF sec assms(3) _ o1]) (simp_all add: unat_entries)
    then obtain obj2 where o2: "load_cfi_traps big bs shoff (ucast shnum) (ucast strndx) [0..<unat shnum] obj1 = Some obj2"
      "ob_map obj2 = bs" "cfi_in_file obj2" "ob_syms obj2 = None" by blast
    obtain obj3 where o3: "load_symtab big bs shoff (ucast shnum) [0..<unat shnum] obj2 = Some obj3"
      "ob_map obj3 = bs" "cfi_in_file obj3" "syms_in_file obj3"
      using load_symtab_ok [OF sec assms(3) unat_entries(3) o2(2,3,4)] by blast
    have "bt_load_map big bs obj = Some obj3"
      using False hdr va o2(1) o3(1) by (simp add: bt_load_map_def Let_def unat_entries obj1_def)
    then show ?thesis using o3 by blast
  qed
qed

text \<open>A scan of a table in the file reads nothing outside it.\<close>

lemma sym_scan_total:
  assumes "fits_in (ob_map obj) syms (n * 24)" "list_all (\<lambda>i. i < n) is" "length (ob_map obj) < 2 ^ 63"
  shows "\<exists>r. sym_scan big None obj syms addr best is = Some r"
  using assms(2)
proof (induction "is" arbitrary: best)
  case (Cons i "is")
  let ?s = "syms + of_nat i * 24"
  have f: "fits_in (ob_map obj) ?s 24"
    using entry_fits [OF assms(1), of i] assms(3) Cons.prems by simp
  have "fits_in (ob_map obj) ?s 4" using f by (simp add: fits_in_def)
  then obtain name where a: "rd32 big (ob_map obj) ?s = Some name" using rd_total(3) by blast
  obtain info shndx val sz where b: "rd8 (ob_map obj) (?s + 4) = Some info" "rd16 big (ob_map obj) (?s + 6) = Some shndx"
    "rd64 big (ob_map obj) (?s + 8) = Some val" "rd64 big (ob_map obj) (?s + 16) = Some sz"
    using field_total(4) [OF f assms(3), of 4] field_total(3) [OF f assms(3), of 6 big]
      field_total(2) [OF f assms(3), of 8 big] field_total(2) [OF f assms(3), of 16 big] by auto
  have IH: "\<exists>r. sym_scan big None obj syms addr best' is = Some r" for best' using Cons by simp
  show ?case using IH a b by (simp add: Let_def bt_sym_code_def)
qed simp

lemma cfi_scan_total:
  assumes "fits_in (ob_map obj) traps (n * 4)" "list_all (\<lambda>i. i < n) is" "length (ob_map obj) < 2 ^ 63"
  shows "\<exists>r. cfi_scan big obj traps at is = Some r"
  using assms(2)
proof (induction "is")
  case (Cons i "is")
  have "fits_in (ob_map obj) (traps + of_nat i * 4) 4"
    using entry_fits [OF assms(1), of i] assms(3) Cons.prems by simp
  then obtain off where "rd32 big (ob_map obj) (traps + of_nat i * 4) = Some off" using rd_total(3) by blast
  then show ?case using Cons by (simp add: ex_bool_eq)
qed (simp add: ex_bool_eq)

section \<open>Which symbol is found\<close>

text \<open>A symbol of the table that names a function defined in the object: its name, code and size.\<close>

definition fun_symbol :: "bool \<Rightarrow> bt_object \<Rightarrow> u64 \<Rightarrow> (u64 \<times> u64 \<times> u64) option" where
  "fun_symbol big obj s = do {
     info \<leftarrow> rd8 (ob_map obj) (s + 4);
     shndx \<leftarrow> rd16 big (ob_map obj) (s + 6);
     name \<leftarrow> map_option ucast (rd32 big (ob_map obj) s);
     code \<leftarrow> rd64 big (ob_map obj) (s + 8);
     sz \<leftarrow> rd64 big (ob_map obj) (s + 16);
     if (info AND 0xf = 2 \<or> info AND 0xf = 10) \<and> shndx \<noteq> 0 \<and> name < ob_strtab_size obj
     then Some (name, code, sz) else None
   }"

definition fun_symbols :: "bool \<Rightarrow> bt_object \<Rightarrow> u64 \<Rightarrow> nat list \<Rightarrow> (u64 \<times> u64 \<times> u64) list" where
  "fun_symbols big obj syms is = List.map_filter (\<lambda>i. fun_symbol big obj (syms + of_nat i * SYM)) is"

fun pick_symbol :: "u64 \<Rightarrow> (u64 \<times> u64) option \<Rightarrow> (u64 \<times> u64 \<times> u64) list \<Rightarrow> (u64 \<times> u64) option" where
  "pick_symbol addr best [] = best"
| "pick_symbol addr best ((name, code, sz) # cs) =
     (if code > addr then pick_symbol addr best cs
      else if addr < code + sz then Some (name, code)
      else if sz = 0 \<and> (case best of None \<Rightarrow> True | Some (_, best_code) \<Rightarrow> code > best_code)
      then pick_symbol addr (Some (name, code)) cs
      else pick_symbol addr best cs)"

lemma sym_scan_picks:
  assumes "fits_in (ob_map obj) syms (n * 24)" "list_all (\<lambda>i. i < n) is" "length (ob_map obj) < 2 ^ 63"
  shows "sym_scan big None obj syms addr best is = Some (pick_symbol addr best (fun_symbols big obj syms is))"
  using assms(2)
proof (induction "is" arbitrary: best)
  case Nil
  then show ?case by (simp add: fun_symbols_def map_filter_simps)
next
  case (Cons i "is")
  let ?s = "syms + of_nat i * 24"
  have f: "fits_in (ob_map obj) ?s 24"
    using entry_fits [OF assms(1), of i] assms(3) Cons.prems by simp
  have "fits_in (ob_map obj) ?s 4" using f by (simp add: fits_in_def)
  then obtain name where a: "rd32 big (ob_map obj) ?s = Some name" using rd_total(3) by blast
  obtain info shndx val sz where b: "rd8 (ob_map obj) (?s + 4) = Some info" "rd16 big (ob_map obj) (?s + 6) = Some shndx"
    "rd64 big (ob_map obj) (?s + 8) = Some val" "rd64 big (ob_map obj) (?s + 16) = Some sz"
    using field_total(4) [OF f assms(3), of 4] field_total(3) [OF f assms(3), of 6 big]
      field_total(2) [OF f assms(3), of 8 big] field_total(2) [OF f assms(3), of 16 big] by auto
  have IH: "sym_scan big None obj syms addr best' is = Some (pick_symbol addr best' (fun_symbols big obj syms is))"
    for best' using Cons by simp
  let ?is_fun = "(info AND 0xf = 2 \<or> info AND 0xf = 10) \<and> shndx \<noteq> 0 \<and> ucast name < ob_strtab_size obj"
  have "fun_symbol big obj ?s = (if ?is_fun then Some (ucast name, val, sz) else None)"
    using a b by (simp add: fun_symbol_def)
  then have syms: "fun_symbols big obj syms (i # is) =
      (if ?is_fun then [(ucast name, val, sz)] else []) @ fun_symbols big obj syms is"
    by (simp add: fun_symbols_def map_filter_simps)
  let ?type = "info AND 0xf \<noteq> 2 \<and> info AND 0xf \<noteq> 10"
  consider "?is_fun" "\<not> ?type" "shndx \<noteq> 0" "ucast name < ob_strtab_size obj"
    | "\<not> ?is_fun" ?type | "\<not> ?is_fun" "\<not> ?type" "shndx = 0"
    | "\<not> ?is_fun" "\<not> ?type" "shndx \<noteq> 0" "\<not> ucast name < ob_strtab_size obj" by blast
  then show ?case
  proof cases
    case 1
    have "sym_scan big None obj syms addr best (i # is) =
        (if val > addr then sym_scan big None obj syms addr best is
         else if addr < val + sz then Some (Some (ucast name, val))
         else if sz = 0 \<and> (case best of None \<Rightarrow> True | Some (_, best_code) \<Rightarrow> val > best_code)
         then sym_scan big None obj syms addr (Some (ucast name, val)) is
         else sym_scan big None obj syms addr best is)"
      using a b 1(3,4) by (simp only: sym_scan.simps Let_def bind.simps option.map bt_sym_code_def option.case
          1(2) if_False not_le [symmetric] simp_thms)
    then show ?thesis using 1(1) by (simp add: syms IH)
  next
    case 4
    then have "ob_strtab_size obj \<le> ucast name" by (simp only: not_less)
    then show ?thesis using a b 4(1-3) by (simp add: IH syms Let_def)
  qed (use a b in \<open>simp_all add: IH syms Let_def\<close>)
qed

lemma pick_symbol_sized:
  "List.find (\<lambda>(name, code, sz). code \<le> addr \<and> addr < code + sz) cs = Some (name, code, sz) \<Longrightarrow>
     pick_symbol addr best cs = Some (name, code)"
  by (induction addr best cs rule: pick_symbol.induct) (auto split: if_splits)

text \<open>Without one that contains the address, the best is kept: the greatest unsized start below it.\<close>

definition unsized_best :: "u64 \<Rightarrow> (u64 \<times> u64) option \<Rightarrow> (u64 \<times> u64 \<times> u64) list \<Rightarrow> bool" where
  "unsized_best addr r cs \<longleftrightarrow>
     (case r of
        None \<Rightarrow> list_all (\<lambda>(name, code, sz). sz \<noteq> 0 \<or> addr < code) cs
      | Some (name, code) \<Rightarrow> (name, code, 0) \<in> set cs \<and> code \<le> addr \<and>
          list_all (\<lambda>(name', code', sz). sz \<noteq> 0 \<or> addr < code' \<or> code' \<le> code) cs)"

lemma pick_symbol_unsized:
  "List.find (\<lambda>(name, code, sz). code \<le> addr \<and> addr < code + sz) cs = None \<Longrightarrow>
     unsized_best addr best ds \<Longrightarrow> unsized_best addr (pick_symbol addr best cs) (ds @ cs)"
proof (induction addr best cs arbitrary: ds rule: pick_symbol.induct)
  case (2 addr best name code sz cs)
  have none: "List.find (\<lambda>(name, code, sz). code \<le> addr \<and> addr < code + sz) cs = None"
    "\<not> (code \<le> addr \<and> addr < code + sz)"
    using "2.prems"(1) by (auto split: if_splits)
  show ?case
  proof (cases "code > addr")
    case True
    have "unsized_best addr best (ds @ [(name, code, sz)])"
      using "2.prems"(2) True by (auto simp: unsized_best_def split: option.splits)
    then show ?thesis using "2.IH"(1) [OF True none(1)] True by fastforce
  next
    case le: False
    then have na: "\<not> addr < code + sz" using none(2) by simp
    show ?thesis
    proof (cases "sz = 0 \<and> (case best of None \<Rightarrow> True | Some (_, best_code) \<Rightarrow> code > best_code)")
      case True
      have "unsized_best addr (Some (name, code)) (ds @ [(name, code, sz)])"
        using "2.prems"(2) True le
        by (auto simp: unsized_best_def list_all_iff split: option.splits)
      then have "unsized_best addr (pick_symbol addr (Some (name, code)) cs) ((ds @ [(name, code, sz)]) @ cs)"
        using "2.IH"(2) [OF le na True none(1)] by blast
      moreover have "pick_symbol addr best ((name, code, sz) # cs) = pick_symbol addr (Some (name, code)) cs"
        using le na True by (simp only: pick_symbol.simps if_False if_True simp_thms)
      ultimately show ?thesis by simp
    next
      case False
      have "unsized_best addr best (ds @ [(name, code, sz)])"
        using "2.prems"(2) False le by (auto simp: unsized_best_def split: option.splits)
      then have "unsized_best addr (pick_symbol addr best cs) ((ds @ [(name, code, sz)]) @ cs)"
        using "2.IH"(3) [OF le na False none(1)] by blast
      moreover have "pick_symbol addr best ((name, code, sz) # cs) = pick_symbol addr best cs"
        using le na False by (simp only: pick_symbol.simps if_False)
      ultimately show ?thesis by simp
    qed
  qed
qed simp

section \<open>Properties\<close>

text \<open>C33: Loading an object's symbols from a file whose header and section ranges do not wrap around 64
  bits reads nothing outside the file, whatever the file holds; the descriptor opened is closed on every
  path; and the tables the object is left with are inside the file, so that every later scan of them, for
  a function or for a trap, stays inside it too.\<close>

theorem elf_load_stays_in_file:
  assumes "elf_sane big bs" "length bs < 2 ^ 63" "ob_syms obj = None" "ob_cfi_traps obj = None"
  shows "\<exists>calls obj'. bt_load big (ElfFile bs mapped) obj = Some (calls, obj') \<and>
    count_list calls FdOpened = count_list calls FdClosed \<and>
    (case ob_syms obj' of None \<Rightarrow> True
     | Some syms \<Rightarrow> sym_scan big None obj' syms addr None [0..<unat (ob_nsyms obj')] \<noteq> None) \<and>
    (case ob_cfi_traps obj' of None \<Rightarrow> True
     | Some traps \<Rightarrow> cfi_scan big obj' traps addr [0..<unat (ob_ncfi_traps obj')] \<noteq> None)"
proof (cases "length bs < EHDR \<or> \<not> mapped")
  case True
  then show ?thesis using assms by (auto simp: bt_load_def)
next
  case False
  obtain obj' where o: "bt_load_map big bs (obj\<lparr>ob_map := bs\<rparr>) = Some obj'" "ob_map obj' = bs"
    "cfi_in_file obj'" "syms_in_file obj'"
    using bt_load_map_ok [of big bs "obj\<lparr>ob_map := bs\<rparr>"] assms False by auto
  have len: "length (ob_map obj') < 2 ^ 63" using assms(2) o(2) by simp
  have "\<exists>r. sym_scan big None obj' syms addr None [0..<unat (ob_nsyms obj')] = Some r"
    if "ob_syms obj' = Some syms" for syms
    using sym_scan_total [OF _ all_below len] o(4) that by (simp add: syms_in_file_def)
  moreover have "\<exists>r. cfi_scan big obj' traps addr [0..<unat (ob_ncfi_traps obj')] = Some r"
    if "ob_cfi_traps obj' = Some traps" for traps
    using cfi_scan_total [OF _ all_below len] o(3) that by (simp add: cfi_in_file_def)
  ultimately show ?thesis using o(1) False by (auto simp: bt_load_def split: option.split)
qed

text \<open>
  A small file: a header, a symbol table of one function, \<^verbatim>\<open>f\<close> at 0x1000 with 16 bytes, and its string
  table.
\<close>

definition le_bytes :: "nat \<Rightarrow> nat \<Rightarrow> bytes" where
  "le_bytes n v = map (\<lambda>i. of_nat (v div 256 ^ i mod 256)) [0..<n]"

definition elf_header :: "nat \<Rightarrow> nat \<Rightarrow> nat \<Rightarrow> nat \<Rightarrow> bytes" where
  "elf_header phoff phnum shoff shnum =
     [0x7f, 0x45, 0x4c, 0x46] @ le_bytes 28 0 @ le_bytes 8 phoff @ le_bytes 8 shoff @ le_bytes 8 0 @
     le_bytes 2 phnum @ le_bytes 2 64 @ le_bytes 2 shnum @ le_bytes 2 shnum"

definition elf_section :: "nat \<Rightarrow> nat \<Rightarrow> nat \<Rightarrow> nat \<Rightarrow> nat \<Rightarrow> bytes" where
  "elf_section type off sz link entsize =
     le_bytes 4 0 @ le_bytes 4 type @ le_bytes 16 0 @ le_bytes 8 off @ le_bytes 8 sz @ le_bytes 4 link @
     le_bytes 12 0 @ le_bytes 8 entsize"

definition small_elf :: bytes where
  "small_elf = elf_header 0 0 64 2 @ elf_section 2 192 24 1 24 @ elf_section 3 216 4 0 0 @
     le_bytes 4 1 @ le_bytes 1 0x12 @ le_bytes 1 0 @ le_bytes 2 1 @ le_bytes 8 0x1000 @ le_bytes 8 16 @
     [0, 102, 0, 0]"

lemma small_elf_bytes:
  "small_elf = [127, 69, 76, 70, 0, 0, 0, 0, 0, 0, 0, 0, 0, 0, 0, 0, 0, 0, 0, 0, 0, 0, 0, 0, 0, 0, 0, 0, 0, 0,
     0, 0, 0, 0, 0, 0, 0, 0, 0, 0, 64, 0, 0, 0, 0, 0, 0, 0, 0, 0, 0, 0, 0, 0, 0, 0, 0, 0, 64, 0, 2,
     0, 2, 0, 0, 0, 0, 0, 2, 0, 0, 0, 0, 0, 0, 0, 0, 0, 0, 0, 0, 0, 0, 0, 0, 0, 0, 0, 192, 0, 0, 0,
     0, 0, 0, 0, 24, 0, 0, 0, 0, 0, 0, 0, 1, 0, 0, 0, 0, 0, 0, 0, 0, 0, 0, 0, 0, 0, 0, 0, 24, 0, 0,
     0, 0, 0, 0, 0, 0, 0, 0, 0, 3, 0, 0, 0, 0, 0, 0, 0, 0, 0, 0, 0, 0, 0, 0, 0, 0, 0, 0, 0, 216, 0,
     0, 0, 0, 0, 0, 0, 4, 0, 0, 0, 0, 0, 0, 0, 0, 0, 0, 0, 0, 0, 0, 0, 0, 0, 0, 0, 0, 0, 0, 0, 0, 0,
     0, 0, 0, 0, 0, 0, 1, 0, 0, 0, 18, 0, 1, 0, 0, 16, 0, 0, 0, 0, 0, 0, 16, 0, 0, 0, 0, 0, 0, 0, 0,
     102, 0, 0]"
  by (simp add: small_elf_def elf_header_def elf_section_def le_bytes_def upt_rec_numeral upt_conv_Cons)

lemmas rd_defs = rd8_def rd16_def rd32_def rd64_def rd_bytes_def bytes_val_def

lemma small_elf_reads:
  "rd64 False small_elf 32 = Some 0" "rd16 False small_elf 56 = Some 0" "rd64 False small_elf 40 = Some 64"
  "rd16 False small_elf 60 = Some 2" "rd16 False small_elf 62 = Some 2" "length small_elf = 220"
  "sh_type False small_elf 64 = Some 2" "sh_offset False small_elf 64 = Some 192" "sh_size False small_elf 64 = Some 24"
  "sh_link False small_elf 64 = Some 1" "sh_entsize False small_elf 64 = Some 24"
  "sh_offset False small_elf 128 = Some 216" "sh_size False small_elf 128 = Some 4"
  by (simp_all add: small_elf_bytes rd_defs sh_type_def sh_offset_def sh_size_def sh_link_def sh_entsize_def)

lemma small_elf_sane: "elf_sane False small_elf"
proof -
  have "[0..<2] = [0, 1]" by (simp add: upt_rec)
  then show ?thesis by (simp add: elf_sane_def small_elf_reads no_wrap_def sh_at_def)
qed

theorem elf_load_stays_in_file_witness:
  "\<exists>calls obj'. bt_load False (ElfFile small_elf True) (zero_object\<lparr>ob_fbase := 0x4000\<rparr>) = Some (calls, obj') \<and>
    count_list calls FdOpened = count_list calls FdClosed"
  using elf_load_stays_in_file [OF small_elf_sane, of "zero_object\<lparr>ob_fbase := 0x4000\<rparr>" True 0]
  by (auto simp: small_elf_reads zero_object_def)

text \<open>C40: A file whose program header offset is near 2^64 passes the check of the header's bounds, because
  the sum wraps around, and loading its symbols then reads far outside the file: the reporter faults on a
  file it means to leave without symbols.\<close>

definition wrapped_elf :: bytes where
  "wrapped_elf = elf_header (2 ^ 64 - 40) 1 64 0"

lemma wrapped_elf_bytes:
  "wrapped_elf = [127, 69, 76, 70, 0, 0, 0, 0, 0, 0, 0, 0, 0, 0, 0, 0, 0, 0, 0, 0, 0, 0, 0, 0, 0, 0, 0, 0, 0, 0,
     0, 0, 216, 255, 255, 255, 255, 255, 255, 255, 64, 0, 0, 0, 0, 0, 0, 0, 0, 0, 0, 0, 0, 0, 0, 0,
     1, 0, 64, 0, 0, 0, 0, 0]"
  by (simp add: wrapped_elf_def elf_header_def le_bytes_def upt_rec_numeral upt_conv_Cons)

theorem elf_wrapped_header_faults:
  "rd64 False wrapped_elf 32 = Some (- 40) \<and> rd16 False wrapped_elf 56 = Some 1 \<and>
   (- 40 :: u64) + 1 * PHDR \<le> of_nat (length wrapped_elf) \<and> bt_load False (ElfFile wrapped_elf True) obj = None"
proof -
  have r: "rd64 False wrapped_elf 32 = Some (- 40)" "rd16 False wrapped_elf 56 = Some 1"
    "rd64 False wrapped_elf 40 = Some 64" "rd16 False wrapped_elf 60 = Some 0"
    "rd32 False wrapped_elf (- 40) = None" "length wrapped_elf = 64" "take 4 wrapped_elf = [0x7f, 0x45, 0x4c, 0x46]"
    by (simp_all add: wrapped_elf_bytes rd_defs)
  then show ?thesis by (simp add: bt_load_def bt_load_map_def Let_def)
qed

text \<open>A pc is named by the first function of the table, in its order, whose code contains it; where none
  does, by the unsized function that starts nearest below it; and by none where there is none below it.
  (Link-time addresses; the table in the file, the code at the symbols' values.)\<close>

theorem nearest_symbol_found:
  assumes "fits_in (ob_map obj) syms (n * 24)" "length (ob_map obj) < 2 ^ 63"
  shows "\<exists>r. sym_scan big None obj syms addr None [0..<n] = Some r \<and>
    (case List.find (\<lambda>(name, code, sz). code \<le> addr \<and> addr < code + sz) (fun_symbols big obj syms [0..<n]) of
       Some (name, code, sz) \<Rightarrow> r = Some (name, code)
     | None \<Rightarrow> unsized_best addr r (fun_symbols big obj syms [0..<n]))"
proof -
  let ?cs = "fun_symbols big obj syms [0..<n]"
  let ?r = "pick_symbol addr None ?cs"
  have scan: "sym_scan big None obj syms addr None [0..<n] = Some ?r"
    using sym_scan_picks [OF assms(1) all_below assms(2)] .
  show ?thesis
  proof (cases "List.find (\<lambda>(name, code, sz). code \<le> addr \<and> addr < code + sz) ?cs")
    case None
    have "unsized_best addr None []" by (simp add: unsized_best_def)
    then have "unsized_best addr ?r ?cs" using pick_symbol_unsized [OF None, of None "[]"] by simp
    then show ?thesis using scan None by simp
  next
    case (Some x)
    then show ?thesis using scan pick_symbol_sized by (cases x) fastforce
  qed
qed

definition small_object :: bt_object where
  "small_object = zero_object\<lparr>ob_map := small_elf, ob_syms := Some 192, ob_nsyms := 1, ob_strtab := 216,
     ob_strtab_size := 4\<rparr>"

theorem nearest_symbol_found_witness:
  "sym_scan False None small_object 192 0x1008 None [0..<1] = Some (Some (1, 0x1000))"
proof -
  have "fun_symbol False small_object 192 = Some (1, 0x1000, 16)"
    by (simp add: fun_symbol_def small_object_def zero_object_def small_elf_bytes rd_defs)
  then have "fun_symbols False small_object 192 [0..<1] = [(1, 0x1000, 16)]"
    by (simp add: fun_symbols_def map_filter_simps)
  then show ?thesis
    using nearest_symbol_found [where obj = small_object and syms = 192 and n = 1 and big = False and addr = "0x1008"]
    by (auto simp: small_object_def zero_object_def fits_in_def small_elf_reads)
qed

end
