(* ===== verification/Posix.thy ===== *)
theory Posix
  imports Strings Errors Locks
begin

text \<open>
  The POSIX platforms' own helpers (platform/posix.h, up to its system calls): deadlines against
  another clock, a once on an int, the copying fallbacks, the translations of flags, modes, times and
  signals, the split stack, start and end, and the heap. What the system answers is an argument; its
  macros are the argument \<^verbatim>\<open>os\<close> of Shared. A C int is an integer; a time_t and an off_t have 64 bits.
\<close>

section \<open>Pthreads\<close>

definition BACKOFF_MIN_NS :: int where "BACKOFF_MIN_NS = 50000"
definition BACKOFF_MAX_NS :: int where "BACKOFF_MAX_NS = 1000000"

text \<open>The two normalising loops.\<close>

function nsec_up :: "int \<Rightarrow> int \<Rightarrow> timespec" where
  "nsec_up sec nsec =
     (if nsec < 0 then nsec_up (sec - 1) (nsec + 1000000000) else \<lparr>tv_sec = sec, tv_nsec = nsec\<rparr>)"
  by pat_completeness auto
termination by (relation "measure (\<lambda>(sec, nsec). nat (- nsec))") auto

function nsec_down :: "int \<Rightarrow> int \<Rightarrow> timespec" where
  "nsec_down sec nsec =
     (if nsec \<ge> 1000000000 then nsec_down (sec + 1) (nsec - 1000000000) else \<lparr>tv_sec = sec, tv_nsec = nsec\<rparr>)"
  by pat_completeness auto
termination by (relation "measure (\<lambda>(sec, nsec). nat nsec)") auto

declare nsec_up.simps [simp del] nsec_down.simps [simp del]

text \<open>\<^verbatim>\<open>now\<close> and \<^verbatim>\<open>real\<close> are what the two clocks read, None where one cannot be read.\<close>

definition sppc_realtime_deadline ::
  "os_macros \<Rightarrow> timespec option \<Rightarrow> timespec option \<Rightarrow> int \<Rightarrow> timespec \<Rightarrow> int + timespec" where
  "sppc_realtime_deadline os now real clock deadline =
     (if os ''CLOCK_REALTIME'' = Some clock then Inr deadline
      else (case (now, real) of
              (Some n, Some r) \<Rightarrow>
                (let up = nsec_up (tv_sec r + (tv_sec deadline - tv_sec n)) (tv_nsec r + (tv_nsec deadline - tv_nsec n))
                 in Inr (nsec_down (tv_sec up) (tv_nsec up)))
            | _ \<Rightarrow> Inl (case os ''EINVAL'' of Some e \<Rightarrow> e | None \<Rightarrow> 0)))"

text \<open>A clock wait from a timed one: the lock taken against the real-time deadline.\<close>

definition by_realtime :: "int + timespec \<Rightarrow> (timespec \<Rightarrow> int) \<Rightarrow> int" where
  "by_realtime real timed = (case real of Inl err \<Rightarrow> err | Inr d \<Rightarrow> timed d)"

definition sppc_pthread_mutex_clocklock ::
  "os_macros \<Rightarrow> timespec option \<Rightarrow> timespec option \<Rightarrow> (nat \<Rightarrow> timespec \<Rightarrow> int) \<Rightarrow> nat \<Rightarrow> int \<Rightarrow> timespec \<Rightarrow> int" where
  "sppc_pthread_mutex_clocklock os now real timedlock mutex clock deadline =
     by_realtime (sppc_realtime_deadline os now real clock deadline) (timedlock mutex)"

definition sppc_pthread_rwlock_clockrdlock ::
  "os_macros \<Rightarrow> timespec option \<Rightarrow> timespec option \<Rightarrow> (nat \<Rightarrow> timespec \<Rightarrow> int) \<Rightarrow> nat \<Rightarrow> int \<Rightarrow> timespec \<Rightarrow> int" where
  "sppc_pthread_rwlock_clockrdlock os now real timedrdlock rwlock clock deadline =
     by_realtime (sppc_realtime_deadline os now real clock deadline) (timedrdlock rwlock)"

definition sppc_pthread_rwlock_clockwrlock ::
  "os_macros \<Rightarrow> timespec option \<Rightarrow> timespec option \<Rightarrow> (nat \<Rightarrow> timespec \<Rightarrow> int) \<Rightarrow> nat \<Rightarrow> int \<Rightarrow> timespec \<Rightarrow> int" where
  "sppc_pthread_rwlock_clockwrlock os now real timedwrlock rwlock clock deadline =
     by_realtime (sppc_realtime_deadline os now real clock deadline) (timedwrlock rwlock)"

definition sppc_pthread_cond_clockwait ::
  "os_macros \<Rightarrow> timespec option \<Rightarrow> timespec option \<Rightarrow> (nat \<Rightarrow> nat \<Rightarrow> timespec \<Rightarrow> int) \<Rightarrow> nat \<Rightarrow> nat \<Rightarrow> int \<Rightarrow> timespec \<Rightarrow> int" where
  "sppc_pthread_cond_clockwait os now real timedwait cond mutex clock deadline =
     by_realtime (sppc_realtime_deadline os now real clock deadline) (timedwait cond mutex)"

text \<open>The once on an int: not run (0), running, or dn; and what the function it runs does.\<close>

definition ONCE_INIT :: int where "ONCE_INIT = 0"
definition ONCE_RUNNING :: int where "ONCE_RUNNING = 1"
definition ONCE_DONE :: int where "ONCE_DONE = 2"

text \<open>The naps of a thread that waits, by the states it loads; None while it is still waiting.\<close>

fun once_wait :: "int list \<Rightarrow> int \<Rightarrow> int list option" where
  "once_wait [] pause = None"
| "once_wait (state # later) pause =
     (if state = ONCE_DONE then Some []
      else map_option (Cons pause) (once_wait later (if pause < BACKOFF_MAX_NS then pause * 2 else pause)))"

text \<open>\<^verbatim>\<open>later\<close> is what the waiting loop loads. The once word after, whether the function ran, and the naps taken.\<close>

definition sppc_once_by_int :: "int list \<Rightarrow> int \<Rightarrow> (int \<times> bool \<times> int list) option" where
  "sppc_once_by_int later once =
     (if once = ONCE_INIT then Some (ONCE_DONE, True, [])
      else map_option (\<lambda>naps. (ONCE_DONE, False, naps)) (once_wait later BACKOFF_MIN_NS))"

section \<open>System calls\<close>

text \<open>A system call: its name and arguments; what it answers; and a system with a state.\<close>

datatype os_arg = I int | S bytes | A nat | L "int list"
type_synonym os_call = "string \<times> os_arg list"
datatype os_ret = Ret int | Err int  \<comment> \<open>-1, with that errno\<close>
type_synonym 'w os_sys = "os_call \<Rightarrow> 'w \<Rightarrow> os_ret \<times> 'w"

definition failed :: "os_ret \<Rightarrow> bool" where
  "failed r = (case r of Ret v \<Rightarrow> v < 0 | Err e \<Rightarrow> True)"

definition mac :: "os_macros \<Rightarrow> string \<Rightarrow> int" where
  "mac os n = (case os n of Some v \<Rightarrow> v | None \<Rightarrow> 0)"

definition sppc_secure_getenv :: "bool \<Rightarrow> (string \<Rightarrow> string option) \<Rightarrow> string \<Rightarrow> string option" where
  "sppc_secure_getenv setugid getenv name = (if setugid then None else getenv name)"

definition sppc_fd_set_flags :: "os_macros \<Rightarrow> 'w os_sys \<Rightarrow> int \<Rightarrow> bool \<Rightarrow> bool \<Rightarrow> 'w \<Rightarrow> os_ret \<times> 'w" where
  "sppc_fd_set_flags os sys fd cloexec nonblock w =
     (let (r1, w1) = (if cloexec then sys (''fcntl'', [I fd, I (mac os ''F_SETFD''), I (mac os ''FD_CLOEXEC'')]) w
                      else (Ret 0, w))
      in if r1 \<noteq> Ret 0 then (r1, w1)
         else if nonblock then
           (let (r2, w2) = sys (''fcntl'', [I fd, I (mac os ''F_GETFL'')]) w1 in
            case r2 of
              Err e \<Rightarrow> (Err e, w2)
            | Ret fl \<Rightarrow>
                let (r3, w3) = sys (''fcntl'', [I fd, I (mac os ''F_SETFL''), I (fl OR mac os ''O_NONBLOCK'')]) w2
                in if r3 \<noteq> Ret 0 then (r3, w3) else (Ret 0, w3))
         else (Ret 0, w1))"

section \<open>Copying\<close>

definition COPY_CHUNK :: nat where "COPY_CHUNK = 4096"

text \<open>
  A copy's two files: the bytes of the one read and its position, and what has been written to the
  other. The answers of the read and of each write are arguments.
\<close>

record copy_files =
  cf_in :: bytes
  cf_pos :: nat
  cf_out :: bytes

definition sppc_send_by_copy :: "os_ret \<Rightarrow> os_ret \<Rightarrow> nat \<Rightarrow> nat \<Rightarrow> copy_files \<Rightarrow> os_ret \<times> copy_files" where
  "sppc_send_by_copy pread_ans write_ans start count s =
     (case pread_ans of
        Err e \<Rightarrow> (Err e, s)
      | Ret got \<Rightarrow>
          if got \<le> 0 then (Ret got, s)
          else (case write_ans of
                  Err e \<Rightarrow> (Err e, s)
                | Ret w \<Rightarrow> (Ret w, s\<lparr>cf_out := cf_out s @ take (nat w) (take (nat got) (drop start (cf_in s)))\<rparr>)))"

text \<open>
  The write loop of \<^verbatim>\<open>_sppc_copy_range\<close>: how much of the buffer is written, and the errno it stopped
  with, if it did. None while a write has not answered.
\<close>

fun copy_write_loop ::
  "int \<Rightarrow> os_ret list \<Rightarrow> bytes \<Rightarrow> nat \<Rightarrow> copy_files \<Rightarrow> (nat \<times> int option \<times> copy_files) option" where
  "copy_write_loop eintr ws buf dn s =
     (if dn \<ge> length buf then Some (dn, None, s)
      else (case ws of
              [] \<Rightarrow> None
            | Err e # ws' \<Rightarrow> if e = eintr then copy_write_loop eintr ws' buf dn s else Some (dn, Some e, s)
            | Ret w # ws' \<Rightarrow>
                copy_write_loop eintr ws' buf (dn + nat w)
                  (s\<lparr>cf_out := cf_out s @ take (nat w) (drop dn buf)\<rparr>)))"

declare copy_write_loop.simps [simp del]

definition sppc_copy_range ::
  "int \<Rightarrow> os_ret \<Rightarrow> os_ret list \<Rightarrow> nat \<Rightarrow> copy_files \<Rightarrow> (os_ret \<times> copy_files) option" where
  "sppc_copy_range eintr read_ans ws len s =
     (if len = 0 then Some (Ret 0, s)
      else (case read_ans of
              Err e \<Rightarrow> Some (Err e, s)
            | Ret got \<Rightarrow>
                if got \<le> 0 then Some (Ret got, s)
                else let buf = take (nat got) (drop (cf_pos s) (cf_in s)); s1 = s\<lparr>cf_pos := cf_pos s + nat got\<rparr> in do {
                  (dn, err, s2) \<leftarrow> copy_write_loop eintr ws buf 0 s1;
                  let s3 = (if dn < nat got then s2\<lparr>cf_pos := cf_pos s2 - (nat got - dn)\<rparr> else s2);
                  Some (case err of
                          Some e \<Rightarrow> if dn < nat got \<and> dn = 0 then (Err e, s3) else (Ret (int dn), s3)
                        | None \<Rightarrow> (Ret (int dn), s3))
                }))"

section \<open>Files\<close>

definition open_flags_table :: "os_macros \<Rightarrow> sppc_pair list" where
  "open_flags_table os = pair_table os
     [(''O_TMPFILE'', SPPC_O_TMPFILE), (''O_SYNC'', SPPC_O_SYNC), (''O_CREAT'', SPPC_O_CREAT),
      (''O_EXCL'', SPPC_O_EXCL), (''O_NOCTTY'', SPPC_O_NOCTTY), (''O_TRUNC'', SPPC_O_TRUNC),
      (''O_APPEND'', SPPC_O_APPEND), (''O_NONBLOCK'', SPPC_O_NONBLOCK), (''O_DSYNC'', SPPC_O_DSYNC),
      (''O_ASYNC'', SPPC_O_ASYNC), (''O_DIRECT'', SPPC_O_DIRECT), (''O_DIRECTORY'', SPPC_O_DIRECTORY),
      (''O_NOFOLLOW'', SPPC_O_NOFOLLOW), (''O_NOATIME'', SPPC_O_NOATIME), (''O_CLOEXEC'', SPPC_O_CLOEXEC),
      (''O_PATH'', SPPC_O_PATH)]"

definition open_modes_table :: "os_macros \<Rightarrow> sppc_pair list" where
  "open_modes_table os = pair_table os
     [(''O_RDONLY'', SPPC_O_RDONLY), (''O_WRONLY'', SPPC_O_WRONLY), (''O_RDWR'', SPPC_O_RDWR)]"

definition sppc_to_os_open_flags :: "os_macros \<Rightarrow> int \<Rightarrow> int + int" where
  "sppc_to_os_open_flags os flags =
     (case sppc_to_os_value (flags AND SPPC_O_ACCMODE) (open_modes_table os) of
        Inl _ \<Rightarrow> Inl SPPC_EINVAL
      | Inr mode \<Rightarrow>
          (case sppc_to_os_flags (flags AND NOT SPPC_O_ACCMODE) (open_flags_table os) of
             Inl _ \<Rightarrow> Inl SPPC_EINVAL
           | Inr rest \<Rightarrow> Inr (mode OR rest)))"

definition sppc_from_os_open_flags :: "os_macros \<Rightarrow> int \<Rightarrow> int" where
  "sppc_from_os_open_flags os flags =
     (let access = (mac os ''O_RDONLY'' OR mac os ''O_WRONLY'') OR mac os ''O_RDWR'' in
      sppc_from_os_value (flags AND access) (open_modes_table os) 0 OR
      sppc_from_os_flags (flags AND NOT access) (open_flags_table os))"

definition MODE_PERMISSIONS :: int where "MODE_PERMISSIONS = 4095"  \<comment> \<open>octal 07777\<close>
definition ACCESS_MODES :: int where "ACCESS_MODES = (SPPC_R_OK OR SPPC_W_OK) OR SPPC_X_OK"

definition sppc_to_os_mode :: "int \<Rightarrow> int + int" where
  "sppc_to_os_mode mode = (if mode AND NOT MODE_PERMISSIONS \<noteq> 0 then Inl SPPC_EINVAL else Inr mode)"

text \<open>The platform's answer to stat, and to statvfs.\<close>

record os_stat =
  os_dev :: int
  os_ino :: int
  os_nlink :: int
  os_rdev :: int
  os_size :: int
  os_blksize :: int
  os_blocks :: int
  os_atim :: timespec
  os_mtim :: timespec
  os_ctim :: timespec
  os_mode :: int
  os_uid :: int
  os_gid :: int

text \<open>Each time is cast to the unsigned fields as it is.\<close>

definition cast_timespec :: "timespec \<Rightarrow> sppc_timespec" where
  "cast_timespec t = \<lparr>ts_sec = word_of_int (tv_sec t), ts_nsec = word_of_int (tv_nsec t)\<rparr>"

definition sppc_from_os_stat :: "os_stat \<Rightarrow> sppc_stat" where
  "sppc_from_os_stat si =
     \<lparr>st_dev = word_of_int (os_dev si), st_ino = word_of_int (os_ino si), st_nlink = word_of_int (os_nlink si),
      st_rdev = word_of_int (os_rdev si), st_size = os_size si, st_block_size = os_blksize si,
      st_blocks = os_blocks si, st_atim = cast_timespec (os_atim si), st_mtim = cast_timespec (os_mtim si),
      st_ctim = cast_timespec (os_ctim si), st_mode = os_mode si, st_uid = os_uid si, st_gid = os_gid si\<rparr>"

record os_statvfs =
  f_bsize :: int
  f_frsize :: int
  f_blocks :: int
  f_bfree :: int
  f_bavail :: int
  f_files :: int
  f_ffree :: int
  f_favail :: int
  f_fsid :: int
  f_flag :: int
  f_namemax :: int

record sppc_statvfs =
  vf_block_size :: u64
  vf_frag_size :: u64
  vf_blocks :: u64
  vf_blocks_free :: u64
  vf_blocks_available :: u64
  vf_files :: u64
  vf_files_free :: u64
  vf_files_available :: u64
  vf_fs_id :: u64
  vf_flag :: u64
  vf_namemax :: u64

definition statvfs_flags :: "os_macros \<Rightarrow> sppc_pair list" where
  "statvfs_flags os = pair_table os
     [(''ST_RDONLY'', SPPC_ST_RDONLY), (''ST_NOSUID'', SPPC_ST_NOSUID), (''ST_NODEV'', SPPC_ST_NODEV),
      (''ST_NOEXEC'', SPPC_ST_NOEXEC), (''ST_SYNCHRONOUS'', SPPC_ST_SYNCHRONOUS),
      (''ST_MANDLOCK'', SPPC_ST_MANDLOCK), (''ST_NOATIME'', SPPC_ST_NOATIME),
      (''ST_NODIRATIME'', SPPC_ST_NODIRATIME), (''ST_RELATIME'', SPPC_ST_RELATIME)]"

definition sppc_from_os_statvfs :: "os_macros \<Rightarrow> os_statvfs \<Rightarrow> sppc_statvfs" where
  "sppc_from_os_statvfs os si =
     \<lparr>vf_block_size = word_of_int (f_bsize si), vf_frag_size = word_of_int (f_frsize si),
      vf_blocks = word_of_int (f_blocks si), vf_blocks_free = word_of_int (f_bfree si),
      vf_blocks_available = word_of_int (f_bavail si), vf_files = word_of_int (f_files si),
      vf_files_free = word_of_int (f_ffree si), vf_files_available = word_of_int (f_favail si),
      vf_fs_id = word_of_int (f_fsid si),
      vf_flag = word_of_int (sppc_from_os_flags (f_flag si) (statvfs_flags os)),
      vf_namemax = word_of_int (f_namemax si)\<rparr>"

definition sppc_to_os_at_flags :: "os_macros \<Rightarrow> int \<Rightarrow> int + int" where
  "sppc_to_os_at_flags os flags =
     sppc_to_os_flags flags (pair_table os [(''AT_SYMLINK_NOFOLLOW'', SPPC_AT_SYMLINK_NOFOLLOW)])"

definition lock_types_table :: "os_macros \<Rightarrow> sppc_pair list" where
  "lock_types_table os = pair_table os
     [(''F_RDLCK'', SPPC_F_RDLCK), (''F_WRLCK'', SPPC_F_WRLCK), (''F_UNLCK'', SPPC_F_UNLCK)]"

section \<open>Memory\<close>

text \<open>\<^verbatim>\<open>_SPPC_MAP_NORESERVE\<close> is 0 where the platform has none.\<close>

definition sppc_to_os_map_flags :: "os_macros \<Rightarrow> int \<Rightarrow> int + int" where
  "sppc_to_os_map_flags os flags =
     sppc_to_os_flags flags
       (pair_table os [(''MAP_SHARED'', SPPC_MAP_SHARED), (''MAP_PRIVATE'', SPPC_MAP_PRIVATE),
          (''MAP_FIXED'', SPPC_MAP_FIXED), (''MAP_ANONYMOUS'', SPPC_MAP_ANONYMOUS)] @
        [(SPPC_MAP_NORESERVE, mac os ''MAP_NORESERVE'')])"

definition sppc_to_os_msync_flags :: "os_macros \<Rightarrow> int \<Rightarrow> int + int" where
  "sppc_to_os_msync_flags os flags =
     sppc_to_os_flags flags (pair_table os
       [(''MS_ASYNC'', SPPC_MS_ASYNC), (''MS_INVALIDATE'', SPPC_MS_INVALIDATE), (''MS_SYNC'', SPPC_MS_SYNC)])"

definition sppc_to_os_madvise :: "os_macros \<Rightarrow> int \<Rightarrow> int + int" where
  "sppc_to_os_madvise os advice =
     sppc_to_os_value advice (pair_table os
       [(''MADV_NORMAL'', SPPC_MADV_NORMAL), (''MADV_RANDOM'', SPPC_MADV_RANDOM),
        (''MADV_SEQUENTIAL'', SPPC_MADV_SEQUENTIAL), (''MADV_WILLNEED'', SPPC_MADV_WILLNEED),
        (''MADV_DONTNEED'', SPPC_MADV_DONTNEED), (''MADV_FREE'', SPPC_MADV_FREE)])"

section \<open>Time\<close>

definition sppc_to_os_clock :: "os_macros \<Rightarrow> int \<Rightarrow> int + int" where
  "sppc_to_os_clock os clock =
     (case sppc_to_os_value clock (pair_table os
        [(''CLOCK_REALTIME'', SPPC_CLOCK_REALTIME), (''CLOCK_MONOTONIC'', SPPC_CLOCK_MONOTONIC),
         (''CLOCK_PROCESS_CPUTIME_ID'', SPPC_CLOCK_PROCESS_CPUTIME_ID),
         (''CLOCK_THREAD_CPUTIME_ID'', SPPC_CLOCK_THREAD_CPUTIME_ID),
         (''CLOCK_MONOTONIC_RAW'', SPPC_CLOCK_MONOTONIC_RAW),
         (''CLOCK_REALTIME_COARSE'', SPPC_CLOCK_REALTIME_COARSE),
         (''CLOCK_MONOTONIC_COARSE'', SPPC_CLOCK_MONOTONIC_COARSE),
         (''CLOCK_BOOTTIME'', SPPC_CLOCK_BOOTTIME)]) of
        Inl _ \<Rightarrow> Inl SPPC_EINVAL
      | Inr c \<Rightarrow> Inr c)"

definition sppc_to_os_timespec :: "sppc_timespec \<Rightarrow> int + timespec" where
  "sppc_to_os_timespec t =
     (if ts_nsec t \<ge> 1000000000 \<or> ts_sec t > 0x7FFFFFFFFFFFFFFF then Inl SPPC_EINVAL
      else Inr \<lparr>tv_sec = sint (ts_sec t), tv_nsec = sint (ts_nsec t)\<rparr>)"

definition sppc_from_os_timespec :: "timespec \<Rightarrow> sppc_timespec" where
  "sppc_from_os_timespec t =
     \<lparr>ts_sec = (if tv_sec t < 0 then 0 else word_of_int (tv_sec t)),
      ts_nsec = (if tv_sec t < 0 then 0 else word_of_int (tv_nsec t))\<rparr>"

text \<open>A struct timeval of the platform's: seconds and microseconds.\<close>

type_synonym os_timeval = "int \<times> int"

definition sppc_to_os_timeval :: "sppc_timeval \<Rightarrow> int + os_timeval" where
  "sppc_to_os_timeval t =
     (if tv_usecs t \<ge> 1000000 \<or> tv_secs t > 0x7FFFFFFFFFFFFFFF then Inl SPPC_EINVAL
      else Inr (sint (tv_secs t), sint (tv_usecs t)))"

definition sppc_from_os_timeval :: "os_timeval \<Rightarrow> sppc_timeval" where
  "sppc_from_os_timeval t =
     \<lparr>tv_secs = (if fst t < 0 then 0 else word_of_int (fst t)),
      tv_usecs = (if fst t < 0 then 0 else word_of_int (snd t))\<rparr>"

definition sppc_to_os_timer_flags :: "os_macros \<Rightarrow> int \<Rightarrow> int + int" where
  "sppc_to_os_timer_flags os flags =
     sppc_to_os_flags flags (pair_table os [(''TIMER_ABSTIME'', SPPC_TIMER_ABSTIME)])"

section \<open>Signals\<close>

definition signal_table :: "os_macros \<Rightarrow> sppc_pair list" where
  "signal_table os = (0, 0) # pair_table os
     [(''SIGHUP'', SPPC_SIGHUP), (''SIGINT'', SPPC_SIGINT), (''SIGQUIT'', SPPC_SIGQUIT), (''SIGILL'', SPPC_SIGILL),
      (''SIGTRAP'', SPPC_SIGTRAP), (''SIGABRT'', SPPC_SIGABRT), (''SIGBUS'', SPPC_SIGBUS), (''SIGFPE'', SPPC_SIGFPE),
      (''SIGKILL'', SPPC_SIGKILL), (''SIGUSR1'', SPPC_SIGUSR1), (''SIGSEGV'', SPPC_SIGSEGV),
      (''SIGUSR2'', SPPC_SIGUSR2), (''SIGPIPE'', SPPC_SIGPIPE), (''SIGALRM'', SPPC_SIGALRM),
      (''SIGTERM'', SPPC_SIGTERM), (''SIGCHLD'', SPPC_SIGCHLD), (''SIGCONT'', SPPC_SIGCONT),
      (''SIGSTOP'', SPPC_SIGSTOP), (''SIGTSTP'', SPPC_SIGTSTP), (''SIGTTIN'', SPPC_SIGTTIN),
      (''SIGTTOU'', SPPC_SIGTTOU), (''SIGURG'', SPPC_SIGURG), (''SIGXCPU'', SPPC_SIGXCPU),
      (''SIGXFSZ'', SPPC_SIGXFSZ), (''SIGVTALRM'', SPPC_SIGVTALRM), (''SIGPROF'', SPPC_SIGPROF),
      (''SIGWINCH'', SPPC_SIGWINCH), (''SIGIO'', SPPC_SIGIO), (''SIGSYS'', SPPC_SIGSYS)]"

definition sppc_to_os_signal :: "os_macros \<Rightarrow> int \<Rightarrow> int + int" where
  "sppc_to_os_signal os signal = sppc_to_os_value signal (signal_table os)"

section \<open>The split stack\<close>

definition UNSAFE_STACK_MIN :: u64 where "UNSAFE_STACK_MIN = 1024 * 1024"
definition UNSAFE_STACK_MAX :: u64 where "UNSAFE_STACK_MAX = 64 * 1024 * 1024"

datatype map_call = MapCall u64 | ProtectCall u64 u64 | UnmapCall u64 u64

record split_stack =
  us_base :: "u64 option"
  us_size :: u64
  us_ptr :: "u64 option"
  us_wanted :: bool
  us_calls :: "map_call list"

text \<open>The size given (0 where it cannot be read), clamped and rounded up to whole pages.\<close>

definition unsafe_stack_bytes :: "u64 \<Rightarrow> u64 \<Rightarrow> u64" where
  "unsafe_stack_bytes page given =
     (let s1 = (if given < UNSAFE_STACK_MIN then UNSAFE_STACK_MIN else given);
          s2 = (if s1 > UNSAFE_STACK_MAX then UNSAFE_STACK_MAX else s1)
      in (s2 + page - 1) AND NOT (page - 1))"

text \<open>\<^verbatim>\<open>mapped\<close> is mmap's answer, \<^verbatim>\<open>protect_err\<close> mprotect's errno (0 for none).\<close>

definition sppc_unsafe_stack_up ::
  "os_errnos \<Rightarrow> u64 \<Rightarrow> u64 \<Rightarrow> int + u64 \<Rightarrow> int \<Rightarrow> split_stack \<Rightarrow> int \<times> split_stack" where
  "sppc_unsafe_stack_up eno page given mapped protect_err t =
     (if us_base t \<noteq> None then (0, t)
      else let t1 = t\<lparr>us_wanted := True\<rparr>; total = unsafe_stack_bytes page given + page in
        (case mapped of
           Inl err \<Rightarrow> (sppc_errno eno err, t1\<lparr>us_calls := us_calls t1 @ [MapCall total]\<rparr>)
         | Inr p \<Rightarrow>
             if protect_err \<noteq> 0
             then (sppc_errno eno protect_err,
                   t1\<lparr>us_calls := us_calls t1 @ [MapCall total, ProtectCall p page, UnmapCall p total]\<rparr>)
             else (0, t1\<lparr>us_base := Some p, us_size := total, us_ptr := Some (p + total),
                         us_calls := us_calls t1 @ [MapCall total, ProtectCall p page]\<rparr>)))"

definition sppc_unsafe_stack_down :: "split_stack \<Rightarrow> split_stack" where
  "sppc_unsafe_stack_down t =
     (case us_base t of
        None \<Rightarrow> t
      | Some p \<Rightarrow> t\<lparr>us_base := None, us_size := 0, us_ptr := None,
                    us_calls := us_calls t @ [UnmapCall p (us_size t)]\<rparr>)"

section \<open>Start and end\<close>

datatype boot_call =
    SignalAction string bool  \<comment> \<open>ignored, or the default\<close>
  | BtInstall
  | SetLocale string
  | TzSet
  | CancelDeferred
  | CancelEnable
  | Mallopt string nat
  | GtInit
  | GtDrain
  | MutexInit string
  | MutexDestroy string

text \<open>Each call in turn, until one fails (\<^verbatim>\<open>_return_if_pthread_err\<close>).\<close>

fun in_turn :: "os_errnos \<Rightarrow> (boot_call \<Rightarrow> int) \<Rightarrow> boot_call list \<Rightarrow> int \<times> boot_call list" where
  "in_turn eno answer [] = (0, [])"
| "in_turn eno answer (c # cs) =
     (if answer c \<noteq> 0 then (sppc_errno eno (answer c), [c])
      else let (err, made) = in_turn eno answer cs in (err, c # made))"

definition sppc_init :: "os_errnos \<Rightarrow> bool \<Rightarrow> (boot_call \<Rightarrow> int) \<Rightarrow> int \<times> boot_call list" where
  "sppc_init eno glibc answer =
     (let (err, made) = in_turn eno answer [MutexInit ''stdin'', MutexInit ''stdout'', MutexInit ''stderr'']
      in (err, [SignalAction ''SIGPIPE'' True, SignalAction ''SIGCHLD'' False, SignalAction ''SIGHUP'' True, BtInstall,
                SetLocale ''en_GB.UTF-8'', TzSet, CancelDeferred, CancelEnable] @
               (if glibc then [Mallopt ''M_TRIM_THRESHOLD'' (128 * 1024), Mallopt ''M_MMAP_THRESHOLD'' (64 * 1024)] else []) @
               [GtInit] @ made))"

definition sppc_cleanup :: "os_errnos \<Rightarrow> (boot_call \<Rightarrow> int) \<Rightarrow> int \<times> boot_call list" where
  "sppc_cleanup eno answer =
     (let (err, made) = in_turn eno answer [MutexDestroy ''stdin'', MutexDestroy ''stdout'', MutexDestroy ''stderr'']
      in (err, GtDrain # made))"

section \<open>Heap\<close>

datatype heap_call = Malloc u64 | Calloc u64 u64 | Realloc "u64 option" u64 | Memalign u64 u64 | Free "u64 option"

text \<open>The pointer given back, the calls made with their answer (and the errno set by hand).\<close>

definition sppc_malloc :: "(heap_call \<Rightarrow> u64 option) \<Rightarrow> u64 \<Rightarrow> u64 option \<times> heap_call list" where
  "sppc_malloc answer sz = (answer (Malloc sz), [Malloc sz])"

definition sppc_calloc :: "(heap_call \<Rightarrow> u64 option) \<Rightarrow> u64 \<Rightarrow> u64 \<Rightarrow> u64 option \<times> heap_call list" where
  "sppc_calloc answer num sz = (answer (Calloc num sz), [Calloc num sz])"

definition sppc_realloc :: "(heap_call \<Rightarrow> u64 option) \<Rightarrow> u64 option \<Rightarrow> u64 \<Rightarrow> u64 option \<times> heap_call list" where
  "sppc_realloc answer ptr new_size =
     (if new_size = 0 \<and> ptr \<noteq> None then (None, [Free ptr])
      else (answer (Realloc ptr new_size), [Realloc ptr new_size]))"

definition sppc_free :: "u64 option \<Rightarrow> heap_call list" where
  "sppc_free ptr = [Free ptr]"

text \<open>\<^verbatim>\<open>answer\<close> is posix_memalign's: its error, or the block.\<close>

definition sppc_aligned_alloc ::
  "os_macros \<Rightarrow> (heap_call \<Rightarrow> int + u64) \<Rightarrow> u64 \<Rightarrow> u64 \<Rightarrow> (int + u64) \<times> heap_call list" where
  "sppc_aligned_alloc os answer sz alignment =
     (if alignment = 0 \<or> alignment AND (alignment - 1) \<noteq> 0 then (Inl (mac os ''EINVAL''), [])
      else let c = Memalign (if alignment < 8 then 8 else alignment) sz in (answer c, [c]))"

section \<open>Facts\<close>

lemma nsec_up_nanos: "nsec \<le> 999999999 \<Longrightarrow>
    tv_sec (nsec_up sec nsec) * 1000000000 + tv_nsec (nsec_up sec nsec) = sec * 1000000000 + nsec \<and>
    0 \<le> tv_nsec (nsec_up sec nsec) \<and> tv_nsec (nsec_up sec nsec) \<le> 999999999"
  by (induction sec nsec rule: nsec_up.induct) (simp add: nsec_up.simps)

lemma nsec_down_nanos: "0 \<le> nsec \<Longrightarrow>
    tv_sec (nsec_down sec nsec) * 1000000000 + tv_nsec (nsec_down sec nsec) = sec * 1000000000 + nsec \<and>
    0 \<le> tv_nsec (nsec_down sec nsec) \<and> tv_nsec (nsec_down sec nsec) < 1000000000"
  by (induction sec nsec rule: nsec_down.induct) (simp add: nsec_down.simps)

text \<open>Writes that take no more than they are given.\<close>

fun writes_fit :: "nat \<Rightarrow> os_ret list \<Rightarrow> bool" where
  "writes_fit n [] = True"
| "writes_fit n (Err e # ws) = writes_fit n ws"
| "writes_fit n (Ret w # ws) = (0 \<le> w \<and> nat w \<le> n \<and> writes_fit (n - nat w) ws)"

lemma copy_write_loop_writes:
  assumes "copy_write_loop eintr ws buf dn s = Some (n, err, s')"
    "writes_fit (length buf - dn) ws" "dn \<le> length buf"
  shows "dn \<le> n \<and> n \<le> length buf \<and> cf_pos s' = cf_pos s \<and> cf_in s' = cf_in s \<and>
    cf_out s' = cf_out s @ take (n - dn) (drop dn buf) \<and> (err = None \<longrightarrow> n = length buf)"
  using assms
proof (induction ws arbitrary: dn s)
  case Nil
  then show ?case by (auto simp: copy_write_loop.simps split: if_splits)
next
  case (Cons a ws)
  show ?case
  proof (cases "dn \<ge> length buf")
    case True
    then show ?thesis using Cons.prems by (auto simp: copy_write_loop.simps)
  next
    case False
    show ?thesis
    proof (cases a)
      case (Err e)
      then show ?thesis
        using Cons.prems False Cons.IH [of "dn" s] by (subst (asm) copy_write_loop.simps) (auto split: if_splits)
    next
      case (Ret w)
      let ?s = "s\<lparr>cf_out := cf_out s @ take (nat w) (drop dn buf)\<rparr>"
      have w: "0 \<le> w" "nat w \<le> length buf - dn" "writes_fit (length buf - (dn + nat w)) ws"
        using Cons.prems(2) Ret by simp_all
      have "copy_write_loop eintr ws buf (dn + nat w) ?s = Some (n, err, s')"
        using Cons.prems(1) False Ret by (subst (asm) copy_write_loop.simps) simp
      then have "dn + nat w \<le> n \<and> n \<le> length buf \<and> cf_pos s' = cf_pos ?s \<and> cf_in s' = cf_in ?s \<and>
          cf_out s' = cf_out ?s @ take (n - (dn + nat w)) (drop (dn + nat w) buf) \<and>
          (err = None \<longrightarrow> n = length buf)"
        using Cons.IH [of "dn + nat w" ?s] w False by simp
      moreover have "take (n - dn) (drop dn buf) =
          take (nat w) (drop dn buf) @ take (n - (dn + nat w)) (drop (dn + nat w) buf)"
        if "dn + nat w \<le> n"
      proof -
        have "n - dn = nat w + (n - (dn + nat w))" using that by simp
        then show ?thesis by (simp only: take_add drop_drop add.commute [of "nat w" "dn"])
      qed
      ultimately show ?thesis by simp
    qed
  qed
qed

lemma realtime_deadline_exact:
  assumes "os ''CLOCK_REALTIME'' \<noteq> Some clock" "timespec_ok now" "timespec_ok real" "timespec_ok deadline"
  shows "\<exists>d. sppc_realtime_deadline os (Some now) (Some real) clock deadline = Inr d \<and>
    nanos d - nanos real = nanos deadline - nanos now \<and> 0 \<le> tv_nsec d \<and> tv_nsec d < 1000000000"
proof -
  let ?sec = "tv_sec real + (tv_sec deadline - tv_sec now)"
  let ?nsec = "tv_nsec real + (tv_nsec deadline - tv_nsec now)"
  define up where "up = nsec_up ?sec ?nsec"
  show ?thesis
  proof (cases "?nsec < 0")
    case True
    then have "tv_sec up * 1000000000 + tv_nsec up = ?sec * 1000000000 + ?nsec \<and> 0 \<le> tv_nsec up"
      using nsec_up_nanos [of ?nsec ?sec] by (simp add: up_def)
    then show ?thesis
      using assms(1) nsec_down_nanos [of "tv_nsec up" "tv_sec up"]
      by (auto simp: sppc_realtime_deadline_def Let_def nanos_def up_def algebra_simps)
  next
    case False
    then have "up = \<lparr>tv_sec = ?sec, tv_nsec = ?nsec\<rparr>" by (simp add: up_def nsec_up.simps)
    then show ?thesis
      using assms(1) False nsec_down_nanos [of "tv_nsec up" "tv_sec up"]
      by (auto simp: sppc_realtime_deadline_def Let_def nanos_def up_def algebra_simps)
  qed
qed

text \<open>The split stack's size: whole pages, and within the bounds but for the rounding.\<close>

lemma unsafe_stack_bytes_bounds:
  assumes "12 \<le> k" "k \<le> 20"
  shows "1048576 \<le> unat (unsafe_stack_bytes (2 ^ k) given)"
    and "unat (unsafe_stack_bytes (2 ^ k) given) < 67108864 + 2 ^ k"
    and "2 ^ k dvd unat (unsafe_stack_bytes (2 ^ k) given)"
proof -
  define s2 :: u64 where "s2 = (let s1 = (if given < UNSAFE_STACK_MIN then UNSAFE_STACK_MIN else given)
    in if s1 > UNSAFE_STACK_MAX then UNSAFE_STACK_MAX else s1)"
  have b: "1048576 \<le> unat s2" "unat s2 \<le> 67108864"
    by (auto simp: s2_def Let_def UNSAFE_STACK_MIN_def UNSAFE_STACK_MAX_def word_less_nat_alt)
  have e: "unsafe_stack_bytes (2 ^ k) given = align_up s2 (2 ^ k)"
    by (simp add: unsafe_stack_bytes_def align_up_def s2_def Let_def algebra_simps)
  have "(2::nat) ^ k \<le> 2 ^ 20" using assms(2) by (intro power_increasing) simp_all
  then have "unat s2 + 2 ^ k - 1 < 2 ^ LENGTH(64)" using b by simp
  note a = align_up_bounds [OF _ this]
  show "1048576 \<le> unat (unsafe_stack_bytes (2 ^ k) given)"
    "unat (unsafe_stack_bytes (2 ^ k) given) < 67108864 + 2 ^ k"
    "2 ^ k dvd unat (unsafe_stack_bytes (2 ^ k) given)"
    using a b assms by (simp_all add: e)
qed

text \<open>What the split stack maps is unmapped, with its size, by the failure that follows or by the end.\<close>

lemma split_stack_balanced:
  assumes "us_base t = None"
  shows "us_calls (sppc_unsafe_stack_down (snd (sppc_unsafe_stack_up eno page given mapped protect_err t))) =
    us_calls t @ (let total = unsafe_stack_bytes page given + page in
      case mapped of Inl err \<Rightarrow> [MapCall total] | Inr p \<Rightarrow> [MapCall total, ProtectCall p page, UnmapCall p total])"
  using assms
  by (auto simp: sppc_unsafe_stack_up_def sppc_unsafe_stack_down_def Let_def split: sum.split)

section \<open>Properties\<close>

text \<open>A copy made by reading and writing loses nothing: when it reports a count, exactly that many bytes
  have gone to the output and the input's position has moved by exactly that much, however the writes
  were cut short or interrupted; when it fails, neither has changed.\<close>

theorem copy_loses_nothing:
  assumes "sppc_copy_range eintr read_ans ws len s = Some (r, s')"
    "case read_ans of Ret got \<Rightarrow> cf_pos s + nat got \<le> length (cf_in s) \<and> writes_fit (nat got) ws | Err e \<Rightarrow> True"
  shows "case r of
      Err e \<Rightarrow> s' = s
    | Ret n \<Rightarrow> cf_pos s' = cf_pos s + nat n \<and> cf_in s' = cf_in s \<and>
        cf_out s' = cf_out s @ take (nat n) (drop (cf_pos s) (cf_in s))"
proof (cases "len = 0 \<or> (case read_ans of Ret got \<Rightarrow> got \<le> 0 | Err e \<Rightarrow> True)")
  case True
  then show ?thesis using assms(1) by (auto simp: sppc_copy_range_def split: os_ret.splits if_splits)
next
  case False
  then obtain got where got: "read_ans = Ret got" "0 < got" "len \<noteq> 0" by (auto split: os_ret.splits)
  let ?buf = "take (nat got) (drop (cf_pos s) (cf_in s))"
  let ?s1 = "s\<lparr>cf_pos := cf_pos s + nat got\<rparr>"
  have len: "length ?buf = nat got" using assms(2) got by (auto simp: min_def)
  obtain n err s2 where l: "copy_write_loop eintr ws ?buf 0 ?s1 = Some (n, err, s2)"
    using assms(1) got by (auto simp: sppc_copy_range_def Let_def bind_eq_Some_conv split: if_splits)
  have w: "n \<le> nat got" "cf_pos s2 = cf_pos s + nat got" "cf_in s2 = cf_in s"
    "cf_out s2 = cf_out s @ take n ?buf" "err = None \<longrightarrow> n = nat got"
    using copy_write_loop_writes [OF l] assms(2) got len by auto
  have tk: "take n ?buf = take n (drop (cf_pos s) (cf_in s))" using w(1) by (simp add: min_def)
  let ?s3 = "if n < nat got then s2\<lparr>cf_pos := cf_pos s2 - (nat got - n)\<rparr> else s2"
  have res: "s' = ?s3" "r = (case err of Some e \<Rightarrow> if n < nat got \<and> n = 0 then Err e else Ret (int n) | None \<Rightarrow> Ret (int n))"
    using assms(1) got l by (auto simp: sppc_copy_range_def Let_def split: option.splits if_splits)
  have s3: "cf_pos ?s3 = cf_pos s + n" "cf_in ?s3 = cf_in s" "cf_out ?s3 = cf_out s @ take n (drop (cf_pos s) (cf_in s))"
    using w tk by auto
  show ?thesis
  proof (cases r)
    case (Ret m)
    then have "nat m = n" using res(2) by (auto split: option.splits if_splits)
    then show ?thesis using Ret res(1) s3 by simp
  next
    case (Err e)
    then have "n = 0" using res(2) by (auto split: option.splits if_splits)
    then have "?s3 = s" using s3 by (cases s, cases ?s3) auto
    then show ?thesis using Err res(1) by simp
  qed
qed

theorem copy_loses_nothing_witness:
  "sppc_copy_range 4 (Ret 3) [Err 4, Ret 2, Err 28] 10 \<lparr>cf_in = [1, 2, 3, 4], cf_pos = 0, cf_out = []\<rparr> =
     Some (Ret 2, \<lparr>cf_in = [1, 2, 3, 4], cf_pos = 2, cf_out = [1, 2]\<rparr>) \<and>
   cf_pos \<lparr>cf_in = [1, 2, 3, 4 :: u8], cf_pos = 2, cf_out = [1, 2]\<rparr> = 0 + nat 2"
proof -
  have run: "sppc_copy_range 4 (Ret 3) [Err 4, Ret 2, Err 28] 10 \<lparr>cf_in = [1, 2, 3, 4], cf_pos = 0, cf_out = []\<rparr> =
     Some (Ret 2, \<lparr>cf_in = [1, 2, 3, 4], cf_pos = 2, cf_out = [1, 2]\<rparr>)"
    by (simp add: sppc_copy_range_def copy_write_loop.simps)
  show ?thesis using run copy_loses_nothing [OF run] by simp
qed

text \<open>A time of the interface is refused, or reaches the platform as a valid time and comes back as it was;
  a time of the platform's before 1970 reads as 1970.\<close>

theorem timespec_round_trip:
  "(case sppc_to_os_timespec t of
      Inl e \<Rightarrow> e = SPPC_EINVAL \<and> (ts_nsec t \<ge> 1000000000 \<or> ts_sec t > 0x7FFFFFFFFFFFFFFF)
    | Inr os \<Rightarrow> timespec_ok os \<and> sppc_from_os_timespec os = t) \<and>
   sppc_from_os_timespec \<lparr>tv_sec = - 1 - int n, tv_nsec = m\<rparr> = \<lparr>ts_sec = 0, ts_nsec = 0\<rparr>"
proof (cases "ts_nsec t \<ge> 1000000000 \<or> ts_sec t > 0x7FFFFFFFFFFFFFFF")
  case True
  then show ?thesis by (simp add: sppc_to_os_timespec_def sppc_from_os_timespec_def)
next
  case False
  then have n: "uint (ts_nsec t) < 1000000000" and s: "uint (ts_sec t) \<le> 2 ^ 63 - 1"
    by (simp_all add: not_le not_less word_less_def word_le_def)
  have id: "sint x = uint x" if "uint x \<le> 2 ^ 63 - 1" for x :: u64
  proof -
    have "signed_take_bit 63 (uint x) = uint x"
      using that uint_nonnegative [of x] by (intro signed_take_bit_int_eq_self) linarith+
    then show ?thesis by (simp add: sint_uint)
  qed
  have "sint (ts_nsec t) = uint (ts_nsec t)" "sint (ts_sec t) = uint (ts_sec t)"
    using n s by (simp_all add: id)
  then show ?thesis using False n s
    by (cases t) (auto simp: sppc_to_os_timespec_def sppc_from_os_timespec_def timespec_ok_def INT64_MAX_def)
qed

text \<open>Unlike every other time, one of a file's is not brought to 1970: it wraps around.\<close>

lemma stat_time_wraps:
  "st_mtim (sppc_from_os_stat (si\<lparr>os_mtim := \<lparr>tv_sec = - 1, tv_nsec = 0\<rparr>\<rparr>)) = \<lparr>ts_sec = - 1, ts_nsec = 0\<rparr>"
  "sppc_from_os_timespec \<lparr>tv_sec = - 1, tv_nsec = 0\<rparr> = \<lparr>ts_sec = 0, ts_nsec = 0\<rparr>"
  by (simp_all add: sppc_from_os_stat_def cast_timespec_def sppc_from_os_timespec_def)

end
