(* ===== verification/PosixCalls.thy ===== *)
theory PosixCalls
  imports Posix
begin

text \<open>
  The public calls of the POSIX platforms (platform/posix.h, from its system calls on): each checks and
  translates its arguments, makes its call, and turns the answer into the interface's. A platform is a
  record: its macros and error numbers, its calls on a state, the tries of the async runtime, and what
  the buffers a call fills hold after it. The result is an error of the interface, or 0.
\<close>

datatype posix_kernel = KLinux | KFreeBSD | KDarwin

record 'w posix =
  px_os :: os_macros
  px_eno :: os_errnos
  px_kernel :: posix_kernel
  px_page :: u64
  px_sys :: "'w os_sys"
  px_try :: "os_call \<Rightarrow> 'w \<Rightarrow> os_ret option \<times> 'w"  \<comment> \<open>None: not taken by the async runtime\<close>
  px_errno :: "'w \<Rightarrow> int"  \<comment> \<open>the calling thread's errno\<close>
  px_stat :: "'w \<Rightarrow> os_stat"
  px_statvfs :: "'w \<Rightarrow> os_statvfs"
  px_time :: "'w \<Rightarrow> timespec"
  px_timeval :: "'w \<Rightarrow> os_timeval"
  px_opt :: "'w \<Rightarrow> int"
  px_linger :: "'w \<Rightarrow> int \<times> int"
  px_flock :: "'w \<Rightarrow> int \<times> int \<times> int \<times> int \<times> int"  \<comment> \<open>type, whence, start, len, pid\<close>
  px_fds :: "'w \<Rightarrow> int \<times> int"
  px_revents :: "'w \<Rightarrow> int list"
  px_bytes :: "'w \<Rightarrow> bytes"
  px_memory :: "'w \<Rightarrow> u64 \<Rightarrow> bool"  \<comment> \<open>whether malloc gives a block of that size\<close>

section \<open>Answers\<close>

definition normalised :: "'w posix \<Rightarrow> os_ret \<Rightarrow> int" where
  "normalised px r = (case r of Ret v \<Rightarrow> 0 | Err e \<Rightarrow> sppc_errno (px_eno px) e)"

definition stored :: "os_ret \<Rightarrow> int" where
  "stored r = (case r of Ret v \<Rightarrow> v | Err e \<Rightarrow> - 1)"

text \<open>The error alone, and the error with the out parameter.\<close>

definition ret_err :: "'w posix \<Rightarrow> os_ret \<times> 'w \<Rightarrow> int \<times> 'w" where
  "ret_err px a = (normalised px (fst a), snd a)"

definition ret_out :: "'w posix \<Rightarrow> os_ret \<times> 'w \<Rightarrow> (int \<times> int) \<times> 'w" where
  "ret_out px a = ((normalised px (fst a), stored (fst a)), snd a)"

text \<open>The async runtime's result where it takes the call, the plain call where it does not.\<close>

definition async_call :: "'w posix \<Rightarrow> os_call \<Rightarrow> os_call \<Rightarrow> 'w \<Rightarrow> os_ret \<times> 'w" where
  "async_call px attempt fallback w =
     (case px_try px attempt w of (Some r, w1) \<Rightarrow> (r, w1) | (None, w1) \<Rightarrow> px_sys px fallback w1)"

definition call :: "'w posix \<Rightarrow> string \<Rightarrow> os_arg list \<Rightarrow> 'w \<Rightarrow> os_ret \<times> 'w" where
  "call px name args w = px_sys px (name, args) w"

section \<open>Files\<close>

definition sppc_read :: "'w posix \<Rightarrow> nat \<Rightarrow> u64 \<Rightarrow> u64 \<Rightarrow> int \<Rightarrow> 'w \<Rightarrow> (int \<times> int) \<times> 'w" where
  "sppc_read px buffer sz count fd w =
     (let c = (''read'', [I fd, A buffer, I (uint (sz * count))]) in ret_out px (async_call px c c w))"

definition sppc_write :: "'w posix \<Rightarrow> nat \<Rightarrow> u64 \<Rightarrow> u64 \<Rightarrow> int \<Rightarrow> 'w \<Rightarrow> (int \<times> int) \<times> 'w" where
  "sppc_write px buffer sz count fd w =
     (let c = (''write'', [I fd, A buffer, I (uint (sz * count))]) in ret_out px (async_call px c c w))"

definition sppc_open :: "'w posix \<Rightarrow> bytes \<Rightarrow> int \<Rightarrow> int \<Rightarrow> 'w \<Rightarrow> (int \<times> int) \<times> 'w" where
  "sppc_open px path flags mode w =
     (case (sppc_to_os_open_flags (px_os px) flags, sppc_to_os_mode mode) of
        (Inr os_flags, Inr os_md) \<Rightarrow>
          (let (r, w1) = call px ''open'' [S path, I os_flags, I os_md] w in
           if px_kernel px = KFreeBSD \<and> r \<noteq> Ret 0 \<and> px_errno px w1 = mac (px_os px) ''EMLINK'' \<and>
              os_flags AND mac (px_os px) ''O_NOFOLLOW'' \<noteq> 0
           then ((SPPC_ELOOP, stored r), w1) else ret_out px (r, w1))
      | _ \<Rightarrow> ((SPPC_EINVAL, - 1), w))"

definition sppc_close :: "'w posix \<Rightarrow> int \<Rightarrow> 'w \<Rightarrow> int \<times> 'w" where
  "sppc_close px fd w = ret_err px (call px ''close'' [I fd] w)"

text \<open>A stat's out parameter, left alone where the call fails.\<close>

definition stat_out :: "'w posix \<Rightarrow> os_ret \<times> 'w \<Rightarrow> sppc_stat \<Rightarrow> (int \<times> sppc_stat) \<times> 'w" where
  "stat_out px a out =
     ((normalised px (fst a), if fst a = Ret 0 then sppc_from_os_stat (px_stat px (snd a)) else out), snd a)"

definition sppc_stat_call :: "'w posix \<Rightarrow> bytes \<Rightarrow> sppc_stat \<Rightarrow> 'w \<Rightarrow> (int \<times> sppc_stat) \<times> 'w" where
  "sppc_stat_call px path out w = stat_out px (call px ''stat'' [S path] w) out"

definition sppc_fstat :: "'w posix \<Rightarrow> int \<Rightarrow> sppc_stat \<Rightarrow> 'w \<Rightarrow> (int \<times> sppc_stat) \<times> 'w" where
  "sppc_fstat px fd out w = stat_out px (call px ''fstat'' [I fd] w) out"

definition sppc_lstat :: "'w posix \<Rightarrow> bytes \<Rightarrow> sppc_stat \<Rightarrow> 'w \<Rightarrow> (int \<times> sppc_stat) \<times> 'w" where
  "sppc_lstat px path out w = stat_out px (call px ''lstat'' [S path] w) out"

section \<open>Poll\<close>

text \<open>The events of each descriptor, translated; None where one has no translation.\<close>

fun poll_events :: "sppc_pair list \<Rightarrow> sppc_pollfd list \<Rightarrow> int list option" where
  "poll_events table [] = Some []"
| "poll_events table (f # fs) =
     (case sppc_to_os_flags (pf_events f) table of
        Inl _ \<Rightarrow> None
      | Inr e \<Rightarrow> map_option (Cons e) (poll_events table fs))"

definition poll_args :: "sppc_pollfd list \<Rightarrow> int list \<Rightarrow> int \<Rightarrow> os_arg list" where
  "poll_args fds events timeout = [L (map pf_fd fds), L events, I (int (length fds)), I timeout]"

definition with_revents :: "sppc_pollfd list \<Rightarrow> int list \<Rightarrow> sppc_pollfd list" where
  "with_revents fds rs = map2 (\<lambda>f r. f\<lparr>pf_revents := r\<rparr>) fds rs"

definition sppc_poll_translated ::
  "'w posix \<Rightarrow> sppc_pollfd list \<Rightarrow> int \<Rightarrow> 'w \<Rightarrow> ((int \<times> int) \<times> sppc_pollfd list) \<times> 'w" where
  "sppc_poll_translated px fds timeout w =
     (let table = sppc_poll_table (px_os px) in
      if length fds > 64 \<and> \<not> px_memory px w (of_nat (length fds) * 8) then (((SPPC_ENOMEM, - 1), fds), w)
      else (case poll_events table fds of
              None \<Rightarrow> (((SPPC_EINVAL, - 1), fds), w)
            | Some events \<Rightarrow>
                (let (r, w1) = call px ''poll'' (poll_args fds events timeout) w;
                     fds' = (if failed r then fds
                             else with_revents fds (map (\<lambda>e. sppc_from_os_flags e table) (px_revents px w1)))
                 in (((normalised px r, stored r), fds'), w1))))"

definition sppc_poll ::
  "'w posix \<Rightarrow> sppc_pollfd list \<Rightarrow> int \<Rightarrow> 'w \<Rightarrow> ((int \<times> int) \<times> sppc_pollfd list) \<times> 'w" where
  "sppc_poll px fds timeout w =
     (let table = sppc_poll_table (px_os px) in
      if poll_events table fds = None then (((SPPC_EINVAL, - 1), fds), w)
      else if sppc_table_is_identity table then
        (let (r, w1) = call px ''poll'' (poll_args fds (map pf_events fds) timeout) w;
             fds' = (if failed r then fds else with_revents fds (px_revents px w1))
         in (((normalised px r, stored r), fds'), w1))
      else sppc_poll_translated px fds timeout w)"

section \<open>Positions and memory\<close>

definition seek_whence :: "int \<Rightarrow> bool" where
  "seek_whence whence \<longleftrightarrow> whence = SPPC_SEEK_SET \<or> whence = SPPC_SEEK_CUR \<or> whence = SPPC_SEEK_END"

definition sppc_lseek :: "'w posix \<Rightarrow> int \<Rightarrow> int \<Rightarrow> int \<Rightarrow> 'w \<Rightarrow> (int \<times> int) \<times> 'w" where
  "sppc_lseek px fd offset whence w =
     (if \<not> seek_whence whence then ((SPPC_EINVAL, - 1), w)
      else ret_out px (call px ''lseek'' [I fd, I offset, I whence] w))"

definition PROT_ALL :: int where "PROT_ALL = (SPPC_PROT_READ OR SPPC_PROT_WRITE) OR SPPC_PROT_EXEC"

text \<open>The pointer mapped, None for NULL.\<close>

definition sppc_mmap :: "'w posix \<Rightarrow> int \<Rightarrow> u64 \<Rightarrow> int \<Rightarrow> int \<Rightarrow> int \<Rightarrow> 'w \<Rightarrow> int option \<times> 'w" where
  "sppc_mmap px fd len prot flags offset w =
     (let sharing = flags AND (SPPC_MAP_SHARED OR SPPC_MAP_PRIVATE) in
      case sppc_to_os_map_flags (px_os px) flags of
        Inl _ \<Rightarrow> (None, w)
      | Inr os_flags \<Rightarrow>
          if prot AND NOT PROT_ALL \<noteq> 0 \<or> (sharing \<noteq> SPPC_MAP_SHARED \<and> sharing \<noteq> SPPC_MAP_PRIVATE) \<or> offset < 0 \<or>
             offset mod uint (px_page px) \<noteq> 0
          then (None, w)
          else (let (r, w1) = call px ''mmap'' [A 0, I (uint len), I prot, I os_flags, I fd, I offset] w
                in (case r of Ret p \<Rightarrow> Some p | Err e \<Rightarrow> None, w1)))"

text \<open>
  FreeBSD's walk of a range by mincore, a chunk at a time: what each chunk's call answers, in order
  (the end of the list: the walk has reached the end of the range).
\<close>

fun freebsd_unmapped_loop :: "os_errnos \<Rightarrow> u64 \<Rightarrow> u64 \<Rightarrow> u64 \<Rightarrow> os_ret list \<Rightarrow> int option" where
  "freebsd_unmapped_loop eno chunk at stop [] = (if at < stop then None else Some 0)"
| "freebsd_unmapped_loop eno chunk at stop (r # rs) =
     (if \<not> at < stop then Some 0
      else (case r of
              Err e \<Rightarrow> Some (sppc_errno eno e)
            | Ret _ \<Rightarrow> if stop - at < chunk then Some 0 else freebsd_unmapped_loop eno chunk (at + chunk) stop rs))"

definition sppc_freebsd_unmapped :: "os_errnos \<Rightarrow> u64 \<Rightarrow> os_ret list \<Rightarrow> u64 \<Rightarrow> u64 \<Rightarrow> int option" where
  "sppc_freebsd_unmapped eno page rs addr sz =
     (if sz > - 1 - addr then Some SPPC_ENOMEM
      else freebsd_unmapped_loop eno (1024 * page) addr (addr + sz) rs)"

definition sppc_memprotect :: "'w posix \<Rightarrow> int \<Rightarrow> u64 \<Rightarrow> u64 \<Rightarrow> int \<Rightarrow> 'w \<Rightarrow> int \<times> 'w" where
  "sppc_memprotect px unmapped addr sz prot w =
     (if prot AND NOT PROT_ALL \<noteq> 0 \<or> addr mod px_page px \<noteq> 0 then (SPPC_EINVAL, w)
      else if px_kernel px = KFreeBSD \<and> unmapped \<noteq> 0 then (unmapped, w)
      else ret_err px (call px ''mprotect'' [A (unat addr), I (uint sz), I prot] w))"

definition sppc_munmap :: "'w posix \<Rightarrow> u64 \<Rightarrow> u64 \<Rightarrow> 'w \<Rightarrow> int \<times> 'w" where
  "sppc_munmap px addr len w =
     (if addr mod px_page px \<noteq> 0 then (SPPC_EINVAL, w)
      else ret_err px (call px ''munmap'' [A (unat addr), I (uint len)] w))"

definition sppc_pread :: "'w posix \<Rightarrow> int \<Rightarrow> nat \<Rightarrow> u64 \<Rightarrow> u64 \<Rightarrow> int \<Rightarrow> 'w \<Rightarrow> (int \<times> int) \<times> 'w" where
  "sppc_pread px fd buffer sz count offset w =
     ret_out px (call px ''pread'' [I fd, A buffer, I (uint (sz * count)), I offset] w)"

definition sppc_pwrite :: "'w posix \<Rightarrow> int \<Rightarrow> nat \<Rightarrow> u64 \<Rightarrow> u64 \<Rightarrow> int \<Rightarrow> 'w \<Rightarrow> (int \<times> int) \<times> 'w" where
  "sppc_pwrite px fd buffer sz count offset w =
     ret_out px (call px ''pwrite'' [I fd, A buffer, I (uint (sz * count)), I offset] w)"

definition iov_args :: "sppc_iovec list \<Rightarrow> os_arg" where
  "iov_args iov = L (concat (map (\<lambda>v. [case iov_base v of None \<Rightarrow> 0 | Some p \<Rightarrow> int p, uint (iov_len v)]) iov))"

definition sppc_readv :: "'w posix \<Rightarrow> int \<Rightarrow> sppc_iovec list \<Rightarrow> int \<Rightarrow> 'w \<Rightarrow> (int \<times> int) \<times> 'w" where
  "sppc_readv px fd iov iov_count w = ret_out px (call px ''readv'' [I fd, iov_args iov, I iov_count] w)"

definition sppc_writev :: "'w posix \<Rightarrow> int \<Rightarrow> sppc_iovec list \<Rightarrow> int \<Rightarrow> 'w \<Rightarrow> (int \<times> int) \<times> 'w" where
  "sppc_writev px fd iov iov_count w = ret_out px (call px ''writev'' [I fd, iov_args iov, I iov_count] w)"

definition sppc_access :: "'w posix \<Rightarrow> bytes \<Rightarrow> int \<Rightarrow> 'w \<Rightarrow> (int \<times> int) \<times> 'w" where
  "sppc_access px path flags w =
     (if flags AND NOT ACCESS_MODES \<noteq> 0 then ((SPPC_EINVAL, - 1), w)
      else ret_out px (call px ''access'' [S path, I flags] w))"

section \<open>Select\<close>

text \<open>The swap of each word's halves where a long is 32 bits and big-endian (\<^verbatim>\<open>swaps\<close>).\<close>

definition sppc_fd_sets_to_os :: "bool \<Rightarrow> sppc_fd_set option list \<Rightarrow> sppc_fd_set option list" where
  "sppc_fd_sets_to_os swaps sets =
     (if swaps then map (map_option (map (\<lambda>b. push_bit 32 b OR drop_bit 32 b))) sets else sets)"

definition fd_set_arg :: "sppc_fd_set option \<Rightarrow> os_arg" where
  "fd_set_arg fds = (case fds of None \<Rightarrow> A 0 | Some ws \<Rightarrow> L (map uint ws))"

text \<open>\<^verbatim>\<open>left\<close> is what select leaves in the sets.\<close>

definition sppc_select ::
  "'w posix \<Rightarrow> bool \<Rightarrow> (sppc_fd_set option list \<Rightarrow> 'w \<Rightarrow> sppc_fd_set option list) \<Rightarrow> int \<Rightarrow> sppc_fd_set option list \<Rightarrow>
     sppc_timeval option \<Rightarrow> 'w \<Rightarrow> ((int \<times> int) \<times> sppc_fd_set option list \<times> sppc_timeval option) \<times> 'w" where
  "sppc_select px swaps left nfds sets timeout w =
     (case (case timeout of None \<Rightarrow> Inr None | Some t \<Rightarrow> map_sum id Some (sppc_to_os_timeval t)) of
        Inl _ \<Rightarrow> (((SPPC_EINVAL, - 1), sets, timeout), w)
      | Inr tv \<Rightarrow>
          if nfds < 0 \<or> nfds > 1024 then (((SPPC_EINVAL, - 1), sets, timeout), w)
          else let os_sets = sppc_fd_sets_to_os swaps sets;
                   (r, w1) = call px ''select'' (I nfds # map fd_set_arg os_sets @
                     [case tv of None \<Rightarrow> A 0 | Some (s, u) \<Rightarrow> L [s, u]]) w
               in (((normalised px r, stored r), sppc_fd_sets_to_os swaps (left os_sets w1),
                    map_option (\<lambda>_. sppc_from_os_timeval (px_timeval px w1)) timeout), w1))"

definition sppc_sched_yield :: "'w posix \<Rightarrow> 'w \<Rightarrow> 'w" where
  "sppc_sched_yield px w = snd (call px ''sched_yield'' [] w)"

definition sppc_msync :: "'w posix \<Rightarrow> u64 \<Rightarrow> u64 \<Rightarrow> int \<Rightarrow> 'w \<Rightarrow> int \<times> 'w" where
  "sppc_msync px addr len flags w =
     (case sppc_to_os_msync_flags (px_os px) flags of
        Inl _ \<Rightarrow> (SPPC_EINVAL, w)
      | Inr os_flags \<Rightarrow>
          if flags AND (SPPC_MS_SYNC OR SPPC_MS_ASYNC) = (SPPC_MS_SYNC OR SPPC_MS_ASYNC) then (SPPC_EINVAL, w)
          else ret_err px (call px ''msync'' [A (unat addr), I (uint len), I os_flags] w))"

text \<open>\<^verbatim>\<open>dontneed\<close> is Darwin's own way to empty memory.\<close>

definition sppc_madvise ::
  "'w posix \<Rightarrow> (u64 \<Rightarrow> u64 \<Rightarrow> 'w \<Rightarrow> int \<times> 'w) \<Rightarrow> u64 \<Rightarrow> u64 \<Rightarrow> int \<Rightarrow> 'w \<Rightarrow> int \<times> 'w" where
  "sppc_madvise px dontneed addr len advice w =
     (case sppc_to_os_madvise (px_os px) advice of
        Inl _ \<Rightarrow> (SPPC_EINVAL, w)
      | Inr os_advice \<Rightarrow>
          if px_kernel px = KDarwin \<and> advice = SPPC_MADV_DONTNEED then dontneed addr len w
          else if px_kernel px = KFreeBSD \<and> advice = SPPC_MADV_DONTNEED then (SPPC_ENOSYS, w)
          else ret_err px (call px ''madvise'' [A (unat addr), I (uint len), I os_advice] w))"

section \<open>Descriptors\<close>

definition sppc_dup :: "'w posix \<Rightarrow> int \<Rightarrow> 'w \<Rightarrow> (int \<times> int) \<times> 'w" where
  "sppc_dup px fd w = ret_out px (call px ''dup'' [I fd] w)"

definition sppc_dup2 :: "'w posix \<Rightarrow> int \<Rightarrow> int \<Rightarrow> 'w \<Rightarrow> int \<times> 'w" where
  "sppc_dup2 px fd target_fd w = ret_err px (call px ''dup2'' [I fd, I target_fd] w)"

definition sppc_get_pid :: "'w posix \<Rightarrow> 'w \<Rightarrow> int \<times> 'w" where
  "sppc_get_pid px w = (let (r, w1) = call px ''getpid'' [] w in (stored r, w1))"

definition sppc_get_ppid :: "'w posix \<Rightarrow> 'w \<Rightarrow> int \<times> 'w" where
  "sppc_get_ppid px w = (let (r, w1) = call px ''getppid'' [] w in (stored r, w1))"

section \<open>Sockets\<close>

definition sppc_os_socket :: "'w posix \<Rightarrow> int \<Rightarrow> int \<Rightarrow> int \<Rightarrow> 'w \<Rightarrow> os_ret \<times> 'w" where
  "sppc_os_socket px domain type protocol w =
     (if sock_flags_by_fcntl (px_os px) then
        (let flags = type AND (os_sock_nonblock (px_os px) OR os_sock_cloexec (px_os px));
             (r, w1) = call px ''socket'' [I domain, I (type AND NOT flags), I protocol] w in
         case r of
           Err e \<Rightarrow> (Err e, w1)
         | Ret fd \<Rightarrow>
             (let (f, w2) = sppc_fd_set_flags (px_os px) (px_sys px) fd (flags AND os_sock_cloexec (px_os px) \<noteq> 0)
                              (flags AND os_sock_nonblock (px_os px) \<noteq> 0) w1
              in if f \<noteq> Ret 0
                 then (Err (px_errno px w2), snd (call px ''close'' [I fd] w2))
                 else (Ret fd, w2)))
      else call px ''socket'' [I domain, I type, I protocol] w)"

definition sppc_socket :: "'w posix \<Rightarrow> int \<Rightarrow> int \<Rightarrow> int \<Rightarrow> 'w \<Rightarrow> (int \<times> int) \<times> 'w" where
  "sppc_socket px domain type protocol w =
     (case (sppc_to_os_value domain (sppc_af_table (px_os px)), sppc_to_os_sock_type (px_os px) type) of
        (Inr os_domain, Inr os_type) \<Rightarrow> ret_out px (sppc_os_socket px os_domain os_type protocol w)
      | _ \<Rightarrow> ((SPPC_EINVAL, - 1), w))"

text \<open>An address is passed as its bytes, and the length its family has.\<close>

definition addr_args :: "os_macros \<Rightarrow> bytes \<Rightarrow> os_sockaddr \<Rightarrow> os_arg list" where
  "addr_args os raw storage = [S raw, I (int (sppc_sockaddr_len (mac os ''AF_INET'') storage))]"

definition sppc_connect :: "'w posix \<Rightarrow> int \<Rightarrow> bytes \<Rightarrow> os_sockaddr \<Rightarrow> 'w \<Rightarrow> int \<times> 'w" where
  "sppc_connect px fd raw storage w =
     (let c = (''connect'', I fd # addr_args (px_os px) raw storage) in ret_err px (async_call px c c w))"

definition sppc_sendto :: "'w posix \<Rightarrow> int \<Rightarrow> nat \<Rightarrow> u64 \<Rightarrow> bytes \<Rightarrow> os_sockaddr \<Rightarrow> 'w \<Rightarrow> (int \<times> int) \<times> 'w" where
  "sppc_sendto px fd data sz raw storage w =
     ret_out px (call px ''sendto'' ([I fd, A data, I (uint sz), I 0] @ addr_args (px_os px) raw storage) w)"

definition sppc_recvfrom :: "'w posix \<Rightarrow> int \<Rightarrow> nat \<Rightarrow> u64 \<Rightarrow> nat \<Rightarrow> 'w \<Rightarrow> (int \<times> int) \<times> 'w" where
  "sppc_recvfrom px fd buffer sz out_storage w =
     ret_out px (call px ''recvfrom'' [I fd, A buffer, I (uint sz), I 0, A out_storage, I 128] w)"

definition sppc_send :: "'w posix \<Rightarrow> int \<Rightarrow> nat \<Rightarrow> u64 \<Rightarrow> int \<Rightarrow> 'w \<Rightarrow> (int \<times> int) \<times> 'w" where
  "sppc_send px fd data sz flags w =
     (case sppc_to_os_msg_flags (px_os px) flags of
        Inl _ \<Rightarrow> ((SPPC_EINVAL, - 1), w)
      | Inr os_flags \<Rightarrow>
          (let c = (''send'', [I fd, A data, I (uint sz), I os_flags]) in ret_out px (async_call px c c w)))"

definition sppc_recv :: "'w posix \<Rightarrow> int \<Rightarrow> nat \<Rightarrow> u64 \<Rightarrow> int \<Rightarrow> 'w \<Rightarrow> (int \<times> int) \<times> 'w" where
  "sppc_recv px fd buffer sz flags w =
     (case sppc_to_os_msg_flags (px_os px) flags of
        Inl _ \<Rightarrow> ((SPPC_EINVAL, - 1), w)
      | Inr os_flags \<Rightarrow>
          (let c = (''recv'', [I fd, A buffer, I (uint sz), I os_flags]) in ret_out px (async_call px c c w)))"

definition sppc_shutdown :: "'w posix \<Rightarrow> int \<Rightarrow> int \<Rightarrow> 'w \<Rightarrow> int \<times> 'w" where
  "sppc_shutdown px fd how w =
     (if how \<noteq> SPPC_SHUT_RD \<and> how \<noteq> SPPC_SHUT_WR \<and> how \<noteq> SPPC_SHUT_RDWR then (SPPC_EINVAL, w)
      else ret_err px (call px ''shutdown'' [I fd, I how] w))"

definition sppc_bind :: "'w posix \<Rightarrow> int \<Rightarrow> bytes \<Rightarrow> os_sockaddr \<Rightarrow> 'w \<Rightarrow> int \<times> 'w" where
  "sppc_bind px fd raw storage w = ret_err px (call px ''bind'' (I fd # addr_args (px_os px) raw storage) w)"

definition sppc_listen :: "'w posix \<Rightarrow> int \<Rightarrow> int \<Rightarrow> 'w \<Rightarrow> int \<times> 'w" where
  "sppc_listen px fd backlog w = ret_err px (call px ''listen'' [I fd, I backlog] w)"

definition sppc_getsockname :: "'w posix \<Rightarrow> int \<Rightarrow> nat \<Rightarrow> 'w \<Rightarrow> int \<times> 'w" where
  "sppc_getsockname px fd out_storage w = ret_err px (call px ''getsockname'' [I fd, A out_storage, I 128] w)"

definition sppc_getpeername :: "'w posix \<Rightarrow> int \<Rightarrow> nat \<Rightarrow> 'w \<Rightarrow> int \<times> 'w" where
  "sppc_getpeername px fd out_storage w = ret_err px (call px ''getpeername'' [I fd, A out_storage, I 128] w)"

definition sppc_signal :: "'w posix \<Rightarrow> int \<Rightarrow> int \<Rightarrow> 'w \<Rightarrow> int \<times> 'w" where
  "sppc_signal px pid signal w =
     (case sppc_to_os_signal (px_os px) signal of
        Inl _ \<Rightarrow> (SPPC_EINVAL, w)
      | Inr os_signal \<Rightarrow> ret_err px (call px ''kill'' [I pid, I os_signal] w))"

section \<open>Control of descriptors\<close>

definition sppc_fcntl_get :: "'w posix \<Rightarrow> int \<Rightarrow> int \<Rightarrow> 'w \<Rightarrow> (int \<times> int) \<times> 'w" where
  "sppc_fcntl_get px fd cmd w =
     (case (if cmd = SPPC_F_GETFD then px_os px ''F_GETFD''
            else if cmd = SPPC_F_GETFL then px_os px ''F_GETFL''
            else if cmd = SPPC_F_GETOWN then px_os px ''F_GETOWN'' else None) of
        None \<Rightarrow> ((SPPC_EINVAL, - 1), w)
      | Some os_cmd \<Rightarrow>
          (let (r, w1) = call px ''fcntl'' [I fd, I os_cmd] w;
               out = (case r of
                        Ret v \<Rightarrow> if cmd = SPPC_F_GETFL then sppc_from_os_open_flags (px_os px) v else v
                      | Err e \<Rightarrow> - 1)
           in ((normalised px r, out), w1)))"

definition sppc_fcntl_set :: "'w posix \<Rightarrow> int \<Rightarrow> int \<Rightarrow> int \<Rightarrow> 'w \<Rightarrow> int \<times> 'w" where
  "sppc_fcntl_set px fd cmd arg w =
     (case (if cmd = SPPC_F_SETFD then
              (if arg AND NOT SPPC_FD_CLOEXEC \<noteq> 0 then None else Some (mac (px_os px) ''F_SETFD'', arg))
            else if cmd = SPPC_F_SETFL then
              (case sppc_to_os_open_flags (px_os px) arg of
                 Inl _ \<Rightarrow> None
               | Inr os_arg \<Rightarrow> Some (mac (px_os px) ''F_SETFL'', os_arg))
            else if cmd = SPPC_F_SETOWN then Some (mac (px_os px) ''F_SETOWN'', arg)
            else None) of
        None \<Rightarrow> (SPPC_EINVAL, w)
      | Some (os_cmd, os_arg) \<Rightarrow> ret_err px (call px ''fcntl'' [I fd, I os_cmd, I os_arg] w))"

definition sppc_fcntl_lock :: "'w posix \<Rightarrow> int \<Rightarrow> int \<Rightarrow> sppc_flock \<Rightarrow> 'w \<Rightarrow> (int \<times> sppc_flock) \<times> 'w" where
  "sppc_fcntl_lock px fd cmd lock w =
     (case (if cmd = SPPC_F_GETLK then px_os px ''F_GETLK''
            else if cmd = SPPC_F_SETLK then px_os px ''F_SETLK''
            else if cmd = SPPC_F_SETLKW then px_os px ''F_SETLKW'' else None) of
        None \<Rightarrow> ((SPPC_EINVAL, lock), w)
      | Some os_cmd \<Rightarrow>
          (case sppc_to_os_value (fl_type lock) (lock_types_table (px_os px)) of
             Inl _ \<Rightarrow> ((SPPC_EINVAL, lock), w)
           | Inr os_type \<Rightarrow>
               if \<not> seek_whence (fl_whence lock) then ((SPPC_EINVAL, lock), w)
               else (let (r, w1) = call px ''fcntl'' [I fd, I os_cmd, L [os_type, fl_whence lock, fl_start lock, fl_len lock]] w;
                         (ty, wh, st, ln, pid) = px_flock px w1;
                         lock' = (if r = Ret 0 \<and> cmd = SPPC_F_GETLK
                                  then \<lparr>fl_start = st, fl_len = ln, fl_pid = pid,
                                        fl_type = sppc_from_os_value ty (lock_types_table (px_os px)) SPPC_F_UNLCK,
                                        fl_whence = wh\<rparr>
                                  else lock)
                     in ((normalised px r, lock'), w1))))"

definition sppc_fsync :: "'w posix \<Rightarrow> int \<Rightarrow> 'w \<Rightarrow> int \<times> 'w" where
  "sppc_fsync px fd w = (let c = (''fsync'', [I fd]) in ret_err px (async_call px c c w))"

section \<open>Paths\<close>

definition sppc_truncate :: "'w posix \<Rightarrow> bytes \<Rightarrow> int \<Rightarrow> 'w \<Rightarrow> int \<times> 'w" where
  "sppc_truncate px path len w = ret_err px (call px ''truncate'' [S path, I len] w)"

definition sppc_ftruncate :: "'w posix \<Rightarrow> int \<Rightarrow> int \<Rightarrow> 'w \<Rightarrow> int \<times> 'w" where
  "sppc_ftruncate px fd len w = ret_err px (call px ''ftruncate'' [I fd, I len] w)"

definition sppc_getcwd :: "'w posix \<Rightarrow> nat \<Rightarrow> u64 \<Rightarrow> 'w \<Rightarrow> int \<times> 'w" where
  "sppc_getcwd px buffer sz w = ret_err px (call px ''getcwd'' [A buffer, I (uint sz)] w)"

definition sppc_chdir :: "'w posix \<Rightarrow> bytes \<Rightarrow> 'w \<Rightarrow> int \<times> 'w" where
  "sppc_chdir px path w = ret_err px (call px ''chdir'' [S path] w)"

definition sppc_rename :: "'w posix \<Rightarrow> bytes \<Rightarrow> bytes \<Rightarrow> 'w \<Rightarrow> int \<times> 'w" where
  "sppc_rename px old_path new_path w = ret_err px (call px ''rename'' [S old_path, S new_path] w)"

definition sppc_mkdir :: "'w posix \<Rightarrow> bytes \<Rightarrow> int \<Rightarrow> 'w \<Rightarrow> int \<times> 'w" where
  "sppc_mkdir px path mode w =
     (case sppc_to_os_mode mode of
        Inl _ \<Rightarrow> (SPPC_EINVAL, w)
      | Inr m \<Rightarrow> ret_err px (call px ''mkdir'' [S path, I m] w))"

definition sppc_rmdir :: "'w posix \<Rightarrow> bytes \<Rightarrow> 'w \<Rightarrow> int \<times> 'w" where
  "sppc_rmdir px path w = ret_err px (call px ''rmdir'' [S path] w)"

definition sppc_link :: "'w posix \<Rightarrow> bytes \<Rightarrow> bytes \<Rightarrow> 'w \<Rightarrow> int \<times> 'w" where
  "sppc_link px target linkpath w = ret_err px (call px ''link'' [S target, S linkpath] w)"

definition sppc_symlink :: "'w posix \<Rightarrow> bytes \<Rightarrow> bytes \<Rightarrow> 'w \<Rightarrow> int \<times> 'w" where
  "sppc_symlink px target linkpath w = ret_err px (call px ''symlink'' [S target, S linkpath] w)"

text \<open>\<^verbatim>\<open>S_ISDIR\<close> of a mode.\<close>

definition is_dir :: "int \<Rightarrow> bool" where
  "is_dir mode = (mode AND SPPC_S_IFMT = SPPC_S_IFDIR)"

definition sppc_unlink :: "'w posix \<Rightarrow> bytes \<Rightarrow> 'w \<Rightarrow> int \<times> 'w" where
  "sppc_unlink px path w =
     (let (r, w1) = call px ''unlink'' [S path] w in
      if px_kernel px \<noteq> KLinux \<and> r \<noteq> Ret 0 \<and> px_errno px w1 = mac (px_os px) ''EPERM'' then
        (let (l, w2) = call px ''lstat'' [S path] w1 in
         if l = Ret 0 \<and> is_dir (Posix.os_mode (px_stat px w2)) then (SPPC_EISDIR, w2)
         else (sppc_errno (px_eno px) (px_errno px w2), w2))
      else ret_err px (r, w1))"

text \<open>The buffer after: what the call filled of it, and then its terminator.\<close>

definition sppc_readlink :: "'w posix \<Rightarrow> bytes \<Rightarrow> bytes \<Rightarrow> nat \<Rightarrow> 'w \<Rightarrow> (int \<times> bytes) \<times> 'w" where
  "sppc_readlink px path buffer buffer_size w =
     (if buffer_size = 0 then ((SPPC_ERANGE, buffer), w)
      else (let (r, w1) = call px ''readlink'' [S path, I (int buffer_size)] w in
            case r of
              Err e \<Rightarrow> ((sppc_errno (px_eno px) e, buffer), w1)
            | Ret n \<Rightarrow>
                (let filled = take (nat n) (px_bytes px w1) @ drop (nat n) buffer in
                 if nat n = buffer_size then ((SPPC_ERANGE, filled[0 := 0]), w1)
                 else ((0, filled[nat n := 0]), w1))))"

definition sppc_chmod :: "'w posix \<Rightarrow> bytes \<Rightarrow> int \<Rightarrow> 'w \<Rightarrow> int \<times> 'w" where
  "sppc_chmod px path mode w =
     (case sppc_to_os_mode mode of
        Inl _ \<Rightarrow> (SPPC_EINVAL, w)
      | Inr m \<Rightarrow> ret_err px (call px ''chmod'' [S path, I m] w))"

definition sppc_chown :: "'w posix \<Rightarrow> bytes \<Rightarrow> int \<Rightarrow> int \<Rightarrow> 'w \<Rightarrow> int \<times> 'w" where
  "sppc_chown px path owner gid w = ret_err px (call px ''chown'' [S path, I owner, I gid] w)"

definition sppc_lchown :: "'w posix \<Rightarrow> bytes \<Rightarrow> int \<Rightarrow> int \<Rightarrow> 'w \<Rightarrow> int \<times> 'w" where
  "sppc_lchown px path owner gid w = ret_err px (call px ''lchown'' [S path, I owner, I gid] w)"

definition sppc_mlock :: "'w posix \<Rightarrow> nat \<Rightarrow> u64 \<Rightarrow> 'w \<Rightarrow> int \<times> 'w" where
  "sppc_mlock px addr sz w = ret_err px (call px ''mlock'' [A addr, I (uint sz)] w)"

definition sppc_munlock :: "'w posix \<Rightarrow> nat \<Rightarrow> u64 \<Rightarrow> 'w \<Rightarrow> int \<times> 'w" where
  "sppc_munlock px addr sz w = ret_err px (call px ''munlock'' [A addr, I (uint sz)] w)"

definition sppc_clock_gettime :: "'w posix \<Rightarrow> int \<Rightarrow> sppc_timespec \<Rightarrow> 'w \<Rightarrow> (int \<times> sppc_timespec) \<times> 'w" where
  "sppc_clock_gettime px clock out w =
     (case sppc_to_os_clock (px_os px) clock of
        Inl _ \<Rightarrow> ((SPPC_EINVAL, out), w)
      | Inr os_clock \<Rightarrow>
          (let (r, w1) = call px ''clock_gettime'' [I os_clock] w
           in ((normalised px r, if r = Ret 0 then sppc_from_os_timespec (px_time px w1) else out), w1)))"

definition sppc_utimensat :: "'w posix \<Rightarrow> bytes \<Rightarrow> int \<Rightarrow> 'w \<Rightarrow> int \<times> 'w" where
  "sppc_utimensat px path flags w =
     (case sppc_to_os_at_flags (px_os px) flags of
        Inl _ \<Rightarrow> (SPPC_EINVAL, w)
      | Inr os_flags \<Rightarrow> ret_err px (call px ''utimensat'' [I (mac (px_os px) ''AT_FDCWD''), S path, A 0, I os_flags] w))"

definition sppc_realpath :: "'w posix \<Rightarrow> bytes \<Rightarrow> nat \<Rightarrow> 'w \<Rightarrow> int \<times> 'w" where
  "sppc_realpath px path buffer w = ret_err px (call px ''realpath'' [S path, A buffer] w)"

definition sppc_mktemp :: "'w posix \<Rightarrow> string \<Rightarrow> 'w \<Rightarrow> (int \<times> int) \<times> 'w" where
  "sppc_mktemp px path w =
     (if \<not> sppc_is_temp_template path then ((SPPC_EINVAL, - 1), w)
      else ret_out px (call px ''mkostemp'' [S (map (\<lambda>c. of_char c) path), I (mac (px_os px) ''O_CLOEXEC'')] w))"

definition sppc_mktemp_dir :: "'w posix \<Rightarrow> string \<Rightarrow> 'w \<Rightarrow> int \<times> 'w" where
  "sppc_mktemp_dir px path w =
     (if \<not> sppc_is_temp_template path then (SPPC_EINVAL, w)
      else ret_err px (call px ''mkdtemp'' [S (map (\<lambda>c. of_char c) path)] w))"

definition sppc_statvfs_call :: "'w posix \<Rightarrow> bytes \<Rightarrow> sppc_statvfs \<Rightarrow> 'w \<Rightarrow> (int \<times> sppc_statvfs) \<times> 'w" where
  "sppc_statvfs_call px path out w =
     (let (r, w1) = call px ''statvfs'' [S path] w
      in ((normalised px r, if r = Ret 0 then sppc_from_os_statvfs (px_os px) (px_statvfs px w1) else out), w1))"

text \<open>\<^verbatim>\<open>entry\<close> is what the environment holds, without its terminator.\<close>

definition sppc_getenv :: "bytes option \<Rightarrow> bytes \<Rightarrow> nat \<Rightarrow> int \<times> bytes" where
  "sppc_getenv entry out sz =
     (if sz = 0 then (SPPC_ERANGE, out)
      else (case entry of
              None \<Rightarrow> (SPPC_ENOENT, out[0 := 0])
            | Some v \<Rightarrow>
                if length v \<ge> sz then (SPPC_ERANGE, out[0 := 0])
                else (0, v @ [0] @ drop (length v + 1) out)))"

definition sppc_setenv :: "'w posix \<Rightarrow> bytes \<Rightarrow> bytes \<Rightarrow> bool \<Rightarrow> 'w \<Rightarrow> int \<times> 'w" where
  "sppc_setenv px key val overwrite w = ret_err px (call px ''setenv'' [S key, S val, I (if overwrite then 1 else 0)] w)"

definition sppc_unsetenv :: "'w posix \<Rightarrow> bytes \<Rightarrow> 'w \<Rightarrow> int \<times> 'w" where
  "sppc_unsetenv px key w = ret_err px (call px ''unsetenv'' [S key] w)"

section \<open>Socket options\<close>

definition sppc_setsockopt :: "'w posix \<Rightarrow> int \<Rightarrow> int \<Rightarrow> int \<Rightarrow> int \<Rightarrow> 'w \<Rightarrow> int \<times> 'w" where
  "sppc_setsockopt px fd level optname optval w =
     (case sppc_to_os_sockopt (px_os px) level optname of
        Inl e \<Rightarrow> (e, w)
      | Inr (os_level, os_name) \<Rightarrow>
          ret_err px (call px ''setsockopt'' [I fd, I os_level, I os_name, L [optval], I 4] w))"

definition sppc_getsockopt :: "'w posix \<Rightarrow> int \<Rightarrow> int \<Rightarrow> int \<Rightarrow> int \<Rightarrow> 'w \<Rightarrow> (int \<times> int) \<times> 'w" where
  "sppc_getsockopt px fd level optname optval w =
     (case sppc_to_os_sockopt (px_os px) level optname of
        Inl e \<Rightarrow> ((e, optval), w)
      | Inr (os_level, os_name) \<Rightarrow>
          (let (r, w1) = call px ''getsockopt'' [I fd, I os_level, I os_name, I 4] w;
               v = (if r = Ret 0 then px_opt px w1 else optval);
               v1 = (if r = Ret 0 \<and> level = SPPC_SOL_SOCKET \<and> optname = SPPC_SO_ERROR then sppc_errno (px_eno px) v else v);
               v2 = (if r = Ret 0 \<and> level = SPPC_SOL_SOCKET \<and> optname = SPPC_SO_TYPE
                     then sppc_from_os_value v1 (sppc_sock_types_table (px_os px)) v1 else v1)
           in ((normalised px r, v2), w1)))"

definition sppc_setsockopt_timeval :: "'w posix \<Rightarrow> int \<Rightarrow> int \<Rightarrow> int \<Rightarrow> sppc_timeval \<Rightarrow> 'w \<Rightarrow> int \<times> 'w" where
  "sppc_setsockopt_timeval px fd level optname optval w =
     (case sppc_to_os_sockopt (px_os px) level optname of
        Inl e \<Rightarrow> (e, w)
      | Inr (os_level, os_name) \<Rightarrow>
          (case sppc_to_os_timeval optval of
             Inl _ \<Rightarrow> (SPPC_EINVAL, w)
           | Inr (s, u) \<Rightarrow> ret_err px (call px ''setsockopt'' [I fd, I os_level, I os_name, L [s, u], I 16] w)))"

definition sppc_getsockopt_timeval ::
  "'w posix \<Rightarrow> int \<Rightarrow> int \<Rightarrow> int \<Rightarrow> sppc_timeval \<Rightarrow> 'w \<Rightarrow> (int \<times> sppc_timeval) \<times> 'w" where
  "sppc_getsockopt_timeval px fd level optname optval w =
     (case sppc_to_os_sockopt (px_os px) level optname of
        Inl e \<Rightarrow> ((e, optval), w)
      | Inr (os_level, os_name) \<Rightarrow>
          (let (r, w1) = call px ''getsockopt'' [I fd, I os_level, I os_name, I 16] w
           in ((normalised px r, if r = Ret 0 then sppc_from_os_timeval (px_timeval px w1) else optval), w1)))"

definition sppc_setsockopt_linger :: "'w posix \<Rightarrow> int \<Rightarrow> int \<Rightarrow> int \<Rightarrow> sppc_linger \<Rightarrow> 'w \<Rightarrow> int \<times> 'w" where
  "sppc_setsockopt_linger px fd level optname optval w =
     (case sppc_to_os_sockopt (px_os px) level optname of
        Inl e \<Rightarrow> (e, w)
      | Inr (os_level, os_name) \<Rightarrow>
          ret_err px (call px ''setsockopt'' [I fd, I os_level, I os_name, L [lg_onoff optval, lg_linger optval], I 8] w))"

definition sppc_getsockopt_linger ::
  "'w posix \<Rightarrow> int \<Rightarrow> int \<Rightarrow> int \<Rightarrow> sppc_linger \<Rightarrow> 'w \<Rightarrow> (int \<times> sppc_linger) \<times> 'w" where
  "sppc_getsockopt_linger px fd level optname optval w =
     (case sppc_to_os_sockopt (px_os px) level optname of
        Inl e \<Rightarrow> ((e, optval), w)
      | Inr (os_level, os_name) \<Rightarrow>
          (let (r, w1) = call px ''getsockopt'' [I fd, I os_level, I os_name, I 8] w
           in ((normalised px r,
                if r = Ret 0 then \<lparr>lg_onoff = fst (px_linger px w1), lg_linger = snd (px_linger px w1)\<rparr> else optval), w1)))"

section \<open>Linux and FreeBSD\<close>

text \<open>The two descriptors, left alone where the call fails.\<close>

definition sppc_pipe :: "'w posix \<Rightarrow> int \<times> int \<Rightarrow> 'w \<Rightarrow> (int \<times> int \<times> int) \<times> 'w" where
  "sppc_pipe px out w =
     (let (r, w1) = call px ''pipe2'' [I (mac (px_os px) ''O_CLOEXEC'')] w
      in ((normalised px r, if r = Ret 0 then px_fds px w1 else out), w1))"

definition sppc_accept :: "'w posix \<Rightarrow> int \<Rightarrow> nat \<Rightarrow> 'w \<Rightarrow> (int \<times> int) \<times> 'w" where
  "sppc_accept px fd out_storage w =
     ret_out px (async_call px (''accept'', [I fd, A out_storage, I 128])
       (''accept4'', [I fd, A out_storage, I 128, I (mac (px_os px) ''SOCK_CLOEXEC'')]) w)"

definition sppc_fdatasync :: "'w posix \<Rightarrow> int \<Rightarrow> 'w \<Rightarrow> int \<times> 'w" where
  "sppc_fdatasync px fd w = ret_err px (call px ''fdatasync'' [I fd] w)"

text \<open>\<^verbatim>\<open>clock_nanosleep\<close> answers with its error: made a failure with that errno.\<close>

definition sppc_clock_nanosleep_errno :: "os_ret \<Rightarrow> os_ret" where
  "sppc_clock_nanosleep_errno r = (case r of Ret e \<Rightarrow> if e \<noteq> 0 then Err e else Ret 0 | Err e \<Rightarrow> Err e)"

definition sppc_clock_nanosleep :: "'w posix \<Rightarrow> int \<Rightarrow> int \<Rightarrow> sppc_timespec \<Rightarrow> 'w \<Rightarrow> int \<times> 'w" where
  "sppc_clock_nanosleep px clock flags duration w =
     (case (sppc_to_os_clock (px_os px) clock, sppc_to_os_timer_flags (px_os px) flags, sppc_to_os_timespec duration) of
        (Inr os_clock, Inr os_flags, Inr ts) \<Rightarrow>
          (let args = [I os_clock, I os_flags, L [tv_sec ts, tv_nsec ts]] in
           case px_try px (''sleep'', args) w of
             (Some r, w1) \<Rightarrow> ret_err px (r, w1)
           | (None, w1) \<Rightarrow>
               (let (r, w2) = call px ''clock_nanosleep'' args w1 in ret_err px (sppc_clock_nanosleep_errno r, w2)))
      | _ \<Rightarrow> (SPPC_EINVAL, w))"

text \<open>The loop of \<^verbatim>\<open>sppc_getrandom\<close> over what each call answers: the error and how much is filled.\<close>

fun getrandom_loop :: "os_errnos \<Rightarrow> int \<Rightarrow> nat \<Rightarrow> os_ret list \<Rightarrow> nat \<Rightarrow> (int \<times> nat) option" where
  "getrandom_loop eno eintr sz rs filled =
     (if filled \<ge> sz then Some (0, filled)
      else (case rs of
              [] \<Rightarrow> None
            | Err e # rs' \<Rightarrow>
                if e = eintr then getrandom_loop eno eintr sz rs' filled else Some (sppc_errno eno e, filled)
            | Ret n # rs' \<Rightarrow> getrandom_loop eno eintr sz rs' (filled + nat n)))"

declare getrandom_loop.simps [simp del]

definition sppc_getrandom :: "os_errnos \<Rightarrow> int \<Rightarrow> os_ret list \<Rightarrow> nat \<Rightarrow> (int \<times> nat) option" where
  "sppc_getrandom eno eintr rs sz = getrandom_loop eno eintr sz rs 0"

text \<open>
  \<^verbatim>\<open>direct\<close> is copy_file_range's answer; \<^verbatim>\<open>moved\<close> the files after it. The fallback's answers are those of
  Posix.
\<close>

definition sppc_copyfile ::
  "os_errnos \<Rightarrow> os_macros \<Rightarrow> os_ret \<Rightarrow> copy_files \<Rightarrow> os_ret \<Rightarrow> os_ret list \<Rightarrow> nat \<Rightarrow> int \<Rightarrow> copy_files \<Rightarrow>
     ((int \<times> int) \<times> copy_files) option" where
  "sppc_copyfile eno os direct moved read_ans ws len flags s =
     (if flags \<noteq> 0 then Some ((SPPC_EINVAL, - 1), s)
      else do {
        (copied, s1) \<leftarrow>
          (case direct of
             Ret n \<Rightarrow> Some (Ret n, moved)
           | Err e \<Rightarrow>
               if e = mac os ''EXDEV'' \<or> e = mac os ''ENOSYS'' \<or> e = mac os ''EOPNOTSUPP''
               then sppc_copy_range (mac os ''EINTR'') read_ans ws len s
               else Some (Err e, s));
        Some ((case copied of Ret n \<Rightarrow> (0, n) | Err e \<Rightarrow> (sppc_errno eno e, - 1)), s1)
      })"

section \<open>Facts\<close>

lemma identity_to_loop:
  "sppc_table_is_identity t \<Longrightarrow> to_os_flags_loop t fl os = (l, r) \<Longrightarrow> l OR r = fl OR os"
proof (induction t arbitrary: fl os)
  case (Cons p t)
  have id: "sppc_table_is_identity t" "fst p = snd p"
    using Cons.prems(1) by (simp_all add: sppc_table_is_identity_def)
  show ?case
  proof (cases "fl \<noteq> 0 \<and> fst p \<noteq> 0 \<and> fl AND fst p = fst p")
    case True
    then have "l OR r = (fl AND NOT (fst p)) OR (os OR snd p)" using Cons id by auto
    also have "\<dots> = fl OR os"
    proof (rule bit_eqI)
      fix n
      have "bit (fst p) n \<Longrightarrow> bit fl n" using True by (metis bit_and_iff)
      then show "bit ((fl AND NOT (fst p)) OR (os OR snd p)) n = bit (fl OR os) n"
        using id(2) by (auto simp: bit_simps)
    qed
    finally show ?thesis .
  next
    case False
    then show ?thesis using Cons id by (auto split: if_splits)
  qed
qed simp

lemma identity_from_loop:
  "sppc_table_is_identity t \<Longrightarrow> from_os_flags_loop t fl out = snd (to_os_flags_loop t fl out)"
  by (induction t arbitrary: fl out) (auto simp: sppc_table_is_identity_def)

definition known_flags :: "sppc_pair list \<Rightarrow> int \<Rightarrow> bool" where
  "known_flags t fl = (case sppc_to_os_flags fl t of Inl _ \<Rightarrow> False | Inr _ \<Rightarrow> True)"

lemma identity_to_flags:
  assumes "sppc_table_is_identity t" "sppc_to_os_flags fl t = Inr v"
  shows "v = fl"
proof -
  obtain l r where lr: "to_os_flags_loop t fl 0 = (l, r)" by fastforce
  then have "l = 0" "v = r" using assms(2) by (auto simp: sppc_to_os_flags_def split: if_splits)
  then show ?thesis using identity_to_loop [OF assms(1) lr] by simp
qed

lemma identity_from_flags:
  assumes "sppc_table_is_identity t" "known_flags t fl"
  shows "sppc_from_os_flags fl t = fl"
proof -
  obtain v where v: "sppc_to_os_flags fl t = Inr v"
    using assms(2) by (auto simp: known_flags_def split: sum.splits)
  obtain l r where lr: "to_os_flags_loop t fl 0 = (l, r)" by fastforce
  have "sppc_from_os_flags fl t = r"
    using identity_from_loop [OF assms(1), of fl 0] lr by (simp add: sppc_from_os_flags_def)
  moreover have "v = r" using v lr by (auto simp: sppc_to_os_flags_def split: if_splits)
  ultimately show ?thesis using identity_to_flags [OF assms(1) v] by simp
qed

lemma identity_poll_events:
  assumes "sppc_table_is_identity t" "poll_events t fds = Some es"
  shows "es = map pf_events fds"
  using assms(2)
proof (induction fds arbitrary: es)
  case (Cons f fds)
  then obtain e es' where "sppc_to_os_flags (pf_events f) t = Inr e" "poll_events t fds = Some es'" "es = e # es'"
    by (auto split: sum.splits)
  then show ?case using Cons.IH identity_to_flags [OF assms(1)] by auto
qed simp

section \<open>Properties\<close>

text \<open>Where the platform's event values are the interface's own, polling through a translated copy of the
  array is the same as handing the array to the platform: the same call, the same answer, and the same
  events reported (those the interface has names for).\<close>

theorem poll_translated_agrees:
  assumes "sppc_table_is_identity (sppc_poll_table (px_os px))"
    "length fds \<le> 64 \<or> px_memory px w (of_nat (length fds) * 8)"
    "list_all (known_flags (sppc_poll_table (px_os px)))
       (px_revents px (snd (call px ''poll'' (poll_args fds (map pf_events fds) timeout) w)))"
  shows "sppc_poll_translated px fds timeout w = sppc_poll px fds timeout w"
proof (cases "poll_events (sppc_poll_table (px_os px)) fds")
  case None
  then show ?thesis using assms(2) by (auto simp: sppc_poll_translated_def sppc_poll_def Let_def)
next
  case (Some es)
  let ?t = "sppc_poll_table (px_os px)"
  obtain r w1 where c: "call px ''poll'' (poll_args fds (map pf_events fds) timeout) w = (r, w1)" by fastforce
  have "map (\<lambda>e. sppc_from_os_flags e ?t) (px_revents px w1) = px_revents px w1"
    using assms(3) c identity_from_flags [OF assms(1)] by (simp add: list_all_iff map_idI)
  then show ?thesis
    using Some assms(1,2) c identity_poll_events [OF assms(1) Some]
    by (auto simp: sppc_poll_translated_def sppc_poll_def Let_def)
qed

text \<open>A small platform: it knows POLLIN, and answers polls with one event and links with three bytes.\<close>

definition sample_posix :: "nat posix" where
  "sample_posix = \<lparr>px_os = [''POLLIN'' \<mapsto> 1, ''O_RDONLY'' \<mapsto> 0, ''O_NOFOLLOW'' \<mapsto> 0x100, ''EMLINK'' \<mapsto> 31],
     px_eno = linux_errnos, px_kernel = KFreeBSD, px_page = 4096,
     px_sys = (\<lambda>c w. (if fst c = ''poll'' then Ret 1 else Ret 3, w + 1)), px_try = (\<lambda>c w. (None, w)),
     px_errno = (\<lambda>w. 31),
     px_stat = (\<lambda>w. \<lparr>os_dev = 0, os_ino = 0, os_nlink = 0, os_rdev = 0, os_size = 0, os_blksize = 0, os_blocks = 0,
       os_atim = \<lparr>tv_sec = 0, tv_nsec = 0\<rparr>, os_mtim = \<lparr>tv_sec = 0, tv_nsec = 0\<rparr>,
       os_ctim = \<lparr>tv_sec = 0, tv_nsec = 0\<rparr>, os_mode = 0, os_uid = 0, os_gid = 0\<rparr>),
     px_statvfs = (\<lambda>w. \<lparr>f_bsize = 0, f_frsize = 0, f_blocks = 0, f_bfree = 0, f_bavail = 0, f_files = 0, f_ffree = 0,
       f_favail = 0, f_fsid = 0, f_flag = 0, f_namemax = 0\<rparr>),
     px_time = (\<lambda>w. \<lparr>tv_sec = 0, tv_nsec = 0\<rparr>), px_timeval = (\<lambda>w. (0, 0)), px_opt = (\<lambda>w. 0), px_linger = (\<lambda>w. (0, 0)),
     px_flock = (\<lambda>w. (0, 0, 0, 0, 0)), px_fds = (\<lambda>w. (0, 0)), px_revents = (\<lambda>w. [1]), px_bytes = (\<lambda>w. [97, 98, 99]),
     px_memory = (\<lambda>w n. True)\<rparr>"

lemma sample_poll_table: "sppc_poll_table (px_os sample_posix) = [(1, 1)]"
  by (simp add: sppc_poll_table_def pair_table_def map_filter_simps sample_posix_def)

theorem poll_translated_agrees_witness:
  "sppc_poll_translated sample_posix [\<lparr>pf_fd = 5, pf_events = 1, pf_revents = 0\<rparr>] 0 0 =
     sppc_poll sample_posix [\<lparr>pf_fd = 5, pf_events = 1, pf_revents = 0\<rparr>] 0 0 \<and>
   sppc_poll sample_posix [\<lparr>pf_fd = 5, pf_events = 1, pf_revents = 0\<rparr>] 0 0 =
     (((0, 1), [\<lparr>pf_fd = 5, pf_events = 1, pf_revents = 1\<rparr>]), 1)"
proof -
  let ?fds = "[\<lparr>pf_fd = 5, pf_events = 1, pf_revents = 0\<rparr>]"
  have c: "call sample_posix ''poll'' x 0 = (Ret 1, 1)" for x by (simp add: call_def sample_posix_def)
  have ev: "px_revents sample_posix n = [1]" for n by (simp add: sample_posix_def)
  have id: "sppc_table_is_identity (sppc_poll_table (px_os sample_posix))"
    by (simp add: sample_poll_table sppc_table_is_identity_def)
  have known: "list_all (known_flags (sppc_poll_table (px_os sample_posix))) [1]"
    by (simp add: sample_poll_table known_flags_def sppc_to_os_flags_def)
  have "sppc_poll sample_posix ?fds 0 0 = (((0, 1), [\<lparr>pf_fd = 5, pf_events = 1, pf_revents = 1\<rparr>]), 1)"
    using id by (simp add: sppc_poll_def Let_def sample_poll_table sppc_to_os_flags_def c ev failed_def
        normalised_def stored_def with_revents_def)
  then show ?thesis
    using poll_translated_agrees [OF id, of ?fds 0 0] known by (simp add: c ev)
qed

text \<open>What reading a link or the environment leaves in the buffer is always within it and terminated: the
  whole text where the call succeeds, and the empty string where the text does not fit (or there is
  none), with the error that says so.\<close>

theorem texts_terminated:
  assumes "length buffer = sz" "0 < sz" "0 \<notin> set v" "0 \<notin> set (take (nat n) (px_bytes px w1))"
    "nat n \<le> sz" "nat n \<le> length (px_bytes px w1)"
    "call px ''readlink'' [S path, I (int sz)] w = (Ret n, w1)"
  shows "(let (err, out) = sppc_getenv (Some v) buffer sz in length out = sz \<and>
      (if length v < sz then err = 0 \<and> c_string out = v else err = SPPC_ERANGE \<and> c_string out = [])) \<and>
    (let (err, out) = sppc_getenv None buffer sz in length out = sz \<and> err = SPPC_ENOENT \<and> c_string out = []) \<and>
    (let ((err, out), w2) = sppc_readlink px path buffer sz w in length out = sz \<and>
      (if nat n < sz then err = 0 \<and> c_string out = take (nat n) (px_bytes px w1)
       else err = SPPC_ERANGE \<and> c_string out = []))"
proof -
  have whole: "c_string (xs @ 0 # ys) = xs" if "0 \<notin> set xs" for xs ys :: bytes
    using that by (induction xs) (auto simp: c_string_def)
  have empty: "c_string (xs[0 := 0]) = []" if "xs \<noteq> []" for xs :: bytes
    using that by (cases xs) (simp_all add: c_string_def)
  have ne: "buffer \<noteq> []" using assms(1,2) by auto
  let ?b = "take (nat n) (px_bytes px w1)"
  let ?f = "?b @ drop (nat n) buffer"
  have len: "length ?f = sz" using assms(1,5,6) by (simp add: min_def)
  have link: "c_string (?f[nat n := 0]) = ?b" if "nat n < sz"
  proof -
    have "?f[nat n := 0] = ?b @ 0 # drop (nat n + 1) buffer"
      using that assms(1,6) by (simp add: list_update_append min_def Cons_nth_drop_Suc [symmetric])
    then show ?thesis using whole [OF assms(4)] by simp
  qed
  have ne': "?f \<noteq> []" using len assms(2) by auto
  show ?thesis
    using assms(1,2,5,7) whole [OF assms(3)] empty [OF ne] empty [OF ne'] link len
    by (auto simp: sppc_getenv_def sppc_readlink_def Let_def not_less)
qed

theorem texts_terminated_witness:
  "sppc_getenv (Some [104, 105]) [9, 9, 9, 9] 4 = (0, [104, 105, 0, 9]) \<and>
   sppc_readlink sample_posix [108] [9, 9, 9, 9] 4 0 = ((0, [97, 98, 99, 0]), 1) \<and>
   c_string (snd (sppc_getenv (Some [104, 105]) [9, 9, 9, 9] 4)) = [104, 105]"
proof -
  have b: "px_bytes sample_posix 1 = [97, 98, 99]" by (simp add: sample_posix_def)
  have c: "call sample_posix ''readlink'' [S [108], I (int 4)] 0 = (Ret 3, 1)"
    by (simp add: call_def sample_posix_def)
  have r: "sppc_getenv (Some [104, 105]) [9, 9, 9, 9] 4 = (0, [104, 105, 0, 9])"
    "sppc_readlink sample_posix [108] [9, 9, 9, 9] 4 0 = ((0, [97, 98, 99, 0]), 1)"
    using c b by (simp_all add: sppc_getenv_def sppc_readlink_def)
  show ?thesis
    using texts_terminated [of "[9, 9, 9, 9]" 4 "[104, 105]" 3 sample_posix 1 "[108]" 0] r b c by simp
qed

text \<open>
  FreeBSD's branch of \<^verbatim>\<open>sppc_open\<close> tests the descriptor where it means to test for failure: a file that
  opened is reported as a loop of links when the thread's last failed call was refused with EMLINK.
\<close>

lemma open_reports_stale_error:
  "sppc_open sample_posix [102] SPPC_O_NOFOLLOW 0 0 = ((SPPC_ELOOP, 3), 1)"
proof -
  have f: "sppc_to_os_open_flags (px_os sample_posix) SPPC_O_NOFOLLOW = Inr 0x100"
    by (simp add: sppc_to_os_open_flags_def open_modes_table_def open_flags_table_def pair_table_def map_filter_simps
        sample_posix_def sppc_to_os_flags_def)
  have c: "call sample_posix ''open'' x 0 = (Ret 3, 1)" for x by (simp add: call_def sample_posix_def)
  show ?thesis
    unfolding sppc_open_def f by (simp add: sppc_to_os_mode_def c stored_def) (simp add: sample_posix_def mac_def)
qed

end
