(* ===== verification/Threads.thy ===== *)
theory Threads
  imports PosixCalls Closure
begin

text \<open>
  Threads (platform/common.h): a closure handed to a new thread or to a once, the objects behind the
  handles of mutexes, condition variables, read-write locks and barriers, and the standard streams read
  and written under a lock. A handle is the address of its object; the pthread calls (and the runtime's
  own lock calls, modelled in Locks) are calls of the platform, which answer with an error number.
\<close>

section \<open>Starting a thread\<close>

datatype thread_event =
    FreeBlock nat
  | UnsafeStackUp
  | Aborted
  | AltstackUp
  | Run nat "nat option"  \<comment> \<open>the function called, on the environment\<close>
  | OnEnv env_call
  | Drain
  | UnsafeStackDown
  | AltstackDown

text \<open>A thread's body, on the block its closure was passed in; \<^verbatim>\<open>up_err\<close> is the split stack's.\<close>

definition sppc_thread_entry :: "bool \<Rightarrow> int \<Rightarrow> nat \<Rightarrow> sppc_closure \<Rightarrow> thread_event list" where
  "sppc_thread_entry wanted up_err block cl =
     [FreeBlock block] @ (if wanted then [UnsafeStackUp] else []) @
     (if wanted \<and> up_err \<noteq> 0 then [Aborted]
      else [AltstackUp, Run (fn cl) (env cl)] @ map OnEnv (sppc_env_free (env cl)) @
           [Drain, UnsafeStackDown, AltstackDown])"

text \<open>
  \<^verbatim>\<open>alloc\<close> is malloc's answer and \<^verbatim>\<open>create\<close> pthread_create's: its error, or the thread. The result, the handle
  written, the events, and the block the new thread was given.
\<close>

definition sppc_pthread_create ::
  "os_errnos \<Rightarrow> (nat \<Rightarrow> sppc_closure_env) \<Rightarrow> nat option \<Rightarrow> int + u64 \<Rightarrow> sppc_closure \<Rightarrow>
     int \<times> u64 option \<times> thread_event list \<times> nat option" where
  "sppc_pthread_create eno mem alloc create start =
     (case alloc of
        None \<Rightarrow> (SPPC_ENOMEM, None, map OnEnv (sppc_closure_discard mem start), None)
      | Some cl \<Rightarrow>
          (case create of
             Inl err \<Rightarrow> (sppc_errno eno err, None, FreeBlock cl # map OnEnv (sppc_closure_discard mem start), None)
           | Inr thread \<Rightarrow> (0, Some thread, [], Some cl)))"

section \<open>Answers\<close>

text \<open>A pthread call: its answer is the error number itself.\<close>

definition pt :: "'w posix \<Rightarrow> string \<Rightarrow> os_arg list \<Rightarrow> 'w \<Rightarrow> int \<times> 'w" where
  "pt px name args w = (let (r, w1) = call px name args w in (case r of Ret e \<Rightarrow> e | Err e \<Rightarrow> e, w1))"

definition ret_pt :: "'w posix \<Rightarrow> int \<times> 'w \<Rightarrow> int \<times> 'w" where
  "ret_pt px a = (sppc_errno (px_eno px) (fst a), snd a)"

definition sppc_pthread_join :: "'w posix \<Rightarrow> u64 \<Rightarrow> u64 \<Rightarrow> 'w \<Rightarrow> int \<times> 'w" where
  "sppc_pthread_join px self handle w =
     (if handle = self then (SPPC_EDEADLK, w) else ret_pt px (pt px ''pthread_join'' [A (unat handle)] w))"

definition sppc_pthread_detach :: "'w posix \<Rightarrow> u64 \<Rightarrow> 'w \<Rightarrow> int \<times> 'w" where
  "sppc_pthread_detach px handle w = ret_pt px (pt px ''pthread_detach'' [A (unat handle)] w)"

definition sppc_pthread_equal :: "u64 \<Rightarrow> u64 \<Rightarrow> u64" where
  "sppc_pthread_equal h1 h2 = (if h1 = h2 then 1 else 0)"

definition sppc_pthread_self :: "u64 \<Rightarrow> u64" where
  "sppc_pthread_self self = self"

section \<open>Handles\<close>

text \<open>The objects behind handles: those allocated and not freed, and the handle published.\<close>

record pt_objects =
  po_live :: "nat list"

text \<open>
  \<^verbatim>\<open>_pthread_handle_alloc\<close>, the initialisation and \<^verbatim>\<open>_pthread_handle_publish\<close>: malloc's answer and the
  call that initialises the object.
\<close>

definition handle_init ::
  "os_errnos \<Rightarrow> nat option \<Rightarrow> (nat \<Rightarrow> int) \<Rightarrow> pt_objects \<Rightarrow> (int \<times> nat option) \<times> pt_objects" where
  "handle_init eno alloc init s =
     (case alloc of
        None \<Rightarrow> ((SPPC_ENOMEM, None), s)
      | Some obj \<Rightarrow>
          let s1 = s\<lparr>po_live := obj # po_live s\<rparr> in
          if init obj \<noteq> 0 then ((sppc_errno eno (init obj), None), s1\<lparr>po_live := remove1 obj (po_live s1)\<rparr>)
          else ((0, Some obj), s1))"

text \<open>A mutex of a kind: attributes made, set, used and destroyed; the error is the mutex's own.\<close>

definition sppc_mutex_init_kind :: "(string \<times> os_arg list \<Rightarrow> int) \<Rightarrow> nat \<Rightarrow> int \<Rightarrow> int \<times> os_call list" where
  "sppc_mutex_init_kind answer target kind =
     (let calls = [(''pthread_mutexattr_init'', []), (''pthread_mutexattr_settype'', [I kind]),
                   (''pthread_mutex_init'', [A target]), (''pthread_mutexattr_destroy'', [])]
      in (answer (''pthread_mutex_init'', [A target]), calls))"

definition sppc_pthread_mutex_init ::
  "os_errnos \<Rightarrow> os_macros \<Rightarrow> bool \<Rightarrow> nat option \<Rightarrow> (string \<times> os_arg list \<Rightarrow> int) \<Rightarrow> pt_objects \<Rightarrow>
     (int \<times> nat option) \<times> pt_objects" where
  "sppc_pthread_mutex_init eno os debug_build alloc answer =
     handle_init eno alloc (\<lambda>obj. fst (sppc_mutex_init_kind answer obj
       (if debug_build then mac os ''PTHREAD_MUTEX_ERRORCHECK'' else mac os ''PTHREAD_MUTEX_NORMAL'')))"

definition sppc_pthread_mutex_init_recursive ::
  "os_errnos \<Rightarrow> os_macros \<Rightarrow> nat option \<Rightarrow> (string \<times> os_arg list \<Rightarrow> int) \<Rightarrow> pt_objects \<Rightarrow>
     (int \<times> nat option) \<times> pt_objects" where
  "sppc_pthread_mutex_init_recursive eno os alloc answer =
     handle_init eno alloc (\<lambda>obj. fst (sppc_mutex_init_kind answer obj (mac os ''PTHREAD_MUTEX_RECURSIVE'')))"

definition sppc_pthread_cond_init ::
  "os_errnos \<Rightarrow> nat option \<Rightarrow> (nat \<Rightarrow> int) \<Rightarrow> pt_objects \<Rightarrow> (int \<times> nat option) \<times> pt_objects" where
  "sppc_pthread_cond_init eno alloc cond_init = handle_init eno alloc cond_init"

definition sppc_pthread_rwlock_init ::
  "os_errnos \<Rightarrow> nat option \<Rightarrow> (nat \<Rightarrow> int) \<Rightarrow> pt_objects \<Rightarrow> (int \<times> nat option) \<times> pt_objects" where
  "sppc_pthread_rwlock_init eno alloc rwlock_init = handle_init eno alloc rwlock_init"

definition sppc_pthread_barrier_init ::
  "os_errnos \<Rightarrow> nat option \<Rightarrow> (nat \<Rightarrow> u64 \<Rightarrow> int) \<Rightarrow> u64 \<Rightarrow> pt_objects \<Rightarrow> (int \<times> nat option) \<times> pt_objects" where
  "sppc_pthread_barrier_init eno alloc barrier_init count s =
     (if count = 0 \<or> count > 0xFFFFFFFF then ((SPPC_EINVAL, None), s)
      else handle_init eno alloc (\<lambda>obj. barrier_init obj count) s)"

text \<open>Destroying: the object is freed whatever the platform's call answers.\<close>

definition handle_destroy :: "os_errnos \<Rightarrow> int \<Rightarrow> nat \<Rightarrow> pt_objects \<Rightarrow> int \<times> pt_objects" where
  "handle_destroy eno err obj s = (sppc_errno eno err, s\<lparr>po_live := remove1 obj (po_live s)\<rparr>)"

definition sppc_pthread_mutex_destroy :: "os_errnos \<Rightarrow> (nat \<Rightarrow> int) \<Rightarrow> nat \<Rightarrow> pt_objects \<Rightarrow> int \<times> pt_objects" where
  "sppc_pthread_mutex_destroy eno mutex_destroy obj = handle_destroy eno (mutex_destroy obj) obj"

definition sppc_pthread_cond_destroy :: "os_errnos \<Rightarrow> (nat \<Rightarrow> int) \<Rightarrow> nat \<Rightarrow> pt_objects \<Rightarrow> int \<times> pt_objects" where
  "sppc_pthread_cond_destroy eno cond_destroy obj = handle_destroy eno (cond_destroy obj) obj"

definition sppc_pthread_rwlock_destroy :: "os_errnos \<Rightarrow> (nat \<Rightarrow> int) \<Rightarrow> nat \<Rightarrow> pt_objects \<Rightarrow> int \<times> pt_objects" where
  "sppc_pthread_rwlock_destroy eno rwlock_destroy obj = handle_destroy eno (rwlock_destroy obj) obj"

definition sppc_pthread_barrier_destroy :: "os_errnos \<Rightarrow> (nat \<Rightarrow> int) \<Rightarrow> nat \<Rightarrow> pt_objects \<Rightarrow> int \<times> pt_objects" where
  "sppc_pthread_barrier_destroy eno barrier_destroy obj = handle_destroy eno (barrier_destroy obj) obj"

section \<open>Locks\<close>

text \<open>
  A wrapper passes on the object its handle names and turns the answer's error number. What takes or
  releases the lock is the platform's (\<^verbatim>\<open>pthread_*\<close>) or the scheduler's (\<^verbatim>\<open>_gt_*\<close>, whose turns are modelled
  in Locks); here it is a call on the state, by its name.
\<close>

definition lock_call :: "'w posix \<Rightarrow> string \<Rightarrow> os_arg list \<Rightarrow> 'w \<Rightarrow> int \<times> 'w" where
  "lock_call px name args w = ret_pt px (pt px name args w)"

definition sppc_pthread_mutex_lock :: "'w posix \<Rightarrow> nat \<Rightarrow> 'w \<Rightarrow> int \<times> 'w" where
  "sppc_pthread_mutex_lock px obj w = lock_call px ''_gt_mutex_lock'' [A obj] w"

definition sppc_pthread_mutex_trylock :: "'w posix \<Rightarrow> nat \<Rightarrow> 'w \<Rightarrow> int \<times> 'w" where
  "sppc_pthread_mutex_trylock px obj w = lock_call px ''pthread_mutex_trylock'' [A obj] w"

definition sppc_pthread_mutex_unlock :: "'w posix \<Rightarrow> nat \<Rightarrow> 'w \<Rightarrow> int \<times> 'w" where
  "sppc_pthread_mutex_unlock px obj w = lock_call px ''_gt_mutex_unlock'' [A obj] w"

definition sppc_pthread_cond_signal :: "'w posix \<Rightarrow> nat \<Rightarrow> 'w \<Rightarrow> int \<times> 'w" where
  "sppc_pthread_cond_signal px obj w = lock_call px ''pthread_cond_signal'' [A obj] w"

definition sppc_pthread_cond_broadcast :: "'w posix \<Rightarrow> nat \<Rightarrow> 'w \<Rightarrow> int \<times> 'w" where
  "sppc_pthread_cond_broadcast px obj w = lock_call px ''pthread_cond_broadcast'' [A obj] w"

definition sppc_pthread_rwlock_tryrdlock :: "'w posix \<Rightarrow> nat \<Rightarrow> 'w \<Rightarrow> int \<times> 'w" where
  "sppc_pthread_rwlock_tryrdlock px obj w = lock_call px ''_sppc_pthread_rwlock_tryrdlock'' [A obj] w"

definition sppc_pthread_rwlock_trywrlock :: "'w posix \<Rightarrow> nat \<Rightarrow> 'w \<Rightarrow> int \<times> 'w" where
  "sppc_pthread_rwlock_trywrlock px obj w = lock_call px ''_sppc_pthread_rwlock_trywrlock'' [A obj] w"

definition sppc_pthread_rwlock_unlock :: "'w posix \<Rightarrow> nat \<Rightarrow> 'w \<Rightarrow> int \<times> 'w" where
  "sppc_pthread_rwlock_unlock px obj w = lock_call px ''_gt_rwlock_unlock'' [A obj] w"

definition sppc_pthread_spin_lock :: "'w posix \<Rightarrow> nat \<Rightarrow> 'w \<Rightarrow> int \<times> 'w" where
  "sppc_pthread_spin_lock px obj w = lock_call px ''_gt_spin_lock'' [A obj] w"

definition sppc_pthread_spin_trylock :: "'w posix \<Rightarrow> nat \<Rightarrow> 'w \<Rightarrow> int \<times> 'w" where
  "sppc_pthread_spin_trylock px obj w = lock_call px ''_sppc_pthread_spin_trylock'' [A obj] w"

definition sppc_pthread_spin_unlock :: "'w posix \<Rightarrow> nat \<Rightarrow> 'w \<Rightarrow> int \<times> 'w" where
  "sppc_pthread_spin_unlock px obj w = lock_call px ''_gt_spin_unlock'' [A obj] w"

definition sppc_pthread_spin_destroy :: "'w posix \<Rightarrow> nat \<Rightarrow> 'w \<Rightarrow> int \<times> 'w" where
  "sppc_pthread_spin_destroy px obj w = lock_call px ''_sppc_pthread_spin_destroy'' [A obj] w"

definition sppc_pthread_spin_init :: "'w posix \<Rightarrow> nat \<Rightarrow> 'w \<Rightarrow> int \<times> 'w" where
  "sppc_pthread_spin_init px obj w = lock_call px ''_sppc_pthread_spin_init'' [A obj, I 0] w"

definition sppc_pthread_barrier_wait :: "'w posix \<Rightarrow> nat \<Rightarrow> 'w \<Rightarrow> int \<times> 'w" where
  "sppc_pthread_barrier_wait px obj w =
     (let (e, w1) = pt px ''pthread_barrier_wait'' [A obj] w in
      if e = mac (px_os px) ''PTHREAD_BARRIER_SERIAL_THREAD'' then (SPPC_BARRIER_SERIAL_THREAD, w1)
      else (sppc_errno (px_eno px) e, w1))"

subsection \<open>With a deadline\<close>

definition deadline_args :: "timespec option \<Rightarrow> os_arg list" where
  "deadline_args deadline = (case deadline of None \<Rightarrow> [] | Some d \<Rightarrow> [I (tv_sec d), I (tv_nsec d)])"

text \<open>No deadline: the wait is on the monotonic clock, for ever.\<close>

definition sppc_pthread_cond_wait :: "'w posix \<Rightarrow> nat \<Rightarrow> nat \<Rightarrow> 'w \<Rightarrow> int \<times> 'w" where
  "sppc_pthread_cond_wait px cond mutex w =
     lock_call px ''_gt_cond_wait_until''
       ([A cond, A mutex, I (mac (px_os px) ''CLOCK_MONOTONIC'')] @ deadline_args None) w"

definition sppc_pthread_rwlock_rdlock :: "'w posix \<Rightarrow> nat \<Rightarrow> 'w \<Rightarrow> int \<times> 'w" where
  "sppc_pthread_rwlock_rdlock px obj w =
     lock_call px ''_gt_rwlock_rdlock_until'' ([A obj, I (mac (px_os px) ''CLOCK_MONOTONIC'')] @ deadline_args None) w"

definition sppc_pthread_rwlock_wrlock :: "'w posix \<Rightarrow> nat \<Rightarrow> 'w \<Rightarrow> int \<times> 'w" where
  "sppc_pthread_rwlock_wrlock px obj w =
     lock_call px ''_gt_rwlock_wrlock_until'' ([A obj, I (mac (px_os px) ''CLOCK_MONOTONIC'')] @ deadline_args None) w"

text \<open>
  The clock and the duration translated, the deadline they make from what the clock reads now, and the
  call that waits until then. None where the sum of the seconds overflows (\<^verbatim>\<open>gt_deadline\<close>).
\<close>

definition clock_call ::
  "'w posix \<Rightarrow> string \<Rightarrow> os_arg list \<Rightarrow> int \<Rightarrow> sppc_timespec \<Rightarrow> 'w \<Rightarrow> (int \<times> 'w) option" where
  "clock_call px name objs clock duration w =
     (case (sppc_to_os_clock (px_os px) clock, sppc_to_os_timespec duration) of
        (Inr os_clock, Inr os_duration) \<Rightarrow>
          (let (_, w1) = call px ''clock_gettime'' [I os_clock] w in
           map_option (\<lambda>deadline. lock_call px name (objs @ [I os_clock] @ deadline_args (Some deadline)) w1)
             (gt_deadline (px_time px w1) os_duration))
      | _ \<Rightarrow> Some (SPPC_EINVAL, w))"

definition sppc_pthread_mutex_clocklock ::
  "'w posix \<Rightarrow> nat \<Rightarrow> int \<Rightarrow> sppc_timespec \<Rightarrow> 'w \<Rightarrow> (int \<times> 'w) option" where
  "sppc_pthread_mutex_clocklock px obj clock duration w =
     clock_call px ''_gt_mutex_lock_until'' [A obj] clock duration w"

definition sppc_pthread_cond_clockwait ::
  "'w posix \<Rightarrow> nat \<Rightarrow> nat \<Rightarrow> int \<Rightarrow> sppc_timespec \<Rightarrow> 'w \<Rightarrow> (int \<times> 'w) option" where
  "sppc_pthread_cond_clockwait px cond mutex clock duration w =
     clock_call px ''_gt_cond_wait_until'' [A cond, A mutex] clock duration w"

definition sppc_pthread_rwlock_clockrdlock ::
  "'w posix \<Rightarrow> nat \<Rightarrow> int \<Rightarrow> sppc_timespec \<Rightarrow> 'w \<Rightarrow> (int \<times> 'w) option" where
  "sppc_pthread_rwlock_clockrdlock px obj clock duration w =
     clock_call px ''_gt_rwlock_rdlock_until'' [A obj] clock duration w"

definition sppc_pthread_rwlock_clockwrlock ::
  "'w posix \<Rightarrow> nat \<Rightarrow> int \<Rightarrow> sppc_timespec \<Rightarrow> 'w \<Rightarrow> (int \<times> 'w) option" where
  "sppc_pthread_rwlock_clockwrlock px obj clock duration w =
     clock_call px ''_gt_rwlock_wrlock_until'' [A obj] clock duration w"

section \<open>Standard streams\<close>

text \<open>
  \<^verbatim>\<open>_return_if_guarded_err\<close>: a call under a stream's lock. \<^verbatim>\<open>err\<close> starts at 0 and is what the call stored;
  \<^verbatim>\<open>out\<close> is written only when lock, call and unlock all succeed.
\<close>

definition guarded ::
  "'w posix \<Rightarrow> nat \<Rightarrow> ('w \<Rightarrow> (int \<times> int) \<times> 'w) \<Rightarrow> int \<Rightarrow> 'w \<Rightarrow> (int \<times> int) \<times> 'w" where
  "guarded px mutex body out w =
     (let (e1, w1) = pt px ''_gt_mutex_lock'' [A mutex] w in
      if e1 \<noteq> 0 then ((sppc_errno (px_eno px) e1, out), w1)
      else
        let ((rc, err), w2) = body w1;
            (e2, w3) = pt px ''_gt_mutex_unlock'' [A mutex] w2
        in if e2 \<noteq> 0 then ((sppc_errno (px_eno px) e2, out), w3)
           else if rc \<noteq> 0 then ((rc, out), w3)
           else ((if err < 0 then sppc_errno (px_eno px) (px_errno px w3) else 0, if err < 0 then - 1 else err), w3))"

text \<open>\<^verbatim>\<open>locks\<close> are the mutexes of the three streams.\<close>

record stream_locks =
  stdin_mutex :: nat
  stdout_mutex :: nat
  stderr_mutex :: nat

definition sppc_stdin_read ::
  "'w posix \<Rightarrow> stream_locks \<Rightarrow> nat \<Rightarrow> u64 \<Rightarrow> u64 \<Rightarrow> int \<Rightarrow> 'w \<Rightarrow> (int \<times> int) \<times> 'w" where
  "sppc_stdin_read px locks buffer sz count out w =
     guarded px (stdin_mutex locks) (sppc_read px buffer sz count 0) out w"

definition sppc_stdout_write ::
  "'w posix \<Rightarrow> stream_locks \<Rightarrow> nat \<Rightarrow> u64 \<Rightarrow> u64 \<Rightarrow> int \<Rightarrow> 'w \<Rightarrow> (int \<times> int) \<times> 'w" where
  "sppc_stdout_write px locks buffer sz count out w =
     guarded px (stdout_mutex locks) (sppc_write px buffer sz count 1) out w"

definition sppc_stderr_write ::
  "'w posix \<Rightarrow> stream_locks \<Rightarrow> nat \<Rightarrow> u64 \<Rightarrow> u64 \<Rightarrow> int \<Rightarrow> 'w \<Rightarrow> (int \<times> int) \<times> 'w" where
  "sppc_stderr_write px locks buffer sz count out w =
     guarded px (stderr_mutex locks) (sppc_write px buffer sz count 2) out w"

section \<open>Once\<close>

datatype once_event =
    OnceRun nat nat "nat option"  \<comment> \<open>for this once, the function called, on the environment\<close>
  | OnceEnv env_call

text \<open>
  A thread that calls onces: the two thread-locals the call passes the closure through, the once words
  (0, running, done), and what it did.
\<close>

record once_thread =
  on_closure :: sppc_closure
  on_ran :: bool
  on_word :: "nat \<Rightarrow> int"
  on_log :: "once_event list"

definition sppc_pthread_once_init :: "nat \<Rightarrow> once_thread \<Rightarrow> int \<times> once_thread" where
  "sppc_pthread_once_init once s = (0, s\<lparr>on_word := (on_word s)(once := ONCE_INIT)\<rparr>)"

text \<open>\<^verbatim>\<open>run\<close> is what a function does to the thread when it is called; None: it does not return.\<close>

definition sppc_once_entry ::
  "(nat \<Rightarrow> once_thread \<Rightarrow> once_thread option) \<Rightarrow> nat \<Rightarrow> once_thread \<Rightarrow> once_thread option" where
  "sppc_once_entry run once s =
     (let cl = on_closure s in
      run (fn cl) (s\<lparr>on_ran := True, on_log := on_log s @ [OnceRun once (fn cl) (env cl)]\<rparr>))"

text \<open>
  The platform's once, on one thread: one that is running is waited for, and never ends when it is this
  thread that runs it.
\<close>

definition once_on_thread ::
  "(nat \<Rightarrow> once_thread \<Rightarrow> once_thread option) \<Rightarrow> nat \<Rightarrow> once_thread \<Rightarrow> once_thread option" where
  "once_on_thread run once s =
     (if on_word s once = ONCE_INIT then
        map_option (\<lambda>s1. s1\<lparr>on_word := (on_word s1)(once := ONCE_DONE)\<rparr>)
          (sppc_once_entry run once (s\<lparr>on_word := (on_word s)(once := ONCE_RUNNING)\<rparr>))
      else if on_word s once = ONCE_DONE then Some s
      else None)"

definition sppc_pthread_once ::
  "(nat \<Rightarrow> sppc_closure_env) \<Rightarrow> (nat \<Rightarrow> once_thread \<Rightarrow> once_thread option) \<Rightarrow> nat \<Rightarrow> sppc_closure \<Rightarrow>
     once_thread \<Rightarrow> once_thread option" where
  "sppc_pthread_once mem run once func s =
     map_option
       (\<lambda>s1. s1\<lparr>on_log := on_log s1 @ map OnceEnv (if on_ran s1 then sppc_env_free (env func)
                                            else sppc_closure_discard mem func)\<rparr>)
       (once_on_thread run once (s\<lparr>on_closure := func, on_ran := False\<rparr>))"

text \<open>
  Functions that call further onces: \<^verbatim>\<open>body f\<close> lists the calls \<^verbatim>\<open>f\<close> makes; the number bounds the nesting.
\<close>

fun once_calls ::
  "(nat \<Rightarrow> sppc_closure_env) \<Rightarrow> (nat \<Rightarrow> once_thread \<Rightarrow> once_thread option) \<Rightarrow> (nat \<times> sppc_closure) list \<Rightarrow>
     once_thread \<Rightarrow> once_thread option" where
  "once_calls mem run [] s = Some s"
| "once_calls mem run ((once, func) # cs) s =
     (case sppc_pthread_once mem run once func s of None \<Rightarrow> None | Some s1 \<Rightarrow> once_calls mem run cs s1)"

primrec once_run ::
  "(nat \<Rightarrow> sppc_closure_env) \<Rightarrow> (nat \<Rightarrow> (nat \<times> sppc_closure) list) \<Rightarrow> nat \<Rightarrow> nat \<Rightarrow> once_thread \<Rightarrow>
     once_thread option" where
  "once_run mem body 0 = (\<lambda>f s. if body f = [] then Some s else None)"
| "once_run mem body (Suc k) = (\<lambda>f s. once_calls mem (once_run mem body k) (body f) s)"

lemma errno_nonzero: "err \<noteq> 0 \<Longrightarrow> sppc_errno os err \<noteq> 0"
  by (auto simp: sppc_errno_def errno_by_table_def split: option.splits)

section \<open>A once runs once\<close>

definition is_once_run :: "nat \<Rightarrow> once_event \<Rightarrow> bool" where
  "is_once_run once e = (case e of OnceRun o1 _ _ \<Rightarrow> o1 = once | OnceEnv _ \<Rightarrow> False)"

definition once_runs :: "nat \<Rightarrow> once_event list \<Rightarrow> nat" where
  "once_runs once log = length (filter (is_once_run once) log)"

text \<open>The once words and the log agree: a once has run, once, exactly when its word has left 0.\<close>

definition once_ok :: "once_thread \<Rightarrow> bool" where
  "once_ok s \<longleftrightarrow> (\<forall>once. once_runs once (on_log s) = (if on_word s once = ONCE_INIT then 0 else 1))"

lemma once_runs_simps [simp]:
  "once_runs once [] = 0"
  "once_runs once (log @ log') = once_runs once log + once_runs once log'"
  "once_runs once (OnceRun o1 f e # log) = (if o1 = once then 1 else 0) + once_runs once log"
  "once_runs once (OnceEnv c # log) = once_runs once log"
  "once_runs once (map OnceEnv cs) = 0"
  by (auto simp: once_runs_def is_once_run_def filter_map o_def)

lemma once_words [simp]:
  "ONCE_RUNNING \<noteq> ONCE_INIT" "ONCE_DONE \<noteq> ONCE_INIT" "ONCE_RUNNING \<noteq> ONCE_DONE"
  "ONCE_INIT \<noteq> ONCE_DONE"
  by (simp_all add: ONCE_INIT_def ONCE_RUNNING_def ONCE_DONE_def)

text \<open>What calls do to a thread: they leave each once as it was, or done.\<close>

definition once_step :: "once_thread \<Rightarrow> once_thread \<Rightarrow> bool" where
  "once_step s s' \<longleftrightarrow> (once_ok s \<longrightarrow> once_ok s') \<and>
     (\<forall>once. on_word s' once = on_word s once \<or> on_word s' once = ONCE_DONE)"

lemma once_step_refl [simp]: "once_step s s"
  by (simp add: once_step_def)

lemma once_step_trans: "once_step s s1 \<Longrightarrow> once_step s1 s2 \<Longrightarrow> once_step s s2"
  unfolding once_step_def by metis

text \<open>A once, at the moment its function is called.\<close>

definition once_started :: "once_thread \<Rightarrow> nat \<Rightarrow> sppc_closure \<Rightarrow> once_thread" where
  "once_started s once func = \<lparr>on_closure = func, on_ran = True, on_word = (on_word s)(once := ONCE_RUNNING),
     on_log = on_log s @ [OnceRun once (fn func) (env func)]\<rparr>"

lemma pthread_once_start:
  assumes "on_word s once = ONCE_INIT"
  shows "sppc_pthread_once mem run once func s =
    map_option (\<lambda>s1. s1\<lparr>on_word := (on_word s1)(once := ONCE_DONE),
        on_log := on_log s1 @ map OnceEnv (if on_ran s1 then sppc_env_free (env func) else sppc_closure_discard mem func)\<rparr>)
      (run (fn func) (once_started s once func))"
  using assms by (cases s) (simp add: sppc_pthread_once_def once_on_thread_def sppc_once_entry_def once_started_def
      option.map_comp o_def)

lemma pthread_once_again:
  assumes "on_word s once = ONCE_DONE"
  shows "sppc_pthread_once mem run once func s =
    Some (s\<lparr>on_closure := func, on_ran := False, on_log := on_log s @ map OnceEnv (sppc_closure_discard mem func)\<rparr>)"
  using assms by (simp add: sppc_pthread_once_def once_on_thread_def)

lemma once_started_ok:
  "on_word s once = ONCE_INIT \<Longrightarrow> once_ok s \<Longrightarrow> once_ok (once_started s once func)"
  by (auto simp: once_ok_def once_started_def)

lemma once_finished_ok:
  "once_ok s1 \<Longrightarrow> on_word s1 once \<noteq> ONCE_INIT \<Longrightarrow>
   once_ok (s1\<lparr>on_word := (on_word s1)(once := ONCE_DONE), on_log := on_log s1 @ map OnceEnv cs\<rparr>)"
  by (auto simp: once_ok_def)

text \<open>One once, by what the function it may run does.\<close>

lemma pthread_once_step:
  assumes free: "on_word s once \<in> {ONCE_INIT, ONCE_DONE}"
    and ran: "on_word s once = ONCE_INIT \<Longrightarrow>
      \<exists>s1. run (fn func) (once_started s once func) = Some s1 \<and> once_step (once_started s once func) s1"
  shows "\<exists>s'. sppc_pthread_once mem run once func s = Some s' \<and> once_step s s' \<and> on_word s' once = ONCE_DONE"
proof (cases "on_word s once = ONCE_INIT")
  case False
  then show ?thesis
    using free by (simp add: pthread_once_again once_step_def once_ok_def)
next
  case True
  from ran [OF True] obtain s1 where s1: "run (fn func) (once_started s once func) = Some s1"
    and step: "once_step (once_started s once func) s1" by blast
  have word: "on_word s1 o1 = ((on_word s)(once := ONCE_RUNNING)) o1 \<or> on_word s1 o1 = ONCE_DONE" for o1
    using step by (simp add: once_step_def once_started_def)
  have nz: "on_word s1 once \<noteq> ONCE_INIT" using word [of once] by auto
  have ok: "once_ok s \<Longrightarrow> once_ok s1"
    using step once_started_ok [OF True] by (simp add: once_step_def)
  show ?thesis
    using s1 word once_finished_ok [OF ok nz]
    by (simp add: pthread_once_start [OF True] once_step_def) (metis fun_upd_apply)
qed

text \<open>Nesting that cannot wait for itself: what a function calls lies below it, by its onces' levels.\<close>

definition once_layered :: "(nat \<Rightarrow> (nat \<times> sppc_closure) list) \<Rightarrow> (nat \<Rightarrow> nat) \<Rightarrow> (nat \<Rightarrow> nat) \<Rightarrow> bool" where
  "once_layered body rank level \<longleftrightarrow>
     (\<forall>f. \<forall>(once, func) \<in> set (body f). level once < rank f \<and> rank (fn func) \<le> level once)"

lemma once_calls_step:
  assumes "\<And>once func s. (once, func) \<in> set cs \<Longrightarrow>
      \<forall>o1. level o1 < n \<longrightarrow> on_word s o1 \<in> {ONCE_INIT, ONCE_DONE} \<Longrightarrow>
      \<exists>s'. sppc_pthread_once mem run once func s = Some s' \<and> once_step s s' \<and> on_word s' once = ONCE_DONE"
    and "\<forall>o1. level o1 < n \<longrightarrow> on_word s o1 \<in> {ONCE_INIT, ONCE_DONE}"
  shows "\<exists>s'. once_calls mem run cs s = Some s' \<and> once_step s s' \<and>
    (\<forall>(once, func) \<in> set cs. on_word s' once = ONCE_DONE)"
  using assms
proof (induction cs arbitrary: s)
  case (Cons c cs)
  obtain once func where c: "c = (once, func)" by force
  from Cons.prems(1) [of once func s] Cons.prems(2) c obtain s1
    where s1: "sppc_pthread_once mem run once func s = Some s1" "once_step s s1" "on_word s1 once = ONCE_DONE"
    by auto
  have "\<forall>o1. level o1 < n \<longrightarrow> on_word s1 o1 \<in> {ONCE_INIT, ONCE_DONE}"
    using s1(2) Cons.prems(2) unfolding once_step_def by (metis insertCI)
  then obtain s' where s': "once_calls mem run cs s1 = Some s'" "once_step s1 s'"
      "\<forall>(once, func) \<in> set cs. on_word s' once = ONCE_DONE"
    using Cons.IH [of s1] Cons.prems(1) by auto
  moreover have "on_word s' once = ONCE_DONE"
    using s'(2) s1(3) unfolding once_step_def by metis
  ultimately show ?case
    using c s1 once_step_trans [OF s1(2) s'(2)] by simp
qed simp

lemma once_run_step:
  assumes "once_layered body rank level"
  shows "rank f \<le> k \<Longrightarrow> \<forall>o1. level o1 < rank f \<longrightarrow> on_word s o1 \<in> {ONCE_INIT, ONCE_DONE} \<Longrightarrow>
    \<exists>s'. once_run mem body k f s = Some s' \<and> once_step s s'"
proof (induction k arbitrary: f s)
  case 0
  then have "body f = []"
    using assms unfolding once_layered_def by (cases "body f") fastforce+
  then show ?case by simp
next
  case (Suc k)
  have call: "\<exists>s'. sppc_pthread_once mem (once_run mem body k) once func s = Some s' \<and> once_step s s' \<and>
      on_word s' once = ONCE_DONE"
    if "(once, func) \<in> set (body f)" "\<forall>o1. level o1 < rank f \<longrightarrow> on_word s o1 \<in> {ONCE_INIT, ONCE_DONE}"
    for once func s
  proof -
    have lv: "level once < rank f" "rank (fn func) \<le> level once"
      using assms that(1) unfolding once_layered_def by auto
    show ?thesis
      using that(2) lv Suc.prems(1)
      by (intro pthread_once_step Suc.IH) (auto simp: once_started_def)
  qed
  show ?case
    using once_calls_step [of "body f" level "rank f" mem "once_run mem body k" s] call Suc.prems(2) by auto
qed


text \<open>On one thread: every once that is called runs exactly one function, however many times and from however deep in
  other onces' functions it is called; the call returns, with the once done, as long as no function waits
  for a once that is itself running.
\<close>

theorem onces_run_once:
  assumes layered: "once_layered body rank level"
    and top: "\<forall>(once, func) \<in> set cs. rank (fn func) \<le> level once \<and> rank (fn func) \<le> k"
    and idle: "\<forall>once. on_word s once \<in> {ONCE_INIT, ONCE_DONE}"
    and ok: "once_ok s"
  shows "\<exists>s'. once_calls mem (once_run mem body k) cs s = Some s' \<and>
    (\<forall>(once, func) \<in> set cs. on_word s' once = ONCE_DONE \<and> once_runs once (on_log s') = 1) \<and>
    (\<forall>once. once_runs once (on_log s') \<le> 1)"
proof -
  define n where "n = Suc (Max (insert 0 (level ` fst ` set cs)))"
  have call: "\<exists>s'. sppc_pthread_once mem (once_run mem body k) once func s = Some s' \<and> once_step s s' \<and>
      on_word s' once = ONCE_DONE"
    if "(once, func) \<in> set cs" "\<forall>o1. level o1 < n \<longrightarrow> on_word s o1 \<in> {ONCE_INIT, ONCE_DONE}" for once func s
  proof -
    have "level once \<le> Max (insert 0 (level ` fst ` set cs))"
      using that(1) by (intro Max_ge) force+
    then have lv: "level once < n" by (simp add: n_def)
    have "rank (fn func) \<le> level once" "rank (fn func) \<le> k" using top that(1) by auto
    then show ?thesis
      using that(2) lv by (intro pthread_once_step once_run_step [OF layered]) (auto simp: once_started_def)
  qed
  obtain s' where s': "once_calls mem (once_run mem body k) cs s = Some s'" "once_step s s'"
      "\<forall>(once, func) \<in> set cs. on_word s' once = ONCE_DONE"
    using once_calls_step [of cs level n mem "once_run mem body k" s] call idle by auto
  have "once_ok s'" using s'(2) ok by (simp add: once_step_def)
  then have "once_runs once (on_log s') = (if on_word s' once = ONCE_INIT then 0 else 1)" for once
    by (simp add: once_ok_def)
  then show ?thesis using s' by (intro exI [of _ s']) auto
qed

text \<open>Two onces: the function of the first, 10, calls the second's, 20, and so does the program.\<close>

definition sample_onces :: once_thread where
  "sample_onces = \<lparr>on_closure = \<lparr>fn = 0, env = None\<rparr>, on_ran = False, on_word = (\<lambda>_. ONCE_INIT), on_log = []\<rparr>"

definition sample_body :: "nat \<Rightarrow> (nat \<times> sppc_closure) list" where
  "sample_body f = (if f = 10 then [(2, \<lparr>fn = 20, env = Some 7\<rparr>)] else [])"

definition sample_mem :: "nat \<Rightarrow> sppc_closure_env" where
  "sample_mem e = \<lparr>owns = 1, drop_captures = Some 99\<rparr>"

theorem onces_run_once_witness:
  "\<exists>s'. once_calls sample_mem (once_run sample_mem sample_body 1)
        [(1, \<lparr>fn = 10, env = Some 5\<rparr>), (2, \<lparr>fn = 20, env = Some 6\<rparr>)] sample_onces = Some s' \<and>
    once_runs 1 (on_log s') = 1 \<and> once_runs 2 (on_log s') = 1"
  using onces_run_once [of sample_body "\<lambda>f. if f = 10 then 1 else 0" "\<lambda>once. if once = 1 then 1 else 0"
      "[(1, \<lparr>fn = 10, env = Some 5\<rparr>), (2, \<lparr>fn = 20, env = Some 6\<rparr>)]" 1 sample_onces sample_mem]
  by (auto simp: once_layered_def sample_body_def sample_onces_def once_ok_def)

text \<open>The thread-local that says whether the function ran is shared by nested onces: a function that calls a
  once already done leaves it at 0, so its own closure, which ran, is discarded as if it had not, and the
  captures it consumed are dropped a second time.
\<close>

lemma nested_once_drops_twice:
  "\<exists>s'. sppc_pthread_once sample_mem (once_run sample_mem sample_body 1) 1 \<lparr>fn = 10, env = Some 5\<rparr>
          (sample_onces\<lparr>on_word := (\<lambda>_. ONCE_INIT)(2 := ONCE_DONE)\<rparr>) = Some s' \<and>
        on_log s' = [OnceRun 1 10 (Some 5), OnceEnv (DropCaptures 99 7), OnceEnv (EnvFree 7),
          OnceEnv (DropCaptures 99 5), OnceEnv (EnvFree 5)]"
  by (simp add: pthread_once_start pthread_once_again sample_onces_def sample_body_def sample_mem_def once_started_def
      sppc_closure_discard_def)

section \<open>A closure is consumed once\<close>

text \<open>C31: Whatever becomes of a thread, the closure it was given is consumed once: its function runs or its
  captures are dropped, never both; its environment is freed once; the block it travelled in is freed
  once, by the thread or by the call that failed; and the call fails exactly when there is no thread.
\<close>

theorem thread_consumes_closure_once:
  assumes "env start = Some e" "mem e = \<lparr>owns = o1, drop_captures = Some f\<rparr>" "o1 \<noteq> 0"
    "create \<noteq> Inl 0" "wanted \<longrightarrow> up_err = 0"
  shows "let (err, out, here, block) = sppc_pthread_create eno mem alloc create start;
      events = here @ (case block of None \<Rightarrow> [] | Some b \<Rightarrow> sppc_thread_entry wanted up_err b start)
    in count_list events (OnEnv (EnvFree e)) = 1 \<and>
       count_list events (Run (fn start) (Some e)) + count_list events (OnEnv (DropCaptures f e)) = 1 \<and>
       (\<forall>b. count_list events (FreeBlock b) = (if alloc = Some b then 1 else 0)) \<and>
       (err = 0) = (block \<noteq> None) \<and> (out = None) = (block = None)"
  using assms errno_nonzero [of _ eno]
  by (auto simp: sppc_pthread_create_def sppc_thread_entry_def sppc_closure_discard_def sppc_env_free_def Let_def split: option.split sum.split)

theorem thread_consumes_closure_once_witness:
  "count_list (sppc_thread_entry True 0 64 \<lparr>fn = 10, env = Some 5\<rparr>) (OnEnv (EnvFree 5)) = 1"
  using thread_consumes_closure_once [of "\<lparr>fn = 10, env = Some 5\<rparr>" 5 sample_mem 1 99 "Inr 3" True 0 few_errnos "Some 64"]
  by (simp add: sample_mem_def sppc_pthread_create_def)

end
