(* ===== verification/Onces.thy ===== *)
theory Onces
  imports Threads
begin

text \<open>
  A once on the platforms whose own does not fit a handle, across threads (platform/posix.h: \<^verbatim>\<open>_sppc_pthread_once\<close>
  for Darwin and FreeBSD; platform/common.h: \<^verbatim>\<open>sppc_pthread_once\<close>, \<^verbatim>\<open>_sppc_once_entry\<close>): the words of the onces,
  each thread's two thread-locals and the calls it is in, innermost first, and turns of one atomic access each,
  taken by any of the threads in any order. A function that a once runs may call further onces, the one
  it is run by included.
\<close>

section \<open>The calls\<close>

text \<open>Where a call of a once is: at the compare-exchange; about to call the entry; in the function; about to store that
  it is done; in the loop, about to load the word or to nap; back in \<^verbatim>\<open>sppc_pthread_once\<close>.\<close>

datatype once_pc = OnceEnter | OnceCalls | OnceIn | OnceOut | OnceLoad int | OnceNap int | OnceBack

record once_frame =
  of_once :: nat
  of_func :: sppc_closure
  of_pc :: once_pc

datatype once_did =
    Began nat sppc_closure  \<comment> \<open>this once called the function\<close>
  | Ended nat  \<comment> \<open>the function this once called has returned\<close>
  | WasBack nat  \<comment> \<open>a call of this once has returned\<close>
  | OnEnvOf nat env_call

record onces =
  oc_word :: "nat \<Rightarrow> int"
  oc_closure :: "nat \<Rightarrow> sppc_closure"
  oc_ran :: "nat \<Rightarrow> bool"
  oc_stack :: "nat \<Rightarrow> once_frame list"
  oc_log :: "(nat \<times> once_did) list"

text \<open>Every once initialised, and no thread in a call.\<close>

definition onces_start :: onces where
  "onces_start = \<lparr>oc_word = (\<lambda>_. ONCE_INIT), oc_closure = (\<lambda>_. \<lparr>fn = 0, env = None\<rparr>), oc_ran = (\<lambda>_. False),
     oc_stack = (\<lambda>_. []), oc_log = []\<rparr>"

definition once_goto :: "nat \<Rightarrow> once_frame \<Rightarrow> once_frame list \<Rightarrow> once_pc \<Rightarrow> onces \<Rightarrow> onces" where
  "once_goto t f rest pc s = s\<lparr>oc_stack := (oc_stack s)(t := f\<lparr>of_pc := pc\<rparr> # rest)\<rparr>"

definition once_does :: "nat \<Rightarrow> once_did list \<Rightarrow> onces \<Rightarrow> onces" where
  "once_does t ds s = s\<lparr>oc_log := oc_log s @ map (Pair t) ds\<rparr>"

text \<open>\<^verbatim>\<open>sppc_pthread_once\<close> up to the platform's call.\<close>

definition once_called :: "nat \<Rightarrow> nat \<Rightarrow> sppc_closure \<Rightarrow> onces \<Rightarrow> onces" where
  "once_called t once func s =
     s\<lparr>oc_closure := (oc_closure s)(t := func), oc_ran := (oc_ran s)(t := False),
       oc_stack := (oc_stack s)(t := \<lparr>of_once = once, of_func = func, of_pc = OnceEnter\<rparr> # oc_stack s t)\<rparr>"

text \<open>\<^verbatim>\<open>_sppc_once_entry\<close>: it calls the closure it finds in its thread-local.\<close>

definition once_entered :: "nat \<Rightarrow> once_frame \<Rightarrow> once_frame list \<Rightarrow> onces \<Rightarrow> onces" where
  "once_entered t f rest s =
     once_goto t f rest OnceIn (once_does t [Began (of_once f) (oc_closure s t)] (s\<lparr>oc_ran := (oc_ran s)(t := True)\<rparr>))"

text \<open>\<^verbatim>\<open>sppc_pthread_once\<close> after the platform's call.\<close>

definition once_came_back :: "(nat \<Rightarrow> sppc_closure_env) \<Rightarrow> nat \<Rightarrow> once_frame \<Rightarrow> once_frame list \<Rightarrow> onces \<Rightarrow> onces" where
  "once_came_back mem t f rest s =
     once_does t (map (OnEnvOf (of_once f)) (if oc_ran s t then sppc_env_free (env (of_func f))
         else sppc_closure_discard mem (of_func f)) @ [WasBack (of_once f)])
       (s\<lparr>oc_stack := (oc_stack s)(t := rest)\<rparr>)"

text \<open>A thread's next access: \<^verbatim>\<open>_sppc_pthread_once\<close>, and what its caller does with it.\<close>

definition once_turn :: "(nat \<Rightarrow> sppc_closure_env) \<Rightarrow> nat \<Rightarrow> onces \<Rightarrow> onces option" where
  "once_turn mem t s =
     (case oc_stack s t of
        [] \<Rightarrow> None
      | f # rest \<Rightarrow>
          (case of_pc f of
             OnceEnter \<Rightarrow>
               Some (if oc_word s (of_once f) = ONCE_INIT
                     then once_goto t f rest OnceCalls (s\<lparr>oc_word := (oc_word s)(of_once f := ONCE_RUNNING)\<rparr>)
                     else once_goto t f rest (OnceLoad BACKOFF_MIN_NS) s)
           | OnceCalls \<Rightarrow> Some (once_entered t f rest s)
           | OnceIn \<Rightarrow> None
           | OnceOut \<Rightarrow> Some (once_goto t f rest OnceBack (s\<lparr>oc_word := (oc_word s)(of_once f := ONCE_DONE)\<rparr>))
           | OnceLoad pause \<Rightarrow>
               Some (once_goto t f rest (if oc_word s (of_once f) \<noteq> ONCE_DONE then OnceNap pause else OnceBack) s)
           | OnceNap pause \<Rightarrow>
               Some (once_goto t f rest (OnceLoad (if pause < BACKOFF_MAX_NS then pause * 2 else pause)) s)
           | OnceBack \<Rightarrow> Some (once_came_back mem t f rest s)))"

text \<open>What a thread may do: call a once, outside of every call or from a function that one runs; return from that function;
  take its next access.\<close>

datatype once_move = Calls nat nat sppc_closure | Returns nat | Turn nat

definition runs_code :: "once_frame list \<Rightarrow> bool" where
  "runs_code stack = (case stack of [] \<Rightarrow> True | f # _ \<Rightarrow> of_pc f = OnceIn)"

definition once_moved :: "(nat \<Rightarrow> sppc_closure_env) \<Rightarrow> once_move \<Rightarrow> onces \<Rightarrow> onces option" where
  "once_moved mem m s =
     (case m of
        Calls t once func \<Rightarrow> if runs_code (oc_stack s t) then Some (once_called t once func s) else None
      | Returns t \<Rightarrow>
          (case oc_stack s t of
             [] \<Rightarrow> None
           | f # rest \<Rightarrow> if of_pc f = OnceIn then Some (once_goto t f rest OnceOut (once_does t [Ended (of_once f)] s)) else None)
      | Turn t \<Rightarrow> once_turn mem t s)"

fun once_moves :: "(nat \<Rightarrow> sppc_closure_env) \<Rightarrow> once_move list \<Rightarrow> onces \<Rightarrow> onces option" where
  "once_moves mem [] s = Some s"
| "once_moves mem (m # ms) s = (case once_moved mem m s of None \<Rightarrow> None | Some s1 \<Rightarrow> once_moves mem ms s1)"

section \<open>What holds of every once\<close>

text \<open>The calls that run a once: those past the exchange and not yet past the store.\<close>

definition runs_it :: "nat \<Rightarrow> once_frame \<Rightarrow> bool" where
  "runs_it once f \<longleftrightarrow> of_once f = once \<and> of_pc f \<in> {OnceCalls, OnceIn, OnceOut}"

definition runners :: "nat \<Rightarrow> onces \<Rightarrow> nat \<Rightarrow> once_frame list" where
  "runners once s t = filter (runs_it once) (oc_stack s t)"

definition is_began :: "nat \<Rightarrow> nat \<times> once_did \<Rightarrow> bool" where
  "is_began once d = (case snd d of Began o1 _ \<Rightarrow> o1 = once | _ \<Rightarrow> False)"

definition begun :: "nat \<Rightarrow> onces \<Rightarrow> nat" where
  "begun once s = length (filter (is_began once) (oc_log s))"

definition ended :: "nat \<Rightarrow> onces \<Rightarrow> bool" where
  "ended once s \<longleftrightarrow> Ended once \<in> snd ` set (oc_log s)"

definition once_phase :: "nat \<Rightarrow> onces \<Rightarrow> bool" where
  "once_phase once s \<longleftrightarrow>
     (oc_word s once = ONCE_INIT \<and> (\<forall>t. runners once s t = []) \<and> begun once s = 0 \<and> \<not> ended once s) \<or>
     (oc_word s once = ONCE_RUNNING \<and> (\<exists>t f. runners once s t = [f] \<and> (\<forall>u. u \<noteq> t \<longrightarrow> runners once s u = []) \<and>
        begun once s = (if of_pc f = OnceCalls then 0 else 1) \<and> ended once s = (of_pc f = OnceOut) \<and>
        (of_pc f = OnceCalls \<or> (t, Began once (of_func f)) \<in> set (oc_log s)))) \<or>
     (oc_word s once = ONCE_DONE \<and> (\<forall>t. runners once s t = []) \<and> begun once s = 1 \<and> ended once s)"

text \<open>The naps: 50 microseconds, doubled until they are a millisecond or more.\<close>

definition once_naps :: "int set" where
  "once_naps = {50000, 100000, 200000, 400000, 800000, 1600000}"

definition frame_ok :: "onces \<Rightarrow> once_frame \<Rightarrow> bool" where
  "frame_ok s f \<longleftrightarrow> (of_pc f = OnceBack \<longrightarrow> oc_word s (of_once f) = ONCE_DONE) \<and>
     (\<forall>p. of_pc f \<in> {OnceLoad p, OnceNap p} \<longrightarrow> p \<in> once_naps)"

definition stack_ok :: "onces \<Rightarrow> nat \<Rightarrow> bool" where
  "stack_ok s t \<longleftrightarrow> (\<forall>f \<in> set (oc_stack s t). frame_ok s f) \<and>
     (case oc_stack s t of [] \<Rightarrow> True
      | f # rest \<Rightarrow> (\<forall>g' \<in> set rest. of_pc g' = OnceIn) \<and>
          (of_pc f \<in> {OnceEnter, OnceCalls} \<longrightarrow> oc_closure s t = of_func f))"

text \<open>Whoever was back found the function ended.\<close>

definition backs_ok :: "(nat \<times> once_did) list \<Rightarrow> bool" where
  "backs_ok log \<longleftrightarrow> (\<forall>pre t once post. log = pre @ (t, WasBack once) # post \<longrightarrow> Ended once \<in> snd ` set pre)"

definition onces_ok :: "onces \<Rightarrow> bool" where
  "onces_ok s \<longleftrightarrow> (\<forall>once. once_phase once s) \<and> (\<forall>t. stack_ok s t) \<and> backs_ok (oc_log s)"

lemma log_snoc: "log @ [d] = pre @ e # post \<longleftrightarrow> (pre = log \<and> e = d \<and> post = []) \<or> (\<exists>post'. log = pre @ e # post' \<and> post = post' @ [d])"
  by (cases post rule: rev_cases) auto

lemma backs_snoc: "backs_ok (log @ [d]) \<longleftrightarrow> backs_ok log \<and> (\<forall>once. WasBack once = snd d \<longrightarrow> Ended once \<in> snd ` set log)"
proof -
  have "(\<forall>pre t once post. (pre = log \<and> (t, WasBack once) = d \<and> post = [] \<or>
        (\<exists>post'. log = pre @ (t, WasBack once) # post' \<and> post = post' @ [d])) \<longrightarrow> Ended once \<in> snd ` set pre) \<longleftrightarrow>
      (\<forall>pre t once post. log = pre @ (t, WasBack once) # post \<longrightarrow> Ended once \<in> snd ` set pre) \<and>
      (\<forall>t once. (t, WasBack once) = d \<longrightarrow> Ended once \<in> snd ` set log)" by blast
  then show ?thesis unfolding backs_ok_def log_snoc by (cases d) simp
qed

lemma backs_others:
  "(\<forall>d \<in> set ds. \<forall>once. WasBack once \<noteq> snd d) \<Longrightarrow> backs_ok log \<Longrightarrow> backs_ok (log @ ds)"
proof (induction ds rule: rev_induct)
  case (snoc d ds)
  then have "backs_ok ((log @ ds) @ [d])" unfolding backs_snoc by simp
  then show ?case by simp
qed simp

section \<open>Every move keeps it\<close>

lemmas once_words_rev [simp] = once_words(1,3) [symmetric]

lemma start_ok: "onces_ok onces_start"
  by (simp add: onces_ok_def once_phase_def stack_ok_def backs_ok_def runners_def begun_def ended_def onces_start_def)

lemma did [simp]:
  "oc_word (once_does t ds s) = oc_word s" "oc_stack (once_does t ds s) = oc_stack s" "oc_ran (once_does t ds s) = oc_ran s"
  "oc_closure (once_does t ds s) = oc_closure s" "oc_log (once_does t ds s) = oc_log s @ map (Pair t) ds"
  by (simp_all add: once_does_def)

lemma gone_to [simp]:
  "oc_word (once_goto t f rest pc s) = oc_word s" "oc_log (once_goto t f rest pc s) = oc_log s"
  "oc_closure (once_goto t f rest pc s) = oc_closure s" "oc_ran (once_goto t f rest pc s) = oc_ran s"
  "oc_stack (once_goto t f rest pc s) = (oc_stack s)(t := f\<lparr>of_pc := pc\<rparr> # rest)"
  by (simp_all add: once_goto_def)

lemma phase_same:
  assumes "once_phase once s" "oc_word s' once = oc_word s once" "\<And>t. runners once s' t = runners once s t"
    and "begun once s' = begun once s" "ended once s' = ended once s" "set (oc_log s) \<subseteq> set (oc_log s')"
  shows "once_phase once s'"
proof -
  have "d \<in> set (oc_log s) \<Longrightarrow> d \<in> set (oc_log s')" for d using assms(6) by blast
  then show ?thesis using assms(1) unfolding once_phase_def assms(2-5) by meson
qed

lemma phase_runs:
  assumes "once_phase once s" "f \<in> set (runners once s t)"
  shows "oc_word s once = ONCE_RUNNING" "runners once s t = [f]" "u \<noteq> t \<Longrightarrow> runners once s u = []"
    and "begun once s = (if of_pc f = OnceCalls then 0 else 1)" "ended once s = (of_pc f = OnceOut)"
    and "of_pc f = OnceCalls \<or> (t, Began once (of_func f)) \<in> set (oc_log s)"
proof -
  from assms obtain v g where g: "oc_word s once = ONCE_RUNNING" "runners once s v = [g]" "\<forall>u. u \<noteq> v \<longrightarrow> runners once s u = []"
    "begun once s = (if of_pc g = OnceCalls then 0 else 1)" "ended once s = (of_pc g = OnceOut)"
    "of_pc g = OnceCalls \<or> (v, Began once (of_func g)) \<in> set (oc_log s)"
    unfolding once_phase_def by auto
  then have "v = t" using assms(2) by (cases "v = t") auto
  moreover have "g = f" using g(2) assms(2) \<open>v = t\<close> by simp
  ultimately show "oc_word s once = ONCE_RUNNING" "runners once s t = [f]" "u \<noteq> t \<Longrightarrow> runners once s u = []"
    "begun once s = (if of_pc f = OnceCalls then 0 else 1)" "ended once s = (of_pc f = OnceOut)"
    "of_pc f = OnceCalls \<or> (t, Began once (of_func f)) \<in> set (oc_log s)"
    using g by auto
qed

lemma phase_started:
  assumes "oc_word s once = ONCE_RUNNING" "runners once s t = [f]" "\<And>u. u \<noteq> t \<Longrightarrow> runners once s u = []"
    and "begun once s = (if of_pc f = OnceCalls then 0 else 1)" "ended once s = (of_pc f = OnceOut)"
    and "of_pc f = OnceCalls \<or> (t, Began once (of_func f)) \<in> set (oc_log s)"
  shows "once_phase once s"
  using assms unfolding once_phase_def by blast

lemma runners_top:
  assumes "oc_stack s t = f # rest"
  shows "runners once s t = (if runs_it once f then [f] else []) @ filter (runs_it once) rest"
    and "runners once (once_goto t f rest pc s') u =
      (if u = t then (if runs_it once (f\<lparr>of_pc := pc\<rparr>) then [f\<lparr>of_pc := pc\<rparr>] else []) @ filter (runs_it once) rest
       else runners once s' u)"
  using assms by (simp_all add: runners_def)

lemma runners_cong [simp]:
  "runners once (s\<lparr>oc_word := w\<rparr>) = runners once s" "runners once (s\<lparr>oc_ran := r\<rparr>) = runners once s"
  "runners once (once_does t ds s) = runners once s"
  by (auto simp: runners_def)

lemma counts_cong [simp]:
  "begun once (s\<lparr>oc_word := w\<rparr>) = begun once s" "ended once (s\<lparr>oc_word := w\<rparr>) = ended once s"
  "begun once (s\<lparr>oc_ran := r\<rparr>) = begun once s" "ended once (s\<lparr>oc_ran := r\<rparr>) = ended once s"
  "begun once (s\<lparr>oc_stack := k\<rparr>) = begun once s" "ended once (s\<lparr>oc_stack := k\<rparr>) = ended once s"
  "begun once (once_goto t f rest pc s) = begun once s" "ended once (once_goto t f rest pc s) = ended once s"
  by (simp_all add: begun_def ended_def)

lemma counts_did [simp]:
  "begun once (once_does t ds s) = begun once s + length (filter (is_began once) (map (Pair t) ds))"
  "ended once (once_does t ds s) = (ended once s \<or> Ended once \<in> set ds)"
  by (simp_all add: begun_def ended_def image_Un image_image)

lemma began_of [simp]:
  "is_began once (t, Began o1 g) = (o1 = once)" "is_began once (t, Ended o1) = False" "is_began once (t, WasBack o1) = False"
  "is_began once (t, OnEnvOf o1 c) = False"
  by (simp_all add: is_began_def)

text \<open>An access that does not run the once, nor begins or ends to, leaves its phase.\<close>

lemma phase_idle:
  assumes "once_phase once s" "oc_stack s t = f # rest"
    and "\<not> runs_it once f" "\<not> runs_it once (f\<lparr>of_pc := pc\<rparr>)"
  shows "once_phase once (once_goto t f rest pc s)"
  by (rule phase_same [OF assms(1)]) (simp_all add: runners_top(2) [OF assms(2)] runners_top(1) [OF assms(2)] assms(3,4))

text \<open>One that concerns another once leaves it too.\<close>

lemma phase_apart:
  assumes "once_phase once s" "oc_stack s t = f # rest" "of_once f \<noteq> once"
    and "oc_word s' once = oc_word s once" "\<And>u. runners once s' u = runners once s u" "begun once s' = begun once s"
      "ended once s' = ended once s" "set (oc_log s) \<subseteq> set (oc_log s')"
  shows "once_phase once (once_goto t f rest pc s')"
  by (rule phase_same [OF assms(1)])
    (use assms in \<open>simp_all add: runners_top(2) [OF assms(2)] runners_top(1) [OF assms(2)] runs_it_def\<close>)

lemma phase_won:
  assumes ph: "once_phase (of_once f) s" and st: "oc_stack s t = f # rest" and w: "oc_word s (of_once f) = ONCE_INIT"
  shows "once_phase (of_once f) (once_goto t f rest OnceCalls (s\<lparr>oc_word := (oc_word s)(of_once f := ONCE_RUNNING)\<rparr>))"
proof (rule phase_started [where t = t and f = "f\<lparr>of_pc := OnceCalls\<rparr>"])
  have none: "runners (of_once f) s u = []" "begun (of_once f) s = 0" "\<not> ended (of_once f) s" for u
    using ph w unfolding once_phase_def by auto
  have rest: "filter (runs_it (of_once f)) rest = []" using none(1) [of t] by (simp add: runners_top(1) [OF st])
  show "runners (of_once f) (once_goto t f rest OnceCalls (s\<lparr>oc_word := (oc_word s)(of_once f := ONCE_RUNNING)\<rparr>)) t =
      [f\<lparr>of_pc := OnceCalls\<rparr>]" by (simp add: runners_top(2) [OF st] runs_it_def rest)
qed (use ph w in \<open>auto simp: once_phase_def runners_top(2) [OF st]\<close>)

lemma phase_runs_on:
  assumes ph: "once_phase (of_once f) s" and st: "oc_stack s t = f # rest" and run: "runs_it (of_once f) f" "pc = OnceIn \<or> pc = OnceOut"
    and s': "oc_word s' = oc_word s" "\<And>u. runners (of_once f) s' u = runners (of_once f) s u" "begun (of_once f) s' = 1"
      "ended (of_once f) s' = (pc = OnceOut)" "(t, Began (of_once f) (of_func f)) \<in> set (oc_log s')"
  shows "once_phase (of_once f) (once_goto t f rest pc s')"
proof (rule phase_started [where t = t and f = "f\<lparr>of_pc := pc\<rparr>"])
  have f: "f \<in> set (runners (of_once f) s t)" using run(1) by (simp add: runners_top(1) [OF st])
  note R = phase_runs [OF ph f]
  have rest: "filter (runs_it (of_once f)) rest = []" using R(2) run(1) by (simp add: runners_top(1) [OF st])
  show "runners (of_once f) (once_goto t f rest pc s') t = [f\<lparr>of_pc := pc\<rparr>]"
    using run(2) by (auto simp: runners_top(2) [OF st] runs_it_def rest)
  show "oc_word (once_goto t f rest pc s') (of_once f) = ONCE_RUNNING" using R(1) s'(1) by simp
  show "runners (of_once f) (once_goto t f rest pc s') u = []" if "u \<noteq> t" for u
    using that R(3) s'(2) by (simp add: runners_top(2) [OF st])
qed (use run(2) s' in auto)

lemma phase_stored:
  assumes ph: "once_phase (of_once f) s" and st: "oc_stack s t = f # rest" and out: "of_pc f = OnceOut"
  shows "once_phase (of_once f) (once_goto t f rest OnceBack (s\<lparr>oc_word := (oc_word s)(of_once f := ONCE_DONE)\<rparr>))"
proof -
  have run: "runs_it (of_once f) f" using out by (simp add: runs_it_def)
  have f: "f \<in> set (runners (of_once f) s t)" using run by (simp add: runners_top(1) [OF st])
  note R = phase_runs [OF ph f]
  have rest: "filter (runs_it (of_once f)) rest = []" using R(2) run by (simp add: runners_top(1) [OF st])
  have "runners (of_once f) (once_goto t f rest OnceBack (s\<lparr>oc_word := (oc_word s)(of_once f := ONCE_DONE)\<rparr>)) u = []" for u
    using R(3) by (simp add: runners_top(2) [OF st] runs_it_def rest)
  then show ?thesis unfolding once_phase_def using R(4,5) out by simp
qed

definition words_kept :: "onces \<Rightarrow> onces \<Rightarrow> bool" where
  "words_kept s s' \<longleftrightarrow> (\<forall>once. oc_word s once = ONCE_DONE \<longrightarrow> oc_word s' once = ONCE_DONE)"

lemma stack_kept:
  "stack_ok s u \<Longrightarrow> words_kept s s' \<Longrightarrow> oc_stack s' u = oc_stack s u \<Longrightarrow> oc_closure s' u = oc_closure s u \<Longrightarrow> stack_ok s' u"
  unfolding stack_ok_def frame_ok_def words_kept_def by (simp split: list.splits)

lemma stack_moved:
  assumes "stack_ok s t" "words_kept s s'" "oc_stack s t = f # rest" "frame_ok s' (f\<lparr>of_pc := pc\<rparr>)"
    and "pc \<in> {OnceEnter, OnceCalls} \<Longrightarrow> oc_closure s' t = of_func f" "oc_stack s' t = f\<lparr>of_pc := pc\<rparr> # rest"
  shows "stack_ok s' t"
  using assms unfolding stack_ok_def frame_ok_def words_kept_def by simp

text \<open>A thread's move to the next access of the call it is in keeps everything, when it keeps the phase of that call's once.\<close>

lemma goto_ok:
  assumes ok: "onces_ok s" and st: "oc_stack s t = f # rest"
    and ph: "once_phase (of_once f) (once_goto t f rest pc s')"
    and other: "\<And>once. once \<noteq> of_once f \<Longrightarrow> oc_word s' once = oc_word s once \<and> begun once s' = begun once s \<and> ended once s' = ended once s"
    and kept: "words_kept s s'" "oc_stack s' = oc_stack s" "oc_closure s' = oc_closure s"
    and log: "oc_log s' = oc_log s @ map (Pair t) ds" "\<forall>once. WasBack once \<notin> set ds"
    and top: "frame_ok s' (f\<lparr>of_pc := pc\<rparr>)" "pc \<in> {OnceEnter, OnceCalls} \<Longrightarrow> oc_closure s t = of_func f"
  shows "onces_ok (once_goto t f rest pc s')"
proof -
  let ?s = "once_goto t f rest pc s'"
  have "once_phase once ?s" for once
  proof (cases "once = of_once f")
    case False
    then show ?thesis using ok other [OF False]
      by (intro phase_apart [OF _ st]) (auto simp: onces_ok_def runners_def kept(2) log(1))
  qed (simp add: ph)
  moreover have "stack_ok ?s u" for u
  proof (cases "u = t")
    case True
    have "stack_ok s t" using ok by (simp add: onces_ok_def)
    then have "stack_ok ?s t"
      by (rule stack_moved [where pc = pc, OF _ _ st]) (use kept top in \<open>simp_all add: words_kept_def frame_ok_def\<close>)
    then show ?thesis using True by simp
  next
    case False
    have "stack_ok s u" using ok by (simp add: onces_ok_def)
    then show ?thesis by (rule stack_kept) (use kept False in \<open>simp_all add: words_kept_def\<close>)
  qed
  moreover have "backs_ok (oc_log ?s)"
    using ok log(2) unfolding gone_to log(1) by (intro backs_others) (auto simp: onces_ok_def)
  ultimately show ?thesis by (simp add: onces_ok_def)
qed

lemma word_cases: "once_phase once s \<Longrightarrow> oc_word s once \<in> {ONCE_INIT, ONCE_RUNNING, ONCE_DONE}"
  by (auto simp: once_phase_def)

lemma called_ok:
  assumes ok: "onces_ok s" and code: "runs_code (oc_stack s t)"
  shows "onces_ok (once_called t once func s)"
proof -
  let ?s = "once_called t once func s"
  have "once_phase o1 ?s" for o1
    by (rule phase_same [of o1 s]) (use ok in \<open>simp_all add: onces_ok_def once_called_def runners_def begun_def ended_def runs_it_def\<close>)
  moreover have "stack_ok ?s u" for u
  proof (cases "u = t")
    case True
    have "stack_ok s t" using ok by (simp add: onces_ok_def)
    then show ?thesis using True code
      by (simp add: stack_ok_def frame_ok_def once_called_def runs_code_def split: list.splits)
  next
    case False
    have "stack_ok s u" using ok by (simp add: onces_ok_def)
    then show ?thesis by (rule stack_kept) (use False in \<open>simp_all add: words_kept_def once_called_def\<close>)
  qed
  ultimately show ?thesis using ok by (simp add: onces_ok_def once_called_def)
qed

lemma came_back_ok:
  assumes ok: "onces_ok s" and st: "oc_stack s t = f # rest" "of_pc f = OnceBack"
  shows "onces_ok (once_came_back mem t f rest s)"
proof -
  let ?s = "once_came_back mem t f rest s"
  let ?cs = "if oc_ran s t then sppc_env_free (env (of_func f)) else sppc_closure_discard mem (of_func f)"
  have t: "stack_ok s t" using ok by (simp add: onces_ok_def)
  have none: "filter (is_began o1) (map (Pair t) (map (OnEnvOf k) cs)) = []" for o1 k cs by (induction cs) simp_all
  have "once_phase o1 ?s" for o1
    by (rule phase_same [of o1 s])
      (use ok st none [of o1 "of_once f" ?cs] in
        \<open>auto simp: onces_ok_def once_came_back_def runners_def runs_it_def image_iff simp del: if_split\<close>)
  moreover have "stack_ok ?s u" for u
  proof (cases "u = t")
    case True
    then show ?thesis using t st
      by (auto simp: stack_ok_def frame_ok_def once_came_back_def split: list.split)
  next
    case False
    have "stack_ok s u" using ok by (simp add: onces_ok_def)
    then show ?thesis by (rule stack_kept) (use False in \<open>simp_all add: words_kept_def once_came_back_def\<close>)
  qed
  moreover have "backs_ok (oc_log ?s)"
  proof -
    have "oc_word s (of_once f) = ONCE_DONE" using t st by (simp add: stack_ok_def frame_ok_def)
    moreover have "once_phase (of_once f) s" using ok by (simp add: onces_ok_def)
    ultimately have e: "Ended (of_once f) \<in> snd ` set (oc_log s)" unfolding once_phase_def ended_def by auto
    have "backs_ok (oc_log s @ map (Pair t) (map (OnEnvOf (of_once f)) ?cs))"
      using ok by (intro backs_others) (auto simp: onces_ok_def)
    then have "backs_ok ((oc_log s @ map (Pair t) (map (OnEnvOf (of_once f)) ?cs)) @ [(t, WasBack (of_once f))])"
      using e unfolding backs_snoc by auto
    then show ?thesis by (simp add: once_came_back_def)
  qed
  ultimately show ?thesis by (simp add: onces_ok_def)
qed

lemma nap_doubles:
  "p \<in> once_naps \<Longrightarrow> (if p < BACKOFF_MAX_NS then p * 2 else p) \<in> once_naps"
  by (auto simp: once_naps_def BACKOFF_MAX_NS_def)

lemma turn_ok:
  assumes ok: "onces_ok s" and turn: "once_turn mem t s = Some s'"
  shows "onces_ok s'"
proof -
  obtain f rest where st: "oc_stack s t = f # rest" using turn by (cases "oc_stack s t") (auto simp: once_turn_def)
  have ph: "once_phase (of_once f) s" and t: "stack_ok s t" using ok by (simp_all add: onces_ok_def)
  have kept: "words_kept s s" by (simp add: words_kept_def)
  have f: "frame_ok s f" "of_pc f \<in> {OnceEnter, OnceCalls} \<Longrightarrow> oc_closure s t = of_func f" using t st by (auto simp: stack_ok_def)
  show ?thesis
  proof (cases "of_pc f")
    case OnceEnter
    show ?thesis
    proof (cases "oc_word s (of_once f) = ONCE_INIT")
      case True
      have s': "s' = once_goto t f rest OnceCalls (s\<lparr>oc_word := (oc_word s)(of_once f := ONCE_RUNNING)\<rparr>)"
        using turn st OnceEnter True by (simp add: once_turn_def)
      show ?thesis unfolding s' using True f(2) OnceEnter
        by (intro goto_ok [where ds = "[]", OF ok st phase_won [OF ph st True]]) (auto simp: words_kept_def frame_ok_def)
    next
      case False
      then have s': "s' = once_goto t f rest (OnceLoad BACKOFF_MIN_NS) s"
        using turn st OnceEnter by (simp add: once_turn_def)
      have "once_phase (of_once f) s'" unfolding s' using OnceEnter by (intro phase_idle [OF ph st]) (simp_all add: runs_it_def)
      then show ?thesis unfolding s' using kept
        by (intro goto_ok [where ds = "[]", OF ok st]) (simp_all add: frame_ok_def once_naps_def BACKOFF_MIN_NS_def)
    qed
  next
    case OnceCalls
    then have s': "s' = once_entered t f rest s" using turn st by (simp add: once_turn_def)
    have c: "oc_closure s t = of_func f" using f(2) OnceCalls by simp
    have run: "runs_it (of_once f) f" using OnceCalls by (simp add: runs_it_def)
    have "f \<in> set (runners (of_once f) s t)" using run by (simp add: runners_top(1) [OF st])
    note R = phase_runs [OF ph this]
    let ?s = "once_does t [Began (of_once f) (oc_closure s t)] (s\<lparr>oc_ran := (oc_ran s)(t := True)\<rparr>)"
    have "once_phase (of_once f) (once_goto t f rest OnceIn ?s)"
      by (rule phase_runs_on [OF ph st run]) (use R(4,5) OnceCalls c in simp_all)
    then show ?thesis unfolding s' once_entered_def
      by (rule goto_ok [where ds = "[Began (of_once f) (oc_closure s t)]", OF ok st]) (simp_all add: words_kept_def frame_ok_def)
  next
    case OnceOut
    then have s': "s' = once_goto t f rest OnceBack (s\<lparr>oc_word := (oc_word s)(of_once f := ONCE_DONE)\<rparr>)"
      using turn st by (simp add: once_turn_def)
    show ?thesis unfolding s'
      by (intro goto_ok [where ds = "[]", OF ok st phase_stored [OF ph st OnceOut]]) (simp_all add: words_kept_def frame_ok_def)
  next
    case (OnceLoad p)
    then have s': "s' = once_goto t f rest (if oc_word s (of_once f) \<noteq> ONCE_DONE then OnceNap p else OnceBack) s"
      using turn st by (simp add: once_turn_def)
    have "once_phase (of_once f) s'" unfolding s' using OnceLoad by (intro phase_idle [OF ph st]) (simp_all add: runs_it_def)
    then show ?thesis unfolding s' using kept f(1) OnceLoad
      by (intro goto_ok [where ds = "[]", OF ok st]) (simp_all add: frame_ok_def split: if_splits)
  next
    case (OnceNap p)
    then have s': "s' = once_goto t f rest (OnceLoad (if p < BACKOFF_MAX_NS then p * 2 else p)) s"
      using turn st by (simp add: once_turn_def)
    have "once_phase (of_once f) s'" unfolding s' using OnceNap by (intro phase_idle [OF ph st]) (simp_all add: runs_it_def)
    moreover have "p \<in> once_naps" using f(1) OnceNap by (simp add: frame_ok_def)
    ultimately show ?thesis unfolding s' using kept nap_doubles [of p]
      by (intro goto_ok [where ds = "[]", OF ok st]) (simp_all add: frame_ok_def del: if_split)
  next
    case OnceBack
    then have "s' = once_came_back mem t f rest s" using turn st by (simp add: once_turn_def)
    then show ?thesis using came_back_ok [OF ok st OnceBack] by simp
  qed (use turn st in \<open>simp add: once_turn_def\<close>)
qed

lemma moved_ok:
  assumes ok: "onces_ok s" and moved: "once_moved mem m s = Some s'"
  shows "onces_ok s'"
proof (cases m)
  case (Calls t once func)
  then show ?thesis using moved called_ok [OF ok] by (auto simp: once_moved_def split: if_splits)
next
  case (Returns t)
  then obtain f rest where st: "oc_stack s t = f # rest" "of_pc f = OnceIn"
    and s': "s' = once_goto t f rest OnceOut (once_does t [Ended (of_once f)] s)"
    using moved by (auto simp: once_moved_def split: list.splits if_splits)
  have ph: "once_phase (of_once f) s" using ok by (simp add: onces_ok_def)
  have run: "runs_it (of_once f) f" using st by (simp add: runs_it_def)
  have "f \<in> set (runners (of_once f) s t)" using run by (simp add: runners_top(1) [OF st(1)])
  note R = phase_runs [OF ph this]
  have "once_phase (of_once f) s'" unfolding s'
    by (rule phase_runs_on [OF ph st(1) run]) (use R(4,6) st(2) in simp_all)
  then show ?thesis unfolding s'
    by (rule goto_ok [where ds = "[Ended (of_once f)]", OF ok st(1)]) (simp_all add: words_kept_def frame_ok_def)
next
  case (Turn t)
  then show ?thesis using moved turn_ok [OF ok] by (simp add: once_moved_def)
qed

lemma moves_ok: "onces_ok s \<Longrightarrow> once_moves mem ms s = Some s' \<Longrightarrow> onces_ok s'"
  by (induction mem ms s rule: once_moves.induct) (auto dest: moved_ok split: option.splits)

text \<open>A call that waits comes back by its own next two accesses once the word says done.\<close>

lemma waiter_leaves:
  assumes "oc_stack s t = f # rest" "of_pc f = OnceLoad p" "oc_word s (of_once f) = ONCE_DONE"
  shows "\<exists>s'. once_moves mem [Turn t, Turn t] s = Some s' \<and> oc_stack s' t = rest \<and> (t, WasBack (of_once f)) \<in> set (oc_log s')"
  using assms by (auto simp: once_moved_def once_turn_def once_came_back_def)

section \<open>A once runs once, across threads\<close>

text \<open>C32: Whatever threads call onces, in whatever order their accesses fall and from however deep in each other's
  functions: a once calls one function at most, that of the call that won it, in one thread at a time; no call of it
  comes back before that function has returned; the word says running exactly from the win to the store; and a call that
  waits naps between 50 microseconds and 1.6 milliseconds at a time, and comes back by its own next two accesses once the
  word it loads says done.
\<close>

theorem once_runs_once_across:
  assumes "once_moves mem ms onces_start = Some s"
  shows "begun once s \<le> 1 \<and> (ended once s \<longrightarrow> begun once s = 1) \<and>
    (\<forall>pre t post. oc_log s = pre @ (t, WasBack once) # post \<longrightarrow> Ended once \<in> snd ` set pre) \<and>
    (oc_word s once = ONCE_RUNNING \<longleftrightarrow> (\<exists>t. runners once s t \<noteq> [])) \<and>
    (\<forall>t. \<forall>f \<in> set (runners once s t). runners once s t = [f] \<and> (\<forall>u. u \<noteq> t \<longrightarrow> runners once s u = []) \<and>
       (of_pc f = OnceIn \<longrightarrow> (t, Began once (of_func f)) \<in> set (oc_log s) \<and> \<not> ended once s)) \<and>
    (\<forall>t f rest p. oc_stack s t = f # rest \<and> of_once f = once \<and> of_pc f = OnceLoad p \<longrightarrow> p \<in> {50000..1600000} \<and>
       (oc_word s once = ONCE_DONE \<longrightarrow> (\<exists>s'. once_moves mem [Turn t, Turn t] s = Some s' \<and> oc_stack s' t = rest)))"
proof -
  have ok: "onces_ok s" by (rule moves_ok [OF start_ok assms])
  then have ph: "once_phase once s" and backs: "backs_ok (oc_log s)" and st: "stack_ok s t" for t by (simp_all add: onces_ok_def)
  have "begun once s \<le> 1" "ended once s \<longrightarrow> begun once s = 1" using ph unfolding once_phase_def by auto
  moreover have "oc_word s once = ONCE_RUNNING \<longleftrightarrow> (\<exists>t. runners once s t \<noteq> [])"
    using ph unfolding once_phase_def by auto (metis list.distinct(1))+
  moreover have "\<forall>pre t post. oc_log s = pre @ (t, WasBack once) # post \<longrightarrow> Ended once \<in> snd ` set pre"
    using backs unfolding backs_ok_def by blast
  moreover have "\<forall>t. \<forall>f \<in> set (runners once s t). runners once s t = [f] \<and> (\<forall>u. u \<noteq> t \<longrightarrow> runners once s u = []) \<and>
       (of_pc f = OnceIn \<longrightarrow> (t, Began once (of_func f)) \<in> set (oc_log s) \<and> \<not> ended once s)"
  proof (intro allI ballI)
    fix t f assume f: "f \<in> set (runners once s t)"
    show "runners once s t = [f] \<and> (\<forall>u. u \<noteq> t \<longrightarrow> runners once s u = []) \<and>
       (of_pc f = OnceIn \<longrightarrow> (t, Began once (of_func f)) \<in> set (oc_log s) \<and> \<not> ended once s)"
      using phase_runs(2,5,6) [OF ph f] phase_runs(3) [OF ph f] by auto
  qed
  moreover have "\<forall>t f rest p. oc_stack s t = f # rest \<and> of_once f = once \<and> of_pc f = OnceLoad p \<longrightarrow> p \<in> {50000..1600000} \<and>
       (oc_word s once = ONCE_DONE \<longrightarrow> (\<exists>s'. once_moves mem [Turn t, Turn t] s = Some s' \<and> oc_stack s' t = rest))"
  proof (intro allI impI, elim conjE, intro conjI impI)
    fix t f rest p assume f: "oc_stack s t = f # rest" "of_once f = once" "of_pc f = OnceLoad p"
    show "p \<in> {50000..1600000}" using st [of t] f by (auto simp: stack_ok_def frame_ok_def once_naps_def)
    show "\<exists>s'. once_moves mem [Turn t, Turn t] s = Some s' \<and> oc_stack s' t = rest" if "oc_word s once = ONCE_DONE"
      using waiter_leaves [OF f(1,3)] that f(2) by blast
  qed
  ultimately show ?thesis by (intro conjI)
qed

text \<open>Thread 2 calls the once that thread 1 runs, naps, and finds it done.\<close>

lemma once_runs_once_across_witness:
  "\<exists>s. once_moves sample_mem [Calls 1 5 \<lparr>fn = 10, env = Some 7\<rparr>, Calls 2 5 \<lparr>fn = 20, env = None\<rparr>, Turn 1, Turn 2, Turn 2, Turn 1,
      Turn 2, Returns 1, Turn 1, Turn 1] onces_start = Some s \<and> begun 5 s = 1 \<and>
    (\<exists>s'. once_moves sample_mem [Turn 2, Turn 2] s = Some s' \<and> oc_stack s' 2 = [])"
proof -
  let ?ms = "[Calls 1 5 \<lparr>fn = 10, env = Some 7\<rparr>, Calls 2 5 \<lparr>fn = 20, env = None\<rparr>, Turn 1, Turn 2, Turn 2, Turn 1,
      Turn 2, Returns 1, Turn 1, Turn 1]"
  obtain s where s: "once_moves sample_mem ?ms onces_start = Some s" "begun 5 s \<ge> 1"
      "oc_stack s 2 = [\<lparr>of_once = 5, of_func = \<lparr>fn = 20, env = None\<rparr>, of_pc = OnceLoad 100000\<rparr>]" "oc_word s 5 = ONCE_DONE"
    by (simp add: once_moved_def once_turn_def runs_code_def once_called_def once_entered_def once_came_back_def onces_start_def
      BACKOFF_MIN_NS_def BACKOFF_MAX_NS_def begun_def)
  have "begun 5 s = 1" "\<exists>s'. once_moves sample_mem [Turn 2, Turn 2] s = Some s' \<and> oc_stack s' 2 = []"
    using once_runs_once_across [OF s(1), of 5] s(2-4)
    by (simp, fastforce simp del: once_moves.simps)
  then show ?thesis using s(1) by blast
qed

end
