(* ===== verification/WinErrors.thy ===== *)
theory WinErrors
  imports Shared Errors
begin

text \<open>
  The errors of Win32 and of Winsock (platform/windows.h) as sppc's. The values of the system's macros
  are the argument \<^verbatim>\<open>os\<close>; a C switch on them is the first entry whose macro has the value, EIO where
  there is none.
\<close>

definition win32_errors :: "(string \<times> int) list" where
  "win32_errors =
    [(''ERROR_SUCCESS'', 0), (''ERROR_FILE_NOT_FOUND'', SPPC_ENOENT),
     (''ERROR_PATH_NOT_FOUND'', SPPC_ENOENT), (''ERROR_INVALID_DRIVE'', SPPC_ENOENT),
     (''ERROR_NO_MORE_FILES'', SPPC_ENOENT), (''ERROR_BAD_NETPATH'', SPPC_ENOENT),
     (''ERROR_BAD_NET_NAME'', SPPC_ENOENT), (''ERROR_BAD_PATHNAME'', SPPC_ENOENT),
     (''ERROR_MOD_NOT_FOUND'', SPPC_ENOENT), (''ERROR_TOO_MANY_OPEN_FILES'', SPPC_EMFILE),
     (''ERROR_ACCESS_DENIED'', SPPC_EACCES), (''ERROR_CURRENT_DIRECTORY'', SPPC_EACCES),
     (''ERROR_NETWORK_ACCESS_DENIED'', SPPC_EACCES), (''ERROR_CANNOT_MAKE'', SPPC_EACCES),
     (''ERROR_FAIL_I24'', SPPC_EACCES), (''ERROR_DRIVE_LOCKED'', SPPC_EACCES),
     (''ERROR_SEEK_ON_DEVICE'', SPPC_EACCES), (''ERROR_NOT_LOCKED'', SPPC_EACCES),
     (''ERROR_LOCK_FAILED'', SPPC_EACCES), (''ERROR_DELETE_PENDING'', SPPC_EACCES),
     (''ERROR_PRIVILEGE_NOT_HELD'', SPPC_EPERM), (''ERROR_NOT_OWNER'', SPPC_EPERM),
     (''ERROR_INVALID_HANDLE'', SPPC_EBADF), (''ERROR_INVALID_TARGET_HANDLE'', SPPC_EBADF),
     (''ERROR_DIRECT_ACCESS_HANDLE'', SPPC_EBADF), (''ERROR_ARENA_TRASHED'', SPPC_ENOMEM),
     (''ERROR_NOT_ENOUGH_MEMORY'', SPPC_ENOMEM), (''ERROR_INVALID_BLOCK'', SPPC_ENOMEM),
     (''ERROR_NOT_ENOUGH_QUOTA'', SPPC_ENOMEM), (''ERROR_OUTOFMEMORY'', SPPC_ENOMEM),
     (''ERROR_COMMITMENT_LIMIT'', SPPC_ENOMEM), (''ERROR_WORKING_SET_QUOTA'', SPPC_ENOMEM),
     (''ERROR_BAD_ENVIRONMENT'', SPPC_E2BIG), (''ERROR_BAD_FORMAT'', SPPC_ENOEXEC),
     (''ERROR_BAD_EXE_FORMAT'', SPPC_ENOEXEC), (''ERROR_INVALID_EXE_SIGNATURE'', SPPC_ENOEXEC),
     (''ERROR_EXE_MACHINE_TYPE_MISMATCH'', SPPC_ENOEXEC), (''ERROR_INVALID_FUNCTION'', SPPC_EINVAL),
     (''ERROR_INVALID_ACCESS'', SPPC_EINVAL), (''ERROR_INVALID_DATA'', SPPC_EINVAL),
     (''ERROR_INVALID_PARAMETER'', SPPC_EINVAL), (''ERROR_NEGATIVE_SEEK'', SPPC_EINVAL),
     (''ERROR_INVALID_NAME'', SPPC_EINVAL), (''ERROR_NOT_A_REPARSE_POINT'', SPPC_EINVAL),
     (''ERROR_NOT_SAME_DEVICE'', SPPC_EXDEV), (''ERROR_WRITE_PROTECT'', SPPC_EROFS),
     (''ERROR_SHARING_VIOLATION'', SPPC_EBUSY), (''ERROR_LOCK_VIOLATION'', SPPC_EBUSY),
     (''ERROR_BUSY'', SPPC_EBUSY), (''ERROR_PIPE_BUSY'', SPPC_EBUSY),
     (''ERROR_HANDLE_DISK_FULL'', SPPC_ENOSPC), (''ERROR_DISK_FULL'', SPPC_ENOSPC),
     (''ERROR_DISK_QUOTA_EXCEEDED'', SPPC_EDQUOT), (''ERROR_FILE_TOO_LARGE'', SPPC_EFBIG),
     (''ERROR_FILE_EXISTS'', SPPC_EEXIST), (''ERROR_ALREADY_EXISTS'', SPPC_EEXIST),
     (''ERROR_BROKEN_PIPE'', SPPC_EPIPE), (''ERROR_NO_DATA'', SPPC_EPIPE),
     (''ERROR_DIR_NOT_EMPTY'', SPPC_ENOTEMPTY), (''ERROR_DIRECTORY'', SPPC_ENOTDIR),
     (''ERROR_DIRECTORY_NOT_SUPPORTED'', SPPC_EISDIR),
     (''ERROR_FILENAME_EXCED_RANGE'', SPPC_ENAMETOOLONG), (''ERROR_CANT_RESOLVE_FILENAME'', SPPC_ELOOP),
     (''ERROR_STOPPED_ON_SYMLINK'', SPPC_ELOOP), (''ERROR_TOO_MANY_LINKS'', SPPC_EMLINK),
     (''ERROR_INSUFFICIENT_BUFFER'', SPPC_ERANGE), (''ERROR_DEV_NOT_EXIST'', SPPC_ENODEV),
     (''ERROR_BAD_UNIT'', SPPC_ENODEV), (''ERROR_WAIT_NO_CHILDREN'', SPPC_ECHILD),
     (''ERROR_CHILD_NOT_COMPLETE'', SPPC_ECHILD), (''ERROR_NO_PROC_SLOTS'', SPPC_EAGAIN),
     (''ERROR_MAX_THRDS_REACHED'', SPPC_EAGAIN), (''ERROR_NESTING_NOT_ALLOWED'', SPPC_EAGAIN),
     (''ERROR_POSSIBLE_DEADLOCK'', SPPC_EDEADLK), (''ERROR_TIMEOUT'', SPPC_ETIMEDOUT),
     (''ERROR_SEM_TIMEOUT'', SPPC_ETIMEDOUT), (''WAIT_TIMEOUT'', SPPC_ETIMEDOUT),
     (''ERROR_OPERATION_ABORTED'', SPPC_ECANCELED), (''ERROR_NOT_SUPPORTED'', SPPC_EOPNOTSUPP),
     (''ERROR_CALL_NOT_IMPLEMENTED'', SPPC_ENOSYS)]"

definition wsa_errors :: "(string \<times> int) list" where
  "wsa_errors =
    [(''WSAEINTR'', SPPC_EINTR), (''WSAEBADF'', SPPC_EBADF), (''WSA_INVALID_HANDLE'', SPPC_EBADF),
     (''WSAEACCES'', SPPC_EACCES), (''WSAEFAULT'', SPPC_EFAULT), (''WSAEINVAL'', SPPC_EINVAL),
     (''WSA_INVALID_PARAMETER'', SPPC_EINVAL), (''WSAEMFILE'', SPPC_EMFILE),
     (''WSAEWOULDBLOCK'', SPPC_EAGAIN), (''WSAEINPROGRESS'', SPPC_EINPROGRESS),
     (''WSAEALREADY'', SPPC_EALREADY), (''WSAENOTSOCK'', SPPC_ENOTSOCK),
     (''WSAEDESTADDRREQ'', SPPC_EDESTADDRREQ), (''WSAEMSGSIZE'', SPPC_EMSGSIZE),
     (''WSAEPROTOTYPE'', SPPC_EPROTOTYPE), (''WSAENOPROTOOPT'', SPPC_ENOPROTOOPT),
     (''WSAEPROTONOSUPPORT'', SPPC_EPROTONOSUPPORT), (''WSAESOCKTNOSUPPORT'', SPPC_ESOCKTNOSUPPORT),
     (''WSAEOPNOTSUPP'', SPPC_EOPNOTSUPP), (''WSAEPFNOSUPPORT'', SPPC_EPFNOSUPPORT),
     (''WSAEAFNOSUPPORT'', SPPC_EAFNOSUPPORT), (''WSAEADDRINUSE'', SPPC_EADDRINUSE),
     (''WSAEADDRNOTAVAIL'', SPPC_EADDRNOTAVAIL), (''WSAENETDOWN'', SPPC_ENETDOWN),
     (''WSAENETUNREACH'', SPPC_ENETUNREACH), (''WSAENETRESET'', SPPC_ENETRESET),
     (''WSAECONNABORTED'', SPPC_ECONNABORTED), (''WSAECONNRESET'', SPPC_ECONNRESET),
     (''WSAEDISCON'', SPPC_ECONNRESET), (''WSAENOBUFS'', SPPC_ENOBUFS), (''WSAEISCONN'', SPPC_EISCONN),
     (''WSAENOTCONN'', SPPC_ENOTCONN), (''WSAESHUTDOWN'', SPPC_EPIPE),
     (''WSAETOOMANYREFS'', SPPC_ETOOMANYREFS), (''WSAETIMEDOUT'', SPPC_ETIMEDOUT),
     (''WSAECONNREFUSED'', SPPC_ECONNREFUSED), (''WSAELOOP'', SPPC_ELOOP),
     (''WSAENAMETOOLONG'', SPPC_ENAMETOOLONG), (''WSAEHOSTDOWN'', SPPC_EHOSTDOWN),
     (''WSAEHOSTUNREACH'', SPPC_EHOSTUNREACH), (''WSAENOTEMPTY'', SPPC_ENOTEMPTY),
     (''WSAEPROCLIM'', SPPC_EAGAIN), (''WSAEUSERS'', SPPC_EUSERS), (''WSAEDQUOT'', SPPC_EDQUOT),
     (''WSAESTALE'', SPPC_ESTALE), (''WSAEREMOTE'', SPPC_EREMOTE),
     (''WSA_NOT_ENOUGH_MEMORY'', SPPC_ENOMEM), (''WSA_OPERATION_ABORTED'', SPPC_ECANCELED),
     (''WSAECANCELLED'', SPPC_ECANCELED)]"

definition error_case :: "os_macros \<Rightarrow> (string \<times> int) list \<Rightarrow> int \<Rightarrow> int" where
  "error_case os table err =
     (case List.find (\<lambda>(n, v). os n = Some err) table of Some (n, v) \<Rightarrow> v | None \<Rightarrow> SPPC_EIO)"

definition sppc_errno_win32 :: "os_macros \<Rightarrow> int \<Rightarrow> int" where
  "sppc_errno_win32 os err = error_case os win32_errors err"

definition sppc_errno_wsa :: "os_macros \<Rightarrow> int \<Rightarrow> int" where
  "sppc_errno_wsa os err = (if err = 0 then 0 else error_case os wsa_errors err)"

text \<open>What the compiler checks of a switch: its macros exist and are all different.\<close>

definition switch_ok :: "os_macros \<Rightarrow> (string \<times> int) list \<Rightarrow> bool" where
  "switch_ok os table \<longleftrightarrow> distinct (map (os \<circ> fst) table) \<and> None \<notin> set (map (os \<circ> fst) table)"

lemma error_case_entry:
  assumes "switch_ok os table" "(n, v) \<in> set table" "os n = Some err"
  shows "error_case os table err = v"
  using assms
proof (induction table)
  case (Cons e table)
  obtain n1 v1 where e: "e = (n1, v1)" by force
  show ?case
  proof (cases "os n1 = Some err")
    case True
    then have "(n, v) = (n1, v1)"
      using Cons.prems e by (auto simp: switch_ok_def image_iff)
    then show ?thesis using True e by (simp add: error_case_def)
  next
    case False
    then have "(n, v) \<in> set table" using Cons.prems e by auto
    then have "error_case os table err = v" using Cons.IH Cons.prems by (simp add: switch_ok_def)
    then show ?thesis using False e by (simp add: error_case_def)
  qed
qed simp

lemma error_case_default:
  "Some err \<notin> set (map (os \<circ> fst) table) \<Longrightarrow> error_case os table err = SPPC_EIO"
  by (induction table) (auto simp: error_case_def)

lemma win32_values: "(n, v) \<in> set win32_errors \<Longrightarrow> n = ''ERROR_SUCCESS'' \<and> v = 0 \<or> 0 < v"
proof -
  have pos: "list_all (\<lambda>(n, v). 0 < v) (tl win32_errors)" by (simp add: win32_errors_def)
  have eq: "win32_errors = (''ERROR_SUCCESS'', 0) # tl win32_errors" by (simp add: win32_errors_def)
  have "set win32_errors = insert (''ERROR_SUCCESS'', 0) (set (tl win32_errors))"
    by (subst eq) simp
  then show "(n, v) \<in> set win32_errors \<Longrightarrow> n = ''ERROR_SUCCESS'' \<and> v = 0 \<or> 0 < v"
    using pos by (auto simp: list_all_iff)
qed

lemma wsa_values: "(n, v) \<in> set wsa_errors \<Longrightarrow> 0 < v"
proof -
  have "list_all (\<lambda>(n, v). 0 < v) wsa_errors" by (simp add: wsa_errors_def)
  then show "(n, v) \<in> set wsa_errors \<Longrightarrow> 0 < v" by (auto simp: list_all_iff)
qed

lemma win32_nonzero:
  assumes "os ''ERROR_SUCCESS'' = Some 0"
  shows "sppc_errno_win32 os err = 0 \<longleftrightarrow> err = 0"
proof -
  have "error_case os table err \<noteq> 0" if "\<forall>(n, v) \<in> set table. n = ''ERROR_SUCCESS'' \<and> v = 0 \<or> 0 < v" "err \<noteq> 0" for table
    using that assms by (induction table) (auto simp: error_case_def split: prod.splits)
  moreover have "win32_errors = (''ERROR_SUCCESS'', 0) # tl win32_errors" by (simp add: win32_errors_def)
  then obtain rest where rest: "win32_errors = (''ERROR_SUCCESS'', 0) # rest" by blast
  have "error_case os win32_errors 0 = 0" unfolding rest using assms by (simp add: error_case_def)
  ultimately show ?thesis using win32_values by (auto simp: sppc_errno_win32_def)
qed

lemma wsa_nonzero [simp]: "sppc_errno_wsa os err = 0 \<longleftrightarrow> err = 0"
proof -
  have "error_case os table err \<noteq> 0" if "\<forall>(n, v) \<in> set table. 0 < v" for table
    using that by (induction table) (auto simp: error_case_def split: prod.splits)
  then show ?thesis using wsa_values by (auto simp: sppc_errno_wsa_def)
qed

text \<open>A Win32 or Winsock error is never reported as success: each of the system's errors that has a case
  is that case's sppc error, every other one is SPPC_EIO, and only 0 is 0.
\<close>

theorem windows_errors_reported:
  assumes "switch_ok os win32_errors" "switch_ok os wsa_errors" "os ''ERROR_SUCCESS'' = Some 0"
  shows "(\<forall>(n, v) \<in> set win32_errors. sppc_errno_win32 os (the (os n)) = v) \<and>
    (\<forall>(n, v) \<in> set wsa_errors. the (os n) \<noteq> 0 \<longrightarrow> sppc_errno_wsa os (the (os n)) = v) \<and>
    (Some err \<notin> (os \<circ> fst) ` set (win32_errors @ wsa_errors) \<and> err \<noteq> 0 \<longrightarrow>
       sppc_errno_win32 os err = SPPC_EIO \<and> sppc_errno_wsa os err = SPPC_EIO) \<and>
    (sppc_errno_win32 os err = 0 \<longleftrightarrow> err = 0) \<and> (sppc_errno_wsa os err = 0 \<longleftrightarrow> err = 0)"
proof -
  have entry: "\<And>n v. (n, v) \<in> set win32_errors \<Longrightarrow> error_case os win32_errors (the (os n)) = v"
    "\<And>n v. (n, v) \<in> set wsa_errors \<Longrightarrow> error_case os wsa_errors (the (os n)) = v"
    using assms(1,2) by (auto simp: switch_ok_def image_iff intro!: error_case_entry [of os])
  have find: "error_case os table err = SPPC_EIO \<or> (\<exists>n v. (n, v) \<in> set table \<and> os n = Some err \<and> error_case os table err = v)"
    for table by (induction table) (auto simp: error_case_def split: prod.splits)
  have zero: "(''ERROR_SUCCESS'', 0) \<in> set win32_errors" by (simp add: win32_errors_def)
  have win: "sppc_errno_win32 os err = 0 \<longleftrightarrow> err = 0"
    using find [of win32_errors] entry(1) [OF zero] assms(3) win32_values
    by (fastforce simp: sppc_errno_win32_def)
  have wsa: "sppc_errno_wsa os err = 0 \<longleftrightarrow> err = 0"
    using find [of wsa_errors] by (auto simp: sppc_errno_wsa_def dest!: wsa_values)
  show ?thesis
    using entry win wsa error_case_default [of err os win32_errors] error_case_default [of err os wsa_errors]
    by (auto simp: sppc_errno_win32_def sppc_errno_wsa_def image_Un)
qed

text \<open>A numbering of the system's macros, by their names.\<close>

definition win_macros :: os_macros where
  "win_macros n = Some (if n = ''ERROR_SUCCESS'' then 0 else if n = ''ERROR_FILE_NOT_FOUND'' then 2 else int (name_code n))"

lemma win_macros_switch: "switch_ok win_macros win32_errors" "switch_ok win_macros wsa_errors"
  by (simp_all add: switch_ok_def win32_errors_def wsa_errors_def win_macros_def name_code_def)

theorem windows_errors_reported_witness:
  "sppc_errno_win32 win_macros 2 = SPPC_ENOENT \<and> sppc_errno_win32 win_macros 2 \<noteq> 0"
proof -
  have "(''ERROR_FILE_NOT_FOUND'', SPPC_ENOENT) \<in> set win32_errors" by (simp add: win32_errors_def)
  moreover have "the (win_macros ''ERROR_FILE_NOT_FOUND'') = 2" by (simp add: win_macros_def)
  ultimately show ?thesis
    using windows_errors_reported [OF win_macros_switch, of 2] by (fastforce simp: win_macros_def)
qed

end
