(* ===== verification/WinClock.thy ===== *)
theory WinClock
  imports Locks
begin

text \<open>
  Clocks, sleeps and timed waits on Windows (platform/windows.h, PTHREADS: CLOCKS and WAITING). What
  the system's own calls answer is an argument: the readings a clock gives one after the other, and
  which of the timer calls succeed. The calls return the C library's error numbers, here by name. A
  C int, time_t or LONGLONG is an integer; sums that may leave its range are guarded.
\<close>

datatype crt_ret = OK | EPERM | EAGAIN | ENOMEM | EBUSY | EINVAL | EDEADLK | ETIMEDOUT

section \<open>The four clocks\<close>

definition CLOCK_REALTIME :: int where "CLOCK_REALTIME = 0"
definition CLOCK_MONOTONIC :: int where "CLOCK_MONOTONIC = 1"
definition CLOCK_PROCESS_CPUTIME_ID :: int where "CLOCK_PROCESS_CPUTIME_ID = 2"
definition CLOCK_THREAD_CPUTIME_ID :: int where "CLOCK_THREAD_CPUTIME_ID = 3"
definition TIMER_ABSTIME :: int where "TIMER_ABSTIME = 1"

lemmas win_clock_ids = CLOCK_REALTIME_def CLOCK_MONOTONIC_def CLOCK_PROCESS_CPUTIME_ID_def
  CLOCK_THREAD_CPUTIME_ID_def

definition WIN_EPOCH_TICKS :: u64 where "WIN_EPOCH_TICKS = 116444736000000000"

text \<open>A FILETIME: its high and its low half.\<close>

type_synonym filetime = "u32 \<times> u32"

definition sppc_win_filetime :: "filetime \<Rightarrow> u64" where
  "sppc_win_filetime ft = (push_bit 32 (ucast (fst ft)) OR ucast (snd ft))"

text \<open>What the system's clocks read: kernel and user time where asking for them succeeds.\<close>

record win_clocks =
  wc_system :: filetime
  wc_process :: "(filetime \<times> filetime) option"
  wc_thread :: "(filetime \<times> filetime) option"
  wc_freq :: int
  wc_count :: int

definition ticks_timespec :: "u64 \<Rightarrow> timespec" where
  "ticks_timespec ticks =
     \<lparr>tv_sec = uint (ticks div 10000000), tv_nsec = uint (ticks mod 10000000 * 100)\<rparr>"

definition cpu_timespec :: "(filetime \<times> filetime) option \<Rightarrow> bool \<times> timespec" where
  "cpu_timespec spent =
     (case spent of
        None \<Rightarrow> (False, \<lparr>tv_sec = 0, tv_nsec = 0\<rparr>)
      | Some (krnl, user) \<Rightarrow> (True, ticks_timespec (sppc_win_filetime krnl + sppc_win_filetime user)))"

text \<open>Whether the call succeeds (errno is EINVAL where it does not), and the time.\<close>

definition sppc_clock_gettime_win :: "win_clocks \<Rightarrow> int \<Rightarrow> bool \<times> timespec" where
  "sppc_clock_gettime_win c clock =
     (if clock = CLOCK_REALTIME then (True, ticks_timespec (sppc_win_filetime (wc_system c) - WIN_EPOCH_TICKS))
      else if clock = CLOCK_PROCESS_CPUTIME_ID then cpu_timespec (wc_process c)
      else if clock = CLOCK_THREAD_CPUTIME_ID then cpu_timespec (wc_thread c)
      else if clock = CLOCK_MONOTONIC then
        (True, \<lparr>tv_sec = wc_count c div wc_freq c, tv_nsec = wc_count c mod wc_freq c * 1000000000 div wc_freq c\<rparr>)
      else (False, \<lparr>tv_sec = 0, tv_nsec = 0\<rparr>))"

section \<open>Sleeping\<close>

datatype sleep_call =
    HighTimer | PlainTimer
  | SetTimer int  \<comment> \<open>due, negative: relative to now\<close>
  | SleepMs u32
  | WaitTimer
  | CloseTimer

text \<open>The calls made, by whether each timer can be made and the timer set.\<close>

definition sppc_win_sleep_ticks :: "bool \<Rightarrow> bool \<Rightarrow> bool \<Rightarrow> int \<Rightarrow> sleep_call list" where
  "sppc_win_sleep_ticks high plain can_set ticks =
     [HighTimer] @ (if high then [] else [PlainTimer]) @
     (let timer = high \<or> plain in
      (if timer then [SetTimer (- ticks)] else []) @
      (if \<not> timer \<or> \<not> can_set then [SleepMs (word_of_int ((ticks + 9999) div 10000))] else [WaitTimer]) @
      (if timer then [CloseTimer] else []))"

text \<open>The loop of a sleep: the ticks of each nap, by what the clock reads; None while it has not ended.\<close>

fun nanosleep_loop :: "timespec \<Rightarrow> timespec list \<Rightarrow> int list option" where
  "nanosleep_loop deadline [] = None"
| "nanosleep_loop deadline (now # later) =
     (let sec = tv_sec deadline - tv_sec now in
      if sec < 0 then Some []
      else if sec \<ge> 86400 then map_option (Cons (86400 * 10000000)) (nanosleep_loop deadline later)
      else
        let ns = sec * 1000000000 + (tv_nsec deadline - tv_nsec now) in
        if ns \<le> 0 then Some []
        else map_option (Cons ((ns + 99) div 100)) (nanosleep_loop deadline later))"

definition timespec_bad :: "timespec \<Rightarrow> bool" where
  "timespec_bad t \<longleftrightarrow> tv_nsec t < 0 \<or> tv_nsec t \<ge> 1000000000 \<or> tv_sec t < 0"

text \<open>
  \<^verbatim>\<open>start\<close> is what the monotonic clock reads first, for a relative sleep, and \<^verbatim>\<open>nows\<close> what the clock slept on
  reads after. None: not ended, or the seconds of a relative sleep overflow.
\<close>

definition sppc_clock_nanosleep_win ::
  "int \<Rightarrow> int \<Rightarrow> timespec \<Rightarrow> timespec \<Rightarrow> timespec list \<Rightarrow> (crt_ret \<times> int list) option" where
  "sppc_clock_nanosleep_win clock flags request start nows =
     (if clock \<noteq> CLOCK_REALTIME \<and> clock \<noteq> CLOCK_MONOTONIC then Some (EINVAL, [])
      else if timespec_bad request then Some (EINVAL, [])
      else do {
        deadline \<leftarrow> (if flags AND TIMER_ABSTIME = 0 then gt_deadline start request else Some request);
        naps \<leftarrow> nanosleep_loop deadline nows;
        Some (OK, naps)
      })"

text \<open>-1 with the error in errno, or 0.\<close>

definition sppc_nanosleep_win :: "timespec \<Rightarrow> timespec \<Rightarrow> timespec list \<Rightarrow> (int \<times> crt_ret \<times> int list) option" where
  "sppc_nanosleep_win request start nows = do {
     (err, naps) \<leftarrow> sppc_clock_nanosleep_win CLOCK_MONOTONIC 0 request start nows;
     Some (if err = OK then 0 else - 1, err, naps)
   }"

section \<open>Waiting\<close>

definition sppc_win_check_deadline :: "int \<Rightarrow> timespec option \<Rightarrow> crt_ret" where
  "sppc_win_check_deadline clock deadline =
     (if clock \<noteq> CLOCK_REALTIME \<and> clock \<noteq> CLOCK_MONOTONIC then EINVAL
      else case deadline of
             None \<Rightarrow> OK
           | Some d \<Rightarrow> if tv_nsec d < 0 \<or> tv_nsec d \<ge> 1000000000 then EINVAL else OK)"

definition WIN_INFINITE :: u32 where "WIN_INFINITE = 0xFFFFFFFF"

definition sppc_win_wait_ms :: "timespec \<Rightarrow> timespec option \<Rightarrow> u32" where
  "sppc_win_wait_ms now deadline =
     (case deadline of
        None \<Rightarrow> WIN_INFINITE
      | Some d \<Rightarrow>
          let sec = tv_sec d - tv_sec now in
          if sec < 0 then 0
          else if sec \<ge> uint WIN_INFINITE div 1000 then WIN_INFINITE - 1
          else
            let ns = sec * 1000000000 + (tv_nsec d - tv_nsec now)
            in if ns \<le> 0 then 0 else word_of_int ((ns + 999999) div 1000000))"

text \<open>The milliseconds of the sleep on the address, or none once the deadline has passed.\<close>

definition sppc_win_wait :: "timespec \<Rightarrow> timespec option \<Rightarrow> crt_ret \<times> u32 option" where
  "sppc_win_wait now deadline =
     (let ms = sppc_win_wait_ms now deadline in if ms = 0 then (ETIMEDOUT, None) else (OK, Some ms))"

section \<open>Facts\<close>

definition normal :: "timespec \<Rightarrow> bool" where
  "normal t \<longleftrightarrow> 0 \<le> tv_sec t \<and> 0 \<le> tv_nsec t \<and> tv_nsec t < 1000000000"


lemma nanosleep_loop_step:
  assumes "normal d" "normal now"
  shows "nanosleep_loop d (now # later) =
    (if nanos now \<ge> nanos d then Some []
     else map_option (Cons (if tv_sec d - tv_sec now \<ge> 86400 then 864000000000
                            else (nanos d - nanos now + 99) div 100)) (nanosleep_loop d later))"
  using assms by (auto simp: nanosleep_loop.simps normal_def nanos_def Let_def algebra_simps)

declare nanosleep_loop.simps(2) [simp del]

lemma nanosleep_loop_late:
  assumes "normal d" "\<forall>t \<in> set nows. normal t" "nanosleep_loop d nows = Some naps"
  shows "length naps < length nows \<and> nanos (nows ! length naps) \<ge> nanos d \<and>
    (\<forall>i < length naps. nanos (nows ! i) < nanos d \<and> 1 \<le> naps ! i \<and> naps ! i \<le> 864000000000)"
  using assms(2,3)
proof (induction nows arbitrary: naps)
  case (Cons now later)
  have ok: "normal now" using Cons.prems(1) by simp
  note step = nanosleep_loop_step [OF assms(1) ok, of later]
  show ?case
  proof (cases "nanos now \<ge> nanos d")
    case True
    then show ?thesis using Cons.prems(2) step by simp
  next
    case False
    then obtain rest where rest: "nanosleep_loop d later = Some rest"
        "naps = (if tv_sec d - tv_sec now \<ge> 86400 then 864000000000 else (nanos d - nanos now + 99) div 100) # rest"
      using Cons.prems(2) step by auto
    have first: "1 \<le> hd naps" "hd naps \<le> 864000000000"
      using rest(2) False assms(1) ok by (auto simp: normal_def nanos_def)
    have IH: "length rest < length later \<and> nanos (later ! length rest) \<ge> nanos d \<and>
        (\<forall>i < length rest. nanos (later ! i) < nanos d \<and> 1 \<le> rest ! i \<and> rest ! i \<le> 864000000000)"
      using Cons.IH Cons.prems(1) rest(1) by simp
    show ?thesis
      using IH first False rest(2) by (auto simp: nth_Cons split: nat.split)
  qed
qed simp

lemma nanosleep_loop_more:
  assumes "normal d" "\<forall>t \<in> set nows. normal t" "\<exists>t \<in> set nows. nanos t \<ge> nanos d"
  shows "nanosleep_loop d nows \<noteq> None"
  using assms(2,3)
proof (induction nows)
  case (Cons now later)
  then show ?case using nanosleep_loop_step [OF assms(1), of now later] by auto
qed simp

text \<open>C35: A sleep never ends early and always ends: its error is 0 only once the clock has read the deadline
  or later, every nap before that was of at least 100 ns and at most a day, and a clock that moves on by
  at least 100 ns in every nap ends it.
\<close>

theorem sleep_exact:
  assumes clock: "clock = CLOCK_REALTIME \<or> clock = CLOCK_MONOTONIC"
    and request: "\<not> timespec_bad request" "tv_sec request + tv_sec start < INT64_MAX" "timespec_ok start"
    and reads: "\<And>i. normal (reads i)" "\<And>i. nanos (reads i) + 100 \<le> nanos (reads (Suc i))"
    and deadline: "deadline = nanos request + (if flags AND TIMER_ABSTIME = 0 then nanos start else 0)"
  shows "\<exists>n naps. sppc_clock_nanosleep_win clock flags request start (map reads [0..<n]) = Some (OK, naps) \<and>
    deadline \<le> nanos (reads (length naps)) \<and>
    (\<forall>i < length naps. nanos (reads i) < deadline \<and> 1 \<le> naps ! i \<and> naps ! i \<le> 864000000000)"
proof -
  define d where "d = (if flags AND TIMER_ABSTIME = 0 then the (gt_deadline start request) else request)"
  have d: "(if flags AND TIMER_ABSTIME = 0 then gt_deadline start request else Some request) = Some d"
    "normal d" "nanos d = deadline"
    using request deadline by (auto simp: d_def gt_deadline_def timespec_bad_def timespec_ok_def normal_def nanos_def Let_def)
  have grows: "nanos (reads 0) + 100 * int n \<le> nanos (reads n)" for n
  proof (induction n)
    case (Suc n)
    then show ?case using reads(2) [of n] by simp
  qed simp
  have nonneg: "0 \<le> nanos (reads 0)" using reads(1) [of 0] by (simp add: nanos_def normal_def)
  define n where "n = Suc (nat deadline)"
  have "deadline \<le> nanos (reads (nat deadline))"
    using grows [of "nat deadline"] nonneg by linarith
  then have "\<exists>t \<in> set (map reads [0..<n]). nanos t \<ge> nanos d"
    using d(3) by (force simp: n_def)
  then obtain naps where naps: "nanosleep_loop d (map reads [0..<n]) = Some naps"
    using nanosleep_loop_more [OF d(2), of "map reads [0..<n]"] reads(1) by auto
  note late = nanosleep_loop_late [OF d(2) _ naps]
  have ok: "\<forall>t \<in> set (map reads [0..<n]). normal t" using reads(1) by simp
  have bounds: "length naps < n" using late ok by simp
  have "sppc_clock_nanosleep_win clock flags request start (map reads [0..<n]) = Some (OK, naps)"
    using clock request(1) d(1) naps by (auto simp: sppc_clock_nanosleep_win_def)
  moreover have "deadline \<le> nanos (reads (length naps)) \<and>
    (\<forall>i < length naps. nanos (reads i) < deadline \<and> 1 \<le> naps ! i \<and> naps ! i \<le> 864000000000)"
    using late ok d(3) bounds by auto
  ultimately show ?thesis by blast
qed

text \<open>A monotonic clock that starts at 5 s and moves by half a second each time it is read.\<close>

definition half_seconds :: "nat \<Rightarrow> timespec" where
  "half_seconds i = \<lparr>tv_sec = 5 + int (i div 2), tv_nsec = (if even i then 0 else 500000000)\<rparr>"

theorem sleep_exact_witness:
  "\<exists>n naps. sppc_clock_nanosleep_win CLOCK_MONOTONIC 0 \<lparr>tv_sec = 1, tv_nsec = 0\<rparr> \<lparr>tv_sec = 5, tv_nsec = 0\<rparr>
      (map half_seconds [0..<n]) = Some (OK, naps) \<and> 6000000000 \<le> nanos (half_seconds (length naps))"
proof -
  have even: "even i \<Longrightarrow> Suc i div 2 = i div 2" "odd i \<Longrightarrow> Suc i div 2 = Suc (i div 2)" for i :: nat
    by auto
  have reads: "nanos (half_seconds i) + 100 \<le> nanos (half_seconds (Suc i))" "normal (half_seconds i)" for i
    by (cases "even i"; simp add: even half_seconds_def nanos_def normal_def)+
  show ?thesis
    using sleep_exact [of CLOCK_MONOTONIC "\<lparr>tv_sec = 1, tv_nsec = 0\<rparr>" "\<lparr>tv_sec = 5, tv_nsec = 0\<rparr>" half_seconds
        6000000000 0] reads
    by (auto simp: timespec_bad_def INT64_MAX_def timespec_ok_def nanos_def)
qed

text \<open>The milliseconds given to a wait on an address are never too few: none means for ever exactly when
  there is no deadline, 0 exactly when the deadline has passed, and otherwise the wait, unless it is the
  longest there is, lasts until the deadline and less than a millisecond more.
\<close>

theorem wait_ms_covers:
  assumes "timespec_ok now"
  shows "sppc_win_wait_ms now None = WIN_INFINITE \<and>
    (\<forall>d. timespec_ok d \<longrightarrow>
       (let ms = sppc_win_wait_ms now (Some d) in
        ms \<noteq> WIN_INFINITE \<and> (ms = 0 \<longleftrightarrow> nanos d \<le> nanos now) \<and>
        (0 < ms \<and> ms < WIN_INFINITE - 1 \<longrightarrow>
           nanos d \<le> nanos now + uint ms * 1000000 \<and> nanos now + uint ms * 1000000 < nanos d + 1000000)))"
proof (intro conjI allI impI)
  show "sppc_win_wait_ms now None = WIN_INFINITE" by (simp add: sppc_win_wait_ms_def)
next
  fix d assume d: "timespec_ok d"
  define sec where "sec = tv_sec d - tv_sec now"
  define ns where "ns = sec * 1000000000 + (tv_nsec d - tv_nsec now)"
  have ns: "ns = nanos d - nanos now" by (simp add: ns_def sec_def nanos_def algebra_simps)
  have part: "- 1000000000 < tv_nsec d - tv_nsec now" "tv_nsec d - tv_nsec now < 1000000000"
    using d assms by (auto simp: timespec_ok_def)
  consider "sec < 0" | "sec \<ge> 4294967" | "0 \<le> sec" "sec < 4294967" "ns \<le> 0" | "0 \<le> sec" "sec < 4294967" "0 < ns"
    by linarith
  then show "let ms = sppc_win_wait_ms now (Some d) in
        ms \<noteq> WIN_INFINITE \<and> (ms = 0 \<longleftrightarrow> nanos d \<le> nanos now) \<and>
        (0 < ms \<and> ms < WIN_INFINITE - 1 \<longrightarrow>
           nanos d \<le> nanos now + uint ms * 1000000 \<and> nanos now + uint ms * 1000000 < nanos d + 1000000)"
  proof cases
    case 1
    then have "sppc_win_wait_ms now (Some d) = 0" by (simp add: sppc_win_wait_ms_def sec_def)
    moreover have "nanos d \<le> nanos now" using 1 part ns ns_def by linarith
    ultimately show ?thesis by (simp add: WIN_INFINITE_def)
  next
    case 2
    then have "sppc_win_wait_ms now (Some d) = WIN_INFINITE - 1"
      by (simp add: sppc_win_wait_ms_def sec_def WIN_INFINITE_def)
    moreover have "nanos now < nanos d" using 2 part ns by (simp add: ns_def)
    ultimately show ?thesis by (simp add: WIN_INFINITE_def)
  next
    case 3
    then have "sppc_win_wait_ms now (Some d) = 0"
      by (simp add: sppc_win_wait_ms_def sec_def ns_def WIN_INFINITE_def)
    then show ?thesis using 3 ns by (simp add: WIN_INFINITE_def)
  next
    case 4
    define k where "k = (ns + 999999) div 1000000"
    have k: "1 \<le> k" "k \<le> 4294967001" using 4 part by (auto simp: k_def ns_def)
    have ms: "sppc_win_wait_ms now (Some d) = word_of_int k"
      using 4 by (simp add: sppc_win_wait_ms_def sec_def ns_def k_def WIN_INFINITE_def Let_def)
    have u: "uint (word_of_int k :: u32) = k" using k by (simp add: uint_word_of_int)
    have "ns \<le> k * 1000000" "k * 1000000 < ns + 1000000" by (auto simp: k_def)
    moreover have "(word_of_int k :: u32) \<noteq> 0" "(word_of_int k :: u32) \<noteq> WIN_INFINITE"
      using k u by (auto simp: WIN_INFINITE_def word_uint_eq_iff)
    ultimately show ?thesis using ms u ns 4 by simp
  qed
qed

theorem wait_ms_covers_witness:
  "sppc_win_wait_ms \<lparr>tv_sec = 5, tv_nsec = 0\<rparr> None = WIN_INFINITE \<and>
   sppc_win_wait_ms \<lparr>tv_sec = 5, tv_nsec = 0\<rparr> (Some \<lparr>tv_sec = 6, tv_nsec = 1\<rparr>) = 1001 \<and>
   (sppc_win_wait_ms \<lparr>tv_sec = 5, tv_nsec = 0\<rparr> (Some \<lparr>tv_sec = 4, tv_nsec = 1\<rparr>) = 0)"
  using wait_ms_covers [of "\<lparr>tv_sec = 5, tv_nsec = 0\<rparr>"]
  by (simp add: timespec_ok_def INT64_MAX_def sppc_win_wait_ms_def WIN_INFINITE_def)

end
