(* ===== verification/WinThreads.thy ===== *)
theory WinThreads
  imports WinClock
begin

text \<open>
  Threads and their keys on Windows (platform/windows.h, PTHREADS: THREADS and ONCE): the objects threads
  are counted by, the values threads keep under keys, and the destructors run as a thread ends. Objects
  are addresses, \<^verbatim>\<open>me\<close> is the calling system thread, whose own object is thread-local; what the system
  and the heap answer are arguments. An access to an object that was freed is None. A \<^verbatim>\<open>LONG\<close> counted by
  the interlocked calls has 32 bits and wraps around.
\<close>

definition PTHREAD_KEYS_MAX :: nat where "PTHREAD_KEYS_MAX = 128"
definition PTHREAD_DESTRUCTOR_ITERATIONS :: nat where "PTHREAD_DESTRUCTOR_ITERATIONS = 4"
definition PTHREAD_STACK_MIN :: u64 where "PTHREAD_STACK_MIN = 16384"
definition PTHREAD_CREATE_JOINABLE :: int where "PTHREAD_CREATE_JOINABLE = 0"
definition PTHREAD_CREATE_DETACHED :: int where "PTHREAD_CREATE_DETACHED = 1"

record win_attr =
  at_detachstate :: int
  at_stacksize :: u64

record win_key =
  wk_seq :: u32
  wk_destructor :: "nat option"

record win_slot =
  sl_value :: "nat option"
  sl_seq :: u32

record win_thread =
  wt_handle :: "nat option"
  wt_start :: nat
  wt_arg :: nat
  wt_retval :: nat
  wt_refs :: u32
  wt_joinable :: bool
  wt_slots :: "nat \<Rightarrow> win_slot"

datatype win_event =
    Destroy nat nat  \<comment> \<open>a key's destructor, on the value\<close>
  | Started nat nat
  | Resumed nat
  | Terminated nat
  | HandleClosed nat
  | ThreadFreed nat

record win_threads =
  ws_keys :: "nat \<Rightarrow> win_key"
  ws_threads :: "nat \<Rightarrow> win_thread option"
  ws_self :: "nat \<Rightarrow> nat option"
  ws_log :: "win_event list"

definition zero_thread :: win_thread where
  "zero_thread = \<lparr>wt_handle = None, wt_start = 0, wt_arg = 0, wt_retval = 0, wt_refs = 0, wt_joinable = False,
     wt_slots = (\<lambda>_. \<lparr>sl_value = None, sl_seq = 0\<rparr>)\<rparr>"

definition put_thread :: "nat \<Rightarrow> win_thread \<Rightarrow> win_threads \<Rightarrow> win_threads" where
  "put_thread t x s = s\<lparr>ws_threads := (ws_threads s)(t \<mapsto> x)\<rparr>"

definition free_thread :: "nat \<Rightarrow> win_event list \<Rightarrow> win_threads \<Rightarrow> win_threads" where
  "free_thread t events s =
     s\<lparr>ws_threads := (ws_threads s)(t := None), ws_log := ws_log s @ events @ [ThreadFreed t]\<rparr>"

section \<open>A thread's end\<close>

definition sppc_win_release :: "nat \<Rightarrow> win_threads \<Rightarrow> win_threads option" where
  "sppc_win_release t s = do {
     x \<leftarrow> ws_threads s t;
     let refs = wt_refs x - 1;
     if refs \<noteq> 0 then Some (put_thread t (x\<lparr>wt_refs := refs\<rparr>) s)
     else Some (free_thread t (case wt_handle x of None \<Rightarrow> [] | Some h \<Rightarrow> [HandleClosed h]) s)
   }"

text \<open>\<^verbatim>\<open>run\<close> is what a destructor does to the state.\<close>

type_synonym run_destructor = "nat \<Rightarrow> nat \<Rightarrow> win_threads \<Rightarrow> win_threads"

definition destroy_key :: "run_destructor \<Rightarrow> nat \<Rightarrow> nat \<Rightarrow> win_threads \<Rightarrow> (bool \<times> win_threads) option" where
  "destroy_key run t key s = do {
     x \<leftarrow> ws_threads s t;
     (case sl_value (wt_slots x key) of
        None \<Rightarrow> Some (False, s)
      | Some v \<Rightarrow>
          let slot = wt_slots x key;
              s1 = put_thread t (x\<lparr>wt_slots := (wt_slots x)(key := slot\<lparr>sl_value := None\<rparr>)\<rparr>) s
          in (case wk_destructor (ws_keys s key) of
                Some d \<Rightarrow>
                  if sl_seq slot = wk_seq (ws_keys s key)
                  then Some (True, run d v (s1\<lparr>ws_log := ws_log s1 @ [Destroy d v]\<rparr>))
                  else Some (False, s1)
              | None \<Rightarrow> Some (False, s1)))
   }"

fun destroy_round :: "run_destructor \<Rightarrow> nat \<Rightarrow> nat list \<Rightarrow> bool \<Rightarrow> win_threads \<Rightarrow> (bool \<times> win_threads) option" where
  "destroy_round run t [] hit s = Some (hit, s)"
| "destroy_round run t (key # keys) hit s = do {
     (this, s1) \<leftarrow> destroy_key run t key s;
     destroy_round run t keys (hit \<or> this) s1
   }"

fun destroy_rounds :: "run_destructor \<Rightarrow> nat \<Rightarrow> nat \<Rightarrow> win_threads \<Rightarrow> win_threads option" where
  "destroy_rounds run t 0 s = Some s"
| "destroy_rounds run t (Suc rounds) s = do {
     (hit, s1) \<leftarrow> destroy_round run t [0..<PTHREAD_KEYS_MAX] False s;
     if \<not> hit then Some s1 else destroy_rounds run t rounds s1
   }"

definition sppc_win_run_destructors :: "run_destructor \<Rightarrow> nat \<Rightarrow> win_threads \<Rightarrow> win_threads option" where
  "sppc_win_run_destructors run t s = destroy_rounds run t PTHREAD_DESTRUCTOR_ITERATIONS s"

definition sppc_win_finish :: "run_destructor \<Rightarrow> nat \<Rightarrow> nat \<Rightarrow> win_threads \<Rightarrow> win_threads option" where
  "sppc_win_finish run me t s = do {
     s1 \<leftarrow> sppc_win_run_destructors run t s;
     sppc_win_release t (s1\<lparr>ws_self := (ws_self s1)(me := None)\<rparr>)
   }"

text \<open>\<^verbatim>\<open>alloc\<close> is calloc's answer.\<close>

definition sppc_win_current :: "nat option \<Rightarrow> nat \<Rightarrow> win_threads \<Rightarrow> nat option \<times> win_threads" where
  "sppc_win_current alloc me s =
     (case ws_self s me of
        Some t \<Rightarrow> (Some t, s)
      | None \<Rightarrow>
          (case alloc of
             None \<Rightarrow> (None, s)
           | Some t \<Rightarrow> (Some t, (put_thread t (zero_thread\<lparr>wt_refs := 1\<rparr>) s)\<lparr>ws_self := (ws_self s)(me \<mapsto> t)\<rparr>)))"

text \<open>\<^verbatim>\<open>detach\<close>: the reason is a thread's exit (DLL_THREAD_DETACH).\<close>

definition sppc_win_tls_callback :: "run_destructor \<Rightarrow> bool \<Rightarrow> nat \<Rightarrow> win_threads \<Rightarrow> win_threads option" where
  "sppc_win_tls_callback run detach me s =
     (case ws_self s me of Some t \<Rightarrow> if detach then sppc_win_finish run me t s else Some s | None \<Rightarrow> Some s)"

text \<open>A started thread, whose function \<^verbatim>\<open>body\<close> returns a value and a state.\<close>

definition sppc_win_thread_start ::
  "run_destructor \<Rightarrow> (win_threads \<Rightarrow> nat \<times> win_threads) \<Rightarrow> nat \<Rightarrow> nat \<Rightarrow> win_threads \<Rightarrow> win_threads option" where
  "sppc_win_thread_start run body me t s = do {
     x \<leftarrow> ws_threads s t;
     let (v, s1) = body (s\<lparr>ws_self := (ws_self s)(me \<mapsto> t),
                           ws_log := ws_log s @ [Started (wt_start x) (wt_arg x)]\<rparr>);
     x1 \<leftarrow> ws_threads s1 t;
     sppc_win_finish run me t (put_thread t (x1\<lparr>wt_retval := v\<rparr>) s1)
   }"

section \<open>Threads\<close>

definition sppc_pthread_attr_init :: win_attr where
  "sppc_pthread_attr_init = \<lparr>at_detachstate = PTHREAD_CREATE_JOINABLE, at_stacksize = 0\<rparr>"

definition sppc_pthread_attr_setdetachstate :: "win_attr \<Rightarrow> int \<Rightarrow> crt_ret \<times> win_attr" where
  "sppc_pthread_attr_setdetachstate attr state =
     (if state \<noteq> PTHREAD_CREATE_JOINABLE \<and> state \<noteq> PTHREAD_CREATE_DETACHED then (EINVAL, attr)
      else (OK, attr\<lparr>at_detachstate := state\<rparr>))"

definition sppc_pthread_attr_setstacksize :: "win_attr \<Rightarrow> u64 \<Rightarrow> crt_ret \<times> win_attr" where
  "sppc_pthread_attr_setstacksize attr sz =
     (if sz < PTHREAD_STACK_MIN \<or> sz > 0xFFFFFFFF then (EINVAL, attr) else (OK, attr\<lparr>at_stacksize := sz\<rparr>))"

text \<open>The thread made, by whether its memory, its system thread and its resumption were had.\<close>

definition sppc_pthread_create_win ::
  "nat option \<Rightarrow> nat option \<Rightarrow> bool \<Rightarrow> win_attr option \<Rightarrow> nat \<Rightarrow> nat \<Rightarrow> win_threads \<Rightarrow>
     (crt_ret \<times> nat option) \<times> win_threads" where
  "sppc_pthread_create_win alloc begun resumed attr start arg s =
     (case alloc of
        None \<Rightarrow> ((EAGAIN, None), s)
      | Some t \<Rightarrow>
          let detached = (case attr of None \<Rightarrow> False | Some a \<Rightarrow> at_detachstate a = PTHREAD_CREATE_DETACHED);
              x = zero_thread\<lparr>wt_start := start, wt_arg := arg, wt_refs := (if detached then 1 else 2),
                              wt_joinable := \<not> detached\<rparr>
          in (case begun of
                None \<Rightarrow> ((EAGAIN, None), free_thread t [] s)
              | Some h \<Rightarrow>
                  if \<not> resumed then ((EAGAIN, None), free_thread t [Terminated h, HandleClosed h] s)
                  else ((OK, Some t), (put_thread t (x\<lparr>wt_handle := Some h\<rparr>) s)\<lparr>ws_log := ws_log s @ [Resumed t]\<rparr>)))"

text \<open>\<^verbatim>\<open>wait\<close> is what the others do until the thread's handle is signalled.\<close>

definition sppc_pthread_join_win ::
  "(win_threads \<Rightarrow> win_threads) \<Rightarrow> nat \<Rightarrow> nat \<Rightarrow> win_threads \<Rightarrow> ((crt_ret \<times> nat option) \<times> win_threads) option" where
  "sppc_pthread_join_win wait me t s =
     (if ws_self s me = Some t then Some ((EDEADLK, None), s)
      else do {
        x \<leftarrow> ws_threads s t;
        if \<not> wt_joinable x then Some ((EINVAL, None), s)
        else do {
          let s1 = wait (put_thread t (x\<lparr>wt_joinable := False\<rparr>) s);
          x1 \<leftarrow> ws_threads s1 t;
          s2 \<leftarrow> sppc_win_release t s1;
          Some ((OK, Some (wt_retval x1)), s2)
        }
      })"

definition sppc_pthread_detach_win :: "nat \<Rightarrow> win_threads \<Rightarrow> (crt_ret \<times> win_threads) option" where
  "sppc_pthread_detach_win t s = do {
     x \<leftarrow> ws_threads s t;
     if \<not> wt_joinable x then Some (EINVAL, s)
     else do {
       s1 \<leftarrow> sppc_win_release t (put_thread t (x\<lparr>wt_joinable := False\<rparr>) s);
       Some (OK, s1)
     }
   }"

text \<open>None: the process is ended.\<close>

definition sppc_pthread_self_win :: "nat option \<Rightarrow> nat \<Rightarrow> win_threads \<Rightarrow> (nat \<times> win_threads) option" where
  "sppc_pthread_self_win alloc me s =
     (case sppc_win_current alloc me s of (Some t, s1) \<Rightarrow> Some (t, s1) | (None, s1) \<Rightarrow> None)"

section \<open>Keys\<close>

definition key_in_use :: "win_threads \<Rightarrow> nat \<Rightarrow> bool" where
  "key_in_use s key \<longleftrightarrow> wk_seq (ws_keys s key) AND 1 \<noteq> 0"

definition put_key :: "nat \<Rightarrow> win_key \<Rightarrow> win_threads \<Rightarrow> win_threads" where
  "put_key key k s = s\<lparr>ws_keys := (ws_keys s)(key := k)\<rparr>"

fun key_create_loop :: "nat list \<Rightarrow> nat option \<Rightarrow> win_threads \<Rightarrow> (crt_ret \<times> nat option) \<times> win_threads" where
  "key_create_loop [] destructor s = ((EAGAIN, None), s)"
| "key_create_loop (key # keys) destructor s =
     (if key_in_use s key then key_create_loop keys destructor s
      else ((OK, Some key), put_key key \<lparr>wk_seq = wk_seq (ws_keys s key) + 1, wk_destructor = destructor\<rparr> s))"

definition sppc_pthread_key_create :: "nat option \<Rightarrow> win_threads \<Rightarrow> (crt_ret \<times> nat option) \<times> win_threads" where
  "sppc_pthread_key_create destructor s = key_create_loop [0..<PTHREAD_KEYS_MAX] destructor s"

definition sppc_pthread_key_delete :: "nat \<Rightarrow> win_threads \<Rightarrow> crt_ret \<times> win_threads" where
  "sppc_pthread_key_delete key s =
     (if key \<ge> PTHREAD_KEYS_MAX \<or> \<not> key_in_use s key then (EINVAL, s)
      else (OK, put_key key \<lparr>wk_seq = wk_seq (ws_keys s key) + 1, wk_destructor = None\<rparr> s))"

definition sppc_pthread_getspecific :: "nat \<Rightarrow> nat \<Rightarrow> win_threads \<Rightarrow> nat option option" where
  "sppc_pthread_getspecific me key s =
     (case ws_self s me of
        None \<Rightarrow> Some None
      | Some t \<Rightarrow>
          if key \<ge> PTHREAD_KEYS_MAX then Some None
          else do {
            x \<leftarrow> ws_threads s t;
            Some (if sl_seq (wt_slots x key) = wk_seq (ws_keys s key) then sl_value (wt_slots x key) else None)
          })"

definition sppc_pthread_setspecific ::
  "nat option \<Rightarrow> nat \<Rightarrow> nat \<Rightarrow> nat option \<Rightarrow> win_threads \<Rightarrow> (crt_ret \<times> win_threads) option" where
  "sppc_pthread_setspecific alloc me key v s =
     (if key \<ge> PTHREAD_KEYS_MAX then Some (EINVAL, s)
      else
        let seq = wk_seq (ws_keys s key) in
        if \<not> key_in_use s key then Some (EINVAL, s)
        else (case sppc_win_current alloc me s of
                (None, s1) \<Rightarrow> Some (ENOMEM, s1)
              | (Some t, s1) \<Rightarrow> do {
                  x \<leftarrow> ws_threads s1 t;
                  Some (OK, put_thread t (x\<lparr>wt_slots := (wt_slots x)(key := \<lparr>sl_value = v, sl_seq = seq\<rparr>)\<rparr>) s1)
                }))"

section \<open>Once\<close>

text \<open>\<^verbatim>\<open>execute\<close> is whether the system's one-time initialisation succeeds.\<close>

definition sppc_pthread_once_win :: "bool \<Rightarrow> crt_ret" where
  "sppc_pthread_once_win execute = (if execute then OK else EINVAL)"

section \<open>Keys do not show another key's values\<close>

datatype key_op = KCreate "nat option" | KDelete nat

fun do_key_op :: "key_op \<Rightarrow> win_threads \<Rightarrow> win_threads" where
  "do_key_op (KCreate d) s = snd (sppc_pthread_key_create d s)"
| "do_key_op (KDelete key) s = snd (sppc_pthread_key_delete key s)"

definition key_ops :: "key_op list \<Rightarrow> win_threads \<Rightarrow> win_threads" where
  "key_ops ops s = fold do_key_op ops s"

lemma key_create_loop_effect:
  "snd (key_create_loop keys d s) = s \<or>
   (\<exists>k. snd (key_create_loop keys d s) = put_key k \<lparr>wk_seq = wk_seq (ws_keys s k) + 1, wk_destructor = d\<rparr> s \<and>
      \<not> key_in_use s k)"
  by (induction keys) auto

text \<open>What one operation does to a key's number, and that it touches nothing else.\<close>

lemma key_op_seq:
  "\<exists>c. wk_seq (ws_keys (do_key_op op s) key) = wk_seq (ws_keys s key) + of_nat c \<and> c \<le> 1 \<and>
     (op = KDelete key \<and> key < PTHREAD_KEYS_MAX \<and> key_in_use s key \<longrightarrow> c = 1) \<and>
     (op \<noteq> KDelete key \<and> key_in_use s key \<longrightarrow> c = 0)"
proof (intro exI [of _ "if wk_seq (ws_keys (do_key_op op s) key) = wk_seq (ws_keys s key) then 0 else 1"])
  show "wk_seq (ws_keys (do_key_op op s) key) = wk_seq (ws_keys s key) +
      of_nat (if wk_seq (ws_keys (do_key_op op s) key) = wk_seq (ws_keys s key) then 0 else 1) \<and>
    (if wk_seq (ws_keys (do_key_op op s) key) = wk_seq (ws_keys s key) then 0 else 1) \<le> (1::nat) \<and>
    (op = KDelete key \<and> key < PTHREAD_KEYS_MAX \<and> key_in_use s key \<longrightarrow>
       (if wk_seq (ws_keys (do_key_op op s) key) = wk_seq (ws_keys s key) then 0 else 1) = (1::nat)) \<and>
    (op \<noteq> KDelete key \<and> key_in_use s key \<longrightarrow>
       (if wk_seq (ws_keys (do_key_op op s) key) = wk_seq (ws_keys s key) then 0 else 1) = (0::nat))"
  proof (cases op)
    case (KCreate d)
    then show ?thesis
      using key_create_loop_effect [of "[0..<PTHREAD_KEYS_MAX]" d s]
      by (auto simp: sppc_pthread_key_create_def put_key_def split: if_splits)
  qed (auto simp: sppc_pthread_key_delete_def put_key_def)
qed

lemma key_op_frame: "ws_threads (do_key_op op s) = ws_threads s" "ws_self (do_key_op op s) = ws_self s"
proof -
  have "ws_threads (do_key_op op s) = ws_threads s \<and> ws_self (do_key_op op s) = ws_self s"
  proof (cases op)
    case (KCreate d)
    then show ?thesis
      using key_create_loop_effect [of "[0..<PTHREAD_KEYS_MAX]" d s]
      by (auto simp: sppc_pthread_key_create_def put_key_def)
  qed (auto simp: sppc_pthread_key_delete_def put_key_def)
  then show "ws_threads (do_key_op op s) = ws_threads s" "ws_self (do_key_op op s) = ws_self s" by auto
qed

lemma key_ops_frame: "ws_threads (key_ops ops s) = ws_threads s" "ws_self (key_ops ops s) = ws_self s"
  unfolding key_ops_def by (induction ops arbitrary: s) (simp_all add: key_op_frame)

lemma key_ops_seq:
  "\<exists>c. wk_seq (ws_keys (key_ops ops s) key) = wk_seq (ws_keys s key) + of_nat c \<and> c \<le> length ops \<and>
     (KDelete key \<in> set ops \<and> key < PTHREAD_KEYS_MAX \<and> key_in_use s key \<longrightarrow> 0 < c)"
proof (induction ops arbitrary: s)
  case Nil
  show ?case by (intro exI [of _ 0]) (simp add: key_ops_def)
next
  case (Cons op ops)
  obtain c1 where c1: "wk_seq (ws_keys (do_key_op op s) key) = wk_seq (ws_keys s key) + of_nat c1" "c1 \<le> 1"
      "op = KDelete key \<and> key < PTHREAD_KEYS_MAX \<and> key_in_use s key \<longrightarrow> c1 = 1"
      "op \<noteq> KDelete key \<and> key_in_use s key \<longrightarrow> c1 = 0"
    using key_op_seq [of op s key] by blast
  obtain c2 where c2: "wk_seq (ws_keys (key_ops ops (do_key_op op s)) key) = wk_seq (ws_keys (do_key_op op s) key) + of_nat c2"
      "c2 \<le> length ops"
      "KDelete key \<in> set ops \<and> key < PTHREAD_KEYS_MAX \<and> key_in_use (do_key_op op s) key \<longrightarrow> 0 < c2"
    using Cons.IH [of "do_key_op op s"] by blast
  have use: "key_in_use (do_key_op op s) key" if "c1 = 0" "key_in_use s key"
    using that c1(1) by (simp add: key_in_use_def)
  show ?case
    using c1 c2 use by (intro exI [of _ "c1 + c2"]) (auto simp: key_ops_def add.assoc)
qed

text \<open>C28: A deleted key's values are gone: whatever keys are made and deleted next, and whoever is given the
  same key again, no thread reads through it what was stored under the old one (for fewer than 2 to the
  32 operations, when the key's number comes round again).
\<close>

theorem stale_values_unseen:
  assumes "key < PTHREAD_KEYS_MAX" "key_in_use s key" "KDelete key \<in> set ops" "length ops < 2 ^ 32"
    and "ws_self s me = Some t" "ws_threads s t = Some x" "sl_seq (wt_slots x key) = wk_seq (ws_keys s key)"
  shows "sppc_pthread_getspecific me key s = Some (sl_value (wt_slots x key)) \<and>
    sppc_pthread_getspecific me key (key_ops ops s) = Some None"
proof -
  obtain c where c: "wk_seq (ws_keys (key_ops ops s) key) = wk_seq (ws_keys s key) + of_nat c" "c \<le> length ops" "0 < c"
    using key_ops_seq [of ops s key] assms(1-3) by blast
  have "(of_nat c :: u32) \<noteq> 0"
    using c(2,3) assms(4) by (subst of_nat_eq_0) auto
  then show ?thesis
    using assms c(1) by (simp add: sppc_pthread_getspecific_def key_ops_frame)
qed

text \<open>A thread, 1, whose object is at 64, with the value 9 under key 3.\<close>

definition sample_keys :: win_threads where
  "sample_keys = \<lparr>ws_keys = (\<lambda>_. \<lparr>wk_seq = 1, wk_destructor = Some 50\<rparr>),
     ws_threads = [64 \<mapsto> zero_thread\<lparr>wt_refs := 2, wt_joinable := True, wt_handle := Some 7,
       wt_slots := (\<lambda>_. \<lparr>sl_value = None, sl_seq = 0\<rparr>)(3 := \<lparr>sl_value = Some 9, sl_seq = 1\<rparr>)\<rparr>],
     ws_self = [1 \<mapsto> 64], ws_log = []\<rparr>"

theorem stale_values_unseen_witness:
  "sppc_pthread_getspecific 1 3 sample_keys = Some (Some 9) \<and>
   sppc_pthread_getspecific 1 3 (key_ops [KDelete 3, KCreate None] sample_keys) = Some None"
  using stale_values_unseen [of 3 sample_keys "[KDelete 3, KCreate None]" 1 64 "the (ws_threads sample_keys 64)"]
  by (simp add: sample_keys_def PTHREAD_KEYS_MAX_def key_in_use_def)

section \<open>Destructors run once\<close>

text \<open>What the destructors of a thread's end are called with: each value set under a key that has one.\<close>

definition destroyed :: "(nat \<Rightarrow> win_key) \<Rightarrow> (nat \<Rightarrow> win_slot) \<Rightarrow> nat \<Rightarrow> win_event option" where
  "destroyed keys slots key =
     (case (sl_value (slots key), wk_destructor (keys key)) of
        (Some v, Some d) \<Rightarrow> if sl_seq (slots key) = wk_seq (keys key) then Some (Destroy d v) else None
      | _ \<Rightarrow> None)"

definition cleared :: "nat set \<Rightarrow> (nat \<Rightarrow> win_slot) \<Rightarrow> nat \<Rightarrow> win_slot" where
  "cleared ks slots key = (if key \<in> ks then (slots key)\<lparr>sl_value := None\<rparr> else slots key)"

abbreviation quiet :: run_destructor where "quiet \<equiv> \<lambda>d v s. s"

lemma map_filter_same:
  "(\<And>x. x \<in> set xs \<Longrightarrow> f x = g x) \<Longrightarrow> List.map_filter f xs = List.map_filter g xs"
  by (induction xs) (simp_all add: map_filter_simps split: option.split)

text \<open>A thread whose values under these keys have been destroyed.\<close>

definition quiet_done :: "nat \<Rightarrow> nat list \<Rightarrow> win_thread \<Rightarrow> win_threads \<Rightarrow> win_threads" where
  "quiet_done t ks x s = s\<lparr>ws_threads := (ws_threads s)(t \<mapsto> x\<lparr>wt_slots := cleared (set ks) (wt_slots x)\<rparr>),
     ws_log := ws_log s @ List.map_filter (destroyed (ws_keys s) (wt_slots x)) ks\<rparr>"

lemma cleared_none [simp]: "cleared {} slots = slots"
  by (rule ext) (simp add: cleared_def)

lemma quiet_done_Nil: "ws_threads s t = Some x \<Longrightarrow> quiet_done t [] x s = s"
  by (simp add: quiet_done_def map_filter_simps map_upd_triv del: fun_upd_apply)

lemma quiet_done_fields:
  "ws_threads (quiet_done t ks x s) t = Some (x\<lparr>wt_slots := cleared (set ks) (wt_slots x)\<rparr>)"
  "u \<noteq> t \<Longrightarrow> ws_threads (quiet_done t ks x s) u = ws_threads s u"
  "ws_keys (quiet_done t ks x s) = ws_keys s" "ws_self (quiet_done t ks x s) = ws_self s"
  "ws_log (quiet_done t ks x s) = ws_log s @ List.map_filter (destroyed (ws_keys s) (wt_slots x)) ks"
  by (simp_all add: quiet_done_def)

lemma quiet_done_Cons:
  assumes "key \<notin> set ks"
  shows "quiet_done t ks (x\<lparr>wt_slots := cleared {key} (wt_slots x)\<rparr>) (quiet_done t [key] x s) = quiet_done t (key # ks) x s"
proof -
  have "cleared (set ks) (cleared {key} slots) = cleared (set (key # ks)) slots" for slots
    by (rule ext) (simp add: cleared_def)
  moreover have "List.map_filter (destroyed keys (cleared {key} slots)) ks = List.map_filter (destroyed keys slots) ks"
    for keys slots
  proof (rule map_filter_same)
    fix k assume "k \<in> set ks"
    then have "cleared {key} slots k = slots k" using assms by (auto simp: cleared_def)
    then show "destroyed keys (cleared {key} slots) k = destroyed keys slots k"
      by (simp add: destroyed_def split: option.split)
  qed
  ultimately show ?thesis
    by (simp add: quiet_done_def map_filter_simps del: fun_upd_apply split: option.split)
qed

lemma destroy_key_quiet:
  assumes "ws_threads s t = Some x"
  shows "\<exists>hit. destroy_key quiet t key s = Some (hit, quiet_done t [key] x s) \<and>
    (sl_value (wt_slots x key) = None \<longrightarrow> \<not> hit)"
proof -
  have same: "cleared {key} (wt_slots x) = (wt_slots x)(key := (wt_slots x key)\<lparr>sl_value := None\<rparr>)"
    by (rule ext) (simp add: cleared_def)
  show ?thesis
  proof (cases "sl_value (wt_slots x key)")
    case None
    then have "(wt_slots x key)\<lparr>sl_value := None\<rparr> = wt_slots x key" by (cases "wt_slots x key") simp
    then have "cleared {key} (wt_slots x) = wt_slots x" by (simp add: same)
    moreover have "destroyed (ws_keys s) (wt_slots x) key = None" using None by (simp add: destroyed_def)
    ultimately have "quiet_done t [key] x s = s"
      using assms by (simp add: quiet_done_def map_filter_simps map_upd_triv del: fun_upd_apply)
    then show ?thesis using assms None by (simp add: destroy_key_def ex_bool_eq)
  next
    case (Some v)
    then show ?thesis
      using assms by (simp add: destroy_key_def quiet_done_def put_thread_def destroyed_def same map_filter_simps Let_def
          ex_bool_eq split: option.split)
  qed
qed

lemma destroy_round_quiet:
  assumes "distinct keys" "ws_threads s t = Some x"
  shows "\<exists>hit'. destroy_round quiet t keys hit s = Some (hit', quiet_done t keys x s) \<and>
    ((\<forall>key \<in> set keys. sl_value (wt_slots x key) = None) \<longrightarrow> hit' = hit)"
  using assms
proof (induction keys arbitrary: s x hit)
  case Nil
  then show ?case by (simp add: quiet_done_Nil)
next
  case (Cons key keys)
  let ?x1 = "x\<lparr>wt_slots := cleared {key} (wt_slots x)\<rparr>"
  let ?s1 = "quiet_done t [key] x s"
  obtain this1 where one: "destroy_key quiet t key s = Some (this1, ?s1)"
      "sl_value (wt_slots x key) = None \<longrightarrow> \<not> this1"
    using destroy_key_quiet [OF Cons.prems(2)] by blast
  obtain hit' where rest: "destroy_round quiet t keys (hit \<or> this1) ?s1 = Some (hit', quiet_done t keys ?x1 ?s1)"
      "(\<forall>k \<in> set keys. sl_value (wt_slots ?x1 k) = None) \<longrightarrow> hit' = (hit \<or> this1)"
    using Cons.IH [of ?s1 ?x1 "hit \<or> this1"] Cons.prems(1) quiet_done_fields(1) [where t = t and ks = "[key]"] by auto
  show ?case
    using one rest quiet_done_Cons [of key keys t x s] Cons.prems(1) by (auto simp: cleared_def)
qed

lemma destructors_run_once0:
  assumes "ws_threads s t = Some x"
  shows "\<exists>s'. sppc_win_run_destructors quiet t s = Some s' \<and>
    ws_log s' = ws_log s @ List.map_filter (destroyed (ws_keys s) (wt_slots x)) [0..<PTHREAD_KEYS_MAX] \<and>
    ws_threads s' t = Some (x\<lparr>wt_slots := cleared {0..<PTHREAD_KEYS_MAX} (wt_slots x)\<rparr>) \<and>
    ws_self s' = ws_self s \<and> (\<forall>u. u \<noteq> t \<longrightarrow> ws_threads s' u = ws_threads s u)"
proof -
  let ?keys = "[0..<PTHREAD_KEYS_MAX]"
  let ?x1 = "x\<lparr>wt_slots := cleared (set ?keys) (wt_slots x)\<rparr>"
  let ?s1 = "quiet_done t ?keys x s"
  obtain hit where one: "destroy_round quiet t ?keys False s = Some (hit, ?s1)"
    using destroy_round_quiet [of ?keys s t x False] assms by auto
  have "destroyed keys (cleared (set ?keys) slots) key = None" if "key \<in> set ?keys" for keys slots key
    using that by (auto simp: destroyed_def cleared_def)
  then have none: "List.map_filter (destroyed keys (cleared (set ?keys) slots)) ?keys = []" for keys slots
    by (auto simp: List.map_filter_def filter_empty_conv)
  have again: "cleared (set ?keys) (cleared (set ?keys) slots) = cleared (set ?keys) slots" for slots
    by (rule ext) (simp add: cleared_def)
  have fix1: "quiet_done t ?keys ?x1 ?s1 = ?s1"
    by (simp add: quiet_done_def none again map_upd_triv del: fun_upd_apply set_upt)
  have "destroy_round quiet t ?keys False ?s1 = Some (False, ?s1)"
    using destroy_round_quiet [of ?keys ?s1 t ?x1 False] fix1 quiet_done_fields(1) [where t = t and ks = ?keys]
    by (auto simp: cleared_def)
  then have "sppc_win_run_destructors quiet t s = Some ?s1"
    using one by (simp add: sppc_win_run_destructors_def PTHREAD_DESTRUCTOR_ITERATIONS_def numeral_eq_Suc)
  then show ?thesis using quiet_done_fields [where t = t and ks = ?keys] by auto
qed

text \<open>As a thread ends, each value it left under a key with a destructor is given to that destructor once, in
  the order of the keys, after it was cleared; a value kept under a key since deleted is not; and nothing
  is left set. (Destructors that set no values again; those that do are run again, at most four times.)
\<close>

theorem destructors_run_once:
  assumes "ws_threads s t = Some x"
  shows "\<exists>s'. sppc_win_run_destructors quiet t s = Some s' \<and>
    ws_log s' = ws_log s @ List.map_filter (destroyed (ws_keys s) (wt_slots x)) [0..<PTHREAD_KEYS_MAX] \<and>
    ws_threads s' t = Some (x\<lparr>wt_slots := cleared {0..<PTHREAD_KEYS_MAX} (wt_slots x)\<rparr>) \<and>
    ws_self s' = ws_self s \<and> (\<forall>u. u \<noteq> t \<longrightarrow> ws_threads s' u = ws_threads s u)"
  using assms by (rule destructors_run_once0)

theorem destructors_run_once_witness:
  "\<exists>s'. sppc_win_run_destructors quiet 64 sample_keys = Some s' \<and> ws_log s' = [Destroy 50 9]"
proof -
  have "List.map_filter (destroyed (ws_keys sample_keys) (wt_slots (the (ws_threads sample_keys 64)))) [0..<PTHREAD_KEYS_MAX] =
      [Destroy 50 9]"
    by (simp add: PTHREAD_KEYS_MAX_def upt_rec_numeral upt_conv_Cons map_filter_simps destroyed_def sample_keys_def)
  then show ?thesis
    using destructors_run_once [of sample_keys 64 "the (ws_threads sample_keys 64)"] by (auto simp: sample_keys_def)
qed

section \<open>A thread's object is freed once\<close>

datatype thread_op = Finish | Join | Detach

text \<open>A join is over only when the thread is: it is listed where its wait ends.\<close>

fun do_thread_op :: "nat \<Rightarrow> nat \<Rightarrow> nat \<Rightarrow> thread_op \<Rightarrow> win_threads \<Rightarrow> win_threads option" where
  "do_thread_op me other t Finish s = sppc_win_finish quiet me t s"
| "do_thread_op me other t Join s = map_option snd (sppc_pthread_join_win (\<lambda>s. s) other t s)"
| "do_thread_op me other t Detach s = map_option snd (sppc_pthread_detach_win t s)"

fun thread_ops :: "nat \<Rightarrow> nat \<Rightarrow> nat \<Rightarrow> thread_op list \<Rightarrow> win_threads \<Rightarrow> win_threads option" where
  "thread_ops me other t [] s = Some s"
| "thread_ops me other t (op # ops) s = do { s1 \<leftarrow> do_thread_op me other t op s; thread_ops me other t ops s1 }"

lemma thread_ops_snoc:
  "thread_ops me other t (ops @ [op]) s = do { s1 \<leftarrow> thread_ops me other t ops s; do_thread_op me other t op s1 }"
  by (induction ops arbitrary: s) (simp_all split: bind_split)

text \<open>What can happen to a thread: it ends at most once, and a join is over only after that.\<close>

fun ops_ok :: "bool \<Rightarrow> thread_op list \<Rightarrow> bool" where
  "ops_ok fin [] = True"
| "ops_ok fin (Finish # ops) = (\<not> fin \<and> ops_ok True ops)"
| "ops_ok fin (Join # ops) = (fin \<and> ops_ok fin ops)"
| "ops_ok fin (Detach # ops) = ops_ok fin ops"

lemma ops_ok_snoc:
  "ops_ok fin (ops @ [op]) \<longleftrightarrow> ops_ok fin ops \<and>
     (op = Finish \<longrightarrow> \<not> fin \<and> Finish \<notin> set ops) \<and> (op = Join \<longrightarrow> fin \<or> Finish \<in> set ops)"
  by (induction fin ops rule: ops_ok.induct) (cases op; auto)+

definition let_go :: "thread_op list \<Rightarrow> bool" where
  "let_go ops \<longleftrightarrow> Join \<in> set ops \<or> Detach \<in> set ops"

definition both_done :: "thread_op list \<Rightarrow> bool" where
  "both_done ops \<longleftrightarrow> Finish \<in> set ops \<and> let_go ops"

text \<open>The object, while it is there: a reference for the thread and one for the join still owed.\<close>

definition counted :: "nat \<Rightarrow> nat \<Rightarrow> bool \<Rightarrow> bool \<Rightarrow> win_threads \<Rightarrow> bool" where
  "counted t h fin gone s \<longleftrightarrow> (\<exists>x. ws_threads s t = Some x \<and> wt_handle x = Some h \<and>
     wt_refs x = (if fin then 0 else 1) + (if gone then 0 else 1) \<and> wt_joinable x = (\<not> gone))"

definition freed_in :: "nat \<Rightarrow> nat \<Rightarrow> win_event list \<Rightarrow> nat \<times> nat" where
  "freed_in t h log = (count_list log (ThreadFreed t), count_list log (HandleClosed h))"

lemma no_frees_destroyed [simp]:
  "count_list (List.map_filter (destroyed keys slots) ks) (ThreadFreed t) = 0"
  "count_list (List.map_filter (destroyed keys slots) ks) (HandleClosed h) = 0"
  by (auto simp: count_list_0_iff List.map_filter_def destroyed_def split: option.splits if_splits)

lemma finish_counted:
  assumes "counted t h False gone s"
  shows "\<exists>s'. sppc_win_finish quiet me t s = Some s' \<and> (\<forall>u. u \<noteq> me \<longrightarrow> ws_self s' u = ws_self s u) \<and>
    (if gone then ws_threads s' t = None \<and> freed_in t h (ws_log s') = (Suc (fst (freed_in t h (ws_log s))), Suc (snd (freed_in t h (ws_log s))))
     else counted t h True gone s' \<and> freed_in t h (ws_log s') = freed_in t h (ws_log s))"
proof -
  obtain x where x: "ws_threads s t = Some x" "wt_handle x = Some h" "wt_refs x = 1 + (if gone then 0 else 1)"
      "wt_joinable x = (\<not> gone)"
    using assms by (auto simp: counted_def)
  obtain s1 where s1: "sppc_win_run_destructors quiet t s = Some s1"
      "ws_log s1 = ws_log s @ List.map_filter (destroyed (ws_keys s) (wt_slots x)) [0..<PTHREAD_KEYS_MAX]"
      "ws_threads s1 t = Some (x\<lparr>wt_slots := cleared {0..<PTHREAD_KEYS_MAX} (wt_slots x)\<rparr>)" "ws_self s1 = ws_self s"
    using destructors_run_once0 [OF x(1)] by blast
  show ?thesis
    using x s1 by (auto simp: sppc_win_finish_def sppc_win_release_def free_thread_def put_thread_def counted_def
        freed_in_def Let_def)
qed

lemma let_go_counted:
  assumes "counted t h fin gone s" "\<not> (fin \<and> gone)" "op = Detach \<or> op = Join \<and> fin" "ws_self s other \<noteq> Some t"
  shows "\<exists>s'. do_thread_op me other t op s = Some s' \<and> ws_self s' = ws_self s \<and>
    (if fin then ws_threads s' t = None \<and> freed_in t h (ws_log s') = (Suc (fst (freed_in t h (ws_log s))), Suc (snd (freed_in t h (ws_log s))))
     else counted t h fin True s' \<and> freed_in t h (ws_log s') = freed_in t h (ws_log s))"
proof -
  obtain x where x: "ws_threads s t = Some x" "wt_handle x = Some h"
      "wt_refs x = (if fin then 0 else 1) + (if gone then 0 else 1)" "wt_joinable x = (\<not> gone)"
    using assms by (auto simp: counted_def)
  show ?thesis
    using x assms(2-4)
    by (cases fin) (auto simp: sppc_pthread_join_win_def sppc_pthread_detach_win_def sppc_win_release_def free_thread_def
        put_thread_def counted_def freed_in_def Let_def)
qed

text \<open>C27: A joinable thread's object is freed once, and its handle closed once: when the thread has ended and it
  has been joined or detached, in either order, and not before; a second join or detach before that is
  refused and changes nothing.
\<close>

theorem thread_freed_once:
  assumes "sppc_pthread_create_win (Some t) (Some h) True None start arg s = ((OK, Some t), s1)"
    and "ops_ok False ops" "\<not> both_done (butlast ops)" "ws_self s other \<noteq> Some t" "other \<noteq> me"
  shows "\<exists>s'. thread_ops me other t ops s1 = Some s' \<and> (ws_threads s' t = None) = both_done ops \<and>
    count_list (ws_log s') (ThreadFreed t) = count_list (ws_log s1) (ThreadFreed t) + (if both_done ops then 1 else 0) \<and>
    count_list (ws_log s') (HandleClosed h) = count_list (ws_log s1) (HandleClosed h) + (if both_done ops then 1 else 0)"
proof -
  have start: "counted t h False False s1" "ws_self s1 other \<noteq> Some t"
    using assms(1,4) by (auto simp: sppc_pthread_create_win_def counted_def put_thread_def zero_thread_def)
  have "\<exists>s'. thread_ops me other t ops s1 = Some s' \<and> ws_self s' other = ws_self s1 other \<and>
    (if both_done ops then ws_threads s' t = None \<and>
       freed_in t h (ws_log s') = (Suc (fst (freed_in t h (ws_log s1))), Suc (snd (freed_in t h (ws_log s1))))
     else counted t h (Finish \<in> set ops) (let_go ops) s' \<and> freed_in t h (ws_log s') = freed_in t h (ws_log s1))"
    using assms(2,3)
  proof (induction ops rule: rev_induct)
    case Nil
    then show ?case using start by (simp add: both_done_def let_go_def)
  next
    case (snoc op ops)
    then have ok: "ops_ok False ops" "op = Finish \<longrightarrow> Finish \<notin> set ops" "op = Join \<longrightarrow> Finish \<in> set ops"
        "\<not> both_done ops"
      by (auto simp: ops_ok_snoc)
    then have "\<not> both_done (butlast ops)" by (auto simp: both_done_def let_go_def dest: in_set_butlastD)
    then obtain s2 where s2: "thread_ops me other t ops s1 = Some s2" "ws_self s2 other = ws_self s1 other"
        "counted t h (Finish \<in> set ops) (let_go ops) s2" "freed_in t h (ws_log s2) = freed_in t h (ws_log s1)"
      using snoc.IH ok by auto
    show ?case
    proof (cases "op = Finish")
      case True
      then show ?thesis
        using finish_counted [of t h "let_go ops" s2 me] s2 ok assms(5)
        by (auto simp: thread_ops_snoc both_done_def let_go_def)
    next
      case False
      then have "op = Detach \<or> op = Join \<and> Finish \<in> set ops" using ok(3) by (cases op) auto
      then show ?thesis
        using let_go_counted [of t h "Finish \<in> set ops" "let_go ops" s2 op other me] s2 ok start(2) False
        by (auto simp: thread_ops_snoc both_done_def let_go_def split: if_splits)
    qed
  qed
  then show ?thesis by (auto simp: freed_in_def counted_def split: if_splits)
qed

theorem thread_freed_once_witness:
  "\<exists>s'. thread_ops 2 1 80 [Detach, Detach, Finish]
      (snd (sppc_pthread_create_win (Some 80) (Some 8) True None 10 11 sample_keys)) = Some s' \<and>
    ws_threads s' 80 = None"
  using thread_freed_once [of 80 8 10 11 sample_keys "snd (sppc_pthread_create_win (Some 80) (Some 8) True None 10 11 sample_keys)"
      "[Detach, Detach, Finish]" 1 2]
  by (auto simp: sppc_pthread_create_win_def sample_keys_def both_done_def let_go_def)

end
