(* ===== verification/WinLocks.thy ===== *)
theory WinLocks
  imports WinClock
begin

text \<open>
  Mutexes, condition variables, read-write locks and spin locks on Windows (platform/windows.h). They sleep
  on the address of a word, so each is a word shared by threads that step one access at a time: a step
  relation per lock, with a program counter for each thread, whose rules are the accesses of the code in
  its order. \<^verbatim>\<open>WaitOnAddress\<close> compares and goes to sleep in one step and may wake for no reason, and a wake
  of one thread picks any sleeper. Thread ids are naturals, and 0 is nobody's.
\<close>

section \<open>Mutexes\<close>

definition PTHREAD_MUTEX_NORMAL :: int where "PTHREAD_MUTEX_NORMAL = 0"
definition PTHREAD_MUTEX_ERRORCHECK :: int where "PTHREAD_MUTEX_ERRORCHECK = 1"
definition PTHREAD_MUTEX_RECURSIVE :: int where "PTHREAD_MUTEX_RECURSIVE = 2"

lemmas mutex_kinds = PTHREAD_MUTEX_NORMAL_def PTHREAD_MUTEX_ERRORCHECK_def PTHREAD_MUTEX_RECURSIVE_def

record win_mutex =
  mx_state :: int
  mx_owner :: nat
  mx_count :: u32
  mx_kind :: int

definition sppc_pthread_mutexattr_init :: int where
  "sppc_pthread_mutexattr_init = PTHREAD_MUTEX_NORMAL"

definition sppc_pthread_mutexattr_settype :: "int \<Rightarrow> int \<Rightarrow> crt_ret \<times> int" where
  "sppc_pthread_mutexattr_settype attr kind =
     (if kind \<noteq> PTHREAD_MUTEX_NORMAL \<and> kind \<noteq> PTHREAD_MUTEX_ERRORCHECK \<and> kind \<noteq> PTHREAD_MUTEX_RECURSIVE
      then (EINVAL, attr) else (OK, kind))"

definition sppc_pthread_mutex_init_win :: "int option \<Rightarrow> win_mutex" where
  "sppc_pthread_mutex_init_win attr =
     \<lparr>mx_state = 0, mx_owner = 0, mx_count = 0, mx_kind = (case attr of Some kind \<Rightarrow> kind | None \<Rightarrow> PTHREAD_MUTEX_NORMAL)\<rparr>"

definition sppc_pthread_mutex_destroy_win :: "win_mutex \<Rightarrow> crt_ret" where
  "sppc_pthread_mutex_destroy_win m = (if mx_state m \<noteq> 0 then EBUSY else OK)"

text \<open>None: this thread does not hold it (-1), and the lock goes ahead.\<close>

definition sppc_win_mutex_relock :: "nat \<Rightarrow> win_mutex \<Rightarrow> crt_ret option \<times> win_mutex" where
  "sppc_win_mutex_relock me m =
     (if mx_kind m = PTHREAD_MUTEX_NORMAL \<or> mx_owner m \<noteq> me then (None, m)
      else if mx_kind m = PTHREAD_MUTEX_ERRORCHECK then (Some EDEADLK, m)
      else if mx_count m = 0xFFFFFFFF then (Some EAGAIN, m)
      else (Some OK, m\<lparr>mx_count := mx_count m + 1\<rparr>))"

definition sppc_win_mutex_acquired :: "nat \<Rightarrow> win_mutex \<Rightarrow> win_mutex" where
  "sppc_win_mutex_acquired me m = m\<lparr>mx_owner := me, mx_count := 1\<rparr>"

definition sppc_pthread_mutex_trylock_win :: "nat \<Rightarrow> win_mutex \<Rightarrow> crt_ret \<times> win_mutex" where
  "sppc_pthread_mutex_trylock_win me m =
     (if mx_kind m = PTHREAD_MUTEX_RECURSIVE \<and> mx_owner m = me
      then (case sppc_win_mutex_relock me m of (r, m1) \<Rightarrow> (case r of Some e \<Rightarrow> e | None \<Rightarrow> OK, m1))
      else if mx_state m \<noteq> 0 then (EBUSY, m)
      else (OK, sppc_win_mutex_acquired me (m\<lparr>mx_state := 1\<rparr>)))"

text \<open>The unlock up to its exchange: refused, one level of a recursive mutex, or the owner gone (None).\<close>

definition mutex_disown :: "nat \<Rightarrow> win_mutex \<Rightarrow> crt_ret option \<times> win_mutex" where
  "mutex_disown me m =
     (if mx_kind m \<noteq> PTHREAD_MUTEX_NORMAL \<and> mx_owner m \<noteq> me then (Some EPERM, m)
      else if mx_kind m = PTHREAD_MUTEX_RECURSIVE then
        (let m1 = m\<lparr>mx_count := mx_count m - 1\<rparr> in
         if mx_count m1 \<noteq> 0 then (Some OK, m1) else (None, m1\<lparr>mx_owner := 0\<rparr>))
      else (None, m\<lparr>mx_owner := 0\<rparr>))"

text \<open>Where a thread is in \<^verbatim>\<open>_sppc_win_mutex_lock\<close> or the unlock.\<close>

datatype mutex_pc =
    Outside
  | Trying      \<comment> \<open>about to compare and exchange\<close>
  | Swapping    \<comment> \<open>about to exchange for 2\<close>
  | Waiting     \<comment> \<open>the exchange found it held\<close>
  | Asleep
  | Entering    \<comment> \<open>has the word, not yet the owner\<close>
  | Inside
  | Leaving     \<comment> \<open>disowned, about to exchange for 0\<close>
  | Waking      \<comment> \<open>the exchange found 2\<close>

record mutex_sys =
  my_mutex :: win_mutex
  my_pc :: "nat \<Rightarrow> mutex_pc"

definition at_pc :: "nat \<Rightarrow> mutex_pc \<Rightarrow> mutex_sys \<Rightarrow> mutex_sys" where
  "at_pc t pc s = s\<lparr>my_pc := (my_pc s)(t := pc)\<rparr>"

definition set_word :: "int \<Rightarrow> mutex_sys \<Rightarrow> mutex_sys" where
  "set_word v s = s\<lparr>my_mutex := (my_mutex s)\<lparr>mx_state := v\<rparr>\<rparr>"

inductive mutex_step :: "mutex_sys \<Rightarrow> mutex_sys \<Rightarrow> bool" where
  lock: "my_pc s t = Outside \<Longrightarrow> sppc_win_mutex_relock t (my_mutex s) = (None, m) \<Longrightarrow> t \<noteq> 0 \<Longrightarrow>
    mutex_step s (at_pc t Trying s)"
| relock: "my_pc s t = Inside \<Longrightarrow> sppc_win_mutex_relock t (my_mutex s) = (Some e, m) \<Longrightarrow>
    mutex_step s (s\<lparr>my_mutex := m\<rparr>)"
| cas_free: "my_pc s t = Trying \<Longrightarrow> mx_state (my_mutex s) = 0 \<Longrightarrow> mutex_step s (at_pc t Entering (set_word 1 s))"
| cas_held: "my_pc s t = Trying \<Longrightarrow> mx_state (my_mutex s) \<noteq> 0 \<Longrightarrow> mutex_step s (at_pc t Swapping s)"
| swap_free: "my_pc s t = Swapping \<Longrightarrow> mx_state (my_mutex s) = 0 \<Longrightarrow> mutex_step s (at_pc t Entering (set_word 2 s))"
| swap_held: "my_pc s t = Swapping \<Longrightarrow> mx_state (my_mutex s) \<noteq> 0 \<Longrightarrow> mutex_step s (at_pc t Waiting (set_word 2 s))"
| timed_out: "my_pc s t = Waiting \<Longrightarrow> mutex_step s (at_pc t Outside s)"
| wait_sleep: "my_pc s t = Waiting \<Longrightarrow> mx_state (my_mutex s) = 2 \<Longrightarrow> mutex_step s (at_pc t Asleep s)"
| wait_moved: "my_pc s t = Waiting \<Longrightarrow> mx_state (my_mutex s) \<noteq> 2 \<Longrightarrow> mutex_step s (at_pc t Swapping s)"
| spurious: "my_pc s t = Asleep \<Longrightarrow> mutex_step s (at_pc t Swapping s)"
| acquired: "my_pc s t = Entering \<Longrightarrow>
    mutex_step s (at_pc t Inside (s\<lparr>my_mutex := sppc_win_mutex_acquired t (my_mutex s)\<rparr>))"
| trylock: "my_pc s t = Outside \<Longrightarrow> mx_state (my_mutex s) = 0 \<Longrightarrow> t \<noteq> 0 \<Longrightarrow> mutex_step s (at_pc t Entering (set_word 1 s))"
| unlock_part: "my_pc s t = Inside \<Longrightarrow> mutex_disown t (my_mutex s) = (Some e, m) \<Longrightarrow> mutex_step s (s\<lparr>my_mutex := m\<rparr>)"
| unlock: "my_pc s t = Inside \<Longrightarrow> mutex_disown t (my_mutex s) = (None, m) \<Longrightarrow>
    mutex_step s (at_pc t Leaving (s\<lparr>my_mutex := m\<rparr>))"
| unlock_quiet: "my_pc s t = Leaving \<Longrightarrow> mx_state (my_mutex s) \<noteq> 2 \<Longrightarrow> mutex_step s (at_pc t Outside (set_word 0 s))"
| unlock_waking: "my_pc s t = Leaving \<Longrightarrow> mx_state (my_mutex s) = 2 \<Longrightarrow> mutex_step s (at_pc t Waking (set_word 0 s))"
| wake: "my_pc s t = Waking \<Longrightarrow> my_pc s u = Asleep \<Longrightarrow> mutex_step s (at_pc u Swapping (at_pc t Outside s))"
| wake_nobody: "my_pc s t = Waking \<Longrightarrow> \<forall>u. my_pc s u \<noteq> Asleep \<Longrightarrow> mutex_step s (at_pc t Outside s)"

inductive mutex_reach :: "int \<Rightarrow> mutex_sys \<Rightarrow> bool" for kind where
  start: "mutex_reach kind \<lparr>my_mutex = sppc_pthread_mutex_init_win (Some kind), my_pc = (\<lambda>_. Outside)\<rparr>"
| step: "mutex_reach kind s \<Longrightarrow> mutex_step s s' \<Longrightarrow> mutex_reach kind s'"

inductive_cases mutex_stepE: "mutex_step s s'"

text \<open>The thread that has the word; and who is on the way to look at it again.\<close>

definition holding :: "mutex_pc \<Rightarrow> bool" where
  "holding pc \<longleftrightarrow> pc = Entering \<or> pc = Inside \<or> pc = Leaving"

text \<open>
  Safety, by the thread that has the word: it alone is between its exchange and the exchange that gives the
  word back, the word is 0 exactly when there is none, and the owner is that thread while it is inside.
\<close>

definition mutex_safe :: "nat option \<Rightarrow> mutex_sys \<Rightarrow> bool" where
  "mutex_safe h s \<longleftrightarrow>
     (\<forall>t. holding (my_pc s t) \<longleftrightarrow> h = Some t) \<and>
     (mx_state (my_mutex s) = 0 \<longleftrightarrow> h = None) \<and>
     mx_state (my_mutex s) \<in> {0, 1, 2} \<and>
     mx_owner (my_mutex s) = (case h of Some t \<Rightarrow> if my_pc s t = Inside then t else 0 | None \<Rightarrow> 0) \<and>
     my_pc s 0 = Outside"

text \<open>Nobody sleeps on a word that is not marked contended, unless someone is on the way to mark it or to wake.\<close>

definition mutex_awake :: "mutex_sys \<Rightarrow> bool" where
  "mutex_awake s \<longleftrightarrow> (\<forall>t. my_pc s t \<noteq> Asleep) \<or> mx_state (my_mutex s) = 2 \<or>
     (\<exists>u. my_pc s u = Swapping \<or> my_pc s u = Waking)"

lemma at_pc_simps [simp]:
  "my_mutex (at_pc t pc s) = my_mutex s" "my_pc (at_pc t pc s) = (my_pc s)(t := pc)"
  "my_pc (set_word v s) = my_pc s" "my_mutex (set_word v s) = (my_mutex s)\<lparr>mx_state := v\<rparr>"
  by (simp_all add: at_pc_def set_word_def)

lemma holding_simps [simp]:
  "\<not> holding Outside" "\<not> holding Trying" "\<not> holding Swapping" "\<not> holding Waiting" "\<not> holding Asleep"
  "holding Entering" "holding Inside" "holding Leaving" "\<not> holding Waking"
  by (simp_all add: holding_def)

lemma relock_state:
  "sppc_win_mutex_relock t m = (r, m') \<Longrightarrow> mx_state m' = mx_state m \<and> mx_owner m' = mx_owner m"
  by (auto simp: sppc_win_mutex_relock_def split: if_splits)

lemma disown_state:
  "mutex_disown t m = (Some e, m') \<Longrightarrow> mx_state m' = mx_state m \<and> mx_owner m' = mx_owner m"
  "mutex_disown t m = (None, m') \<Longrightarrow> mx_state m' = mx_state m \<and> mx_owner m' = 0"
  by (auto simp: mutex_disown_def Let_def split: if_splits)

lemma safe_move:
  assumes "mutex_safe h s" "t \<noteq> 0" "\<not> holding (my_pc s t)" "\<not> holding pc"
  shows "mutex_safe h (at_pc t pc s)"
  using assms by (auto simp: mutex_safe_def split: option.splits)

lemma safe_word:
  assumes "mutex_safe h s" "h \<noteq> None" "v = 1 \<or> v = 2"
  shows "mutex_safe h (set_word v s)"
  using assms by (auto simp: mutex_safe_def)

lemma safe_take:
  assumes "mutex_safe h s" "mx_state (my_mutex s) = 0" "t \<noteq> 0" "v = 1 \<or> v = 2"
  shows "mutex_safe (Some t) (at_pc t Entering (set_word v s))"
  using assms by (auto simp: mutex_safe_def)

lemma safe_drop:
  assumes "mutex_safe h s" "my_pc s t = Leaving" "\<not> holding pc"
  shows "mutex_safe None (at_pc t pc (set_word 0 s))"
proof -
  have h: "h = Some t" using assms(1,2) unfolding mutex_safe_def by (metis holding_simps(8))
  have "holding (my_pc s u) \<longleftrightarrow> t = u" for u using assms(1) h by (simp add: mutex_safe_def)
  moreover have "t \<noteq> 0" using assms(1,2) by (intro notI) (simp add: mutex_safe_def)
  moreover have "mx_owner (my_mutex s) = 0" "my_pc s 0 = Outside"
    using assms(1,2) h by (simp_all add: mutex_safe_def)
  ultimately show ?thesis using assms(3) by (simp add: mutex_safe_def)
qed

lemma safe_holder: "mutex_safe h s \<Longrightarrow> holding (my_pc s t) \<Longrightarrow> h = Some t"
  by (simp add: mutex_safe_def)

lemma safe_free: "mutex_safe h s \<Longrightarrow> mx_state (my_mutex s) \<noteq> 0 \<longleftrightarrow> h \<noteq> None"
  by (simp add: mutex_safe_def)

lemma safe_zero: "mutex_safe h s \<Longrightarrow> my_pc s t \<noteq> Outside \<Longrightarrow> t \<noteq> 0"
  by (intro notI) (simp add: mutex_safe_def)

lemma safe_inside:
  assumes "mutex_safe h s" "my_pc s t = Inside" "mx_state m = mx_state (my_mutex s)"
  shows "mx_owner m = mx_owner (my_mutex s) \<Longrightarrow> mutex_safe h (s\<lparr>my_mutex := m\<rparr>)"
    and "mx_owner m = 0 \<Longrightarrow> mutex_safe h (at_pc t Leaving (s\<lparr>my_mutex := m\<rparr>))"
proof -
  have "h = Some t" "t \<noteq> 0" using assms safe_holder [of h s t] safe_zero [of h s t] by auto
  then show "mx_owner m = mx_owner (my_mutex s) \<Longrightarrow> mutex_safe h (s\<lparr>my_mutex := m\<rparr>)"
    "mx_owner m = 0 \<Longrightarrow> mutex_safe h (at_pc t Leaving (s\<lparr>my_mutex := m\<rparr>))"
    using assms by (auto simp: mutex_safe_def)
qed

lemma safe_acquired:
  assumes "mutex_safe h s" "my_pc s t = Entering"
  shows "mutex_safe h (at_pc t Inside (s\<lparr>my_mutex := sppc_win_mutex_acquired t (my_mutex s)\<rparr>))"
proof -
  have "h = Some t" "t \<noteq> 0" using assms safe_holder [of h s t] safe_zero [of h s t] by auto
  then show ?thesis using assms by (auto simp: mutex_safe_def sppc_win_mutex_acquired_def)
qed

lemma mutex_safe_step:
  assumes safe: "mutex_safe h s" and step: "mutex_step s s'"
  shows "\<exists>h'. mutex_safe h' s'"
  using step
proof (cases rule: mutex_step.cases)
  case (lock t m)
  then show ?thesis using safe_move [OF safe, of t Trying] by auto
next
  case (relock t e m)
  then show ?thesis using safe_inside(1) [OF safe, of t m] relock_state by blast
next
  case (cas_free t)
  then show ?thesis using safe_take [OF safe] safe_zero [OF safe, of t] by auto
next
  case (cas_held t)
  then show ?thesis using safe_move [OF safe, of t Swapping] safe_zero [OF safe, of t] by auto
next
  case (swap_free t)
  then show ?thesis using safe_take [OF safe] safe_zero [OF safe, of t] by auto
next
  case (swap_held t)
  then have "mutex_safe h (set_word 2 s)" using safe_word [OF safe] safe_free [OF safe] by auto
  then show ?thesis using swap_held safe_move [of h "set_word 2 s" t Waiting] safe_zero [OF safe, of t] by auto
next
  case (timed_out t)
  then show ?thesis using safe_move [OF safe, of t Outside] safe_zero [OF safe, of t] by auto
next
  case (wait_sleep t)
  then show ?thesis using safe_move [OF safe, of t Asleep] safe_zero [OF safe, of t] by auto
next
  case (wait_moved t)
  then show ?thesis using safe_move [OF safe, of t Swapping] safe_zero [OF safe, of t] by auto
next
  case (spurious t)
  then show ?thesis using safe_move [OF safe, of t Swapping] safe_zero [OF safe, of t] by auto
next
  case (acquired t)
  then show ?thesis using safe_acquired [OF safe, of t] by auto
next
  case (trylock t)
  then show ?thesis using safe_take [OF safe] by auto
next
  case (unlock_part t e m)
  then show ?thesis using safe_inside(1) [OF safe, of t m] disown_state(1) by blast
next
  case (unlock t m)
  then show ?thesis using safe_inside(2) [OF safe, of t m] disown_state(2) by metis
next
  case (unlock_quiet t)
  then show ?thesis using safe_drop [OF safe, of t Outside] by auto
next
  case (unlock_waking t)
  then show ?thesis using safe_drop [OF safe, of t Waking] by auto
next
  case (wake t u)
  then have "mutex_safe h (at_pc t Outside s)" using safe_move [OF safe, of t Outside] safe_zero [OF safe, of t] by auto
  moreover have "\<not> holding (my_pc (at_pc t Outside s) u)" "u \<noteq> 0" using wake safe_zero [OF safe, of u] by auto
  ultimately have "mutex_safe h (at_pc u Swapping (at_pc t Outside s))" using safe_move [of h "at_pc t Outside s" u Swapping] by simp
  then show ?thesis using wake by blast
next
  case (wake_nobody t)
  then show ?thesis using safe_move [OF safe, of t Outside] safe_zero [OF safe, of t] by auto
qed

text \<open>What keeps the sleepers' promise: no thread leaves \<^verbatim>\<open>Swapping\<close> or \<^verbatim>\<open>Waking\<close> without keeping it.\<close>

lemma awake_move:
  assumes "mutex_awake s" "my_pc s t \<noteq> Swapping" "my_pc s t \<noteq> Waking" "pc \<noteq> Asleep"
  shows "mutex_awake (at_pc t pc s)"
  using assms unfolding mutex_awake_def by (auto; metis fun_upd_apply)

lemma awake_coming:
  assumes "pc = Swapping \<or> pc = Waking"
  shows "mutex_awake (at_pc t pc s)"
  using assms by (auto simp: mutex_awake_def)

lemma awake_contended: "mx_state (my_mutex s) = 2 \<Longrightarrow> mutex_awake s"
  by (simp add: mutex_awake_def)

lemma awake_word:
  assumes "mutex_awake s" "mx_state (my_mutex s) \<noteq> 2"
  shows "mutex_awake (set_word v s)"
  using assms by (auto simp: mutex_awake_def)

lemma awake_mutex: "mutex_awake s \<Longrightarrow> mx_state m = mx_state (my_mutex s) \<Longrightarrow> mutex_awake (s\<lparr>my_mutex := m\<rparr>)"
  by (simp add: mutex_awake_def)

lemma mutex_awake_step:
  assumes awake: "mutex_awake s" and step: "mutex_step s s'"
  shows "mutex_awake s'"
  using step
proof (cases rule: mutex_step.cases)
  case (lock t m)
  then show ?thesis using awake_move [OF awake, of t Trying] by simp
next
  case (relock t e m)
  then show ?thesis using awake_mutex [OF awake] relock_state by metis
next
  case (cas_free t)
  then have "mutex_awake (set_word 1 s)" using awake_word [OF awake] by simp
  then show ?thesis using cas_free awake_move [of "set_word 1 s" t Entering] by simp
next
  case (cas_held t)
  then show ?thesis using awake_coming by blast
next
  case (swap_free t)
  then show ?thesis by (simp add: awake_contended)
next
  case (swap_held t)
  then show ?thesis by (simp add: awake_contended)
next
  case (timed_out t)
  then show ?thesis using awake_move [OF awake, of t Outside] by simp
next
  case (wait_sleep t)
  then show ?thesis by (simp add: awake_contended)
next
  case (wait_moved t)
  then show ?thesis using awake_coming by blast
next
  case (spurious t)
  then show ?thesis using awake_coming by blast
next
  case (acquired t)
  then have "mutex_awake (s\<lparr>my_mutex := sppc_win_mutex_acquired t (my_mutex s)\<rparr>)"
    using awake_mutex [OF awake] by (simp add: sppc_win_mutex_acquired_def)
  then show ?thesis
    using acquired awake_move [of "s\<lparr>my_mutex := sppc_win_mutex_acquired t (my_mutex s)\<rparr>" t Inside] by simp
next
  case (trylock t)
  then have "mutex_awake (set_word 1 s)" using awake_word [OF awake] by simp
  then show ?thesis using trylock awake_move [of "set_word 1 s" t Entering] by simp
next
  case (unlock_part t e m)
  then show ?thesis using awake_mutex [OF awake] disown_state(1) by metis
next
  case (unlock t m)
  then have "mutex_awake (s\<lparr>my_mutex := m\<rparr>)" using awake_mutex [OF awake] disown_state(2) by metis
  then show ?thesis using unlock awake_move [of "s\<lparr>my_mutex := m\<rparr>" t Leaving] by simp
next
  case (unlock_quiet t)
  then have "mutex_awake (set_word 0 s)" using awake_word [OF awake] by simp
  then show ?thesis using unlock_quiet awake_move [of "set_word 0 s" t Outside] by simp
next
  case (unlock_waking t)
  then show ?thesis using awake_coming by blast
next
  case (wake t u)
  then show ?thesis using awake_coming by blast
next
  case (wake_nobody t)
  then have "\<forall>v. my_pc (at_pc t Outside s) v \<noteq> Asleep" by simp
  then show ?thesis using wake_nobody by (simp add: mutex_awake_def)
qed

lemma mutex_reach_inv: "mutex_reach kind s \<Longrightarrow> (\<exists>h. mutex_safe h s) \<and> mutex_awake s"
proof (induction rule: mutex_reach.induct)
  case start
  show ?case
    by (simp add: mutex_safe_def mutex_awake_def sppc_pthread_mutex_init_win_def)
next
  case (step s s')
  then show ?case using mutex_safe_step mutex_awake_step by blast
qed

text \<open>C7: A mutex is held by one thread at a time, and no wake-up is lost: whatever the threads do, at most one
  is inside, the word says held exactly while one is, the owner read there is that thread, and whenever a
  thread sleeps, the word is marked contended (so the unlock to come will wake) or another thread is
  already on its way to mark it or to wake.
\<close>

theorem mutex_exclusive_and_awake:
  assumes "mutex_reach kind s"
  shows "(holding (my_pc s t) \<and> holding (my_pc s u) \<longrightarrow> t = u) \<and>
    (mx_state (my_mutex s) \<noteq> 0 \<longleftrightarrow> (\<exists>v. holding (my_pc s v))) \<and>
    (my_pc s t = Inside \<longrightarrow> mx_owner (my_mutex s) = t) \<and>
    (my_pc s t = Asleep \<longrightarrow> mx_state (my_mutex s) = 2 \<or> (\<exists>v. my_pc s v = Swapping \<or> my_pc s v = Waking))"
proof -
  obtain h where h: "mutex_safe h s" and awake: "mutex_awake s" using mutex_reach_inv [OF assms] by blast
  have "holding (my_pc s v) \<longleftrightarrow> h = Some v" for v using h by (simp add: mutex_safe_def)
  moreover have "mx_state (my_mutex s) \<noteq> 0 \<longleftrightarrow> h \<noteq> None" using h by (rule safe_free)
  moreover have "my_pc s t = Inside \<Longrightarrow> mx_owner (my_mutex s) = t"
    using h safe_holder [OF h, of t] by (simp add: mutex_safe_def)
  ultimately show ?thesis using awake by (auto simp: mutex_awake_def)
qed

text \<open>Two threads at a mutex: the first takes it, the second sleeps.\<close>

definition mutex_word :: "int \<Rightarrow> nat \<Rightarrow> u32 \<Rightarrow> win_mutex" where
  "mutex_word v owner n = \<lparr>mx_state = v, mx_owner = owner, mx_count = n, mx_kind = PTHREAD_MUTEX_NORMAL\<rparr>"

lemma mutex_two_threads:
  "mutex_reach PTHREAD_MUTEX_NORMAL \<lparr>my_mutex = mutex_word 2 1 1, my_pc = (\<lambda>_. Outside)(1 := Inside, 2 := Asleep)\<rparr>"
proof -
  define at where "at v o1 n p1 p2 = \<lparr>my_mutex = mutex_word v o1 n, my_pc = (\<lambda>_. Outside)(1 := p1, 2 := p2)\<rparr>"
    for v o1 n and p1 p2 :: mutex_pc
  have norm: "(\<lambda>_. Outside)(Suc 0 := p1, 2 := p2, Suc 0 := p3) = (\<lambda>_. Outside)(Suc 0 := p3, 2 := p2)"
    for p1 p2 p3 :: mutex_pc by auto
  note step = mutex_reach.step
  note eval = at_def at_pc_def set_word_def mutex_word_def sppc_win_mutex_relock_def sppc_win_mutex_acquired_def norm
  have "mutex_reach PTHREAD_MUTEX_NORMAL (at 0 0 0 Outside Outside)"
    using mutex_reach.start [of PTHREAD_MUTEX_NORMAL]
    by (simp add: at_def mutex_word_def sppc_pthread_mutex_init_win_def fun_upd_idem)
  then have "mutex_reach PTHREAD_MUTEX_NORMAL (at 0 0 0 Trying Outside)"
    using mutex_step.lock [of "at 0 0 0 Outside Outside" 1] by (auto intro: step simp: eval)
  then have "mutex_reach PTHREAD_MUTEX_NORMAL (at 1 0 0 Entering Outside)"
    using mutex_step.cas_free [of "at 0 0 0 Trying Outside" 1] by (auto intro: step simp: eval)
  then have "mutex_reach PTHREAD_MUTEX_NORMAL (at 1 1 1 Inside Outside)"
    using mutex_step.acquired [of "at 1 0 0 Entering Outside" 1] by (auto intro: step simp: eval)
  then have "mutex_reach PTHREAD_MUTEX_NORMAL (at 1 1 1 Inside Trying)"
    using mutex_step.lock [of "at 1 1 1 Inside Outside" 2] by (auto intro: step simp: eval)
  then have "mutex_reach PTHREAD_MUTEX_NORMAL (at 1 1 1 Inside Swapping)"
    using mutex_step.cas_held [of "at 1 1 1 Inside Trying" 2] by (auto intro: step simp: eval)
  then have "mutex_reach PTHREAD_MUTEX_NORMAL (at 2 1 1 Inside Waiting)"
    using mutex_step.swap_held [of "at 1 1 1 Inside Swapping" 2] by (auto intro: step simp: eval)
  then have "mutex_reach PTHREAD_MUTEX_NORMAL (at 2 1 1 Inside Asleep)"
    using mutex_step.wait_sleep [of "at 2 1 1 Inside Waiting" 2] by (auto intro: step simp: eval)
  then show ?thesis by (simp add: at_def)
qed

theorem mutex_exclusive_and_awake_witness:
  "mx_owner (mutex_word 2 1 1) = 1 \<and> mx_state (mutex_word 2 1 1) \<noteq> 0"
  using mutex_exclusive_and_awake [OF mutex_two_threads, of 1 2] by auto

end
