(* ===== verification/WinRwlocks.thy ===== *)
theory WinRwlocks
  imports WinClock
begin

text \<open>
  Read-write locks on Windows (platform/windows.h, PTHREADS: RWLOCKS): a word counting the readers, or -1,
  shared by threads that step one access at a time, in the way of WinLocks. A thread here holds the lock
  once; one that holds it several times is several of these.
\<close>

definition LONG_MAX :: int where "LONG_MAX = 0x7FFFFFFF"

record win_rwlock =
  rw_state :: int
  rw_writer :: nat

definition sppc_pthread_rwlock_init_win :: win_rwlock where
  "sppc_pthread_rwlock_init_win = \<lparr>rw_state = 0, rw_writer = 0\<rparr>"

definition sppc_pthread_rwlock_destroy_win :: "win_rwlock \<Rightarrow> crt_ret" where
  "sppc_pthread_rwlock_destroy_win rw = (if rw_state rw \<noteq> 0 then EBUSY else OK)"

text \<open>The turn of the try's loop in which its exchange goes through, or that refuses.\<close>

definition sppc_pthread_rwlock_tryrdlock_win :: "win_rwlock \<Rightarrow> crt_ret \<times> win_rwlock" where
  "sppc_pthread_rwlock_tryrdlock_win rw =
     (if rw_state rw < 0 then (EBUSY, rw)
      else if rw_state rw = LONG_MAX then (EAGAIN, rw)
      else (OK, rw\<lparr>rw_state := rw_state rw + 1\<rparr>))"

definition rwlock_cas :: "win_rwlock \<Rightarrow> bool \<times> win_rwlock" where
  "rwlock_cas rw = (if rw_state rw \<noteq> 0 then (False, rw) else (True, rw\<lparr>rw_state := - 1\<rparr>))"

definition sppc_pthread_rwlock_trywrlock_win :: "nat \<Rightarrow> win_rwlock \<Rightarrow> crt_ret \<times> win_rwlock" where
  "sppc_pthread_rwlock_trywrlock_win me rw =
     (case rwlock_cas rw of (took, rw1) \<Rightarrow> if took then (OK, rw1\<lparr>rw_writer := me\<rparr>) else (EBUSY, rw1))"

text \<open>Where a thread is in a lock or unlock.\<close>

datatype rw_pc =
    RwOut
  | RdTry      \<comment> \<open>at the try of the read lock's loop\<close>
  | RdBusy     \<comment> \<open>told it is busy\<close>
  | RdWait
  | RdAsleep
  | Reading
  | WrTry      \<comment> \<open>at the read of the write lock's loop\<close>
  | WrCas      \<comment> \<open>read 0\<close>
  | WrWait int \<comment> \<open>read this\<close>
  | WrAsleep
  | WrGot      \<comment> \<open>exchanged, not yet the writer\<close>
  | Writing
  | WrLeaving  \<comment> \<open>no longer the writer, about to exchange\<close>
  | RwWaking   \<comment> \<open>about to wake all\<close>

record rw_sys =
  rs_lock :: win_rwlock
  rs_pc :: "nat \<Rightarrow> rw_pc"

definition rw_at :: "nat \<Rightarrow> rw_pc \<Rightarrow> rw_sys \<Rightarrow> rw_sys" where
  "rw_at t pc s = s\<lparr>rs_pc := (rs_pc s)(t := pc)\<rparr>"

definition woken :: "rw_pc \<Rightarrow> rw_pc" where
  "woken pc = (if pc = RdAsleep then RdTry else if pc = WrAsleep then WrTry else pc)"

inductive rw_step :: "rw_sys \<Rightarrow> rw_sys \<Rightarrow> bool" where
  rdlock: "rs_pc s t = RwOut \<Longrightarrow> t \<noteq> 0 \<Longrightarrow> rw_step s (rw_at t RdTry s)"
| rd_took: "rs_pc s t = RdTry \<Longrightarrow> sppc_pthread_rwlock_tryrdlock_win (rs_lock s) = (OK, rw) \<Longrightarrow>
    rw_step s (rw_at t Reading (s\<lparr>rs_lock := rw\<rparr>))"
| rd_full: "rs_pc s t = RdTry \<Longrightarrow> sppc_pthread_rwlock_tryrdlock_win (rs_lock s) = (EAGAIN, rw) \<Longrightarrow>
    rw_step s (rw_at t RwOut s)"
| rd_busy: "rs_pc s t = RdTry \<Longrightarrow> sppc_pthread_rwlock_tryrdlock_win (rs_lock s) = (EBUSY, rw) \<Longrightarrow>
    rw_step s (rw_at t RdBusy s)"
| rd_mine: "rs_pc s t = RdBusy \<Longrightarrow> rw_writer (rs_lock s) = t \<Longrightarrow> rw_step s (rw_at t RwOut s)"
| rd_wait: "rs_pc s t = RdBusy \<Longrightarrow> rw_writer (rs_lock s) \<noteq> t \<Longrightarrow> rw_step s (rw_at t RdWait s)"
| rd_sleep: "rs_pc s t = RdWait \<Longrightarrow> rw_state (rs_lock s) = - 1 \<Longrightarrow> rw_step s (rw_at t RdAsleep s)"
| rd_moved: "rs_pc s t = RdWait \<Longrightarrow> rw_state (rs_lock s) \<noteq> - 1 \<Longrightarrow> rw_step s (rw_at t RdTry s)"
| rd_timeout: "rs_pc s t = RdWait \<Longrightarrow> rw_step s (rw_at t RwOut s)"
| wrlock: "rs_pc s t = RwOut \<Longrightarrow> t \<noteq> 0 \<Longrightarrow> rw_step s (rw_at t WrTry s)"
| wr_free: "rs_pc s t = WrTry \<Longrightarrow> rw_state (rs_lock s) = 0 \<Longrightarrow> rw_step s (rw_at t WrCas s)"
| wr_mine: "rs_pc s t = WrTry \<Longrightarrow> rw_state (rs_lock s) < 0 \<Longrightarrow> rw_writer (rs_lock s) = t \<Longrightarrow> rw_step s (rw_at t RwOut s)"
| wr_wait: "rs_pc s t = WrTry \<Longrightarrow> rw_state (rs_lock s) \<noteq> 0 \<Longrightarrow>
    \<not> (rw_state (rs_lock s) < 0 \<and> rw_writer (rs_lock s) = t) \<Longrightarrow>
    rw_step s (rw_at t (WrWait (rw_state (rs_lock s))) s)"
| wr_took: "rs_pc s t = WrCas \<Longrightarrow> rwlock_cas (rs_lock s) = (True, rw) \<Longrightarrow> rw_step s (rw_at t WrGot (s\<lparr>rs_lock := rw\<rparr>))"
| wr_lost: "rs_pc s t = WrCas \<Longrightarrow> rwlock_cas (rs_lock s) = (False, rw) \<Longrightarrow> rw_step s (rw_at t WrTry s)"
| wr_sleep: "rs_pc s t = WrWait v \<Longrightarrow> rw_state (rs_lock s) = v \<Longrightarrow> rw_step s (rw_at t WrAsleep s)"
| wr_moved: "rs_pc s t = WrWait v \<Longrightarrow> rw_state (rs_lock s) \<noteq> v \<Longrightarrow> rw_step s (rw_at t WrTry s)"
| wr_timeout: "rs_pc s t = WrWait v \<Longrightarrow> rw_step s (rw_at t RwOut s)"
| wr_owner: "rs_pc s t = WrGot \<Longrightarrow> rw_step s (rw_at t Writing (s\<lparr>rs_lock := (rs_lock s)\<lparr>rw_writer := t\<rparr>\<rparr>))"
| spurious: "rw_step s (rw_at t (woken (rs_pc s t)) s)"
| rd_unlock: "rs_pc s t = Reading \<Longrightarrow> rw_state (rs_lock s) > 0 \<Longrightarrow> v = rw_state (rs_lock s) - 1 \<Longrightarrow>
    rw_step s (rw_at t (if v = 0 then RwWaking else RwOut) (s\<lparr>rs_lock := (rs_lock s)\<lparr>rw_state := v\<rparr>\<rparr>))"
| wr_unlock: "rs_pc s t = Writing \<Longrightarrow> rw_state (rs_lock s) < 0 \<Longrightarrow> rw_writer (rs_lock s) = t \<Longrightarrow>
    rw_step s (rw_at t WrLeaving (s\<lparr>rs_lock := (rs_lock s)\<lparr>rw_writer := 0\<rparr>\<rparr>))"
| wr_gone: "rs_pc s t = WrLeaving \<Longrightarrow>
    rw_step s (rw_at t RwWaking (s\<lparr>rs_lock := (rs_lock s)\<lparr>rw_state := 0\<rparr>\<rparr>))"
| wake_all: "rs_pc s t = RwWaking \<Longrightarrow> rw_step s (s\<lparr>rs_pc := (woken \<circ> rs_pc s)(t := RwOut)\<rparr>)"

inductive rw_reach :: "rw_sys \<Rightarrow> bool" where
  start: "rw_reach \<lparr>rs_lock = sppc_pthread_rwlock_init_win, rs_pc = (\<lambda>_. RwOut)\<rparr>"
| step: "rw_reach s \<Longrightarrow> rw_step s s' \<Longrightarrow> rw_reach s'"

section \<open>Readers or one writer\<close>

definition writer_pc :: "rw_pc \<Rightarrow> bool" where
  "writer_pc pc \<longleftrightarrow> pc = WrGot \<or> pc = Writing \<or> pc = WrLeaving"

definition readers :: "rw_sys \<Rightarrow> nat set" where
  "readers s = {t. rs_pc s t = Reading}"

text \<open>By the writer, if there is one.\<close>

definition rw_safe :: "nat option \<Rightarrow> rw_sys \<Rightarrow> bool" where
  "rw_safe h s \<longleftrightarrow>
     (\<forall>t. writer_pc (rs_pc s t) \<longleftrightarrow> h = Some t) \<and> finite (readers s) \<and>
     rw_state (rs_lock s) = (if h = None then int (card (readers s)) else - 1) \<and>
     (h \<noteq> None \<longrightarrow> readers s = {}) \<and> rs_pc s 0 = RwOut"

definition rw_asleep :: "rw_pc \<Rightarrow> bool" where
  "rw_asleep pc \<longleftrightarrow> pc = RdAsleep \<or> pc = WrAsleep"

definition rw_awake :: "rw_sys \<Rightarrow> bool" where
  "rw_awake s \<longleftrightarrow> (\<forall>t. \<not> rw_asleep (rs_pc s t)) \<or> rw_state (rs_lock s) \<noteq> 0 \<or> (\<exists>u. rs_pc s u = RwWaking)"

lemma rw_at_simps [simp]:
  "rs_lock (rw_at t pc s) = rs_lock s" "rs_pc (rw_at t pc s) = (rs_pc s)(t := pc)"
  by (simp_all add: rw_at_def)

lemma writer_pc_simps [simp]:
  "\<not> writer_pc RwOut" "\<not> writer_pc RdTry" "\<not> writer_pc RdBusy" "\<not> writer_pc RdWait" "\<not> writer_pc RdAsleep"
  "\<not> writer_pc Reading" "\<not> writer_pc WrTry" "\<not> writer_pc WrCas" "\<not> writer_pc (WrWait v)" "\<not> writer_pc WrAsleep"
  "writer_pc WrGot" "writer_pc Writing" "writer_pc WrLeaving" "\<not> writer_pc RwWaking"
  by (simp_all add: writer_pc_def)

lemma readers_at:
  "readers (rw_at t pc s) = (if pc = Reading then insert t (readers s) else readers s - {t})"
  by (auto simp: readers_def)

lemma readers_lock [simp]: "readers (s\<lparr>rs_lock := rw\<rparr>) = readers s"
  by (simp add: readers_def)

text \<open>A step that neither reads, writes nor leaves.\<close>

definition idle_pc :: "rw_pc \<Rightarrow> bool" where
  "idle_pc pc \<longleftrightarrow> \<not> writer_pc pc \<and> pc \<noteq> Reading"

lemma idle_pc_simps [simp]:
  "idle_pc RwOut" "idle_pc RdTry" "idle_pc RdBusy" "idle_pc RdWait" "idle_pc RdAsleep" "\<not> idle_pc Reading" "idle_pc WrTry"
  "idle_pc WrCas" "idle_pc (WrWait v)" "idle_pc WrAsleep" "\<not> idle_pc WrGot" "\<not> idle_pc Writing" "\<not> idle_pc WrLeaving"
  "idle_pc RwWaking"
  by (simp_all add: idle_pc_def)

lemma rw_safe_move:
  assumes "rw_safe h s" "t \<noteq> 0" "idle_pc (rs_pc s t)" "idle_pc pc"
  shows "rw_safe h (rw_at t pc s)"
proof -
  have "t \<notin> readers s" using assms(3) by (auto simp: readers_def idle_pc_def)
  then have "readers (rw_at t pc s) = readers s" using assms(4) by (auto simp: readers_at idle_pc_def)
  then show ?thesis using assms by (auto simp: rw_safe_def idle_pc_def)
qed

lemma rw_safe_zero: "rw_safe h s \<Longrightarrow> rs_pc s t \<noteq> RwOut \<Longrightarrow> t \<noteq> 0"
  by (intro notI) (simp add: rw_safe_def)

lemma rw_safe_writer: "rw_safe h s \<Longrightarrow> writer_pc (rs_pc s t) \<Longrightarrow> h = Some t"
  by (simp add: rw_safe_def)

lemma rw_safe_nonneg: "rw_safe h s \<Longrightarrow> 0 \<le> rw_state (rs_lock s) \<Longrightarrow> h = None"
  by (auto simp: rw_safe_def split: if_splits)

lemma rw_safe_took:
  assumes safe: "rw_safe h s" and pc: "rs_pc s t = RdTry" and took: "sppc_pthread_rwlock_tryrdlock_win (rs_lock s) = (OK, rw)"
  shows "rw_safe None (rw_at t Reading (s\<lparr>rs_lock := rw\<rparr>))"
proof -
  have "0 \<le> rw_state (rs_lock s)" "rw = (rs_lock s)\<lparr>rw_state := rw_state (rs_lock s) + 1\<rparr>"
    using took by (auto simp: sppc_pthread_rwlock_tryrdlock_win_def split: if_splits)
  moreover have "t \<notin> readers s" "t \<noteq> 0" using pc rw_safe_zero [OF safe, of t] by (auto simp: readers_def)
  ultimately show ?thesis
    using safe rw_safe_nonneg [OF safe] by (auto simp: rw_safe_def readers_at)
qed

lemma rw_safe_wrote:
  assumes safe: "rw_safe h s" and pc: "rs_pc s t = WrCas" and took: "rwlock_cas (rs_lock s) = (True, rw)"
  shows "rw_safe (Some t) (rw_at t WrGot (s\<lparr>rs_lock := rw\<rparr>))"
proof -
  have z: "rw_state (rs_lock s) = 0" "rw = (rs_lock s)\<lparr>rw_state := - 1\<rparr>"
    using took by (auto simp: rwlock_cas_def split: if_splits)
  have h: "h = None" "t \<noteq> 0" using rw_safe_nonneg [OF safe] rw_safe_zero [OF safe, of t] pc z by auto
  then have "readers s = {}" using safe z by (auto simp: rw_safe_def)
  then show ?thesis using safe z h by (auto simp: rw_safe_def readers_at)
qed

lemma rw_safe_unread:
  assumes safe: "rw_safe h s" and pc: "rs_pc s t = Reading" and v: "v = rw_state (rs_lock s) - 1" and new: "idle_pc pc'"
  shows "rw_safe h (rw_at t pc' (s\<lparr>rs_lock := (rs_lock s)\<lparr>rw_state := v\<rparr>\<rparr>))"
proof -
  have r: "t \<in> readers s" "t \<noteq> 0" using pc rw_safe_zero [OF safe, of t] by (auto simp: readers_def)
  then have h: "h = None" using safe by (auto simp: rw_safe_def)
  have "card (readers s) = Suc (card (readers s - {t}))"
    using r safe by (intro card.remove) (auto simp: rw_safe_def)
  then show ?thesis using safe h v r new by (auto simp: rw_safe_def readers_at idle_pc_def)
qed

lemma rw_safe_writing:
  assumes safe: "rw_safe h s" and pc: "writer_pc (rs_pc s t)" and new: "writer_pc pc'"
  shows "rw_safe h (rw_at t pc' (s\<lparr>rs_lock := (rs_lock s)\<lparr>rw_writer := w\<rparr>\<rparr>))"
proof -
  have "rs_pc s t \<noteq> RwOut" using pc by auto
  then have "h = Some t" "t \<noteq> 0" "readers s = {}"
    using rw_safe_writer [OF safe pc] rw_safe_zero [OF safe, of t] safe pc by (auto simp: rw_safe_def)
  moreover have "pc' \<noteq> Reading" using new by auto
  ultimately show ?thesis using safe new by (auto simp: rw_safe_def readers_at)
qed

lemma rw_safe_left:
  assumes safe: "rw_safe h s" and pc: "rs_pc s t = WrLeaving"
  shows "rw_safe None (rw_at t RwWaking (s\<lparr>rs_lock := (rs_lock s)\<lparr>rw_state := 0\<rparr>\<rparr>))"
proof -
  have h: "h = Some t" using rw_safe_writer [OF safe, of t] pc by simp
  have t: "t \<noteq> 0" "readers s = {}" using rw_safe_zero [OF safe, of t] safe h pc by (auto simp: rw_safe_def)
  have "writer_pc (rs_pc s u) \<longleftrightarrow> t = u" for u using safe h by (simp add: rw_safe_def)
  then show ?thesis using safe t h by (simp add: rw_safe_def readers_at)
qed

lemma woken_simps [simp]:
  "writer_pc (woken pc) = writer_pc pc" "woken pc = Reading \<longleftrightarrow> pc = Reading" "woken pc = RwOut \<longleftrightarrow> pc = RwOut"
  "\<not> rw_asleep (woken pc)" "woken pc = RwWaking \<longleftrightarrow> pc = RwWaking"
  by (auto simp: woken_def rw_asleep_def)

lemma rw_safe_wake:
  assumes safe: "rw_safe h s" and pc: "rs_pc s t = RwWaking"
  shows "rw_safe h (s\<lparr>rs_pc := (woken \<circ> rs_pc s)(t := RwOut)\<rparr>)"
proof -
  have "readers (s\<lparr>rs_pc := (woken \<circ> rs_pc s)(t := RwOut)\<rparr>) = readers s"
    using pc by (auto simp: readers_def)
  moreover have "t \<noteq> 0" using rw_safe_zero [OF safe, of t] pc by simp
  moreover have "\<not> writer_pc (rs_pc s t)" using pc by simp
  then have "h \<noteq> Some t" using safe unfolding rw_safe_def by metis
  ultimately show ?thesis using safe by (auto simp: rw_safe_def)
qed

lemma rw_safe_step:
  assumes safe: "rw_safe h s" and step: "rw_step s s'"
  shows "\<exists>h'. rw_safe h' s'"
  using step
proof (cases rule: rw_step.cases)
  case (rd_took t rw)
  then show ?thesis using rw_safe_took [OF safe] by blast
next
  case (wr_took t rw)
  then show ?thesis using rw_safe_wrote [OF safe] by blast
next
  case (wr_owner t)
  then show ?thesis using rw_safe_writing [OF safe, of t Writing t] by auto
next
  case (spurious t)
  show ?thesis
  proof (cases "rw_asleep (rs_pc s t)")
    case True
    then have "t \<noteq> 0" "idle_pc (rs_pc s t)" "idle_pc (woken (rs_pc s t))"
      using rw_safe_zero [OF safe, of t] by (auto simp: rw_asleep_def woken_def)
    then show ?thesis using spurious rw_safe_move [OF safe] by blast
  next
    case False
    then have "woken (rs_pc s t) = rs_pc s t" by (simp add: woken_def rw_asleep_def)
    then have "rw_at t (woken (rs_pc s t)) s = s" by (simp add: rw_at_def)
    then show ?thesis using spurious safe by metis
  qed
next
  case (rd_unlock t v)
  have "idle_pc (if v = 0 then RwWaking else RwOut)" by simp
  then show ?thesis using rd_unlock rw_safe_unread [OF safe] by metis
next
  case (wr_unlock t)
  then show ?thesis using rw_safe_writing [OF safe, of t WrLeaving 0] by auto
next
  case (wr_gone t)
  then show ?thesis using rw_safe_left [OF safe] by blast
next
  case (wake_all t)
  then show ?thesis using rw_safe_wake [OF safe] by blast
next
  case (rdlock t)
  then show ?thesis using rw_safe_move [OF safe, of t RdTry] by auto
next
  case (wrlock t)
  then show ?thesis using rw_safe_move [OF safe, of t WrTry] by auto
next
  case (wr_wait t)
  then show ?thesis
    using rw_safe_move [OF safe, of t "WrWait (rw_state (rs_lock s))"] rw_safe_zero [OF safe, of t] by auto
qed (use rw_safe_zero [OF safe] rw_safe_move [OF safe] idle_pc_simps rw_pc.distinct in \<open>metis\<close>)+

text \<open>The sleepers' promise.\<close>

lemma rw_awake_move:
  assumes "rw_awake s" "rs_pc s t \<noteq> RwWaking" "\<not> rw_asleep pc"
  shows "rw_awake (rw_at t pc s)"
  using assms unfolding rw_awake_def by (auto; metis fun_upd_apply)

lemma rw_awake_held: "rw_state (rs_lock s) \<noteq> 0 \<Longrightarrow> rw_awake s"
  by (simp add: rw_awake_def)

lemma rw_awake_waking: "rs_pc s u = RwWaking \<Longrightarrow> rw_awake s"
  unfolding rw_awake_def by blast

lemma rw_awake_step:
  assumes safe: "rw_safe h s" and awake: "rw_awake s" and step: "rw_step s s'"
    and waits: "\<And>t v. rs_pc s t = WrWait v \<Longrightarrow> v \<noteq> 0"
  shows "rw_awake s'"
  using step
proof (cases rule: rw_step.cases)
  case (rd_took t rw)
  then have "rw_state rw \<noteq> 0" by (auto simp: sppc_pthread_rwlock_tryrdlock_win_def split: if_splits)
  then show ?thesis using rd_took by (simp add: rw_awake_held)
next
  case (wr_took t rw)
  then have "rw_state rw \<noteq> 0" by (auto simp: rwlock_cas_def split: if_splits)
  then show ?thesis using wr_took by (simp add: rw_awake_held)
next
  case (wr_owner t)
  then have "rw_state (rs_lock s) = - 1" using rw_safe_writer [OF safe, of t] safe by (simp add: rw_safe_def)
  then show ?thesis using wr_owner by (simp add: rw_awake_held)
next
  case (wr_unlock t)
  then show ?thesis by (simp add: rw_awake_held)
next
  case (rd_sleep t)
  then show ?thesis by (simp add: rw_awake_held)
next
  case (wr_sleep t v)
  then show ?thesis using waits by (simp add: rw_awake_held)
next
  case (rd_unlock t v)
  show ?thesis
  proof (cases "v = 0")
    case True
    then show ?thesis using rd_unlock by (intro rw_awake_waking [of _ t]) simp
  next
    case False
    then show ?thesis using rd_unlock by (intro rw_awake_held) simp
  qed
next
  case (wr_gone t)
  then show ?thesis by (intro rw_awake_waking [of _ t]) simp
next
  case (wake_all t)
  have "\<not> rw_asleep (((woken \<circ> rs_pc s)(t := RwOut)) u)" for u
    by (cases "u = t") (simp_all add: rw_asleep_def [of RwOut])
  then show ?thesis unfolding wake_all rw_awake_def by simp
next
  case (spurious t)
  show ?thesis
  proof (cases "rs_pc s t = RwWaking")
    case True
    then have "rw_at t (woken (rs_pc s t)) s = s" by (simp add: rw_at_def woken_def fun_upd_idem)
    then show ?thesis using spurious awake by metis
  next
    case False
    then show ?thesis using spurious rw_awake_move [OF awake] by auto
  qed
next
  case (rdlock t)
  then show ?thesis using rw_awake_move [OF awake, of t RdTry] by (simp add: rw_asleep_def)
next
  case (rd_full t rw)
  then show ?thesis using rw_awake_move [OF awake, of t RwOut] by (simp add: rw_asleep_def)
next
  case (rd_busy t rw)
  then show ?thesis using rw_awake_move [OF awake, of t RdBusy] by (simp add: rw_asleep_def)
next
  case (rd_mine t)
  then show ?thesis using rw_awake_move [OF awake, of t RwOut] by (simp add: rw_asleep_def)
next
  case (rd_wait t)
  then show ?thesis using rw_awake_move [OF awake, of t RdWait] by (simp add: rw_asleep_def)
next
  case (rd_moved t)
  then show ?thesis using rw_awake_move [OF awake, of t RdTry] by (simp add: rw_asleep_def)
next
  case (rd_timeout t)
  then show ?thesis using rw_awake_move [OF awake, of t RwOut] by (simp add: rw_asleep_def)
next
  case (wrlock t)
  then show ?thesis using rw_awake_move [OF awake, of t WrTry] by (simp add: rw_asleep_def)
next
  case (wr_free t)
  then show ?thesis using rw_awake_move [OF awake, of t WrCas] by (simp add: rw_asleep_def)
next
  case (wr_mine t)
  then show ?thesis using rw_awake_move [OF awake, of t RwOut] by (simp add: rw_asleep_def)
next
  case (wr_wait t)
  then show ?thesis using rw_awake_move [OF awake, of t "WrWait (rw_state (rs_lock s))"] by (simp add: rw_asleep_def)
next
  case (wr_lost t rw)
  then show ?thesis using rw_awake_move [OF awake, of t WrTry] by (simp add: rw_asleep_def)
next
  case (wr_moved t v)
  then show ?thesis using rw_awake_move [OF awake, of t WrTry] by (simp add: rw_asleep_def)
next
  case (wr_timeout t v)
  then show ?thesis using rw_awake_move [OF awake, of t RwOut] by (simp add: rw_asleep_def)
qed

lemma rw_wait_step:
  assumes "rw_step s s'" and old: "\<And>t v. rs_pc s t = WrWait v \<Longrightarrow> v \<noteq> 0"
  shows "rs_pc s' u = WrWait v \<Longrightarrow> v \<noteq> 0"
  using assms(1) by (cases rule: rw_step.cases) (use old in \<open>auto simp: woken_def split: if_splits\<close>)

lemma rw_reach_safe:
  "rw_reach s \<Longrightarrow> (\<exists>h. rw_safe h s) \<and> rw_awake s \<and> (\<forall>t v. rs_pc s t = WrWait v \<longrightarrow> v \<noteq> 0)"
proof (induction rule: rw_reach.induct)
  case start
  have "rw_safe None \<lparr>rs_lock = sppc_pthread_rwlock_init_win, rs_pc = (\<lambda>_. RwOut)\<rparr>"
    by (simp add: rw_safe_def sppc_pthread_rwlock_init_win_def readers_def)
  then show ?case by (auto simp: rw_awake_def rw_asleep_def)
next
  case (step s s')
  then obtain h where safe: "rw_safe h s" by blast
  have waits: "\<And>t v. rs_pc s t = WrWait v \<Longrightarrow> v \<noteq> 0" using step.IH by blast
  have awake: "rw_awake s" using step.IH by blast
  have "rw_awake s'" using safe awake step.hyps(2) waits by (rule rw_awake_step)
  moreover have "v \<noteq> 0" if "rs_pc s' u = WrWait v" for u v
    using step.hyps(2) waits that by (rule rw_wait_step)
  ultimately show ?case using rw_safe_step [OF safe step.hyps(2)] by blast
qed

text \<open>C8: whatever the threads do on a Windows read-write lock, one access at a time: while one has written -1 to
  the word no other has it to write and none to read, the word counts the readers otherwise, the lock may be destroyed
  exactly when nobody holds it, and if a thread sleeps on the word while it is 0, some thread that has left is
  about to wake it: no wake is lost.\<close>

theorem rwlock_readers_or_writer:
  assumes reach: "rw_reach s"
  shows "(writer_pc (rs_pc s t) \<longrightarrow> writer_pc (rs_pc s u) \<longrightarrow> t = u) \<and>
         (writer_pc (rs_pc s t) \<longrightarrow> rs_pc s u \<noteq> Reading \<and> rw_state (rs_lock s) = - 1) \<and>
         ((\<forall>v. \<not> writer_pc (rs_pc s v)) \<longrightarrow> rw_state (rs_lock s) = int (card (readers s))) \<and>
         (sppc_pthread_rwlock_destroy_win (rs_lock s) = OK \<longleftrightarrow>
            (\<forall>v. \<not> writer_pc (rs_pc s v) \<and> rs_pc s v \<noteq> Reading)) \<and>
         (rw_state (rs_lock s) = 0 \<longrightarrow> rw_asleep (rs_pc s t) \<longrightarrow> (\<exists>v. rs_pc s v = RwWaking))"
proof -
  obtain h where safe: "rw_safe h s" and awake: "rw_awake s" using rw_reach_safe [OF reach] by blast
  have w: "writer_pc (rs_pc s v) \<longleftrightarrow> h = Some v" for v using safe by (simp add: rw_safe_def)
  have fin: "finite (readers s)" using safe by (simp add: rw_safe_def)
  show ?thesis
  proof (cases h)
    case None
    then have st: "rw_state (rs_lock s) = int (card (readers s))" using safe by (simp add: rw_safe_def)
    moreover have "card (readers s) = 0 \<longleftrightarrow> (\<forall>v. rs_pc s v \<noteq> Reading)" using fin by (simp add: readers_def)
    ultimately show ?thesis
      using awake w None by (simp add: rw_awake_def sppc_pthread_rwlock_destroy_win_def) blast
  next
    case (Some v)
    then have "rw_state (rs_lock s) = - 1" "readers s = {}" using safe by (auto simp: rw_safe_def)
    moreover from this have "rs_pc s x \<noteq> Reading" for x by (auto simp: readers_def)
    ultimately show ?thesis using w Some by (simp add: sppc_pthread_rwlock_destroy_win_def)
  qed
qed

lemma rwlock_readers_or_writer_witness:
  "\<exists>s. rw_reach s \<and> rs_pc s 1 = Reading \<and> rw_state (rs_lock s) = 1 \<and>
     sppc_pthread_rwlock_destroy_win (rs_lock s) = EBUSY"
proof -
  define s0 where "s0 = \<lparr>rs_lock = sppc_pthread_rwlock_init_win, rs_pc = (\<lambda>_. RwOut)\<rparr>"
  define s1 where "s1 = rw_at 1 RdTry s0"
  define s2 where "s2 = rw_at 1 Reading (s1\<lparr>rs_lock := (rs_lock s1)\<lparr>rw_state := 1\<rparr>\<rparr>)"
  have "rw_reach s0" unfolding s0_def by (rule rw_reach.start)
  moreover have "rw_step s0 s1" unfolding s1_def by (rule rw_step.rdlock) (simp_all add: s0_def)
  moreover have "rw_step s1 s2"
    unfolding s2_def by (rule rw_step.rd_took)
      (simp_all add: s1_def s0_def sppc_pthread_rwlock_tryrdlock_win_def sppc_pthread_rwlock_init_win_def LONG_MAX_def)
  ultimately have r: "rw_reach s2" by (blast intro: rw_reach.step)
  have pc: "rs_pc s2 1 = Reading" by (simp add: s2_def)
  have lk: "rw_state (rs_lock s2) = 1" by (simp add: s2_def)
  have "sppc_pthread_rwlock_destroy_win (rs_lock s2) \<noteq> OK"
    using rwlock_readers_or_writer [OF r, of 1 1] pc by blast
  then have "sppc_pthread_rwlock_destroy_win (rs_lock s2) = EBUSY"
    by (simp add: sppc_pthread_rwlock_destroy_win_def split: if_split_asm)
  then show ?thesis using r pc lk by blast
qed

end
