(* ===== verification/WinConds.thy ===== *)
theory WinConds
  imports WinClock
begin

text \<open>
  Condition variables on Windows (platform/windows.h, PTHREADS: CONDITION VARIABLES): a word that every signal
  and broadcast moves on, on which the waiters sleep. A step relation as in WinLocks, one access at a time; the
  mutex of the waiters is its holder. The threads of \<^verbatim>\<open>timed\<close> wait with a deadline.
\<close>

record win_cond =
  cv_seq :: u32
  cv_clock :: int

definition sppc_pthread_condattr_init_win :: int where
  "sppc_pthread_condattr_init_win = CLOCK_REALTIME"

definition sppc_pthread_condattr_setclock_win :: "int \<Rightarrow> int \<Rightarrow> crt_ret \<times> int" where
  "sppc_pthread_condattr_setclock_win attr clock =
     (if clock \<noteq> CLOCK_REALTIME \<and> clock \<noteq> CLOCK_MONOTONIC then (EINVAL, attr) else (OK, clock))"

definition sppc_pthread_condattr_getclock_win :: "int \<Rightarrow> crt_ret \<times> int" where
  "sppc_pthread_condattr_getclock_win attr = (OK, attr)"

definition sppc_pthread_cond_init_win :: "int option \<Rightarrow> win_cond" where
  "sppc_pthread_cond_init_win attr =
     \<lparr>cv_seq = 0, cv_clock = (case attr of Some clock \<Rightarrow> clock | None \<Rightarrow> CLOCK_REALTIME)\<rparr>"

definition moved_on :: "win_cond \<Rightarrow> win_cond" where
  "moved_on c = c\<lparr>cv_seq := cv_seq c + 1\<rparr>"

text \<open>Where a thread is in a wait, signal or broadcast; the word it noted.\<close>

datatype cv_pc =
    CvOut
  | CvNoted u32          \<comment> \<open>the mutex still held\<close>
  | CvTest u32           \<comment> \<open>at the loop's condition\<close>
  | CvWait u32
  | CvAsleep u32
  | CvWoken u32
  | CvBack crt_ret       \<comment> \<open>about to take the mutex back, for this result\<close>
  | CvWakeOne            \<comment> \<open>of a signal that has moved the word on\<close>
  | CvWakeAll

record cv_sys =
  cs_cond :: win_cond
  cs_mutex :: "nat option"
  cs_pc :: "nat \<Rightarrow> cv_pc"

definition cv_at :: "nat \<Rightarrow> cv_pc \<Rightarrow> cv_sys \<Rightarrow> cv_sys" where
  "cv_at t pc s = s\<lparr>cs_pc := (cs_pc s)(t := pc)\<rparr>"

definition roused :: "cv_pc \<Rightarrow> cv_pc" where
  "roused pc = (case pc of CvAsleep v \<Rightarrow> CvWoken v | _ \<Rightarrow> pc)"

definition cv_asleep :: "cv_pc \<Rightarrow> bool" where
  "cv_asleep pc = (case pc of CvAsleep v \<Rightarrow> True | _ \<Rightarrow> False)"

inductive cv_step :: "(nat \<Rightarrow> bool) \<Rightarrow> bool \<Rightarrow> cv_sys \<Rightarrow> cv_sys \<Rightarrow> bool" for timed signals where
  lock: "cs_pc s t = CvOut \<Longrightarrow> cs_mutex s = None \<Longrightarrow> cv_step timed signals s (s\<lparr>cs_mutex := Some t\<rparr>)"
| unlock: "cs_pc s t = CvOut \<Longrightarrow> cs_mutex s = Some t \<Longrightarrow> cv_step timed signals s (s\<lparr>cs_mutex := None\<rparr>)"
| noted: "cs_pc s t = CvOut \<Longrightarrow> cs_mutex s = Some t \<Longrightarrow> cv_step timed signals s (cv_at t (CvNoted (cv_seq (cs_cond s))) s)"
| let_go: "cs_pc s t = CvNoted v \<Longrightarrow> cs_mutex s = Some t \<Longrightarrow>
    cv_step timed signals s (cv_at t (CvTest v) (s\<lparr>cs_mutex := None\<rparr>))"
| test_same: "cs_pc s t = CvTest v \<Longrightarrow> cv_seq (cs_cond s) = v \<Longrightarrow> cv_step timed signals s (cv_at t (CvWait v) s)"
| test_moved: "cs_pc s t = CvTest v \<Longrightarrow> cv_seq (cs_cond s) \<noteq> v \<Longrightarrow> cv_step timed signals s (cv_at t (CvBack OK) s)"
| timed_out: "cs_pc s t = CvWait v \<Longrightarrow> timed t \<Longrightarrow> cv_step timed signals s (cv_at t (CvBack ETIMEDOUT) s)"
| wait_sleep: "cs_pc s t = CvWait v \<Longrightarrow> cv_seq (cs_cond s) = v \<Longrightarrow> cv_step timed signals s (cv_at t (CvAsleep v) s)"
| wait_moved: "cs_pc s t = CvWait v \<Longrightarrow> cv_seq (cs_cond s) \<noteq> v \<Longrightarrow> cv_step timed signals s (cv_at t (CvWoken v) s)"
| spurious: "cs_pc s t = CvAsleep v \<Longrightarrow> cv_step timed signals s (cv_at t (CvWoken v) s)"
| woken_done: "cs_pc s t = CvWoken v \<Longrightarrow> \<not> timed t \<Longrightarrow> cv_step timed signals s (cv_at t (CvBack OK) s)"
| woken_again: "cs_pc s t = CvWoken v \<Longrightarrow> timed t \<Longrightarrow> cv_step timed signals s (cv_at t (CvTest v) s)"
| retake: "cs_pc s t = CvBack e \<Longrightarrow> cs_mutex s = None \<Longrightarrow> cv_step timed signals s (cv_at t CvOut (s\<lparr>cs_mutex := Some t\<rparr>))"
| signal: "signals \<Longrightarrow> cs_pc s t = CvOut \<Longrightarrow>
    cv_step timed signals s (cv_at t CvWakeOne (s\<lparr>cs_cond := moved_on (cs_cond s)\<rparr>))"
| broadcast: "cs_pc s t = CvOut \<Longrightarrow>
    cv_step timed signals s (cv_at t CvWakeAll (s\<lparr>cs_cond := moved_on (cs_cond s)\<rparr>))"
| wake_one: "cs_pc s t = CvWakeOne \<Longrightarrow> cs_pc s u = CvAsleep v \<Longrightarrow>
    cv_step timed signals s (cv_at u (CvWoken v) (cv_at t CvOut s))"
| wake_none: "cs_pc s t = CvWakeOne \<Longrightarrow> \<forall>u. \<not> cv_asleep (cs_pc s u) \<Longrightarrow> cv_step timed signals s (cv_at t CvOut s)"
| wake_all: "cs_pc s t = CvWakeAll \<Longrightarrow>
    cv_step timed signals s (s\<lparr>cs_pc := (roused \<circ> cs_pc s)(t := CvOut)\<rparr>)"

inductive cv_reach :: "(nat \<Rightarrow> bool) \<Rightarrow> bool \<Rightarrow> int option \<Rightarrow> cv_sys \<Rightarrow> bool" for timed signals attr where
  start: "cv_reach timed signals attr
    \<lparr>cs_cond = sppc_pthread_cond_init_win attr, cs_mutex = None, cs_pc = (\<lambda>_. CvOut)\<rparr>"
| step: "cv_reach timed signals attr s \<Longrightarrow> cv_step timed signals s s' \<Longrightarrow> cv_reach timed signals attr s'"

lemma cv_at_simps [simp]:
  "cs_cond (cv_at t pc s) = cs_cond s" "cs_mutex (cv_at t pc s) = cs_mutex s" "cs_pc (cv_at t pc s) = (cs_pc s)(t := pc)"
  "cv_seq (moved_on c) = cv_seq c + 1" "cv_clock (moved_on c) = cv_clock c"
  by (simp_all add: cv_at_def moved_on_def)

section \<open>A broadcast reaches everybody that waits\<close>

text \<open>Everyone asleep noted the word as it is, or a broadcast is about to wake; who has noted it holds the mutex.\<close>

definition cv_told :: "cv_sys \<Rightarrow> bool" where
  "cv_told s \<longleftrightarrow> (\<forall>t v. cs_pc s t = CvAsleep v \<longrightarrow> v = cv_seq (cs_cond s)) \<or> (\<exists>u. cs_pc s u = CvWakeAll)"

definition cv_held :: "cv_sys \<Rightarrow> bool" where
  "cv_held s \<longleftrightarrow> (\<forall>t v. cs_pc s t = CvNoted v \<longrightarrow> cs_mutex s = Some t)"

lemma told_move:
  assumes "cv_told s" "cs_pc s t \<noteq> CvWakeAll" "\<And>v. pc = CvAsleep v \<Longrightarrow> v = cv_seq (cs_cond s)"
  shows "cv_told (cv_at t pc s)"
  using assms unfolding cv_told_def by (auto; metis fun_upd_apply)

lemma told_waking: "cs_pc s u = CvWakeAll \<Longrightarrow> cv_told s"
  unfolding cv_told_def by blast

lemma told_mutex: "cv_told (s\<lparr>cs_mutex := m\<rparr>) = cv_told s"
  by (simp add: cv_told_def)

lemma told_step:
  assumes told: "cv_told s" and step: "cv_step timed False s s'"
  shows "cv_told s'"
  using step
proof (cases rule: cv_step.cases)
  case (let_go t v)
  then show ?thesis using told told_move [of "s\<lparr>cs_mutex := None\<rparr>" t "CvTest v"] by (simp add: told_mutex)
next
  case (retake t e)
  then show ?thesis using told told_move [of "s\<lparr>cs_mutex := Some t\<rparr>" t CvOut] by (simp add: told_mutex)
next
  case (broadcast t)
  then show ?thesis by (intro told_waking [of _ t]) simp
next
  case (wake_one t u v)
  then have "cv_told (cv_at t CvOut s)" using told_move [OF told, of t CvOut] by simp
  then show ?thesis using wake_one told_move [of "cv_at t CvOut s" u "CvWoken v"] by simp
next
  case (wake_all t)
  have "((roused \<circ> cs_pc s)(t := CvOut)) u \<noteq> CvAsleep v" for u v
    by (cases "u = t"; cases "cs_pc s u") (simp_all add: roused_def)
  then show ?thesis unfolding wake_all cv_told_def by simp
qed (use told in \<open>auto simp: told_mutex intro!: told_move [OF told]\<close>)

lemma held_step:
  assumes held: "cv_held s" and step: "cv_step timed signals s s'"
  shows "cv_held s'"
  using step
proof (cases rule: cv_step.cases)
  case (wake_all t)
  have "cs_mutex s = Some u" if "((roused \<circ> cs_pc s)(t := CvOut)) u = CvNoted v" for u v
  proof -
    have "cs_pc s u = CvNoted v" using that by (cases "cs_pc s u") (auto simp: roused_def split: if_splits)
    then show ?thesis using held by (auto simp: cv_held_def)
  qed
  then show ?thesis unfolding wake_all cv_held_def by simp
qed (use held in \<open>force simp: cv_held_def split: if_split_asm\<close>)+

lemma cv_reach_told: "cv_reach timed False attr s \<Longrightarrow> cv_told s"
  by (induction rule: cv_reach.induct) (simp add: cv_told_def, rule told_step)

lemma cv_reach_held: "cv_reach timed signals attr s \<Longrightarrow> cv_held s"
  by (induction rule: cv_reach.induct) (simp add: cv_held_def, rule held_step)

text \<open>
  A run with, for each thread, how often a signal or broadcast has begun since the thread noted the word: the count
  goes by where the threads are, not by the word.
\<close>

definition casts :: "cv_sys \<Rightarrow> cv_sys \<Rightarrow> bool" where
  "casts s s' \<longleftrightarrow> (\<exists>u. cs_pc s u = CvOut \<and> (cs_pc s' u = CvWakeAll \<or> cs_pc s' u = CvWakeOne))"

definition notes_word :: "cv_sys \<Rightarrow> cv_sys \<Rightarrow> nat \<Rightarrow> bool" where
  "notes_word s s' t \<longleftrightarrow> cs_pc s t = CvOut \<and> (\<exists>v. cs_pc s' t = CvNoted v)"

definition missed_after :: "cv_sys \<Rightarrow> cv_sys \<Rightarrow> (nat \<Rightarrow> nat) \<Rightarrow> nat \<Rightarrow> nat" where
  "missed_after s s' m t = (if notes_word s s' t then 0 else if casts s s' then m t + 1 else m t)"

inductive cv_run :: "(nat \<Rightarrow> bool) \<Rightarrow> bool \<Rightarrow> int option \<Rightarrow> cv_sys \<Rightarrow> (nat \<Rightarrow> nat) \<Rightarrow> bool" for timed signals attr where
  begun: "cv_run timed signals attr
    \<lparr>cs_cond = sppc_pthread_cond_init_win attr, cs_mutex = None, cs_pc = (\<lambda>_. CvOut)\<rparr> (\<lambda>_. 0)"
| next_step: "cv_run timed signals attr s m \<Longrightarrow> cv_step timed signals s s' \<Longrightarrow>
    cv_run timed signals attr s' (missed_after s s' m)"

lemma run_reach: "cv_run timed signals attr s m \<Longrightarrow> cv_reach timed signals attr s"
  by (induction rule: cv_run.induct) (blast intro: cv_reach.start cv_reach.step)+

text \<open>The word a waiter noted, behind the word as it is by as much as the thread has missed.\<close>

fun noted_word :: "cv_pc \<Rightarrow> u32 option" where
  "noted_word (CvNoted v) = Some v"
| "noted_word (CvTest v) = Some v"
| "noted_word (CvWait v) = Some v"
| "noted_word (CvAsleep v) = Some v"
| "noted_word (CvWoken v) = Some v"
| "noted_word _ = None"

definition cv_behind :: "cv_sys \<Rightarrow> (nat \<Rightarrow> nat) \<Rightarrow> bool" where
  "cv_behind s m \<longleftrightarrow> (\<forall>t v. noted_word (cs_pc s t) = Some v \<longrightarrow> cv_seq (cs_cond s) = v + of_nat (m t))"

lemma noted_roused [simp]: "noted_word (roused pc) = noted_word pc"
  by (cases pc) (simp_all add: roused_def)

lemma behindD: "cv_behind s m \<Longrightarrow> noted_word (cs_pc s t) = Some v \<Longrightarrow> cv_seq (cs_cond s) = v + of_nat (m t)"
  by (simp add: cv_behind_def)

lemma behind_at:
  assumes "cv_behind s m" "noted_word pc = None \<or> noted_word pc = noted_word (cs_pc s t)"
  shows "cv_behind (cv_at t pc s) m"
  using assms by (auto simp: cv_behind_def)

lemma behind_mutex [simp]: "cv_behind (s\<lparr>cs_mutex := x\<rparr>) m = cv_behind s m"
  by (simp add: cv_behind_def)

lemma missed_mutex [simp]: "missed_after s (s\<lparr>cs_mutex := x\<rparr>) m = m"
  by (auto simp: missed_after_def casts_def notes_word_def fun_eq_iff)

lemma quiet_behind:
  assumes "\<not> casts s s'" "\<And>t. \<not> notes_word s s' t"
  shows "cv_behind s' (missed_after s s' m) = cv_behind s' m"
proof -
  have "missed_after s s' m = m" using assms by (simp add: missed_after_def fun_eq_iff)
  then show ?thesis by simp
qed

lemma behind_step:
  assumes "cv_behind s m" and "cv_step timed signals s s'"
  shows "cv_behind s' (missed_after s s' m)"
  using assms(2)
proof (cases rule: cv_step.cases)
  case (signal t)
  then have "casts s s'" by (auto simp: casts_def)
  moreover have "\<not> notes_word s s' u" for u using signal by (auto simp: notes_word_def)
  ultimately show ?thesis using assms(1) signal by (auto simp: cv_behind_def missed_after_def)
next
  case (broadcast t)
  then have "casts s s'" by (auto simp: casts_def)
  moreover have "\<not> notes_word s s' u" for u using broadcast by (auto simp: notes_word_def)
  ultimately show ?thesis using assms(1) broadcast by (auto simp: cv_behind_def missed_after_def)
next
  case (noted t)
  then have "\<not> casts s s'" "notes_word s s' u \<longleftrightarrow> u = t" for u by (auto simp: casts_def notes_word_def)
  then show ?thesis using assms(1) noted by (auto simp: cv_behind_def missed_after_def)
next
  case (wake_all t)
  have "noted_word (cs_pc s' u) = (if u = t then None else noted_word (cs_pc s u))" for u
    using wake_all by simp
  moreover have "\<not> notes_word s s' u" for u using wake_all by (auto simp: notes_word_def roused_def split: cv_pc.splits)
  moreover have "\<not> casts s s'" using wake_all by (auto simp: casts_def roused_def split: cv_pc.splits)
  moreover have "cs_cond s' = cs_cond s" using wake_all by simp
  ultimately show ?thesis using assms(1) by (auto simp: cv_behind_def missed_after_def)
next
  case (wake_one t u v)
  have "\<not> casts s s'" "\<not> notes_word s s' x" for x using wake_one by (auto simp: casts_def notes_word_def)
  moreover have "cv_behind (cv_at u (CvWoken v) (cv_at t CvOut s)) m"
    by (rule behind_at [OF behind_at [OF assms(1)]]) (use wake_one in auto)
  ultimately show ?thesis using wake_one by (simp add: quiet_behind)
qed (use assms(1) in \<open>auto simp: casts_def notes_word_def simp: quiet_behind intro!: behind_at\<close>)

lemma run_behind: "cv_run timed signals attr s m \<Longrightarrow> cv_behind s m"
  by (induction rule: cv_run.induct) (simp add: cv_behind_def, rule behind_step)

text \<open>A thread that has missed a broadcast does not go to sleep on the word it noted.\<close>

lemma missed_stays_up:
  assumes r: "cv_run timed signals attr s m" and miss: "0 < m t" "m t < 2 ^ 32"
    and step: "cv_step timed signals s s'" and up: "\<not> cv_asleep (cs_pc s t)"
  shows "\<not> cv_asleep (cs_pc s' t)"
  using step
proof (cases rule: cv_step.cases)
  case (wait_sleep u v)
  have "(of_nat (m t) :: u32) \<noteq> 0" using miss by (simp add: of_nat_eq_0)
  moreover have "v = v + of_nat (m u)" using behindD [OF run_behind [OF r], of u v] wait_sleep by simp
  ultimately have "u \<noteq> t" by auto
  then show ?thesis using wait_sleep up by simp
next
  case (wake_all u)
  then show ?thesis using up by (cases "cs_pc s t") (simp_all add: roused_def cv_asleep_def)
qed (use up in \<open>auto simp: cv_asleep_def\<close>)

text \<open>C24: on a Windows condition variable that is only broadcast to, no wake-up is lost, whatever the order of the
  threads' accesses. A waiter notes the word still holding the mutex. If since then broadcasts have begun (fewer than
  2^32), then, when it is asleep, a broadcast that is about to wake everybody is under way, and when it is not, no step
  of any thread puts it to sleep before it has gone back to its caller; and a broadcast's wake leaves nobody asleep.\<close>

theorem broadcast_not_lost:
  assumes "cv_run timed False attr s m"
  shows "(cs_pc s t = CvNoted v \<longrightarrow> cs_mutex s = Some t) \<and>
         (0 < m t \<and> m t < 2 ^ 32 \<longrightarrow>
            (if cv_asleep (cs_pc s t) then \<exists>u. cs_pc s u = CvWakeAll
             else \<forall>s'. cv_step timed False s s' \<longrightarrow> \<not> cv_asleep (cs_pc s' t))) \<and>
         (cs_pc s u = CvWakeAll \<longrightarrow> (\<exists>s'. cv_step timed False s s' \<and> (\<forall>x. \<not> cv_asleep (cs_pc s' x))))"
proof (intro conjI impI)
  note reach = run_reach [OF assms]
  show "cs_mutex s = Some t" if "cs_pc s t = CvNoted v"
    using cv_reach_held [OF reach] that by (simp add: cv_held_def)
  show "if cv_asleep (cs_pc s t) then \<exists>u. cs_pc s u = CvWakeAll
      else \<forall>s'. cv_step timed False s s' \<longrightarrow> \<not> cv_asleep (cs_pc s' t)" if "0 < m t \<and> m t < 2 ^ 32"
  proof (cases "cv_asleep (cs_pc s t)")
    case True
    then obtain v where v: "cs_pc s t = CvAsleep v" by (auto simp: cv_asleep_def split: cv_pc.splits)
    have "(of_nat (m t) :: u32) \<noteq> 0" using that by (simp add: of_nat_eq_0)
    then have "v \<noteq> cv_seq (cs_cond s)" using behindD [OF run_behind [OF assms], of t v] v by simp
    then show ?thesis using cv_reach_told [OF reach] v True by (auto simp: cv_told_def)
  next
    case False
    then show ?thesis using missed_stays_up [OF assms] that by auto
  qed
  show "\<exists>s'. cv_step timed False s s' \<and> (\<forall>x. \<not> cv_asleep (cs_pc s' x))" if "cs_pc s u = CvWakeAll"
  proof (intro exI conjI allI)
    show "cv_step timed False s (s\<lparr>cs_pc := (roused \<circ> cs_pc s)(u := CvOut)\<rparr>)" using that by (rule cv_step.wake_all)
    show "\<not> cv_asleep (cs_pc (s\<lparr>cs_pc := (roused \<circ> cs_pc s)(u := CvOut)\<rparr>) x)" for x
      by (cases "x = u"; cases "cs_pc s x") (simp_all add: roused_def cv_asleep_def)
  qed
qed

text \<open>The wait as far as its sleep, and from a wake with a deadline back to sleep.\<close>

lemma cv_at_again [simp]: "cv_at t a (cv_at t b s) = cv_at t a s" "cv_at t a (s\<lparr>cs_mutex := m\<rparr>) = (cv_at t a s)\<lparr>cs_mutex := m\<rparr>"
  by (simp_all add: cv_at_def)

lemma mutex_same: "cs_mutex s = m \<Longrightarrow> s\<lparr>cs_mutex := m\<rparr> = s"
  by (cases s) simp

lemma cv_tests:
  assumes reach: "cv_reach timed signals attr s" and pc: "cs_pc s t = CvTest (cv_seq (cs_cond s))"
  shows "cv_reach timed signals attr (cv_at t (CvAsleep (cv_seq (cs_cond s))) s)"
proof -
  define v where "v = cv_seq (cs_cond s)"
  have "cv_step timed signals s (cv_at t (CvWait v) s)" by (rule cv_step.test_same) (simp_all add: pc v_def)
  with reach have r: "cv_reach timed signals attr (cv_at t (CvWait v) s)" by (rule cv_reach.step)
  have "cv_step timed signals (cv_at t (CvWait v) s) (cv_at t (CvAsleep v) (cv_at t (CvWait v) s))"
    by (rule cv_step.wait_sleep) (simp_all add: v_def)
  with r have "cv_reach timed signals attr (cv_at t (CvAsleep v) (cv_at t (CvWait v) s))" by (rule cv_reach.step)
  then show ?thesis by (simp add: v_def)
qed

lemma cv_sleeps:
  assumes reach: "cv_reach timed signals attr s" and pc: "cs_pc s t = CvOut" and free: "cs_mutex s = None"
  shows "cv_reach timed signals attr (cv_at t (CvAsleep (cv_seq (cs_cond s))) s)"
proof -
  define v where "v = cv_seq (cs_cond s)"
  define s1 where "s1 = s\<lparr>cs_mutex := Some t\<rparr>"
  define s2 where "s2 = cv_at t (CvNoted v) s1"
  have "cv_step timed signals s s1" unfolding s1_def using pc free by (rule cv_step.lock)
  with reach have r1: "cv_reach timed signals attr s1" by (rule cv_reach.step)
  have "cv_step timed signals s1 (cv_at t (CvNoted (cv_seq (cs_cond s1))) s1)"
    by (rule cv_step.noted) (simp_all add: s1_def pc)
  then have "cv_step timed signals s1 s2" by (simp add: s2_def s1_def v_def)
  with r1 have r2: "cv_reach timed signals attr s2" by (rule cv_reach.step)
  have "cv_step timed signals s2 (cv_at t (CvTest v) (s2\<lparr>cs_mutex := None\<rparr>))"
    by (rule cv_step.let_go) (simp_all add: s2_def s1_def)
  with r2 have "cv_reach timed signals attr (cv_at t (CvTest v) (s2\<lparr>cs_mutex := None\<rparr>))" by (rule cv_reach.step)
  moreover have "cv_at t (CvTest v) (s2\<lparr>cs_mutex := None\<rparr>) = (cv_at t (CvTest v) s)\<lparr>cs_mutex := None\<rparr>"
    by (simp add: s2_def s1_def cv_at_def)
  moreover have "(cv_at t (CvTest v) s)\<lparr>cs_mutex := None\<rparr> = cv_at t (CvTest v) s"
    by (rule mutex_same) (simp add: free)
  ultimately have "cv_reach timed signals attr (cv_at t (CvTest v) s)" by simp
  then show ?thesis using cv_tests [of timed signals attr "cv_at t (CvTest v) s" t] by (simp add: v_def)
qed

text \<open>C38: a signal can be lost on a Windows condition variable: if a thread with a deadline starts to wait between
  the signal's change of the word and its wake, the wake may find that thread, which looks at the word, sees it as
  it noted it and sleeps again; the thread that was waiting before the signal sleeps on, through a changed word, with
  nobody about to wake it and the mutex free.\<close>

theorem signal_can_be_lost:
  "\<exists>s. cv_reach (\<lambda>t. t = 2) True None s \<and> cs_pc s 1 = CvAsleep 0 \<and> cv_seq (cs_cond s) = 1 \<and>
     cs_pc s 2 = CvAsleep 1 \<and> cs_mutex s = None \<and> (\<forall>u. cs_pc s u \<noteq> CvWakeOne \<and> cs_pc s u \<noteq> CvWakeAll)"
proof -
  define timed :: "nat \<Rightarrow> bool" where "timed = (\<lambda>t. t = 2)"
  define s0 where "s0 = \<lparr>cs_cond = sppc_pthread_cond_init_win None, cs_mutex = None, cs_pc = (\<lambda>_. CvOut)\<rparr>"
  define s1 where "s1 = cv_at 1 (CvAsleep 0) s0"
  define s2 where "s2 = cv_at 3 CvWakeOne (s1\<lparr>cs_cond := moved_on (cs_cond s1)\<rparr>)"
  define s3 where "s3 = cv_at 2 (CvAsleep 1) s2"
  define s4 where "s4 = cv_at 2 (CvWoken 1) (cv_at 3 CvOut s3)"
  define s5 where "s5 = cv_at 2 (CvTest 1) s4"
  have z: "cv_seq (cs_cond s0) = 0" by (simp add: s0_def sppc_pthread_cond_init_win_def)
  have "cv_reach timed True None s0" unfolding s0_def by (rule cv_reach.start)
  then have r1: "cv_reach timed True None s1" using cv_sleeps [of timed True None s0 1] z by (simp add: s1_def s0_def)
  have "cv_step timed True s1 s2" unfolding s2_def by (rule cv_step.signal) (simp_all add: s1_def s0_def)
  then have r2: "cv_reach timed True None s2" using r1 by (rule cv_reach.step [rotated])
  have one: "cv_seq (cs_cond s2) = 1" using z by (simp add: s2_def s1_def)
  have r3: "cv_reach timed True None s3"
    using cv_sleeps [OF r2, of 2] one by (simp add: s3_def s2_def s1_def s0_def)
  have "cv_step timed True s3 s4" unfolding s4_def by (rule cv_step.wake_one) (simp_all add: s3_def s2_def)
  moreover have "cv_step timed True s4 s5"
    unfolding s5_def by (rule cv_step.woken_again) (simp_all add: s4_def timed_def)
  ultimately have r5: "cv_reach timed True None s5" using cv_reach.step [OF cv_reach.step [OF r3]] by blast
  have seq: "cv_seq (cs_cond s5) = 1" using one by (simp add: s5_def s4_def s3_def)
  have "cv_reach timed True None (cv_at 2 (CvAsleep 1) s5)"
    using cv_tests [OF r5, of 2] seq by (simp add: s5_def)
  then show ?thesis
    using seq unfolding timed_def
    by (intro exI [of _ "cv_at 2 (CvAsleep 1) s5"]) (simp add: s5_def s4_def s3_def s2_def s1_def s0_def)
qed

text \<open>A thread sleeps, having missed nothing; then a broadcast begins.\<close>

lemma run_quiet:
  assumes "cv_run timed signals attr s m" and "cv_step timed signals s s'" and "\<not> casts s s'"
  shows "\<exists>m'. cv_run timed signals attr s' m' \<and> (\<forall>t. m t = 0 \<longrightarrow> m' t = 0) \<and> (\<forall>t. notes_word s s' t \<longrightarrow> m' t = 0)"
  using cv_run.next_step [OF assms(1,2)] assms(3) by (intro exI [of _ "missed_after s s' m"]) (simp add: missed_after_def)

lemma run_asleep:
  "\<exists>m. cv_run timed signals None (cv_at 1 (CvAsleep 0)
      \<lparr>cs_cond = sppc_pthread_cond_init_win None, cs_mutex = None, cs_pc = (\<lambda>_. CvOut)\<rparr>) m \<and> m 1 = 0"
proof -
  define at where "at = (\<lambda>mx pc. \<lparr>cs_cond = sppc_pthread_cond_init_win None, cs_mutex = mx, cs_pc = (\<lambda>_. CvOut)(1 := pc)\<rparr>)"
  note init = sppc_pthread_cond_init_win_def
  have "at None CvOut = \<lparr>cs_cond = sppc_pthread_cond_init_win None, cs_mutex = None, cs_pc = (\<lambda>_. CvOut)\<rparr>" by (auto simp: at_def)
  then have r0: "cv_run timed signals None (at None CvOut) (\<lambda>_. 0)" using cv_run.begun [of timed signals None] by simp
  have q: "\<not> casts (at a x) (at b y)" if "y \<noteq> CvWakeAll" "y \<noteq> CvWakeOne" for a b x y
    using that by (auto simp: casts_def at_def)
  have "cv_step timed signals (at None CvOut) (at (Some 1) CvOut)"
    using cv_step.lock [of "at None CvOut" 1] by (simp add: at_def)
  from run_quiet [OF r0 this] obtain m1 where m1: "cv_run timed signals None (at (Some 1) CvOut) m1" "m1 1 = 0" using q by auto
  have "cv_step timed signals (at (Some 1) CvOut) (at (Some 1) (CvNoted 0))"
    using cv_step.noted [of "at (Some 1) CvOut" 1] by (simp add: at_def cv_at_def init)
  from run_quiet [OF m1(1) this] m1(2) obtain m2 where m2: "cv_run timed signals None (at (Some 1) (CvNoted 0)) m2" "m2 1 = 0" using q by auto
  have "cv_step timed signals (at (Some 1) (CvNoted 0)) (at None (CvTest 0))"
    using cv_step.let_go [of "at (Some 1) (CvNoted 0)" 1 0] by (simp add: at_def cv_at_def)
  from run_quiet [OF m2(1) this] m2(2) obtain m3 where m3: "cv_run timed signals None (at None (CvTest 0)) m3" "m3 1 = 0" using q by auto
  have "cv_step timed signals (at None (CvTest 0)) (at None (CvWait 0))"
    using cv_step.test_same [of "at None (CvTest 0)" 1 0] by (simp add: at_def cv_at_def init)
  from run_quiet [OF m3(1) this] m3(2) obtain m4 where m4: "cv_run timed signals None (at None (CvWait 0)) m4" "m4 1 = 0" using q by auto
  have "cv_step timed signals (at None (CvWait 0)) (at None (CvAsleep 0))"
    using cv_step.wait_sleep [of "at None (CvWait 0)" 1 0] by (simp add: at_def cv_at_def init)
  from run_quiet [OF m4(1) this] m4(2) show ?thesis using q by (auto simp: at_def cv_at_def)
qed

lemma broadcast_not_lost_witness:
  "\<exists>s m. cv_run (\<lambda>_. False) False None s m \<and> cs_pc s 1 = CvAsleep 0 \<and> m 1 = 1 \<and> (\<exists>u. cs_pc s u = CvWakeAll)"
proof -
  define s1 where "s1 = cv_at 1 (CvAsleep 0) \<lparr>cs_cond = sppc_pthread_cond_init_win None, cs_mutex = None, cs_pc = (\<lambda>_. CvOut)\<rparr>"
  define s2 where "s2 = cv_at 3 CvWakeAll (s1\<lparr>cs_cond := moved_on (cs_cond s1)\<rparr>)"
  obtain m where m: "cv_run (\<lambda>_. False) False None s1 m" "m 1 = 0" using run_asleep unfolding s1_def by blast
  have "cv_step (\<lambda>_. False) False s1 s2" unfolding s2_def by (rule cv_step.broadcast) (simp add: s1_def)
  with m(1) have r: "cv_run (\<lambda>_. False) False None s2 (missed_after s1 s2 m)" by (rule cv_run.next_step)
  have pc: "cs_pc s2 1 = CvAsleep 0" by (simp add: s2_def s1_def)
  have "casts s1 s2" unfolding casts_def by (rule exI [of _ 3]) (simp add: s2_def s1_def)
  then have one: "missed_after s1 s2 m 1 = 1" using m(2) pc by (simp add: missed_after_def notes_word_def)
  have "\<exists>u. cs_pc s2 u = CvWakeAll"
    using broadcast_not_lost [OF r, of 1] pc one by (simp add: cv_asleep_def)
  then show ?thesis using r pc one by blast
qed

end
