(* ===== verification/Barriers.thy ===== *)
theory Barriers
  imports WinClock
begin

text \<open>
  The spin locks and barriers that Windows and Darwin have to build (platform/windows.h, platform/darwin.h), each
  as one protocol over the operations of a platform: a locale states what the protocol needs of them, and both
  platforms' own definitions are shown to keep it.
\<close>

section \<open>Spin locks\<close>

definition sppc_pthread_spin_init_win :: "int \<Rightarrow> crt_ret \<times> int" where
  "sppc_pthread_spin_init_win word = (OK, 0)"

definition sppc_pthread_spin_trylock_win :: "int \<Rightarrow> crt_ret \<times> int" where
  "sppc_pthread_spin_trylock_win word = (if word = 0 then OK else EBUSY, 1)"

definition sppc_pthread_spin_unlock_win :: "int \<Rightarrow> crt_ret \<times> int" where
  "sppc_pthread_spin_unlock_win word = (OK, 0)"

definition darwin_spin_init :: "int \<Rightarrow> crt_ret \<times> int" where
  "darwin_spin_init word = (OK, 0)"

definition darwin_spin_trylock :: "int \<Rightarrow> crt_ret \<times> int" where
  "darwin_spin_trylock word = (if word = 0 then OK else EBUSY, 1)"

definition darwin_spin_unlock :: "int \<Rightarrow> crt_ret \<times> int" where
  "darwin_spin_unlock word = (OK, 0)"

text \<open>Where a thread is: at the exchange, or at the plain read after so many turns, or in.\<close>

datatype spin_pc = SpinOut | SpinSwap | SpinRead nat | SpinIn

record spin_sys =
  sp_word :: int
  sp_pc :: "nat \<Rightarrow> spin_pc"
  sp_yields :: nat  \<comment> \<open>how often the cpu was given up\<close>

definition spin_at :: "nat \<Rightarrow> spin_pc \<Rightarrow> spin_sys \<Rightarrow> spin_sys" where
  "spin_at t pc s = s\<lparr>sp_pc := (sp_pc s)(t := pc)\<rparr>"

definition spin_turn :: "nat \<Rightarrow> nat \<Rightarrow> spin_sys \<Rightarrow> spin_sys" where
  "spin_turn t n s = (spin_at t (SpinRead (n + 1)) s)\<lparr>sp_yields := sp_yields s + (if n mod 1024 = 0 then 1 else 0)\<rparr>"

inductive spin_step :: "(int \<Rightarrow> crt_ret \<times> int) \<Rightarrow> (int \<Rightarrow> crt_ret \<times> int) \<Rightarrow> spin_sys \<Rightarrow> spin_sys \<Rightarrow> bool"
  for trylock unlock where
  try_in: "sp_pc s t = SpinOut \<Longrightarrow> trylock (sp_word s) = (OK, w) \<Longrightarrow>
    spin_step trylock unlock s (spin_at t SpinIn (s\<lparr>sp_word := w\<rparr>))"
| try_busy: "sp_pc s t = SpinOut \<Longrightarrow> trylock (sp_word s) = (EBUSY, w) \<Longrightarrow>
    spin_step trylock unlock s (s\<lparr>sp_word := w\<rparr>)"
| lock: "sp_pc s t = SpinOut \<Longrightarrow> spin_step trylock unlock s (spin_at t SpinSwap s)"
| swap_in: "sp_pc s t = SpinSwap \<Longrightarrow> trylock (sp_word s) = (OK, w) \<Longrightarrow>
    spin_step trylock unlock s (spin_at t SpinIn (s\<lparr>sp_word := w\<rparr>))"
| swap_held: "sp_pc s t = SpinSwap \<Longrightarrow> trylock (sp_word s) = (EBUSY, w) \<Longrightarrow>
    spin_step trylock unlock s (spin_at t (SpinRead 1) (s\<lparr>sp_word := w\<rparr>))"
| read_held: "sp_pc s t = SpinRead n \<Longrightarrow> sp_word s \<noteq> 0 \<Longrightarrow> spin_step trylock unlock s (spin_turn t n s)"
| read_free: "sp_pc s t = SpinRead n \<Longrightarrow> sp_word s = 0 \<Longrightarrow> spin_step trylock unlock s (spin_at t SpinSwap s)"
| leave: "sp_pc s t = SpinIn \<Longrightarrow> unlock (sp_word s) = (OK, w) \<Longrightarrow>
    spin_step trylock unlock s (spin_at t SpinOut (s\<lparr>sp_word := w\<rparr>))"

inductive spin_reach :: "(int \<Rightarrow> crt_ret \<times> int) \<Rightarrow> (int \<Rightarrow> crt_ret \<times> int) \<Rightarrow> int \<Rightarrow> spin_sys \<Rightarrow> bool"
  for trylock unlock word where
  start: "spin_reach trylock unlock word \<lparr>sp_word = word, sp_pc = (\<lambda>_. SpinOut), sp_yields = 0\<rparr>"
| step: "spin_reach trylock unlock word s \<Longrightarrow> spin_step trylock unlock s s' \<Longrightarrow> spin_reach trylock unlock word s'"

lemma spin_at_simps [simp]:
  "sp_word (spin_at t pc s) = sp_word s" "sp_pc (spin_at t pc s) = (sp_pc s)(t := pc)"
  "sp_word (spin_turn t n s) = sp_word s" "sp_pc (spin_turn t n s) = (sp_pc s)(t := SpinRead (n + 1))"
  by (simp_all add: spin_at_def spin_turn_def)

text \<open>By the thread that is in, if there is one.\<close>

definition spin_ok :: "nat option \<Rightarrow> spin_sys \<Rightarrow> bool" where
  "spin_ok h s \<longleftrightarrow> (\<forall>t. sp_pc s t = SpinIn \<longleftrightarrow> h = Some t) \<and> (sp_word s = 0 \<longleftrightarrow> h = None)"

lemma spin_ok_waits:
  assumes "spin_ok h s" "sp_pc s t \<noteq> SpinIn" "pc \<noteq> SpinIn" "w \<noteq> 0 \<longleftrightarrow> sp_word s \<noteq> 0"
  shows "spin_ok h (spin_at t pc (s\<lparr>sp_word := w\<rparr>))"
proof -
  have "h \<noteq> Some t" using assms(1,2) by (simp add: spin_ok_def)
  then show ?thesis using assms by (auto simp: spin_ok_def)
qed

locale spin_lock =
  fixes trylock unlock :: "int \<Rightarrow> crt_ret \<times> int" and word :: int
  assumes starts_free: "word = 0"
    and takes_free: "trylock 0 = (OK, 1)"
    and refuses_held: "w \<noteq> 0 \<Longrightarrow> trylock w = (EBUSY, 1)"
    and frees: "unlock w = (OK, 0)"
begin

lemma tries: "trylock w = (r, w') \<Longrightarrow> w' = 1 \<and> (r = OK \<longleftrightarrow> w = 0)"
  using takes_free refuses_held by (cases "w = 0") auto

lemma ok_step:
  assumes ok: "spin_ok h s" and step: "spin_step trylock unlock s s'"
  shows "\<exists>h'. spin_ok h' s'"
  using step
proof (cases rule: spin_step.cases)
  case (try_in t w)
  then have "spin_ok (Some t) s'" using ok tries [of "sp_word s" OK w] by (auto simp: spin_ok_def)
  then show ?thesis by blast
next
  case (try_busy t w)
  then have "spin_ok h s'" using ok tries [of "sp_word s" EBUSY w] by (auto simp: spin_ok_def)
  then show ?thesis by blast
next
  case (swap_in t w)
  then have "spin_ok (Some t) s'" using ok tries [of "sp_word s" OK w] by (auto simp: spin_ok_def)
  then show ?thesis by blast
next
  case (swap_held t w)
  then have "spin_ok h s'" using ok tries [of "sp_word s" EBUSY w] by (auto intro!: spin_ok_waits)
  then show ?thesis by blast
next
  case (leave t w)
  have "h = Some t" using ok leave(2) by (simp add: spin_ok_def)
  then have "sp_pc s u = SpinIn \<longleftrightarrow> t = u" for u using ok by (simp add: spin_ok_def)
  then have "spin_ok None s'" using leave frees by (simp add: spin_ok_def)
  then show ?thesis by blast
next
  case (lock t)
  then have "spin_ok h s'" using ok spin_ok_waits [OF ok, of t SpinSwap "sp_word s"] by simp
  then show ?thesis by blast
next
  case (read_held t n)
  then have "spin_ok h s'" using ok spin_ok_waits [OF ok, of t "SpinRead (n + 1)" "sp_word s"] by (simp add: spin_turn_def spin_ok_def)
  then show ?thesis by blast
next
  case (read_free t n)
  then have "spin_ok h s'" using spin_ok_waits [OF ok, of t SpinSwap "sp_word s"] by (simp add: spin_ok_def)
  then show ?thesis by blast
qed

lemma reach_ok: "spin_reach trylock unlock word s \<Longrightarrow> \<exists>h. spin_ok h s"
proof (induction rule: spin_reach.induct)
  case start
  show ?case using starts_free by (simp add: spin_ok_def)
next
  case (step s s')
  then show ?case using ok_step by blast
qed

lemma one_inside:
  assumes "spin_reach trylock unlock word s"
  shows "(sp_pc s t = SpinIn \<longrightarrow> sp_pc s u = SpinIn \<longrightarrow> t = u) \<and> (sp_word s \<noteq> 0 \<longleftrightarrow> (\<exists>v. sp_pc s v = SpinIn))"
  using reach_ok [OF assms] by (auto simp: spin_ok_def)

text \<open>A free lock lets in whoever is at the exchange, and the reader of a free word goes there.\<close>

lemma free_lets_in:
  assumes "sp_word s = 0" "sp_pc s t = SpinSwap"
  shows "spin_step trylock unlock s (spin_at t SpinIn (s\<lparr>sp_word := 1\<rparr>))"
  using assms by (intro spin_step.swap_in) (simp_all add: takes_free)

end

interpretation win_spin: spin_lock sppc_pthread_spin_trylock_win sppc_pthread_spin_unlock_win "snd (sppc_pthread_spin_init_win w)"
  by unfold_locales
    (simp_all add: sppc_pthread_spin_init_win_def sppc_pthread_spin_trylock_win_def sppc_pthread_spin_unlock_win_def)

interpretation mac_spin: spin_lock darwin_spin_trylock darwin_spin_unlock "snd (darwin_spin_init w)"
  by unfold_locales (simp_all add: darwin_spin_init_def darwin_spin_trylock_def darwin_spin_unlock_def)

text \<open>on a spin lock of Windows or of Darwin, however the threads' exchanges, reads and releases fall, at most one
  thread is in, and the word is 0 exactly when none is, failed tries (which write it too) included.\<close>

theorem spin_exclusive:
  assumes "spin_reach sppc_pthread_spin_trylock_win sppc_pthread_spin_unlock_win (snd (sppc_pthread_spin_init_win w)) s"
    and "spin_reach darwin_spin_trylock darwin_spin_unlock (snd (darwin_spin_init w)) s'"
  shows "(sp_pc s t = SpinIn \<longrightarrow> sp_pc s u = SpinIn \<longrightarrow> t = u) \<and> (sp_word s \<noteq> 0 \<longleftrightarrow> (\<exists>v. sp_pc s v = SpinIn)) \<and>
         (sp_pc s' t = SpinIn \<longrightarrow> sp_pc s' u = SpinIn \<longrightarrow> t = u) \<and> (sp_word s' \<noteq> 0 \<longleftrightarrow> (\<exists>v. sp_pc s' v = SpinIn))"
  using win_spin.one_inside [OF assms(1), of t u] mac_spin.one_inside [OF assms(2), of t u] by blast

lemma spin_taken:
  assumes "trylock 0 = (OK, 1)"
  shows "spin_reach trylock unlock 0 \<lparr>sp_word = 1, sp_pc = (\<lambda>_. SpinOut)(7 := SpinIn), sp_yields = 0\<rparr>"
proof -
  define s where "s = \<lparr>sp_word = 0, sp_pc = (\<lambda>_. SpinOut), sp_yields = 0\<rparr>"
  have "spin_reach trylock unlock 0 s" unfolding s_def by (rule spin_reach.start)
  moreover have "spin_step trylock unlock s (spin_at 7 SpinIn (s\<lparr>sp_word := 1\<rparr>))"
    by (rule spin_step.try_in) (simp_all add: s_def assms)
  ultimately have "spin_reach trylock unlock 0 (spin_at 7 SpinIn (s\<lparr>sp_word := 1\<rparr>))" by (rule spin_reach.step)
  then show ?thesis by (simp add: s_def spin_at_def)
qed

lemma spin_exclusive_witness:
  "\<exists>s. spin_reach sppc_pthread_spin_trylock_win sppc_pthread_spin_unlock_win 0 s \<and> sp_pc s 7 = SpinIn \<and> sp_word s \<noteq> 0"
proof -
  define s where "s = \<lparr>sp_word = 1, sp_pc = (\<lambda>_. SpinOut)(7 := SpinIn), sp_yields = 0\<rparr>"
  have w: "spin_reach sppc_pthread_spin_trylock_win sppc_pthread_spin_unlock_win (snd (sppc_pthread_spin_init_win 0)) s"
    using spin_taken [of sppc_pthread_spin_trylock_win]
    by (simp add: s_def sppc_pthread_spin_init_win_def sppc_pthread_spin_trylock_win_def)
  have d: "spin_reach darwin_spin_trylock darwin_spin_unlock (snd (darwin_spin_init 0)) s"
    using spin_taken [of darwin_spin_trylock] by (simp add: s_def darwin_spin_init_def darwin_spin_trylock_def)
  have "sp_pc s 7 = SpinIn" by (simp add: s_def)
  moreover from this have "sp_word s \<noteq> 0" using spin_exclusive [OF w d, of 7 7] by blast
  ultimately show ?thesis using w by (auto simp: sppc_pthread_spin_init_win_def)
qed

section \<open>Barriers\<close>

record win_barrier =
  wb_count :: int
  wb_remaining :: int
  wb_generation :: u32
  wb_waiters :: int

definition sppc_pthread_barrier_init_win :: "int \<Rightarrow> win_barrier option" where
  "sppc_pthread_barrier_init_win count =
     (if count = 0 \<or> count > 0x7FFFFFFF then None
      else Some \<lparr>wb_count = count, wb_remaining = count, wb_generation = 0, wb_waiters = 0\<rparr>)"

text \<open>What the wait does under the lock: whether this thread is the last of the round.\<close>

definition win_barrier_arrive :: "win_barrier \<Rightarrow> bool \<times> win_barrier" where
  "win_barrier_arrive b =
     (let b1 = b\<lparr>wb_remaining := wb_remaining b - 1\<rparr> in
      if wb_remaining b1 = 0 then (True, b1\<lparr>wb_remaining := wb_count b, wb_generation := wb_generation b + 1\<rparr>)
      else (False, b1\<lparr>wb_waiters := wb_waiters b + 1\<rparr>))"

text \<open>And what it does once the generation has moved on: whether it wakes a destroy.\<close>

definition win_barrier_leave :: "win_barrier \<Rightarrow> bool \<times> win_barrier" where
  "win_barrier_leave b = (let b1 = b\<lparr>wb_waiters := wb_waiters b - 1\<rparr> in (wb_waiters b1 = 0, b1))"

text \<open>None: it waits for the waiters to go.\<close>

definition sppc_pthread_barrier_destroy_win :: "win_barrier \<Rightarrow> crt_ret option" where
  "sppc_pthread_barrier_destroy_win b =
     (if wb_remaining b \<noteq> wb_count b then Some EBUSY else if wb_waiters b = 0 then Some OK else None)"

record darwin_barrier =
  db_count :: u32
  db_arrived :: u32
  db_cycle :: u32

definition darwin_barrier_init :: "u64 \<Rightarrow> darwin_barrier option" where
  "darwin_barrier_init count =
     (if count = 0 \<or> count > 0xFFFFFFFF then None else Some \<lparr>db_count = ucast count, db_arrived = 0, db_cycle = 0\<rparr>)"

definition darwin_barrier_arrive :: "darwin_barrier \<Rightarrow> bool \<times> darwin_barrier" where
  "darwin_barrier_arrive b =
     (let b1 = b\<lparr>db_arrived := db_arrived b + 1\<rparr> in
      if db_arrived b1 = db_count b then (True, b1\<lparr>db_arrived := 0, db_cycle := db_cycle b + 1\<rparr>)
      else (False, b1))"

text \<open>The wait on the condition, by what each \<^verbatim>\<open>pthread_cond_wait\<close> returns and the cycle found after it.\<close>

fun darwin_barrier_wait :: "u32 \<Rightarrow> u32 \<Rightarrow> (int \<times> u32) list \<Rightarrow> int option" where
  "darwin_barrier_wait cycle now waits =
     (if cycle \<noteq> now then Some 0
      else case waits of [] \<Rightarrow> None
      | (err, now') # later \<Rightarrow> if err \<noteq> 0 then Some err else darwin_barrier_wait cycle now' later)"

text \<open>Where a thread is; the round it arrived in, as the barrier's word and as its place in the order of arrivals.\<close>

datatype bar_pc = BarOut | BarWait u32 nat | BarSerial

record 'b bar_sys =
  br_bar :: 'b
  br_pc :: "nat \<Rightarrow> bar_pc"
  br_log :: "bool list"  \<comment> \<open>for every arrival so far, whether it was the serial one\<close>

inductive bar_step :: "('b \<Rightarrow> bool \<times> 'b) \<Rightarrow> ('b \<Rightarrow> 'b) \<Rightarrow> ('b \<Rightarrow> u32) \<Rightarrow> 'b bar_sys \<Rightarrow> 'b bar_sys \<Rightarrow> bool"
  for arrive leave round where
  last: "br_pc s t = BarOut \<Longrightarrow> arrive (br_bar s) = (True, b) \<Longrightarrow>
    bar_step arrive leave round s (s\<lparr>br_bar := b, br_pc := (br_pc s)(t := BarSerial), br_log := br_log s @ [True]\<rparr>)"
| waits: "br_pc s t = BarOut \<Longrightarrow> arrive (br_bar s) = (False, b) \<Longrightarrow>
    bar_step arrive leave round s (s\<lparr>br_bar := b,
      br_pc := (br_pc s)(t := BarWait (round (br_bar s)) (length (br_log s))), br_log := br_log s @ [False]\<rparr>)"
| passes: "br_pc s t = BarWait r i \<Longrightarrow> round (br_bar s) \<noteq> r \<Longrightarrow>
    bar_step arrive leave round s (s\<lparr>br_bar := leave (br_bar s), br_pc := (br_pc s)(t := BarOut)\<rparr>)"
| serial: "br_pc s t = BarSerial \<Longrightarrow>
    bar_step arrive leave round s (s\<lparr>br_pc := (br_pc s)(t := BarOut)\<rparr>)"

inductive bar_reach :: "('b \<Rightarrow> bool \<times> 'b) \<Rightarrow> ('b \<Rightarrow> 'b) \<Rightarrow> ('b \<Rightarrow> u32) \<Rightarrow> 'b \<Rightarrow> 'b bar_sys \<Rightarrow> bool"
  for arrive leave round b0 where
  start: "bar_reach arrive leave round b0 \<lparr>br_bar = b0, br_pc = (\<lambda>_. BarOut), br_log = []\<rparr>"
| step: "bar_reach arrive leave round b0 s \<Longrightarrow> bar_step arrive leave round s s' \<Longrightarrow> bar_reach arrive leave round b0 s'"

text \<open>The serial arrivals are those that fill a round of so many; who waits arrived at its place, in its round, not last.\<close>

definition serials :: "nat \<Rightarrow> bool list \<Rightarrow> bool" where
  "serials n log \<longleftrightarrow> (\<forall>i < length log. log ! i \<longleftrightarrow> Suc i mod n = 0)"

definition ticket :: "nat \<Rightarrow> nat \<Rightarrow> u32 \<Rightarrow> nat \<Rightarrow> bool" where
  "ticket n m r i \<longleftrightarrow> i < m \<and> r = of_nat (i div n) \<and> Suc i mod n \<noteq> 0"

lemma serials_snoc: "serials n log \<Longrightarrow> (l \<longleftrightarrow> Suc (length log) mod n = 0) \<Longrightarrow> serials n (log @ [l])"
  by (auto simp: serials_def nth_append less_Suc_eq)

lemma next_div: "Suc (m mod n) = n \<Longrightarrow> Suc m mod n = 0 \<and> Suc m div n = Suc (m div n)"
  "Suc (m mod n) < n \<Longrightarrow> Suc m mod n = Suc (m mod n) \<and> Suc m div n = m div n"
  by (auto simp: mod_Suc div_Suc)

lemma full_div: "0 < n \<Longrightarrow> (q + 1) * n \<le> m \<longleftrightarrow> q < m div (n::nat)"
  by (metis Suc_eq_plus1 less_eq_Suc_le less_eq_div_iff_mult_less_eq)

text \<open>
  What a barrier of \<^verbatim>\<open>n\<close> promises: every n-th arrival is the serial one; a waiter may pass only once its round
  is full, and may from then on, for fewer than 2^32 more rounds.
\<close>

definition opens_in_rounds :: "('b \<Rightarrow> u32) \<Rightarrow> nat \<Rightarrow> 'b bar_sys \<Rightarrow> bool" where
  "opens_in_rounds round n s \<longleftrightarrow> serials n (br_log s) \<and>
     (\<forall>t r i. br_pc s t = BarWait r i \<longrightarrow>
        (round (br_bar s) \<noteq> r \<longrightarrow> (i div n + 1) * n \<le> length (br_log s)) \<and>
        ((i div n + 1) * n \<le> length (br_log s) \<longrightarrow> length (br_log s) < (i div n + 2 ^ 32) * n \<longrightarrow>
           round (br_bar s) \<noteq> r))"

text \<open>What the protocol needs: a well-formed barrier that knows its size and how many are present in this round.\<close>

locale barrier =
  fixes arrive :: "'b \<Rightarrow> bool \<times> 'b" and leave :: "'b \<Rightarrow> 'b" and round :: "'b \<Rightarrow> u32"
    and members present :: "'b \<Rightarrow> nat" and bar_ok :: "'b \<Rightarrow> bool"
  assumes last_of_round: "bar_ok b \<Longrightarrow> arrive b = (l, b') \<Longrightarrow> l \<longleftrightarrow> Suc (present b) = members b"
    and arrived: "bar_ok b \<Longrightarrow> arrive b = (l, b') \<Longrightarrow>
      bar_ok b' \<and> members b' = members b \<and> present b' = (if l then 0 else Suc (present b)) \<and>
      round b' = (if l then round b + 1 else round b)"
    and left_alone: "bar_ok b \<Longrightarrow>
      bar_ok (leave b) \<and> members (leave b) = members b \<and> present (leave b) = present b \<and> round (leave b) = round b"
    and room: "bar_ok b \<Longrightarrow> present b < members b"
begin

definition fresh :: "nat \<Rightarrow> 'b \<Rightarrow> bool" where
  "fresh n b \<longleftrightarrow> bar_ok b \<and> members b = n \<and> present b = 0 \<and> round b = 0"

text \<open>After so many arrivals.\<close>

definition bar_at :: "nat \<Rightarrow> nat \<Rightarrow> 'b \<Rightarrow> bool" where
  "bar_at n m b \<longleftrightarrow> bar_ok b \<and> members b = n \<and> present b = m mod n \<and> round b = of_nat (m div n)"

definition bar_inv :: "nat \<Rightarrow> 'b bar_sys \<Rightarrow> bool" where
  "bar_inv n s \<longleftrightarrow> bar_at n (length (br_log s)) (br_bar s) \<and> serials n (br_log s) \<and>
     (\<forall>t r i. br_pc s t = BarWait r i \<longrightarrow> ticket n (length (br_log s)) r i)"

lemma at_arrive:
  assumes at: "bar_at n m b" and arr: "arrive b = (l, b')"
  shows "(l \<longleftrightarrow> Suc m mod n = 0) \<and> bar_at n (Suc m) b'"
proof -
  have ok: "bar_ok b" "members b = n" "present b = m mod n" "round b = of_nat (m div n)"
    using at by (simp_all add: bar_at_def)
  have l: "l \<longleftrightarrow> Suc (m mod n) = n" using last_of_round [OF ok(1) arr] ok by simp
  have b: "bar_ok b'" "members b' = n" "present b' = (if l then 0 else Suc (m mod n))"
    "round b' = (if l then of_nat (m div n) + 1 else of_nat (m div n))"
    using arrived [OF ok(1) arr] ok by simp_all
  have "m mod n < n" using room [OF ok(1)] ok by metis
  then have "Suc (m mod n) = n \<or> Suc (m mod n) < n" by linarith
  then show ?thesis
  proof
    assume last: "Suc (m mod n) = n"
    then show ?thesis using l b next_div(1) [OF last] by (simp add: bar_at_def)
  next
    assume less: "Suc (m mod n) < n"
    then show ?thesis using l b next_div(2) [OF less] by (simp add: bar_at_def)
  qed
qed

lemma at_leave: "bar_at n m b \<Longrightarrow> bar_at n m (leave b)"
  using left_alone by (simp add: bar_at_def)

lemma inv_arrive:
  assumes inv: "bar_inv n s" and arr: "arrive (br_bar s) = (l, b)"
    and p: "\<And>r i. p = BarWait r i \<Longrightarrow> \<not> l \<and> r = round (br_bar s) \<and> i = length (br_log s)"
  shows "bar_inv n (s\<lparr>br_bar := b, br_pc := (br_pc s)(t := p), br_log := br_log s @ [l]\<rparr>)"
proof -
  have at: "bar_at n (length (br_log s)) (br_bar s)" and ser: "serials n (br_log s)"
    and tick: "\<And>t r i. br_pc s t = BarWait r i \<Longrightarrow> ticket n (length (br_log s)) r i"
    using inv by (simp_all add: bar_inv_def)
  have nxt: "l \<longleftrightarrow> Suc (length (br_log s)) mod n = 0" "bar_at n (Suc (length (br_log s))) b"
    using at_arrive [OF at arr] by simp_all
  have "ticket n (Suc (length (br_log s))) r i" if "((br_pc s)(t := p)) u = BarWait r i" for u r i
  proof (cases "u = t")
    case True
    then have "\<not> l" "r = round (br_bar s)" "i = length (br_log s)" using p that by auto
    then show ?thesis using nxt(1) at by (simp add: ticket_def bar_at_def)
  next
    case False
    then show ?thesis using tick [of u r i] that by (simp add: ticket_def)
  qed
  then show ?thesis using nxt serials_snoc [OF ser nxt(1)] by (simp add: bar_inv_def)
qed

lemma inv_step:
  assumes inv: "bar_inv n s" and step: "bar_step arrive leave round s s'"
  shows "bar_inv n s'"
  using step
proof (cases rule: bar_step.cases)
  case (last t b)
  then show ?thesis using inv_arrive [OF inv last(3), of BarSerial t] by simp
next
  case (waits t b)
  then show ?thesis using inv_arrive [OF inv waits(3), of "BarWait (round (br_bar s)) (length (br_log s))" t] by simp
next
  case (passes t r i)
  then show ?thesis using inv at_leave by (simp add: bar_inv_def)
next
  case (serial t)
  then show ?thesis using inv by (simp add: bar_inv_def)
qed

lemma reach_inv:
  assumes "bar_reach arrive leave round b0 s" "fresh n b0"
  shows "bar_inv n s"
  using assms(1)
proof (induction rule: bar_reach.induct)
  case start
  then show ?case using assms(2) by (simp add: fresh_def bar_inv_def bar_at_def serials_def)
next
  case (step s s')
  then show ?case using inv_step by blast
qed

lemma opens_when_full:
  assumes reach: "bar_reach arrive leave round b0 s" and new: "fresh n b0" and pc: "br_pc s t = BarWait r i"
  shows "round (br_bar s) \<noteq> r \<Longrightarrow> (i div n + 1) * n \<le> length (br_log s)"
    and "(i div n + 1) * n \<le> length (br_log s) \<Longrightarrow> length (br_log s) < (i div n + 2 ^ 32) * n \<Longrightarrow> round (br_bar s) \<noteq> r"
proof -
  define m where "m = length (br_log s)"
  have inv: "round (br_bar s) = of_nat (m div n)" "r = of_nat (i div n)" "i < m"
    using reach_inv [OF reach new] pc by (simp_all add: bar_inv_def bar_at_def ticket_def m_def)
  have n: "0 < n" using reach_inv [OF reach new] room [of "br_bar s"] by (auto simp: bar_inv_def bar_at_def)
  have le: "i div n \<le> m div n" using inv(3) by (simp add: div_le_mono)
  have full: "(i div n + 1) * n \<le> m \<longleftrightarrow> i div n < m div n"
    using n by (rule full_div)
  show "round (br_bar s) \<noteq> r \<Longrightarrow> (i div n + 1) * n \<le> length (br_log s)"
    using inv(1,2) le full unfolding m_def [symmetric] by (cases "i div n = m div n") auto
  assume "(i div n + 1) * n \<le> length (br_log s)" "length (br_log s) < (i div n + 2 ^ 32) * n"
  then have d: "i div n < m div n" "m div n < i div n + 2 ^ 32"
    using full n unfolding m_def [symmetric] by (auto simp: div_less_iff_less_mult)
  show "round (br_bar s) \<noteq> r"
  proof
    assume "round (br_bar s) = r"
    then have "(of_nat (m div n) :: u32) = of_nat (i div n)" using inv by simp
    then have "(of_nat (m div n - i div n) :: u32) = 0" using d by (simp add: of_nat_diff)
    then have "2 ^ 32 dvd m div n - i div n" by (simp add: word_of_nat_eq_0_iff)
    then show False using d by (auto dest!: dvd_imp_le)
  qed
qed

lemma in_rounds:
  assumes "bar_reach arrive leave round b0 s" "fresh n b0"
  shows "opens_in_rounds round n s"
  using reach_inv [OF assms] opens_when_full [OF assms] unfolding opens_in_rounds_def bar_inv_def
  by (metis (no_types, lifting))

end

definition win_bar_ok :: "win_barrier \<Rightarrow> bool" where
  "win_bar_ok b \<longleftrightarrow> 0 < wb_remaining b \<and> wb_remaining b \<le> wb_count b"

definition darwin_bar_ok :: "darwin_barrier \<Rightarrow> bool" where
  "darwin_bar_ok b \<longleftrightarrow> db_arrived b < db_count b"

definition win_leave :: "win_barrier \<Rightarrow> win_barrier" where
  "win_leave b = snd (win_barrier_leave b)"

lemma win_arrive_last: "win_bar_ok b \<Longrightarrow> win_barrier_arrive b = (l, b') \<Longrightarrow> l \<longleftrightarrow> wb_remaining b = 1"
  by (auto simp: win_barrier_arrive_def Let_def win_bar_ok_def split: if_splits)

lemma unat_lt: "unat (w :: u32) < 2 ^ 32"
  using unsigned_less [of w] by simp

lemma darwin_arrive_last:
  "darwin_bar_ok b \<Longrightarrow> darwin_barrier_arrive b = (l, b') \<Longrightarrow>
     (l \<longleftrightarrow> Suc (unat (db_arrived b)) = unat (db_count b)) \<and> unat (db_arrived b + 1) = Suc (unat (db_arrived b))"
proof -
  assume ok: "darwin_bar_ok b" and arr: "darwin_barrier_arrive b = (l, b')"
  have u: "unat (db_arrived b + 1) = Suc (unat (db_arrived b))"
    using ok unat_lt [of "db_count b"] by (simp add: darwin_bar_ok_def word_less_nat_alt unat_word_ariths)
  have "l \<longleftrightarrow> db_arrived b + 1 = db_count b"
    using arr by (auto simp: darwin_barrier_arrive_def Let_def split: if_splits)
  then show ?thesis using u by (metis word_unat_eq_iff)
qed

interpretation win_bar: barrier win_barrier_arrive win_leave wb_generation "\<lambda>b. nat (wb_count b)"
  "\<lambda>b. nat (wb_count b - wb_remaining b)" win_bar_ok
proof unfold_locales
  fix b b' :: win_barrier and l
  assume ok: "win_bar_ok b"
  show "l \<longleftrightarrow> Suc (nat (wb_count b - wb_remaining b)) = nat (wb_count b)" if "win_barrier_arrive b = (l, b')"
    using win_arrive_last [OF ok that] ok by (auto simp: win_bar_ok_def)
  show "win_bar_ok b' \<and> nat (wb_count b') = nat (wb_count b) \<and>
      nat (wb_count b' - wb_remaining b') = (if l then 0 else Suc (nat (wb_count b - wb_remaining b))) \<and>
      wb_generation b' = (if l then wb_generation b + 1 else wb_generation b)"
    if "win_barrier_arrive b = (l, b')"
    using that ok by (auto simp: win_barrier_arrive_def Let_def win_bar_ok_def split: if_splits)
  show "win_bar_ok (win_leave b) \<and> nat (wb_count (win_leave b)) = nat (wb_count b) \<and>
      nat (wb_count (win_leave b) - wb_remaining (win_leave b)) = nat (wb_count b - wb_remaining b) \<and>
      wb_generation (win_leave b) = wb_generation b"
    using ok by (simp add: win_leave_def win_barrier_leave_def Let_def win_bar_ok_def)
  show "nat (wb_count b - wb_remaining b) < nat (wb_count b)" using ok by (auto simp: win_bar_ok_def)
qed

interpretation mac_bar: barrier darwin_barrier_arrive "\<lambda>b. b" db_cycle "\<lambda>b. unat (db_count b)" "\<lambda>b. unat (db_arrived b)"
  darwin_bar_ok
proof unfold_locales
  fix b b' :: darwin_barrier and l
  assume ok: "darwin_bar_ok b"
  show "l \<longleftrightarrow> Suc (unat (db_arrived b)) = unat (db_count b)" if "darwin_barrier_arrive b = (l, b')"
    using darwin_arrive_last [OF ok that] by blast
  show "darwin_bar_ok b' \<and> unat (db_count b') = unat (db_count b) \<and>
      unat (db_arrived b') = (if l then 0 else Suc (unat (db_arrived b))) \<and>
      db_cycle b' = (if l then db_cycle b + 1 else db_cycle b)"
    if arr: "darwin_barrier_arrive b = (l, b')"
    using darwin_arrive_last [OF ok arr] arr ok
    by (auto simp: darwin_barrier_arrive_def Let_def darwin_bar_ok_def word_less_nat_alt unat_arith_simps split: if_splits)
  show "darwin_bar_ok b \<and> unat (db_count b) = unat (db_count b) \<and> unat (db_arrived b) = unat (db_arrived b) \<and>
      db_cycle b = db_cycle b" using ok by simp
  show "unat (db_arrived b) < unat (db_count b)" using ok by (simp add: darwin_bar_ok_def word_less_nat_alt)
qed

text \<open>Who waits on the Windows barrier is counted there.\<close>

definition inside :: "'b bar_sys \<Rightarrow> nat set" where
  "inside s = {t. \<exists>r i. br_pc s t = BarWait r i}"

definition counted :: "win_barrier bar_sys \<Rightarrow> bool" where
  "counted s \<longleftrightarrow> finite (inside s) \<and> wb_waiters (br_bar s) = int (card (inside s))"

lemma counted_step:
  assumes counted: "counted s" and step: "bar_step win_barrier_arrive win_leave wb_generation s s'"
  shows "counted s'"
  using step
proof (cases rule: bar_step.cases)
  case (last t b)
  have "inside s' = inside s" using last by (auto simp: inside_def)
  then show ?thesis using counted last
    by (auto simp: counted_def win_barrier_arrive_def Let_def split: if_splits)
next
  case (waits t b)
  have "inside s' = insert t (inside s)" "t \<notin> inside s" using waits by (auto simp: inside_def)
  moreover have "wb_waiters b = wb_waiters (br_bar s) + 1"
    using waits by (auto simp: win_barrier_arrive_def Let_def split: if_splits)
  ultimately show ?thesis using counted waits by (simp add: counted_def)
next
  case (passes t r i)
  have t: "inside s' = inside s - {t}" "t \<in> inside s" using passes by (auto simp: inside_def)
  moreover have "card (inside s) = Suc (card (inside s - {t}))"
    using t counted by (intro card.remove) (auto simp: counted_def)
  ultimately show ?thesis using counted passes by (simp add: counted_def win_leave_def win_barrier_leave_def Let_def)
next
  case (serial t)
  have "inside s' = inside s" using serial by (auto simp: inside_def)
  then show ?thesis using counted serial by (simp add: counted_def)
qed

lemma reach_counted:
  assumes "bar_reach win_barrier_arrive win_leave wb_generation b0 s" "wb_waiters b0 = 0"
  shows "counted s"
  using assms(1)
proof (induction rule: bar_reach.induct)
  case start
  then show ?case using assms(2) by (simp add: counted_def inside_def)
next
  case (step s s')
  then show ?case using counted_step by blast
qed

lemma win_bar_fresh:
  "sppc_pthread_barrier_init_win c = Some b \<Longrightarrow> 0 \<le> c \<Longrightarrow> win_bar.fresh (nat c) b \<and> wb_waiters b = 0 \<and> 0 < c"
  by (auto simp: sppc_pthread_barrier_init_win_def win_bar.fresh_def win_bar_ok_def split: if_splits)

lemma mac_bar_fresh:
  assumes "darwin_barrier_init c = Some b"
  shows "mac_bar.fresh (unat c) b"
proof -
  have c: "c \<noteq> 0" "c \<le> 0xFFFFFFFF" and b: "b = \<lparr>db_count = ucast c, db_arrived = 0, db_cycle = 0\<rparr>"
    using assms by (auto simp: darwin_barrier_init_def split: if_splits)
  have u: "unat (ucast c :: u32) = unat c"
    using c(2) by (simp add: unsigned_ucast_eq take_bit_eq_mod word_le_nat_alt)
  then have "0 < unat (ucast c :: u32)" using c(1) by (simp add: unat_gt_0)
  then show ?thesis using u by (simp add: b mac_bar.fresh_def darwin_bar_ok_def word_less_nat_alt)
qed

text \<open>C12: a barrier of \<^verbatim>\<open>n\<close>, on Windows and on Darwin, opens for whole rounds: of all the arrivals, exactly every n-th is
  told it is the serial one; a thread that waits can pass only once its round's n have arrived, and can from then on
  (for as long as fewer than 2^32 more rounds go by). On Windows the barrier can be destroyed exactly when no round
  is part-way and no thread is still inside a wait.\<close>

theorem barrier_rounds:
  assumes "sppc_pthread_barrier_init_win c = Some b" "0 \<le> c"
    and "bar_reach win_barrier_arrive win_leave wb_generation b s"
    and "darwin_barrier_init (of_int c) = Some d" "c < 2 ^ 64"
    and "bar_reach darwin_barrier_arrive (\<lambda>b. b) db_cycle d s'"
  shows "opens_in_rounds wb_generation (nat c) s \<and> opens_in_rounds db_cycle (nat c) s' \<and>
    (sppc_pthread_barrier_destroy_win (br_bar s) = Some OK \<longleftrightarrow>
       length (br_log s) mod nat c = 0 \<and> (\<forall>t r i. br_pc s t \<noteq> BarWait r i))"
proof -
  have w: "win_bar.fresh (nat c) b" "wb_waiters b = 0" "0 < c" using win_bar_fresh assms(1,2) by blast+
  have "unat (of_int c :: u64) = nat c"
    using assms(2,5) by (simp add: unat_eq_nat_uint uint_word_of_int)
  then have m: "mac_bar.fresh (nat c) d" using mac_bar_fresh [OF assms(4)] by simp
  have inv: "win_bar.bar_inv (nat c) s" by (rule win_bar.reach_inv [OF assms(3) w(1)])
  have d: "counted s" by (rule reach_counted [OF assms(3) w(2)])
  have "wb_remaining (br_bar s) = wb_count (br_bar s) \<longleftrightarrow> length (br_log s) mod nat c = 0"
    using inv by (auto simp: win_bar.bar_inv_def win_bar.bar_at_def win_bar_ok_def)
  moreover have "wb_waiters (br_bar s) = 0 \<longleftrightarrow> (\<forall>t r i. br_pc s t \<noteq> BarWait r i)"
    using d by (auto simp: counted_def inside_def)
  ultimately have "sppc_pthread_barrier_destroy_win (br_bar s) = Some OK \<longleftrightarrow>
       length (br_log s) mod nat c = 0 \<and> (\<forall>t r i. br_pc s t \<noteq> BarWait r i)"
    by (auto simp: sppc_pthread_barrier_destroy_win_def)
  then show ?thesis
    using win_bar.in_rounds [OF assms(3) w(1)] mac_bar.in_rounds [OF assms(6) m] by blast
qed

lemma barrier_rounds_witness:
  "\<exists>b s. sppc_pthread_barrier_init_win 2 = Some b \<and> bar_reach win_barrier_arrive win_leave wb_generation b s \<and>
     br_pc s 5 = BarWait 0 0 \<and> opens_in_rounds wb_generation 2 s \<and>
     sppc_pthread_barrier_destroy_win (br_bar s) \<noteq> Some OK"
proof -
  define b where "b = \<lparr>wb_count = 2, wb_remaining = 2, wb_generation = 0, wb_waiters = 0\<rparr>"
  define d :: darwin_barrier where "d = \<lparr>db_count = 2, db_arrived = 0, db_cycle = 0\<rparr>"
  define s0 where "s0 = \<lparr>br_bar = b, br_pc = (\<lambda>_. BarOut), br_log = []\<rparr>"
  define b1 where "b1 = b\<lparr>wb_remaining := 1, wb_waiters := 1\<rparr>"
  define s where "s = s0\<lparr>br_bar := b1, br_pc := (br_pc s0)(5 := BarWait 0 0), br_log := [False]\<rparr>"
  define s' where "s' = \<lparr>br_bar = d, br_pc = (\<lambda>_. BarOut), br_log = []\<rparr>"
  have i: "sppc_pthread_barrier_init_win 2 = Some b" "darwin_barrier_init (of_int 2) = Some d"
    by (simp_all add: sppc_pthread_barrier_init_win_def darwin_barrier_init_def b_def d_def)
  have "bar_step win_barrier_arrive win_leave wb_generation s0 (s0\<lparr>br_bar := b1,
      br_pc := (br_pc s0)(5 := BarWait (wb_generation (br_bar s0)) (length (br_log s0))), br_log := br_log s0 @ [False]\<rparr>)"
    by (rule bar_step.waits) (simp_all add: s0_def b_def b1_def win_barrier_arrive_def)
  then have st: "bar_step win_barrier_arrive win_leave wb_generation s0 s" by (simp add: s_def s0_def b_def)
  have "bar_reach win_barrier_arrive win_leave wb_generation b s0" unfolding s0_def by (rule bar_reach.start)
  then have r: "bar_reach win_barrier_arrive win_leave wb_generation b s" using st by (rule bar_reach.step)
  have r': "bar_reach darwin_barrier_arrive (\<lambda>b. b) db_cycle d s'" unfolding s'_def by (rule bar_reach.start)
  have pc: "br_pc s 5 = BarWait 0 0" by (simp add: s_def)
  have "opens_in_rounds wb_generation 2 s \<and> sppc_pthread_barrier_destroy_win (br_bar s) \<noteq> Some OK"
    using barrier_rounds [OF i(1) _ r i(2) _ r'] pc by auto
  then show ?thesis using i(1) r pc by blast
qed

end
