(* ===== verification/WinHeap.thy ===== *)
theory WinHeap
  imports WinClock
begin

text \<open>
  The heap on Windows (platform/windows.h, HEAP ALLOCATION): every block of sppc's carries a header 16 bytes below
  it, in a block of the C library. The C library's heap is its blocks, the memory is the bytes and the headers by
  their address; where it puts a block is an argument (\<^verbatim>\<open>place\<close>), and what it frees or resizes must be a block
  of its own: None is undefined behaviour.
\<close>

record win_heap =
  hp_blocks :: "u64 \<rightharpoonup> u64"          \<comment> \<open>the C library's, with their bytes\<close>
  hp_heads :: "u64 \<rightharpoonup> u64 \<times> u64"      \<comment> \<open>raw and size, at the header's address\<close>
  hp_bytes :: "u64 \<Rightarrow> u8"
  hp_errno :: "crt_ret option"

text \<open>Where a block of so many bytes goes, the one that it takes the place of apart.\<close>

type_synonym crt_place = "win_heap \<Rightarrow> u64 option \<Rightarrow> u64 \<Rightarrow> u64 option"

definition HEAP_HEAD :: u64 where "HEAP_HEAD = 16"

definition within :: "u64 \<Rightarrow> u64 \<Rightarrow> u64 \<Rightarrow> bool" where
  "within p n x \<longleftrightarrow> unat p \<le> unat x \<and> unat x < unat p + unat n"

definition crt_malloc :: "crt_place \<Rightarrow> u64 \<Rightarrow> win_heap \<Rightarrow> u64 option \<times> win_heap" where
  "crt_malloc place n h =
     (case place h None n of None \<Rightarrow> (None, h\<lparr>hp_errno := Some ENOMEM\<rparr>)
      | Some p \<Rightarrow> (Some p, h\<lparr>hp_blocks := (hp_blocks h)(p \<mapsto> n)\<rparr>))"

definition crt_calloc :: "crt_place \<Rightarrow> u64 \<Rightarrow> win_heap \<Rightarrow> u64 option \<times> win_heap" where
  "crt_calloc place n h =
     (case crt_malloc place n h of (None, h1) \<Rightarrow> (None, h1)
      | (Some p, h1) \<Rightarrow> (Some p, h1\<lparr>hp_bytes := (\<lambda>x. if within p n x then 0 else hp_bytes h1 x)\<rparr>))"

definition crt_free :: "u64 \<Rightarrow> win_heap \<Rightarrow> win_heap option" where
  "crt_free raw h =
     (case hp_blocks h raw of None \<Rightarrow> None
      | Some n \<Rightarrow> Some (h\<lparr>hp_blocks := (hp_blocks h)(raw := None),
          hp_heads := (\<lambda>a. if within raw n a then None else hp_heads h a)\<rparr>))"

definition crt_realloc :: "crt_place \<Rightarrow> u64 \<Rightarrow> u64 \<Rightarrow> win_heap \<Rightarrow> (u64 option \<times> win_heap) option" where
  "crt_realloc place raw n h =
     (case hp_blocks h raw of None \<Rightarrow> None
      | Some old \<Rightarrow>
        (case place h (Some raw) n of None \<Rightarrow> Some (None, h\<lparr>hp_errno := Some ENOMEM\<rparr>)
         | Some p \<Rightarrow> Some (Some p, h\<lparr>hp_blocks := (hp_blocks h)(raw := None, p \<mapsto> n),
             hp_heads := (\<lambda>a. if within raw old a then None else hp_heads h a),
             hp_bytes := (\<lambda>x. if within p (min old n) x then hp_bytes h (x - p + raw) else hp_bytes h x)\<rparr>)))"

definition heap_head_of :: "u64 \<Rightarrow> u64" where
  "heap_head_of ptr = ptr - HEAP_HEAD"

definition heap_place :: "u64 option \<times> win_heap \<Rightarrow> u64 \<Rightarrow> u64 \<Rightarrow> u64 option \<times> win_heap" where
  "heap_place got sz align =
     (case got of (None, h) \<Rightarrow> (None, h)
      | (Some raw, h) \<Rightarrow>
          let user = (raw + HEAP_HEAD + (align - 1)) AND NOT (align - 1)
          in (Some user, h\<lparr>hp_heads := (hp_heads h)(heap_head_of user \<mapsto> (raw, sz))\<rparr>))"

definition heap_overflows :: "u64 \<Rightarrow> u64 \<Rightarrow> bool" where
  "heap_overflows sz extra \<longleftrightarrow> \<not> sz \<le> - 1 - extra"

definition out_of_memory :: "win_heap \<Rightarrow> u64 option \<times> win_heap" where
  "out_of_memory h = (None, h\<lparr>hp_errno := Some ENOMEM\<rparr>)"

definition sppc_malloc_win :: "crt_place \<Rightarrow> u64 \<Rightarrow> win_heap \<Rightarrow> u64 option \<times> win_heap" where
  "sppc_malloc_win place sz h =
     (if heap_overflows sz HEAP_HEAD then out_of_memory h
      else heap_place (crt_malloc place (sz + HEAP_HEAD) h) sz HEAP_HEAD)"

definition sppc_aligned_alloc_win :: "crt_place \<Rightarrow> u64 \<Rightarrow> u64 \<Rightarrow> win_heap \<Rightarrow> u64 option \<times> win_heap" where
  "sppc_aligned_alloc_win place sz alignment h =
     (if alignment = 0 \<or> alignment AND (alignment - 1) \<noteq> 0 then (None, h\<lparr>hp_errno := Some EINVAL\<rparr>)
      else if alignment \<le> HEAP_HEAD then sppc_malloc_win place sz h
      else if heap_overflows sz (HEAP_HEAD + alignment) then out_of_memory h
      else heap_place (crt_malloc place (sz + HEAP_HEAD + alignment) h) sz alignment)"

definition sppc_calloc_win :: "crt_place \<Rightarrow> u64 \<Rightarrow> u64 \<Rightarrow> win_heap \<Rightarrow> u64 option \<times> win_heap" where
  "sppc_calloc_win place num sz h =
     (if sz \<noteq> 0 \<and> num > (- 1) div sz then out_of_memory h
      else if heap_overflows (num * sz) HEAP_HEAD then out_of_memory h
      else heap_place (crt_calloc place (num * sz + HEAP_HEAD) h) (num * sz) HEAP_HEAD)"

definition sppc_free_win :: "u64 option \<Rightarrow> win_heap \<Rightarrow> win_heap option" where
  "sppc_free_win ptr h =
     (case ptr of None \<Rightarrow> Some h
      | Some p \<Rightarrow> (case hp_heads h (heap_head_of p) of None \<Rightarrow> None | Some (raw, _) \<Rightarrow> crt_free raw h))"

definition copied :: "u64 \<Rightarrow> u64 \<Rightarrow> u64 \<Rightarrow> win_heap \<Rightarrow> win_heap" where
  "copied to from n h =
     h\<lparr>hp_bytes := (\<lambda>x. if within to n x then hp_bytes h (x - to + from) else hp_bytes h x)\<rparr>"

definition sppc_realloc_win :: "crt_place \<Rightarrow> u64 option \<Rightarrow> u64 \<Rightarrow> win_heap \<Rightarrow> (u64 option \<times> win_heap) option" where
  "sppc_realloc_win place ptr new_size h =
     (case ptr of None \<Rightarrow> Some (sppc_malloc_win place new_size h)
      | Some p \<Rightarrow>
        if new_size = 0 then map_option (\<lambda>h1. (None, h1)) (sppc_free_win ptr h)
        else (case hp_heads h (heap_head_of p) of None \<Rightarrow> None
          | Some (raw, sz) \<Rightarrow>
            if raw = heap_head_of p then
              (if heap_overflows new_size HEAP_HEAD then Some (out_of_memory h)
               else map_option (\<lambda>got. heap_place got new_size HEAP_HEAD) (crt_realloc place raw (new_size + HEAP_HEAD) h))
            else (case sppc_malloc_win place new_size h of (None, h1) \<Rightarrow> Some (None, h1)
              | (Some moved, h1) \<Rightarrow>
                  map_option (\<lambda>h2. (Some moved, h2)) (crt_free raw (copied moved p (if sz < new_size then sz else new_size) h1)))))"

section \<open>What the C library promises, and what the heap keeps\<close>

text \<open>A block is 16-aligned, not NULL, inside the address space and apart from every other, the one it replaces apart.\<close>

definition apart :: "u64 \<Rightarrow> u64 \<Rightarrow> u64 \<Rightarrow> u64 \<Rightarrow> bool" where
  "apart p n q m \<longleftrightarrow> unat p + unat n \<le> unat q \<or> unat q + unat m \<le> unat p"

definition placed_well :: "crt_place \<Rightarrow> bool" where
  "placed_well place \<longleftrightarrow> (\<forall>h old n p. place h old n = Some p \<longrightarrow>
     p \<noteq> 0 \<and> 16 dvd unat p \<and> unat p + unat n < 2 ^ 64 \<and>
     (\<forall>q m. hp_blocks h q = Some m \<longrightarrow> old \<noteq> Some q \<longrightarrow> q \<noteq> p \<and> apart p n q m))"

definition blocks_ok :: "(u64 \<rightharpoonup> u64) \<Rightarrow> bool" where
  "blocks_ok bs \<longleftrightarrow>
     (\<forall>p n. bs p = Some n \<longrightarrow> p \<noteq> 0 \<and> 16 dvd unat p \<and> unat p + unat n < 2 ^ 64) \<and>
     (\<forall>p n q m. bs p = Some n \<longrightarrow> bs q = Some m \<longrightarrow> p \<noteq> q \<longrightarrow> apart p n q m)"

text \<open>The header at an address fits its C library block, with the bytes above it.\<close>

definition head_fits :: "u64 \<Rightarrow> u64 \<Rightarrow> u64 \<Rightarrow> u64 \<Rightarrow> bool" where
  "head_fits raw n a sz \<longleftrightarrow> unat raw \<le> unat a \<and> unat a + 16 + unat sz \<le> unat raw + unat n \<and> 16 dvd unat a"

definition maps_ok :: "(u64 \<rightharpoonup> u64) \<Rightarrow> (u64 \<rightharpoonup> u64 \<times> u64) \<Rightarrow> bool" where
  "maps_ok bs hs \<longleftrightarrow> blocks_ok bs \<and>
     (\<forall>a raw sz. hs a = Some (raw, sz) \<longrightarrow> (\<exists>n. bs raw = Some n \<and> head_fits raw n a sz)) \<and>
     (\<forall>a b raw sz sz'. hs a = Some (raw, sz) \<longrightarrow> hs b = Some (raw, sz') \<longrightarrow> a = b) \<and>
     (\<forall>raw n. bs raw = Some n \<longrightarrow> (\<exists>a sz. hs a = Some (raw, sz)))"

definition heap_ok :: "win_heap \<Rightarrow> bool" where
  "heap_ok h \<longleftrightarrow> maps_ok (hp_blocks h) (hp_heads h)"

text \<open>A block the program holds, and its size.\<close>

definition user_block :: "win_heap \<Rightarrow> u64 \<Rightarrow> u64 \<Rightarrow> bool" where
  "user_block h p sz \<longleftrightarrow> (\<exists>raw. hp_heads h (heap_head_of p) = Some (raw, sz))"

definition gone :: "u64 \<Rightarrow> u64 \<Rightarrow> (u64 \<rightharpoonup> u64 \<times> u64) \<Rightarrow> (u64 \<rightharpoonup> u64 \<times> u64)" where
  "gone raw n hs = (\<lambda>a. if within raw n a then None else hs a)"

lemma apart_within: "apart p n q m \<Longrightarrow> within p n x \<Longrightarrow> \<not> within q m x"
  by (auto simp: apart_def within_def)

lemma apart_sym: "apart p n q m = apart q m p n"
  by (auto simp: apart_def)

lemma head_within: "head_fits raw n a sz \<Longrightarrow> within raw n a"
  by (simp add: head_fits_def within_def)

lemma maps_head:
  "maps_ok bs hs \<Longrightarrow> hs a = Some (raw, sz) \<Longrightarrow> \<exists>n. bs raw = Some n \<and> head_fits raw n a sz"
  by (simp add: maps_ok_def)

lemma maps_one: "maps_ok bs hs \<Longrightarrow> hs a = Some (raw, sz) \<Longrightarrow> hs b = Some (raw, sz') \<Longrightarrow> a = b"
  by (auto simp: maps_ok_def)

lemma maps_apart: "maps_ok bs hs \<Longrightarrow> bs p = Some n \<Longrightarrow> bs q = Some m \<Longrightarrow> p \<noteq> q \<Longrightarrow> apart p n q m"
  by (simp add: maps_ok_def blocks_ok_def)

lemma gone_eq:
  assumes ok: "maps_ok bs hs" and raw: "bs raw = Some n" and hd: "hs a = Some (r, sz)"
  shows "gone raw n hs a = (if r = raw then None else Some (r, sz))"
proof -
  obtain m where m: "bs r = Some m" "head_fits r m a sz" using maps_head [OF ok hd] by blast
  have "within raw n a \<longleftrightarrow> r = raw"
    using head_within [OF m(2)] maps_apart [OF ok raw m(1)] apart_within [of raw n r m a] m(1) raw by auto
  then show ?thesis using hd by (simp add: gone_def)
qed

lemma gone_Some:
  assumes ok: "maps_ok bs hs" and raw: "bs raw = Some n"
  shows "gone raw n hs a = Some (r, sz) \<longleftrightarrow> hs a = Some (r, sz) \<and> r \<noteq> raw"
proof (cases "hs a")
  case None
  then show ?thesis by (simp add: gone_def)
next
  case (Some x)
  then obtain r' sz' where x: "hs a = Some (r', sz')" by (cases x) simp
  then show ?thesis using gone_eq [OF ok raw x] by auto
qed

lemma maps_drop:
  assumes ok: "maps_ok bs hs" and raw: "bs raw = Some n"
  shows "maps_ok (bs(raw := None)) (gone raw n hs)"
  unfolding maps_ok_def [of "bs(raw := None)"] gone_Some [OF ok raw]
proof (intro conjI allI impI)
  show "blocks_ok (bs(raw := None))"
    using ok unfolding maps_ok_def blocks_ok_def by (auto split: if_splits)
  show "\<exists>m. (bs(raw := None)) r = Some m \<and> head_fits r m a sz" if "hs a = Some (r, sz) \<and> r \<noteq> raw" for a r sz
    using maps_head [OF ok, of a r sz] that by simp
  show "a = b" if "hs a = Some (r, sz) \<and> r \<noteq> raw" "hs b = Some (r, sz') \<and> r \<noteq> raw" for a b r sz sz'
    using maps_one [OF ok] that by blast
  show "\<exists>a sz. hs a = Some (r, sz) \<and> r \<noteq> raw" if "(bs(raw := None)) r = Some m" for r m
    using that ok by (auto simp: maps_ok_def split: if_splits)
qed

lemma maps_add:
  assumes ok: "maps_ok bs hs" and new: "p \<noteq> 0" "16 dvd unat p" "unat p + unat n < 2 ^ 64"
    and clear: "\<And>q m. bs q = Some m \<Longrightarrow> q \<noteq> p \<and> apart p n q m" and fits: "head_fits p n a sz"
  shows "maps_ok (bs(p \<mapsto> n)) (hs(a \<mapsto> (p, sz)))" and "hs a = None"
proof -
  show none: "hs a = None"
  proof (rule ccontr)
    assume "hs a \<noteq> None"
    then obtain r s where r: "hs a = Some (r, s)" by fastforce
    obtain m where m: "bs r = Some m" "head_fits r m a s" using maps_head [OF ok r] by blast
    then show False using clear [OF m(1)] apart_within head_within [OF fits] head_within [OF m(2)] by blast
  qed
  have free: "bs p = None" using clear [of p] by (cases "bs p") auto
  have "blocks_ok (bs(p \<mapsto> n))" unfolding blocks_ok_def
  proof (intro conjI allI impI)
    show "q \<noteq> 0" "16 dvd unat q" "unat q + unat m < 2 ^ 64" if "(bs(p \<mapsto> n)) q = Some m" for q m
      using that new ok by (auto simp: maps_ok_def blocks_ok_def split: if_splits)
    show "apart q m q' m'" if "(bs(p \<mapsto> n)) q = Some m" "(bs(p \<mapsto> n)) q' = Some m'" "q \<noteq> q'" for q m q' m'
      using that clear [of q m] clear [of q' m'] maps_apart [OF ok, of q m q' m'] apart_sym [of q m q' m']
      by (cases "q = p"; cases "q' = p") auto
  qed
  moreover have "\<exists>m. (bs(p \<mapsto> n)) r = Some m \<and> head_fits r m b s" if "(hs(a \<mapsto> (p, sz))) b = Some (r, s)" for b r s
  proof (cases "b = a")
    case True
    then show ?thesis using that fits by auto
  next
    case False
    then have "hs b = Some (r, s)" using that by simp
    then obtain m where "bs r = Some m" "head_fits r m b s" using maps_head [OF ok] by blast
    then show ?thesis using free by auto
  qed
  moreover have "b = c" if "(hs(a \<mapsto> (p, sz))) b = Some (r, s)" "(hs(a \<mapsto> (p, sz))) c = Some (r, s')" for b c r s s'
  proof -
    have "hs x \<noteq> Some (p, y)" for x y using maps_head [OF ok, of x p y] free by auto
    then show ?thesis using that maps_one [OF ok] by (auto split: if_splits)
  qed
  moreover have "\<exists>b s. (hs(a \<mapsto> (p, sz))) b = Some (r, s)" if "(bs(p \<mapsto> n)) r = Some m" for r m
  proof (cases "r = p")
    case False
    then have "bs r = Some m" using that by simp
    then obtain b s where "hs b = Some (r, s)" using ok unfolding maps_ok_def by blast
    then show ?thesis using none by (intro exI [of _ b] exI [of _ s]) auto
  qed auto
  ultimately show "maps_ok (bs(p \<mapsto> n)) (hs(a \<mapsto> (p, sz)))" unfolding maps_ok_def by blast
qed

section \<open>Where a block is placed\<close>

lemma place_user:
  fixes raw sz n :: u64
  assumes raw: "16 dvd unat raw" and k: "4 \<le> k" "k < 64"
    and room: "unat raw + unat n < 2 ^ 64" "unat n = unat sz + 16 + (if k = 4 then 0 else 2 ^ k)"
  defines "user \<equiv> (raw + HEAP_HEAD + (2 ^ k - 1)) AND NOT (2 ^ k - 1)"
  shows "2 ^ k dvd unat user" and "unat (heap_head_of user) + 16 = unat user"
    and "head_fits raw n (heap_head_of user) sz" and "k = 4 \<Longrightarrow> heap_head_of user = raw"
proof -
  have r16: "unat (raw + HEAP_HEAD) = unat raw + 16"
    using room by (simp add: HEAP_HEAD_def unat_word_ariths)
  obtain j where j: "unat raw = 16 * j" using raw by (elim dvdE) simp
  have over: "unat (raw + HEAP_HEAD) + 2 ^ k - 1 < 2 ^ 64"
  proof (cases "k = 4")
    case True
    have "j + 2 \<le> 1152921504606846976" using room True j by simp
    then show ?thesis using r16 True j by simp
  next
    case False
    then show ?thesis using r16 room by simp
  qed
  have u: "user = align_up (raw + HEAP_HEAD) (2 ^ k)" by (simp add: user_def align_up_def)
  have b: "unat raw + 16 \<le> unat user" "unat user < unat raw + 16 + 2 ^ k" "2 ^ k dvd unat user"
    using align_up_bounds [of k "raw + HEAP_HEAD"] over k r16 unfolding u by simp_all
  show "2 ^ k dvd unat user" by (rule b(3))
  have "HEAP_HEAD \<le> user" using b(1) by (simp add: HEAP_HEAD_def word_le_nat_alt)
  then have h: "unat (heap_head_of user) = unat user - 16"
    unfolding heap_head_of_def by (simp add: unat_sub HEAP_HEAD_def)
  then show hd: "unat (heap_head_of user) + 16 = unat user" using b(1) by simp
  have "(2::nat) ^ 4 dvd 2 ^ k" using k(1) by (rule le_imp_power_dvd)
  then have d: "16 dvd unat user" using b(3) by (simp add: dvd_trans [of 16 "2 ^ k"])
  have eq: "unat user = unat raw + 16" if "k = 4"
  proof -
    obtain i where "unat user = 16 * i" using d by (elim dvdE) simp
    moreover from this have "i = j + 1" using b(1,2) j that by simp
    ultimately show ?thesis using j by simp
  qed
  have d': "16 dvd unat (heap_head_of user)" using d h by (simp add: dvd_diff_nat)
  show "head_fits raw n (heap_head_of user) sz"
    using b hd room(2) d' eq by (cases "k = 4") (simp_all add: head_fits_def)
  show "heap_head_of user = raw" if "k = 4"
    using hd eq [OF that] by (simp add: word_unat_eq_iff)
qed

lemma user_within:
  assumes ok: "heap_ok h" and hd: "hp_heads h (heap_head_of q) = Some (r, s)" and blk: "hp_blocks h r = Some m"
    and x: "within q s x"
  shows "within r m x"
proof -
  have fits: "head_fits r m (heap_head_of q) s"
    using maps_head [OF ok [unfolded heap_ok_def] hd] blk by auto
  have "unat r + unat m < 2 ^ 64" using ok blk by (auto simp: heap_ok_def maps_ok_def blocks_ok_def)
  then have "unat (heap_head_of q) + 16 < 2 ^ 64" using fits by (simp add: head_fits_def)
  then have "unat (heap_head_of q + HEAP_HEAD) = unat (heap_head_of q) + 16"
    by (simp add: unat_word_ariths HEAP_HEAD_def)
  then have "unat q = unat (heap_head_of q) + 16" by (simp add: heap_head_of_def)
  then show ?thesis using fits x by (simp add: head_fits_def within_def)
qed

text \<open>
  What an allocation does: refused, it changes nothing but errno; granted, the block is aligned, is a new one of
  the program's, and shares no byte with any other, whose bytes it leaves alone.
\<close>

definition same_heap :: "win_heap \<Rightarrow> win_heap \<Rightarrow> bool" where
  "same_heap h h' \<longleftrightarrow> hp_blocks h' = hp_blocks h \<and> hp_heads h' = hp_heads h \<and> hp_bytes h' = hp_bytes h"

definition allocated :: "nat \<Rightarrow> u64 \<Rightarrow> win_heap \<Rightarrow> u64 option \<times> win_heap \<Rightarrow> bool" where
  "allocated align sz h got = (case got of
     (None, h') \<Rightarrow> same_heap h h' \<and> hp_errno h' \<noteq> None
   | (Some p, h') \<Rightarrow> heap_ok h' \<and> align dvd unat p \<and> (\<forall>s. \<not> user_block h p s) \<and>
       (\<forall>q s. user_block h' q s \<longleftrightarrow> (if q = p then s = sz else user_block h q s)) \<and>
       (\<forall>q s x. user_block h q s \<longrightarrow> within q s x \<longrightarrow> \<not> within p sz x \<and> hp_bytes h' x = hp_bytes h x))"

lemma head_of_eq: "heap_head_of q = heap_head_of p \<longleftrightarrow> q = p"
  by (simp add: heap_head_of_def)

lemma alloc_core:
  assumes ok: "heap_ok h" and raw: "raw \<noteq> 0" "16 dvd unat raw" "unat raw + unat n < 2 ^ 64"
    and clear: "\<And>q m. hp_blocks h q = Some m \<Longrightarrow> q \<noteq> raw \<and> apart raw n q m"
    and k: "4 \<le> k" "k < 64" and n: "unat n = unat sz + 16 + (if k = 4 then 0 else 2 ^ k)"
    and h1: "hp_blocks h1 = (hp_blocks h)(raw \<mapsto> n)" "hp_heads h1 = hp_heads h"
      "\<And>x. \<not> within raw n x \<Longrightarrow> hp_bytes h1 x = hp_bytes h x"
  shows "allocated (2 ^ k) sz h (heap_place (Some raw, h1) sz (2 ^ k))"
proof -
  define user where "user = (raw + HEAP_HEAD + (2 ^ k - 1)) AND NOT (2 ^ k - 1)"
  define h2 where "h2 = h1\<lparr>hp_heads := (hp_heads h)(heap_head_of user \<mapsto> (raw, sz))\<rparr>"
  have placed: "heap_place (Some raw, h1) sz (2 ^ k) = (Some user, h2)"
    by (simp add: heap_place_def user_def h2_def h1 Let_def)
  note pu = place_user [OF raw(2) k raw(3) n, folded user_def]
  note add = maps_add [OF ok [unfolded heap_ok_def] raw clear pu(3)]
  have h2: "hp_heads h2 = (hp_heads h)(heap_head_of user \<mapsto> (raw, sz))" "hp_blocks h2 = (hp_blocks h)(raw \<mapsto> n)"
    "hp_bytes h2 = hp_bytes h1" by (simp_all add: h2_def h1)
  have ok2: "heap_ok h2" unfolding heap_ok_def h2 by (rule add(1))
  have none: "hp_heads h (heap_head_of user) = None" by (rule add(2))
  have users: "user_block h2 q s \<longleftrightarrow> (if q = user then s = sz else user_block h q s)" for q s
    by (auto simp: user_block_def h2 head_of_eq)
  have mine: "within user sz x \<Longrightarrow> within raw n x" for x
    by (rule user_within [OF ok2, of user raw sz]) (simp_all add: h2)
  have other: "\<not> within user sz x \<and> hp_bytes h2 x = hp_bytes h x" if "user_block h q s" "within q s x" for q s x
  proof -
    obtain r where r: "hp_heads h (heap_head_of q) = Some (r, s)" using \<open>user_block h q s\<close> by (auto simp: user_block_def)
    obtain m where m: "hp_blocks h r = Some m" using maps_head [OF ok [unfolded heap_ok_def] r] by blast
    have "within r m x" by (rule user_within [OF ok r m \<open>within q s x\<close>])
    then have "\<not> within raw n x" using clear [OF m] apart_within by blast
    then show ?thesis using mine h1(3) h2(3) by auto
  qed
  show ?thesis unfolding placed allocated_def using ok2 pu(1) none users other
    by (simp add: user_block_def)
qed

lemma placed:
  assumes "placed_well place" "place h old n = Some raw"
  shows "raw \<noteq> 0" "16 dvd unat raw" "unat raw + unat n < 2 ^ 64"
    and "hp_blocks h q = Some m \<Longrightarrow> old \<noteq> Some q \<Longrightarrow> q \<noteq> raw \<and> apart raw n q m"
  using assms unfolding placed_well_def by blast+

lemma placed_new:
  assumes "placed_well place" "place h None n = Some raw"
  shows "raw \<noteq> 0" "16 dvd unat raw" "unat raw + unat n < 2 ^ 64"
    and "\<And>q m. hp_blocks h q = Some m \<Longrightarrow> q \<noteq> raw \<and> apart raw n q m"
  using assms unfolding placed_well_def by blast+

lemma alloc_refused: "allocated a sz h (out_of_memory h)"
  by (simp add: allocated_def out_of_memory_def same_heap_def)

lemma alloc_malloc:
  assumes "heap_ok h" "placed_well place" "4 \<le> k" "k < 64" "unat n = unat sz + 16 + (if k = 4 then 0 else 2 ^ k)"
  shows "allocated (2 ^ k) sz h (heap_place (crt_malloc place n h) sz (2 ^ k))"
proof (cases "place h None n")
  case None
  then show ?thesis by (simp add: crt_malloc_def heap_place_def allocated_def same_heap_def)
next
  case (Some raw)
  show ?thesis using alloc_core [OF assms(1) placed_new [OF assms(2) Some] assms(3,4,5)] Some
    by (simp add: crt_malloc_def)
qed

lemma unat_u64: "unat (w :: u64) < 2 ^ 64"
  using unsigned_less [of w] by simp

lemma overflow_room: "\<not> heap_overflows sz extra \<Longrightarrow> unat (sz + extra) = unat sz + unat extra"
proof -
  assume "\<not> heap_overflows sz extra"
  then have "unat sz \<le> unat (- 1 - extra)" by (simp add: heap_overflows_def word_le_nat_alt)
  also have "unat (- 1 - extra) = 2 ^ 64 - 1 - unat extra"
    using unat_u64 [of extra]
    by (subst unat_sub) (simp_all add: unsigned_minus_1_eq_mask mask_eq_exp_minus_1 word_le_nat_alt)
  finally have "unat sz + unat extra < 2 ^ 64" using unat_u64 [of extra] by simp
  then show ?thesis by (simp add: unat_word_ariths)
qed

lemma head_pow: "HEAP_HEAD = 2 ^ 4"
  by (simp add: HEAP_HEAD_def)

lemma alloc_plain:
  assumes "heap_ok h" "placed_well place"
  shows "allocated 16 sz h (sppc_malloc_win place sz h)"
proof (cases "heap_overflows sz HEAP_HEAD")
  case True
  then show ?thesis by (simp add: sppc_malloc_win_def alloc_refused)
next
  case False
  then have "unat (sz + HEAP_HEAD) = unat sz + 16" using overflow_room [of sz HEAP_HEAD] by (simp add: HEAP_HEAD_def)
  then show ?thesis using alloc_malloc [OF assms, of 4 "sz + HEAP_HEAD" sz] False
    by (simp add: sppc_malloc_win_def head_pow [symmetric]) (simp add: HEAP_HEAD_def)
qed

text \<open>A number that shares no bit with the one below it is a power of two.\<close>

lemma pow2_nat: "0 < n \<Longrightarrow> n AND (n - 1) = 0 \<Longrightarrow> \<exists>k. n = 2 ^ (k::nat)" for n :: nat
proof (induction n rule: less_induct)
  case (less n)
  show ?case
  proof (cases "even n")
    case True
    then obtain m where m: "n = 2 * m" by (elim evenE)
    then have "0 < m" using less.prems by simp
    then have "n - 1 = 2 * (m - 1) + 1" using m by simp
    then have "n AND (n - 1) = 2 * (m AND (m - 1))" using m by (subst and_nat_rec) simp
    then obtain k where "m = 2 ^ k" using less.IH [of m] less.prems \<open>0 < m\<close> m by auto
    then show ?thesis using m by (intro exI [of _ "Suc k"]) simp
  next
    case False
    then obtain m where m: "n = 2 * m + 1" by (elim oddE)
    then have "n AND (n - 1) = 2 * (m AND m)" by (subst and_nat_rec) simp
    then have "m = 0" using less.prems by simp
    then show ?thesis using m by (intro exI [of _ 0]) simp
  qed
qed

lemma pow2_word:
  fixes a :: u64
  assumes "a \<noteq> 0" "a AND (a - 1) = 0"
  obtains k where "k < 64" "a = 2 ^ k" "unat a = 2 ^ k"
proof -
  have "unat (a - 1) = unat a - 1" using assms(1) by (simp add: unat_minus_one)
  then have "unat a AND (unat a - 1) = 0" using assms(2) by (metis unsigned_and_eq unsigned_0)
  moreover have "0 < unat a" using assms(1) by (simp add: unat_gt_0)
  ultimately obtain k where k: "unat a = 2 ^ k" using pow2_nat by blast
  have "(2::nat) ^ k < 2 ^ 64" using unat_u64 [of a] k by simp
  then have "k < 64" by (rule power_less_imp_less_exp [rotated]) simp
  moreover have "of_nat (unat a) = (2 :: u64) ^ k" unfolding k by simp
  then have "a = 2 ^ k" by simp
  ultimately show thesis using that k by blast
qed

lemma alloc_aligned:
  assumes ok: "heap_ok h" and place: "placed_well place" and pow: "a \<noteq> 0" "a AND (a - 1) = 0"
  shows "allocated (unat a) sz h (sppc_aligned_alloc_win place sz a h)"
proof -
  obtain k where k: "k < 64" "a = 2 ^ k" "unat a = 2 ^ k" using pow2_word [OF pow] .
  show ?thesis
  proof (cases "a \<le> HEAP_HEAD")
    case True
    have "(2::nat) ^ k \<le> 2 ^ 4" using True k(3) by (simp add: HEAP_HEAD_def word_le_nat_alt)
    then have "k \<le> 4" by (rule power_le_imp_le_exp [rotated]) simp
    then have "(2::nat) ^ k dvd 2 ^ 4" by (rule le_imp_power_dvd)
    then have "unat a dvd 16" using k(3) by simp
    then show ?thesis using alloc_plain [OF ok place, of sz] True pow
      by (auto simp: sppc_aligned_alloc_win_def allocated_def split: prod.splits option.splits intro: dvd_trans)
  next
    case False
    have "(2::nat) ^ 4 < 2 ^ k" using False k(3) by (simp add: HEAP_HEAD_def word_le_nat_alt)
    then have k4: "4 < k" by (rule power_less_imp_less_exp [rotated]) simp
    show ?thesis
    proof (cases "heap_overflows sz (HEAP_HEAD + a)")
      case True
      then show ?thesis using False pow by (simp add: sppc_aligned_alloc_win_def alloc_refused)
    next
      case fits: False
      have "(2::nat) ^ k \<le> 2 ^ 63" using k(1) by (intro power_increasing) auto
      then have "unat (HEAP_HEAD + a) = 16 + 2 ^ k" using k(3) by (simp add: HEAP_HEAD_def unat_word_ariths)
      then have "unat (sz + HEAP_HEAD + a) = unat sz + 16 + 2 ^ k"
        using overflow_room [OF fits] by (simp add: add.assoc)
      then show ?thesis using alloc_malloc [OF ok place, of k "sz + HEAP_HEAD + a" sz] k k4 False fits pow
        by (simp add: sppc_aligned_alloc_win_def)
    qed
  qed
qed

lemma calloc_exact:
  fixes num sz :: u64
  assumes "\<not> (sz \<noteq> 0 \<and> num > (- 1) div sz)"
  shows "unat (num * sz) = unat num * unat sz"
proof (cases "sz = 0")
  case False
  then have "unat num \<le> unat ((- 1) div sz)" using assms by (simp add: word_le_nat_alt not_less)
  also have "\<dots> = (2 ^ 64 - 1) div unat sz"
    by (simp add: unat_div unsigned_minus_1_eq_mask mask_eq_exp_minus_1)
  finally have "unat num * unat sz \<le> (2 ^ 64 - 1) div unat sz * unat sz" by simp
  also have "\<dots> \<le> 2 ^ 64 - 1" by (rule div_times_less_eq_dividend)
  finally show ?thesis by (simp add: unat_word_ariths)
qed simp

lemma calloc_refuses:
  fixes num sz :: u64
  assumes "sz \<noteq> 0" "num > (- 1) div sz"
  shows "2 ^ 64 \<le> unat num * unat sz"
proof -
  have s: "0 < unat sz" using assms(1) by (simp add: unat_gt_0)
  have "(2 ^ 64 - 1) div unat sz < unat num"
    using assms(2) by (simp add: word_less_nat_alt unat_div unsigned_minus_1_eq_mask mask_eq_exp_minus_1)
  then have "2 ^ 64 - 1 < unat num * unat sz" using s by (simp only: div_less_iff_less_mult)
  then show ?thesis by simp
qed

lemma alloc_calloc:
  assumes ok: "heap_ok h" and place: "placed_well place"
  shows "allocated 16 (num * sz) h (sppc_calloc_win place num sz h) \<and>
    (\<forall>p h' x. sppc_calloc_win place num sz h = (Some p, h') \<longrightarrow> within p (num * sz) x \<longrightarrow> hp_bytes h' x = 0)"
proof (cases "(sz \<noteq> 0 \<and> num > (- 1) div sz) \<or> heap_overflows (num * sz) HEAP_HEAD \<or>
    place h None (num * sz + HEAP_HEAD) = None")
  case True
  then show ?thesis
    by (auto simp: sppc_calloc_win_def alloc_refused crt_calloc_def crt_malloc_def heap_place_def
        allocated_def same_heap_def out_of_memory_def)
next
  case False
  define n where "n = num * sz + HEAP_HEAD"
  obtain raw where p: "place h None n = Some raw" using False by (auto simp: n_def)
  have n: "unat n = unat (num * sz) + 16"
    using overflow_room [of "num * sz" HEAP_HEAD] False by (simp add: n_def HEAP_HEAD_def)
  define h1 where "h1 = h\<lparr>hp_blocks := (hp_blocks h)(raw \<mapsto> n), hp_bytes := (\<lambda>x. if within raw n x then 0 else hp_bytes h x)\<rparr>"
  have got: "sppc_calloc_win place num sz h = heap_place (Some raw, h1) (num * sz) HEAP_HEAD"
  proof -
    have c: "\<not> (sz \<noteq> 0 \<and> num > (- 1) div sz)" "\<not> heap_overflows (num * sz) HEAP_HEAD" using False by blast+
    have "crt_calloc place n h = (Some raw, h1)" using p by (simp add: crt_calloc_def crt_malloc_def h1_def cong: if_cong)
    then show ?thesis unfolding sppc_calloc_win_def if_not_P [OF c(1)] if_not_P [OF c(2)] n_def by simp
  qed
  have alloc: "allocated (2 ^ 4) (num * sz) h (heap_place (Some raw, h1) (num * sz) (2 ^ 4))"
    by (rule alloc_core [OF ok placed_new [OF place p]]) (simp_all add: n h1_def)
  have "hp_bytes h' x = 0" if r: "heap_place (Some raw, h1) (num * sz) HEAP_HEAD = (Some q, h')"
    and x: "within q (num * sz) x" for q h' x
  proof -
    have ok': "heap_ok h'" using alloc r by (simp add: allocated_def head_pow)
    have "hp_heads h' (heap_head_of q) = Some (raw, num * sz)" "hp_blocks h' raw = Some n" "hp_bytes h' = hp_bytes h1"
      using r by (auto simp: heap_place_def Let_def h1_def)
    then show ?thesis using user_within [OF ok' _ _ x] by (simp add: h1_def)
  qed
  then show ?thesis using alloc got by (simp add: head_pow)
qed

text \<open>C14: on Windows, with a C library heap that keeps its promise, an allocation is aligned (to 16, or to any power of two
  asked for; anything else is EINVAL and nothing else happens), is the size asked for (a calloc's product exactly, or
  refused when it does not fit 64 bits; its bytes 0), keeps every header inside its own C library block, and shares no byte
  with another of the program's blocks nor changes one of theirs; a refused one changes nothing but errno.\<close>

theorem heap_alloc:
  assumes ok: "heap_ok h" and place: "placed_well place"
  shows "allocated 16 sz h (sppc_malloc_win place sz h) \<and>
    (if a \<noteq> 0 \<and> a AND (a - 1) = 0 then allocated (unat a) sz h (sppc_aligned_alloc_win place sz a h)
     else sppc_aligned_alloc_win place sz a h = (None, h\<lparr>hp_errno := Some EINVAL\<rparr>)) \<and>
    allocated 16 (num * sz) h (sppc_calloc_win place num sz h) \<and>
    (\<forall>p h'. sppc_calloc_win place num sz h = (Some p, h') \<longrightarrow>
       unat (num * sz) = unat num * unat sz \<and> (\<forall>x. within p (num * sz) x \<longrightarrow> hp_bytes h' x = 0)) \<and>
    (2 ^ 64 \<le> unat num * unat sz \<longrightarrow> fst (sppc_calloc_win place num sz h) = None)"
proof (intro conjI allI impI)
  show "if a \<noteq> 0 \<and> a AND (a - 1) = 0 then allocated (unat a) sz h (sppc_aligned_alloc_win place sz a h)
     else sppc_aligned_alloc_win place sz a h = (None, h\<lparr>hp_errno := Some EINVAL\<rparr>)"
    using alloc_aligned [OF ok place] by (simp add: sppc_aligned_alloc_win_def)
  have over: "2 ^ 64 \<le> unat num * unat sz \<Longrightarrow> sz \<noteq> 0 \<and> num > (- 1) div sz"
    using calloc_exact [of sz num] unat_u64 [of "num * sz"] by (metis not_le)
  then show "fst (sppc_calloc_win place num sz h) = None" if "2 ^ 64 \<le> unat num * unat sz"
    using that by (simp add: sppc_calloc_win_def out_of_memory_def)
  show "unat (num * sz) = unat num * unat sz" if "sppc_calloc_win place num sz h = (Some p, h')" for p h'
  proof (rule calloc_exact)
    show "\<not> (sz \<noteq> 0 \<and> num > (- 1) div sz)" using that by (auto simp: sppc_calloc_win_def out_of_memory_def)
  qed
qed (use alloc_plain [OF ok place] alloc_calloc [OF ok place] in blast)+

section \<open>Freeing and resizing\<close>

lemma user_room:
  assumes ok: "heap_ok h" and u: "user_block h p sz"
  shows "unat p + unat sz < 2 ^ 64" and "16 dvd unat p"
proof -
  obtain raw where hd: "hp_heads h (heap_head_of p) = Some (raw, sz)" using u by (auto simp: user_block_def)
  obtain m where m: "hp_blocks h raw = Some m" "head_fits raw m (heap_head_of p) sz"
    using maps_head [OF ok [unfolded heap_ok_def] hd] by blast
  have "unat raw + unat m < 2 ^ 64" using ok m(1) by (auto simp: heap_ok_def maps_ok_def blocks_ok_def)
  then have "unat (heap_head_of p) + 16 + unat sz < 2 ^ 64" using m(2) by (simp add: head_fits_def)
  moreover from this have "unat (heap_head_of p + HEAP_HEAD) = unat (heap_head_of p) + 16"
    by (simp add: unat_word_ariths HEAP_HEAD_def)
  then have p: "unat p = unat (heap_head_of p) + 16" by (simp add: heap_head_of_def)
  ultimately show "unat p + unat sz < 2 ^ 64" by simp
  have "16 dvd unat (heap_head_of p)" using m(2) by (simp add: head_fits_def)
  then show "16 dvd unat p" unfolding p by simp
qed

lemma free_core:
  assumes ok: "heap_ok h" and hd: "hp_heads h (heap_head_of p) = Some (raw, sz)"
  obtains h' where "crt_free raw h = Some h'" "heap_ok h'" "hp_bytes h' = hp_bytes h"
    "\<forall>q s. user_block h' q s \<longleftrightarrow> q \<noteq> p \<and> user_block h q s"
proof -
  have m: "maps_ok (hp_blocks h) (hp_heads h)" using ok by (simp add: heap_ok_def)
  obtain n where n: "hp_blocks h raw = Some n" using maps_head [OF m hd] by blast
  define h' where "h' = h\<lparr>hp_blocks := (hp_blocks h)(raw := None), hp_heads := gone raw n (hp_heads h)\<rparr>"
  have "crt_free raw h = Some h'" using n by (simp add: crt_free_def h'_def gone_def)
  moreover have "heap_ok h'" using maps_drop [OF m n] by (simp add: heap_ok_def h'_def)
  moreover have "user_block h' q s \<longleftrightarrow> q \<noteq> p \<and> user_block h q s" for q s
  proof -
    have "user_block h' q s \<longleftrightarrow> (\<exists>r. hp_heads h (heap_head_of q) = Some (r, s) \<and> r \<noteq> raw)"
      by (simp add: user_block_def h'_def gone_Some [OF m n])
    moreover have "r \<noteq> raw \<longleftrightarrow> q \<noteq> p" if "hp_heads h (heap_head_of q) = Some (r, s)" for r
      using that hd maps_one [OF m, of "heap_head_of q" r s "heap_head_of p" sz] by (auto simp: head_of_eq)
    ultimately show ?thesis by (auto simp: user_block_def)
  qed
  ultimately show thesis using that by (simp add: h'_def)
qed

text \<open>
  What resizing a block does: refused, nothing but errno; granted, the block at \<^verbatim>\<open>p\<close> is one at \<^verbatim>\<open>q\<close>, with the bytes
  both sizes have, and every other block is as it was.
\<close>

definition resized :: "u64 \<Rightarrow> u64 \<Rightarrow> u64 \<Rightarrow> win_heap \<Rightarrow> u64 option \<times> win_heap \<Rightarrow> bool" where
  "resized p sz n h got = (case got of
     (None, h') \<Rightarrow> same_heap h h' \<and> hp_errno h' \<noteq> None
   | (Some q, h') \<Rightarrow> heap_ok h' \<and> 16 dvd unat q \<and> (q = p \<or> (\<forall>s. \<not> user_block h q s)) \<and>
       (\<forall>r s. user_block h' r s \<longleftrightarrow> (if r = q then s = n else r \<noteq> p \<and> user_block h r s)) \<and>
       (\<forall>i < min sz n. hp_bytes h' (q + i) = hp_bytes h (p + i)) \<and>
       (\<forall>r s x. user_block h r s \<longrightarrow> r \<noteq> p \<longrightarrow> within r s x \<longrightarrow> hp_bytes h' x = hp_bytes h x))"

lemma within_add: "unat q + unat n < 2 ^ 64 \<Longrightarrow> i < n \<Longrightarrow> within q n (q + i)" for q n i :: u64
  by (simp add: within_def word_less_nat_alt unat_word_ariths)

lemma resize_moved:
  assumes ok: "heap_ok h" and place: "placed_well place" and hd: "hp_heads h (heap_head_of p) = Some (raw, sz)"
    and got: "sppc_malloc_win place n h = (Some q, h1)"
  shows "\<exists>h2. crt_free raw (copied q p (if sz < n then sz else n) h1) = Some h2 \<and> resized p sz n h (Some q, h2)"
proof -
  define h1' where "h1' = copied q p (min sz n) h1"
  have c: "copied q p (if sz < n then sz else n) h1 = h1'"
    by (simp add: h1'_def min_def not_less)
  have same: "hp_heads h1' = hp_heads h1" "hp_blocks h1' = hp_blocks h1" by (simp_all add: h1'_def copied_def)
  have alloc: "allocated 16 n h (Some q, h1)" using alloc_plain [OF ok place, of n] got by simp
  have mine: "user_block h p sz" using hd by (auto simp: user_block_def)
  have q: "q \<noteq> p" using alloc mine by (auto simp: allocated_def)
  obtain r where "hp_heads h1 = (hp_heads h)(heap_head_of q \<mapsto> (r, n))"
    using got by (auto simp: sppc_malloc_win_def heap_place_def crt_malloc_def out_of_memory_def Let_def
        split: if_splits option.splits)
  then have hd1: "hp_heads h1' (heap_head_of p) = Some (raw, sz)" using hd q same by (simp add: head_of_eq)
  have ok1: "heap_ok h1" and u1: "\<And>r s. user_block h1 r s \<longleftrightarrow> (if r = q then s = n else user_block h r s)"
    using alloc by (simp_all add: allocated_def)
  have ok1': "heap_ok h1'" and u1': "\<And>r s. user_block h1' r s \<longleftrightarrow> user_block h1 r s"
    using ok1 same by (simp_all add: heap_ok_def user_block_def)
  obtain h2 where h2: "crt_free raw h1' = Some h2" "heap_ok h2" "hp_bytes h2 = hp_bytes h1'"
    "\<forall>r s. user_block h2 r s \<longleftrightarrow> r \<noteq> p \<and> user_block h1' r s"
    by (rule free_core [OF ok1' hd1])
  have uq: "user_block h1 q n" using u1 by simp
  have bytes: "hp_bytes h2 (q + i) = hp_bytes h (p + i)" if i: "i < min sz n" for i
  proof -
    have "within q (min sz n) (q + i)" using user_room(1) [OF ok1 uq] i
      by (intro within_add) (auto simp: min_def word_le_nat_alt split: if_splits)
    then have "hp_bytes h2 (q + i) = hp_bytes h1 (p + i)" by (simp add: h2(3) h1'_def copied_def add.commute)
    moreover have "within p sz (p + i)" using user_room(1) [OF ok mine] i by (intro within_add) simp_all
    ultimately show ?thesis using alloc mine by (auto simp: allocated_def)
  qed
  have others: "hp_bytes h2 x = hp_bytes h x" if "user_block h r s" "within r s x" for r s x
  proof -
    have "\<not> within q n x" "hp_bytes h1 x = hp_bytes h x" using alloc that by (auto simp: allocated_def)
    moreover have "\<not> within q (min sz n) x" using \<open>\<not> within q n x\<close>
      by (auto simp: within_def min_def word_le_nat_alt)
    ultimately show ?thesis by (simp add: h2(3) h1'_def copied_def)
  qed
  have "resized p sz n h (Some q, h2)"
    unfolding resized_def using h2(2) bytes others alloc q u1 u1' h2(4) by (simp add: allocated_def)
  then show ?thesis using h2(1) c by simp
qed

lemma resize_plain:
  assumes ok: "heap_ok h" and place: "placed_well place" and hd: "hp_heads h (heap_head_of p) = Some (heap_head_of p, sz)"
    and fits: "\<not> heap_overflows n HEAP_HEAD"
  shows "\<exists>got. crt_realloc place (heap_head_of p) (n + HEAP_HEAD) h = Some got \<and>
    resized p sz n h (heap_place got n HEAP_HEAD)"
proof -
  define raw where "raw = heap_head_of p"
  define m where "m = n + HEAP_HEAD"
  have ok': "maps_ok (hp_blocks h) (hp_heads h)" using ok by (simp add: heap_ok_def)
  obtain old where old: "hp_blocks h raw = Some old" "head_fits raw old raw sz"
    using maps_head [OF ok' hd] by (auto simp: raw_def)
  have m: "unat m = unat n + 16" using overflow_room [OF fits] by (simp add: m_def HEAP_HEAD_def)
  show ?thesis
  proof (cases "place h (Some raw) m")
    case None
    then show ?thesis using old unfolding raw_def [symmetric] m_def [symmetric]
      by (simp add: crt_realloc_def heap_place_def resized_def same_heap_def)
  next
    case (Some p')
    define h0 where "h0 = h\<lparr>hp_blocks := (hp_blocks h)(raw := None), hp_heads := gone raw old (hp_heads h)\<rparr>"
    define h1 where "h1 = h\<lparr>hp_blocks := (hp_blocks h)(raw := None, p' \<mapsto> m), hp_heads := gone raw old (hp_heads h),
      hp_bytes := (\<lambda>x. if within p' (min old m) x then hp_bytes h (x - p' + raw) else hp_bytes h x)\<rparr>"
    have got: "crt_realloc place raw m h = Some (Some p', h1)"
      using old Some by (simp add: crt_realloc_def h1_def gone_def)
    obtain hf where hf: "crt_free (heap_head_of p) h = Some hf" "heap_ok hf" "hp_bytes hf = hp_bytes h"
      "\<forall>q s. user_block hf q s \<longleftrightarrow> q \<noteq> p \<and> user_block h q s"
      by (rule free_core [OF ok hd])
    have "hf = h0" using hf(1) old by (simp add: crt_free_def h0_def gone_def raw_def)
    with hf have ok0: "heap_ok h0" and u0: "\<And>q s. user_block h0 q s \<longleftrightarrow> q \<noteq> p \<and> user_block h q s" by simp_all
    have clear: "q \<noteq> p' \<and> apart p' m q k" if "hp_blocks h0 q = Some k" for q k
      using that placed(4) [OF place Some] by (auto simp: h0_def split: if_splits)
    have fields: "hp_blocks h1 = (hp_blocks h0)(p' \<mapsto> m)" "hp_heads h1 = hp_heads h0" by (simp_all add: h1_def h0_def)
    have bytes: "hp_bytes h1 x = hp_bytes h0 x" if "\<not> within p' m x" for x
    proof -
      have "\<not> within p' (min old m) x" using that by (auto simp: within_def min_def word_le_nat_alt)
      then show ?thesis by (simp add: h1_def h0_def)
    qed
    have size: "unat m = unat n + 16 + (if (4::nat) = 4 then 0 else 2 ^ 4)" using m by simp
    have alloc: "allocated (2 ^ 4) n h0 (heap_place (Some p', h1) n (2 ^ 4))"
      by (rule alloc_core [OF ok0 placed(1-3) [OF place Some] clear _ _ size fields bytes]) simp_all
    obtain q h2 where q: "heap_place (Some p', h1) n HEAP_HEAD = (Some q, h2)"
      by (simp add: heap_place_def Let_def)
    then have h2: "hp_bytes h2 = hp_bytes h1" by (auto simp: heap_place_def Let_def)
    have "unat p' + unat m < 2 ^ 64" "16 dvd unat p'" using placed [OF place Some] by auto
    then have "heap_head_of q = p'"
      using place_user(4) [of p' 4 m n] m q by (auto simp: heap_place_def Let_def head_pow)
    then have q': "q = p' + HEAP_HEAD" by (metis diff_add_cancel heap_head_of_def)
    have a: "heap_ok h2" "16 dvd unat q" "\<And>s. \<not> user_block h0 q s"
      "\<And>r s. user_block h2 r s \<longleftrightarrow> (if r = q then s = n else user_block h0 r s)"
      "\<And>r s x. user_block h0 r s \<Longrightarrow> within r s x \<Longrightarrow> hp_bytes h2 x = hp_bytes h0 x"
      using alloc q by (simp_all add: allocated_def head_pow)
    have "hp_bytes h2 (q + i) = hp_bytes h (p + i)" if i: "i < min sz n" for i
    proof -
      have "unat n + 16 < 2 ^ 64" using m unat_u64 [of m] by simp
      then have i16: "unat (HEAP_HEAD + i) = 16 + unat i"
        using i by (simp add: unat_word_ariths HEAP_HEAD_def word_less_nat_alt word_le_nat_alt min_def split: if_splits)
      have "HEAP_HEAD + i < min old m"
        using i old(2) m i16 by (auto simp: head_fits_def word_less_nat_alt word_le_nat_alt min_def split: if_splits)
      moreover have "unat p' + unat (min old m) < 2 ^ 64"
        using \<open>unat p' + unat m < 2 ^ 64\<close> by (auto simp: min_def word_le_nat_alt)
      ultimately have "within p' (min old m) (p' + (HEAP_HEAD + i))" by (intro within_add)
      then have "hp_bytes h1 (q + i) = hp_bytes h (HEAP_HEAD + i + raw)"
        by (simp add: h1_def q' add.assoc)
      then show ?thesis by (simp add: h2 raw_def heap_head_of_def add.commute)
    qed
    then have "resized p sz n h (Some q, h2)"
      unfolding resized_def using a u0 by (auto simp: h0_def)
    then show ?thesis using got q by (simp add: raw_def m_def)
  qed
qed

text \<open>C13: on Windows, a block the program holds can always be freed and resized, by the C library block its header names:
  freeing it takes it and nothing else away; resizing it to n bytes gives a block of n, in the same place or in one that was
  nobody's, with the first bytes of the old (all of them, or n), every other block untouched; when there is no memory
  the block stays as it was; a size of 0 frees.\<close>

theorem heap_resize:
  assumes ok: "heap_ok h" and place: "placed_well place" and mine: "user_block h p sz"
  shows "(\<exists>h'. sppc_free_win (Some p) h = Some h' \<and> heap_ok h' \<and> hp_bytes h' = hp_bytes h \<and>
           (\<forall>q s. user_block h' q s \<longleftrightarrow> q \<noteq> p \<and> user_block h q s) \<and>
           sppc_realloc_win place (Some p) 0 h = Some (None, h')) \<and>
         (n \<noteq> 0 \<longrightarrow> (\<exists>got. sppc_realloc_win place (Some p) n h = Some got \<and> resized p sz n h got))"
proof -
  obtain raw where hd: "hp_heads h (heap_head_of p) = Some (raw, sz)" using mine by (auto simp: user_block_def)
  obtain h' where h': "crt_free raw h = Some h'" "heap_ok h'" "hp_bytes h' = hp_bytes h"
    "\<forall>q s. user_block h' q s \<longleftrightarrow> q \<noteq> p \<and> user_block h q s"
    by (rule free_core [OF ok hd])
  have freed: "sppc_free_win (Some p) h = Some h'" using h'(1) hd by (simp add: sppc_free_win_def)
  have "\<exists>got. sppc_realloc_win place (Some p) n h = Some got \<and> resized p sz n h got" if n: "n \<noteq> 0"
  proof (cases "raw = heap_head_of p")
    case True
    show ?thesis
    proof (cases "heap_overflows n HEAP_HEAD")
      case over: True
      have "resized p sz n h (out_of_memory h)" by (simp add: resized_def out_of_memory_def same_heap_def)
      then show ?thesis using over True n hd by (simp add: sppc_realloc_win_def)
    next
      case False
      obtain got where "crt_realloc place (heap_head_of p) (n + HEAP_HEAD) h = Some got"
        "resized p sz n h (heap_place got n HEAP_HEAD)"
        using resize_plain [OF ok place hd [unfolded True] False] by blast
      then show ?thesis using False True n hd by (simp add: sppc_realloc_win_def)
    qed
  next
    case False
    show ?thesis
    proof (cases "sppc_malloc_win place n h")
      case (Pair q h1)
      show ?thesis
      proof (cases q)
        case None
        have "allocated 16 n h (None, h1)" using alloc_plain [OF ok place, of n] Pair None by simp
        then have "resized p sz n h (None, h1)" by (simp add: resized_def allocated_def)
        then show ?thesis using False n hd Pair None by (simp add: sppc_realloc_win_def)
      next
        case (Some moved)
        obtain h2 where "crt_free raw (copied moved p (if sz < n then sz else n) h1) = Some h2"
          "resized p sz n h (Some moved, h2)"
          using resize_moved [OF ok place hd] Pair Some by blast
        then show ?thesis using False n hd Pair Some by (simp add: sppc_realloc_win_def)
      qed
    qed
  qed
  then show ?thesis using freed h' by (auto simp: sppc_realloc_win_def)
qed

text \<open>A C library heap of one block, of at most a page, at one address.\<close>

definition sample_place :: crt_place where
  "sample_place h old n = (if (\<forall>q. hp_blocks h q \<noteq> None \<longrightarrow> old = Some q) \<and> n \<le> 4096 then Some 65536 else None)"

definition sample_heap :: win_heap where
  "sample_heap = \<lparr>hp_blocks = Map.empty, hp_heads = Map.empty, hp_bytes = (\<lambda>_. 7), hp_errno = None\<rparr>"

lemma sample_placed: "placed_well sample_place"
  unfolding placed_well_def by (auto simp: sample_place_def word_le_nat_alt split: if_splits)

lemma sample_ok: "heap_ok sample_heap"
  by (simp add: heap_ok_def maps_ok_def blocks_ok_def sample_heap_def)

lemma sample_gets: "fst (sppc_malloc_win sample_place 24 sample_heap) = Some 65552"
  by (simp add: sppc_malloc_win_def heap_overflows_def HEAP_HEAD_def crt_malloc_def sample_place_def sample_heap_def
      heap_place_def Let_def)

lemma heap_alloc_witness:
  "allocated 16 24 sample_heap (sppc_malloc_win sample_place 24 sample_heap) \<and>
   fst (sppc_malloc_win sample_place 24 sample_heap) = Some 65552 \<and>
   allocated 64 10 sample_heap (sppc_aligned_alloc_win sample_place 10 64 sample_heap)"
  using heap_alloc [OF sample_ok sample_placed, of 24 64] heap_alloc [OF sample_ok sample_placed, of 10 64]
    sample_gets by simp

lemma heap_resize_witness:
  "\<exists>h got. user_block h 65552 24 \<and> sppc_realloc_win sample_place (Some 65552) 100 h = Some got \<and> resized 65552 24 100 h got"
proof -
  define h where "h = snd (sppc_malloc_win sample_place 24 sample_heap)"
  have got: "sppc_malloc_win sample_place 24 sample_heap = (Some 65552, h)"
    using sample_gets by (simp add: h_def prod_eq_iff)
  have "allocated 16 24 sample_heap (Some 65552, h)"
    using alloc_plain [OF sample_ok sample_placed, of 24] got by simp
  then have "heap_ok h" "user_block h 65552 24" by (simp_all add: allocated_def)
  then show ?thesis using heap_resize [OF _ sample_placed, of h 65552 24 100] by auto
qed

end
