(* ===== verification/WinBoot.thy ===== *)
theory WinBoot
  imports WinErrors WinClock Posix Strings
begin

text \<open>
  What Windows has of its own for starting up, the split stack, searching memory and time (platform/windows.h,
  TRANSLATION to THREADING). The system's answers are arguments, as in Posix; the C library's comparisons and its
  memchr are what Strings has.
\<close>

section \<open>Clocks, times and timer flags\<close>

definition sppc_to_os_clock_win :: "int \<Rightarrow> int + int" where
  "sppc_to_os_clock_win clock =
     (if clock = SPPC_CLOCK_REALTIME then Inr CLOCK_REALTIME
      else if clock = SPPC_CLOCK_MONOTONIC then Inr CLOCK_MONOTONIC
      else if clock = SPPC_CLOCK_PROCESS_CPUTIME_ID then Inr CLOCK_PROCESS_CPUTIME_ID
      else if clock = SPPC_CLOCK_THREAD_CPUTIME_ID then Inr CLOCK_THREAD_CPUTIME_ID
      else Inl SPPC_EINVAL)"

definition sppc_to_os_timespec_win :: "sppc_timespec \<Rightarrow> int + timespec" where
  "sppc_to_os_timespec_win t =
     (if ts_nsec t \<ge> 1000000000 \<or> ts_sec t > 0x7FFFFFFFFFFFFFFF then Inl SPPC_EINVAL
      else Inr \<lparr>tv_sec = sint (ts_sec t), tv_nsec = sint (ts_nsec t)\<rparr>)"

definition sppc_from_os_timespec_win :: "timespec \<Rightarrow> sppc_timespec" where
  "sppc_from_os_timespec_win t =
     \<lparr>ts_sec = (if tv_sec t < 0 then 0 else word_of_int (tv_sec t)),
      ts_nsec = (if tv_sec t < 0 then 0 else word_of_int (tv_nsec t))\<rparr>"

definition sppc_to_os_timer_flags_win :: "int \<Rightarrow> int + int" where
  "sppc_to_os_timer_flags_win flags =
     (if flags AND NOT SPPC_TIMER_ABSTIME \<noteq> 0 then Inl SPPC_EINVAL
      else Inr (if flags AND SPPC_TIMER_ABSTIME \<noteq> 0 then TIMER_ABSTIME else 0))"

text \<open>The error number of the C library's code; sppc's own is got through it.\<close>

definition sppc_clock_gettime_api ::
  "(crt_ret \<Rightarrow> int) \<Rightarrow> win_clocks \<Rightarrow> int \<Rightarrow> sppc_timespec \<Rightarrow> int \<times> sppc_timespec" where
  "sppc_clock_gettime_api eno clocks clock_id out_tp =
     (case sppc_to_os_clock_win clock_id of
        Inl _ \<Rightarrow> (SPPC_EINVAL, out_tp)
      | Inr os_clock \<Rightarrow>
          (case sppc_clock_gettime_win clocks os_clock of
             (False, _) \<Rightarrow> (eno EINVAL, out_tp)
           | (True, ts) \<Rightarrow> (0, sppc_from_os_timespec_win ts)))"

text \<open>\<^verbatim>\<open>attempt\<close>: the async runtime's answer where it takes the sleep; \<^verbatim>\<open>asleep\<close>: \<^verbatim>\<open>clock_nanosleep\<close>'s.\<close>

definition sppc_clock_nanosleep_api ::
  "(crt_ret \<Rightarrow> int) \<Rightarrow> (int \<Rightarrow> int \<Rightarrow> timespec \<Rightarrow> crt_ret option) \<Rightarrow> (int \<Rightarrow> int \<Rightarrow> timespec \<Rightarrow> crt_ret) \<Rightarrow>
   int \<Rightarrow> int \<Rightarrow> sppc_timespec \<Rightarrow> int" where
  "sppc_clock_nanosleep_api eno attempt asleep clock flags duration =
     (case (sppc_to_os_clock_win clock, sppc_to_os_timer_flags_win flags, sppc_to_os_timespec_win duration) of
        (Inr os_clock, Inr os_flags, Inr ts) \<Rightarrow>
          (let e = (case attempt os_clock os_flags ts of Some r \<Rightarrow> r | None \<Rightarrow> asleep os_clock os_flags ts)
           in if e = OK then 0 else eno e)
      | _ \<Rightarrow> SPPC_EINVAL)"

section \<open>Start and end\<close>

datatype win_boot =
    SetErrorMode int
  | SetLocaleWin string
  | TzSetWin
  | GtInitWin
  | GtDrainWin
  | BtInstallWin
  | WsaStartup int int
  | WsaCleanup
  | MutexInitWin string
  | MutexDestroyWin string

definition SEM_FAILCRITICALERRORS :: int where "SEM_FAILCRITICALERRORS = 1"

text \<open>The calls whose failure is looked at; each in turn until one fails.\<close>

definition checked :: "win_boot \<Rightarrow> bool" where
  "checked c = (case c of WsaStartup _ _ \<Rightarrow> True | WsaCleanup \<Rightarrow> True | MutexInitWin _ \<Rightarrow> True
     | MutexDestroyWin _ \<Rightarrow> True | _ \<Rightarrow> False)"

text \<open>\<^verbatim>\<open>answer\<close> is what a call returns, for WSACleanup its end_at error (0: none); \<^verbatim>\<open>pt\<close> sppc's error for a pthread one.\<close>

definition boot_error :: "os_macros \<Rightarrow> (int \<Rightarrow> int) \<Rightarrow> win_boot \<Rightarrow> int \<Rightarrow> int" where
  "boot_error os pt c e =
     (case c of WsaStartup _ _ \<Rightarrow> sppc_errno_wsa os e | WsaCleanup \<Rightarrow> sppc_errno_wsa os e | _ \<Rightarrow> pt e)"

fun calls_in_turn ::
  "os_macros \<Rightarrow> (int \<Rightarrow> int) \<Rightarrow> (win_boot \<Rightarrow> int) \<Rightarrow> win_boot list \<Rightarrow> int \<times> win_boot list" where
  "calls_in_turn os pt answer [] = (0, [])"
| "calls_in_turn os pt answer (c # cs) =
     (if checked c \<and> answer c \<noteq> 0 then (boot_error os pt c (answer c), [c])
      else let (e, made) = calls_in_turn os pt answer cs in (e, c # made))"

text \<open>\<^verbatim>\<open>mode\<close> is the error mode found.\<close>

definition sppc_init_win :: "os_macros \<Rightarrow> (int \<Rightarrow> int) \<Rightarrow> (win_boot \<Rightarrow> int) \<Rightarrow> int \<Rightarrow> int \<times> win_boot list" where
  "sppc_init_win os pt answer mode =
     calls_in_turn os pt answer
       [SetErrorMode (mode OR SEM_FAILCRITICALERRORS), SetLocaleWin ''en_GB.UTF-8'', TzSetWin, GtInitWin, BtInstallWin,
        WsaStartup 2 2, MutexInitWin ''stdin'', MutexInitWin ''stdout'', MutexInitWin ''stderr'']"

definition sppc_cleanup_win :: "os_macros \<Rightarrow> (int \<Rightarrow> int) \<Rightarrow> (win_boot \<Rightarrow> int) \<Rightarrow> int \<times> win_boot list" where
  "sppc_cleanup_win os pt answer =
     calls_in_turn os pt answer
       [GtDrainWin, MutexDestroyWin ''stdin'', MutexDestroyWin ''stdout'', MutexDestroyWin ''stderr'', WsaCleanup]"

section \<open>The split stack\<close>

datatype virtual_call = Reserve u64 | Commit u64 u64 | Release u64

text \<open>\<^verbatim>\<open>limits\<close>: the thread's own stack, low and high; \<^verbatim>\<open>reserved\<close>, \<^verbatim>\<open>committed\<close>: the answers, the win32 error otherwise.\<close>

definition sppc_unsafe_stack_up_win ::
  "os_macros \<Rightarrow> u64 \<Rightarrow> u64 \<times> u64 \<Rightarrow> int + u64 \<Rightarrow> int \<Rightarrow> split_stack \<Rightarrow> int \<times> split_stack \<times> virtual_call list" where
  "sppc_unsafe_stack_up_win os page limits reserved commit_err t =
     (if us_base t \<noteq> None then (0, t, [])
      else let t1 = t\<lparr>us_wanted := True\<rparr>; sz = unsafe_stack_bytes page (snd limits - fst limits); total = sz + page in
        (case reserved of
           Inl err \<Rightarrow> (sppc_errno_win32 os err, t1, [Reserve total])
         | Inr p \<Rightarrow>
             if commit_err \<noteq> 0
             then (sppc_errno_win32 os commit_err, t1, [Reserve total, Commit (p + page) sz, Release p])
             else (0, t1\<lparr>us_base := Some p, us_size := total, us_ptr := Some (p + total)\<rparr>,
                   [Reserve total, Commit (p + page) sz])))"

definition sppc_unsafe_stack_down_win :: "split_stack \<Rightarrow> split_stack \<times> virtual_call list" where
  "sppc_unsafe_stack_down_win t =
     (case us_base t of
        None \<Rightarrow> (t, [])
      | Some p \<Rightarrow> (t\<lparr>us_base := None, us_size := 0, us_ptr := None\<rparr>, [Release p]))"

section \<open>Searching\<close>

text \<open>The C library's memchr over the places from one to another, the end_at included.\<close>

definition c_memchr :: "bytes \<Rightarrow> nat \<Rightarrow> nat \<Rightarrow> u8 \<Rightarrow> nat option" where
  "c_memchr hay h end_at b = List.find (\<lambda>i. hay ! i = b) [h..<end_at + 1]"

lemma c_memchr_Some:
  assumes "c_memchr hay h end_at b = Some i"
  shows "h \<le> i" "i \<le> end_at" "hay ! i = b" "\<And>j. h \<le> j \<Longrightarrow> j < i \<Longrightarrow> hay ! j \<noteq> b"
proof -
  obtain k where k: "k < end_at + 1 - h" "i = h + k" "hay ! i = b" "\<forall>j < k. hay ! (h + j) \<noteq> b"
    using assms by (auto simp: c_memchr_def find_Some_iff simp del: upt_Suc)
  show "h \<le> i" "i \<le> end_at" "hay ! i = b" using k by auto
  show "hay ! j \<noteq> b" if "h \<le> j" "j < i" for j using k(2,4) that by (metis le_add_diff_inverse nat_add_left_cancel_less)
qed

lemma c_memchr_None: "c_memchr hay h end_at b = None \<Longrightarrow> h \<le> j \<Longrightarrow> j \<le> end_at \<Longrightarrow> hay ! j \<noteq> b"
  by (auto simp: c_memchr_def find_None_iff simp del: upt_Suc)

function memmem_loop :: "bytes \<Rightarrow> bytes \<Rightarrow> nat \<Rightarrow> nat \<Rightarrow> nat option" where
  "memmem_loop hay needle end_at h =
     (if h \<le> end_at then
        (case c_memchr hay h end_at (needle ! 0) of
           None \<Rightarrow> None
         | Some hit \<Rightarrow>
             if take (length needle) (drop hit hay) = needle then Some hit
             else memmem_loop hay needle end_at (hit + 1))
      else None)"
  by pat_completeness auto
termination
  by (relation "measure (\<lambda>(hay, needle, end_at, h). end_at + 1 - h)") (auto dest: c_memchr_Some(1))

definition sppc_memmem_win :: "bytes \<Rightarrow> bytes \<Rightarrow> nat option" where
  "sppc_memmem_win hay needle =
     (if length needle = 0 then Some 0
      else if length needle > length hay then None
      else memmem_loop hay needle (length hay - length needle) 0)"

text \<open>\<^verbatim>\<open>_strnicmp\<close> of two strings, up to so many characters and no further than the end of either.\<close>

fun c_strnicmp :: "bytes \<Rightarrow> bytes \<Rightarrow> nat \<Rightarrow> bool" where
  "c_strnicmp _ _ 0 = True"
| "c_strnicmp (a # as) (b # bs) (Suc n) = (to_lower a = to_lower b \<and> c_strnicmp as bs n)"
| "c_strnicmp [] [] (Suc n) = True"
| "c_strnicmp _ _ (Suc n) = False"

fun strcasestr_win :: "bytes \<Rightarrow> bytes \<Rightarrow> nat option" where
  "strcasestr_win at needle =
     (if c_strnicmp at needle (length needle) then Some 0
      else case at of [] \<Rightarrow> None | _ # more_of \<Rightarrow> map_option Suc (strcasestr_win more_of needle))"

declare memmem_loop.simps [simp del] strcasestr_win.simps [simp del]

lemma occurs_first:
  assumes "needle \<noteq> []" "occurs_at needle hay i"
  shows "hay ! i = needle ! 0"
proof -
  have "i < length hay" using assms by (cases needle) (auto simp: occurs_at_def)
  moreover have "needle ! 0 = take (length needle) (drop i hay) ! 0" using assms(2) by (simp add: occurs_at_def)
  ultimately show ?thesis using assms(1) by simp
qed

lemma memmem_loop_first:
  assumes "needle \<noteq> []" "end_at = length hay - length needle" "length needle \<le> length hay"
  shows "(memmem_loop hay needle end_at h = Some i \<longrightarrow> h \<le> i \<and> occurs_at needle hay i \<and> (\<forall>j. h \<le> j \<longrightarrow> j < i \<longrightarrow> \<not> occurs_at needle hay j)) \<and>
         (memmem_loop hay needle end_at h = None \<longrightarrow> (\<forall>j. h \<le> j \<longrightarrow> \<not> occurs_at needle hay j))"
  using assms
proof (induction hay needle end_at h rule: memmem_loop.induct)
  case (1 hay needle end_at h)
  have far: "\<not> occurs_at needle hay j" if "end_at < j" for j using 1(3,4) that by (auto simp: occurs_at_def)
  show ?case
  proof (cases "h \<le> end_at")
    case False
    then show ?thesis using far by (auto simp: memmem_loop.simps [of hay needle end_at h])
  next
    case True
    show ?thesis
    proof (cases "c_memchr hay h end_at (needle ! 0)")
      case None
      have "\<not> occurs_at needle hay j" if "h \<le> j" for j
        using c_memchr_None [OF None that] far [of j] occurs_first [OF 1(2), of hay j] by (cases "j \<le> end_at") auto
      then show ?thesis using True None by (simp add: memmem_loop.simps [of hay needle end_at h])
    next
      case (Some hit)
      note hit = c_memchr_Some [OF Some]
      have before: "\<not> occurs_at needle hay j" if "h \<le> j" "j < hit" for j
        using hit(4) [OF that] occurs_first [OF 1(2), of hay j] by auto
      have here: "occurs_at needle hay hit \<longleftrightarrow> take (length needle) (drop hit hay) = needle"
        using hit(2) 1(3,4) by (auto simp: occurs_at_def)
      show ?thesis
      proof (cases "take (length needle) (drop hit hay) = needle")
        case match: True
        then show ?thesis using True Some hit(1) before here by (auto simp: memmem_loop.simps [of hay needle end_at h])
      next
        case False
        have not: "\<not> occurs_at needle hay j" if "h \<le> j" "j < hit + 1" for j
          using before [OF that(1)] here False that(2) by (cases "j = hit") auto
        note ih = 1(1) [OF True Some False 1(2-4)]
        have eq: "memmem_loop hay needle end_at h = memmem_loop hay needle end_at (hit + 1)"
          using True Some False by (simp add: memmem_loop.simps [of hay needle end_at h])
        have split: "j < hit + 1 \<or> hit + 1 \<le> j" for j by linarith
        have later: "h \<le> i" if "hit + 1 \<le> i" using that hit(1) by simp
        show ?thesis unfolding eq using ih not split later by blast
      qed
    qed
  qed
qed

lemma find_first: "List.find P [0..<n] = Some i \<longleftrightarrow> i < n \<and> P i \<and> (\<forall>j < i. \<not> P j)"
  by (auto simp: find_Some_iff)

lemma find_map_Suc: "List.find P (map Suc xs) = map_option Suc (List.find (P \<circ> Suc) xs)"
  by (induction xs) auto

lemma memmem_first: "sppc_memmem_win hay needle = c_strstr hay needle"
proof (cases "needle = [] \<or> length needle > length hay")
  case True
  then show ?thesis
  proof (cases "needle = []")
    case True
    have "c_strstr hay [] = Some 0" unfolding c_strstr_def by (subst find_first) (simp add: occurs_at_def)
    then show ?thesis using True by (simp add: sppc_memmem_win_def)
  next
    case False
    then have "c_strstr hay needle = None" using \<open>needle = [] \<or> length needle > length hay\<close>
      by (auto simp: c_strstr_def find_None_iff occurs_at_def)
    then show ?thesis using False \<open>needle = [] \<or> length needle > length hay\<close> by (simp add: sppc_memmem_win_def)
  qed
next
  case False
  then have n: "needle \<noteq> []" "length needle \<le> length hay" by auto
  note loop = memmem_loop_first [OF n(1) refl n(2), of 0]
  have eq: "sppc_memmem_win hay needle = memmem_loop hay needle (length hay - length needle) 0"
    using n by (simp add: sppc_memmem_win_def)
  show ?thesis
  proof (cases "memmem_loop hay needle (length hay - length needle) 0")
    case None
    then have "\<not> occurs_at needle hay j" for j using loop by simp
    then show ?thesis unfolding eq None by (simp add: c_strstr_def find_None_iff2 del: upt_Suc)
  next
    case (Some i)
    then have i: "occurs_at needle hay i" "\<forall>j < i. \<not> occurs_at needle hay j" using loop by simp_all
    then have "c_strstr hay needle = Some i"
      unfolding c_strstr_def by (subst find_first) (auto simp: occurs_at_def)
    then show ?thesis by (simp add: eq Some)
  qed
qed

lemma strnicmp_take: "c_strnicmp hay needle (length needle) \<longleftrightarrow> occurs_at (map to_lower needle) (map to_lower hay) 0"
proof (induction hay needle "length needle" rule: c_strnicmp.induct)
  case (2 a as b bs n)
  then show ?case by (auto simp: occurs_at_def)
qed (auto simp: occurs_at_def)

lemma strstr_Cons:
  "c_strstr (a # hay) needle = (if occurs_at needle (a # hay) 0 then Some 0 else map_option Suc (c_strstr hay needle))"
proof -
  have "[0..<length (a # hay) + 1] = 0 # map Suc [0..<length hay + 1]" by (simp add: upt_conv_Cons map_Suc_upt del: upt_Suc)
  moreover have "occurs_at needle (a # hay) \<circ> Suc = occurs_at needle hay" by (auto simp: occurs_at_def)
  ultimately show ?thesis by (simp add: c_strstr_def find_map_Suc del: upt_Suc)
qed

lemma strcasestr_first: "strcasestr_win hay needle = c_strstr (map to_lower hay) (map to_lower needle)"
proof (induction hay)
  case Nil
  have "c_strstr [] (map to_lower needle) = (if needle = [] then Some 0 else None)"
    by (simp add: c_strstr_def occurs_at_def)
  moreover have "c_strnicmp [] needle (length needle) \<longleftrightarrow> needle = []"
    by (simp add: strnicmp_take occurs_at_def)
  ultimately show ?case by (simp add: strcasestr_win.simps [of "[]"])
next
  case (Cons a hay)
  then show ?case by (simp add: strcasestr_win.simps [of "a # hay"] strstr_Cons strnicmp_take)
qed

text \<open>C36: the searches Windows lacks give what the C libraries' own do elsewhere: \<^verbatim>\<open>memmem\<close>, by first bytes, and
  \<^verbatim>\<open>strcasestr\<close>, by trying each place, find the first place the needle is at (the start for an empty one), and nothing
  exactly when there is none; they always return.\<close>

theorem searches_first:
  "sppc_memmem_win hay needle = c_strstr hay needle \<and>
   strcasestr_win hay needle = c_strstr (map to_lower hay) (map to_lower needle) \<and>
   (sppc_memmem_win hay needle = Some i \<longleftrightarrow> occurs_at needle hay i \<and> (\<forall>j < i. \<not> occurs_at needle hay j))"
proof (intro conjI)
  show "sppc_memmem_win hay needle = Some i \<longleftrightarrow> occurs_at needle hay i \<and> (\<forall>j < i. \<not> occurs_at needle hay j)"
    unfolding memmem_first c_strstr_def by (subst find_first) (auto simp: occurs_at_def)
qed (rule memmem_first strcasestr_first)+

lemma searches_first_witness:
  "sppc_memmem_win [1, 1, 2] [1, 2] = Some 1 \<and> \<not> occurs_at [1, 2] [1, 1, 2 :: u8] 0"
proof -
  have "occurs_at [1, 2] [1, 1, 2 :: u8] 1 \<and> (\<forall>j < 1. \<not> occurs_at [1, 2] [1, 1, 2 :: u8] j)"
    by (simp add: occurs_at_def)
  then show ?thesis using searches_first [of "[1, 1, 2]" "[1, 2]" 1] by fastforce
qed

end
