(* ===== verification/FdTable.thy ===== *)
theory FdTable
  imports WinErrors
begin

text \<open>
  The table of file descriptors on Windows (platform/windows.h, FD TABLE: DESCRIPTIONS and THE TABLE, with the calls
  of FILE DESCRIPTORS that change it). A description is a key of a heap of them, and counted; the table's slots name
  descriptions. What Windows says of a handle and whether memory can be had are arguments; what it is told (handles
  closed, standard handles set) is recorded. Everything under one hold of the table's lock is one operation.
\<close>

datatype fd_kind = FdHandle | FdConsoleIn | FdConsoleOut | FdSocket

definition FD_MAX :: nat where "FD_MAX = 65536"
definition FD_READ :: int where "FD_READ = 1"
definition FD_WRITE :: int where "FD_WRITE = 2"

record ofd =
  od_refs :: int
  od_kind :: fd_kind
  od_access :: int
  od_handle :: nat
  od_disk :: bool
  od_append :: bool
  od_nonblock :: bool
  od_reuseaddr :: bool
  od_iocp :: int
  od_pending :: "u8 list"   \<comment> \<open>the start of a character a console write ended in\<close>
  od_in :: "u8 list"        \<comment> \<open>console input converted but not asked for yet\<close>
  od_in_pos :: nat

type_synonym fd_slot = "nat option \<times> bool"  \<comment> \<open>the description; close on exec\<close>

record fd_table =
  ft_up :: bool
  ft_slots :: "fd_slot list"
  ft_ofds :: "nat \<rightharpoonup> ofd"
  ft_next :: nat                           \<comment> \<open>the key of the next description\<close>
  ft_closed :: "(nat \<times> fd_kind \<times> nat) list"  \<comment> \<open>handles closed, with the description they were of\<close>
  ft_std :: "nat \<rightharpoonup> nat"                    \<comment> \<open>SetStdHandle\<close>

text \<open>What Windows answers: whether a handle is a character device, has a console mode, has input events, is a disk's.\<close>

record fd_env =
  fe_char :: "nat \<Rightarrow> bool"
  fe_mode :: "nat \<Rightarrow> bool"
  fe_events :: "nat \<Rightarrow> bool"
  fe_disk :: "nat \<Rightarrow> bool"
  fe_std :: "nat \<Rightarrow> nat option"  \<comment> \<open>GetStdHandle of fd 0, 1, 2\<close>
  fe_table :: bool               \<comment> \<open>whether the first table's memory can be had\<close>
  fe_ofd :: bool                 \<comment> \<open>and a description's\<close>
  fe_grow :: "nat \<Rightarrow> bool"       \<comment> \<open>and a table of so many slots\<close>

section \<open>Descriptions\<close>

definition fd_kind_of :: "fd_env \<Rightarrow> nat \<Rightarrow> fd_kind" where
  "fd_kind_of e handle =
     (if \<not> fe_char e handle \<or> \<not> fe_mode e handle then FdHandle
      else if fe_events e handle then FdConsoleIn else FdConsoleOut)"

definition ofd_new :: "fd_env \<Rightarrow> nat \<Rightarrow> int \<Rightarrow> fd_table \<Rightarrow> nat option \<times> fd_table" where
  "ofd_new e handle access t =
     (if \<not> fe_ofd e then (None, t)
      else (Some (ft_next t), t\<lparr>ft_next := ft_next t + 1,
        ft_ofds := (ft_ofds t)(ft_next t \<mapsto>
          \<lparr>od_refs = 1, od_kind = fd_kind_of e handle, od_access = access, od_handle = handle, od_disk = fe_disk e handle,
           od_append = False, od_nonblock = False, od_reuseaddr = False, od_iocp = 0, od_pending = [], od_in = [],
           od_in_pos = 0\<rparr>)\<rparr>))"

definition add_ref :: "int \<Rightarrow> ofd \<Rightarrow> ofd" where
  "add_ref d o' = o'\<lparr>od_refs := od_refs o' + d\<rparr>"

definition ofd_retain :: "nat \<Rightarrow> fd_table \<Rightarrow> fd_table" where
  "ofd_retain i t = t\<lparr>ft_ofds := (ft_ofds t)(i := map_option (add_ref 1) (ft_ofds t i))\<rparr>"

definition ofd_release :: "nat option \<Rightarrow> fd_table \<Rightarrow> fd_table" where
  "ofd_release oi t =
     (case oi of None \<Rightarrow> t
      | Some i \<Rightarrow>
        (case ft_ofds t i of None \<Rightarrow> t
         | Some o' \<Rightarrow>
           if od_refs o' - 1 \<noteq> 0 then t\<lparr>ft_ofds := (ft_ofds t)(i \<mapsto> add_ref (- 1) o')\<rparr>
           else t\<lparr>ft_ofds := (ft_ofds t)(i := None), ft_closed := ft_closed t @ [(i, od_kind o', od_handle o')]\<rparr>))"

section \<open>The table\<close>

definition slot_ofd :: "fd_table \<Rightarrow> nat \<Rightarrow> nat option" where
  "slot_ofd t fd = (if fd < length (ft_slots t) then fst (ft_slots t ! fd) else None)"

definition std_slot :: "fd_env \<Rightarrow> nat \<Rightarrow> fd_table \<Rightarrow> fd_table" where
  "std_slot e fd t =
     (case fe_std e fd of None \<Rightarrow> t
      | Some h \<Rightarrow>
        (case List.find (\<lambda>a. case slot_ofd t a of Some i \<Rightarrow> map_option od_handle (ft_ofds t i) = Some h | None \<Rightarrow> False) [0..<fd] of
           Some a \<Rightarrow>
             (case slot_ofd t a of None \<Rightarrow> t
              | Some i \<Rightarrow> ofd_retain i (t\<lparr>ft_slots := (ft_slots t)[fd := (Some i, snd (ft_slots t ! fd))]\<rparr>))
         | None \<Rightarrow>
             (case ofd_new e h (FD_READ OR FD_WRITE) t of
                (oi, t1) \<Rightarrow> t1\<lparr>ft_slots := (ft_slots t1)[fd := (oi, snd (ft_slots t1 ! fd))]\<rparr>)))"

definition fds_init :: "fd_env \<Rightarrow> fd_table \<Rightarrow> bool \<times> fd_table" where
  "fds_init e t =
     (if \<not> fe_table e then (False, t)
      else (True, std_slot e 2 (std_slot e 1 (std_slot e 0 (t\<lparr>ft_up := True, ft_slots := replicate 16 (None, False)\<rparr>)))))"

definition fds_ready :: "fd_env \<Rightarrow> fd_table \<Rightarrow> bool \<times> fd_table" where
  "fds_ready e t =
     (if ft_up t then (True, t) else fds_init e t)"

definition fd_get :: "fd_env \<Rightarrow> int \<Rightarrow> fd_table \<Rightarrow> nat option \<times> fd_table" where
  "fd_get e fd t =
     (if fd < 0 then (None, t)
      else case fds_ready e t of
        (False, t1) \<Rightarrow> (None, t1)
      | (True, t1) \<Rightarrow>
          (case slot_ofd t1 (nat fd) of None \<Rightarrow> (None, t1) | Some i \<Rightarrow> (Some i, ofd_retain i t1)))"

function grown_cap :: "nat \<Rightarrow> nat \<Rightarrow> nat" where
  "grown_cap cap fd = (if 0 < cap \<and> cap \<le> fd then grown_cap (cap * 2) fd else cap)"
  by pat_completeness auto
termination by (relation "measure (\<lambda>(cap, fd). fd + 1 - cap)") auto

definition fds_reserve :: "fd_env \<Rightarrow> nat \<Rightarrow> fd_table \<Rightarrow> bool \<times> fd_table" where
  "fds_reserve e fd t =
     (if fd < length (ft_slots t) then (True, t)
      else let c = grown_cap (length (ft_slots t)) fd; cap = (if c > FD_MAX then FD_MAX else c)
        in if \<not> fe_grow e cap then (False, t)
           else (True, t\<lparr>ft_slots := ft_slots t @ replicate (cap - length (ft_slots t)) (None, False)\<rparr>))"

definition fds_set :: "nat \<Rightarrow> nat option \<Rightarrow> bool \<Rightarrow> fd_table \<Rightarrow> nat option \<times> fd_table" where
  "fds_set fd oi cloexec t =
     (let t1 = t\<lparr>ft_slots := (ft_slots t)[fd := (oi, cloexec)]\<rparr> in
      (slot_ofd t fd,
       if fd < 3
       then t1\<lparr>ft_std := (ft_std t)(fd := (case oi of Some i \<Rightarrow> map_option od_handle (ft_ofds t i) | None \<Rightarrow> None))\<rparr>
       else t1))"

text \<open>The search of an install: the first fd from one on that is free.\<close>

function free_fd :: "fd_table \<Rightarrow> nat \<Rightarrow> nat option" where
  "free_fd t fd =
     (if fd < FD_MAX then (if slot_ofd t fd \<noteq> None then free_fd t (fd + 1) else Some fd) else None)"
  by pat_completeness auto
termination by (relation "measure (\<lambda>(t, fd). FD_MAX - fd)") auto

declare grown_cap.simps [simp del] free_fd.simps [simp del]

definition install_locked :: "fd_env \<Rightarrow> nat \<Rightarrow> nat \<Rightarrow> bool \<Rightarrow> fd_table \<Rightarrow> int \<times> nat option \<times> fd_table" where
  "install_locked e i lowest cloexec t =
     (case free_fd t lowest of
        None \<Rightarrow> (SPPC_EMFILE, None, t)
      | Some fd \<Rightarrow>
          (case fds_reserve e fd t of
             (False, t1) \<Rightarrow> (SPPC_ENOMEM, None, t1)
           | (True, t1) \<Rightarrow> (0, Some fd, snd (fds_set fd (Some i) cloexec t1))))"

definition fd_install :: "fd_env \<Rightarrow> nat \<Rightarrow> nat \<Rightarrow> bool \<Rightarrow> fd_table \<Rightarrow> int \<times> nat option \<times> fd_table" where
  "fd_install e i lowest cloexec t =
     (case fds_ready e t of
        (False, t1) \<Rightarrow> (SPPC_ENOMEM, None, ofd_release (Some i) t1)
      | (True, t1) \<Rightarrow>
          (case install_locked e i lowest cloexec t1 of
             (err, out, t2) \<Rightarrow> if err \<noteq> 0 then (err, None, ofd_release (Some i) t2) else (0, out, t2)))"

text \<open>A handle sppc has opened: closed again (as nobody's) if it cannot have a description.\<close>

definition fd_adopt :: "fd_env \<Rightarrow> nat \<Rightarrow> int \<Rightarrow> bool \<Rightarrow> fd_table \<Rightarrow> int \<times> nat option \<times> fd_table \<times> nat list" where
  "fd_adopt e handle access cloexec t =
     (case ofd_new e handle access t of
        (None, t1) \<Rightarrow> (SPPC_ENOMEM, None, t1, [handle])
      | (Some i, t1) \<Rightarrow> (case fd_install e i 0 cloexec t1 of (err, out, t2) \<Rightarrow> (err, out, t2, [])))"

section \<open>The calls\<close>

definition remove_locked :: "nat \<Rightarrow> fd_table \<Rightarrow> bool \<times> nat option \<times> fd_table" where
  "remove_locked fd t =
     (if slot_ofd t fd \<noteq> None then (case fds_set fd None False t of (old, t1) \<Rightarrow> (True, old, t1)) else (False, None, t))"

definition sppc_close_win :: "fd_env \<Rightarrow> int \<Rightarrow> fd_table \<Rightarrow> int \<times> fd_table" where
  "sppc_close_win e fd t =
     (if fd < 0 then (SPPC_EBADF, t)
      else case fds_ready e t of
        (False, t1) \<Rightarrow> (SPPC_EBADF, t1)
      | (True, t1) \<Rightarrow>
          (case remove_locked (nat fd) t1 of
             (False, _, t2) \<Rightarrow> (SPPC_EBADF, t2)
           | (True, old, t2) \<Rightarrow> (0, ofd_release old t2)))"

definition sppc_dup_win :: "fd_env \<Rightarrow> int \<Rightarrow> fd_table \<Rightarrow> int \<times> nat option \<times> fd_table" where
  "sppc_dup_win e fd t =
     (case fd_get e fd t of (None, t1) \<Rightarrow> (SPPC_EBADF, None, t1) | (Some i, t1) \<Rightarrow> fd_install e i 0 False t1)"

definition replace_locked :: "fd_env \<Rightarrow> nat \<Rightarrow> nat \<Rightarrow> fd_table \<Rightarrow> bool \<times> nat option \<times> fd_table" where
  "replace_locked e i target t =
     (case fds_reserve e target t of
        (False, t1) \<Rightarrow> (False, None, t1)
      | (True, t1) \<Rightarrow> (case fds_set target (Some i) False t1 of (old, t2) \<Rightarrow> (True, old, t2)))"

definition sppc_dup2_win :: "fd_env \<Rightarrow> int \<Rightarrow> int \<Rightarrow> fd_table \<Rightarrow> int \<times> fd_table" where
  "sppc_dup2_win e fd target t =
     (case fd_get e fd t of
        (None, t1) \<Rightarrow> (SPPC_EBADF, t1)
      | (Some i, t1) \<Rightarrow>
          if target < 0 \<or> target \<ge> int FD_MAX then (SPPC_EBADF, ofd_release (Some i) t1)
          else if target = fd then (0, ofd_release (Some i) t1)
          else (case replace_locked e i (nat target) t1 of
                  (False, _, t2) \<Rightarrow> (SPPC_ENOMEM, ofd_release (Some i) t2)
                | (True, old, t2) \<Rightarrow> (0, ofd_release old t2)))"

text \<open>\<^verbatim>\<open>made\<close>: the two handles, or the win32 error; the last list the handles closed that no description had.\<close>

definition sppc_pipe_win ::
  "os_macros \<Rightarrow> fd_env \<Rightarrow> int + nat \<times> nat \<Rightarrow> fd_table \<Rightarrow> int \<times> (nat \<times> nat) option \<times> fd_table \<times> nat list" where
  "sppc_pipe_win os e made t =
     (case made of
        Inl win \<Rightarrow> (sppc_errno_win32 os win, None, t, [])
      | Inr (r, w) \<Rightarrow>
          (case fd_adopt e r FD_READ True t of
             (rerr, rfd, t1, shut) \<Rightarrow>
               if rerr \<noteq> 0 then (rerr, None, t1, shut @ [w])
               else (case fd_adopt e w FD_WRITE True t1 of
                       (werr, wfd, t2, shut2) \<Rightarrow>
                         if werr \<noteq> 0
                         then (werr, None, snd (sppc_close_win e (case rfd of Some n \<Rightarrow> int n | None \<Rightarrow> - 1) t2), shut @ shut2)
                         else (0, (case (rfd, wfd) of (Some a, Some b) \<Rightarrow> Some (a, b) | _ \<Rightarrow> None), t2, shut @ shut2))))"

section \<open>What the table keeps\<close>

text \<open>How many references a description has: the fds that name it, and the calls that still use it (\<^verbatim>\<open>pins\<close>).\<close>

definition total :: "(nat \<Rightarrow> nat) \<Rightarrow> fd_table \<Rightarrow> nat \<Rightarrow> nat" where
  "total pins t i = card {fd. slot_ofd t fd = Some i} + pins i"

definition counted :: "ofd option \<Rightarrow> nat \<Rightarrow> bool" where
  "counted oo n \<longleftrightarrow> (case oo of None \<Rightarrow> n = 0 | Some o' \<Rightarrow> od_refs o' = int n \<and> 0 < n)"

definition closed_ids :: "fd_table \<Rightarrow> nat list" where
  "closed_ids t = map fst (ft_closed t)"

definition book_ok :: "fd_table \<Rightarrow> bool" where
  "book_ok t \<longleftrightarrow> (\<forall>i. ft_next t \<le> i \<longrightarrow> ft_ofds t i = None) \<and> distinct (closed_ids t) \<and>
     set (closed_ids t) = {i. i < ft_next t \<and> ft_ofds t i = None}"

definition shape_ok :: "fd_table \<Rightarrow> bool" where
  "shape_ok t \<longleftrightarrow> length (ft_slots t) \<le> FD_MAX \<and> (ft_up t \<longleftrightarrow> ft_slots t \<noteq> [])"

definition table_ok :: "(nat \<Rightarrow> nat) \<Rightarrow> fd_table \<Rightarrow> bool" where
  "table_ok pins t \<longleftrightarrow> (\<forall>i. counted (ft_ofds t i) (total pins t i)) \<and> book_ok t \<and> shape_ok t"

lemma table_okI:
  "(\<And>i. counted (ft_ofds t i) (total pins t i)) \<Longrightarrow> book_ok t \<Longrightarrow> shape_ok t \<Longrightarrow> table_ok pins t"
  by (simp add: table_ok_def)

lemma table_okD: "table_ok pins t \<Longrightarrow> book_ok t" "table_ok pins t \<Longrightarrow> shape_ok t"
  by (simp_all add: table_ok_def)

lemma shape_cong: "shape_ok t \<Longrightarrow> ft_slots t' = ft_slots t \<Longrightarrow> ft_up t' = ft_up t \<Longrightarrow> shape_ok t'"
  by (simp add: shape_ok_def)

lemma slot_finite [simp]: "finite {fd. slot_ofd t fd = Some i}"
  by (rule finite_subset [of _ "{..<length (ft_slots t)}"]) (auto simp: slot_ofd_def split: if_splits)

lemma table_ok_counted: "table_ok pins t \<Longrightarrow> counted (ft_ofds t i) (total pins t i)"
  by (simp add: table_ok_def)

lemma named_lives:
  assumes "table_ok pins t" "slot_ofd t fd = Some i \<or> 0 < pins i"
  obtains o' where "ft_ofds t i = Some o'" "od_refs o' = int (total pins t i)" "0 < total pins t i"
proof -
  have "0 < total pins t i"
  proof (cases "0 < pins i")
    case False
    then have "{fd. slot_ofd t fd = Some i} \<noteq> {}" using assms(2) by auto
    then show ?thesis by (simp add: total_def card_gt_0_iff)
  qed (simp add: total_def)
  then show thesis using table_ok_counted [OF assms(1), of i] that
    by (cases "ft_ofds t i") (auto simp: counted_def)
qed

lemma total_one: "total (pins(i := n)) t j = (if j = i then total pins t i - pins i + n else total pins t j)"
  by (simp add: total_def)

lemma total_slots: "total pins (t\<lparr>ft_ofds := a, ft_next := b, ft_closed := c\<rparr>) = total pins t"
  "total pins (t\<lparr>ft_ofds := a\<rparr>) = total pins t" "total pins (t\<lparr>ft_ofds := a, ft_closed := c\<rparr>) = total pins t"
  "total pins (t\<lparr>ft_next := b, ft_ofds := a\<rparr>) = total pins t" "total pins (t\<lparr>ft_std := d\<rparr>) = total pins t"
  "total pins (t\<lparr>ft_up := u\<rparr>) = total pins t" "total pins (t\<lparr>ft_next := b\<rparr>) = total pins t"
  by (simp_all add: total_def slot_ofd_def fun_eq_iff)

lemma total_pin: "pins i \<le> total pins t i"
  by (simp add: total_def)

lemma retain_fields [simp]:
  "ft_slots (ofd_retain i t) = ft_slots t" "ft_up (ofd_retain i t) = ft_up t" "ft_next (ofd_retain i t) = ft_next t"
  "ft_closed (ofd_retain i t) = ft_closed t" "ft_std (ofd_retain i t) = ft_std t"
  "ft_ofds (ofd_retain i t) = (ft_ofds t)(i := map_option (add_ref 1) (ft_ofds t i))"
  "slot_ofd (ofd_retain i t) = slot_ofd t" "total pins (ofd_retain i t) = total pins t"
  by (simp_all add: ofd_retain_def total_slots slot_ofd_def fun_eq_iff)

lemma retain_ok:
  assumes ok: "table_ok pins t" and some: "ft_ofds t i \<noteq> None"
  shows "table_ok (pins(i := Suc (pins i))) (ofd_retain i t)"
proof (rule table_okI)
  obtain o' where o': "ft_ofds t i = Some o'" using some by auto
  show "counted (ft_ofds (ofd_retain i t) j) (total (pins(i := Suc (pins i))) (ofd_retain i t) j)" for j
    using table_ok_counted [OF ok, of j] total_pin [of pins i t] o'
    by (cases "j = i") (simp_all add: counted_def total_one add_ref_def)
  show "book_ok (ofd_retain i t)" using table_okD(1) [OF ok] by (auto simp: book_ok_def closed_ids_def)
  show "shape_ok (ofd_retain i t)" using table_okD(2) [OF ok] by (rule shape_cong) simp_all
qed

lemma book_fresh:
  assumes "book_ok t" "ft_ofds t i = Some o'"
  shows "i < ft_next t \<and> i \<notin> set (closed_ids t)"
proof
  show "i < ft_next t" using assms by (cases "i < ft_next t") (simp_all add: book_ok_def)
  show "i \<notin> set (closed_ids t)" using assms by (simp add: book_ok_def)
qed

lemma release_ok:
  assumes ok: "table_ok pins t" and pin: "0 < pins i"
  shows "table_ok (pins(i := pins i - 1)) (ofd_release (Some i) t)"
proof -
  obtain o' where o': "ft_ofds t i = Some o'" "od_refs o' = int (total pins t i)" "0 < total pins t i"
    using named_lives [OF ok] pin by blast
  define pins' where "pins' = pins(i := pins i - 1)"
  have tot: "total pins' t j = (if j = i then total pins t i - 1 else total pins t j)" for j
    using pin by (simp add: total_def pins'_def)
  have book: "i < ft_next t" "i \<notin> set (closed_ids t)" 
    using book_fresh [OF table_okD(1) [OF ok] o'(1)] by blast+
  show ?thesis
  proof (cases "total pins t i = 1")
    case True
    define t' where "t' = t\<lparr>ft_ofds := (ft_ofds t)(i := None), ft_closed := ft_closed t @ [(i, od_kind o', od_handle o')]\<rparr>"
    have rel: "ofd_release (Some i) t = t'" using o' True by (simp add: ofd_release_def t'_def)
    have "table_ok pins' t'"
    proof (rule table_okI)
      show "counted (ft_ofds t' j) (total pins' t' j)" for j
        using table_ok_counted [OF ok, of j] True by (simp add: t'_def total_slots tot counted_def)
      show "book_ok t'" using table_okD(1) [OF ok] book by (auto simp: t'_def book_ok_def closed_ids_def)
      show "shape_ok t'" using table_okD(2) [OF ok] by (rule shape_cong) (simp_all add: t'_def)
    qed
    then show ?thesis unfolding rel pins'_def .
  next
    case False
    define t' where "t' = t\<lparr>ft_ofds := (ft_ofds t)(i \<mapsto> add_ref (- 1) o')\<rparr>"
    have rel: "ofd_release (Some i) t = t'" using o' False by (simp add: ofd_release_def t'_def)
    have "table_ok pins' t'"
    proof (rule table_okI)
      show "counted (ft_ofds t' j) (total pins' t' j)" for j
        using table_ok_counted [OF ok, of j] False o' by (auto simp: t'_def total_slots tot counted_def add_ref_def)
      show "book_ok t'" using table_okD(1) [OF ok] book o'(1) by (auto simp: t'_def book_ok_def closed_ids_def)
      show "shape_ok t'" using table_okD(2) [OF ok] by (rule shape_cong) (simp_all add: t'_def)
    qed
    then show ?thesis unfolding rel pins'_def .
  qed
qed

lemma new_ok:
  assumes ok: "table_ok pins t" and new: "ofd_new e h a t = (Some i, t')"
  shows "table_ok (pins(i := 1)) t'" and "pins i = 0" and "ft_slots t' = ft_slots t" and "ft_up t' = ft_up t"
    and "i = ft_next t" and "ft_ofds t' i \<noteq> None"
proof -
  define o' where "o' = \<lparr>od_refs = 1, od_kind = fd_kind_of e h, od_access = a, od_handle = h, od_disk = fe_disk e h,
           od_append = False, od_nonblock = False, od_reuseaddr = False, od_iocp = 0, od_pending = [], od_in = [],
           od_in_pos = 0\<rparr>"
  have i: "i = ft_next t" and t': "t' = t\<lparr>ft_next := ft_next t + 1, ft_ofds := (ft_ofds t)(i \<mapsto> o')\<rparr>"
    using new by (auto simp: ofd_new_def o'_def split: if_splits)
  have none: "ft_ofds t i = None" using table_okD(1) [OF ok] i by (simp add: book_ok_def)
  then have zero: "total pins t i = 0" using table_ok_counted [OF ok, of i] by (simp add: counted_def)
  then show "pins i = 0" by (simp add: total_def)
  show "ft_slots t' = ft_slots t" "ft_up t' = ft_up t" "i = ft_next t" "ft_ofds t' i \<noteq> None" by (simp_all add: t' i)
  show "table_ok (pins(i := 1)) t'"
  proof (rule table_okI)
    show "counted (ft_ofds t' j) (total (pins(i := 1)) t' j)" for j
      using table_ok_counted [OF ok, of j] zero by (auto simp: t' total_slots total_one counted_def o'_def)
    show "book_ok t'" using table_okD(1) [OF ok] none i by (auto simp: t' book_ok_def closed_ids_def less_Suc_eq)
    show "shape_ok t'" using table_okD(2) [OF ok] by (rule shape_cong) (simp_all add: t')
  qed
qed

text \<open>A slot changed: who left it is pinned by the caller, who came is so no more.\<close>

definition repinned :: "(nat \<Rightarrow> nat) \<Rightarrow> nat option \<Rightarrow> nat option \<Rightarrow> nat \<Rightarrow> nat" where
  "repinned pins old new i = pins i + (if old = Some i then 1 else 0) - (if new = Some i then 1 else 0)"

lemma slot_ofd_set:
  "fd < length (ft_slots t) \<Longrightarrow> slot_ofd (t\<lparr>ft_slots := (ft_slots t)[fd := (oi, c)]\<rparr>) = (slot_ofd t)(fd := oi)"
  by (auto simp: slot_ofd_def fun_eq_iff)

lemma total_set:
  assumes fd: "fd < length (ft_slots t)" and new: "\<And>i. oi = Some i \<Longrightarrow> 0 < pins i"
  shows "total (repinned pins (slot_ofd t fd) oi) (t\<lparr>ft_slots := (ft_slots t)[fd := (oi, c)]\<rparr>) i = total pins t i"
proof -
  define S where "S = {x. slot_ofd t x = Some i}"
  have fin: "finite S" unfolding S_def by simp
  have after: "{x. ((slot_ofd t)(fd := oi)) x = Some i} = (if oi = Some i then insert fd S else S - {fd})"
    by (auto simp: S_def)
  have mem: "fd \<in> S \<longleftrightarrow> slot_ofd t fd = Some i" by (simp add: S_def)
  have left: "fd \<in> S \<Longrightarrow> card S = Suc (card (S - {fd}))" using fin by (rule card.remove)
  have "card (if oi = Some i then insert fd S else S - {fd}) + repinned pins (slot_ofd t fd) oi i = card S + pins i"
    using fin mem new [of i] left by (auto simp: repinned_def card_insert_if)
  then show ?thesis unfolding total_def slot_ofd_set [OF fd] after S_def .
qed

lemma put_ok:
  assumes ok: "table_ok pins t" and fd: "fd < length (ft_slots t)" and new: "\<And>i. oi = Some i \<Longrightarrow> 0 < pins i"
  shows "table_ok (repinned pins (slot_ofd t fd) oi) (t\<lparr>ft_slots := (ft_slots t)[fd := (oi, c)]\<rparr>)"
proof (rule table_okI)
  let ?t = "t\<lparr>ft_slots := (ft_slots t)[fd := (oi, c)]\<rparr>"
  show "counted (ft_ofds ?t i) (total (repinned pins (slot_ofd t fd) oi) ?t i)" for i
    using table_ok_counted [OF ok, of i] total_set [OF fd, of oi pins c i] new by simp
  show "book_ok ?t" using table_okD(1) [OF ok] by (simp add: book_ok_def closed_ids_def)
  show "shape_ok ?t" using table_okD(2) [OF ok] by (simp add: shape_ok_def)
qed

lemma std_ok: "table_ok pins (t\<lparr>ft_std := d\<rparr>) = table_ok pins t"
  by (simp add: table_ok_def total_slots book_ok_def shape_ok_def closed_ids_def)

lemma set_ok:
  assumes ok: "table_ok pins t" and fd: "fd < length (ft_slots t)" and new: "\<And>i. oi = Some i \<Longrightarrow> 0 < pins i"
    and set: "fds_set fd oi c t = (old, t')"
  shows "table_ok (repinned pins old oi) t'" and "old = slot_ofd t fd" and "slot_ofd t' = (slot_ofd t)(fd := oi)"
    and "ft_ofds t' = ft_ofds t" and "ft_up t' = ft_up t" and "ft_closed t' = ft_closed t" and "ft_next t' = ft_next t"
    and "snd (ft_slots t' ! fd) = c"
proof -
  let ?t = "t\<lparr>ft_slots := (ft_slots t)[fd := (oi, c)]\<rparr>"
  have t': "\<exists>d. t' = ?t\<lparr>ft_std := d\<rparr>" and old: "old = slot_ofd t fd"
    using set by (auto simp: fds_set_def Let_def split: if_splits) (metis fd_table.surjective fd_table.update_convs(6))
  then obtain d where d: "t' = ?t\<lparr>ft_std := d\<rparr>" by blast
  show "old = slot_ofd t fd" by (rule old)
  show "table_ok (repinned pins old oi) t'" unfolding d std_ok old by (rule put_ok [OF ok fd new])
  have "slot_ofd t' = slot_ofd ?t" by (simp add: d slot_ofd_def fun_eq_iff)
  then show "slot_ofd t' = (slot_ofd t)(fd := oi)" using slot_ofd_set [OF fd] by simp
  show "ft_ofds t' = ft_ofds t" "ft_up t' = ft_up t" "ft_closed t' = ft_closed t" "ft_next t' = ft_next t"
    "snd (ft_slots t' ! fd) = c" using fd by (simp_all add: d)
qed

lemma grown_cap_ge: "0 < cap \<Longrightarrow> fd < grown_cap cap fd \<and> cap \<le> grown_cap cap fd"
  by (induction cap fd rule: grown_cap.induct) (subst (1 2) grown_cap.simps, auto)

lemma reserve_ok:
  assumes ok: "table_ok pins t" and up: "ft_up t" and fd: "fd < FD_MAX" and res: "fds_reserve e fd t = (b, t')"
  shows "table_ok pins t'" and "b \<Longrightarrow> fd < length (ft_slots t')" and "slot_ofd t' = slot_ofd t"
    and "ft_ofds t' = ft_ofds t" and "ft_up t' = ft_up t" and "ft_closed t' = ft_closed t" and "ft_next t' = ft_next t"
    and "\<not> b \<Longrightarrow> t' = t"
proof -
  define cap where "cap = (let c = grown_cap (length (ft_slots t)) fd in if c > FD_MAX then FD_MAX else c)"
  have len: "0 < length (ft_slots t)" "length (ft_slots t) \<le> FD_MAX"
    using table_okD(2) [OF ok] up by (auto simp: shape_ok_def)
  have cap: "fd < cap" "length (ft_slots t) \<le> cap" "cap \<le> FD_MAX"
    using grown_cap_ge [OF len(1), of fd] len(2) fd by (auto simp: cap_def Let_def)
  have t': "t' = t \<or> b \<and> t' = t\<lparr>ft_slots := ft_slots t @ replicate (cap - length (ft_slots t)) (None, False)\<rparr>"
    using res by (auto simp: fds_reserve_def cap_def Let_def split: if_splits)
  show slots: "slot_ofd t' = slot_ofd t"
    using t' by (auto simp: slot_ofd_def fun_eq_iff nth_append)
  show f: "ft_ofds t' = ft_ofds t" "ft_up t' = ft_up t" "ft_closed t' = ft_closed t" "ft_next t' = ft_next t"
    using t' by auto
  have "total pins t' = total pins t" unfolding total_def slots ..
  moreover have "shape_ok t'" using t' table_okD(2) [OF ok] cap up by (auto simp: shape_ok_def)
  moreover have "book_ok t'" using table_okD(1) [OF ok] f by (simp add: book_ok_def closed_ids_def)
  ultimately show "table_ok pins t'" using ok f by (simp add: table_ok_def)
  show "fd < length (ft_slots t')" if b
    using res cap that by (auto simp: fds_reserve_def cap_def Let_def split: if_splits)
  show "t' = t" if "\<not> b" using t' that by auto
qed

section \<open>Starting the table\<close>

lemma repinned_in: "0 < pins i \<Longrightarrow> repinned pins None (Some i) = pins(i := pins i - 1)"
  by (auto simp: repinned_def fun_eq_iff)

lemma repinned_out: "repinned pins (Some i) None = pins(i := Suc (pins i))"
  by (auto simp: repinned_def fun_eq_iff)

lemma repinned_none [simp]: "repinned pins None None = pins"
  by (simp add: repinned_def fun_eq_iff)

lemma slot_lives: "table_ok pins t \<Longrightarrow> slot_ofd t fd = Some i \<Longrightarrow> ft_ofds t i \<noteq> None"
  using named_lives [of pins t fd i] by auto

lemma std_slot_ok:
  assumes ok: "table_ok pins t" and fd: "fd < length (ft_slots t)" and free: "slot_ofd t fd = None"
  shows "table_ok pins (std_slot e fd t) \<and> length (ft_slots (std_slot e fd t)) = length (ft_slots t) \<and>
    ft_up (std_slot e fd t) = ft_up t \<and> (\<forall>x. x \<noteq> fd \<longrightarrow> slot_ofd (std_slot e fd t) x = slot_ofd t x)"
proof -
  have put: ?thesis if "std_slot e fd t = t1\<lparr>ft_slots := (ft_slots t1)[fd := (Some i, c)]\<rparr>"
    "table_ok (pins(i := Suc (pins i))) t1" "ft_slots t1 = ft_slots t" "ft_up t1 = ft_up t" for t1 i c
  proof -
    have s1: "slot_ofd t1 = slot_ofd t" using that(3) by (simp add: slot_ofd_def fun_eq_iff)
    have "table_ok (repinned (pins(i := Suc (pins i))) None (Some i)) (std_slot e fd t)"
      using put_ok [OF that(2), of fd "Some i" c] fd free that(1,3) s1 by simp
    moreover have "repinned (pins(i := Suc (pins i))) None (Some i) = pins" by (simp add: repinned_in)
    moreover have "slot_ofd (std_slot e fd t) = (slot_ofd t)(fd := Some i)"
      using slot_ofd_set [of fd t1 "Some i" c] fd that(1,3) s1 by simp
    ultimately show ?thesis using that by simp
  qed
  have none: ?thesis if "std_slot e fd t = t" using ok that by simp
  show ?thesis
  proof (cases "fe_std e fd")
    case None
    then show ?thesis by (intro none) (simp add: std_slot_def)
  next
    case (Some h)
    let ?P = "\<lambda>a. case slot_ofd t a of Some i \<Rightarrow> map_option od_handle (ft_ofds t i) = Some h | None \<Rightarrow> False"
    show ?thesis
    proof (cases "List.find ?P [0..<fd]")
      case None
      show ?thesis
      proof (cases "ofd_new e h (FD_READ OR FD_WRITE) t")
        case (Pair oi t1)
        show ?thesis
        proof (cases oi)
          case None
          then have t1: "t1 = t" using Pair by (auto simp: ofd_new_def split: if_splits)
          have "(ft_slots t)[fd := (None, snd (ft_slots t ! fd))] = ft_slots t"
            using fd free by (intro list_update_same_conv [THEN iffD2]) (auto simp: slot_ofd_def prod_eq_iff)
          then have "std_slot e fd t = t"
            using \<open>fe_std e fd = Some h\<close> \<open>List.find ?P [0..<fd] = None\<close> Pair None t1 by (simp add: std_slot_def)
          then show ?thesis by (rule none)
        next
          case (Some i)
          note new = new_ok [OF ok Pair [unfolded Some]]
          have eq: "std_slot e fd t = t1\<lparr>ft_slots := (ft_slots t1)[fd := (Some i, snd (ft_slots t1 ! fd))]\<rparr>"
            using \<open>fe_std e fd = Some h\<close> \<open>List.find ?P [0..<fd] = None\<close> Pair Some by (simp add: std_slot_def)
          have "table_ok (pins(i := Suc (pins i))) t1" using new(1,2) by simp
          then show ?thesis by (rule put [OF eq]) (rule new(3,4))+
        qed
      qed
    next
      case (Some a)
      then obtain i where i: "slot_ofd t a = Some i" by (auto simp: find_Some_iff split: option.splits)
      have "std_slot e fd t = ofd_retain i (t\<lparr>ft_slots := (ft_slots t)[fd := (Some i, snd (ft_slots t ! fd))]\<rparr>)"
        using \<open>fe_std e fd = Some h\<close> Some i by (simp add: std_slot_def)
      then have eq: "std_slot e fd t =
          (ofd_retain i t)\<lparr>ft_slots := (ft_slots (ofd_retain i t))[fd := (Some i, snd (ft_slots t ! fd))]\<rparr>"
        by (simp add: ofd_retain_def)
      show ?thesis by (rule put [OF eq retain_ok [OF ok slot_lives [OF ok i]]]) simp_all
    qed
  qed
qed

lemma ready_ok:
  assumes ok: "table_ok pins t" and ready: "fds_ready e t = (b, t')"
  shows "table_ok pins t' \<and> (b \<longleftrightarrow> ft_up t')"
proof (cases "ft_up t \<or> \<not> fe_table e")
  case True
  then show ?thesis using ok ready by (auto simp: fds_ready_def fds_init_def split: if_splits)
next
  case False
  define t0 where "t0 = t\<lparr>ft_up := True, ft_slots := replicate 16 (None, False)\<rparr>"
  have empty: "ft_slots t = []" using table_okD(2) [OF ok] False by (simp add: shape_ok_def)
  have s0: "slot_ofd t0 = (\<lambda>_. None)" "slot_ofd t = (\<lambda>_. None)"
    using empty by (auto simp: slot_ofd_def t0_def fun_eq_iff)
  have "total pins t0 = total pins t" unfolding total_def s0 ..
  then have ok0: "table_ok pins t0"
    using ok by (simp add: table_ok_def t0_def book_ok_def closed_ids_def shape_ok_def FD_MAX_def)
  have 0: "0 < length (ft_slots t0)" "length (ft_slots t0) = 16" "ft_up t0" by (simp_all add: t0_def)
  note s1 = std_slot_ok [OF ok0 0(1) s0(1) [THEN fun_cong], of e]
  define t1 where "t1 = std_slot e 0 t0"
  note s2 = std_slot_ok [of pins t1 1 e]
  define t2 where "t2 = std_slot e 1 t1"
  note s3 = std_slot_ok [of pins t2 2 e]
  have t: "b" "t' = std_slot e 2 t2"
    using ready False by (auto simp: fds_ready_def fds_init_def t0_def t1_def t2_def)
  have "table_ok pins t1" "length (ft_slots t1) = 16" "ft_up t1" "slot_ofd t1 1 = None" "slot_ofd t1 2 = None"
    using s1 0 s0 by (simp_all add: t1_def)
  then have "table_ok pins t2" "length (ft_slots t2) = 16" "ft_up t2" "slot_ofd t2 2 = None"
    using s2 by (simp_all add: t2_def)
  then show ?thesis using s3 t by simp
qed

section \<open>The operations\<close>

lemma free_fd_first:
  "(free_fd t fd = Some n \<longrightarrow> fd \<le> n \<and> n < FD_MAX \<and> slot_ofd t n = None \<and> (\<forall>m. fd \<le> m \<longrightarrow> m < n \<longrightarrow> slot_ofd t m \<noteq> None)) \<and>
   (free_fd t fd = None \<longrightarrow> (\<forall>m. fd \<le> m \<longrightarrow> m < FD_MAX \<longrightarrow> slot_ofd t m \<noteq> None))"
proof (induction t fd rule: free_fd.induct)
  case (1 t fd)
  consider "\<not> fd < FD_MAX" | "fd < FD_MAX" "slot_ofd t fd = None" | "fd < FD_MAX" "slot_ofd t fd \<noteq> None" by blast
  then show ?case
  proof cases
    case 3
    have eq: "free_fd t fd = free_fd t (fd + 1)" using 3 by (simp add: free_fd.simps [of t fd])
    have "fd \<le> m \<longleftrightarrow> m = fd \<or> fd + 1 \<le> m" for m by auto
    then show ?thesis unfolding eq using 1 [OF 3] 3(2) by (metis Suc_eq_plus1 Suc_leD)
  qed (auto simp: free_fd.simps [of t fd])
qed

text \<open>Between an install and the caller: the reference is the table's, or is let go of.\<close>

lemma errs_nonzero: "SPPC_EMFILE \<noteq> 0" "SPPC_ENOMEM \<noteq> 0" "SPPC_EBADF \<noteq> 0"
  by simp_all

lemma install_locked_ok:
  assumes ok: "table_ok pins t" and up: "ft_up t" and pin: "0 < pins i"
    and ins: "install_locked e i lowest c t = (err, out, t')"
  shows "if err = 0
    then \<exists>fd. out = Some fd \<and> free_fd t lowest = Some fd \<and> slot_ofd t' = (slot_ofd t)(fd := Some i) \<and>
      table_ok (pins(i := pins i - 1)) t' \<and> ft_ofds t' = ft_ofds t \<and> ft_closed t' = ft_closed t \<and> ft_next t' = ft_next t
    else out = None \<and> t' = t"
proof (cases "free_fd t lowest")
  case None
  then show ?thesis using ins errs_nonzero by (auto simp: install_locked_def)
next
  case (Some fd)
  have fd: "fd < FD_MAX" "slot_ofd t fd = None" using free_fd_first [of t lowest fd] Some by auto
  obtain b t1 where b: "fds_reserve e fd t = (b, t1)" by fastforce
  note res = reserve_ok [OF ok up fd(1) b]
  show ?thesis
  proof (cases b)
    case False
    then show ?thesis using ins Some b res(8) errs_nonzero by (auto simp: install_locked_def)
  next
    case True
    obtain old t2 where set: "fds_set fd (Some i) c t1 = (old, t2)" by fastforce
    have pin': "\<And>j. Some i = Some j \<Longrightarrow> 0 < pins j" using pin by simp
    note put = set_ok [OF res(1) res(2) [OF True] pin' set]
    have "old = None" using put(2) res(3) fd(2) by simp
    then have "table_ok (pins(i := pins i - 1)) t2" using put(1) repinned_in [of pins i] pin by simp
    moreover have "err = 0" "out = Some fd" "t' = t2"
      using ins Some b True set by (auto simp: install_locked_def)
    ultimately show ?thesis using put res Some by simp
  qed
qed

lemma install_ok:
  assumes ok: "table_ok pins t" and pin: "0 < pins i" and ins: "fd_install e i lowest c t = (err, out, t')"
  shows "table_ok (pins(i := pins i - 1)) t'"
proof -
  obtain b t1 where b: "fds_ready e t = (b, t1)" by fastforce
  have ok1: "table_ok pins t1" "b \<longleftrightarrow> ft_up t1" using ready_ok [OF ok b] by auto
  show ?thesis
  proof (cases b)
    case False
    then have "t' = ofd_release (Some i) t1" using ins b by (simp add: fd_install_def)
    then show ?thesis using release_ok [OF ok1(1) pin] by simp
  next
    case True
    obtain err' out' t2 where l: "install_locked e i lowest c t1 = (err', out', t2)" using prod_cases3 by blast
    show ?thesis
    proof (cases "err' = 0")
      case z: True
      then have "t' = t2" using ins b True l by (simp add: fd_install_def)
      then show ?thesis using install_locked_ok [OF ok1(1) _ pin l] True ok1(2) z by auto
    next
      case False
      then have "t' = ofd_release (Some i) t1"
        using ins b True l install_locked_ok [OF ok1(1) _ pin l] ok1(2) by (simp add: fd_install_def)
      then show ?thesis using release_ok [OF ok1(1) pin] by simp
    qed
  qed
qed

lemma get_ok:
  assumes ok: "table_ok pins t" and get: "fd_get e fd t = (oi, t')"
  shows "table_ok (case oi of None \<Rightarrow> pins | Some i \<Rightarrow> pins(i := Suc (pins i))) t'"
proof (cases "fd < 0")
  case True
  then show ?thesis using ok get by (auto simp: fd_get_def)
next
  case False
  obtain b t1 where b: "fds_ready e t = (b, t1)" by fastforce
  have ok1: "table_ok pins t1" using ready_ok [OF ok b] by auto
  show ?thesis
  proof (cases "b \<and> slot_ofd t1 (nat fd) \<noteq> None")
    case True
    then obtain i where i: "slot_ofd t1 (nat fd) = Some i" by auto
    then have "oi = Some i" "t' = ofd_retain i t1" using get False b True by (auto simp: fd_get_def)
    then show ?thesis using retain_ok [OF ok1 slot_lives [OF ok1 i]] by simp
  next
    case none: False
    then have "oi = None" "t' = t1" using get False b by (auto simp: fd_get_def split: bool.splits)
    then show ?thesis using ok1 by simp
  qed
qed

lemma remove_ok:
  assumes ok: "table_ok pins t" and rem: "remove_locked fd t = (True, old, t')"
  shows "\<exists>i. old = Some i \<and> slot_ofd t fd = Some i \<and> slot_ofd t' = (slot_ofd t)(fd := None) \<and>
    table_ok (pins(i := Suc (pins i))) t' \<and> ft_up t' = ft_up t"
proof -
  obtain i where i: "slot_ofd t fd = Some i" using rem by (auto simp: remove_locked_def split: if_splits)
  have set: "fds_set fd None False t = (old, t')" using rem i by (simp add: remove_locked_def split: prod.splits)
  have fd: "fd < length (ft_slots t)" using i by (auto simp: slot_ofd_def split: if_splits)
  have none: "\<And>j. None = Some j \<Longrightarrow> 0 < pins j" by simp
  note put = set_ok [OF ok fd none set]
  have "old = Some i" using put(2) i by simp
  then show ?thesis using put(1,3,5) i repinned_out [of pins i] by simp
qed

lemma replace_ok:
  assumes ok: "table_ok pins t" and up: "ft_up t" and pin: "0 < pins i" and fd: "fd < FD_MAX"
    and rep: "replace_locked e i fd t = (b, old, t')"
  shows "table_ok (if b then repinned pins old (Some i) else pins) t'"
    and "slot_ofd t' = (if b then (slot_ofd t)(fd := Some i) else slot_ofd t)"
    and "old = (if b then slot_ofd t fd else None)"
proof -
  obtain c t1 where c: "fds_reserve e fd t = (c, t1)" by fastforce
  note res = reserve_ok [OF ok up fd c]
  obtain old' t2 where set: "fds_set fd (Some i) False t1 = (old', t2)" by fastforce
  have bc: "b = c" "c \<Longrightarrow> old = old' \<and> t' = t2" "\<not> c \<Longrightarrow> old = None \<and> t' = t1"
    using rep c set by (auto simp: replace_locked_def split: bool.splits)
  have pin': "\<And>j. Some i = Some j \<Longrightarrow> 0 < pins j" using pin by simp
  show "table_ok (if b then repinned pins old (Some i) else pins) t'"
    "slot_ofd t' = (if b then (slot_ofd t)(fd := Some i) else slot_ofd t)" "old = (if b then slot_ofd t fd else None)"
    using bc res set_ok [OF res(1) res(2) pin' set] by (cases c; simp)+
qed

text \<open>
  The threads' calls as steps on the table, each of them one hold of its lock or one count; \<^verbatim>\<open>pins\<close> are the references
  the calls hold between their steps.
\<close>

inductive fd_step :: "(nat \<Rightarrow> nat) \<times> fd_table \<Rightarrow> (nat \<Rightarrow> nat) \<times> fd_table \<Rightarrow> bool" where
  got: "fd_get e fd t = (Some i, t') \<Longrightarrow> fd_step (pins, t) (pins(i := Suc (pins i)), t')"
| got_none: "fd_get e fd t = (None, t') \<Longrightarrow> fd_step (pins, t) (pins, t')"
| let_go: "0 < pins i \<Longrightarrow> fd_step (pins, t) (pins(i := pins i - 1), ofd_release (Some i) t)"
| opened: "ofd_new e h a t = (Some i, t') \<Longrightarrow> fd_step (pins, t) (pins(i := 1), t')"
| installed: "0 < pins i \<Longrightarrow> fd_install e i lowest c t = (err, out, t') \<Longrightarrow> fd_step (pins, t) (pins(i := pins i - 1), t')"
| removed: "remove_locked fd t = (True, Some i, t') \<Longrightarrow> fd_step (pins, t) (pins(i := Suc (pins i)), t')"
| replaced: "ft_up t \<Longrightarrow> 0 < pins i \<Longrightarrow> fd < FD_MAX \<Longrightarrow> replace_locked e i fd t = (b, old, t') \<Longrightarrow>
    fd_step (pins, t) (if b then repinned pins old (Some i) else pins, t')"

definition no_fds :: fd_table where
  "no_fds = \<lparr>ft_up = False, ft_slots = [], ft_ofds = Map.empty, ft_next = 0, ft_closed = [], ft_std = Map.empty\<rparr>"

inductive fd_reach :: "(nat \<Rightarrow> nat) \<times> fd_table \<Rightarrow> bool" where
  start: "fd_reach (\<lambda>_. 0, no_fds)"
| step: "fd_reach s \<Longrightarrow> fd_step s s' \<Longrightarrow> fd_reach s'"

lemma fd_step_ok:
  assumes ok: "table_ok (fst s) (snd s)" and step: "fd_step s s'"
  shows "table_ok (fst s') (snd s')"
  using step
proof (cases rule: fd_step.cases)
  case (got e fd t i t' pins)
  then show ?thesis using get_ok [of pins t e fd "Some i" t'] ok by simp
next
  case (got_none e fd t t' pins)
  then show ?thesis using get_ok [of pins t e fd None t'] ok by simp
next
  case (let_go pins i t)
  then show ?thesis using release_ok [of pins t i] ok by simp
next
  case (opened e h a t i t' pins)
  then show ?thesis using new_ok(1) [of pins t e h a i t'] ok by simp
next
  case (installed pins i e lowest c t err out t')
  then show ?thesis using install_ok [of pins t i e lowest c err out t'] ok by simp
next
  case (removed fd t i t' pins)
  then show ?thesis using remove_ok [of pins t fd "Some i" t'] ok by simp
next
  case (replaced t pins i fd e b old t')
  then show ?thesis using replace_ok(1) [of pins t i fd e b old t'] ok by simp
qed

lemma fd_reach_ok: "fd_reach s \<Longrightarrow> table_ok (fst s) (snd s)"
proof (induction rule: fd_reach.induct)
  case start
  show ?case
    by (simp add: table_ok_def no_fds_def counted_def total_def slot_ofd_def book_ok_def closed_ids_def shape_ok_def)
next
  case (step s s')
  then show ?case using fd_step_ok by blast
qed

text \<open>C6: whatever the threads do with fds on Windows, call by call: an fd never names a description whose handle has been
  closed; every handle is closed at most once, and exactly when no fd names its description any more and no call is
  still using it; there are never more than 65536 fds.\<close>

theorem fd_lifetimes:
  assumes "fd_reach (pins, t)"
  shows "(slot_ofd t fd = Some i \<longrightarrow> ft_ofds t i \<noteq> None \<and> i \<notin> set (closed_ids t)) \<and> distinct (closed_ids t) \<and>
    (i < ft_next t \<longrightarrow> (i \<in> set (closed_ids t) \<longleftrightarrow> (\<forall>x. slot_ofd t x \<noteq> Some i) \<and> pins i = 0)) \<and>
    length (ft_slots t) \<le> FD_MAX"
proof -
  have ok: "table_ok pins t" using fd_reach_ok [OF assms] by simp
  have book: "book_ok t" "length (ft_slots t) \<le> FD_MAX" using table_okD [OF ok] by (simp_all add: shape_ok_def)
  have "total pins t i = 0 \<longleftrightarrow> (\<forall>x. slot_ofd t x \<noteq> Some i) \<and> pins i = 0"
    by (auto simp: total_def)
  moreover have "ft_ofds t i = None \<longleftrightarrow> total pins t i = 0"
    using table_ok_counted [OF ok, of i] by (auto simp: counted_def split: option.splits)
  moreover have "slot_ofd t fd = Some i \<Longrightarrow> ft_ofds t i \<noteq> None" by (rule slot_lives [OF ok])
  ultimately show ?thesis using book by (auto simp: book_ok_def)
qed

lemma release_slots [simp]: "slot_ofd (ofd_release oi t) = slot_ofd t"
  by (auto simp: ofd_release_def slot_ofd_def fun_eq_iff split: option.splits)

lemma ready_up: "ft_up t \<Longrightarrow> fds_ready e t = (True, t)"
  by (simp add: fds_ready_def)

lemma get_up:
  "ft_up t \<Longrightarrow> fd_get e fd t =
     (if 0 \<le> fd \<and> slot_ofd t (nat fd) \<noteq> None then (slot_ofd t (nat fd), ofd_retain (the (slot_ofd t (nat fd))) t) else (None, t))"
  by (auto simp: fd_get_def ready_up)

lemma close_up:
  assumes ok: "table_ok pins t" and up: "ft_up t" and res: "sppc_close_win e fd t = (err, t')"
  shows "table_ok pins t' \<and>
      (if 0 \<le> fd \<and> slot_ofd t (nat fd) \<noteq> None then err = 0 \<and> slot_ofd t' = (slot_ofd t)(nat fd := None)
       else err = SPPC_EBADF \<and> t' = t)"
proof (cases "0 \<le> fd \<and> slot_ofd t (nat fd) \<noteq> None")
  case True
  obtain old t1 where rem: "remove_locked (nat fd) t = (True, old, t1)"
    using True by (cases "fds_set (nat fd) None False t") (auto simp: remove_locked_def)
  obtain i where i: "old = Some i" "slot_ofd t1 = (slot_ofd t)(nat fd := None)" "table_ok (pins(i := Suc (pins i))) t1"
    using remove_ok [OF ok rem] by blast
  have "err = 0" "t' = ofd_release (Some i) t1" using res True rem i by (simp_all add: sppc_close_win_def ready_up [OF up])
  then show ?thesis using release_ok [OF i(3), of i] i(2) True by simp
next
  case False
  then have "err = SPPC_EBADF" "t' = t"
    using res by (auto simp: sppc_close_win_def ready_up [OF up] remove_locked_def split: if_splits)
  then show ?thesis using ok False by auto
qed

text \<open>A new description, pinned by the call that makes it.\<close>

lemma fresh_ok:
  assumes ok: "table_ok pins t" and o': "od_refs o' = 1"
  shows "table_ok (pins(ft_next t := 1)) (t\<lparr>ft_next := ft_next t + 1, ft_ofds := (ft_ofds t)(ft_next t \<mapsto> o')\<rparr>)"
    (is "table_ok _ ?t")
proof (rule table_okI)
  have none: "ft_ofds t (ft_next t) = None" using table_okD(1) [OF ok] by (simp add: book_ok_def)
  then have zero: "total pins t (ft_next t) = 0" using table_ok_counted [OF ok, of "ft_next t"] by (simp add: counted_def)
  show "counted (ft_ofds ?t j) (total (pins(ft_next t := 1)) ?t j)" for j
    using table_ok_counted [OF ok, of j] zero by (auto simp: total_slots total_one counted_def o')
  show "book_ok ?t" using table_okD(1) [OF ok] none by (auto simp: book_ok_def closed_ids_def less_Suc_eq)
  show "shape_ok ?t" using table_okD(2) [OF ok] by (rule shape_cong) simp_all
qed

lemma install_keeps_up:
  assumes "fd_install e i lowest c t = (err, out, t')" "table_ok pins t" "ft_up t" "0 < pins i"
  shows "ft_up t'"
proof -
  obtain err' out' t2 where l: "install_locked e i lowest c t = (err', out', t2)" using prod_cases3 by blast
  show ?thesis
    using install_locked_ok [OF assms(2-4) l] assms(1,3) l
    by (auto simp: fd_install_def ready_up install_locked_def fds_reserve_def fds_set_def Let_def ofd_release_def
        split: if_splits option.splits prod.splits)
qed

lemma install_up:
  assumes ok: "table_ok pins t" and up: "ft_up t" and pin: "0 < pins i" and ins: "fd_install e i 0 c t = (err, out, t')"
  shows "case out of
      Some n \<Rightarrow> err = 0 \<and> slot_ofd t n = None \<and> (\<forall>m < n. slot_ofd t m \<noteq> None) \<and> slot_ofd t' = (slot_ofd t)(n := Some i)
    | None \<Rightarrow> err \<noteq> 0 \<and> slot_ofd t' = slot_ofd t"
proof -
  obtain err' out' t2 where l: "install_locked e i 0 c t = (err', out', t2)" using prod_cases3 by blast
  note il = install_locked_ok [OF ok up pin l]
  show ?thesis
  proof (cases "err' = 0")
    case True
    then obtain n where n: "out' = Some n" "free_fd t 0 = Some n" "slot_ofd t2 = (slot_ofd t)(n := Some i)" using il by auto
    moreover have "err = 0" "out = out'" "t' = t2" using ins l True by (simp_all add: fd_install_def ready_up [OF up])
    ultimately show ?thesis using free_fd_first [of t 0 n] by simp
  next
    case False
    then have "err = err'" "out = None" "t' = ofd_release (Some i) t2" "t2 = t"
      using ins l il by (simp_all add: fd_install_def ready_up [OF up])
    then show ?thesis using False by simp
  qed
qed

lemma dup_up:
  assumes ok: "table_ok pins t" and up: "ft_up t" and res: "sppc_dup_win e fd t = (err, out, t')"
  shows "table_ok pins t' \<and>
      (if 0 \<le> fd \<and> slot_ofd t (nat fd) \<noteq> None then
         (case out of
            Some n \<Rightarrow> err = 0 \<and> slot_ofd t n = None \<and> (\<forall>m < n. slot_ofd t m \<noteq> None) \<and>
              slot_ofd t' = (slot_ofd t)(n := slot_ofd t (nat fd))
          | None \<Rightarrow> err \<noteq> 0 \<and> slot_ofd t' = slot_ofd t)
       else err = SPPC_EBADF \<and> out = None \<and> t' = t)"
proof (cases "0 \<le> fd \<and> slot_ofd t (nat fd) \<noteq> None")
  case True
  then obtain i where i: "slot_ofd t (nat fd) = Some i" by auto
  define t1 where "t1 = ofd_retain i t"
  have ok1: "table_ok (pins(i := Suc (pins i))) t1" unfolding t1_def by (rule retain_ok [OF ok slot_lives [OF ok i]])
  have ins: "fd_install e i 0 False t1 = (err, out, t')"
    using res True i by (simp add: sppc_dup_win_def get_up [OF up] t1_def)
  have "table_ok pins t'" using install_ok [OF ok1 _ ins] by simp
  then show ?thesis using install_up [OF ok1 _ _ ins] up True i by (simp add: t1_def split: option.splits)
next
  case False
  then show ?thesis using ok res by (auto simp: sppc_dup_win_def get_up [OF up])
qed

lemma dup2_up:
  assumes ok: "table_ok pins t" and up: "ft_up t" and res: "sppc_dup2_win e fd target t = (err, t')"
  shows "table_ok pins t' \<and>
      (if 0 \<le> fd \<and> slot_ofd t (nat fd) \<noteq> None \<and> 0 \<le> target \<and> target < int FD_MAX then
         slot_ofd t' = (if err = 0 then (slot_ofd t)(nat target := slot_ofd t (nat fd)) else slot_ofd t) \<and>
         (err = 0 \<or> err = SPPC_ENOMEM)
       else err = SPPC_EBADF \<and> slot_ofd t' = slot_ofd t)"
proof (cases "0 \<le> fd \<and> slot_ofd t (nat fd) \<noteq> None")
  case True
  then obtain i where i: "slot_ofd t (nat fd) = Some i" by auto
  define t1 where "t1 = ofd_retain i t"
  define pins1 where "pins1 = pins(i := Suc (pins i))"
  have ok1: "table_ok pins1 t1" unfolding t1_def pins1_def by (rule retain_ok [OF ok slot_lives [OF ok i]])
  have up1: "ft_up t1" "slot_ofd t1 = slot_ofd t" using up by (simp_all add: t1_def)
  have restored: "table_ok pins (ofd_release (Some i) t1)" using release_ok [OF ok1, of i] by (simp add: pins1_def)
  have get: "fd_get e fd t = (Some i, t1)" using True i by (simp add: get_up [OF up] t1_def)
  consider "target < 0 \<or> int FD_MAX \<le> target" | "0 \<le> target" "target < int FD_MAX" "target = fd"
    | "0 \<le> target" "target < int FD_MAX" "target \<noteq> fd" by linarith
  then show ?thesis
  proof cases
    case 3
    obtain b old t2 where rep: "replace_locked e i (nat target) t1 = (b, old, t2)" using prod_cases3 by blast
    have fd: "nat target < FD_MAX" using 3 by linarith
    have pin: "0 < pins1 i" by (simp add: pins1_def)
    note rok = replace_ok [OF ok1 up1(1) pin fd rep]
    show ?thesis
    proof (cases b)
      case False
      have "t2 = t1" using rep False reserve_ok(8) [OF ok1 up1(1) fd]
        by (auto simp: replace_locked_def split: prod.splits bool.splits)
      then have "err = SPPC_ENOMEM" "t' = ofd_release (Some i) t1" using res get 3 rep False by (simp_all add: sppc_dup2_win_def)
      then show ?thesis using restored True 3 up1 by simp
    next
      case b: True
      have t': "err = 0" "t' = ofd_release old t2" using res get 3 rep b by (simp_all add: sppc_dup2_win_def)
      have "table_ok pins (ofd_release old t2)"
      proof (cases old)
        case None
        then have "table_ok pins t2" using rok(1) b pin by (simp add: repinned_in [of pins1 i]) (simp add: pins1_def)
        then show ?thesis using None by (simp add: ofd_release_def)
      next
        case (Some j)
        have "table_ok (repinned pins1 (Some j) (Some i)) t2" using rok(1) b Some by simp
        moreover have "repinned pins1 (Some j) (Some i) = pins(j := Suc (pins j))"
          by (auto simp: repinned_def pins1_def fun_eq_iff)
        ultimately show ?thesis using release_ok [of "pins(j := Suc (pins j))" t2 j] Some by simp
      qed
      then show ?thesis using t' rok(2) b True 3 i up1 by simp
    qed
  qed (use res get restored True i up1 in \<open>auto simp: sppc_dup2_win_def split: if_splits\<close>)
next
  case False
  then show ?thesis using ok res by (auto simp: sppc_dup2_win_def get_up [OF up])
qed

text \<open>on Windows, with the table up, closing an fd frees that fd alone; \<^verbatim>\<open>dup\<close> makes the lowest free fd name the same
  description, or changes no fd and says why; \<^verbatim>\<open>dup2\<close> makes the fd asked for name it; an fd that names nothing is
  EBADF; and no call leaves a reference behind.\<close>

theorem fd_calls:
  assumes ok: "table_ok pins t" and up: "ft_up t"
  shows "(case sppc_close_win e fd t of (err, t') \<Rightarrow> table_ok pins t' \<and>
      (if 0 \<le> fd \<and> slot_ofd t (nat fd) \<noteq> None then err = 0 \<and> slot_ofd t' = (slot_ofd t)(nat fd := None)
       else err = SPPC_EBADF \<and> t' = t)) \<and>
    (case sppc_dup_win e fd t of (err, out, t') \<Rightarrow> table_ok pins t' \<and>
      (if 0 \<le> fd \<and> slot_ofd t (nat fd) \<noteq> None then
         (case out of
            Some n \<Rightarrow> err = 0 \<and> slot_ofd t n = None \<and> (\<forall>m < n. slot_ofd t m \<noteq> None) \<and>
              slot_ofd t' = (slot_ofd t)(n := slot_ofd t (nat fd))
          | None \<Rightarrow> err \<noteq> 0 \<and> slot_ofd t' = slot_ofd t)
       else err = SPPC_EBADF \<and> out = None \<and> t' = t)) \<and>
    (case sppc_dup2_win e fd target t of (err, t') \<Rightarrow> table_ok pins t' \<and>
      (if 0 \<le> fd \<and> slot_ofd t (nat fd) \<noteq> None \<and> 0 \<le> target \<and> target < int FD_MAX then
         slot_ofd t' = (if err = 0 then (slot_ofd t)(nat target := slot_ofd t (nat fd)) else slot_ofd t) \<and>
         (err = 0 \<or> err = SPPC_ENOMEM)
       else err = SPPC_EBADF \<and> slot_ofd t' = slot_ofd t))"
proof (intro conjI)
  obtain err t' where r: "sppc_close_win e fd t = (err, t')" by fastforce
  show "case sppc_close_win e fd t of (err, t') \<Rightarrow> table_ok pins t' \<and>
      (if 0 \<le> fd \<and> slot_ofd t (nat fd) \<noteq> None then err = 0 \<and> slot_ofd t' = (slot_ofd t)(nat fd := None)
       else err = SPPC_EBADF \<and> t' = t)"
    unfolding r prod.case by (rule close_up [OF assms r])
next
  obtain err out t' where r: "sppc_dup_win e fd t = (err, out, t')" using prod_cases3 by blast
  show "case sppc_dup_win e fd t of (err, out, t') \<Rightarrow> table_ok pins t' \<and>
      (if 0 \<le> fd \<and> slot_ofd t (nat fd) \<noteq> None then
         (case out of
            Some n \<Rightarrow> err = 0 \<and> slot_ofd t n = None \<and> (\<forall>m < n. slot_ofd t m \<noteq> None) \<and>
              slot_ofd t' = (slot_ofd t)(n := slot_ofd t (nat fd))
          | None \<Rightarrow> err \<noteq> 0 \<and> slot_ofd t' = slot_ofd t)
       else err = SPPC_EBADF \<and> out = None \<and> t' = t)"
    unfolding r prod.case by (rule dup_up [OF assms r])
next
  obtain err t' where r: "sppc_dup2_win e fd target t = (err, t')" by fastforce
  show "case sppc_dup2_win e fd target t of (err, t') \<Rightarrow> table_ok pins t' \<and>
      (if 0 \<le> fd \<and> slot_ofd t (nat fd) \<noteq> None \<and> 0 \<le> target \<and> target < int FD_MAX then
         slot_ofd t' = (if err = 0 then (slot_ofd t)(nat target := slot_ofd t (nat fd)) else slot_ofd t) \<and>
         (err = 0 \<or> err = SPPC_ENOMEM)
       else err = SPPC_EBADF \<and> slot_ofd t' = slot_ofd t)"
    unfolding r prod.case by (rule dup2_up [OF assms r])
qed

text \<open>A process whose output and errors are one handle.\<close>

definition sample_env :: fd_env where
  "sample_env = \<lparr>fe_char = (\<lambda>_. False), fe_mode = (\<lambda>_. False), fe_events = (\<lambda>_. False), fe_disk = (\<lambda>_. True),
     fe_std = (\<lambda>fd. Some (if fd = 0 then 100 else 200)), fe_table = True, fe_ofd = True, fe_grow = (\<lambda>_. True)\<rparr>"

definition sample_fds :: fd_table where
  "sample_fds = snd (fds_ready sample_env no_fds)"

lemma sample_fds_ok: "table_ok (\<lambda>_. 0) sample_fds \<and> ft_up sample_fds"
proof -
  have "table_ok (\<lambda>_. 0) no_fds" using fd_reach_ok [OF fd_reach.start] by simp
  moreover have "fst (fds_ready sample_env no_fds)" by (simp add: fds_ready_def fds_init_def no_fds_def sample_env_def)
  moreover have "fds_ready sample_env no_fds = (fst (fds_ready sample_env no_fds), sample_fds)" by (simp add: sample_fds_def)
  ultimately show ?thesis using ready_ok by blast
qed

lemma sample_slots: "slot_ofd sample_fds 0 = Some 0 \<and> slot_ofd sample_fds 1 = Some 1 \<and> slot_ofd sample_fds 2 = Some 1 \<and>
    slot_ofd sample_fds 3 = None"
  by (simp add: sample_fds_def fds_ready_def fds_init_def no_fds_def sample_env_def std_slot_def slot_ofd_def
      ofd_new_def ofd_retain_def fd_kind_of_def upt_rec numeral_eq_Suc)

lemma fd_calls_witness:
  "slot_ofd (snd (sppc_close_win sample_env 2 sample_fds)) = (slot_ofd sample_fds)(2 := None) \<and>
   slot_ofd sample_fds 2 = Some 1"
proof -
  have "table_ok (\<lambda>_. 0) sample_fds" "ft_up sample_fds" using sample_fds_ok by blast+
  note calls = fd_calls [OF this, where e = sample_env and fd = 2, THEN conjunct1]
  show ?thesis using calls sample_slots by (cases "sppc_close_win sample_env 2 sample_fds") simp
qed

lemma fd_lifetimes_witness:
  "\<exists>pins. fd_reach (pins, ofd_retain 1 sample_fds) \<and> 1 \<notin> set (closed_ids (ofd_retain 1 sample_fds))"
proof -
  have get: "fd_get sample_env 1 no_fds = (Some 1, ofd_retain 1 sample_fds)"
  proof -
    have "fds_ready sample_env no_fds = (True, sample_fds)"
      by (simp add: sample_fds_def fds_ready_def fds_init_def no_fds_def sample_env_def)
    then show ?thesis using sample_slots by (simp add: fd_get_def)
  qed
  have reach: "fd_reach ((\<lambda>_. 0)(1 := Suc 0), ofd_retain 1 sample_fds)"
    using fd_reach.step [OF fd_reach.start fd_step.got [OF get]] by simp
  then show ?thesis using fd_lifetimes [OF reach, of 1 1] sample_slots by auto
qed

end
