(* ===== verification/Console.thy ===== *)
theory Console
  imports FdTable Strings
begin

text \<open>
  Reads and writes on a console (platform/windows.h, FD TABLE: CONSOLES): UTF-8 on sppc's side, UTF-16 on Windows',
  with the state a description keeps between calls. The conversions are Windows' and arguments here, as are the
  answers of the console's own calls.
\<close>

type_synonym wide = "u16 list"

definition utf8_len :: "u8 \<Rightarrow> nat" where
  "utf8_len lead =
     (if lead \<ge> 0xF0 \<and> lead \<le> 0xF7 then 4
      else if lead \<ge> 0xE0 then (if lead \<le> 0xEF then 3 else 1)
      else if lead \<ge> 0xC0 then 2
      else 1)"

definition continues :: "u8 \<Rightarrow> bool" where
  "continues b \<longleftrightarrow> b AND 0xC0 = 0x80"

function utf8_whole_from :: "bytes \<Rightarrow> nat \<Rightarrow> nat" where
  "utf8_whole_from data behind =
     (if behind \<le> 3 \<and> behind \<le> length data then
        (let c = data ! (length data - behind) in
         if continues c then utf8_whole_from data (behind + 1)
         else if utf8_len c > behind then length data - behind else length data)
      else length data)"
  by pat_completeness auto
termination by (relation "measure (\<lambda>(data, behind). 4 - behind)") auto

definition utf8_whole :: "bytes \<Rightarrow> nat" where
  "utf8_whole data = utf8_whole_from data 1"

text \<open>The loop of WriteConsoleW: how many it wrote each time, or its error; what reached the screen.\<close>

fun console_put_loop :: "(int + nat) list \<Rightarrow> wide \<Rightarrow> nat \<Rightarrow> (int \<times> wide) option" where
  "console_put_loop answers w written =
     (if written < length w then
        (case answers of [] \<Rightarrow> None
         | Inl err # _ \<Rightarrow> Some (err, take written w)
         | Inr n # later \<Rightarrow> console_put_loop later w (written + n))
      else Some (0, w))"

definition ERROR_NOT_ENOUGH_MEMORY :: int where "ERROR_NOT_ENOUGH_MEMORY = 8"

definition console_put ::
  "(bytes \<Rightarrow> int + wide) \<Rightarrow> bool \<Rightarrow> (int + nat) list \<Rightarrow> bytes \<Rightarrow> (int \<times> wide) option" where
  "console_put to_wide mem answers data =
     (if data = [] then Some (0, [])
      else case to_wide data of
        Inl err \<Rightarrow> Some (err, [])
      | Inr w \<Rightarrow> if \<not> mem then Some (ERROR_NOT_ENOUGH_MEMORY, []) else console_put_loop answers w 0)"

text \<open>Finishing the character the last write began: the bytes taken, and those left.\<close>

fun finish_pending :: "nat \<Rightarrow> bytes \<Rightarrow> bytes \<Rightarrow> bytes \<times> bytes" where
  "finish_pending want pending (b # data) =
     (if length pending < want \<and> continues b then finish_pending want (pending @ [b]) data else (pending, b # data))"
| "finish_pending want pending [] = (pending, [])"

text \<open>\<^verbatim>\<open>put\<close> is the error of a put; the last list the pieces put, in order.\<close>

definition console_pending :: "(bytes \<Rightarrow> int) \<Rightarrow> ofd \<Rightarrow> bytes \<Rightarrow> int \<times> ofd \<times> bytes \<times> bytes list" where
  "console_pending put o' data =
     (if od_pending o' \<noteq> [] \<and> data \<noteq> [] then
        (let want = utf8_len (od_pending o' ! 0); (p, left) = finish_pending want (od_pending o') data in
         if length p = want \<or> left \<noteq> [] then (put p, o'\<lparr>od_pending := []\<rparr>, left, [p])
         else (0, o'\<lparr>od_pending := p\<rparr>, left, []))
      else (0, o', data, []))"

definition console_write :: "(bytes \<Rightarrow> int) \<Rightarrow> ofd \<Rightarrow> bytes \<Rightarrow> int \<times> int \<times> ofd \<times> bytes list" where
  "console_write put o' data =
     (case console_pending put o' data of
        (err, o1, left, puts) \<Rightarrow>
          if err \<noteq> 0 then (- 1, err, o1, puts)
          else (let whole = utf8_whole left; err2 = (if whole = 0 then 0 else put (take whole left));
                    puts2 = (if whole = 0 then puts else puts @ [take whole left])
                in if err2 \<noteq> 0 then (- 1, err2, o1, puts2)
                   else (int (length data), 0, o1\<lparr>od_pending := od_pending o1 @ drop whole left\<rparr>, puts2)))"

text \<open>A line as the console gives it, without the carriage returns before its line feeds.\<close>

fun drop_cr :: "wide \<Rightarrow> wide" where
  "drop_cr (a # b # rest) = (if a = 13 \<and> b = 10 then drop_cr (b # rest) else a # drop_cr (b # rest))"
| "drop_cr w = w"

definition CONSOLE_LINE :: nat where "CONSOLE_LINE = 4096"

text \<open>\<^verbatim>\<open>line\<close>: what ReadConsoleW gives, of at most CONSOLE_LINE; the result, the bytes read, the error.\<close>

definition console_read ::
  "(wide \<Rightarrow> bytes) \<Rightarrow> bool \<Rightarrow> int + wide \<Rightarrow> ofd \<Rightarrow> nat \<Rightarrow> int \<times> bytes \<times> int \<times> ofd" where
  "console_read to_utf8 mem line o' n =
     (let take_out = (\<lambda>o1. let got = take n (drop (od_in_pos o1) (od_in o1)) in
            (int (length got), got, 0, o1\<lparr>od_in_pos := od_in_pos o1 + length got\<rparr>)) in
      if od_in_pos o' = length (od_in o') \<and> n > 0 then
        (case line of
           Inl err \<Rightarrow> (- 1, [], err, o')
         | Inr w \<Rightarrow>
             if w = [] \<or> w ! 0 = 0x1A then (0, [], 0, o')
             else if \<not> mem then (- 1, [], ERROR_NOT_ENOUGH_MEMORY, o')
             else take_out (o'\<lparr>od_in := to_utf8 (drop_cr w), od_in_pos := 0\<rparr>))
      else take_out o')"

declare utf8_whole_from.simps [simp del] console_put_loop.simps [simp del]

section \<open>Whole characters\<close>

definition utf8_char :: "bytes \<Rightarrow> bool" where
  "utf8_char c \<longleftrightarrow> c \<noteq> [] \<and> \<not> continues (hd c) \<and> (\<forall>b \<in> set (tl c). continues b) \<and> length c = utf8_len (hd c)"

lemma utf8_len_bounds: "1 \<le> utf8_len l \<and> utf8_len l \<le> 4"
  by (simp add: utf8_len_def)

lemma whole_skips:
  assumes "data = pre @ l # conts" "\<forall>b \<in> set conts. continues b" "behind \<le> Suc (length conts)" "1 \<le> behind"
  shows "utf8_whole_from data behind = (if Suc (length conts) \<le> 3 then utf8_whole_from data (Suc (length conts)) else length data)"
  using assms(3,4)
proof (induction "Suc (length conts) - behind" arbitrary: behind)
  case 0
  then have "behind = Suc (length conts)" by simp
  then show ?case by (simp add: utf8_whole_from.simps [of data "Suc (length conts)"])
next
  case (Suc k)
  show ?case
  proof (cases "behind \<le> 3")
    case False
    then have "\<not> Suc (length conts) \<le> 3" using Suc by simp
    then show ?thesis using False by (simp add: utf8_whole_from.simps [of data behind])
  next
    case True
    define j where "j = length conts - behind"
    have b: "behind \<le> length conts" "behind \<le> length data" using Suc assms(1) by auto
    have "length data - behind = Suc (length pre + j)" using assms(1) b(1) Suc.prems(2) by (simp add: j_def)
    then have "data ! (length data - behind) = conts ! j" using assms(1) by (simp add: nth_append)
    moreover have "j < length conts" using b Suc.prems(2) by (simp add: j_def)
    ultimately have "continues (data ! (length data - behind))" using assms(2) by simp
    then have "utf8_whole_from data behind = utf8_whole_from data (behind + 1)"
      using True b(2) by (simp add: utf8_whole_from.simps [of data behind])
    then show ?thesis using Suc.hyps(1) [of "behind + 1"] Suc.hyps(2) b(1) by simp
  qed
qed

lemma whole_spec:
  assumes "data = pre @ l # conts" "\<forall>b \<in> set conts. continues b" "\<not> continues l" "utf8_len l \<le> 4"
  shows "utf8_whole data = (if utf8_len l > Suc (length conts) then length pre else length data)"
proof -
  have "data ! (length data - Suc (length conts)) = l" using assms(1) by simp
  then have "utf8_whole_from data (Suc (length conts)) =
      (if Suc (length conts) \<le> 3 \<and> utf8_len l > Suc (length conts) then length pre else length data)"
    using assms(3) unfolding utf8_whole_from.simps [of data "Suc (length conts)"] by (simp add: assms(1) Let_def)
  moreover have "utf8_len l > Suc (length conts) \<Longrightarrow> Suc (length conts) \<le> 3" using assms(4) by simp
  ultimately show ?thesis
    using whole_skips [OF assms(1,2), of 1] by (auto simp: utf8_whole_def)
qed

text \<open>The start of a character, not the whole of it.\<close>

definition part_char :: "bytes \<Rightarrow> bytes \<Rightarrow> bool" where
  "part_char r c \<longleftrightarrow> utf8_char c \<and> r \<noteq> [] \<and> (\<exists>s. s \<noteq> [] \<and> c = r @ s)"

lemma whole_chars:
  assumes "\<forall>c \<in> set cs. utf8_char c"
  shows "utf8_whole (concat cs) = length (concat cs)"
proof (cases cs rule: rev_cases)
  case Nil
  then show ?thesis by (simp add: utf8_whole_def utf8_whole_from.simps)
next
  case (snoc ds c)
  then have c: "utf8_char c" using assms by simp
  then have "concat cs = concat ds @ hd c # tl c" using snoc by (simp add: utf8_char_def)
  then show ?thesis using whole_spec [of "concat cs" "concat ds" "hd c" "tl c"] c utf8_len_bounds [of "hd c"]
    by (cases c) (simp_all add: utf8_char_def)
qed

lemma whole_part:
  assumes "part_char r c"
  shows "utf8_whole (pre @ r) = length pre"
proof -
  obtain s where c: "utf8_char c" "r \<noteq> []" "s \<noteq> []" "c = r @ s" using assms by (auto simp: part_char_def)
  then obtain l conts where r: "r = l # conts" by (cases r) auto
  have "\<not> continues l" "\<forall>b \<in> set conts. continues b" "utf8_len l = Suc (length conts) + length s"
    using c r by (auto simp: utf8_char_def)
  then show ?thesis using whole_spec [of "pre @ r" pre l conts] r c(3) utf8_len_bounds [of l] by simp
qed

lemma split_stream:
  assumes "\<forall>c \<in> set cs. utf8_char c" "d @ rest = concat cs"
  shows "\<exists>cs1 cs2 r. cs = cs1 @ cs2 \<and> d = concat cs1 @ r \<and> (r = [] \<or> cs2 \<noteq> [] \<and> part_char r (hd cs2))"
  using assms
proof (induction cs arbitrary: d)
  case Nil
  then show ?case by auto
next
  case (Cons c cs)
  show ?case
  proof (cases "length d < length c")
    case True
    obtain s where s: "c = d @ s" using Cons.prems(2) True by (auto simp: append_eq_append_conv2)
    then have "d = [] \<or> part_char d c" using Cons.prems(1) True by (auto simp: part_char_def)
    then show ?thesis by (intro exI [of _ "[]"] exI [of _ "c # cs"] exI [of _ d]) auto
  next
    case False
    then obtain d' where d: "d = c @ d'" using Cons.prems(2) by (auto simp: append_eq_append_conv2)
    then obtain cs1 cs2 r where ih: "cs = cs1 @ cs2" "d' = concat cs1 @ r" "r = [] \<or> cs2 \<noteq> [] \<and> part_char r (hd cs2)"
      using Cons.IH [of d'] Cons.prems by auto
    then show ?thesis using d by (intro exI [of _ "c # cs1"] exI [of _ cs2] exI [of _ r]) simp
  qed
qed

lemma finish_all:
  "\<forall>b \<in> set s. continues b \<Longrightarrow> length p + length s = want \<Longrightarrow> finish_pending want p (s @ d) = (p @ s, d)"
proof (induction s arbitrary: p)
  case Nil
  then show ?case by (cases d) simp_all
qed simp

lemma finish_some:
  "\<forall>b \<in> set d. continues b \<Longrightarrow> length p + length d < want \<Longrightarrow> finish_pending want p d = (p @ d, [])"
  by (induction d arbitrary: p) simp_all

definition put_fine :: "bytes \<Rightarrow> int" where
  "put_fine p = 0"

text \<open>One write, all of it taken: the pieces put are whole characters, what is pending the start of the next.\<close>

definition waits_for :: "bytes \<Rightarrow> bytes list \<Rightarrow> bool" where
  "waits_for p cs \<longleftrightarrow> p = [] \<or> cs \<noteq> [] \<and> part_char p (hd cs)"

definition took :: "bytes \<Rightarrow> bytes list \<Rightarrow> bytes \<Rightarrow> bytes list \<Rightarrow> bytes \<Rightarrow> bool" where
  "took p cs d puts p' \<longleftrightarrow> (\<exists>css cs2. cs = concat css @ cs2 \<and> puts = map concat css \<and> waits_for p' cs2 \<and> p @ d = concat puts @ p')"

lemma concat_concat: "concat (concat xs) = concat (map concat xs)"
  by (induction xs) auto

lemma write_fresh:
  assumes "\<forall>c \<in> set cs. utf8_char c" "d @ rest = concat cs"
  shows "took [] cs d (if utf8_whole d = 0 then [] else [take (utf8_whole d) d]) (drop (utf8_whole d) d)"
proof -
  obtain cs1 cs2 r where s: "cs = cs1 @ cs2" "d = concat cs1 @ r" "r = [] \<or> cs2 \<noteq> [] \<and> part_char r (hd cs2)"
    using split_stream [OF assms] by blast
  have w: "utf8_whole d = length (concat cs1)"
  proof (cases "r = []")
    case True
    then show ?thesis using s(2) whole_chars [of cs1] assms(1) s(1) by simp
  next
    case False
    then show ?thesis using s whole_part [of r "hd cs2" "concat cs1"] by simp
  qed
  have "took [] cs d (if cs1 = [] then [] else [concat cs1]) r"
    unfolding took_def waits_for_def using s
    by (intro exI [of _ "if cs1 = [] then [] else [cs1]"] exI [of _ cs2]) auto
  moreover have "utf8_whole d = 0 \<longleftrightarrow> cs1 = []" using assms(1) s(1) w by (cases cs1) (auto simp: utf8_char_def)
  moreover have "take (utf8_whole d) d = concat cs1" "drop (utf8_whole d) d = r" using s(2) w by simp_all
  ultimately show ?thesis by (cases "cs1 = []") simp_all
qed

lemma write_took:
  assumes chars: "\<forall>c \<in> set cs. utf8_char c" and all: "p @ d @ rest = concat cs" and p: "waits_for p cs" "od_pending o' = p"
    and res: "console_write put_fine o' d = (n, err, o1, puts)"
  shows "n = int (length d) \<and> err = 0 \<and> took p cs d puts (od_pending o1)"
proof (cases "p = [] \<or> d = []")
  case True
  then have pend: "console_pending put_fine o' d = (0, o', d, [])" using p(2) by (auto simp: console_pending_def)
  have w0: "utf8_whole [] = 0" by (simp add: utf8_whole_def utf8_whole_from.simps)
  have r: "n = int (length d)" "err = 0" "od_pending o1 = p @ drop (utf8_whole d) d"
    "puts = (if utf8_whole d = 0 then [] else [take (utf8_whole d) d])"
    using res p(2) by (auto simp: console_write_def pend put_fine_def Let_def split: if_splits)
  show ?thesis
  proof (cases "p = []")
    case True
    then show ?thesis using write_fresh [OF chars, of d rest] all r by simp
  next
    case False
    then have "d = []" using True by simp
    then have "took p cs d puts (od_pending o1)" unfolding took_def using r w0 p(1)
      by (intro exI [of _ "[]"] exI [of _ cs]) simp
    then show ?thesis using r by simp
  qed
next
  case False
  then obtain c cs' s where c: "cs = c # cs'" "utf8_char c" "s \<noteq> []" "c = p @ s" "p \<noteq> []" "d \<noteq> []"
    using p(1) by (cases cs) (auto simp: waits_for_def part_char_def)
  have conts: "\<forall>b \<in> set s. continues b" "utf8_len (p ! 0) = length p + length s"
    using c(2,4,5) by (cases p; auto simp: utf8_char_def)+
  have rest: "d @ rest = s @ concat cs'" using all c by simp
  show ?thesis
  proof (cases "length d < length s")
    case True
    then obtain u where u: "s = d @ u" "u \<noteq> []" using rest by (auto simp: append_eq_append_conv2)
    have "finish_pending (length p + length s) p d = (p @ d, [])" using conts(1) u by (intro finish_some) auto
    then have pend: "console_pending put_fine o' d = (0, o'\<lparr>od_pending := p @ d\<rparr>, [], [])"
      using c p(2) conts(2) True by (simp add: console_pending_def Let_def)
    have w0: "utf8_whole [] = 0" by (simp add: utf8_whole_def utf8_whole_from.simps)
    have r: "n = int (length d)" "err = 0" "od_pending o1 = p @ d" "puts = []"
      using res by (auto simp: console_write_def pend w0 Let_def)
    have "part_char (p @ d) c" using c u by (auto simp: part_char_def)
    then have "took p cs d puts (od_pending o1)" unfolding took_def waits_for_def using r c
      by (intro exI [of _ "[]"] exI [of _ cs]) simp
    then show ?thesis using r by simp
  next
    case False
    then obtain d' where d': "d = s @ d'" using rest by (auto simp: append_eq_append_conv2)
    have "finish_pending (length p + length s) p d = (c, d')" using conts(1) c(4) by (simp add: d' finish_all)
    then have pend: "console_pending put_fine o' d = (0, o'\<lparr>od_pending := []\<rparr>, d', [c])"
      using c p(2) conts(2) by (simp add: console_pending_def Let_def put_fine_def)
    have r: "n = int (length d)" "err = 0" "od_pending o1 = drop (utf8_whole d') d'"
      "puts = [c] @ (if utf8_whole d' = 0 then [] else [take (utf8_whole d') d'])"
      using res by (auto simp: console_write_def pend put_fine_def Let_def split: if_splits)
    have "took [] cs' d' (if utf8_whole d' = 0 then [] else [take (utf8_whole d') d']) (drop (utf8_whole d') d')"
      using chars c(1) rest d' by (intro write_fresh [of cs' d' rest]) auto
    then obtain css cs2 where t: "cs' = concat css @ cs2"
      "(if utf8_whole d' = 0 then [] else [take (utf8_whole d') d']) = map concat css"
      "waits_for (od_pending o1) cs2" "d' = concat (map concat css) @ od_pending o1"
      unfolding took_def r by auto
    have "took p cs d puts (od_pending o1)"
      unfolding took_def r(4) t(2) using t c(1,4) d' by (intro exI [of _ "[c] # css"] exI [of _ cs2]) simp
    then show ?thesis using r by simp
  qed
qed

fun console_writes :: "(bytes \<Rightarrow> int) \<Rightarrow> ofd \<Rightarrow> bytes list \<Rightarrow> ofd \<times> bytes list" where
  "console_writes put o' [] = (o', [])"
| "console_writes put o' (d # ds) =
     (case console_write put o' d of
        (_, _, o1, puts) \<Rightarrow> (case console_writes put o1 ds of (o2, later) \<Rightarrow> (o2, puts @ later)))"

lemma writes_took:
  assumes "\<forall>c \<in> set cs. utf8_char c" "od_pending o' @ concat ds @ rest = concat cs" "waits_for (od_pending o') cs"
    "console_writes put_fine o' ds = (o2, puts)"
  shows "took (od_pending o') cs (concat ds) puts (od_pending o2)"
  using assms
proof (induction ds arbitrary: o' cs puts)
  case Nil
  then show ?case by (auto simp: took_def intro!: exI [of _ "[]"])
next
  case (Cons d ds)
  obtain n err o1 puts1 where w: "console_write put_fine o' d = (n, err, o1, puts1)" using prod_cases4 by blast
  obtain puts2 where l: "console_writes put_fine o1 ds = (o2, puts2)" "puts = puts1 @ puts2"
    using Cons.prems(4) w by (auto split: prod.splits)
  obtain css cs2 where t: "cs = concat css @ cs2" "puts1 = map concat css" "waits_for (od_pending o1) cs2"
    "od_pending o' @ d = concat puts1 @ od_pending o1"
    using write_took [OF Cons.prems(1) _ Cons.prems(3) refl w, of "concat ds @ rest"] Cons.prems(2)
    by (auto simp: took_def)
  have "concat cs = concat puts1 @ concat cs2" unfolding t(1,2) by (simp add: concat_concat)
  moreover have "concat cs = concat puts1 @ od_pending o1 @ concat ds @ rest"
    using Cons.prems(2) t(4) by (metis append.assoc concat.simps(2))
  ultimately have "od_pending o1 @ concat ds @ rest = concat cs2" by simp
  then have "took (od_pending o1) cs2 (concat ds) puts2 (od_pending o2)"
    using Cons.IH [of cs2 o1 puts2] Cons.prems(1) t(1,3) l(1) by auto
  then obtain css' cs3 where u: "cs2 = concat css' @ cs3" "puts2 = map concat css'" "waits_for (od_pending o2) cs3"
    "od_pending o1 @ concat ds = concat puts2 @ od_pending o2" by (auto simp: took_def)
  have "od_pending o' @ concat (d # ds) = concat puts @ od_pending o2"
    using t(4) u(4) l(2) by (metis append.assoc concat.simps(2) concat_append)
  then show ?case unfolding took_def using t u l(2)
    by (intro exI [of _ "css @ css'"] exI [of _ cs3]) simp
qed

text \<open>C26: UTF-8 text written to a Windows console in any pieces, split anywhere, reaches it in order, nothing lost or
  repeated, and each piece handed to Windows is whole characters; what is not yet shown is less than one character,
  the next one's start; every write takes all its bytes.\<close>

theorem console_writes_whole:
  assumes chars: "\<forall>c \<in> set cs. utf8_char c" and whole: "concat ds @ rest = concat cs" and new: "od_pending o' = []"
    and res: "console_writes put_fine o' ds = (o2, puts)"
  shows "\<exists>css cs2. cs = concat css @ cs2 \<and> puts = map concat css \<and> concat ds = concat puts @ od_pending o2 \<and>
     (od_pending o2 = [] \<or> cs2 \<noteq> [] \<and> part_char (od_pending o2) (hd cs2)) \<and> length (od_pending o2) < 4"
proof -
  have "took [] cs (concat ds) puts (od_pending o2)"
    using writes_took [OF chars _ _ res, of rest] whole new by (simp add: waits_for_def)
  then obtain css cs2 where t: "cs = concat css @ cs2" "puts = map concat css" "waits_for (od_pending o2) cs2"
    "concat ds = concat puts @ od_pending o2" by (auto simp: took_def)
  have "length (od_pending o2) < 4"
  proof (cases "od_pending o2 = []")
    case False
    then have "part_char (od_pending o2) (hd cs2)" using t(3) by (simp add: waits_for_def)
    then obtain s where "hd cs2 = od_pending o2 @ s" "s \<noteq> []" "utf8_char (hd cs2)" by (auto simp: part_char_def)
    then have "length (hd cs2) = length (od_pending o2) + length s" "0 < length s" by simp_all
    moreover have "length (hd cs2) \<le> 4" using \<open>utf8_char (hd cs2)\<close> utf8_len_bounds [of "hd (hd cs2)"] by (simp add: utf8_char_def)
    ultimately show ?thesis by linarith
  qed simp
  then show ?thesis using t by (auto simp: waits_for_def)
qed

section \<open>Reading a line\<close>

text \<open>Reads of a line that has been converted: each gives the next bytes asked for.\<close>

fun console_drain :: "ofd \<Rightarrow> nat list \<Rightarrow> bytes \<times> ofd" where
  "console_drain o' [] = ([], o')"
| "console_drain o' (n # ns) =
     (case console_read (\<lambda>_. []) True (Inr []) o' n of
        (_, got, _, o1) \<Rightarrow> (case console_drain o1 ns of (later, o2) \<Rightarrow> (got @ later, o2)))"

definition unread :: "ofd \<Rightarrow> bytes" where
  "unread o' = drop (od_in_pos o') (od_in o')"

lemma drain_takes:
  "od_in_pos o' \<le> length (od_in o') \<Longrightarrow> fst (console_drain o' ns) = take (sum_list ns) (unread o')"
proof (induction ns arbitrary: o')
  case (Cons n ns)
  show ?case
  proof (cases "od_in_pos o' = length (od_in o') \<and> n > 0")
    case True
    then have "console_read (\<lambda>_. []) True (Inr []) o' n = (0, [], 0, o')" by (simp add: console_read_def)
    then show ?thesis using Cons.IH [of o'] True Cons.prems
      by (simp add: unread_def split: prod.splits)
  next
    case False
    define o1 where "o1 = o'\<lparr>od_in_pos := od_in_pos o' + length (take n (unread o'))\<rparr>"
    have r: "console_read (\<lambda>_. []) True (Inr []) o' n = (int (length (take n (unread o'))), take n (unread o'), 0, o1)"
      using False by (auto simp: console_read_def unread_def o1_def)
    have "unread o1 = drop n (unread o')" "od_in_pos o1 \<le> length (od_in o1)"
      using Cons.prems by (auto simp: o1_def unread_def min_def add.commute)
    then show ?thesis using Cons.IH [of o1] r by (cases "console_drain o1 ns") (simp add: take_add)
  qed
qed simp

lemma drop_cr_plain: "(\<forall>i. Suc i < length w \<longrightarrow> \<not> (w ! i = 13 \<and> w ! Suc i = 10)) \<Longrightarrow> drop_cr w = w"
proof (induction w rule: drop_cr.induct)
  case (1 a b rest)
  have "\<not> (a = 13 \<and> b = 10)" using 1(3) [rule_format, of 0] by simp
  moreover have "drop_cr (b # rest) = b # rest"
  proof -
    have "\<forall>i. Suc i < length (b # rest) \<longrightarrow> \<not> ((b # rest) ! i = 13 \<and> (b # rest) ! Suc i = 10)"
      using 1(3) by (metis Suc_less_eq length_Cons nth_Cons_Suc)
    then show ?thesis using 1(1,2) by blast
  qed
  ultimately show ?case by auto
qed auto

lemma drop_cr_end: "13 \<notin> set w \<Longrightarrow> drop_cr (w @ [13, 10]) = w @ [10]"
proof (induction w rule: drop_cr.induct)
  case (1 a b rest)
  then show ?case by auto
qed auto

text \<open>a read of a Windows console gives the line typed with its ending as a line feed alone, over as many reads as it
  takes and in order; but a line whose carriage return is the last of the 4096 characters Windows gives at once
  keeps it: it is read as a carriage return and a line feed.\<close>

theorem console_reads_line:
  assumes w: "w \<noteq> []" "w ! 0 \<noteq> 0x1A" "13 \<notin> set w" and empty: "od_in_pos o' = length (od_in o')" and n: "0 < n"
    and res: "console_read to_utf8 True (Inr (w @ [13, 10])) o' n = (r, got, err, o1)"
    and half: "console_read to_utf8 True (Inr (w @ [13])) o' n = (r', got', err', o2)"
  shows "got @ fst (console_drain o1 ns) = take (n + sum_list ns) (to_utf8 (w @ [10])) \<and> r = int (length got) \<and> err = 0 \<and>
         od_in o2 = to_utf8 (w @ [13]) \<and> drop_cr [10] = [10]"
proof -
  define line where "line = to_utf8 (w @ [10])"
  have "(w @ [13, 10]) ! 0 \<noteq> 0x1A" "(w @ [13]) ! 0 \<noteq> 0x1A" using w by (simp_all add: nth_append)
  then have got: "got = take n line" "r = int (length got)" "err = 0"
    "o1 = o'\<lparr>od_in := line, od_in_pos := length (take n line)\<rparr>"
    using res empty n w drop_cr_end [OF w(3)] by (auto simp: console_read_def line_def Let_def)
  have "\<forall>i. Suc i < length (w @ [13]) \<longrightarrow> \<not> ((w @ [13]) ! i = 13 \<and> (w @ [13]) ! Suc i = 10)"
  proof (intro allI impI)
    fix i
    assume "Suc i < length (w @ [13])"
    then have "i < length w" by simp
    then have "(w @ [13]) ! i \<in> set w" by (simp add: nth_append)
    then show "\<not> ((w @ [13]) ! i = 13 \<and> (w @ [13]) ! Suc i = 10)" using w(3) by metis
  qed
  then have "od_in o2 = to_utf8 (w @ [13])"
    using half empty n w \<open>(w @ [13]) ! 0 \<noteq> 0x1A\<close> drop_cr_plain [of "w @ [13]"] by (auto simp: console_read_def Let_def)
  moreover have "fst (console_drain o1 ns) = take (sum_list ns) (drop n line)"
    using drain_takes [of o1 ns] got(4) by (simp add: unread_def min_def)
  ultimately show ?thesis using got by (simp add: take_add line_def)
qed

text \<open>The euro sign in two writes.\<close>

definition sample_console :: ofd where
  "sample_console = \<lparr>od_refs = 1, od_kind = FdConsoleOut, od_access = 3, od_handle = 7, od_disk = False, od_append = False,
     od_nonblock = False, od_reuseaddr = False, od_iocp = 0, od_pending = [], od_in = [], od_in_pos = 0\<rparr>"

definition euro :: bytes where "euro = [0xE2, 0x82, 0xAC]"

lemma euro_char: "utf8_char euro" "utf8_char [65]"
  by (simp_all add: utf8_char_def euro_def continues_def utf8_len_def)

lemma console_writes_whole_witness:
  "\<exists>o2 puts. console_writes put_fine sample_console [[65, 0xE2], [0x82, 0xAC]] = (o2, puts) \<and>
     (\<exists>css cs2. [[65], euro] = concat css @ cs2 \<and> puts = map concat css) \<and> length (od_pending o2) < 4"
proof -
  obtain o2 puts where r: "console_writes put_fine sample_console [[65, 0xE2], [0x82, 0xAC]] = (o2, puts)" by fastforce
  have "\<forall>c \<in> set [[65], euro]. utf8_char c" using euro_char by simp
  moreover have "concat [[65, 0xE2], [0x82, 0xAC]] @ [] = concat [[65], euro]" by (simp add: euro_def)
  moreover have "od_pending sample_console = []" by (simp add: sample_console_def)
  ultimately show ?thesis using console_writes_whole [OF _ _ _ r] r by blast
qed

lemma console_reads_line_witness:
  "\<exists>r got err o1. console_read (map ucast) True (Inr ([72, 105] @ [13, 10])) sample_console 2 = (r, got, err, o1) \<and>
     got @ fst (console_drain o1 [5]) = [72, 105, 10]"
proof -
  obtain r got err o1 where a: "console_read (map ucast) True (Inr ([72, 105] @ [13, 10])) sample_console 2 = (r, got, err, o1)"
    using prod_cases4 by blast
  obtain r' got' err' o2 where b: "console_read (map ucast) True (Inr ([72, 105] @ [13])) sample_console 2 = (r', got', err', o2)"
    using prod_cases4 by blast
  have "got @ fst (console_drain o1 [5]) = take (2 + sum_list [5]) (map ucast ([72, 105] @ [10 :: u16]))"
    using console_reads_line [OF _ _ _ _ _ a b, of "[5]"] by (simp add: sample_console_def)
  then show ?thesis using a by auto
qed

end
