(* ===== verification/WinIO.thy ===== *)
theory WinIO
  imports Console
begin

text \<open>
  Reads and writes on Windows descriptions (platform/windows.h, FD TABLE: I/O, FILE DESCRIPTORS, and the vectors
  and copies of FILES). What Windows' own calls do is an argument, over a world of any type: a record with
  ReadFile and WriteFile (at the position, at an offset, or at the end), SetFilePointerEx, the socket and console
  transfers. Each answers with its win32 (or Winsock) error, or what it moved.
\<close>

datatype io_place = AtPosition | AtOffset int | AtEnd

record 'w win_io =
  wi_read :: "nat \<Rightarrow> nat \<Rightarrow> io_place \<Rightarrow> 'w \<Rightarrow> (int + bytes) \<times> 'w"
  wi_write :: "nat \<Rightarrow> bytes \<Rightarrow> io_place \<Rightarrow> 'w \<Rightarrow> (int + nat) \<times> 'w"
  wi_seek :: "nat \<Rightarrow> int \<Rightarrow> int \<Rightarrow> 'w \<Rightarrow> (int + int) \<times> 'w"  \<comment> \<open>by how much, from where\<close>
  wi_recv :: "nat \<Rightarrow> nat \<Rightarrow> 'w \<Rightarrow> (int + bytes) \<times> 'w"
  wi_send :: "nat \<Rightarrow> bytes \<Rightarrow> 'w \<Rightarrow> (int + nat) \<times> 'w"
  wi_line :: "nat \<Rightarrow> 'w \<Rightarrow> (int + wide) \<times> 'w"      \<comment> \<open>ReadConsoleW\<close>
  wi_put :: "nat \<Rightarrow> bytes \<Rightarrow> int"                     \<comment> \<open>the error of a put on the console\<close>
  wi_utf8 :: "wide \<Rightarrow> bytes"
  wi_mem :: bool

definition FILE_BEGIN :: int where "FILE_BEGIN = 0"
definition FILE_CURRENT :: int where "FILE_CURRENT = 1"
definition FILE_END :: int where "FILE_END = 2"

definition FD_IO_MAX :: nat where "FD_IO_MAX = 2 ^ 30"
definition C_INT_MAX :: nat where "C_INT_MAX = 2 ^ 31 - 1"

definition reads :: "ofd \<Rightarrow> bool" where "reads o' \<longleftrightarrow> od_access o' AND FD_READ \<noteq> 0"
definition writes :: "ofd \<Rightarrow> bool" where "writes o' \<longleftrightarrow> od_access o' AND FD_WRITE \<noteq> 0"

text \<open>The result (-1 for none), the bytes read, sppc's error, the description and the world after.\<close>

definition ofd_read ::
  "os_macros \<Rightarrow> 'w win_io \<Rightarrow> ofd \<Rightarrow> nat \<Rightarrow> 'w \<Rightarrow> int \<times> bytes \<times> int \<times> ofd \<times> 'w" where
  "ofd_read os io o' n w =
     (if \<not> reads o' then (- 1, [], SPPC_EBADF, o', w)
      else case od_kind o' of
        FdSocket \<Rightarrow>
          (case wi_recv io (od_handle o') (min n C_INT_MAX) w of
             (Inl win, w1) \<Rightarrow> (- 1, [], if os ''WSAECONNABORTED'' = Some win then SPPC_ECONNRESET else sppc_errno_wsa os win, o', w1)
           | (Inr bs, w1) \<Rightarrow> (int (length bs), bs, 0, o', w1))
      | FdConsoleIn \<Rightarrow>
          (if od_in_pos o' = length (od_in o') \<and> n > 0 then
             (case wi_line io (od_handle o') w of
                (line, w1) \<Rightarrow>
                  (case console_read (wi_utf8 io) (wi_mem io) line o' n of
                     (got, bs, win, o1) \<Rightarrow> (got, bs, if got < 0 then sppc_errno_win32 os win else 0, o1, w1)))
           else
             (case console_read (wi_utf8 io) (wi_mem io) (Inr []) o' n of
                (got, bs, win, o1) \<Rightarrow> (got, bs, if got < 0 then sppc_errno_win32 os win else 0, o1, w)))
      | FdConsoleOut \<Rightarrow> (- 1, [], SPPC_EBADF, o', w)
      | FdHandle \<Rightarrow>
          (case wi_read io (od_handle o') (min n FD_IO_MAX) AtPosition w of
             (Inl win, w1) \<Rightarrow>
               if os ''ERROR_BROKEN_PIPE'' = Some win \<or> os ''ERROR_HANDLE_EOF'' = Some win then (0, [], 0, o', w1)
               else (- 1, [], if os ''ERROR_INVALID_FUNCTION'' = Some win \<and> od_disk o' then SPPC_EISDIR
                              else sppc_errno_win32 os win, o', w1)
           | (Inr bs, w1) \<Rightarrow> (int (length bs), bs, 0, o', w1)))"

definition ofd_write ::
  "os_macros \<Rightarrow> 'w win_io \<Rightarrow> ofd \<Rightarrow> bytes \<Rightarrow> 'w \<Rightarrow> int \<times> int \<times> ofd \<times> 'w" where
  "ofd_write os io o' bs w =
     (if \<not> writes o' \<or> od_kind o' = FdConsoleIn then (- 1, SPPC_EBADF, o', w)
      else case od_kind o' of
        FdSocket \<Rightarrow>
          (case wi_send io (od_handle o') (take C_INT_MAX bs) w of
             (Inl win, w1) \<Rightarrow> (- 1, if os ''WSAECONNABORTED'' = Some win then SPPC_EPIPE else sppc_errno_wsa os win, o', w1)
           | (Inr n, w1) \<Rightarrow> (int n, 0, o', w1))
      | FdConsoleOut \<Rightarrow>
          (case console_write (wi_put io (od_handle o')) o' bs of
             (n, win, o1, _) \<Rightarrow> (n, if n < 0 then sppc_errno_win32 os win else 0, o1, w))
      | _ \<Rightarrow>
          (case wi_write io (od_handle o') (take FD_IO_MAX bs) (if od_append o' then AtEnd else AtPosition) w of
             (Inl win, w1) \<Rightarrow> (- 1, sppc_errno_win32 os win, o', w1)
           | (Inr n, w1) \<Rightarrow> (int n, 0, o', w1)))"

text \<open>A positioned transfer: read so many (Inl) or write these (Inr). First the ReadFile or WriteFile of it.\<close>

definition pio_moved :: "'w win_io \<Rightarrow> nat \<Rightarrow> nat + bytes \<Rightarrow> int \<Rightarrow> 'w \<Rightarrow> (int + nat \<times> bytes) \<times> 'w" where
  "pio_moved io h what offset w =
     (case what of
        Inl n \<Rightarrow> (case wi_read io h (min n FD_IO_MAX) (AtOffset offset) w of
                   (Inl win, w1) \<Rightarrow> (Inl win, w1) | (Inr bs, w1) \<Rightarrow> (Inr (length bs, bs), w1))
      | Inr bs \<Rightarrow> (case wi_write io h (take FD_IO_MAX bs) (AtOffset offset) w of
                   (Inl win, w1) \<Rightarrow> (Inl win, w1) | (Inr n, w1) \<Rightarrow> (Inr (n, []), w1)))"

definition ofd_pio ::
  "os_macros \<Rightarrow> 'w win_io \<Rightarrow> ofd \<Rightarrow> nat + bytes \<Rightarrow> int \<Rightarrow> 'w \<Rightarrow> int \<times> bytes \<times> int \<times> 'w" where
  "ofd_pio os io o' what offset w =
     (if \<not> (case what of Inl _ \<Rightarrow> reads o' | Inr _ \<Rightarrow> writes o') then (- 1, [], SPPC_EBADF, w)
      else if \<not> od_disk o' then (- 1, [], SPPC_ESPIPE, w)
      else if offset < 0 then (- 1, [], SPPC_EINVAL, w)
      else
        (case wi_seek io (od_handle o') 0 FILE_CURRENT w of
           (was, w1) \<Rightarrow>
             (case pio_moved io (od_handle o') what offset w1 of
                (res, w2) \<Rightarrow>
                  (case wi_seek io (od_handle o') (case was of Inr p \<Rightarrow> p | Inl _ \<Rightarrow> 0) FILE_BEGIN w2 of
                     (_, w3) \<Rightarrow>
                       (case res of
                          Inr (n, bs) \<Rightarrow> (int n, bs, 0, w3)
                        | Inl win \<Rightarrow>
                            if isl what \<and> os ''ERROR_HANDLE_EOF'' = Some win then (0, [], 0, w3)
                            else (- 1, [], sppc_errno_win32 os win, w3))))))"

section \<open>Through the table\<close>

text \<open>A call on the description an fd names, let go of afterwards; EBADF for an fd that names none.\<close>

definition on_fd ::
  "fd_env \<Rightarrow> int \<Rightarrow> 'r \<Rightarrow> (ofd \<Rightarrow> 'w \<Rightarrow> 'r \<times> ofd \<times> 'w) \<Rightarrow> fd_table \<Rightarrow> 'w \<Rightarrow> 'r \<times> fd_table \<times> 'w" where
  "on_fd e fd bad act t w =
     (case fd_get e fd t of
        (None, t1) \<Rightarrow> (bad, t1, w)
      | (Some i, t1) \<Rightarrow>
          (case ft_ofds t1 i of
             None \<Rightarrow> (bad, t1, w)
           | Some o' \<Rightarrow>
               (case act o' w of (r, o1, w1) \<Rightarrow> (r, ofd_release (Some i) (t1\<lparr>ft_ofds := (ft_ofds t1)(i \<mapsto> o1)\<rparr>), w1))))"

definition sppc_read_win ::
  "os_macros \<Rightarrow> 'w win_io \<Rightarrow> fd_env \<Rightarrow> u64 \<Rightarrow> u64 \<Rightarrow> int \<Rightarrow> fd_table \<Rightarrow> 'w \<Rightarrow> (int \<times> int \<times> bytes) \<times> fd_table \<times> 'w" where
  "sppc_read_win os io e size_of count fd =
     on_fd e fd (SPPC_EBADF, - 1, []) (\<lambda>o' w.
       case ofd_read os io o' (unat (size_of * count)) w of (n, bs, err, o1, w1) \<Rightarrow> ((err, n, bs), o1, w1))"

definition sppc_write_win ::
  "os_macros \<Rightarrow> 'w win_io \<Rightarrow> fd_env \<Rightarrow> bytes \<Rightarrow> u64 \<Rightarrow> u64 \<Rightarrow> int \<Rightarrow> fd_table \<Rightarrow> 'w \<Rightarrow> (int \<times> int) \<times> fd_table \<times> 'w" where
  "sppc_write_win os io e buffer size_of count fd =
     on_fd e fd (SPPC_EBADF, - 1) (\<lambda>o' w.
       case ofd_write os io o' (take (unat (size_of * count)) buffer) w of (n, err, o1, w1) \<Rightarrow> ((err, n), o1, w1))"

definition sppc_pread_win ::
  "os_macros \<Rightarrow> 'w win_io \<Rightarrow> fd_env \<Rightarrow> int \<Rightarrow> u64 \<Rightarrow> u64 \<Rightarrow> int \<Rightarrow> fd_table \<Rightarrow> 'w \<Rightarrow> (int \<times> int \<times> bytes) \<times> fd_table \<times> 'w" where
  "sppc_pread_win os io e fd size_of count offset =
     on_fd e fd (SPPC_EBADF, - 1, []) (\<lambda>o' w.
       case ofd_pio os io o' (Inl (unat (size_of * count))) offset w of (n, bs, err, w1) \<Rightarrow> ((err, n, bs), o', w1))"

definition sppc_pwrite_win ::
  "os_macros \<Rightarrow> 'w win_io \<Rightarrow> fd_env \<Rightarrow> int \<Rightarrow> bytes \<Rightarrow> u64 \<Rightarrow> u64 \<Rightarrow> int \<Rightarrow> fd_table \<Rightarrow> 'w \<Rightarrow> (int \<times> int) \<times> fd_table \<times> 'w" where
  "sppc_pwrite_win os io e fd buffer size_of count offset =
     on_fd e fd (SPPC_EBADF, - 1) (\<lambda>o' w.
       case ofd_pio os io o' (Inr (take (unat (size_of * count)) buffer)) offset w of (n, _, err, w1) \<Rightarrow> ((err, n), o', w1))"

definition sppc_lseek_win ::
  "os_macros \<Rightarrow> 'w win_io \<Rightarrow> fd_env \<Rightarrow> int \<Rightarrow> int \<Rightarrow> int \<Rightarrow> fd_table \<Rightarrow> 'w \<Rightarrow> (int \<times> int) \<times> fd_table \<times> 'w" where
  "sppc_lseek_win os io e fd offset whence t w =
     (if whence \<noteq> SPPC_SEEK_SET \<and> whence \<noteq> SPPC_SEEK_CUR \<and> whence \<noteq> SPPC_SEEK_END then ((SPPC_EINVAL, - 1), t, w)
      else on_fd e fd (SPPC_EBADF, - 1) (\<lambda>o' w.
        if \<not> od_disk o' then ((SPPC_ESPIPE, - 1), o', w)
        else case wi_seek io (od_handle o') offset whence w of
          (Inr at, w1) \<Rightarrow> ((0, at), o', w1)
        | (Inl win, w1) \<Rightarrow> ((sppc_errno_win32 os win, - 1), o', w1)) t w)"

section \<open>Vectors\<close>

fun vector_read ::
  "os_macros \<Rightarrow> 'w win_io \<Rightarrow> ofd \<Rightarrow> nat list \<Rightarrow> 'w \<Rightarrow> int \<times> bytes list \<times> int \<times> ofd \<times> 'w" where
  "vector_read os io o' [] w = (0, [], 0, o', w)"
| "vector_read os io o' (n # ns) w =
     (case ofd_read os io o' n w of
        (moved, bs, err, o1, w1) \<Rightarrow>
          if moved < 0 then (0, [], err, o1, w1)
          else if nat moved < n then (moved, [bs], err, o1, w1)
          else (case vector_read os io o1 ns w1 of (acc, bss, err2, o2, w2) \<Rightarrow> (moved + acc, bs # bss, err2, o2, w2)))"

fun vector_write ::
  "os_macros \<Rightarrow> 'w win_io \<Rightarrow> ofd \<Rightarrow> bytes list \<Rightarrow> 'w \<Rightarrow> int \<times> int \<times> ofd \<times> 'w" where
  "vector_write os io o' [] w = (0, 0, o', w)"
| "vector_write os io o' (bs # bss) w =
     (case ofd_write os io o' bs w of
        (moved, err, o1, w1) \<Rightarrow>
          if moved < 0 then (0, err, o1, w1)
          else if nat moved < length bs then (moved, err, o1, w1)
          else (case vector_write os io o1 bss w1 of (acc, err2, o2, w2) \<Rightarrow> (moved + acc, err2, o2, w2)))"

definition vector_result :: "int \<Rightarrow> int \<Rightarrow> int \<times> int" where
  "vector_result acc err = (if err \<noteq> 0 \<and> acc = 0 then (err, - 1) else (0, acc))"

definition sppc_readv_win ::
  "os_macros \<Rightarrow> 'w win_io \<Rightarrow> fd_env \<Rightarrow> int \<Rightarrow> nat list \<Rightarrow> fd_table \<Rightarrow> 'w \<Rightarrow> ((int \<times> int) \<times> bytes list) \<times> fd_table \<times> 'w" where
  "sppc_readv_win os io e fd lens t w =
     (if length lens > 1024 then (((SPPC_EINVAL, - 1), []), t, w)
      else on_fd e fd ((SPPC_EBADF, - 1), []) (\<lambda>o' w.
        case vector_read os io o' lens w of (acc, bss, err, o1, w1) \<Rightarrow> ((vector_result acc err, bss), o1, w1)) t w)"

definition sppc_writev_win ::
  "os_macros \<Rightarrow> 'w win_io \<Rightarrow> fd_env \<Rightarrow> int \<Rightarrow> bytes list \<Rightarrow> fd_table \<Rightarrow> 'w \<Rightarrow> (int \<times> int) \<times> fd_table \<times> 'w" where
  "sppc_writev_win os io e fd bufs t w =
     (if length bufs > 1024 then ((SPPC_EINVAL, - 1), t, w)
      else on_fd e fd (SPPC_EBADF, - 1) (\<lambda>o' w.
        case vector_write os io o' bufs w of (acc, err, o1, w1) \<Rightarrow> (vector_result acc err, o1, w1)) t w)"

section \<open>Copies\<close>

text \<open>The inner loop: every byte read, until a write takes none; how many went, the last error.\<close>

function copy_out ::
  "os_macros \<Rightarrow> 'w win_io \<Rightarrow> ofd \<Rightarrow> bytes \<Rightarrow> nat \<Rightarrow> 'w \<Rightarrow> nat \<times> int \<times> ofd \<times> 'w" where
  "copy_out os io out bs put w =
     (if put < length bs then
        (case ofd_write os io out (drop put bs) w of
           (wrote, err, o1, w1) \<Rightarrow>
             if wrote \<le> 0 then (put, err, o1, w1) else copy_out os io o1 bs (put + nat wrote) w1)
      else (put, 0, out, w))"
  by pat_completeness auto
termination by (relation "measure (\<lambda>(os, io, out, bs, put, w). length bs - put)") auto

text \<open>
  The loop, from so many bytes on: the acc, the last error and what is left of both descriptions and the world.
  The two descriptions are two (the source's is not the target's).
\<close>

function copy_loop ::
  "os_macros \<Rightarrow> 'w win_io \<Rightarrow> ofd \<Rightarrow> ofd \<Rightarrow> int option \<Rightarrow> nat \<Rightarrow> nat \<Rightarrow> 'w \<Rightarrow> nat \<times> int \<times> ofd \<times> ofd \<times> 'w" where
  "copy_loop os io from to offset count acc w =
     (if acc < count then
        (case (case offset of
                 Some off \<Rightarrow> (case ofd_pio os io from (Inl (min (count - acc) 65536)) (off + int acc) w of
                                (got, bs, err, w1) \<Rightarrow> (got, bs, err, from, w1))
               | None \<Rightarrow> ofd_read os io from (min (count - acc) 65536) w) of
           (got, bs, err, from1, w1) \<Rightarrow>
             if got \<le> 0 \<or> bs = [] then (acc, err, from1, to, w1)
             else (case copy_out os io to bs 0 w1 of
                     (put, err2, to1, w2) \<Rightarrow>
                       if put < length bs then
                         (if offset = None \<and> od_disk from1
                          then (acc + put, err2, from1, to1,
                                snd (wi_seek io (od_handle from1) (- int (length bs - put)) FILE_CURRENT w2))
                          else (acc + put, err2, from1, to1, w2))
                       else copy_loop os io from1 to1 offset count (acc + put) w2))
      else (acc, 0, from, to, w))"
  by pat_completeness auto
termination
  by (relation "measure (\<lambda>(os, io, from, to, offset, count, acc, w). count - acc)")
    (auto simp: not_less length_greater_0_conv [symmetric] simp del: length_greater_0_conv)

declare copy_out.simps [simp del] copy_loop.simps [simp del]

definition sppc_win_copy ::
  "os_macros \<Rightarrow> 'w win_io \<Rightarrow> fd_env \<Rightarrow> int \<Rightarrow> int \<Rightarrow> int option \<Rightarrow> nat \<Rightarrow> fd_table \<Rightarrow> 'w \<Rightarrow>
   (int \<times> int \<times> int option) \<times> fd_table \<times> 'w" where
  "sppc_win_copy os io e from_fd to_fd offset count t w =
     (case fd_get e from_fd t of
        (inp, t1) \<Rightarrow>
          (case fd_get e to_fd t1 of
             (outp, t2) \<Rightarrow>
               (case (Option.bind inp (ft_ofds t2), Option.bind outp (ft_ofds t2)) of
                  (Some from, Some to) \<Rightarrow>
                    if \<not> wi_mem io then ((SPPC_ENOMEM, - 1, offset), ofd_release outp (ofd_release inp t2), w)
                    else (case copy_loop os io from to offset count 0 w of
                            (acc, err, from1, to1, w1) \<Rightarrow>
                              (let t3 = t2\<lparr>ft_ofds := (ft_ofds t2)(the inp \<mapsto> from1, the outp \<mapsto> to1)\<rparr>;
                                   t4 = ofd_release outp (ofd_release inp t3)
                               in if err \<noteq> 0 \<and> acc = 0 then ((err, - 1, offset), t4, w1)
                                  else ((0, int acc, map_option (\<lambda>off. off + int acc) offset), t4, w1)))
                | _ \<Rightarrow> ((SPPC_EBADF, - 1, offset), ofd_release outp (ofd_release inp t2), w))))"

definition sppc_sendfile_win ::
  "os_macros \<Rightarrow> 'w win_io \<Rightarrow> fd_env \<Rightarrow> int \<Rightarrow> int \<Rightarrow> int option \<Rightarrow> nat \<Rightarrow> fd_table \<Rightarrow> 'w \<Rightarrow>
   (int \<times> int \<times> int option) \<times> fd_table \<times> 'w" where
  "sppc_sendfile_win = sppc_win_copy"

definition sppc_copyfile_win ::
  "os_macros \<Rightarrow> 'w win_io \<Rightarrow> fd_env \<Rightarrow> int \<Rightarrow> int \<Rightarrow> nat \<Rightarrow> int \<Rightarrow> fd_table \<Rightarrow> 'w \<Rightarrow>
   (int \<times> int \<times> int option) \<times> fd_table \<times> 'w" where
  "sppc_copyfile_win os io e fd_in fd_out len flags t w =
     (if flags \<noteq> 0 then ((SPPC_EINVAL, - 1, None), t, w) else sppc_win_copy os io e fd_in fd_out None len t w)"

section \<open>Positions\<close>

text \<open>
  What Windows documents of positions: \<^verbatim>\<open>pos\<close> is a handle's; a seek moves it as asked, a read or write moves its own
  handle's alone, a read at the position by what it read.
\<close>

definition others_stay :: "(nat \<Rightarrow> 'w \<Rightarrow> int) \<Rightarrow> nat \<Rightarrow> 'w \<Rightarrow> 'w \<Rightarrow> bool" where
  "others_stay pos h w w' \<longleftrightarrow> (\<forall>g. g \<noteq> h \<longrightarrow> pos g w' = pos g w)"

definition disk_laws :: "'w win_io \<Rightarrow> (nat \<Rightarrow> 'w \<Rightarrow> int) \<Rightarrow> bool" where
  "disk_laws io pos \<longleftrightarrow>
     (\<forall>h w. 0 \<le> pos h w) \<and>
     (\<forall>h d w r w'. wi_seek io h d FILE_CURRENT w = (r, w') \<longrightarrow> 0 \<le> pos h w + d \<longrightarrow>
        r = Inr (pos h w + d) \<and> pos h w' = pos h w + d \<and> others_stay pos h w w') \<and>
     (\<forall>h d w r w'. wi_seek io h d FILE_BEGIN w = (r, w') \<longrightarrow> 0 \<le> d \<longrightarrow> pos h w' = d \<and> others_stay pos h w w') \<and>
     (\<forall>h n p w r w'. wi_read io h n p w = (r, w') \<longrightarrow> others_stay pos h w w' \<and>
        (case r of Inr bs \<Rightarrow> length bs \<le> n | Inl _ \<Rightarrow> True) \<and>
        (p = AtPosition \<longrightarrow> pos h w' = pos h w + (case r of Inr bs \<Rightarrow> int (length bs) | Inl _ \<Rightarrow> 0))) \<and>
     (\<forall>h bs p w r w'. wi_write io h bs p w = (r, w') \<longrightarrow> others_stay pos h w w' \<and>
        (case r of Inr n \<Rightarrow> n \<le> length bs | Inl _ \<Rightarrow> True)) \<and>
     (\<forall>h bs w r w'. wi_send io h bs w = (r, w') \<longrightarrow> others_stay pos h w w' \<and>
        (case r of Inr n \<Rightarrow> n \<le> length bs | Inl _ \<Rightarrow> True))"

lemma disk_seek:
  assumes "disk_laws io pos" "wi_seek io h d FILE_CURRENT w = (r, w')" "0 \<le> pos h w + d"
  shows "r = Inr (pos h w + d)" "pos h w' = pos h w + d" "others_stay pos h w w'"
  using assms unfolding disk_laws_def by metis+

lemma disk_seek_to:
  assumes "disk_laws io pos" "wi_seek io h d FILE_BEGIN w = (r, w')" "0 \<le> d"
  shows "pos h w' = d" "others_stay pos h w w'"
  using assms unfolding disk_laws_def by metis+

lemma disk_read:
  assumes "disk_laws io pos" "wi_read io h n p w = (r, w')"
  shows "others_stay pos h w w'"
    and "r = Inr bs \<Longrightarrow> length bs \<le> n"
    and "p = AtPosition \<Longrightarrow> pos h w' = pos h w + (case r of Inr bs \<Rightarrow> int (length bs) | Inl _ \<Rightarrow> 0)"
  using assms unfolding disk_laws_def by fastforce+

lemma disk_write:
  assumes "disk_laws io pos" "wi_write io h bs p w = (r, w')"
  shows "others_stay pos h w w'" and "r = Inr n \<Longrightarrow> n \<le> length bs"
  using assms unfolding disk_laws_def by fastforce+

lemma disk_send:
  assumes "disk_laws io pos" "wi_send io h bs w = (r, w')"
  shows "others_stay pos h w w'" and "r = Inr n \<Longrightarrow> n \<le> length bs"
  using assms unfolding disk_laws_def by fastforce+

lemma others_refl [simp]: "others_stay pos h w w"
  by (simp add: others_stay_def)

lemma others_trans: "others_stay pos h w w1 \<Longrightarrow> others_stay pos h w1 w2 \<Longrightarrow> others_stay pos h w w2"
  by (simp add: others_stay_def)

lemma moved_stays:
  assumes laws: "disk_laws io pos" and res: "pio_moved io h what offset w = (r, w')"
  shows "others_stay pos h w w'"
proof (cases what)
  case (Inl n)
  obtain x y where x: "wi_read io h (min n FD_IO_MAX) (AtOffset offset) w = (x, y)" by fastforce
  then have "y = w'" using res Inl by (cases x) (auto simp: pio_moved_def)
  then show ?thesis using disk_read(1) [OF laws x] by simp
next
  case (Inr bs)
  obtain x y where x: "wi_write io h (take FD_IO_MAX bs) (AtOffset offset) w = (x, y)" by fastforce
  then have "y = w'" using res Inr by (cases x) (auto simp: pio_moved_def)
  then show ?thesis using disk_write(1) [OF laws x] by simp
qed

lemma pio_place:
  assumes laws: "disk_laws io pos" and res: "ofd_pio os io o' what offset w = (n, bs, err, w')"
  shows "pos g w' = pos g w"
proof (cases "(case what of Inl _ \<Rightarrow> reads o' | Inr _ \<Rightarrow> writes o') \<and> od_disk o' \<and> \<not> offset < 0")
  case False
  then have "w' = w" using res unfolding ofd_pio_def by (auto split: if_splits)
  then show ?thesis by simp
next
  case True
  define h where "h = od_handle o'"
  obtain was w1 where s1: "wi_seek io h 0 FILE_CURRENT w = (was, w1)" by fastforce
  have p0: "0 \<le> pos h w" using laws by (simp add: disk_laws_def)
  have a: "was = Inr (pos h w)" "pos h w1 = pos h w" "others_stay pos h w w1"
    using disk_seek [OF laws s1] p0 by simp_all
  obtain r w2 where m: "pio_moved io h what offset w1 = (r, w2)" by fastforce
  have b: "others_stay pos h w1 w2" by (rule moved_stays [OF laws m])
  obtain z w3 where s2: "wi_seek io h (pos h w) FILE_BEGIN w2 = (z, w3)" by fastforce
  have c: "pos h w3 = pos h w" "others_stay pos h w2 w3" using disk_seek_to [OF laws s2 p0] by simp_all
  have "w' = w3" using res True s1 a(1) m s2 unfolding ofd_pio_def h_def [symmetric]
    by (cases r) (auto split: if_splits prod.splits)
  moreover have "pos g w3 = pos g w" if "g \<noteq> h" using that a(3) b c(2) by (simp add: others_stay_def)
  ultimately show ?thesis using c(1) by (cases "g = h") simp_all
qed

lemma console_pending_handle:
  "console_pending put o' d = (err, o1, left, puts) \<Longrightarrow> od_handle o1 = od_handle o'"
  by (auto simp: console_pending_def Let_def split: if_splits prod.splits)

lemma console_write_handle:
  "console_write put o' d = (n, err, o1, puts) \<Longrightarrow> od_handle o1 = od_handle o' \<and> n \<le> int (length d)"
  by (auto simp: console_write_def Let_def dest!: console_pending_handle split: if_splits prod.splits)

lemma write_stays:
  assumes laws: "disk_laws io pos" and res: "ofd_write os io o' bs w = (n, err, o1, w')"
  shows "others_stay pos (od_handle o') w w' \<and> od_handle o1 = od_handle o' \<and> n \<le> int (length bs)"
proof (cases "\<not> writes o' \<or> od_kind o' = FdConsoleIn")
  case True
  then show ?thesis using res by (auto simp: ofd_write_def)
next
  case no: False
  show ?thesis
  proof (cases "od_kind o'")
    case FdSocket
    obtain r y where x: "wi_send io (od_handle o') (take C_INT_MAX bs) w = (r, y)" by fastforce
    show ?thesis using res no FdSocket disk_send [OF laws x] x by (cases r) (auto simp: ofd_write_def)
  next
    case FdConsoleOut
    obtain a b c d where x: "console_write (wi_put io (od_handle o')) o' bs = (a, b, c, d)" using prod_cases4 by blast
    show ?thesis using res no FdConsoleOut console_write_handle [OF x] x by (auto simp: ofd_write_def)
  next
    case FdHandle
    obtain r y where x: "wi_write io (od_handle o') (take FD_IO_MAX bs) (if od_append o' then AtEnd else AtPosition) w = (r, y)"
      by fastforce
    show ?thesis using res no FdHandle disk_write [OF laws x] x by (cases r) (auto simp: ofd_write_def)
  qed (use no in simp)
qed

lemma copy_out_stays:
  assumes "copy_out os io out bs put w = (put', err, o1, w')" "put \<le> length bs" "disk_laws io pos"
  shows "others_stay pos (od_handle out) w w' \<and> od_handle o1 = od_handle out \<and> put \<le> put' \<and> put' \<le> length bs"
  using assms
proof (induction os io out bs put w arbitrary: put' err o1 w' rule: copy_out.induct)
  case (1 os io out bs put w)
  show ?case
  proof (cases "put < length bs")
    case False
    then show ?thesis using "1.prems" by (simp add: copy_out.simps)
  next
    case True
    obtain n e o2 w2 where wr: "ofd_write os io out (drop put bs) w = (n, e, o2, w2)" using prod_cases4 by blast
    have "others_stay pos (od_handle out) w w2 \<and> od_handle o2 = od_handle out \<and> n \<le> int (length (drop put bs))"
      by (rule write_stays [OF "1.prems"(3) wr])
    then have st: "others_stay pos (od_handle out) w w2" "od_handle o2 = od_handle out" "n \<le> int (length bs - put)"
      by auto
    show ?thesis
    proof (cases "n \<le> 0")
      case yes: True
      then show ?thesis using "1.prems" True wr st by (auto simp: copy_out.simps)
    next
      case no: False
      have len: "put + nat n \<le> length bs" using st(3) no True by linarith
      have "copy_out os io o2 bs (put + nat n) w2 = (put', err, o1, w')"
        using "1.prems"(1) True wr no by (simp add: copy_out.simps [of _ _ out])
      then have "others_stay pos (od_handle o2) w2 w' \<and> od_handle o1 = od_handle o2 \<and> put + nat n \<le> put' \<and>
        put' \<le> length bs"
        using "1.IH" [OF True wr [symmetric] refl refl no] len "1.prems"(3) by blast
      then show ?thesis using st by (auto simp: others_stay_def)
    qed
  qed
qed

lemma read_disk_place:
  assumes laws: "disk_laws io pos" and res: "ofd_read os io o' n w = (got, bs, err, o1, w')"
    and disk: "od_kind o' = FdHandle"
  shows "o1 = o' \<and> pos (od_handle o') w' = pos (od_handle o') w + int (length bs) \<and> length bs \<le> n \<and>
    (got \<le> 0 \<longrightarrow> bs = [])"
proof (cases "reads o'")
  case False
  then show ?thesis using res by (auto simp: ofd_read_def)
next
  case True
  obtain r w1 where x: "wi_read io (od_handle o') (min n FD_IO_MAX) AtPosition w = (r, w1)" by fastforce
  have p: "pos (od_handle o') w1 = pos (od_handle o') w + (case r of Inr bs \<Rightarrow> int (length bs) | Inl _ \<Rightarrow> 0)"
    using disk_read(3) [OF laws x] by simp
  show ?thesis
  proof (cases r)
    case (Inl win)
    then show ?thesis using res True disk x p by (auto simp: ofd_read_def split: if_splits)
  next
    case (Inr ys)
    then show ?thesis using res True disk x p disk_read(2) [OF laws x, of ys] by (auto simp: ofd_read_def)
  qed
qed

lemma pio_length:
  assumes laws: "disk_laws io pos" and res: "ofd_pio os io o' (Inl n) offset w = (got, bs, err, w')"
  shows "length bs \<le> n \<and> (got \<le> 0 \<longrightarrow> bs = [])"
proof (cases "reads o' \<and> od_disk o' \<and> \<not> offset < 0")
  case False
  then show ?thesis using res unfolding ofd_pio_def by (auto split: if_splits)
next
  case True
  obtain was w1 where s1: "wi_seek io (od_handle o') 0 FILE_CURRENT w = (was, w1)" by fastforce
  obtain r w2 where m: "wi_read io (od_handle o') (min n FD_IO_MAX) (AtOffset offset) w1 = (r, w2)" by fastforce
  show ?thesis using res True s1 m disk_read(2) [OF laws m] unfolding ofd_pio_def pio_moved_def
    by (cases r) (auto split: if_splits prod.splits)
qed

text \<open>One round: what is read of the source, and how its position moves.\<close>

definition copy_read where
  "copy_read os io from offset n acc w =
     (case offset of
        Some off \<Rightarrow> (case ofd_pio os io from (Inl n) (off + int acc) w of
                       (got, bs, err, w1) \<Rightarrow> (got, bs, err, from, w1))
      | None \<Rightarrow> ofd_read os io from n w)"

lemma copy_read_place:
  assumes laws: "disk_laws io pos" and res: "copy_read os io from offset n acc w = (got, bs, err, from1, w1)"
    and disk: "od_kind from = FdHandle"
  shows "from1 = from \<and> length bs \<le> n \<and> (got \<le> 0 \<longrightarrow> bs = []) \<and>
    pos (od_handle from) w1 = pos (od_handle from) w + (if offset = None then int (length bs) else 0)"
proof (cases offset)
  case None
  then show ?thesis using read_disk_place [OF laws _ disk] res by (auto simp: copy_read_def)
next
  case (Some off)
  obtain a b c d where x: "ofd_pio os io from (Inl n) (off + int acc) w = (a, b, c, d)" using prod_cases4 by blast
  then show ?thesis using pio_length [OF laws x] pio_place [OF laws x] res Some by (auto simp: copy_read_def)
qed

lemma copy_loop_round:
  "copy_loop os io from to offset count acc w =
     (if acc < count then
        (case copy_read os io from offset (min (count - acc) 65536) acc w of
           (got, bs, err, from1, w1) \<Rightarrow>
             if got \<le> 0 \<or> bs = [] then (acc, err, from1, to, w1)
             else (case copy_out os io to bs 0 w1 of
                     (put, err2, to1, w2) \<Rightarrow>
                       if put < length bs then
                         (if offset = None \<and> od_disk from1
                          then (acc + put, err2, from1, to1,
                                snd (wi_seek io (od_handle from1) (- int (length bs - put)) FILE_CURRENT w2))
                          else (acc + put, err2, from1, to1, w2))
                       else copy_loop os io from1 to1 offset count (acc + put) w2))
      else (acc, 0, from, to, w))"
  unfolding copy_read_def by (rule copy_loop.simps)

lemma copy_loop_place:
  assumes "copy_loop os io inp outp offset count acc w = (acc', err, from1, to1, w')" "acc \<le> count" "disk_laws io pos"
    and "od_kind inp = FdHandle" "od_disk inp" "od_handle inp \<noteq> od_handle outp"
  shows "acc \<le> acc' \<and> acc' \<le> count \<and>
    pos (od_handle inp) w' = pos (od_handle inp) w + (if offset = None then int acc' - int acc else 0)"
  using assms
proof (induction "count - acc" arbitrary: inp outp acc w rule: less_induct)
  case less
  show ?case
  proof (cases "acc < count")
    case False
    then show ?thesis using less.prems by (simp add: copy_loop_round)
  next
    case True
    obtain got bs e from2 w1 where rd: "copy_read os io inp offset (min (count - acc) 65536) acc w = (got, bs, e, from2, w1)"
      using prod_cases5 by blast
    note r = copy_read_place [OF less.prems(3) rd less.prems(4)]
    show ?thesis
    proof (cases "got \<le> 0 \<or> bs = []")
      case yes: True
      then show ?thesis using less.prems(1,2) True rd r by (auto simp: copy_loop_round [of _ _ inp])
    next
      case no: False
      obtain put e2 to2 w2 where out: "copy_out os io outp bs 0 w1 = (put, e2, to2, w2)" using prod_cases4 by blast
      have o2: "others_stay pos (od_handle outp) w1 w2" "od_handle to2 = od_handle outp" "put \<le> length bs"
        using copy_out_stays [OF out _ less.prems(3)] by auto
      have p2: "pos (od_handle inp) w2 = pos (od_handle inp) w + (if offset = None then int (length bs) else 0)"
        using o2(1) r less.prems(6) by (simp add: others_stay_def)
      have le: "acc + put \<le> count" using o2(3) r True by linarith
      show ?thesis
      proof (cases "put < length bs")
        case short: True
        show ?thesis
        proof (cases "offset = None")
          case True
          obtain z w3 where s: "wi_seek io (od_handle inp) (- int (length bs - put)) FILE_CURRENT w2 = (z, w3)" by fastforce
          have "0 \<le> pos (od_handle inp) w" using less.prems(3) by (simp add: disk_laws_def)
          then have "pos (od_handle inp) w3 = pos (od_handle inp) w + int put"
            using disk_seek(2) [OF less.prems(3) s] p2 True short by (simp add: of_nat_diff)
          then show ?thesis using less.prems(1,5) \<open>acc < count\<close> rd r no out short True s le
            by (auto simp: copy_loop_round [of _ _ inp])
        next
          case False
          then show ?thesis using less.prems(1) \<open>acc < count\<close> rd no out short le p2
            by (auto simp: copy_loop_round [of _ _ inp])
        qed
      next
        case full: False
        then have put: "put = length bs" "0 < put" using o2(3) no by auto
        have step: "copy_loop os io inp to2 offset count (acc + put) w2 = (acc', err, from1, to1, w')"
          using less.prems(1) True rd r no out full by (simp add: copy_loop_round [of _ _ inp])
        have dec: "count - (acc + put) < count - acc" using put(2) le by linarith
        have "acc + put \<le> acc' \<and> acc' \<le> count \<and>
          pos (od_handle inp) w' = pos (od_handle inp) w2 + (if offset = None then int acc' - int (acc + put) else 0)"
          by (rule less.hyps [OF dec step le less.prems(3-5)]) (use o2(2) less.prems(6) in simp)
        then show ?thesis using p2 put by (auto split: if_splits)
      qed
    qed
  qed
qed

lemma on_fd_place:
  assumes "\<And>o' w r o1 w1. act o' w = (r, o1, w1) \<Longrightarrow> pos g w1 = pos g w" "on_fd e fd bad act t w = (r, t', w')"
  shows "pos g w' = pos g w"
  using assms(2) by (auto simp: on_fd_def dest: assms(1) split: prod.splits option.splits)

text \<open>A positioned read or write through a Windows descriptor leaves every position in the process where it was, the
  file's own included, whatever it moves and whether or not it fails.\<close>

theorem positioned_io_keeps_place:
  assumes "disk_laws io pos"
  shows "(\<forall>r t' w'. sppc_pread_win os io e fd size_of count offset t w = (r, t', w') \<longrightarrow> pos g w' = pos g w) \<and>
    (\<forall>r t' w'. sppc_pwrite_win os io e fd buffer size_of count offset t w = (r, t', w') \<longrightarrow> pos g w' = pos g w)"
proof (intro conjI allI impI)
  fix r t' w'
  assume "sppc_pread_win os io e fd size_of count offset t w = (r, t', w')"
  then show "pos g w' = pos g w" unfolding sppc_pread_win_def
    by (rule on_fd_place [rotated]) (auto dest: pio_place [OF assms] split: prod.splits)
next
  fix r t' w'
  assume "sppc_pwrite_win os io e fd buffer size_of count offset t w = (r, t', w')"
  then show "pos g w' = pos g w" unfolding sppc_pwrite_win_def
    by (rule on_fd_place [rotated]) (auto dest: pio_place [OF assms] split: prod.splits)
qed

text \<open>C25: A copy from a file to another descriptor moves at most what was asked; with no offset it leaves the source's
  position just past the bytes that went, so none is skipped when the target takes only some, and none is read twice;
  with an offset it leaves the position and moves the offset on by as much.\<close>

theorem copy_keeps_place:
  assumes "disk_laws io pos"
    and "fd_get e from_fd t = (Some i, t1)" "fd_get e to_fd t1 = (Some j, t2)" "ft_ofds t2 i = Some inp"
    "ft_ofds t2 j = Some outp"
    and "od_kind inp = FdHandle" "od_disk inp" "od_handle inp \<noteq> od_handle outp"
    and "sppc_win_copy os io e from_fd to_fd offset count t w = ((err, n, offset'), t', w')"
  shows "n \<le> int count \<and> offset' = map_option (\<lambda>off. off + max n 0) offset \<and>
    pos (od_handle inp) w' = pos (od_handle inp) w + (if offset = None then max n 0 else 0)"
proof (cases "wi_mem io")
  case False
  then show ?thesis using assms by (cases offset) (auto simp: sppc_win_copy_def)
next
  case True
  obtain acc x inp1 outp1 w1 where l: "copy_loop os io inp outp offset count 0 w = (acc, x, inp1, outp1, w1)"
    using prod_cases5 by blast
  have p: "acc \<le> count" "pos (od_handle inp) w1 = pos (od_handle inp) w + (if offset = None then int acc else 0)"
    using copy_loop_place [OF l _ assms(1,6-8)] by auto
  have "(err, n, offset') = (if x \<noteq> 0 \<and> acc = 0 then (x, - 1, offset) else (0, int acc, map_option (\<lambda>off. off + int acc) offset))"
    "w' = w1"
    using assms(9) by (auto simp: sppc_win_copy_def assms(2-5) True l Let_def split: if_splits)
  then show ?thesis using p by (cases offset) (auto split: if_splits)
qed

text \<open>Two files of a disk, by their handles' positions: reads of one content, writes of at most three bytes.\<close>

definition two_files :: "bytes \<Rightarrow> (nat \<Rightarrow> nat) win_io" where
  "two_files content =
     \<lparr>wi_read = (\<lambda>h n p w.
        (case p of
           AtOffset q \<Rightarrow> (Inr (take n (drop (nat q) content)), w)
         | AtEnd \<Rightarrow> (Inr [], w)
         | AtPosition \<Rightarrow> (Inr (take n (drop (w h) content)), w(h := w h + length (take n (drop (w h) content)))))),
      wi_write = (\<lambda>h bs p w. (Inr (min 3 (length bs)), w(h := w h + min 3 (length bs)))),
      wi_seek = (\<lambda>h d whence w.
        let p = (if whence = FILE_CURRENT then int (w h) + d else d) in (Inr p, w(h := nat p))),
      wi_recv = (\<lambda>_ _ w. (Inr [], w)), wi_send = (\<lambda>_ bs w. (Inr 0, w)), wi_line = (\<lambda>_ w. (Inr [], w)),
      wi_put = (\<lambda>_ _. 0), wi_utf8 = (\<lambda>_. []), wi_mem = True\<rparr>"

lemma two_files_laws: "disk_laws (two_files content) (\<lambda>h w. int (w h))"
  unfolding disk_laws_def two_files_def others_stay_def Let_def FILE_CURRENT_def FILE_BEGIN_def
  by (intro conjI allI impI) (auto split: io_place.splits)

definition file_ofd :: "nat \<Rightarrow> ofd" where
  "file_ofd h = \<lparr>od_refs = 1, od_kind = FdHandle, od_access = FD_READ OR FD_WRITE, od_handle = h, od_disk = True,
     od_append = False, od_nonblock = False, od_reuseaddr = False, od_iocp = 0, od_pending = [], od_in = [], od_in_pos = 0\<rparr>"

definition two_fds :: fd_table where
  "two_fds = \<lparr>ft_up = True, ft_slots = [(Some 0, False), (Some 1, False)],
     ft_ofds = [0 \<mapsto> file_ofd 10, 1 \<mapsto> file_ofd 11], ft_next = 2, ft_closed = [], ft_std = Map.empty\<rparr>"

lemma positioned_io_keeps_place_witness:
  "case sppc_pread_win (\<lambda>_. None) (two_files [1, 2, 3]) sample_env 0 1 2 1 two_fds (\<lambda>_. 7) of
     (_, _, w') \<Rightarrow> int (w' 10) = 7"
proof -
  obtain r t' w' where res: "sppc_pread_win (\<lambda>_. None) (two_files [1, 2, 3]) sample_env 0 1 2 1 two_fds (\<lambda>_. 7) = (r, t', w')"
    using prod_cases3 by blast
  then have "int (w' 10) = int ((\<lambda>_. 7) 10)"
    using positioned_io_keeps_place [OF two_files_laws, where g = 10, THEN conjunct1] by blast
  then show ?thesis by (simp add: res)
qed

lemma copy_keeps_place_witness:
  "case sppc_win_copy (\<lambda>_. None) (two_files [1, 2, 3, 4, 5, 6]) sample_env 0 1 None 4 two_fds (\<lambda>_. 1) of
     ((_, n, _), _, w') \<Rightarrow> n \<le> 4 \<and> int (w' 10) = 1 + max n 0"
proof -
  define outcome where "outcome =
    sppc_win_copy (\<lambda>_. None) (two_files [1, 2, 3, 4, 5, 6]) sample_env 0 1 None 4 two_fds (\<lambda>_. 1)"
  obtain err n off t' w' where res: "outcome = ((err, n, off), t', w')" by (metis surj_pair)
  have gets: "fd_get sample_env 0 two_fds = (Some 0, ofd_retain 0 two_fds)"
    "fd_get sample_env 1 (ofd_retain 0 two_fds) = (Some 1, ofd_retain 1 (ofd_retain 0 two_fds))"
    by (simp_all add: fd_get_def fds_ready_def two_fds_def slot_ofd_def ofd_retain_def)
  have ofds: "ft_ofds (ofd_retain 1 (ofd_retain 0 two_fds)) 0 = Some (add_ref 1 (file_ofd 10))"
    "ft_ofds (ofd_retain 1 (ofd_retain 0 two_fds)) 1 = Some (add_ref 1 (file_ofd 11))"
    by (simp_all add: two_fds_def ofd_retain_def)
  have "n \<le> int 4 \<and> off = map_option (\<lambda>off. off + max n 0) None \<and>
    int (w' (od_handle (add_ref 1 (file_ofd 10)))) = int ((\<lambda>_. 1) (od_handle (add_ref 1 (file_ofd 10)))) +
      (if (None :: int option) = None then max n 0 else 0)"
    by (rule copy_keeps_place [OF two_files_laws gets ofds]) (use res in \<open>auto simp: outcome_def add_ref_def file_ofd_def\<close>)
  then show ?thesis using res by (simp add: outcome_def add_ref_def file_ofd_def)
qed

end
