(* ===== verification/WinPaths.thy ===== *)
theory WinPaths
  imports WinIO WinClock
begin

text \<open>
  Paths and metadata on Windows (platform/windows.h, PATHS and METADATA). Windows' calls are an argument, over a
  world of any type: those that ask (attributes of a path, what a handle is of), those that open and close a handle, and
  those that change something (\<^verbatim>\<open>fs_change\<close>), each with its win32 error (0 for none). A path is its bytes, without the
  terminator; UTF-16 its units.
\<close>

section \<open>Windows' calls\<close>

datatype fs_change =
    SetAttributes wide int            \<comment> \<open>SetFileAttributesW\<close>
  | MoveReplacing wide wide           \<comment> \<open>MoveFileExW, MOVEFILE_REPLACE_EXISTING\<close>
  | MakeDirectory wide
  | RemoveDirectory wide
  | ChangeDirectory wide
  | HardLink wide wide                \<comment> \<open>the new name, the file\<close>
  | SymbolicLink wide wide int        \<comment> \<open>the new name, the target, the flags\<close>
  | Flush nat
  | SetEnd nat int                    \<comment> \<open>FileEndOfFileInfo\<close>
  | DeletePosix nat int               \<comment> \<open>FileDispositionInfoEx, its flags\<close>
  | DeleteAtClose nat                 \<comment> \<open>FileDispositionInfo\<close>
  | RenamePosix nat int wide          \<comment> \<open>FileRenameInfoEx, its flags, the new name\<close>
  | SetBasic nat int                  \<comment> \<open>FileBasicInfo, its attributes, times left alone\<close>
  | SetTimes nat                      \<comment> \<open>access and modification to now\<close>

record win_info =
  in_volume :: u32
  in_index_high :: u32
  in_index_low :: u32
  in_links :: u32
  in_size_high :: u32
  in_size_low :: u32
  in_attrs :: int
  in_allocated :: int
  in_access :: int
  in_write :: int
  in_change :: int

record win_reparse =
  rp_tag :: int
  rp_substitute :: "nat \<times> nat"  \<comment> \<open>offset and length, in bytes\<close>
  rp_print :: "nat \<times> nat"
  rp_names :: wide

record win_volume =
  vl_sectors :: u32
  vl_bytes :: u32
  vl_available :: u64
  vl_total :: u64
  vl_free :: u64
  vl_serial :: u32
  vl_longest :: u32
  vl_flags :: int

record 'w win_fs =
  wf_os :: os_macros
  wf_wide :: "bytes \<Rightarrow> wide option"   \<comment> \<open>MultiByteToWideChar, strict\<close>
  wf_utf8 :: "wide \<Rightarrow> bytes option"
  wf_lower :: "u16 \<Rightarrow> u16"            \<comment> \<open>towlower\<close>
  wf_mem :: "nat \<Rightarrow> bool"            \<comment> \<open>whether a block of so many bytes can be had\<close>
  wf_attrs :: "wide \<Rightarrow> 'w \<Rightarrow> int + int"
  wf_type :: "nat \<Rightarrow> 'w \<Rightarrow> int"
  wf_info :: "nat \<Rightarrow> 'w \<Rightarrow> int + win_info"
  wf_tag :: "nat \<Rightarrow> 'w \<Rightarrow> (int \<times> int) option"
  wf_reparse :: "nat \<Rightarrow> 'w \<Rightarrow> int + win_reparse"
  wf_name :: "nat \<Rightarrow> 'w \<Rightarrow> int + wide"   \<comment> \<open>GetFinalPathNameByHandleW\<close>
  wf_full :: "wide \<Rightarrow> 'w \<Rightarrow> int + wide"  \<comment> \<open>GetFullPathNameW\<close>
  wf_volume :: "wide \<Rightarrow> 'w \<Rightarrow> int + win_volume"
  wf_create :: "wide \<Rightarrow> int \<Rightarrow> int \<Rightarrow> int \<Rightarrow> 'w \<Rightarrow> (int + nat) \<times> 'w"  \<comment> \<open>CreateFileW: access, disposition, flags\<close>
  wf_close :: "nat \<Rightarrow> 'w \<Rightarrow> 'w"
  wf_change :: "fs_change \<Rightarrow> 'w \<Rightarrow> int \<times> 'w"
  wf_random :: "nat \<Rightarrow> 'w \<Rightarrow> bytes option \<times> 'w"  \<comment> \<open>BCryptGenRandom\<close>
  wf_stack :: bytes                  \<comment> \<open>what a buffer nobody filled holds\<close>

definition GENERIC_READ :: int where "GENERIC_READ = 0x80000000"
definition GENERIC_WRITE :: int where "GENERIC_WRITE = 0x40000000"
definition DELETE_ACCESS :: int where "DELETE_ACCESS = 0x10000"
definition SYNCHRONIZE :: int where "SYNCHRONIZE = 0x100000"
definition FILE_READ_ATTRIBUTES :: int where "FILE_READ_ATTRIBUTES = 0x80"
definition FILE_WRITE_ATTRIBUTES :: int where "FILE_WRITE_ATTRIBUTES = 0x100"
definition CREATE_NEW :: int where "CREATE_NEW = 1"
definition OPEN_EXISTING :: int where "OPEN_EXISTING = 3"
definition OPEN_ALWAYS :: int where "OPEN_ALWAYS = 4"
definition FILE_FLAG_BACKUP_SEMANTICS :: int where "FILE_FLAG_BACKUP_SEMANTICS = 0x2000000"
definition FILE_FLAG_OPEN_REPARSE_POINT :: int where "FILE_FLAG_OPEN_REPARSE_POINT = 0x200000"
definition FILE_FLAG_WRITE_THROUGH :: int where "FILE_FLAG_WRITE_THROUGH = 0x80000000"
definition FILE_ATTRIBUTE_READONLY :: int where "FILE_ATTRIBUTE_READONLY = 1"
definition FILE_ATTRIBUTE_DIRECTORY :: int where "FILE_ATTRIBUTE_DIRECTORY = 0x10"
definition FILE_ATTRIBUTE_NORMAL :: int where "FILE_ATTRIBUTE_NORMAL = 0x80"
definition FILE_ATTRIBUTE_REPARSE_POINT :: int where "FILE_ATTRIBUTE_REPARSE_POINT = 0x400"
definition FILE_TYPE_CHAR :: int where "FILE_TYPE_CHAR = 2"
definition FILE_TYPE_PIPE :: int where "FILE_TYPE_PIPE = 3"
definition IO_REPARSE_TAG_SYMLINK :: int where "IO_REPARSE_TAG_SYMLINK = 0xA000000C"
definition FILE_READ_ONLY_VOLUME :: int where "FILE_READ_ONLY_VOLUME = 0x80000"
definition SYMBOLIC_LINK_FLAG_DIRECTORY :: int where "SYMBOLIC_LINK_FLAG_DIRECTORY = 1"
definition SYMBOLIC_LINK_FLAG_ALLOW_UNPRIVILEGED_CREATE :: int where
  "SYMBOLIC_LINK_FLAG_ALLOW_UNPRIVILEGED_CREATE = 2"

definition has_attr :: "int \<Rightarrow> int \<Rightarrow> bool" where "has_attr attrs a \<longleftrightarrow> attrs AND a \<noteq> 0"
definition is_directory :: "int \<Rightarrow> bool" where "is_directory attrs \<longleftrightarrow> has_attr attrs FILE_ATTRIBUTE_DIRECTORY"
definition read_only :: "int \<Rightarrow> bool" where "read_only attrs \<longleftrightarrow> has_attr attrs FILE_ATTRIBUTE_READONLY"

definition win_errno :: "'w win_fs \<Rightarrow> int \<Rightarrow> int" where "win_errno fs win = sppc_errno_win32 (wf_os fs) win"

text \<open>Whether a win32 error is the one a macro names.\<close>

definition is_error :: "'w win_fs \<Rightarrow> int \<Rightarrow> string \<Rightarrow> bool" where
  "is_error fs win name \<longleftrightarrow> wf_os fs name = Some win"

section \<open>Paths\<close>

definition WIN_PATH_MAX :: nat where "WIN_PATH_MAX = 260"

definition win_wpath :: "'w win_fs \<Rightarrow> bytes \<Rightarrow> int + wide" where
  "win_wpath fs path =
     (if path = [] then Inl SPPC_ENOENT
      else case wf_wide fs path of
        None \<Rightarrow> Inl SPPC_EILSEQ
      | Some w \<Rightarrow> if \<not> wf_mem fs ((length w + 1) * 2) then Inl SPPC_ENOMEM else Inr w)"

text \<open>The error, and what the buffer then holds (nothing was put in it if None).\<close>

definition win_utf8_path :: "'w win_fs \<Rightarrow> wide \<Rightarrow> nat \<Rightarrow> int \<Rightarrow> int \<times> bytes option" where
  "win_utf8_path fs w sz too_long =
     (let unc = (take 8 w = [92, 92, 63, 92, 85, 78, 67, 92]);
          name = (if unc then drop 8 w else if take 4 w = [92, 92, 63, 92] then drop 4 w else w);
          empty = (if sz > 0 then Some [] else None)
      in case wf_utf8 fs name of
           None \<Rightarrow> (SPPC_EILSEQ, empty)
         | Some bs \<Rightarrow>
             if length bs + 1 + (if unc then 2 else 0) > sz then (too_long, empty)
             else (0, Some ((if unc then [92, 92] else []) @ bs)))"

definition win_is_sep :: "u16 \<Rightarrow> bool" where "win_is_sep c \<longleftrightarrow> c = 92 \<or> c = 47"

text \<open>A path up to its last component: its separators, the component, and the separators before it off its end.\<close>

definition path_above :: "wide \<Rightarrow> wide" where
  "path_above p = rev (dropWhile win_is_sep (dropWhile (\<lambda>c. \<not> win_is_sep c) (dropWhile win_is_sep (rev p))))"

lemma drop_component:
  assumes "p \<noteq> []"
  shows "length (dropWhile win_is_sep (dropWhile (\<lambda>c. \<not> win_is_sep c) (dropWhile win_is_sep p))) < length p"
proof (cases p)
  case (Cons c cs)
  have le: "length (dropWhile P xs) \<le> length xs" for P and xs :: wide by (rule length_dropWhile_le)
  show ?thesis
  proof (cases "win_is_sep c")
    case True
    have "length (dropWhile win_is_sep (dropWhile (\<lambda>c. \<not> win_is_sep c) (dropWhile win_is_sep cs))) \<le> length cs"
      using le by (meson le_trans)
    then show ?thesis using Cons True by simp
  next
    case False
    have "length (dropWhile win_is_sep (dropWhile (\<lambda>c. \<not> win_is_sep c) cs)) \<le> length cs"
      using le by (meson le_trans)
    then show ?thesis using Cons False by simp
  qed
qed (use assms in simp)

lemma path_above_shorter: "p \<noteq> [] \<Longrightarrow> length (path_above p) < length p"
  using drop_component [of "rev p"] by (simp add: path_above_def)

function errno_walk :: "'w win_fs \<Rightarrow> wide \<Rightarrow> int \<Rightarrow> 'w \<Rightarrow> int" where
  "errno_walk fs p e w =
     (let q = path_above p in
      if p = [] \<or> q = [] \<or> (length q = 2 \<and> q ! 1 = 58) then e
      else case wf_attrs fs q w of
        Inr attrs \<Rightarrow> if \<not> is_directory attrs then SPPC_ENOTDIR else e
      | Inl _ \<Rightarrow> errno_walk fs q e w)"
  by pat_completeness auto
termination by (relation "measure (\<lambda>(fs, p, e, w). length p)") (auto intro: path_above_shorter)

declare errno_walk.simps [simp del]

definition win_path_errno :: "'w win_fs \<Rightarrow> wide \<Rightarrow> int \<Rightarrow> 'w \<Rightarrow> int" where
  "win_path_errno fs p err w =
     (let e = win_errno fs err in
      if e \<noteq> SPPC_ENOENT \<or> \<not> wf_mem fs ((length p + 1) * 2) then e else errno_walk fs p e w)"

definition win_open :: "'w win_fs \<Rightarrow> wide \<Rightarrow> int \<Rightarrow> bool \<Rightarrow> 'w \<Rightarrow> (int + nat) \<times> 'w" where
  "win_open fs p access follow w =
     wf_create fs p access OPEN_EXISTING
       (FILE_FLAG_BACKUP_SEMANTICS OR (if follow then 0 else FILE_FLAG_OPEN_REPARSE_POINT)) w"

definition win_is_link :: "'w win_fs \<Rightarrow> nat \<Rightarrow> 'w \<Rightarrow> bool" where
  "win_is_link fs h w =
     (case wf_tag fs h w of
        None \<Rightarrow> False
      | Some (attrs, tag) \<Rightarrow> has_attr attrs FILE_ATTRIBUTE_REPARSE_POINT \<and> tag = IO_REPARSE_TAG_SYMLINK)"

definition MAXIMUM_REPARSE_DATA_BUFFER_SIZE :: nat where "MAXIMUM_REPARSE_DATA_BUFFER_SIZE = 16384"

definition win_link_target :: "'w win_fs \<Rightarrow> nat \<Rightarrow> 'w \<Rightarrow> int + wide" where
  "win_link_target fs h w =
     (if \<not> wf_mem fs MAXIMUM_REPARSE_DATA_BUFFER_SIZE then Inl SPPC_ENOMEM
      else case wf_reparse fs h w of
        Inl win \<Rightarrow> Inl (if is_error fs win ''ERROR_NOT_A_REPARSE_POINT'' then SPPC_EINVAL else win_errno fs win)
      | Inr d \<Rightarrow>
          if rp_tag d \<noteq> IO_REPARSE_TAG_SYMLINK then Inl SPPC_EINVAL
          else let (offset, len) = (if snd (rp_print d) = 0 then rp_substitute d else rp_print d);
                   given = take (len div 2) (drop (offset div 2) (rp_names d));
                   name = (if take 4 given = [92, 63, 63, 92] then drop 4 given else given)
               in if \<not> wf_mem fs ((length name + 1) * 2) then Inl SPPC_ENOMEM else Inr name)"

section \<open>Calls on a path and on a handle of it\<close>

text \<open>A call on a path: the error of a path that cannot be had, else the call.\<close>

definition on_path :: "'w win_fs \<Rightarrow> bytes \<Rightarrow> (wide \<Rightarrow> 'w \<Rightarrow> int \<times> 'w) \<Rightarrow> 'w \<Rightarrow> int \<times> 'w" where
  "on_path fs path act w = (case win_wpath fs path of Inl bad \<Rightarrow> (bad, w) | Inr p \<Rightarrow> act p w)"

definition on_paths :: "'w win_fs \<Rightarrow> bytes \<Rightarrow> bytes \<Rightarrow> (wide \<Rightarrow> wide \<Rightarrow> 'w \<Rightarrow> int \<times> 'w) \<Rightarrow> 'w \<Rightarrow> int \<times> 'w" where
  "on_paths fs a b act w = on_path fs a (\<lambda>p. on_path fs b (\<lambda>q. act p q)) w"

text \<open>A call on a handle opened for it and closed after it.\<close>

definition on_handle :: "'w win_fs \<Rightarrow> wide \<Rightarrow> int \<Rightarrow> bool \<Rightarrow> (nat \<Rightarrow> 'w \<Rightarrow> int \<times> 'w) \<Rightarrow> 'w \<Rightarrow> int \<times> 'w" where
  "on_handle fs p access follow act w =
     (case win_open fs p access follow w of
        (Inl win, w1) \<Rightarrow> (win_path_errno fs p win w1, w1)
      | (Inr h, w1) \<Rightarrow> (case act h w1 of (err, w2) \<Rightarrow> (err, wf_close fs h w2)))"

text \<open>A change, with the error of its path or of its own.\<close>

definition change_at :: "'w win_fs \<Rightarrow> wide \<Rightarrow> fs_change \<Rightarrow> 'w \<Rightarrow> int \<times> 'w" where
  "change_at fs p c w = (case wf_change fs c w of (win, w1) \<Rightarrow> (if win = 0 then 0 else win_path_errno fs p win w1, w1))"

definition change :: "'w win_fs \<Rightarrow> fs_change \<Rightarrow> 'w \<Rightarrow> int \<times> 'w" where
  "change fs c w = (case wf_change fs c w of (win, w1) \<Rightarrow> (if win = 0 then 0 else win_errno fs win, w1))"

section \<open>Metadata\<close>

definition win_timespec :: "int \<Rightarrow> sppc_timespec" where
  "win_timespec ticks =
     (let since = ticks - uint WIN_EPOCH_TICKS in
      \<lparr>ts_sec = (if since < 0 then 0 else word_of_int (since div 10000000)),
       ts_nsec = (if since < 0 then 0 else word_of_int (since mod 10000000) * 100)\<rparr>)"

definition win_is_program :: "'w win_fs \<Rightarrow> wide \<Rightarrow> bool" where
  "win_is_program fs name =
     (let len = length name in
      \<not> (len < 4 \<or> name ! (len - 4) \<noteq> 46) \<and>
      map (wf_lower fs) (drop (len - 3) name) \<in> {[101, 120, 101], [98, 97, 116], [99, 109, 100], [99, 111, 109]})"

definition zero_timespec :: sppc_timespec where "zero_timespec = \<lparr>ts_sec = 0, ts_nsec = 0\<rparr>"

text \<open>As the first lines leave it, whatever the handle is of.\<close>

definition stat_start :: sppc_stat where
  "stat_start = \<lparr>st_dev = 0, st_ino = 0, st_nlink = 1, st_rdev = 0, st_size = 0, st_block_size = 4096, st_blocks = 0,
     st_atim = zero_timespec, st_mtim = zero_timespec, st_ctim = zero_timespec, st_mode = 0, st_uid = 0, st_gid = 0\<rparr>"

text \<open>The mode of a file or directory, by its attributes and, if it is short enough, its final name.\<close>

definition stat_mode :: "'w win_fs \<Rightarrow> int \<Rightarrow> int + wide \<Rightarrow> int" where
  "stat_mode fs attrs name =
     (if is_directory attrs then SPPC_S_IFDIR OR (if read_only attrs then 365 else 511)
      else (SPPC_S_IFREG OR (if read_only attrs then 292 else 438)) OR
        (case name of
           Inr n \<Rightarrow> if 0 < length n \<and> length n < 1024 \<and> win_is_program fs n then 73 else 0
         | Inl _ \<Rightarrow> 0))"

definition win_stat_handle :: "'w win_fs \<Rightarrow> nat \<Rightarrow> bool \<Rightarrow> 'w \<Rightarrow> int \<times> sppc_stat" where
  "win_stat_handle fs h link w =
     (if wf_type fs h w = FILE_TYPE_CHAR then (0, stat_start\<lparr>st_mode := SPPC_S_IFCHR OR 438\<rparr>)
      else if wf_type fs h w = FILE_TYPE_PIPE then (0, stat_start\<lparr>st_mode := SPPC_S_IFIFO OR 384\<rparr>)
      else case wf_info fs h w of
        Inl win \<Rightarrow> (win_errno fs win, stat_start)
      | Inr i \<Rightarrow>
          (let st = stat_start\<lparr>st_dev := ucast (in_volume i),
                 st_ino := push_bit 32 (ucast (in_index_high i)) OR ucast (in_index_low i),
                 st_nlink := ucast (in_links i),
                 st_size := sint (push_bit 32 (ucast (in_size_high i)) OR ucast (in_size_low i) :: u64),
                 st_blocks := in_allocated i div 512,
                 st_atim := win_timespec (in_access i), st_mtim := win_timespec (in_write i),
                 st_ctim := win_timespec (in_change i)\<rparr>
           in if link then
                (0, st\<lparr>st_mode := SPPC_S_IFLNK OR 511,
                  st_size := (case win_link_target fs h w of
                                Inl _ \<Rightarrow> st_size st
                              | Inr t \<Rightarrow> (case wf_utf8 fs t of Some bs \<Rightarrow> int (length bs) | None \<Rightarrow> 0))\<rparr>)
              else (0, st\<lparr>st_mode := stat_mode fs (in_attrs i) (wf_name fs h w)\<rparr>)))"

text \<open>The caller's struct is \<^verbatim>\<open>out\<close> until the handle is open.\<close>

definition win_stat_path :: "'w win_fs \<Rightarrow> bytes \<Rightarrow> bool \<Rightarrow> sppc_stat \<Rightarrow> 'w \<Rightarrow> (int \<times> sppc_stat) \<times> 'w" where
  "win_stat_path fs path follow out w =
     (case win_wpath fs path of
        Inl bad \<Rightarrow> ((bad, out), w)
      | Inr p \<Rightarrow>
          (case win_open fs p FILE_READ_ATTRIBUTES follow w of
             (Inl win, w1) \<Rightarrow> ((win_path_errno fs p win w1, out), w1)
           | (Inr h, w1) \<Rightarrow> (win_stat_handle fs h (\<not> follow \<and> win_is_link fs h w1) w1, wf_close fs h w1)))"

definition sppc_stat_win :: "'w win_fs \<Rightarrow> bytes \<Rightarrow> sppc_stat \<Rightarrow> 'w \<Rightarrow> (int \<times> sppc_stat) \<times> 'w" where
  "sppc_stat_win fs path out w = win_stat_path fs path True out w"

definition sppc_lstat_win :: "'w win_fs \<Rightarrow> bytes \<Rightarrow> sppc_stat \<Rightarrow> 'w \<Rightarrow> (int \<times> sppc_stat) \<times> 'w" where
  "sppc_lstat_win fs path out w = win_stat_path fs path False out w"

definition sppc_fstat_win ::
  "'w win_fs \<Rightarrow> fd_env \<Rightarrow> int \<Rightarrow> sppc_stat \<Rightarrow> fd_table \<Rightarrow> 'w \<Rightarrow> (int \<times> sppc_stat) \<times> fd_table \<times> 'w" where
  "sppc_fstat_win fs e fd out =
     on_fd e fd (SPPC_EBADF, out) (\<lambda>o' w.
       (if od_kind o' = FdSocket then (0, stat_start\<lparr>st_mode := SPPC_S_IFSOCK OR 511\<rparr>)
        else win_stat_handle fs (od_handle o') False w, o', w))"

end
