(* ===== verification/WinFiles.thy ===== *)
theory WinFiles
  imports WinPaths Posix
begin

text \<open>
  Files and their names on Windows (platform/windows.h, FILES, up to the copies), over the calls of WinPaths: opening,
  lengths, names, permissions, temporary names.
\<close>

section \<open>Opening\<close>

definition WIN_OPEN_FLAGS :: int where
  "WIN_OPEN_FLAGS = SPPC_O_ACCMODE OR SPPC_O_CREAT OR SPPC_O_EXCL OR SPPC_O_NOCTTY OR SPPC_O_TRUNC OR SPPC_O_APPEND OR
     SPPC_O_NONBLOCK OR SPPC_O_SYNC OR SPPC_O_DSYNC OR SPPC_O_ASYNC OR SPPC_O_DIRECT OR SPPC_O_DIRECTORY OR
     SPPC_O_NOFOLLOW OR SPPC_O_NOATIME OR SPPC_O_CLOEXEC"

definition flag_set :: "int \<Rightarrow> int \<Rightarrow> bool" where "flag_set flags f \<longleftrightarrow> flags AND f \<noteq> 0"

text \<open>What the flags ask of the handle and of the descriptor: for reading, for writing, created, alone, emptied.\<close>

definition open_reads :: "int \<Rightarrow> bool" where "open_reads flags \<longleftrightarrow> flags AND SPPC_O_ACCMODE \<noteq> SPPC_O_WRONLY"
definition open_writes :: "int \<Rightarrow> bool" where "open_writes flags \<longleftrightarrow> flags AND SPPC_O_ACCMODE \<noteq> SPPC_O_RDONLY"
definition open_alone :: "int \<Rightarrow> bool" where "open_alone flags \<longleftrightarrow> flag_set flags SPPC_O_CREAT \<and> flag_set flags SPPC_O_EXCL"

definition open_access :: "int \<Rightarrow> int" where
  "open_access flags =
     (let a = (if open_reads flags then GENERIC_READ else 0) OR
              (if open_writes flags \<or> flag_set flags SPPC_O_TRUNC then GENERIC_WRITE else 0)
      in if a = 0 then FILE_READ_ATTRIBUTES else a)"

definition open_disposition :: "int \<Rightarrow> int" where
  "open_disposition flags =
     (if open_alone flags then CREATE_NEW else if flag_set flags SPPC_O_CREAT then OPEN_ALWAYS else OPEN_EXISTING)"

definition open_how :: "int \<Rightarrow> int \<Rightarrow> int" where
  "open_how flags mode =
     FILE_FLAG_BACKUP_SEMANTICS OR (if flag_set flags SPPC_O_NOFOLLOW then FILE_FLAG_OPEN_REPARSE_POINT else 0) OR
     (if flag_set flags (SPPC_O_SYNC OR SPPC_O_DSYNC) then FILE_FLAG_WRITE_THROUGH else 0) OR
     (if flag_set flags SPPC_O_CREAT \<and> mode AND SPPC_S_IWUSR = 0 then FILE_ATTRIBUTE_READONLY else FILE_ATTRIBUTE_NORMAL)"

text \<open>What is wrong with a handle opened, if anything; a file to be emptied is.\<close>

definition open_check :: "'w win_fs \<Rightarrow> int \<Rightarrow> nat \<Rightarrow> 'w \<Rightarrow> int \<times> 'w" where
  "open_check fs flags h w =
     (let dir = (case wf_info fs h w of Inr i \<Rightarrow> is_directory (in_attrs i) | Inl _ \<Rightarrow> False) in
      if flag_set flags SPPC_O_NOFOLLOW \<and> win_is_link fs h w then (SPPC_ELOOP, w)
      else if flag_set flags SPPC_O_DIRECTORY \<and> \<not> dir then (SPPC_ENOTDIR, w)
      else if flag_set flags SPPC_O_TRUNC \<and> \<not> dir then change fs (SetEnd h 0) w
      else (0, w))"

definition open_set :: "int \<Rightarrow> ofd \<Rightarrow> ofd" where
  "open_set flags o' = o'\<lparr>od_append := flag_set flags SPPC_O_APPEND, od_nonblock := flag_set flags SPPC_O_NONBLOCK\<rparr>"

definition sppc_open_win ::
  "'w win_fs \<Rightarrow> fd_env \<Rightarrow> bytes \<Rightarrow> int \<Rightarrow> int \<Rightarrow> fd_table \<Rightarrow> 'w \<Rightarrow> (int \<times> nat option) \<times> fd_table \<times> 'w" where
  "sppc_open_win fs e path flags mode t w =
     (if flags AND NOT WIN_OPEN_FLAGS \<noteq> 0 \<or> flags AND SPPC_O_ACCMODE = SPPC_O_ACCMODE \<or> mode AND NOT 4095 \<noteq> 0
      then ((SPPC_EINVAL, None), t, w)
      else case win_wpath fs path of
        Inl bad \<Rightarrow> ((bad, None), t, w)
      | Inr p \<Rightarrow>
          if (case wf_attrs fs p w of Inr a \<Rightarrow> is_directory a | Inl _ \<Rightarrow> False) \<and> \<not> open_alone flags \<and>
             (open_writes flags \<or> flag_set flags SPPC_O_TRUNC)
          then ((SPPC_EISDIR, None), t, w)
          else (case wf_create fs p (open_access flags) (open_disposition flags) (open_how flags mode) w of
                  (Inl win, w1) \<Rightarrow> ((win_path_errno fs p win w1, None), t, w1)
                | (Inr h, w1) \<Rightarrow>
                    (case open_check fs flags h w1 of
                       (err, w2) \<Rightarrow>
                         if err \<noteq> 0 then ((err, None), t, wf_close fs h w2)
                         else (case ofd_new e h ((if open_reads flags then FD_READ else 0) OR
                                                 (if open_writes flags then FD_WRITE else 0)) t of
                                 (None, t1) \<Rightarrow> ((SPPC_ENOMEM, None), t1, wf_close fs h w2)
                               | (Some i, t1) \<Rightarrow>
                                   (case fd_install e i 0 (flag_set flags SPPC_O_CLOEXEC)
                                           (t1\<lparr>ft_ofds := (ft_ofds t1)(i := map_option (open_set flags) (ft_ofds t1 i))\<rparr>) of
                                      (err2, out, t2) \<Rightarrow> ((err2, out), t2, w2))))))"

section \<open>The disk, and lengths\<close>

definition sppc_fsync_win :: "'w win_fs \<Rightarrow> fd_env \<Rightarrow> int \<Rightarrow> fd_table \<Rightarrow> 'w \<Rightarrow> int \<times> fd_table \<times> 'w" where
  "sppc_fsync_win fs e fd =
     on_fd e fd SPPC_EBADF (\<lambda>o' w.
       if \<not> od_disk o' then (SPPC_EINVAL, o', w)
       else if writes o' \<and> (case wf_info fs (od_handle o') w of Inr i \<Rightarrow> \<not> is_directory (in_attrs i) | Inl _ \<Rightarrow> False)
       then (case change fs (Flush (od_handle o')) w of (err, w1) \<Rightarrow> (err, o', w1))
       else (0, o', w))"

definition sppc_fdatasync_win :: "'w win_fs \<Rightarrow> fd_env \<Rightarrow> int \<Rightarrow> fd_table \<Rightarrow> 'w \<Rightarrow> int \<times> fd_table \<times> 'w" where
  "sppc_fdatasync_win fs e fd = sppc_fsync_win fs e fd"

definition win_set_length :: "'w win_fs \<Rightarrow> nat \<Rightarrow> int \<Rightarrow> 'w \<Rightarrow> int \<times> 'w" where
  "win_set_length fs h len w = change fs (SetEnd h len) w"

definition sppc_truncate_win :: "'w win_fs \<Rightarrow> bytes \<Rightarrow> int \<Rightarrow> 'w \<Rightarrow> int \<times> 'w" where
  "sppc_truncate_win fs path len w =
     (if len < 0 then (SPPC_EINVAL, w)
      else on_path fs path (\<lambda>p w.
        if (case wf_attrs fs p w of Inr a \<Rightarrow> is_directory a | Inl _ \<Rightarrow> False) then (SPPC_EISDIR, w)
        else on_handle fs p GENERIC_WRITE True (\<lambda>h. win_set_length fs h len) w) w)"

definition sppc_ftruncate_win :: "'w win_fs \<Rightarrow> fd_env \<Rightarrow> int \<Rightarrow> int \<Rightarrow> fd_table \<Rightarrow> 'w \<Rightarrow> int \<times> fd_table \<times> 'w" where
  "sppc_ftruncate_win fs e fd len =
     on_fd e fd SPPC_EBADF (\<lambda>o' w.
       if len < 0 \<or> \<not> od_disk o' then (SPPC_EINVAL, o', w)
       else if \<not> writes o' then (SPPC_EBADF, o', w)
       else (case win_set_length fs (od_handle o') len w of (err, w1) \<Rightarrow> (err, o', w1)))"

section \<open>Where a path leads\<close>

text \<open>The error, and the answer: 0 only if there is no error.\<close>

definition sppc_access_win :: "'w win_fs \<Rightarrow> bytes \<Rightarrow> int \<Rightarrow> 'w \<Rightarrow> (int \<times> int) \<times> 'w" where
  "sppc_access_win fs path flags w =
     (if flags AND NOT (SPPC_R_OK OR SPPC_W_OK OR SPPC_X_OK) \<noteq> 0 then ((SPPC_EINVAL, - 1), w)
      else case on_path fs path (\<lambda>p w.
        case wf_attrs fs p w of
          Inl win \<Rightarrow> (win_path_errno fs p win w, w)
        | Inr a \<Rightarrow>
            (if (flag_set flags SPPC_X_OK \<and> \<not> is_directory a \<and> \<not> win_is_program fs p) \<or>
                (flag_set flags SPPC_W_OK \<and> \<not> is_directory a \<and> read_only a) then SPPC_EACCES else 0, w)) w of
        (err, w1) \<Rightarrow> ((err, if err = 0 then 0 else - 1), w1))"

definition sppc_getcwd_win :: "'w win_fs \<Rightarrow> nat \<Rightarrow> 'w \<Rightarrow> (int \<times> bytes option) \<times> 'w" where
  "sppc_getcwd_win fs sz w =
     (if sz = 0 then ((SPPC_EINVAL, None), w)
      else case win_open fs [46] FILE_READ_ATTRIBUTES True w of
        (Inl win, w1) \<Rightarrow> ((win_errno fs win, None), w1)
      | (Inr h, w1) \<Rightarrow>
          (case wf_name fs h w1 of
             Inl win \<Rightarrow> (win_errno fs win, None)
           | Inr n \<Rightarrow> if \<not> wf_mem fs ((length n + 1) * 2) then (SPPC_ENOMEM, None) else win_utf8_path fs n sz SPPC_ERANGE,
           wf_close fs h w1))"

definition sppc_chdir_win :: "'w win_fs \<Rightarrow> bytes \<Rightarrow> 'w \<Rightarrow> int \<times> 'w" where
  "sppc_chdir_win fs path w = on_path fs path (\<lambda>p. change_at fs p (ChangeDirectory p)) w"

definition sppc_realpath_win :: "'w win_fs \<Rightarrow> bytes \<Rightarrow> 'w \<Rightarrow> (int \<times> bytes option) \<times> 'w" where
  "sppc_realpath_win fs path w =
     (case win_wpath fs path of
        Inl bad \<Rightarrow> ((bad, None), w)
      | Inr p \<Rightarrow>
          (case win_open fs p FILE_READ_ATTRIBUTES True w of
             (Inl win, w1) \<Rightarrow> ((win_path_errno fs p win w1, None), w1)
           | (Inr h, w1) \<Rightarrow>
               (case wf_name fs h w1 of
                  Inl win \<Rightarrow> (win_errno fs win, None)
                | Inr n \<Rightarrow> if length n \<ge> WIN_PATH_MAX + 8 then (SPPC_ENAMETOOLONG, None)
                           else win_utf8_path fs n WIN_PATH_MAX SPPC_ENAMETOOLONG,
                wf_close fs h w1)))"

section \<open>Names\<close>

definition sppc_mkdir_win :: "'w win_fs \<Rightarrow> bytes \<Rightarrow> int \<Rightarrow> 'w \<Rightarrow> int \<times> 'w" where
  "sppc_mkdir_win fs path mode w =
     (if mode AND NOT 4095 \<noteq> 0 then (SPPC_EINVAL, w) else on_path fs path (\<lambda>p. change_at fs p (MakeDirectory p)) w)"

definition sppc_rmdir_win :: "'w win_fs \<Rightarrow> bytes \<Rightarrow> 'w \<Rightarrow> int \<times> 'w" where
  "sppc_rmdir_win fs path w =
     on_path fs path (\<lambda>p w.
       case wf_attrs fs p w of
         Inl win \<Rightarrow> (win_path_errno fs p win w, w)
       | Inr a \<Rightarrow>
           if \<not> is_directory a \<or> has_attr a FILE_ATTRIBUTE_REPARSE_POINT then (SPPC_ENOTDIR, w)
           else change_at fs p (RemoveDirectory p) w) w"

definition DISPOSITION_FLAGS :: int where "DISPOSITION_FLAGS = 1 OR 2 OR 0x10"

text \<open>A handle's file deleted: POSIX's way, or the older one, a read-only file made writable first.\<close>

definition win_delete :: "'w win_fs \<Rightarrow> wide \<Rightarrow> int \<Rightarrow> nat \<Rightarrow> 'w \<Rightarrow> int \<times> 'w" where
  "win_delete fs p a h w =
     (case wf_change fs (DeletePosix h DISPOSITION_FLAGS) w of
        (win, w1) \<Rightarrow>
          if win = 0 then (0, w1)
          else change fs (DeleteAtClose h)
                 (if read_only a then snd (wf_change fs (SetAttributes p (a AND NOT FILE_ATTRIBUTE_READONLY)) w1) else w1))"

definition sppc_unlink_win :: "'w win_fs \<Rightarrow> bytes \<Rightarrow> 'w \<Rightarrow> int \<times> 'w" where
  "sppc_unlink_win fs path w =
     on_path fs path (\<lambda>p w.
       case wf_attrs fs p w of
         Inl win \<Rightarrow> (win_path_errno fs p win w, w)
       | Inr a \<Rightarrow>
           if is_directory a \<and> \<not> has_attr a FILE_ATTRIBUTE_REPARSE_POINT then (SPPC_EISDIR, w)
           else on_handle fs p (DELETE_ACCESS OR FILE_READ_ATTRIBUTES OR FILE_WRITE_ATTRIBUTES) False
                  (\<lambda>h. win_delete fs p a h) w) w"

definition RENAME_FLAGS :: int where "RENAME_FLAGS = 1 OR 2 OR 0x40"

text \<open>The error, 0 if it is renamed. The struct has so many bytes before the name and its room.\<close>

definition RENAME_INFO_SIZE :: nat where "RENAME_INFO_SIZE = 24"

definition win_rename_posix :: "'w win_fs \<Rightarrow> wide \<Rightarrow> wide \<Rightarrow> 'w \<Rightarrow> int \<times> 'w" where
  "win_rename_posix fs old new w =
     (case wf_full fs new w of
        Inl win \<Rightarrow> (win, w)
      | Inr full \<Rightarrow>
          if \<not> wf_mem fs (RENAME_INFO_SIZE + (length full + 1) * 2) then (ERROR_NOT_ENOUGH_MEMORY, w)
          else (case win_open fs old (DELETE_ACCESS OR SYNCHRONIZE) False w of
                  (Inl win, w1) \<Rightarrow> (win, w1)
                | (Inr h, w1) \<Rightarrow>
                    (case wf_change fs (RenamePosix h RENAME_FLAGS full) w1 of
                       (win, w2) \<Rightarrow> (win, wf_close fs h w2))))"

text \<open>
  What stands at the new name: refused, or, an empty directory, out of the way. The attributes of both names are read
  before the last error is: when there is nothing at either, it is the second's.
\<close>

definition rename_clear :: "'w win_fs \<Rightarrow> wide \<Rightarrow> wide \<Rightarrow> 'w \<Rightarrow> int \<times> 'w" where
  "rename_clear fs old new w =
     (case wf_attrs fs old w of
        Inl win \<Rightarrow> (win_path_errno fs old (case wf_attrs fs new w of Inl win2 \<Rightarrow> win2 | Inr _ \<Rightarrow> win) w, w)
      | Inr src \<Rightarrow>
          (case wf_attrs fs new w of
             Inl _ \<Rightarrow> (0, w)
           | Inr dst \<Rightarrow>
               if is_directory dst \<and> \<not> is_directory src then (SPPC_EISDIR, w)
               else if is_directory src \<and> \<not> is_directory dst then (SPPC_ENOTDIR, w)
               else if is_directory dst then
                 (case wf_change fs (RemoveDirectory new) w of
                    (win, w1) \<Rightarrow>
                      (if win = 0 then 0
                       else if is_error fs win ''ERROR_DIR_NOT_EMPTY'' then SPPC_ENOTEMPTY else win_errno fs win, w1))
               else (0, w)))"

definition rename_fallback :: "'w win_fs \<Rightarrow> wide \<Rightarrow> wide \<Rightarrow> int + int \<Rightarrow> 'w \<Rightarrow> int \<times> 'w" where
  "rename_fallback fs old new dst w =
     wf_change fs (MoveReplacing old new)
       (case dst of
          Inl _ \<Rightarrow> w
        | Inr a \<Rightarrow> if \<not> is_directory a \<and> read_only a
                   then snd (wf_change fs (SetAttributes new (a AND NOT FILE_ATTRIBUTE_READONLY)) w) else w)"

definition win_rename :: "'w win_fs \<Rightarrow> wide \<Rightarrow> wide \<Rightarrow> 'w \<Rightarrow> int \<times> 'w" where
  "win_rename fs old new w =
     (let dst = wf_attrs fs new w in
      case rename_clear fs old new w of
        (err, w1) \<Rightarrow>
          if err \<noteq> 0 then (err, w1)
          else (case win_rename_posix fs old new w1 of
                  (win, w2) \<Rightarrow>
                    if win = 0 then (0, w2)
                    else if is_error fs win ''ERROR_INVALID_PARAMETER'' \<or> is_error fs win ''ERROR_NOT_SUPPORTED'' \<or>
                            is_error fs win ''ERROR_INVALID_FUNCTION'' then
                      (case rename_fallback fs old new dst w2 of
                         (win2, w3) \<Rightarrow> (if win2 = 0 then 0 else win_path_errno fs new win2 w3, w3))
                    else (win_path_errno fs new win w2, w2)))"

definition sppc_rename_win :: "'w win_fs \<Rightarrow> bytes \<Rightarrow> bytes \<Rightarrow> 'w \<Rightarrow> int \<times> 'w" where
  "sppc_rename_win fs old new w = on_paths fs old new (win_rename fs) w"

definition sppc_link_win :: "'w win_fs \<Rightarrow> bytes \<Rightarrow> bytes \<Rightarrow> 'w \<Rightarrow> int \<times> 'w" where
  "sppc_link_win fs target linkpath w =
     on_paths fs target linkpath (\<lambda>p q w.
       case wf_attrs fs p w of
         Inl win \<Rightarrow> (win_path_errno fs p win w, w)
       | Inr a \<Rightarrow> if is_directory a then (SPPC_EPERM, w) else change_at fs q (HardLink q p) w) w"

definition backslashes :: "wide \<Rightarrow> wide" where "backslashes p = map (\<lambda>c. if c = 47 then 92 else c) p"

text \<open>Whether a link's target is a directory, from where the link will be.\<close>

definition link_kind :: "'w win_fs \<Rightarrow> wide \<Rightarrow> wide \<Rightarrow> 'w \<Rightarrow> int" where
  "link_kind fs target linkpath w =
     (let dir = rev (dropWhile (\<lambda>c. \<not> win_is_sep c) (rev linkpath));
          absolute = win_is_sep (target ! 0) \<or> (1 < length target \<and> target ! 1 = 58);
          attrs = (if absolute then wf_attrs fs target w
                   else if \<not> wf_mem fs ((length dir + length target + 1) * 2) then Inl 0
                   else wf_attrs fs (dir @ target) w)
      in case attrs of Inr a \<Rightarrow> if is_directory a then SYMBOLIC_LINK_FLAG_DIRECTORY else 0 | Inl _ \<Rightarrow> 0)"

definition win_symlink :: "'w win_fs \<Rightarrow> wide \<Rightarrow> wide \<Rightarrow> 'w \<Rightarrow> int \<times> 'w" where
  "win_symlink fs given q w =
     (let p = backslashes given; kind = link_kind fs p q w in
      case wf_change fs (SymbolicLink q p (kind OR SYMBOLIC_LINK_FLAG_ALLOW_UNPRIVILEGED_CREATE)) w of
        (win, w1) \<Rightarrow>
          if win = 0 then (0, w1)
          else if is_error fs win ''ERROR_INVALID_PARAMETER'' then change_at fs q (SymbolicLink q p kind) w1
          else (win_path_errno fs q win w1, w1))"

definition sppc_symlink_win :: "'w win_fs \<Rightarrow> bytes \<Rightarrow> bytes \<Rightarrow> 'w \<Rightarrow> int \<times> 'w" where
  "sppc_symlink_win fs target linkpath w = on_paths fs target linkpath (win_symlink fs) w"

definition sppc_readlink_win :: "'w win_fs \<Rightarrow> bytes \<Rightarrow> nat \<Rightarrow> 'w \<Rightarrow> (int \<times> bytes option) \<times> 'w" where
  "sppc_readlink_win fs path sz w =
     (if sz = 0 then ((SPPC_ERANGE, None), w)
      else case win_wpath fs path of
        Inl bad \<Rightarrow> ((bad, None), w)
      | Inr p \<Rightarrow>
          (case win_open fs p FILE_READ_ATTRIBUTES False w of
             (Inl win, w1) \<Rightarrow> ((win_path_errno fs p win w1, None), w1)
           | (Inr h, w1) \<Rightarrow>
               (case win_link_target fs h w1 of
                  Inl err \<Rightarrow> (err, None)
                | Inr target \<Rightarrow>
                    (case wf_utf8 fs target of
                       None \<Rightarrow> (SPPC_EILSEQ, Some [])
                     | Some bs \<Rightarrow> if length bs + 1 > sz then (SPPC_ERANGE, Some []) else (0, Some bs)),
                wf_close fs h w1)))"

section \<open>Permissions, owners, times, the file system\<close>

definition chmod_attrs :: "int \<Rightarrow> int \<Rightarrow> int" where
  "chmod_attrs mode was =
     (let a = (if mode AND SPPC_S_IWUSR \<noteq> 0 then was AND NOT FILE_ATTRIBUTE_READONLY else was OR FILE_ATTRIBUTE_READONLY)
      in if a = 0 then FILE_ATTRIBUTE_NORMAL else a)"

definition sppc_chmod_win :: "'w win_fs \<Rightarrow> bytes \<Rightarrow> int \<Rightarrow> 'w \<Rightarrow> int \<times> 'w" where
  "sppc_chmod_win fs path mode w =
     (if mode AND NOT 4095 \<noteq> 0 then (SPPC_EINVAL, w)
      else on_path fs path (\<lambda>p. on_handle fs p (FILE_READ_ATTRIBUTES OR FILE_WRITE_ATTRIBUTES) True (\<lambda>h w.
        case wf_info fs h w of
          Inl win \<Rightarrow> (win_errno fs win, w)
        | Inr i \<Rightarrow> if chmod_attrs mode (in_attrs i) \<noteq> in_attrs i
                   then change fs (SetBasic h (chmod_attrs mode (in_attrs i))) w else (0, w))) w)"

definition win_chown :: "'w win_fs \<Rightarrow> bytes \<Rightarrow> u32 \<Rightarrow> u32 \<Rightarrow> bool \<Rightarrow> 'w \<Rightarrow> int \<times> 'w" where
  "win_chown fs path owner grp follow w =
     (case win_stat_path fs path follow stat_start w of
        ((err, _), w1) \<Rightarrow>
          (if err \<noteq> 0 then err
           else if (owner = 0 \<or> owner = - 1) \<and> (grp = 0 \<or> grp = - 1) then 0 else SPPC_EPERM, w1))"

definition sppc_chown_win :: "'w win_fs \<Rightarrow> bytes \<Rightarrow> u32 \<Rightarrow> u32 \<Rightarrow> 'w \<Rightarrow> int \<times> 'w" where
  "sppc_chown_win fs path owner grp w = win_chown fs path owner grp True w"

definition sppc_lchown_win :: "'w win_fs \<Rightarrow> bytes \<Rightarrow> u32 \<Rightarrow> u32 \<Rightarrow> 'w \<Rightarrow> int \<times> 'w" where
  "sppc_lchown_win fs path owner grp w = win_chown fs path owner grp False w"

definition sppc_utimensat_win :: "'w win_fs \<Rightarrow> bytes \<Rightarrow> int \<Rightarrow> 'w \<Rightarrow> int \<times> 'w" where
  "sppc_utimensat_win fs path flags w =
     (if flags AND NOT SPPC_AT_SYMLINK_NOFOLLOW \<noteq> 0 then (SPPC_EINVAL, w)
      else on_path fs path (\<lambda>p. on_handle fs p FILE_WRITE_ATTRIBUTES (\<not> flag_set flags SPPC_AT_SYMLINK_NOFOLLOW)
        (\<lambda>h. change fs (SetTimes h))) w)"

definition sppc_statvfs_win :: "'w win_fs \<Rightarrow> bytes \<Rightarrow> sppc_statvfs \<Rightarrow> 'w \<Rightarrow> int \<times> sppc_statvfs" where
  "sppc_statvfs_win fs path out w =
     (case win_wpath fs path of
        Inl bad \<Rightarrow> (bad, out)
      | Inr p \<Rightarrow>
          (case wf_attrs fs p w of
             Inl win \<Rightarrow> (win_path_errno fs p win w, out)
           | Inr _ \<Rightarrow>
               (case wf_volume fs p w of
                  Inl win \<Rightarrow> (win_errno fs win, out)
                | Inr v \<Rightarrow>
                    (let block = ucast (vl_sectors v) * ucast (vl_bytes v) :: u64 in
                     (0, \<lparr>vf_block_size = block, vf_frag_size = block, vf_blocks = vl_total v div block,
                          vf_blocks_free = vl_free v div block, vf_blocks_available = vl_available v div block,
                          vf_files = 0, vf_files_free = 0, vf_files_available = 0, vf_fs_id = ucast (vl_serial v),
                          vf_flag = word_of_int (if has_attr (vl_flags v) FILE_READ_ONLY_VOLUME then SPPC_ST_RDONLY else 0),
                          vf_namemax = ucast (vl_longest v)\<rparr>)))))"

section \<open>Temporary names\<close>

function random_loop :: "'w win_fs \<Rightarrow> nat \<Rightarrow> 'w \<Rightarrow> (int \<times> bytes) \<times> 'w" where
  "random_loop fs left w =
     (if 0 < left then
        (case wf_random fs (min left (2 ^ 30)) w of
           (None, w1) \<Rightarrow> ((SPPC_EIO, []), w1)
         | (Some bs, w1) \<Rightarrow>
             (case random_loop fs (left - min left (2 ^ 30)) w1 of ((err, later), w2) \<Rightarrow> ((err, bs @ later), w2)))
      else ((0, []), w))"
  by pat_completeness auto
termination by (relation "measure (\<lambda>(fs, left, w). left)") auto

declare random_loop.simps [simp del]

definition sppc_getrandom_win :: "'w win_fs \<Rightarrow> u64 \<Rightarrow> 'w \<Rightarrow> (int \<times> bytes) \<times> 'w" where
  "sppc_getrandom_win fs sz w = random_loop fs (unat sz) w"

definition DIGITS :: string where
  "DIGITS = ''abcdefghijklmnopqrstuvwxyzABCDEFGHIJKLMNOPQRSTUVWXYZ0123456789''"

text \<open>The generator's answer is not looked at: without one the buffer holds what it held.\<close>

definition win_fill_template :: "'w win_fs \<Rightarrow> string \<Rightarrow> 'w \<Rightarrow> string \<times> 'w" where
  "win_fill_template fs path w =
     (case sppc_getrandom_win fs 6 w of
        ((err, bs), w1) \<Rightarrow>
          (take (length path - 6) path @
             map (\<lambda>b. DIGITS ! (unat b mod 62)) (if err = 0 then take 6 bs else bs @ drop (length bs) (take 6 (wf_stack fs))), w1))"

definition path_bytes :: "string \<Rightarrow> bytes" where "path_bytes path = map of_char path"

definition put_back :: "string \<Rightarrow> string" where "put_back path = take (length path - 6) path @ ''XXXXXX''"

text \<open>Up to so many tries at a name nobody has: the error, the descriptor, the name.\<close>

fun mktemp_loop ::
  "'w win_fs \<Rightarrow> fd_env \<Rightarrow> nat \<Rightarrow> string \<Rightarrow> fd_table \<Rightarrow> 'w \<Rightarrow> (int \<times> nat option \<times> string) \<times> fd_table \<times> 'w" where
  "mktemp_loop fs e 0 path t w = ((SPPC_EEXIST, None, path), t, w)"
| "mktemp_loop fs e (Suc tries) path t w =
     (case win_fill_template fs path w of
        (name, w1) \<Rightarrow>
          (case sppc_open_win fs e (path_bytes name) (SPPC_O_RDWR OR SPPC_O_CREAT OR SPPC_O_EXCL OR SPPC_O_CLOEXEC) 384 t w1 of
             ((err, fd), t1, w2) \<Rightarrow>
               if err = SPPC_EEXIST then mktemp_loop fs e tries name t1 w2 else ((err, fd, name), t1, w2)))"

definition sppc_mktemp_win ::
  "'w win_fs \<Rightarrow> fd_env \<Rightarrow> string \<Rightarrow> fd_table \<Rightarrow> 'w \<Rightarrow> (int \<times> nat option \<times> string) \<times> fd_table \<times> 'w" where
  "sppc_mktemp_win fs e path t w =
     (if \<not> sppc_is_temp_template path then ((SPPC_EINVAL, None, path), t, w)
      else case mktemp_loop fs e 100 path t w of
        ((err, fd, name), t1, w1) \<Rightarrow> ((err, fd, if err \<noteq> 0 then put_back name else name), t1, w1))"

fun mkdtemp_loop :: "'w win_fs \<Rightarrow> nat \<Rightarrow> string \<Rightarrow> 'w \<Rightarrow> (int \<times> string) \<times> 'w" where
  "mkdtemp_loop fs 0 path w = ((SPPC_EEXIST, path), w)"
| "mkdtemp_loop fs (Suc tries) path w =
     (case win_fill_template fs path w of
        (name, w1) \<Rightarrow>
          (case sppc_mkdir_win fs (path_bytes name) 448 w1 of
             (err, w2) \<Rightarrow> if err = SPPC_EEXIST then mkdtemp_loop fs tries name w2 else ((err, name), w2)))"

definition sppc_mktemp_dir_win :: "'w win_fs \<Rightarrow> string \<Rightarrow> 'w \<Rightarrow> (int \<times> string) \<times> 'w" where
  "sppc_mktemp_dir_win fs path w =
     (if \<not> sppc_is_temp_template path then ((SPPC_EINVAL, path), w)
      else case mkdtemp_loop fs 100 path w of
        ((err, name), w1) \<Rightarrow> ((err, if err \<noteq> 0 then put_back name else name), w1))"

section \<open>Handles\<close>

text \<open>
  What Windows documents of handles: an open gives one not open yet, a close closes it, nothing else opens or closes any.
\<close>

definition handle_laws :: "'w win_fs \<Rightarrow> ('w \<Rightarrow> nat set) \<Rightarrow> bool" where
  "handle_laws fs opened \<longleftrightarrow>
     (\<forall>p a d f w r w'. wf_create fs p a d f w = (r, w') \<longrightarrow>
        (case r of Inr h \<Rightarrow> h \<notin> opened w \<and> opened w' = insert h (opened w) | Inl _ \<Rightarrow> opened w' = opened w)) \<and>
     (\<forall>h w. opened (wf_close fs h w) = opened w - {h}) \<and>
     (\<forall>c w. opened (snd (wf_change fs c w)) = opened w) \<and>
     (\<forall>n w. opened (snd (wf_random fs n w)) = opened w)"

text \<open>A call leaves the handles that are open as they were.\<close>

definition leaves :: "('w \<Rightarrow> nat set) \<Rightarrow> ('w \<Rightarrow> 'r \<times> 'w) \<Rightarrow> bool" where
  "leaves opened act \<longleftrightarrow> (\<forall>w. opened (snd (act w)) = opened w)"

named_theorems leaves_intro

lemma leavesI: "(\<And>w. opened (snd (act w)) = opened w) \<Longrightarrow> leaves opened act"
  by (simp add: leaves_def)

lemma leavesD: "leaves opened act \<Longrightarrow> opened (snd (act w)) = opened w"
  by (simp add: leaves_def)

lemma law_close: "handle_laws fs opened \<Longrightarrow> opened (wf_close fs h w) = opened w - {h}"
  by (simp add: handle_laws_def)

lemma law_change: "handle_laws fs opened \<Longrightarrow> opened (snd (wf_change fs c w)) = opened w"
  by (simp add: handle_laws_def)

lemma law_random: "handle_laws fs opened \<Longrightarrow> opened (snd (wf_random fs n w)) = opened w"
  by (simp add: handle_laws_def)

lemma law_create:
  "handle_laws fs opened \<Longrightarrow> wf_create fs p a d f w = (r, w') \<Longrightarrow>
   (case r of Inr h \<Rightarrow> h \<notin> opened w \<and> opened w' = insert h (opened w) | Inl _ \<Rightarrow> opened w' = opened w)"
  unfolding handle_laws_def by (elim conjE allE impE) assumption

lemma law_opened:
  assumes "handle_laws fs opened" "win_open fs p access follow w = (Inr h, w')"
  shows "h \<notin> opened w" "opened w' = insert h (opened w)"
  using law_create [OF assms(1) assms(2) [unfolded win_open_def]] by simp_all

lemma law_not_opened:
  assumes "handle_laws fs opened" "win_open fs p access follow w = (Inl win, w')"
  shows "opened w' = opened w"
  using law_create [OF assms(1) assms(2) [unfolded win_open_def]] by simp

lemma law_opened_closed:
  assumes "handle_laws fs opened" "win_open fs p access follow w = (Inr h, w')" "opened w'' = opened w'"
  shows "opened (wf_close fs h w'') = opened w"
  using law_opened [OF assms(1,2)] law_close [OF assms(1), of h w''] assms(3) by simp

lemma leaves_path [leaves_intro]: "(\<And>p. leaves opened (act p)) \<Longrightarrow> leaves opened (on_path fs path act)"
  by (auto simp: leaves_def on_path_def split: sum.splits)

lemma leaves_paths [leaves_intro]: "(\<And>p q. leaves opened (act p q)) \<Longrightarrow> leaves opened (on_paths fs a b act)"
  unfolding on_paths_def [abs_def] by (intro leaves_path)

lemma leaves_handle [leaves_intro]:
  assumes laws: "handle_laws fs opened" and act: "\<And>h. leaves opened (act h)"
  shows "leaves opened (on_handle fs p access follow act)"
proof (rule leavesI)
  fix w
  obtain r w1 where o1: "win_open fs p access follow w = (r, w1)" by fastforce
  show "opened (snd (on_handle fs p access follow act w)) = opened w"
  proof (cases r)
    case (Inl win)
    then show ?thesis using law_not_opened [OF laws] o1 by (simp add: on_handle_def)
  next
    case (Inr h)
    obtain err w2 where a: "act h w1 = (err, w2)" by fastforce
    then have "opened w2 = opened w1" using leavesD [OF act, of h w1] by simp
    then show ?thesis using law_opened_closed [OF laws] o1 Inr a by (simp add: on_handle_def)
  qed
qed

lemma leaves_change_at [leaves_intro]: "handle_laws fs opened \<Longrightarrow> leaves opened (change_at fs p c)"
  using law_change [of fs opened c] by (auto simp: leaves_def change_at_def split_beta)

lemma leaves_change [leaves_intro]: "handle_laws fs opened \<Longrightarrow> leaves opened (change fs c)"
  using law_change [of fs opened c] by (auto simp: leaves_def change_def split_beta)

lemma leaves_const [leaves_intro]: "leaves opened (\<lambda>w. (f w, w))"
  by (simp add: leaves_def)

lemma leaves_if [leaves_intro]:
  "leaves opened a \<Longrightarrow> leaves opened b \<Longrightarrow> leaves opened (\<lambda>w. if P w then a w else b w)"
  by (simp add: leaves_def)

lemma leaves_sum [leaves_intro]:
  "(\<And>x. leaves opened (a x)) \<Longrightarrow> (\<And>y. leaves opened (b y)) \<Longrightarrow>
   leaves opened (\<lambda>w. case f w of Inl x \<Rightarrow> a x w | Inr y \<Rightarrow> b y w)"
  by (simp add: leaves_def split: sum.split)

lemma change_keeps: "handle_laws fs opened \<Longrightarrow> change fs c w = (r, w') \<Longrightarrow> opened w' = opened w"
  using leavesD [OF leaves_change, of fs opened c w] by simp

lemma wf_change_keeps: "handle_laws fs opened \<Longrightarrow> wf_change fs c w = (r, w') \<Longrightarrow> opened w' = opened w"
  using law_change [of fs opened c w] by simp

lemma leaves_delete [leaves_intro]:
  assumes laws: "handle_laws fs opened"
  shows "leaves opened (win_delete fs p a h)"
proof (rule leavesI)
  fix w
  obtain win w1 where d: "wf_change fs (DeletePosix h DISPOSITION_FLAGS) w = (win, w1)" by fastforce
  have "opened (snd (change fs c w')) = opened w'" for c w' using leavesD [OF leaves_change [OF laws]] .
  then show "opened (snd (win_delete fs p a h w)) = opened w"
    using wf_change_keeps [OF laws d] law_change [OF laws] by (auto simp: win_delete_def d)
qed

lemma rename_posix_keeps:
  assumes laws: "handle_laws fs opened" and res: "win_rename_posix fs old new w = (win, w')"
  shows "opened w' = opened w"
proof (cases "wf_full fs new w")
  case (Inl e)
  then show ?thesis using res by (simp add: win_rename_posix_def)
next
  case (Inr full)
  obtain r w1 where o1: "win_open fs old (DELETE_ACCESS OR SYNCHRONIZE) False w = (r, w1)" by fastforce
  show ?thesis
  proof (cases "wf_mem fs (RENAME_INFO_SIZE + (length full + 1) * 2)")
    case False
    then show ?thesis using res Inr by (simp add: win_rename_posix_def)
  next
    case True
    show ?thesis
    proof (cases r)
      case (Inl e)
      then show ?thesis using res Inr True o1 law_not_opened [OF laws] by (simp add: win_rename_posix_def)
    next
      case h: (Inr h)
      obtain x w2 where c: "wf_change fs (RenamePosix h RENAME_FLAGS full) w1 = (x, w2)" by fastforce
      have "w' = wf_close fs h w2" using res Inr True o1 h c by (simp add: win_rename_posix_def)
      then show ?thesis using law_opened_closed [OF laws _ wf_change_keeps [OF laws c]] o1 h by simp
    qed
  qed
qed

lemma rename_clear_keeps:
  assumes laws: "handle_laws fs opened"
  shows "opened (snd (rename_clear fs old new w)) = opened w"
  by (simp add: rename_clear_def split_beta law_change [OF laws] split: sum.split)

lemma rename_fallback_keeps:
  assumes laws: "handle_laws fs opened"
  shows "opened (snd (rename_fallback fs old new dst w)) = opened w"
  by (simp add: rename_fallback_def law_change [OF laws] split: sum.split)

lemma leaves_rename [leaves_intro]:
  assumes laws: "handle_laws fs opened"
  shows "leaves opened (win_rename fs old new)"
proof (rule leavesI)
  fix w
  obtain err w1 where a: "rename_clear fs old new w = (err, w1)" by fastforce
  obtain win w2 where b: "win_rename_posix fs old new w1 = (win, w2)" by fastforce
  obtain win2 w3 where c: "rename_fallback fs old new (wf_attrs fs new w) w2 = (win2, w3)" by fastforce
  show "opened (snd (win_rename fs old new w)) = opened w"
    using rename_clear_keeps [OF laws, of old new w] rename_posix_keeps [OF laws b]
      rename_fallback_keeps [OF laws, of old new "wf_attrs fs new w" w2]
    unfolding win_rename_def Let_def a prod.case by (simp add: b c)
qed

lemma leaves_symlink [leaves_intro]:
  assumes laws: "handle_laws fs opened"
  shows "leaves opened (win_symlink fs given q)"
proof (rule leavesI)
  fix w
  obtain win w1 where a: "wf_change fs (SymbolicLink q (backslashes given) (link_kind fs (backslashes given) q w OR
      SYMBOLIC_LINK_FLAG_ALLOW_UNPRIVILEGED_CREATE)) w = (win, w1)" by fastforce
  show "opened (snd (win_symlink fs given q w)) = opened w"
    using wf_change_keeps [OF laws a] leavesD [OF leaves_change_at [OF laws]]
    by (simp add: win_symlink_def Let_def a)
qed

lemma leaves_open_close:
  assumes laws: "handle_laws fs opened"
  shows "leaves opened (\<lambda>w. case win_open fs p access follow w of
           (Inl win, w1) \<Rightarrow> (f win w1, w1) | (Inr h, w1) \<Rightarrow> (g h w1, wf_close fs h w1))"
proof (rule leavesI)
  fix w
  obtain r w1 where o1: "win_open fs p access follow w = (r, w1)" by fastforce
  show "opened (snd (case win_open fs p access follow w of
           (Inl win, w1) \<Rightarrow> (f win w1, w1) | (Inr h, w1) \<Rightarrow> (g h w1, wf_close fs h w1))) = opened w"
    using o1 law_not_opened [OF laws] law_opened_closed [OF laws _ refl] by (cases r) simp_all
qed

lemma leaves_bad:
  "(\<And>p. leaves opened (act p)) \<Longrightarrow> leaves opened (\<lambda>w. case win_wpath fs path of Inl bad \<Rightarrow> (f bad, w) | Inr p \<Rightarrow> act p w)"
  by (auto simp: leaves_def split: sum.splits)

lemma leaves_stat: "handle_laws fs opened \<Longrightarrow> leaves opened (win_stat_path fs path follow out)"
  unfolding win_stat_path_def by (intro leaves_bad leaves_open_close)

lemma leaves_chown:
  assumes "handle_laws fs opened"
  shows "leaves opened (win_chown fs path owner grp follow)"
proof (rule leavesI)
  fix w
  show "opened (snd (win_chown fs path owner grp follow w)) = opened w"
    using leavesD [OF leaves_stat [OF assms], of path follow stat_start w]
    by (simp add: win_chown_def split_beta)
qed

lemma random_keeps: "handle_laws fs opened \<Longrightarrow> opened (snd (random_loop fs left w)) = opened w"
proof (induction fs left w rule: random_loop.induct)
  case (1 fs left w)
  obtain r w1 where a: "wf_random fs (min left (2 ^ 30)) w = (r, w1)" by fastforce
  have o1: "opened w1 = opened w" using law_random [OF "1.prems", of "min left (2 ^ 30)" w] a by simp
  show ?case
  proof (cases "0 < left \<and> (\<exists>bs. r = Some bs)")
    case True
    then obtain bs where r: "r = Some bs" "0 < left" by blast
    have "opened (snd (random_loop fs (left - min left (2 ^ 30)) w1)) = opened w1"
      using "1.IH" [OF r(2) a [symmetric] r(1) "1.prems"] .
    then show ?thesis using o1 a r by (simp add: random_loop.simps [of fs left w] split_beta)
  next
    case False
    then show ?thesis using o1 a by (cases r) (simp_all add: random_loop.simps [of fs left w] random_loop.simps [of fs 0 w])
  qed
qed

lemma fill_keeps:
  assumes "handle_laws fs opened"
  shows "opened (snd (win_fill_template fs path w)) = opened w"
proof -
  obtain err bs w1 where r: "sppc_getrandom_win fs 6 w = ((err, bs), w1)" by (metis surj_pair)
  then have "opened w1 = opened w" using random_keeps [OF assms, of "unat (6 :: u64)" w] unfolding sppc_getrandom_win_def by simp
  then show ?thesis unfolding win_fill_template_def r by simp
qed

lemma leaves_mkdir [leaves_intro]: "handle_laws fs opened \<Longrightarrow> leaves opened (sppc_mkdir_win fs path mode)"
  unfolding sppc_mkdir_win_def [abs_def] by (intro leaves_intro)

lemma mkdtemp_keeps:
  "handle_laws fs opened \<Longrightarrow> opened (snd (mkdtemp_loop fs tries path w)) = opened w"
proof (induction tries arbitrary: path w)
  case (Suc tries)
  obtain name w1 where a: "win_fill_template fs path w = (name, w1)" by fastforce
  obtain err w2 where b: "sppc_mkdir_win fs (path_bytes name) 448 w1 = (err, w2)" by fastforce
  show ?case using Suc fill_keeps [OF Suc.prems, of path w] leavesD [OF leaves_mkdir [OF Suc.prems], of "path_bytes name" 448 w1]
    by (simp add: a b)
qed simp

lemma leaves_mktemp_dir: "handle_laws fs opened \<Longrightarrow> leaves opened (sppc_mktemp_dir_win fs path)"
  using mkdtemp_keeps [of fs opened 100 path]
  by (intro leavesI) (simp add: sppc_mktemp_dir_win_def split_beta)

section \<open>Calls that make a descriptor\<close>

text \<open>
  What a call that may make a descriptor leaves: the one handle its new fd names, or none; what else it opened is closed,
  by the call or (\<^verbatim>\<open>shut\<close>) by the table that could not take it.
\<close>

definition shut_handles :: "(nat \<times> fd_kind \<times> nat) list \<Rightarrow> nat set" where
  "shut_handles shut = (\<lambda>(i, k, h). h) ` set shut"

definition fd_owns ::
  "('w \<Rightarrow> nat set) \<Rightarrow> fd_table \<Rightarrow> 'w \<Rightarrow> nat option \<Rightarrow> fd_table \<Rightarrow> 'w \<Rightarrow> bool" where
  "fd_owns opened t w out t' w' \<longleftrightarrow>
     (\<exists>shut new. ft_closed t' = ft_closed t @ shut \<and> opened w' = opened w \<union> new \<and> opened w \<inter> new = {} \<and>
        (case out of
           None \<Rightarrow> new = shut_handles shut
         | Some n \<Rightarrow> \<exists>i o'. slot_ofd t' n = Some i \<and> ft_ofds t' i = Some o' \<and> od_handle o' \<notin> shut_handles shut \<and>
             new = insert (od_handle o') (shut_handles shut)))"

lemma owns_nothing: "opened w' = opened w \<Longrightarrow> fd_owns opened t w None t w'"
  unfolding fd_owns_def by (rule exI [of _ "[]"], rule exI [of _ "{}"]) (simp add: shut_handles_def)

lemma owns_after:
  assumes "fd_owns opened t w None t1 w1" "fd_owns opened t1 w1 out t' w'"
  shows "fd_owns opened t w out t' w'"
proof -
  obtain shut1 new1 where 1: "ft_closed t1 = ft_closed t @ shut1" "opened w1 = opened w \<union> new1" "opened w \<inter> new1 = {}"
    "new1 = shut_handles shut1" using assms(1) by (auto simp: fd_owns_def)
  obtain shut2 new2 where 2: "ft_closed t' = ft_closed t1 @ shut2" "opened w' = opened w1 \<union> new2" "opened w1 \<inter> new2 = {}"
    and out: "case out of None \<Rightarrow> new2 = shut_handles shut2
      | Some n \<Rightarrow> \<exists>i o'. slot_ofd t' n = Some i \<and> ft_ofds t' i = Some o' \<and> od_handle o' \<notin> shut_handles shut2 \<and>
          new2 = insert (od_handle o') (shut_handles shut2)"
    using assms(2) unfolding fd_owns_def by blast
  have sh: "shut_handles (shut1 @ shut2) = shut_handles shut1 \<union> shut_handles shut2" by (simp add: shut_handles_def image_Un)
  show ?thesis unfolding fd_owns_def
  proof (intro exI conjI)
    show "ft_closed t' = ft_closed t @ (shut1 @ shut2)" using 1 2 by simp
    show "opened w' = opened w \<union> (new1 \<union> new2)" "opened w \<inter> (new1 \<union> new2) = {}" using 1 2 by auto
    show "case out of None \<Rightarrow> new1 \<union> new2 = shut_handles (shut1 @ shut2)
      | Some n \<Rightarrow> \<exists>i o'. slot_ofd t' n = Some i \<and> ft_ofds t' i = Some o' \<and> od_handle o' \<notin> shut_handles (shut1 @ shut2) \<and>
          new1 \<union> new2 = insert (od_handle o') (shut_handles (shut1 @ shut2))"
    proof (cases out)
      case None
      then show ?thesis using out 1(4) sh by simp
    next
      case (Some n)
      then obtain i o' where "slot_ofd t' n = Some i" "ft_ofds t' i = Some o'" "od_handle o' \<notin> shut_handles shut2"
        "new2 = insert (od_handle o') (shut_handles shut2)" using out by auto
      then show ?thesis using Some 1 2(3) sh by auto
    qed
  qed
qed

lemma install_owns:
  assumes ok: "table_ok pins t" "ft_up t" and h: "h \<notin> opened w" "opened w2 = insert h (opened w)"
    and mem: "fe_ofd e"
    and res: "(case ofd_new e h access t of
        (None, t1) \<Rightarrow> ((SPPC_ENOMEM, None), t1, wf_close fs h w2)
      | (Some i, t1) \<Rightarrow>
          (case fd_install e i 0 cloexec (t1\<lparr>ft_ofds := (ft_ofds t1)(i := map_option (open_set flags) (ft_ofds t1 i))\<rparr>) of
             (err2, out, t2) \<Rightarrow> ((err2, out), t2, w2))) = ((err, out), t', w')"
  shows "fd_owns opened t w out t' w' \<and> table_ok pins t' \<and> ft_up t' \<and> (out \<noteq> None \<longrightarrow> err = 0)"
proof -
  define i where "i = ft_next t"
  define o' where "o' = open_set flags \<lparr>od_refs = 1, od_kind = fd_kind_of e h, od_access = access, od_handle = h,
    od_disk = fe_disk e h, od_append = False, od_nonblock = False, od_reuseaddr = False, od_iocp = 0, od_pending = [],
    od_in = [], od_in_pos = 0\<rparr>"
  define t1 where "t1 = t\<lparr>ft_next := ft_next t + 1, ft_ofds := (ft_ofds t)(i \<mapsto> o')\<rparr>"
  have o': "od_refs o' = 1" "od_handle o' = h" by (simp_all add: o'_def open_set_def)
  have ins: "fd_install e i 0 cloexec t1 = (err, out, t')" "w' = w2"
    using res mem by (auto simp: ofd_new_def i_def [symmetric] o'_def [symmetric] t1_def split: prod.splits)
  have ok1: "table_ok (pins(i := 1)) t1" "ft_up t1" using fresh_ok [OF ok(1) o'(1)] ok(2) by (simp_all add: t1_def i_def)
  have zero: "pins i = 0"
    using table_ok_counted [OF ok(1), of i] table_okD(1) [OF ok(1)] by (auto simp: i_def counted_def total_def book_ok_def)
  then have same: "pins(i := 0) = pins" by auto
  have t1: "ft_ofds t1 i = Some o'" "ft_closed t1 = ft_closed t" by (simp_all add: t1_def)
  obtain err' out' t2 where l: "install_locked e i 0 cloexec t1 = (err', out', t2)" using prod_cases3 by blast
  note il = install_locked_ok [OF ok1, of i, OF _ l]
  show ?thesis
  proof (cases "err' = 0")
    case True
    then obtain n where "err = 0" "out = Some n" "t' = t2" "slot_ofd t2 n = Some i" "ft_ofds t2 i = Some o'"
      "ft_closed t2 = ft_closed t" "table_ok pins t2"
      using il ins l t1 by (auto simp: fd_install_def ready_up [OF ok1(2)] same)
    moreover from this have "ft_up t'" using install_keeps_up [OF ins(1) ok1] by simp
    ultimately show ?thesis using h ins(2) o'(2) unfolding fd_owns_def
      by (intro conjI exI [of _ "[]"] exI [of _ "{h}"]) (auto simp: shut_handles_def)
  next
    case False
    then have f: "err = err'" "out = None" "t' = ofd_release (Some i) t1"
      using ins l il by (auto simp: fd_install_def ready_up [OF ok1(2)])
    have "table_ok pins t'" using release_ok [OF ok1(1), of i] f(3) same by simp
    moreover have "ft_up t'" "ft_closed t' = ft_closed t @ [(i, od_kind o', h)]"
      using f(3) ok1(2) o' by (simp_all add: t1_def ofd_release_def)
    ultimately show ?thesis using h ins(2) f(2) unfolding fd_owns_def
      by (intro conjI exI [of _ "[(i, od_kind o', h)]"] exI [of _ "{h}"]) (auto simp: shut_handles_def)
  qed
qed

lemma open_owns:
  assumes laws: "handle_laws fs opened" and ok: "table_ok pins t" "ft_up t"
    and res: "sppc_open_win fs e path flags mode t w = ((err, out), t', w')"
  shows "fd_owns opened t w out t' w' \<and> table_ok pins t' \<and> ft_up t' \<and> (out \<noteq> None \<longrightarrow> err = 0)"
proof -
  have none: ?thesis if "out = None" "t' = t" "opened w' = opened w"
  proof -
    have "fd_owns opened t w None t w'" by (rule owns_nothing) (fact that(3))
    then show ?thesis using that ok by simp
  qed
  note all = res [unfolded sppc_open_win_def]
  show ?thesis
  proof (cases "flags AND NOT WIN_OPEN_FLAGS \<noteq> 0 \<or> flags AND SPPC_O_ACCMODE = SPPC_O_ACCMODE \<or> mode AND NOT 4095 \<noteq> 0")
    case True
    then show ?thesis using all none by (simp split: if_splits)
  next
    case valid: False
    note all = all [unfolded if_not_P [OF valid]]
    show ?thesis
    proof (cases "win_wpath fs path")
      case (Inl bad)
      then show ?thesis using all none by simp
    next
      case (Inr p)
      note all = all [unfolded Inr sum.case]
      obtain r w1 where c: "wf_create fs p (open_access flags) (open_disposition flags) (open_how flags mode) w = (r, w1)"
        by force
      note made = law_create [OF laws c]
      show ?thesis
      proof (cases "(case wf_attrs fs p w of Inr a \<Rightarrow> is_directory a | Inl _ \<Rightarrow> False) \<and> \<not> open_alone flags \<and>
             (open_writes flags \<or> flag_set flags SPPC_O_TRUNC)")
        case True
        then show ?thesis using all none by simp
      next
        case False
        note all = all [unfolded if_not_P [OF False] c prod.case]
        show ?thesis
        proof (cases r)
          case (Inl win)
          then show ?thesis using all none made by simp
        next
          case (Inr h)
          then have h: "h \<notin> opened w" "opened w1 = insert h (opened w)" using made by simp_all
          obtain err1 w2 where k: "open_check fs flags h w1 = (err1, w2)" by force
          have w2: "opened w2 = opened w1"
            using k change_keeps [OF laws, of "SetEnd h 0" w1] by (auto simp: open_check_def Let_def split: if_splits)
          note all = all [unfolded Inr sum.case k prod.case]
          show ?thesis
          proof (cases "err1 = 0 \<and> fe_ofd e")
            case False
            then show ?thesis using all none w2 h law_close [OF laws, of h w2] by (auto simp: ofd_new_def split: if_splits)
          next
            case True
            have o2: "opened w2 = insert h (opened w)" using w2 h(2) by simp
            have "\<not> err1 \<noteq> 0" using True by simp
            note all = all [unfolded if_not_P [OF this]]
            show ?thesis by (rule install_owns [where opened = opened and w = w, OF ok h(1) o2 conjunct2 [OF True] all])
          qed
        qed
      qed
    qed
  qed
qed

lemma mktemp_loop_owns:
  assumes laws: "handle_laws fs opened"
  shows "table_ok pins t \<Longrightarrow> ft_up t \<Longrightarrow> mktemp_loop fs e tries path t w = ((err, fd, name), t', w') \<Longrightarrow>
    fd_owns opened t w fd t' w'"
proof (induction tries arbitrary: path t w)
  case 0
  then show ?case by (simp add: owns_nothing)
next
  case (Suc tries)
  obtain name1 w1 where a: "win_fill_template fs path w = (name1, w1)" by force
  obtain err1 fd1 t1 w2 where b: "sppc_open_win fs e (path_bytes name1)
      (SPPC_O_RDWR OR SPPC_O_CREAT OR SPPC_O_EXCL OR SPPC_O_CLOEXEC) 384 t w1 = ((err1, fd1), t1, w2)"
    by (metis prod.collapse)
  note o1 = open_owns [OF laws Suc.prems(1,2) b]
  have "fd_owns opened t w None t w1" by (rule owns_nothing) (use fill_keeps [OF laws, of path w] a in simp)
  then have first: "fd_owns opened t w fd1 t1 w2" using o1 by (blast intro: owns_after)
  show ?case
  proof (cases "err1 = SPPC_EEXIST")
    case True
    then have "fd1 = None" using o1 by auto
    moreover have "fd_owns opened t1 w2 fd t' w'"
      using Suc.IH [of t1 name1 w2] o1 Suc.prems(3) True unfolding mktemp_loop.simps a prod.case b by simp
    ultimately show ?thesis using first by (blast intro: owns_after)
  next
    case False
    then show ?thesis using Suc.prems(3) first unfolding mktemp_loop.simps a prod.case b by simp
  qed
qed

section \<open>No call leaks a handle\<close>

text \<open>C29: No call on a path leaks a handle. stat, lstat, truncate, access, chdir, mkdir, rmdir, unlink, rename, link, symlink,
  chmod, chown, lchown, utimensat, mkdtemp, getcwd, realpath and readlink leave exactly the handles open that were, whatever
  fails on the way. open and mkstemp leave one more, the one the new descriptor names; when they fail, whatever
  they had opened has been closed, by them or by the table that could not take it.\<close>

theorem path_calls_leave_handles:
  assumes "handle_laws fs opened" and "table_ok pins t" "ft_up t"
  shows "leaves opened (sppc_stat_win fs path out) \<and> leaves opened (sppc_lstat_win fs path out) \<and>
    leaves opened (sppc_truncate_win fs path len) \<and> leaves opened (sppc_access_win fs path flags) \<and>
    leaves opened (sppc_chdir_win fs path) \<and> leaves opened (sppc_mkdir_win fs path mode) \<and>
    leaves opened (sppc_rmdir_win fs path) \<and> leaves opened (sppc_unlink_win fs path) \<and>
    leaves opened (sppc_rename_win fs path path2) \<and> leaves opened (sppc_link_win fs path path2) \<and>
    leaves opened (sppc_symlink_win fs path path2) \<and> leaves opened (sppc_chmod_win fs path mode) \<and>
    leaves opened (sppc_chown_win fs path owner grp) \<and> leaves opened (sppc_lchown_win fs path owner grp) \<and>
    leaves opened (sppc_utimensat_win fs path flags) \<and> leaves opened (sppc_mktemp_dir_win fs name) \<and>
    leaves opened (sppc_getcwd_win fs sz) \<and> leaves opened (sppc_realpath_win fs path) \<and>
    leaves opened (sppc_readlink_win fs path sz) \<and>
    (case sppc_open_win fs e path flags mode t w of ((err, fd), t', w') \<Rightarrow> fd_owns opened t w fd t' w') \<and>
    (case sppc_mktemp_win fs e name t w of ((err, fd, name'), t', w') \<Rightarrow> fd_owns opened t w fd t' w')"
proof (intro conjI)
  note laws = assms(1)
  show "case sppc_open_win fs e path flags mode t w of ((err, fd), t', w') \<Rightarrow> fd_owns opened t w fd t' w'"
    using open_owns [OF assms] by (simp split: prod.split)
  have "mktemp_loop fs e 100 name t w = ((err, fd, name'), t', w') \<Longrightarrow> fd_owns opened t w fd t' w'" for err fd name' t' w'
    by (rule mktemp_loop_owns [OF assms])
  then show "case sppc_mktemp_win fs e name t w of ((err, fd, name'), t', w') \<Rightarrow> fd_owns opened t w fd t' w'"
    by (auto simp: sppc_mktemp_win_def owns_nothing split: prod.split)
  show "leaves opened (sppc_stat_win fs path out)" "leaves opened (sppc_lstat_win fs path out)"
    unfolding sppc_stat_win_def [abs_def] sppc_lstat_win_def [abs_def] by (rule leaves_stat [OF laws])+
  show "leaves opened (sppc_truncate_win fs path len)"
    unfolding sppc_truncate_win_def [abs_def] win_set_length_def [abs_def] by (intro leaves_intro laws)
  have "leaves opened (on_path fs path (\<lambda>p w. case wf_attrs fs p w of
      Inl win \<Rightarrow> (win_path_errno fs p win w, w)
    | Inr a \<Rightarrow> (if (flag_set flags SPPC_X_OK \<and> \<not> is_directory a \<and> \<not> win_is_program fs p) \<or>
                (flag_set flags SPPC_W_OK \<and> \<not> is_directory a \<and> read_only a) then SPPC_EACCES else 0, w)))"
    by (intro leaves_intro)
  then show "leaves opened (sppc_access_win fs path flags)"
    by (simp add: leaves_def sppc_access_win_def split_beta)
  show "leaves opened (sppc_chdir_win fs path)"
    unfolding sppc_chdir_win_def [abs_def] by (intro leaves_intro laws)
  show "leaves opened (sppc_mkdir_win fs path mode)" by (intro leaves_intro laws)
  show "leaves opened (sppc_rmdir_win fs path)"
    unfolding sppc_rmdir_win_def [abs_def] by (intro leaves_intro laws)
  show "leaves opened (sppc_unlink_win fs path)"
    unfolding sppc_unlink_win_def [abs_def] by (intro leaves_intro laws)
  show "leaves opened (sppc_rename_win fs path path2)"
    unfolding sppc_rename_win_def [abs_def] by (intro leaves_intro laws)
  show "leaves opened (sppc_link_win fs path path2)"
    unfolding sppc_link_win_def [abs_def] by (intro leaves_intro laws)
  show "leaves opened (sppc_symlink_win fs path path2)"
    unfolding sppc_symlink_win_def [abs_def] by (intro leaves_intro laws)
  show "leaves opened (sppc_chmod_win fs path mode)"
    unfolding sppc_chmod_win_def [abs_def] by (intro leaves_intro laws)
  show "leaves opened (sppc_chown_win fs path owner grp)" "leaves opened (sppc_lchown_win fs path owner grp)"
    unfolding sppc_chown_win_def [abs_def] sppc_lchown_win_def [abs_def] by (rule leaves_chown [OF laws])+
  show "leaves opened (sppc_utimensat_win fs path flags)"
    unfolding sppc_utimensat_win_def [abs_def] by (intro leaves_intro laws)
  show "leaves opened (sppc_mktemp_dir_win fs name)" by (rule leaves_mktemp_dir [OF laws])
  show "leaves opened (sppc_getcwd_win fs sz)"
    unfolding sppc_getcwd_win_def [abs_def] by (rule leaves_if [OF leaves_const leaves_open_close [OF laws]])
  show "leaves opened (sppc_realpath_win fs path)"
    unfolding sppc_realpath_win_def [abs_def] by (rule leaves_bad [OF leaves_open_close [OF laws]])
  show "leaves opened (sppc_readlink_win fs path sz)"
    unfolding sppc_readlink_win_def [abs_def]
    by (rule leaves_if [OF leaves_const leaves_bad [OF leaves_open_close [OF laws]]])
qed

text \<open>C39: Renaming an empty directory onto itself, under any spelling of its name, which POSIX makes a success that changes
  nothing, removes it: the directory at the new name is removed to make way, and the rename then finds nothing at the old
  one; the call fails and the directory is gone.\<close>

theorem rename_onto_itself_removes:
  assumes "win_wpath fs old = Inr p" "win_wpath fs new = Inr q"
    and "wf_attrs fs p w = Inr a" "is_directory a" "wf_attrs fs q w = Inr b" "is_directory b"
    and removed: "wf_change fs (RemoveDirectory q) w = (0, w1)"
    and "wf_full fs q w1 = Inr full" "wf_mem fs (RENAME_INFO_SIZE + (length full + 1) * 2)"
    and gone: "wf_create fs p (DELETE_ACCESS OR SYNCHRONIZE) OPEN_EXISTING
       (FILE_FLAG_BACKUP_SEMANTICS OR FILE_FLAG_OPEN_REPARSE_POINT) w1 = (Inl win, w1)" "is_error fs win ''ERROR_FILE_NOT_FOUND''"
    and "\<not> is_error fs win ''ERROR_INVALID_PARAMETER''" "\<not> is_error fs win ''ERROR_NOT_SUPPORTED''"
      "\<not> is_error fs win ''ERROR_INVALID_FUNCTION''" "win \<noteq> 0"
  shows "sppc_rename_win fs old new w = (win_path_errno fs q win w1, w1)"
proof -
  have "win_rename_posix fs p q w1 = (win, w1)"
    using assms(8,9) gone by (simp add: win_rename_posix_def win_open_def)
  then show ?thesis using assms
    by (simp add: sppc_rename_win_def on_paths_def on_path_def win_rename_def rename_clear_def)
qed

section \<open>Samples\<close>

text \<open>A disk of empty directories, by name, and the handles open: what the witnesses run on.\<close>

definition sample_errors :: os_macros where
  "sample_errors = [''ERROR_FILE_NOT_FOUND'' \<mapsto> 2, ''ERROR_DIR_NOT_EMPTY'' \<mapsto> 145]"

definition dir_disk :: "(wide set \<times> nat list) win_fs" where
  "dir_disk = \<lparr>wf_os = sample_errors, wf_wide = (\<lambda>bs. Some (map ucast bs)), wf_utf8 = (\<lambda>w. Some (map ucast w)),
     wf_lower = (\<lambda>c. c), wf_mem = (\<lambda>_. True),
     wf_attrs = (\<lambda>p w. if p \<in> fst w then Inr FILE_ATTRIBUTE_DIRECTORY else Inl 2),
     wf_type = (\<lambda>_ _. 1), wf_info = (\<lambda>_ _. Inl 2), wf_tag = (\<lambda>_ _. None), wf_reparse = (\<lambda>_ _. Inl 2),
     wf_name = (\<lambda>_ _. Inl 2), wf_full = (\<lambda>p _. Inr p), wf_volume = (\<lambda>_ _. Inl 2),
     wf_create = (\<lambda>p _ _ _ w. if p \<in> fst w then let h = Suc (foldr max (snd w) 0) in (Inr h, (fst w, h # snd w)) else (Inl 2, w)),
     wf_close = (\<lambda>h w. (fst w, filter (\<lambda>x. x \<noteq> h) (snd w))),
     wf_change = (\<lambda>c w. case c of RemoveDirectory p \<Rightarrow> if p \<in> fst w then (0, (fst w - {p}, snd w)) else (2, w) | _ \<Rightarrow> (2, w)),
     wf_random = (\<lambda>n w. (Some (replicate n 0), w)), wf_stack = []\<rparr>"

lemma fresh_handle: "Suc (foldr max xs 0) \<notin> set xs"
proof -
  have "x \<in> set xs \<Longrightarrow> x \<le> foldr max xs 0" for x by (induction xs) (auto simp: le_max_iff_disj)
  then show ?thesis by fastforce
qed

lemma dir_disk_laws: "handle_laws dir_disk (\<lambda>w. set (snd w))"
  unfolding handle_laws_def dir_disk_def using fresh_handle
  by (auto simp: Let_def split: if_splits fs_change.splits)

lemma path_calls_leave_handles_witness:
  "set (snd (snd (sppc_stat_win dir_disk [100] stat_start ({[100]}, [7])))) = {7} \<and>
   (case sppc_open_win dir_disk sample_env [100] SPPC_O_RDONLY 0 sample_fds ({[100]}, [7]) of
      ((err, fd), t', w') \<Rightarrow> fd_owns (\<lambda>w. set (snd w)) sample_fds ({[100]}, [7]) fd t' w')"
proof -
  have ok: "table_ok (\<lambda>_. 0) sample_fds" "ft_up sample_fds" using sample_fds_ok by blast+
  note all = path_calls_leave_handles [OF dir_disk_laws ok, where e = sample_env and path = "[100]" and out = stat_start
      and flags = SPPC_O_RDONLY and mode = 0 and w = "({[100]}, [7])" and len = 0 and ?path2.0 = "[]" and owner = 0 and grp = 0
      and name = "[]" and sz = 0]
  have "leaves (\<lambda>w. set (snd w)) (sppc_stat_win dir_disk [100] stat_start)" using all by blast
  moreover have "case sppc_open_win dir_disk sample_env [100] SPPC_O_RDONLY 0 sample_fds ({[100]}, [7]) of
      ((err, fd), t', w') \<Rightarrow> fd_owns (\<lambda>w. set (snd w)) sample_fds ({[100]}, [7]) fd t' w'"
    by (simp only: all)
  ultimately show ?thesis by (simp add: leaves_def)
qed

lemma rename_onto_itself_removes_witness:
  "sppc_rename_win dir_disk [100] [100] ({[100]}, []) = (SPPC_ENOENT, ({}, []))"
proof -
  have "sppc_rename_win dir_disk [100] [100] ({[100]}, []) = (win_path_errno dir_disk [100] 2 ({}, []), ({}, []))"
    by (rule rename_onto_itself_removes [where a = FILE_ATTRIBUTE_DIRECTORY and b = FILE_ATTRIBUTE_DIRECTORY and full = "[100]"])
      (simp_all add: win_wpath_def dir_disk_def is_directory_def has_attr_def FILE_ATTRIBUTE_DIRECTORY_def is_error_def sample_errors_def)
  then show ?thesis
    by (simp add: win_path_errno_def win_errno_def sppc_errno_win32_def error_case_def win32_errors_def dir_disk_def sample_errors_def
        errno_walk.simps path_above_def win_is_sep_def)
qed

end
