(* ===== verification/WinControl.thy ===== *)
theory WinControl
  imports WinIO
begin

text \<open>
  What a Windows descriptor is asked and told (platform/windows.h, FILES: control): its flags, and record locks on
  Windows' byte-range locks, whose calls are an argument. Positions and lengths are integers; the source's are 64 bits
  wide, and a sum of them that does not fit is left to its callers.
\<close>

section \<open>Flags\<close>

definition status_flags :: "ofd \<Rightarrow> int" where
  "status_flags o' =
     ((if od_access o' = (FD_READ OR FD_WRITE) then SPPC_O_RDWR
       else if od_access o' = FD_WRITE then SPPC_O_WRONLY else SPPC_O_RDONLY) OR
      (if od_append o' then SPPC_O_APPEND else 0)) OR (if od_nonblock o' then SPPC_O_NONBLOCK else 0)"

definition sppc_fcntl_get_win :: "fd_env \<Rightarrow> int \<Rightarrow> int \<Rightarrow> fd_table \<Rightarrow> (int \<times> int) \<times> fd_table" where
  "sppc_fcntl_get_win e fd cmd t =
     (if cmd \<noteq> SPPC_F_GETFD \<and> cmd \<noteq> SPPC_F_GETFL \<and> cmd \<noteq> SPPC_F_GETOWN then ((SPPC_EINVAL, - 1), t)
      else case fd_get e fd t of
        (None, t1) \<Rightarrow> ((SPPC_EBADF, - 1), t1)
      | (Some i, t1) \<Rightarrow>
          (case ft_ofds t1 i of
             None \<Rightarrow> ((SPPC_EBADF, - 1), t1)
           | Some o' \<Rightarrow>
               ((0, if cmd = SPPC_F_GETFD
                    then (if nat fd < length (ft_slots t1) \<and> snd (ft_slots t1 ! nat fd) then SPPC_FD_CLOEXEC else 0)
                    else if cmd = SPPC_F_GETFL then status_flags o' else 0),
                ofd_release (Some i) t1)))"

text \<open>\<^verbatim>\<open>blocking\<close>: Winsock's error when a socket is made to block or not (0 for none).\<close>

definition set_flags :: "os_macros \<Rightarrow> (nat \<Rightarrow> bool \<Rightarrow> int) \<Rightarrow> int \<Rightarrow> ofd \<Rightarrow> int \<times> ofd" where
  "set_flags os blocking arg o' =
     (let nonblock = (arg AND SPPC_O_NONBLOCK \<noteq> 0); win = blocking (od_handle o') nonblock in
      if od_kind o' = FdSocket \<and> win \<noteq> 0 then (sppc_errno_wsa os win, o')
      else (0, o'\<lparr>od_append := arg AND SPPC_O_APPEND \<noteq> 0, od_nonblock := nonblock\<rparr>))"

definition CONTROL_OPEN_FLAGS :: int where
  "CONTROL_OPEN_FLAGS = SPPC_O_ACCMODE OR SPPC_O_CREAT OR SPPC_O_EXCL OR SPPC_O_NOCTTY OR SPPC_O_TRUNC OR SPPC_O_APPEND OR
     SPPC_O_NONBLOCK OR SPPC_O_SYNC OR SPPC_O_DSYNC OR SPPC_O_ASYNC OR SPPC_O_DIRECT OR SPPC_O_DIRECTORY OR
     SPPC_O_NOFOLLOW OR SPPC_O_NOATIME OR SPPC_O_CLOEXEC"

definition sppc_fcntl_set_win ::
  "os_macros \<Rightarrow> (nat \<Rightarrow> bool \<Rightarrow> int) \<Rightarrow> fd_env \<Rightarrow> int \<Rightarrow> int \<Rightarrow> int \<Rightarrow> fd_table \<Rightarrow> int \<times> fd_table" where
  "sppc_fcntl_set_win os blocking e fd cmd arg t =
     (if (cmd = SPPC_F_SETFD \<and> arg AND NOT SPPC_FD_CLOEXEC \<noteq> 0) \<or>
         (cmd = SPPC_F_SETFL \<and> arg AND NOT CONTROL_OPEN_FLAGS \<noteq> 0) \<or>
         (cmd \<noteq> SPPC_F_SETFD \<and> cmd \<noteq> SPPC_F_SETFL \<and> cmd \<noteq> SPPC_F_SETOWN) then (SPPC_EINVAL, t)
      else case fd_get e fd t of
        (None, t1) \<Rightarrow> (SPPC_EBADF, t1)
      | (Some i, t1) \<Rightarrow>
          (case ft_ofds t1 i of
             None \<Rightarrow> (SPPC_EBADF, t1)
           | Some o' \<Rightarrow>
               if cmd = SPPC_F_SETFD then
                 (0, ofd_release (Some i)
                       (if slot_ofd t1 (nat fd) = Some i
                        then t1\<lparr>ft_slots := (ft_slots t1)[nat fd := (Some i, arg AND SPPC_FD_CLOEXEC \<noteq> 0)]\<rparr> else t1))
               else if cmd = SPPC_F_SETFL then
                 (case set_flags os blocking arg o' of
                    (err, o1) \<Rightarrow> (err, ofd_release (Some i) (t1\<lparr>ft_ofds := (ft_ofds t1)(i \<mapsto> o1)\<rparr>)))
               else (0, ofd_release (Some i) t1)))"

section \<open>Record locks\<close>

record 'w lock_calls =
  lk_lock :: "nat \<Rightarrow> bool \<Rightarrow> bool \<Rightarrow> int \<Rightarrow> int \<Rightarrow> 'w \<Rightarrow> int \<times> 'w"  \<comment> \<open>LockFileEx: alone, failing at once, start, length\<close>
  lk_unlock :: "nat \<Rightarrow> int \<Rightarrow> int \<Rightarrow> 'w \<Rightarrow> int \<times> 'w"
  lk_place :: "nat \<Rightarrow> 'w \<Rightarrow> int"
  lk_length :: "nat \<Rightarrow> 'w \<Rightarrow> int"

definition lock_ok :: "int \<Rightarrow> sppc_flock \<Rightarrow> bool" where
  "lock_ok cmd l \<longleftrightarrow>
     cmd \<in> {SPPC_F_GETLK, SPPC_F_SETLK, SPPC_F_SETLKW} \<and> fl_type l \<in> {SPPC_F_RDLCK, SPPC_F_WRLCK, SPPC_F_UNLCK} \<and>
     fl_whence l \<in> {SPPC_SEEK_SET, SPPC_SEEK_CUR, SPPC_SEEK_END}"

text \<open>Where the range starts and how far it reaches, or what is wrong with it.\<close>

definition lock_range :: "'w lock_calls \<Rightarrow> ofd \<Rightarrow> sppc_flock \<Rightarrow> 'w \<Rightarrow> int + int \<times> int" where
  "lock_range lk o' l w =
     (if \<not> od_disk o' then Inl SPPC_EINVAL
      else if (fl_type l = SPPC_F_RDLCK \<and> \<not> reads o') \<or> (fl_type l = SPPC_F_WRLCK \<and> \<not> writes o') then Inl SPPC_EBADF
      else let start = fl_start l +
                 (if fl_whence l = SPPC_SEEK_CUR then lk_place lk (od_handle o') w
                  else if fl_whence l = SPPC_SEEK_END then lk_length lk (od_handle o') w else 0) +
                 (if fl_len l < 0 then fl_len l else 0)
           in if start < 0 then Inl SPPC_EINVAL
              else Inr (start, if fl_len l = 0 then 2 ^ 64 - 1 - start else \<bar>fl_len l\<bar>))"

definition lock_ask :: "'w lock_calls \<Rightarrow> nat \<Rightarrow> sppc_flock \<Rightarrow> int \<Rightarrow> int \<Rightarrow> 'w \<Rightarrow> sppc_flock \<times> 'w" where
  "lock_ask lk h l start len w =
     (if fl_type l = SPPC_F_UNLCK then (l, w)
      else case lk_lock lk h (fl_type l = SPPC_F_WRLCK) True start len w of
        (win, w1) \<Rightarrow>
          if win = 0 then (l\<lparr>fl_type := SPPC_F_UNLCK\<rparr>, snd (lk_unlock lk h start len w1)) else (l\<lparr>fl_pid := 0\<rparr>, w1))"

definition lock_put :: "os_macros \<Rightarrow> 'w lock_calls \<Rightarrow> nat \<Rightarrow> int \<Rightarrow> sppc_flock \<Rightarrow> int \<Rightarrow> int \<Rightarrow> 'w \<Rightarrow> int \<times> 'w" where
  "lock_put os lk h cmd l start len w =
     (let w1 = snd (lk_unlock lk h start len w) in
      if fl_type l = SPPC_F_UNLCK then (0, w1)
      else case lk_lock lk h (fl_type l = SPPC_F_WRLCK) (cmd = SPPC_F_SETLK) start len w1 of
        (win, w2) \<Rightarrow>
          (if win = 0 then 0
           else if os ''ERROR_LOCK_VIOLATION'' = Some win \<or> os ''ERROR_IO_PENDING'' = Some win then SPPC_EAGAIN
           else sppc_errno_win32 os win, w2))"

definition sppc_fcntl_lock_win ::
  "os_macros \<Rightarrow> 'w lock_calls \<Rightarrow> fd_env \<Rightarrow> int \<Rightarrow> int \<Rightarrow> sppc_flock \<Rightarrow> fd_table \<Rightarrow> 'w \<Rightarrow> (int \<times> sppc_flock) \<times> fd_table \<times> 'w" where
  "sppc_fcntl_lock_win os lk e fd cmd l t w =
     (if \<not> lock_ok cmd l then ((SPPC_EINVAL, l), t, w)
      else on_fd e fd (SPPC_EBADF, l) (\<lambda>o' w.
        case lock_range lk o' l w of
          Inl err \<Rightarrow> ((err, l), o', w)
        | Inr (start, len) \<Rightarrow>
            if cmd = SPPC_F_GETLK
            then (case lock_ask lk (od_handle o') l start len w of (l1, w1) \<Rightarrow> ((0, l1), o', w1))
            else (case lock_put os lk (od_handle o') cmd l start len w of (err, w1) \<Rightarrow> ((err, l), o', w1))) t w)"

section \<open>Flags read back\<close>

lemma add_ref_back [simp]: "add_ref (- 1) (add_ref 1 o') = o'" "od_refs (add_ref d o') = od_refs o' + d"
  "status_flags (add_ref d o') = status_flags o'" "od_handle (add_ref d o') = od_handle o'" "od_kind (add_ref d o') = od_kind o'"
  by (simp_all add: add_ref_def status_flags_def)

lemma get_pinned:
  assumes "ft_up t" "0 \<le> fd" "slot_ofd t (nat fd) = Some i" "ft_ofds t i = Some o'"
  shows "fd_get e fd t = (Some i, t\<lparr>ft_ofds := (ft_ofds t)(i \<mapsto> add_ref 1 o')\<rparr>)"
  using assms by (simp add: fd_get_def fds_ready_def ofd_retain_def)

text \<open>A description in use stays, once a call lets go of it.\<close>

lemma release_used:
  "ft_ofds t i = Some o' \<Longrightarrow> od_refs o' \<noteq> 1 \<Longrightarrow>
   ofd_release (Some i) t = t\<lparr>ft_ofds := (ft_ofds t)(i \<mapsto> add_ref (- 1) o')\<rparr>"
  by (simp add: ofd_release_def)

definition fd_flags :: "fd_table \<Rightarrow> int \<Rightarrow> int" where
  "fd_flags t fd = (if snd (ft_slots t ! nat fd) then SPPC_FD_CLOEXEC else 0)"

lemma got_flags:
  assumes used: "ft_up t" "0 \<le> fd" "slot_ofd t (nat fd) = Some i" "ft_ofds t i = Some o'" "1 \<le> od_refs o'"
  shows "fst (sppc_fcntl_get_win e fd SPPC_F_GETFD t) = (0, fd_flags t fd)"
    "fst (sppc_fcntl_get_win e fd SPPC_F_GETFL t) = (0, status_flags o')"
  using used(3) by (auto simp: sppc_fcntl_get_win_def get_pinned [OF used(1-4)] fd_flags_def slot_ofd_def split: if_splits)

lemma set_fd_flags:
  assumes used: "ft_up t" "0 \<le> fd" "slot_ofd t (nat fd) = Some i" "ft_ofds t i = Some o'" "1 \<le> od_refs o'"
    and arg: "arg = 0 \<or> arg = SPPC_FD_CLOEXEC"
  shows "sppc_fcntl_set_win os blocking e fd SPPC_F_SETFD arg t =
    (0, t\<lparr>ft_slots := (ft_slots t)[nat fd := (Some i, arg = SPPC_FD_CLOEXEC)]\<rparr>)"
  using used arg
  by (auto simp: sppc_fcntl_set_win_def get_pinned [OF used(1-4)] release_used slot_ofd_def fun_upd_idem split: if_splits)

lemma set_status_flags:
  assumes used: "ft_up t" "0 \<le> fd" "slot_ofd t (nat fd) = Some i" "ft_ofds t i = Some o'" "1 \<le> od_refs o'"
    and arg: "arg AND NOT CONTROL_OPEN_FLAGS = 0" and s: "set_flags os blocking arg o' = (err, o1)"
  shows "sppc_fcntl_set_win os blocking e fd SPPC_F_SETFL arg t = (err, t\<lparr>ft_ofds := (ft_ofds t)(i \<mapsto> o1)\<rparr>)"
proof -
  have "set_flags os blocking arg (add_ref 1 o') = (err, add_ref 1 o1) \<and> 1 \<le> od_refs o1"
    using s used(5) by (auto simp: set_flags_def Let_def add_ref_def split: if_splits)
  then show ?thesis using used arg
    by (simp add: sppc_fcntl_set_win_def get_pinned [OF used(1-4)] release_used)
qed

lemma and_power: "arg AND 2 ^ n = (if arg AND 2 ^ n \<noteq> 0 then 2 ^ n else (0 :: int))"
proof -
  have "bit (arg AND 2 ^ n) m = bit (if bit arg n then 2 ^ n else (0 :: int)) m" for m
    by (cases "m = n") (auto simp: bit_and_iff bit_exp_iff)
  then have "arg AND 2 ^ n = (if bit arg n then 2 ^ n else 0)" by (intro bit_eqI) blast
  then show ?thesis by simp
qed

lemmas bit_or_none = and_power [of _ 10, simplified] and_power [of _ 11, simplified]

text \<open>The flags a Windows descriptor is given are the flags it answers: after F_SETFD, F_GETFD gives close-on-exec as
  set and F_GETFL what it gave; after F_SETFL, F_GETFL gives the access it was opened with and
  O_APPEND and O_NONBLOCK as set, the other flags of an open taken and left alone; where Winsock refuses, nothing has changed.
\<close>

theorem fcntl_flags_read_back:
  assumes used: "ft_up t" "0 \<le> fd" "slot_ofd t (nat fd) = Some i" "ft_ofds t i = Some o'" "1 \<le> od_refs o'"
    and cloexec: "c = 0 \<or> c = SPPC_FD_CLOEXEC" and arg: "arg AND NOT CONTROL_OPEN_FLAGS = 0"
    and set1: "sppc_fcntl_set_win os blocking e fd SPPC_F_SETFD c t = (err1, t1)"
    and set2: "sppc_fcntl_set_win os blocking e fd SPPC_F_SETFL arg t1 = (err2, t2)"
  shows "err1 = 0 \<and> fst (sppc_fcntl_get_win e fd SPPC_F_GETFD t1) = (0, c) \<and>
    fst (sppc_fcntl_get_win e fd SPPC_F_GETFL t1) = fst (sppc_fcntl_get_win e fd SPPC_F_GETFL t) \<and>
    (if err2 = 0
     then fst (sppc_fcntl_get_win e fd SPPC_F_GETFD t2) = (0, c) \<and>
       fst (sppc_fcntl_get_win e fd SPPC_F_GETFL t2) =
         (0, (status_flags o' AND SPPC_O_ACCMODE) OR (arg AND SPPC_O_APPEND) OR (arg AND SPPC_O_NONBLOCK))
     else t2 = t1)"
proof -
  have one: "err1 = 0" "t1 = t\<lparr>ft_slots := (ft_slots t)[nat fd := (Some i, c = SPPC_FD_CLOEXEC)]\<rparr>"
    using set1 set_fd_flags [OF used cloexec, of os blocking e] by simp_all
  have used1: "ft_up t1" "0 \<le> fd" "slot_ofd t1 (nat fd) = Some i" "ft_ofds t1 i = Some o'" "1 \<le> od_refs o'"
    using used by (auto simp: one slot_ofd_def split: if_splits)
  have c1: "fd_flags t1 fd = c" using used(3) cloexec by (auto simp: one fd_flags_def slot_ofd_def split: if_splits)
  obtain o1 where s: "set_flags os blocking arg o' = (err2, o1)" "t2 = t1\<lparr>ft_ofds := (ft_ofds t1)(i \<mapsto> o1)\<rparr>"
    using set2 set_status_flags [OF used1 arg, of os blocking] by (cases "set_flags os blocking arg o'") auto
  have refs: "1 \<le> od_refs o1" using s(1) used(5) by (auto simp: set_flags_def Let_def split: if_splits)
  have "slot_ofd t2 = slot_ofd t1" by (simp add: s(2) slot_ofd_def fun_eq_iff)
  then have used2: "ft_up t2" "0 \<le> fd" "slot_ofd t2 (nat fd) = Some i" "ft_ofds t2 i = Some o1" "1 \<le> od_refs o1"
    using used1 refs by (simp_all add: s(2))
  have c2: "fd_flags t2 fd = c" using c1 by (simp add: s fd_flags_def)
  have acc: "status_flags o' AND 3 = (if od_access o' = (FD_READ OR FD_WRITE) then 2 else if od_access o' = FD_WRITE then 1 else 0)"
    by (simp add: status_flags_def bit.conj_disj_distrib2)
  have "err2 \<noteq> 0 \<Longrightarrow> o1 = o'" using s(1) by (auto simp: set_flags_def Let_def split: if_splits)
  moreover have "err2 = 0 \<Longrightarrow> status_flags o1 = ((status_flags o' AND 3) OR (arg AND 1024)) OR (arg AND 2048)"
    using s(1) bit_or_none [of arg] unfolding acc
    by (cases "arg AND 1024 \<noteq> 0"; cases "arg AND 2048 \<noteq> 0") (auto simp: set_flags_def Let_def status_flags_def split: if_splits)
  ultimately show ?thesis
    using got_flags [OF used, of e] got_flags [OF used1, of e] got_flags [OF used2, of e] one(1) c1 c2 used1(4)
    by (auto simp: s(2) fun_upd_idem or.assoc)
qed

lemma fcntl_flags_read_back_witness:
  "snd (fst (sppc_fcntl_get_win sample_env 0 SPPC_F_GETFL
     (snd (sppc_fcntl_set_win (\<lambda>_. None) (\<lambda>_ _. 0) sample_env 0 SPPC_F_SETFL SPPC_O_APPEND
        (snd (sppc_fcntl_set_win (\<lambda>_. None) (\<lambda>_ _. 0) sample_env 0 SPPC_F_SETFD SPPC_FD_CLOEXEC two_fds)))))) = 1026"
proof -
  obtain err1 t1 where s1: "sppc_fcntl_set_win (\<lambda>_. None) (\<lambda>_ _. 0) sample_env 0 SPPC_F_SETFD SPPC_FD_CLOEXEC two_fds = (err1, t1)"
    by fastforce
  obtain err2 t2 where s2: "sppc_fcntl_set_win (\<lambda>_. None) (\<lambda>_ _. 0) sample_env 0 SPPC_F_SETFL SPPC_O_APPEND t1 = (err2, t2)"
    by fastforce
  have used: "ft_up two_fds" "(0::int) \<le> 0" "slot_ofd two_fds (nat 0) = Some 0" "ft_ofds two_fds 0 = Some (file_ofd 10)"
    "1 \<le> od_refs (file_ofd 10)"
    by (simp_all add: two_fds_def slot_ofd_def file_ofd_def)
  have arg: "SPPC_O_APPEND AND NOT CONTROL_OPEN_FLAGS = 0" by (simp add: CONTROL_OPEN_FLAGS_def)
  note all = fcntl_flags_read_back [OF used disjI2 [OF refl] arg s1 s2]
  have t1: "t1 = two_fds\<lparr>ft_slots := (ft_slots two_fds)[nat 0 := (Some 0, True)]\<rparr>"
    using s1 set_fd_flags [OF used disjI2 [OF refl], of "\<lambda>_. None" "\<lambda>_ _. 0" sample_env] by simp
  have used1: "ft_up t1" "(0::int) \<le> 0" "slot_ofd t1 (nat 0) = Some 0" "ft_ofds t1 0 = Some (file_ofd 10)"
    "1 \<le> od_refs (file_ofd 10)"
    using used by (simp_all add: t1 two_fds_def slot_ofd_def)
  obtain o1 where s: "set_flags (\<lambda>_. None) (\<lambda>_ _. 0) SPPC_O_APPEND (file_ofd 10) = (0, o1)"
    by (simp add: set_flags_def Let_def)
  have "err2 = 0" using s2 set_status_flags [OF used1 arg s, of sample_env] by simp
  then show ?thesis using all s1 s2 by (simp add: status_flags_def file_ofd_def FD_READ_def FD_WRITE_def)
qed

text \<open>A set lock that fails leaves the descriptor without the lock it had: it gave that up first.\<close>

lemma failed_lock_loses_old:
  assumes unlocks: "\<And>w. \<not> held (snd (lk_unlock lk h start len w))"
    and fails: "\<And>ex now w win w'. lk_lock lk h ex now start len w = (win, w') \<Longrightarrow> win \<noteq> 0 \<Longrightarrow> held w' = held w"
    and zero: "os ''ERROR_LOCK_VIOLATION'' = Some win \<Longrightarrow> SPPC_EAGAIN \<noteq> 0"
    and res: "lock_put os lk h cmd l start len w = (err, w')" "err \<noteq> 0"
  shows "\<not> held w'"
  using res unlocks [of w] fails by (auto simp: lock_put_def Let_def split: if_splits prod.splits)

end
