(* ===== verification/WinProcess.thy ===== *)
theory WinProcess
  imports WinPaths
begin

text \<open>
  The environment, other processes and hardening on Windows (platform/windows.h, PROCESSES AND ENVIRONMENT and
  PROCESS HARDENING). The environment is a world of any type, read and written by the "W" calls, which are arguments with
  their win32 errors; no other thread changes it between a call's two looks at it. A process is opened by its
  number, asked for its exit code, and ended.
\<close>

section \<open>The environment\<close>

record 'w env_calls =
  ev_get :: "wide \<Rightarrow> 'w \<Rightarrow> int + wide"                     \<comment> \<open>GetEnvironmentVariableW\<close>
  ev_set :: "wide \<Rightarrow> wide option \<Rightarrow> 'w \<Rightarrow> int \<times> 'w"       \<comment> \<open>SetEnvironmentVariableW\<close>

definition win_env_name :: "'w win_fs \<Rightarrow> bytes \<Rightarrow> int + wide" where
  "win_env_name fs key =
     (if key = [] \<or> 61 \<in> set key then Inl SPPC_EINVAL
      else case win_wpath fs key of
        Inl err \<Rightarrow> Inl (if err = SPPC_EILSEQ then SPPC_EINVAL else err)
      | Inr name \<Rightarrow> Inr name)"

text \<open>The error, and what \<^verbatim>\<open>out\<close> then holds up to its terminator (nothing was put in it if None).\<close>

definition sppc_getenv_win :: "'w win_fs \<Rightarrow> 'w env_calls \<Rightarrow> bytes \<Rightarrow> nat \<Rightarrow> 'w \<Rightarrow> int \<times> bytes option" where
  "sppc_getenv_win fs ev key sz w =
     (if sz = 0 then (SPPC_ERANGE, None)
      else case win_env_name fs key of
        Inl bad \<Rightarrow> (if bad = SPPC_EINVAL then SPPC_ENOENT else bad, Some [])
      | Inr name \<Rightarrow>
          (case ev_get ev name w of
             Inl win \<Rightarrow> (if is_error fs win ''ERROR_ENVVAR_NOT_FOUND'' then SPPC_ENOENT else 0, Some [])
           | Inr val \<Rightarrow>
               if \<not> wf_mem fs ((length val + 1) * 2) then (SPPC_ENOMEM, Some [])
               else (case wf_utf8 fs val of
                       None \<Rightarrow> (SPPC_EILSEQ, Some [])
                     | Some bs \<Rightarrow> if length bs + 1 > sz then (SPPC_ERANGE, Some []) else (0, Some bs))))"

definition env_value :: "'w win_fs \<Rightarrow> bytes \<Rightarrow> int + wide" where
  "env_value fs val =
     (if val = [] then if wf_mem fs 2 then Inr [] else Inl SPPC_ENOMEM
      else case win_wpath fs val of
        Inl err \<Rightarrow> Inl (if err = SPPC_EILSEQ then SPPC_EINVAL else err)
      | Inr v \<Rightarrow> Inr v)"

definition env_exists :: "'w win_fs \<Rightarrow> 'w env_calls \<Rightarrow> wide \<Rightarrow> 'w \<Rightarrow> bool" where
  "env_exists fs ev name w =
     (case ev_get ev name w of Inr _ \<Rightarrow> True | Inl win \<Rightarrow> \<not> is_error fs win ''ERROR_ENVVAR_NOT_FOUND'')"

definition sppc_setenv_win :: "'w win_fs \<Rightarrow> 'w env_calls \<Rightarrow> bytes \<Rightarrow> bytes \<Rightarrow> bool \<Rightarrow> 'w \<Rightarrow> int \<times> 'w" where
  "sppc_setenv_win fs ev key val overwrite w =
     (case win_env_name fs key of
        Inl err \<Rightarrow> (err, w)
      | Inr name \<Rightarrow>
          (case env_value fs val of
             Inl err \<Rightarrow> (err, w)
           | Inr v \<Rightarrow>
               if overwrite \<or> \<not> env_exists fs ev name w
               then (let (win, w1) = ev_set ev name (Some v) w in (if win = 0 then 0 else win_errno fs win, w1))
               else (0, w)))"

definition sppc_unsetenv_win :: "'w win_fs \<Rightarrow> 'w env_calls \<Rightarrow> bytes \<Rightarrow> 'w \<Rightarrow> int \<times> 'w" where
  "sppc_unsetenv_win fs ev key w =
     (case win_env_name fs key of
        Inl err \<Rightarrow> (err, w)
      | Inr name \<Rightarrow>
          (let (win, w1) = ev_set ev name None w
           in (if win = 0 \<or> is_error fs win ''ERROR_ENVVAR_NOT_FOUND'' then 0 else win_errno fs win, w1)))"

section \<open>Processes\<close>

definition sppc_get_pid_win :: "u32 \<Rightarrow> int" where "sppc_get_pid_win current = sint (ucast current :: 32 word)"

text \<open>What NtQueryInformationProcess answered, its status and the parent, if it was found.\<close>

definition sppc_get_ppid_win :: "(int \<times> u64) option \<Rightarrow> int" where
  "sppc_get_ppid_win query =
     (case query of
        Some (status, parent) \<Rightarrow> if status \<ge> 0 then sint (ucast parent :: 32 word) else 0
      | None \<Rightarrow> 0)"

record 'w process_calls =
  pr_open :: "int \<Rightarrow> u32 \<Rightarrow> 'w \<Rightarrow> (int + nat) \<times> 'w"    \<comment> \<open>OpenProcess: the access, the number\<close>
  pr_code :: "nat \<Rightarrow> 'w \<Rightarrow> int option"                \<comment> \<open>GetExitCodeProcess\<close>
  pr_end :: "nat \<Rightarrow> int \<Rightarrow> 'w \<Rightarrow> int \<times> 'w"            \<comment> \<open>TerminateProcess\<close>
  pr_close :: "nat \<Rightarrow> 'w \<Rightarrow> 'w"

definition PROCESS_TERMINATE :: int where "PROCESS_TERMINATE = 1"
definition PROCESS_QUERY_LIMITED_INFORMATION :: int where "PROCESS_QUERY_LIMITED_INFORMATION = 0x1000"
definition STILL_ACTIVE :: int where "STILL_ACTIVE = 259"

definition signal_refusal :: "int \<Rightarrow> int \<Rightarrow> int" where
  "signal_refusal pid sig =
     (if sig < 0 \<or> sig > SPPC_SIGSYS \<or> sig = 16 \<or> sig = 30 then SPPC_EINVAL
      else if sig \<noteq> 0 \<and> sig \<noteq> SPPC_SIGKILL \<and> sig \<noteq> SPPC_SIGTERM then SPPC_ENOSYS
      else if pid \<le> 0 then SPPC_ENOSYS else 0)"

definition signal_open_error :: "os_macros \<Rightarrow> int \<Rightarrow> int" where
  "signal_open_error os win =
     (if os ''ERROR_INVALID_PARAMETER'' = Some win then SPPC_ESRCH
      else if os ''ERROR_ACCESS_DENIED'' = Some win then SPPC_EPERM else sppc_errno_win32 os win)"

definition sppc_signal_win :: "os_macros \<Rightarrow> 'w process_calls \<Rightarrow> int \<Rightarrow> int \<Rightarrow> 'w \<Rightarrow> int \<times> 'w" where
  "sppc_signal_win os pr pid sig w =
     (if signal_refusal pid sig \<noteq> 0 then (signal_refusal pid sig, w)
      else
        let (opened, w1) = pr_open pr
              (if sig = 0 then PROCESS_QUERY_LIMITED_INFORMATION else PROCESS_TERMINATE OR PROCESS_QUERY_LIMITED_INFORMATION)
              (word_of_int pid) w
        in case opened of
             Inl win \<Rightarrow> (signal_open_error os win, w1)
           | Inr h \<Rightarrow>
               let (err, w2) =
                 (case pr_code pr h w1 of
                    Some code \<Rightarrow>
                      if code \<noteq> STILL_ACTIVE then (SPPC_ESRCH, w1)
                      else if sig \<noteq> 0
                      then (let (win, w2) = pr_end pr h (128 + sig) w1 in (if win = 0 then 0 else sppc_errno_win32 os win, w2))
                      else (0, w1)
                  | None \<Rightarrow>
                      if sig \<noteq> 0
                      then (let (win, w2) = pr_end pr h (128 + sig) w1 in (if win = 0 then 0 else sppc_errno_win32 os win, w2))
                      else (0, w1))
               in (err, pr_close pr h w2))"

section \<open>Hardening\<close>

text \<open>What Windows answered to Arbitrary Code Guard (0: granted); and the answer to sealing, which it cannot.\<close>

definition sppc_deny_wx_win :: "os_macros \<Rightarrow> int \<Rightarrow> int" where
  "sppc_deny_wx_win os win = (if win = 0 then 0 else sppc_errno_win32 os win)"

definition sppc_seal_segments_win :: int where "sppc_seal_segments_win = SPPC_ENOSYS"

section \<open>What is set is what is read\<close>

text \<open>
  What Windows documents of the environment, by \<^verbatim>\<open>same\<close>, when two names are one variable's (it does not look at case):
  a variable set has the value given, one unset is not found, the others stay.
\<close>

definition env_laws :: "'w win_fs \<Rightarrow> 'w env_calls \<Rightarrow> (wide \<Rightarrow> wide \<Rightarrow> bool) \<Rightarrow> bool" where
  "env_laws fs ev same \<longleftrightarrow>
     (\<forall>name name' v w w1. ev_set ev name v w = (0, w1) \<longrightarrow>
        (if same name name'
         then case v of Some x \<Rightarrow> ev_get ev name' w1 = Inr x
              | None \<Rightarrow> (\<exists>win. ev_get ev name' w1 = Inl win \<and> is_error fs win ''ERROR_ENVVAR_NOT_FOUND'')
         else ev_get ev name' w1 = ev_get ev name' w)) \<and>
     (\<forall>name name' v w w1 win. ev_set ev name v w = (win, w1) \<longrightarrow> win \<noteq> 0 \<longrightarrow>
        (\<forall>other. ev_get ev other w1 = ev_get ev other w) \<and>
        (is_error fs win ''ERROR_ENVVAR_NOT_FOUND'' \<longrightarrow> same name name' \<longrightarrow>
           (\<exists>win'. ev_get ev name' w = Inl win' \<and> is_error fs win' ''ERROR_ENVVAR_NOT_FOUND'')))"

text \<open>A conversion loses nothing, and there is memory; and success is no error.\<close>

definition text_laws :: "'w win_fs \<Rightarrow> bool" where
  "text_laws fs \<longleftrightarrow> (\<forall>n. wf_mem fs n) \<and> wf_utf8 fs [] = Some [] \<and>
     (\<forall>bs v. wf_wide fs bs = Some v \<longrightarrow> wf_utf8 fs v = Some bs) \<and> wf_os fs ''ERROR_SUCCESS'' = Some 0"

lemma errno_zero: "text_laws fs \<Longrightarrow> win_errno fs win = 0 \<longleftrightarrow> win = 0"
  by (simp add: win_errno_def win32_nonzero text_laws_def)

lemma env_set_done:
  assumes "env_laws fs ev same" "ev_set ev name v w = (0, w1)"
  shows "same name name' \<Longrightarrow> v = Some x \<Longrightarrow> ev_get ev name' w1 = Inr x"
    and "same name name' \<Longrightarrow> v = None \<Longrightarrow> \<exists>win. ev_get ev name' w1 = Inl win \<and> is_error fs win ''ERROR_ENVVAR_NOT_FOUND''"
    and "\<not> same name name' \<Longrightarrow> ev_get ev name' w1 = ev_get ev name' w"
proof -
  have all: "if same name name' then case v of Some x \<Rightarrow> ev_get ev name' w1 = Inr x
      | None \<Rightarrow> (\<exists>win. ev_get ev name' w1 = Inl win \<and> is_error fs win ''ERROR_ENVVAR_NOT_FOUND'')
     else ev_get ev name' w1 = ev_get ev name' w"
    using assms unfolding env_laws_def by blast
  show "same name name' \<Longrightarrow> v = Some x \<Longrightarrow> ev_get ev name' w1 = Inr x"
    and "same name name' \<Longrightarrow> v = None \<Longrightarrow> \<exists>win. ev_get ev name' w1 = Inl win \<and> is_error fs win ''ERROR_ENVVAR_NOT_FOUND''"
    and "\<not> same name name' \<Longrightarrow> ev_get ev name' w1 = ev_get ev name' w"
    using all by auto
qed

lemma env_set_refused:
  assumes "env_laws fs ev same" "ev_set ev name v w = (win, w1)" "win \<noteq> 0"
  shows "ev_get ev name' w1 = ev_get ev name' w"
    and "is_error fs win ''ERROR_ENVVAR_NOT_FOUND'' \<Longrightarrow> same name name' \<Longrightarrow>
      \<exists>win'. ev_get ev name' w = Inl win' \<and> is_error fs win' ''ERROR_ENVVAR_NOT_FOUND''"
  using assms unfolding env_laws_def by blast+

lemma value_utf8: "text_laws fs \<Longrightarrow> env_value fs val = Inr v \<Longrightarrow> wf_utf8 fs v = Some val"
  by (auto simp: env_value_def win_wpath_def text_laws_def split: if_splits option.splits)

lemma get_after:
  assumes "text_laws fs" "win_env_name fs key = Inr name" "0 < sz"
  shows "ev_get ev name w = Inr v \<Longrightarrow> wf_utf8 fs v = Some val \<Longrightarrow>
      sppc_getenv_win fs ev key sz w = (if length val + 1 > sz then (SPPC_ERANGE, Some []) else (0, Some val))"
    and "ev_get ev name w = Inl win \<Longrightarrow> is_error fs win ''ERROR_ENVVAR_NOT_FOUND'' \<Longrightarrow>
      sppc_getenv_win fs ev key sz w = (SPPC_ENOENT, Some [])"
    and "ev_get ev name w = ev_get ev name w' \<Longrightarrow> sppc_getenv_win fs ev key sz w = sppc_getenv_win fs ev key sz w'"
  using assms by (auto simp: sppc_getenv_win_def text_laws_def)

lemma setenv_reads:
  assumes laws: "env_laws fs ev same" "text_laws fs"
    and keys: "win_env_name fs key = Inr name" "win_env_name fs key' = Inr name'"
    and set1: "sppc_setenv_win fs ev key val overwrite w = (0, w1)" and size: "0 < sz"
  shows "sppc_getenv_win fs ev key' sz w1 =
      (if \<not> same name name' \<or> (\<not> overwrite \<and> env_exists fs ev name w) then sppc_getenv_win fs ev key' sz w
       else if length val + 1 > sz then (SPPC_ERANGE, Some []) else (0, Some val))"
proof -
  obtain v where v: "env_value fs val = Inr v"
    using set1 keys by (auto simp: sppc_setenv_win_def env_value_def win_wpath_def split: sum.splits if_splits option.splits)
  note utf8 = value_utf8 [OF laws(2) v]
  show ?thesis
  proof (cases "overwrite \<or> \<not> env_exists fs ev name w")
    case True
    obtain win w2 where s: "ev_set ev name (Some v) w = (win, w2)" by force
    have "win = 0" "w2 = w1"
      using set1 keys v True s errno_zero [OF laws(2)] by (auto simp: sppc_setenv_win_def split: if_splits)
    then have "if same name name' then ev_get ev name' w1 = Inr v else ev_get ev name' w1 = ev_get ev name' w"
      using env_set_done [OF laws(1), of name "Some v" w w1] s by simp
    then show ?thesis
      using True get_after(1) [OF laws(2) keys(2) size _ utf8, of ev w1] get_after(3) [OF laws(2) keys(2) size, of ev w1 w]
      by (auto split: if_splits)
  next
    case False
    then have "w1 = w" using set1 keys v by (simp add: sppc_setenv_win_def)
    then show ?thesis using False by simp
  qed
qed

lemma unsetenv_reads:
  assumes laws: "env_laws fs ev same" "text_laws fs"
    and keys: "win_env_name fs key = Inr name" "win_env_name fs key' = Inr name'"
    and unset: "sppc_unsetenv_win fs ev key w = (0, w1)" and size: "0 < sz"
  shows "sppc_getenv_win fs ev key' sz w1 =
    (if same name name' then (SPPC_ENOENT, Some []) else sppc_getenv_win fs ev key' sz w)"
proof -
  obtain win w2 where s: "ev_set ev name None w = (win, w2)" by force
  have ok: "win = 0 \<or> is_error fs win ''ERROR_ENVVAR_NOT_FOUND''" "w2 = w1"
    using unset keys s errno_zero [OF laws(2)] by (auto simp: sppc_unsetenv_win_def split: if_splits)
  have "if same name name' then \<exists>win. ev_get ev name' w1 = Inl win \<and> is_error fs win ''ERROR_ENVVAR_NOT_FOUND''
    else ev_get ev name' w1 = ev_get ev name' w"
  proof (cases "win = 0")
    case True
    then show ?thesis using env_set_done [OF laws(1), of name None w w1] s ok(2) by simp
  next
    case False
    then have "ev_get ev name' w1 = ev_get ev name' w"
      "same name name' \<Longrightarrow> \<exists>win'. ev_get ev name' w = Inl win' \<and> is_error fs win' ''ERROR_ENVVAR_NOT_FOUND''"
      using env_set_refused [OF laws(1) s] ok by auto
    then show ?thesis by simp
  qed
  then show ?thesis
    using get_after(2) [OF laws(2) keys(2) size, of ev w1] get_after(3) [OF laws(2) keys(2) size, of ev w1 w]
    by (auto split: if_splits)
qed

text \<open>C30: A variable of the Windows environment is read back as it was set, whatever the case of its name, when the
  buffer has room for it and its terminator; a variable that was there keeps its value unless it is to be
  overwritten; unset, it is not found; and every other variable reads as before.
\<close>

theorem env_round_trip:
  assumes laws: "env_laws fs ev same" "text_laws fs"
    and keys: "win_env_name fs key = Inr name" "win_env_name fs key' = Inr name'"
    and sets: "sppc_setenv_win fs ev key val overwrite w = (0, w1)" "sppc_unsetenv_win fs ev key w1 = (0, w2)"
    and size: "0 < sz"
  shows "sppc_getenv_win fs ev key' sz w1 =
      (if \<not> same name name' \<or> (\<not> overwrite \<and> env_exists fs ev name w) then sppc_getenv_win fs ev key' sz w
       else if length val + 1 > sz then (SPPC_ERANGE, Some []) else (0, Some val)) \<and>
    sppc_getenv_win fs ev key' sz w2 =
      (if same name name' then (SPPC_ENOENT, Some []) else sppc_getenv_win fs ev key' sz w)"
  using setenv_reads [OF laws keys sets(1) size] unsetenv_reads [OF laws keys sets(2) size] by simp

definition plain_env :: "(wide \<Rightarrow> wide option) env_calls" where
  "plain_env = \<lparr>ev_get = \<lambda>name w. case w name of Some v \<Rightarrow> Inr v | None \<Rightarrow> Inl 203,
     ev_set = \<lambda>name v w. (0, w(name := v))\<rparr>"

definition plain_text :: "(wide \<Rightarrow> wide option) win_fs \<Rightarrow> (wide \<Rightarrow> wide option) win_fs" where
  "plain_text fs = fs\<lparr>wf_os := (\<lambda>n. if n = ''ERROR_SUCCESS'' then Some 0 else if n = ''ERROR_ENVVAR_NOT_FOUND'' then Some 203 else None),
     wf_mem := (\<lambda>_. True), wf_wide := (\<lambda>bs. Some (map ucast bs)), wf_utf8 := (\<lambda>w. Some (map ucast w))\<rparr>"

lemma env_round_trip_witness:
  "\<forall>fs. snd (sppc_getenv_win (plain_text fs) plain_env [72] 3
     (snd (sppc_setenv_win (plain_text fs) plain_env [72] [47, 114] True Map.empty))) = Some [47, 114]"
  (is "\<forall>fs. ?P fs")
proof
  fix fs
  have widen: "ucast (ucast b :: u16) = b" for b :: u8 by (rule bit_word_eqI) (auto simp: bit_simps)
  have laws: "env_laws (plain_text fs) plain_env (=)" "text_laws (plain_text fs)"
    by (auto simp: env_laws_def text_laws_def plain_env_def plain_text_def is_error_def comp_def widen
        split: option.splits)
  have key: "win_env_name (plain_text fs) [72] = Inr [72]"
    by (simp add: win_env_name_def win_wpath_def plain_text_def)
  have set1: "sppc_setenv_win (plain_text fs) plain_env [72] [47, 114] True Map.empty = (0, [[72] \<mapsto> [47, 114]])"
    unfolding sppc_setenv_win_def key by (simp add: env_value_def win_wpath_def plain_text_def plain_env_def)
  have unset: "sppc_unsetenv_win (plain_text fs) plain_env [72] [[72] \<mapsto> [47, 114]] = (0, Map.empty)"
    unfolding sppc_unsetenv_win_def key by (simp add: plain_env_def)
  show "?P fs" using env_round_trip [OF laws key key set1 unset, of 3] by (simp add: set1)
qed

text \<open>Signal 0 only asks: it opens a process, and closes it again.\<close>

lemma signal_asks_only:
  assumes "pr_open pr PROCESS_QUERY_LIMITED_INFORMATION (word_of_int pid) w = (opened, w1)" "0 < pid"
  shows "sppc_signal_win os pr pid 0 w =
    (case opened of Inl win \<Rightarrow> (signal_open_error os win, w1)
     | Inr h \<Rightarrow> (case pr_code pr h w1 of Some code \<Rightarrow> if code = STILL_ACTIVE then 0 else SPPC_ESRCH | None \<Rightarrow> 0, pr_close pr h w1))"
  using assms by (auto simp: sppc_signal_win_def signal_refusal_def split: sum.splits option.splits)

end
