(* ===== verification/WinMaps.thy ===== *)
theory WinMaps
  imports WinControl WinProcess PosixCalls
begin

text \<open>
  Memory mappings on Windows (platform/windows.h, MEMORY MAPPINGS). What Windows says of an address and does to a range
  are arguments over a world of any type; sppc's own list of views is state beside it. Addresses are integers:
  a range that would wrap is refused before anything is done. A loop over the regions of a range is \<^verbatim>\<open>walk\<close>, with
  the range's bytes for fuel (each round goes at least one further, see \<^verbatim>\<open>query_ok\<close>); None is a call that never returns.
\<close>

section \<open>Windows' calls\<close>

text \<open>MEMORY_BASIC_INFORMATION.\<close>

record mem_info =
  mi_base :: int
  mi_size :: int
  mi_alloc :: int
  mi_alloc_protect :: int
  mi_state :: int
  mi_type :: int
  mi_protect :: int

definition PAGE_READWRITE :: int where "PAGE_READWRITE = 4"
definition PAGE_WRITECOPY :: int where "PAGE_WRITECOPY = 8"
definition PAGE_EXECUTE_READWRITE :: int where "PAGE_EXECUTE_READWRITE = 0x40"
definition PAGE_EXECUTE_WRITECOPY :: int where "PAGE_EXECUTE_WRITECOPY = 0x80"
definition MEM_COMMIT :: int where "MEM_COMMIT = 0x1000"
definition MEM_RESERVE :: int where "MEM_RESERVE = 0x2000"
definition MEM_RESET :: int where "MEM_RESET = 0x80000"
definition MEM_DECOMMIT :: int where "MEM_DECOMMIT = 0x4000"
definition MEM_RELEASE :: int where "MEM_RELEASE = 0x8000"
definition MEM_PRIVATE :: int where "MEM_PRIVATE = 0x20000"
definition MEM_MAPPED :: int where "MEM_MAPPED = 0x40000"
definition MEM_IMAGE :: int where "MEM_IMAGE = 0x1000000"

record 'w win_mem =
  wm_os :: os_macros
  wm_page :: int
  wm_granularity :: int
  wm_list :: bool                                            \<comment> \<open>memory for an entry of the list\<close>
  wm_query :: "int \<Rightarrow> 'w \<Rightarrow> mem_info option"
  wm_alloc :: "int option \<Rightarrow> int \<Rightarrow> int \<Rightarrow> int \<Rightarrow> 'w \<Rightarrow> (int + int) \<times> 'w"  \<comment> \<open>VirtualAlloc: address, size, type, protection\<close>
  wm_free :: "int \<Rightarrow> int \<Rightarrow> int \<Rightarrow> 'w \<Rightarrow> int \<times> 'w"              \<comment> \<open>VirtualFree: address, size, type\<close>
  wm_protect :: "int \<Rightarrow> int \<Rightarrow> int \<Rightarrow> 'w \<Rightarrow> int \<times> 'w"
  wm_section :: "nat option \<Rightarrow> int \<Rightarrow> int \<Rightarrow> 'w \<Rightarrow> nat option \<times> 'w"   \<comment> \<open>CreateFileMappingW: file, protection, size\<close>
  wm_map :: "nat \<Rightarrow> int \<Rightarrow> int \<Rightarrow> int \<Rightarrow> 'w \<Rightarrow> int option \<times> 'w"      \<comment> \<open>MapViewOfFile: section, access, start, size\<close>
  wm_unmap :: "int \<Rightarrow> 'w \<Rightarrow> int \<times> 'w"
  wm_close :: "nat \<Rightarrow> 'w \<Rightarrow> 'w"
  wm_file_size :: "nat \<Rightarrow> 'w \<Rightarrow> int option"
  wm_reopen :: "nat \<Rightarrow> int \<Rightarrow> 'w \<Rightarrow> nat option \<times> 'w"
  wm_duplicate :: "nat \<Rightarrow> 'w \<Rightarrow> nat option \<times> 'w"
  wm_flush_view :: "int \<Rightarrow> int \<Rightarrow> 'w \<Rightarrow> int \<times> 'w"
  wm_flush_file :: "nat \<Rightarrow> 'w \<Rightarrow> int \<times> 'w"
  wm_working :: "int list \<Rightarrow> 'w \<Rightarrow> int + bool list"          \<comment> \<open>QueryWorkingSetEx: which are there and locked\<close>
  wm_lock :: "int \<Rightarrow> int \<Rightarrow> 'w \<Rightarrow> int \<times> 'w"
  wm_unlock :: "int \<Rightarrow> int \<Rightarrow> 'w \<Rightarrow> int \<times> 'w"
  wm_set_size :: "'w \<Rightarrow> int + int \<times> int"                \<comment> \<open>GetProcessWorkingSetSize\<close>
  wm_grow :: "int \<Rightarrow> int \<Rightarrow> 'w \<Rightarrow> int \<times> 'w"              \<comment> \<open>SetProcessWorkingSetSize\<close>
  wm_prefetch :: "int \<Rightarrow> int \<Rightarrow> 'w \<Rightarrow> 'w"
  wm_discard :: "int \<Rightarrow> int \<Rightarrow> 'w \<Rightarrow> int \<times> 'w"

record win_view =
  vw_base :: int
  vw_start :: int
  vw_file :: "nat option"

record 'w maps =
  mp_views :: "win_view list"
  mp_world :: 'w

definition mem_errno :: "'w win_mem \<Rightarrow> int \<Rightarrow> int" where "mem_errno wm win = sppc_errno_win32 (wm_os wm) win"
definition mem_error :: "'w win_mem \<Rightarrow> int \<Rightarrow> string \<Rightarrow> bool" where "mem_error wm win name \<longleftrightarrow> wm_os wm name = Some win"

definition region_end :: "mem_info \<Rightarrow> int" where "region_end m = mi_base m + mi_size m"

section \<open>Pages and regions\<close>

definition page_protects :: "int list" where "page_protects = [1, 2, 4, 4, 0x10, 0x20, 0x40, 0x40]"

definition win_page_protect :: "int \<Rightarrow> bool \<Rightarrow> int" where
  "win_page_protect prot copy =
     (let p = page_protects ! nat (prot AND 7) in
      if copy \<and> p = PAGE_READWRITE then PAGE_WRITECOPY
      else if copy \<and> p = PAGE_EXECUTE_READWRITE then PAGE_EXECUTE_WRITECOPY else p)"

definition win_is_copy_view :: "mem_info \<Rightarrow> bool" where
  "win_is_copy_view m \<longleftrightarrow> mi_type m = MEM_MAPPED \<and>
     (mi_alloc_protect m = PAGE_WRITECOPY \<or> mi_alloc_protect m = PAGE_EXECUTE_WRITECOPY)"

fun alloc_end_loop :: "nat \<Rightarrow> 'w win_mem \<Rightarrow> int \<Rightarrow> int \<Rightarrow> 'w \<Rightarrow> int option" where
  "alloc_end_loop n wm base at w =
     (case wm_query wm at w of
        Some m \<Rightarrow>
          if mi_alloc m \<noteq> base then Some at
          else if n = 0 then None else alloc_end_loop (n - 1) wm base (region_end m) w
      | None \<Rightarrow> Some at)"

declare alloc_end_loop.simps [simp del]

definition ADDRESSES :: int where "ADDRESSES = 2 ^ 64"

definition win_alloc_end :: "'w win_mem \<Rightarrow> int \<Rightarrow> 'w \<Rightarrow> int option" where
  "win_alloc_end wm base w = alloc_end_loop (nat (ADDRESSES - base)) wm base base w"

definition win_page_range :: "'w win_mem \<Rightarrow> u64 \<Rightarrow> u64 \<Rightarrow> bool \<Rightarrow> int + int \<times> int" where
  "win_page_range wm addr len round =
     (let page = wm_page wm; off = uint addr mod page; last' = addr + len in
      if off \<noteq> 0 \<and> \<not> round then Inl SPPC_EINVAL
      else if last' < addr \<or> uint last' > ADDRESSES - 1 - page then Inl SPPC_EINVAL
      else Inr (uint addr - off, (uint last' + page - 1) div page * page))"

text \<open>
  A loop over [at, stop): the body's error ends it, or it goes on from the address given. None is a loop that goes on
  for ever, or a body that does not return.
\<close>

fun walk :: "nat \<Rightarrow> (int \<Rightarrow> 's \<Rightarrow> ((int + int) \<times> 's) option) \<Rightarrow> int \<Rightarrow> int \<Rightarrow> 's \<Rightarrow> (int \<times> 's) option" where
  "walk n body at stop s =
     (if at \<ge> stop then Some (0, s)
      else if n = 0 then None
      else case body at s of
        None \<Rightarrow> None
      | Some (Inl err, s1) \<Rightarrow> Some (err, s1)
      | Some (Inr at1, s1) \<Rightarrow> walk (n - 1) body at1 stop s1)"

declare walk.simps [simp del]

definition over :: "(int \<Rightarrow> 's \<Rightarrow> ((int + int) \<times> 's) option) \<Rightarrow> int \<Rightarrow> int \<Rightarrow> 's \<Rightarrow> (int \<times> 's) option" where
  "over body start stop s = walk (nat (stop - start)) body start stop s"

definition win_all_mapped :: "'w win_mem \<Rightarrow> int \<Rightarrow> int \<Rightarrow> 'w \<Rightarrow> int option" where
  "win_all_mapped wm start stop w =
     map_option fst (over (\<lambda>at w. case wm_query wm at w of
          Some m \<Rightarrow> Some (if mi_state m \<noteq> MEM_COMMIT then Inl SPPC_ENOMEM else Inr (region_end m), w)
        | None \<Rightarrow> Some (Inl SPPC_ENOMEM, w)) start stop w)"

section \<open>Locked pages\<close>

definition page_batch :: "'w win_mem \<Rightarrow> int \<Rightarrow> int \<Rightarrow> int list" where
  "page_batch wm at stop = takeWhile (\<lambda>a. a < stop) (map (\<lambda>n. at + int n * wm_page wm) [0..<64])"

text \<open>One batch's pages in turn; the error, and whether one was locked.\<close>

primrec batch_loop :: "'w win_mem \<Rightarrow> bool \<Rightarrow> (int \<times> bool) list \<Rightarrow> bool \<Rightarrow> 'w \<Rightarrow> int \<times> bool \<times> 'w" where
  "batch_loop wm unlock [] any w = (0, any, w)"
| "batch_loop wm unlock (p # ps) any w =
     (if \<not> snd p then batch_loop wm unlock ps any w
      else if \<not> unlock then batch_loop wm unlock ps True w
      else let (win, w1) = wm_unlock wm (fst p) (wm_page wm) w
        in if win \<noteq> 0 \<and> \<not> mem_error wm win ''ERROR_NOT_LOCKED'' then (mem_errno wm win, True, w1)
           else batch_loop wm unlock ps True w1)"

definition win_locked_pages :: "'w win_mem \<Rightarrow> int \<Rightarrow> int \<Rightarrow> bool \<Rightarrow> 'w \<Rightarrow> (int \<times> bool \<times> 'w) option" where
  "win_locked_pages wm start stop unlock w =
     over (\<lambda>at (any, w).
         let pages = page_batch wm at stop in
         case wm_working wm pages w of
           Inl win \<Rightarrow> Some (Inl (mem_errno wm win), any, w)
         | Inr locked \<Rightarrow>
             (case batch_loop wm unlock (zip pages locked) any w of
                (err, any1, w1) \<Rightarrow>
                  Some (if err \<noteq> 0 then Inl err else Inr (at + int (length pages) * wm_page wm), any1, w1)))
       start stop (False, w)"

section \<open>The list of views\<close>

definition win_view_add :: "'w win_mem \<Rightarrow> int \<Rightarrow> int \<Rightarrow> nat option \<Rightarrow> 'w maps \<Rightarrow> bool \<times> 'w maps" where
  "win_view_add wm base start file s =
     (if wm_list wm
      then (True, s\<lparr>mp_views := \<lparr>vw_base = base, vw_start = start, vw_file = file\<rparr> # mp_views s\<rparr>)
      else (False, s))"

definition view_at :: "int \<Rightarrow> 'w maps \<Rightarrow> win_view option" where
  "view_at base s = List.find (\<lambda>v. vw_base v = base) (mp_views s)"

definition win_view_start :: "int \<Rightarrow> 'w maps \<Rightarrow> int" where
  "win_view_start base s = (case view_at base s of Some v \<Rightarrow> vw_start v | None \<Rightarrow> base)"

primrec drop_view :: "int \<Rightarrow> win_view list \<Rightarrow> win_view list" where
  "drop_view base [] = []"
| "drop_view base (v # vs) = (if vw_base v = base then vs else v # drop_view base vs)"

definition win_view_forget :: "'w win_mem \<Rightarrow> int \<Rightarrow> 'w maps \<Rightarrow> 'w maps" where
  "win_view_forget wm base s =
     (case view_at base s of
        None \<Rightarrow> s
      | Some v \<Rightarrow>
          s\<lparr>mp_views := drop_view base (mp_views s),
            mp_world := (case vw_file v of Some h \<Rightarrow> wm_close wm h (mp_world s) | None \<Rightarrow> mp_world s)\<rparr>)"

definition win_view_flush_file :: "'w win_mem \<Rightarrow> int \<Rightarrow> 'w maps \<Rightarrow> int \<times> 'w maps" where
  "win_view_flush_file wm base s =
     (case view_at base s of
        None \<Rightarrow> (0, s)
      | Some v \<Rightarrow>
          (case vw_file v of
             None \<Rightarrow> (0, s)
           | Some h \<Rightarrow>
               (case wm_flush_file wm h (mp_world s) of
                  (win, w1) \<Rightarrow> (if win = 0 then 0 else mem_errno wm win, s\<lparr>mp_world := w1\<rparr>))))"

section \<open>Making mappings\<close>

definition FILE_MAP_COPY :: int where "FILE_MAP_COPY = 1"
definition FILE_MAP_WRITE :: int where "FILE_MAP_WRITE = 2"
definition FILE_MAP_READ :: int where "FILE_MAP_READ = 4"
definition FILE_MAP_EXECUTE :: int where "FILE_MAP_EXECUTE = 0x20"
definition GENERIC_EXECUTE :: int where "GENERIC_EXECUTE = 0x20000000"

definition section_protect :: "bool \<Rightarrow> bool \<Rightarrow> bool \<Rightarrow> int" where
  "section_protect shared wr exec =
     (if \<not> shared then if exec then PAGE_EXECUTE_WRITECOPY else PAGE_WRITECOPY
      else if wr then if exec then PAGE_EXECUTE_READWRITE else PAGE_READWRITE
      else if exec then 0x20 else 2)"

definition view_access :: "bool \<Rightarrow> bool \<Rightarrow> bool \<Rightarrow> int" where
  "view_access shared wr exec =
     (if \<not> shared then FILE_MAP_COPY else if wr then FILE_MAP_WRITE else FILE_MAP_READ) OR
     (if exec then FILE_MAP_EXECUTE else 0)"

definition map_world :: "('w \<Rightarrow> 'a \<times> 'w) \<Rightarrow> 'w maps \<Rightarrow> 'a \<times> 'w maps" where
  "map_world f s = (case f (mp_world s) of (x, w1) \<Rightarrow> (x, s\<lparr>mp_world := w1\<rparr>))"

definition close_if :: "'w win_mem \<Rightarrow> nat option \<Rightarrow> 'w maps \<Rightarrow> 'w maps" where
  "close_if wm h s = (case h of Some h' \<Rightarrow> s\<lparr>mp_world := wm_close wm h' (mp_world s)\<rparr> | None \<Rightarrow> s)"

text \<open>The view made, protected and listed; whether all three went well.\<close>

definition view_kept :: "'w win_mem \<Rightarrow> int \<Rightarrow> int \<Rightarrow> int \<Rightarrow> int \<Rightarrow> nat option \<Rightarrow> 'w maps \<Rightarrow> bool \<times> 'w maps" where
  "view_kept wm base view protect offset keep s =
     (case map_world (wm_protect wm base view protect) s of
        (win, s1) \<Rightarrow> if win \<noteq> 0 then (False, s1) else win_view_add wm base (base + offset) keep s1)"

definition win_map_view ::
  "'w win_mem \<Rightarrow> nat option \<Rightarrow> bool \<Rightarrow> bool \<Rightarrow> int \<Rightarrow> int \<Rightarrow> int \<Rightarrow> nat option \<Rightarrow> 'w maps \<Rightarrow> int option \<times> 'w maps" where
  "win_map_view wm file shared wr prot offset len keep s =
     (let start = offset - offset mod wm_granularity wm;
          view = (offset - start + len) mod ADDRESSES;
          exec = (prot AND SPPC_PROT_EXEC \<noteq> 0);
          (sec, s1) = map_world (wm_section wm file (section_protect shared wr exec) (if file = None then len else 0)) s;
          (base, s2) = (case sec of None \<Rightarrow> (None, s1)
             | Some h \<Rightarrow> map_world (wm_map wm h (view_access shared wr exec) start view) s1);
          s3 = close_if wm sec s2
      in case base of
           None \<Rightarrow> (None, close_if wm keep s3)
         | Some b \<Rightarrow>
             (case view_kept wm b view (win_page_protect prot (\<not> shared)) (offset - start) keep s3 of
                (True, s4) \<Rightarrow> (Some (b + (offset - start)), s4)
              | (False, s4) \<Rightarrow> (None, close_if wm keep (snd (map_world (wm_unmap wm b) s4)))))"

definition in_file_pages :: "'w win_mem \<Rightarrow> int \<Rightarrow> int" where
  "in_file_pages wm bytes =
     bytes div wm_page wm * wm_page wm + (if bytes mod wm_page wm \<noteq> 0 then wm_page wm else 0)"

text \<open>Whether the descriptor's file may be mapped so, and its size.\<close>

definition mappable :: "'w win_mem \<Rightarrow> ofd \<Rightarrow> int \<Rightarrow> bool \<Rightarrow> 'w \<Rightarrow> int option" where
  "mappable wm o' prot shared w =
     (let wr = shared \<and> od_access o' AND FD_WRITE \<noteq> 0 in
      if od_kind o' = FdHandle \<and> od_disk o' \<and> od_access o' AND FD_READ \<noteq> 0 \<and>
         \<not> (shared \<and> prot AND SPPC_PROT_WRITE \<noteq> 0 \<and> \<not> wr)
      then wm_file_size wm (od_handle o') w else None)"

text \<open>The mapping of a file by the handle it is mapped from, its own if it is to be executed.\<close>

definition map_handle ::
  "'w win_mem \<Rightarrow> nat \<Rightarrow> nat \<Rightarrow> bool \<Rightarrow> bool \<Rightarrow> int \<Rightarrow> int \<Rightarrow> int \<Rightarrow> 'w maps \<Rightarrow> int option \<times> 'w maps" where
  "map_handle wm own file shared wr prot at in_file s =
     (let (keep, s1) =
        (if wr \<and> file \<noteq> own then (Some file, s)
         else if wr then map_world (wm_duplicate wm file) s
         else (None, s));
          (p, s2) = (if \<not> wr \<or> keep \<noteq> None then win_map_view wm (Some file) shared wr prot at in_file keep s1
                     else (None, s1))
      in (p, if file \<noteq> own \<and> keep \<noteq> Some file then close_if wm (Some file) s2 else s2))"

definition win_mmap_file ::
  "'w win_mem \<Rightarrow> fd_env \<Rightarrow> int \<Rightarrow> int \<Rightarrow> int \<Rightarrow> bool \<Rightarrow> int \<Rightarrow> fd_table \<Rightarrow> 'w maps \<Rightarrow> int option \<times> fd_table \<times> 'w maps" where
  "win_mmap_file wm e fd len prot shared at =
     on_fd e fd None (\<lambda>o' s.
       case mappable wm o' prot shared (mp_world s) of
         None \<Rightarrow> (None, o', s)
       | Some bytes \<Rightarrow>
           if at < bytes \<and> len \<le> in_file_pages wm bytes - at
           then (let in_file = (if bytes - at < len then bytes - at else len);
                     wr = (shared \<and> od_access o' AND FD_WRITE \<noteq> 0);
                     (file, s1) =
                       (if prot AND SPPC_PROT_EXEC \<noteq> 0
                        then map_world (wm_reopen wm (od_handle o')
                               ((GENERIC_READ OR GENERIC_EXECUTE) OR (if wr then GENERIC_WRITE else 0))) s
                        else (Some (od_handle o'), s))
                 in case file of
                      None \<Rightarrow> (None, o', s1)
                    | Some h \<Rightarrow>
                        (case map_handle wm (od_handle o') h shared wr prot at in_file s1 of (p, s2) \<Rightarrow> (p, o', s2)))
           else (None, o', s))"

definition MMAP_FLAGS :: int where
  "MMAP_FLAGS = ((SPPC_MAP_SHARED OR SPPC_MAP_PRIVATE) OR SPPC_MAP_ANONYMOUS) OR SPPC_MAP_NORESERVE"

definition sppc_mmap_win ::
  "'w win_mem \<Rightarrow> fd_env \<Rightarrow> int \<Rightarrow> int \<Rightarrow> int \<Rightarrow> int \<Rightarrow> int \<Rightarrow> fd_table \<Rightarrow> 'w maps \<Rightarrow> int option \<times> fd_table \<times> 'w maps" where
  "sppc_mmap_win wm e fd len prot flags offset t s =
     (let sharing = flags AND (SPPC_MAP_SHARED OR SPPC_MAP_PRIVATE);
          shared = (sharing = SPPC_MAP_SHARED) in
      if prot AND NOT PROT_ALL \<noteq> 0 \<or> flags AND NOT MMAP_FLAGS \<noteq> 0 \<or> len = 0 \<or> offset < 0 \<or>
         (sharing \<noteq> SPPC_MAP_SHARED \<and> sharing \<noteq> SPPC_MAP_PRIVATE) \<or> offset mod wm_page wm \<noteq> 0
      then (None, t, s)
      else if flags AND SPPC_MAP_ANONYMOUS \<noteq> 0
      then if \<not> shared
           then (case map_world (wm_alloc wm None len (MEM_RESERVE OR MEM_COMMIT) (win_page_protect prot False)) s of
                   (Inr p, s1) \<Rightarrow> (Some p, t, s1)
                 | (Inl win, s1) \<Rightarrow> (None, t, s1))
           else (case win_map_view wm None True True prot 0 len None s of (p, s1) \<Rightarrow> (p, t, s1))
      else win_mmap_file wm e fd len prot shared offset t s)"

section \<open>Changing mappings\<close>

text \<open>A range's own part of a region; what is asked of an address not mapped never is, the range looked over first.\<close>

definition part_end :: "mem_info \<Rightarrow> int \<Rightarrow> int" where
  "part_end m stop = (if region_end m < stop then region_end m else stop)"

definition each_region ::
  "'w win_mem \<Rightarrow> (int \<Rightarrow> mem_info \<Rightarrow> 'w maps \<Rightarrow> int \<times> 'w maps) \<Rightarrow> int \<Rightarrow> int \<Rightarrow> 'w maps \<Rightarrow> (int \<times> 'w maps) option" where
  "each_region wm act =
     over (\<lambda>at s. case wm_query wm at (mp_world s) of
         None \<Rightarrow> None
       | Some m \<Rightarrow> (case act at m s of (err, s1) \<Rightarrow> Some (if err \<noteq> 0 then Inl err else Inr (region_end m), s1)))"

definition sppc_memprotect_win ::
  "'w win_mem \<Rightarrow> u64 \<Rightarrow> u64 \<Rightarrow> int \<Rightarrow> 'w maps \<Rightarrow> (int \<times> 'w maps) option" where
  "sppc_memprotect_win wm addr len prot s =
     (if prot AND NOT PROT_ALL \<noteq> 0 then Some (SPPC_EINVAL, s)
      else case win_page_range wm addr len False of
        Inl err \<Rightarrow> Some (err, s)
      | Inr (start, stop) \<Rightarrow>
          (case win_all_mapped wm start stop (mp_world s) of
             None \<Rightarrow> None
           | Some err \<Rightarrow>
               if err \<noteq> 0 then Some (err, s)
               else each_region wm (\<lambda>at m s.
                      case map_world (wm_protect wm at (part_end m stop - at) (win_page_protect prot (win_is_copy_view m))) s of
                        (win, s1) \<Rightarrow>
                          (if win = 0 then 0
                           else if mem_error wm win ''ERROR_INVALID_PARAMETER'' \<or> mem_error wm win ''ERROR_DYNAMIC_CODE_BLOCKED''
                           then SPPC_EACCES else mem_errno wm win, s1)) start stop s))"

text \<open>Whether the allocation at base has a page left.\<close>

fun any_left_loop :: "nat \<Rightarrow> 'w win_mem \<Rightarrow> int \<Rightarrow> int \<Rightarrow> 'w \<Rightarrow> bool option" where
  "any_left_loop n wm base r w =
     (case wm_query wm r w of
        None \<Rightarrow> Some False
      | Some m \<Rightarrow>
          if mi_alloc m \<noteq> base then Some False
          else if mi_state m = MEM_COMMIT then Some True
          else if n = 0 then None else any_left_loop (n - 1) wm base (region_end m) w)"

declare any_left_loop.simps [simp del]

definition any_left :: "'w win_mem \<Rightarrow> int \<Rightarrow> 'w \<Rightarrow> bool option" where
  "any_left wm base w = any_left_loop (nat (ADDRESSES - base)) wm base base w"

text \<open>The pages of private memory at one address given back; its address range too once none is left.\<close>

definition give_back ::
  "'w win_mem \<Rightarrow> int \<Rightarrow> mem_info \<Rightarrow> int \<Rightarrow> 'w maps \<Rightarrow> ((int + int) \<times> 'w maps) option" where
  "give_back wm at m stop s =
     (case map_world (wm_free wm at (part_end m stop - at) MEM_DECOMMIT) s of
        (win, s1) \<Rightarrow>
          if win \<noteq> 0 then Some (Inl (mem_errno wm win), s1)
          else (case any_left wm (mi_alloc m) (mp_world s1) of
                  None \<Rightarrow> None
                | Some left \<Rightarrow>
                    Some (Inr (part_end m stop),
                      if left then s1 else snd (map_world (wm_free wm (mi_alloc m) 0 MEM_RELEASE) s1))))"

definition munmap_step ::
  "'w win_mem \<Rightarrow> bool \<Rightarrow> int \<Rightarrow> int \<Rightarrow> int \<Rightarrow> 'w maps \<Rightarrow> ((int + int) \<times> 'w maps) option" where
  "munmap_step wm second start stop at s =
     (case wm_query wm at (mp_world s) of
        None \<Rightarrow> Some (Inr stop, s)
      | Some m \<Rightarrow>
          if mi_state m \<noteq> MEM_COMMIT then Some (Inr (region_end m), s)
          else if mi_type m = MEM_IMAGE then Some (Inl SPPC_EINVAL, s)
          else if mi_type m = MEM_MAPPED
          then (case win_alloc_end wm (mi_alloc m) (mp_world s) of
                  None \<Rightarrow> None
                | Some after \<Rightarrow>
                    if \<not> second
                    then Some (if win_view_start (mi_alloc m) s < start \<or> after > stop then Inl SPPC_EINVAL else Inr after, s)
                    else (case map_world (wm_unmap wm (mi_alloc m)) (win_view_forget wm (mi_alloc m) s) of
                            (win, s1) \<Rightarrow> Some (if win \<noteq> 0 then Inl (mem_errno wm win) else Inr after, s1)))
          else if second then give_back wm at m stop s
          else Some (Inr (region_end m), s))"

definition sppc_munmap_win :: "'w win_mem \<Rightarrow> u64 \<Rightarrow> u64 \<Rightarrow> 'w maps \<Rightarrow> (int \<times> 'w maps) option" where
  "sppc_munmap_win wm addr len s =
     (if len = 0 then Some (SPPC_EINVAL, s)
      else case win_page_range wm addr len False of
        Inl err \<Rightarrow> Some (err, s)
      | Inr (start, stop) \<Rightarrow>
          (case over (munmap_step wm False start stop) start stop s of
             None \<Rightarrow> None
           | Some (err, s1) \<Rightarrow>
               if err \<noteq> 0 then Some (err, s1) else over (munmap_step wm True start stop) start stop s1))"

section \<open>Advice and locks\<close>

definition sppc_msync_win :: "'w win_mem \<Rightarrow> u64 \<Rightarrow> u64 \<Rightarrow> int \<Rightarrow> 'w maps \<Rightarrow> (int \<times> 'w maps) option" where
  "sppc_msync_win wm addr len flags s =
     (if flags AND NOT ((SPPC_MS_ASYNC OR SPPC_MS_INVALIDATE) OR SPPC_MS_SYNC) \<noteq> 0 \<or>
         flags AND (SPPC_MS_ASYNC OR SPPC_MS_SYNC) = (SPPC_MS_ASYNC OR SPPC_MS_SYNC)
      then Some (SPPC_EINVAL, s)
      else case win_page_range wm addr len False of
        Inl err \<Rightarrow> Some (err, s)
      | Inr (start, stop) \<Rightarrow>
          (case win_all_mapped wm start stop (mp_world s) of
             None \<Rightarrow> None
           | Some err \<Rightarrow>
               if err \<noteq> 0 then Some (err, s)
               else each_region wm (\<lambda>at m s.
                      if mi_type m \<noteq> MEM_MAPPED \<or> win_is_copy_view m then (0, s)
                      else (case map_world (wm_flush_view wm at (part_end m stop - at)) s of
                              (win, s1) \<Rightarrow>
                                if win \<noteq> 0 then (mem_errno wm win, s1)
                                else if flags AND SPPC_MS_SYNC \<noteq> 0 then win_view_flush_file wm (mi_alloc m) s1
                                else (0, s1))) start stop s))"

text \<open>One region emptied, as Linux's MADV_DONTNEED, or let go of if Windows likes, as MADV_FREE.\<close>

definition empty_region :: "'w win_mem \<Rightarrow> int \<Rightarrow> int \<Rightarrow> int \<Rightarrow> mem_info \<Rightarrow> 'w maps \<Rightarrow> int \<times> 'w maps" where
  "empty_region wm advice stop at m s =
     (let n = part_end m stop - at in
      if mi_type m = MEM_MAPPED then (0, s)
      else if advice = SPPC_MADV_FREE
      then (case map_world (wm_discard wm at n) s of
              (win, s1) \<Rightarrow> (0, if win \<noteq> 0 then snd (map_world (wm_alloc wm (Some at) n MEM_RESET 1) s1) else s1))
      else (case map_world (wm_free wm at n MEM_DECOMMIT) s of
              (win, s1) \<Rightarrow>
                if win \<noteq> 0 then (mem_errno wm win, s1)
                else (case map_world (wm_alloc wm (Some at) n MEM_COMMIT (mi_protect m)) s1 of
                        (Inl win, s2) \<Rightarrow> (mem_errno wm win, s2)
                      | (Inr _, s2) \<Rightarrow> (0, s2))))"

definition give_up :: "'w win_mem \<Rightarrow> int \<Rightarrow> int \<Rightarrow> int \<Rightarrow> 'w maps \<Rightarrow> (int \<times> 'w maps) option" where
  "give_up wm advice start stop s =
     (case win_locked_pages wm start stop False (mp_world s) of
        None \<Rightarrow> None
      | Some (err, locked, w1) \<Rightarrow>
          if err \<noteq> 0 then Some (err, s\<lparr>mp_world := w1\<rparr>)
          else if locked then Some (SPPC_EINVAL, s\<lparr>mp_world := w1\<rparr>)
          else (case each_region wm (\<lambda>at m s.
                       (if mi_type m \<noteq> MEM_PRIVATE \<and> advice = SPPC_MADV_FREE then SPPC_EINVAL
                        else if win_is_copy_view m then SPPC_ENOSYS else 0, s)) start stop (s\<lparr>mp_world := w1\<rparr>) of
                  None \<Rightarrow> None
                | Some (err, s1) \<Rightarrow>
                    if err \<noteq> 0 then Some (err, s1) else each_region wm (empty_region wm advice stop) start stop s1))"

definition sppc_madvise_win :: "'w win_mem \<Rightarrow> u64 \<Rightarrow> u64 \<Rightarrow> int \<Rightarrow> 'w maps \<Rightarrow> (int \<times> 'w maps) option" where
  "sppc_madvise_win wm addr len advice s =
     (if advice \<notin> {SPPC_MADV_NORMAL, SPPC_MADV_RANDOM, SPPC_MADV_SEQUENTIAL, SPPC_MADV_WILLNEED, SPPC_MADV_DONTNEED,
         SPPC_MADV_FREE}
      then Some (SPPC_EINVAL, s)
      else case win_page_range wm addr len False of
        Inl err \<Rightarrow> Some (err, s)
      | Inr (start, stop) \<Rightarrow>
          (case win_all_mapped wm start stop (mp_world s) of
             None \<Rightarrow> None
           | Some err \<Rightarrow>
               if err \<noteq> 0 then Some (err, s)
               else if start = stop then Some (0, s)
               else if advice = SPPC_MADV_WILLNEED
               then Some (0, s\<lparr>mp_world := wm_prefetch wm start (stop - start) (mp_world s)\<rparr>)
               else if advice \<noteq> SPPC_MADV_DONTNEED \<and> advice \<noteq> SPPC_MADV_FREE then Some (0, s)
               else give_up wm advice start stop s))"

text \<open>A lock the quota refused, with the quota raised by what is asked.\<close>

definition lock_more :: "'w win_mem \<Rightarrow> int \<Rightarrow> int \<Rightarrow> 'w \<Rightarrow> int \<times> 'w" where
  "lock_more wm start n w =
     (case wm_set_size wm w of
        Inl win \<Rightarrow> (mem_errno wm win, w)
      | Inr (low, high) \<Rightarrow>
          (case wm_grow wm (low + n) (if high > low + n then high else low + n) w of
             (win, w1) \<Rightarrow>
               if win \<noteq> 0 then (mem_errno wm win, w1)
               else (case wm_lock wm start n w1 of (win, w2) \<Rightarrow> (if win = 0 then 0 else mem_errno wm win, w2))))"

definition sppc_mlock_win :: "'w win_mem \<Rightarrow> u64 \<Rightarrow> u64 \<Rightarrow> 'w \<Rightarrow> (int \<times> 'w) option" where
  "sppc_mlock_win wm addr len w =
     (case win_page_range wm addr len True of
        Inl err \<Rightarrow> Some (err, w)
      | Inr (start, stop) \<Rightarrow>
          if start = stop then Some (0, w)
          else (case win_all_mapped wm start stop w of
                  None \<Rightarrow> None
                | Some err \<Rightarrow>
                    if err \<noteq> 0 then Some (err, w)
                    else (case wm_lock wm start (stop - start) w of
                            (win, w1) \<Rightarrow>
                              if win = 0 then Some (0, w1)
                              else if mem_error wm win ''ERROR_WORKING_SET_QUOTA''
                              then Some (lock_more wm start (stop - start) w1)
                              else Some (mem_errno wm win, w1))))"

definition sppc_munlock_win :: "'w win_mem \<Rightarrow> u64 \<Rightarrow> u64 \<Rightarrow> 'w \<Rightarrow> (int \<times> 'w) option" where
  "sppc_munlock_win wm addr len w =
     (case win_page_range wm addr len True of
        Inl err \<Rightarrow> Some (err, w)
      | Inr (start, stop) \<Rightarrow>
          (case win_all_mapped wm start stop w of
             None \<Rightarrow> None
           | Some err \<Rightarrow>
               if err \<noteq> 0 then Some (err, w)
               else map_option (\<lambda>(err, any, w). (err, w)) (win_locked_pages wm start stop True w)))"

section \<open>Loops end\<close>

lemma walk_rule:
  assumes step: "\<And>at s. start \<le> at \<Longrightarrow> at < stop \<Longrightarrow> J at s \<Longrightarrow>
      (\<exists>err s1. body at s = Some (Inl err, s1) \<and> Q err s1) \<or>
      (\<exists>at1 s1. body at s = Some (Inr at1, s1) \<and> at < at1 \<and> J at1 s1)"
    and stops: "\<And>at s. stop \<le> at \<Longrightarrow> J at s \<Longrightarrow> Q 0 s"
  shows "start \<le> at \<Longrightarrow> J at s \<Longrightarrow> nat (stop - at) \<le> n \<Longrightarrow> \<exists>err s1. walk n body at stop s = Some (err, s1) \<and> Q err s1"
proof (induction n arbitrary: at s)
  case 0
  then show ?case using stops by (simp add: walk.simps)
next
  case (Suc n)
  show ?case
  proof (cases "stop \<le> at")
    case True
    then show ?thesis using stops Suc.prems by (simp add: walk.simps)
  next
    case False
    then consider err s1 where "body at s = Some (Inl err, s1)" "Q err s1"
      | at1 s1 where "body at s = Some (Inr at1, s1)" "at < at1" "J at1 s1"
      using step [of at s] Suc.prems by force
    then show ?thesis
    proof cases
      case 1
      then show ?thesis using False by (simp add: walk.simps [of "Suc n"])
    next
      case 2
      then have "\<exists>err s2. walk n body at1 stop s1 = Some (err, s2) \<and> Q err s2"
        using Suc.IH [of at1 s1] Suc.prems by simp
      then show ?thesis using 2 False by (simp add: walk.simps [of "Suc n"])
    qed
  qed
qed

lemmas over_rule = walk_rule [OF _ _ order_refl _ order_refl, folded over_def]

section \<open>What Windows documents of memory\<close>

text \<open>A committed page's type, allocation and protection.\<close>

definition held :: "'w win_mem \<Rightarrow> 'w \<Rightarrow> int \<Rightarrow> (int \<times> int \<times> int) option" where
  "held wm w b =
     (case wm_query wm b w of
        Some m \<Rightarrow> if mi_state m = MEM_COMMIT then Some (mi_type m, mi_alloc m, mi_protect m) else None
      | None \<Rightarrow> None)"

text \<open>
  A region holds the address asked about, and its pages are alike; addresses end somewhere; an allocation
  runs on from its base; a view is committed whole.
\<close>

definition query_ok :: "'w win_mem \<Rightarrow> bool" where
  "query_ok wm \<longleftrightarrow>
     (\<forall>w at m. wm_query wm at w = Some m \<longrightarrow>
        mi_base m \<le> at \<and> at < region_end m \<and> region_end m \<le> ADDRESSES \<and>
        (\<forall>b. at \<le> b \<and> b < region_end m \<longrightarrow>
           (\<exists>m'. wm_query wm b w = Some m' \<and> mi_alloc m' = mi_alloc m \<and> mi_state m' = mi_state m \<and>
              mi_type m' = mi_type m \<and> mi_protect m' = mi_protect m))) \<and>
     (\<forall>w at b. wm_query wm at w = None \<longrightarrow> at \<le> b \<longrightarrow> wm_query wm b w = None) \<and>
     (\<forall>w at m. wm_query wm at w = Some m \<longrightarrow> mi_state m = MEM_COMMIT \<longrightarrow>
        0 \<le> mi_alloc m \<and> mi_alloc m \<le> at \<and>
        (\<forall>b. mi_alloc m \<le> b \<and> b \<le> at \<longrightarrow> map_option mi_alloc (wm_query wm b w) = Some (mi_alloc m))) \<and>
     (\<forall>w at m b m'. wm_query wm at w = Some m \<longrightarrow> mi_state m = MEM_COMMIT \<longrightarrow> mi_type m = MEM_MAPPED \<longrightarrow>
        wm_query wm b w = Some m' \<longrightarrow> mi_alloc m' = mi_alloc m \<longrightarrow> mi_state m' = MEM_COMMIT \<and> mi_type m' = MEM_MAPPED)"

definition of_view :: "int \<Rightarrow> (int \<times> int \<times> int) option \<Rightarrow> bool" where
  "of_view a h \<longleftrightarrow> (\<exists>p. h = Some (MEM_MAPPED, a, p))"

definition of_private :: "int \<Rightarrow> (int \<times> int \<times> int) option \<Rightarrow> bool" where
  "of_private a h \<longleftrightarrow> (\<exists>ty p. h = Some (ty, a, p) \<and> ty \<noteq> MEM_MAPPED \<and> ty \<noteq> MEM_IMAGE)"

text \<open>What the calls that take memory away do: all of it or nothing.\<close>

definition free_ok :: "'w win_mem \<Rightarrow> bool" where
  "free_ok wm \<longleftrightarrow> wm_os wm ''ERROR_SUCCESS'' = Some 0 \<and>
     (\<forall>w h. held wm (wm_close wm h w) = held wm w) \<and>
     (\<forall>w a win w1. wm_unmap wm a w = (win, w1) \<longrightarrow>
        held wm w1 = (\<lambda>b. if win = 0 \<and> of_view a (held wm w b) then None else held wm w b)) \<and>
     (\<forall>w at n win w1. wm_free wm at n MEM_DECOMMIT w = (win, w1) \<longrightarrow>
        held wm w1 = (\<lambda>b. if win = 0 \<and> at \<le> b \<and> b < at + n then None else held wm w b)) \<and>
     (\<forall>w a win w1. wm_free wm a 0 MEM_RELEASE w = (win, w1) \<longrightarrow>
        held wm w1 = (\<lambda>b. if win = 0 \<and> of_private a (held wm w b) then None else held wm w b))"

lemma query_region:
  assumes "query_ok wm" "wm_query wm at w = Some m"
  shows "mi_base m \<le> at" "at < region_end m" "region_end m \<le> ADDRESSES"
    and "at \<le> b \<Longrightarrow> b < region_end m \<Longrightarrow> \<exists>m'. wm_query wm b w = Some m' \<and> mi_alloc m' = mi_alloc m"
    and "at \<le> b \<Longrightarrow> b < region_end m \<Longrightarrow> held wm w b = held wm w at"
proof -
  have all: "mi_base m \<le> at \<and> at < region_end m \<and> region_end m \<le> ADDRESSES \<and>
        (\<forall>b. at \<le> b \<and> b < region_end m \<longrightarrow>
           (\<exists>m'. wm_query wm b w = Some m' \<and> mi_alloc m' = mi_alloc m \<and> mi_state m' = mi_state m \<and>
              mi_type m' = mi_type m \<and> mi_protect m' = mi_protect m))"
    using assms unfolding query_ok_def by blast
  show "mi_base m \<le> at" "at < region_end m" "region_end m \<le> ADDRESSES"
    and "at \<le> b \<Longrightarrow> b < region_end m \<Longrightarrow> \<exists>m'. wm_query wm b w = Some m' \<and> mi_alloc m' = mi_alloc m"
    using all by blast+
  show "at \<le> b \<Longrightarrow> b < region_end m \<Longrightarrow> held wm w b = held wm w at"
    using all assms(2) unfolding held_def by fastforce
qed

lemma query_past: "query_ok wm \<Longrightarrow> wm_query wm at w = None \<Longrightarrow> at \<le> b \<Longrightarrow> held wm w b = None"
proof -
  assume "query_ok wm" "wm_query wm at w = None" "at \<le> b"
  then have "wm_query wm b w = None" unfolding query_ok_def by blast
  then show ?thesis by (simp add: held_def)
qed

lemma held_query: "held wm w at = Some (ty, a, p) \<Longrightarrow>
  \<exists>m. wm_query wm at w = Some m \<and> mi_state m = MEM_COMMIT \<and> mi_type m = ty \<and> mi_alloc m = a"
  by (auto simp: held_def split: option.splits if_splits)

lemma held_alloc:
  assumes "query_ok wm" "held wm w at = Some (ty, a, p)"
  shows "0 \<le> a" "a \<le> at" "a \<le> b \<Longrightarrow> b \<le> at \<Longrightarrow> map_option mi_alloc (wm_query wm b w) = Some a"
proof -
  obtain m where "wm_query wm at w = Some m" "mi_state m = MEM_COMMIT" "mi_alloc m = a" using held_query [OF assms(2)] by blast
  then have all: "0 \<le> a \<and> a \<le> at \<and> (\<forall>b. a \<le> b \<and> b \<le> at \<longrightarrow> map_option mi_alloc (wm_query wm b w) = Some a)"
    using assms(1) unfolding query_ok_def by metis
  then show "0 \<le> a" "a \<le> at" "a \<le> b \<Longrightarrow> b \<le> at \<Longrightarrow> map_option mi_alloc (wm_query wm b w) = Some a" by blast+
qed

lemma held_view:
  assumes "query_ok wm" "of_view a (held wm w at)" "map_option mi_alloc (wm_query wm b w) = Some a"
  shows "of_view a (held wm w b)"
proof -
  obtain m where m: "wm_query wm at w = Some m" "mi_state m = MEM_COMMIT" "mi_type m = MEM_MAPPED" "mi_alloc m = a"
    using assms(2) held_query [of wm w at MEM_MAPPED a] by (auto simp: of_view_def)
  obtain m' where m': "wm_query wm b w = Some m'" "mi_alloc m' = a" using assms(3) by auto
  have "\<forall>w at m b m'. wm_query wm at w = Some m \<longrightarrow> mi_state m = MEM_COMMIT \<longrightarrow> mi_type m = MEM_MAPPED \<longrightarrow>
      wm_query wm b w = Some m' \<longrightarrow> mi_alloc m' = mi_alloc m \<longrightarrow> mi_state m' = MEM_COMMIT \<and> mi_type m' = MEM_MAPPED"
    using assms(1) unfolding query_ok_def by (elim conjE)
  moreover have "mi_alloc m' = mi_alloc m" using m(4) m'(2) by simp
  ultimately have "mi_state m' = MEM_COMMIT \<and> mi_type m' = MEM_MAPPED" using m(1-3) m'(1) by blast
  then show ?thesis using m' by (simp add: of_view_def held_def)
qed

lemma alloc_end_loop_is:
  assumes "query_ok wm"
  shows "nat (ADDRESSES - at) \<le> n \<Longrightarrow> \<exists>e. alloc_end_loop n wm base at w = Some e \<and> at \<le> e \<and>
    (\<forall>b. at \<le> b \<and> b < e \<longrightarrow> map_option mi_alloc (wm_query wm b w) = Some base) \<and>
    map_option mi_alloc (wm_query wm e w) \<noteq> Some base"
proof (induction n arbitrary: at)
  case 0
  then have "wm_query wm at w = None" using query_region(2,3) [OF assms, of at w] by (cases "wm_query wm at w") fastforce+
  then show ?case by (auto simp: alloc_end_loop.simps)
next
  case (Suc n)
  show ?case
  proof (cases "map_option mi_alloc (wm_query wm at w) = Some base")
    case False
    then show ?thesis by (intro exI [of _ at]) (auto simp: alloc_end_loop.simps split: option.splits)
  next
    case True
    then obtain m where m: "wm_query wm at w = Some m" "mi_alloc m = base" by auto
    note region = query_region [OF assms m(1)]
    obtain e where e: "alloc_end_loop n wm base (region_end m) w = Some e" "region_end m \<le> e"
      "\<forall>b. region_end m \<le> b \<and> b < e \<longrightarrow> map_option mi_alloc (wm_query wm b w) = Some base"
      "map_option mi_alloc (wm_query wm e w) \<noteq> Some base"
      using Suc.IH [of "region_end m"] Suc.prems region(2) by (elim exE conjE meta_impE) auto
    have "\<forall>b. at \<le> b \<and> b < e \<longrightarrow> map_option mi_alloc (wm_query wm b w) = Some base"
      using e(3) region(4) m(2) by (metis not_le option.simps(9))
    then show ?thesis using e m region(2) by (auto simp: alloc_end_loop.simps [of "Suc n"])
  qed
qed

text \<open>The end of a view is past every page of it, and all up to there is the view's.\<close>

lemma alloc_end_view:
  assumes ok: "query_ok wm" and v: "of_view a (held wm w at)"
  shows "\<exists>e. win_alloc_end wm a w = Some e \<and> at < e \<and> (\<forall>b. of_view a (held wm w b) \<longleftrightarrow> a \<le> b \<and> b < e)"
proof -
  obtain e where e: "win_alloc_end wm a w = Some e" "a \<le> e"
    "\<forall>b. a \<le> b \<and> b < e \<longrightarrow> map_option mi_alloc (wm_query wm b w) = Some a"
    "map_option mi_alloc (wm_query wm e w) \<noteq> Some a"
    using alloc_end_loop_is [OF ok, of a "nat (ADDRESSES - a)" a w] by (auto simp: win_alloc_end_def)
  have "of_view a (held wm w b) \<longleftrightarrow> a \<le> b \<and> b < e" for b
  proof
    assume "of_view a (held wm w b)"
    then obtain p where p: "held wm w b = Some (MEM_MAPPED, a, p)" by (auto simp: of_view_def)
    show "a \<le> b \<and> b < e"
    proof -
      have "\<not> e \<le> b" using held_alloc(3) [OF ok p, of e] e(2,4) by auto
      then show ?thesis using held_alloc(2) [OF ok p] by simp
    qed
  next
    assume "a \<le> b \<and> b < e"
    then show "of_view a (held wm w b)" using held_view [OF ok v] e(3) by simp
  qed
  with e(1) v show ?thesis by blast
qed

lemma any_left_loop_is:
  assumes "query_ok wm"
  shows "nat (ADDRESSES - r) \<le> n \<Longrightarrow> \<exists>left. any_left_loop n wm base r w = Some left \<and>
    (\<not> left \<longrightarrow> (\<forall>b. r \<le> b \<longrightarrow> (\<forall>c. r \<le> c \<and> c \<le> b \<longrightarrow> map_option mi_alloc (wm_query wm c w) = Some base) \<longrightarrow> held wm w b = None))"
proof (induction n arbitrary: r)
  case 0
  then have "wm_query wm r w = None" using query_region(2,3) [OF assms, of r w] by (cases "wm_query wm r w") fastforce+
  then show ?case using query_past [OF assms, of r w] by (simp add: any_left_loop.simps) blast
next
  case (Suc n)
  show ?case
  proof (cases "wm_query wm r w")
    case None
    then show ?thesis using query_past [OF assms None] by (simp add: any_left_loop.simps) blast
  next
    case (Some m)
    note region = query_region [OF assms Some]
    show ?thesis
    proof (cases "mi_alloc m = base \<and> mi_state m \<noteq> MEM_COMMIT")
      case False
      then have "any_left_loop (Suc n) wm base r w = Some (mi_alloc m = base)"
        using Some by (subst any_left_loop.simps) auto
      moreover have "map_option mi_alloc (wm_query wm r w) \<noteq> Some base" if "mi_alloc m \<noteq> base" using that Some by simp
      ultimately show ?thesis by blast
    next
      case True
      obtain left where left: "any_left_loop n wm base (region_end m) w = Some left"
        "\<not> left \<longrightarrow> (\<forall>b. region_end m \<le> b \<longrightarrow> (\<forall>c. region_end m \<le> c \<and> c \<le> b \<longrightarrow>
           map_option mi_alloc (wm_query wm c w) = Some base) \<longrightarrow> held wm w b = None)"
        using Suc.IH [of "region_end m"] Suc.prems region(2) by (elim exE conjE meta_impE) auto
      have none: "held wm w r = None" using Some True by (simp add: held_def)
      have "any_left_loop (Suc n) wm base r w = Some left"
        using left(1) Some True by (subst any_left_loop.simps) simp
      moreover have "held wm w b = None"
        if "\<not> left" "r \<le> b" "\<forall>c. r \<le> c \<and> c \<le> b \<longrightarrow> map_option mi_alloc (wm_query wm c w) = Some base" for b
      proof (cases "b < region_end m")
        case True
        then show ?thesis using region(5) [OF that(2)] none by simp
      next
        case False
        moreover from this have "\<forall>c. region_end m \<le> c \<and> c \<le> b \<longrightarrow> map_option mi_alloc (wm_query wm c w) = Some base"
          using that(3) region(2) by (meson order_trans order_less_imp_le)
        ultimately show ?thesis using left(2) that(1) by (meson not_le)
      qed
      ultimately show ?thesis by blast
    qed
  qed
qed

text \<open>When nothing of an allocation is found left, releasing it takes nothing away.\<close>

lemma any_left_is:
  assumes ok: "query_ok wm"
  shows "\<exists>left. any_left wm base w = Some left \<and> (\<not> left \<longrightarrow> (\<forall>b. \<not> of_private base (held wm w b)))"
proof -
  obtain left where left: "any_left wm base w = Some left"
    "\<not> left \<longrightarrow> (\<forall>b. base \<le> b \<longrightarrow> (\<forall>c. base \<le> c \<and> c \<le> b \<longrightarrow> map_option mi_alloc (wm_query wm c w) = Some base) \<longrightarrow>
       held wm w b = None)"
    using any_left_loop_is [OF ok, of base "nat (ADDRESSES - base)" base w] by (auto simp: any_left_def)
  have "\<not> of_private base (held wm w b)" if "\<not> left" for b
  proof
    assume "of_private base (held wm w b)"
    then obtain ty p where p: "held wm w b = Some (ty, base, p)" by (auto simp: of_private_def)
    then show False using left(2) that held_alloc(2,3) [OF ok p] by auto
  qed
  with left(1) show ?thesis by blast
qed

section \<open>Unmapping\<close>

text \<open>
  What of a range cannot be unmapped: a loaded module's page, or a view's whose mapping starts before the range or that
  goes on past it.
\<close>

definition unmappable :: "'w win_mem \<Rightarrow> int \<Rightarrow> int \<Rightarrow> 'w maps \<Rightarrow> int \<Rightarrow> bool" where
  "unmappable wm start stop s b \<longleftrightarrow>
     (case held wm (mp_world s) b of
        None \<Rightarrow> False
      | Some (ty, a, p) \<Rightarrow>
          ty = MEM_IMAGE \<or>
          (ty = MEM_MAPPED \<and> (win_view_start a s < start \<or> (\<exists>c. stop \<le> c \<and> of_view a (held wm (mp_world s) c)))))"

text \<open>What is gone once the range is unmapped up to an address: its pages, and the whole of its views.\<close>

definition gone :: "int \<Rightarrow> int \<Rightarrow> (int \<Rightarrow> (int \<times> int \<times> int) option) \<Rightarrow> int \<Rightarrow> bool" where
  "gone start lim h b \<longleftrightarrow>
     (start \<le> b \<and> b < lim) \<or> (\<exists>a c. start \<le> c \<and> c < lim \<and> of_view a (h c) \<and> of_view a (h b))"

definition without :: "int \<Rightarrow> int \<Rightarrow> (int \<Rightarrow> (int \<times> int \<times> int) option) \<Rightarrow> int \<Rightarrow> (int \<times> int \<times> int) option" where
  "without start lim h = (\<lambda>b. if gone start lim h b then None else h b)"

lemma of_view_same: "of_view a h \<Longrightarrow> of_view a' h \<Longrightarrow> a = a'"
  by (auto simp: of_view_def)

lemma without_pages:
  assumes "start \<le> at" "at \<le> at1" and plain: "\<And>b a. at \<le> b \<Longrightarrow> b < at1 \<Longrightarrow> \<not> of_view a (without start at h b)"
  shows "(\<lambda>b. if at \<le> b \<and> b < at1 then None else without start at h b) = without start at1 h"
proof
  fix b
  have "gone start at1 h b \<longleftrightarrow> gone start at h b \<or> (at \<le> b \<and> b < at1)"
  proof
    assume "gone start at1 h b"
    then consider "start \<le> b" "b < at1" | a c where "start \<le> c" "c < at1" "of_view a (h c)" "of_view a (h b)"
      unfolding gone_def by blast
    then show "gone start at h b \<or> (at \<le> b \<and> b < at1)"
    proof cases
      case 2
      show ?thesis
      proof (cases "c < at")
        case True
        then show ?thesis using 2 unfolding gone_def by blast
      next
        case False
        then have "gone start at h c" using plain [of c a] 2(2,3) by (simp add: without_def split: if_splits)
        then obtain a' c' where c': "start \<le> c'" "c' < at" "of_view a' (h c')" "of_view a' (h c)"
          using False unfolding gone_def by blast
        have "of_view a (h c')" using of_view_same [OF 2(3) c'(4)] c'(3) by simp
        then show ?thesis using 2(4) c'(1,2) unfolding gone_def by blast
      qed
    qed (auto simp: gone_def)
  next
    assume "gone start at h b \<or> (at \<le> b \<and> b < at1)"
    then show "gone start at1 h b"
    proof
      assume "gone start at h b"
      then show ?thesis using assms(2) unfolding gone_def by (meson less_le_trans)
    qed (use assms(1) in \<open>auto simp: gone_def\<close>)
  qed
  then show "(if at \<le> b \<and> b < at1 then None else without start at h b) = without start at1 h b"
    by (auto simp: without_def)
qed

lemma without_view:
  assumes "start \<le> at" "at < e" and view: "\<And>b. at \<le> b \<Longrightarrow> b < e \<Longrightarrow> of_view a (without start at h b)"
  shows "(\<lambda>b. if of_view a (without start at h b) then None else without start at h b) = without start e h"
proof
  fix b
  have own: "of_view a (h c)" if "at \<le> c" "c < e" for c
    using view [OF that] by (auto simp: without_def of_view_def split: if_splits)
  have "gone start e h b \<longleftrightarrow> gone start at h b \<or> of_view a (h b)"
  proof
    assume "gone start e h b"
    then consider "start \<le> b" "b < e" | a' c where "start \<le> c" "c < e" "of_view a' (h c)" "of_view a' (h b)"
      unfolding gone_def by blast
    then show "gone start at h b \<or> of_view a (h b)"
    proof cases
      case 1
      then show ?thesis using own [of b] by (cases "b < at") (auto simp: gone_def)
    next
      case 2
      then show ?thesis using own [of c] of_view_same [of a "h c" a'] by (cases "c < at") (auto simp: gone_def)
    qed
  next
    assume "gone start at h b \<or> of_view a (h b)"
    then show "gone start e h b"
    proof
      assume "gone start at h b"
      then show ?thesis using assms(2) unfolding gone_def by (meson less_trans)
    next
      assume "of_view a (h b)"
      then show ?thesis using own [of at] assms(1,2) unfolding gone_def by blast
    qed
  qed
  then show "(if of_view a (without start at h b) then None else without start at h b) = without start e h b"
    by (auto simp: without_def of_view_def)
qed

lemma looked_over:
  assumes ok: "query_ok wm"
  shows "\<exists>err s1. over (munmap_step wm False start stop) start stop s = Some (err, s1) \<and> s1 = s \<and>
    (if \<exists>b. start \<le> b \<and> b < stop \<and> unmappable wm start stop s b then err = SPPC_EINVAL else err = 0)"
proof (rule over_rule [where J = "\<lambda>at s1. s1 = s \<and> (\<forall>b. start \<le> b \<and> b < at \<and> b < stop \<longrightarrow> \<not> unmappable wm start stop s b)"])
  fix at s'
  assume at: "start \<le> at" "at < stop"
    and J: "s' = s \<and> (\<forall>b. start \<le> b \<and> b < at \<and> b < stop \<longrightarrow> \<not> unmappable wm start stop s b)"
  define w where "w = mp_world s"
  show "(\<exists>err s1. munmap_step wm False start stop at s' = Some (Inl err, s1) \<and> s1 = s \<and>
      (if \<exists>b. start \<le> b \<and> b < stop \<and> unmappable wm start stop s b then err = SPPC_EINVAL else err = 0)) \<or>
    (\<exists>at1 s1. munmap_step wm False start stop at s' = Some (Inr at1, s1) \<and> at < at1 \<and> s1 = s \<and>
      (\<forall>b. start \<le> b \<and> b < at1 \<and> b < stop \<longrightarrow> \<not> unmappable wm start stop s b))"
  proof (cases "wm_query wm at w")
    case None
    have "\<not> unmappable wm start stop s b" if "at \<le> b" for b
      using query_past [OF ok None that] by (simp add: unmappable_def w_def)
    then show ?thesis using None J at by (auto simp: munmap_step_def w_def) (metis not_le)
  next
    case (Some m)
    note region = query_region [OF ok Some]
    have same: "unmappable wm start stop s b = unmappable wm start stop s at" if "at \<le> b" "b < region_end m" for b
      using region(5) [OF that] by (simp add: unmappable_def w_def)
    show ?thesis
    proof (cases "mi_state m = MEM_COMMIT \<and> mi_type m = MEM_MAPPED")
      case True
      then have v: "of_view (mi_alloc m) (held wm w at)" using Some by (simp add: held_def of_view_def)
      obtain e where e: "win_alloc_end wm (mi_alloc m) w = Some e" "at < e"
        "\<And>b. of_view (mi_alloc m) (held wm w b) \<longleftrightarrow> mi_alloc m \<le> b \<and> b < e"
        using alloc_end_view [OF ok v] by blast
      have past: "(\<exists>c. stop \<le> c \<and> of_view (mi_alloc m) (held wm w c)) \<longleftrightarrow> stop < e"
        using e(2,3) v at by (metis le_less_trans not_le order_less_imp_le zle_diff1_eq le_cases)
      have bad: "unmappable wm start stop s b \<longleftrightarrow> win_view_start (mi_alloc m) s < start \<or> stop < e"
        if "of_view (mi_alloc m) (held wm w b)" for b
        using that past by (auto simp: unmappable_def w_def of_view_def MEM_MAPPED_def MEM_IMAGE_def)
      have view: "of_view (mi_alloc m) (held wm w b)" if "at \<le> b" "b < e" for b
        using e(3) v that by (metis order_trans)
      show ?thesis
      proof (cases "win_view_start (mi_alloc m) s < start \<or> stop < e")
        case refused: True
        then have "unmappable wm start stop s at" using bad [OF v] by simp
        moreover have "munmap_step wm False start stop at s' = Some (Inl SPPC_EINVAL, s)"
          using True Some J e(1) refused by (auto simp: munmap_step_def w_def [symmetric] MEM_MAPPED_def MEM_IMAGE_def)
        ultimately show ?thesis using at by auto
      next
        case fits: False
        then have "\<not> unmappable wm start stop s b" if "start \<le> b" "b < e" for b
          using J that bad [OF view [of b]] fits by (cases "b < at") auto
        moreover have "munmap_step wm False start stop at s' = Some (Inr e, s)"
          using True Some J e(1) fits by (auto simp: munmap_step_def w_def [symmetric] MEM_MAPPED_def MEM_IMAGE_def)
        ultimately show ?thesis using e(2) by auto
      qed
    next
      case False
      then have bad: "unmappable wm start stop s at \<longleftrightarrow> mi_state m = MEM_COMMIT \<and> mi_type m = MEM_IMAGE"
        using Some by (auto simp: unmappable_def held_def w_def)
      show ?thesis
      proof (cases "mi_state m = MEM_COMMIT \<and> mi_type m = MEM_IMAGE")
        case True
        then have "munmap_step wm False start stop at s' = Some (Inl SPPC_EINVAL, s)"
          using Some J by (simp add: munmap_step_def w_def [symmetric])
        then show ?thesis using True bad at by auto
      next
        case image: False
        then have "munmap_step wm False start stop at s' = Some (Inr (region_end m), s)"
          using False Some J by (auto simp: munmap_step_def w_def [symmetric])
        moreover have "\<not> unmappable wm start stop s b" if "start \<le> b" "b < region_end m" "b < stop" for b
          using J that image bad same [of b] by (cases "b < at") auto
        ultimately show ?thesis using region(2) by auto
      qed
    qed
  qed
next
  fix at s'
  assume "stop \<le> at" "s' = s \<and> (\<forall>b. start \<le> b \<and> b < at \<and> b < stop \<longrightarrow> \<not> unmappable wm start stop s b)"
  then show "s' = s \<and> (if \<exists>b. start \<le> b \<and> b < stop \<and> unmappable wm start stop s b then (0::int) = SPPC_EINVAL else 0 = (0::int))"
    by auto
qed auto

lemma held_forget: "free_ok wm \<Longrightarrow> held wm (mp_world (win_view_forget wm a s)) = held wm (mp_world s)"
  by (simp add: win_view_forget_def free_ok_def split: option.splits)

lemma errno_not_0: "free_ok wm \<Longrightarrow> mem_errno wm win = 0 \<longleftrightarrow> win = 0"
  by (simp add: mem_errno_def win32_nonzero free_ok_def)

lemma free_held:
  assumes "free_ok wm"
  shows "wm_unmap wm a w = (win, w1) \<Longrightarrow> held wm w1 = (\<lambda>b. if win = 0 \<and> of_view a (held wm w b) then None else held wm w b)"
    and "wm_free wm at n MEM_DECOMMIT w = (win, w1) \<Longrightarrow>
      held wm w1 = (\<lambda>b. if win = 0 \<and> at \<le> b \<and> b < at + n then None else held wm w b)"
    and "wm_free wm a 0 MEM_RELEASE w = (win, w1) \<Longrightarrow>
      held wm w1 = (\<lambda>b. if win = 0 \<and> of_private a (held wm w b) then None else held wm w b)"
  using assms unfolding free_ok_def by blast+

text \<open>Private pages are given back as asked, whether or not the address range goes with them.\<close>

lemma give_back_held:
  assumes ok: "query_ok wm" "free_ok wm"
  shows "\<exists>r s1. give_back wm at m stop s = Some (r, s1) \<and>
    ((\<exists>win. r = Inl (mem_errno wm win) \<and> win \<noteq> 0 \<and> held wm (mp_world s1) = held wm (mp_world s) \<and>
        (\<exists>w1. wm_free wm at (part_end m stop - at) MEM_DECOMMIT (mp_world s) = (win, w1))) \<or>
     r = Inr (part_end m stop) \<and>
     held wm (mp_world s1) = (\<lambda>b. if at \<le> b \<and> b < part_end m stop then None else held wm (mp_world s) b))"
proof -
  obtain win w1 where f: "wm_free wm at (part_end m stop - at) MEM_DECOMMIT (mp_world s) = (win, w1)" by force
  note h1 = free_held(2) [OF ok(2) f]
  obtain left where left: "any_left wm (mi_alloc m) w1 = Some left" "\<not> left \<longrightarrow> (\<forall>b. \<not> of_private (mi_alloc m) (held wm w1 b))"
    using any_left_is [OF ok(1), of "mi_alloc m" w1] by blast
  obtain win2 w2 where r: "wm_free wm (mi_alloc m) 0 MEM_RELEASE w1 = (win2, w2)" by force
  have "\<not> left \<Longrightarrow> held wm w2 = held wm w1" using free_held(3) [OF ok(2) r] left(2) by simp
  then show ?thesis
    using f r h1 left(1) errno_not_0 [OF ok(2), of win] by (cases left) (auto simp: give_back_def map_world_def)
qed

text \<open>
  Windows refuses to take back a view, or committed private pages of the range, with everything of the range up to
  there already gone, and this is the error reported.
\<close>

definition win_refuses ::
  "'w win_mem \<Rightarrow> int \<Rightarrow> int \<Rightarrow> int \<Rightarrow> (int \<Rightarrow> (int \<times> int \<times> int) option) \<Rightarrow> int \<Rightarrow> bool" where
  "win_refuses wm start lim stop h err \<longleftrightarrow>
     (\<exists>w win w1. held wm w = without start lim h \<and> win \<noteq> 0 \<and> err = mem_errno wm win \<and>
        ((\<exists>a. of_view a (h lim) \<and> wm_unmap wm a w = (win, w1)) \<or>
         (\<exists>n. 0 < n \<and> lim + n \<le> stop \<and> (\<forall>b. lim \<le> b \<and> b < lim + n \<longrightarrow> h b \<noteq> None \<and> h b = h lim) \<and>
            wm_free wm lim n MEM_DECOMMIT w = (win, w1))))"

lemma unmapped:
  fixes wm :: "'w win_mem" and s :: "'w maps"
  assumes ok: "query_ok wm" "free_ok wm" and fits: "\<And>b. start \<le> b \<Longrightarrow> b < stop \<Longrightarrow> \<not> unmappable wm start stop s b"
  defines "h \<equiv> held wm (mp_world s)"
  shows "\<exists>err s1. over (munmap_step wm True start stop) start stop s = Some (err, s1) \<and>
    (\<exists>lim. (err = 0 \<and> lim = stop \<or> err \<noteq> 0 \<and> start \<le> lim \<and> lim < stop \<and> win_refuses wm start lim stop h err) \<and>
       held wm (mp_world s1) = without start lim h)"
    (is "\<exists>err s1. _ \<and> ?Q err s1")
proof (rule over_rule [where J = "\<lambda>at s1. held wm (mp_world s1) = without start (min at stop) h"])
  fix at and s' :: "'w maps"
  assume at: "start \<le> at" "at < stop" and J: "held wm (mp_world s') = without start (min at stop) h"
  define w where "w = mp_world s'"
  have now: "held wm w = without start at h" using J at(2) by (simp add: w_def min_def)
  have plain: "without start at h = without start lim h"
    if "at \<le> lim" "\<And>b. at \<le> b \<Longrightarrow> b < lim \<Longrightarrow> held wm w b = None" for lim
  proof -
    have "(\<lambda>b. if at \<le> b \<and> b < lim then None else without start at h b) = without start at h"
      using that(2) by (auto simp: now)
    moreover have "\<not> of_view a (without start at h b)" if "at \<le> b" "b < lim" for a b
      using \<open>\<And>b. at \<le> b \<Longrightarrow> b < lim \<Longrightarrow> held wm w b = None\<close> [OF that] by (simp add: now of_view_def)
    ultimately show ?thesis using without_pages [OF at(1) that(1), of h] by simp
  qed
  have refused: "?Q err s1" if "err \<noteq> 0" "held wm (mp_world s1) = without start at h" "win_refuses wm start at stop h err" for err s1
    using that at by (intro exI [of _ at]) simp
  show "(\<exists>err s1. munmap_step wm True start stop at s' = Some (Inl err, s1) \<and> ?Q err s1) \<or>
    (\<exists>at1 s1. munmap_step wm True start stop at s' = Some (Inr at1, s1) \<and> at < at1 \<and>
      held wm (mp_world s1) = without start (min at1 stop) h)"
  proof (cases "wm_query wm at w")
    case None
    then have "munmap_step wm True start stop at s' = Some (Inr stop, s')" by (simp add: munmap_step_def w_def)
    moreover have "held wm w = without start stop h"
      using plain [of stop] at query_past [OF ok(1) None] by (simp add: now)
    ultimately show ?thesis using at by (simp add: w_def)
  next
    case (Some m)
    note region = query_region [OF ok(1) Some]
    define lim where "lim = part_end m stop"
    have lim: "lim = min (region_end m) stop" "at < lim" using region(2) at by (simp_all add: lim_def part_end_def min_def)
    consider "mi_state m \<noteq> MEM_COMMIT" | "mi_state m = MEM_COMMIT" "mi_type m = MEM_MAPPED"
      | "mi_state m = MEM_COMMIT" "mi_type m \<noteq> MEM_MAPPED" by blast
    then show ?thesis
    proof cases
      case 1
      then have "munmap_step wm True start stop at s' = Some (Inr (region_end m), s')"
        using Some by (simp add: munmap_step_def w_def)
      moreover have "held wm w at = None" using Some 1 by (simp add: held_def)
      then have "held wm w = without start lim h" using plain [of lim] region(5) lim by (simp add: now)
      ultimately show ?thesis using lim region(2) by (simp add: w_def)
    next
      case 2
      define a where "a = mi_alloc m"
      have v: "of_view a (held wm w at)" using Some 2 by (simp add: held_def of_view_def a_def)
      obtain e where e: "win_alloc_end wm a w = Some e" "at < e" "\<And>b. of_view a (held wm w b) \<longleftrightarrow> a \<le> b \<and> b < e"
        using alloc_end_view [OF ok(1) v] by blast
      have view: "of_view a (without start at h b)" if "at \<le> b" "b < e" for b
        using e(3) [of at] e(3) [of b] v that by (simp add: now)
      have own: "of_view a (h b)" if "at \<le> b" "b < e" for b
        using view [OF that] by (auto simp: without_def of_view_def split: if_splits)
      have "e \<le> stop"
      proof (rule ccontr)
        assume "\<not> e \<le> stop"
        then have "of_view a (h stop)" using own at by simp
        then have "unmappable wm start stop s at"
          using own [of at] e(2) unfolding unmappable_def h_def [symmetric] by (auto simp: of_view_def)
        then show False using fits at by blast
      qed
      obtain win w1 where u: "wm_unmap wm a (mp_world (win_view_forget wm a s')) = (win, w1)" by force
      have step: "munmap_step wm True start stop at s' =
          Some (if win \<noteq> 0 then Inl (mem_errno wm win) else Inr e, (win_view_forget wm a s')\<lparr>mp_world := w1\<rparr>)"
        using 2 Some e(1) u
        by (auto simp: munmap_step_def w_def [symmetric] a_def [symmetric] map_world_def MEM_MAPPED_def MEM_IMAGE_def)
      have forgot: "held wm (mp_world (win_view_forget wm a s')) = without start at h"
        using now unfolding w_def held_forget [OF ok(2)] .
      note after = free_held(1) [OF ok(2) u, unfolded forgot]
      show ?thesis
      proof (cases "win = 0")
        case True
        then have "held wm w1 = without start e h" using after without_view [OF at(1) e(2) view] by simp
        then show ?thesis using step e(2) \<open>e \<le> stop\<close> True by auto
      next
        case False
        have "of_view a (h at)" using own [of at] e(2) by simp
        then have "win_refuses wm start at stop h (mem_errno wm win)" unfolding win_refuses_def
          using u forgot False by blast
        moreover have "held wm w1 = without start at h" using after False by simp
        moreover have "mem_errno wm win \<noteq> 0" using errno_not_0 [OF ok(2)] False by simp
        ultimately have "?Q (mem_errno wm win) ((win_view_forget wm a s')\<lparr>mp_world := w1\<rparr>)" by (intro refused) simp_all
        then show ?thesis using step False by simp
      qed
    next
      case 3
      have "mi_type m \<noteq> MEM_IMAGE"
      proof
        assume img: "mi_type m = MEM_IMAGE"
        have "held wm w at \<noteq> None" using Some 3 by (simp add: held_def)
        then have "held wm w at = h at" using fun_cong [OF now, of at] by (auto simp: without_def)
        then have "h at = Some (MEM_IMAGE, mi_alloc m, mi_protect m)" using img Some 3 by (simp add: held_def)
        then have "unmappable wm start stop s at" unfolding unmappable_def h_def [symmetric] by simp
        then show False using fits at by blast
      qed
      then have step: "munmap_step wm True start stop at s' = give_back wm at m stop s'"
        using Some 3 by (simp add: munmap_step_def w_def)
      have "\<not> of_view a (held wm w at)" for a using Some 3 by (auto simp: held_def of_view_def)
      then have "\<not> of_view a (without start at h b)" if "at \<le> b" "b < lim" for a b
        using region(5) [of b] that lim by (simp add: now)
      then have keep: "(\<lambda>b. if at \<le> b \<and> b < lim then None else held wm w b) = without start lim h"
        using without_pages [OF at(1), of lim h] lim(2) unfolding now by simp
      have "win_refuses wm start at stop h (mem_errno wm win)"
        if "win \<noteq> 0" "wm_free wm at (lim - at) MEM_DECOMMIT w = (win, w1)" for win w1
      proof -
        have same: "held wm w b = held wm w at" "held wm w b \<noteq> None" if "at \<le> b" "b < lim" for b
          using region(5) [of b] that lim Some 3 by (auto simp: held_def)
        have eq: "h b = held wm w b" if "at \<le> b" "b < lim" for b
          using same(2) [OF that] unfolding now without_def by (simp split: if_splits)
        have "\<forall>b. at \<le> b \<and> b < at + (lim - at) \<longrightarrow> h b \<noteq> None \<and> h b = h at"
        proof (intro allI impI)
          fix b assume "at \<le> b \<and> b < at + (lim - at)"
          then have b: "at \<le> b" "b < lim" by simp_all
          show "h b \<noteq> None \<and> h b = h at" unfolding eq [OF b] eq [OF order_refl lim(2)] using same [OF b] by simp
        qed
        moreover have "0 < lim - at" "at + (lim - at) \<le> stop" using lim by simp_all
        ultimately show ?thesis unfolding win_refuses_def using now that by blast
      qed
      note refusal = this
      obtain r s1 where gb: "give_back wm at m stop s' = Some (r, s1)"
        and or: "(\<exists>win. r = Inl (mem_errno wm win) \<and> win \<noteq> 0 \<and> held wm (mp_world s1) = held wm w \<and>
            (\<exists>w1. wm_free wm at (lim - at) MEM_DECOMMIT w = (win, w1))) \<or>
          r = Inr lim \<and> held wm (mp_world s1) = (\<lambda>b. if at \<le> b \<and> b < lim then None else held wm w b)"
        using give_back_held [OF ok, of at m stop s'] unfolding lim_def [symmetric] w_def [symmetric] by blast
      from or show ?thesis
      proof
        assume "\<exists>win. r = Inl (mem_errno wm win) \<and> win \<noteq> 0 \<and> held wm (mp_world s1) = held wm w \<and>
            (\<exists>w1. wm_free wm at (lim - at) MEM_DECOMMIT w = (win, w1))"
        then obtain win where win: "r = Inl (mem_errno wm win)" "win \<noteq> 0" "held wm (mp_world s1) = without start at h"
          "win_refuses wm start at stop h (mem_errno wm win)" using refusal now by auto
        then have "?Q (mem_errno wm win) s1" using errno_not_0 [OF ok(2)] by (intro refused) simp_all
        then show ?thesis using step gb win(1) by auto
      next
        assume "r = Inr lim \<and> held wm (mp_world s1) = (\<lambda>b. if at \<le> b \<and> b < lim then None else held wm w b)"
        then have "r = Inr lim" "held wm (mp_world s1) = without start (min lim stop) h" using keep lim by simp_all
        then show ?thesis using step gb lim(2) by auto
      qed
    qed
  qed
next
  fix at and s' :: "'w maps"
  assume "stop \<le> at" "held wm (mp_world s') = without start (min at stop) h"
  then show "?Q 0 s'" by (simp add: min_def)
next
  show "held wm (mp_world s) = without start (min start stop) h"
    by (auto simp: h_def without_def gone_def fun_eq_iff)
qed

text \<open>C15: munmap on Windows always returns. A range with something that cannot be unmapped (a module, or a view not wholly
  in it) is refused with EINVAL, all of it left mapped. Otherwise either it succeeds, and all of the range is unmapped;
  or Windows itself refused to take back a view or committed pages of the range that are there, which is the error
  reported, and the range is unmapped up to there. Nothing outside the range is touched but what a view
  has before the start of its mapping, the alignment it was made with.
\<close>

theorem munmap_unmaps_range:
  assumes ok: "query_ok wm" "free_ok wm"
    and range: "win_page_range wm addr len False = Inr (start, stop)" and len: "len \<noteq> 0"
  shows "\<exists>err s1. sppc_munmap_win wm addr len s = Some (err, s1) \<and>
    (if \<exists>b. start \<le> b \<and> b < stop \<and> unmappable wm start stop s b then err = SPPC_EINVAL \<and> s1 = s
     else \<exists>lim.
       (err = 0 \<and> lim = stop \<or> err \<noteq> 0 \<and> start \<le> lim \<and> lim < stop \<and> win_refuses wm start lim stop (held wm (mp_world s)) err) \<and>
       (\<forall>b. held wm (mp_world s1) b = (if gone start lim (held wm (mp_world s)) b then None else held wm (mp_world s) b)) \<and>
       (\<forall>b. gone start lim (held wm (mp_world s)) b \<longrightarrow> (start \<le> b \<and> b < stop) \<or> (b < start \<and> (\<exists>a. of_view a (held wm (mp_world s) b) \<and> start \<le> win_view_start a s))))"
proof (cases "\<exists>b. start \<le> b \<and> b < stop \<and> unmappable wm start stop s b")
  case True
  then show ?thesis using looked_over [OF ok(1), of start stop s] range len by (auto simp: sppc_munmap_win_def)
next
  case False
  define h where "h = held wm (mp_world s)"
  have view: "start \<le> win_view_start a s \<and> (\<forall>b. of_view a (h b) \<longrightarrow> b < stop)"
    if "of_view a (h c)" "start \<le> c" "c < stop" for a c
  proof -
    have "\<not> unmappable wm start stop s c" using False that(2,3) by blast
    then show ?thesis using that(1) by (auto simp: unmappable_def of_view_def h_def not_less [symmetric]) blast
  qed
  have inside: "(start \<le> b \<and> b < stop) \<or> (b < start \<and> (\<exists>a. of_view a (h b) \<and> start \<le> win_view_start a s))"
    if "gone start lim h b" "lim \<le> stop" for lim b
    using that view unfolding gone_def by (meson less_le_trans not_le)
  obtain err s1 lim where u: "over (munmap_step wm True start stop) start stop s = Some (err, s1)"
      "held wm (mp_world s1) = without start lim h"
    and lim: "err = 0 \<and> lim = stop \<or> err \<noteq> 0 \<and> start \<le> lim \<and> lim < stop \<and> win_refuses wm start lim stop h err"
    using unmapped [OF ok, of start stop s] False unfolding h_def by blast
  have "sppc_munmap_win wm addr len s = Some (err, s1)"
    using looked_over [OF ok(1), of start stop s] False range len u(1) by (auto simp: sppc_munmap_win_def)
  moreover have "lim \<le> stop" using lim by auto
  moreover have "\<forall>b. held wm (mp_world s1) b = (if gone start lim h b then None else h b)" using u(2) by (simp add: without_def)
  moreover note lim
  ultimately have "\<exists>err s1 lim. sppc_munmap_win wm addr len s = Some (err, s1) \<and>
      (err = 0 \<and> lim = stop \<or> err \<noteq> 0 \<and> start \<le> lim \<and> lim < stop \<and> win_refuses wm start lim stop h err) \<and>
      (\<forall>b. held wm (mp_world s1) b = (if gone start lim h b then None else h b)) \<and>
      (\<forall>b. gone start lim h b \<longrightarrow> (start \<le> b \<and> b < stop) \<or> (b < start \<and> (\<exists>a. of_view a (h b) \<and> start \<le> win_view_start a s)))"
    using inside by blast
  then show ?thesis using False unfolding h_def by auto
qed

text \<open>A process with one page of private memory: the world is whether it has it still.\<close>

definition one_page :: "(bool) win_mem \<Rightarrow> bool win_mem" where
  "one_page wm = wm\<lparr>
     wm_os := (\<lambda>n. if n = ''ERROR_SUCCESS'' then Some 0 else None), wm_page := 4096,
     wm_query := (\<lambda>at w.
       if at < 4096 then Some \<lparr>mi_base = at, mi_size = 4096 - at, mi_alloc = - 1, mi_alloc_protect = 0, mi_state = 0x10000,
                              mi_type = 0, mi_protect = 0\<rparr>
       else if at < 8192 then Some \<lparr>mi_base = 4096, mi_size = 4096, mi_alloc = (if w then 4096 else - 1), mi_alloc_protect = 4,
                              mi_state = (if w then MEM_COMMIT else 0x10000), mi_type = MEM_PRIVATE, mi_protect = 4\<rparr>
       else None),
     wm_free := (\<lambda>at n ty w.
       if ty = MEM_RELEASE then (0, w \<and> at \<noteq> 4096)
       else if w \<and> at \<le> 4096 \<and> 8192 \<le> at + n then (0, False)
       else (1, w)),
     wm_unmap := (\<lambda>_ w. (0, w)), wm_close := (\<lambda>_ w. w)\<rparr>"

lemma munmap_unmaps_range_witness:
  "\<forall>wm. held (one_page wm) (mp_world (snd (the (sppc_munmap_win (one_page wm) 4096 100 \<lparr>mp_views = [], mp_world = True\<rparr>)))) 4096 = None"
proof
  fix wm
  have q: "query_ok (one_page wm)"
    unfolding query_ok_def
    by (intro conjI) (auto simp: one_page_def region_end_def ADDRESSES_def MEM_COMMIT_def MEM_MAPPED_def MEM_PRIVATE_def
        split: if_splits)
  have f: "free_ok (one_page wm)"
    unfolding free_ok_def
    by (intro conjI) (auto simp: one_page_def held_def of_view_def of_private_def fun_eq_iff MEM_COMMIT_def MEM_MAPPED_def
        MEM_PRIVATE_def MEM_IMAGE_def MEM_DECOMMIT_def MEM_RELEASE_def split: if_splits)
  have range: "win_page_range (one_page wm) 4096 100 False = Inr (4096, 8192)"
    by (simp add: win_page_range_def one_page_def ADDRESSES_def Let_def)
  have h: "held (one_page wm) w b = (if w \<and> 4096 \<le> b \<and> b < 8192 then Some (MEM_PRIVATE, 4096, 4) else None)" for w b
    by (auto simp: held_def one_page_def MEM_COMMIT_def)
  have done': "map_option fst (sppc_munmap_win (one_page wm) 4096 100 \<lparr>mp_views = [], mp_world = True\<rparr>) = Some 0"
    unfolding sppc_munmap_win_def range
    by (simp add: over_def walk.simps munmap_step_def give_back_def one_page_def any_left_def any_left_loop.simps map_world_def
        part_end_def region_end_def ADDRESSES_def MEM_PRIVATE_def MEM_IMAGE_def MEM_MAPPED_def MEM_COMMIT_def MEM_DECOMMIT_def
        MEM_RELEASE_def)
  show "held (one_page wm) (mp_world (snd (the (sppc_munmap_win (one_page wm) 4096 100 \<lparr>mp_views = [], mp_world = True\<rparr>)))) 4096 = None"
    using munmap_unmaps_range [OF q f range, of "\<lparr>mp_views = [], mp_world = True\<rparr>"] done'
    by (auto simp: h unmappable_def gone_def MEM_PRIVATE_def MEM_IMAGE_def MEM_MAPPED_def split: if_splits dest: spec [of _ 4096])
qed

end
