(* ===== verification/WinSockets.thy ===== *)
theory WinSockets
  imports WinControl PosixCalls
begin

text \<open>
  Sockets on Windows (platform/windows.h, SOCKETS up to readiness, and FD TABLE: COMPLETION PORT). A socket is a description
  of its own kind; Winsock's calls are arguments over a world of any type, with their Winsock errors (0 for none).
  A blocking socket's transfer goes through the thread's completion port where it can, which is Windows' too.
\<close>

section \<open>Winsock's calls\<close>

datatype transfer =
    Send bytes int "os_sockaddr option"
  | Recv nat int bool                    \<comment> \<open>how much, the flags, whether the sender's address is asked for\<close>

datatype sock_ask =
    Connect os_sockaddr nat
  | Bind os_sockaddr nat
  | Listen int
  | Shutdown int
  | Blocking bool                        \<comment> \<open>FIONBIO\<close>
  | NoConnReset                          \<comment> \<open>SIO_UDP_CONNRESET, off\<close>
  | NoInherit
  | StartConnect os_sockaddr nat         \<comment> \<open>ConnectEx\<close>
  | StartAccept nat                      \<comment> \<open>AcceptEx, into this socket\<close>
  | StartTransfer transfer               \<comment> \<open>WSASend and the like, overlapped\<close>
  | ConnectContext
  | AcceptContext nat                    \<comment> \<open>the listener\<close>
  | SetInt int int int                   \<comment> \<open>setsockopt: level, name, value\<close>
  | SetMs int int u32
  | SetTime int int int int
  | SetLinger int int int int

record 'w win_sockets =
  wk_os :: os_macros
  wk_big :: bool
  wk_ask :: "nat \<Rightarrow> sock_ask \<Rightarrow> 'w \<Rightarrow> int \<times> 'w"
  wk_socket :: "int \<Rightarrow> int \<Rightarrow> int \<Rightarrow> 'w \<Rightarrow> (int + nat) \<times> 'w"
  wk_close :: "nat \<Rightarrow> 'w \<Rightarrow> 'w"
  wk_accept :: "nat \<Rightarrow> 'w \<Rightarrow> (int + nat \<times> os_sockaddr) \<times> 'w"
  wk_name :: "nat \<Rightarrow> 'w \<Rightarrow> int + os_sockaddr"
  wk_peer :: "nat \<Rightarrow> 'w \<Rightarrow> int + os_sockaddr"
  wk_plain :: "nat \<Rightarrow> transfer \<Rightarrow> 'w \<Rightarrow> (int + nat \<times> bytes \<times> os_sockaddr option) \<times> 'w"
  wk_result :: "nat \<Rightarrow> 'w \<Rightarrow> (int + nat \<times> bytes \<times> os_sockaddr option) \<times> 'w"  \<comment> \<open>WSAGetOverlappedResult\<close>
  wk_protocol :: "nat \<Rightarrow> 'w \<Rightarrow> (int \<times> int \<times> int) option"                     \<comment> \<open>SO_PROTOCOL_INFOW\<close>
  wk_extends :: "nat \<Rightarrow> 'w \<Rightarrow> bool"
  wk_ready :: "'w \<Rightarrow> bool"                                                  \<comment> \<open>a port is at hand\<close>
  wk_attach :: "nat \<Rightarrow> int \<Rightarrow> 'w \<Rightarrow> (bool \<times> int) \<times> 'w"
  wk_wait :: "nat \<Rightarrow> 'w \<Rightarrow> 'w"
  wk_poll :: "(nat \<times> int) list \<Rightarrow> int \<Rightarrow> 'w \<Rightarrow> (int + int list) \<times> 'w"           \<comment> \<open>WSAPoll: what each has, or the error\<close>
  wk_get_int :: "nat \<Rightarrow> int \<Rightarrow> int \<Rightarrow> 'w \<Rightarrow> int + int"
  wk_get_ms :: "nat \<Rightarrow> int \<Rightarrow> int \<Rightarrow> 'w \<Rightarrow> int + u32"
  wk_get_time :: "nat \<Rightarrow> int \<Rightarrow> int \<Rightarrow> 'w \<Rightarrow> int + int \<times> int"
  wk_get_linger :: "nat \<Rightarrow> int \<Rightarrow> int \<Rightarrow> 'w \<Rightarrow> int + int \<times> int"

definition wsa :: "'w win_sockets \<Rightarrow> int \<Rightarrow> int" where "wsa ws win = sppc_errno_wsa (wk_os ws) win"
definition wsa_is :: "'w win_sockets \<Rightarrow> int \<Rightarrow> string \<Rightarrow> bool" where "wsa_is ws win name \<longleftrightarrow> wk_os ws name = Some win"

definition win_transfer_errno :: "'w win_sockets \<Rightarrow> int \<Rightarrow> bool \<Rightarrow> int" where
  "win_transfer_errno ws win sending =
     (if wsa_is ws win ''WSAECONNABORTED'' then if sending then SPPC_EPIPE else SPPC_ECONNRESET else wsa ws win)"

section \<open>Through the completion port\<close>

definition win_on_port :: "'w win_sockets \<Rightarrow> ofd \<Rightarrow> 'w \<Rightarrow> bool \<times> ofd \<times> 'w" where
  "win_on_port ws o' w =
     (if od_nonblock o' then (False, o', w)
      else case wk_attach ws (od_handle o') (od_iocp o') w of ((ok, tied), w1) \<Rightarrow> (ok, o'\<lparr>od_iocp := tied\<rparr>, w1))"

text \<open>An overlapped operation started, waited for if it was, and its result.\<close>

definition on_port_done ::
  "'w win_sockets \<Rightarrow> nat \<Rightarrow> sock_ask \<Rightarrow> 'w \<Rightarrow> (int + nat \<times> bytes \<times> os_sockaddr option) \<times> 'w" where
  "on_port_done ws h op w =
     (case wk_ask ws h op w of
        (win, w1) \<Rightarrow>
          if win \<noteq> 0 \<and> \<not> wsa_is ws win ''WSA_IO_PENDING'' then (Inl win, w1)
          else wk_result ws h (wk_wait ws h w1))"

definition win_transfer ::
  "'w win_sockets \<Rightarrow> ofd \<Rightarrow> transfer \<Rightarrow> bool \<Rightarrow> 'w \<Rightarrow> (int + nat \<times> bytes \<times> os_sockaddr option) \<times> ofd \<times> 'w" where
  "win_transfer ws o' op port w =
     (case (if port then win_on_port ws o' w else (False, o', w)) of
        (on_port, o1, w1) \<Rightarrow>
          (case (if on_port then on_port_done ws (od_handle o') (StartTransfer op) w1 else wk_plain ws (od_handle o') op w1) of
             (r, w2) \<Rightarrow> (r, o1, w2)))"

definition sockaddr_any :: "int \<Rightarrow> os_sockaddr" where
  "sockaddr_any family = \<lparr>ss_family = family, sin_port = 0, sin_addr = replicate 4 0, sin_zero = replicate 8 0, sin6_port = 0,
     sin6_flowinfo = 0, sin6_scope_id = 0, sin6_addr = replicate 16 0\<rparr>"

definition addr_len :: "'w win_sockets \<Rightarrow> os_sockaddr \<Rightarrow> nat" where
  "addr_len ws addr = sppc_sockaddr_len (mac (wk_os ws) ''AF_INET'') addr"

text \<open>Whether ConnectEx is there for this socket and address, as far as can be told before it is bound.\<close>

definition may_connect_on_port :: "'w win_sockets \<Rightarrow> ofd \<Rightarrow> os_sockaddr \<Rightarrow> 'w \<Rightarrow> bool" where
  "may_connect_on_port ws o' addr w \<longleftrightarrow>
     \<not> od_nonblock o' \<and> wk_ready ws w \<and>
     (ss_family addr = mac (wk_os ws) ''AF_INET'' \<or> ss_family addr = mac (wk_os ws) ''AF_INET6'') \<and>
     wk_get_int ws (od_handle o') (mac (wk_os ws) ''SOL_SOCKET'') (mac (wk_os ws) ''SO_TYPE'') w = Inr (mac (wk_os ws) ''SOCK_STREAM'') \<and>
     wk_extends ws (od_handle o') w"

definition bound_or_bind :: "'w win_sockets \<Rightarrow> nat \<Rightarrow> os_sockaddr \<Rightarrow> 'w \<Rightarrow> bool \<times> 'w" where
  "bound_or_bind ws h addr w =
     (case wk_name ws h w of
        Inr _ \<Rightarrow> (True, w)
      | Inl win \<Rightarrow>
          if \<not> wsa_is ws win ''WSAEINVAL'' then (False, w)
          else let here = sockaddr_any (ss_family addr)
            in case wk_ask ws h (Bind here (addr_len ws here)) w of (win2, w1) \<Rightarrow> (win2 = 0, w1))"

text \<open>Winsock's error (0 for none) if the connect went through the port, None for the plain call to make.\<close>

definition win_connect_on_port :: "'w win_sockets \<Rightarrow> ofd \<Rightarrow> os_sockaddr \<Rightarrow> 'w \<Rightarrow> int option \<times> ofd \<times> 'w" where
  "win_connect_on_port ws o' addr w =
     (if \<not> may_connect_on_port ws o' addr w then (None, o', w)
      else case bound_or_bind ws (od_handle o') addr w of
        (False, w1) \<Rightarrow> (None, o', w1)
      | (True, w1) \<Rightarrow>
          (case win_on_port ws o' w1 of
             (False, o1, w2) \<Rightarrow> (None, o1, w2)
           | (True, o1, w2) \<Rightarrow>
               (case on_port_done ws (od_handle o') (StartConnect addr (addr_len ws addr)) w2 of
                  (Inl win, w3) \<Rightarrow> (Some win, o1, w3)
                | (Inr _, w3) \<Rightarrow> (Some 0, o1, snd (wk_ask ws (od_handle o') ConnectContext w3)))))"

text \<open>The connection and its peer, or the error, if the accept went through the port.\<close>

definition win_accept_on_port ::
  "'w win_sockets \<Rightarrow> ofd \<Rightarrow> os_sockaddr \<Rightarrow> 'w \<Rightarrow> (int + nat \<times> os_sockaddr) option \<times> ofd \<times> 'w" where
  "win_accept_on_port ws o' zeroes w =
     (if od_nonblock o' \<or> \<not> wk_ready ws w \<or> \<not> wk_extends ws (od_handle o') w then (None, o', w)
      else case wk_protocol ws (od_handle o') w of
        None \<Rightarrow> (None, o', w)
      | Some (family, type, protocol) \<Rightarrow>
          (case win_on_port ws o' w of
             (False, o1, w1) \<Rightarrow> (None, o1, w1)
           | (True, o1, w1) \<Rightarrow>
               (case wk_socket ws family type protocol w1 of
                  (Inl win, w2) \<Rightarrow> (Some (Inl win), o1, w2)
                | (Inr conn, w2) \<Rightarrow>
                    (case on_port_done ws (od_handle o') (StartAccept conn) w2 of
                       (Inl win, w3) \<Rightarrow> (Some (Inl win), o1, wk_close ws conn w3)
                     | (Inr _, w3) \<Rightarrow>
                         let w4 = snd (wk_ask ws conn (AcceptContext (od_handle o')) w3)
                         in (Some (Inr (conn, case wk_peer ws conn w4 of Inr a \<Rightarrow> a | Inl _ \<Rightarrow> zeroes)), o1, w4)))))"

section \<open>Making and naming sockets\<close>

text \<open>A call on the socket an fd names: EBADF for no descriptor, ENOTSOCK for one of anything else.\<close>

definition on_socket ::
  "fd_env \<Rightarrow> int \<Rightarrow> (int \<Rightarrow> 'r) \<Rightarrow> (ofd \<Rightarrow> 'w \<Rightarrow> 'r \<times> ofd \<times> 'w) \<Rightarrow> fd_table \<Rightarrow> 'w \<Rightarrow> 'r \<times> fd_table \<times> 'w" where
  "on_socket e fd bad act =
     on_fd e fd (bad SPPC_EBADF) (\<lambda>o' w. if od_kind o' \<noteq> FdSocket then (bad SPPC_ENOTSOCK, o', w) else act o' w)"

definition asked :: "'w win_sockets \<Rightarrow> sock_ask \<Rightarrow> ofd \<Rightarrow> 'w \<Rightarrow> int \<times> ofd \<times> 'w" where
  "asked ws op o' w = (case wk_ask ws (od_handle o') op w of (win, w1) \<Rightarrow> (if win = 0 then 0 else wsa ws win, o', w1))"

definition win_socket_fd ::
  "'w win_sockets \<Rightarrow> fd_env \<Rightarrow> nat \<Rightarrow> bool \<Rightarrow> bool \<Rightarrow> fd_table \<Rightarrow> 'w \<Rightarrow> (int \<times> nat option) \<times> fd_table \<times> 'w" where
  "win_socket_fd ws e h nonblock cloexec t w =
     (if \<not> fe_ofd e then ((SPPC_ENOMEM, None), t, wk_close ws h w)
      else let i = ft_next t;
               t1 = t\<lparr>ft_next := i + 1, ft_ofds := (ft_ofds t)(i \<mapsto>
                 \<lparr>od_refs = 1, od_kind = FdSocket, od_access = FD_READ OR FD_WRITE, od_handle = h, od_disk = False,
                  od_append = False, od_nonblock = nonblock, od_reuseaddr = False, od_iocp = 0, od_pending = [], od_in = [],
                  od_in_pos = 0\<rparr>)\<rparr>
        in case fd_install e i 0 cloexec t1 of (err, out, t2) \<Rightarrow> ((err, out), t2, w))"

definition sppc_socket_win ::
  "'w win_sockets \<Rightarrow> fd_env \<Rightarrow> int \<Rightarrow> int \<Rightarrow> int \<Rightarrow> fd_table \<Rightarrow> 'w \<Rightarrow> (int \<times> nat option) \<times> fd_table \<times> 'w" where
  "sppc_socket_win ws e domain type protocol t w =
     (case (sppc_to_os_value domain (sppc_af_table (wk_os ws)), sppc_to_os_sock_type (wk_os ws) type) of
        (Inr os_domain, Inr os_type) \<Rightarrow>
          (let nonblock = os_type AND os_sock_nonblock (wk_os ws) \<noteq> 0;
               cloexec = os_type AND os_sock_cloexec (wk_os ws) \<noteq> 0;
               plain = os_type AND NOT (os_sock_nonblock (wk_os ws) OR os_sock_cloexec (wk_os ws))
           in case wk_socket ws os_domain plain protocol w of
                (Inl win, w1) \<Rightarrow> ((wsa ws win, None), t, w1)
              | (Inr h, w1) \<Rightarrow>
                  (case (if nonblock then wk_ask ws h (Blocking False) w1 else (0, w1)) of
                     (win, w2) \<Rightarrow>
                       if win \<noteq> 0 then ((wsa ws win, None), t, wk_close ws h w2)
                       else win_socket_fd ws e h nonblock cloexec t
                              (if plain = mac (wk_os ws) ''SOCK_DGRAM'' then snd (wk_ask ws h NoConnReset w2) else w2)))
      | _ \<Rightarrow> ((SPPC_EINVAL, None), t, w))"

definition sppc_connect_win ::
  "'w win_sockets \<Rightarrow> fd_env \<Rightarrow> int \<Rightarrow> os_sockaddr \<Rightarrow> fd_table \<Rightarrow> 'w \<Rightarrow> int \<times> fd_table \<times> 'w" where
  "sppc_connect_win ws e fd addr =
     on_socket e fd id (\<lambda>o' w.
       case win_connect_on_port ws o' addr w of
         (Some win, o1, w1) \<Rightarrow> (if win = 0 then 0 else wsa ws win, o1, w1)
       | (None, o1, w1) \<Rightarrow>
           (case wk_ask ws (od_handle o') (Connect addr (addr_len ws addr)) w1 of
              (win, w2) \<Rightarrow>
                (if win = 0 then 0
                 else if wsa_is ws win ''WSAEWOULDBLOCK'' then SPPC_EINPROGRESS
                 else if wsa_is ws win ''WSAEINVAL'' \<and> od_nonblock o' then SPPC_EALREADY
                 else wsa ws win, o1, w2)))"

definition sppc_bind_win ::
  "'w win_sockets \<Rightarrow> fd_env \<Rightarrow> int \<Rightarrow> os_sockaddr \<Rightarrow> fd_table \<Rightarrow> 'w \<Rightarrow> int \<times> fd_table \<times> 'w" where
  "sppc_bind_win ws e fd addr = on_socket e fd id (asked ws (Bind addr (addr_len ws addr)))"

definition sppc_listen_win :: "'w win_sockets \<Rightarrow> fd_env \<Rightarrow> int \<Rightarrow> int \<Rightarrow> fd_table \<Rightarrow> 'w \<Rightarrow> int \<times> fd_table \<times> 'w" where
  "sppc_listen_win ws e fd backlog = on_socket e fd id (asked ws (Listen backlog))"

text \<open>The error, the new fd and the peer's address.\<close>

definition sppc_accept_win ::
  "'w win_sockets \<Rightarrow> fd_env \<Rightarrow> int \<Rightarrow> os_sockaddr \<Rightarrow> fd_table \<Rightarrow> 'w \<Rightarrow> (int \<times> nat option \<times> os_sockaddr) \<times> fd_table \<times> 'w" where
  "sppc_accept_win ws e fd zeroes t w =
     (case on_socket e fd Inl (\<lambda>o' w.
         case win_accept_on_port ws o' zeroes w of
           (Some r, o1, w1) \<Rightarrow> (Inr r, o1, w1)
         | (None, o1, w1) \<Rightarrow> (case wk_accept ws (od_handle o') w1 of (r, w2) \<Rightarrow> (Inr r, o1, w2))) t w of
        (Inl err, t1, w1) \<Rightarrow> ((err, None, zeroes), t1, w1)
      | (Inr (Inl win), t1, w1) \<Rightarrow> ((wsa ws win, None, zeroes), t1, w1)
      | (Inr (Inr (conn, peer)), t1, w1) \<Rightarrow>
          (let w2 = snd (wk_ask ws conn NoInherit (snd (wk_ask ws conn (Blocking True) w1)))
           in case win_socket_fd ws e conn False True t1 w2 of ((err, out), t2, w3) \<Rightarrow> ((err, out, peer), t2, w3)))"

definition name_of :: "'w win_sockets \<Rightarrow> (nat \<Rightarrow> 'w \<Rightarrow> int + os_sockaddr) \<Rightarrow> ofd \<Rightarrow> 'w \<Rightarrow> (int \<times> os_sockaddr option) \<times> ofd \<times> 'w" where
  "name_of ws f o' w = (case f (od_handle o') w of Inl win \<Rightarrow> ((wsa ws win, None), o', w) | Inr a \<Rightarrow> ((0, Some a), o', w))"

definition sppc_getsockname_win ::
  "'w win_sockets \<Rightarrow> fd_env \<Rightarrow> int \<Rightarrow> fd_table \<Rightarrow> 'w \<Rightarrow> (int \<times> os_sockaddr option) \<times> fd_table \<times> 'w" where
  "sppc_getsockname_win ws e fd = on_socket e fd (\<lambda>err. (err, None)) (name_of ws (wk_name ws))"

definition sppc_getpeername_win ::
  "'w win_sockets \<Rightarrow> fd_env \<Rightarrow> int \<Rightarrow> fd_table \<Rightarrow> 'w \<Rightarrow> (int \<times> os_sockaddr option) \<times> fd_table \<times> 'w" where
  "sppc_getpeername_win ws e fd = on_socket e fd (\<lambda>err. (err, None)) (name_of ws (wk_peer ws))"

definition sppc_shutdown_win :: "'w win_sockets \<Rightarrow> fd_env \<Rightarrow> int \<Rightarrow> int \<Rightarrow> fd_table \<Rightarrow> 'w \<Rightarrow> int \<times> fd_table \<times> 'w" where
  "sppc_shutdown_win ws e fd how t w =
     (if how \<noteq> SPPC_SHUT_RD \<and> how \<noteq> SPPC_SHUT_WR \<and> how \<noteq> SPPC_SHUT_RDWR then (SPPC_EINVAL, t, w)
      else on_socket e fd id (asked ws (Shutdown how)) t w)"

section \<open>Messages\<close>

definition win_msg_flags :: "'w win_sockets \<Rightarrow> int \<Rightarrow> nat \<Rightarrow> bool \<Rightarrow> 'w \<Rightarrow> (int + int) \<times> 'w" where
  "win_msg_flags ws flags h writing w =
     (case sppc_to_os_msg_flags (wk_os ws) (flags AND NOT (SPPC_MSG_NOSIGNAL OR SPPC_MSG_DONTWAIT)) of
        Inl _ \<Rightarrow> (Inl SPPC_EINVAL, w)
      | Inr os_flags \<Rightarrow>
          if flags AND SPPC_MSG_DONTWAIT = 0 then (Inr os_flags, w)
          else (case wk_poll ws [(h, mac (wk_os ws) (if writing then ''POLLWRNORM'' else ''POLLRDNORM''))] 0 w of
                  (Inl win, w1) \<Rightarrow> (Inl (wsa ws win), w1)
                | (Inr events, w1) \<Rightarrow> (if list_all (\<lambda>ev. ev = 0) events then Inl SPPC_EAGAIN else Inr os_flags, w1)))"

definition waits_may :: "int \<Rightarrow> bool" where "waits_may flags \<longleftrightarrow> flags AND SPPC_MSG_DONTWAIT = 0"

definition sent :: "'w win_sockets \<Rightarrow> (int + nat \<times> bytes \<times> os_sockaddr option) \<times> ofd \<times> 'w \<Rightarrow> (int \<times> int) \<times> ofd \<times> 'w" where
  "sent ws r =
     (case r of
        (Inl win, o1, w1) \<Rightarrow> ((win_transfer_errno ws win True, - 1), o1, w1)
      | (Inr (n, _, _), o1, w1) \<Rightarrow> ((0, int n), o1, w1))"

text \<open>The count is the whole buffer for a datagram that was longer; then the bytes and the sender come with the error.\<close>

definition received ::
  "'w win_sockets \<Rightarrow> nat \<Rightarrow> (int + nat \<times> bytes \<times> os_sockaddr option) \<times> ofd \<times> 'w \<Rightarrow>
     (int \<times> int \<times> (bytes \<times> os_sockaddr option) option) \<times> ofd \<times> 'w" where
  "received ws want r =
     (case r of
        (Inl win, o1, w1) \<Rightarrow>
          (if wsa_is ws win ''WSAEMSGSIZE'' then ((0, int want, None), o1, w1)
           else ((win_transfer_errno ws win False, - 1, None), o1, w1))
      | (Inr (n, got), o1, w1) \<Rightarrow> ((0, int n, Some got), o1, w1))"

definition io_want :: "u64 \<Rightarrow> nat" where "io_want sz = (if unat sz < C_INT_MAX then unat sz else C_INT_MAX)"

definition sppc_send_win ::
  "'w win_sockets \<Rightarrow> fd_env \<Rightarrow> int \<Rightarrow> bytes \<Rightarrow> int \<Rightarrow> fd_table \<Rightarrow> 'w \<Rightarrow> (int \<times> int) \<times> fd_table \<times> 'w" where
  "sppc_send_win ws e fd data flags =
     on_socket e fd (\<lambda>err. (err, - 1)) (\<lambda>o' w.
       case win_msg_flags ws flags (od_handle o') True w of
         (Inl err, w1) \<Rightarrow> ((err, - 1), o', w1)
       | (Inr os_flags, w1) \<Rightarrow> sent ws (win_transfer ws o' (Send (take C_INT_MAX data) os_flags None) (waits_may flags) w1))"

definition sppc_recv_win ::
  "'w win_sockets \<Rightarrow> fd_env \<Rightarrow> int \<Rightarrow> u64 \<Rightarrow> int \<Rightarrow> fd_table \<Rightarrow> 'w \<Rightarrow>
     (int \<times> int \<times> (bytes \<times> os_sockaddr option) option) \<times> fd_table \<times> 'w" where
  "sppc_recv_win ws e fd sz flags =
     on_socket e fd (\<lambda>err. (err, - 1, None)) (\<lambda>o' w.
       case win_msg_flags ws flags (od_handle o') False w of
         (Inl err, w1) \<Rightarrow> ((err, - 1, None), o', w1)
       | (Inr os_flags, w1) \<Rightarrow>
           received ws (io_want sz) (win_transfer ws o' (Recv (io_want sz) os_flags False) (waits_may flags) w1))"

definition sppc_sendto_win ::
  "'w win_sockets \<Rightarrow> fd_env \<Rightarrow> int \<Rightarrow> bytes \<Rightarrow> os_sockaddr \<Rightarrow> fd_table \<Rightarrow> 'w \<Rightarrow> (int \<times> int) \<times> fd_table \<times> 'w" where
  "sppc_sendto_win ws e fd data addr =
     on_socket e fd (\<lambda>err. (err, - 1)) (\<lambda>o' w. sent ws (win_transfer ws o' (Send (take C_INT_MAX data) 0 (Some addr)) True w))"

definition sppc_recvfrom_win ::
  "'w win_sockets \<Rightarrow> fd_env \<Rightarrow> int \<Rightarrow> u64 \<Rightarrow> fd_table \<Rightarrow> 'w \<Rightarrow>
     (int \<times> int \<times> (bytes \<times> os_sockaddr option) option) \<times> fd_table \<times> 'w" where
  "sppc_recvfrom_win ws e fd sz =
     on_socket e fd (\<lambda>err. (err, - 1, None)) (\<lambda>o' w.
       received ws (io_want sz) (win_transfer ws o' (Recv (io_want sz) 0 True) True w))"

section \<open>Options\<close>

definition on_option ::
  "'w win_sockets \<Rightarrow> fd_env \<Rightarrow> int \<Rightarrow> int \<Rightarrow> int \<Rightarrow> (int \<Rightarrow> 'r) \<Rightarrow> (int \<Rightarrow> int \<Rightarrow> ofd \<Rightarrow> 'w \<Rightarrow> 'r \<times> ofd \<times> 'w) \<Rightarrow>
     fd_table \<Rightarrow> 'w \<Rightarrow> 'r \<times> fd_table \<times> 'w" where
  "on_option ws e fd level name bad act t w =
     (case sppc_to_os_sockopt (wk_os ws) level name of
        Inl err \<Rightarrow> (bad err, t, w)
      | Inr (os_level, os_name) \<Rightarrow> on_socket e fd bad (act os_level os_name) t w)"

definition sppc_setsockopt_win ::
  "'w win_sockets \<Rightarrow> fd_env \<Rightarrow> int \<Rightarrow> int \<Rightarrow> int \<Rightarrow> int \<Rightarrow> fd_table \<Rightarrow> 'w \<Rightarrow> int \<times> fd_table \<times> 'w" where
  "sppc_setsockopt_win ws e fd level name optval =
     on_option ws e fd level name id (\<lambda>os_level os_name o' w.
       if level = SPPC_SOL_SOCKET \<and> name = SPPC_SO_REUSEADDR then (0, o'\<lparr>od_reuseaddr := optval \<noteq> 0\<rparr>, w)
       else asked ws (SetInt os_level os_name optval) o' w)"

definition sppc_getsockopt_win ::
  "'w win_sockets \<Rightarrow> fd_env \<Rightarrow> int \<Rightarrow> int \<Rightarrow> int \<Rightarrow> fd_table \<Rightarrow> 'w \<Rightarrow> (int \<times> int option) \<times> fd_table \<times> 'w" where
  "sppc_getsockopt_win ws e fd level name =
     on_option ws e fd level name (\<lambda>err. (err, None)) (\<lambda>os_level os_name o' w.
       if level = SPPC_SOL_SOCKET \<and> name = SPPC_SO_REUSEADDR then ((0, Some (if od_reuseaddr o' then 1 else 0)), o', w)
       else case wk_get_int ws (od_handle o') os_level os_name w of
         Inl win \<Rightarrow> ((wsa ws win, Some 0), o', w)
       | Inr v \<Rightarrow>
           ((0, Some (if level = SPPC_SOL_SOCKET \<and> name = SPPC_SO_ERROR then wsa ws v
                      else if level = SPPC_SOL_SOCKET \<and> name = SPPC_SO_TYPE
                      then sppc_from_os_value v (sppc_sock_types_table (wk_os ws)) v else v)), o', w))"

definition win_is_timeout :: "int \<Rightarrow> int \<Rightarrow> bool" where
  "win_is_timeout level name \<longleftrightarrow> level = SPPC_SOL_SOCKET \<and> (name = SPPC_SO_RCVTIMEO \<or> name = SPPC_SO_SNDTIMEO)"

definition LONG_MAX :: int where "LONG_MAX = 2 ^ 31 - 1"

text \<open>A time in whole milliseconds, rounded up, as 64 bits have it.\<close>

definition timeval_ms :: "sppc_timeval \<Rightarrow> u64" where
  "timeval_ms tv = tv_secs tv * 1000 + (tv_usecs tv + 999) div 1000"

definition option_ms :: "sppc_timeval \<Rightarrow> u32" where
  "option_ms tv = (let ms = timeval_ms tv in if ms > 0xFFFFFFFE then 0xFFFFFFFE else ucast ms)"

definition sppc_setsockopt_timeval_win ::
  "'w win_sockets \<Rightarrow> fd_env \<Rightarrow> int \<Rightarrow> int \<Rightarrow> int \<Rightarrow> sppc_timeval \<Rightarrow> fd_table \<Rightarrow> 'w \<Rightarrow> int \<times> fd_table \<times> 'w" where
  "sppc_setsockopt_timeval_win ws e fd level name optval t w =
     (if tv_usecs optval \<ge> 1000000 then (SPPC_EINVAL, t, w)
      else on_option ws e fd level name id (\<lambda>os_level os_name.
        if win_is_timeout level name then asked ws (SetMs os_level os_name (option_ms optval))
        else asked ws (SetTime os_level os_name
               (if uint (tv_secs optval) > LONG_MAX then LONG_MAX else uint (tv_secs optval)) (uint (tv_usecs optval)))) t w)"

definition ms_timeval :: "u32 \<Rightarrow> sppc_timeval" where
  "ms_timeval ms = \<lparr>tv_secs = ucast (ms div 1000), tv_usecs = ucast ((ms mod 1000) * 1000)\<rparr>"

definition sppc_getsockopt_timeval_win ::
  "'w win_sockets \<Rightarrow> fd_env \<Rightarrow> int \<Rightarrow> int \<Rightarrow> int \<Rightarrow> fd_table \<Rightarrow> 'w \<Rightarrow> (int \<times> sppc_timeval option) \<times> fd_table \<times> 'w" where
  "sppc_getsockopt_timeval_win ws e fd level name =
     on_option ws e fd level name (\<lambda>err. (err, None)) (\<lambda>os_level os_name o' w.
       if win_is_timeout level name
       then (case wk_get_ms ws (od_handle o') os_level os_name w of
               Inl win \<Rightarrow> ((wsa ws win, None), o', w)
             | Inr ms \<Rightarrow> ((0, Some (ms_timeval ms)), o', w))
       else (case wk_get_time ws (od_handle o') os_level os_name w of
               Inl win \<Rightarrow> ((wsa ws win, None), o', w)
             | Inr (s, u) \<Rightarrow>
                 ((0, Some \<lparr>tv_secs = (if s < 0 then 0 else word_of_int s), tv_usecs = (if u < 0 then 0 else word_of_int u)\<rparr>),
                  o', w)))"

definition sppc_setsockopt_linger_win ::
  "'w win_sockets \<Rightarrow> fd_env \<Rightarrow> int \<Rightarrow> int \<Rightarrow> int \<Rightarrow> sppc_linger \<Rightarrow> fd_table \<Rightarrow> 'w \<Rightarrow> int \<times> fd_table \<times> 'w" where
  "sppc_setsockopt_linger_win ws e fd level name optval =
     on_option ws e fd level name id (\<lambda>os_level os_name.
       asked ws (SetLinger os_level os_name (if lg_onoff optval \<noteq> 0 then 1 else 0)
         (if lg_linger optval < 0 then 0 else if lg_linger optval > 0xFFFF then 0xFFFF else lg_linger optval)))"

definition sppc_getsockopt_linger_win ::
  "'w win_sockets \<Rightarrow> fd_env \<Rightarrow> int \<Rightarrow> int \<Rightarrow> int \<Rightarrow> fd_table \<Rightarrow> 'w \<Rightarrow> (int \<times> sppc_linger option) \<times> fd_table \<times> 'w" where
  "sppc_getsockopt_linger_win ws e fd level name =
     on_option ws e fd level name (\<lambda>err. (err, None)) (\<lambda>os_level os_name o' w.
       case wk_get_linger ws (od_handle o') os_level os_name w of
         Inl win \<Rightarrow> ((wsa ws win, None), o', w)
       | Inr (onoff, linger) \<Rightarrow> ((0, Some \<lparr>lg_onoff = onoff, lg_linger = linger\<rparr>), o', w))"

section \<open>A timeout is read back\<close>

text \<open>A call that leaves the description of an fd as it was leaves the table so.\<close>

lemma used_socket:
  assumes used: "ft_up t" "0 \<le> fd" "slot_ofd t (nat fd) = Some i" "ft_ofds t i = Some o'" "1 \<le> od_refs o'"
    and kind: "od_kind o' = FdSocket" and act: "act (add_ref 1 o') w = (r, add_ref 1 o', w1)"
  shows "on_socket e fd bad act t w = (r, t, w1)"
  using used(4,5) kind act
  by (simp add: on_socket_def on_fd_def get_pinned [OF used(1-4)] release_used fun_upd_idem)

text \<open>What Winsock documents of the two timeouts: one set is the one it has.\<close>

definition timeout_kept :: "'w win_sockets \<Rightarrow> bool" where
  "timeout_kept ws \<longleftrightarrow> (\<forall>h l n v w w1. wk_ask ws h (SetMs l n v) w = (0, w1) \<longrightarrow> wk_get_ms ws h l n w1 = Inr v)"

text \<open>Microseconds.\<close>

definition timeval_us :: "sppc_timeval \<Rightarrow> int" where
  "timeval_us tv = uint (tv_secs tv) * 1000000 + uint (tv_usecs tv)"

lemma ms_exact:
  assumes "uint (tv_usecs tv) < 1000000" "uint (tv_secs tv) < 2 ^ 54"
  shows "uint (timeval_ms tv) = (timeval_us tv + 999) div 1000"
proof -
  have a: "uint (tv_usecs tv + 999) = uint (tv_usecs tv) + 999"
    using assms(1) by (simp add: uint_word_ariths)
  have d: "uint ((tv_usecs tv + 999) div 1000) = (uint (tv_usecs tv) + 999) div 1000"
    by (simp only: uint_div_distrib a) simp
  have m: "uint (tv_secs tv * 1000) = uint (tv_secs tv) * 1000"
    using assms(2) by (simp add: uint_word_ariths)
  have "0 \<le> (uint (tv_usecs tv) + 999) div 1000 \<and> (uint (tv_usecs tv) + 999) div 1000 \<le> 1000"
    using assms(1) by (simp add: pos_imp_zdiv_nonneg_iff div_le_dividend)
  then have "(uint (tv_secs tv) * 1000 + (uint (tv_usecs tv) + 999) div 1000) mod 2 ^ 64 =
      uint (tv_secs tv) * 1000 + (uint (tv_usecs tv) + 999) div 1000"
    using assms(2) by (intro mod_pos_pos_trivial) auto
  then have "uint (timeval_ms tv) = uint (tv_secs tv) * 1000 + (uint (tv_usecs tv) + 999) div 1000"
    using d by (simp add: timeval_ms_def m uint_word_ariths(1) [of "tv_secs tv * 1000" "(tv_usecs tv + 999) div 1000"])
  then show ?thesis by (simp add: timeval_us_def)
qed

lemma ms_back: "timeval_us (ms_timeval ms) = uint ms * 1000"
proof -
  have q: "uint (ms div 1000) = uint ms div 1000" "uint (ms mod 1000) = uint ms mod 1000"
    by (simp_all add: uint_div_distrib uint_mod_distrib)
  have "uint ((ms mod 1000) * 1000) = uint ms mod 1000 * 1000"
    using q(2) by (simp add: uint_word_ariths)
  moreover have "uint (ucast x :: u64) = uint x" for x :: u32 by (simp add: uint_up_ucast is_up)
  ultimately have "timeval_us (ms_timeval ms) = uint ms div 1000 * 1000000 + uint ms mod 1000 * 1000"
    using q(1) by (simp add: timeval_us_def ms_timeval_def)
  also have "\<dots> = uint ms * 1000" by (simp add: algebra_simps) presburger
  finally show ?thesis .
qed

text \<open>A receive or send timeout set on a Windows socket is read back in whole milliseconds, rounded up, so never
  shorter than it was set nor a millisecond longer, and 0 (no timeout) only if it was; one longer than
  Windows counts is the longest it does; all for times under 2^54 seconds.
\<close>

theorem timeout_round_trip:
  assumes used: "ft_up t" "0 \<le> fd" "slot_ofd t (nat fd) = Some i" "ft_ofds t i = Some o'" "1 \<le> od_refs o'"
      "od_kind o' = FdSocket"
    and laws: "timeout_kept ws" and name: "name = SPPC_SO_RCVTIMEO \<or> name = SPPC_SO_SNDTIMEO"
    and small: "uint (tv_secs tv) < 2 ^ 54"
    and set1: "sppc_setsockopt_timeval_win ws e fd SPPC_SOL_SOCKET name tv t w = (0, t1, w1)"
  shows "\<exists>got. sppc_getsockopt_timeval_win ws e fd SPPC_SOL_SOCKET name t1 w1 = ((0, Some got), t, w1) \<and>
    (if timeval_us tv \<le> 4294967294000 then timeval_us tv \<le> timeval_us got \<and> timeval_us got < timeval_us tv + 1000
     else timeval_us got = 4294967294000)"
proof -
  have out: "win_is_timeout SPPC_SOL_SOCKET name" using name by (auto simp: win_is_timeout_def)
  have usec: "uint (tv_usecs tv) < 1000000"
    using set1 by (auto simp: sppc_setsockopt_timeval_win_def not_le word_less_def split: if_splits)
  then have few: "\<not> tv_usecs tv \<ge> 1000000" by (simp add: word_le_def)
  obtain l n where opt: "sppc_to_os_sockopt (wk_os ws) SPPC_SOL_SOCKET name = Inr (l, n)"
    using set1 few by (cases "sppc_to_os_sockopt (wk_os ws) SPPC_SOL_SOCKET name")
      (auto simp: sppc_setsockopt_timeval_win_def on_option_def sppc_to_os_sockopt_def split: option.splits sum.splits prod.splits)
  obtain win w2 where a: "wk_ask ws (od_handle o') (SetMs l n (option_ms tv)) w = (win, w2)" by force
  have "asked ws (SetMs l n (option_ms tv)) (add_ref 1 o') w = (if win = 0 then 0 else wsa ws win, add_ref 1 o', w2)"
    by (simp add: asked_def a add_ref_def)
  then have s: "sppc_setsockopt_timeval_win ws e fd SPPC_SOL_SOCKET name tv t w = (if win = 0 then 0 else wsa ws win, t, w2)"
    using few out opt used_socket [OF used, of "asked ws (SetMs l n (option_ms tv))"]
    by (simp add: sppc_setsockopt_timeval_win_def on_option_def)
  then have ok: "win = 0" "t1 = t" "w1 = w2" using set1 by (auto simp: wsa_def split: if_splits)
  have "wk_get_ms ws (od_handle o') l n w1 = Inr (option_ms tv)" using laws a ok by (simp add: timeout_kept_def)
  then have g: "sppc_getsockopt_timeval_win ws e fd SPPC_SOL_SOCKET name t1 w1 = ((0, Some (ms_timeval (option_ms tv))), t, w1)"
    using out opt ok
    by (simp add: sppc_getsockopt_timeval_win_def on_option_def) (intro used_socket [OF used], simp add: add_ref_def)
  have ms: "uint (timeval_ms tv) = (timeval_us tv + 999) div 1000" by (rule ms_exact [OF usec small])
  have "uint (option_ms tv) = (if (timeval_us tv + 999) div 1000 > 4294967294 then 4294967294 else (timeval_us tv + 999) div 1000)"
    using ms uint_ge_0 [of "timeval_ms tv"]
    by (auto simp: option_ms_def Let_def word_less_def unsigned_ucast_eq take_bit_eq_mod)
  then have "timeval_us (ms_timeval (option_ms tv)) =
      (if (timeval_us tv + 999) div 1000 > 4294967294 then 4294967294000 else (timeval_us tv + 999) div 1000 * 1000)"
    by (simp add: ms_back)
  moreover have "timeval_us tv + 999 = 1000 * ((timeval_us tv + 999) div 1000) + (timeval_us tv + 999) mod 1000"
    "0 \<le> (timeval_us tv + 999) mod 1000" "(timeval_us tv + 999) mod 1000 < 1000"
    by simp_all
  ultimately show ?thesis using g by auto
qed

text \<open>Longer ones can wrap: 2^61 seconds are no timeout at all.\<close>

lemma long_timeout_wraps: "option_ms \<lparr>tv_secs = 2 ^ 61, tv_usecs = 0\<rparr> = 0"
  by (simp add: option_ms_def timeval_ms_def)

text \<open>A small Winsock: the world is the timeout set last; the macros are Linux's numbers.\<close>

definition one_timeout :: "u32 win_sockets \<Rightarrow> u32 win_sockets" where
  "one_timeout ws = ws\<lparr>wk_os := [''SOL_SOCKET'' \<mapsto> 1, ''SO_RCVTIMEO'' \<mapsto> 20],
     wk_ask := (\<lambda>h op w. (0, case op of SetMs _ _ v \<Rightarrow> v | _ \<Rightarrow> w)), wk_get_ms := (\<lambda>_ _ _ w. Inr w)\<rparr>"

definition one_socket :: fd_table where
  "one_socket = \<lparr>ft_up = True, ft_slots = [(Some 0, False)],
     ft_ofds = [0 \<mapsto> \<lparr>od_refs = 1, od_kind = FdSocket, od_access = 3, od_handle = 7, od_disk = False, od_append = False,
       od_nonblock = False, od_reuseaddr = False, od_iocp = 0, od_pending = [], od_in = [], od_in_pos = 0\<rparr>],
     ft_next = 1, ft_closed = [], ft_std = Map.empty\<rparr>"

lemma timeout_round_trip_witness:
  "\<forall>ws. \<exists>got. sppc_getsockopt_timeval_win (one_timeout ws) sample_env 0 SPPC_SOL_SOCKET SPPC_SO_RCVTIMEO one_socket 2 =
     ((0, Some got), one_socket, 2) \<and> timeval_us got \<in> {1500..<2500}"
  (is "\<forall>ws. ?P ws")
proof
  fix ws
  define o' where "o' = the (ft_ofds one_socket 0)"
  have used: "ft_up one_socket" "(0::int) \<le> 0" "slot_ofd one_socket (nat 0) = Some 0" "ft_ofds one_socket 0 = Some o'"
    "1 \<le> od_refs o'" "od_kind o' = FdSocket"
    by (simp_all add: one_socket_def slot_ofd_def o'_def)
  have kept: "timeout_kept (one_timeout ws)" by (simp add: timeout_kept_def one_timeout_def)
  have opt: "sppc_to_os_sockopt (wk_os (one_timeout ws)) SPPC_SOL_SOCKET SPPC_SO_RCVTIMEO = Inr (1, 20)"
    by (simp add: sppc_to_os_sockopt_def sockopt_level_def sockopt_socket_def pair_table_def List.map_filter_def one_timeout_def)
  have few: "\<not> (1000000 \<le> (1500 :: u64))" by (simp add: word_le_def)
  have ms: "option_ms \<lparr>tv_secs = 0, tv_usecs = 1500\<rparr> = 2"
    by (simp add: option_ms_def timeval_ms_def word_less_def)
  have "sppc_setsockopt_timeval_win (one_timeout ws) sample_env 0 SPPC_SOL_SOCKET SPPC_SO_RCVTIMEO
      \<lparr>tv_secs = 0, tv_usecs = 1500\<rparr> one_socket 0 = (0, one_socket, 2)"
    using opt few ms used_socket [OF used, of "asked (one_timeout ws) (SetMs 1 20 2)" 0 0 2 sample_env id]
    by (simp add: sppc_setsockopt_timeval_win_def on_option_def win_is_timeout_def asked_def one_timeout_def add_ref_def)
  from timeout_round_trip [OF used kept disjI1 [OF refl] _ this] show "?P ws"
    by (simp add: timeval_us_def)
qed

section \<open>A socket made is a descriptor's, or closed\<close>

text \<open>The sockets open, by what Winsock documents of the calls.\<close>

definition open_laws :: "'w win_sockets \<Rightarrow> ('w \<Rightarrow> nat set) \<Rightarrow> bool" where
  "open_laws ws opens \<longleftrightarrow>
     (\<forall>h w. opens (wk_close ws h w) = opens w - {h}) \<and>
     (\<forall>h op w. opens (snd (wk_ask ws h op w)) = opens w) \<and>
     (\<forall>h w. opens (snd (wk_result ws h w)) = opens w \<and> fst (wk_result ws h w) \<noteq> Inl 0) \<and>
     (\<forall>h i w. opens (snd (wk_attach ws h i w)) = opens w) \<and>
     (\<forall>h w. opens (wk_wait ws h w) = opens w) \<and>
     (\<forall>f ty p w win w1. wk_socket ws f ty p w = (Inl win, w1) \<longrightarrow> opens w1 = opens w \<and> win \<noteq> 0) \<and>
     (\<forall>f ty p w h w1. wk_socket ws f ty p w = (Inr h, w1) \<longrightarrow> h \<notin> opens w \<and> opens w1 = insert h (opens w)) \<and>
     (\<forall>l w win w1. wk_accept ws l w = (Inl win, w1) \<longrightarrow> opens w1 = opens w \<and> win \<noteq> 0) \<and>
     (\<forall>l w h a w1. wk_accept ws l w = (Inr (h, a), w1) \<longrightarrow> h \<notin> opens w \<and> opens w1 = insert h (opens w))"

lemma open_keeps:
  assumes "open_laws ws opens"
  shows "opens (wk_close ws h w) = opens w - {h}" "opens (snd (wk_ask ws h op w)) = opens w"
    "opens (snd (wk_result ws h w)) = opens w \<and> fst (wk_result ws h w) \<noteq> Inl 0" "opens (snd (wk_attach ws h i w)) = opens w" "opens (wk_wait ws h w) = opens w"
    "wk_socket ws f ty p w = (Inl win, w1) \<Longrightarrow> opens w1 = opens w \<and> win \<noteq> 0"
    "wk_socket ws f ty p w = (Inr h, w1) \<Longrightarrow> h \<notin> opens w \<and> opens w1 = insert h (opens w)"
    "wk_accept ws l w = (Inl win, w1) \<Longrightarrow> opens w1 = opens w \<and> win \<noteq> 0"
    "wk_accept ws l w = (Inr (h, a), w1) \<Longrightarrow> h \<notin> opens w \<and> opens w1 = insert h (opens w)"
proof -
  show "opens (wk_close ws h w) = opens w - {h}" "opens (snd (wk_ask ws h op w)) = opens w"
    "opens (snd (wk_result ws h w)) = opens w \<and> fst (wk_result ws h w) \<noteq> Inl 0" "opens (snd (wk_attach ws h i w)) = opens w" "opens (wk_wait ws h w) = opens w"
    using assms by (simp_all add: open_laws_def)
  have a: "\<forall>f ty p w win w1. wk_socket ws f ty p w = (Inl win, w1) \<longrightarrow> opens w1 = opens w \<and> win \<noteq> 0"
    using assms unfolding open_laws_def by (elim conjE)
  have b: "\<forall>f ty p w h w1. wk_socket ws f ty p w = (Inr h, w1) \<longrightarrow> h \<notin> opens w \<and> opens w1 = insert h (opens w)"
    using assms unfolding open_laws_def by (elim conjE)
  have c: "\<forall>l w win w1. wk_accept ws l w = (Inl win, w1) \<longrightarrow> opens w1 = opens w \<and> win \<noteq> 0"
    using assms unfolding open_laws_def by (elim conjE)
  have d: "\<forall>l w h a w1. wk_accept ws l w = (Inr (h, a), w1) \<longrightarrow> h \<notin> opens w \<and> opens w1 = insert h (opens w)"
    using assms unfolding open_laws_def by (elim conjE)
  show "wk_socket ws f ty p w = (Inl win, w1) \<Longrightarrow> opens w1 = opens w \<and> win \<noteq> 0" by (rule a [rule_format])
  show "wk_socket ws f ty p w = (Inr h, w1) \<Longrightarrow> h \<notin> opens w \<and> opens w1 = insert h (opens w)" by (rule b [rule_format])
  show "wk_accept ws l w = (Inl win, w1) \<Longrightarrow> opens w1 = opens w \<and> win \<noteq> 0" by (rule c [rule_format])
  show "wk_accept ws l w = (Inr (h, a), w1) \<Longrightarrow> h \<notin> opens w \<and> opens w1 = insert h (opens w)" by (rule d [rule_format])
qed

text \<open>What a call that makes a socket leaves: the socket its new fd names, or none open that was not.\<close>

definition socket_owned :: "('w \<Rightarrow> nat set) \<Rightarrow> 'w \<Rightarrow> int \<Rightarrow> nat option \<Rightarrow> fd_table \<Rightarrow> 'w \<Rightarrow> bool" where
  "socket_owned opens w err out t' w' \<longleftrightarrow>
     (case out of
        Some n \<Rightarrow> err = 0 \<and> (\<exists>i o'. slot_ofd t' n = Some i \<and> ft_ofds t' i = Some o' \<and> od_kind o' = FdSocket \<and>
          od_handle o' \<notin> opens w \<and> opens w' = insert (od_handle o') (opens w))
      | None \<Rightarrow> err \<noteq> 0 \<and> (opens w' = opens w \<or>
          (\<exists>h i. opens w' = insert h (opens w) \<and> (i, FdSocket, h) \<in> set (ft_closed t'))))"

lemma socket_fd_owned:
  assumes laws: "open_laws ws opens" and ok: "table_ok pins t" "ft_up t"
    and new: "h \<notin> opens w" "opens w1 = insert h (opens w)"
    and res: "win_socket_fd ws e h nonblock cloexec t w1 = ((err, out), t', w')"
  shows "socket_owned opens w err out t' w'"
proof (cases "fe_ofd e")
  case False
  then show ?thesis
    using res new open_keeps(1) [OF laws, of h w1] by (auto simp: win_socket_fd_def socket_owned_def)
next
  case True
  define o' where "o' = \<lparr>od_refs = 1, od_kind = FdSocket, od_access = FD_READ OR FD_WRITE, od_handle = h, od_disk = False,
      od_append = False, od_nonblock = nonblock, od_reuseaddr = False, od_iocp = 0, od_pending = [], od_in = [], od_in_pos = 0\<rparr>"
  define t1 where "t1 = t\<lparr>ft_next := ft_next t + 1, ft_ofds := (ft_ofds t)(ft_next t \<mapsto> o')\<rparr>"
  have ok1: "table_ok (pins(ft_next t := 1)) t1" "ft_up t1"
    using fresh_ok [OF ok(1), of o'] ok(2) by (simp_all add: o'_def t1_def)
  have ins: "fd_install e (ft_next t) 0 cloexec t1 = (err, out, t')" "w' = w1"
    using res True by (auto simp: win_socket_fd_def Let_def o'_def [symmetric] t1_def split: prod.splits)
  obtain err' out' t2 where l: "install_locked e (ft_next t) 0 cloexec t1 = (err', out', t2)" using prod_cases3 by blast
  note il = install_locked_ok [OF ok1, of "ft_next t", OF _ l]
  show ?thesis
  proof (cases "err' = 0")
    case True
    then have "err = 0" "out = out'" "t' = t2" using ins l by (simp_all add: fd_install_def ready_up [OF ok1(2)])
    moreover obtain n where "out' = Some n" "slot_ofd t2 n = Some (ft_next t)" "ft_ofds t2 (ft_next t) = Some o'"
      using True il by (auto simp: t1_def)
    moreover have "od_kind o' = FdSocket" "od_handle o' = h" by (simp_all add: o'_def)
    ultimately show ?thesis using ins(2) new by (auto simp: socket_owned_def)
  next
    case False
    then have "err = err'" "out = None" "t' = ofd_release (Some (ft_next t)) t1"
      using ins l il by (auto simp: fd_install_def ready_up [OF ok1(2)])
    then have "(ft_next t, FdSocket, h) \<in> set (ft_closed t')" by (simp add: t1_def o'_def ofd_release_def)
    then show ?thesis using False new ins(2) \<open>err = err'\<close> \<open>out = None\<close> by (auto simp: socket_owned_def)
  qed
qed

lemma on_port_keeps:
  assumes laws: "open_laws ws opens"
  shows "on_port_done ws h op w = (r, w1) \<Longrightarrow> opens w1 = opens w \<and> r \<noteq> Inl 0"
    and "win_on_port ws o' w = (b, o1, w1) \<Longrightarrow> opens w1 = opens w"
proof -
  show "opens w1 = opens w \<and> r \<noteq> Inl 0" if "on_port_done ws h op w = (r, w1)"
  proof -
    obtain win w2 where a: "wk_ask ws h op w = (win, w2)" by force
    have "opens w2 = opens w" using open_keeps(2) [OF laws, of h op w] a by simp
    moreover have "w1 = w2 \<and> r \<noteq> Inl 0 \<or> w1 = snd (wk_result ws h (wk_wait ws h w2)) \<and> r = fst (wk_result ws h (wk_wait ws h w2))"
      using that a by (auto simp: on_port_done_def split: if_splits)
    ultimately show ?thesis using open_keeps(3,5) [OF laws] by auto
  qed
  show "opens w1 = opens w" if "win_on_port ws o' w = (b, o1, w1)"
  proof -
    obtain ok tied w2 where a: "wk_attach ws (od_handle o') (od_iocp o') w = ((ok, tied), w2)" by (metis prod.collapse)
    have "opens w2 = opens w" using open_keeps(4) [OF laws, of "od_handle o'" "od_iocp o'" w] a by simp
    then show ?thesis using that a by (auto simp: win_on_port_def split: if_splits)
  qed
qed

text \<open>The answer of an accept: no socket is left open by an error, nor by the plain call's being made after all.\<close>

lemma accept_on_port_opens:
  assumes laws: "open_laws ws opens" and res: "win_accept_on_port ws o' zeroes w = (r, o1, w1)"
  shows "case r of Some (Inr (h, a)) \<Rightarrow> h \<notin> opens w \<and> opens w1 = insert h (opens w)
      | _ \<Rightarrow> opens w1 = opens w \<and> r \<noteq> Some (Inl 0)"
proof (cases "od_nonblock o' \<or> \<not> wk_ready ws w \<or> \<not> wk_extends ws (od_handle o') w \<or> wk_protocol ws (od_handle o') w = None")
  case True
  then have "(r, o1, w1) = (None, o', w)" using res by (auto simp: win_accept_on_port_def split: if_splits)
  then show ?thesis by simp
next
  case False
  then obtain f ty p where pr: "wk_protocol ws (od_handle o') w = Some (f, ty, p)" by auto
  obtain b o2 w2 where b: "win_on_port ws o' w = (b, o2, w2)" using prod_cases3 by blast
  have w2: "opens w2 = opens w" using on_port_keeps(2) [OF laws b] .
  obtain m w3 where m: "wk_socket ws f ty p w2 = (m, w3)" by force
  show ?thesis
  proof (cases "b \<and> (\<exists>conn. m = Inr conn)")
    case False
    then show ?thesis
      using res \<open>\<not> (od_nonblock o' \<or> _)\<close> pr b m w2 open_keeps(6) [OF laws, of f ty p w2 _ w3]
      by (cases b; cases m) (auto simp: win_accept_on_port_def)
  next
    case True
    then obtain conn where conn: "b" "m = Inr conn" by blast
    then have fresh: "conn \<notin> opens w" "opens w3 = insert conn (opens w)"
      using open_keeps(7) [OF laws, of f ty p w2 conn w3] m w2 by auto
    obtain d w4 where d: "on_port_done ws (od_handle o') (StartAccept conn) w3 = (d, w4)" by force
    have w4: "opens w4 = opens w3" "d \<noteq> Inl 0" using on_port_keeps(1) [OF laws d] by auto
    show ?thesis
      using res \<open>\<not> (od_nonblock o' \<or> _)\<close> pr b m conn d w4 fresh open_keeps(1,2) [OF laws]
      by (cases d) (auto simp: win_accept_on_port_def Let_def)
  qed
qed

lemma table_changed:
  assumes ok: "table_ok pins t" and old: "ft_ofds t i = Some o'" and new: "od_refs o1 = od_refs o'"
  shows "table_ok pins (t\<lparr>ft_ofds := (ft_ofds t)(i \<mapsto> o1)\<rparr>)" (is "table_ok _ ?t")
proof (rule table_okI)
  have "total pins ?t = total pins t" by (simp add: total_def slot_ofd_def fun_eq_iff)
  then show "counted (ft_ofds ?t j) (total pins ?t j)" for j
    using table_ok_counted [OF ok, of j] old new by (auto simp: counted_def)
  show "book_ok ?t" using table_okD(1) [OF ok] old by (auto simp: book_ok_def closed_ids_def)
  show "shape_ok ?t" using table_okD(2) [OF ok] by (rule shape_cong) simp_all
qed

lemma on_fd_table:
  assumes ok: "table_ok pins t" "ft_up t" and res: "on_fd e fd bad act t w = (r, t', w')"
    and act: "\<And>o' w r o1 w1. act o' w = (r, o1, w1) \<Longrightarrow> od_refs o1 = od_refs o'"
  shows "table_ok pins t' \<and> ft_up t'"
proof -
  obtain oi t1 where g: "fd_get e fd t = (oi, t1)" by force
  note ok1 = get_ok [OF ok(1) g]
  have up: "ft_up t1" using g ok(2) by (auto simp: fd_get_def fds_ready_def ofd_retain_def split: if_splits option.splits)
  show ?thesis
  proof (cases oi)
    case None
    then show ?thesis using res g ok1 up by (simp add: on_fd_def)
  next
    case (Some i)
    then obtain o' where o': "ft_ofds t1 i = Some o'"
      using table_ok_counted [OF ok1, of i] total_pin [of "pins(i := Suc (pins i))" i t1] by (cases "ft_ofds t1 i") (auto simp: counted_def)
    obtain r1 o1 w1 where a: "act o' w = (r1, o1, w1)" using prod_cases3 by blast
    have t': "t' = ofd_release (Some i) (t1\<lparr>ft_ofds := (ft_ofds t1)(i \<mapsto> o1)\<rparr>)"
      using res g Some o' a by (simp add: on_fd_def)
    have "table_ok (pins(i := Suc (pins i))) (t1\<lparr>ft_ofds := (ft_ofds t1)(i \<mapsto> o1)\<rparr>)"
      using table_changed [OF _ o' act [OF a]] ok1 Some by simp
    then have "table_ok pins t'" using release_ok [of "pins(i := Suc (pins i))" _ i] by (simp add: t')
    moreover have "ft_up t'" using up by (simp add: t' ofd_release_def split: option.splits)
    ultimately show ?thesis by blast
  qed
qed

lemma wsa_nonzero_of: "wsa ws win = 0 \<longleftrightarrow> win = 0"
  by (simp add: wsa_def)

lemma socket_owns:
  assumes laws: "open_laws ws opens" and ok: "table_ok pins t" "ft_up t"
    and res: "sppc_socket_win ws e domain type protocol t w = ((err, out), t', w')"
  shows "socket_owned opens w err out t' w'"
proof (cases "sppc_to_os_value domain (sppc_af_table (wk_os ws))")
  case (Inl a)
  then show ?thesis using res by (auto simp: sppc_socket_win_def socket_owned_def)
next
  case os_domain: (Inr os_domain)
  show ?thesis
  proof (cases "sppc_to_os_sock_type (wk_os ws) type")
    case (Inl a)
    then show ?thesis using res os_domain by (auto simp: sppc_socket_win_def socket_owned_def)
  next
    case (Inr os_type)
    define plain where "plain = os_type AND NOT (os_sock_nonblock (wk_os ws) OR os_sock_cloexec (wk_os ws))"
    define nonblock where "nonblock \<longleftrightarrow> os_type AND os_sock_nonblock (wk_os ws) \<noteq> 0"
    obtain m w1 where m: "wk_socket ws os_domain plain protocol w = (m, w1)" by force
    have all: "(case (m, w1) of (Inl win, w1) \<Rightarrow> ((wsa ws win, None), t, w1)
        | (Inr h, w1) \<Rightarrow>
            (case (if nonblock then wk_ask ws h (Blocking False) w1 else (0, w1)) of
               (win, w2) \<Rightarrow>
                 if win \<noteq> 0 then ((wsa ws win, None), t, wk_close ws h w2)
                 else win_socket_fd ws e h nonblock (os_type AND os_sock_cloexec (wk_os ws) \<noteq> 0) t
                        (if plain = mac (wk_os ws) ''SOCK_DGRAM'' then snd (wk_ask ws h NoConnReset w2) else w2))) =
        ((err, out), t', w')"
      using res unfolding sppc_socket_win_def os_domain Inr sum.case prod.case Let_def plain_def [symmetric] nonblock_def [symmetric] m .
    show ?thesis
    proof (cases m)
      case (Inl win)
      then show ?thesis
        using all open_keeps(6) [OF laws, of os_domain plain protocol w win w1] m
        by (auto simp: socket_owned_def wsa_nonzero_of)
    next
      case (Inr h)
      then have fresh: "h \<notin> opens w" "opens w1 = insert h (opens w)"
        using open_keeps(7) [OF laws, of os_domain plain protocol w h w1] m by auto
      obtain win w2 where n: "(if nonblock then wk_ask ws h (Blocking False) w1 else (0, w1)) = (win, w2)" by force
      have w2: "opens w2 = opens w1" using n open_keeps(2) [OF laws, of h "Blocking False" w1] by (auto split: if_splits)
      define w3 where "w3 = (if plain = mac (wk_os ws) ''SOCK_DGRAM'' then snd (wk_ask ws h NoConnReset w2) else w2)"
      have w3: "opens w3 = insert h (opens w)" using w2 fresh open_keeps(2) [OF laws] by (simp add: w3_def)
      show ?thesis
      proof (cases "win = 0")
        case True
        then have "win_socket_fd ws e h nonblock (os_type AND os_sock_cloexec (wk_os ws) \<noteq> 0) t w3 = ((err, out), t', w')"
          using all Inr n by (simp add: w3_def)
        then show ?thesis by (rule socket_fd_owned [OF laws ok fresh(1) w3])
      next
        case False
        then show ?thesis
          using all Inr n fresh w2 open_keeps(1) [OF laws, of h w2] by (auto simp: socket_owned_def wsa_nonzero_of)
      qed
    qed
  qed
qed

lemma accept_owns:
  assumes laws: "open_laws ws opens" and ok: "table_ok pins t" "ft_up t"
    and res: "sppc_accept_win ws e fd zeroes t w = ((err, out, peer), t', w')"
  shows "socket_owned opens w err out t' w'"
proof -
  define act where "act = (\<lambda>o' w. if od_kind o' \<noteq> FdSocket then (Inl SPPC_ENOTSOCK, o', w)
    else case win_accept_on_port ws o' zeroes w of
      (Some r, o1, w1) \<Rightarrow> (Inr r, o1, w1)
    | (None, o1, w1) \<Rightarrow> (case wk_accept ws (od_handle o') w1 of (r, w2) \<Rightarrow> (Inr r, o1, w2)))"
  have kept: "od_refs o1 = od_refs o'" if "act o' w = (r, o1, w1)" for o' w r o1 w1
    using that unfolding act_def win_accept_on_port_def win_on_port_def
    by (auto simp: Let_def split: if_splits option.splits sum.splits prod.splits bool.splits)
  have opened: "case r of Inr (Inr (h, a)) \<Rightarrow> h \<notin> opens w \<and> opens w1 = insert h (opens w)
      | _ \<Rightarrow> opens w1 = opens w \<and> r \<noteq> Inl 0 \<and> r \<noteq> Inr (Inl 0)" if a: "act o' w = (r, o1, w1)" for o' w r o1 w1
  proof (cases "od_kind o' = FdSocket")
    case False
    then show ?thesis using a by (auto simp: act_def)
  next
    case True
    obtain p o2 w2 where p: "win_accept_on_port ws o' zeroes w = (p, o2, w2)" using prod_cases3 by blast
    note pk = accept_on_port_opens [OF laws p]
    obtain m w3 where m: "wk_accept ws (od_handle o') w2 = (m, w3)" by force
    show ?thesis
    proof (cases p)
      case None
      then have "r = Inr m" "w1 = w3" "opens w2 = opens w" using a True p m pk by (auto simp: act_def)
      then show ?thesis
        using m open_keeps(8) [OF laws, of "od_handle o'" w2 _ w3] open_keeps(9) [OF laws, of "od_handle o'" w2 _ _ w3]
        by (cases m) (auto split: prod.splits)
    next
      case (Some q)
      then have "r = Inr q" "w1 = w2" using a True p by (auto simp: act_def)
      then show ?thesis using pk Some by (auto split: sum.splits prod.splits)
    qed
  qed
  obtain r t1 w1 where call: "on_fd e fd (Inl SPPC_EBADF) act t w = (r, t1, w1)" using prod_cases3 by blast
  have table: "table_ok pins t1" "ft_up t1" using on_fd_table [OF ok call] kept by blast+
  have done': "case r of Inr (Inr (h, a)) \<Rightarrow> h \<notin> opens w \<and> opens w1 = insert h (opens w)
      | _ \<Rightarrow> opens w1 = opens w \<and> r \<noteq> Inl 0 \<and> r \<noteq> Inr (Inl 0)"
  proof -
    obtain oi t2 where g: "fd_get e fd t = (oi, t2)" by force
    consider "r = Inl SPPC_EBADF" "w1 = w" | i o' o1 where "act o' w = (r, o1, w1)"
      using call g by (cases oi; cases "ft_ofds t2 (the oi)") (auto simp: on_fd_def split: prod.splits)
    then show ?thesis using opened by cases auto
  qed
  have all: "(case r of Inl err \<Rightarrow> ((err, None, zeroes), t1, w1) | Inr (Inl win) \<Rightarrow> ((wsa ws win, None, zeroes), t1, w1)
      | Inr (Inr (conn, peer)) \<Rightarrow>
          (let w2 = snd (wk_ask ws conn NoInherit (snd (wk_ask ws conn (Blocking True) w1)))
           in case win_socket_fd ws e conn False True t1 w2 of ((err, out), t2, w3) \<Rightarrow> ((err, out, peer), t2, w3))) =
      ((err, out, peer), t', w')"
    using res call unfolding sppc_accept_win_def on_socket_def act_def [symmetric] by (auto split: sum.splits)
  show ?thesis
  proof (cases "\<exists>h a. r = Inr (Inr (h, a))")
    case False
    then have "out = None \<and> err \<noteq> 0 \<and> w' = w1 \<and> opens w1 = opens w"
      using all done' by (auto simp: wsa_nonzero_of split: sum.splits prod.splits)
    then show ?thesis by (simp add: socket_owned_def)
  next
    case True
    then obtain h a where r: "r = Inr (Inr (h, a))" by blast
    define w2 where "w2 = snd (wk_ask ws h NoInherit (snd (wk_ask ws h (Blocking True) w1)))"
    have "opens w2 = insert h (opens w)" "h \<notin> opens w" using done' r open_keeps(2) [OF laws] by (simp_all add: w2_def)
    moreover have "win_socket_fd ws e h False True t1 w2 = ((err, out), t', w')"
      using all r by (auto simp: w2_def split: prod.splits)
    ultimately show ?thesis using socket_fd_owned [OF laws _ _ _ _, of pins t1 h w w2] table by blast
  qed
qed

text \<open>C16: A socket made on Windows, by socket or by accept, is the one its new descriptor names, and an error leaves
  no socket open: one made before the failure has been closed, by the call or by the table that could not take it.
\<close>

theorem sockets_owned:
  assumes laws: "open_laws ws opens" and ok: "table_ok pins t" "ft_up t"
  shows "(sppc_socket_win ws e domain type protocol t w = ((err, out), t1, w1) \<longrightarrow> socket_owned opens w err out t1 w1) \<and>
    (sppc_accept_win ws e fd zeroes t w = ((err2, out2, peer), t2, w2) \<longrightarrow> socket_owned opens w err2 out2 t2 w2)"
  using socket_owns [OF laws ok] accept_owns [OF laws ok] by blast

text \<open>A Winsock that numbers its sockets: the world is the next number and those open.\<close>

definition numbered :: "(nat \<times> nat set) win_sockets \<Rightarrow> (nat \<times> nat set) win_sockets" where
  "numbered ws = ws\<lparr>wk_os := [''AF_INET'' \<mapsto> 2, ''SOCK_STREAM'' \<mapsto> 1],
     wk_close := (\<lambda>h w. (fst w, snd w - {h})), wk_ask := (\<lambda>_ _ w. (0, w)), wk_result := (\<lambda>_ w. (Inl 1, w)),
     wk_attach := (\<lambda>_ i w. ((False, i), w)), wk_wait := (\<lambda>_ w. w),
     wk_socket := (\<lambda>_ _ _ w. (Inr (fst w), fst w + 1, insert (fst w) (snd w))),
     wk_accept := (\<lambda>_ w. (Inl 1, w))\<rparr>"

lemma sockets_owned_witness:
  "\<forall>ws. \<exists>err out t1 w1. sppc_socket_win (numbered ws) sample_env SPPC_AF_INET SPPC_SOCK_STREAM 0 sample_fds (7, {}) = ((err, out), t1, w1) \<and>
     socket_owned (\<lambda>w. {h \<in> snd w. h < fst w}) (7, {}) err out t1 w1"
  (is "\<forall>ws. ?P ws")
proof
  fix ws
  have laws: "open_laws (numbered ws) (\<lambda>w. {h \<in> snd w. h < fst w})"
    unfolding open_laws_def by (intro conjI) (auto simp: numbered_def)
  have ok: "table_ok (\<lambda>_. 0) sample_fds" "ft_up sample_fds" using sample_fds_ok by blast+
  obtain err out t1 w1 where
    "sppc_socket_win (numbered ws) sample_env SPPC_AF_INET SPPC_SOCK_STREAM 0 sample_fds (7, {}) = ((err, out), t1, w1)"
    by (metis prod.collapse)
  then show "?P ws" using sockets_owned [OF laws ok, THEN conjunct1, rule_format] by blast
qed

end
