(* ===== verification/WinPoll.thy ===== *)
theory WinPoll
  imports WinSockets
begin

text \<open>
  Readiness on Windows (platform/windows.h, SOCKETS: readiness): poll and select over descriptors of every kind.
  The consoles' and pipes' states, the clock and the sleep are arguments. While something that is no socket could
  become ready, poll goes round in slices of 10 ms: its loop has fuel, None being a poll that is still waiting.
\<close>

section \<open>What is ready\<close>

record 'w win_poll =
  pl_peek :: "nat \<Rightarrow> 'w \<Rightarrow> nat option"     \<comment> \<open>PeekNamedPipe: what is there, None when its writers have gone\<close>
  pl_events :: "nat \<Rightarrow> 'w \<Rightarrow> nat option"   \<comment> \<open>GetNumberOfConsoleInputEvents\<close>
  pl_ticks :: "'w \<Rightarrow> nat"                  \<comment> \<open>GetTickCount64\<close>
  pl_sleep :: "int \<Rightarrow> 'w \<Rightarrow> 'w"            \<comment> \<open>Sleep, -1 for ever\<close>
  pl_mem :: bool

definition wants_in :: "int \<Rightarrow> int" where "wants_in events = events AND (SPPC_POLLIN OR SPPC_POLLRDNORM)"
definition wants_out :: "int \<Rightarrow> int" where "wants_out events = events AND (SPPC_POLLOUT OR SPPC_POLLWRNORM)"

text \<open>Which of the events there are now, and whether one may still come.\<close>

definition win_ready :: "'w win_poll \<Rightarrow> ofd \<Rightarrow> int \<Rightarrow> 'w \<Rightarrow> int \<times> bool" where
  "win_ready pl o' events w =
     (let inp = wants_in events; out = wants_out events in
      if od_disk o' then (inp OR out, False)
      else if od_kind o' = FdConsoleIn
      then (if (case pl_events pl (od_handle o') w of Some n \<Rightarrow> n > 0 | None \<Rightarrow> False) then (inp, False) else (0, inp \<noteq> 0))
      else if od_kind o' = FdConsoleOut then (out, False)
      else
        let (r, waits) =
          (if \<not> reads o' then (0, False)
           else case pl_peek pl (od_handle o') w of
             None \<Rightarrow> (SPPC_POLLHUP, False)
           | Some n \<Rightarrow> if n > 0 then (inp, False) else (0, inp \<noteq> 0))
        in (if writes o' then r OR out else r, waits))"

section \<open>Poll\<close>

text \<open>An entry and the description its fd had.\<close>

type_synonym poll_entry = "sppc_pollfd \<times> (nat \<times> ofd) option"

definition int16 :: "int \<Rightarrow> int" where "int16 x = signed_take_bit 15 x"

definition is_socket_entry :: "poll_entry \<Rightarrow> bool" where
  "is_socket_entry p \<longleftrightarrow> (case snd p of Some (_, o') \<Rightarrow> od_kind o' = FdSocket | None \<Rightarrow> False)"

primrec poll_open :: "fd_env \<Rightarrow> sppc_pollfd list \<Rightarrow> fd_table \<Rightarrow> poll_entry list \<times> fd_table" where
  "poll_open e [] t = ([], t)"
| "poll_open e (p # ps) t =
     (let (entry, t1) =
        (if pf_fd p < 0 then ((p\<lparr>pf_revents := 0\<rparr>, None), t)
         else case fd_get e (pf_fd p) t of
           (None, t1) \<Rightarrow> ((p\<lparr>pf_revents := SPPC_POLLNVAL\<rparr>, None), t1)
         | (Some i, t1) \<Rightarrow> ((p\<lparr>pf_revents := 0\<rparr>, map_option (Pair i) (ft_ofds t1 i)), t1));
          (entries, t2) = poll_open e ps t1
      in (entry # entries, t2))"

definition poll_close :: "poll_entry list \<Rightarrow> fd_table \<Rightarrow> fd_table" where
  "poll_close = fold (\<lambda>p. ofd_release (map_option fst (snd p)))"

text \<open>What Winsock is asked of an entry's socket.\<close>

definition asked_of :: "'w win_sockets \<Rightarrow> poll_entry \<Rightarrow> nat \<times> int" where
  "asked_of ws p =
     (case snd p of Some (_, o') \<Rightarrow> od_handle o' | None \<Rightarrow> 0,
      (case sppc_to_os_flags (pf_events (fst p)) (sppc_poll_table (wk_os ws)) of Inr os \<Rightarrow> os | Inl _ \<Rightarrow> 0) AND
        NOT (mac (wk_os ws) ''POLLPRI''))"

text \<open>An entry that is no socket, looked at; with whether it may still change.\<close>

definition looked_at :: "'w win_poll \<Rightarrow> 'w \<Rightarrow> poll_entry \<Rightarrow> poll_entry \<times> bool" where
  "looked_at pl w p =
     (case snd p of
        Some (i, o') \<Rightarrow>
          if od_kind o' \<noteq> FdSocket
          then (case win_ready pl o' (pf_events (fst p)) w of
                  (r, waits) \<Rightarrow> (((fst p)\<lparr>pf_revents := int16 r\<rparr>, snd p), waits))
          else (p, False)
      | None \<Rightarrow> (p, False))"

definition socket_events :: "'w win_sockets \<Rightarrow> int \<Rightarrow> int \<Rightarrow> int" where
  "socket_events ws events got =
     int16 (sppc_from_os_flags got (sppc_poll_table (wk_os ws))) OR
     (if got AND mac (wk_os ws) ''POLLIN'' \<noteq> 0 then int16 (events AND SPPC_POLLIN) else 0)"

text \<open>What WSAPoll found, given to the entries that are sockets, in their order.\<close>

fun give_events :: "'w win_sockets \<Rightarrow> int list \<Rightarrow> poll_entry list \<Rightarrow> poll_entry list" where
  "give_events ws got [] = []"
| "give_events ws got (p # ps) =
     (if is_socket_entry p
      then (case got of
              g # got1 \<Rightarrow> ((fst p)\<lparr>pf_revents := socket_events ws (pf_events (fst p)) g\<rparr>, snd p) # give_events ws got1 ps
            | [] \<Rightarrow> p # give_events ws [] ps)
      else p # give_events ws got ps)"

definition ready_entries :: "poll_entry list \<Rightarrow> int" where
  "ready_entries ps = int (length (filter (\<lambda>p. pf_revents (fst p) \<noteq> 0) ps))"

definition INT_MAX :: int where "INT_MAX = 2 ^ 31 - 1"

definition time_left :: "'w win_poll \<Rightarrow> int \<Rightarrow> nat \<Rightarrow> 'w \<Rightarrow> int" where
  "time_left pl timeout start w =
     (if timeout \<ge> 0
      then if int (pl_ticks pl w - start) \<ge> timeout then 0 else timeout - int (pl_ticks pl w - start)
      else INT_MAX)"

definition poll_slice :: "int \<Rightarrow> bool \<Rightarrow> int \<Rightarrow> int \<Rightarrow> int" where
  "poll_slice ready waits left timeout =
     (if ready > 0 then 0 else if waits then if left < 10 then left else 10 else if timeout < 0 then - 1 else left)"

text \<open>One round: the error, how many are ready, whether it is the last, and the entries.\<close>

definition poll_round ::
  "'w win_sockets \<Rightarrow> 'w win_poll \<Rightarrow> int \<Rightarrow> nat \<Rightarrow> poll_entry list \<Rightarrow> 'w \<Rightarrow> (int \<times> int \<times> bool) \<times> poll_entry list \<times> 'w" where
  "poll_round ws pl timeout start ps w =
     (let looked = map (looked_at pl w) ps;
          ps1 = map fst looked;
          waits = list_ex snd looked;
          ready = ready_entries ps1;
          left = time_left pl timeout start w;
          slice = poll_slice ready waits left timeout;
          sockets = filter is_socket_entry ps1
      in if sockets \<noteq> []
         then (case wk_poll ws (map (asked_of ws) sockets) slice w of
                 (Inl win, w1) \<Rightarrow> ((wsa ws win, ready, True), ps1, w1)
               | (Inr got, w1) \<Rightarrow>
                   (let ps2 = give_events ws got ps1; n = ready + ready_entries (filter is_socket_entry ps2)
                    in ((0, n, n > 0 \<or> left = 0 \<or> \<not> waits), ps2, w1)))
         else ((0, ready, ready > 0 \<or> left = 0 \<or> (\<not> waits \<and> slice \<noteq> 0)), ps1,
               if ready = 0 \<and> slice \<noteq> 0 then pl_sleep pl slice w else w))"

fun poll_loop ::
  "nat \<Rightarrow> 'w win_sockets \<Rightarrow> 'w win_poll \<Rightarrow> int \<Rightarrow> nat \<Rightarrow> poll_entry list \<Rightarrow> 'w \<Rightarrow> ((int \<times> int) \<times> poll_entry list \<times> 'w) option" where
  "poll_loop fuel ws pl timeout start ps w =
     (if fuel = 0 then None
      else case poll_round ws pl timeout start ps w of
        ((err, n, over), ps1, w1) \<Rightarrow>
          if over then Some ((err, n), ps1, w1) else poll_loop (fuel - 1) ws pl timeout start ps1 w1)"

declare poll_loop.simps [simp del]

text \<open>The error and the count, the entries, the table and the world after.\<close>

definition sppc_poll_win ::
  "nat \<Rightarrow> 'w win_sockets \<Rightarrow> 'w win_poll \<Rightarrow> fd_env \<Rightarrow> sppc_pollfd list \<Rightarrow> int \<Rightarrow> fd_table \<Rightarrow> 'w \<Rightarrow>
     ((int \<times> int) \<times> sppc_pollfd list \<times> fd_table \<times> 'w) option" where
  "sppc_poll_win fuel ws pl e fds timeout t w =
     (if length fds > 65536 \<or>
         list_ex (\<lambda>p. isl (sppc_to_os_flags (pf_events p) (sppc_poll_table (wk_os ws)))) fds
      then Some ((SPPC_EINVAL, - 1), fds, t, w)
      else if fds \<noteq> [] \<and> \<not> pl_mem pl then Some ((SPPC_ENOMEM, - 1), fds, t, w)
      else case poll_open e fds t of
        (ps, t1) \<Rightarrow>
          (case poll_loop fuel ws pl timeout (pl_ticks pl w) ps w of
             None \<Rightarrow> None
           | Some ((err, n), ps1, w1) \<Rightarrow>
               Some (if err \<noteq> 0 then (err, - 1) else (0, n), map fst ps1, poll_close ps1 t1, w1)))"

section \<open>Select\<close>

definition set_has :: "sppc_fd_set \<Rightarrow> nat \<Rightarrow> bool" where "set_has s fd = bit (s ! (fd div 64)) (fd mod 64)"

definition set_add :: "nat \<Rightarrow> sppc_fd_set \<Rightarrow> sppc_fd_set" where
  "set_add fd s = s[fd div 64 := s ! (fd div 64) OR push_bit (fd mod 64) 1]"

text \<open>What each of the three sets asks of poll, and what of it meets it.\<close>

definition select_asks :: "int list" where "select_asks = [SPPC_POLLIN, SPPC_POLLOUT, SPPC_POLLPRI]"

definition select_meets :: "int list" where
  "select_meets = [((SPPC_POLLIN OR SPPC_POLLRDNORM) OR SPPC_POLLHUP) OR SPPC_POLLERR,
     (SPPC_POLLOUT OR SPPC_POLLWRNORM) OR SPPC_POLLERR, SPPC_POLLPRI OR SPPC_POLLRDBAND]"

definition select_events :: "sppc_fd_set option list \<Rightarrow> nat \<Rightarrow> int" where
  "select_events sets fd =
     fold (OR) (map2 (\<lambda>s a. case s of Some b \<Rightarrow> if set_has b fd then a else 0 | None \<Rightarrow> 0) sets select_asks) 0"

definition select_fds :: "nat \<Rightarrow> sppc_fd_set option list \<Rightarrow> sppc_pollfd list" where
  "select_fds nfds sets =
     map (\<lambda>fd. \<lparr>pf_fd = int fd, pf_events = select_events sets fd, pf_revents = 0\<rparr>)
       (filter (\<lambda>fd. select_events sets fd \<noteq> 0) [0..<nfds])"

definition select_ms :: "sppc_timeval option \<Rightarrow> int" where
  "select_ms timeout =
     (case timeout of None \<Rightarrow> - 1
      | Some tv \<Rightarrow> if uint (timeval_ms tv) > INT_MAX then INT_MAX else uint (timeval_ms tv))"

text \<open>The fds a set is met by.\<close>

definition select_met :: "sppc_pollfd list \<Rightarrow> int \<Rightarrow> int \<Rightarrow> nat list" where
  "select_met fds ask meet =
     map (\<lambda>p. nat (pf_fd p)) (filter (\<lambda>p. pf_events p AND ask \<noteq> 0 \<and> pf_revents p AND meet \<noteq> 0) fds)"

definition marked :: "nat list \<Rightarrow> sppc_fd_set" where "marked fds = fold set_add fds (replicate 16 0)"

definition select_left :: "int \<Rightarrow> nat \<Rightarrow> sppc_timeval" where
  "select_left ms gone =
     (let left = (if ms > int gone then ms - int gone else 0)
      in \<lparr>tv_secs = word_of_int (left div 1000), tv_usecs = word_of_int (left mod 1000 * 1000)\<rparr>)"

definition sppc_select_win ::
  "nat \<Rightarrow> 'w win_sockets \<Rightarrow> 'w win_poll \<Rightarrow> fd_env \<Rightarrow> int \<Rightarrow> sppc_fd_set option list \<Rightarrow> sppc_timeval option \<Rightarrow> fd_table \<Rightarrow> 'w \<Rightarrow>
     ((int \<times> int) \<times> sppc_fd_set option list \<times> sppc_timeval option \<times> fd_table \<times> 'w) option" where
  "sppc_select_win fuel ws pl e nfds sets timeout t w =
     (if nfds < 0 \<or> nfds > 1024 \<or> (case timeout of Some tv \<Rightarrow> tv_usecs tv \<ge> 1000000 | None \<Rightarrow> False)
      then Some ((SPPC_EINVAL, - 1), sets, timeout, t, w)
      else case sppc_poll_win fuel ws pl e (select_fds (nat nfds) sets) (select_ms timeout) t w of
        None \<Rightarrow> None
      | Some ((err, _), fds, t1, w1) \<Rightarrow>
          if err \<noteq> 0 then Some ((err, - 1), sets, timeout, t1, w1)
          else if list_ex (\<lambda>p. pf_revents p AND SPPC_POLLNVAL \<noteq> 0) fds then Some ((SPPC_EBADF, - 1), sets, timeout, t1, w1)
          else
            let met = map2 (\<lambda>s (ask, meet). map_option (\<lambda>_. select_met fds ask meet) s) sets (zip select_asks select_meets)
            in Some ((0, sum_list (map (\<lambda>m. case m of Some fs \<Rightarrow> int (length fs) | None \<Rightarrow> 0) met)),
                     map (map_option marked) met,
                     map_option (\<lambda>_. select_left (select_ms timeout) (pl_ticks pl w1 - pl_ticks pl w)) timeout, t1, w1))"

section \<open>Poll counts what is ready\<close>

definition same_entry :: "poll_entry \<Rightarrow> poll_entry \<Rightarrow> bool" where
  "same_entry p q \<longleftrightarrow> pf_fd (fst q) = pf_fd (fst p) \<and> pf_events (fst q) = pf_events (fst p) \<and> snd q = snd p \<and> (snd p = None \<longrightarrow> q = p)"

lemma same_entry_trans: "same_entry p q \<Longrightarrow> same_entry q r \<Longrightarrow> same_entry p r"
  by (auto simp: same_entry_def)

lemma same_all_trans: "list_all2 same_entry ps qs \<Longrightarrow> list_all2 same_entry qs rs \<Longrightarrow> list_all2 same_entry ps rs"
  by (rule list_all2_trans [OF same_entry_trans])

lemma looked_same: "same_entry p (fst (looked_at pl w p))"
  by (auto simp: looked_at_def same_entry_def split: option.splits prod.splits)

lemma give_same: "list_all2 same_entry ps (give_events ws got ps)"
  by (induction ws got ps rule: give_events.induct)
    (auto simp: same_entry_def is_socket_entry_def split: list.splits)

text \<open>Until something is ready, no socket's entry says so.\<close>

definition sockets_idle :: "poll_entry list \<Rightarrow> bool" where
  "sockets_idle ps \<longleftrightarrow> (\<forall>p \<in> set ps. is_socket_entry p \<longrightarrow> pf_revents (fst p) = 0)"

lemma ready_Cons: "ready_entries (p # ps) = (if pf_revents (fst p) \<noteq> 0 then 1 else 0) + ready_entries ps"
  by (simp add: ready_entries_def)

lemma ready_none: "ready_entries ps \<le> 0 \<Longrightarrow> sockets_idle ps"
  by (auto simp: ready_entries_def sockets_idle_def filter_empty_conv)

lemma give_ready:
  "sockets_idle ps \<Longrightarrow> ready_entries (give_events ws got ps) =
     ready_entries ps + ready_entries (filter is_socket_entry (give_events ws got ps))"
proof (induction ws got ps rule: give_events.induct)
  case (2 ws got p ps)
  have "is_socket_entry ((fst p)\<lparr>pf_revents := x\<rparr>, snd p) = is_socket_entry p" for x by (simp add: is_socket_entry_def)
  then show ?case using 2 by (auto simp: ready_Cons sockets_idle_def split: list.splits)
qed (simp add: ready_entries_def)

lemma looked_idle: "sockets_idle ps \<Longrightarrow> sockets_idle (map (fst \<circ> looked_at pl w) ps)"
  by (auto simp: sockets_idle_def is_socket_entry_def looked_at_def split: option.splits prod.splits if_splits)

lemma round_counts:
  assumes idle: "sockets_idle ps" and res: "poll_round ws pl timeout start ps w = ((err, n, over), ps1, w1)"
  shows "n = ready_entries ps1 \<and> list_all2 same_entry ps ps1 \<and> (\<not> over \<longrightarrow> sockets_idle ps1)"
proof -
  define looked where "looked = map (fst \<circ> looked_at pl w) ps"
  have idle1: "sockets_idle looked" using looked_idle [OF idle] by (simp add: looked_def)
  have same1: "list_all2 same_entry ps looked" by (simp add: looked_def list_all2_map2 looked_same list_all2_same)
  show ?thesis
  proof (cases "filter is_socket_entry looked = []")
    case True
    then have "n = ready_entries looked" "ps1 = looked" "over \<or> ready_entries looked \<le> 0"
      using res by (auto simp: poll_round_def Let_def looked_def comp_def)
    then show ?thesis using same1 ready_none by auto
  next
    case False
    define slice where "slice = poll_slice (ready_entries looked) (list_ex snd (map (looked_at pl w) ps)) (time_left pl timeout start w) timeout"
    obtain m w2 where m: "wk_poll ws (map (asked_of ws) (filter is_socket_entry looked)) slice w = (m, w2)" by force
    show ?thesis
    proof (cases m)
      case (Inl win)
      then have "n = ready_entries looked" "ps1 = looked" "over"
        using res m False by (auto simp: poll_round_def Let_def looked_def slice_def comp_def)
      then show ?thesis using same1 by auto
    next
      case (Inr got)
      then have ps1: "ps1 = give_events ws got looked" and n: "n = ready_entries looked + ready_entries (filter is_socket_entry ps1)"
        and over: "over \<or> n \<le> 0"
        using res m False by (auto simp: poll_round_def Let_def looked_def slice_def comp_def)
      have "n = ready_entries ps1" using give_ready [OF idle1, of ws got] n ps1 by metis
      then show ?thesis using same_all_trans [OF same1 give_same] ps1 over ready_none by auto
    qed
  qed
qed

lemma loop_counts:
  "sockets_idle ps \<Longrightarrow> poll_loop fuel ws pl timeout start ps w = Some ((err, n), ps1, w1) \<Longrightarrow>
   n = ready_entries ps1 \<and> list_all2 same_entry ps ps1"
proof (induction fuel arbitrary: ps w)
  case (Suc fuel)
  obtain err2 n2 over ps2 w2 where r: "poll_round ws pl timeout start ps w = ((err2, n2, over), ps2, w2)" by (metis prod.collapse)
  note rc = round_counts [OF Suc.prems(1) r]
  show ?case
  proof (cases over)
    case True
    then show ?thesis using Suc.prems(2) r rc by (auto simp: poll_loop.simps [of "Suc fuel"])
  next
    case False
    then have "poll_loop fuel ws pl timeout start ps2 w2 = Some ((err, n), ps1, w1)"
      using Suc.prems(2) r by (simp add: poll_loop.simps [of "Suc fuel"])
    then show ?thesis using Suc.IH [of ps2 w2] rc False same_all_trans by blast
  qed
qed (simp add: poll_loop.simps)

text \<open>An entry as it is opened.\<close>

definition opened_entry :: "fd_table \<Rightarrow> sppc_pollfd \<Rightarrow> poll_entry \<Rightarrow> bool" where
  "opened_entry t p q \<longleftrightarrow> pf_fd (fst q) = pf_fd p \<and> pf_events (fst q) = pf_events p \<and>
     (if pf_fd p < 0 then snd q = None \<and> pf_revents (fst q) = 0
      else if slot_ofd t (nat (pf_fd p)) = None then snd q = None \<and> pf_revents (fst q) = SPPC_POLLNVAL
      else snd q \<noteq> None \<and> pf_revents (fst q) = 0)"

lemma poll_opened:
  "ft_up t \<Longrightarrow> (\<And>fd i. slot_ofd t fd = Some i \<Longrightarrow> ft_ofds t i \<noteq> None) \<Longrightarrow> poll_open e fds t = (ps, t1) \<Longrightarrow>
   list_all2 (opened_entry t) fds ps"
proof (induction fds arbitrary: t ps t1)
  case (Cons p fds)
  obtain q t2 where q: "(if pf_fd p < 0 then ((p\<lparr>pf_revents := 0\<rparr>, None), t)
         else case fd_get e (pf_fd p) t of
           (None, t1) \<Rightarrow> ((p\<lparr>pf_revents := SPPC_POLLNVAL\<rparr>, None), t1)
         | (Some i, t1) \<Rightarrow> ((p\<lparr>pf_revents := 0\<rparr>, map_option (Pair i) (ft_ofds t1 i)), t1)) = (q, t2)"
    by (rule prod.exhaust)
  have same: "ft_up t2" "slot_ofd t2 = slot_ofd t" "\<And>i. ft_ofds t2 i = None \<longleftrightarrow> ft_ofds t i = None"
  proof -
    have "t2 = t \<or> (\<exists>i. t2 = ofd_retain i t)" using q by (auto simp: get_up [OF Cons.prems(1)] split: if_splits option.splits)
    then show "ft_up t2" "slot_ofd t2 = slot_ofd t" "\<And>i. ft_ofds t2 i = None \<longleftrightarrow> ft_ofds t i = None"
      using Cons.prems(1) by (auto simp: ofd_retain_def slot_ofd_def fun_eq_iff split: if_splits)
  qed
  have entry: "opened_entry t p q"
  proof (cases "pf_fd p < 0 \<or> slot_ofd t (nat (pf_fd p)) = None")
    case True
    then show ?thesis using q by (auto simp: opened_entry_def get_up [OF Cons.prems(1)] split: if_splits)
  next
    case False
    then obtain i where i: "slot_ofd t (nat (pf_fd p)) = Some i" by auto
    then have "q = (p\<lparr>pf_revents := 0\<rparr>, map_option (Pair i \<circ> add_ref 1) (ft_ofds t i))"
      using q False by (auto simp: get_up [OF Cons.prems(1)] ofd_retain_def option.map_comp)
    then show ?thesis using i False Cons.prems(2) [OF i] by (auto simp: opened_entry_def)
  qed
  obtain qs t3 where qs: "poll_open e fds t2 = (qs, t3)" by force
  have "list_all2 (opened_entry t2) fds qs" using Cons.IH [OF same(1) _ qs] Cons.prems(2) same by simp
  moreover have "opened_entry t2 = opened_entry t" by (simp add: opened_entry_def same(2) fun_eq_iff)
  ultimately show ?case using Cons.prems(3) q qs entry by auto
qed simp

lemma poll_counted:
  assumes ok: "table_ok pins t" "ft_up t"
    and res: "sppc_poll_win fuel ws pl e fds timeout t w = Some ((0, n), fds1, t1, w1)"
  shows "n = int (length (filter (\<lambda>p. pf_revents p \<noteq> 0) fds1)) \<and>
    list_all2 (\<lambda>p q. pf_fd q = pf_fd p \<and> pf_events q = pf_events p \<and> (pf_fd p < 0 \<longrightarrow> pf_revents q = 0) \<and>
      (0 \<le> pf_fd p \<and> slot_ofd t (nat (pf_fd p)) = None \<longrightarrow> pf_revents q = SPPC_POLLNVAL)) fds fds1"
proof -
  obtain ps t2 where o: "poll_open e fds t = (ps, t2)" by force
  have opened: "list_all2 (opened_entry t) fds ps"
    using poll_opened [OF ok(2) _ o] slot_lives [OF ok(1)] by blast
  have idle: "sockets_idle ps"
  proof -
    have "\<exists>p. opened_entry t p q" if "q \<in> set ps" for q
      using opened that by (auto simp: list_all2_conv_all_nth in_set_conv_nth)
    then show ?thesis
      unfolding sockets_idle_def is_socket_entry_def opened_entry_def by (metis option.case(1))
  qed
  obtain err ps1 where l: "poll_loop fuel ws pl timeout (pl_ticks pl w) ps w = Some ((err, n), ps1, w1)" "fds1 = map fst ps1"
    using res o by (auto simp: sppc_poll_win_def split: if_splits option.splits)
  note lc = loop_counts [OF idle l(1)]
  have "ready_entries ps1 = int (length (filter (\<lambda>p. pf_revents p \<noteq> 0) fds1))"
    by (simp add: ready_entries_def l(2) filter_map comp_def)
  moreover have "list_all2 (\<lambda>p q. pf_fd q = pf_fd p \<and> pf_events q = pf_events p \<and> (pf_fd p < 0 \<longrightarrow> pf_revents q = 0) \<and>
      (0 \<le> pf_fd p \<and> slot_ofd t (nat (pf_fd p)) = None \<longrightarrow> pf_revents q = SPPC_POLLNVAL)) fds fds1"
    using opened lc by (fastforce simp: l(2) list_all2_conv_all_nth opened_entry_def same_entry_def split: if_splits)
  ultimately show ?thesis using lc by simp
qed

text \<open>C17: Poll on Windows, over sockets and everything else, says how many of its entries have something to
  tell, after however many rounds; it changes nothing of an entry but that, skips a negative fd, and tells of one that is not open.
\<close>

theorem poll_counts_ready:
  assumes ok: "table_ok pins t" "ft_up t"
    and res: "sppc_poll_win fuel ws pl e fds timeout t w = Some ((0, n), fds1, t1, w1)"
  shows "n = int (length (filter (\<lambda>p. pf_revents p \<noteq> 0) fds1)) \<and>
    list_all2 (\<lambda>p q. pf_fd q = pf_fd p \<and> pf_events q = pf_events p \<and> (pf_fd p < 0 \<longrightarrow> pf_revents q = 0) \<and>
      (0 \<le> pf_fd p \<and> slot_ofd t (nat (pf_fd p)) = None \<longrightarrow> pf_revents q = SPPC_POLLNVAL)) fds fds1"
  by (rule poll_counted [OF assms])

section \<open>Select marks what is ready\<close>

lemma add_length [simp]: "length (set_add fd s) = length s"
  by (simp add: set_add_def)

lemma add_has:
  "length s = 16 \<Longrightarrow> fd < 1024 \<Longrightarrow> k < 1024 \<Longrightarrow> set_has (set_add fd s) k \<longleftrightarrow> set_has s k \<or> k = fd"
proof -
  assume a: "length s = 16" "fd < 1024" "k < 1024"
  have i: "fd div 64 < 16" "k div 64 < 16" using a(2,3) by simp_all
  have "k mod 64 < LENGTH(64)" "fd mod 64 < LENGTH(64)" by simp_all
  then have b: "bit (push_bit (fd mod 64) (1 :: u64)) (k mod 64) \<longleftrightarrow> k mod 64 = fd mod 64"
    by (auto simp: bit_simps possible_bit_word)
  show ?thesis
  proof (cases "k div 64 = fd div 64")
    case True
    then have "k = fd \<longleftrightarrow> k mod 64 = fd mod 64" by (metis div_mult_mod_eq)
    then show ?thesis using True i a(1) b by (auto simp: set_has_def set_add_def bit_or_iff)
  next
    case False
    then show ?thesis using i a(1) by (auto simp: set_has_def set_add_def)
  qed
qed

lemma marked_has:
  "list_all (\<lambda>fd. fd < 1024) fds \<Longrightarrow> length s = 16 \<Longrightarrow> k < 1024 \<Longrightarrow>
   set_has (fold set_add fds s) k \<longleftrightarrow> set_has s k \<or> k \<in> set fds"
  by (induction fds arbitrary: s) (auto simp: add_has)

lemma met_fds:
  assumes fds: "list_all2 (\<lambda>p q. pf_fd q = pf_fd p \<and> pf_events q = pf_events p \<and> R p q) (select_fds n sets) fds1" and n: "n \<le> 1024"
  shows "distinct (select_met fds1 ask meet)" and "list_all (\<lambda>fd. fd < 1024) (select_met fds1 ask meet)"
    and "set (select_met fds1 ask meet) \<subseteq> {..<n}"
proof -
  have "map pf_fd fds1 = map pf_fd (select_fds n sets)"
    using fds by (auto simp: list_all2_conv_all_nth intro: nth_equalityI)
  then have map1: "map (nat \<circ> pf_fd) fds1 = filter (\<lambda>fd. select_events sets fd \<noteq> 0) [0..<n]"
    by (simp add: map_map [symmetric] del: map_map) (simp add: select_fds_def comp_def)
  have sub: "distinct (map f (filter P xs))" if "distinct (map f xs)" for f :: "sppc_pollfd \<Rightarrow> nat" and P xs
    using that by (rule distinct_map_filter)
  have d: "distinct (map (nat \<circ> pf_fd) fds1)" using map1 by simp
  show "distinct (select_met fds1 ask meet)" using sub [OF d] by (simp add: select_met_def comp_def)
  have "set (select_met fds1 ask meet) \<subseteq> set (map (nat \<circ> pf_fd) fds1)" by (auto simp: select_met_def)
  then show b: "set (select_met fds1 ask meet) \<subseteq> {..<n}" unfolding map1 by auto
  show "list_all (\<lambda>fd. fd < 1024) (select_met fds1 ask meet)" using b n by (auto simp: list_all_iff)
qed

text \<open>How many of a set's descriptors there are.\<close>

definition set_card :: "sppc_fd_set option \<Rightarrow> int" where
  "set_card s = (case s of Some b \<Rightarrow> int (card {fd. fd < 1024 \<and> set_has b fd}) | None \<Rightarrow> 0)"

lemma none_has: "\<not> set_has (replicate 16 0) k" if "k < 1024"
proof -
  have "k div 64 < 16" using that by simp
  then show ?thesis by (simp add: set_has_def)
qed

lemma marked_card:
  assumes "distinct fds" "list_all (\<lambda>fd. fd < 1024) fds"
  shows "{fd. fd < 1024 \<and> set_has (marked fds) fd} = set fds" and "set_card (Some (marked fds)) = int (length fds)"
proof -
  show a: "{fd. fd < 1024 \<and> set_has (marked fds) fd} = set fds"
    using assms(2) marked_has [OF assms(2), of "replicate 16 0"] none_has
    by (auto simp: marked_def list_all_iff)
  show "set_card (Some (marked fds)) = int (length fds)"
    using assms(1) by (simp add: set_card_def a distinct_card)
qed

definition asked_in :: "sppc_fd_set option \<Rightarrow> nat \<Rightarrow> bool" where
  "asked_in s fd \<longleftrightarrow> (case s of Some b \<Rightarrow> set_has b fd | None \<Rightarrow> False)"

lemma events_ask:
  "select_events [r, wr, x] fd AND SPPC_POLLIN \<noteq> 0 \<longleftrightarrow> asked_in r fd"
  "select_events [r, wr, x] fd AND SPPC_POLLOUT \<noteq> 0 \<longleftrightarrow> asked_in wr fd"
  "select_events [r, wr, x] fd AND SPPC_POLLPRI \<noteq> 0 \<longleftrightarrow> asked_in x fd"
  by (auto simp: select_events_def select_asks_def asked_in_def split: option.splits)

lemma met_asked:
  assumes fds: "list_all2 (\<lambda>p q. pf_fd q = pf_fd p \<and> pf_events q = pf_events p \<and> R p q) (select_fds n sets) fds1"
    and "fd \<in> set (select_met fds1 ask meet)"
  shows "fd < n \<and> select_events sets fd AND ask \<noteq> 0"
proof -
  obtain q where q: "q \<in> set fds1" "fd = nat (pf_fd q)" "pf_events q AND ask \<noteq> 0"
    using assms(2) by (auto simp: select_met_def)
  then obtain p where p: "p \<in> set (select_fds n sets)" "pf_fd q = pf_fd p" "pf_events q = pf_events p"
  proof -
    obtain i where i: "i < length fds1" "q = fds1 ! i" using q(1) by (auto simp: in_set_conv_nth)
    then show ?thesis using fds that [of "select_fds n sets ! i"] by (auto simp: list_all2_conv_all_nth)
  qed
  then show ?thesis using q by (auto simp: select_fds_def)
qed

text \<open>Select on Windows leaves in each set only descriptors that were asked for there, below the
  limit, and answers how many it left in the three together.
\<close>

theorem select_counts_marked:
  assumes ok: "table_ok pins t" "ft_up t"
    and res: "sppc_select_win fuel ws pl e nfds [r, wr, x] timeout t w = Some ((0, n), sets', timeout', t1, w1)"
  shows "n = sum_list (map set_card sets') \<and>
    list_all2 (\<lambda>s s'. (s' = None \<longleftrightarrow> s = None) \<and> (\<forall>fd < 1024. asked_in s' fd \<longrightarrow> asked_in s fd \<and> int fd < nfds)) [r, wr, x] sets'"
proof -
  have nfds: "0 \<le> nfds" "nfds \<le> 1024" using res by (auto simp: sppc_select_win_def split: if_splits)
  obtain err got fds1 where p: "sppc_poll_win fuel ws pl e (select_fds (nat nfds) [r, wr, x]) (select_ms timeout) t w =
      Some ((err, got), fds1, t1, w1)" "err = 0"
    and n: "n = sum_list (map (\<lambda>m. case m of Some fs \<Rightarrow> int (length fs) | None \<Rightarrow> 0)
        (map2 (\<lambda>s (ask, meet). map_option (\<lambda>_. select_met fds1 ask meet) s) [r, wr, x] (zip select_asks select_meets)))"
    and s': "sets' = map (map_option marked)
        (map2 (\<lambda>s (ask, meet). map_option (\<lambda>_. select_met fds1 ask meet) s) [r, wr, x] (zip select_asks select_meets))"
    using res by (auto simp: sppc_select_win_def Let_def split: if_splits option.splits)
  note poll = poll_counted [OF ok p(1) [unfolded p(2)], THEN conjunct2]
  have le: "nat nfds \<le> 1024" using nfds by simp
  note met = met_fds [OF poll le]
  have card: "set_card (Some (marked (select_met fds1 ask meet))) = int (length (select_met fds1 ask meet))" for ask meet
    by (rule marked_card(2) [OF met(1) met(2)])
  have has: "set_has (marked (select_met fds1 ask meet)) fd \<longleftrightarrow> fd \<in> set (select_met fds1 ask meet)" if "fd < 1024" for fd ask meet
    using marked_card(1) [OF met(1) met(2), of ask meet] that by blast
  note asked' = met_asked [OF poll]
  have inst: "asked_in (map_option (\<lambda>_. marked (select_met fds1 ask meet)) s) fd \<longrightarrow> asked_in s fd \<and> int fd < nfds"
    if "fd < 1024" "(s, ask) \<in> {(r, SPPC_POLLIN), (wr, SPPC_POLLOUT), (x, SPPC_POLLPRI)}" for fd s ask meet
    using that(2) asked' [of fd ask meet] events_ask [of r wr x fd] nfds(1)
    by (cases s) (auto simp: asked_in_def has [OF that(1)])
  define f where "f s ask meet = map_option (\<lambda>_. marked (select_met fds1 ask meet)) s" for s :: "sppc_fd_set option" and ask meet
  have counted: "set_card (f s ask meet) = (case map_option (\<lambda>_. select_met fds1 ask meet) s of Some fs \<Rightarrow> int (length fs) | None \<Rightarrow> 0)"
    for s ask meet using card [of ask meet] by (cases s) (simp_all add: f_def set_card_def)
  obtain m1 m2 m3 where m: "select_meets = [m1, m2, m3]" by (simp add: select_meets_def)
  have sets: "sets' = [f r SPPC_POLLIN m1, f wr SPPC_POLLOUT m2, f x SPPC_POLLPRI m3]"
    by (simp add: s' m select_asks_def f_def option.map_comp comp_def)
  have "n = sum_list (map set_card sets')" by (simp add: n sets counted m select_asks_def)
  moreover have "f s ask meet = None \<longleftrightarrow> s = None" for s ask meet by (simp add: f_def)
  moreover have each: "\<forall>fd < 1024. asked_in (f s ask meet) fd \<longrightarrow> asked_in s fd \<and> int fd < nfds"
    if "(s, ask) \<in> {(r, SPPC_POLLIN), (wr, SPPC_POLLOUT), (x, SPPC_POLLPRI)}" for s ask meet
    using inst [OF _ that] by (simp add: f_def)
  ultimately show ?thesis using each [of r 1 m1] each [of wr 4 m2] each [of x 2 m3] by (simp add: sets)
qed

text \<open>A platform with one event and nothing to wait for; the first three descriptors are files.\<close>

definition only_pollin :: "unit win_sockets \<Rightarrow> unit win_sockets" where
  "only_pollin ws = ws\<lparr>wk_os := [''POLLIN'' \<mapsto> 0x300]\<rparr>"

definition still :: "unit win_poll" where
  "still = \<lparr>pl_peek = (\<lambda>_ _. None), pl_events = (\<lambda>_ _. None), pl_ticks = (\<lambda>_. 0), pl_sleep = (\<lambda>_ w. w), pl_mem = True\<rparr>"

definition ask_in :: "int \<Rightarrow> sppc_pollfd" where "ask_in fd = \<lparr>pf_fd = fd, pf_events = SPPC_POLLIN, pf_revents = 0\<rparr>"

lemma sample_file: "\<exists>o'. ft_ofds sample_fds 0 = Some o' \<and> od_disk o' \<and> od_kind o' = FdHandle"
  by (simp add: sample_fds_def fds_ready_def fds_init_def no_fds_def sample_env_def std_slot_def slot_ofd_def
      ofd_new_def ofd_retain_def fd_kind_of_def upt_rec numeral_eq_Suc)

lemma file_and_none:
  "\<exists>fds1 t1. sppc_poll_win 1 (only_pollin ws) still sample_env [ask_in 0, ask_in 9] 5 sample_fds () = Some ((0, 2), fds1, t1, ()) \<and>
     map pf_revents fds1 = [SPPC_POLLIN, SPPC_POLLNVAL]"
proof -
  obtain o' where o': "ft_ofds sample_fds 0 = Some o'" "od_disk o'" "od_kind o' = FdHandle" using sample_file by blast
  have up: "ft_up sample_fds" using sample_fds_ok by blast
  have slots: "slot_ofd sample_fds 0 = Some 0" "slot_ofd sample_fds 9 = None"
    by (simp_all add: sample_fds_def fds_ready_def fds_init_def no_fds_def sample_env_def std_slot_def slot_ofd_def
        ofd_new_def ofd_retain_def fd_kind_of_def upt_rec numeral_eq_Suc)
  have flags: "sppc_to_os_flags SPPC_POLLIN (sppc_poll_table (wk_os (only_pollin ws))) = Inr 0x300"
    by (simp add: sppc_to_os_flags_def sppc_poll_table_def pair_table_def List.map_filter_def only_pollin_def)
  define t1 where "t1 = ofd_retain 0 sample_fds"
  have g: "fd_get sample_env 0 sample_fds = (Some 0, t1)" "fd_get sample_env 9 t1 = (None, t1)"
    using slots up by (simp_all add: t1_def get_up)
  have o1: "ft_ofds t1 0 = Some (add_ref 1 o')" using o'(1) by (simp add: t1_def)
  have open1: "poll_open sample_env [ask_in 0, ask_in 9] sample_fds =
      ([(ask_in 0, Some (0, add_ref 1 o')), ((ask_in 9)\<lparr>pf_revents := SPPC_POLLNVAL\<rparr>, None)], t1)"
    using g o1 by (simp add: ask_in_def)
  have ready: "win_ready still (add_ref 1 o') SPPC_POLLIN () = (1, False)"
    using o'(2) by (simp add: win_ready_def add_ref_def wants_in_def wants_out_def)
  have "int16 1 = 1" by (simp add: int16_def signed_take_bit_eq_if_positive)
  then have l: "poll_loop 1 (only_pollin ws) still 5 0 [(ask_in 0, Some (0, add_ref 1 o')), ((ask_in 9)\<lparr>pf_revents := SPPC_POLLNVAL\<rparr>, None)] () =
      Some ((0, 2), [((ask_in 0)\<lparr>pf_revents := 1\<rparr>, Some (0, add_ref 1 o')), ((ask_in 9)\<lparr>pf_revents := SPPC_POLLNVAL\<rparr>, None)], ())"
    using o'(3) ready
    by (simp add: poll_loop.simps poll_round_def looked_at_def ask_in_def add_ref_def is_socket_entry_def ready_entries_def Let_def)
  have c: "\<not> list_ex (\<lambda>p. isl (sppc_to_os_flags (pf_events p) (sppc_poll_table (wk_os (only_pollin ws))))) [ask_in 0, ask_in 9]"
    using flags by (simp add: ask_in_def)
  have m: "pl_mem still" "pl_ticks still () = 0" by (simp_all add: still_def)
  define es where "es = [((ask_in 0)\<lparr>pf_revents := 1\<rparr>, Some (0 :: nat, add_ref 1 o')), ((ask_in 9)\<lparr>pf_revents := SPPC_POLLNVAL\<rparr>, None)]"
  have "sppc_poll_win 1 (only_pollin ws) still sample_env [ask_in 0, ask_in 9] 5 sample_fds () =
      Some ((0, 2), map fst es, poll_close es t1, ())"
    unfolding sppc_poll_win_def open1 prod.case m(2) l es_def [symmetric] using c m(1) by simp
  moreover have "map pf_revents (map fst es) = [SPPC_POLLIN, SPPC_POLLNVAL]" by (simp add: es_def)
  ultimately show ?thesis by (intro exI conjI)
qed

lemma poll_counts_ready_witness:
  "\<forall>ws. \<exists>n fds1 t1. sppc_poll_win 1 (only_pollin ws) still sample_env [ask_in 0, ask_in 9] 5 sample_fds () = Some ((0, n), fds1, t1, ()) \<and>
     n = int (length (filter (\<lambda>p. pf_revents p \<noteq> 0) fds1)) \<and> n = 2"
  (is "\<forall>ws. ?P ws")
proof
  fix ws
  obtain fds1 t1 where p: "sppc_poll_win 1 (only_pollin ws) still sample_env [ask_in 0, ask_in 9] 5 sample_fds () = Some ((0, 2), fds1, t1, ())"
    using file_and_none by metis
  note n = poll_counts_ready [OF sample_fds_ok [THEN conjunct1] sample_fds_ok [THEN conjunct2] p, THEN conjunct1]
  show "?P ws" by (intro exI conjI, rule p, rule n) simp
qed

lemma file_alone:
  "\<exists>t1. sppc_poll_win 1 (only_pollin ws) still sample_env [ask_in 0] (- 1) sample_fds () = Some ((0, 1), [(ask_in 0)\<lparr>pf_revents := 1\<rparr>], t1, ())"
proof -
  obtain o' where o': "ft_ofds sample_fds 0 = Some o'" "od_disk o'" "od_kind o' = FdHandle" using sample_file by blast
  have up: "ft_up sample_fds" using sample_fds_ok by blast
  have flags: "sppc_to_os_flags SPPC_POLLIN (sppc_poll_table (wk_os (only_pollin ws))) = Inr 0x300"
    by (simp add: sppc_to_os_flags_def sppc_poll_table_def pair_table_def List.map_filter_def only_pollin_def)
  define t1 where "t1 = ofd_retain 0 sample_fds"
  have g: "fd_get sample_env 0 sample_fds = (Some 0, t1)" "ft_ofds t1 0 = Some (add_ref 1 o')"
    using sample_slots up o'(1) by (simp_all add: t1_def get_up)
  have open1: "poll_open sample_env [ask_in 0] sample_fds = ([(ask_in 0, Some (0, add_ref 1 o'))], t1)"
    using g by (simp add: ask_in_def)
  have ready: "win_ready still (add_ref 1 o') SPPC_POLLIN () = (1, False)"
    using o'(2) by (simp add: win_ready_def add_ref_def wants_in_def wants_out_def)
  have "int16 1 = 1" by (simp add: int16_def signed_take_bit_eq_if_positive)
  then have l: "poll_loop 1 (only_pollin ws) still (- 1) 0 [(ask_in 0, Some (0, add_ref 1 o'))] () =
      Some ((0, 1), [((ask_in 0)\<lparr>pf_revents := 1\<rparr>, Some (0, add_ref 1 o'))], ())"
    using o'(3) ready
    by (simp add: poll_loop.simps poll_round_def looked_at_def ask_in_def add_ref_def is_socket_entry_def ready_entries_def Let_def)
  have c: "\<not> list_ex (\<lambda>p. isl (sppc_to_os_flags (pf_events p) (sppc_poll_table (wk_os (only_pollin ws))))) [ask_in 0]"
    using flags by (simp add: ask_in_def)
  have m: "pl_mem still" "pl_ticks still () = 0" by (simp_all add: still_def)
  have "sppc_poll_win 1 (only_pollin ws) still sample_env [ask_in 0] (- 1) sample_fds () =
      Some ((0, 1), [(ask_in 0)\<lparr>pf_revents := 1\<rparr>], poll_close [((ask_in 0)\<lparr>pf_revents := 1\<rparr>, Some (0 :: nat, add_ref 1 o'))] t1, ())"
    unfolding sppc_poll_win_def open1 prod.case m(2) l using c m(1) by simp
  then show ?thesis by (intro exI)
qed

lemma select_counts_marked_witness:
  "\<forall>ws. \<exists>s t1. sppc_select_win 1 (only_pollin ws) still sample_env 1 [Some (marked [0]), None, None] None sample_fds () =
     Some ((0, 1), [Some s, None, None], None, t1, ()) \<and> set_card (Some s) = 1"
  (is "\<forall>ws. ?P ws")
proof
  fix ws
  obtain t1 where p: "sppc_poll_win 1 (only_pollin ws) still sample_env [ask_in 0] (- 1) sample_fds () =
      Some ((0, 1), [(ask_in 0)\<lparr>pf_revents := 1\<rparr>], t1, ())"
    using file_alone by metis
  have has: "set_has (marked [0]) 0" by (simp add: marked_def set_has_def set_add_def)
  then have fds: "select_fds (nat 1) [Some (marked [0]), None, None] = [ask_in 0]"
    by (simp add: select_fds_def select_events_def select_asks_def ask_in_def)
  have ms: "select_ms None = - 1" by (simp add: select_ms_def)
  have s: "sppc_select_win 1 (only_pollin ws) still sample_env 1 [Some (marked [0]), None, None] None sample_fds () =
      Some ((0, 1), [Some (marked [0]), None, None], None, t1, ())"
    unfolding sppc_select_win_def fds ms p
    by (simp add: Let_def select_met_def select_asks_def select_meets_def ask_in_def)
  have c: "set_card (Some (marked [0])) = 1"
    using select_counts_marked [OF sample_fds_ok [THEN conjunct1] sample_fds_ok [THEN conjunct2] s, THEN conjunct1]
    by (simp add: set_card_def [of None])
  show "?P ws" by (intro exI conjI, rule s, rule c)
qed

end
