(* ===== verification/Spec2Isabelle.thy ===== *)
theory Spec2Isabelle
  imports SchedProps UringProps IocpProps ContextProps Types Errors Elf Onces
    WinErrors WinThreads WinLocks WinRwlocks WinConds Barriers WinHeap WinBoot WinFiles
    WinMaps WinPoll
begin

text \<open>
  The runtime library of S++ programs: a C library of headers under headers/sppc, compiled once for
  each platform. It has four parts.

  \<^item> The async runtime (async/): green threads of one system thread, switched between by hand, with
  an i/o backend under them that lets the others run while one waits.
  \<^item> The public interface over the operating system (platform/): files, sockets, processes, memory,
  threads and time with one set of types and error numbers on every platform (types.h, errors.h).
  \<^item> Crash reporting (backtrace/): the message of a failed check, with the stack it failed under.
  \<^item> Closures (closure.h), which hand code and what it captured to a thread, a task or a once.

  They meet in a few places. A task or a thread consumes a closure. A call of the interface that would
  block first tries the runtime (\<^verbatim>\<open>_gt_try_*\<close>), which parks the task on the backend where it can; the
  locks of the interface taken from a task let the thread's other tasks run. On Windows the sockets'
  transfers go through the runtime's completion port. A failed check and a fatal signal end in a report.

  How the model follows the code. A definition has the name of its function without the leading
  underscore; one that Windows has of its own ends in \<^verbatim>\<open>_win\<close> or carries \<^verbatim>\<open>win_\<close>. A struct is a record, an
  enumeration a datatype, a C integer a word of its width where its wrap-around can be reached (the
  scheduler's counters, handles, rings, the string and ELF arithmetic, the error tables) and an integer
  where the code guards its range first. What is not under headers/ is an argument: the kernel, the C
  library, Winsock, the loader, the values of the platform's macros. It is a record of functions over
  a world of any type, and what a theorem relies on is a named predicate over it (\<^verbatim>\<open>open_laws\<close>,
  \<^verbatim>\<open>env_laws\<close>, \<^verbatim>\<open>uring_kernel\<close> and so on), met by a concrete instance in the theorem's witness. An error is a
  value; a loop that can fail to end is a \<^verbatim>\<open>partial_function\<close> whose None is not ending, and one whose end
  depends on the system has fuel.
\<close>

section \<open>The async runtime\<close>

text \<open>
  \<^item> Runtime, Closure, Vmem, Queues: the types (async/runtime.h), closures (closure.h), task stacks and their
  cache (async/vmem.h), and the lists and slots of async/sched.h. A pointer to a task is its index in
  the slot table; a list linked through the tasks is a path in a heap (Prelude). A loop over one is a
  \<^verbatim>\<open>partial_function\<close>, as a cyclic list would never end; \<^verbatim>\<open>repr\<close> excludes it.
  \<^item> Sched, Locks: the operations of async/sched.h, split where the processor leaves a task: an operation
  returns the phase its thread is then in, with the runtime, so a saved stack pointer is the place in the
  code where its task carries on (\<^verbatim>\<open>gt_frame\<close>).
  \<^item> SchedSpec is the scheduler without pointers, its queues lists and its invariant \<^verbatim>\<open>core\<close>. SchedRefine
  shows that each operation implements its abstract one (\<^verbatim>\<open>repr\<close>), for any backend that keeps the locale
  \<^verbatim>\<open>gt_backend\<close>; SchedSteps has the step relation of the whole thread and its invariant.
  \<^item> Blocking and Uring are the backends without and with io_uring; UringSpec shows that io_uring keeps
  \<^verbatim>\<open>gt_backend\<close>, for every kernel that keeps \<^verbatim>\<open>uring_kernel\<close>.
  \<^item> Iocp and IocpProps are Windows' backend (async/iocp.h): the completion port, the sleepers in the order of their
  deadlines and the timer. It keeps \<^verbatim>\<open>gt_backend\<close> for every port that keeps \<^verbatim>\<open>completion_port\<close>; a poll wakes exactly the
  sleepers that are due when its wait is over, and the end of a runtime cancels and waits out what the kernel still has of
  its tasks.
  \<^item> Context, ContextSym and ContextProps go below that: the assembly of the switch of each calling convention (asm/), the
  stack a new task is given (async/context.h) and Windows' fibers. A routine is run symbolically (ContextSym shows the run
  to agree with the machine), and the result compared with what the convention promises: a task carries on with
  its registers as they were, and a new one at its entry.
  \<^item> SchedProps and UringProps have the guarantees: no task is lost or run twice, an awaiter carries on once its
  task is done, stale handles are refused, entries of the ring are claimed when free, and the places where the
  code falls short (a detach of an awaited task, a refused submission).
\<close>

section \<open>What the platforms share\<close>

text \<open>
  \<^item> Types, Errors, Shared: types.h, errors.h and the translation tables of platform/shared.h, with the identity
  that compiles a table away shown to agree with it.
  \<^item> Strings, Threads: platform/common.h: memory and strings within their regions (None for an access outside),
  socket addresses, threads' closures, onces, the objects behind handles of locks, and the streams.
  \<^item> Onces: the once Darwin and FreeBSD build on an int, across any number of threads and nested calls: turns of one atomic
  access each, in any order, as a list of moves; \<^verbatim>\<open>onces_ok\<close> is what every such list keeps. Threads has the same calls
  on one thread, where a function runs to its end.
  \<^item> Posix, PosixCalls: platform/posix.h: its helpers, and every public call as the checks and translations
  around the system's.
  \<^item> Backtrace, Elf: the report's buffer and formatting, signals, and reading an object's symbols out of its
  file, an ELF64 file of any content.
\<close>

section \<open>Windows\<close>

text \<open>
  platform/windows.h builds most of the interface itself.

  \<^item> WinErrors, WinClock, WinBoot: its error numbers, clocks and sleeps, start and split stack.
  \<^item> WinLocks, WinRwlocks, WinConds, Barriers: mutexes, read-write locks, condition variables, spin locks and
  barriers, as step relations of one memory access a step; the theorems are invariants by rule induction,
  over every interleaving of any number of threads. Darwin's own spin locks and barriers keep the same
  locales (\<^verbatim>\<open>spin_lock\<close>, \<^verbatim>\<open>barrier\<close>).
  \<^item> WinThreads: thread objects from their creation to their release, and thread-specific data.
  \<^item> WinHeap: the header kept below each block. The C library's heap places blocks where it likes; \<^verbatim>\<open>heap_ok\<close>
  says that blocks are apart and every header is true.
  \<^item> FdTable: the table of descriptors and the counted descriptions behind it; \<^verbatim>\<open>table_ok\<close> says that a description
  is counted once for each slot and each call that uses it. Console, WinIO, WinControl, WinFiles, WinPaths,
  WinSockets, WinPoll use it: consoles in UTF-8, reads, writes and copies, flags and record locks,
  paths and their metadata, sockets with the completion port's transfer, readiness.
  \<^item> WinProcess, WinMaps: the environment and other processes; mappings of memory, whose loops over regions are
  \<^verbatim>\<open>walk\<close>, shown to end as each region moves it on.
\<close>

section \<open>Bounds and fuel\<close>

text \<open>
  \<^item> \<^verbatim>\<open>copy_loop\<close>, \<^verbatim>\<open>nanosleep_loop\<close> and the loops over tables take the fuel their theorem shows to be
  enough, or are structural.
  \<^item> poll and select on Windows go round until something is ready or the time is up: None is a call that is
  still waiting after the fuel given, and what they answer holds whatever the fuel.
  \<^item> The end of a runtime on Windows waits for as many packets as operations are outstanding: shown to end when a
  wait gives a packet while operations are outstanding that have all been cancelled.
  \<^item> A handle's generation has 11 bits: a handle is told from one 2047 lives of its slot later by nothing, and the
  theorem about stale handles is for fewer.
\<close>

section \<open>Not modelled\<close>

text \<open>
  In the scheduler a switch is the change of the task running: what it does to registers is in ContextProps, and the two are
  not joined. Windows' fiber branches of async/sched.h; the macros of
  config.h and macros.h, which only choose among branches and wrap calls; the frames of a stack, which the unwinder
  gives; registers read out of a signal's context. sppc.c only emits the inline functions and holds the globals, which
  are fields of the records here. platform/linux.h, platform/freebsd.h and the rest of platform/darwin.h (sendfile,
  sealing, locks tried in turns); the PE and Mach-O halves of crash reporting (backtrace/pe.h, backtrace/macho.h); the
  wrappers of async.h. Data races outside the step relations are not looked at: a call under one
  hold of its lock is one step.
\<close>

end
